(* ===== verification/Rts_Prelude.thy ===== *)
theory Rts_Prelude
  imports Main
begin

section \<open>Shared notions of the development\<close>

text \<open>
  A C function of the runtime system is modelled as a function from the state to either an
  error (a failed assertion, a call of \<open>Cilk_die_internal\<close>, a wild pointer, a lock that is not
  free) or a result and the state it leaves. This theory holds that error-and-state monad, the
  weakest precondition calculus the component proofs run on, and the generic lemmas on lists and
  maps that several components share.
\<close>

type_synonym ('e, 's, 'a) prog = "'s \<Rightarrow> 'e + ('a \<times> 's)"

definition ret :: "'a \<Rightarrow> ('e, 's, 'a) prog" where
  "ret x = (\<lambda>s. Inr (x, s))"

definition bindM :: "('e, 's, 'a) prog \<Rightarrow> ('a \<Rightarrow> ('e, 's, 'b) prog) \<Rightarrow> ('e, 's, 'b) prog" where
  "bindM m f = (\<lambda>s. case m s of Inl e \<Rightarrow> Inl e | Inr (a, s') \<Rightarrow> f a s')"

definition failM :: "'e \<Rightarrow> ('e, 's, 'a) prog" where
  "failM e = (\<lambda>s. Inl e)"

definition getM :: "('s \<Rightarrow> 'a) \<Rightarrow> ('e, 's, 'a) prog" where
  "getM f = (\<lambda>s. Inr (f s, s))"

definition modifyM :: "('s \<Rightarrow> 's) \<Rightarrow> ('e, 's, unit) prog" where
  "modifyM f = (\<lambda>s. Inr ((), f s))"

definition guardM :: "'e \<Rightarrow> ('s \<Rightarrow> bool) \<Rightarrow> ('e, 's, unit) prog" where
  "guardM e P = (\<lambda>s. if P s then Inr ((), s) else Inl e)"

fun repeatM :: "nat \<Rightarrow> ('e, 's, unit) prog \<Rightarrow> ('e, 's, unit) prog" where
  "repeatM 0 m = ret ()"
| "repeatM (Suc n) m = bindM m (\<lambda>_. repeatM n m)"

subsection \<open>Weakest preconditions\<close>

text \<open>
  \<open>wp m Q s\<close>: run from \<open>s\<close>, the program \<open>m\<close> does not fail and its result satisfies \<open>Q\<close>.
  The calculus is for total correctness: an error is never a way to satisfy a postcondition.
\<close>

definition wp :: "('e, 's, 'a) prog \<Rightarrow> ('a \<Rightarrow> 's \<Rightarrow> bool) \<Rightarrow> 's \<Rightarrow> bool" where
  "wp m Q s = (case m s of Inl e \<Rightarrow> False | Inr (a, s') \<Rightarrow> Q a s')"

named_theorems wp_simps "weakest preconditions of the primitives"

lemma wp_ret [wp_simps]: "wp (ret x) Q s = Q x s"
  by (simp add: wp_def ret_def)

lemma wp_bind [wp_simps]: "wp (bindM m f) Q = wp m (\<lambda>a. wp (f a) Q)"
  by (simp add: fun_eq_iff wp_def bindM_def split: sum.split prod.split)

lemma wp_fail [wp_simps]: "wp (failM e) Q s = False"
  by (simp add: wp_def failM_def)

lemma wp_get [wp_simps]: "wp (getM f) Q s = Q (f s) s"
  by (simp add: wp_def getM_def)

lemma wp_modify [wp_simps]: "wp (modifyM f) Q s = Q () (f s)"
  by (simp add: wp_def modifyM_def)

lemma wp_guard [wp_simps]: "wp (guardM e P) Q s = (P s \<and> Q () s)"
  by (simp add: wp_def guardM_def)

lemma wp_if [wp_simps]:
  "wp (if b then m else n) Q s = (if b then wp m Q s else wp n Q s)"
  by simp

lemma wp_let [wp_simps]: "wp (let x = a in m x) Q s = wp (m a) Q s"
  by simp

lemma wp_case_option [wp_simps]:
  "wp (case x of None \<Rightarrow> m | Some y \<Rightarrow> n y) Q s =
     (case x of None \<Rightarrow> wp m Q s | Some y \<Rightarrow> wp (n y) Q s)"
  by (cases x) simp_all

lemma wp_mono: "wp m P s \<Longrightarrow> (\<And>a s'. P a s' \<Longrightarrow> Q a s') \<Longrightarrow> wp m Q s"
  by (auto simp: wp_def split: sum.splits prod.splits)

lemma wp_conj: "wp m P s \<Longrightarrow> wp m Q s \<Longrightarrow> wp m (\<lambda>a s'. P a s' \<and> Q a s') s"
  by (auto simp: wp_def split: sum.splits prod.splits)

lemma wp_Inr: "wp m Q s \<longleftrightarrow> (\<exists>a s'. m s = Inr (a, s') \<and> Q a s')"
  by (auto simp: wp_def split: sum.splits prod.splits)

lemma wp_InrI: "m s = Inr (a, s') \<Longrightarrow> Q a s' \<Longrightarrow> wp m Q s"
  by (simp add: wp_def)

lemma wp_resultD: "wp m Q s \<Longrightarrow> m s = Inr (a, s') \<Longrightarrow> Q a s'"
  by (simp add: wp_def)

text \<open>A loop that repeats a body: an invariant indexed by the rounds left.\<close>

lemma wp_repeatM:
  assumes "I n s"
    and "\<And>k t. I (Suc k) t \<Longrightarrow> k < n \<Longrightarrow> wp m (\<lambda>_. I k) t"
  shows "wp (repeatM n m) (\<lambda>_. I 0) s"
  using assms
proof (induction n arbitrary: s)
  case 0
  then show ?case by (simp add: wp_simps)
next
  case (Suc n)
  have "wp m (\<lambda>_. I n) s" using Suc.prems(1) Suc.prems(2) [of n s] by simp
  then have "wp m (\<lambda>_ t. wp (repeatM n m) (\<lambda>_. I 0) t) s"
    by (rule wp_mono) (rule Suc.IH, auto intro: Suc.prems(2))
  then show ?case by (simp add: wp_simps)
qed

subsection \<open>Lists and maps\<close>

lemma list_snoc_cases: "xs = [] \<or> (\<exists>ys y. xs = ys @ [y])"
  by (cases xs rule: rev_cases) auto

lemma last_in_set_iff: "xs \<noteq> [] \<Longrightarrow> last xs \<in> set xs"
  by simp

lemma distinct_hd_last:
  "distinct xs \<Longrightarrow> xs \<noteq> [] \<Longrightarrow> (hd xs = last xs) = (length xs = 1)"
  by (cases xs; cases "tl xs") (auto dest: last_in_set)

end
