(* ===== verification/Cmdline.thy ===== *)
theory Cmdline
  imports Rts_Prelude "HOL-Library.Word" "HOL-Library.Sublist"
begin

section \<open>Command-line options of the runtime system\<close>

text \<open>
  Models \<open>runtime/cmdline.c\<close>: the option table, \<open>parse_option\<close> and
  \<open>Cilk_parse_command_line\<close>, for a build without the Nondeterminator (\<open>CILK_ND\<close> undefined).
  The argument vector is a list of strings. \<open>atoi\<close> and \<open>atol\<close> are the C library's; their result
  is a mathematical integer here (C leaves an out-of-range argument undefined).
  \<open>Cilk_partition_size\<close> asks the operating system for the number of processors and is the
  parameter \<open>ncpu\<close>. What the parser prints is kept only as the reason of a failure.
\<close>

subsection \<open>Options and the option table\<close>

record Cilk_options =
  nproc :: int
  stackdepth :: int
  statlevel :: int
  yieldslice :: int
  infofile_name :: string
  dump_core :: int
  alloc_batch_size :: int
  memory_locks :: int
  pthread_stacksize :: int
  pinned_mask :: "64 word"

definition CILK_DEFAULT_STACK_DEPTH :: int where
  "CILK_DEFAULT_STACK_DEPTH = 32768"

definition CILK_DEFAULT_OPTIONS :: Cilk_options where
  "CILK_DEFAULT_OPTIONS =
     \<lparr>nproc = 1, stackdepth = CILK_DEFAULT_STACK_DEPTH, statlevel = 0, yieldslice = 0,
      infofile_name = ''-'', dump_core = 0, alloc_batch_size = 64, memory_locks = 0,
      pthread_stacksize = 0, pinned_mask = 1024\<rparr>"

datatype option_kind =
    NONE | NPROC | STATS | NO_STATS | HELP | STACK | YIELD | NO_YIELD
  | PTHREAD_STACKSIZE | POSIX_LOCKS | MEMORY_LOCKS | INFOFILE | DUMP_CORE | NO_DUMP_CORE
  | PINNED_PROC | ALLOC_BATCH | FIRST_STOP | FLOAT_COMM | ALL_SETS | BRELLY | RECYCLE_MEM
  | VERSION_OPT | END_OPTIONS

definition optarray :: "(string \<times> option_kind) list" where
  "optarray =
     [('''', END_OPTIONS), (''nproc'', NPROC), (''stack'', STACK),
      (''pthread-stacksize'', PTHREAD_STACKSIZE), (''stats'', STATS), (''no-stats'', NO_STATS),
      (''alloc-batch'', ALLOC_BATCH), (''yield'', YIELD), (''no-yield'', NO_YIELD),
      (''with-posix-locks'', POSIX_LOCKS), (''with-memory-locks'', MEMORY_LOCKS),
      (''dump-core'', DUMP_CORE), (''no-dump-core'', NO_DUMP_CORE), (''pin-proc'', PINNED_PROC),
      (''version'', VERSION_OPT), (''help'', HELP)]"

text \<open>The search stops at the sentinel of the table, whose kind is \<open>NONE\<close>.\<close>

fun find_option :: "(string \<times> option_kind) list \<Rightarrow> string \<Rightarrow> option_kind" where
  "find_option [] s = NONE"
| "find_option (p # ps) s = (if s = fst p then snd p else find_option ps s)"

definition parse_option :: "string \<Rightarrow> option_kind" where
  "parse_option s = find_option optarray s"

subsection \<open>The C library's decimal conversion\<close>

definition isspace_char :: "char \<Rightarrow> bool" where
  "isspace_char c \<longleftrightarrow> (let n = of_char c :: nat in n = 32 \<or> (9 \<le> n \<and> n \<le> 13))"

definition digit_val :: "char \<Rightarrow> nat option" where
  "digit_val c = (let n = of_char c :: nat in if 48 \<le> n \<and> n \<le> 57 then Some (n - 48) else None)"

fun read_digits :: "int \<Rightarrow> string \<Rightarrow> int" where
  "read_digits acc [] = acc"
| "read_digits acc (c # cs) =
     (case digit_val c of None \<Rightarrow> acc | Some d \<Rightarrow> read_digits (10 * acc + int d) cs)"

definition atoi :: "string \<Rightarrow> int" where
  "atoi s =
     (case dropWhile isspace_char s of
        [] \<Rightarrow> 0
      | c # cs \<Rightarrow> if c = CHR ''-'' then - read_digits 0 cs
                  else if c = CHR ''+'' then read_digits 0 cs
                  else read_digits 0 (c # cs))"

subsection \<open>The parser\<close>

datatype parse_result =
    Parsed Cilk_options "string list"     \<comment> \<open>options and the arguments not consumed\<close>
  | Bad_argument option_kind string       \<comment> \<open>the \<open>CHECK\<close> macro: message printed, returns 1\<close>
  | Help_printed
  | Version_printed

abbreviation argument_missing :: string where
  "argument_missing \<equiv> ''argument missing''"

definition option_text :: "string \<Rightarrow> string" where
  "option_text a = (if take 1 (drop 1 a) = ''-'' then drop 2 a else drop 1 a)"

fun parse_args :: "int \<Rightarrow> Cilk_options \<Rightarrow> string list \<Rightarrow> parse_result" where
  "parse_args ncpu opts [] = Parsed opts []"
| "parse_args ncpu opts (a # rest) =
     (if take 1 a \<noteq> ''-'' then Parsed opts (a # rest)
      else case parse_option (option_text a) of
        NPROC \<Rightarrow>
          (case rest of [] \<Rightarrow> Bad_argument NPROC argument_missing
           | v # rest' \<Rightarrow>
               (let n = (if atoi v = 0 then ncpu else atoi v) in
                if n > 0 then parse_args ncpu (opts\<lparr>nproc := n\<rparr>) rest'
                else Bad_argument NPROC ''non-positive number of processors''))
      | STACK \<Rightarrow>
          (case rest of [] \<Rightarrow> Bad_argument STACK argument_missing
           | v # rest' \<Rightarrow>
               if atoi v > 0 then parse_args ncpu (opts\<lparr>stackdepth := atoi v\<rparr>) rest'
               else Bad_argument STACK ''non-positive stack depth'')
      | PTHREAD_STACKSIZE \<Rightarrow>
          (case rest of [] \<Rightarrow> Bad_argument PTHREAD_STACKSIZE argument_missing
           | v # rest' \<Rightarrow>
               if atoi v > 0 then parse_args ncpu (opts\<lparr>pthread_stacksize := atoi v\<rparr>) rest'
               else Bad_argument PTHREAD_STACKSIZE ''non-positive stack depth'')
      | STATS \<Rightarrow>
          (case rest of [] \<Rightarrow> Bad_argument STATS argument_missing
           | v # rest' \<Rightarrow> parse_args ncpu (opts\<lparr>statlevel := atoi v\<rparr>) rest')
      | NO_STATS \<Rightarrow> parse_args ncpu (opts\<lparr>statlevel := 0\<rparr>) rest
      | YIELD \<Rightarrow> parse_args ncpu (opts\<lparr>yieldslice := 1\<rparr>) rest
      | NO_YIELD \<Rightarrow> parse_args ncpu (opts\<lparr>yieldslice := 0\<rparr>) rest
      | POSIX_LOCKS \<Rightarrow> parse_args ncpu (opts\<lparr>memory_locks := 0\<rparr>) rest
      | MEMORY_LOCKS \<Rightarrow> parse_args ncpu (opts\<lparr>memory_locks := 1\<rparr>) rest
      | DUMP_CORE \<Rightarrow> parse_args ncpu (opts\<lparr>dump_core := 1\<rparr>) rest
      | NO_DUMP_CORE \<Rightarrow> parse_args ncpu (opts\<lparr>dump_core := 0\<rparr>) rest
      | PINNED_PROC \<Rightarrow>
          (case rest of [] \<Rightarrow> Bad_argument PINNED_PROC argument_missing
           | v # rest' \<Rightarrow> parse_args ncpu (opts\<lparr>pinned_mask := word_of_int (atoi v)\<rparr>) rest')
      | HELP \<Rightarrow> Help_printed
      | VERSION_OPT \<Rightarrow> Version_printed
      | ALLOC_BATCH \<Rightarrow>
          (case rest of [] \<Rightarrow> Bad_argument ALLOC_BATCH argument_missing
           | v # rest' \<Rightarrow>
               parse_args ncpu
                 (opts\<lparr>alloc_batch_size := (if atoi v < 8 then 8 else atoi v)\<rparr>) rest')
      | INFOFILE \<Rightarrow>
          (case rest of [] \<Rightarrow> Bad_argument INFOFILE argument_missing
           | v # rest' \<Rightarrow> parse_args ncpu (opts\<lparr>infofile_name := v\<rparr>) rest')
      | END_OPTIONS \<Rightarrow> Parsed opts rest
      | _ \<Rightarrow> Parsed opts (a # rest))"

text \<open>
  \<open>Cilk_parse_command_line\<close>: options and the rewritten argument vector, or the reason for
  returning 1. The vector keeps \<open>argv[0]\<close> and drops the consumed arguments.
\<close>

definition Cilk_parse_command_line ::
    "int \<Rightarrow> string list \<Rightarrow> parse_result" where
  "Cilk_parse_command_line ncpu argv =
     (case argv of
        [] \<Rightarrow> Parsed CILK_DEFAULT_OPTIONS []
      | prog # args \<Rightarrow>
          (case parse_args ncpu CILK_DEFAULT_OPTIONS args of
             Parsed opts rest \<Rightarrow> Parsed opts (prog # rest)
           | r \<Rightarrow> r))"

declare parse_args.simps(2) [simp del]

subsection \<open>What the parser guarantees\<close>

definition options_ok :: "Cilk_options \<Rightarrow> bool" where
  "options_ok opts \<longleftrightarrow>
     0 < nproc opts \<and> 0 < stackdepth opts \<and> 8 \<le> alloc_batch_size opts
     \<and> 0 \<le> pthread_stacksize opts \<and> infofile_name opts = ''-''"

lemma find_option_mem: "find_option ps s = k \<Longrightarrow> k = NONE \<or> k \<in> snd ` set ps"
  by (induction ps) auto

lemma parse_option_not_infofile: "parse_option s \<noteq> INFOFILE"
  using find_option_mem [of optarray s INFOFILE]
  by (auto simp: parse_option_def optarray_def)

text \<open>
  One round of the loop: it stops with the options it has, or it goes on with a shorter vector and
  options that are still acceptable. Both facts about the whole loop follow by induction on the
  length of the vector.
\<close>

lemma parse_args_step:
  "parse_args ncpu opts (a # args) = Parsed opts' rest \<Longrightarrow>
     (opts' = opts \<and> suffix rest (a # args)) \<or>
     (\<exists>opts1 args1. parse_args ncpu opts1 args1 = Parsed opts' rest \<and> suffix args1 args
        \<and> (options_ok opts \<longrightarrow> options_ok opts1))"
  using parse_option_not_infofile [of "option_text a"]
  apply (subst (asm) parse_args.simps(2))
  apply (cases "take 1 a \<noteq> ''-''")
   apply simp
  apply (cases "parse_option (option_text a)")
  apply (simp_all del: suffix_Cons add: suffix_ConsI Let_def split: list.splits if_splits)
  apply (rule disjI2, rule exI, rule exI, rule conjI, assumption,
      simp add: options_ok_def suffix_ConsI)+
  done

lemma suffix_shorter: "suffix ys xs \<Longrightarrow> length ys < Suc (length xs)"
  using suffix_length_le [of ys xs] by simp

lemma parse_args_options_ok:
  "options_ok opts \<Longrightarrow> parse_args ncpu opts args = Parsed opts' rest \<Longrightarrow> options_ok opts'"
proof (induction "length args" arbitrary: opts args rule: less_induct)
  case less
  then show ?case
    by (cases args) (auto dest!: parse_args_step suffix_shorter)
qed

text \<open>What is left over is a final segment of the arguments.\<close>

lemma parse_args_suffix:
  "parse_args ncpu opts args = Parsed opts' rest \<Longrightarrow> suffix rest args"
proof (induction "length args" arbitrary: opts args rule: less_induct)
  case less
  show ?case
  proof (cases args)
    case Nil
    with less.prems show ?thesis by simp
  next
    case (Cons a list)
    from parse_args_step [OF less.prems [unfolded Cons]] show ?thesis
    proof
      assume "opts' = opts \<and> suffix rest (a # list)"
      with Cons show ?thesis by simp
    next
      assume "\<exists>opts1 args1. parse_args ncpu opts1 args1 = Parsed opts' rest
        \<and> suffix args1 list \<and> (options_ok opts \<longrightarrow> options_ok opts1)"
      then obtain opts1 args1 where *: "parse_args ncpu opts1 args1 = Parsed opts' rest"
        and suf: "suffix args1 list" by blast
      from suffix_shorter [OF suf] have "length args1 < length args" using Cons by simp
      from less.hyps [OF this *] suf Cons show ?thesis
        by (metis suffix_ConsI suffix_order.trans)
    qed
  qed
qed

lemma options_ok_default: "options_ok CILK_DEFAULT_OPTIONS"
  by (simp add: options_ok_def CILK_DEFAULT_OPTIONS_def CILK_DEFAULT_STACK_DEPTH_def)

text \<open>
  C40: the options of a successful parse are usable by the rest of the runtime system: there is at
  least one processor, the frame stack is not empty, the allocator's batch is at least 8 (so that
  half a batch is never empty), and no option of the table changes the statistics file name.
\<close>

theorem parsed_options_usable:
  assumes "Cilk_parse_command_line ncpu argv = Parsed opts rest"
  shows "0 < nproc opts \<and> 0 < stackdepth opts \<and> 8 \<le> alloc_batch_size opts
    \<and> 0 \<le> pthread_stacksize opts \<and> infofile_name opts = ''-''"
proof -
  have "options_ok opts"
    using assms parse_args_options_ok options_ok_default
    by (auto simp: Cilk_parse_command_line_def split: list.splits parse_result.splits)
  then show ?thesis by (simp add: options_ok_def)
qed

theorem parsed_options_usable_witness:
  "\<exists>opts. Cilk_parse_command_line 4 [''prog'', ''--nproc'', ''0'', ''-alloc-batch'', ''3'', ''x''] =
      Parsed opts [''prog'', ''x''] \<and> nproc opts = 4 \<and> alloc_batch_size opts = 8 \<and> 0 < stackdepth opts"
proof -
  have "Cilk_parse_command_line 4 [''prog'', ''--nproc'', ''0'', ''-alloc-batch'', ''3'', ''x''] =
      Parsed (CILK_DEFAULT_OPTIONS\<lparr>nproc := 4, alloc_batch_size := 8\<rparr>) [''prog'', ''x'']"
    by code_simp
  from parsed_options_usable [OF this] show ?thesis
    by (simp add: \<open>Cilk_parse_command_line 4 _ = _\<close>)
qed

text \<open>
  A successful parse keeps the program name and hands the program a final segment of its
  arguments, in order and unaltered; only leading arguments are removed.
\<close>

theorem parsed_arguments_suffix:
  assumes "Cilk_parse_command_line ncpu (prog # args) = Parsed opts argv'"
  shows "\<exists>rest. argv' = prog # rest \<and> suffix rest args"
  using assms parse_args_suffix
  by (auto simp: Cilk_parse_command_line_def split: parse_result.splits)

theorem parsed_arguments_suffix_witness:
  "\<exists>opts argv'. Cilk_parse_command_line 1 [''prog'', ''--'', ''--nproc''] = Parsed opts argv'
     \<and> (\<exists>rest. argv' = ''prog'' # rest \<and> suffix rest [''--'', ''--nproc''])"
proof -
  have "Cilk_parse_command_line 1 [''prog'', ''--'', ''--nproc''] =
      Parsed CILK_DEFAULT_OPTIONS [''prog'', ''--nproc'']"
    by code_simp
  from parsed_arguments_suffix [OF this] this show ?thesis by blast
qed

text \<open>
  The manual asks for a hexadecimal mask (\<open>f\<close> for the first four processors); the parser reads a
  decimal number, so the manual's example gives the empty mask.
\<close>

lemma pin_proc_not_hexadecimal:
  "\<exists>opts. Cilk_parse_command_line 1 [''prog'', ''--pin-proc'', ''f''] = Parsed opts [''prog'']
     \<and> pinned_mask opts = 0"
proof -
  have "Cilk_parse_command_line 1 [''prog'', ''--pin-proc'', ''f''] =
      Parsed (CILK_DEFAULT_OPTIONS\<lparr>pinned_mask := 0\<rparr>) [''prog'']"
    by code_simp
  then show ?thesis by simp
qed

end
