(* ===== verification/Rts_State.thy ===== *)
theory Rts_State
  imports Rts_Prelude "HOL-Library.Word" "HOL-Library.Extended_Nat"
begin

section \<open>The state of the scheduler\<close>

text \<open>
  The data structures of \<open>runtime/cilk.h\<close> and \<open>runtime/cilk-internal.h\<close> the scheduler works on,
  in the build with \<open>CILK_DEBUG\<close>, \<open>CILK_TIMING\<close> and \<open>CILK_STATS\<close> set, so that the assertions of
  the source are part of the model.

  \<^item> Closures live in a heap \<open>closures\<close>: a partial map from addresses to records; a pointer that may
    be \<open>NULL\<close> is an option. A destroyed closure leaves the heap, so that reading it again is an error
    (the source checks a magic number for that purpose).
  \<^item> The lists of inlet closures are owned by one closure each and are modelled as lists.
  \<^item> A worker's frame stack is indexed from its base: \<open>head\<close>, \<open>tail\<close> and \<open>exception\<close> are indices, and
    \<open>EXCEPTION_INFINITY\<close> is the infinite element of \<open>enat\<close>.
  \<^item> A frame's header is a record; the procedure-specific part lives in \<open>memory\<close> at the frame's
    address.
  \<^item> Code pointers are numbers; \<open>inlet_code\<close> gives the effect of an inlet on memory, and whether it
    called \<open>Cilk_abort_standalone\<close>. It stands for the compiled user program.
  \<^item> Memory fresh from the allocator is not initialised: \<open>heap_junk\<close> and \<open>heap_byte\<close> are arbitrary
    contents that nothing in the theorems depends on. Addresses of closures are handed out in
    increasing order and not reused.
  \<^item> A lock is its owner (\<open>mutex_owner\<close>), none when it is free.
\<close>

type_synonym wid = nat     \<comment> \<open>a worker number, \<open>ws->self\<close>\<close>
type_synonym cid = nat     \<comment> \<open>the address of a closure\<close>
type_synonym addr = nat
type_synonym byte = "8 word"

datatype ClosureStatus =
  CLOSURE_RUNNING | CLOSURE_SUSPENDED | CLOSURE_RETURNING | CLOSURE_READY

datatype AbortStatus = ABORT_ALL | ALMOST_NO_ABORT | NO_ABORT

text \<open>The comment of the source says that the order of the abort states matters: it is \<open><\<close> on the codes.\<close>

fun abort_code :: "AbortStatus \<Rightarrow> int" where
  "abort_code ABORT_ALL = 30"
| "abort_code ALMOST_NO_ABORT = 31"
| "abort_code NO_ABORT = 32"

instantiation AbortStatus :: linorder
begin

definition less_eq_AbortStatus :: "AbortStatus \<Rightarrow> AbortStatus \<Rightarrow> bool" where
  "less_eq_AbortStatus a b \<longleftrightarrow> abort_code a \<le> abort_code b"

definition less_AbortStatus :: "AbortStatus \<Rightarrow> AbortStatus \<Rightarrow> bool" where
  "less_AbortStatus a b \<longleftrightarrow> abort_code a < abort_code b"

instance
proof
  fix x y z :: AbortStatus
  show "(x < y) = (x \<le> y \<and> \<not> y \<le> x)"
    by (auto simp: less_AbortStatus_def less_eq_AbortStatus_def)
  show "x \<le> x" by (simp add: less_eq_AbortStatus_def)
  show "x \<le> y \<Longrightarrow> y \<le> z \<Longrightarrow> x \<le> z" by (simp add: less_eq_AbortStatus_def)
  show "x \<le> y \<Longrightarrow> y \<le> x \<Longrightarrow> x = y"
    by (cases x; cases y) (simp_all add: less_eq_AbortStatus_def)
  show "x \<le> y \<or> y \<le> x" by (auto simp: less_eq_AbortStatus_def)
qed

end

datatype event =
    EVENT_THREAD | EVENT_STEAL_ATTEMPT | EVENT_STEAL | EVENT_STEAL_NO_DEKKER | EVENT_STEAL_EMPTY_DEQUE
  | EVENT_STEAL_RETURNING | EVENT_STEAL_ABORT | EVENT_ABORT_SLOW | EVENT_ABORT_STANDALONE
  | EVENT_ABORT_READY_SUSPEND | EVENT_ABORT_READY_RETURN | EVENT_SUSPEND | EVENT_CILK_SYNC
  | EVENT_EXCEPTION | EVENT_EXCEPTION_STEAL | EVENT_EXCEPTION_ABORT
  | EVENT_EXCEPTION_ABORT_RETURN | EVENT_EXCEPTION_ABORT_SUSPEND | EVENT_EXCEPTION_OTHER
  | EVENT_RETURN_SLOW | EVENT_PROVABLY_GOOD_STEAL | EVENT_RETURN_ENQUEUE | EVENT_POLL_INLETS
  | EVENT_CLOSURE_CREATE | EVENT_IM_ALLOC_BATCH | EVENT_IM_FREE_BATCH
  | EVENT_USER0 | EVENT_USER1 | EVENT_USER2 | EVENT_USER3 | EVENT_USER4 | EVENT_USER5 | EVENT_USER6 | EVENT_USER7

subsection \<open>Records\<close>

record CilkProcInfo =
  pi_size :: nat
  pi_index :: int
  pi_inlet :: "nat option"
  pi_argsize :: nat
  pi_argindex :: int

record CilkStackFrame =
  entry :: int
  receiver :: addr
  sig :: "CilkProcInfo list"
  frame_magic :: bool           \<comment> \<open>\<open>magic == CILK_STACKFRAME_MAGIC\<close>\<close>

record InletClosure =
  ic_this :: "cid option"
  ic_receiver :: addr
  ic_inlet :: "nat option"
  ic_argsize :: nat
  ic_inlet_args :: "byte list"

record Closure =
  mutex_owner :: "wid option"
  join_counter :: int
  status :: ClosureStatus
  return_value :: "byte list"
  return_size :: nat
  complete_inlets :: "InletClosure list"
  incomplete_inlets :: "InletClosure list"
  parent :: "cid option"
  frame :: "addr option"
  abort_status :: AbortStatus
  cache :: "wid option"
  next_ready :: "cid option"
  prev_ready :: "cid option"
  owner_ready_deque :: "wid option"
  malloced :: bool
  cp :: int
  work :: int

record CilkClosureCache =
  head :: nat
  tail :: nat
  exception :: enat
  stack :: "nat \<Rightarrow> addr"

record CilkWorkerState =
  wcache :: CilkClosureCache
  rand_next :: "32 word"
  abort_flag :: bool
  cp_hack :: int
  work_hack :: int

record ReadyDeque =
  dq_mutex_owner :: "wid option"
  dq_top :: "cid option"
  dq_bottom :: "cid option"

record Rts =
  closures :: "cid \<Rightarrow> Closure option"
  frames :: "addr \<Rightarrow> CilkStackFrame option"
  memory :: "addr \<Rightarrow> byte"
  workers :: "wid \<Rightarrow> CilkWorkerState"
  deques :: "wid \<Rightarrow> ReadyDeque"
  inlet_code :: "nat \<Rightarrow> addr option \<Rightarrow> byte list \<Rightarrow> addr \<Rightarrow> (addr \<Rightarrow> byte) \<Rightarrow> (addr \<Rightarrow> byte) \<times> bool"
  next_cid :: cid
  heap_junk :: Closure          \<comment> \<open>what a closure holds right after its allocation\<close>
  heap_byte :: byte
  active_size :: nat
  done_flag :: bool
  event_count :: "wid \<Rightarrow> event \<Rightarrow> nat"

subsection \<open>Errors\<close>

datatype rt_error =
    Assertion_failed nat      \<comment> \<open>\<open>CILK_ASSERT\<close> or \<open>CILK_COMPLAIN\<close> at this line of the file\<close>
  | Die nat                   \<comment> \<open>\<open>Cilk_die_internal\<close> called at this line\<close>
  | Wild_pointer nat          \<comment> \<open>a null or dangling pointer is followed\<close>
  | Would_block               \<comment> \<open>\<open>Cilk_mutex_wait\<close> on a lock that is not free\<close>
  | Out_of_fuel

type_synonym 'a rts = "(rt_error, Rts, 'a) prog"

definition CILK_ASSERT :: "nat \<Rightarrow> bool \<Rightarrow> unit rts" where
  "CILK_ASSERT line b = guardM (Assertion_failed line) (\<lambda>_. b)"

definition Cilk_event :: "wid \<Rightarrow> event \<Rightarrow> unit rts" where
  "Cilk_event ws e =
     modifyM (\<lambda>s. s\<lparr>event_count := (event_count s)(ws := (event_count s ws)(e := Suc (event_count s ws e)))\<rparr>)"

subsection \<open>Reading and writing the heap\<close>

definition getC :: "cid \<Rightarrow> Closure rts" where
  "getC c = (\<lambda>s. case closures s c of None \<Rightarrow> Inl (Wild_pointer c) | Some t \<Rightarrow> Inr (t, s))"

definition updC :: "cid \<Rightarrow> (Closure \<Rightarrow> Closure) \<Rightarrow> unit rts" where
  "updC c f = (\<lambda>s. case closures s c of None \<Rightarrow> Inl (Wild_pointer c)
     | Some t \<Rightarrow> Inr ((), s\<lparr>closures := (closures s)(c \<mapsto> f t)\<rparr>))"

definition deref :: "'a option \<Rightarrow> 'a rts" where
  "deref p = (case p of None \<Rightarrow> failM (Wild_pointer 0) | Some x \<Rightarrow> ret x)"

definition getF :: "addr \<Rightarrow> CilkStackFrame rts" where
  "getF f = (\<lambda>s. case frames s f of None \<Rightarrow> Inl (Wild_pointer f) | Some x \<Rightarrow> Inr (x, s))"

definition getW :: "wid \<Rightarrow> CilkClosureCache rts" where
  "getW w = getM (\<lambda>s. wcache (workers s w))"

definition updW :: "wid \<Rightarrow> (CilkClosureCache \<Rightarrow> CilkClosureCache) \<Rightarrow> unit rts" where
  "updW w f = modifyM (\<lambda>s. s\<lparr>workers := (workers s)(w := (workers s w)\<lparr>wcache := f (wcache (workers s w))\<rparr>)\<rparr>)"

definition getD :: "wid \<Rightarrow> ReadyDeque rts" where
  "getD pn = getM (\<lambda>s. deques s pn)"

definition updD :: "wid \<Rightarrow> (ReadyDeque \<Rightarrow> ReadyDeque) \<Rightarrow> unit rts" where
  "updD pn f = modifyM (\<lambda>s. s\<lparr>deques := (deques s)(pn := f (deques s pn))\<rparr>)"

lemma wp_assert [wp_simps]: "wp (CILK_ASSERT n b) Q s = (b \<and> Q () s)"
  by (simp add: CILK_ASSERT_def wp_simps)

lemma wp_event [wp_simps]:
  "wp (Cilk_event ws e) Q s =
     Q () (s\<lparr>event_count := (event_count s)(ws := (event_count s ws)(e := Suc (event_count s ws e)))\<rparr>)"
  by (simp add: Cilk_event_def wp_simps)

lemma wp_getC [wp_simps]:
  "wp (getC c) Q s = (case closures s c of None \<Rightarrow> False | Some t \<Rightarrow> Q t s)"
  by (simp add: wp_def getC_def split: option.split)

lemma wp_updC [wp_simps]:
  "wp (updC c f) Q s = (case closures s c of None \<Rightarrow> False
     | Some t \<Rightarrow> Q () (s\<lparr>closures := (closures s)(c \<mapsto> f t)\<rparr>))"
  by (simp add: wp_def updC_def split: option.split)

lemma wp_deref [wp_simps]: "wp (deref p) Q s = (case p of None \<Rightarrow> False | Some x \<Rightarrow> Q x s)"
  by (simp add: deref_def wp_simps split: option.split)

lemma wp_getF [wp_simps]:
  "wp (getF f) Q s = (case frames s f of None \<Rightarrow> False | Some x \<Rightarrow> Q x s)"
  by (simp add: wp_def getF_def split: option.split)

lemma wp_getW [wp_simps]: "wp (getW w) Q s = Q (wcache (workers s w)) s"
  by (simp add: getW_def wp_simps)

lemma wp_updW [wp_simps]:
  "wp (updW w f) Q s =
     Q () (s\<lparr>workers := (workers s)(w := (workers s w)\<lparr>wcache := f (wcache (workers s w))\<rparr>)\<rparr>)"
  by (simp add: updW_def wp_simps)

lemma wp_getD [wp_simps]: "wp (getD pn) Q s = Q (deques s pn) s"
  by (simp add: getD_def wp_simps)

lemma wp_updD [wp_simps]:
  "wp (updD pn f) Q s = Q () (s\<lparr>deques := (deques s)(pn := f (deques s pn))\<rparr>)"
  by (simp add: updD_def wp_simps)

text \<open>
  Updates of different fields commute; this order (heap outermost) is the normal form of states.
\<close>

lemma rts_update_order [simp]:
  "s\<lparr>closures := vc0, deques := vd1\<rparr> = s\<lparr>deques := vd1, closures := vc0\<rparr>"
  "s\<lparr>closures := vc0, workers := vw2\<rparr> = s\<lparr>workers := vw2, closures := vc0\<rparr>"
  "s\<lparr>closures := vc0, frames := vf3\<rparr> = s\<lparr>frames := vf3, closures := vc0\<rparr>"
  "s\<lparr>closures := vc0, memory := vm4\<rparr> = s\<lparr>memory := vm4, closures := vc0\<rparr>"
  "s\<lparr>closures := vc0, next_cid := vn5\<rparr> = s\<lparr>next_cid := vn5, closures := vc0\<rparr>"
  "s\<lparr>closures := vc0, event_count := ve6\<rparr> = s\<lparr>event_count := ve6, closures := vc0\<rparr>"
  "s\<lparr>closures := vc0, done_flag := vd7\<rparr> = s\<lparr>done_flag := vd7, closures := vc0\<rparr>"
  "s\<lparr>deques := vd1, workers := vw2\<rparr> = s\<lparr>workers := vw2, deques := vd1\<rparr>"
  "s\<lparr>deques := vd1, frames := vf3\<rparr> = s\<lparr>frames := vf3, deques := vd1\<rparr>"
  "s\<lparr>deques := vd1, memory := vm4\<rparr> = s\<lparr>memory := vm4, deques := vd1\<rparr>"
  "s\<lparr>deques := vd1, next_cid := vn5\<rparr> = s\<lparr>next_cid := vn5, deques := vd1\<rparr>"
  "s\<lparr>deques := vd1, event_count := ve6\<rparr> = s\<lparr>event_count := ve6, deques := vd1\<rparr>"
  "s\<lparr>deques := vd1, done_flag := vd7\<rparr> = s\<lparr>done_flag := vd7, deques := vd1\<rparr>"
  "s\<lparr>workers := vw2, frames := vf3\<rparr> = s\<lparr>frames := vf3, workers := vw2\<rparr>"
  "s\<lparr>workers := vw2, memory := vm4\<rparr> = s\<lparr>memory := vm4, workers := vw2\<rparr>"
  "s\<lparr>workers := vw2, next_cid := vn5\<rparr> = s\<lparr>next_cid := vn5, workers := vw2\<rparr>"
  "s\<lparr>workers := vw2, event_count := ve6\<rparr> = s\<lparr>event_count := ve6, workers := vw2\<rparr>"
  "s\<lparr>workers := vw2, done_flag := vd7\<rparr> = s\<lparr>done_flag := vd7, workers := vw2\<rparr>"
  "s\<lparr>frames := vf3, memory := vm4\<rparr> = s\<lparr>memory := vm4, frames := vf3\<rparr>"
  "s\<lparr>frames := vf3, next_cid := vn5\<rparr> = s\<lparr>next_cid := vn5, frames := vf3\<rparr>"
  "s\<lparr>frames := vf3, event_count := ve6\<rparr> = s\<lparr>event_count := ve6, frames := vf3\<rparr>"
  "s\<lparr>frames := vf3, done_flag := vd7\<rparr> = s\<lparr>done_flag := vd7, frames := vf3\<rparr>"
  "s\<lparr>memory := vm4, next_cid := vn5\<rparr> = s\<lparr>next_cid := vn5, memory := vm4\<rparr>"
  "s\<lparr>memory := vm4, event_count := ve6\<rparr> = s\<lparr>event_count := ve6, memory := vm4\<rparr>"
  "s\<lparr>memory := vm4, done_flag := vd7\<rparr> = s\<lparr>done_flag := vd7, memory := vm4\<rparr>"
  "s\<lparr>next_cid := vn5, event_count := ve6\<rparr> = s\<lparr>event_count := ve6, next_cid := vn5\<rparr>"
  "s\<lparr>next_cid := vn5, done_flag := vd7\<rparr> = s\<lparr>done_flag := vd7, next_cid := vn5\<rparr>"
  "s\<lparr>event_count := ve6, done_flag := vd7\<rparr> = s\<lparr>done_flag := vd7, event_count := ve6\<rparr>"
  by simp_all

end
