(* ===== verification/Rts_Deque.thy ===== *)
theory Rts_Deque
  imports Rts_State
begin

section \<open>Locks, random numbers and ready deques\<close>

text \<open>
  The first part of \<open>runtime/sched.c\<close>: the locks of closures and deques, the victim generator, and
  the ready deques, doubly-linked lists threaded through the closures. The deque operations are
  shown to implement a list (\<open>is_deque\<close>): the list is the abstract deque of the comment in
  \<open>cilk-internal.h\<close>, from its top to its bottom.
\<close>

subsection \<open>Locks on closures\<close>

definition Closure_checkmagic :: "wid \<Rightarrow> cid \<Rightarrow> unit rts" where
  "Closure_checkmagic ws t = bindM (getC t) (\<lambda>_. ret ())"

definition Closure_assert_ownership :: "wid \<Rightarrow> cid \<Rightarrow> unit rts" where
  "Closure_assert_ownership ws t =
     bindM (getC t) (\<lambda>cl. CILK_ASSERT 70 (mutex_owner cl = Some ws))"

definition Closure_assert_alienation :: "wid \<Rightarrow> cid \<Rightarrow> unit rts" where
  "Closure_assert_alienation ws t =
     bindM (getC t) (\<lambda>cl. CILK_ASSERT 77 (mutex_owner cl \<noteq> Some ws))"

definition Closure_lock :: "wid \<Rightarrow> cid \<Rightarrow> unit rts" where
  "Closure_lock ws t =
     bindM (Closure_checkmagic ws t) (\<lambda>_.
     bindM (getC t) (\<lambda>cl.
     bindM (guardM Would_block (\<lambda>_. mutex_owner cl = None)) (\<lambda>_.
     updC t (mutex_owner_update (\<lambda>_. Some ws)))))"

definition Closure_unlock :: "wid \<Rightarrow> cid \<Rightarrow> unit rts" where
  "Closure_unlock ws t =
     bindM (Closure_checkmagic ws t) (\<lambda>_.
     bindM (Closure_assert_ownership ws t) (\<lambda>_.
     updC t (mutex_owner_update (\<lambda>_. None))))"

definition freeC :: "cid \<Rightarrow> unit rts" where
  "freeC t = modifyM (\<lambda>s. s\<lparr>closures := (closures s)(t := None)\<rparr>)"

definition Closure_destroy :: "wid \<Rightarrow> cid \<Rightarrow> unit rts" where
  "Closure_destroy ws t =
     bindM (Closure_checkmagic ws t) (\<lambda>_.
     bindM (getC t) (\<lambda>cl.
     bindM (CILK_ASSERT 91 (\<not> malloced cl)) (\<lambda>_.
     freeC t)))"

definition Closure_destroy_malloc :: "wid \<Rightarrow> cid \<Rightarrow> unit rts" where
  "Closure_destroy_malloc ws t =
     bindM (Closure_checkmagic ws t) (\<lambda>_.
     bindM (getC t) (\<lambda>cl.
     bindM (CILK_ASSERT 102 (malloced cl)) (\<lambda>_.
     freeC t)))"

subsection \<open>The random number generator\<close>

definition rts_rand :: "wid \<Rightarrow> (32 word) rts" where
  "rts_rand ws =
     bindM (modifyM (\<lambda>s. s\<lparr>workers := (workers s)
        (ws := (workers s ws)\<lparr>rand_next := rand_next (workers s ws) * 1103515245 + 12345\<rparr>)\<rparr>)) (\<lambda>_.
     getM (\<lambda>s. drop_bit 16 (rand_next (workers s ws))))"

definition rts_srand :: "wid \<Rightarrow> 32 word \<Rightarrow> unit rts" where
  "rts_srand ws seed =
     modifyM (\<lambda>s. s\<lparr>workers := (workers s)(ws := (workers s ws)\<lparr>rand_next := seed\<rparr>)\<rparr>)"

lemma rts_rand_bound: "rts_rand ws s = Inr (r, s') \<Longrightarrow> unat r < 2 ^ 16"
proof -
  assume "rts_rand ws s = Inr (r, s')"
  then have "r = drop_bit 16 (rand_next (workers s ws) * 1103515245 + 12345)"
    by (simp add: rts_rand_def bindM_def modifyM_def getM_def)
  then have "unat r = unat (rand_next (workers s ws) * 1103515245 + 12345) div 2 ^ 16"
    by (simp add: drop_bit_eq_div unat_div_distrib)
  moreover have "unat (rand_next (workers s ws) * 1103515245 + 12345) < 2 ^ 32"
    using unsigned_less [of "rand_next (workers s ws) * 1103515245 + 12345"] by simp
  ultimately show ?thesis by (simp add: less_mult_imp_div_less)
qed

subsection \<open>Locks on deques\<close>

definition deque_assert_ownership :: "wid \<Rightarrow> wid \<Rightarrow> unit rts" where
  "deque_assert_ownership ws pn =
     bindM (getD pn) (\<lambda>d. CILK_ASSERT 181 (dq_mutex_owner d = Some ws))"

definition deque_assert_alienation :: "wid \<Rightarrow> wid \<Rightarrow> unit rts" where
  "deque_assert_alienation ws pn =
     bindM (getD pn) (\<lambda>d. CILK_ASSERT 186 (dq_mutex_owner d \<noteq> Some ws))"

definition deque_lock :: "wid \<Rightarrow> wid \<Rightarrow> unit rts" where
  "deque_lock ws pn =
     bindM (getD pn) (\<lambda>d.
     bindM (guardM Would_block (\<lambda>_. dq_mutex_owner d = None)) (\<lambda>_.
     updD pn (dq_mutex_owner_update (\<lambda>_. Some ws))))"

definition deque_unlock :: "wid \<Rightarrow> wid \<Rightarrow> unit rts" where
  "deque_unlock ws pn = updD pn (dq_mutex_owner_update (\<lambda>_. None))"

subsection \<open>Deque operations\<close>

definition create_deques :: "unit rts" where
  "create_deques = modifyM (\<lambda>s. s\<lparr>deques := (\<lambda>i. if i < active_size s
      then (deques s i)\<lparr>dq_mutex_owner := None\<rparr> else deques s i)\<rparr>)"

definition init_deques :: "unit rts" where
  "init_deques = modifyM (\<lambda>s. s\<lparr>deques := (\<lambda>i. if i < active_size s
      then \<lparr>dq_mutex_owner = None, dq_top = None, dq_bottom = None\<rparr> else deques s i)\<rparr>)"

definition deque_xtract_top :: "wid \<Rightarrow> wid \<Rightarrow> cid option rts" where
  "deque_xtract_top ws pn =
     bindM (deque_assert_ownership ws pn) (\<lambda>_.
     bindM (getD pn) (\<lambda>d.
     bindM
       (case dq_top d of
          Some cl \<Rightarrow>
            bindM (getC cl) (\<lambda>t.
            bindM (CILK_ASSERT 213 (owner_ready_deque t = Some pn)) (\<lambda>_.
            bindM (updD pn (dq_top_update (\<lambda>_. next_ready t))) (\<lambda>_.
            bindM
              (if dq_bottom d = Some cl then
                 bindM (CILK_ASSERT 216 (next_ready t = None)) (\<lambda>_.
                 updD pn (dq_bottom_update (\<lambda>_. None)))
               else
                 bindM (CILK_ASSERT 219 (next_ready t \<noteq> None)) (\<lambda>_.
                 bindM (deref (next_ready t)) (\<lambda>n.
                 updC n (prev_ready_update (\<lambda>_. None))))) (\<lambda>_.
            updC cl (owner_ready_deque_update (\<lambda>_. None))))))
        | None \<Rightarrow> CILK_ASSERT 224 (dq_bottom d = None)) (\<lambda>_.
     ret (dq_top d))))"

definition deque_peek_top :: "wid \<Rightarrow> wid \<Rightarrow> cid option rts" where
  "deque_peek_top ws pn =
     bindM (deque_assert_ownership ws pn) (\<lambda>_.
     bindM (getD pn) (\<lambda>d.
     bindM
       (case dq_top d of
          Some cl \<Rightarrow> bindM (getC cl) (\<lambda>t. CILK_ASSERT 238 (owner_ready_deque t = Some pn))
        | None \<Rightarrow> CILK_ASSERT 240 (dq_bottom d = None)) (\<lambda>_.
     ret (dq_top d))))"

definition deque_xtract_bottom :: "wid \<Rightarrow> wid \<Rightarrow> cid option rts" where
  "deque_xtract_bottom ws pn =
     bindM (deque_assert_ownership ws pn) (\<lambda>_.
     bindM (getD pn) (\<lambda>d.
     bindM
       (case dq_bottom d of
          Some cl \<Rightarrow>
            bindM (getC cl) (\<lambda>t.
            bindM (CILK_ASSERT 254 (owner_ready_deque t = Some pn)) (\<lambda>_.
            bindM (updD pn (dq_bottom_update (\<lambda>_. prev_ready t))) (\<lambda>_.
            bindM
              (if dq_top d = Some cl then
                 bindM (CILK_ASSERT 257 (prev_ready t = None)) (\<lambda>_.
                 updD pn (dq_top_update (\<lambda>_. None)))
               else
                 bindM (CILK_ASSERT 260 (prev_ready t \<noteq> None)) (\<lambda>_.
                 bindM (deref (prev_ready t)) (\<lambda>n.
                 updC n (next_ready_update (\<lambda>_. None))))) (\<lambda>_.
            updC cl (owner_ready_deque_update (\<lambda>_. None))))))
        | None \<Rightarrow> CILK_ASSERT 266 (dq_top d = None)) (\<lambda>_.
     ret (dq_bottom d))))"

definition deque_peek_bottom :: "wid \<Rightarrow> wid \<Rightarrow> cid option rts" where
  "deque_peek_bottom ws pn =
     bindM (deque_assert_ownership ws pn) (\<lambda>_.
     bindM (getD pn) (\<lambda>d.
     bindM
       (case dq_bottom d of
          Some cl \<Rightarrow> bindM (getC cl) (\<lambda>t. CILK_ASSERT 280 (owner_ready_deque t = Some pn))
        | None \<Rightarrow> CILK_ASSERT 282 (dq_top d = None)) (\<lambda>_.
     ret (dq_bottom d))))"

definition deque_add_bottom :: "wid \<Rightarrow> cid \<Rightarrow> wid \<Rightarrow> unit rts" where
  "deque_add_bottom ws cl pn =
     bindM (deque_assert_ownership ws pn) (\<lambda>_.
     bindM (getC cl) (\<lambda>t.
     bindM (CILK_ASSERT 314 (owner_ready_deque t = None)) (\<lambda>_.
     bindM (getD pn) (\<lambda>d.
     bindM (updC cl (\<lambda>t. t\<lparr>prev_ready := dq_bottom d, next_ready := None\<rparr>)) (\<lambda>_.
     bindM (updD pn (dq_bottom_update (\<lambda>_. Some cl))) (\<lambda>_.
     bindM (updC cl (owner_ready_deque_update (\<lambda>_. Some pn))) (\<lambda>_.
     if dq_top d \<noteq> None then
       bindM (CILK_ASSERT 322 (dq_bottom d \<noteq> None)) (\<lambda>_.
       bindM (deref (dq_bottom d)) (\<lambda>b.
       updC b (next_ready_update (\<lambda>_. Some cl))))
     else updD pn (dq_top_update (\<lambda>_. Some cl)))))))))"

definition deque_assert_is_bottom :: "wid \<Rightarrow> cid \<Rightarrow> unit rts" where
  "deque_assert_is_bottom ws t =
     bindM (deque_assert_ownership ws ws) (\<lambda>_.
     bindM (deque_peek_bottom ws ws) (\<lambda>b.
     CILK_ASSERT 332 (b = Some t)))"

definition Cilk_remove_and_free_closure_and_frame :: "wid \<Rightarrow> addr \<Rightarrow> wid \<Rightarrow> unit rts" where
  "Cilk_remove_and_free_closure_and_frame ws f pn =
     bindM (deque_lock ws pn) (\<lambda>_.
     bindM (deque_xtract_bottom ws pn) (\<lambda>b.
     bindM (deref b) (\<lambda>t.
     bindM (getC t) (\<lambda>cl.
     bindM (CILK_ASSERT 343 (frame cl = Some f)) (\<lambda>_.
     bindM (deque_unlock ws pn) (\<lambda>_.
     bindM (modifyM (\<lambda>s. s\<lparr>frames := (frames s)(f := None)\<rparr>)) (\<lambda>_.
     Closure_destroy_malloc ws t)))))))"

lemmas lock_defs =
  Closure_checkmagic_def Closure_assert_ownership_def Closure_assert_alienation_def
  Closure_lock_def Closure_unlock_def Closure_destroy_def freeC_def
  deque_assert_ownership_def deque_lock_def deque_unlock_def

lemma wp_Closure_lock [wp_simps]:
  "wp (Closure_lock ws c) Q s =
     (case closures s c of None \<Rightarrow> False
      | Some t \<Rightarrow> mutex_owner t = None
          \<and> Q () (s\<lparr>closures := (closures s)(c \<mapsto> t\<lparr>mutex_owner := Some ws\<rparr>)\<rparr>))"
  by (simp add: lock_defs wp_simps split: option.split)

lemma wp_Closure_unlock [wp_simps]:
  "wp (Closure_unlock ws c) Q s =
     (case closures s c of None \<Rightarrow> False
      | Some t \<Rightarrow> mutex_owner t = Some ws
          \<and> Q () (s\<lparr>closures := (closures s)(c \<mapsto> t\<lparr>mutex_owner := None\<rparr>)\<rparr>))"
  by (simp add: lock_defs wp_simps split: option.split)

lemma wp_Closure_assert_ownership [wp_simps]:
  "wp (Closure_assert_ownership ws c) Q s =
     (case closures s c of None \<Rightarrow> False | Some t \<Rightarrow> mutex_owner t = Some ws \<and> Q () s)"
  by (simp add: lock_defs wp_simps split: option.split)

lemma wp_Closure_assert_alienation [wp_simps]:
  "wp (Closure_assert_alienation ws c) Q s =
     (case closures s c of None \<Rightarrow> False | Some t \<Rightarrow> mutex_owner t \<noteq> Some ws \<and> Q () s)"
  by (simp add: lock_defs wp_simps split: option.split)

lemma wp_Closure_checkmagic [wp_simps]:
  "wp (Closure_checkmagic ws c) Q s = (case closures s c of None \<Rightarrow> False | Some t \<Rightarrow> Q () s)"
  by (simp add: lock_defs wp_simps split: option.split)

lemma wp_deque_lock [wp_simps]:
  "wp (deque_lock ws pn) Q s =
     (dq_mutex_owner (deques s pn) = None
      \<and> Q () (s\<lparr>deques := (deques s)(pn := (deques s pn)\<lparr>dq_mutex_owner := Some ws\<rparr>)\<rparr>))"
  by (simp add: lock_defs wp_simps)

lemma wp_deque_unlock [wp_simps]:
  "wp (deque_unlock ws pn) Q s =
     Q () (s\<lparr>deques := (deques s)(pn := (deques s pn)\<lparr>dq_mutex_owner := None\<rparr>)\<rparr>)"
  by (simp add: lock_defs wp_simps)

lemma wp_deque_assert_ownership [wp_simps]:
  "wp (deque_assert_ownership ws pn) Q s = (dq_mutex_owner (deques s pn) = Some ws \<and> Q () s)"
  by (simp add: lock_defs wp_simps)

subsection \<open>The abstract deque\<close>

text \<open>
  \<open>dq_chain h pn p xs\<close>: the closures \<open>xs\<close> are linked in this order in the heap \<open>h\<close>, the first one
  after \<open>p\<close>, and belong to the deque of \<open>pn\<close>. \<open>is_deque s pn xs\<close>: \<open>xs\<close> is the whole deque of \<open>pn\<close>,
  and the closures that belong to it are exactly those of \<open>xs\<close>.
\<close>

definition hd_opt :: "'a list \<Rightarrow> 'a option" where
  "hd_opt xs = (case xs of [] \<Rightarrow> None | x # _ \<Rightarrow> Some x)"

definition last_opt :: "'a list \<Rightarrow> 'a option" where
  "last_opt xs = (if xs = [] then None else Some (last xs))"

lemma hd_opt_simps [simp]: "hd_opt [] = None" "hd_opt (x # xs) = Some x"
  by (simp_all add: hd_opt_def)

lemma last_opt_simps [simp]: "last_opt [] = None" "last_opt (xs @ [x]) = Some x"
  "last_opt [x] = Some x"
  by (simp_all add: last_opt_def)

lemma hd_opt_append [simp]: "hd_opt (xs @ [x]) = Some (if xs = [] then x else hd xs)"
  by (cases xs) simp_all

lemma hd_opt_None [simp]: "hd_opt xs = None \<longleftrightarrow> xs = []"
  by (cases xs) simp_all

lemma last_opt_None [simp]: "last_opt xs = None \<longleftrightarrow> xs = []"
  by (simp add: last_opt_def)

lemma last_opt_Some: "last_opt xs = Some x \<longleftrightarrow> xs \<noteq> [] \<and> last xs = x"
  by (simp add: last_opt_def)

definition dq_links :: "(cid \<Rightarrow> Closure option) \<Rightarrow> wid \<Rightarrow> cid list \<Rightarrow> bool" where
  "dq_links h pn xs \<longleftrightarrow>
     (\<forall>i < length xs. \<exists>t. h (xs ! i) = Some t \<and> owner_ready_deque t = Some pn
        \<and> prev_ready t = (if i = 0 then None else Some (xs ! (i - 1)))
        \<and> next_ready t = (if Suc i < length xs then Some (xs ! Suc i) else None))"

definition is_deque :: "Rts \<Rightarrow> wid \<Rightarrow> cid list \<Rightarrow> bool" where
  "is_deque s pn xs \<longleftrightarrow>
     dq_top (deques s pn) = hd_opt xs \<and> dq_bottom (deques s pn) = last_opt xs \<and> distinct xs
     \<and> dq_links (closures s) pn xs"

definition is_deques :: "Rts \<Rightarrow> (wid \<Rightarrow> cid list) \<Rightarrow> bool" where
  "is_deques s dq \<longleftrightarrow> (\<forall>pn. is_deque s pn (dq pn)) \<and>
     (\<forall>c t pn. closures s c = Some t \<longrightarrow> (owner_ready_deque t = Some pn \<longleftrightarrow> c \<in> set (dq pn)))"

text \<open>
  The deque operations change only the links and owners of closures and the end pointers of the
  deque; \<open>core\<close> forgets the former, and \<open>same_core\<close> says that nothing else changed.
\<close>

definition core :: "Closure \<Rightarrow> Closure" where
  "core t = t\<lparr>next_ready := None, prev_ready := None, owner_ready_deque := None\<rparr>"

definition same_core :: "Rts \<Rightarrow> Rts \<Rightarrow> bool" where
  "same_core s s' \<longleftrightarrow>
     (\<exists>C D. s' = s\<lparr>deques := D, closures := C\<rparr>
        \<and> (\<forall>c. map_option core (C c) = map_option core (closures s c))
        \<and> (\<forall>p. dq_mutex_owner (D p) = dq_mutex_owner (deques s p)))"

lemma core_fields:
  assumes "core t' = core t"
  shows "mutex_owner t' = mutex_owner t" "join_counter t' = join_counter t" "status t' = status t"
    "return_value t' = return_value t" "return_size t' = return_size t"
    "complete_inlets t' = complete_inlets t" "incomplete_inlets t' = incomplete_inlets t"
    "parent t' = parent t" "frame t' = frame t" "abort_status t' = abort_status t"
    "cache t' = cache t" "malloced t' = malloced t" "cp t' = cp t" "work t' = work t"
  using assms by (cases t; cases t'; simp add: core_def)+

lemma core_upd [simp]:
  "core (t\<lparr>next_ready := a\<rparr>) = core t" "core (t\<lparr>prev_ready := a\<rparr>) = core t"
  "core (t\<lparr>owner_ready_deque := b\<rparr>) = core t"
  by (simp_all add: core_def)

lemma same_core_refl [simp]: "same_core s s"
  unfolding same_core_def by (rule exI [of _ "closures s"], rule exI [of _ "deques s"]) simp

lemma same_core_trans: "same_core s t \<Longrightarrow> same_core t u \<Longrightarrow> same_core s u"
  unfolding same_core_def by fastforce

lemma same_core_closure:
  "same_core s s' \<Longrightarrow> closures s c = Some t \<Longrightarrow> \<exists>t'. closures s' c = Some t' \<and> core t' = core t"
proof -
  assume "same_core s s'" and c: "closures s c = Some t"
  then obtain C D where s': "s' = s\<lparr>deques := D, closures := C\<rparr>"
    and C: "\<forall>c. map_option core (C c) = map_option core (closures s c)"
    unfolding same_core_def by blast
  from C [rule_format, of c] c show ?thesis by (auto simp: s')
qed

lemma same_core_fields:
  assumes "same_core s s'"
  shows "frames s' = frames s" "memory s' = memory s" "workers s' = workers s"
    "inlet_code s' = inlet_code s" "next_cid s' = next_cid s" "active_size s' = active_size s"
    "done_flag s' = done_flag s" "event_count s' = event_count s"
    "dq_mutex_owner (deques s' p) = dq_mutex_owner (deques s p)"
  using assms by (auto simp: same_core_def)

subsection \<open>The laws of the deque operations\<close>

lemma dq_linksD:
  "dq_links h pn xs \<Longrightarrow> c \<in> set xs \<Longrightarrow> \<exists>t. h c = Some t \<and> owner_ready_deque t = Some pn"
  by (metis dq_links_def in_set_conv_nth)

lemma dq_links_tl:
  assumes "dq_links h pn (c # d # cs)" and "distinct (c # d # cs)"
    and "h c = Some t" and "h d = Some u"
  shows "dq_links (h(d \<mapsto> u\<lparr>prev_ready := None\<rparr>, c \<mapsto> t\<lparr>owner_ready_deque := None\<rparr>)) pn (d # cs)"
  unfolding dq_links_def
proof (intro allI impI)
  fix i assume i: "i < length (d # cs)"
  have l: "\<exists>v. h ((c # d # cs) ! Suc i) = Some v \<and> owner_ready_deque v = Some pn
        \<and> prev_ready v = Some ((c # d # cs) ! i)
        \<and> next_ready v = (if Suc (Suc i) < length (c # d # cs) then Some ((c # d # cs) ! Suc (Suc i)) else None)"
    using assms(1) i unfolding dq_links_def by (metis Suc_less_eq diff_Suc_1 length_Cons nat.simps(3))
  have nc: "(d # cs) ! i \<noteq> c" using assms(2) i by (metis distinct.simps(2) nth_mem)
  show "\<exists>v. (h(d \<mapsto> u\<lparr>prev_ready := None\<rparr>, c \<mapsto> t\<lparr>owner_ready_deque := None\<rparr>)) ((d # cs) ! i) = Some v
      \<and> owner_ready_deque v = Some pn
      \<and> prev_ready v = (if i = 0 then None else Some ((d # cs) ! (i - 1)))
      \<and> next_ready v = (if Suc i < length (d # cs) then Some ((d # cs) ! Suc i) else None)"
  proof (cases i)
    case 0
    with l assms(2,4) show ?thesis by auto
  next
    case (Suc j)
    have "(d # cs) ! i \<noteq> d" using assms(2) i Suc by (auto simp: in_set_conv_nth)
    with l nc Suc show ?thesis by auto
  qed
qed

lemma dq_links_butlast:
  assumes "dq_links h pn (ys @ [d, c])" and "distinct (ys @ [d, c])"
    and "h c = Some t" and "h d = Some u"
  shows "dq_links (h(d \<mapsto> u\<lparr>next_ready := None\<rparr>, c \<mapsto> t\<lparr>owner_ready_deque := None\<rparr>)) pn (ys @ [d])"
  unfolding dq_links_def
proof (intro allI impI)
  fix i assume i: "i < length (ys @ [d])"
  let ?xs = "ys @ [d, c]"
  have eq: "(ys @ [d]) ! k = ?xs ! k" if "k < length (ys @ [d])" for k
    using that by (simp add: nth_append)
  have l: "\<exists>v. h (?xs ! i) = Some v \<and> owner_ready_deque v = Some pn
        \<and> prev_ready v = (if i = 0 then None else Some (?xs ! (i - 1)))
        \<and> next_ready v = (if Suc i < length ?xs then Some (?xs ! Suc i) else None)"
    using assms(1) [unfolded dq_links_def, rule_format, of i] i by simp
  have nc: "?xs ! i \<noteq> c"
    using assms(2) i eq [OF i] by (auto simp: nth_append split: if_splits)
  show "\<exists>v. (h(d \<mapsto> u\<lparr>next_ready := None\<rparr>, c \<mapsto> t\<lparr>owner_ready_deque := None\<rparr>)) ((ys @ [d]) ! i) = Some v
      \<and> owner_ready_deque v = Some pn
      \<and> prev_ready v = (if i = 0 then None else Some ((ys @ [d]) ! (i - 1)))
      \<and> next_ready v = (if Suc i < length (ys @ [d]) then Some ((ys @ [d]) ! Suc i) else None)"
  proof (cases "i = length ys")
    case True
    with l assms(2,4) show ?thesis by (auto simp: nth_append)
  next
    case False
    with i have less: "i < length ys" by simp
    have "?xs ! i \<noteq> d" using assms(2) less by (auto simp: nth_append in_set_conv_nth)
    with l nc less show ?thesis by (auto simp: nth_append)
  qed
qed

lemma dq_links_snoc:
  assumes "dq_links h pn ys" and "distinct ys" and "c \<notin> set ys"
    and "h c = Some t"
  shows "dq_links
      ((if ys = [] then h else h(last ys := map_option (next_ready_update (\<lambda>_. Some c)) (h (last ys))))
        (c \<mapsto> t\<lparr>prev_ready := last_opt ys, next_ready := None, owner_ready_deque := Some pn\<rparr>))
      pn (ys @ [c])"
  unfolding dq_links_def
proof (intro allI impI)
  fix i assume i: "i < length (ys @ [c])"
  let ?h = "(if ys = [] then h else h(last ys := map_option (next_ready_update (\<lambda>_. Some c)) (h (last ys))))
        (c \<mapsto> t\<lparr>prev_ready := last_opt ys, next_ready := None, owner_ready_deque := Some pn\<rparr>)"
  show "\<exists>v. ?h ((ys @ [c]) ! i) = Some v \<and> owner_ready_deque v = Some pn
      \<and> prev_ready v = (if i = 0 then None else Some ((ys @ [c]) ! (i - 1)))
      \<and> next_ready v = (if Suc i < length (ys @ [c]) then Some ((ys @ [c]) ! Suc i) else None)"
  proof (cases "i = length ys")
    case True
    then show ?thesis by (cases ys rule: rev_cases) (auto simp: nth_append last_opt_def)
  next
    case False
    with i have less: "i < length ys" by simp
    then have nc: "ys ! i \<noteq> c" using assms(3) by auto
    obtain v where v: "h (ys ! i) = Some v" "owner_ready_deque v = Some pn"
        "prev_ready v = (if i = 0 then None else Some (ys ! (i - 1)))"
        "next_ready v = (if Suc i < length ys then Some (ys ! Suc i) else None)"
      using assms(1) less unfolding dq_links_def by blast
    show ?thesis
    proof (cases "Suc i = length ys")
      case True
      then have "last ys = ys ! i" using last_conv_nth [of ys] by (cases ys) auto
      with v nc less True show ?thesis by (auto simp: nth_append)
    next
      case False
      have "last ys \<noteq> ys ! i"
        using less False assms(2) by (metis One_nat_def Suc_pred diff_less last_conv_nth
            length_greater_0_conv less_nat_zero_code list.size(3) nth_eq_iff_index_eq zero_less_one)
      with v nc less False show ?thesis by (auto simp: nth_append)
    qed
  qed
qed

lemma is_deques_disjoint:
  assumes "is_deques s dq" and "c \<in> set (dq p)" and "c \<in> set (dq q)"
  shows "p = q"
proof -
  obtain t where "closures s c = Some t" "owner_ready_deque t = Some p"
    using assms(1,2) dq_linksD unfolding is_deques_def is_deque_def by blast
  with assms(1,3) show ?thesis unfolding is_deques_def by (metis option.inject)
qed

text \<open>An operation on the deque of \<open>pn\<close> that touches only its own members leaves the others alone.\<close>

lemma is_deques_update:
  assumes dqs: "is_deques s dq" and new: "is_deque s' pn xs'"
    and D: "\<And>p. p \<noteq> pn \<Longrightarrow> deques s' p = deques s p"
    and C: "\<And>c. c \<notin> set (dq pn) \<Longrightarrow> c \<notin> set xs' \<Longrightarrow> closures s' c = closures s c"
    and own: "\<And>c t. c \<in> set (dq pn) \<union> set xs' \<Longrightarrow> closures s' c = Some t \<Longrightarrow>
       owner_ready_deque t = (if c \<in> set xs' then Some pn else None)"
    and free: "\<And>p c. p \<noteq> pn \<Longrightarrow> c \<in> set (dq p) \<Longrightarrow> c \<notin> set xs'"
  shows "is_deques s' (dq(pn := xs'))"
  unfolding is_deques_def
proof (intro conjI allI impI)
  fix p
  show "is_deque s' p ((dq(pn := xs')) p)"
  proof (cases "p = pn")
    case True
    with new show ?thesis by simp
  next
    case False
    have "closures s' c = closures s c" if "c \<in> set (dq p)" for c
      using C free [OF False that] is_deques_disjoint [OF dqs that] False by blast
    moreover have "is_deque s p (dq p)" using dqs by (simp add: is_deques_def)
    ultimately show ?thesis using False D [OF False]
      by (simp add: is_deque_def dq_links_def)
  qed
next
  fix c t p
  assume c: "closures s' c = Some t"
  show "(owner_ready_deque t = Some p) = (c \<in> set ((dq(pn := xs')) p))"
  proof (cases "c \<in> set (dq pn) \<union> set xs'")
    case True
    from own [OF True c] free [of p c] is_deques_disjoint [OF dqs, of c pn p] True show ?thesis
      by (auto split: if_splits)
  next
    case False
    then have "closures s c = Some t" using C c by simp
    with dqs have "(owner_ready_deque t = Some p) = (c \<in> set (dq p))" by (simp add: is_deques_def)
    with False show ?thesis by auto
  qed
qed

lemma is_dequesD:
  assumes "is_deques s dq"
  shows "dq_top (deques s pn) = hd_opt (dq pn)" "dq_bottom (deques s pn) = last_opt (dq pn)"
    "distinct (dq pn)" "dq_links (closures s) pn (dq pn)"
  using assms by (simp_all add: is_deques_def is_deque_def)

lemma is_deques_owner:
  "is_deques s dq \<Longrightarrow> closures s c = Some t \<Longrightarrow> owner_ready_deque t = Some pn \<longleftrightarrow> c \<in> set (dq pn)"
  by (simp add: is_deques_def)

lemma is_deques_member:
  "is_deques s dq \<Longrightarrow> c \<in> set (dq pn) \<Longrightarrow> \<exists>t. closures s c = Some t \<and> owner_ready_deque t = Some pn"
  using dq_linksD is_dequesD(4) by blast

lemma deque_peek_top_law:
  assumes "is_deques s dq" and "dq_mutex_owner (deques s pn) = Some ws"
  shows "wp (deque_peek_top ws pn) (\<lambda>r s'. r = hd_opt (dq pn) \<and> s' = s) s"
proof (cases "dq pn")
  case Nil
  with assms show ?thesis
    by (simp add: deque_peek_top_def wp_simps is_dequesD [of s dq pn])
next
  case (Cons c cs)
  with is_deques_member [OF assms(1), of c pn] assms show ?thesis
    by (auto simp: deque_peek_top_def wp_simps is_dequesD [of s dq pn])
qed

lemma deque_peek_bottom_law:
  assumes "is_deques s dq" and "dq_mutex_owner (deques s pn) = Some ws"
  shows "wp (deque_peek_bottom ws pn) (\<lambda>r s'. r = last_opt (dq pn) \<and> s' = s) s"
proof (cases "dq pn" rule: rev_cases)
  case Nil
  with assms show ?thesis
    by (simp add: deque_peek_bottom_def wp_simps is_dequesD [of s dq pn])
next
  case (snoc cs c)
  with is_deques_member [OF assms(1), of c pn] assms show ?thesis
    by (auto simp: deque_peek_bottom_def wp_simps is_dequesD [of s dq pn])
qed

lemma same_core_intro:
  assumes "s' = s\<lparr>deques := D, closures := C\<rparr>"
    and "\<And>c. map_option core (C c) = map_option core (closures s c)"
    and "\<And>p. dq_mutex_owner (D p) = dq_mutex_owner (deques s p)"
  shows "same_core s s'"
  using assms unfolding same_core_def by blast

lemma deque_xtract_top_law:
  assumes dqs: "is_deques s dq" and locked: "dq_mutex_owner (deques s pn) = Some ws"
  shows "wp (deque_xtract_top ws pn)
    (\<lambda>r s'. r = hd_opt (dq pn) \<and> is_deques s' (dq(pn := tl (dq pn))) \<and> same_core s s') s"
proof (cases "dq pn")
  case Nil
  then have "dq(pn := []) = dq" by auto
  with Nil assms show ?thesis
    by (simp add: deque_xtract_top_def wp_simps is_dequesD [of s dq pn])
next
  case (Cons c cs)
  note ends = is_dequesD [OF dqs, of pn, unfolded Cons]
  obtain t where t: "closures s c = Some t" "owner_ready_deque t = Some pn"
    using is_deques_member [OF dqs, of c pn] Cons by auto
  have nxt: "next_ready t = hd_opt cs"
    using ends(4) [unfolded dq_links_def, rule_format, of 0] t by (cases cs) auto
  show ?thesis
  proof (cases cs)
    case Nil
    let ?s' = "s\<lparr>deques := (deques s)(pn := (deques s pn)\<lparr>dq_top := None, dq_bottom := None\<rparr>),
       closures := (closures s)(c \<mapsto> t\<lparr>owner_ready_deque := None\<rparr>)\<rparr>"
    have "is_deques ?s' (dq(pn := []))"
      by (rule is_deques_update [OF dqs])
        (auto simp: is_deque_def dq_links_def Cons Nil split: if_splits)
    moreover have "same_core s ?s'"
      by (rule same_core_intro, rule refl) (simp_all add: t)
    ultimately show ?thesis
      using Nil Cons locked t nxt ends
      by (simp add: deque_xtract_top_def wp_simps)
  next
    case (Cons d ds)
    note cons2 = \<open>dq pn = c # cs\<close> Cons
    obtain u where u: "closures s d = Some u" "owner_ready_deque u = Some pn"
      using is_deques_member [OF dqs, of d pn] cons2 by auto
    have cd: "c \<noteq> d" using ends(3) Cons by auto
    let ?h = "(closures s)(d \<mapsto> u\<lparr>prev_ready := None\<rparr>, c \<mapsto> t\<lparr>owner_ready_deque := None\<rparr>)"
    let ?s' = "s\<lparr>deques := (deques s)(pn := (deques s pn)\<lparr>dq_top := Some d\<rparr>),
       closures := ?h\<rparr>"
    have links: "dq_links ?h pn (d # ds)"
      using dq_links_tl ends(3,4) t(1) u(1) Cons by blast
    have "is_deque ?s' pn (d # ds)"
      using links ends cons2 by (simp add: is_deque_def last_opt_def)
    moreover have "owner_ready_deque v = (if x \<in> set (d # ds) then Some pn else None)"
      if "x \<in> set (dq pn) \<union> set (d # ds)" "closures ?s' x = Some v" for x v
      using that links dq_linksD [OF links, of x] cons2 ends(3) by (auto split: if_splits)
    moreover have "y \<notin> set (d # ds)" if "p \<noteq> pn" "y \<in> set (dq p)" for p y
      using is_deques_disjoint [OF dqs that(2), of pn] that(1) cons2 by auto
    ultimately have "is_deques ?s' (dq(pn := d # ds))"
      by (intro is_deques_update [OF dqs]) (auto simp: cons2)
    moreover have "same_core s ?s'"
      by (rule same_core_intro, rule refl) (simp_all add: t u)
    ultimately show ?thesis
      using cons2 locked t u nxt ends cd
      by (auto simp: deque_xtract_top_def wp_simps last_opt_def fun_upd_twist [OF cd])
  qed
qed

lemma deque_xtract_bottom_law:
  assumes dqs: "is_deques s dq" and locked: "dq_mutex_owner (deques s pn) = Some ws"
  shows "wp (deque_xtract_bottom ws pn)
    (\<lambda>r s'. r = last_opt (dq pn) \<and> is_deques s' (dq(pn := butlast (dq pn))) \<and> same_core s s') s"
proof (cases "dq pn" rule: rev_cases)
  case Nil
  then have "dq(pn := []) = dq" by auto
  with Nil assms show ?thesis
    by (simp add: deque_xtract_bottom_def wp_simps is_dequesD [of s dq pn])
next
  case (snoc ys c)
  note ends = is_dequesD [OF dqs, of pn, unfolded snoc]
  obtain t where t: "closures s c = Some t" "owner_ready_deque t = Some pn"
    using is_deques_member [OF dqs, of c pn] snoc by auto
  have prv: "prev_ready t = last_opt ys"
    using ends(4) [unfolded dq_links_def, rule_format, of "length ys"] t
    by (cases ys rule: rev_cases) (auto simp: nth_append last_opt_def)
  show ?thesis
  proof (cases ys rule: rev_cases)
    case Nil
    let ?s' = "s\<lparr>deques := (deques s)(pn := (deques s pn)\<lparr>dq_bottom := None, dq_top := None\<rparr>),
       closures := (closures s)(c \<mapsto> t\<lparr>owner_ready_deque := None\<rparr>)\<rparr>"
    have "is_deques ?s' (dq(pn := []))"
      by (rule is_deques_update [OF dqs])
        (auto simp: is_deque_def dq_links_def snoc Nil split: if_splits)
    moreover have "same_core s ?s'"
      by (rule same_core_intro, rule refl) (simp_all add: t)
    ultimately show ?thesis
      using Nil snoc locked t prv ends
      by (simp add: deque_xtract_bottom_def wp_simps)
  next
    case (snoc zs d)
    note snoc2 = \<open>dq pn = ys @ [c]\<close> snoc
    obtain u where u: "closures s d = Some u" "owner_ready_deque u = Some pn"
      using is_deques_member [OF dqs, of d pn] snoc2 by auto
    have cd: "c \<noteq> d" using ends(3) snoc by auto
    let ?h = "(closures s)(d \<mapsto> u\<lparr>next_ready := None\<rparr>, c \<mapsto> t\<lparr>owner_ready_deque := None\<rparr>)"
    let ?s' = "s\<lparr>deques := (deques s)(pn := (deques s pn)\<lparr>dq_bottom := Some d\<rparr>),
       closures := ?h\<rparr>"
    have links: "dq_links ?h pn (zs @ [d])"
      using dq_links_butlast [of "closures s" pn zs d c t u] ends(3,4) t(1) u(1) snoc by simp
    have topne: "dq_top (deques s pn) \<noteq> Some c"
      using ends(1,3) snoc by (cases zs) auto
    have "is_deque ?s' pn (zs @ [d])"
      using links ends snoc2 by (cases zs) (simp_all add: is_deque_def last_opt_def)
    moreover have "owner_ready_deque v = (if x \<in> set (zs @ [d]) then Some pn else None)"
      if "x \<in> set (dq pn) \<union> set (zs @ [d])" "closures ?s' x = Some v" for x v
      using that links dq_linksD [OF links, of x] snoc2 ends(3) by (auto split: if_splits)
    moreover have "y \<notin> set (zs @ [d])" if "p \<noteq> pn" "y \<in> set (dq p)" for p y
      using is_deques_disjoint [OF dqs that(2), of pn] that(1) snoc2 by auto
    ultimately have "is_deques ?s' (dq(pn := zs @ [d]))"
      by (intro is_deques_update [OF dqs]) (auto simp: snoc2)
    moreover have "same_core s ?s'"
      by (rule same_core_intro, rule refl) (simp_all add: t u)
    ultimately show ?thesis
      using snoc2 locked t u prv ends cd topne
      by (auto simp: deque_xtract_bottom_def wp_simps last_opt_def butlast_append fun_upd_twist [OF cd])
  qed
qed

lemma deque_add_bottom_law:
  assumes dqs: "is_deques s dq" and locked: "dq_mutex_owner (deques s pn) = Some ws"
    and t: "closures s c = Some t" "owner_ready_deque t = None"
  shows "wp (deque_add_bottom ws c pn)
    (\<lambda>_ s'. is_deques s' (dq(pn := dq pn @ [c])) \<and> same_core s s') s"
proof -
  have fresh: "c \<notin> set (dq p)" for p
    using is_deques_owner [OF dqs t(1), of p] t(2) by simp
  note ends = is_dequesD [OF dqs, of pn]
  let ?t = "t\<lparr>prev_ready := last_opt (dq pn), next_ready := None, owner_ready_deque := Some pn\<rparr>"
  let ?h = "(if dq pn = [] then closures s
       else (closures s)(last (dq pn) := map_option (next_ready_update (\<lambda>_. Some c)) (closures s (last (dq pn)))))
       (c \<mapsto> ?t)"
  let ?s' = "s\<lparr>deques := (deques s)(pn := (deques s pn)
       \<lparr>dq_bottom := Some c, dq_top := hd_opt (dq pn @ [c])\<rparr>),
       closures := ?h\<rparr>"
  have links: "dq_links ?h pn (dq pn @ [c])"
    by (rule dq_links_snoc [OF ends(4,3) fresh t(1)])
  have "is_deque ?s' pn (dq pn @ [c])"
    using links ends fresh by (simp add: is_deque_def)
  moreover have "owner_ready_deque v = (if x \<in> set (dq pn @ [c]) then Some pn else None)"
    if "x \<in> set (dq pn) \<union> set (dq pn @ [c])" "closures ?s' x = Some v" for x v
    using that dq_linksD [OF links, of x] by auto
  moreover have "y \<notin> set (dq pn @ [c])" if "p \<noteq> pn" "y \<in> set (dq p)" for p y
    using is_deques_disjoint [OF dqs that(2), of pn] that fresh by auto
  ultimately have new: "is_deques ?s' (dq(pn := dq pn @ [c]))"
    by (intro is_deques_update [OF dqs]) (auto simp: last_in_set_iff)
  have same: "same_core s ?s'"
    by (rule same_core_intro, rule refl) (auto simp: t option.map_comp comp_def)
  show ?thesis
  proof (cases "dq pn" rule: rev_cases)
    case Nil
    with new same locked t ends show ?thesis
      by (simp add: deque_add_bottom_def wp_simps)
  next
    case (snoc ys d)
    obtain u where u: "closures s d = Some u"
      using is_deques_member [OF dqs, of d pn] snoc by auto
    have cd: "d \<noteq> c" using fresh [of pn] snoc by auto
    have hd: "hd_opt (dq pn @ [c]) = dq_top (deques s pn)" "dq_top (deques s pn) \<noteq> None"
      using ends(1) snoc by (cases ys; simp)+
    have "(deques s pn)\<lparr>dq_bottom := Some c, dq_top := dq_top (deques s pn)\<rparr> = (deques s pn)\<lparr>dq_bottom := Some c\<rparr>"
      by simp
    with new same locked t u cd snoc ends(2) hd show ?thesis
      by (auto simp: deque_add_bottom_def wp_simps fun_upd_twist [OF cd])
  qed
qed

subsection \<open>The interface of a work-stealing deque\<close>

text \<open>
  What the scheduler needs of the ready deques, for any state type: \<open>rep\<close> relates the state to one
  list per worker, \<open>owns\<close> says who holds the lock of a deque, \<open>free\<close> which closures are in no deque.
  The client lemmas are the discipline of the comment in \<open>cilk-internal.h\<close>: the owner uses the
  bottom as a stack, the thieves the top as the front of a queue.
\<close>

fun push_all :: "('c \<Rightarrow> ('e, 's, unit) prog) \<Rightarrow> 'c list \<Rightarrow> ('e, 's, unit) prog" where
  "push_all add [] = ret ()"
| "push_all add (c # cs) = bindM (add c) (\<lambda>_. push_all add cs)"

fun take_all :: "('e, 's, 'c option) prog \<Rightarrow> nat \<Rightarrow> ('e, 's, 'c list) prog" where
  "take_all xt 0 = ret []"
| "take_all xt (Suc n) = bindM xt (\<lambda>r. bindM (take_all xt n) (\<lambda>rs.
     ret (case r of None \<Rightarrow> rs | Some c \<Rightarrow> c # rs)))"

locale work_deque =
  fixes rep :: "'s \<Rightarrow> (wid \<Rightarrow> 'c list) \<Rightarrow> bool"
    and owns :: "'s \<Rightarrow> wid \<Rightarrow> wid \<Rightarrow> bool"
    and free :: "'s \<Rightarrow> 'c \<Rightarrow> bool"
    and xtop :: "wid \<Rightarrow> wid \<Rightarrow> ('e, 's, 'c option) prog"
    and xbot :: "wid \<Rightarrow> wid \<Rightarrow> ('e, 's, 'c option) prog"
    and add :: "wid \<Rightarrow> 'c \<Rightarrow> wid \<Rightarrow> ('e, 's, unit) prog"
  assumes xtop_law: "rep s dq \<Longrightarrow> owns s ws pn \<Longrightarrow>
      wp (xtop ws pn) (\<lambda>r s'. r = hd_opt (dq pn) \<and> rep s' (dq(pn := tl (dq pn))) \<and> owns s' ws pn) s"
    and xbot_law: "rep s dq \<Longrightarrow> owns s ws pn \<Longrightarrow>
      wp (xbot ws pn) (\<lambda>r s'. r = last_opt (dq pn) \<and> rep s' (dq(pn := butlast (dq pn))) \<and> owns s' ws pn) s"
    and add_law: "rep s dq \<Longrightarrow> owns s ws pn \<Longrightarrow> free s c \<Longrightarrow>
      wp (add ws c pn) (\<lambda>_ s'. rep s' (dq(pn := dq pn @ [c])) \<and> owns s' ws pn
        \<and> (\<forall>d. d \<noteq> c \<longrightarrow> free s d \<longrightarrow> free s' d)) s"
begin

lemma push_all_law:
  assumes "rep s dq" "owns s ws pn" "distinct cs" "\<And>c. c \<in> set cs \<Longrightarrow> free s c"
  shows "wp (push_all (\<lambda>c. add ws c pn) cs) (\<lambda>_ s'. rep s' (dq(pn := dq pn @ cs)) \<and> owns s' ws pn) s"
  using assms
proof (induction cs arbitrary: s dq)
  case Nil
  then show ?case by (simp add: wp_simps fun_upd_idem)
next
  case (Cons c cs)
  have "wp (add ws c pn) (\<lambda>_ s'. wp (push_all (\<lambda>c. add ws c pn) cs)
      (\<lambda>_ s''. rep s'' (dq(pn := dq pn @ c # cs)) \<and> owns s'' ws pn) s') s"
  proof (rule wp_mono [OF add_law [OF Cons.prems(1,2)]])
    show "free s c" by (simp add: Cons.prems(4))
  next
    fix a s'
    assume "rep s' (dq(pn := dq pn @ [c])) \<and> owns s' ws pn \<and> (\<forall>d. d \<noteq> c \<longrightarrow> free s d \<longrightarrow> free s' d)"
    moreover have "d \<noteq> c" if "d \<in> set cs" for d using that Cons.prems(3) by auto
    ultimately show "wp (push_all (\<lambda>c. add ws c pn) cs)
      (\<lambda>_ s''. rep s'' (dq(pn := dq pn @ c # cs)) \<and> owns s'' ws pn) s'"
      using Cons.IH [of s' "dq(pn := dq pn @ [c])"] Cons.prems(3,4)
      by (simp add: fun_upd_def cong: if_cong)
  qed
  then show ?case by (simp add: wp_simps fun_upd_def)
qed

lemma take_top_law:
  assumes "rep s dq" "owns s ws pn"
  shows "wp (take_all (xtop ws pn) n)
     (\<lambda>r s'. r = take n (dq pn) \<and> rep s' (dq(pn := drop n (dq pn))) \<and> owns s' ws pn) s"
  using assms
proof (induction n arbitrary: s dq)
  case 0
  then show ?case by (simp add: wp_simps fun_upd_idem)
next
  case (Suc n)
  show ?case
    unfolding take_all.simps wp_bind
  proof (rule wp_mono [OF xtop_law [OF Suc.prems]], elim conjE)
    fix r s' assume r: "r = hd_opt (dq pn)" and s': "rep s' (dq(pn := tl (dq pn)))" "owns s' ws pn"
    show "wp (take_all (xtop ws pn) n) (\<lambda>rs. wp (ret (case r of None \<Rightarrow> rs | Some c \<Rightarrow> c # rs))
      (\<lambda>r s'. r = take (Suc n) (dq pn) \<and> rep s' (dq(pn := drop (Suc n) (dq pn))) \<and> owns s' ws pn)) s'"
      by (rule wp_mono [OF Suc.IH [OF s']]) (cases "dq pn"; simp add: wp_simps r fun_upd_def cong: if_cong)
  qed
qed

lemma take_bottom_law:
  assumes "rep s dq" "owns s ws pn"
  shows "wp (take_all (xbot ws pn) n)
     (\<lambda>r s'. r = take n (rev (dq pn)) \<and> rep s' (dq(pn := rev (drop n (rev (dq pn))))) \<and> owns s' ws pn) s"
  using assms
proof (induction n arbitrary: s dq)
  case 0
  then show ?case by (simp add: wp_simps fun_upd_idem)
next
  case (Suc n)
  show ?case
    unfolding take_all.simps wp_bind
  proof (rule wp_mono [OF xbot_law [OF Suc.prems]], elim conjE)
    fix r s' assume r: "r = last_opt (dq pn)" and s': "rep s' (dq(pn := butlast (dq pn)))" "owns s' ws pn"
    show "wp (take_all (xbot ws pn) n) (\<lambda>rs. wp (ret (case r of None \<Rightarrow> rs | Some c \<Rightarrow> c # rs))
      (\<lambda>r s'. r = take (Suc n) (rev (dq pn)) \<and> rep s' (dq(pn := rev (drop (Suc n) (rev (dq pn)))))
         \<and> owns s' ws pn)) s'"
      by (rule wp_mono [OF Suc.IH [OF s']])
        (cases "dq pn" rule: rev_cases; simp add: wp_simps r fun_upd_def cong: if_cong)
  qed
qed

text \<open>What the owner pushed last it gets back first; the thieves see the oldest first.\<close>

lemma owner_is_lifo:
  assumes "rep s dq" "owns s ws pn" "distinct cs" "\<And>c. c \<in> set cs \<Longrightarrow> free s c"
  shows "wp (bindM (push_all (\<lambda>c. add ws c pn) cs) (\<lambda>_. take_all (xbot ws pn) (length cs)))
     (\<lambda>r s'. r = rev cs \<and> rep s' dq) s"
  unfolding wp_bind
proof (rule wp_mono [OF push_all_law [OF assms(1-3)]], fact assms(4), elim conjE)
  fix s' assume s': "rep s' (dq(pn := dq pn @ cs))" "owns s' ws pn"
  show "wp (take_all (xbot ws pn) (length cs)) (\<lambda>r s'. r = rev cs \<and> rep s' dq) s'"
    by (rule wp_mono [OF take_bottom_law [OF s']]) simp
qed

lemma thief_is_fifo:
  assumes "rep s dq" "owns s ws pn" "distinct cs" "\<And>c. c \<in> set cs \<Longrightarrow> free s c"
  shows "wp (bindM (push_all (\<lambda>c. add ws c pn) cs)
       (\<lambda>_. take_all (xtop ws pn) (length (dq pn) + length cs)))
     (\<lambda>r s'. r = dq pn @ cs \<and> rep s' (dq(pn := []))) s"
  unfolding wp_bind
proof (rule wp_mono [OF push_all_law [OF assms(1-3)]], fact assms(4), elim conjE)
  fix s' assume s': "rep s' (dq(pn := dq pn @ cs))" "owns s' ws pn"
  show "wp (take_all (xtop ws pn) (length (dq pn) + length cs))
     (\<lambda>r s'. r = dq pn @ cs \<and> rep s' (dq(pn := []))) s'"
    by (rule wp_mono [OF take_top_law [OF s']]) (simp add: fun_upd_def cong: if_cong)
qed

end

definition deque_owned :: "Rts \<Rightarrow> wid \<Rightarrow> wid \<Rightarrow> bool" where
  "deque_owned s ws pn \<longleftrightarrow> dq_mutex_owner (deques s pn) = Some ws"

definition in_no_deque :: "Rts \<Rightarrow> cid \<Rightarrow> bool" where
  "in_no_deque s c \<longleftrightarrow> (\<exists>t. closures s c = Some t \<and> owner_ready_deque t = None)"

lemma in_no_deque_iff:
  "is_deques s dq \<Longrightarrow> in_no_deque s c \<longleftrightarrow> closures s c \<noteq> None \<and> (\<forall>p. c \<notin> set (dq p))"
  unfolding in_no_deque_def by (metis is_deques_owner not_None_eq option.distinct(1))

lemma same_core_alive: "same_core s s' \<Longrightarrow> closures s' c = None \<longleftrightarrow> closures s c = None"
  unfolding same_core_def
  by (elim exE conjE) (drule spec [where x = c], simp, metis option.map_disc_iff)

interpretation ready: work_deque is_deques deque_owned in_no_deque
  deque_xtract_top deque_xtract_bottom deque_add_bottom
proof (unfold_locales, goal_cases)
  case (1 s dq ws pn)
  then have l: "dq_mutex_owner (deques s pn) = Some ws" by (simp add: deque_owned_def)
  then show ?case
    by (rule wp_mono [OF deque_xtract_top_law [OF 1(1)]])
      (auto simp: deque_owned_def same_core_fields l)
next
  case (2 s dq ws pn)
  then have l: "dq_mutex_owner (deques s pn) = Some ws" by (simp add: deque_owned_def)
  then show ?case
    by (rule wp_mono [OF deque_xtract_bottom_law [OF 2(1)]])
      (auto simp: deque_owned_def same_core_fields l)
next
  case (3 s dq ws pn c)
  then have l: "dq_mutex_owner (deques s pn) = Some ws" by (simp add: deque_owned_def)
  obtain t where t: "closures s c = Some t" "owner_ready_deque t = None"
    using 3(3) by (auto simp: in_no_deque_def)
  show ?case
    by (rule wp_mono [OF deque_add_bottom_law [OF 3(1) l t]])
      (auto simp: deque_owned_def same_core_fields l in_no_deque_iff [OF 3(1)] in_no_deque_iff
         same_core_alive)
qed

end
