(* ===== verification/Rts_Closure.thy ===== *)
theory Rts_Closure
  imports Rts_Deque
begin

section \<open>Closures, children, exceptions and aborts\<close>

text \<open>
  The middle part of \<open>runtime/sched.c\<close>: creation of closures, the list of unreturned children, the
  exception pointer and the recursive abort. The lemmas give the tree that the closures form
  (\<open>tree_ok\<close>), and show that \<open>recursively_signal_abort\<close> ends and marks exactly the subtree.
\<close>

subsection \<open>Signatures and frames\<close>

definition get_CilkProcInfo :: "wid \<Rightarrow> CilkProcInfo list \<Rightarrow> int \<Rightarrow> CilkProcInfo rts" where
  "get_CilkProcInfo ws p e =
     bindM (CILK_ASSERT 359 (0 < e)) (\<lambda>_.
     if nat e < length p then ret (p ! nat e) else failM (Wild_pointer (nat e)))"

definition get_proc_slow :: "CilkProcInfo list \<Rightarrow> nat option rts" where
  "get_proc_slow p = (if p = [] then failM (Wild_pointer 0) else ret (pi_inlet (p ! 0)))"

definition get_frame_size :: "addr \<Rightarrow> int rts" where
  "get_frame_size f =
     bindM (getF f) (\<lambda>fr.
     if sig fr = [] then failM (Wild_pointer f) else ret (pi_index (sig fr ! 0)))"

definition Cilk_destroy_frame :: "wid \<Rightarrow> addr \<Rightarrow> int \<Rightarrow> unit rts" where
  "Cilk_destroy_frame ws f sz =
     bindM (getF f) (\<lambda>_. modifyM (\<lambda>s. s\<lparr>frames := (frames s)(f := None)\<rparr>))"

definition read_bytes :: "(addr \<Rightarrow> byte) \<Rightarrow> addr \<Rightarrow> nat \<Rightarrow> byte list" where
  "read_bytes m a n = map (\<lambda>i. m (a + i)) [0..<n]"

definition write_bytes :: "(addr \<Rightarrow> byte) \<Rightarrow> addr \<Rightarrow> byte list \<Rightarrow> addr \<Rightarrow> byte" where
  "write_bytes m a bs = (\<lambda>x. if a \<le> x \<and> x < a + length bs then bs ! (x - a) else m x)"

lemma read_write_bytes: "read_bytes (write_bytes m a bs) a (length bs) = bs"
  by (intro nth_equalityI) (simp_all add: read_bytes_def write_bytes_def)

subsection \<open>The cache of a closure\<close>

definition CLOSURE_CACHE :: "cid \<Rightarrow> CilkClosureCache rts" where
  "CLOSURE_CACHE c = bindM (getC c) (\<lambda>t. bindM (deref (cache t)) (\<lambda>w. getW w))"

definition CLOSURE_CACHE_update :: "cid \<Rightarrow> (CilkClosureCache \<Rightarrow> CilkClosureCache) \<Rightarrow> unit rts" where
  "CLOSURE_CACHE_update c f = bindM (getC c) (\<lambda>t. bindM (deref (cache t)) (\<lambda>w. updW w f))"

definition Closure_at_top_of_stack :: "cid \<Rightarrow> bool rts" where
  "Closure_at_top_of_stack cl = bindM (CLOSURE_CACHE cl) (\<lambda>k. ret (head k + 1 = tail k))"

definition Closure_has_children :: "cid \<Rightarrow> bool rts" where
  "Closure_has_children cl = bindM (getC cl) (\<lambda>t. ret (join_counter t \<noteq> 0))"

definition Closure_init :: "wid option \<Rightarrow> cid \<Rightarrow> unit rts" where
  "Closure_init ws new =
     bindM (updC new (\<lambda>t. t\<lparr>mutex_owner := None, cp := 0, work := 0,
        complete_inlets := [], incomplete_inlets := [], next_ready := None, prev_ready := None,
        abort_status := NO_ABORT, return_size := 0, return_value := [],
        owner_ready_deque := None\<rparr>)) (\<lambda>_.
     (case ws of Some w \<Rightarrow> Cilk_event w EVENT_CLOSURE_CREATE | None \<Rightarrow> ret ()))"

definition alloc_closure :: "cid rts" where
  "alloc_closure = (\<lambda>s. Inr (next_cid s,
     s\<lparr>next_cid := Suc (next_cid s), closures := (closures s)(next_cid s \<mapsto> heap_junk s)\<rparr>))"

definition Closure_create :: "wid \<Rightarrow> cid rts" where
  "Closure_create ws =
     bindM alloc_closure (\<lambda>new.
     bindM (updC new (malloced_update (\<lambda>_. False))) (\<lambda>_.
     bindM (Closure_init (Some ws) new) (\<lambda>_.
     ret new)))"

definition Cilk_Closure_create_malloc :: "wid option \<Rightarrow> cid rts" where
  "Cilk_Closure_create_malloc ws =
     bindM alloc_closure (\<lambda>new.
     bindM (updC new (malloced_update (\<lambda>_. True))) (\<lambda>_.
     bindM (Closure_init ws new) (\<lambda>_.
     ret new)))"

subsection \<open>Children\<close>

definition make_incomplete_inlet_closure :: "wid \<Rightarrow> cid \<Rightarrow> int \<Rightarrow> InletClosure rts" where
  "make_incomplete_inlet_closure ws pa e =
     bindM (getC pa) (\<lambda>t.
     bindM (deref (frame t)) (\<lambda>f.
     bindM (getF f) (\<lambda>fr.
     bindM (get_CilkProcInfo ws (sig fr) (if 0 \<le> e then e else entry fr)) (\<lambda>info.
     getM (\<lambda>s.
       \<lparr>ic_this = None,
        ic_receiver = (if pi_index info = -1 then receiver fr else nat (int f + pi_index info)),
        ic_inlet = pi_inlet info,
        ic_argsize = (case pi_inlet info of Some _ \<Rightarrow> pi_argsize info | None \<Rightarrow> pi_size info),
        ic_inlet_args = (case pi_inlet info of
           Some _ \<Rightarrow> read_bytes (memory s) (nat (int f + pi_argindex info)) (pi_argsize info)
         | None \<Rightarrow> replicate (pi_size info) (heap_byte s))\<rparr>)))))"

definition Closure_add_child :: "wid \<Rightarrow> cid \<Rightarrow> cid \<Rightarrow> unit rts" where
  "Closure_add_child ws pa child =
     bindM (Closure_checkmagic ws pa) (\<lambda>_.
     bindM (Closure_assert_ownership ws pa) (\<lambda>_.
     bindM (Closure_checkmagic ws child) (\<lambda>_.
     bindM (Closure_assert_alienation ws child) (\<lambda>_.
     bindM (make_incomplete_inlet_closure ws pa (-1)) (\<lambda>p.
     updC pa (\<lambda>t. t\<lparr>incomplete_inlets := p\<lparr>ic_this := Some child\<rparr> # incomplete_inlets t\<rparr>))))))"

fun remove_inlet :: "cid \<Rightarrow> InletClosure list \<Rightarrow> (InletClosure \<times> InletClosure list) option" where
  "remove_inlet child [] = None"
| "remove_inlet child (p # ps) =
     (if ic_this p = Some child then Some (p, ps)
      else map_option (\<lambda>(q, qs). (q, p # qs)) (remove_inlet child ps))"

definition Closure_remove_child :: "wid \<Rightarrow> cid \<Rightarrow> cid \<Rightarrow> InletClosure rts" where
  "Closure_remove_child ws pa child =
     bindM (Closure_checkmagic ws pa) (\<lambda>_.
     bindM (Closure_checkmagic ws child) (\<lambda>_.
     bindM (Closure_assert_ownership ws pa) (\<lambda>_.
     bindM (getC pa) (\<lambda>t.
     case remove_inlet child (incomplete_inlets t) of
       Some (p, ps) \<Rightarrow>
         bindM (updC pa (incomplete_inlets_update (\<lambda>_. ps))) (\<lambda>_. ret p)
     | None \<Rightarrow> failM (Die 533)))))"

subsection \<open>The exception pointer\<close>

text \<open>The infinite element of \<open>enat\<close> is \<open>EXCEPTION_INFINITY\<close>.\<close>

definition increment_exception_pointer :: "wid \<Rightarrow> cid \<Rightarrow> unit rts" where
  "increment_exception_pointer ws cl =
     bindM (Closure_assert_ownership ws cl) (\<lambda>_.
     bindM (getC cl) (\<lambda>t.
     bindM (CILK_ASSERT 578 (status t = CLOSURE_RUNNING)) (\<lambda>_.
     bindM (CLOSURE_CACHE cl) (\<lambda>k.
     if exception k \<noteq> \<infinity> then CLOSURE_CACHE_update cl (exception_update eSuc) else ret ()))))"

definition decrement_exception_pointer :: "wid \<Rightarrow> cid \<Rightarrow> unit rts" where
  "decrement_exception_pointer ws cl =
     bindM (Closure_assert_ownership ws cl) (\<lambda>_.
     bindM (getC cl) (\<lambda>t.
     bindM (CILK_ASSERT 593 (status t = CLOSURE_RUNNING)) (\<lambda>_.
     bindM (CLOSURE_CACHE cl) (\<lambda>k.
     if exception k \<noteq> \<infinity> then CLOSURE_CACHE_update cl (exception_update (\<lambda>e. e - 1)) else ret ()))))"

definition reset_exception_pointer :: "wid \<Rightarrow> cid \<Rightarrow> unit rts" where
  "reset_exception_pointer ws cl =
     bindM (Closure_assert_ownership ws cl) (\<lambda>_.
     CLOSURE_CACHE_update cl (\<lambda>k. k\<lparr>exception := enat (head k)\<rparr>))"

definition signal_immediate_exception :: "wid \<Rightarrow> cid \<Rightarrow> unit rts" where
  "signal_immediate_exception ws cl =
     bindM (Closure_assert_ownership ws cl) (\<lambda>_.
     bindM (getC cl) (\<lambda>t.
     bindM (CILK_ASSERT 612 (status t = CLOSURE_RUNNING)) (\<lambda>_.
     CLOSURE_CACHE_update cl (exception_update (\<lambda>_. \<infinity>)))))"

subsection \<open>Aborts\<close>

definition Closure_being_aborted :: "wid \<Rightarrow> cid \<Rightarrow> bool rts" where
  "Closure_being_aborted ws cl =
     bindM (Closure_assert_ownership ws cl) (\<lambda>_.
     bindM (getC cl) (\<lambda>t. ret (abort_status t \<noteq> NO_ABORT)))"

definition signal_abort :: "cid \<Rightarrow> AbortStatus \<Rightarrow> unit rts" where
  "signal_abort cl s =
     updC cl (\<lambda>t. if s < abort_status t then t\<lparr>abort_status := s\<rparr> else t)"

definition reset_abort :: "cid \<Rightarrow> unit rts" where
  "reset_abort cl = updC cl (abort_status_update (\<lambda>_. NO_ABORT))"

definition maybe_reset_abort :: "cid \<Rightarrow> unit rts" where
  "maybe_reset_abort cl =
     bindM (getC cl) (\<lambda>t. if abort_status t \<noteq> ABORT_ALL then reset_abort cl else ret ())"

text \<open>
  The recursion of the abort has the depth of the tree; the number \<open>fuel\<close> bounds it, and
  \<open>recursively_signal_abort_law\<close> shows that the number of closures ever created is enough.
\<close>

fun recursively_signal_abort :: "nat \<Rightarrow> wid \<Rightarrow> cid \<Rightarrow> AbortStatus \<Rightarrow> unit rts"
and signal_abort_children :: "nat \<Rightarrow> wid \<Rightarrow> InletClosure list \<Rightarrow> unit rts" where
  "recursively_signal_abort 0 ws cl s = failM Out_of_fuel"
| "recursively_signal_abort (Suc n) ws cl s =
     bindM (Closure_assert_ownership ws cl) (\<lambda>_.
     bindM (signal_abort cl s) (\<lambda>_.
     bindM (getC cl) (\<lambda>t.
     bindM (if status t = CLOSURE_RUNNING then signal_immediate_exception ws cl else ret ()) (\<lambda>_.
     signal_abort_children n ws (incomplete_inlets t)))))"
| "signal_abort_children n ws [] = ret ()"
| "signal_abort_children n ws (p # ps) =
     bindM (deref (ic_this p)) (\<lambda>c.
     bindM (Closure_lock ws c) (\<lambda>_.
     bindM (recursively_signal_abort n ws c ABORT_ALL) (\<lambda>_.
     bindM (Closure_unlock ws c) (\<lambda>_.
     signal_abort_children n ws ps))))"

definition abort_ready_closure :: "wid \<Rightarrow> cid \<Rightarrow> cid option rts" where
  "abort_ready_closure ws cl =
     bindM (getC cl) (\<lambda>t.
     bindM (CILK_ASSERT 729 (abort_status t = ABORT_ALL)) (\<lambda>_.
     bindM (Closure_has_children cl) (\<lambda>b.
     if b then
       bindM (updC cl (status_update (\<lambda>_. CLOSURE_SUSPENDED))) (\<lambda>_.
       bindM (Cilk_event ws EVENT_ABORT_READY_SUSPEND) (\<lambda>_.
       ret None))
     else
       bindM (deref (frame t)) (\<lambda>f.
       bindM (get_frame_size f) (\<lambda>sz.
       bindM (Cilk_destroy_frame ws f sz) (\<lambda>_.
       bindM (Cilk_event ws EVENT_ABORT_READY_RETURN) (\<lambda>_.
       bindM (updC cl (status_update (\<lambda>_. CLOSURE_RETURNING))) (\<lambda>_.
       ret (Some cl)))))))))"

subsection \<open>Weakest preconditions\<close>

lemma wp_CLOSURE_CACHE [wp_simps]:
  "wp (CLOSURE_CACHE c) Q s = (case closures s c of None \<Rightarrow> False
     | Some t \<Rightarrow> (case cache t of None \<Rightarrow> False | Some w \<Rightarrow> Q (wcache (workers s w)) s))"
  by (simp add: CLOSURE_CACHE_def wp_simps split: option.split)

definition upd_cache :: "wid \<Rightarrow> (CilkClosureCache \<Rightarrow> CilkClosureCache) \<Rightarrow> Rts \<Rightarrow> Rts" where
  "upd_cache w f s = s\<lparr>workers := (workers s)(w := (workers s w)\<lparr>wcache := f (wcache (workers s w))\<rparr>)\<rparr>"

lemma wp_CLOSURE_CACHE_update [wp_simps]:
  "wp (CLOSURE_CACHE_update c f) Q s = (case closures s c of None \<Rightarrow> False
     | Some t \<Rightarrow> (case cache t of None \<Rightarrow> False | Some w \<Rightarrow> Q () (upd_cache w f s)))"
  by (simp add: CLOSURE_CACHE_update_def upd_cache_def wp_simps split: option.split)

lemma wp_Closure_at_top_of_stack [wp_simps]:
  "wp (Closure_at_top_of_stack c) Q s = (case closures s c of None \<Rightarrow> False
     | Some t \<Rightarrow> (case cache t of None \<Rightarrow> False
         | Some w \<Rightarrow> Q (head (wcache (workers s w)) + 1 = tail (wcache (workers s w))) s))"
  by (simp add: Closure_at_top_of_stack_def wp_simps split: option.split)

lemma wp_Closure_has_children [wp_simps]:
  "wp (Closure_has_children c) Q s = (case closures s c of None \<Rightarrow> False
     | Some t \<Rightarrow> Q (join_counter t \<noteq> 0) s)"
  by (simp add: Closure_has_children_def wp_simps split: option.split)

lemma wp_Closure_being_aborted [wp_simps]:
  "wp (Closure_being_aborted ws c) Q s = (case closures s c of None \<Rightarrow> False
     | Some t \<Rightarrow> mutex_owner t = Some ws \<and> Q (abort_status t \<noteq> NO_ABORT) s)"
  by (simp add: Closure_being_aborted_def wp_simps split: option.split)

lemma wp_reset_abort [wp_simps]:
  "wp (reset_abort c) Q s = (case closures s c of None \<Rightarrow> False
     | Some t \<Rightarrow> Q () (s\<lparr>closures := (closures s)(c \<mapsto> t\<lparr>abort_status := NO_ABORT\<rparr>)\<rparr>))"
  by (simp add: reset_abort_def wp_simps)

lemma wp_signal_immediate_exception [wp_simps]:
  "wp (signal_immediate_exception ws c) Q s = (case closures s c of None \<Rightarrow> False
     | Some t \<Rightarrow> mutex_owner t = Some ws \<and> status t = CLOSURE_RUNNING \<and>
        (case cache t of None \<Rightarrow> False | Some w \<Rightarrow> Q () (upd_cache w (exception_update (\<lambda>_. \<infinity>)) s)))"
  by (simp add: signal_immediate_exception_def wp_simps split: option.split)

lemma upd_cache_fields [simp]:
  "closures (upd_cache w f s) = closures s" "deques (upd_cache w f s) = deques s"
  "frames (upd_cache w f s) = frames s" "memory (upd_cache w f s) = memory s"
  "next_cid (upd_cache w f s) = next_cid s"
  "inlet_code (upd_cache w f s) = inlet_code s" "active_size (upd_cache w f s) = active_size s"
  "done_flag (upd_cache w f s) = done_flag s" "event_count (upd_cache w f s) = event_count s"
  "heap_junk (upd_cache w f s) = heap_junk s" "heap_byte (upd_cache w f s) = heap_byte s"
  "wcache (workers (upd_cache w f s) v) =
     (if v = w then f (wcache (workers s w)) else wcache (workers s v))"
  by (simp_all add: upd_cache_def)

subsection \<open>The tree of closures\<close>

definition child_ids :: "Closure \<Rightarrow> cid option list" where
  "child_ids t = map ic_this (incomplete_inlets t)"

definition child_rel :: "(cid \<Rightarrow> Closure option) \<Rightarrow> (cid \<times> cid) set" where
  "child_rel h = {(p, c). \<exists>t. h p = Some t \<and> Some c \<in> set (child_ids t)}"

definition descendants :: "(cid \<Rightarrow> Closure option) \<Rightarrow> cid \<Rightarrow> cid set" where
  "descendants h c = {d. (c, d) \<in> (child_rel h)\<^sup>+}"

text \<open>
  \<open>tree_ok h\<close>: the join counter of every closure counts its unreturned children, which are distinct
  and point back to it; a closure with a parent is one of the parent's children, and younger.
\<close>

definition node_ok :: "(cid \<Rightarrow> Closure option) \<Rightarrow> cid \<Rightarrow> Closure \<Rightarrow> bool" where
  "node_ok h c t \<longleftrightarrow>
     join_counter t = int (length (incomplete_inlets t)) \<and> distinct (child_ids t) \<and>
     (\<forall>x \<in> set (child_ids t). \<exists>d u. x = Some d \<and> h d = Some u \<and> parent u = Some c) \<and>
     (\<forall>p. parent t = Some p \<longrightarrow> p < c \<and> (\<exists>u. h p = Some u \<and> Some c \<in> set (child_ids u)))"

definition tree_ok :: "(cid \<Rightarrow> Closure option) \<Rightarrow> bool" where
  "tree_ok h \<longleftrightarrow> (\<forall>c t. h c = Some t \<longrightarrow> node_ok h c t)"

lemma tree_okD: "tree_ok h \<Longrightarrow> h c = Some t \<Longrightarrow> node_ok h c t"
  by (simp add: tree_ok_def)

text \<open>The part of \<open>tree_ok\<close> that the traversal downwards needs.\<close>

definition kids_ok :: "(cid \<Rightarrow> Closure option) \<Rightarrow> bool" where
  "kids_ok h \<longleftrightarrow> (\<forall>c t. h c = Some t \<longrightarrow>
     (\<forall>x \<in> set (child_ids t). \<exists>d u. x = Some d \<and> h d = Some u \<and> c < d))"

lemma kids_okD: "kids_ok h \<Longrightarrow> h c = Some t \<Longrightarrow> x \<in> set (child_ids t) \<Longrightarrow>
   \<exists>d u. x = Some d \<and> h d = Some u \<and> c < d"
  by (simp add: kids_ok_def)

lemma tree_kids_ok: "tree_ok h \<Longrightarrow> kids_ok h"
  unfolding kids_ok_def
proof (intro allI impI ballI)
  fix c t x assume ok: "tree_ok h" and t: "h c = Some t" and x: "x \<in> set (child_ids t)"
  obtain d u where d: "x = Some d" "h d = Some u" "parent u = Some c"
    using tree_okD [OF ok t] x unfolding node_ok_def by blast
  with tree_okD [OF ok d(2)] show "\<exists>d u. x = Some d \<and> h d = Some u \<and> c < d"
    by (simp add: node_ok_def)
qed

lemma child_rel_younger: "kids_ok h \<Longrightarrow> (p, c) \<in> child_rel h \<Longrightarrow> p < c"
  unfolding child_rel_def using kids_okD by fastforce

lemma descendants_younger:
  assumes "kids_ok h" "d \<in> descendants h c" shows "c < d"
proof -
  have "(c, d) \<in> (child_rel h)\<^sup>+" using assms(2) by (simp add: descendants_def)
  then show ?thesis
    by induction (auto dest: child_rel_younger [OF assms(1)])
qed

lemma descendants_alive:
  assumes ok: "kids_ok h" and "d \<in> descendants h c" shows "\<exists>u. h d = Some u"
proof -
  have "(c, d) \<in> (child_rel h)\<^sup>+" using assms(2) by (simp add: descendants_def)
  then obtain p where "(p, d) \<in> child_rel h" by (meson tranclD2)
  then obtain t where "h p = Some t" "Some d \<in> set (child_ids t)" by (auto simp: child_rel_def)
  with kids_okD [OF ok] show ?thesis by fast
qed

lemma descendants_unfold:
  "descendants h c = (\<Union>d \<in> {d. (c, d) \<in> child_rel h}. insert d (descendants h d))"
  by (auto simp: descendants_def dest: tranclD intro: trancl_into_trancl2)
    (metis converse_tranclE)

text \<open>The tree depends on the lists of children alone.\<close>

definition same_tree :: "(cid \<Rightarrow> Closure option) \<Rightarrow> (cid \<Rightarrow> Closure option) \<Rightarrow> bool" where
  "same_tree h h' \<longleftrightarrow> (\<forall>c. map_option (\<lambda>t. (join_counter t, child_ids t, parent t)) (h c)
       = map_option (\<lambda>t. (join_counter t, child_ids t, parent t)) (h' c))"

lemma same_treeD: "same_tree h h' \<Longrightarrow> h c = Some t \<Longrightarrow>
   \<exists>t'. h' c = Some t' \<and> join_counter t' = join_counter t \<and> child_ids t' = child_ids t \<and> parent t' = parent t"
  unfolding same_tree_def by (drule spec [where x = c], cases "h' c") auto

lemma same_tree_sym: "same_tree h h' \<Longrightarrow> same_tree h' h"
  by (simp add: same_tree_def)

lemma same_tree_child_rel: "same_tree h h' \<Longrightarrow> child_rel h' = child_rel h"
proof -
  have "child_rel h \<subseteq> child_rel h'" if "same_tree h h'" for h h'
    using same_treeD [OF that] by (fastforce simp: child_rel_def)
  then show "same_tree h h' \<Longrightarrow> child_rel h' = child_rel h" using same_tree_sym by blast
qed

lemma same_tree_descendants: "same_tree h h' \<Longrightarrow> descendants h' c = descendants h c"
  by (simp add: descendants_def same_tree_child_rel)

lemma child_ids_length: "length (child_ids t) = length (incomplete_inlets t)"
  by (simp add: child_ids_def)

lemma same_tree_ok:
  assumes st: "same_tree h h'" and ok: "tree_ok h" shows "tree_ok h'"
  unfolding tree_ok_def
proof (intro allI impI)
  fix c t' assume "h' c = Some t'"
  with same_treeD [OF same_tree_sym [OF st]] obtain t where t: "h c = Some t"
    "join_counter t = join_counter t'" "child_ids t = child_ids t'" "parent t = parent t'" by blast
  note n = tree_okD [OF ok t(1), unfolded node_ok_def, folded child_ids_length]
  show "node_ok h' c t'"
    unfolding node_ok_def child_ids_length [symmetric]
  proof (intro conjI ballI allI impI)
    fix x assume "x \<in> set (child_ids t')"
    then obtain d u where "x = Some d" "h d = Some u" "parent u = Some c" using n t by auto
    then show "\<exists>d u. x = Some d \<and> h' d = Some u \<and> parent u = Some c"
      using same_treeD [OF st] by fastforce
  next
    fix p assume "parent t' = Some p"
    then obtain u where "h p = Some u" "Some c \<in> set (child_ids u)" using n t by auto
    then show "\<exists>u. h' p = Some u \<and> Some c \<in> set (child_ids u)"
      using same_treeD [OF st] by fastforce
  qed (use n t in auto)
qed

lemma same_tree_kids_ok:
  assumes st: "same_tree h h'" and ok: "kids_ok h" shows "kids_ok h'"
  unfolding kids_ok_def
proof (intro allI impI ballI)
  fix c t' x assume "h' c = Some t'" and x: "x \<in> set (child_ids t')"
  with same_treeD [OF same_tree_sym [OF st]] obtain t where t: "h c = Some t" "child_ids t = child_ids t'"
    by blast
  then obtain d u where "x = Some d" "h d = Some u" "c < d" using kids_okD [OF ok t(1), of x] x t(2) by auto
  then show "\<exists>d u. x = Some d \<and> h' d = Some u \<and> c < d" using same_treeD [OF st] by blast
qed

lemma same_tree_refl [simp]: "same_tree h h"
  by (simp add: same_tree_def)

lemma same_tree_trans: "same_tree h h' \<Longrightarrow> same_tree h' h'' \<Longrightarrow> same_tree h h''"
  by (simp add: same_tree_def)

lemma same_tree_upd:
  "h c = Some t \<Longrightarrow> join_counter t' = join_counter t \<Longrightarrow> incomplete_inlets t' = incomplete_inlets t \<Longrightarrow>
   parent t' = parent t \<Longrightarrow> same_tree h (h(c \<mapsto> t'))"
  by (simp add: same_tree_def child_ids_def)

subsection \<open>The recursive abort\<close>

text \<open>
  \<open>marked s M\<close>: every closure of \<open>M\<close> has abort status \<open>ABORT_ALL\<close>, and the workers that run one of
  them find the exception pointer at infinity; nothing else is changed.
\<close>

definition runner_of :: "Closure \<Rightarrow> wid option" where
  "runner_of u = (if status u = CLOSURE_RUNNING then cache u else None)"

definition runners :: "Rts \<Rightarrow> cid set \<Rightarrow> wid set" where
  "runners s M = {w. \<exists>d \<in> M. Option.bind (closures s d) runner_of = Some w}"

definition raise_exceptions :: "wid set \<Rightarrow> (wid \<Rightarrow> CilkWorkerState) \<Rightarrow> wid \<Rightarrow> CilkWorkerState" where
  "raise_exceptions W ws = (\<lambda>w. if w \<in> W then (ws w)\<lparr>wcache := (wcache (ws w))\<lparr>exception := \<infinity>\<rparr>\<rparr> else ws w)"

definition mark_heap :: "cid set \<Rightarrow> (cid \<Rightarrow> Closure option) \<Rightarrow> cid \<Rightarrow> Closure option" where
  "mark_heap M h = (\<lambda>d. if d \<in> M then map_option (abort_status_update (\<lambda>_. ABORT_ALL)) (h d) else h d)"

definition marked :: "Rts \<Rightarrow> cid set \<Rightarrow> Rts" where
  "marked s M = s\<lparr>workers := raise_exceptions (runners s M) (workers s), closures := mark_heap M (closures s)\<rparr>"

definition abortable :: "Rts \<Rightarrow> cid set \<Rightarrow> bool" where
  "abortable s M \<longleftrightarrow> (\<forall>d \<in> M. \<exists>u. closures s d = Some u \<and> mutex_owner u = None
     \<and> (status u = CLOSURE_RUNNING \<longrightarrow> cache u \<noteq> None))"

lemma mark_heap_union: "mark_heap M' (mark_heap M h) = mark_heap (M \<union> M') h"
  by (auto simp: mark_heap_def fun_eq_iff option.map_comp comp_def)

lemma runner_of_upd [simp]: "runner_of (t\<lparr>abort_status := a\<rparr>) = runner_of t"
    "runner_of (t\<lparr>mutex_owner := m\<rparr>) = runner_of t"
  by (simp_all add: runner_of_def)

lemma runners_cong:
  "(\<And>d. Option.bind (closures s d) runner_of = Option.bind (closures s' d) runner_of) \<Longrightarrow>
   runners s M = runners s' M"
  by (simp add: runners_def)

lemma runners_marked: "runners (marked s M) M' = runners s M'"
proof (rule runners_cong)
  fix d
  show "Option.bind (closures (marked s M) d) runner_of = Option.bind (closures s d) runner_of"
    by (cases "closures s d") (simp_all add: marked_def mark_heap_def)
qed

lemma runners_union: "runners s (M \<union> M') = runners s M \<union> runners s M'"
  by (auto simp: runners_def)

lemma raise_exceptions_union:
  "raise_exceptions W' (raise_exceptions W ws) = raise_exceptions (W \<union> W') ws"
  by (auto simp: raise_exceptions_def fun_eq_iff)

lemma marked_marked: "marked (marked s M) M' = marked s (M \<union> M')"
  unfolding marked_def [of "marked s M"] runners_marked
  by (simp add: marked_def runners_union raise_exceptions_union mark_heap_union)

lemma marked_empty [simp]: "marked s {} = s"
  by (simp add: marked_def runners_def raise_exceptions_def mark_heap_def)

lemma same_tree_mark: "same_tree h (mark_heap M h)"
  by (simp add: same_tree_def mark_heap_def option.map_comp comp_def child_ids_def)

lemma marked_closures [simp]: "closures (marked s M) = mark_heap M (closures s)"
  by (simp add: marked_def)

lemma mark_heap_None [simp]: "mark_heap M h c = None \<longleftrightarrow> h c = None"
  by (simp add: mark_heap_def)

lemma abortable_marked: "abortable s M \<Longrightarrow> abortable (marked s M') M"
  by (fastforce simp: abortable_def mark_heap_def)

text \<open>The lock of a child that is marked while it is held.\<close>

lemma marked_locked:
  assumes "closures s c = Some t" and "mutex_owner t = None" and "c \<in> M"
  shows "(\<exists>u. closures (marked (s\<lparr>closures := (closures s)(c \<mapsto> t\<lparr>mutex_owner := Some ws\<rparr>)\<rparr>) M) c = Some u
      \<and> mutex_owner u = Some ws
      \<and> (marked (s\<lparr>closures := (closures s)(c \<mapsto> t\<lparr>mutex_owner := Some ws\<rparr>)\<rparr>) M)
          \<lparr>closures := (mark_heap M ((closures s)(c \<mapsto> t\<lparr>mutex_owner := Some ws\<rparr>)))(c \<mapsto> u\<lparr>mutex_owner := None\<rparr>)\<rparr>
        = marked s M)"
proof -
  have t: "t\<lparr>mutex_owner := None\<rparr> = t" using assms(2) by simp
  have r: "runners (s\<lparr>closures := (closures s)(c \<mapsto> t\<lparr>mutex_owner := Some ws\<rparr>)\<rparr>) M = runners s M"
    by (rule runners_cong) (simp add: assms(1))
  show ?thesis
    using assms t by (auto simp: marked_def r mark_heap_def fun_eq_iff intro!: arg_cong [where f = "\<lambda>h. s\<lparr>workers := _, closures := h\<rparr>"])
qed

definition signalled :: "Rts \<Rightarrow> cid \<Rightarrow> AbortStatus \<Rightarrow> Rts" where
  "signalled s c st = (case closures s c of None \<Rightarrow> s | Some t \<Rightarrow>
     s\<lparr>workers := raise_exceptions (runners s {c}) (workers s),
       closures := (closures s)(c \<mapsto> t\<lparr>abort_status := min st (abort_status t)\<rparr>)\<rparr>)"

lemma ABORT_ALL_least [simp]: "min ABORT_ALL a = ABORT_ALL"
  by (cases a) (simp_all add: min_def less_eq_AbortStatus_def)

lemma signalled_ALL: "closures s c = Some t \<Longrightarrow> signalled s c ABORT_ALL = marked s {c}"
  by (simp add: signalled_def marked_def mark_heap_def fun_eq_iff)

lemma wp_signal_abort [wp_simps]:
  "wp (signal_abort c st) Q s = (case closures s c of None \<Rightarrow> False
     | Some t \<Rightarrow> Q () (s\<lparr>closures := (closures s)(c \<mapsto> t\<lparr>abort_status := min st (abort_status t)\<rparr>)\<rparr>))"
proof -
  have "(if st < abort_status t then t\<lparr>abort_status := st\<rparr> else t)
      = t\<lparr>abort_status := min st (abort_status t)\<rparr>" for t :: Closure
    by (cases "st < abort_status t") (simp_all add: min_absorb1 min_absorb2)
  then show ?thesis by (simp only: signal_abort_def wp_updC)
qed

text \<open>The node where the abort starts, then its subtree.\<close>

lemma signalled_step:
  assumes "closures s c = Some t" "mutex_owner t = Some ws" "status t = CLOSURE_RUNNING \<longrightarrow> cache t \<noteq> None"
    and "wp (signal_abort_children n ws (incomplete_inlets t)) Q (signalled s c st)"
  shows "wp (recursively_signal_abort (Suc n) ws c st) Q s"
proof (cases "status t = CLOSURE_RUNNING")
  case True
  with assms(3) obtain w where w: "cache t = Some w" by auto
  have "upd_cache w (exception_update (\<lambda>_. \<infinity>)) (s\<lparr>closures := (closures s)(c \<mapsto> t\<lparr>abort_status := min st (abort_status t)\<rparr>)\<rparr>)
     = signalled s c st"
    using assms(1) True w
    by (simp add: upd_cache_def signalled_def runners_def runner_of_def raise_exceptions_def fun_upd_def cong: if_cong)
  with assms True w show ?thesis by (simp add: wp_simps)
next
  case False
  have "s\<lparr>closures := (closures s)(c \<mapsto> t\<lparr>abort_status := min st (abort_status t)\<rparr>)\<rparr> = signalled s c st"
    using assms(1) False
    by (simp add: signalled_def runners_def runner_of_def raise_exceptions_def)
  moreover from this [symmetric] have "closures (signalled s c st) c = Some (t\<lparr>abort_status := min st (abort_status t)\<rparr>)"
    by simp
  ultimately show ?thesis using assms False by (simp add: wp_simps)
qed

definition subtree :: "(cid \<Rightarrow> Closure option) \<Rightarrow> cid option set \<Rightarrow> cid set" where
  "subtree h X = (\<Union>d \<in> {d. Some d \<in> X}. insert d (descendants h d))"

lemma subtree_child_ids:
  "h c = Some t \<Longrightarrow> subtree h (set (child_ids t)) = descendants h c"
  unfolding subtree_def by (subst descendants_unfold) (simp add: child_rel_def)

lemma subtree_insert:
  "subtree h (insert (Some d) X) = insert d (descendants h d) \<union> subtree h X"
  by (auto simp: subtree_def)

lemma subtree_same_tree: "same_tree h h' \<Longrightarrow> subtree h' X = subtree h X"
  by (simp add: subtree_def same_tree_descendants)

lemma abort_children_law:
  assumes child: "\<And>s d. kids_ok (closures s) \<Longrightarrow> abortable s (insert d (descendants (closures s) d)) \<Longrightarrow>
      N - d \<le> n \<Longrightarrow> d < N \<Longrightarrow> (\<And>c. closures s c \<noteq> None \<Longrightarrow> c < N) \<Longrightarrow>
      wp (bindM (Closure_lock ws d) (\<lambda>_. bindM (recursively_signal_abort n ws d ABORT_ALL)
          (\<lambda>_. Closure_unlock ws d))) (\<lambda>_ s'. s' = marked s (insert d (descendants (closures s) d))) s"
    and "kids_ok (closures s)" and "abortable s (subtree (closures s) (set (map ic_this ps)))"
    and "\<forall>x \<in> set (map ic_this ps). \<exists>d. x = Some d \<and> d < N \<and> N - d \<le> n"
    and "\<And>c. closures s c \<noteq> None \<Longrightarrow> c < N"
  shows "wp (signal_abort_children n ws ps)
    (\<lambda>_ s'. s' = marked s (subtree (closures s) (set (map ic_this ps)))) s"
  using assms(2-)
proof (induction ps arbitrary: s)
  case Nil
  then show ?case by (simp add: wp_simps subtree_def)
next
  case (Cons p ps)
  then obtain d where d: "ic_this p = Some d" "d < N" "N - d \<le> n" by auto
  let ?M = "insert d (descendants (closures s) d)"
  let ?R = "subtree (closures s) (set (map ic_this ps))"
  have split: "subtree (closures s) (set (map ic_this (p # ps))) = ?M \<union> ?R"
    by (simp add: d(1) subtree_insert)
  have ab: "abortable s ?M" "abortable s ?R"
    using Cons.prems(2) unfolding split by (auto simp: abortable_def)
  have tree: "same_tree (closures s) (closures (marked s ?M))" by (simp add: same_tree_mark)
  have rest: "wp (signal_abort_children n ws ps) (\<lambda>_ s'. s' = marked s (?M \<union> ?R)) (marked s ?M)"
    using Cons.IH [of "marked s ?M"] same_tree_kids_ok [OF tree Cons.prems(1)] abortable_marked [OF ab(2)]
      Cons.prems(3,4)
    by (simp add: subtree_same_tree [OF tree, simplified] marked_marked del: not_None_eq)
  have one: "wp (bindM (Closure_lock ws d) (\<lambda>_. bindM (recursively_signal_abort n ws d ABORT_ALL)
      (\<lambda>_. Closure_unlock ws d))) (\<lambda>_ s'. s' = marked s ?M) s"
    by (rule child [OF Cons.prems(1) ab(1) d(3,2)]) (rule Cons.prems(4))
  have "wp (bindM (Closure_lock ws d) (\<lambda>_. bindM (recursively_signal_abort n ws d ABORT_ALL)
      (\<lambda>_. Closure_unlock ws d)))
      (\<lambda>_ s'. wp (signal_abort_children n ws ps) (\<lambda>_ s'. s' = marked s (?M \<union> ?R)) s') s"
    by (rule wp_mono [OF one]) (use rest in simp)
  then show ?case
    unfolding split signal_abort_children.simps d(1) by (simp add: wp_bind wp_deref)
qed

text \<open>
  The abort of a child: under its lock, the child and all its descendants are marked \<open>ABORT_ALL\<close>;
  the depth is at most the number of closures ever created.
\<close>

lemma abort_child_law:
  assumes "kids_ok (closures s)" and "abortable s (insert d (descendants (closures s) d))"
    and "N - d \<le> n" and "d < N" and "\<And>c. closures s c \<noteq> None \<Longrightarrow> c < N"
  shows "wp (bindM (Closure_lock ws d) (\<lambda>_. bindM (recursively_signal_abort n ws d ABORT_ALL)
      (\<lambda>_. Closure_unlock ws d))) (\<lambda>_ s'. s' = marked s (insert d (descendants (closures s) d))) s"
  using assms
proof (induction n arbitrary: s d)
  case 0
  then show ?case by simp
next
  case (Suc n)
  obtain u where u: "closures s d = Some u" "mutex_owner u = None"
      "status u = CLOSURE_RUNNING \<longrightarrow> cache u \<noteq> None"
    using Suc.prems(2) by (auto simp: abortable_def)
  let ?u = "u\<lparr>mutex_owner := Some ws\<rparr>"
  let ?s1 = "s\<lparr>closures := (closures s)(d \<mapsto> ?u)\<rparr>"
  let ?s2 = "marked ?s1 {d}"
  let ?D = "descendants (closures s) d"
  have tree: "same_tree (closures s) (closures ?s2)"
    using same_tree_trans [OF same_tree_upd same_tree_mark] u(1) by (simp add: same_tree_upd)
  have notin: "d \<notin> ?D" using descendants_younger [OF Suc.prems(1)] by blast
  have D: "subtree (closures ?s2) (set (map ic_this (incomplete_inlets ?u))) = ?D"
    using subtree_same_tree [OF tree] subtree_child_ids [of "closures s" d u] u(1) by (simp add: child_ids_def)
  have ab: "abortable ?s2 ?D"
    by (rule abortable_marked) (use Suc.prems(2) notin in \<open>auto simp: abortable_def\<close>)
  have young: "\<forall>x \<in> set (map ic_this (incomplete_inlets ?u)). \<exists>c. x = Some c \<and> c < N \<and> N - c \<le> n"
  proof
    fix x assume "x \<in> set (map ic_this (incomplete_inlets ?u))"
    then have x: "x \<in> set (child_ids u)" by (simp add: child_ids_def)
    then obtain c v where c: "x = Some c" "closures s c = Some v"
      using kids_okD [OF Suc.prems(1) u(1)] by blast
    have "(d, c) \<in> child_rel (closures s)" using x u(1) c by (auto simp: child_rel_def)
    then have "d < c" by (rule child_rel_younger [OF Suc.prems(1)])
    moreover have "c < N" using Suc.prems(5) c by simp
    ultimately show "\<exists>c. x = Some c \<and> c < N \<and> N - c \<le> n" using c Suc.prems(3) by simp
  qed
  have kids: "wp (signal_abort_children n ws (incomplete_inlets ?u)) (\<lambda>_ s'. s' = marked ?s1 (insert d ?D)) ?s2"
    by (rule wp_mono [OF abort_children_law [where N = N]], rule Suc.IH)
      (use ab young same_tree_kids_ok [OF tree Suc.prems(1)] D Suc.prems(5) u in
        \<open>auto simp: marked_marked mark_heap_def split: if_splits\<close>)
  have "wp (recursively_signal_abort (Suc n) ws d ABORT_ALL) (\<lambda>_ s'. s' = marked ?s1 (insert d ?D)) ?s1"
    by (rule signalled_step [where t = ?u]) (use u kids in \<open>simp_all add: signalled_ALL [of _ d ?u]\<close>)
  then have "wp (recursively_signal_abort (Suc n) ws d ABORT_ALL)
      (\<lambda>_. wp (Closure_unlock ws d) (\<lambda>_ s'. s' = marked s (insert d ?D))) ?s1"
    by (rule wp_mono)
      (use marked_locked [OF u(1,2), of "insert d ?D" ws] in \<open>auto simp: wp_simps\<close>)
  with u show ?case by (simp add: wp_bind wp_Closure_lock del: recursively_signal_abort.simps)
qed

text \<open>
  The abort from a closure that the caller has locked: the closure itself gets at most the status
  \<open>st\<close>, its descendants \<open>ABORT_ALL\<close>, and the workers running any of them an exception.
\<close>

lemma recursively_signal_abort_law:
  assumes c: "closures s c = Some t" "mutex_owner t = Some ws" "status t = CLOSURE_RUNNING \<longrightarrow> cache t \<noteq> None"
    and ok: "kids_ok (closures s)" and ab: "abortable s (descendants (closures s) c)"
    and N: "\<And>d. closures s d \<noteq> None \<Longrightarrow> d < N" and n: "N \<le> n"
  shows "wp (recursively_signal_abort n ws c st)
    (\<lambda>_ s'. s' = marked (signalled s c st) (descendants (closures s) c)) s"
proof -
  have "c < N" using N c(1) by simp
  then obtain m where m: "n = Suc m" using n by (cases n) auto
  let ?s1 = "signalled s c st"
  have h: "closures ?s1 = (closures s)(c \<mapsto> t\<lparr>abort_status := min st (abort_status t)\<rparr>)"
    by (simp add: signalled_def c)
  have tree: "same_tree (closures s) (closures ?s1)"
    unfolding h by (rule same_tree_upd) (simp_all add: c)
  have D: "subtree (closures ?s1) (set (map ic_this (incomplete_inlets t))) = descendants (closures s) c"
    using subtree_same_tree [OF tree] subtree_child_ids [of "closures s" c t] c by (simp add: child_ids_def)
  have notin: "c \<notin> descendants (closures s) c" using descendants_younger [OF ok] by blast
  have young: "\<forall>x \<in> set (map ic_this (incomplete_inlets t)). \<exists>d. x = Some d \<and> d < N \<and> N - d \<le> m"
  proof
    fix x assume "x \<in> set (map ic_this (incomplete_inlets t))"
    then have x: "x \<in> set (child_ids t)" by (simp add: child_ids_def)
    then obtain d v where d: "x = Some d" "closures s d = Some v"
      using kids_okD [OF ok c(1)] by blast
    have "(c, d) \<in> child_rel (closures s)" using x c(1) d by (auto simp: child_rel_def)
    then have "c < d" by (rule child_rel_younger [OF ok])
    moreover have "d < N" using N d by simp
    ultimately show "\<exists>d. x = Some d \<and> d < N \<and> N - d \<le> m" using d n m by simp
  qed
  have "wp (signal_abort_children m ws (incomplete_inlets t))
      (\<lambda>_ s'. s' = marked ?s1 (descendants (closures s) c)) ?s1"
  proof (rule wp_mono [OF abort_children_law [where N = N]], rule abort_child_law [where N = N])
    show "kids_ok (closures ?s1)" by (rule same_tree_kids_ok [OF tree ok])
    show "abortable ?s1 (subtree (closures ?s1) (set (map ic_this (incomplete_inlets t))))"
      unfolding D using ab notin by (auto simp: abortable_def h)
  qed (use young D N c in \<open>auto simp: h split: if_splits\<close>)
  then show ?thesis unfolding m by (rule signalled_step [OF c])
qed

end
