(* ===== verification/Rts_Sched.thy ===== *)
theory Rts_Sched
  imports Rts_Closure
begin

section \<open>The work-stealing scheduler\<close>

text \<open>
  The steal, return, suspend and abort protocols of \<open>runtime/sched.c\<close>, the entry points that the
  compiled code calls (\<open>Cilk_sync\<close>, \<open>Cilk_exception_handler\<close>, \<open>Cilk_set_result\<close>, ...) and the scheduler
  loop. A handler runs from one state to the next without interruption: the interleavings of the
  program are those of whole handlers, and a lock that some other worker holds stops the handler
  with \<open>Would_block\<close>. The timing hooks \<open>Cilk_enter_state\<close> and \<open>Cilk_exit_state\<close> around the phases
  are modelled in \<open>Timing\<close>, not here.
\<close>

subsection \<open>Stealing\<close>

definition do_dekker_on :: "wid \<Rightarrow> cid \<Rightarrow> bool rts" where
  "do_dekker_on ws cl =
     bindM (Closure_assert_ownership ws cl) (\<lambda>_.
     bindM (increment_exception_pointer ws cl) (\<lambda>_.
     bindM (CLOSURE_CACHE cl) (\<lambda>k.
     if tail k \<le> head k + 1 then
       bindM (decrement_exception_pointer ws cl) (\<lambda>_. ret False)
     else ret True)))"

definition Closure_make_ready :: "cid \<Rightarrow> unit rts" where
  "Closure_make_ready cl = updC cl (\<lambda>t. t\<lparr>cache := None, status := CLOSURE_READY\<rparr>)"

definition promote_child :: "wid \<Rightarrow> cid \<Rightarrow> wid \<Rightarrow> cid rts" where
  "promote_child ws pa victim =
     bindM (Closure_create ws) (\<lambda>child.
     bindM (Closure_assert_ownership ws pa) (\<lambda>_.
     bindM (deque_assert_ownership ws victim) (\<lambda>_.
     bindM (getC pa) (\<lambda>p.
     bindM (CILK_ASSERT 816 (status p = CLOSURE_RUNNING)) (\<lambda>_.
     bindM (CILK_ASSERT 817 (owner_ready_deque p = Some victim)) (\<lambda>_.
     bindM (CILK_ASSERT 818 (next_ready p = None)) (\<lambda>_.
     bindM (CLOSURE_CACHE pa) (\<lambda>k.
     bindM (CILK_ASSERT 821 (enat (head k) \<le> exception k)) (\<lambda>_.
     bindM (updC child (\<lambda>t. t\<lparr>parent := Some pa, join_counter := 0, cache := cache p,
        status := CLOSURE_RUNNING\<rparr>)) (\<lambda>_.
     bindM (CLOSURE_CACHE_update child (head_update Suc)) (\<lambda>_.
     bindM (CLOSURE_CACHE child) (\<lambda>k.
     bindM (updC child (frame_update (\<lambda>_. Some (stack k (head k))))) (\<lambda>_.
     bindM (deque_add_bottom ws child victim) (\<lambda>_.
     ret child))))))))))))))"

definition finish_promote :: "wid \<Rightarrow> cid \<Rightarrow> cid \<Rightarrow> unit rts" where
  "finish_promote ws pa child =
     bindM (Closure_assert_ownership ws pa) (\<lambda>_.
     bindM (Closure_assert_alienation ws child) (\<lambda>_.
     bindM (updC pa (join_counter_update (\<lambda>j. j + 1))) (\<lambda>_.
     bindM (Closure_add_child ws pa child) (\<lambda>_.
     Closure_make_ready pa))))"

definition steal_give_up :: "wid \<Rightarrow> cid \<Rightarrow> wid \<Rightarrow> cid option rts" where
  "steal_give_up ws cl victim =
     bindM (Closure_unlock ws cl) (\<lambda>_.
     bindM (deque_unlock ws victim) (\<lambda>_.
     ret None))"

text \<open>The case of a non-empty deque: \<open>cl\<close> is its top, and the deque is locked.\<close>

definition steal_from :: "wid \<Rightarrow> wid \<Rightarrow> cid \<Rightarrow> cid option rts" where
  "steal_from ws victim cl =
     bindM (Closure_lock ws cl) (\<lambda>_.
     bindM (Closure_being_aborted ws cl) (\<lambda>aborted.
     if aborted then
       bindM (Cilk_event ws EVENT_STEAL_ABORT) (\<lambda>_. steal_give_up ws cl victim)
     else
       bindM (getC cl) (\<lambda>t.
       case status t of
         CLOSURE_READY \<Rightarrow>
           bindM (Cilk_event ws EVENT_STEAL) (\<lambda>_.
           bindM (deque_xtract_top ws victim) (\<lambda>res.
           bindM (CILK_ASSERT 893 (Some cl = res)) (\<lambda>_.
           bindM (Closure_unlock ws cl) (\<lambda>_.
           bindM (deque_unlock ws victim) (\<lambda>_.
           ret res)))))
       | CLOSURE_RUNNING \<Rightarrow>
           bindM (do_dekker_on ws cl) (\<lambda>won.
           if won then
             bindM (promote_child ws cl victim) (\<lambda>child.
             bindM (deque_xtract_top ws victim) (\<lambda>res.
             bindM (CILK_ASSERT 912 (Some cl = res)) (\<lambda>_.
             bindM (deque_unlock ws victim) (\<lambda>_.
             bindM (finish_promote ws cl child) (\<lambda>_.
             bindM (Closure_unlock ws cl) (\<lambda>_.
             bindM (Cilk_event ws EVENT_STEAL) (\<lambda>_.
             ret res)))))))
           else
             bindM (Cilk_event ws EVENT_STEAL_NO_DEKKER) (\<lambda>_.
             steal_give_up ws cl victim))
       | CLOSURE_SUSPENDED \<Rightarrow> failM (Die 929)
       | CLOSURE_RETURNING \<Rightarrow>
           bindM (Cilk_event ws EVENT_STEAL_RETURNING) (\<lambda>_.
           steal_give_up ws cl victim))))"

definition Closure_steal :: "wid \<Rightarrow> wid \<Rightarrow> cid option rts" where
  "Closure_steal ws victim =
     bindM (Cilk_event ws EVENT_STEAL_ATTEMPT) (\<lambda>_.
     bindM (deque_lock ws victim) (\<lambda>_.
     bindM (deque_peek_top ws victim) (\<lambda>r.
     case r of
       None \<Rightarrow>
         bindM (deque_unlock ws victim) (\<lambda>_.
         bindM (Cilk_event ws EVENT_STEAL_EMPTY_DEQUE) (\<lambda>_.
         ret None))
     | Some cl \<Rightarrow> steal_from ws victim cl)))"

subsection \<open>Inlets\<close>

definition signal_abort_from_inlet :: "wid \<Rightarrow> cid \<Rightarrow> unit rts" where
  "signal_abort_from_inlet ws cl =
     bindM (Closure_assert_ownership ws cl) (\<lambda>_.
     bindM (getC cl) (\<lambda>t.
     bindM (if status t = CLOSURE_RUNNING then bindM (Closure_at_top_of_stack cl) (\<lambda>b. ret (\<not> b))
            else ret False) (\<lambda>inner.
     bindM
       (if inner then
          bindM (deque_assert_ownership ws ws) (\<lambda>_.
          bindM (promote_child ws cl ws) (\<lambda>child.
          finish_promote ws cl child))
        else ret ()) (\<lambda>_.
     bindM (getM next_cid) (\<lambda>fuel.
     recursively_signal_abort fuel ws cl ALMOST_NO_ABORT)))))"

definition set_abort_flag :: "wid \<Rightarrow> bool \<Rightarrow> unit rts" where
  "set_abort_flag ws b = modifyM (\<lambda>s. s\<lparr>workers := (workers s)(ws := (workers s ws)\<lparr>abort_flag := b\<rparr>)\<rparr>)"

definition run_inlet :: "wid \<Rightarrow> nat \<Rightarrow> addr option \<Rightarrow> byte list \<Rightarrow> addr \<Rightarrow> unit rts" where
  "run_inlet ws n f args recv =
     bindM (getM (\<lambda>s. inlet_code s n f args recv (memory s))) (\<lambda>r.
     bindM (modifyM (\<lambda>s. s\<lparr>memory := fst r\<rparr>)) (\<lambda>_.
     if snd r then set_abort_flag ws True else ret ()))"

definition apply_inlet :: "wid \<Rightarrow> cid \<Rightarrow> InletClosure \<Rightarrow> unit rts" where
  "apply_inlet ws cl i =
     bindM (Closure_assert_ownership ws cl) (\<lambda>_.
     bindM (getC cl) (\<lambda>t.
     bindM (Closure_being_aborted ws cl) (\<lambda>aborted.
     if aborted then ret ()
     else
       bindM (set_abort_flag ws False) (\<lambda>_.
       bindM
         (case ic_inlet i of
            Some n \<Rightarrow> run_inlet ws n (frame t) (ic_inlet_args i) (ic_receiver i)
          | None \<Rightarrow>
              if ic_argsize i \<noteq> 0 then
                modifyM (\<lambda>s. s\<lparr>memory :=
                   write_bytes (memory s) (ic_receiver i) (take (ic_argsize i) (ic_inlet_args i))\<rparr>)
              else ret ()) (\<lambda>_.
       bindM (getM (\<lambda>s. abort_flag (workers s ws))) (\<lambda>b.
       if b then signal_abort_from_inlet ws cl else ret ()))))))"

fun poll_loop :: "nat \<Rightarrow> wid \<Rightarrow> cid \<Rightarrow> unit rts" where
  "poll_loop 0 ws cl = failM Out_of_fuel"
| "poll_loop (Suc n) ws cl =
     bindM (getC cl) (\<lambda>t.
     case complete_inlets t of
       [] \<Rightarrow> ret ()
     | i # rest \<Rightarrow>
         bindM (updC cl (complete_inlets_update (\<lambda>_. rest))) (\<lambda>_.
         bindM (apply_inlet ws cl i) (\<lambda>_.
         poll_loop n ws cl)))"

definition poll_inlets :: "wid \<Rightarrow> cid \<Rightarrow> unit rts" where
  "poll_inlets ws cl =
     bindM (Closure_assert_ownership ws cl) (\<lambda>_.
     bindM (getC cl) (\<lambda>t.
     bindM (if status t = CLOSURE_RUNNING then
              bindM (Closure_at_top_of_stack cl) (\<lambda>b.
              if \<not> b then deque_assert_ownership ws ws else ret ())
            else ret ()) (\<lambda>_.
     bindM (Cilk_event ws EVENT_POLL_INLETS) (\<lambda>_.
     bindM (poll_loop (Suc (length (complete_inlets t))) ws cl) (\<lambda>_.
     bindM (getC cl) (\<lambda>t.
     if abort_status t = ALMOST_NO_ABORT then reset_abort cl else ret ()))))))"

subsection \<open>Returning and suspending\<close>

definition complete_and_enque_inlet :: "wid \<Rightarrow> cid \<Rightarrow> cid \<Rightarrow> InletClosure \<Rightarrow> unit rts" where
  "complete_and_enque_inlet ws pa child i =
     bindM (Closure_assert_ownership ws pa) (\<lambda>_.
     bindM (Cilk_event ws EVENT_RETURN_ENQUEUE) (\<lambda>_.
     bindM (getC child) (\<lambda>c.
     bindM (CILK_ASSERT 1101 (return_size c \<le> ic_argsize i)) (\<lambda>_.
     bindM
       (if return_size c \<noteq> 0 then
          bindM (CILK_ASSERT 1110 (ic_inlet_args i \<noteq> [])) (\<lambda>_.
          bindM (updC child (\<lambda>t. t\<lparr>return_value := [], return_size := 0\<rparr>)) (\<lambda>_.
          ret (i\<lparr>ic_inlet_args := take (return_size c) (return_value c)
                   @ drop (return_size c) (ic_inlet_args i)\<rparr>)))
        else ret i) (\<lambda>i.
     bindM (Closure_being_aborted ws child) (\<lambda>aborted.
     if aborted then ret ()
     else updC pa (\<lambda>t. t\<lparr>complete_inlets := i # complete_inlets t\<rparr>)))))))"

definition provably_good_steal_maybe :: "wid \<Rightarrow> cid \<Rightarrow> cid option rts" where
  "provably_good_steal_maybe ws pa =
     bindM (Closure_assert_ownership ws pa) (\<lambda>_.
     bindM (Closure_has_children pa) (\<lambda>b.
     bindM (getC pa) (\<lambda>p.
     if \<not> b \<and> status p = CLOSURE_SUSPENDED then
       bindM (poll_inlets ws pa) (\<lambda>_.
       bindM (Cilk_event ws EVENT_PROVABLY_GOOD_STEAL) (\<lambda>_.
       bindM (getC pa) (\<lambda>p.
       bindM (CILK_ASSERT 1142 (owner_ready_deque p = None)) (\<lambda>_.
       bindM (Closure_make_ready pa) (\<lambda>_.
       ret (Some pa))))))
     else ret None)))"

definition Closure_return :: "wid \<Rightarrow> cid \<Rightarrow> cid option rts" where
  "Closure_return ws child =
     bindM (getC child) (\<lambda>c.
     bindM (CILK_ASSERT 1164 (join_counter c = 0)) (\<lambda>_.
     bindM (CILK_ASSERT 1165 (status c = CLOSURE_RETURNING)) (\<lambda>_.
     bindM (CILK_ASSERT 1166 (owner_ready_deque c = None)) (\<lambda>_.
     bindM (Closure_assert_alienation ws child) (\<lambda>_.
     bindM (CILK_ASSERT 1170 (parent c \<noteq> None)) (\<lambda>_.
     bindM (deref (parent c)) (\<lambda>pa.
     bindM (Closure_lock ws pa) (\<lambda>_.
     bindM (getC pa) (\<lambda>p.
     bindM (CILK_ASSERT 1180 (status p \<noteq> CLOSURE_RETURNING)) (\<lambda>_.
     bindM (CILK_ASSERT 1181 (frame p \<noteq> None)) (\<lambda>_.
     bindM (deref (frame p)) (\<lambda>f.
     bindM (getF f) (\<lambda>fr.
     bindM (CILK_ASSERT 1182 (frame_magic fr)) (\<lambda>_.
     bindM (Closure_remove_child ws pa child) (\<lambda>inlet.
     bindM (Closure_lock ws child) (\<lambda>_.
     bindM (complete_and_enque_inlet ws pa child inlet) (\<lambda>_.
     bindM
       (if status p = CLOSURE_RUNNING then signal_immediate_exception ws pa
        else poll_inlets ws pa) (\<lambda>_.
     bindM (getM (\<lambda>s. workers s ws)) (\<lambda>w.
     bindM (updC pa (\<lambda>t. t\<lparr>cp := max (cp t) (cp_hack w), work := work t + work_hack w\<rparr>)) (\<lambda>_.
     bindM (getC pa) (\<lambda>p.
     bindM (CILK_ASSERT 1213 (0 < join_counter p)) (\<lambda>_.
     bindM (updC pa (join_counter_update (\<lambda>j. j - 1))) (\<lambda>_.
     bindM (provably_good_steal_maybe ws pa) (\<lambda>res.
     bindM (Closure_unlock ws pa) (\<lambda>_.
     bindM (Closure_unlock ws child) (\<lambda>_.
     bindM (Closure_destroy ws child) (\<lambda>_.
     ret res)))))))))))))))))))))))))))"

definition Closure_suspend :: "wid \<Rightarrow> cid \<Rightarrow> unit rts" where
  "Closure_suspend ws cl =
     bindM (Closure_checkmagic ws cl) (\<lambda>_.
     bindM (Closure_assert_ownership ws cl) (\<lambda>_.
     bindM (deque_assert_ownership ws ws) (\<lambda>_.
     bindM (getC cl) (\<lambda>t.
     bindM (CILK_ASSERT 1240 (status t = CLOSURE_RUNNING)) (\<lambda>_.
     bindM (updC cl (status_update (\<lambda>_. CLOSURE_SUSPENDED))) (\<lambda>_.
     bindM (Cilk_event ws EVENT_SUSPEND) (\<lambda>_.
     bindM (deque_xtract_bottom ws ws) (\<lambda>cl1.
     CILK_ASSERT 1247 (Some cl = cl1)))))))))"

subsection \<open>What the compiled code calls\<close>

definition Cilk_sync :: "wid \<Rightarrow> bool rts" where
  "Cilk_sync ws =
     bindM (Cilk_event ws EVENT_CILK_SYNC) (\<lambda>_.
     bindM (deque_lock ws ws) (\<lambda>_.
     bindM (deque_peek_bottom ws ws) (\<lambda>b.
     bindM (deref b) (\<lambda>t.
     bindM (Closure_lock ws t) (\<lambda>_.
     bindM (getC t) (\<lambda>cl.
     bindM (CILK_ASSERT 1279 (status cl = CLOSURE_RUNNING)) (\<lambda>_.
     bindM (deref (frame cl)) (\<lambda>f.
     bindM (getF f) (\<lambda>fr.
     bindM (CILK_ASSERT 1280 (frame_magic fr)) (\<lambda>_.
     bindM (Closure_at_top_of_stack t) (\<lambda>top.
     bindM (CILK_ASSERT 1283 top) (\<lambda>_.
     bindM (poll_inlets ws t) (\<lambda>_.
     bindM (deque_assert_is_bottom ws t) (\<lambda>_.
     bindM (maybe_reset_abort t) (\<lambda>_.
     bindM (Closure_has_children t) (\<lambda>res.
     bindM (if res then Closure_suspend ws t else ret ()) (\<lambda>_.
     bindM (Closure_unlock ws t) (\<lambda>_.
     bindM (deque_unlock ws ws) (\<lambda>_.
     ret res)))))))))))))))))))"

definition Cilk_after_sync_slow_cp :: "wid \<Rightarrow> int \<Rightarrow> int \<Rightarrow> (int \<times> int) rts" where
  "Cilk_after_sync_slow_cp ws w c =
     bindM (deque_lock ws ws) (\<lambda>_.
     bindM (deque_peek_bottom ws ws) (\<lambda>b.
     bindM (deref b) (\<lambda>t.
     bindM (Closure_lock ws t) (\<lambda>_.
     bindM (getC t) (\<lambda>cl.
     bindM (CILK_ASSERT 1313 (status cl = CLOSURE_RUNNING)) (\<lambda>_.
     bindM (deref (frame cl)) (\<lambda>f.
     bindM (getF f) (\<lambda>fr.
     bindM (CILK_ASSERT 1314 (frame_magic fr)) (\<lambda>_.
     bindM (Closure_at_top_of_stack t) (\<lambda>top.
     bindM (CILK_ASSERT 1317 top) (\<lambda>_.
     bindM (updC t (\<lambda>cl. cl\<lparr>cp := 0, work := 0\<rparr>)) (\<lambda>_.
     bindM (Closure_unlock ws t) (\<lambda>_.
     bindM (deque_unlock ws ws) (\<lambda>_.
     ret (w + work cl, if c < cp cl then cp cl else c)))))))))))))))"

definition move_result_into_closure :: "wid \<Rightarrow> cid \<Rightarrow> addr \<Rightarrow> nat \<Rightarrow> unit rts" where
  "move_result_into_closure ws t resultp sz =
     bindM (Closure_assert_ownership ws t) (\<lambda>_.
     bindM (getM memory) (\<lambda>m.
     updC t (\<lambda>cl. cl\<lparr>return_size := sz,
        return_value := (if sz \<noteq> 0 then read_bytes m resultp sz else [])\<rparr>)))"

definition Cilk_exception_handler :: "wid \<Rightarrow> addr \<Rightarrow> nat \<Rightarrow> bool rts" where
  "Cilk_exception_handler ws resultp sz =
     bindM (Cilk_event ws EVENT_EXCEPTION) (\<lambda>_.
     bindM (deque_lock ws ws) (\<lambda>_.
     bindM (deque_peek_bottom ws ws) (\<lambda>b.
     bindM (CILK_ASSERT 1386 (b \<noteq> None)) (\<lambda>_.
     bindM (deref b) (\<lambda>t0.
     bindM (Closure_lock ws t0) (\<lambda>_.
     bindM (poll_inlets ws t0) (\<lambda>_.
     bindM (deque_peek_bottom ws ws) (\<lambda>b1.
     bindM (CILK_ASSERT 1391 (b1 \<noteq> None)) (\<lambda>_.
     bindM (deref b1) (\<lambda>t.
     bindM
       (if t0 \<noteq> t then bindM (Closure_unlock ws t0) (\<lambda>_. Closure_lock ws t) else ret ()) (\<lambda>_.
     bindM (reset_exception_pointer ws t) (\<lambda>_.
     bindM (getC t) (\<lambda>cl.
     bindM (CILK_ASSERT 1405 (status cl = CLOSURE_RUNNING \<or> status cl = CLOSURE_RETURNING)) (\<lambda>_.
     bindM (CLOSURE_CACHE t) (\<lambda>k.
     bindM
       (if tail k \<le> head k then
          bindM (Cilk_event ws EVENT_EXCEPTION_STEAL) (\<lambda>_.
          bindM
            (if status cl = CLOSURE_RUNNING then
               bindM (updC t (status_update (\<lambda>_. CLOSURE_RETURNING))) (\<lambda>_.
               move_result_into_closure ws t resultp sz)
             else ret ()) (\<lambda>_.
          ret True))
        else
          bindM (deref (frame cl)) (\<lambda>f.
          bindM (getF f) (\<lambda>fr.
          bindM (CILK_ASSERT 1417 (frame_magic fr)) (\<lambda>_.
          bindM (Closure_being_aborted ws t) (\<lambda>aborted.
          if aborted then
            bindM (Cilk_event ws EVENT_EXCEPTION_ABORT) (\<lambda>_.
            bindM (signal_immediate_exception ws t) (\<lambda>_.
            bindM (Closure_at_top_of_stack t) (\<lambda>top.
            bindM (Closure_has_children t) (\<lambda>kids.
            bindM
              (if top \<and> kids then
                 bindM (Cilk_event ws EVENT_EXCEPTION_ABORT_SUSPEND) (\<lambda>_.
                 bindM (maybe_reset_abort t) (\<lambda>_.
                 Closure_suspend ws t))
               else
                 bindM
                   (if top then
                      bindM (updC t (status_update (\<lambda>_. CLOSURE_RETURNING))) (\<lambda>_.
                      Cilk_event ws EVENT_EXCEPTION_ABORT_RETURN)
                    else ret ()) (\<lambda>_.
                 bindM (CLOSURE_CACHE t) (\<lambda>k.
                 bindM (get_frame_size (stack k (tail k - 1))) (\<lambda>fsz.
                 Cilk_destroy_frame ws (stack k (tail k - 1)) fsz)))) (\<lambda>_.
            ret True)))))
          else
            bindM (maybe_reset_abort t) (\<lambda>_.
            bindM (Cilk_event ws EVENT_EXCEPTION_OTHER) (\<lambda>_.
            ret False))))))) (\<lambda>res.
     bindM (Closure_unlock ws t) (\<lambda>_.
     bindM (deque_unlock ws ws) (\<lambda>_.
     ret res))))))))))))))))))"

definition Cilk_set_result :: "wid \<Rightarrow> addr \<Rightarrow> nat \<Rightarrow> unit rts" where
  "Cilk_set_result ws resultp sz =
     bindM (Cilk_event ws EVENT_RETURN_SLOW) (\<lambda>_.
     bindM (deque_lock ws ws) (\<lambda>_.
     bindM (deque_peek_bottom ws ws) (\<lambda>b.
     bindM (deref b) (\<lambda>t.
     bindM (Closure_lock ws t) (\<lambda>_.
     bindM (getC t) (\<lambda>cl.
     bindM (CILK_ASSERT 1468 (status cl = CLOSURE_RUNNING)) (\<lambda>_.
     bindM (deref (frame cl)) (\<lambda>f.
     bindM (getF f) (\<lambda>fr.
     bindM (CILK_ASSERT 1469 (frame_magic fr)) (\<lambda>_.
     bindM (CILK_ASSERT 1475 (abort_status cl = NO_ABORT \<or> abort_status cl = ABORT_ALL)) (\<lambda>_.
     bindM (updC t (\<lambda>cl. cl\<lparr>status := CLOSURE_RETURNING, frame := None\<rparr>)) (\<lambda>_.
     bindM (move_result_into_closure ws t resultp sz) (\<lambda>_.
     bindM (Closure_unlock ws t) (\<lambda>_.
     deque_unlock ws ws))))))))))))))"

definition Cilk_abort_slow :: "wid \<Rightarrow> unit rts" where
  "Cilk_abort_slow ws =
     bindM (deque_lock ws ws) (\<lambda>_.
     bindM (deque_peek_bottom ws ws) (\<lambda>b.
     bindM (deref b) (\<lambda>cl.
     bindM (Closure_lock ws cl) (\<lambda>_.
     bindM (getC cl) (\<lambda>t.
     bindM (CILK_ASSERT 1495 (status t = CLOSURE_RUNNING)) (\<lambda>_.
     bindM (Closure_at_top_of_stack cl) (\<lambda>top.
     bindM (CILK_ASSERT 1496 top) (\<lambda>_.
     bindM (Cilk_event ws EVENT_ABORT_SLOW) (\<lambda>_.
     bindM (getM next_cid) (\<lambda>fuel.
     bindM (recursively_signal_abort fuel ws cl ALMOST_NO_ABORT) (\<lambda>_.
     bindM (poll_inlets ws cl) (\<lambda>_.
     bindM (Closure_unlock ws cl) (\<lambda>_.
     deque_unlock ws ws)))))))))))))"

definition Cilk_abort_standalone :: "wid \<Rightarrow> unit rts" where
  "Cilk_abort_standalone ws =
     bindM (Cilk_event ws EVENT_ABORT_STANDALONE) (\<lambda>_. set_abort_flag ws True)"

subsection \<open>Execution\<close>

definition setup_for_execution :: "wid \<Rightarrow> cid \<Rightarrow> unit rts" where
  "setup_for_execution ws t =
     bindM (Closure_assert_ownership ws t) (\<lambda>_.
     bindM (getC t) (\<lambda>cl.
     bindM (deref (frame cl)) (\<lambda>f.
     bindM (getF f) (\<lambda>fr.
     bindM (CILK_ASSERT 1522 (frame_magic fr)) (\<lambda>_.
     bindM (updC t (\<lambda>cl. cl\<lparr>status := CLOSURE_RUNNING, cache := Some ws\<rparr>)) (\<lambda>_.
     bindM (CLOSURE_CACHE_update t (\<lambda>k. k\<lparr>stack := (stack k)(0 := f), head := 0, tail := 1\<rparr>)) (\<lambda>_.
     bindM (reset_exception_pointer ws t) (\<lambda>_.
     reset_abort t))))))))"

definition return_value_step :: "wid \<Rightarrow> cid \<Rightarrow> cid option rts" where
  "return_value_step ws t =
     bindM (getC t) (\<lambda>cl.
     bindM (CILK_ASSERT 1542 (status cl = CLOSURE_RETURNING)) (\<lambda>_.
     Closure_return ws t))"

text \<open>The compiled slow version of a procedure is user code: the parameter \<open>run\<close>.\<close>

definition do_what_it_says ::
  "(wid \<Rightarrow> nat option \<Rightarrow> addr \<Rightarrow> unit rts) \<Rightarrow> wid \<Rightarrow> cid \<Rightarrow> cid option rts" where
  "do_what_it_says run ws t =
     bindM (Closure_assert_alienation ws t) (\<lambda>_.
     bindM (Closure_lock ws t) (\<lambda>_.
     bindM (getC t) (\<lambda>cl.
     case status cl of
       CLOSURE_READY \<Rightarrow>
         bindM (Closure_being_aborted ws t) (\<lambda>aborted.
         if aborted then
           bindM (abort_ready_closure ws t) (\<lambda>res.
           bindM (Closure_unlock ws t) (\<lambda>_.
           ret res))
         else
           bindM (setup_for_execution ws t) (\<lambda>_.
           bindM (CILK_ASSERT 1572 (frame cl \<noteq> None)) (\<lambda>_.
           bindM (deref (frame cl)) (\<lambda>f.
           bindM (getF f) (\<lambda>fr.
           bindM (CILK_ASSERT 1573 (sig fr \<noteq> [])) (\<lambda>_.
           bindM (CILK_ASSERT 1574 (frame_magic fr)) (\<lambda>_.
           bindM (poll_inlets ws t) (\<lambda>_.
           bindM (Closure_unlock ws t) (\<lambda>_.
           bindM (deque_lock ws ws) (\<lambda>_.
           bindM (deque_add_bottom ws t ws) (\<lambda>_.
           bindM (deque_unlock ws ws) (\<lambda>_.
           bindM (get_proc_slow (sig fr)) (\<lambda>fn.
           bindM (run ws fn f) (\<lambda>_.
           ret None))))))))))))))
     | CLOSURE_RETURNING \<Rightarrow>
         bindM (Closure_unlock ws t) (\<lambda>_. return_value_step ws t)
     | _ \<Rightarrow> failM (Die 1604))))"

text \<open>
  The loop of one worker; \<open>fuel\<close> bounds its rounds (the source leaves it only when the main
  procedure sets \<open>done\<close>).
\<close>

fun steal_loop :: "nat \<Rightarrow> wid \<Rightarrow> cid option \<Rightarrow> cid option rts" where
  "steal_loop 0 ws t = failM Out_of_fuel"
| "steal_loop (Suc n) ws t =
     bindM (getM done_flag) (\<lambda>d.
     if t = None \<and> \<not> d then
       bindM (rts_rand ws) (\<lambda>r.
       bindM (getM active_size) (\<lambda>sz.
       if unat r mod sz \<noteq> ws then
         bindM (Closure_steal ws (unat r mod sz)) (\<lambda>t. steal_loop n ws t)
       else steal_loop n ws t))
     else ret t)"

fun scheduler_loop ::
  "nat \<Rightarrow> (wid \<Rightarrow> nat option \<Rightarrow> addr \<Rightarrow> unit rts) \<Rightarrow> wid \<Rightarrow> cid option \<Rightarrow> unit rts" where
  "scheduler_loop 0 run ws t = failM Out_of_fuel"
| "scheduler_loop (Suc n) run ws t =
     bindM (getM done_flag) (\<lambda>d.
     if d then ret ()
     else
       bindM
         (if t = None then
            bindM (deque_lock ws ws) (\<lambda>_.
            bindM (deque_xtract_bottom ws ws) (\<lambda>t.
            bindM (deque_unlock ws ws) (\<lambda>_.
            ret t)))
          else ret t) (\<lambda>t.
       bindM (steal_loop n ws t) (\<lambda>t.
       bindM (getM done_flag) (\<lambda>d.
       bindM (if \<not> d then bindM (deref t) (\<lambda>c. do_what_it_says run ws c) else ret t) (\<lambda>t.
       scheduler_loop n run ws t)))))"

definition Cilk_scheduler ::
  "nat \<Rightarrow> (wid \<Rightarrow> nat option \<Rightarrow> addr \<Rightarrow> unit rts) \<Rightarrow> wid \<Rightarrow> cid option \<Rightarrow> unit rts" where
  "Cilk_scheduler n run ws t =
     bindM (rts_srand ws (of_nat (ws * 162347))) (\<lambda>_.
     scheduler_loop n run ws t)"

definition Cilk_scheduler_init_2 :: "unit rts" where
  "Cilk_scheduler_init_2 =
     bindM (modifyM (\<lambda>s. s\<lparr>done_flag := False\<rparr>)) (\<lambda>_. init_deques)"

definition make_exit_inlet_closure :: "wid \<Rightarrow> cid \<Rightarrow> byte list \<Rightarrow> unit rts" where
  "make_exit_inlet_closure ws cl res =
     bindM (make_incomplete_inlet_closure ws cl 1) (\<lambda>p.
     bindM (guardM (Wild_pointer cl) (\<lambda>_. length res \<le> ic_argsize p)) (\<lambda>_.
     updC cl (\<lambda>t. t\<lparr>complete_inlets :=
        p\<lparr>ic_inlet_args := res @ drop (length res) (ic_inlet_args p)\<rparr> # complete_inlets t\<rparr>)))"

definition Cilk_exit_from_user_main :: "wid \<Rightarrow> cid \<Rightarrow> byte list \<Rightarrow> unit rts" where
  "Cilk_exit_from_user_main ws cl res =
     bindM (Closure_assert_alienation ws cl) (\<lambda>_.
     bindM (Closure_lock ws cl) (\<lambda>_.
     bindM (make_exit_inlet_closure ws cl res) (\<lambda>_.
     bindM (getC cl) (\<lambda>t.
     bindM
       (if status t = CLOSURE_RUNNING then signal_immediate_exception ws cl
        else poll_inlets ws cl) (\<lambda>_.
     Closure_unlock ws cl)))))"

definition Cilk_create_initial_thread :: "addr \<Rightarrow> nat \<Rightarrow> nat \<Rightarrow> nat \<Rightarrow> nat \<Rightarrow> cid rts" where
  "Cilk_create_initial_thread f frame_size slow catch_inlet return_sz =
     bindM (Cilk_Closure_create_malloc None) (\<lambda>t.
     bindM (updC t (\<lambda>cl. cl\<lparr>parent := None, join_counter := 0, status := CLOSURE_READY,
        frame := Some f\<rparr>)) (\<lambda>_.
     bindM (modifyM (\<lambda>s. s\<lparr>frames := (frames s)(f \<mapsto>
        \<lparr>entry = 0, receiver = 0,
         sig = [\<lparr>pi_size = 4, pi_index = int frame_size, pi_inlet = Some slow, pi_argsize = 0, pi_argindex = 0\<rparr>,
                \<lparr>pi_size = 4, pi_index = 0, pi_inlet = Some catch_inlet, pi_argsize = return_sz, pi_argindex = 0\<rparr>,
                \<lparr>pi_size = 0, pi_index = 0, pi_inlet = None, pi_argsize = 0, pi_argindex = 0\<rparr>],
         frame_magic = True\<rparr>)\<rparr>)) (\<lambda>_.
     ret t)))"

end
