(* ===== verification/Rts_Poll.thy ===== *)
theory Rts_Poll
  imports Rts_Sched
begin

section \<open>Polling inlets\<close>

text \<open>
  \<open>poll_inlets\<close> runs user code under the lock of the closure, and that code may abort the closure.
  When the closure is not running deep in a worker's stack, the effect on the scheduler's state is
  \<open>quiet\<close>: the abort statuses and the exception pointers may be raised, the pending inlets of the
  closure are gone, and nothing else of the scheduler's data has changed.
\<close>

definition calm :: "Closure \<Rightarrow> Closure" where
  "calm t = t\<lparr>abort_status := NO_ABORT, complete_inlets := []\<rparr>"

definition same_cache :: "CilkWorkerState \<Rightarrow> CilkWorkerState \<Rightarrow> bool" where
  "same_cache w w' \<longleftrightarrow> head (wcache w') = head (wcache w) \<and> tail (wcache w') = tail (wcache w)
     \<and> stack (wcache w') = stack (wcache w)
     \<and> (exception (wcache w') = exception (wcache w) \<or> exception (wcache w') = \<infinity>)
     \<and> rand_next w' = rand_next w \<and> cp_hack w' = cp_hack w \<and> work_hack w' = work_hack w"

definition quiet :: "cid set \<Rightarrow> Rts \<Rightarrow> Rts \<Rightarrow> bool" where
  "quiet X s s' \<longleftrightarrow>
     deques s' = deques s \<and> frames s' = frames s \<and> next_cid s' = next_cid s
     \<and> inlet_code s' = inlet_code s \<and> heap_junk s' = heap_junk s \<and> heap_byte s' = heap_byte s
     \<and> active_size s' = active_size s \<and> done_flag s' = done_flag s
     \<and> (\<forall>w. same_cache (workers s w) (workers s' w))
     \<and> (\<forall>d. map_option calm (closures s' d) = map_option calm (closures s d))
     \<and> (\<forall>d t. d \<notin> X \<longrightarrow> closures s d = Some t \<longrightarrow>
          (\<exists>t'. closures s' d = Some t' \<and> complete_inlets t' = complete_inlets t))"

lemma same_cache_refl [simp]: "same_cache w w"
  by (simp add: same_cache_def)

lemma same_cache_trans: "same_cache w w' \<Longrightarrow> same_cache w' w'' \<Longrightarrow> same_cache w w''"
  by (auto simp: same_cache_def)

lemma quiet_refl [simp]: "quiet X s s"
  by (simp add: quiet_def)

lemma quiet_mono: "quiet X s s' \<Longrightarrow> X \<subseteq> Y \<Longrightarrow> quiet Y s s'"
  unfolding quiet_def by blast

lemma quiet_trans: "quiet X s s' \<Longrightarrow> quiet X s' s'' \<Longrightarrow> quiet X s s''"
  unfolding quiet_def by (elim conjE, intro conjI) (simp_all, (metis same_cache_trans)+)

lemma calm_fields:
  assumes "calm t' = calm t"
  shows "mutex_owner t' = mutex_owner t" "join_counter t' = join_counter t" "status t' = status t"
    "return_value t' = return_value t" "return_size t' = return_size t"
    "incomplete_inlets t' = incomplete_inlets t"
    "parent t' = parent t" "frame t' = frame t"
    "cache t' = cache t" "next_ready t' = next_ready t" "prev_ready t' = prev_ready t"
    "owner_ready_deque t' = owner_ready_deque t" "malloced t' = malloced t"
    "cp t' = cp t" "work t' = work t"
  using arg_cong [OF assms, of mutex_owner]
    arg_cong [OF assms, of join_counter]
    arg_cong [OF assms, of status]
    arg_cong [OF assms, of return_value]
    arg_cong [OF assms, of return_size]
    arg_cong [OF assms, of incomplete_inlets]
    arg_cong [OF assms, of parent]
    arg_cong [OF assms, of frame]
    arg_cong [OF assms, of cache]
    arg_cong [OF assms, of next_ready]
    arg_cong [OF assms, of prev_ready]
    arg_cong [OF assms, of owner_ready_deque]
    arg_cong [OF assms, of malloced]
    arg_cong [OF assms, of cp]
    arg_cong [OF assms, of work]
  by (simp_all add: calm_def)

lemma calm_upd [simp]:
  "calm (t\<lparr>abort_status := a\<rparr>) = calm t" "calm (t\<lparr>complete_inlets := i\<rparr>) = calm t"
  by (simp_all add: calm_def)

lemma quietD: "quiet X s s' \<Longrightarrow> closures s d = Some t \<Longrightarrow>
    \<exists>t'. closures s' d = Some t' \<and> calm t' = calm t \<and> (d \<notin> X \<longrightarrow> complete_inlets t' = complete_inlets t)"
proof -
  assume q: "quiet X s s'" and t: "closures s d = Some t"
  have "map_option calm (closures s' d) = map_option calm (closures s d)"
    using q by (simp add: quiet_def)
  then obtain t' where t': "closures s' d = Some t'" "calm t' = calm t"
    unfolding t by (cases "closures s' d") auto
  have "d \<notin> X \<Longrightarrow> \<exists>u. closures s' d = Some u \<and> complete_inlets u = complete_inlets t"
    using q t by (simp add: quiet_def)
  with t' show ?thesis by auto
qed

lemma quiet_alive: "quiet X s s' \<Longrightarrow> closures s' d = None \<longleftrightarrow> closures s d = None"
proof -
  assume "quiet X s s'"
  then have "map_option calm (closures s' d) = map_option calm (closures s d)" by (simp add: quiet_def)
  then show ?thesis by (cases "closures s' d"; cases "closures s d") simp_all
qed

lemma quietD': "quiet X s s' \<Longrightarrow> closures s' d = Some t' \<Longrightarrow>
    \<exists>t. closures s d = Some t \<and> calm t' = calm t \<and> (d \<notin> X \<longrightarrow> complete_inlets t' = complete_inlets t)"
proof -
  assume q: "quiet X s s'" and t': "closures s' d = Some t'"
  then obtain t where t: "closures s d = Some t" using quiet_alive [OF q, of d] by auto
  from quietD [OF q this] t' show ?thesis by (auto simp: t)
qed

lemma quiet_same_tree: "quiet X s s' \<Longrightarrow> same_tree (closures s) (closures s')"
  unfolding same_tree_def
proof
  fix c assume q: "quiet X s s'"
  show "map_option (\<lambda>t. (join_counter t, child_ids t, parent t)) (closures s c)
     = map_option (\<lambda>t. (join_counter t, child_ids t, parent t)) (closures s' c)"
  proof (cases "closures s c")
    case None
    then show ?thesis using quiet_alive [OF q] by simp
  next
    case (Some t)
    then obtain t' where "closures s' c = Some t'" "calm t' = calm t" using quietD [OF q] by blast
    with Some show ?thesis using calm_fields [of t' t] by (simp add: child_ids_def)
  qed
qed

lemma quiet_fields:
  assumes "quiet X s s'"
  shows "deques s' = deques s" "frames s' = frames s" "next_cid s' = next_cid s"
    "inlet_code s' = inlet_code s" "active_size s' = active_size s" "done_flag s' = done_flag s"
    "heap_junk s' = heap_junk s" "heap_byte s' = heap_byte s"
    "same_cache (workers s w) (workers s' w)"
  using assms by (simp_all add: quiet_def)

lemma quiet_abortable: "quiet X s s' \<Longrightarrow> abortable s M \<Longrightarrow> abortable s' M"
  unfolding abortable_def
proof
  fix d assume q: "quiet X s s'" and "\<forall>d \<in> M. \<exists>u. closures s d = Some u \<and> mutex_owner u = None
     \<and> (status u = CLOSURE_RUNNING \<longrightarrow> cache u \<noteq> None)" and "d \<in> M"
  then obtain u where u: "closures s d = Some u" "mutex_owner u = None"
    "status u = CLOSURE_RUNNING \<longrightarrow> cache u \<noteq> None" by auto
  obtain u' where "closures s' d = Some u'" "calm u' = calm u" using quietD [OF q u(1)] by blast
  with u calm_fields [of u' u] show "\<exists>u. closures s' d = Some u \<and> mutex_owner u = None
     \<and> (status u = CLOSURE_RUNNING \<longrightarrow> cache u \<noteq> None)" by simp
qed

text \<open>The steps that are quiet.\<close>

lemma quiet_mark: "quiet X s (marked s M)"
proof -
  have "same_cache (workers s w) (workers (marked s M) w)" for w
    by (simp add: marked_def raise_exceptions_def same_cache_def)
  then show ?thesis
    by (auto simp: quiet_def marked_def mark_heap_def option.map_comp comp_def)
qed

lemma quiet_signalled: "closures s c = Some t \<Longrightarrow> quiet X s (signalled s c st)"
proof -
  assume c: "closures s c = Some t"
  have "same_cache (workers s w) (workers (signalled s c st) w)" for w
    by (simp add: signalled_def c raise_exceptions_def same_cache_def)
  then show ?thesis
    by (auto simp: quiet_def signalled_def c)
qed

lemma quiet_upd:
  "closures s cl = Some t \<Longrightarrow> calm t' = calm t \<Longrightarrow> quiet {cl} s (s\<lparr>closures := (closures s)(cl \<mapsto> t')\<rparr>)"
  by (auto simp: quiet_def)

lemma quiet_event: "quiet X s (s\<lparr>event_count := e\<rparr>)"
  by (simp add: quiet_def)

lemma quiet_memory: "quiet X s (s\<lparr>memory := m\<rparr>)"
  by (simp add: quiet_def)

lemma quiet_flag: "quiet X s (s\<lparr>workers := (workers s)(w := (workers s w)\<lparr>abort_flag := b\<rparr>)\<rparr>)"
  by (simp add: quiet_def same_cache_def)

text \<open>Where \<open>poll_inlets\<close> can run without promoting anything.\<close>

definition shallow :: "Rts \<Rightarrow> cid \<Rightarrow> bool" where
  "shallow s cl \<longleftrightarrow> (\<exists>t. closures s cl = Some t \<and> (status t = CLOSURE_RUNNING \<longrightarrow>
     (\<exists>w. cache t = Some w \<and> head (wcache (workers s w)) + 1 = tail (wcache (workers s w)))))"

definition young :: "Rts \<Rightarrow> bool" where
  "young s \<longleftrightarrow> (\<forall>c. closures s c \<noteq> None \<longrightarrow> c < next_cid s)"

definition pollable :: "wid \<Rightarrow> Rts \<Rightarrow> cid \<Rightarrow> bool" where
  "pollable ws s cl \<longleftrightarrow> (\<exists>t. closures s cl = Some t \<and> mutex_owner t = Some ws
       \<and> (status t = CLOSURE_RUNNING \<longrightarrow> cache t \<noteq> None))
     \<and> kids_ok (closures s) \<and> young s \<and> abortable s (descendants (closures s) cl)"

lemma quiet_young: "quiet X s s' \<Longrightarrow> young s \<Longrightarrow> young s'"
  by (simp add: young_def quiet_fields quiet_alive del: not_None_eq)

lemma quiet_pollable: "quiet X s s' \<Longrightarrow> pollable ws s cl \<Longrightarrow> pollable ws s' cl"
proof -
  assume q: "quiet X s s'" and p: "pollable ws s cl"
  then obtain t where t: "closures s cl = Some t" "mutex_owner t = Some ws"
    "status t = CLOSURE_RUNNING \<longrightarrow> cache t \<noteq> None" by (auto simp: pollable_def)
  obtain t' where t': "closures s' cl = Some t'" "calm t' = calm t" using quietD [OF q t(1)] by blast
  have "kids_ok (closures s')" using same_tree_kids_ok [OF quiet_same_tree [OF q]] p by (simp add: pollable_def)
  moreover have "abortable s' (descendants (closures s') cl)"
    using quiet_abortable [OF q] p same_tree_descendants [OF quiet_same_tree [OF q]]
    by (simp add: pollable_def)
  ultimately show ?thesis
    using t t' calm_fields [OF t'(2)] quiet_young [OF q] p by (auto simp: pollable_def)
qed

lemma quiet_shallow: "quiet X s s' \<Longrightarrow> shallow s cl \<Longrightarrow> shallow s' cl"
proof -
  assume q: "quiet X s s'" and "shallow s cl"
  then obtain t where t: "closures s cl = Some t" "status t = CLOSURE_RUNNING \<longrightarrow>
     (\<exists>w. cache t = Some w \<and> head (wcache (workers s w)) + 1 = tail (wcache (workers s w)))"
    by (auto simp: shallow_def)
  obtain t' where "closures s' cl = Some t'" "calm t' = calm t" using quietD [OF q t(1)] by blast
  with t calm_fields [of t' t] quiet_fields(9) [OF q] show ?thesis
    by (fastforce simp: shallow_def same_cache_def)
qed

lemma abort_quiet:
  assumes "pollable ws s cl"
  shows "wp (recursively_signal_abort (next_cid s) ws cl st)
    (\<lambda>_ s'. quiet {} s s' \<and> (\<exists>t'. closures s' cl = Some t' \<and> abort_status t' \<le> st)) s"
proof -
  obtain t where t: "closures s cl = Some t" "mutex_owner t = Some ws"
    "status t = CLOSURE_RUNNING \<longrightarrow> cache t \<noteq> None" using assms by (auto simp: pollable_def)
  have law: "wp (recursively_signal_abort (next_cid s) ws cl st)
    (\<lambda>_ s'. s' = marked (signalled s cl st) (descendants (closures s) cl)) s"
    by (rule recursively_signal_abort_law [OF t]) (use assms in \<open>auto simp: pollable_def young_def\<close>)
  have "cl \<notin> descendants (closures s) cl"
    using assms descendants_younger by (fastforce simp: pollable_def)
  then have "\<exists>t'. closures (marked (signalled s cl st) (descendants (closures s) cl)) cl = Some t'
      \<and> abort_status t' \<le> st"
    by (simp add: mark_heap_def signalled_def t)
  then show ?thesis
    by (intro wp_mono [OF law]) (use quiet_trans [OF quiet_signalled [OF t(1)] quiet_mark] in auto)
qed

lemma quiet_upd_abort:
  "closures s c = Some t \<Longrightarrow> quiet X s (s\<lparr>closures := (closures s)(c \<mapsto> t\<lparr>abort_status := a\<rparr>)\<rparr>)"
  by (auto simp: quiet_def)

lemma wp_set_abort_flag [wp_simps]:
  "wp (set_abort_flag ws b) Q s
     = Q () (s\<lparr>workers := (workers s)(ws := (workers s ws)\<lparr>abort_flag := b\<rparr>)\<rparr>)"
  by (simp add: set_abort_flag_def wp_simps)

lemma signal_abort_from_inlet_shallow:
  assumes "pollable ws s cl" "shallow s cl"
  shows "wp (signal_abort_from_inlet ws cl) (\<lambda>_ s'. quiet {} s s') s"
proof -
  obtain t where t: "closures s cl = Some t" "mutex_owner t = Some ws" using assms by (auto simp: pollable_def)
  have "wp (recursively_signal_abort (next_cid s) ws cl ALMOST_NO_ABORT) (\<lambda>_ s'. quiet {} s s') s"
    by (rule wp_mono [OF abort_quiet [OF assms(1)]]) simp
  then show ?thesis
    using t assms(2) by (auto simp: signal_abort_from_inlet_def wp_simps shallow_def)
qed

text \<open>An inlet is not applied to a closure that is being aborted.\<close>

lemma apply_inlet_aborted:
  assumes "closures s cl = Some t" "mutex_owner t = Some ws" "abort_status t \<noteq> NO_ABORT"
  shows "wp (apply_inlet ws cl i) (\<lambda>_ s'. s' = s) s"
  using assms by (simp add: apply_inlet_def wp_simps)

text \<open>
  The memory and the abort flag after the inlet of \<open>i\<close>, before the abort it may have asked for.
\<close>

definition inlet_effect :: "wid \<Rightarrow> Closure \<Rightarrow> InletClosure \<Rightarrow> Rts \<Rightarrow> Rts" where
  "inlet_effect ws t i s =
     (case ic_inlet i of
        Some n \<Rightarrow> (let r = inlet_code s n (frame t) (ic_inlet_args i) (ic_receiver i) (memory s) in
          s\<lparr>memory := fst r, workers := (workers s)(ws := (workers s ws)\<lparr>abort_flag := snd r\<rparr>)\<rparr>)
      | None \<Rightarrow> s\<lparr>memory := (if ic_argsize i = 0 then memory s
            else write_bytes (memory s) (ic_receiver i) (take (ic_argsize i) (ic_inlet_args i))),
          workers := (workers s)(ws := (workers s ws)\<lparr>abort_flag := False\<rparr>)\<rparr>)"

lemma quiet_effect: "quiet X s (inlet_effect ws t i s)"
  by (simp add: inlet_effect_def quiet_def same_cache_def Let_def split: option.split)

lemma inlet_effect_closures [simp]:
  "closures (inlet_effect ws t i s) = closures s" "deques (inlet_effect ws t i s) = deques s"
  by (simp_all add: inlet_effect_def Let_def split: option.split)

lemma apply_inlet_run:
  assumes "closures s cl = Some t" "mutex_owner t = Some ws" "abort_status t = NO_ABORT"
    and "wp (if abort_flag (workers (inlet_effect ws t i s) ws)
             then signal_abort_from_inlet ws cl else ret ()) Q (inlet_effect ws t i s)"
  shows "wp (apply_inlet ws cl i) Q s"
proof (cases "ic_inlet i")
  case None
  show ?thesis
  proof (cases "ic_argsize i = 0")
    case True
    have "s\<lparr>workers := (workers s)(ws := (workers s ws)\<lparr>abort_flag := False\<rparr>)\<rparr> = inlet_effect ws t i s"
      by (simp add: inlet_effect_def None True)
    with assms None True show ?thesis by (simp add: apply_inlet_def wp_simps)
  next
    case False
    have "s\<lparr>memory := write_bytes (memory s) (ic_receiver i) (take (ic_argsize i) (ic_inlet_args i)),
        workers := (workers s)(ws := (workers s ws)\<lparr>abort_flag := False\<rparr>)\<rparr> = inlet_effect ws t i s"
      by (simp add: inlet_effect_def None False)
    moreover have "\<not> abort_flag (workers (inlet_effect ws t i s) ws)" by (simp add: inlet_effect_def None)
    ultimately show ?thesis using assms None False by (simp add: apply_inlet_def wp_simps)
  qed
next
  case (Some n)
  let ?r = "inlet_code s n (frame t) (ic_inlet_args i) (ic_receiver i) (memory s)"
  have e: "inlet_effect ws t i s
     = s\<lparr>memory := fst ?r, workers := (workers s)(ws := (workers s ws)\<lparr>abort_flag := snd ?r\<rparr>)\<rparr>"
    by (simp add: inlet_effect_def Some Let_def)
  show ?thesis
    using assms(1-3) assms(4) [unfolded e]
    by (cases "snd ?r") (simp_all add: apply_inlet_def run_inlet_def Some wp_simps)
qed

lemma apply_inlet_shallow:
  assumes p: "pollable ws s cl" and sh: "shallow s cl"
  shows "wp (apply_inlet ws cl i) (\<lambda>_ s'. quiet {} s s') s"
proof -
  obtain t where t: "closures s cl = Some t" "mutex_owner t = Some ws" using p by (auto simp: pollable_def)
  show ?thesis
  proof (cases "abort_status t = NO_ABORT")
    case False
    show ?thesis by (rule wp_mono [OF apply_inlet_aborted [OF t False]]) simp
  next
    case True
    have q: "quiet {} s (inlet_effect ws t i s)" by (rule quiet_effect)
    then have q': "quiet {cl} s (inlet_effect ws t i s)" by (rule quiet_mono) simp
    have "wp (signal_abort_from_inlet ws cl) (\<lambda>_ s'. quiet {} s s') (inlet_effect ws t i s)"
      by (rule wp_mono [OF signal_abort_from_inlet_shallow
            [OF quiet_pollable [OF q p] quiet_shallow [OF q sh]]]) (rule quiet_trans [OF q])
    then show ?thesis
      by (intro apply_inlet_run [OF t True]) (simp add: wp_simps q)
  qed
qed

lemma poll_loop_shallow:
  assumes "pollable ws s cl" "shallow s cl" "\<And>t. closures s cl = Some t \<Longrightarrow> length (complete_inlets t) < n"
  shows "wp (poll_loop n ws cl)
    (\<lambda>_ s'. quiet {cl} s s' \<and> (\<exists>t'. closures s' cl = Some t' \<and> complete_inlets t' = [])) s"
  using assms
proof (induction n arbitrary: s)
  case 0
  then show ?case by (auto simp: pollable_def)
next
  case (Suc n)
  obtain t where t: "closures s cl = Some t" using Suc.prems by (auto simp: pollable_def)
  show ?case
  proof (cases "complete_inlets t")
    case Nil
    with t show ?thesis by (simp add: wp_simps)
  next
    case (Cons i rest)
    let ?s1 = "s\<lparr>closures := (closures s)(cl \<mapsto> t\<lparr>complete_inlets := rest\<rparr>)\<rparr>"
    have q: "quiet {cl} s ?s1" by (rule quiet_upd [OF t]) simp
    have "wp (apply_inlet ws cl i) (\<lambda>_ s2. wp (poll_loop n ws cl)
       (\<lambda>_ s'. quiet {cl} s s' \<and> (\<exists>t'. closures s' cl = Some t' \<and> complete_inlets t' = [])) s2) ?s1"
    proof (rule wp_mono [OF apply_inlet_shallow [OF quiet_pollable [OF q Suc.prems(1)]
              quiet_shallow [OF q Suc.prems(2)]]])
      fix s2 assume q2: "quiet {} ?s1 s2"
      have q12: "quiet {cl} s s2" using quiet_trans [OF q quiet_mono [OF q2]] by simp
      have len: "length (complete_inlets t') < n" if "closures s2 cl = Some t'" for t'
        using quietD [OF q2, of cl "t\<lparr>complete_inlets := rest\<rparr>"] that Suc.prems(3) [OF t] Cons by auto
      show "wp (poll_loop n ws cl)
         (\<lambda>_ s'. quiet {cl} s s' \<and> (\<exists>t'. closures s' cl = Some t' \<and> complete_inlets t' = [])) s2"
        by (rule wp_mono [OF Suc.IH [OF quiet_pollable [OF q12 Suc.prems(1)]
              quiet_shallow [OF q12 Suc.prems(2)] len]]) (use quiet_trans [OF q12] in blast)+
    qed
    with t Cons show ?thesis by (simp add: wp_simps)
  qed
qed

lemma poll_inlets_shallow:
  assumes p: "pollable ws s cl" and sh: "shallow s cl"
  shows "wp (poll_inlets ws cl)
    (\<lambda>_ s'. quiet {cl} s s' \<and> (\<exists>t'. closures s' cl = Some t' \<and> complete_inlets t' = []
        \<and> abort_status t' \<noteq> ALMOST_NO_ABORT)) s"
proof -
  obtain t where t: "closures s cl = Some t" "mutex_owner t = Some ws"
    "status t = CLOSURE_RUNNING \<longrightarrow>
     (\<exists>w. cache t = Some w \<and> head (wcache (workers s w)) + 1 = tail (wcache (workers s w)))"
    using p sh by (auto simp: pollable_def shallow_def)
  let ?s1 = "s\<lparr>event_count := (event_count s)(ws := (event_count s ws)(EVENT_POLL_INLETS := Suc (event_count s ws EVENT_POLL_INLETS)))\<rparr>"
  have q: "quiet {cl} s ?s1" by (rule quiet_event)
  have "wp (poll_loop (Suc (length (complete_inlets t))) ws cl)
    (\<lambda>_. wp (bindM (getC cl) (\<lambda>t. if abort_status t = ALMOST_NO_ABORT then reset_abort cl else ret ()))
      (\<lambda>_ s'. quiet {cl} s s' \<and> (\<exists>t'. closures s' cl = Some t' \<and> complete_inlets t' = []
        \<and> abort_status t' \<noteq> ALMOST_NO_ABORT))) ?s1"
  proof (rule wp_mono [OF poll_loop_shallow [OF quiet_pollable [OF q p] quiet_shallow [OF q sh]]])
    fix a s2 assume s2: "quiet {cl} ?s1 s2 \<and> (\<exists>t'. closures s2 cl = Some t' \<and> complete_inlets t' = [])"
    then obtain u where u: "closures s2 cl = Some u" "complete_inlets u = []" by blast
    have q2: "quiet {cl} s s2" using quiet_trans [OF q] s2 by blast
    show "wp (bindM (getC cl) (\<lambda>t. if abort_status t = ALMOST_NO_ABORT then reset_abort cl else ret ()))
      (\<lambda>_ s'. quiet {cl} s s' \<and> (\<exists>t'. closures s' cl = Some t' \<and> complete_inlets t' = []
        \<and> abort_status t' \<noteq> ALMOST_NO_ABORT)) s2"
      using u q2 quiet_trans [OF q2 quiet_upd_abort [OF u(1)]] by (simp add: wp_simps)
  qed (simp add: t)
  with t show ?thesis
    by (cases "status t = CLOSURE_RUNNING") (auto simp: poll_inlets_def wp_simps simp del: poll_loop.simps)
qed

end
