(* ===== verification/Rts_Invariant.thy ===== *)
theory Rts_Invariant
  imports Rts_Poll
begin

section \<open>The invariant of the scheduler\<close>

text \<open>
  \<open>sched_core s dq\<close>: the ready deques hold the lists \<open>dq\<close>, the closures form a tree whose join
  counters are right, and the status of every closure agrees with its place:
  a running closure is the bottom of the deque of the worker it runs on, a suspended one is in no
  deque and waits for a child, a returning one has no children left and, as long as its worker has
  not let it go, is the bottom of the worker's deque. Hence all other members of a deque are ready.
  \<open>sched_inv\<close> adds that no lock is held: it is the state between two handlers.
\<close>

definition status_ok :: "(wid \<Rightarrow> cid list) \<Rightarrow> cid \<Rightarrow> Closure \<Rightarrow> bool" where
  "status_ok dq c t \<longleftrightarrow> (case status t of
     CLOSURE_RUNNING \<Rightarrow> \<exists>w. cache t = Some w \<and> last_opt (dq w) = Some c
   | CLOSURE_SUSPENDED \<Rightarrow> (\<forall>w. c \<notin> set (dq w)) \<and> join_counter t \<noteq> 0
   | CLOSURE_RETURNING \<Rightarrow> join_counter t = 0 \<and>
        (\<forall>w. c \<in> set (dq w) \<longrightarrow> cache t = Some w \<and> last_opt (dq w) = Some c)
   | CLOSURE_READY \<Rightarrow> True)"

definition inlet_ok :: "InletClosure \<Rightarrow> bool" where
  "inlet_ok i \<longleftrightarrow> length (ic_inlet_args i) = ic_argsize i"

definition inlets_ok :: "Closure \<Rightarrow> bool" where
  "inlets_ok t \<longleftrightarrow> (\<forall>i \<in> set (incomplete_inlets t). inlet_ok i)"

definition worker_ok :: "CilkWorkerState \<Rightarrow> bool" where
  "worker_ok w \<longleftrightarrow> enat (head (wcache w)) \<le> exception (wcache w)"

definition sched_heap :: "Rts \<Rightarrow> (wid \<Rightarrow> cid list) \<Rightarrow> bool" where
  "sched_heap s dq \<longleftrightarrow> is_deques s dq \<and> tree_ok (closures s) \<and> young s
     \<and> (\<forall>c t. closures s c = Some t \<longrightarrow> status_ok dq c t \<and> inlets_ok t)"

definition sched_core :: "Rts \<Rightarrow> (wid \<Rightarrow> cid list) \<Rightarrow> bool" where
  "sched_core s dq \<longleftrightarrow> sched_heap s dq \<and> (\<forall>w. worker_ok (workers s w))"

definition locks_are :: "wid \<Rightarrow> cid set \<Rightarrow> wid set \<Rightarrow> Rts \<Rightarrow> bool" where
  "locks_are ws L D s \<longleftrightarrow>
     (\<forall>c t. closures s c = Some t \<longrightarrow> mutex_owner t = (if c \<in> L then Some ws else None))
     \<and> (\<forall>p. dq_mutex_owner (deques s p) = (if p \<in> D then Some ws else None))"

definition unlocked :: "Rts \<Rightarrow> bool" where
  "unlocked s \<longleftrightarrow> (\<forall>c t. closures s c = Some t \<longrightarrow> mutex_owner t = None)
     \<and> (\<forall>p. dq_mutex_owner (deques s p) = None)"

definition sched_inv :: "Rts \<Rightarrow> (wid \<Rightarrow> cid list) \<Rightarrow> bool" where
  "sched_inv s dq \<longleftrightarrow> sched_core s dq \<and> unlocked s"

lemma unlockedI: "locks_are ws {} {} s \<Longrightarrow> unlocked s"
  by (simp add: unlocked_def locks_are_def)

lemma unlockedD: "unlocked s \<Longrightarrow> locks_are ws {} {} s"
  by (simp add: unlocked_def locks_are_def)

lemma sched_coreD:
  assumes "sched_core s dq"
  shows "is_deques s dq" "tree_ok (closures s)" "kids_ok (closures s)" "young s"
    "closures s c = Some t \<Longrightarrow> status_ok dq c t" "closures s c = Some t \<Longrightarrow> inlets_ok t"
    "closures s c = Some t \<Longrightarrow> node_ok (closures s) c t"
    "worker_ok (workers s w)"
  using assms tree_kids_ok tree_okD by (auto simp: sched_core_def sched_heap_def)

lemma sched_heapD:
  assumes "sched_heap s dq"
  shows "is_deques s dq" "tree_ok (closures s)" "kids_ok (closures s)" "young s"
    "closures s c = Some t \<Longrightarrow> status_ok dq c t" "closures s c = Some t \<Longrightarrow> inlets_ok t"
    "closures s c = Some t \<Longrightarrow> node_ok (closures s) c t"
  using assms tree_kids_ok tree_okD by (auto simp: sched_heap_def)

subsection \<open>Changes that keep the invariant\<close>

text \<open>The fields of a closure that the invariant speaks of.\<close>

definition skeleton :: "Closure \<Rightarrow> _" where
  "skeleton t = (join_counter t, child_ids t, parent t, status t, cache t,
     owner_ready_deque t, next_ready t, prev_ready t, inlets_ok t)"

definition same_skeleton :: "Rts \<Rightarrow> Rts \<Rightarrow> bool" where
  "same_skeleton s s' \<longleftrightarrow>
     (\<forall>c. map_option skeleton (closures s' c) = map_option skeleton (closures s c))
     \<and> (\<forall>p. dq_top (deques s' p) = dq_top (deques s p) \<and> dq_bottom (deques s' p) = dq_bottom (deques s p))
     \<and> next_cid s' = next_cid s"

lemma same_skeletonD:
  assumes "same_skeleton s s'" "closures s c = Some t"
  obtains t' where "closures s' c = Some t'" "skeleton t' = skeleton t"
proof -
  have "map_option skeleton (closures s' c) = Some (skeleton t)"
    using assms by (simp add: same_skeleton_def)
  then show ?thesis using that by auto
qed

lemma same_skeleton_alive: "same_skeleton s s' \<Longrightarrow> closures s' c = None \<longleftrightarrow> closures s c = None"
proof -
  assume "same_skeleton s s'"
  then have "map_option skeleton (closures s' c) = map_option skeleton (closures s c)"
    by (simp add: same_skeleton_def)
  then show ?thesis by (cases "closures s' c"; cases "closures s c") simp_all
qed

lemma same_skeletonD':
  assumes "same_skeleton s s'" "closures s' c = Some t'"
  obtains t where "closures s c = Some t" "skeleton t' = skeleton t"
proof -
  obtain t where t: "closures s c = Some t" using same_skeleton_alive [OF assms(1), of c] assms(2) by auto
  with same_skeletonD [OF assms(1) t] assms(2) that show ?thesis by auto
qed

lemma skeleton_fields:
  assumes "skeleton t' = skeleton t"
  shows "join_counter t' = join_counter t" "child_ids t' = child_ids t" "parent t' = parent t"
    "status t' = status t" "cache t' = cache t" "owner_ready_deque t' = owner_ready_deque t"
    "next_ready t' = next_ready t" "prev_ready t' = prev_ready t"
    "inlets_ok t' = inlets_ok t"
  using assms by (simp_all add: skeleton_def)

lemma same_skeleton_tree: "same_skeleton s s' \<Longrightarrow> same_tree (closures s) (closures s')"
  unfolding same_tree_def
proof
  fix c assume q: "same_skeleton s s'"
  show "map_option (\<lambda>t. (join_counter t, child_ids t, parent t)) (closures s c)
     = map_option (\<lambda>t. (join_counter t, child_ids t, parent t)) (closures s' c)"
  proof (cases "closures s c")
    case None
    then show ?thesis using same_skeleton_alive [OF q] by simp
  next
    case (Some t)
    with same_skeletonD [OF q] obtain t' where "closures s' c = Some t'" "skeleton t' = skeleton t" by blast
    with Some show ?thesis using skeleton_fields [of t' t] by simp
  qed
qed

lemma same_skeleton_deques:
  assumes q: "same_skeleton s s'" and dqs: "is_deques s dq" shows "is_deques s' dq"
  unfolding is_deques_def
proof (intro conjI allI impI)
  fix p
  have links: "dq_links (closures s) p (dq p)" by (rule is_dequesD(4) [OF dqs])
  have "dq_links (closures s') p (dq p)"
    unfolding dq_links_def
  proof (intro allI impI)
    fix i assume "i < length (dq p)"
    with links obtain t where t: "closures s (dq p ! i) = Some t" "owner_ready_deque t = Some p"
      "prev_ready t = (if i = 0 then None else Some (dq p ! (i - 1)))"
      "next_ready t = (if Suc i < length (dq p) then Some (dq p ! Suc i) else None)"
      unfolding dq_links_def by blast
    from same_skeletonD [OF q t(1)] obtain t' where "closures s' (dq p ! i) = Some t'" "skeleton t' = skeleton t" .
    with t skeleton_fields [of t' t] show "\<exists>t. closures s' (dq p ! i) = Some t \<and> owner_ready_deque t = Some p
      \<and> prev_ready t = (if i = 0 then None else Some (dq p ! (i - 1)))
      \<and> next_ready t = (if Suc i < length (dq p) then Some (dq p ! Suc i) else None)" by simp
  qed
  then show "is_deque s' p (dq p)"
    using is_dequesD [OF dqs, of p] q by (simp add: is_deque_def same_skeleton_def)
next
  fix c t' p assume "closures s' c = Some t'"
  from same_skeletonD' [OF q this] obtain t where "closures s c = Some t" "skeleton t' = skeleton t" .
  with is_deques_owner [OF dqs] skeleton_fields [of t' t]
  show "(owner_ready_deque t' = Some p) = (c \<in> set (dq p))" by simp
qed

lemma sched_heap_skeleton:
  assumes core: "sched_heap s dq" and q: "same_skeleton s s'"
  shows "sched_heap s' dq"
  unfolding sched_heap_def
proof (intro conjI allI impI)
  show "is_deques s' dq" by (rule same_skeleton_deques [OF q sched_heapD(1) [OF core]])
  show "tree_ok (closures s')" by (rule same_tree_ok [OF same_skeleton_tree [OF q] sched_heapD(2) [OF core]])
  show "young s'"
    using sched_heapD(4) [OF core] q same_skeleton_alive [OF q]
    by (simp add: young_def same_skeleton_def del: not_None_eq)
next
  fix c t' assume "closures s' c = Some t'"
  from same_skeletonD' [OF q this] obtain t where t: "closures s c = Some t" "skeleton t' = skeleton t" .
  with sched_heapD(5,6) [OF core t(1)] skeleton_fields [OF t(2)]
  show "status_ok dq c t'" "inlets_ok t'" by (simp_all add: status_ok_def split: ClosureStatus.splits)
qed

lemma sched_core_skeleton:
  "sched_core s dq \<Longrightarrow> same_skeleton s s' \<Longrightarrow> (\<And>w. worker_ok (workers s' w)) \<Longrightarrow> sched_core s' dq"
  using sched_heap_skeleton by (auto simp: sched_core_def)

lemma quiet_skeleton: "quiet X s s' \<Longrightarrow> same_skeleton s s'"
  unfolding same_skeleton_def
proof (intro conjI allI)
  fix c assume q: "quiet X s s'"
  show "map_option skeleton (closures s' c) = map_option skeleton (closures s c)"
  proof (cases "closures s c")
    case None
    then show ?thesis using quiet_alive [OF q] by simp
  next
    case (Some t)
    with quietD [OF q] obtain t' where "closures s' c = Some t'" "calm t' = calm t" by blast
    with Some show ?thesis using calm_fields [of t' t] by (simp add: skeleton_def child_ids_def inlets_ok_def)
  qed
qed (simp_all add: quiet_fields)

lemma same_cache_ok: "same_cache w w' \<Longrightarrow> worker_ok w \<Longrightarrow> worker_ok w'"
  by (auto simp: same_cache_def worker_ok_def)

lemma sched_core_quiet: "quiet X s s' \<Longrightarrow> sched_core s dq \<Longrightarrow> sched_core s' dq"
  by (rule sched_core_skeleton [OF _ quiet_skeleton])
    (auto intro: same_cache_ok quiet_fields(9) sched_coreD(8))

lemma locks_quiet: "quiet X s s' \<Longrightarrow> locks_are ws L D s \<Longrightarrow> locks_are ws L D s'"
proof -
  assume q: "quiet X s s'" and l: "locks_are ws L D s"
  have "mutex_owner t' = (if c \<in> L then Some ws else None)" if "closures s' c = Some t'" for c t'
  proof -
    from quietD' [OF q that] obtain t where "closures s c = Some t" "calm t' = calm t" by blast
    with l calm_fields [of t' t] show ?thesis by (simp add: locks_are_def)
  qed
  with l show ?thesis by (simp add: locks_are_def quiet_fields [OF q])
qed

text \<open>Changing one closure outside its skeleton, or a deque's lock.\<close>

lemma sched_core_closure:
  "sched_core s dq \<Longrightarrow> closures s c = Some t \<Longrightarrow> skeleton t' = skeleton t \<Longrightarrow>
   sched_core (s\<lparr>closures := (closures s)(c \<mapsto> t')\<rparr>) dq"
  by (rule sched_core_skeleton) (auto simp: same_skeleton_def intro: sched_coreD(8))

lemma sched_core_dqlock:
  "sched_core s dq \<Longrightarrow> sched_core (s\<lparr>deques := (deques s)(p := (deques s p)\<lparr>dq_mutex_owner := m\<rparr>)\<rparr>) dq"
  by (rule sched_core_skeleton) (auto simp: same_skeleton_def intro: sched_coreD(8))

lemma sched_core_event: "sched_core s dq \<Longrightarrow> sched_core (s\<lparr>event_count := e\<rparr>) dq"
  by (rule sched_core_skeleton) (auto simp: same_skeleton_def intro: sched_coreD(8))

lemma skeleton_upd [simp]:
  "skeleton (t\<lparr>mutex_owner := m\<rparr>) = skeleton t"
  "skeleton (t\<lparr>abort_status := a\<rparr>) = skeleton t"
  "skeleton (t\<lparr>complete_inlets := i\<rparr>) = skeleton t"
  "skeleton (t\<lparr>return_value := r\<rparr>) = skeleton t"
  "skeleton (t\<lparr>return_size := n\<rparr>) = skeleton t"
  "skeleton (t\<lparr>frame := f\<rparr>) = skeleton t"
  "skeleton (t\<lparr>cp := x\<rparr>) = skeleton t"
  "skeleton (t\<lparr>work := x\<rparr>) = skeleton t"
  by (simp_all add: skeleton_def child_ids_def inlets_ok_def)

lemma locks_closure:
  "locks_are ws L D s \<Longrightarrow> closures s c = Some t \<Longrightarrow> mutex_owner t' = mutex_owner t \<Longrightarrow>
   locks_are ws L D (s\<lparr>closures := (closures s)(c \<mapsto> t')\<rparr>)"
  by (auto simp: locks_are_def)

lemma locks_lock:
  "locks_are ws L D s \<Longrightarrow> locks_are ws (insert c L) D (s\<lparr>closures := (closures s)(c \<mapsto> t\<lparr>mutex_owner := Some ws\<rparr>)\<rparr>)"
  by (auto simp: locks_are_def)

lemma locks_unlock:
  "locks_are ws L D s \<Longrightarrow> locks_are ws (L - {c}) D (s\<lparr>closures := (closures s)(c \<mapsto> t\<lparr>mutex_owner := None\<rparr>)\<rparr>)"
  by (auto simp: locks_are_def)

lemma locks_dqlock:
  "locks_are ws L D s \<Longrightarrow> locks_are ws L (insert p D) (s\<lparr>deques := (deques s)(p := (deques s p)\<lparr>dq_mutex_owner := Some ws\<rparr>)\<rparr>)"
  by (auto simp: locks_are_def)

lemma locks_dqunlock:
  "locks_are ws L D s \<Longrightarrow> locks_are ws L (D - {p}) (s\<lparr>deques := (deques s)(p := (deques s p)\<lparr>dq_mutex_owner := None\<rparr>)\<rparr>)"
  by (auto simp: locks_are_def)

lemma locks_event: "locks_are ws L D s \<Longrightarrow> locks_are ws L D (s\<lparr>event_count := e\<rparr>)"
  by (simp add: locks_are_def)

lemma locks_same_core: "same_core s s' \<Longrightarrow> locks_are ws L D s \<Longrightarrow> locks_are ws L D s'"
proof -
  assume q: "same_core s s'" and l: "locks_are ws L D s"
  have "mutex_owner t' = (if c \<in> L then Some ws else None)" if t': "closures s' c = Some t'" for c t'
  proof -
    obtain t where t: "closures s c = Some t" using same_core_alive [OF q, of c] t' by auto
    from same_core_closure [OF q t] t' have "core t' = core t" by simp
    with l t core_fields [of t' t] show ?thesis by (simp add: locks_are_def)
  qed
  with l show ?thesis by (simp add: locks_are_def same_core_fields [OF q])
qed

lemma pollable_heap:
  assumes "sched_heap s dq" "locks_are ws L D s" "closures s cl = Some t" "L = {cl}"
  shows "pollable ws s cl"
proof -
  have k: "kids_ok (closures s)" by (rule sched_heapD(3) [OF assms(1)])
  have run: "status u = CLOSURE_RUNNING \<longrightarrow> cache u \<noteq> None" if "closures s d = Some u" for d u
    using sched_heapD(5) [OF assms(1) that] by (auto simp: status_ok_def)
  have "abortable s (descendants (closures s) cl)"
    unfolding abortable_def
  proof
    fix d assume d: "d \<in> descendants (closures s) cl"
    obtain u where u: "closures s d = Some u" using descendants_alive [OF k d] by blast
    have "d \<noteq> cl" using descendants_younger [OF k d] by simp
    with assms(2,4) u run [OF u] show "\<exists>u. closures s d = Some u \<and> mutex_owner u = None
      \<and> (status u = CLOSURE_RUNNING \<longrightarrow> cache u \<noteq> None)" by (auto simp: locks_are_def)
  qed
  with k run [OF assms(3)] assms sched_heapD(4) [OF assms(1)] show ?thesis
    by (auto simp: pollable_def locks_are_def)
qed

lemma pollable_core:
  "sched_core s dq \<Longrightarrow> locks_are ws L D s \<Longrightarrow> closures s cl = Some t \<Longrightarrow> L = {cl} \<Longrightarrow> pollable ws s cl"
  unfolding sched_core_def by (auto intro: pollable_heap)

end
