(* ===== verification/Rts_Handlers.thy ===== *)
theory Rts_Handlers
  imports Rts_Invariant
begin

section \<open>The handlers keep the invariant\<close>

text \<open>
  Each entry point of the compiled code is run from a state that satisfies \<open>sched_inv\<close>: no assertion
  of the source fails, the locks are released again, the invariant holds after it, and the result is
  the one the protocol promises.
\<close>

subsection \<open>Moving closures between deques\<close>

lemma wp_peek_bottom:
  assumes "is_deques s dq" "dq_mutex_owner (deques s pn) = Some ws"
  shows "wp (deque_peek_bottom ws pn) Q s = Q (last_opt (dq pn)) s"
  using deque_peek_bottom_law [OF assms] by (auto simp: wp_Inr)

lemma wp_peek_top:
  assumes "is_deques s dq" "dq_mutex_owner (deques s pn) = Some ws"
  shows "wp (deque_peek_top ws pn) Q s = Q (hd_opt (dq pn)) s"
  using deque_peek_top_law [OF assms] by (auto simp: wp_Inr)

lemma status_ok_core: "core t' = core t \<Longrightarrow> status_ok dq c t' = status_ok dq c t"
  using core_fields [of t' t] by (simp add: status_ok_def split: ClosureStatus.split)

lemma inlets_ok_core: "core t' = core t \<Longrightarrow> inlets_ok t' = inlets_ok t"
  using core_fields [of t' t] by (simp add: inlets_ok_def)

lemma same_coreD':
  assumes "same_core s s'" "closures s' c = Some t'"
  obtains t where "closures s c = Some t" "core t' = core t"
proof -
  obtain t where t: "closures s c = Some t" using same_core_alive [OF assms(1), of c] assms(2) by auto
  from same_core_closure [OF assms(1) t] assms(2) that t show ?thesis by auto
qed

lemma same_core_tree: "same_core s s' \<Longrightarrow> same_tree (closures s) (closures s')"
  unfolding same_tree_def
proof
  fix c assume q: "same_core s s'"
  show "map_option (\<lambda>t. (join_counter t, child_ids t, parent t)) (closures s c)
     = map_option (\<lambda>t. (join_counter t, child_ids t, parent t)) (closures s' c)"
  proof (cases "closures s c")
    case None
    then show ?thesis using same_core_alive [OF q] by simp
  next
    case (Some t)
    with same_core_closure [OF q] obtain t' where "closures s' c = Some t'" "core t' = core t" by blast
    with Some show ?thesis using core_fields [of t' t] by (simp add: child_ids_def)
  qed
qed

lemma sched_core_move:
  assumes dqs: "is_deques s' dq'" and q: "same_core s s'"
    and "tree_ok (closures s)" "young s" "\<And>w. worker_ok (workers s w)"
    and st: "\<And>c t. closures s c = Some t \<Longrightarrow> status_ok dq' c t \<and> inlets_ok t"
  shows "sched_core s' dq'"
  unfolding sched_core_def sched_heap_def
proof (intro conjI allI impI)
  show "tree_ok (closures s')" by (rule same_tree_ok [OF same_core_tree [OF q] assms(3)])
  show "young s'" using assms(4) same_core_alive [OF q] same_core_fields(5) [OF q]
    by (simp add: young_def del: not_None_eq)
  show "worker_ok (workers s' w)" for w by (simp add: same_core_fields(3) [OF q] assms(5))
next
  fix c t' assume "closures s' c = Some t'"
  from same_coreD' [OF q this] obtain t where t: "closures s c = Some t" "core t' = core t" .
  with st [OF t(1)] status_ok_core [OF t(2)] inlets_ok_core [OF t(2)]
  show "status_ok dq' c t'" "inlets_ok t'" by simp_all
qed (rule dqs)

text \<open>Changing a closure apart from its links keeps the deques.\<close>

lemma is_deques_closure:
  assumes "is_deques s dq" "closures s c = Some t"
    and "next_ready t' = next_ready t" "prev_ready t' = prev_ready t"
    "owner_ready_deque t' = owner_ready_deque t"
  shows "is_deques (s\<lparr>closures := (closures s)(c \<mapsto> t')\<rparr>) dq"
  unfolding is_deques_def
proof (intro conjI allI impI)
  fix p
  have links: "dq_links (closures s) p (dq p)" by (rule is_dequesD(4) [OF assms(1)])
  have "dq_links ((closures s)(c \<mapsto> t')) p (dq p)"
    unfolding dq_links_def
  proof (intro allI impI)
    fix i assume "i < length (dq p)"
    with links obtain u where "closures s (dq p ! i) = Some u" "owner_ready_deque u = Some p"
      "prev_ready u = (if i = 0 then None else Some (dq p ! (i - 1)))"
      "next_ready u = (if Suc i < length (dq p) then Some (dq p ! Suc i) else None)"
      unfolding dq_links_def by blast
    with assms(2-) show "\<exists>t. ((closures s)(c \<mapsto> t')) (dq p ! i) = Some t \<and> owner_ready_deque t = Some p
      \<and> prev_ready t = (if i = 0 then None else Some (dq p ! (i - 1)))
      \<and> next_ready t = (if Suc i < length (dq p) then Some (dq p ! Suc i) else None)" by auto
  qed
  with is_dequesD [OF assms(1), of p] show "is_deque (s\<lparr>closures := (closures s)(c \<mapsto> t')\<rparr>) p (dq p)"
    by (simp add: is_deque_def)
next
  fix d u p assume "closures (s\<lparr>closures := (closures s)(c \<mapsto> t')\<rparr>) d = Some u"
  then show "(owner_ready_deque u = Some p) = (d \<in> set (dq p))"
    using is_deques_owner [OF assms(1)] assms(2,5) by (auto split: if_splits)
qed

lemma last_opt_mem: "last_opt xs = Some x \<Longrightarrow> x \<in> set xs"
  by (auto simp: last_opt_def split: if_splits)

lemma running_place:
  assumes "sched_core s dq" "closures s c = Some t" "status t = CLOSURE_RUNNING" "c \<in> set (dq w)"
  shows "cache t = Some w \<and> last_opt (dq w) = Some c"
proof -
  from sched_coreD(5) [OF assms(1,2)] assms(3) obtain v where v: "cache t = Some v" "last_opt (dq v) = Some c"
    by (auto simp: status_ok_def)
  have "v = w" by (rule is_deques_disjoint [OF sched_coreD(1) [OF assms(1)] last_opt_mem [OF v(2)] assms(4)])
  with v show ?thesis by simp
qed

text \<open>Taking the top closure out changes no other closure's standing either.\<close>

lemma status_ok_tl:
  assumes dqs: "is_deques s dq" and ok: "status_ok dq d u" and h: "hd_opt (dq p) = Some c" and ne: "d \<noteq> c"
  shows "status_ok (dq(p := tl (dq p))) d u"
proof -
  obtain cs where cs: "dq p = c # cs" using h by (cases "dq p") auto
  have last: "last_opt ((dq(p := tl (dq p))) w) = Some d" if "last_opt (dq w) = Some d" for w
    using that ne cs by (auto simp: last_opt_def split: if_splits)
  have mem: "d \<in> set (dq w)" if "d \<in> set ((dq(p := tl (dq p))) w)" for w
    using that cs by (auto split: if_splits)
  show ?thesis
  proof (cases "status u")
    case CLOSURE_SUSPENDED
    with ok mem show ?thesis unfolding status_ok_def by (simp del: fun_upd_apply) blast
  next
    case CLOSURE_RETURNING
    with ok mem last show ?thesis unfolding status_ok_def by (simp del: fun_upd_apply)
  next
    case CLOSURE_RUNNING
    with ok last show ?thesis unfolding status_ok_def by (simp del: fun_upd_apply) blast
  qed (simp add: status_ok_def)
qed

text \<open>Taking the bottom closure out changes no other closure's standing.\<close>

lemma status_ok_butlast:
  assumes dqs: "is_deques s dq" and ok: "status_ok dq d u" and l: "last_opt (dq p) = Some c" and ne: "d \<noteq> c"
  shows "status_ok (dq(p := butlast (dq p))) d u"
proof -
  have "last_opt (butlast (dq p)) = Some d" if "last_opt (dq w) = Some d" "d \<in> set (butlast (dq p))" for w
  proof -
    have "d \<in> set (dq p)" using that(2) in_set_butlastD by fast
    then have "w = p" by (intro is_deques_disjoint [OF dqs last_opt_mem [OF that(1)]])
    with that(1) l ne show ?thesis by simp
  qed
  moreover have "w \<noteq> p" if "last_opt (dq w) = Some d" for w using that l ne by auto
  ultimately show ?thesis
    using ok in_set_butlastD [of d "dq p"] unfolding status_ok_def
    by (cases "status u") (auto split: if_splits)
qed

subsection \<open>Suspending\<close>

definition deque_op_frame :: "Rts \<Rightarrow> Rts \<Rightarrow> bool" where
  "deque_op_frame s s' \<longleftrightarrow> workers s' = workers s \<and> frames s' = frames s \<and> memory s' = memory s
     \<and> next_cid s' = next_cid s \<and> done_flag s' = done_flag s"

lemma Closure_suspend_law:
  assumes core: "sched_core s dq" and lk: "locks_are ws {t} {ws} s"
    and t: "last_opt (dq ws) = Some t" "closures s t = Some cl" "status cl = CLOSURE_RUNNING"
      "join_counter cl \<noteq> 0"
  shows "wp (Closure_suspend ws t)
    (\<lambda>_ s'. sched_core s' (dq(ws := butlast (dq ws))) \<and> locks_are ws {t} {ws} s' \<and> deque_op_frame s s'
       \<and> (\<exists>cl'. closures s' t = Some cl' \<and> core cl' = core (cl\<lparr>status := CLOSURE_SUSPENDED\<rparr>))) s"
proof -
  let ?cl = "cl\<lparr>status := CLOSURE_SUSPENDED\<rparr>"
  let ?s1 = "s\<lparr>event_count := (event_count s)(ws := (event_count s ws)(EVENT_SUSPEND := Suc (event_count s ws EVENT_SUSPEND))),
     closures := (closures s)(t \<mapsto> ?cl)\<rparr>"
  have own: "mutex_owner cl = Some ws" "dq_mutex_owner (deques s ws) = Some ws"
    using lk t(2) by (auto simp: locks_are_def)
  have dqs1: "is_deques ?s1 dq"
    using is_deques_closure [OF sched_coreD(1) [OF sched_core_event [OF core]], where c = t and t = cl and t' = ?cl] t(2) by simp
  have tree1: "tree_ok (closures ?s1)"
    using same_tree_ok [OF same_tree_upd [of "closures s" t cl ?cl] sched_coreD(2) [OF core]] t(2) by simp
  have lk1: "locks_are ws {t} {ws} ?s1"
    using locks_closure [OF locks_event [OF lk], where c = t and t = cl and t' = ?cl] t(2) by simp
  have st1: "status_ok (dq(ws := butlast (dq ws))) c u \<and> inlets_ok u" if c: "closures ?s1 c = Some u" for c u
  proof (cases "c = t")
    case True
    then have u: "u = ?cl" using c by simp
    have d: "distinct (dq ws)" by (rule is_dequesD(3) [OF sched_coreD(1) [OF core]])
    have "t \<notin> set (butlast (dq ws))"
      using t(1) d by (cases "dq ws" rule: rev_cases) auto
    moreover have "t \<notin> set (dq w)" if "w \<noteq> ws" for w
      using is_deques_disjoint [OF sched_coreD(1) [OF core] last_opt_mem [OF t(1)], of w] that by auto
    ultimately show ?thesis
      using True u t(4) sched_coreD(6) [OF core t(2)] by (auto simp: status_ok_def inlets_ok_def)
  next
    case False
    then have "closures s c = Some u" using c by simp
    with sched_coreD(5,6) [OF core] status_ok_butlast [OF sched_coreD(1) [OF core] _ t(1) False]
    show ?thesis by blast
  qed
  have w1: "worker_ok (workers ?s1 w)" for w using sched_coreD(8) [OF core] by simp
  have y1: "young ?s1" using sched_coreD(4) [OF core] t(2) by (auto simp: young_def)
  have "wp (deque_xtract_bottom ws ws) (\<lambda>r s'. (sched_core s' (dq(ws := butlast (dq ws)))
       \<and> locks_are ws {t} {ws} s' \<and> deque_op_frame s s'
       \<and> (\<exists>cl'. closures s' t = Some cl' \<and> core cl' = core ?cl)) \<and> Some t = r) ?s1"
  proof (rule wp_mono [OF deque_xtract_bottom_law [OF dqs1]])
    show "dq_mutex_owner (deques ?s1 ws) = Some ws" using own by simp
  next
    fix r s' assume "r = last_opt (dq ws) \<and> is_deques s' (dq(ws := butlast (dq ws))) \<and> same_core ?s1 s'"
    then have r: "r = Some t" and dqs: "is_deques s' (dq(ws := butlast (dq ws)))" and q: "same_core ?s1 s'"
      using t(1) by auto
    have "sched_core s' (dq(ws := butlast (dq ws)))"
      by (rule sched_core_move [OF dqs q tree1 y1 w1 st1])
    moreover have "deque_op_frame s s'" using same_core_fields [OF q] by (simp add: deque_op_frame_def)
    moreover have "\<exists>cl'. closures s' t = Some cl' \<and> core cl' = core ?cl"
      using same_core_closure [OF q, of t ?cl] by simp
    ultimately show "(sched_core s' (dq(ws := butlast (dq ws))) \<and> locks_are ws {t} {ws} s'
       \<and> deque_op_frame s s' \<and> (\<exists>cl'. closures s' t = Some cl' \<and> core cl' = core ?cl)) \<and> Some t = r"
      using locks_same_core [OF q lk1] r by blast
  qed
  then show ?thesis
    using t own by (simp add: Closure_suspend_def wp_simps [abs_def] conj_commute)
qed

subsection \<open>Entering and leaving a handler\<close>

text \<open>
  Most handlers lock the own deque, look at its bottom closure and lock that. \<open>entered ws t s\<close> is the
  state then; \<open>left ws t s\<close> is the state when both locks are given back.
\<close>

definition entered :: "wid \<Rightarrow> cid \<Rightarrow> Rts \<Rightarrow> Rts" where
  "entered ws t s = s\<lparr>deques := (deques s)(ws := (deques s ws)\<lparr>dq_mutex_owner := Some ws\<rparr>),
     closures := (closures s)(t \<mapsto> (the (closures s t))\<lparr>mutex_owner := Some ws\<rparr>)\<rparr>"

definition left :: "wid \<Rightarrow> cid \<Rightarrow> Rts \<Rightarrow> Rts" where
  "left ws t s = s\<lparr>deques := (deques s)(ws := (deques s ws)\<lparr>dq_mutex_owner := None\<rparr>),
     closures := (closures s)(t \<mapsto> (the (closures s t))\<lparr>mutex_owner := None\<rparr>)\<rparr>"

lemma entered_fields [simp]:
  "workers (entered ws t s) = workers s" "frames (entered ws t s) = frames s"
  "memory (entered ws t s) = memory s" "next_cid (entered ws t s) = next_cid s"
  "event_count (entered ws t s) = event_count s" "done_flag (entered ws t s) = done_flag s"
  "closures s t = Some cl \<Longrightarrow> closures (entered ws t s) t = Some (cl\<lparr>mutex_owner := Some ws\<rparr>)"
  "c \<noteq> t \<Longrightarrow> closures (entered ws t s) c = closures s c"
  "dq_mutex_owner (deques (entered ws t s) ws) = Some ws"
  by (simp_all add: entered_def)

lemma left_fields [simp]:
  "workers (left ws t s) = workers s" "frames (left ws t s) = frames s"
  "memory (left ws t s) = memory s" "next_cid (left ws t s) = next_cid s"
  "event_count (left ws t s) = event_count s" "done_flag (left ws t s) = done_flag s"
  "closures s t = Some cl \<Longrightarrow> closures (left ws t s) t = Some (cl\<lparr>mutex_owner := None\<rparr>)"
  "c \<noteq> t \<Longrightarrow> closures (left ws t s) c = closures s c"
  by (simp_all add: left_def)

lemma entered_core: "sched_core s dq \<Longrightarrow> closures s t = Some cl \<Longrightarrow> sched_core (entered ws t s) dq"
  unfolding entered_def
  using sched_core_closure [OF sched_core_dqlock [where p = ws and m = "Some ws" and s = s and dq = dq], where c = t and t = cl and t' = "cl\<lparr>mutex_owner := Some ws\<rparr>"]
  by simp

lemma entered_locks:
  "locks_are ws L D s \<Longrightarrow> closures s t = Some cl \<Longrightarrow>
   locks_are ws (insert t L) (insert ws D) (entered ws t s)"
  unfolding entered_def
  using locks_lock [OF locks_dqlock [of ws L D s ws], of t cl] by simp

lemma left_core: "sched_core s dq \<Longrightarrow> closures s t = Some cl \<Longrightarrow> sched_core (left ws t s) dq"
  unfolding left_def
  using sched_core_closure [OF sched_core_dqlock [where p = ws and m = None and s = s and dq = dq], where c = t and t = cl and t' = "cl\<lparr>mutex_owner := None\<rparr>"]
  by simp

lemma left_locks:
  "locks_are ws L D s \<Longrightarrow> closures s t = Some cl \<Longrightarrow> locks_are ws (L - {t}) (D - {v}) (left v t s)"
  unfolding left_def
  using locks_unlock [OF locks_dqunlock [of ws L D s v], of t cl] by simp

lemma left_inv:
  "sched_core s dq \<Longrightarrow> locks_are ws {t} {v} s \<Longrightarrow> closures s t = Some cl \<Longrightarrow> sched_inv (left v t s) dq"
  using left_core [of s dq t cl v] left_locks [of ws "{t}" "{v}" s t cl v]
  by (auto simp: sched_inv_def intro: unlockedI)

lemma wp_leave:
  "locks_are ws L D s \<Longrightarrow> t \<in> L \<Longrightarrow> closures s t = Some cl \<Longrightarrow> Q () (left v t s) \<Longrightarrow>
   wp (bindM (Closure_unlock ws t) (\<lambda>_. deque_unlock ws v)) Q s"
  by (simp add: wp_simps left_def locks_are_def)

lemma wp_leave_ret:
  "locks_are ws L D s \<Longrightarrow> t \<in> L \<Longrightarrow> closures s t = Some cl \<Longrightarrow> Q r (left v t s) \<Longrightarrow>
   wp (bindM (Closure_unlock ws t) (\<lambda>_. bindM (deque_unlock ws v) (\<lambda>_. ret r))) Q s"
  by (simp add: wp_simps left_def locks_are_def)

lemma wp_eventI:
  "wp k Q (s\<lparr>event_count := (event_count s)(ws := (event_count s ws)(e := Suc (event_count s ws e)))\<rparr>) \<Longrightarrow>
   wp (bindM (Cilk_event ws e) (\<lambda>_. k)) Q s"
  by (simp add: wp_bind wp_event)

lemma wp_callI: "wp m P s \<Longrightarrow> (\<And>a s'. P a s' \<Longrightarrow> wp (k a) Q s') \<Longrightarrow> wp (bindM m k) Q s"
  unfolding wp_bind by (rule wp_mono)

lemma wp_enter:
  assumes "sched_core s dq" "unlocked s" "last_opt (dq ws) = Some t" "closures s t = Some cl"
    and "wp (k t) Q (entered ws t s)"
  shows "wp (bindM (deque_lock ws ws) (\<lambda>_. bindM (deque_peek_bottom ws ws) (\<lambda>b.
     bindM (deref b) (\<lambda>t. bindM (Closure_lock ws t) (\<lambda>_. k t))))) Q s"
proof -
  let ?s1 = "s\<lparr>deques := (deques s)(ws := (deques s ws)\<lparr>dq_mutex_owner := Some ws\<rparr>)\<rparr>"
  have d: "is_deques ?s1 dq"
    by (rule sched_coreD(1) [OF sched_core_dqlock [OF assms(1)]])
  have "wp (deque_peek_bottom ws ws) (\<lambda>b. wp (bindM (deref b) (\<lambda>t. bindM (Closure_lock ws t) (\<lambda>_. k t))) Q) ?s1"
    unfolding wp_peek_bottom [OF d, of ws ws, simplified]
    using assms by (simp add: wp_simps unlocked_def entered_def)
  then show ?thesis using assms(2) by (simp add: wp_bind wp_deque_lock unlocked_def)
qed

definition valid_frame :: "Rts \<Rightarrow> Closure \<Rightarrow> bool" where
  "valid_frame s t \<longleftrightarrow> (\<exists>f fr. frame t = Some f \<and> frames s f = Some fr \<and> frame_magic fr \<and> sig fr \<noteq> [])"

definition at_top :: "Rts \<Rightarrow> wid \<Rightarrow> bool" where
  "at_top s w \<longleftrightarrow> head (wcache (workers s w)) + 1 = tail (wcache (workers s w))"

definition runs :: "Rts \<Rightarrow> (wid \<Rightarrow> cid list) \<Rightarrow> wid \<Rightarrow> cid \<Rightarrow> Closure \<Rightarrow> bool" where
  "runs s dq ws t cl \<longleftrightarrow> last_opt (dq ws) = Some t \<and> closures s t = Some cl \<and> status cl = CLOSURE_RUNNING"

lemma runs_cache: "sched_core s dq \<Longrightarrow> runs s dq ws t cl \<Longrightarrow> cache cl = Some ws"
  using running_place [of s dq t cl ws] by (auto simp: runs_def last_opt_mem)

text \<open>The state a quiet step leaves of the closure the handler works on.\<close>

lemma quiet_runs:
  assumes "quiet X s s'" "closures s t = Some cl"
  obtains cl' where "closures s' t = Some cl'" "status cl' = status cl" "cache cl' = cache cl"
    "join_counter cl' = join_counter cl" "frame cl' = frame cl" "parent cl' = parent cl"
    "mutex_owner cl' = mutex_owner cl"
  using quietD [OF assms] calm_fields by metis

lemma wp_maybe_reset_abort:
  "closures s t = Some cl \<Longrightarrow> wp (maybe_reset_abort t) Q s =
     Q () (if abort_status cl = ABORT_ALL then s
           else s\<lparr>closures := (closures s)(t \<mapsto> cl\<lparr>abort_status := NO_ABORT\<rparr>)\<rparr>)"
  by (simp add: maybe_reset_abort_def wp_simps)

lemma quiet_at_top: "quiet X s s' \<Longrightarrow> at_top s' w = at_top s w"
  using quiet_fields(9) [of X s s' w] by (simp add: at_top_def same_cache_def)

subsection \<open>Syncing\<close>

text \<open>
  At a sync the closure goes on exactly when all its children have returned; otherwise it is
  suspended and leaves the deque. Either way its pending inlets have been run.
\<close>

lemma Cilk_sync_law:
  assumes inv: "sched_inv s dq" and run: "runs s dq ws t cl" and f: "valid_frame s cl" and top: "at_top s ws"
  shows "wp (Cilk_sync ws)
    (\<lambda>res s'. res = (join_counter cl \<noteq> 0) \<and> sched_inv s' (if res then dq(ws := butlast (dq ws)) else dq)
       \<and> (\<exists>cl'. closures s' t = Some cl' \<and> status cl' = (if res then CLOSURE_SUSPENDED else CLOSURE_RUNNING)
            \<and> join_counter cl' = join_counter cl \<and> complete_inlets cl' = []
            \<and> abort_status cl' \<in> {NO_ABORT, ABORT_ALL})) s"
proof -
  obtain fa fr where fr: "frame cl = Some fa" "frames s fa = Some fr" "frame_magic fr"
    using f by (auto simp: valid_frame_def)
  let ?s0 = "s\<lparr>event_count := (event_count s)(ws := (event_count s ws)(EVENT_CILK_SYNC := Suc (event_count s ws EVENT_CILK_SYNC)))\<rparr>"
  let ?post = "\<lambda>res s'. res = (join_counter cl \<noteq> 0) \<and> sched_inv s' (if res then dq(ws := butlast (dq ws)) else dq)
       \<and> (\<exists>cl'. closures s' t = Some cl' \<and> status cl' = (if res then CLOSURE_SUSPENDED else CLOSURE_RUNNING)
            \<and> join_counter cl' = join_counter cl \<and> complete_inlets cl' = []
            \<and> abort_status cl' \<in> {NO_ABORT, ABORT_ALL})"
  have core: "sched_core ?s0 dq" and ul: "unlocked ?s0"
    using inv sched_core_event by (auto simp: sched_inv_def unlocked_def)
  have t: "last_opt (dq ws) = Some t" "closures ?s0 t = Some cl" "status cl = CLOSURE_RUNNING"
    using run by (auto simp: runs_def)
  have ca: "cache cl = Some ws" using runs_cache inv run by (auto simp: sched_inv_def)
  let ?s1 = "entered ws t ?s0"
  let ?cl1 = "cl\<lparr>mutex_owner := Some ws\<rparr>"
  have c1: "closures ?s1 t = Some ?cl1" using t(2) by simp
  have core1: "sched_core ?s1 dq" by (rule entered_core [OF core t(2)])
  have lk1: "locks_are ws {t} {ws} ?s1"
    using entered_locks [OF unlockedD [OF ul] t(2)] by simp
  have pol: "pollable ws ?s1 t" by (rule pollable_core [OF core1 lk1 c1]) simp
  have sh: "shallow ?s1 t" using c1 ca top by (auto simp: shallow_def at_top_def)
  have tail: "wp (bindM (deque_assert_is_bottom ws t) (\<lambda>_.
     bindM (maybe_reset_abort t) (\<lambda>_.
     bindM (Closure_has_children t) (\<lambda>res.
     bindM (if res then Closure_suspend ws t else ret ()) (\<lambda>_.
     bindM (Closure_unlock ws t) (\<lambda>_.
     bindM (deque_unlock ws ws) (\<lambda>_.
     ret res))))))) ?post s2"
    if q: "quiet {t} ?s1 s2" and c2: "closures s2 t = Some cl2" "complete_inlets cl2 = []" for s2 cl2
  proof -
    obtain cl2' where cl2': "closures s2 t = Some cl2'" "status cl2' = status ?cl1"
       "cache cl2' = cache ?cl1" "join_counter cl2' = join_counter ?cl1" "mutex_owner cl2' = mutex_owner ?cl1"
      by (rule quiet_runs [OF q c1])
    have f2: "status cl2 = CLOSURE_RUNNING" "join_counter cl2 = join_counter cl" "mutex_owner cl2 = Some ws"
      using cl2' c2(1) t(3) by simp_all
    have core2: "sched_core s2 dq" by (rule sched_core_quiet [OF q core1])
    have lk2: "locks_are ws {t} {ws} s2" by (rule locks_quiet [OF q lk1])
    have own2: "dq_mutex_owner (deques s2 ws) = Some ws" using lk2 by (simp add: locks_are_def)
    define cl3 where "cl3 = (if abort_status cl2 = ABORT_ALL then cl2 else cl2\<lparr>abort_status := NO_ABORT\<rparr>)"
    define s3 where "s3 = (if abort_status cl2 = ABORT_ALL then s2 else s2\<lparr>closures := (closures s2)(t \<mapsto> cl3)\<rparr>)"
    have q3: "quiet {t} s2 s3" unfolding s3_def using quiet_upd [OF c2(1), of "cl2\<lparr>abort_status := NO_ABORT\<rparr>"] by (auto simp: cl3_def)
    have c3: "closures s3 t = Some cl3" "status cl3 = CLOSURE_RUNNING" "join_counter cl3 = join_counter cl"
      "mutex_owner cl3 = Some ws" "complete_inlets cl3 = []" "abort_status cl3 \<in> {NO_ABORT, ABORT_ALL}"
      using c2 f2 by (auto simp: s3_def cl3_def)
    have core3: "sched_core s3 dq" by (rule sched_core_quiet [OF q3 core2])
    have lk3: "locks_are ws {t} {ws} s3" by (rule locks_quiet [OF q3 lk2])
    have rest: "wp (bindM (if join_counter cl \<noteq> 0 then Closure_suspend ws t else ret ()) (\<lambda>_.
        bindM (Closure_unlock ws t) (\<lambda>_. bindM (deque_unlock ws ws) (\<lambda>_. ret (join_counter cl \<noteq> 0))))) ?post s3"
    proof (cases "join_counter cl = 0")
      case True
      have "wp (bindM (Closure_unlock ws t) (\<lambda>_. bindM (deque_unlock ws ws) (\<lambda>_. ret False))) ?post s3"
        by (rule wp_leave_ret [OF lk3 _ c3(1)])
          (use left_inv [OF core3 lk3 c3(1)] c3 True in simp_all)
      with True show ?thesis by (simp add: wp_bind wp_ret)
    next
      case False
      have "wp (Closure_suspend ws t) (\<lambda>_. wp (bindM (Closure_unlock ws t) (\<lambda>_. bindM (deque_unlock ws ws) (\<lambda>_. ret True))) ?post) s3"
      proof (rule wp_mono [OF Closure_suspend_law [OF core3 lk3 t(1) c3(1,2)]])
        show "join_counter cl3 \<noteq> 0" using c3 False by simp
      next
        fix a s4 assume "sched_core s4 (dq(ws := butlast (dq ws))) \<and> locks_are ws {t} {ws} s4 \<and> deque_op_frame s3 s4
          \<and> (\<exists>cl'. closures s4 t = Some cl' \<and> core cl' = core (cl3\<lparr>status := CLOSURE_SUSPENDED\<rparr>))"
        then obtain cl4 where s4: "sched_core s4 (dq(ws := butlast (dq ws)))" "locks_are ws {t} {ws} s4"
          and c4: "closures s4 t = Some cl4" "core cl4 = core (cl3\<lparr>status := CLOSURE_SUSPENDED\<rparr>)" by blast
        show "wp (bindM (Closure_unlock ws t) (\<lambda>_. bindM (deque_unlock ws ws) (\<lambda>_. ret True))) ?post s4"
          by (rule wp_leave_ret [OF s4(2) _ c4(1)])
            (use left_inv [OF s4 c4(1)] c3 c4(1) core_fields [OF c4(2)] False in simp_all)
      qed
      with False show ?thesis by (simp add: wp_bind)
    qed
    have "wp (maybe_reset_abort t) (\<lambda>_. wp (bindM (Closure_has_children t) (\<lambda>res.
       bindM (if res then Closure_suspend ws t else ret ()) (\<lambda>_.
       bindM (Closure_unlock ws t) (\<lambda>_. bindM (deque_unlock ws ws) (\<lambda>_. ret res))))) ?post) s2"
      unfolding wp_maybe_reset_abort [OF c2(1)]
      using rest c3 by (simp add: wp_bind wp_Closure_has_children s3_def cl3_def split: if_splits)
    then show ?thesis
      by (simp add: wp_bind deque_assert_is_bottom_def wp_deque_assert_ownership own2 wp_assert
         wp_peek_bottom [OF sched_coreD(1) [OF core2] own2] t(1))
  qed
  have "wp (poll_inlets ws t) (\<lambda>_. wp (bindM (deque_assert_is_bottom ws t) (\<lambda>_.
     bindM (maybe_reset_abort t) (\<lambda>_.
     bindM (Closure_has_children t) (\<lambda>res.
     bindM (if res then Closure_suspend ws t else ret ()) (\<lambda>_.
     bindM (Closure_unlock ws t) (\<lambda>_.
     bindM (deque_unlock ws ws) (\<lambda>_.
     ret res))))))) ?post) ?s1"
    by (rule wp_mono [OF poll_inlets_shallow [OF pol sh]]) (use tail in blast)
  then have "wp (bindM (getC t) (\<lambda>cl.
     bindM (CILK_ASSERT 1279 (status cl = CLOSURE_RUNNING)) (\<lambda>_.
     bindM (deref (frame cl)) (\<lambda>f.
     bindM (getF f) (\<lambda>fr.
     bindM (CILK_ASSERT 1280 (frame_magic fr)) (\<lambda>_.
     bindM (Closure_at_top_of_stack t) (\<lambda>top.
     bindM (CILK_ASSERT 1283 top) (\<lambda>_.
     bindM (poll_inlets ws t) (\<lambda>_.
     bindM (deque_assert_is_bottom ws t) (\<lambda>_.
     bindM (maybe_reset_abort t) (\<lambda>_.
     bindM (Closure_has_children t) (\<lambda>res.
     bindM (if res then Closure_suspend ws t else ret ()) (\<lambda>_.
     bindM (Closure_unlock ws t) (\<lambda>_.
     bindM (deque_unlock ws ws) (\<lambda>_.
     ret res))))))))))))))) ?post ?s1"
    using c1 t(3) fr ca top
    by (simp add: wp_bind wp_getC wp_assert wp_deref wp_getF wp_Closure_at_top_of_stack at_top_def)
  then show ?thesis
    unfolding Cilk_sync_def by (intro wp_eventI wp_enter [OF core ul t(1,2)])
qed

end
