(* ===== verification/Rts_Examples.thy ===== *)
theory Rts_Examples
  imports Rts_Handlers
begin

section \<open>A small running program\<close>

text \<open>
  A concrete state of the scheduler on which the theorems are exercised: two workers and two
  closures. Closure 0 (frame at 100) has been stolen by worker 0 and waits for its child, closure 1
  (frame at 200), which still runs on worker 1. Worker 1 has a second frame (at 300) on its stack.
\<close>

definition ex_sig :: "CilkProcInfo list" where
  "ex_sig = [\<lparr>pi_size = 4, pi_index = 64, pi_inlet = Some 0, pi_argsize = 0, pi_argindex = 0\<rparr>,
     \<lparr>pi_size = 2, pi_index = 8, pi_inlet = None, pi_argsize = 0, pi_argindex = 0\<rparr>]"

definition ex_frame :: "CilkStackFrame" where
  "ex_frame = \<lparr>entry = 1, receiver = 0, sig = ex_sig, frame_magic = True\<rparr>"

definition ex_blank :: Closure where
  "ex_blank = \<lparr>mutex_owner = None, join_counter = 0, status = CLOSURE_READY, return_value = [],
     return_size = 0, complete_inlets = [], incomplete_inlets = [], parent = None, frame = None,
     abort_status = NO_ABORT, cache = None, next_ready = None, prev_ready = None,
     owner_ready_deque = None, malloced = False, cp = 0, work = 0\<rparr>"

definition ex_inlet :: InletClosure where
  "ex_inlet = \<lparr>ic_this = Some 1, ic_receiver = 108, ic_inlet = None, ic_argsize = 2, ic_inlet_args = [0, 0]\<rparr>"

definition ex_parent :: Closure where
  "ex_parent = ex_blank\<lparr>join_counter := 1, status := CLOSURE_RUNNING, incomplete_inlets := [ex_inlet],
     frame := Some 100, cache := Some 0, owner_ready_deque := Some 0\<rparr>"

definition ex_child :: Closure where
  "ex_child = ex_blank\<lparr>status := CLOSURE_RUNNING, parent := Some 0, frame := Some 200,
     cache := Some 1, owner_ready_deque := Some 1\<rparr>"

definition ex_worker :: CilkWorkerState where
  "ex_worker = \<lparr>wcache = \<lparr>head = 0, tail = 1, exception = 0, stack = (\<lambda>_. 100)\<rparr>,
     rand_next = 0, abort_flag = False, cp_hack = 0, work_hack = 0\<rparr>"

definition ex_worker1 :: CilkWorkerState where
  "ex_worker1 = ex_worker\<lparr>wcache := \<lparr>head = 0, tail = 2, exception = 0, stack = (\<lambda>_. 0)(0 := 200, 1 := 300)\<rparr>\<rparr>"

definition ex_empty :: ReadyDeque where
  "ex_empty = \<lparr>dq_mutex_owner = None, dq_top = None, dq_bottom = None\<rparr>"

definition ex_state :: Rts where
  "ex_state = \<lparr>closures = [0 \<mapsto> ex_parent, 1 \<mapsto> ex_child],
     frames = [100 \<mapsto> ex_frame, 200 \<mapsto> ex_frame, 300 \<mapsto> ex_frame], memory = (\<lambda>_. 0),
     workers = (\<lambda>_. ex_worker)(1 := ex_worker1),
     deques = (\<lambda>_. ex_empty)(0 := ex_empty\<lparr>dq_top := Some 0, dq_bottom := Some 0\<rparr>,
        1 := ex_empty\<lparr>dq_top := Some 1, dq_bottom := Some 1\<rparr>),
     inlet_code = (\<lambda>_ _ _ _ m. (m, False)), next_cid = 2, heap_junk = ex_blank, heap_byte = 0,
     active_size = 2, done_flag = False, event_count = (\<lambda>_ _. 0)\<rparr>"

definition ex_deques :: "wid \<Rightarrow> cid list" where
  "ex_deques = (\<lambda>_. [])(0 := [0], 1 := [1])"

lemmas ex_defs = ex_sig_def ex_frame_def ex_blank_def ex_inlet_def ex_parent_def ex_child_def
  ex_worker_def ex_worker1_def ex_empty_def ex_state_def ex_deques_def

lemma ex_is_deques: "is_deques ex_state ex_deques"
  by (auto simp: is_deques_def is_deque_def dq_links_def ex_defs split: if_splits)

lemma ex_tree: "tree_ok (closures ex_state)"
  by (auto simp: tree_ok_def node_ok_def child_ids_def ex_defs split: if_splits)

lemma ex_inv: "sched_inv ex_state ex_deques"
  unfolding sched_inv_def sched_core_def sched_heap_def
proof (intro conjI allI impI)
  show "young ex_state" by (auto simp: young_def ex_defs split: if_splits)
  show "unlocked ex_state" by (auto simp: unlocked_def ex_defs split: if_splits)
  show "worker_ok (workers ex_state w)" for w
    by (simp add: worker_ok_def ex_defs zero_enat_def)
  show "status_ok ex_deques c t" "inlets_ok t" if "closures ex_state c = Some t" for c t
    using that by (auto simp: status_ok_def inlets_ok_def inlet_ok_def ex_defs split: if_splits)
qed (rule ex_is_deques ex_tree)+

lemma ex_runs:
  "runs ex_state ex_deques 0 0 ex_parent" "runs ex_state ex_deques 1 1 ex_child"
  "valid_frame ex_state ex_parent" "valid_frame ex_state ex_child" "at_top ex_state 0"
  by (simp_all add: runs_def valid_frame_def at_top_def ex_defs)

end
