(* ===== verification/Rts_Steal.thy ===== *)
theory Rts_Steal
  imports Rts_Handlers
begin

section \<open>Promotion and stealing\<close>

text \<open>
  A steal from a worker that runs takes the frame at the head of the worker's stack: the frame below
  it becomes a closure of its own, a child of the stolen one (\<open>promote_child\<close>, \<open>finish_promote\<close>). The
  same promotion happens when an inlet aborts a closure that is running deep in its worker's stack.
\<close>

definition new_child :: "cid \<Rightarrow> wid \<Rightarrow> addr \<Rightarrow> Closure" where
  "new_child pa w f = \<lparr>mutex_owner = None, join_counter = 0, status = CLOSURE_RUNNING,
     return_value = [], return_size = 0, complete_inlets = [], incomplete_inlets = [],
     parent = Some pa, frame = Some f, abort_status = NO_ABORT, cache = Some w,
     next_ready = None, prev_ready = None, owner_ready_deque = None, malloced = False, cp = 0, work = 0\<rparr>"

definition advance_head :: "wid \<Rightarrow> (wid \<Rightarrow> CilkWorkerState) \<Rightarrow> wid \<Rightarrow> CilkWorkerState" where
  "advance_head v ws = ws(v := (ws v)\<lparr>wcache := head_update Suc (wcache (ws v))\<rparr>)"

text \<open>
  The child exists and runs, but the parent does not know it yet: up to the deques' links, the state
  is \<open>s\<close> with the child \<open>c0\<close> at the first free address and the head pointer of worker \<open>v\<close> advanced.
\<close>

definition half_promoted :: "Rts \<Rightarrow> wid \<Rightarrow> Closure \<Rightarrow> Rts \<Rightarrow> bool" where
  "half_promoted s v c0 s' \<longleftrightarrow>
     (\<forall>d. d \<noteq> next_cid s \<longrightarrow> map_option core (closures s' d) = map_option core (closures s d))
     \<and> map_option core (closures s' (next_cid s)) = Some (core c0)
     \<and> workers s' = advance_head v (workers s) \<and> frames s' = frames s \<and> memory s' = memory s
     \<and> inlet_code s' = inlet_code s \<and> next_cid s' = Suc (next_cid s) \<and> done_flag s' = done_flag s
     \<and> active_size s' = active_size s"

lemma half_promoted_same_core:
  assumes "half_promoted s v c0 s'" and q: "same_core s' s''"
  shows "half_promoted s v c0 s''"
proof -
  have "map_option core (closures s'' d) = map_option core (closures s' d)" for d
  proof (cases "closures s' d")
    case None
    then show ?thesis using same_core_alive [OF q] by simp
  next
    case (Some t)
    from same_core_closure [OF q Some] Some show ?thesis by auto
  qed
  then show ?thesis
    using assms(1) same_core_fields [OF q] by (simp add: half_promoted_def)
qed

lemma wp_alloc_closure:
  "wp alloc_closure Q s = Q (next_cid s)
     (s\<lparr>next_cid := Suc (next_cid s), closures := (closures s)(next_cid s \<mapsto> heap_junk s)\<rparr>)"
  by (simp add: wp_def alloc_closure_def)

definition initialised :: "Closure \<Rightarrow> Closure" where
  "initialised t = t\<lparr>malloced := False, mutex_owner := None, cp := 0, work := 0,
        complete_inlets := [], incomplete_inlets := [], next_ready := None, prev_ready := None,
        abort_status := NO_ABORT, return_size := 0, return_value := [],
        owner_ready_deque := None\<rparr>"

lemma wp_Closure_create:
  "wp (Closure_create ws) Q s = Q (next_cid s)
     (s\<lparr>event_count := (event_count s)(ws := (event_count s ws)(EVENT_CLOSURE_CREATE := Suc (event_count s ws EVENT_CLOSURE_CREATE))),
        next_cid := Suc (next_cid s), closures := (closures s)(next_cid s \<mapsto> initialised (heap_junk s))\<rparr>)"
  by (simp add: Closure_create_def Closure_init_def wp_alloc_closure wp_simps initialised_def)

lemma initialised_child:
  "(initialised t)\<lparr>parent := Some pa, join_counter := 0, cache := Some w, status := CLOSURE_RUNNING, frame := Some f\<rparr>
     = new_child pa w f"
  by (cases t) (simp add: initialised_def new_child_def)

lemma promote_child_law:
  assumes dqs: "is_deques s dq" and own: "dq_mutex_owner (deques s v) = Some ws"
    and p: "closures s pa = Some p" "mutex_owner p = Some ws" "status p = CLOSURE_RUNNING"
      "cache p = Some v" "last_opt (dq v) = Some pa"
    and E: "worker_ok (workers s v)" and y: "young s"
  shows "wp (promote_child ws pa v)
    (\<lambda>ch s'. ch = next_cid s \<and> is_deques s' (dq(v := dq v @ [ch]))
       \<and> half_promoted s v (new_child pa v (stack (wcache (workers s v)) (Suc (head (wcache (workers s v)))))) s'
       \<and> (\<forall>L D. locks_are ws L D s \<longrightarrow> ch \<notin> L \<longrightarrow> locks_are ws L D s')) s"
proof -
  let ?ch = "next_cid s"
  let ?f = "stack (wcache (workers s v)) (Suc (head (wcache (workers s v))))"
  let ?c0 = "new_child pa v ?f"
  let ?s1 = "s\<lparr>workers := advance_head v (workers s), next_cid := Suc ?ch,
     event_count := (event_count s)(ws := (event_count s ws)(EVENT_CLOSURE_CREATE := Suc (event_count s ws EVENT_CLOSURE_CREATE))),
     closures := (closures s)(?ch \<mapsto> ?c0)\<rparr>"
  have fresh: "closures s ?ch = None" using y by (auto simp: young_def)
  then have ne: "pa \<noteq> ?ch" using p(1) by auto
  have links: "owner_ready_deque p = Some v" "next_ready p = None"
  proof -
    show "owner_ready_deque p = Some v"
      using is_deques_owner [OF dqs p(1)] last_opt_mem [OF p(5)] by simp
    have l: "dq_links (closures s) v (dq v)" by (rule is_dequesD(4) [OF dqs])
    have "dq v \<noteq> []" "last (dq v) = pa" using p(5) by (auto simp: last_opt_def split: if_splits)
    with l [unfolded dq_links_def, rule_format, of "length (dq v) - 1"] p(1)
    show "next_ready p = None" by (simp add: last_conv_nth)
  qed
  have dqs1: "is_deques ?s1 dq"
    unfolding is_deques_def
  proof (intro conjI allI impI)
    fix q
    have "?ch \<notin> set (dq q)" using is_deques_member [OF dqs, of ?ch q] fresh by auto
    then have "dq_links ((closures s)(?ch \<mapsto> ?c0)) q (dq q)"
      using is_dequesD(4) [OF dqs, of q] unfolding dq_links_def by (metis fun_upd_apply nth_mem)
    then show "is_deque ?s1 q (dq q)"
      using is_dequesD [OF dqs, of q] by (simp add: is_deque_def)
  next
    fix c t q assume "closures ?s1 c = Some t"
    then show "(owner_ready_deque t = Some q) = (c \<in> set (dq q))"
      using is_deques_owner [OF dqs] is_deques_member [OF dqs, of ?ch q] fresh
      by (auto simp: new_child_def split: if_splits)
  qed
  have "wp (deque_add_bottom ws ?ch v) (\<lambda>_ s'. is_deques s' (dq(v := dq v @ [?ch])) \<and> half_promoted s v ?c0 s'
       \<and> (\<forall>L D. locks_are ws L D s \<longrightarrow> ?ch \<notin> L \<longrightarrow> locks_are ws L D s')) ?s1"
  proof (rule wp_mono [OF deque_add_bottom_law [OF dqs1, where t = ?c0]])
    fix a s' assume a: "is_deques s' (dq(v := dq v @ [?ch])) \<and> same_core ?s1 s'"
    have "half_promoted s v ?c0 ?s1" by (simp add: half_promoted_def)
    moreover have "locks_are ws L D ?s1" if "locks_are ws L D s" "?ch \<notin> L" for L D
      using that by (auto simp: locks_are_def new_child_def)
    ultimately show "is_deques s' (dq(v := dq v @ [?ch])) \<and> half_promoted s v ?c0 s'
       \<and> (\<forall>L D. locks_are ws L D s \<longrightarrow> ?ch \<notin> L \<longrightarrow> locks_are ws L D s')"
      using a half_promoted_same_core locks_same_core by blast
  qed (use own in \<open>simp_all add: new_child_def\<close>)
  then show ?thesis
    using p links E ne fresh own
    by (simp add: promote_child_def wp_Closure_create wp_simps worker_ok_def upd_cache_def
        advance_head_def initialised_child wp_ret [abs_def])
qed

definition valid_spawn :: "Rts \<Rightarrow> Closure \<Rightarrow> bool" where
  "valid_spawn s p \<longleftrightarrow> (\<exists>f fr. frame p = Some f \<and> frames s f = Some fr
     \<and> 0 < entry fr \<and> nat (entry fr) < length (sig fr))"

lemma make_incomplete_law:
  assumes "closures s pa = Some p" "valid_spawn s p"
  shows "wp (make_incomplete_inlet_closure ws pa (- 1)) (\<lambda>i s'. s' = s \<and> inlet_ok i) s"
  using assms
  by (auto simp: make_incomplete_inlet_closure_def get_CilkProcInfo_def valid_spawn_def inlet_ok_def
      read_bytes_def wp_simps [abs_def] split: option.split)

definition adopt :: "InletClosure \<Rightarrow> Closure \<Rightarrow> Closure" where
  "adopt i p = (join_counter_update (\<lambda>j. j + 1) p)\<lparr>incomplete_inlets := i # incomplete_inlets p,
     cache := None, status := CLOSURE_READY\<rparr>"

lemma finish_promote_law:
  assumes p: "closures s pa = Some p" "mutex_owner p = Some ws" "valid_spawn s p"
    and c: "closures s ch = Some u" "mutex_owner u \<noteq> Some ws"
  shows "wp (finish_promote ws pa ch) (\<lambda>_ s'. \<exists>i. ic_this i = Some ch \<and> inlet_ok i
     \<and> s' = s\<lparr>closures := (closures s)(pa \<mapsto> adopt i p)\<rparr>) s"
proof -
  have ne: "ch \<noteq> pa" using p c by auto
  let ?s1 = "s\<lparr>closures := (closures s)(pa \<mapsto> join_counter_update (\<lambda>j. j + 1) p)\<rparr>"
  have "valid_spawn ?s1 (join_counter_update (\<lambda>j. j + 1) p)" using p(3) by (simp add: valid_spawn_def)
  then have "wp (make_incomplete_inlet_closure ws pa (- 1)) (\<lambda>i s'. s' = ?s1 \<and> inlet_ok i) ?s1"
    by (intro make_incomplete_law) simp_all
  then have "wp (make_incomplete_inlet_closure ws pa (- 1))
    (\<lambda>i. wp (bindM (updC pa (\<lambda>t. t\<lparr>incomplete_inlets := i\<lparr>ic_this := Some ch\<rparr> # incomplete_inlets t\<rparr>))
        (\<lambda>_. Closure_make_ready pa)) (\<lambda>_ s'. \<exists>i. ic_this i = Some ch \<and> inlet_ok i
     \<and> s' = s\<lparr>closures := (closures s)(pa \<mapsto> adopt i p)\<rparr>)) ?s1"
  proof (rule wp_mono)
    fix i s' assume i: "s' = ?s1 \<and> inlet_ok i"
    let ?i = "i\<lparr>ic_this := Some ch\<rparr>"
    have "inlet_ok ?i" using i by (simp add: inlet_ok_def)
    then have "\<exists>j. ic_this j = Some ch \<and> inlet_ok j
       \<and> s\<lparr>closures := (closures s)(pa \<mapsto> adopt ?i p)\<rparr> = s\<lparr>closures := (closures s)(pa \<mapsto> adopt j p)\<rparr>"
      by (intro exI [of _ ?i]) simp
    then show "wp (bindM (updC pa (\<lambda>t. t\<lparr>incomplete_inlets := i\<lparr>ic_this := Some ch\<rparr> # incomplete_inlets t\<rparr>))
        (\<lambda>_. Closure_make_ready pa)) (\<lambda>_ s'. \<exists>i. ic_this i = Some ch \<and> inlet_ok i
     \<and> s' = s\<lparr>closures := (closures s)(pa \<mapsto> adopt i p)\<rparr>) s'"
      using i by (simp add: wp_bind Closure_make_ready_def wp_updC adopt_def)
  qed
  then show ?thesis
    using p(1,2) c ne
    by (simp add: finish_promote_def Closure_add_child_def wp_bind wp_Closure_assert_ownership
        wp_Closure_assert_alienation wp_Closure_checkmagic wp_updC)
qed

lemma half_promotedD:
  assumes "half_promoted s v c0 s'" "d \<noteq> next_cid s"
  shows "closures s d = Some t \<Longrightarrow> \<exists>t'. closures s' d = Some t' \<and> core t' = core t"
    and "closures s' d = Some t' \<Longrightarrow> \<exists>t. closures s d = Some t \<and> core t' = core t"
  using assms unfolding half_promoted_def
  by (metis (no_types, lifting) map_option_eq_Some)+

lemma half_promoted_child:
  "half_promoted s v c0 s' \<Longrightarrow> \<exists>u. closures s' (next_cid s) = Some u \<and> core u = core c0"
  unfolding half_promoted_def by auto

text \<open>The two halves together keep the tree and the statuses.\<close>

lemma promote_tree:
  assumes ok: "tree_ok (closures s)" and y: "young s" and p: "closures s pa = Some p"
    and half: "half_promoted s v (new_child pa v f) s2" and p2: "closures s2 pa = Some p2"
    and i: "ic_this i = Some (next_cid s)"
  shows "tree_ok ((closures s2)(pa \<mapsto> adopt i p2))"
proof -
  let ?ch = "next_cid s"
  let ?h = "(closures s2)(pa \<mapsto> adopt i p2)"
  have fresh: "closures s ?ch = None" using y by (auto simp: young_def)
  have ne: "pa \<noteq> ?ch" using p fresh by auto
  have cp2: "core p2 = core p" using half_promotedD(1) [OF half ne p] p2 by simp
  have keep: "\<exists>u'. ?h d = Some u' \<and> parent u' = parent u \<and> set (child_ids u) \<subseteq> set (child_ids u')"
    if "closures s d = Some u" for d u
  proof (cases "d = pa")
    case True
    then show ?thesis using that p core_fields [OF cp2] by (auto simp: adopt_def child_ids_def)
  next
    case False
    have "d \<noteq> ?ch" using that fresh by auto
    from half_promotedD(1) [OF half this that] obtain u' where "closures s2 d = Some u'" "core u' = core u" by blast
    with False core_fields [of u' u] show ?thesis by (simp add: child_ids_def)
  qed
  obtain u where u: "closures s2 ?ch = Some u" "core u = core (new_child pa v f)"
    using half_promoted_child [OF half] by blast
  note uf = core_fields [OF u(2)]
  have node_p: "node_ok (closures s) pa p" by (rule tree_okD [OF ok p])
  show ?thesis
    unfolding tree_ok_def
  proof (intro allI impI)
    fix c t assume c: "?h c = Some t"
    consider "c = pa" | "c = ?ch" "c \<noteq> pa" | "c \<noteq> pa" "c \<noteq> ?ch" by blast
    then show "node_ok ?h c t"
    proof cases
      case 1
      then have t: "t = adopt i p2" using c by simp
      have ids: "child_ids t = Some ?ch # child_ids p"
        using core_fields [OF cp2] i by (simp add: t adopt_def child_ids_def)
      have "Some ?ch \<notin> set (child_ids p)" using node_p fresh by (auto simp: node_ok_def)
      moreover have "\<exists>d u. x = Some d \<and> ?h d = Some u \<and> parent u = Some c" if "x \<in> set (child_ids t)" for x
      proof (cases "x = Some ?ch")
        case True
        then show ?thesis using u ne uf 1 by (simp add: new_child_def)
      next
        case False
        then have "x \<in> set (child_ids p)" using that ids by simp
        then obtain d w where "x = Some d" "closures s d = Some w" "parent w = Some pa"
          using node_p unfolding node_ok_def by blast
        with keep [of d w] 1 show ?thesis by auto
      qed
      moreover have "q < c \<and> (\<exists>u. ?h q = Some u \<and> Some c \<in> set (child_ids u))" if "parent t = Some q" for q
      proof -
        have "parent p = Some q" using that core_fields [OF cp2] by (simp add: t adopt_def)
        then obtain w where "q < pa" "closures s q = Some w" "Some pa \<in> set (child_ids w)"
          using node_p by (auto simp: node_ok_def)
        with keep [of q w] 1 show ?thesis by blast
      qed
      moreover have "join_counter t = int (length (incomplete_inlets t))" "distinct (child_ids p)"
        using node_p core_fields [OF cp2] by (simp_all add: node_ok_def t adopt_def)
      ultimately show ?thesis unfolding node_ok_def ids by simp
    next
      case 2
      then have "core t = core (new_child pa v f)" using c u by simp
      note tf = core_fields [OF this]
      have "pa < ?ch" using y p by (simp add: young_def)
      moreover have "Some ?ch \<in> set (child_ids (adopt i p2))" by (simp add: adopt_def child_ids_def i)
      ultimately show ?thesis
        using 2 tf by (simp add: node_ok_def child_ids_def new_child_def)
    next
      case 3
      then have "closures s2 c = Some t" using c by simp
      from half_promotedD(2) [OF half 3(2) this] obtain w where w: "closures s c = Some w" "core t = core w" by blast
      have n: "node_ok (closures s) c w" by (rule tree_okD [OF ok w(1)])
      have "\<exists>d u. x = Some d \<and> ?h d = Some u \<and> parent u = Some c" if "x \<in> set (child_ids w)" for x
      proof -
        from n have "\<forall>x \<in> set (child_ids w). \<exists>d u. x = Some d \<and> closures s d = Some u \<and> parent u = Some c"
          by (simp add: node_ok_def)
        with that obtain d u where "x = Some d" "closures s d = Some u" "parent u = Some c" by blast
        with keep [of d u] show ?thesis by auto
      qed
      moreover have "q < c \<and> (\<exists>u. ?h q = Some u \<and> Some c \<in> set (child_ids u))" if "parent w = Some q" for q
      proof -
        obtain v where "q < c" "closures s q = Some v" "Some c \<in> set (child_ids v)"
          using n \<open>parent w = Some q\<close> by (auto simp: node_ok_def)
        with keep [of q v] show ?thesis by blast
      qed
      ultimately show ?thesis
        using n core_fields [OF w(2)] by (simp add: node_ok_def child_ids_def)
    qed
  qed
qed

lemma promote_heap:
  assumes heap: "sched_heap s dq" and p: "closures s pa = Some p" "status p = CLOSURE_RUNNING" "last_opt (dq v) = Some pa"
    and half: "half_promoted s v (new_child pa v f) s2" and p2: "closures s2 pa = Some p2"
    and i: "ic_this i = Some (next_cid s)" "inlet_ok i"
    and dqs: "is_deques s2 (dq(v := ys @ [next_cid s]))" and ys: "set ys \<subseteq> set (dq v)"
  shows "sched_heap (s2\<lparr>closures := (closures s2)(pa \<mapsto> adopt i p2)\<rparr>) (dq(v := ys @ [next_cid s]))"
  unfolding sched_heap_def
proof (intro conjI allI impI)
  let ?ch = "next_cid s"
  let ?dq = "dq(v := ys @ [?ch])"
  let ?s3 = "s2\<lparr>closures := (closures s2)(pa \<mapsto> adopt i p2)\<rparr>"
  have fresh: "closures s ?ch = None" using sched_heapD(4) [OF heap] by (auto simp: young_def)
  have ne: "pa \<noteq> ?ch" using p fresh by auto
  have cp2: "core p2 = core p" using half_promotedD(1) [OF half ne p(1)] p2 by simp
  show "is_deques ?s3 ?dq"
    by (rule is_deques_closure [OF dqs p2]) (simp_all add: adopt_def)
  show "tree_ok (closures ?s3)"
    using promote_tree [OF sched_heapD(2,4) [OF heap] p(1) half p2 i(1)] by simp
  have alive: "closures s2 c \<noteq> None \<Longrightarrow> c = ?ch \<or> closures s c \<noteq> None" for c
    using half_promotedD(2) [OF half] by blast
  show "young ?s3"
    unfolding young_def
  proof (intro allI impI)
    fix c assume "closures ?s3 c \<noteq> None"
    then have "c = ?ch \<or> closures s c \<noteq> None" using alive [of c] p(1) by (cases "c = pa") auto
    moreover have "next_cid s2 = Suc ?ch" using half by (simp add: half_promoted_def)
    ultimately show "c < next_cid ?s3" using sched_heapD(4) [OF heap] by (auto simp: young_def)
  qed
  fix c t assume c: "closures ?s3 c = Some t"
  obtain u where u: "closures s2 ?ch = Some u" "core u = core (new_child pa v f)"
    using half_promoted_child [OF half] by blast
  consider "c = pa" | "c = ?ch" "c \<noteq> pa" | "c \<noteq> pa" "c \<noteq> ?ch" by blast
  then have "status_ok ?dq c t \<and> inlets_ok t"
  proof cases
    case 1
    then have t: "t = adopt i p2" using c by simp
    have "status_ok ?dq c t" by (simp add: t adopt_def status_ok_def)
    moreover have "inlets_ok t"
      using sched_heapD(6) [OF heap p(1)] inlets_ok_core [OF cp2] i(2)
      by (simp add: t adopt_def inlets_ok_def)
    ultimately show ?thesis ..
  next
    case 2
    then have "core t = core (new_child pa v f)" using c u by simp
    note tf = core_fields [OF this]
    show ?thesis using 2 tf by (simp add: status_ok_def inlets_ok_def new_child_def)
  next
    case 3
    then have "closures s2 c = Some t" using c by simp
    from half_promotedD(2) [OF half 3(2) this] obtain w where w: "closures s c = Some w" "core t = core w" by blast
    have "inlets_ok t" using sched_heapD(6) [OF heap w(1)] inlets_ok_core [OF w(2)] by simp
    have dqs0: "is_deques s dq" by (rule sched_heapD(1) [OF heap])
    have w': "status_ok dq c w" by (rule sched_heapD(5) [OF heap w(1)])
    have in_v: "c \<in> set (dq q)" if "c \<in> set (?dq q)" for q
      using that ys 3 by (auto split: if_splits)
    have not_v: "q \<noteq> v" if "last_opt (dq q) = Some c" for q using that p(3) 3 by auto
    have "status_ok ?dq c w"
    proof (cases "status w")
      case CLOSURE_RUNNING
      then obtain q where q: "cache w = Some q" "last_opt (dq q) = Some c" using w' by (auto simp: status_ok_def)
      with not_v [of q] CLOSURE_RUNNING show ?thesis by (simp add: status_ok_def)
    next
      case CLOSURE_SUSPENDED
      with w' in_v show ?thesis unfolding status_ok_def by (simp del: fun_upd_apply) blast
    next
      case CLOSURE_RETURNING
      have "cache w = Some q \<and> last_opt (?dq q) = Some c" if "c \<in> set (?dq q)" for q
      proof -
        have "cache w = Some q \<and> last_opt (dq q) = Some c"
          using w' in_v [OF that] CLOSURE_RETURNING by (simp add: status_ok_def)
        with not_v [of q] show ?thesis by simp
      qed
      with w' CLOSURE_RETURNING show ?thesis by (simp add: status_ok_def del: fun_upd_apply)
    qed (simp add: status_ok_def)
    then have "status_ok ?dq c t" using status_ok_core [OF w(2)] by simp
    with \<open>inlets_ok t\<close> show ?thesis by simp
  qed
  then show "status_ok ?dq c t" "inlets_ok t" by simp_all
qed

subsection \<open>The steal protocol\<close>

text \<open>What a thief gets from the deque of \<open>v\<close>: decided by the top closure alone.\<close>

definition steal_target :: "Rts \<Rightarrow> (wid \<Rightarrow> cid list) \<Rightarrow> wid \<Rightarrow> cid option" where
  "steal_target s dq v = (case hd_opt (dq v) of None \<Rightarrow> None
     | Some c \<Rightarrow> (case closures s c of None \<Rightarrow> None | Some t \<Rightarrow>
         if abort_status t = NO_ABORT \<and> (status t = CLOSURE_READY
              \<or> status t = CLOSURE_RUNNING \<and> head (wcache (workers s v)) + 1 < tail (wcache (workers s v)))
         then Some c else None))"

lemma eSuc_minus_1 [simp]: "eSuc e - 1 = (e :: enat)"
  by (cases e) (simp_all add: eSuc_enat one_enat_def)

definition dekker :: "wid \<Rightarrow> Rts \<Rightarrow> Rts" where
  "dekker v s = (if exception (wcache (workers s v)) = \<infinity> then s else upd_cache v (exception_update eSuc) s)"

lemma dekker_fields [simp]:
  "closures (dekker v s) = closures s" "deques (dekker v s) = deques s" "frames (dekker v s) = frames s"
  "next_cid (dekker v s) = next_cid s"
  "head (wcache (workers (dekker v s) w)) = head (wcache (workers s w))"
  "tail (wcache (workers (dekker v s) w)) = tail (wcache (workers s w))"
  "stack (wcache (workers (dekker v s) w)) = stack (wcache (workers s w))"
  by (simp_all add: dekker_def)

lemma dekker_exception:
  "enat (head (wcache (workers s v))) \<le> exception (wcache (workers s v)) \<Longrightarrow>
   enat (Suc (head (wcache (workers s v)))) \<le> exception (wcache (workers (dekker v s) v))"
  by (auto simp: dekker_def eSuc_enat [symmetric])

lemma exception_same: "exception_update (\<lambda>e. e) k = k"
  by (cases k) simp

lemma do_dekker_law:
  assumes "closures s c = Some t" "mutex_owner t = Some ws" "status t = CLOSURE_RUNNING" "cache t = Some v"
  shows "wp (do_dekker_on ws c) (\<lambda>won s'.
     won = (head (wcache (workers s v)) + 1 < tail (wcache (workers s v))) \<and> s' = (if won then dekker v s else s)) s"
proof -
  have undo: "upd_cache v (exception_update (\<lambda>e. e - 1)) (upd_cache v (exception_update eSuc) s) = s"
    by (simp add: upd_cache_def comp_def exception_same)
  have "exception (wcache (workers s v)) \<noteq> \<infinity> \<Longrightarrow> eSuc (exception (wcache (workers s v))) \<noteq> \<infinity>"
    by (cases "exception (wcache (workers s v))") (simp_all add: eSuc_enat)
  with assms undo show ?thesis
    by (auto simp: do_dekker_on_def increment_exception_pointer_def decrement_exception_pointer_def
        dekker_def wp_simps)
qed

lemma worker_ok_dekker: "worker_ok (workers s w) \<Longrightarrow> worker_ok (workers (dekker v s) w)"
  using order_trans [OF _ ile_eSuc, of "enat (head (wcache (workers s w)))" "exception (wcache (workers s w))"]
  by (auto simp: worker_ok_def dekker_def)

lemma sched_core_dekker: "sched_core s dq \<Longrightarrow> sched_core (dekker v s) dq"
  by (rule sched_core_skeleton) (auto simp: same_skeleton_def intro: worker_ok_dekker sched_coreD(8))

lemma locks_upd_cache: "locks_are ws L D s \<Longrightarrow> locks_are ws L D (dekker v s)"
  by (simp add: locks_are_def)

text \<open>The thief has won: it leaves with the parent, and the child runs on at the victim.\<close>

lemma steal_running:
  assumes core: "sched_core s dq" and lk: "locks_are ws {c} {v} s"
    and t: "closures s c = Some t" "status t = CLOSURE_RUNNING" "hd_opt (dq v) = Some c"
    and sp: "valid_spawn s t"
  shows "wp (bindM (promote_child ws c v) (\<lambda>child.
       bindM (deque_xtract_top ws v) (\<lambda>res.
       bindM (CILK_ASSERT 912 (Some c = res)) (\<lambda>_.
       bindM (deque_unlock ws v) (\<lambda>_.
       bindM (finish_promote ws c child) (\<lambda>_.
       bindM (Closure_unlock ws c) (\<lambda>_.
       bindM (Cilk_event ws EVENT_STEAL) (\<lambda>_.
       ret res))))))))
     (\<lambda>r s'. r = Some c \<and> sched_inv s' (dq(v := [next_cid s]))
        \<and> (\<exists>t' u. closures s' c = Some t' \<and> status t' = CLOSURE_READY \<and> join_counter t' = join_counter t + 1
             \<and> closures s' (next_cid s) = Some u \<and> status u = CLOSURE_RUNNING \<and> parent u = Some c
             \<and> frame u = Some (stack (wcache (workers s v)) (head (wcache (workers s v)) + 1)))
        \<and> head (wcache (workers s' v)) = head (wcache (workers s v)) + 1) (dekker v s)"
proof -
  let ?s1 = "dekker v s"
  let ?ch = "next_cid s"
  let ?f = "stack (wcache (workers s v)) (Suc (head (wcache (workers s v))))"
  let ?c0 = "new_child c v ?f"
  have core1: "sched_core ?s1 dq" by (rule sched_core_dekker [OF core])
  have lk1: "locks_are ws {c} {v} ?s1" by (rule locks_upd_cache [OF lk])
  have mem: "c \<in> set (dq v)" using t(3) by (cases "dq v") auto
  have place: "cache t = Some v" "last_opt (dq v) = Some c" using running_place [OF core t(1,2) mem] by auto
  have single: "dq v = [c]"
  proof -
    have "distinct (dq v)" by (rule is_dequesD(3) [OF sched_coreD(1) [OF core]])
    with t(3) place(2) show ?thesis by (cases "dq v"; cases "tl (dq v)") (auto simp: last_opt_def split: if_splits)
  qed
  have chc: "?ch \<notin> {c}" using sched_coreD(4) [OF core] t(1) by (auto simp: young_def)
  have own: "mutex_owner t = Some ws" "dq_mutex_owner (deques ?s1 v) = Some ws" using lk t(1) by (auto simp: locks_are_def)
  let ?Q = "\<lambda>r s'. r = Some c \<and> sched_inv s' (dq(v := [next_cid s]))
        \<and> (\<exists>t' u. closures s' c = Some t' \<and> status t' = CLOSURE_READY \<and> join_counter t' = join_counter t + 1
             \<and> closures s' (next_cid s) = Some u \<and> status u = CLOSURE_RUNNING \<and> parent u = Some c
             \<and> frame u = Some (stack (wcache (workers s v)) (head (wcache (workers s v)) + 1)))
        \<and> head (wcache (workers s' v)) = head (wcache (workers s v)) + 1"
  have finish: "wp (finish_promote ws c ?ch) (\<lambda>_. wp (bindM (Closure_unlock ws c) (\<lambda>_.
       bindM (Cilk_event ws EVENT_STEAL) (\<lambda>_. ret (Some c)))) ?Q) s3"
    if dqs: "is_deques s3 (dq(v := [?ch]))" and half: "half_promoted ?s1 v ?c0 s3"
      and lk3: "locks_are ws {c} {} s3" for s3
  proof -
    obtain t3 where t3: "closures s3 c = Some t3" "core t3 = core t"
      using half_promotedD(1) [OF half, of c t] chc t(1) by auto
    obtain u where u: "closures s3 ?ch = Some u" "core u = core ?c0"
      using half_promoted_child [OF half] by auto
    note f3 = core_fields [OF t3(2)] and fu = core_fields [OF u(2)]
    have fr: "frames s3 = frames s" "workers s3 = advance_head v (workers ?s1)"
      using half by (simp_all add: half_promoted_def)
    have "valid_spawn s3 t3" using sp f3 fr by (simp add: valid_spawn_def)
    moreover have "mutex_owner t3 = Some ws" "mutex_owner u \<noteq> Some ws" using lk3 t3(1) u(1) chc by (auto simp: locks_are_def)
    ultimately have "wp (finish_promote ws c ?ch) (\<lambda>_ s'. \<exists>i. ic_this i = Some ?ch \<and> inlet_ok i
     \<and> s' = s3\<lparr>closures := (closures s3)(c \<mapsto> adopt i t3)\<rparr>) s3"
      by (intro finish_promote_law [OF t3(1) _ _ u(1)])
    then show ?thesis
    proof (rule wp_mono, elim exE conjE)
      fix a s4 i assume i: "ic_this i = Some ?ch" "inlet_ok i" and s4: "s4 = s3\<lparr>closures := (closures s3)(c \<mapsto> adopt i t3)\<rparr>"
      have dqs': "is_deques s3 (dq(v := [] @ [?ch]))" using dqs by simp
      have heap: "sched_heap s4 (dq(v := [?ch]))"
        using promote_heap [of ?s1 dq c t v ?f s3 t3 i "[]"] core1 t(1,2) place(2) half t3(1) i dqs'
        unfolding s4 by (simp add: sched_core_def)
      have W: "worker_ok (workers s4 w)" for w
        using dekker_exception [of s v] sched_coreD(8) [OF core, of v] sched_coreD(8) [OF core1, of w]
        by (simp add: s4 fr advance_head_def worker_ok_def)
      have core4: "sched_core s4 (dq(v := [?ch]))" using heap W by (simp add: sched_core_def)
      have t4: "closures s4 c = Some (adopt i t3)" by (simp add: s4)
      have lk4: "locks_are ws {c} {} s4"
        unfolding s4 by (rule locks_closure [OF lk3 t3(1)]) (simp add: adopt_def)
      let ?s5 = "s4\<lparr>closures := (closures s4)(c \<mapsto> (adopt i t3)\<lparr>mutex_owner := None\<rparr>)\<rparr>"
      have core5: "sched_core ?s5 (dq(v := [?ch]))"
        by (rule sched_core_closure [OF core4 t4]) simp
      have lk5: "locks_are ws {} {} ?s5" using locks_unlock [OF lk4, of c "adopt i t3"] by simp
      have own4: "mutex_owner (adopt i t3) = Some ws" using lk4 t4 by (auto simp: locks_are_def)
      have inv5: "sched_inv (?s5\<lparr>event_count := e\<rparr>) (dq(v := [?ch]))" for e
        using sched_core_event [OF core5] unlockedI [OF locks_event [OF lk5]] by (simp add: sched_inv_def)
      show "wp (bindM (Closure_unlock ws c) (\<lambda>_. bindM (Cilk_event ws EVENT_STEAL) (\<lambda>_. ret (Some c)))) ?Q s4"
        using inv5 own4 t4 u(1) fu f3 chc fr
        by (simp add: wp_bind wp_Closure_unlock wp_event wp_ret s4 adopt_def new_child_def advance_head_def)
    qed
  qed
  have xtract: "wp (deque_xtract_top ws v) (\<lambda>res. wp (bindM (CILK_ASSERT 912 (Some c = res)) (\<lambda>_.
       bindM (deque_unlock ws v) (\<lambda>_.
       bindM (finish_promote ws c ?ch) (\<lambda>_.
       bindM (Closure_unlock ws c) (\<lambda>_.
       bindM (Cilk_event ws EVENT_STEAL) (\<lambda>_.
       ret res)))))) ?Q) s2"
    if dqs: "is_deques s2 (dq(v := dq v @ [?ch]))" and half: "half_promoted ?s1 v ?c0 s2"
      and lk2: "locks_are ws {c} {v} s2" for s2
  proof (rule wp_mono [OF deque_xtract_top_law [OF dqs]])
    show "dq_mutex_owner (deques s2 v) = Some ws" using lk2 by (simp add: locks_are_def)
  next
    fix res s3 assume "res = hd_opt ((dq(v := dq v @ [?ch])) v)
      \<and> is_deques s3 ((dq(v := dq v @ [?ch]))(v := tl ((dq(v := dq v @ [?ch])) v))) \<and> same_core s2 s3"
    then have r: "res = Some c" and dqs3: "is_deques s3 (dq(v := [?ch]))" and q: "same_core s2 s3"
      using single by auto
    let ?s4 = "s3\<lparr>deques := (deques s3)(v := (deques s3 v)\<lparr>dq_mutex_owner := None\<rparr>)\<rparr>"
    have "is_deques ?s4 (dq(v := [?ch]))"
      by (rule same_skeleton_deques [OF _ dqs3]) (simp add: same_skeleton_def)
    moreover have "half_promoted ?s1 v ?c0 ?s4"
      using half_promoted_same_core [OF half q] by (simp add: half_promoted_def)
    moreover have "locks_are ws {c} {} ?s4"
      using locks_dqunlock [OF locks_same_core [OF q lk2], of v] by simp
    ultimately have "wp (finish_promote ws c ?ch) (\<lambda>_. wp (bindM (Closure_unlock ws c) (\<lambda>_.
       bindM (Cilk_event ws EVENT_STEAL) (\<lambda>_. ret (Some c)))) ?Q) ?s4" by (rule finish)
    then show "wp (bindM (CILK_ASSERT 912 (Some c = res)) (\<lambda>_.
       bindM (deque_unlock ws v) (\<lambda>_.
       bindM (finish_promote ws c ?ch) (\<lambda>_.
       bindM (Closure_unlock ws c) (\<lambda>_.
       bindM (Cilk_event ws EVENT_STEAL) (\<lambda>_.
       ret res)))))) ?Q s3"
      by (simp add: wp_bind wp_assert wp_deque_unlock r)
  qed
  show ?thesis
  proof (rule wp_callI [OF promote_child_law [OF sched_coreD(1) [OF core1] own(2)]])
    fix ch s2
    assume "ch = next_cid ?s1 \<and> is_deques s2 (dq(v := dq v @ [ch]))
       \<and> half_promoted ?s1 v (new_child c v (stack (wcache (workers ?s1 v)) (Suc (head (wcache (workers ?s1 v)))))) s2
       \<and> (\<forall>L D. locks_are ws L D ?s1 \<longrightarrow> ch \<notin> L \<longrightarrow> locks_are ws L D s2)"
    then have "ch = ?ch" and s2: "ch = ?ch" "is_deques s2 (dq(v := dq v @ [ch]))" "half_promoted ?s1 v ?c0 s2"
      "locks_are ws {c} {v} s2" using lk1 chc by auto
    show "wp (bindM (deque_xtract_top ws v) (\<lambda>res.
       bindM (CILK_ASSERT 912 (Some c = res)) (\<lambda>_.
       bindM (deque_unlock ws v) (\<lambda>_.
       bindM (finish_promote ws c ch) (\<lambda>_.
       bindM (Closure_unlock ws c) (\<lambda>_.
       bindM (Cilk_event ws EVENT_STEAL) (\<lambda>_.
       ret res))))))) ?Q s2"
      unfolding wp_bind [of "deque_xtract_top ws v"] s2(1) by (rule xtract [OF s2(2-4) [unfolded s2(1)]])
  qed (use t own place sched_coreD(4,8) [OF core1] in simp_all)
qed

text \<open>Giving up: both locks are returned and the closures are as they were.\<close>

lemma steal_give_up_law:
  assumes core: "sched_core s dq" and c: "closures s c = Some t" "mutex_owner t = None"
    and lk: "locks_are ws {} {} s"
  shows "wp (steal_give_up ws c v) (\<lambda>r s'. r = None \<and> sched_inv s' dq \<and> closures s' = closures s)
    (s\<lparr>deques := (deques s)(v := (deques s v)\<lparr>dq_mutex_owner := Some ws\<rparr>),
       closures := (closures s)(c \<mapsto> t\<lparr>mutex_owner := Some ws\<rparr>)\<rparr>)"
proof -
  let ?s1 = "s\<lparr>deques := (deques s)(v := (deques s v)\<lparr>dq_mutex_owner := Some ws\<rparr>),
       closures := (closures s)(c \<mapsto> t\<lparr>mutex_owner := Some ws\<rparr>)\<rparr>"
  have core1: "sched_core ?s1 dq"
    using sched_core_closure [OF sched_core_dqlock [where p = v and m = "Some ws", OF core],
        where c = c and t = t and t' = "t\<lparr>mutex_owner := Some ws\<rparr>"] c by simp
  have lk1: "locks_are ws {c} {v} ?s1" using locks_lock [OF locks_dqlock [OF lk, of v], of c t] by simp
  have t1: "closures ?s1 c = Some (t\<lparr>mutex_owner := Some ws\<rparr>)" by simp
  have "closures (left v c ?s1) = closures s" using c by (simp add: left_def fun_upd_idem)
  then show ?thesis
    unfolding steal_give_up_def
    by (intro wp_leave_ret [OF lk1 _ t1]) (use left_inv [OF core1 lk1 t1] in simp_all)
qed

lemma steal_ready:
  assumes core: "sched_core s dq" and lk: "locks_are ws {c} {v} s"
    and t: "closures s c = Some t" "status t = CLOSURE_READY" "hd_opt (dq v) = Some c"
  shows "wp (bindM (deque_xtract_top ws v) (\<lambda>res.
       bindM (CILK_ASSERT 893 (Some c = res)) (\<lambda>_.
       bindM (Closure_unlock ws c) (\<lambda>_.
       bindM (deque_unlock ws v) (\<lambda>_.
       ret res)))))
     (\<lambda>r s'. r = Some c \<and> sched_inv s' (dq(v := tl (dq v)))
        \<and> (\<exists>t'. closures s' c = Some t' \<and> status t' = CLOSURE_READY \<and> join_counter t' = join_counter t)) s"
proof (rule wp_callI [OF deque_xtract_top_law [OF sched_coreD(1) [OF core]]])
  show "dq_mutex_owner (deques s v) = Some ws" using lk by (simp add: locks_are_def)
next
  fix res s2 assume a: "res = hd_opt (dq v) \<and> is_deques s2 (dq(v := tl (dq v))) \<and> same_core s s2"
  then have r: "res = Some c" and dqs: "is_deques s2 (dq(v := tl (dq v)))" and q: "same_core s s2"
    using t(3) by auto
  have st: "status_ok (dq(v := tl (dq v))) d u \<and> inlets_ok u" if d: "closures s d = Some u" for d u
  proof (cases "d = c")
    case True
    then show ?thesis using d t sched_coreD(6) [OF core d] by (simp add: status_ok_def)
  next
    case False
    then show ?thesis
      using status_ok_tl [OF sched_coreD(1) [OF core] sched_coreD(5) [OF core d] t(3)]
        sched_coreD(6) [OF core d] by blast
  qed
  have core2: "sched_core s2 (dq(v := tl (dq v)))"
    by (rule sched_core_move [OF dqs q sched_coreD(2,4,8) [OF core] st])
  have lk2: "locks_are ws {c} {v} s2" by (rule locks_same_core [OF q lk])
  obtain t2 where t2: "closures s2 c = Some t2" "core t2 = core t" using same_core_closure [OF q t(1)] by blast
  have "wp (bindM (Closure_unlock ws c) (\<lambda>_. bindM (deque_unlock ws v) (\<lambda>_. ret (Some c))))
     (\<lambda>r s'. r = Some c \<and> sched_inv s' (dq(v := tl (dq v)))
        \<and> (\<exists>t'. closures s' c = Some t' \<and> status t' = CLOSURE_READY \<and> join_counter t' = join_counter t)) s2"
    by (rule wp_leave_ret [OF lk2 _ t2(1)])
      (use left_inv [OF core2 lk2 t2(1)] t2 core_fields [OF t2(2)] t in simp_all)
  then show "wp (bindM (CILK_ASSERT 893 (Some c = res)) (\<lambda>_. bindM (Closure_unlock ws c) (\<lambda>_.
       bindM (deque_unlock ws v) (\<lambda>_. ret res))))
     (\<lambda>r s'. r = Some c \<and> sched_inv s' (dq(v := tl (dq v)))
        \<and> (\<exists>t'. closures s' c = Some t' \<and> status t' = CLOSURE_READY \<and> join_counter t' = join_counter t)) s2"
    by (simp add: wp_bind wp_assert r)
qed

text \<open>
  The whole protocol. \<open>spawnable s dq v\<close>: if the thief can win against the worker, the head frame of
  the worker is at a spawn its signature describes.
\<close>

definition spawnable :: "Rts \<Rightarrow> (wid \<Rightarrow> cid list) \<Rightarrow> wid \<Rightarrow> bool" where
  "spawnable s dq v \<longleftrightarrow> (\<forall>c t. hd_opt (dq v) = Some c \<longrightarrow> closures s c = Some t \<longrightarrow>
     status t = CLOSURE_RUNNING \<longrightarrow> head (wcache (workers s v)) + 1 < tail (wcache (workers s v)) \<longrightarrow>
     valid_spawn s t)"

definition stolen :: "Rts \<Rightarrow> (wid \<Rightarrow> cid list) \<Rightarrow> wid \<Rightarrow> cid \<Rightarrow> Rts \<Rightarrow> bool" where
  "stolen s dq v c s' \<longleftrightarrow> (\<exists>t t'. closures s c = Some t \<and> closures s' c = Some t' \<and> status t' = CLOSURE_READY
     \<and> (if status t = CLOSURE_READY
        then join_counter t' = join_counter t \<and> sched_inv s' (dq(v := tl (dq v)))
        else join_counter t' = join_counter t + 1 \<and> sched_inv s' (dq(v := [next_cid s]))
          \<and> head (wcache (workers s' v)) = head (wcache (workers s v)) + 1
          \<and> (\<exists>u. closures s' (next_cid s) = Some u \<and> status u = CLOSURE_RUNNING \<and> parent u = Some c
               \<and> frame u = Some (stack (wcache (workers s v)) (head (wcache (workers s v)) + 1)))))"

definition steal_post :: "Rts \<Rightarrow> (wid \<Rightarrow> cid list) \<Rightarrow> wid \<Rightarrow> cid option \<Rightarrow> Rts \<Rightarrow> bool" where
  "steal_post s dq v r s' \<longleftrightarrow> r = steal_target s dq v
     \<and> (case r of None \<Rightarrow> sched_inv s' dq \<and> closures s' = closures s | Some c \<Rightarrow> stolen s dq v c s')"

lemma steal_post_event [simp]: "steal_post (s\<lparr>event_count := e\<rparr>) = steal_post s"
proof -
  have "steal_target (s\<lparr>event_count := e\<rparr>) dq v = steal_target s dq v" for dq v
    by (simp add: steal_target_def split: option.split)
  moreover have "stolen (s\<lparr>event_count := e\<rparr>) dq v c s' = stolen s dq v c s'" for dq v c s'
    by (simp add: stolen_def cong: if_cong)
  ultimately show ?thesis by (simp add: fun_eq_iff steal_post_def split: option.split)
qed

lemma steal_from_law:
  assumes core: "sched_core s dq" and lk: "locks_are ws {} {} s" and c: "hd_opt (dq v) = Some c"
    and sp: "spawnable s dq v"
  shows "wp (steal_from ws v c) (steal_post s dq v)
     (s\<lparr>deques := (deques s)(v := (deques s v)\<lparr>dq_mutex_owner := Some ws\<rparr>)\<rparr>)"
proof -
  let ?bump = "\<lambda>e s. s\<lparr>event_count := (event_count s)(ws := (event_count s ws)(e := Suc (event_count s ws e)))\<rparr>"
  have mem: "c \<in> set (dq v)" using c by (cases "dq v") auto
  obtain t where t: "closures s c = Some t"
    using is_deques_member [OF sched_coreD(1) [OF core] mem] by auto
  have tn: "mutex_owner t = None" using lk t by (simp add: locks_are_def)
  let ?t2 = "t\<lparr>mutex_owner := Some ws\<rparr>"
  let ?s2 = "s\<lparr>deques := (deques s)(v := (deques s v)\<lparr>dq_mutex_owner := Some ws\<rparr>),
       closures := (closures s)(c \<mapsto> ?t2)\<rparr>"
  have t2: "closures ?s2 c = Some ?t2" by simp
  have core2: "sched_core ?s2 dq"
    using sched_core_closure [OF sched_core_dqlock [where p = v and m = "Some ws", OF core],
        where c = c and t = t and t' = ?t2] t by simp
  have lk2: "locks_are ws {c} {v} ?s2" using locks_lock [OF locks_dqlock [OF lk, of v], of c t] by simp
  have give_up: "wp (steal_give_up ws c v) (steal_post s dq v) (?bump e ?s2)" if "steal_target s dq v = None" for e
  proof -
    have "sched_core (?bump e s) dq" by (rule sched_core_event [OF core])
    moreover have "locks_are ws {} {} (?bump e s)" by (rule locks_event [OF lk])
    ultimately have "wp (steal_give_up ws c v) (\<lambda>r s'. r = None \<and> sched_inv s' dq \<and> closures s' = closures s) (?bump e ?s2)"
      using steal_give_up_law [of "?bump e s" dq c t ws v] t tn by simp
    then show ?thesis by (rule wp_mono) (use that in \<open>simp add: steal_post_def\<close>)
  qed
  show ?thesis
  proof (cases "abort_status t = NO_ABORT")
    case False
    then have "steal_target s dq v = None" using c t by (simp add: steal_target_def)
    from give_up [OF this, of EVENT_STEAL_ABORT] False t tn show ?thesis
      by (simp add: steal_from_def wp_bind wp_Closure_lock wp_Closure_being_aborted wp_event)
  next
    case True
    note reduce = steal_from_def wp_bind wp_Closure_lock wp_Closure_being_aborted wp_event wp_getC
    show ?thesis
    proof (cases "status t")
      case CLOSURE_SUSPENDED
      then show ?thesis using sched_coreD(5) [OF core t] mem by (auto simp: status_ok_def)
    next
      case CLOSURE_RETURNING
      then have "steal_target s dq v = None" using c t by (simp add: steal_target_def)
      from give_up [OF this, of EVENT_STEAL_RETURNING] True t tn CLOSURE_RETURNING show ?thesis
        by (simp add: reduce)
    next
      case CLOSURE_READY
      have "wp (bindM (deque_xtract_top ws v) (\<lambda>res.
           bindM (CILK_ASSERT 893 (Some c = res)) (\<lambda>_.
           bindM (Closure_unlock ws c) (\<lambda>_.
           bindM (deque_unlock ws v) (\<lambda>_.
           ret res))))) (steal_post s dq v) (?bump EVENT_STEAL ?s2)"
        by (rule wp_mono [OF steal_ready [OF sched_core_event [OF core2] locks_event [OF lk2], where t = ?t2]])
          (use CLOSURE_READY True c t in \<open>auto simp: steal_post_def steal_target_def stolen_def\<close>)
      with True t tn CLOSURE_READY show ?thesis by (simp add: reduce)
    next
      case CLOSURE_RUNNING
      have place: "cache t = Some v" using running_place [OF core t CLOSURE_RUNNING mem] by simp
      let ?won = "head (wcache (workers s v)) + 1 < tail (wcache (workers s v))"
      have dek: "wp (do_dekker_on ws c) (\<lambda>won s'. won = ?won \<and> s' = (if won then dekker v ?s2 else ?s2)) ?s2"
        using do_dekker_law [OF t2, of ws v] CLOSURE_RUNNING place by simp
      show ?thesis
      proof (cases ?won)
        case False
        then have "steal_target s dq v = None" using c t CLOSURE_RUNNING by (simp add: steal_target_def)
        note g = give_up [OF this, of EVENT_STEAL_NO_DEKKER]
        have "wp (do_dekker_on ws c) (\<lambda>won. wp (bindM (Cilk_event ws EVENT_STEAL_NO_DEKKER) (\<lambda>_.
             steal_give_up ws c v)) (steal_post s dq v)) ?s2"
          by (rule wp_mono [OF dek]) (use g False in \<open>simp add: wp_bind wp_event\<close>)
        then have "wp (do_dekker_on ws c) (\<lambda>won. wp (if won then X else bindM (Cilk_event ws EVENT_STEAL_NO_DEKKER) (\<lambda>_.
             steal_give_up ws c v)) (steal_post s dq v)) ?s2" for X
          by (rule wp_mono [OF wp_conj [OF dek]]) (use False in auto)
        with True t tn CLOSURE_RUNNING show ?thesis by (simp add: reduce)
      next
        case won: True
        have tgt: "steal_target s dq v = Some c"
          using c t CLOSURE_RUNNING True won by (simp add: steal_target_def)
        have v2: "valid_spawn ?s2 ?t2"
          using sp c t CLOSURE_RUNNING won by (simp add: spawnable_def valid_spawn_def)
        let ?k = "bindM (promote_child ws c v) (\<lambda>child.
             bindM (deque_xtract_top ws v) (\<lambda>res.
             bindM (CILK_ASSERT 912 (Some c = res)) (\<lambda>_.
             bindM (deque_unlock ws v) (\<lambda>_.
             bindM (finish_promote ws c child) (\<lambda>_.
             bindM (Closure_unlock ws c) (\<lambda>_.
             bindM (Cilk_event ws EVENT_STEAL) (\<lambda>_.
             ret res)))))))"
        have "wp ?k (steal_post s dq v) (dekker v ?s2)"
          by (rule wp_mono [OF steal_running [OF core2 lk2 t2 _ c v2]])
            (use CLOSURE_RUNNING tgt t in \<open>auto simp: steal_post_def stolen_def\<close>)
        then have "wp (do_dekker_on ws c) (\<lambda>won. wp (if won then ?k else Y) (steal_post s dq v)) ?s2" for Y
          by (intro wp_mono [OF dek]) (use won in auto)
        with True t tn CLOSURE_RUNNING show ?thesis
          by (simp add: steal_from_def wp_bind [of "Closure_lock ws c"] wp_bind [of "Closure_being_aborted ws c"]
              wp_bind [of "getC c"] wp_bind [of "do_dekker_on ws c"] wp_Closure_lock wp_Closure_being_aborted wp_getC)
      qed
    qed
  qed
qed

lemma Closure_steal_law:
  assumes inv: "sched_inv s dq" and sp: "spawnable s dq v"
  shows "wp (Closure_steal ws v) (steal_post s dq v) s"
proof -
  let ?bump = "\<lambda>e s. s\<lparr>event_count := (event_count s)(ws := (event_count s ws)(e := Suc (event_count s ws e)))\<rparr>"
  let ?s0 = "?bump EVENT_STEAL_ATTEMPT s"
  let ?s1 = "?s0\<lparr>deques := (deques s)(v := (deques s v)\<lparr>dq_mutex_owner := Some ws\<rparr>)\<rparr>"
  have core0: "sched_core ?s0 dq" using inv sched_core_event by (simp add: sched_inv_def)
  have lk0: "locks_are ws {} {} ?s0" using inv locks_event [OF unlockedD] by (simp add: sched_inv_def)
  have dqs1: "is_deques ?s1 dq"
    using sched_coreD(1) [OF sched_core_dqlock [OF core0, of v "Some ws"]] by simp
  have free: "dq_mutex_owner (deques s v) = None" using inv by (simp add: sched_inv_def unlocked_def)
  have peek: "wp (deque_peek_top ws v) Q ?s1 = Q (hd_opt (dq v)) ?s1" for Q
    by (rule wp_peek_top [OF dqs1]) simp
  note reduce = Closure_steal_def wp_bind wp_event wp_deque_lock wp_deque_unlock wp_ret
  show ?thesis
  proof (cases "hd_opt (dq v)")
    case None
    have "sched_core (?bump EVENT_STEAL_EMPTY_DEQUE ?s0) dq" by (rule sched_core_event [OF core0])
    moreover have "unlocked (?bump EVENT_STEAL_EMPTY_DEQUE ?s0)" by (rule unlockedI [OF locks_event [OF lk0]])
    moreover have "(deques s)(v := (deques s v)\<lparr>dq_mutex_owner := None\<rparr>) = deques s" using free by auto
    ultimately show ?thesis
      using None free peek by (simp add: reduce steal_post_def steal_target_def sched_inv_def)
  next
    case (Some c)
    have "wp (steal_from ws v c) (steal_post ?s0 dq v) ?s1"
      using steal_from_law [OF core0 lk0 Some] sp by (simp add: spawnable_def valid_spawn_def)
    then have "wp (steal_from ws v c) (steal_post s dq v) ?s1" by simp
    then show ?thesis using Some free peek by (simp add: reduce)
  qed
qed

end
