(* ===== verification/Rts_Return.thy ===== *)
theory Rts_Return
  imports Rts_Handlers
begin

section \<open>The return protocol\<close>

text \<open>
  \<open>Closure_return\<close> hands the value of a finished closure to its parent, and gives the parent to the
  caller when it was suspended and this was its last child (the provably good steal).
\<close>

lemma remove_inlet_law:
  assumes "Some ch \<in> set (map ic_this xs)"
  obtains i ps where "remove_inlet ch xs = Some (i, ps)" "ic_this i = Some ch" "i \<in> set xs"
    "length xs = Suc (length ps)" "set ps \<subseteq> set xs"
    "map ic_this ps = remove1 (Some ch) (map ic_this xs)"
  using assms
proof (induction xs arbitrary: thesis)
  case (Cons j js)
  show ?case
  proof (cases "ic_this j = Some ch")
    case True
    then show ?thesis by (intro Cons.prems(1) [of j js]) auto
  next
    case False
    then obtain i ps where "remove_inlet ch js = Some (i, ps)" "ic_this i = Some ch" "i \<in> set js"
      "length js = Suc (length ps)" "set ps \<subseteq> set js" "map ic_this ps = remove1 (Some ch) (map ic_this js)"
      using Cons.IH Cons.prems(2) by auto
    with False show ?thesis by (intro Cons.prems(1) [of i "j # ps"]) auto
  qed
qed simp

text \<open>The child has no parent but the one it points to, and it is listed there.\<close>

lemma child_listed:
  "tree_ok h \<Longrightarrow> h c = Some t \<Longrightarrow> parent t = Some p \<Longrightarrow>
   p < c \<and> (\<exists>u. h p = Some u \<and> Some c \<in> set (child_ids u))"
  using tree_okD by (fastforce simp: node_ok_def)

lemma listed_child:
  assumes "tree_ok h" "h p = Some u" "Some c \<in> set (child_ids u)"
  shows "\<exists>t. h c = Some t \<and> parent t = Some p"
  using tree_okD [OF assms(1,2)] assms(3) unfolding node_ok_def by blast

text \<open>
  What the return leaves of the invariant: \<open>s'\<close> is \<open>s\<close> without the child, up to fields the invariant
  does not mention, and with the parent's list and counter adjusted.
\<close>

lemma return_core:
  assumes core: "sched_core s dq"
    and c: "closures s ch = Some c" "status c = CLOSURE_RETURNING" "\<And>w. ch \<notin> set (dq w)" "parent c = Some pa"
    and p: "closures s pa = Some p" "remove_inlet ch (incomplete_inlets p) = Some (i, ps)"
    and gone: "closures s' ch = None"
    and p': "closures s' pa = Some p'" "join_counter p' = join_counter p - 1" "incomplete_inlets p' = ps"
      "parent p' = parent p" "owner_ready_deque p' = owner_ready_deque p" "next_ready p' = next_ready p"
      "prev_ready p' = prev_ready p" "status_ok dq pa p'"
    and oth: "\<And>d. d \<noteq> ch \<Longrightarrow> d \<noteq> pa \<Longrightarrow> map_option skeleton (closures s' d) = map_option skeleton (closures s d)"
    and D: "\<And>q. dq_top (deques s' q) = dq_top (deques s q) \<and> dq_bottom (deques s' q) = dq_bottom (deques s q)"
    and N: "next_cid s' = next_cid s" and W: "\<And>w. worker_ok (workers s' w)"
  shows "sched_core s' dq"
proof -
  have ok: "tree_ok (closures s)" by (rule sched_coreD(2) [OF core])
  have np: "node_ok (closures s) pa p" by (rule tree_okD [OF ok p(1)])
  have ids0: "Some ch \<in> set (child_ids p)" using child_listed [OF ok c(1,4)] p(1) by auto
  then obtain i' ps' where r: "remove_inlet ch (incomplete_inlets p) = Some (i', ps')"
      "length (incomplete_inlets p) = Suc (length ps')" "set ps' \<subseteq> set (incomplete_inlets p)"
      "map ic_this ps' = remove1 (Some ch) (map ic_this (incomplete_inlets p))"
    unfolding child_ids_def by (rule remove_inlet_law)
  have ps: "length (incomplete_inlets p) = Suc (length ps)" "set ps \<subseteq> set (incomplete_inlets p)"
      "child_ids p' = remove1 (Some ch) (child_ids p)"
    using r p(2) p'(3) by (auto simp: child_ids_def)
  have nochild: "parent u \<noteq> Some ch" if "closures s d = Some u" for d u
  proof
    assume "parent u = Some ch"
    then have "Some d \<in> set (child_ids c)" using child_listed [OF ok that] c(1) by auto
    moreover have "join_counter c = 0" using sched_coreD(5) [OF core c(1)] c(2) by (simp add: status_ok_def)
    ultimately show False using tree_okD [OF ok c(1)] by (auto simp: node_ok_def child_ids_def)
  qed
  have ne: "pa \<noteq> ch" using child_listed [OF ok c(1,4)] by auto
  have old: "\<exists>t. closures s d = Some t \<and> skeleton t' = skeleton t" if "closures s' d = Some t'" "d \<noteq> pa" for d t'
  proof -
    have "d \<noteq> ch" using that gone by auto
    from oth [OF this that(2)] that(1) show ?thesis by (cases "closures s d") auto
  qed
  have new: "\<exists>t'. closures s' d = Some t' \<and> parent t' = parent t \<and>
      (d \<noteq> pa \<longrightarrow> skeleton t' = skeleton t)" if "closures s d = Some t" "d \<noteq> ch" for d t
  proof (cases "d = pa")
    case True
    then show ?thesis using p' p(1) that by simp
  next
    case False
    from oth [OF that(2) this] that(1) obtain t' where "closures s' d = Some t'" "skeleton t' = skeleton t"
      by (cases "closures s' d") auto
    with skeleton_fields(3) [of t' t] show ?thesis by auto
  qed
  have node: "node_ok (closures s') d t'" if d: "closures s' d = Some t'" for d t'
  proof -
    have dch: "d \<noteq> ch" using d gone by auto
    obtain t where t: "closures s d = Some t" "parent t' = parent t" "set (child_ids t') \<subseteq> set (child_ids t)"
      "distinct (child_ids t')" "join_counter t' = int (length (incomplete_inlets t'))" "Some ch \<notin> set (child_ids t')"
    proof (cases "d = pa")
      case True
      with d p' have "t' = p'" by simp
      with True p(1) p' ps np that show ?thesis
        by (intro that [of p]) (auto simp: node_ok_def set_remove1_eq dest: set_mp [OF set_remove1_subset])
    next
      case False
      obtain t where t: "closures s d = Some t" "skeleton t' = skeleton t" using old [OF d False] by blast
      note n = tree_okD [OF ok t(1), unfolded node_ok_def, folded child_ids_length]
      note f = skeleton_fields [OF t(2)]
      have "Some ch \<notin> set (child_ids t)"
        using listed_child [OF ok t(1), of ch] c(1,4) False by auto
      with n f show ?thesis by (intro that [OF t(1)]) (simp_all add: child_ids_length [symmetric])
    qed
    have "\<exists>e u. x = Some e \<and> closures s' e = Some u \<and> parent u = Some d" if "x \<in> set (child_ids t')" for x
    proof -
      have "x \<in> set (child_ids t)" using that t(3) by auto
      then obtain e u where e: "x = Some e" "closures s e = Some u" "parent u = Some d"
        using tree_okD [OF ok t(1)] unfolding node_ok_def by blast
      moreover have "e \<noteq> ch" using e that t(6) by auto
      ultimately show ?thesis using new [of e u] by auto
    qed
    moreover have "q < d \<and> (\<exists>u. closures s' q = Some u \<and> Some d \<in> set (child_ids u))" if q: "parent t' = Some q" for q
    proof -
      have "parent t = Some q" using q t(2) by simp
      from child_listed [OF ok t(1) this] obtain u where u: "q < d" "closures s q = Some u" "Some d \<in> set (child_ids u)" by blast
      have "q \<noteq> ch" using nochild [OF t(1)] \<open>parent t = Some q\<close> by auto
      show ?thesis
      proof (cases "q = pa")
        case True
        then have "Some d \<in> set (child_ids p')" using u p(1) ps(3) dch by (simp add: in_set_remove1)
        with True p'(1) u(1) show ?thesis by auto
      next
        case False
        with new [OF u(2) \<open>q \<noteq> ch\<close>] obtain u' where "closures s' q = Some u'" "skeleton u' = skeleton u" by auto
        with u skeleton_fields(2) [of u' u] show ?thesis by auto
      qed
    qed
    ultimately show ?thesis using t(4,5) by (simp add: node_ok_def)
  qed
  have dqs0: "is_deques s dq" by (rule sched_coreD(1) [OF core])
  have dqs: "is_deques s' dq"
    unfolding is_deques_def
  proof (intro conjI allI impI)
    fix q
    have links: "dq_links (closures s) q (dq q)" by (rule is_dequesD(4) [OF dqs0])
    have "dq_links (closures s') q (dq q)"
      unfolding dq_links_def
    proof (intro allI impI)
      fix k assume k: "k < length (dq q)"
      with links obtain t where t: "closures s (dq q ! k) = Some t" "owner_ready_deque t = Some q"
        "prev_ready t = (if k = 0 then None else Some (dq q ! (k - 1)))"
        "next_ready t = (if Suc k < length (dq q) then Some (dq q ! Suc k) else None)"
        unfolding dq_links_def by blast
      have "dq q ! k \<noteq> ch" using c(3) [of q] k by auto
      then obtain t' where t': "closures s' (dq q ! k) = Some t'" "owner_ready_deque t' = owner_ready_deque t"
        "next_ready t' = next_ready t" "prev_ready t' = prev_ready t"
      proof (cases "dq q ! k = pa")
        case True
        then show ?thesis using p' p(1) t(1) by (intro that [of p']) auto
      next
        case False
        with new [OF t(1) \<open>dq q ! k \<noteq> ch\<close>] obtain t' where "closures s' (dq q ! k) = Some t'" "skeleton t' = skeleton t" by auto
        with skeleton_fields [of t' t] show ?thesis by (intro that [of t']) simp_all
      qed
      with t show "\<exists>t. closures s' (dq q ! k) = Some t \<and> owner_ready_deque t = Some q
        \<and> prev_ready t = (if k = 0 then None else Some (dq q ! (k - 1)))
        \<and> next_ready t = (if Suc k < length (dq q) then Some (dq q ! Suc k) else None)" by simp
    qed
    then show "is_deque s' q (dq q)"
      using is_dequesD [OF dqs0, of q] D by (simp add: is_deque_def)
  next
    fix d t' q assume d: "closures s' d = Some t'"
    obtain t where "closures s d = Some t" "owner_ready_deque t' = owner_ready_deque t"
    proof (cases "d = pa")
      case True
      then show ?thesis using p' p(1) d by (intro that [of p]) auto
    next
      case False
      with old [OF d] obtain t where "closures s d = Some t" "skeleton t' = skeleton t" by blast
      with skeleton_fields [of t' t] show ?thesis by (intro that [of t]) simp_all
    qed
    with is_deques_owner [OF dqs0] show "(owner_ready_deque t' = Some q) = (d \<in> set (dq q))" by simp
  qed
  show ?thesis
    unfolding sched_core_def sched_heap_def
  proof (intro conjI allI impI dqs W)
    show "tree_ok (closures s')" using node by (simp add: tree_ok_def)
    show "young s'"
      unfolding young_def N
    proof (intro allI impI)
      fix d assume "closures s' d \<noteq> None"
      then have "closures s d \<noteq> None" using old p(1) by (cases "d = pa") auto
      then show "d < next_cid s" using sched_coreD(4) [OF core] by (simp add: young_def)
    qed
    fix d t' assume d: "closures s' d = Some t'"
    have "status_ok dq d t' \<and> inlets_ok t'"
    proof (cases "d = pa")
      case True
      have "inlets_ok p'" using sched_coreD(6) [OF core p(1)] ps(2) p'(3) by (auto simp: inlets_ok_def)
      with True d p' show ?thesis by simp
    next
      case False
      obtain t where t: "closures s d = Some t" "skeleton t' = skeleton t" using old [OF d False] by blast
      with sched_coreD(5,6) [OF core t(1)] skeleton_fields [OF t(2)]
      show ?thesis by (simp add: status_ok_def split: ClosureStatus.splits)
    qed
    then show "status_ok dq d t'" "inlets_ok t'" by simp_all
  qed
qed

subsection \<open>The pieces of the protocol\<close>

text \<open>The inlet with the child's value in it, and the parent with the inlet queued.\<close>

definition filled :: "Closure \<Rightarrow> InletClosure \<Rightarrow> InletClosure" where
  "filled c i = (if return_size c \<noteq> 0
     then i\<lparr>ic_inlet_args := take (return_size c) (return_value c) @ drop (return_size c) (ic_inlet_args i)\<rparr>
     else i)"

definition emptied :: "Closure \<Rightarrow> Closure" where
  "emptied c = (if return_size c \<noteq> 0 then c\<lparr>return_value := [], return_size := 0\<rparr> else c)"

definition enqueued :: "Closure \<Rightarrow> InletClosure \<Rightarrow> Closure \<Rightarrow> Closure" where
  "enqueued c i p = (if abort_status c \<noteq> NO_ABORT then p
     else p\<lparr>complete_inlets := filled c i # complete_inlets p\<rparr>)"

lemma emptied_fields [simp]:
  "mutex_owner (emptied c) = mutex_owner c" "abort_status (emptied c) = abort_status c"
  "malloced (emptied c) = malloced c" "incomplete_inlets (emptied c) = incomplete_inlets c"
  by (simp_all add: emptied_def)

lemma enqueued_fields [simp]:
  "mutex_owner (enqueued c i p) = mutex_owner p" "status (enqueued c i p) = status p"
  "cache (enqueued c i p) = cache p" "incomplete_inlets (enqueued c i p) = incomplete_inlets p"
  "join_counter (enqueued c i p) = join_counter p" "parent (enqueued c i p) = parent p"
  "abort_status (enqueued c i p) = abort_status p"
  by (simp_all add: enqueued_def)

lemma complete_and_enque_law:
  assumes p: "closures s pa = Some p" "mutex_owner p = Some ws" and c: "closures s ch = Some c" "mutex_owner c = Some ws"
    and ne: "pa \<noteq> ch" and fit: "return_size c \<le> ic_argsize i" "inlet_ok i"
  shows "wp (complete_and_enque_inlet ws pa ch i) (\<lambda>_ s'. s' = s
     \<lparr>event_count := (event_count s)(ws := (event_count s ws)(EVENT_RETURN_ENQUEUE := Suc (event_count s ws EVENT_RETURN_ENQUEUE))),
      closures := (closures s)(ch \<mapsto> emptied c, pa \<mapsto> enqueued c i p)\<rparr>) s"
proof (cases "return_size c = 0")
  case True
  have "(closures s)(ch \<mapsto> c, pa \<mapsto> p) = closures s" using p c by auto
  moreover have "(closures s)(ch \<mapsto> c) = closures s" using c by auto
  ultimately show ?thesis
    using p c True
    by (simp add: complete_and_enque_inlet_def wp_simps emptied_def enqueued_def filled_def)
next
  case False
  then have "ic_inlet_args i \<noteq> []" using fit by (auto simp: inlet_ok_def)
  moreover have "(closures s)(ch \<mapsto> emptied c, pa \<mapsto> p) = (closures s)(ch \<mapsto> emptied c)" using p ne by auto
  ultimately show ?thesis
    using p c ne fit False
    by (simp add: complete_and_enque_inlet_def wp_simps emptied_def enqueued_def filled_def fun_upd_twist)
qed

lemma kids_ok_upd:
  assumes k: "kids_ok h" and t: "h c = Some t" "set (child_ids t') \<subseteq> set (child_ids t)"
  shows "kids_ok (h(c \<mapsto> t'))"
  unfolding kids_ok_def
proof (intro allI impI ballI)
  fix d u x assume u: "(h(c \<mapsto> t')) d = Some u" and x: "x \<in> set (child_ids u)"
  have "\<exists>v. h d = Some v \<and> x \<in> set (child_ids v)"
    using u x t by (cases "d = c") auto
  then obtain e w where "x = Some e" "h e = Some w" "d < e" using kids_okD [OF k] by blast
  then show "\<exists>e w. x = Some e \<and> (h(c \<mapsto> t')) e = Some w \<and> d < e"
    by (cases "e = c") auto
qed

lemma pollable_upd:
  assumes "pollable ws s cl" "closures s cl = Some t"
    and "child_ids t' = child_ids t" "mutex_owner t' = mutex_owner t" "status t' = status t" "cache t' = cache t"
  shows "pollable ws (s\<lparr>closures := (closures s)(cl \<mapsto> t')\<rparr>) cl"
proof -
  let ?h = "(closures s)(cl \<mapsto> t')"
  have rel: "child_rel ?h = child_rel (closures s)"
    using assms(2,3) by (auto simp: child_rel_def split: if_splits)
  have k: "kids_ok ?h"
    using assms(1) kids_ok_upd [of "closures s" cl t t'] assms(2,3) by (simp add: pollable_def)
  have "cl \<notin> descendants (closures s) cl"
    using assms(1) descendants_younger by (fastforce simp: pollable_def)
  then have "abortable (s\<lparr>closures := ?h\<rparr>) (descendants ?h cl)"
    using assms(1) by (auto simp: pollable_def abortable_def descendants_def rel)
  with k assms show ?thesis by (auto simp: pollable_def young_def)
qed

lemma provably_good_law:
  assumes p: "closures s pa = Some p" "mutex_owner p = Some ws" and pol: "pollable ws s pa"
    and own: "status p = CLOSURE_SUSPENDED \<Longrightarrow> owner_ready_deque p = None"
  shows "wp (provably_good_steal_maybe ws pa)
    (\<lambda>r s'. if join_counter p = 0 \<and> status p = CLOSURE_SUSPENDED
       then r = Some pa \<and> (\<exists>s1 p1 e. quiet {pa} s s1 \<and> closures s1 pa = Some p1 \<and> complete_inlets p1 = []
          \<and> s' = s1\<lparr>event_count := e, closures := (closures s1)(pa \<mapsto> p1\<lparr>cache := None, status := CLOSURE_READY\<rparr>)\<rparr>)
       else r = None \<and> s' = s) s"
proof (cases "join_counter p = 0 \<and> status p = CLOSURE_SUSPENDED")
  case False
  with p show ?thesis
    by (auto simp: provably_good_steal_maybe_def wp_simps)
next
  case True
  have sh: "shallow s pa" using p True by (simp add: shallow_def)
  let ?Q = "\<lambda>r s'. r = Some pa \<and> (\<exists>s1 p1 e. quiet {pa} s s1 \<and> closures s1 pa = Some p1 \<and> complete_inlets p1 = []
          \<and> s' = s1\<lparr>event_count := e, closures := (closures s1)(pa \<mapsto> p1\<lparr>cache := None, status := CLOSURE_READY\<rparr>)\<rparr>)"
  have "wp (poll_inlets ws pa) (\<lambda>_. wp (bindM (Cilk_event ws EVENT_PROVABLY_GOOD_STEAL) (\<lambda>_.
       bindM (getC pa) (\<lambda>p.
       bindM (CILK_ASSERT 1142 (owner_ready_deque p = None)) (\<lambda>_.
       bindM (Closure_make_ready pa) (\<lambda>_.
       ret (Some pa)))))) ?Q) s"
  proof (rule wp_mono [OF poll_inlets_shallow [OF pol sh]])
    fix a s1 assume a: "quiet {pa} s s1 \<and> (\<exists>t'. closures s1 pa = Some t' \<and> complete_inlets t' = []
        \<and> abort_status t' \<noteq> ALMOST_NO_ABORT)"
    then obtain p1 where p1: "closures s1 pa = Some p1" "complete_inlets p1 = []" and q: "quiet {pa} s s1" by blast
    have "owner_ready_deque p1 = None"
      using quietD [OF q p(1)] p1(1) calm_fields(12) [of p1 p] own True by auto
    with p1 q show "wp (bindM (Cilk_event ws EVENT_PROVABLY_GOOD_STEAL) (\<lambda>_.
       bindM (getC pa) (\<lambda>p.
       bindM (CILK_ASSERT 1142 (owner_ready_deque p = None)) (\<lambda>_.
       bindM (Closure_make_ready pa) (\<lambda>_.
       ret (Some pa)))))) ?Q s1"
      by (simp add: wp_bind wp_event wp_getC wp_assert Closure_make_ready_def wp_updC wp_ret) blast
  qed
  with True p show ?thesis
    by (simp add: provably_good_steal_maybe_def wp_bind wp_Closure_assert_ownership wp_Closure_has_children wp_getC)
qed

text \<open>
  The child, in no deque and marked returning, is known to its parent, which has a frame and a
  receiver that is large enough for the value.
\<close>

definition returnable :: "Rts \<Rightarrow> (wid \<Rightarrow> cid list) \<Rightarrow> cid \<Rightarrow> Closure \<Rightarrow> cid \<Rightarrow> Closure \<Rightarrow> bool" where
  "returnable s dq ch c pa p \<longleftrightarrow> closures s ch = Some c \<and> status c = CLOSURE_RETURNING
     \<and> (\<forall>w. ch \<notin> set (dq w)) \<and> \<not> malloced c
     \<and> parent c = Some pa \<and> closures s pa = Some p \<and> valid_frame s p
     \<and> (\<forall>i \<in> set (incomplete_inlets p). ic_this i = Some ch \<longrightarrow> return_size c \<le> ic_argsize i)"

definition returned_parent :: "Rts \<Rightarrow> wid \<Rightarrow> cid \<Rightarrow> Closure \<Rightarrow> Closure \<Rightarrow> Closure \<Rightarrow> bool" where
  "returned_parent s ws ch c p p' \<longleftrightarrow>
     join_counter p' = join_counter p - 1
     \<and> status p' = (if status p = CLOSURE_SUSPENDED \<and> join_counter p = 1 then CLOSURE_READY else status p)
     \<and> (\<exists>i ps. remove_inlet ch (incomplete_inlets p) = Some (i, ps) \<and> incomplete_inlets p' = ps
          \<and> complete_inlets p' = (if status p = CLOSURE_RUNNING then complete_inlets (enqueued c i p) else []))
     \<and> cp p' = max (cp p) (cp_hack (workers s ws)) \<and> work p' = work p + work_hack (workers s ws)"

text \<open>From the moment the inlet is queued: poll or signal, account, count down, perhaps take the parent.\<close>

definition return_tail :: "wid \<Rightarrow> cid \<Rightarrow> cid \<Rightarrow> ClosureStatus \<Rightarrow> cid option rts" where
  "return_tail ws child pa st =
     bindM
       (if st = CLOSURE_RUNNING then signal_immediate_exception ws pa
        else poll_inlets ws pa) (\<lambda>_.
     bindM (getM (\<lambda>s. workers s ws)) (\<lambda>w.
     bindM (updC pa (\<lambda>t. t\<lparr>cp := max (cp t) (cp_hack w), work := work t + work_hack w\<rparr>)) (\<lambda>_.
     bindM (getC pa) (\<lambda>p.
     bindM (CILK_ASSERT 1213 (0 < join_counter p)) (\<lambda>_.
     bindM (updC pa (join_counter_update (\<lambda>j. j - 1))) (\<lambda>_.
     bindM (provably_good_steal_maybe ws pa) (\<lambda>res.
     bindM (Closure_unlock ws pa) (\<lambda>_.
     bindM (Closure_unlock ws child) (\<lambda>_.
     bindM (Closure_destroy ws child) (\<lambda>_.
     ret res))))))))))"

lemma return_signal:
  assumes pol: "pollable ws s pa" and p: "closures s pa = Some p"
  shows "wp (if status p = CLOSURE_RUNNING then signal_immediate_exception ws pa else poll_inlets ws pa)
    (\<lambda>_ s'. quiet {pa} s s' \<and> (\<exists>p'. closures s' pa = Some p'
       \<and> complete_inlets p' = (if status p = CLOSURE_RUNNING then complete_inlets p else []))) s"
proof (cases "status p = CLOSURE_RUNNING")
  case True
  then obtain w where w: "cache p = Some w" "mutex_owner p = Some ws" using pol p by (auto simp: pollable_def)
  have "quiet {pa} s (upd_cache w (exception_update (\<lambda>_. \<infinity>)) s)"
    by (simp add: quiet_def same_cache_def upd_cache_def)
  with True p w show ?thesis by (simp add: wp_signal_immediate_exception)
next
  case False
  then have "shallow s pa" using p by (simp add: shallow_def)
  from poll_inlets_shallow [OF pol this] False show ?thesis
    by (auto elim!: wp_mono)
qed

lemma wp_return_account:
  assumes "closures s pa = Some p" "0 < join_counter p"
    and "wp (k ()) Q (s\<lparr>closures := (closures s)(pa \<mapsto> p\<lparr>cp := max (cp p) (cp_hack (workers s ws)),
      work := work p + work_hack (workers s ws), join_counter := join_counter p - 1\<rparr>)\<rparr>)"
  shows "wp (bindM (getM (\<lambda>s. workers s ws)) (\<lambda>w.
     bindM (updC pa (\<lambda>t. t\<lparr>cp := max (cp t) (cp_hack w), work := work t + work_hack w\<rparr>)) (\<lambda>_.
     bindM (getC pa) (\<lambda>p.
     bindM (CILK_ASSERT 1213 (0 < join_counter p)) (\<lambda>_.
     bindM (updC pa (join_counter_update (\<lambda>j. j - 1))) k))))) Q s"
  using assms by (cases p) (simp add: wp_bind wp_get wp_updC wp_getC wp_assert)

lemma return_tail_law:
  assumes pol: "pollable ws s pa" and p: "closures s pa = Some p" and j: "0 < join_counter p"
    and own: "status p = CLOSURE_SUSPENDED \<Longrightarrow> owner_ready_deque p = None"
    and c: "closures s ch = Some c" "mutex_owner c = Some ws" "\<not> malloced c" and ne: "pa \<noteq> ch"
  shows "wp (return_tail ws ch pa (status p))
    (\<lambda>r s'. r = (if status p = CLOSURE_SUSPENDED \<and> join_counter p = 1 then Some pa else None)
       \<and> closures s' ch = None
       \<and> (\<exists>p'. closures s' pa = Some p' \<and> join_counter p' = join_counter p - 1
            \<and> status p' = (if r = None then status p else CLOSURE_READY) \<and> (r = None \<longrightarrow> cache p' = cache p)
            \<and> incomplete_inlets p' = incomplete_inlets p \<and> parent p' = parent p \<and> mutex_owner p' = None
            \<and> owner_ready_deque p' = owner_ready_deque p \<and> next_ready p' = next_ready p \<and> prev_ready p' = prev_ready p
            \<and> complete_inlets p' = (if status p = CLOSURE_RUNNING then complete_inlets p else [])
            \<and> cp p' = max (cp p) (cp_hack (workers s ws)) \<and> work p' = work p + work_hack (workers s ws))
       \<and> (\<forall>d. d \<noteq> ch \<longrightarrow> d \<noteq> pa \<longrightarrow> map_option calm (closures s' d) = map_option calm (closures s d))
       \<and> deques s' = deques s \<and> next_cid s' = next_cid s
       \<and> (\<forall>w. same_cache (workers s w) (workers s' w))) s"
    (is "wp _ ?Q s")
proof -
  have pm: "mutex_owner p = Some ws" using pol p by (auto simp: pollable_def)
  let ?k = "\<lambda>_. bindM (getM (\<lambda>s. workers s ws)) (\<lambda>w.
     bindM (updC pa (\<lambda>t. t\<lparr>cp := max (cp t) (cp_hack w), work := work t + work_hack w\<rparr>)) (\<lambda>_.
     bindM (getC pa) (\<lambda>p.
     bindM (CILK_ASSERT 1213 (0 < join_counter p)) (\<lambda>_.
     bindM (updC pa (join_counter_update (\<lambda>j. j - 1))) (\<lambda>_.
     bindM (provably_good_steal_maybe ws pa) (\<lambda>res.
     bindM (Closure_unlock ws pa) (\<lambda>_.
     bindM (Closure_unlock ws ch) (\<lambda>_.
     bindM (Closure_destroy ws ch) (\<lambda>_.
     ret res)))))))))"
  have "wp (?k ()) ?Q s1"
    if q: "quiet {pa} s s1" and p1: "closures s1 pa = Some p1"
      "complete_inlets p1 = (if status p = CLOSURE_RUNNING then complete_inlets p else [])" for s1 p1
  proof -
    have cp1: "calm p1 = calm p" using quietD [OF q p] p1(1) by auto
    note f1 = calm_fields [OF cp1]
    obtain c1 where c1: "closures s1 ch = Some c1" "calm c1 = calm c" using quietD [OF q c(1)] by blast
    note g1 = calm_fields [OF c1(2)]
    have wk: "cp_hack (workers s1 ws) = cp_hack (workers s ws)" "work_hack (workers s1 ws) = work_hack (workers s ws)"
      using quiet_fields(9) [OF q, of ws] by (simp_all add: same_cache_def)
    let ?p2 = "p1\<lparr>cp := max (cp p) (cp_hack (workers s ws)), work := work p + work_hack (workers s ws),
       join_counter := join_counter p - 1\<rparr>"
    let ?s2 = "s1\<lparr>closures := (closures s1)(pa \<mapsto> ?p2)\<rparr>"
    have pol2: "pollable ws ?s2 pa"
      by (rule pollable_upd [OF quiet_pollable [OF q pol] p1(1)]) (simp_all add: child_ids_def)
    have p2: "closures ?s2 pa = Some ?p2" "mutex_owner ?p2 = Some ws" using f1 pm by simp_all
    have own2: "owner_ready_deque ?p2 = None" if "status ?p2 = CLOSURE_SUSPENDED" using that own f1 by simp
    let ?fin = "\<lambda>res. bindM (Closure_unlock ws pa) (\<lambda>_.
     bindM (Closure_unlock ws ch) (\<lambda>_.
     bindM (Closure_destroy ws ch) (\<lambda>_.
     ret res)))"
    have fin: "wp (?fin res) ?Q sa"
      if res: "res = (if status p = CLOSURE_SUSPENDED \<and> join_counter p = 1 then Some pa else None)"
        and s3: "quiet {pa} ?s2 sb" "deques sa = deques sb" "next_cid sa = next_cid sb" "workers sa = workers sb"
          "\<And>d. d \<noteq> pa \<Longrightarrow> closures sa d = closures sb d"
        and p3: "closures sa pa = Some pz" "status pz = (if res = None then status p else CLOSURE_READY)"
          "res = None \<longrightarrow> cache pz = cache p" "calm (pz\<lparr>status := status p, cache := cache p\<rparr>) = calm ?p2"
          "complete_inlets pz = complete_inlets p1" for res sa sb pz
    proof -
      note f3 = calm_fields [OF p3(4)]
      obtain c3 where c3: "closures sa ch = Some c3" "calm c3 = calm c1"
        using quietD [OF s3(1), of ch c1] c1(1) ne s3(5) [of ch] by auto
      note g3 = calm_fields [OF c3(2)]
      have oth: "map_option calm (closures sa d) = map_option calm (closures s d)" if "d \<noteq> pa" for d
      proof -
        have "map_option calm (closures sb d) = map_option calm (closures ?s2 d)"
          using s3(1) by (simp add: quiet_def)
        moreover have "map_option calm (closures s1 d) = map_option calm (closures s d)"
          using q by (simp add: quiet_def)
        ultimately show ?thesis using that s3(5) [OF that] by simp
      qed
      have W: "same_cache (workers s w) (workers sa w)" for w
        using same_cache_trans [OF quiet_fields(9) [OF q] quiet_fields(9) [OF s3(1), of w, simplified]] s3(4) by simp
      have "deques sa = deques s" "next_cid sa = next_cid s"
        using s3(2,3) quiet_fields(1,3) [OF s3(1)] quiet_fields(1,3) [OF q] by simp_all
      with oth W ne p3 f3 f1 c3 g3 g1 c pm p1(2) res show ?thesis
        by (simp add: wp_bind wp_Closure_unlock Closure_destroy_def wp_Closure_checkmagic wp_getC wp_assert
            freeC_def wp_modify wp_ret)
    qed
    have "wp (provably_good_steal_maybe ws pa) (\<lambda>res. wp (?fin res) ?Q) ?s2"
    proof (rule wp_mono [OF provably_good_law [OF p2 pol2 own2]])
      fix r s3
      assume r: "if join_counter ?p2 = 0 \<and> status ?p2 = CLOSURE_SUSPENDED
       then r = Some pa \<and> (\<exists>s1 p1 e. quiet {pa} ?s2 s1 \<and> closures s1 pa = Some p1 \<and> complete_inlets p1 = []
          \<and> s3 = s1\<lparr>event_count := e, closures := (closures s1)(pa \<mapsto> p1\<lparr>cache := None, status := CLOSURE_READY\<rparr>)\<rparr>)
       else r = None \<and> s3 = ?s2"
      show "wp (?fin r) ?Q s3"
      proof (cases "join_counter p = 1 \<and> status p = CLOSURE_SUSPENDED")
        case True
        then obtain s4 p4 e where r': "r = Some pa" and q4: "quiet {pa} ?s2 s4"
          and p4: "closures s4 pa = Some p4" "complete_inlets p4 = []"
          and s3: "s3 = s4\<lparr>event_count := e, closures := (closures s4)(pa \<mapsto> p4\<lparr>cache := None, status := CLOSURE_READY\<rparr>)\<rparr>"
          using r f1 by auto
        have "calm p4 = calm ?p2" using quietD [OF q4 p2(1)] p4(1) by auto
        then have c4: "calm (p4\<lparr>status := status p, cache := cache p\<rparr>) = calm (?p2\<lparr>status := status p, cache := cache p\<rparr>)"
          by (cases p4; cases p1) (simp add: calm_def)
        have "calm (?p2\<lparr>status := status p, cache := cache p\<rparr>) = calm ?p2"
          using f1(3,9) by (cases p1) (simp add: calm_def)
        with c4 show ?thesis
          by (intro fin [of r s4 s3 "p4\<lparr>cache := None, status := CLOSURE_READY\<rparr>"])
            (use True r' q4 p4 p1(2) s3 in \<open>auto simp: calm_def\<close>)
      next
        case False
        then have r': "r = None" "s3 = ?s2" using r f1 by auto
        have "calm (?p2\<lparr>status := status p, cache := cache p\<rparr>) = calm ?p2"
          using f1(3,9) by (cases p1) (simp add: calm_def)
        then show ?thesis
          by (intro fin [of r ?s2 s3 ?p2]) (use False r' f1 in auto)
      qed
    qed
    then show ?thesis
      by (intro wp_return_account [OF p1(1)]) (use j f1 wk in \<open>simp_all add: wp_bind\<close>)
  qed
  then show ?thesis
    unfolding return_tail_def by (intro wp_callI [OF return_signal [OF pol p]]) blast
qed

subsection \<open>The whole protocol\<close>

lemma Closure_return_unfold:
  "Closure_return ws child =
     bindM (getC child) (\<lambda>c.
     bindM (CILK_ASSERT 1164 (join_counter c = 0)) (\<lambda>_.
     bindM (CILK_ASSERT 1165 (status c = CLOSURE_RETURNING)) (\<lambda>_.
     bindM (CILK_ASSERT 1166 (owner_ready_deque c = None)) (\<lambda>_.
     bindM (Closure_assert_alienation ws child) (\<lambda>_.
     bindM (CILK_ASSERT 1170 (parent c \<noteq> None)) (\<lambda>_.
     bindM (deref (parent c)) (\<lambda>pa.
     bindM (Closure_lock ws pa) (\<lambda>_.
     bindM (getC pa) (\<lambda>p.
     bindM (CILK_ASSERT 1180 (status p \<noteq> CLOSURE_RETURNING)) (\<lambda>_.
     bindM (CILK_ASSERT 1181 (frame p \<noteq> None)) (\<lambda>_.
     bindM (deref (frame p)) (\<lambda>f.
     bindM (getF f) (\<lambda>fr.
     bindM (CILK_ASSERT 1182 (frame_magic fr)) (\<lambda>_.
     bindM (Closure_remove_child ws pa child) (\<lambda>inlet.
     bindM (Closure_lock ws child) (\<lambda>_.
     bindM (complete_and_enque_inlet ws pa child inlet) (\<lambda>_.
     return_tail ws child pa (status p))))))))))))))))))"
  by (simp add: Closure_return_def return_tail_def)

lemma pollable_without_child:
  assumes core: "sched_core s dq" and ul: "unlocked s"
    and c: "closures s ch = Some c" "parent c = Some pa" and p: "closures s pa = Some p" "join_counter c = 0"
    and h: "h = (closures s)(ch \<mapsto> c', pa \<mapsto> p')"
    and c': "child_ids c' = child_ids c"
    and p': "child_ids p' = remove1 (Some ch) (child_ids p)" "mutex_owner p' = Some ws"
      "status p' = status p" "cache p' = cache p"
    and s': "closures s' = h" "next_cid s' = next_cid s"
  shows "pollable ws s' pa"
proof -
  have ok: "tree_ok (closures s)" by (rule sched_coreD(2) [OF core])
  have ne: "pa \<noteq> ch" using child_listed [OF ok c] by auto
  have k: "kids_ok h"
    unfolding h using kids_ok_upd [OF kids_ok_upd [OF sched_coreD(3) [OF core], of ch c c'], of pa p p'] c c' p p' ne
      set_remove1_subset [of "Some ch" "child_ids p"] by simp
  have sub: "child_rel h \<subseteq> child_rel (closures s)"
    using c(1) c' p(1) p'(1) ne by (auto simp: child_rel_def h split: if_splits dest: set_mp [OF set_remove1_subset])
  have "distinct (child_ids p)" using tree_okD [OF ok p(1)] by (simp add: node_ok_def)
  then have noch: "(q, ch) \<notin> child_rel h" for q
    using listed_child [OF ok] c p'(1) c'
    by (fastforce simp: child_rel_def h split: if_splits dest: set_mp [OF set_remove1_subset])
  have mono: "descendants h pa \<subseteq> descendants (closures s) pa"
    unfolding descendants_def using trancl_mono [OF _ sub] by blast
  have notch: "ch \<notin> descendants h pa"
    unfolding descendants_def using noch by (auto dest: tranclD2)
  have notpa: "pa \<notin> descendants h pa" using descendants_younger [OF k] by blast
  have "abortable s' (descendants h pa)"
    unfolding abortable_def s'
  proof
    fix d assume d: "d \<in> descendants h pa"
    then obtain u where u: "closures s d = Some u" using descendants_alive [OF sched_coreD(3) [OF core]] mono by blast
    have "status u = CLOSURE_RUNNING \<longrightarrow> cache u \<noteq> None"
      using sched_coreD(5) [OF core u] by (auto simp: status_ok_def)
    moreover have "mutex_owner u = None" using ul u by (simp add: unlocked_def)
    moreover have "h d = Some u" using u d notch notpa by (auto simp: h)
    ultimately show "\<exists>u. h d = Some u \<and> mutex_owner u = None \<and> (status u = CLOSURE_RUNNING \<longrightarrow> cache u \<noteq> None)"
      by blast
  qed
  moreover have "young s'"
    using sched_coreD(4) [OF core] c(1) p(1) unfolding young_def s' h by auto
  moreover have "status p = CLOSURE_RUNNING \<longrightarrow> cache p \<noteq> None"
    using sched_coreD(5) [OF core p(1)] by (auto simp: status_ok_def)
  ultimately show ?thesis using k p' s' by (auto simp: pollable_def h)
qed

lemma Closure_return_law:
  assumes inv: "sched_inv s dq" and ret: "returnable s dq ch c pa p"
  shows "wp (Closure_return ws ch)
    (\<lambda>r s'. r = (if status p = CLOSURE_SUSPENDED \<and> join_counter p = 1 then Some pa else None)
       \<and> sched_inv s' dq \<and> closures s' ch = None
       \<and> (\<exists>p'. closures s' pa = Some p' \<and> returned_parent s ws ch c p p')) s"
    (is "wp _ ?Q s")
proof -
  have core: "sched_core s dq" and ul: "unlocked s" using inv by (auto simp: sched_inv_def)
  have c: "closures s ch = Some c" "status c = CLOSURE_RETURNING" "\<And>w. ch \<notin> set (dq w)" "parent c = Some pa"
    "\<not> malloced c" and p: "closures s pa = Some p" "valid_frame s p"
    and fit: "\<And>i. i \<in> set (incomplete_inlets p) \<Longrightarrow> ic_this i = Some ch \<Longrightarrow> return_size c \<le> ic_argsize i"
    using ret by (auto simp: returnable_def)
  have ok: "tree_ok (closures s)" by (rule sched_coreD(2) [OF core])
  have listed: "Some ch \<in> set (child_ids p)" and ne: "pa \<noteq> ch" using child_listed [OF ok c(1,4)] p(1) by auto
  obtain i ps where r: "remove_inlet ch (incomplete_inlets p) = Some (i, ps)" "ic_this i = Some ch"
    "i \<in> set (incomplete_inlets p)" "length (incomplete_inlets p) = Suc (length ps)"
    "map ic_this ps = remove1 (Some ch) (map ic_this (incomplete_inlets p))"
    using listed unfolding child_ids_def by (rule remove_inlet_law)
  have np: "node_ok (closures s) pa p" by (rule tree_okD [OF ok p(1)])
  have jp: "0 < join_counter p" using np r(4) by (simp add: node_ok_def)
  have jc: "join_counter c = 0" using sched_coreD(5) [OF core c(1)] c(2) by (simp add: status_ok_def)
  have stp: "status p \<noteq> CLOSURE_RETURNING"
    using sched_coreD(5) [OF core p(1)] jp by (auto simp: status_ok_def)
  have mn: "mutex_owner p = None" "mutex_owner c = None" using ul p(1) c(1) by (auto simp: unlocked_def)
  have oc: "owner_ready_deque c = None"
    using is_deques_owner [OF sched_coreD(1) [OF core] c(1)] c(3) by (cases "owner_ready_deque c") auto
  obtain f fr where fr: "frame p = Some f" "frames s f = Some fr" "frame_magic fr" using p(2) by (auto simp: valid_frame_def)
  have io: "inlet_ok i" using sched_coreD(6) [OF core p(1)] r(3) by (simp add: inlets_ok_def)
  let ?p1 = "p\<lparr>mutex_owner := Some ws, incomplete_inlets := ps\<rparr>"
  let ?c1 = "c\<lparr>mutex_owner := Some ws\<rparr>"
  let ?s1 = "s\<lparr>closures := (closures s)(pa \<mapsto> ?p1, ch \<mapsto> ?c1)\<rparr>"
  let ?p2 = "enqueued ?c1 i ?p1"
  let ?s2 = "s\<lparr>event_count := (event_count s)(ws := (event_count s ws)(EVENT_RETURN_ENQUEUE := Suc (event_count s ws EVENT_RETURN_ENQUEUE))),
      closures := (closures s)(ch \<mapsto> emptied ?c1, pa \<mapsto> ?p2)\<rparr>"
  have pol: "pollable ws ?s2 pa"
    by (rule pollable_without_child [OF core ul c(1,4) p(1) jc, where h = "closures ?s2" and c' = "emptied ?c1" and p' = ?p2])
      (simp_all add: child_ids_def r(5))
  have own2: "owner_ready_deque ?p2 = None" if "status ?p2 = CLOSURE_SUSPENDED"
  proof -
    have "status p = CLOSURE_SUSPENDED" using that by simp
    then have "owner_ready_deque p = None"
      using sched_coreD(5) [OF core p(1)] is_deques_owner [OF sched_coreD(1) [OF core] p(1)]
      by (cases "owner_ready_deque p") (auto simp: status_ok_def)
    then show ?thesis by (simp add: enqueued_def)
  qed
  have tail: "wp (return_tail ws ch pa (status p)) ?Q ?s2"
  proof (rule wp_mono)
    show "wp (return_tail ws ch pa (status p))
      (\<lambda>r s'. r = (if status ?p2 = CLOSURE_SUSPENDED \<and> join_counter ?p2 = 1 then Some pa else None)
       \<and> closures s' ch = None
       \<and> (\<exists>p'. closures s' pa = Some p' \<and> join_counter p' = join_counter ?p2 - 1
            \<and> status p' = (if r = None then status ?p2 else CLOSURE_READY) \<and> (r = None \<longrightarrow> cache p' = cache ?p2)
            \<and> incomplete_inlets p' = incomplete_inlets ?p2 \<and> parent p' = parent ?p2 \<and> mutex_owner p' = None
            \<and> owner_ready_deque p' = owner_ready_deque ?p2 \<and> next_ready p' = next_ready ?p2 \<and> prev_ready p' = prev_ready ?p2
            \<and> complete_inlets p' = (if status ?p2 = CLOSURE_RUNNING then complete_inlets ?p2 else [])
            \<and> cp p' = max (cp ?p2) (cp_hack (workers ?s2 ws)) \<and> work p' = work ?p2 + work_hack (workers ?s2 ws))
       \<and> (\<forall>d. d \<noteq> ch \<longrightarrow> d \<noteq> pa \<longrightarrow> map_option calm (closures s' d) = map_option calm (closures ?s2 d))
       \<and> deques s' = deques ?s2 \<and> next_cid s' = next_cid ?s2
       \<and> (\<forall>w. same_cache (workers ?s2 w) (workers s' w))) ?s2"
      using return_tail_law [OF pol, of ?p2 ch "emptied ?c1"] jp own2 c(5) ne by simp
  next
    fix r' and s' :: Rts assume A: "r' = (if status ?p2 = CLOSURE_SUSPENDED \<and> join_counter ?p2 = 1 then Some pa else None)
       \<and> closures s' ch = None
       \<and> (\<exists>p'. closures s' pa = Some p' \<and> join_counter p' = join_counter ?p2 - 1
            \<and> status p' = (if r' = None then status ?p2 else CLOSURE_READY) \<and> (r' = None \<longrightarrow> cache p' = cache ?p2)
            \<and> incomplete_inlets p' = incomplete_inlets ?p2 \<and> parent p' = parent ?p2 \<and> mutex_owner p' = None
            \<and> owner_ready_deque p' = owner_ready_deque ?p2 \<and> next_ready p' = next_ready ?p2 \<and> prev_ready p' = prev_ready ?p2
            \<and> complete_inlets p' = (if status ?p2 = CLOSURE_RUNNING then complete_inlets ?p2 else [])
            \<and> cp p' = max (cp ?p2) (cp_hack (workers ?s2 ws)) \<and> work p' = work ?p2 + work_hack (workers ?s2 ws))
       \<and> (\<forall>d. d \<noteq> ch \<longrightarrow> d \<noteq> pa \<longrightarrow> map_option calm (closures s' d) = map_option calm (closures ?s2 d))
       \<and> deques s' = deques ?s2 \<and> next_cid s' = next_cid ?s2
       \<and> (\<forall>w. same_cache (workers ?s2 w) (workers s' w))"
    have e2: "owner_ready_deque ?p2 = owner_ready_deque p" "next_ready ?p2 = next_ready p" "prev_ready ?p2 = prev_ready p"
      "cp ?p2 = cp p" "work ?p2 = work p" "complete_inlets ?p2 = complete_inlets (enqueued c i p)"
      by (simp_all add: enqueued_def filled_def)
    obtain p' where p': "closures s' pa = Some p'" "join_counter p' = join_counter p - 1"
      "status p' = (if r' = None then status p else CLOSURE_READY)" "r' = None \<longrightarrow> cache p' = cache p"
      "incomplete_inlets p' = ps" "parent p' = parent p" "mutex_owner p' = None"
      "owner_ready_deque p' = owner_ready_deque p" "next_ready p' = next_ready p" "prev_ready p' = prev_ready p"
      "complete_inlets p' = (if status p = CLOSURE_RUNNING then complete_inlets (enqueued c i p) else [])"
      "cp p' = max (cp p) (cp_hack (workers s ws))" "work p' = work p + work_hack (workers s ws)"
      using A e2 by auto
    have r'e: "r' = (if status p = CLOSURE_SUSPENDED \<and> join_counter p = 1 then Some pa else None)" using A by simp
    have oth: "map_option calm (closures s' d) = map_option calm (closures s d)" if "d \<noteq> ch" "d \<noteq> pa" for d
      using A that by simp
    have skel: "map_option skeleton (closures s' d) = map_option skeleton (closures s d)" if "d \<noteq> ch" "d \<noteq> pa" for d
    proof (cases "closures s d")
      case None
      then show ?thesis using oth [OF that] by simp
    next
      case (Some t)
      with oth [of d] \<open>d \<noteq> ch\<close> \<open>d \<noteq> pa\<close> obtain t' where "closures s' d = Some t'" "calm t' = calm t" by auto
      with Some calm_fields [of t' t] show ?thesis by (simp add: skeleton_def child_ids_def inlets_ok_def)
    qed
    have W: "worker_ok (workers s' w)" for w
    proof -
      have "same_cache (workers s w) (workers s' w)" using A by simp
      then show ?thesis by (rule same_cache_ok) (rule sched_coreD(8) [OF core])
    qed
    have "status_ok dq pa p'"
      using sched_coreD(5) [OF core p(1)] p' r'e np r(4)
      by (auto simp: status_ok_def node_ok_def split: ClosureStatus.splits if_splits)
    then have core': "sched_core s' dq"
      by (intro return_core [OF core c(1-4) p(1) r(1), where p' = p']) (use A p' skel W in auto)
    have "unlocked s'"
      unfolding unlocked_def
    proof (intro conjI allI impI)
      fix d t' assume d: "closures s' d = Some t'"
      show "mutex_owner t' = None"
      proof (cases "d = pa")
        case True
        with d p' show ?thesis by simp
      next
        case False
        have "d \<noteq> ch" using d A by auto
        from oth [OF this False] d obtain t where "closures s d = Some t" "calm t' = calm t"
          by (cases "closures s d") auto
        with ul calm_fields(1) [of t' t] show ?thesis by (simp add: unlocked_def)
      qed
    next
      show "dq_mutex_owner (deques s' q) = None" for q using A ul by (simp add: unlocked_def)
    qed
    with core' have "sched_inv s' dq" by (simp add: sched_inv_def)
    moreover have "returned_parent s ws ch c p p'"
      unfolding returned_parent_def using p' r(1) r'e by auto
    ultimately show "?Q r' s'" using A p'(1) r'e by blast
  qed
  have enq: "wp (complete_and_enque_inlet ws pa ch i) (\<lambda>_. wp (return_tail ws ch pa (status p)) ?Q) ?s1"
  proof (rule wp_mono)
    show "wp (complete_and_enque_inlet ws pa ch i) (\<lambda>_ s'. s' = ?s1
     \<lparr>event_count := (event_count ?s1)(ws := (event_count ?s1 ws)(EVENT_RETURN_ENQUEUE := Suc (event_count ?s1 ws EVENT_RETURN_ENQUEUE))),
      closures := (closures ?s1)(ch \<mapsto> emptied ?c1, pa \<mapsto> ?p2)\<rparr>) ?s1"
      by (rule complete_and_enque_law) (use ne fit r io in auto)
  next
    fix a s' assume "s' = ?s1
     \<lparr>event_count := (event_count ?s1)(ws := (event_count ?s1 ws)(EVENT_RETURN_ENQUEUE := Suc (event_count ?s1 ws EVENT_RETURN_ENQUEUE))),
      closures := (closures ?s1)(ch \<mapsto> emptied ?c1, pa \<mapsto> ?p2)\<rparr>"
    moreover have "(closures s)(pa \<mapsto> ?p1, ch \<mapsto> ?c1, ch \<mapsto> emptied ?c1, pa \<mapsto> ?p2) = (closures s)(ch \<mapsto> emptied ?c1, pa \<mapsto> ?p2)"
      using ne by (auto simp: fun_eq_iff)
    ultimately have "s' = ?s2" by simp
    with tail show "wp (return_tail ws ch pa (status p)) ?Q s'" by simp
  qed
  then show ?thesis
    unfolding Closure_return_unfold
    using c p(1) fr jc oc mn ne stp r(1) c(4)
    by (simp add: wp_bind wp_getC wp_assert wp_Closure_assert_alienation wp_deref wp_Closure_lock wp_getF
        Closure_remove_child_def wp_Closure_checkmagic wp_Closure_assert_ownership wp_updC wp_ret)
qed

end
