(* ===== verification/Rts_Properties.thy ===== *)
theory Rts_Properties
  imports Rts_Examples Rts_Steal Rts_Return
begin

section \<open>Properties of the scheduler\<close>

text \<open>
  The theorems on the scheduler that stand for the development, each with an instance at the example
  state. Their proofs are those of the component theories.
\<close>

subsection \<open>Deques\<close>

text \<open>
  C10: the owner of a ready deque uses its bottom as a stack: after pushing closures that are in no
  deque and taking as many from the bottom, it has them back in reverse order, no assertion of the
  source failed, and all deques are what they were.
\<close>

theorem owner_pops_what_it_pushed:
  assumes "is_deques s dq" and "deque_owned s ws pn" and "distinct cs"
    and "\<And>c. c \<in> set cs \<Longrightarrow> in_no_deque s c"
  shows "wp (bindM (push_all (\<lambda>c. deque_add_bottom ws c pn) cs)
       (\<lambda>_. take_all (deque_xtract_bottom ws pn) (length cs)))
     (\<lambda>r s'. r = rev cs \<and> is_deques s' dq) s"
  by (rule ready.owner_is_lifo [OF assms])

text \<open>Two ready closures beside the example state, for its deques.\<close>

definition ex_pushing :: Rts where
  "ex_pushing = ex_state\<lparr>closures := (closures ex_state)(7 \<mapsto> ex_blank, 8 \<mapsto> ex_blank),
     deques := (deques ex_state)(0 := (deques ex_state 0)\<lparr>dq_mutex_owner := Some 0\<rparr>)\<rparr>"

lemma ex_pushing: "is_deques ex_pushing ex_deques" "deque_owned ex_pushing 0 0"
  "in_no_deque ex_pushing 7" "in_no_deque ex_pushing 8"
proof -
  show "is_deques ex_pushing ex_deques"
    by (auto simp: is_deques_def is_deque_def dq_links_def ex_pushing_def ex_defs split: if_splits)
qed (simp_all add: deque_owned_def in_no_deque_def ex_pushing_def ex_defs)

theorem owner_pops_what_it_pushed_witness:
  "wp (bindM (push_all (\<lambda>c. deque_add_bottom 0 c 0) [7, 8])
       (\<lambda>_. take_all (deque_xtract_bottom 0 0) 2))
     (\<lambda>r s'. r = [8, 7] \<and> is_deques s' ex_deques) ex_pushing"
  using owner_pops_what_it_pushed [OF ex_pushing(1,2), of "[7, 8]"] ex_pushing(3,4)
  by (auto simp: eval_nat_numeral)

text \<open>
  C11: the thieves see the top of a ready deque as the front of a queue: taking from the top everything
  that is there after the owner has pushed closures at the bottom yields the old members first, then
  the pushed ones in the order they were pushed, and leaves the deque empty and the others alone.
\<close>

theorem thieves_take_the_oldest:
  assumes "is_deques s dq" and "deque_owned s ws pn" and "distinct cs"
    and "\<And>c. c \<in> set cs \<Longrightarrow> in_no_deque s c"
  shows "wp (bindM (push_all (\<lambda>c. deque_add_bottom ws c pn) cs)
       (\<lambda>_. take_all (deque_xtract_top ws pn) (length (dq pn) + length cs)))
     (\<lambda>r s'. r = dq pn @ cs \<and> is_deques s' (dq(pn := []))) s"
  by (rule ready.thief_is_fifo [OF assms])

theorem thieves_take_the_oldest_witness:
  "wp (bindM (push_all (\<lambda>c. deque_add_bottom 0 c 0) [7, 8])
       (\<lambda>_. take_all (deque_xtract_top 0 0) 3))
     (\<lambda>r s'. r = [0, 7, 8] \<and> is_deques s' (ex_deques(0 := []))) ex_pushing"
  using thieves_take_the_oldest [OF ex_pushing(1,2), of "[7, 8]"] ex_pushing(3,4)
  by (auto simp: ex_deques_def eval_nat_numeral)

subsection \<open>Syncing\<close>

text \<open>
  C6: \<open>Cilk_sync\<close>, called by a worker whose bottom closure runs with a single valid frame on the
  stack, fails no assertion, holds no lock afterwards and keeps the scheduler's invariant. It returns
  1 exactly when children are outstanding, and then the closure is suspended and out of the deque;
  otherwise the closure goes on at the bottom of the deque. In both cases no completed inlet is left
  pending and an abort of the closure's own children is over.
\<close>

theorem Cilk_sync_correct:
  assumes "sched_inv s dq" and "runs s dq ws t cl" and "valid_frame s cl" and "at_top s ws"
  shows "wp (Cilk_sync ws)
    (\<lambda>res s'. res = (join_counter cl \<noteq> 0) \<and> sched_inv s' (if res then dq(ws := butlast (dq ws)) else dq)
       \<and> (\<exists>cl'. closures s' t = Some cl' \<and> status cl' = (if res then CLOSURE_SUSPENDED else CLOSURE_RUNNING)
            \<and> join_counter cl' = join_counter cl \<and> complete_inlets cl' = []
            \<and> abort_status cl' \<in> {NO_ABORT, ABORT_ALL})) s"
  by (rule Cilk_sync_law [OF assms])

theorem Cilk_sync_correct_witness:
  "wp (Cilk_sync 0) (\<lambda>res s'. res \<and> sched_inv s' (ex_deques(0 := []))) ex_state"
  by (rule wp_mono [OF Cilk_sync_correct [OF ex_inv ex_runs(1,3,5)]])
    (auto simp: ex_parent_def ex_blank_def ex_deques_def)

subsection \<open>Stealing\<close>

text \<open>
  C7: \<open>Closure_steal\<close>, run against a victim whose top closure has valid frames if it must be split,
  fails no assertion, holds no lock afterwards and keeps the scheduler's invariant. It succeeds exactly
  when the victim's deque is not empty, its top closure is not aborted and is either ready or running
  with at least two frames; the thief then has that closure, ready. A closure that was ready leaves
  the victim's deque with its count unchanged. One that was running gets one more outstanding child:
  a new closure, which runs on the victim in its stead, is the only member of the victim's deque and
  owns the frame above the stolen one, over which the victim's head pointer has moved. A thief that
  gives up has changed no closure.
\<close>

theorem Closure_steal_correct:
  assumes "sched_inv s dq" and "spawnable s dq v"
  shows "wp (Closure_steal ws v)
    (\<lambda>r s'. r = steal_target s dq v \<and>
       (case r of
          None \<Rightarrow> sched_inv s' dq \<and> closures s' = closures s
        | Some c \<Rightarrow> \<exists>t t'. closures s c = Some t \<and> closures s' c = Some t' \<and> status t' = CLOSURE_READY \<and>
            (if status t = CLOSURE_READY
             then join_counter t' = join_counter t \<and> sched_inv s' (dq(v := tl (dq v)))
             else join_counter t' = join_counter t + 1 \<and> sched_inv s' (dq(v := [next_cid s]))
               \<and> head (wcache (workers s' v)) = head (wcache (workers s v)) + 1
               \<and> (\<exists>u. closures s' (next_cid s) = Some u \<and> status u = CLOSURE_RUNNING \<and> parent u = Some c
                    \<and> frame u = Some (stack (wcache (workers s v)) (head (wcache (workers s v)) + 1)))))) s"
  by (rule Closure_steal_law [OF assms, unfolded steal_post_def [abs_def] stolen_def])

lemma ex_steal: "spawnable ex_state ex_deques 1" "steal_target ex_state ex_deques 1 = Some 1"
  by (simp_all add: spawnable_def valid_spawn_def steal_target_def ex_defs)

lemma ex_victim: "closures ex_state 1 = Some ex_child" "next_cid ex_state = 2" "head (wcache (workers ex_state 1)) = 0"
    "stack (wcache (workers ex_state 1)) 1 = 300" "status ex_child = CLOSURE_RUNNING"
  by (simp_all add: ex_defs)

theorem Closure_steal_correct_witness:
  "wp (Closure_steal 0 1) (\<lambda>r s'. r = Some 1 \<and> sched_inv s' (ex_deques(1 := [2]))
     \<and> (\<exists>u. closures s' 2 = Some u \<and> parent u = Some 1 \<and> frame u = Some 300)) ex_state"
  by (rule wp_mono [OF Closure_steal_correct [OF ex_inv ex_steal(1), of 0]])
    (use ex_victim in \<open>auto simp: ex_steal(2) simp del: One_nat_def\<close>)

subsection \<open>Returning\<close>

text \<open>
  C8: \<open>Closure_return\<close>, run for a closure in no deque that waits to return and whose parent has a valid
  frame and room for the value, fails no assertion, holds no lock afterwards and keeps the scheduler's
  invariant. The child is gone from the heap and from its parent's list and count; critical path and
  work are passed on. A running parent has the inlet queued (unless the child was aborted), any other
  has no inlet pending any more. The caller receives the parent, made ready, exactly when it was
  suspended and this was its last child: the provably good steal.
\<close>

theorem Closure_return_correct:
  assumes "sched_inv s dq" and "returnable s dq ch c pa p"
  shows "wp (Closure_return ws ch)
    (\<lambda>r s'. r = (if status p = CLOSURE_SUSPENDED \<and> join_counter p = 1 then Some pa else None)
       \<and> sched_inv s' dq \<and> closures s' ch = None
       \<and> (\<exists>p' i ps. closures s' pa = Some p'
            \<and> join_counter p' = join_counter p - 1
            \<and> status p' = (if status p = CLOSURE_SUSPENDED \<and> join_counter p = 1 then CLOSURE_READY else status p)
            \<and> remove_inlet ch (incomplete_inlets p) = Some (i, ps) \<and> incomplete_inlets p' = ps
            \<and> complete_inlets p' = (if status p = CLOSURE_RUNNING then complete_inlets (enqueued c i p) else [])
            \<and> cp p' = max (cp p) (cp_hack (workers s ws)) \<and> work p' = work p + work_hack (workers s ws))) s"
  by (rule wp_mono [OF Closure_return_law [OF assms]]) (auto simp: returned_parent_def)

text \<open>The example state after worker 0 has suspended closure 0 and worker 1 has finished closure 1.\<close>

definition ex_returning :: Rts where
  "ex_returning = ex_state\<lparr>closures :=
       [0 \<mapsto> ex_parent\<lparr>status := CLOSURE_SUSPENDED, owner_ready_deque := None\<rparr>,
        1 \<mapsto> ex_child\<lparr>status := CLOSURE_RETURNING, owner_ready_deque := None, return_size := 2, return_value := [7, 9]\<rparr>],
     deques := (\<lambda>_. ex_empty)\<rparr>"

lemma ex_returning_inv: "sched_inv ex_returning (\<lambda>_. [])"
  unfolding sched_inv_def sched_core_def sched_heap_def
proof (intro conjI allI impI)
  show "is_deques ex_returning (\<lambda>_. [])"
    by (auto simp: is_deques_def is_deque_def dq_links_def ex_returning_def ex_defs split: if_splits)
  show "tree_ok (closures ex_returning)"
    by (auto simp: tree_ok_def node_ok_def child_ids_def ex_returning_def ex_defs split: if_splits)
  show "young ex_returning" by (auto simp: young_def ex_returning_def ex_defs split: if_splits)
  show "unlocked ex_returning" by (auto simp: unlocked_def ex_returning_def ex_defs split: if_splits)
  show "worker_ok (workers ex_returning w)" for w
    by (simp add: worker_ok_def ex_returning_def ex_defs zero_enat_def)
  show "status_ok (\<lambda>_. []) c t" "inlets_ok t" if "closures ex_returning c = Some t" for c t
    using that by (auto simp: status_ok_def inlets_ok_def inlet_ok_def ex_returning_def ex_defs split: if_splits)
qed

theorem Closure_return_correct_witness:
  "wp (Closure_return 1 1) (\<lambda>r s'. r = Some 0 \<and> sched_inv s' (\<lambda>_. []) \<and> closures s' 1 = None) ex_returning"
proof -
  have "returnable ex_returning (\<lambda>_. []) 1
    (ex_child\<lparr>status := CLOSURE_RETURNING, owner_ready_deque := None, return_size := 2, return_value := [7, 9]\<rparr>)
    0 (ex_parent\<lparr>status := CLOSURE_SUSPENDED, owner_ready_deque := None\<rparr>)"
    by (simp add: returnable_def valid_frame_def ex_returning_def ex_defs)
  from Closure_return_correct [OF ex_returning_inv this, of 1] show ?thesis
    by (rule wp_mono) (simp add: ex_parent_def ex_blank_def)
qed

subsection \<open>Aborting\<close>

text \<open>
  C9: the recursive abort, with as much fuel as there are addresses in use, fails no assertion and
  leaves exactly this: the closure it starts from gets the lower of its abort status and the one asked
  for, its descendants get \<open>ABORT_ALL\<close>, every other closure is as before; the workers that run the
  closure or a descendant find their exception pointer at infinity, the others theirs unchanged, and
  no lock is left behind.
\<close>

theorem abort_reaches_exactly_the_descendants:
  assumes "closures s c = Some t" "mutex_owner t = Some ws" "status t = CLOSURE_RUNNING \<longrightarrow> cache t \<noteq> None"
    and "kids_ok (closures s)" and "abortable s (descendants (closures s) c)"
    and "\<And>d. closures s d \<noteq> None \<Longrightarrow> d < n"
  shows "wp (recursively_signal_abort n ws c st)
    (\<lambda>_ s'. (\<forall>d. closures s' d =
         (if d \<in> descendants (closures s) c then map_option (abort_status_update (\<lambda>_. ABORT_ALL)) (closures s d)
          else if d = c then Some (t\<lparr>abort_status := min st (abort_status t)\<rparr>)
          else closures s d))
       \<and> (\<forall>w. exception (wcache (workers s' w)) =
            (if \<exists>d u. (d = c \<or> d \<in> descendants (closures s) c) \<and> closures s d = Some u
                 \<and> status u = CLOSURE_RUNNING \<and> cache u = Some w
             then \<infinity> else exception (wcache (workers s w))))) s"
proof (rule wp_mono [OF recursively_signal_abort_law [OF assms order.refl]])
  let ?D = "descendants (closures s) c" and ?s1 = "signalled s c st"
  fix a s' assume s': "s' = marked ?s1 ?D"
  have notin: "c \<notin> ?D" using descendants_younger [OF assms(4)] by blast
  have clo: "closures ?s1 = (closures s)(c \<mapsto> t\<lparr>abort_status := min st (abort_status t)\<rparr>)"
    by (simp add: signalled_def assms(1))
  have "closures s' d = (if d \<in> ?D then map_option (abort_status_update (\<lambda>_. ABORT_ALL)) (closures s d)
          else if d = c then Some (t\<lparr>abort_status := min st (abort_status t)\<rparr>) else closures s d)" for d
    using notin by (auto simp: s' mark_heap_def clo)
  moreover have "exception (wcache (workers s' w)) =
            (if \<exists>d u. (d = c \<or> d \<in> ?D) \<and> closures s d = Some u
                 \<and> status u = CLOSURE_RUNNING \<and> cache u = Some w
             then \<infinity> else exception (wcache (workers s w)))" for w
  proof -
    have "w \<in> runners s M \<longleftrightarrow> (\<exists>d u. d \<in> M \<and> closures s d = Some u \<and> status u = CLOSURE_RUNNING \<and> cache u = Some w)" for M
      by (auto simp: runners_def runner_of_def bind_eq_Some_conv split: if_splits)
    moreover have "runners ?s1 ?D = runners s ?D"
      by (rule runners_cong) (simp add: clo assms(1))
    ultimately show ?thesis
      by (auto simp: s' marked_def raise_exceptions_def signalled_def assms(1))
  qed
  ultimately show "(\<forall>d. closures s' d = (if d \<in> ?D then map_option (abort_status_update (\<lambda>_. ABORT_ALL)) (closures s d)
          else if d = c then Some (t\<lparr>abort_status := min st (abort_status t)\<rparr>) else closures s d))
     \<and> (\<forall>w. exception (wcache (workers s' w)) =
            (if \<exists>d u. (d = c \<or> d \<in> ?D) \<and> closures s d = Some u
                 \<and> status u = CLOSURE_RUNNING \<and> cache u = Some w
             then \<infinity> else exception (wcache (workers s w))))" by blast
qed

text \<open>The example state while worker 0 holds the lock of closure 0.\<close>

definition ex_aborting :: Rts where
  "ex_aborting = ex_state\<lparr>closures := (closures ex_state)(0 \<mapsto> ex_parent\<lparr>mutex_owner := Some 0\<rparr>)\<rparr>"

lemma ex_aborting:
  "closures ex_aborting 0 = Some (ex_parent\<lparr>mutex_owner := Some 0\<rparr>)" "closures ex_aborting 1 = Some ex_child"
  "kids_ok (closures ex_aborting)" "\<And>d. closures ex_aborting d \<noteq> None \<Longrightarrow> d < 2"
  "descendants (closures ex_aborting) 0 = {1}" "abortable ex_aborting {1}"
proof -
  have rel: "child_rel (closures ex_aborting) = {(0, 1)}"
    by (auto simp: child_rel_def child_ids_def ex_aborting_def ex_defs split: if_splits)
  have "(0::nat, d) \<in> {(0, 1)}\<^sup>+ \<longleftrightarrow> d = (1::nat)" for d
    by (auto elim: trancl.cases)
  then show "descendants (closures ex_aborting) 0 = {1}" by (simp add: descendants_def rel)
qed (auto simp: kids_ok_def abortable_def child_ids_def ex_aborting_def ex_defs split: if_splits)

theorem abort_reaches_exactly_the_descendants_witness:
  "wp (recursively_signal_abort 2 0 0 ALMOST_NO_ABORT)
    (\<lambda>_ s'. closures s' 1 = Some (ex_child\<lparr>abort_status := ABORT_ALL\<rparr>)
       \<and> exception (wcache (workers s' 1)) = \<infinity>) ex_aborting"
proof (rule wp_mono [OF abort_reaches_exactly_the_descendants [OF ex_aborting(1), where n = 2]])
qed (use ex_aborting in \<open>auto simp: ex_defs\<close>)

end
