(* ===== verification/Rts_Exception.thy ===== *)
theory Rts_Exception
  imports Rts_Steal
begin

section \<open>Aborts from deep in the stack, and the exception handler\<close>

text \<open>
  An inlet that aborts the children of a closure which runs deep in its worker's stack first splits
  the closure, like a thief does but within the same deque: the frames above the closure's own go to
  a new child, which is then aborted with the others. \<open>promoted ws cl dq s s'\<close> describes the outcome,
  from which \<open>Cilk_exception_handler\<close> goes on with the new bottom of the deque.
\<close>

definition promoted :: "wid \<Rightarrow> cid \<Rightarrow> (wid \<Rightarrow> cid list) \<Rightarrow> Rts \<Rightarrow> Rts \<Rightarrow> bool" where
  "promoted ws cl dq s s' \<longleftrightarrow>
     sched_core s' (dq(ws := dq ws @ [next_cid s])) \<and> locks_are ws {cl} {ws} s'
     \<and> frames s' = frames s \<and> next_cid s \<noteq> cl
     \<and> head (wcache (workers s' ws)) = Suc (head (wcache (workers s ws)))
     \<and> tail (wcache (workers s' ws)) = tail (wcache (workers s ws))
     \<and> stack (wcache (workers s' ws)) = stack (wcache (workers s ws))
     \<and> (\<exists>t'. closures s' cl = Some t' \<and> status t' = CLOSURE_READY)
     \<and> (\<exists>u. closures s' (next_cid s) = Some u \<and> status u = CLOSURE_RUNNING \<and> join_counter u = 0
          \<and> frame u = Some (stack (wcache (workers s ws)) (Suc (head (wcache (workers s ws)))))
          \<and> complete_inlets u = [])"

lemma promoted_quiet: "promoted ws cl dq s s' \<Longrightarrow> quiet {cl} s' s'' \<Longrightarrow> promoted ws cl dq s s''"
proof -
  assume p: "promoted ws cl dq s s'" and q: "quiet {cl} s' s''"
  obtain t' where t': "closures s' cl = Some t'" "status t' = CLOSURE_READY" using p by (auto simp: promoted_def)
  obtain u where u: "closures s' (next_cid s) = Some u" "status u = CLOSURE_RUNNING" "join_counter u = 0"
    "frame u = Some (stack (wcache (workers s ws)) (Suc (head (wcache (workers s ws)))))" "complete_inlets u = []"
    using p by (auto simp: promoted_def)
  obtain t'' where "closures s'' cl = Some t''" "calm t'' = calm t'" using quietD [OF q t'(1)] by blast
  moreover obtain u' where "closures s'' (next_cid s) = Some u'" "calm u' = calm u" "complete_inlets u' = []"
    using quietD [OF q u(1)] u(5) p by (auto simp: promoted_def)
  ultimately show ?thesis
    using p t' u calm_fields [of t'' t'] calm_fields [of u' u] quiet_fields [OF q]
      sched_core_quiet [OF q] locks_quiet [OF q]
    by (auto simp: promoted_def same_cache_def)
qed

lemma worker_ok_infinity: "exception (wcache w) = \<infinity> \<Longrightarrow> worker_ok w"
  by (simp add: worker_ok_def)

text \<open>The abort of a split closure: its new child gets the exception, so the cache is in order again.\<close>

lemma abort_promoted:
  assumes heap: "sched_heap s dq'" and lk: "locks_are ws {cl} {ws} s" and t: "closures s cl = Some t"
    and ch: "(cl, ch) \<in> child_rel (closures s)" "closures s ch = Some u" "status u = CLOSURE_RUNNING" "cache u = Some ws"
    and W: "\<And>w. w \<noteq> ws \<Longrightarrow> worker_ok (workers s w)"
  shows "wp (recursively_signal_abort (next_cid s) ws cl ALMOST_NO_ABORT)
    (\<lambda>_ s'. quiet {} s s' \<and> sched_core s' dq') s"
proof -
  have pol: "pollable ws s cl" by (rule pollable_heap [OF heap lk t]) simp
  have own: "mutex_owner t = Some ws" using lk t by (simp add: locks_are_def)
  have run: "status t = CLOSURE_RUNNING \<longrightarrow> cache t \<noteq> None" using pol t by (simp add: pollable_def)
  let ?D = "descendants (closures s) cl" and ?s1 = "signalled s cl ALMOST_NO_ABORT"
  have q: "quiet {} s (marked ?s1 ?D)" by (rule quiet_trans [OF quiet_signalled [OF t] quiet_mark])
  have mem: "ch \<in> ?D" using ch(1) by (auto simp: descendants_def)
  have ne: "ch \<noteq> cl" using child_rel_younger [OF sched_heapD(3) [OF heap] ch(1)] by simp
  have "runner_of u = Some ws" using ch(3,4) by (simp add: runner_of_def)
  moreover have "closures ?s1 ch = Some u" using ch(2) ne t by (simp add: signalled_def)
  ultimately have "Option.bind (closures ?s1 ch) runner_of = Some ws" by simp
  then have "ws \<in> runners ?s1 ?D" unfolding runners_def using mem by blast
  then have ex: "exception (wcache (workers (marked ?s1 ?D) ws)) = \<infinity>"
    by (simp add: marked_def raise_exceptions_def)
  have "worker_ok (workers (marked ?s1 ?D) w)" for w
    
  proof (cases "w = ws")
    case True
    with ex show ?thesis by (simp add: worker_ok_infinity)
  next
    case False
    show ?thesis by (rule same_cache_ok [OF quiet_fields(9) [OF q] W [OF False]])
  qed
  then have core: "sched_core (marked ?s1 ?D) dq'"
    using sched_heap_skeleton [OF heap quiet_skeleton [OF q]] by (simp add: sched_core_def)
  have "wp (recursively_signal_abort (next_cid s) ws cl ALMOST_NO_ABORT) (\<lambda>_ s'. s' = marked ?s1 ?D) s"
    by (rule recursively_signal_abort_law [OF t own run]) (use pol in \<open>auto simp: pollable_def young_def\<close>)
  then show ?thesis by (rule wp_mono) (use q core in simp)
qed

lemma split_law:
  assumes core: "sched_core s dq" and lk: "locks_are ws {cl} {ws} s"
    and t: "closures s cl = Some t" "status t = CLOSURE_RUNNING" "last_opt (dq ws) = Some cl"
    and sp: "valid_spawn s t"
  shows "wp (bindM (promote_child ws cl ws) (\<lambda>child. finish_promote ws cl child))
    (\<lambda>_ s'. sched_heap s' (dq(ws := dq ws @ [next_cid s])) \<and> locks_are ws {cl} {ws} s'
       \<and> workers s' = advance_head ws (workers s) \<and> frames s' = frames s
       \<and> (\<exists>t' u. closures s' cl = Some t' \<and> status t' = CLOSURE_READY \<and> complete_inlets t' = complete_inlets t
            \<and> closures s' (next_cid s) = Some u \<and> (cl, next_cid s) \<in> child_rel (closures s')
            \<and> core u = core (new_child cl ws (stack (wcache (workers s ws)) (Suc (head (wcache (workers s ws)))))))) s"
proof -
  let ?ch = "next_cid s"
  let ?f = "stack (wcache (workers s ws)) (Suc (head (wcache (workers s ws))))"
  let ?c0 = "new_child cl ws ?f"
  have chc: "?ch \<notin> {cl}" using sched_coreD(4) [OF core] t(1) by (auto simp: young_def)
  have own: "mutex_owner t = Some ws" "dq_mutex_owner (deques s ws) = Some ws" using lk t(1) by (auto simp: locks_are_def)
  have ca: "cache t = Some ws" using running_place [OF core t(1,2) last_opt_mem [OF t(3)]] by simp
  show ?thesis
  proof (rule wp_callI [OF promote_child_law [OF sched_coreD(1) [OF core] own(2) t(1) own(1) t(2) ca t(3) sched_coreD(8,4) [OF core]]])
    fix ch s3
    assume "ch = ?ch \<and> is_deques s3 (dq(ws := dq ws @ [ch])) \<and> half_promoted s ws ?c0 s3
       \<and> (\<forall>L D. locks_are ws L D s \<longrightarrow> ch \<notin> L \<longrightarrow> locks_are ws L D s3)"
    then have s3: "ch = ?ch" and dqs: "is_deques s3 (dq(ws := dq ws @ [?ch]))" and half: "half_promoted s ws ?c0 s3"
      and lk3: "locks_are ws {cl} {ws} s3" using lk chc by auto
    obtain t3 where t3: "closures s3 cl = Some t3" "core t3 = core t"
      using half_promotedD(1) [OF half, of cl t] chc t(1) by auto
    obtain u where u: "closures s3 ?ch = Some u" "core u = core ?c0" using half_promoted_child [OF half] by auto
    note f3 = core_fields [OF t3(2)] and fu = core_fields [OF u(2)]
    have fr: "frames s3 = frames s" "workers s3 = advance_head ws (workers s)" using half by (simp_all add: half_promoted_def)
    have "valid_spawn s3 t3" using sp f3 fr by (simp add: valid_spawn_def)
    moreover have "mutex_owner t3 = Some ws" "mutex_owner u \<noteq> Some ws" using lk3 t3(1) u(1) chc by (auto simp: locks_are_def)
    ultimately have fin: "wp (finish_promote ws cl ?ch) (\<lambda>_ s'. \<exists>i. ic_this i = Some ?ch \<and> inlet_ok i
     \<and> s' = s3\<lparr>closures := (closures s3)(cl \<mapsto> adopt i t3)\<rparr>) s3"
      by (intro finish_promote_law [OF t3(1) _ _ u(1)])
    have heap: "sched_heap (s3\<lparr>closures := (closures s3)(cl \<mapsto> adopt i t3)\<rparr>) (dq(ws := dq ws @ [?ch]))"
      if "ic_this i = Some ?ch" "inlet_ok i" for i
      using promote_heap [of s dq cl t ws ?f s3 t3 i "dq ws"] core t half t3(1) that dqs by (simp add: sched_core_def)
    have lk4: "locks_are ws {cl} {ws} (s3\<lparr>closures := (closures s3)(cl \<mapsto> adopt i t3)\<rparr>)" for i
      by (rule locks_closure [OF lk3 t3(1)]) (simp add: adopt_def)
    have rel: "(cl, ?ch) \<in> child_rel ((closures s3)(cl \<mapsto> adopt i t3))" if "ic_this i = Some ?ch" for i
      using that u(1) chc by (auto simp: child_rel_def child_ids_def adopt_def)
    show "wp (finish_promote ws cl ch)
      (\<lambda>_ s'. sched_heap s' (dq(ws := dq ws @ [?ch])) \<and> locks_are ws {cl} {ws} s'
       \<and> workers s' = advance_head ws (workers s) \<and> frames s' = frames s
       \<and> (\<exists>t' u. closures s' cl = Some t' \<and> status t' = CLOSURE_READY \<and> complete_inlets t' = complete_inlets t
            \<and> closures s' ?ch = Some u \<and> (cl, ?ch) \<in> child_rel (closures s') \<and> core u = core ?c0)) s3"
      unfolding s3
    proof (rule wp_mono [OF fin], elim exE conjE)
      fix a s4 i assume i: "ic_this i = Some ?ch" "inlet_ok i" and s4: "s4 = s3\<lparr>closures := (closures s3)(cl \<mapsto> adopt i t3)\<rparr>"
      from heap [OF i] lk4 [of i] rel [OF i(1)] fr u chc f3
      show "sched_heap s4 (dq(ws := dq ws @ [?ch])) \<and> locks_are ws {cl} {ws} s4
       \<and> workers s4 = advance_head ws (workers s) \<and> frames s4 = frames s
       \<and> (\<exists>t' u. closures s4 cl = Some t' \<and> status t' = CLOSURE_READY \<and> complete_inlets t' = complete_inlets t
            \<and> closures s4 ?ch = Some u \<and> (cl, ?ch) \<in> child_rel (closures s4) \<and> core u = core ?c0)"
        by (simp add: s4 adopt_def)
    qed
  qed
qed

lemma promoted_after_quiet: "quiet X s s1 \<Longrightarrow> promoted ws cl dq s1 s2 \<Longrightarrow> promoted ws cl dq s s2"
  using quiet_fields [of X s s1] by (simp add: promoted_def same_cache_def)

text \<open>
  \<open>deep s dq ws cl t\<close>: the closure \<open>cl\<close> runs at the bottom of the worker's deque, the worker has locked
  both, and if it runs deep, its frame is at a spawn.
\<close>

definition deep :: "Rts \<Rightarrow> (wid \<Rightarrow> cid list) \<Rightarrow> wid \<Rightarrow> cid \<Rightarrow> bool" where
  "deep s dq ws cl \<longleftrightarrow> sched_core s dq \<and> locks_are ws {cl} {ws} s \<and> last_opt (dq ws) = Some cl
     \<and> (\<exists>t. closures s cl = Some t \<and> status t = CLOSURE_RUNNING \<and> (\<not> at_top s ws \<longrightarrow> valid_spawn s t))"

lemma deep_quiet: "quiet {cl} s s' \<Longrightarrow> deep s dq ws cl \<Longrightarrow> deep s' dq ws cl"
proof -
  assume q: "quiet {cl} s s'" and d: "deep s dq ws cl"
  then obtain t where t: "closures s cl = Some t" "status t = CLOSURE_RUNNING" "\<not> at_top s ws \<longrightarrow> valid_spawn s t"
    by (auto simp: deep_def)
  obtain t' where t': "closures s' cl = Some t'" "calm t' = calm t" using quietD [OF q t(1)] by blast
  have "valid_spawn s' t' = valid_spawn s t"
    using calm_fields [OF t'(2)] quiet_fields(2) [OF q] by (simp add: valid_spawn_def)
  then show ?thesis
    using d t t' calm_fields [OF t'(2)] quiet_at_top [OF q, of ws] sched_core_quiet [OF q] locks_quiet [OF q]
    by (auto simp: deep_def)
qed

lemma deep_pollable: "deep s dq ws cl \<Longrightarrow> pollable ws s cl"
  unfolding deep_def using pollable_core by blast

lemma deep_shallow: "deep s dq ws cl \<Longrightarrow> at_top s ws \<Longrightarrow> shallow s cl"
  using running_place [OF _ _ _ last_opt_mem] unfolding deep_def shallow_def at_top_def by blast

lemma signal_abort_from_inlet_deep:
  assumes d: "deep s dq ws cl" and nt: "\<not> at_top s ws" and c: "closures s cl = Some t"
  shows "wp (signal_abort_from_inlet ws cl)
    (\<lambda>_ s'. promoted ws cl dq s s' \<and> (\<exists>t'. closures s' cl = Some t' \<and> complete_inlets t' = complete_inlets t)) s"
proof -
  have core: "sched_core s dq" and lk: "locks_are ws {cl} {ws} s" and l: "last_opt (dq ws) = Some cl"
    and t: "status t = CLOSURE_RUNNING" "valid_spawn s t" using d nt c by (auto simp: deep_def)
  have ca: "cache t = Some ws" using running_place [OF core c t(1) last_opt_mem [OF l]] by simp
  have own: "mutex_owner t = Some ws" "dq_mutex_owner (deques s ws) = Some ws" using lk c by (auto simp: locks_are_def)
  have chc: "next_cid s \<noteq> cl" using sched_coreD(4) [OF core] c by (auto simp: young_def)
  let ?P = "\<lambda>_ s'. promoted ws cl dq s s' \<and> (\<exists>t'. closures s' cl = Some t' \<and> complete_inlets t' = complete_inlets t)"
  have abort: "wp (bindM (getM next_cid) (\<lambda>fuel. recursively_signal_abort fuel ws cl ALMOST_NO_ABORT)) ?P s4"
    if heap: "sched_heap s4 (dq(ws := dq ws @ [next_cid s]))" and lk4: "locks_are ws {cl} {ws} s4"
      and W: "workers s4 = advance_head ws (workers s)" "frames s4 = frames s"
      and t4: "closures s4 cl = Some t4" "status t4 = CLOSURE_READY" "complete_inlets t4 = complete_inlets t"
      and u: "closures s4 (next_cid s) = Some u" "(cl, next_cid s) \<in> child_rel (closures s4)"
        "core u = core (new_child cl ws (stack (wcache (workers s ws)) (Suc (head (wcache (workers s ws))))))"
    for s4 t4 u
  proof -
    note fu = core_fields [OF u(3)]
    have "worker_ok (workers s4 w)" if "w \<noteq> ws" for w
      using sched_coreD(8) [OF core, of w] that by (simp add: W advance_head_def)
    then have ab: "wp (recursively_signal_abort (next_cid s4) ws cl ALMOST_NO_ABORT)
      (\<lambda>_ s'. quiet {} s4 s' \<and> sched_core s' (dq(ws := dq ws @ [next_cid s]))) s4"
      using abort_promoted [OF heap lk4 t4(1) u(2,1)] fu by (simp add: new_child_def)
    show ?thesis
      unfolding wp_bind wp_get
    proof (rule wp_mono [OF ab])
      fix a s5 assume s5: "quiet {} s4 s5 \<and> sched_core s5 (dq(ws := dq ws @ [next_cid s]))"
      then have q: "quiet {} s4 s5" by simp
      obtain t5 where t5: "closures s5 cl = Some t5" "calm t5 = calm t4" "complete_inlets t5 = complete_inlets t4"
        using quietD [OF q t4(1)] by auto
      obtain v where v: "closures s5 (next_cid s) = Some v" "calm v = calm u" "complete_inlets v = complete_inlets u"
        using quietD [OF q u(1)] by auto
      show "?P a s5"
        using s5 t5 v calm_fields [OF t5(2)] calm_fields [OF v(2)] t4 fu chc locks_quiet [OF q lk4]
          quiet_fields [OF q] quiet_fields(9) [OF q, of ws] W
        by (simp add: promoted_def new_child_def same_cache_def advance_head_def)
    qed
  qed
  have "wp (bindM (promote_child ws cl ws) (\<lambda>child. finish_promote ws cl child))
    (\<lambda>_. wp (bindM (getM next_cid) (\<lambda>fuel. recursively_signal_abort fuel ws cl ALMOST_NO_ABORT)) ?P) s"
    by (rule wp_mono [OF split_law [OF core lk c t(1) l t(2)]]) (use abort in blast)
  then show ?thesis
    using c t ca own nt
    by (simp add: signal_abort_from_inlet_def wp_bind wp_Closure_assert_ownership wp_getC
        wp_Closure_at_top_of_stack wp_ret at_top_def wp_deque_assert_ownership)
qed

text \<open>
  Polling from anywhere: either nothing but abort statuses, exceptions and the pending inlets has
  changed, or an inlet has split the closure.
\<close>

definition polled :: "Rts \<Rightarrow> (wid \<Rightarrow> cid list) \<Rightarrow> wid \<Rightarrow> cid \<Rightarrow> Rts \<Rightarrow> bool" where
  "polled s dq ws cl s' \<longleftrightarrow> (quiet {cl} s s' \<or> promoted ws cl dq s s')
     \<and> (\<exists>t'. closures s' cl = Some t' \<and> complete_inlets t' = [])"

lemma polled_after_quiet: "quiet {cl} s s1 \<Longrightarrow> polled s1 dq ws cl s2 \<Longrightarrow> polled s dq ws cl s2"
  unfolding polled_def using quiet_trans promoted_after_quiet by blast

lemma polled_quiet:
  "polled s dq ws cl s1 \<Longrightarrow> quiet {cl} s1 s2 \<Longrightarrow> (\<exists>t'. closures s2 cl = Some t' \<and> complete_inlets t' = []) \<Longrightarrow>
   polled s dq ws cl s2"
  unfolding polled_def using quiet_trans promoted_quiet by blast

lemma promoted_pollable: "promoted ws cl dq s s' \<Longrightarrow> pollable ws s' cl \<and> shallow s' cl"
  unfolding promoted_def shallow_def using pollable_core by fastforce

lemma apply_inlet_deep:
  assumes d: "deep s dq ws cl" and nt: "\<not> at_top s ws" and c: "closures s cl = Some t"
  shows "wp (apply_inlet ws cl i)
    (\<lambda>_ s'. (quiet {} s s' \<or> promoted ws cl dq s s')
        \<and> (\<exists>t'. closures s' cl = Some t' \<and> complete_inlets t' = complete_inlets t)) s"
proof -
  have own: "mutex_owner t = Some ws" using d c by (auto simp: deep_def locks_are_def)
  show ?thesis
  proof (cases "abort_status t = NO_ABORT")
    case False
    show ?thesis by (rule wp_mono [OF apply_inlet_aborted [OF c own False]]) (use c in simp)
  next
    case True
    let ?s1 = "inlet_effect ws t i s"
    have q: "quiet {} s ?s1" by (rule quiet_effect)
    have c1: "closures ?s1 cl = Some t" using c by simp
    have "wp (signal_abort_from_inlet ws cl) (\<lambda>_ s'. (quiet {} s s' \<or> promoted ws cl dq s s')
        \<and> (\<exists>t'. closures s' cl = Some t' \<and> complete_inlets t' = complete_inlets t)) ?s1"
      by (rule wp_mono [OF signal_abort_from_inlet_deep [OF deep_quiet [OF quiet_mono [OF q] d] _ c1]])
        (use promoted_after_quiet [OF q] nt quiet_at_top [OF q] in auto)
    then show ?thesis
      by (intro apply_inlet_run [OF c own True]) (simp add: wp_ret q c)
  qed
qed

lemma poll_loop_deep:
  assumes "deep s dq ws cl" "\<not> at_top s ws" "\<And>t. closures s cl = Some t \<Longrightarrow> length (complete_inlets t) < n"
  shows "wp (poll_loop n ws cl) (\<lambda>_ s'. polled s dq ws cl s') s"
  using assms
proof (induction n arbitrary: s)
  case 0
  then show ?case by (auto simp: deep_def)
next
  case (Suc n)
  obtain t where t: "closures s cl = Some t" using Suc.prems by (auto simp: deep_def)
  show ?case
  proof (cases "complete_inlets t")
    case Nil
    with t show ?thesis by (simp add: wp_simps polled_def)
  next
    case (Cons i rest)
    let ?t = "t\<lparr>complete_inlets := rest\<rparr>"
    let ?s1 = "s\<lparr>closures := (closures s)(cl \<mapsto> ?t)\<rparr>"
    have q: "quiet {cl} s ?s1" by (rule quiet_upd [OF t]) simp
    have n: "length rest < n" using Suc.prems(3) [OF t] Cons by simp
    have d1: "deep ?s1 dq ws cl" by (rule deep_quiet [OF q Suc.prems(1)])
    have nt1: "\<not> at_top ?s1 ws" using Suc.prems(2) quiet_at_top [OF q] by simp
    have c1: "closures ?s1 cl = Some ?t" by simp
    have "wp (apply_inlet ws cl i) (\<lambda>_ s2. wp (poll_loop n ws cl) (\<lambda>_ s'. polled s dq ws cl s') s2) ?s1"
    proof (rule wp_mono [OF apply_inlet_deep [OF d1 nt1 c1]], elim conjE exE)
      fix a s2 t2 assume s2: "quiet {} ?s1 s2 \<or> promoted ws cl dq ?s1 s2"
        and t2: "closures s2 cl = Some t2" "complete_inlets t2 = complete_inlets ?t"
      have len: "length (complete_inlets t') < n" if "closures s2 cl = Some t'" for t'
        using that t2 n by simp
      show "wp (poll_loop n ws cl) (\<lambda>_ s'. polled s dq ws cl s') s2"
      proof (cases "quiet {} ?s1 s2")
        case True
        then have q2: "quiet {cl} ?s1 s2" by (rule quiet_mono) simp
        have "\<not> at_top s2 ws" using nt1 quiet_at_top [OF q2] by simp
        then show ?thesis
          by (rule wp_mono [OF Suc.IH [OF deep_quiet [OF q2 d1] _ len]])
            (use polled_after_quiet [OF quiet_trans [OF q q2]] in blast)+
      next
        case False
        then have p: "promoted ws cl dq s s2" using s2 promoted_after_quiet [OF q] by blast
        show ?thesis
          by (rule wp_mono [OF poll_loop_shallow [OF conjunct1 [OF promoted_pollable [OF p]] conjunct2 [OF promoted_pollable [OF p]] len]])
            (use promoted_quiet [OF p] in \<open>auto simp: polled_def\<close>)
      qed
    qed
    with t Cons show ?thesis by (simp add: wp_simps)
  qed
qed

lemma poll_inlets_deep:
  assumes d: "deep s dq ws cl"
  shows "wp (poll_inlets ws cl) (\<lambda>_ s'. polled s dq ws cl s') s"
proof (cases "at_top s ws")
  case True
  show ?thesis
    by (rule wp_mono [OF poll_inlets_shallow [OF deep_pollable [OF d] deep_shallow [OF d True]]])
      (auto simp: polled_def)
next
  case False
  obtain t where t: "closures s cl = Some t" "status t = CLOSURE_RUNNING" and core: "sched_core s dq"
    and l: "last_opt (dq ws) = Some cl" and lk: "locks_are ws {cl} {ws} s"
    using d by (auto simp: deep_def)
  have ca: "cache t = Some ws" using running_place [OF core t last_opt_mem [OF l]] by simp
  have own: "mutex_owner t = Some ws" "dq_mutex_owner (deques s ws) = Some ws" using lk t by (auto simp: locks_are_def)
  let ?s1 = "s\<lparr>event_count := (event_count s)(ws := (event_count s ws)(EVENT_POLL_INLETS := Suc (event_count s ws EVENT_POLL_INLETS)))\<rparr>"
  have q: "quiet {cl} s ?s1" by (rule quiet_event)
  have len: "length (complete_inlets t') < Suc (length (complete_inlets t))" if "closures ?s1 cl = Some t'" for t'
    using that t by simp
  have nt: "\<not> at_top ?s1 ws" using False quiet_at_top [OF q] by simp
  have "wp (poll_loop (Suc (length (complete_inlets t))) ws cl)
    (\<lambda>_. wp (bindM (getC cl) (\<lambda>t. if abort_status t = ALMOST_NO_ABORT then reset_abort cl else ret ()))
      (\<lambda>_ s'. polled s dq ws cl s')) ?s1"
  proof (rule wp_mono [OF poll_loop_deep [OF deep_quiet [OF q d] nt len]])
    fix a s2 assume "polled ?s1 dq ws cl s2"
    then have p2: "polled s dq ws cl s2" by (rule polled_after_quiet [OF q])
    then obtain u where u: "closures s2 cl = Some u" "complete_inlets u = []" by (auto simp: polled_def)
    show "wp (bindM (getC cl) (\<lambda>t. if abort_status t = ALMOST_NO_ABORT then reset_abort cl else ret ()))
      (\<lambda>_ s'. polled s dq ws cl s') s2"
      using u p2 polled_quiet [OF p2 quiet_upd_abort [OF u(1)]] by (simp add: wp_simps)
  qed
  with t ca own False show ?thesis
    by (simp add: poll_inlets_def wp_simps at_top_def del: poll_loop.simps)
qed

end
