(* ===== verification/Rts_Entry.thy ===== *)
theory Rts_Entry
  imports Rts_Exception
begin

section \<open>The exception handler and the other entry points\<close>

text \<open>
  The laws of \<open>Cilk_exception_handler\<close>, \<open>Cilk_set_result\<close>, \<open>Cilk_abort_slow\<close> and
  \<open>Cilk_after_sync_slow_cp\<close>, and of the part of \<open>do_what_it_says\<close> that starts a closure.
\<close>

subsection \<open>Changes of workers, frames and statuses\<close>

lemma sched_core_workers:
  "sched_core s dq \<Longrightarrow> (\<And>w. worker_ok (W w)) \<Longrightarrow> sched_core (s\<lparr>workers := W\<rparr>) dq"
  by (rule sched_core_skeleton) (auto simp: same_skeleton_def)

lemma locks_workers: "locks_are ws L D s \<Longrightarrow> locks_are ws L D (s\<lparr>workers := W\<rparr>)"
  by (simp add: locks_are_def)

lemma sched_core_frames: "sched_core s dq \<Longrightarrow> sched_core (s\<lparr>frames := F\<rparr>) dq"
  by (rule sched_core_skeleton) (auto simp: same_skeleton_def intro: sched_coreD(8))

lemma locks_frames: "locks_are ws L D s \<Longrightarrow> locks_are ws L D (s\<lparr>frames := F\<rparr>)"
  by (simp add: locks_are_def)

lemma sched_core_cache:
  "sched_core s dq \<Longrightarrow> enat (head (f (wcache (workers s w)))) \<le> exception (f (wcache (workers s w))) \<Longrightarrow>
   sched_core (upd_cache w f s) dq"
  unfolding upd_cache_def by (rule sched_core_workers) (auto simp: worker_ok_def dest: sched_coreD(8))

lemma locks_cache: "locks_are ws L D s \<Longrightarrow> locks_are ws L D (upd_cache w f s)"
  by (simp add: upd_cache_def locks_are_def)

text \<open>A closure whose last frame is gone begins to return.\<close>

lemma sched_core_returning:
  assumes core: "sched_core s dq" and c: "closures s t = Some u" "status u = CLOSURE_RUNNING" "join_counter u = 0"
    and l: "last_opt (dq w) = Some t"
  shows "sched_core (s\<lparr>closures := (closures s)(t \<mapsto> u\<lparr>status := CLOSURE_RETURNING\<rparr>)\<rparr>) dq"
proof -
  let ?u = "u\<lparr>status := CLOSURE_RETURNING\<rparr>"
  let ?s = "s\<lparr>closures := (closures s)(t \<mapsto> ?u)\<rparr>"
  have dqs: "is_deques ?s dq" by (rule is_deques_closure [OF sched_coreD(1) [OF core] c(1)]) simp_all
  have tree: "tree_ok (closures ?s)"
    using same_tree_ok [OF same_tree_upd [of "closures s" t u ?u] sched_coreD(2) [OF core]] c(1) by simp
  have y: "young ?s" using sched_coreD(4) [OF core] c(1) by (auto simp: young_def)
  have W: "worker_ok (workers ?s v)" for v using sched_coreD(8) [OF core] by simp
  have "status_ok dq d v \<and> inlets_ok v" if d: "closures ?s d = Some v" for d v
  proof (cases "d = t")
    case True
    then have "v = ?u" using d by simp
    then show ?thesis
      using True running_place [OF core c(1,2)] sched_coreD(6) [OF core c(1)] c(3)
      by (simp add: status_ok_def inlets_ok_def)
  next
    case False
    with d sched_coreD(5,6) [OF core] show ?thesis by simp
  qed
  then show ?thesis by (intro sched_core_move [OF dqs _ tree y W]) (simp_all)
qed

subsection \<open>The bottom of the deque after the inlets have been polled\<close>

definition handler_bottom :: "wid \<Rightarrow> addr \<Rightarrow> nat \<Rightarrow> cid \<Rightarrow> bool rts" where
  "handler_bottom ws resultp sz t =
     bindM (reset_exception_pointer ws t) (\<lambda>_.
     bindM (getC t) (\<lambda>cl.
     bindM (CILK_ASSERT 1405 (status cl = CLOSURE_RUNNING \<or> status cl = CLOSURE_RETURNING)) (\<lambda>_.
     bindM (CLOSURE_CACHE t) (\<lambda>k.
     bindM
       (if tail k \<le> head k then
          bindM (Cilk_event ws EVENT_EXCEPTION_STEAL) (\<lambda>_.
          bindM
            (if status cl = CLOSURE_RUNNING then
               bindM (updC t (status_update (\<lambda>_. CLOSURE_RETURNING))) (\<lambda>_.
               move_result_into_closure ws t resultp sz)
             else ret ()) (\<lambda>_.
          ret True))
        else
          bindM (deref (frame cl)) (\<lambda>f.
          bindM (getF f) (\<lambda>fr.
          bindM (CILK_ASSERT 1417 (frame_magic fr)) (\<lambda>_.
          bindM (Closure_being_aborted ws t) (\<lambda>aborted.
          if aborted then
            bindM (Cilk_event ws EVENT_EXCEPTION_ABORT) (\<lambda>_.
            bindM (signal_immediate_exception ws t) (\<lambda>_.
            bindM (Closure_at_top_of_stack t) (\<lambda>top.
            bindM (Closure_has_children t) (\<lambda>kids.
            bindM
              (if top \<and> kids then
                 bindM (Cilk_event ws EVENT_EXCEPTION_ABORT_SUSPEND) (\<lambda>_.
                 bindM (maybe_reset_abort t) (\<lambda>_.
                 Closure_suspend ws t))
               else
                 bindM
                   (if top then
                      bindM (updC t (status_update (\<lambda>_. CLOSURE_RETURNING))) (\<lambda>_.
                      Cilk_event ws EVENT_EXCEPTION_ABORT_RETURN)
                    else ret ()) (\<lambda>_.
                 bindM (CLOSURE_CACHE t) (\<lambda>k.
                 bindM (get_frame_size (stack k (tail k - 1))) (\<lambda>fsz.
                 Cilk_destroy_frame ws (stack k (tail k - 1)) fsz)))) (\<lambda>_.
            ret True)))))
          else
            bindM (maybe_reset_abort t) (\<lambda>_.
            bindM (Cilk_event ws EVENT_EXCEPTION_OTHER) (\<lambda>_.
            ret False))))))) (\<lambda>res.
     bindM (Closure_unlock ws t) (\<lambda>_.
     bindM (deque_unlock ws ws) (\<lambda>_.
     ret res)))))))"

text \<open>
  What the handler does with the bottom closure \<open>t\<close> of the deques \<open>dq\<close>, deciding in the state \<open>s\<close>, after the
  inlets have been polled. If the closure has no frame left it returns, and takes the result from
  \<open>resultp\<close> unless it was already returning. If it has frames and is not aborted it goes on. If it is aborted, the
  exception stays raised; with one frame and children it waits for these, as in a sync, and otherwise its last
  frame is destroyed, and with it, when there was only one, the closure begins to return.
\<close>

definition handled :: "wid \<Rightarrow> (wid \<Rightarrow> cid list) \<Rightarrow> cid \<Rightarrow> addr \<Rightarrow> nat \<Rightarrow> Rts \<Rightarrow> bool \<Rightarrow> Rts \<Rightarrow> bool" where
  "handled ws dq t resultp sz s r s' \<longleftrightarrow> (\<exists>v u. closures s t = Some v \<and> closures s' t = Some u \<and> memory s' = memory s
     \<and> (let k = wcache (workers s ws); k' = wcache (workers s' ws) in
        head k' = head k \<and> tail k' = tail k \<and> stack k' = stack k
        \<and> (if tail k \<le> head k then
             r \<and> status u = CLOSURE_RETURNING \<and> sched_inv s' dq \<and> frames s' = frames s \<and> exception k' = enat (head k)
             \<and> abort_status u = abort_status v
             \<and> (if status v = CLOSURE_RUNNING
                then return_size u = sz \<and> return_value u = (if sz \<noteq> 0 then read_bytes (memory s) resultp sz else [])
                else return_size u = return_size v \<and> return_value u = return_value v)
           else if abort_status v = NO_ABORT then
             \<not> r \<and> status u = CLOSURE_RUNNING \<and> sched_inv s' dq \<and> frames s' = frames s \<and> exception k' = enat (head k)
             \<and> abort_status u = NO_ABORT
           else
             r \<and> exception k' = \<infinity>
             \<and> (if head k + 1 = tail k \<and> join_counter v \<noteq> 0
                then status u = CLOSURE_SUSPENDED \<and> sched_inv s' (dq(ws := butlast (dq ws))) \<and> frames s' = frames s
                  \<and> join_counter u = join_counter v
                  \<and> abort_status u = (if abort_status v = ABORT_ALL then ABORT_ALL else NO_ABORT)
                else status u = (if head k + 1 = tail k then CLOSURE_RETURNING else CLOSURE_RUNNING) \<and> sched_inv s' dq
                  \<and> frames s' = (frames s)(stack k (tail k - 1) := None) \<and> abort_status u = abort_status v))))"

text \<open>Only the cache of the worker, the frames, the memory and the closure decide, and of the closure not its lock.\<close>

lemma handled_lock:
  assumes "closures s t = Some v" "closures s1 t = Some (v\<lparr>mutex_owner := m\<rparr>)"
    and "workers s1 = workers s" "frames s1 = frames s" "memory s1 = memory s"
  shows "handled ws dq t resultp sz s1 = handled ws dq t resultp sz s"
  by (simp add: fun_eq_iff handled_def assms)

text \<open>
  What the handler relies on: with no frame left the closure has no children, otherwise the frames
  on the stack are valid.
\<close>

definition at_exception :: "Rts \<Rightarrow> wid \<Rightarrow> Closure \<Rightarrow> bool" where
  "at_exception s ws u \<longleftrightarrow> (let k = wcache (workers s ws) in
     if tail k \<le> head k then status u = CLOSURE_RETURNING \<or> status u = CLOSURE_RUNNING \<and> join_counter u = 0
     else status u = CLOSURE_RUNNING \<and> valid_frame s u
       \<and> (\<exists>fr. frames s (stack k (tail k - 1)) = Some fr \<and> sig fr \<noteq> []))"

lemma leave_handled:
  assumes "sched_core s1 dq'" "locks_are ws {t} {ws} s1" "closures s1 t = Some u"
    and "\<And>s'. sched_inv s' dq' \<Longrightarrow> closures s' t = Some (u\<lparr>mutex_owner := None\<rparr>) \<Longrightarrow> workers s' = workers s1 \<Longrightarrow> frames s' = frames s1 \<Longrightarrow>
      memory s' = memory s1 \<Longrightarrow> handled ws dq t resultp sz s r s'"
  shows "wp (bindM (Closure_unlock ws t) (\<lambda>_. bindM (deque_unlock ws ws) (\<lambda>_. ret r))) (handled ws dq t resultp sz s) s1"
  by (rule wp_leave_ret [OF assms(2) _ assms(3)]) (use left_inv [OF assms(1-3)] assms(3,4) in \<open>simp_all add: left_def\<close>)

abbreviation bump :: "wid \<Rightarrow> event \<Rightarrow> Rts \<Rightarrow> Rts" where
  "bump ws e s \<equiv> s\<lparr>event_count := (event_count s)(ws := (event_count s ws)(e := Suc (event_count s ws e)))\<rparr>"

lemma handler_bottom_stolen:
  assumes core: "sched_core s dq" and lk: "locks_are ws {t} {ws} s" and l: "last_opt (dq ws) = Some t"
    and c: "closures s t = Some u" and ca: "cache u = Some ws"
    and k: "tail (wcache (workers s ws)) \<le> head (wcache (workers s ws))"
    and st: "status u = CLOSURE_RETURNING \<or> status u = CLOSURE_RUNNING \<and> join_counter u = 0"
  shows "wp (handler_bottom ws resultp sz t) (handled ws dq t resultp sz s) s"
proof -
  let ?s1 = "upd_cache ws (\<lambda>k. k\<lparr>exception := enat (head k)\<rparr>) s"
  let ?s2 = "bump ws EVENT_EXCEPTION_STEAL ?s1"
  have own: "mutex_owner u = Some ws" using lk c by (simp add: locks_are_def)
  have core2: "sched_core ?s2 dq" by (rule sched_core_event [OF sched_core_cache [OF core]]) simp
  have lk2: "locks_are ws {t} {ws} ?s2" by (rule locks_event [OF locks_cache [OF lk]])
  have c2: "closures ?s2 t = Some u" using c by simp
  show ?thesis
  proof (cases "status u = CLOSURE_RUNNING")
    case True
    let ?u = "u\<lparr>status := CLOSURE_RETURNING, return_size := sz,
        return_value := (if sz \<noteq> 0 then read_bytes (memory s) resultp sz else [])\<rparr>"
    let ?s3 = "?s2\<lparr>closures := (closures ?s2)(t \<mapsto> u\<lparr>status := CLOSURE_RETURNING\<rparr>)\<rparr>"
    let ?s4 = "?s3\<lparr>closures := (closures ?s3)(t \<mapsto> ?u)\<rparr>"
    have core3: "sched_core ?s3 dq"
      by (rule sched_core_returning [OF core2 c2 True _ l]) (use st True in simp)
    have core4: "sched_core ?s4 dq"
      by (rule sched_core_closure [OF core3, where t = "u\<lparr>status := CLOSURE_RETURNING\<rparr>"]) simp_all
    have lk3: "locks_are ws {t} {ws} ?s3" by (rule locks_closure [OF lk2 c2]) simp
    have lk4: "locks_are ws {t} {ws} ?s4"
      by (rule locks_closure [OF lk3, where t = "u\<lparr>status := CLOSURE_RETURNING\<rparr>"]) simp_all
    have "wp (bindM (Closure_unlock ws t) (\<lambda>_. bindM (deque_unlock ws ws) (\<lambda>_. ret True))) (handled ws dq t resultp sz s) ?s4"
      by (rule leave_handled [OF core4 lk4, of ?u]) (use True k c in \<open>simp_all add: handled_def Let_def\<close>)
    then show ?thesis
      using True k c ca own
      by (cases "sz = 0") (simp_all add: handler_bottom_def reset_exception_pointer_def
          move_result_into_closure_def wp_simps [abs_def] fun_upd_same del: fun_upd_apply)
  next
    case False
    then have st': "status u = CLOSURE_RETURNING" using st by simp
    have "wp (bindM (Closure_unlock ws t) (\<lambda>_. bindM (deque_unlock ws ws) (\<lambda>_. ret True))) (handled ws dq t resultp sz s) ?s2"
      by (rule leave_handled [OF core2 lk2 c2]) (use st' k c in \<open>simp_all add: handled_def Let_def\<close>)
    with False st' k c ca own show ?thesis
      by (simp add: handler_bottom_def reset_exception_pointer_def wp_simps [abs_def] fun_upd_same del: fun_upd_apply)
  qed
qed

text \<open>The cases in which the closure still has frames.\<close>

lemma handler_bottom_other:
  assumes core: "sched_core s dq" and lk: "locks_are ws {t} {ws} s"
    and c: "closures s t = Some u" "status u = CLOSURE_RUNNING" "abort_status u = NO_ABORT" and ca: "cache u = Some ws"
    and k: "head (wcache (workers s ws)) < tail (wcache (workers s ws))" and f: "valid_frame s u"
  shows "wp (handler_bottom ws resultp sz t) (handled ws dq t resultp sz s) s"
proof -
  let ?s1 = "upd_cache ws (\<lambda>k. k\<lparr>exception := enat (head k)\<rparr>) s"
  let ?s2 = "bump ws EVENT_EXCEPTION_OTHER ?s1"
  have own: "mutex_owner u = Some ws" using lk c by (simp add: locks_are_def)
  have same: "u\<lparr>abort_status := NO_ABORT\<rparr> = u" using c(3) by (cases u) simp
  have core2: "sched_core ?s2 dq" by (rule sched_core_event [OF sched_core_cache [OF core]]) simp
  have lk2: "locks_are ws {t} {ws} ?s2" by (rule locks_event [OF locks_cache [OF lk]])
  have c2: "closures ?s2 t = Some u" using c by simp
  have "wp (bindM (Closure_unlock ws t) (\<lambda>_. bindM (deque_unlock ws ws) (\<lambda>_. ret False))) (handled ws dq t resultp sz s) ?s2"
    by (rule leave_handled [OF core2 lk2 c2]) (use k c in \<open>simp_all add: handled_def Let_def\<close>)
  then show ?thesis
    using f k c ca own same
    by (auto simp: handler_bottom_def reset_exception_pointer_def maybe_reset_abort_def valid_frame_def
          wp_simps [abs_def] fun_upd_idem simp del: fun_upd_apply)
qed

lemma handler_bottom_aborted:
  assumes core: "sched_core s dq" and lk: "locks_are ws {t} {ws} s" and l: "last_opt (dq ws) = Some t"
    and c: "closures s t = Some u" "status u = CLOSURE_RUNNING" "abort_status u \<noteq> NO_ABORT" and ca: "cache u = Some ws"
    and k: "head (wcache (workers s ws)) < tail (wcache (workers s ws))" and f: "valid_frame s u"
    and top: "frames s (stack (wcache (workers s ws)) (tail (wcache (workers s ws)) - 1)) = Some fr" "sig fr \<noteq> []"
  shows "wp (handler_bottom ws resultp sz t) (handled ws dq t resultp sz s) s"
proof -
  let ?fa = "stack (wcache (workers s ws)) (tail (wcache (workers s ws)) - 1)"
  let ?s1 = "upd_cache ws (exception_update (\<lambda>_. \<infinity>))
     (bump ws EVENT_EXCEPTION_ABORT (upd_cache ws (\<lambda>k. k\<lparr>exception := enat (head k)\<rparr>) s))"
  have own: "mutex_owner u = Some ws" using lk c by (simp add: locks_are_def)
  have core1: "sched_core ?s1 dq"
    by (intro sched_core_cache sched_core_event core) simp_all
  have lk1: "locks_are ws {t} {ws} ?s1" by (intro locks_cache locks_event lk)
  have c1: "closures ?s1 t = Some u" using c by simp
  let ?rest = "\<lambda>m. bindM m (\<lambda>_. bindM (Closure_unlock ws t) (\<lambda>_. bindM (deque_unlock ws ws) (\<lambda>_. ret True)))"
  let ?m = "if head (wcache (workers s ws)) + 1 = tail (wcache (workers s ws)) \<and> join_counter u \<noteq> 0 then
                 bindM (Cilk_event ws EVENT_EXCEPTION_ABORT_SUSPEND) (\<lambda>_.
                 bindM (maybe_reset_abort t) (\<lambda>_.
                 Closure_suspend ws t))
               else
                 bindM
                   (if head (wcache (workers s ws)) + 1 = tail (wcache (workers s ws)) then
                      bindM (updC t (status_update (\<lambda>_. CLOSURE_RETURNING))) (\<lambda>_.
                      Cilk_event ws EVENT_EXCEPTION_ABORT_RETURN)
                    else ret ()) (\<lambda>_.
                 bindM (CLOSURE_CACHE t) (\<lambda>k.
                 bindM (get_frame_size (stack k (tail k - 1))) (\<lambda>fsz.
                 Cilk_destroy_frame ws (stack k (tail k - 1)) fsz)))"
  have m: "wp (?rest ?m) (handled ws dq t resultp sz s) ?s1"
  proof (cases "head (wcache (workers s ws)) + 1 = tail (wcache (workers s ws))")
    case False
    let ?s2 = "?s1\<lparr>frames := (frames ?s1)(?fa := None)\<rparr>"
    have "wp (bindM (Closure_unlock ws t) (\<lambda>_. bindM (deque_unlock ws ws) (\<lambda>_. ret True))) (handled ws dq t resultp sz s) ?s2"
      by (rule leave_handled [OF sched_core_frames [OF core1] locks_frames [OF lk1], where u = u]) (use False k c in \<open>simp_all add: handled_def Let_def\<close>)
    with False c1 ca top show ?thesis
      by (simp add: get_frame_size_def Cilk_destroy_frame_def wp_simps [abs_def] del: fun_upd_apply)
  next
    case True
    show ?thesis
    proof (cases "join_counter u = 0")
      case True': True
      let ?u = "u\<lparr>status := CLOSURE_RETURNING\<rparr>"
      let ?s2 = "bump ws EVENT_EXCEPTION_ABORT_RETURN (?s1\<lparr>closures := (closures ?s1)(t \<mapsto> ?u)\<rparr>)"
      let ?s3 = "?s2\<lparr>frames := (frames ?s2)(?fa := None)\<rparr>"
      have core3: "sched_core ?s3 dq"
        by (rule sched_core_frames [OF sched_core_event [OF sched_core_returning [OF core1 c1 c(2) True' l]]])
      have lk2: "locks_are ws {t} {ws} (?s1\<lparr>closures := (closures ?s1)(t \<mapsto> ?u)\<rparr>)"
        by (rule locks_closure [OF lk1 c1]) simp
      have "wp (bindM (Closure_unlock ws t) (\<lambda>_. bindM (deque_unlock ws ws) (\<lambda>_. ret True))) (handled ws dq t resultp sz s) ?s3"
        by (rule leave_handled [OF core3 locks_frames [OF locks_event [OF lk2]], where u = ?u]) (use True True' k c in \<open>simp_all add: handled_def Let_def\<close>)
      with True True' c1 ca top show ?thesis
        by (simp add: get_frame_size_def Cilk_destroy_frame_def wp_simps [abs_def] fun_upd_same del: fun_upd_apply)
    next
      case False
      let ?s2 = "bump ws EVENT_EXCEPTION_ABORT_SUSPEND ?s1"
      let ?u = "if abort_status u = ABORT_ALL then u else u\<lparr>abort_status := NO_ABORT\<rparr>"
      let ?s3 = "if abort_status u = ABORT_ALL then ?s2 else ?s2\<lparr>closures := (closures ?s2)(t \<mapsto> u\<lparr>abort_status := NO_ABORT\<rparr>)\<rparr>"
      have c2: "closures ?s2 t = Some u" using c by simp
      have q: "quiet {} ?s2 ?s3" using quiet_upd_abort [OF c2, of "{}" NO_ABORT] by simp
      have core3: "sched_core ?s3 dq" by (rule sched_core_quiet [OF q sched_core_event [OF core1]])
      have lk3: "locks_are ws {t} {ws} ?s3" by (rule locks_quiet [OF q locks_event [OF lk1]])
      have c3: "closures ?s3 t = Some ?u" using c2 by simp
      have st3: "status ?u = CLOSURE_RUNNING" "join_counter ?u \<noteq> 0" using c False by simp_all
      have "wp (Closure_suspend ws t) (\<lambda>_. wp (bindM (Closure_unlock ws t) (\<lambda>_. bindM (deque_unlock ws ws) (\<lambda>_. ret True)))
          (handled ws dq t resultp sz s)) ?s3"
      proof (rule wp_mono [OF Closure_suspend_law [OF core3 lk3 l c3 st3]])
        fix a s4 assume "sched_core s4 (dq(ws := butlast (dq ws))) \<and> locks_are ws {t} {ws} s4 \<and> deque_op_frame ?s3 s4
          \<and> (\<exists>cl'. closures s4 t = Some cl' \<and> core cl' = core (?u\<lparr>status := CLOSURE_SUSPENDED\<rparr>))"
        then obtain cl4 where s4: "sched_core s4 (dq(ws := butlast (dq ws)))" "locks_are ws {t} {ws} s4"
          and c4: "closures s4 t = Some cl4" "core cl4 = core (?u\<lparr>status := CLOSURE_SUSPENDED\<rparr>)"
          and fr: "deque_op_frame ?s3 s4" by blast
        have fr': "workers s4 = workers ?s1" "frames s4 = frames s" "memory s4 = memory s" using fr by (simp_all add: deque_op_frame_def)
        show "wp (bindM (Closure_unlock ws t) (\<lambda>_. bindM (deque_unlock ws ws) (\<lambda>_. ret True)))
          (handled ws dq t resultp sz s) s4"
          by (rule leave_handled [OF s4 c4(1)]) (use core_fields [OF c4(2)] fr' True False k c in \<open>simp_all add: handled_def Let_def\<close>)
      qed
      then have "wp (maybe_reset_abort t) (\<lambda>_. wp (Closure_suspend ws t) (\<lambda>_. wp (bindM (Closure_unlock ws t)
          (\<lambda>_. bindM (deque_unlock ws ws) (\<lambda>_. ret True))) (handled ws dq t resultp sz s))) ?s2"
        unfolding wp_maybe_reset_abort [OF c2] .
      with True False show ?thesis by (simp add: wp_bind wp_event)
    qed
  qed
  show ?thesis
    using m f k c ca own
    by (auto simp: handler_bottom_def reset_exception_pointer_def valid_frame_def wp_getC wp_assert wp_deref wp_getF
        wp_bind wp_CLOSURE_CACHE wp_CLOSURE_CACHE_update wp_Closure_assert_ownership wp_Closure_being_aborted
        wp_event wp_signal_immediate_exception wp_Closure_at_top_of_stack wp_Closure_has_children wp_ret [abs_def]
        simp del: fun_upd_apply)
qed

lemma handler_bottom_law:
  assumes core: "sched_core s dq" and lk: "locks_are ws {t} {ws} s" and l: "last_opt (dq ws) = Some t"
    and c: "closures s t = Some u" and ca: "cache u = Some ws" and x: "at_exception s ws u"
  shows "wp (handler_bottom ws resultp sz t) (handled ws dq t resultp sz s) s"
proof (cases "tail (wcache (workers s ws)) \<le> head (wcache (workers s ws))")
  case True
  show ?thesis
    by (rule handler_bottom_stolen [OF core lk l c ca True]) (use x True in \<open>simp add: at_exception_def Let_def\<close>)
next
  case False
  then have k: "head (wcache (workers s ws)) < tail (wcache (workers s ws))" by simp
  obtain fr where st: "status u = CLOSURE_RUNNING" and f: "valid_frame s u"
    and top: "frames s (stack (wcache (workers s ws)) (tail (wcache (workers s ws)) - 1)) = Some fr" "sig fr \<noteq> []"
    using x False by (auto simp: at_exception_def Let_def)
  show ?thesis
  proof (cases "abort_status u = NO_ABORT")
    case True
    show ?thesis by (rule handler_bottom_other [OF core lk c st True ca k f])
  next
    case False
    show ?thesis by (rule handler_bottom_aborted [OF core lk l c st False ca k f top])
  qed
qed

subsection \<open>The exception handler\<close>

definition frame_ok :: "Rts \<Rightarrow> addr \<Rightarrow> bool" where
  "frame_ok s f \<longleftrightarrow> (\<exists>fr. frames s f = Some fr \<and> frame_magic fr \<and> sig fr \<noteq> [])"

text \<open>
  When the compiled code calls the handler: the bottom closure has no frame left (then it has no
  children and no pending inlet), or its frame and the frames above it are valid, and if there is one
  above it, it is at a spawn.
\<close>

definition exception_ready :: "Rts \<Rightarrow> (wid \<Rightarrow> cid list) \<Rightarrow> wid \<Rightarrow> cid \<Rightarrow> Closure \<Rightarrow> bool" where
  "exception_ready s dq ws t u \<longleftrightarrow> last_opt (dq ws) = Some t \<and> closures s t = Some u
     \<and> (let k = wcache (workers s ws) in
        if tail k \<le> head k
        then status u = CLOSURE_RETURNING \<or> status u = CLOSURE_RUNNING \<and> join_counter u = 0 \<and> complete_inlets u = []
        else status u = CLOSURE_RUNNING \<and> valid_frame s u \<and> (\<not> at_top s ws \<longrightarrow> valid_spawn s u)
          \<and> (\<forall>i \<in> {head k ..< tail k}. frame_ok s (stack k i)))"

lemma poll_inlets_idle:
  assumes c: "closures s cl = Some t" "mutex_owner t = Some ws" "complete_inlets t = []"
    and "status t = CLOSURE_RUNNING \<longrightarrow> cache t \<noteq> None" "dq_mutex_owner (deques s ws) = Some ws"
  shows "wp (poll_inlets ws cl) (\<lambda>_ s'. quiet {cl} s s') s"
proof -
  let ?s1 = "bump ws EVENT_POLL_INLETS s"
  have q1: "quiet {cl} s ?s1" by (rule quiet_event)
  have "quiet {cl} s (if abort_status t = ALMOST_NO_ABORT then ?s1\<lparr>closures := (closures ?s1)(cl \<mapsto> t\<lparr>abort_status := NO_ABORT\<rparr>)\<rparr> else ?s1)"
    using quiet_trans [OF q1 quiet_upd_abort [of ?s1 cl t "{cl}" NO_ABORT]] q1 c(1) by auto
  then show ?thesis
    using assms by (cases "status t = CLOSURE_RUNNING") (auto simp: poll_inlets_def wp_simps split: if_splits)
qed

definition handler_cont :: "wid \<Rightarrow> addr \<Rightarrow> nat \<Rightarrow> cid \<Rightarrow> bool rts" where
  "handler_cont ws resultp sz t0 =
     bindM (deque_peek_bottom ws ws) (\<lambda>b1.
     bindM (CILK_ASSERT 1391 (b1 \<noteq> None)) (\<lambda>_.
     bindM (deref b1) (\<lambda>t.
     bindM
       (if t0 \<noteq> t then bindM (Closure_unlock ws t0) (\<lambda>_. Closure_lock ws t) else ret ()) (\<lambda>_.
     handler_bottom ws resultp sz t))))"

lemma handler_unfold:
  "Cilk_exception_handler ws resultp sz =
     bindM (Cilk_event ws EVENT_EXCEPTION) (\<lambda>_.
     bindM (deque_lock ws ws) (\<lambda>_.
     bindM (deque_peek_bottom ws ws) (\<lambda>b.
     bindM (CILK_ASSERT 1386 (b \<noteq> None)) (\<lambda>_.
     bindM (deref b) (\<lambda>t0.
     bindM (Closure_lock ws t0) (\<lambda>_.
     bindM (poll_inlets ws t0) (\<lambda>_.
     handler_cont ws resultp sz t0)))))))"
  by (simp only: Cilk_exception_handler_def handler_cont_def handler_bottom_def)

lemma handler_cont_quiet:
  assumes q: "quiet {t} s1 s" and core: "sched_core s1 dq" and lk: "locks_are ws {t} {ws} s1"
    and l: "last_opt (dq ws) = Some t" and c: "closures s1 t = Some u" and ca: "cache u = Some ws"
    and x: "at_exception s1 ws u"
  shows "wp (handler_cont ws resultp sz t) (handled ws dq t resultp sz s) s"
proof -
  obtain u' where u': "closures s t = Some u'" "calm u' = calm u" using quietD [OF q c] by blast
  note f = calm_fields [OF u'(2)] and qf = quiet_fields [OF q]
  have core': "sched_core s dq" by (rule sched_core_quiet [OF q core])
  have lk': "locks_are ws {t} {ws} s" by (rule locks_quiet [OF q lk])
  have own: "dq_mutex_owner (deques s ws) = Some ws" using lk' by (simp add: locks_are_def)
  have "at_exception s ws u'"
    using x f qf(2) qf(9) [of ws] by (auto simp: at_exception_def Let_def valid_frame_def same_cache_def split: if_splits)
  then have "wp (handler_bottom ws resultp sz t) (handled ws dq t resultp sz s) s"
    using handler_bottom_law [OF core' lk' l u'(1)] f ca by simp
  then show ?thesis
    by (simp add: handler_cont_def wp_bind wp_assert wp_deref wp_ret [abs_def]
        wp_peek_bottom [OF sched_coreD(1) [OF core'] own] l)
qed

lemma handler_cont_promoted:
  assumes p: "promoted ws t dq s1 s" and k: "Suc (head (wcache (workers s1 ws))) < tail (wcache (workers s1 ws))"
    and f: "\<forall>i \<in> {head (wcache (workers s1 ws)) ..< tail (wcache (workers s1 ws))}. frame_ok s1 (stack (wcache (workers s1 ws)) i)"
  shows "wp (handler_cont ws resultp sz t) (handled ws (dq(ws := dq ws @ [next_cid s1])) (next_cid s1) resultp sz s) s"
proof -
  let ?n = "next_cid s1"
  let ?dq = "dq(ws := dq ws @ [?n])"
  obtain u where u: "closures s ?n = Some u" "status u = CLOSURE_RUNNING"
    "frame u = Some (stack (wcache (workers s1 ws)) (Suc (head (wcache (workers s1 ws)))))"
    using p by (auto simp: promoted_def)
  obtain v where v: "closures s t = Some v" using p by (auto simp: promoted_def)
  have core: "sched_core s ?dq" and lk: "locks_are ws {t} {ws} s" and ne: "?n \<noteq> t"
    and W: "frames s = frames s1" "head (wcache (workers s ws)) = Suc (head (wcache (workers s1 ws)))"
      "tail (wcache (workers s ws)) = tail (wcache (workers s1 ws))" "stack (wcache (workers s ws)) = stack (wcache (workers s1 ws))"
    using p by (auto simp: promoted_def)
  have l: "last_opt (?dq ws) = Some ?n" by simp
  have ca: "cache u = Some ws" using running_place [OF core u(1,2) last_opt_mem [OF l]] by simp
  let ?s2 = "s\<lparr>closures := (closures s)(t \<mapsto> v\<lparr>mutex_owner := None\<rparr>)\<rparr>"
  let ?u = "u\<lparr>mutex_owner := Some ws\<rparr>"
  let ?s3 = "?s2\<lparr>closures := (closures ?s2)(?n \<mapsto> ?u)\<rparr>"
  have own: "dq_mutex_owner (deques s ws) = Some ws" "mutex_owner v = Some ws" "mutex_owner u = None"
    using lk ne u(1) v by (auto simp: locks_are_def)
  have core2: "sched_core ?s2 ?dq" by (rule sched_core_closure [OF core v]) simp
  have c2: "closures ?s2 ?n = Some u" using u(1) ne by simp
  have core3: "sched_core ?s3 ?dq" by (rule sched_core_closure [OF core2 c2]) simp
  have lk2: "locks_are ws {} {ws} ?s2" using locks_unlock [OF lk, of t v] by simp
  have lk3: "locks_are ws {?n} {ws} ?s3" by (rule locks_lock [OF lk2])
  have "frame_ok s1 (stack (wcache (workers s1 ws)) (Suc (head (wcache (workers s1 ws)))))"
    "frame_ok s1 (stack (wcache (workers s1 ws)) (tail (wcache (workers s1 ws)) - 1))" using f k by auto
  then have "at_exception ?s3 ws ?u"
    using k u(2,3) W by (auto simp: at_exception_def Let_def valid_frame_def frame_ok_def)
  then have "wp (handler_bottom ws resultp sz ?n) (handled ws ?dq ?n resultp sz ?s3) ?s3"
    by (intro handler_bottom_law [OF core3 lk3 l, of ?u]) (simp_all add: ca)
  then have "wp (handler_bottom ws resultp sz ?n) (handled ws ?dq ?n resultp sz s) ?s3"
    using handled_lock [OF u(1), of ?s3 "Some ws"] by simp
  moreover have "wp (bindM (Closure_unlock ws t) (\<lambda>_. Closure_lock ws ?n))
      (\<lambda>_. wp (handler_bottom ws resultp sz ?n) (handled ws ?dq ?n resultp sz s)) s
    = wp (handler_bottom ws resultp sz ?n) (handled ws ?dq ?n resultp sz s) ?s3"
    using v own c2 by (simp add: wp_bind wp_Closure_unlock wp_Closure_lock del: fun_upd_apply)
  ultimately show ?thesis
    using ne by (simp add: handler_cont_def wp_bind wp_assert wp_deref
        wp_peek_bottom [OF sched_coreD(1) [OF core] own(1)] del: fun_upd_apply)
       (simp add: wp_bind)
qed

text \<open>
  The whole handler: it goes on with the closure it was called for, or, if an inlet has split that,
  with the new child at the bottom of the deque.
\<close>

lemma entered_at_top [simp]: "at_top (entered ws t s) w = at_top s w"
  by (simp add: at_top_def)

text \<open>The state in which the handler polls, and what polling leaves.\<close>

definition polling :: "wid \<Rightarrow> cid \<Rightarrow> Rts \<Rightarrow> Rts" where
  "polling ws t s = entered ws t (bump ws EVENT_EXCEPTION s)"

lemma handler_poll:
  assumes inv: "sched_inv s dq" and rdy: "exception_ready s dq ws t u"
  shows "wp (poll_inlets ws t)
    (\<lambda>_ s2. quiet {t} (polling ws t s) s2
       \<or> promoted ws t dq (polling ws t s) s2 \<and> Suc (head (wcache (workers s ws))) < tail (wcache (workers s ws)))
    (polling ws t s)"
    and "sched_core (polling ws t s) dq" "locks_are ws {t} {ws} (polling ws t s)" "cache u = Some ws"
    and "closures (polling ws t s) t = Some (u\<lparr>mutex_owner := Some ws\<rparr>)" "mutex_owner u = None"
proof -
  let ?Q = "\<lambda>_ s2. quiet {t} (polling ws t s) s2
       \<or> promoted ws t dq (polling ws t s) s2 \<and> Suc (head (wcache (workers s ws))) < tail (wcache (workers s ws))"
  let ?s0 = "bump ws EVENT_EXCEPTION s"
  have core: "sched_core ?s0 dq" and ul: "unlocked ?s0"
    using inv sched_core_event by (auto simp: sched_inv_def unlocked_def)
  have l: "last_opt (dq ws) = Some t" and c: "closures ?s0 t = Some u" using rdy by (auto simp: exception_ready_def)
  let ?s1 = "polling ws t s" and ?u = "u\<lparr>mutex_owner := Some ws\<rparr>"
  note [simp] = polling_def
  have c1: "closures ?s1 t = Some ?u" using c by simp
  have core1: "sched_core ?s1 dq" using entered_core [OF core c] by simp
  have lk1: "locks_are ws {t} {ws} ?s1" using entered_locks [OF unlockedD [OF ul] c] by simp
  let ?k = "wcache (workers s ws)"
  have st: "status u = CLOSURE_RUNNING \<or> status u = CLOSURE_RETURNING"
    using rdy by (auto simp: exception_ready_def Let_def split: if_splits)
  have ca: "cache u = Some ws"
    using st running_place [OF core c _ last_opt_mem [OF l]] sched_coreD(5) [OF core c] last_opt_mem [OF l]
    by (auto simp: status_ok_def)
  have pol: "pollable ws ?s1 t" by (rule pollable_core [OF core1 lk1 c1]) simp
  have shallow: "wp (poll_inlets ws t) ?Q ?s1" if "shallow ?s1 t"
    by (rule wp_mono [OF poll_inlets_shallow [OF pol that]]) auto
  have "wp (poll_inlets ws t) ?Q ?s1"
  proof (cases "tail ?k \<le> head ?k")
    case True
    show ?thesis
    proof (cases "status u = CLOSURE_RETURNING")
      case True
      then show ?thesis using c1 by (intro shallow) (simp add: shallow_def)
    next
      case False
      then have "complete_inlets u = []" using rdy True by (simp add: exception_ready_def Let_def)
      then show ?thesis
        by (intro wp_mono [OF poll_inlets_idle [OF c1]]) (simp_all add: ca)
    qed
  next
    case False
    then have d: "status u = CLOSURE_RUNNING" "\<not> at_top s ws \<longrightarrow> valid_spawn s u"
      using rdy by (simp_all add: exception_ready_def Let_def)
    have deep: "deep ?s1 dq ws t"
      using core1 lk1 l c1 d by (simp add: deep_def at_top_def valid_spawn_def)
    show ?thesis
    proof (cases "at_top s ws")
      case True
      then have "at_top ?s1 ws" by (simp add: at_top_def)
      then show ?thesis by (intro shallow deep_shallow [OF deep])
    next
      case nt: False
      then have k: "Suc (head ?k) < tail ?k" using False by (simp add: at_top_def)
      show ?thesis by (rule wp_mono [OF poll_inlets_deep [OF deep]]) (use k in \<open>auto simp: polled_def\<close>)
    qed
  qed
  then show "wp (poll_inlets ws t) ?Q ?s1" .
  show "sched_core ?s1 dq" "locks_are ws {t} {ws} ?s1" "cache u = Some ws" "closures ?s1 t = Some ?u" by fact+
  show "mutex_owner u = None" using ul c by (auto simp: unlocked_def)
qed

text \<open>The way into the handler.\<close>

lemma handler_enter:
  assumes inv: "sched_inv s dq" and rdy: "exception_ready s dq ws t u"
  shows "wp (Cilk_exception_handler ws resultp sz) Q s
    = wp (poll_inlets ws t) (\<lambda>_. wp (handler_cont ws resultp sz t) Q) (polling ws t s)"
proof -
  let ?s0 = "bump ws EVENT_EXCEPTION s"
  have core: "sched_core ?s0 dq" and ul: "unlocked ?s0"
    using inv sched_core_event by (auto simp: sched_inv_def unlocked_def)
  have l: "last_opt (dq ws) = Some t" and c: "closures s t = Some u" using rdy by (auto simp: exception_ready_def)
  have "mutex_owner u = None" "dq_mutex_owner (deques s ws) = None" using ul c by (auto simp: unlocked_def)
  moreover have "wp (deque_peek_bottom ws ws) P
      (?s0\<lparr>deques := (deques ?s0)(ws := (deques ?s0 ws)\<lparr>dq_mutex_owner := Some ws\<rparr>)\<rparr>)
    = P (Some t) (?s0\<lparr>deques := (deques ?s0)(ws := (deques ?s0 ws)\<lparr>dq_mutex_owner := Some ws\<rparr>)\<rparr>)" for P
    unfolding l [symmetric]
    by (rule wp_peek_bottom [OF sched_coreD(1) [OF sched_core_dqlock [OF core]]]) simp
  ultimately show ?thesis
    using c unfolding handler_unfold
    by (simp add: wp_bind wp_event wp_deque_lock wp_assert wp_deref wp_Closure_lock entered_def polling_def)
qed

lemma polling_fields:
  "workers (polling ws t s) = workers s" "frames (polling ws t s) = frames s" "next_cid (polling ws t s) = next_cid s"
  by (simp_all add: polling_def)

lemma handler_cont_same:
  assumes inv: "sched_inv s dq" and rdy: "exception_ready s dq ws t u" and q: "quiet {t} (polling ws t s) s2"
  shows "wp (handler_cont ws resultp sz t) (handled ws dq t resultp sz s2) s2"
proof -
  note p = handler_poll(2-) [OF inv rdy]
  have l: "last_opt (dq ws) = Some t" using rdy by (simp add: exception_ready_def)
  have x: "at_exception (polling ws t s) ws (u\<lparr>mutex_owner := Some ws\<rparr>)"
    using rdy by (auto simp: polling_fields exception_ready_def at_exception_def Let_def valid_frame_def frame_ok_def
        split: if_splits)
  show ?thesis by (rule handler_cont_quiet [OF q p(1,2) l p(4) _ x]) (simp add: p(3))
qed

lemma handler_cont_split:
  assumes rdy: "exception_ready s dq ws t u"
    and p: "promoted ws t dq (polling ws t s) s2" "Suc (head (wcache (workers s ws))) < tail (wcache (workers s ws))"
  shows "wp (handler_cont ws resultp sz t) (handled ws (dq(ws := dq ws @ [next_cid s])) (next_cid s) resultp sz s2) s2"
proof -
  have "\<forall>i \<in> {head (wcache (workers s ws)) ..< tail (wcache (workers s ws))}. frame_ok s (stack (wcache (workers s ws)) i)"
    using rdy p(2) by (simp add: exception_ready_def Let_def)
  then show ?thesis
    using handler_cont_promoted [OF p(1), of resultp sz] p(2) by (simp add: polling_fields frame_ok_def)
qed

text \<open>
  What the whole handler does: it polls the inlets, which leaves the bottom closure there or splits it, and then
  treats the bottom closure of the deque as \<open>handled\<close> says.
\<close>

definition exception_handled :: "wid \<Rightarrow> (wid \<Rightarrow> cid list) \<Rightarrow> cid \<Rightarrow> addr \<Rightarrow> nat \<Rightarrow> Rts \<Rightarrow> bool \<Rightarrow> Rts \<Rightarrow> bool" where
  "exception_handled ws dq t resultp sz s r s' \<longleftrightarrow> (\<exists>s1. poll_inlets ws t (polling ws t s) = Inr ((), s1)
     \<and> (quiet {t} (polling ws t s) s1 \<and> handled ws dq t resultp sz s1 r s'
       \<or> promoted ws t dq (polling ws t s) s1 \<and> Suc (head (wcache (workers s ws))) < tail (wcache (workers s ws))
         \<and> handled ws (dq(ws := dq ws @ [next_cid s])) (next_cid s) resultp sz s1 r s'))"

lemma wp_self: "wp m Q s \<Longrightarrow> wp m (\<lambda>a s'. m s = Inr (a, s') \<and> Q a s') s"
  by (auto simp: wp_def split: sum.splits)

lemma Cilk_exception_handler_law:
  assumes inv: "sched_inv s dq" and rdy: "exception_ready s dq ws t u"
  shows "wp (Cilk_exception_handler ws resultp sz) (exception_handled ws dq t resultp sz s) s"
  unfolding handler_enter [OF assms]
proof (rule wp_mono [OF wp_self [OF handler_poll(1) [OF assms]]], elim conjE)
  fix a s1 assume run: "poll_inlets ws t (polling ws t s) = Inr (a, s1)"
    and s1: "quiet {t} (polling ws t s) s1
       \<or> promoted ws t dq (polling ws t s) s1 \<and> Suc (head (wcache (workers s ws))) < tail (wcache (workers s ws))"
  from s1 show "wp (handler_cont ws resultp sz t) (exception_handled ws dq t resultp sz s) s1"
  proof (elim disjE conjE)
    assume q: "quiet {t} (polling ws t s) s1"
    show ?thesis
      by (rule wp_mono [OF handler_cont_same [OF inv rdy q]]) (use run q in \<open>auto simp: exception_handled_def\<close>)
  next
    assume p: "promoted ws t dq (polling ws t s) s1" "Suc (head (wcache (workers s ws))) < tail (wcache (workers s ws))"
    show ?thesis
      by (rule wp_mono [OF handler_cont_split [OF rdy p]]) (use run p in \<open>auto simp: exception_handled_def\<close>)
  qed
qed

end
