(* ===== verification/Rts_Start.thy ===== *)
theory Rts_Start
  imports Rts_Entry
begin

section \<open>Starting and finishing closures\<close>

text \<open>
  The laws of the entry points that record a result or abort, of the worker's step that takes the next
  closure from its own deque, and of the start of a ready closure by \<open>do_what_it_says\<close>.
\<close>

lemma valid_frame_entered [simp]: "valid_frame (entered ws t s) u = valid_frame s u"
  by (simp add: valid_frame_def)

lemma bump_core: "sched_inv s dq \<Longrightarrow> sched_core (bump ws e s) dq \<and> unlocked (bump ws e s)"
  using sched_core_event by (auto simp: sched_inv_def unlocked_def)

subsection \<open>Results\<close>

text \<open>
  The end of a slow version: the value goes to the closure, which begins to return. The compiled code
  has synced before, so no child is outstanding, and an abort of the children is over.
\<close>

lemma Cilk_set_result_law:
  assumes inv: "sched_inv s dq" and run: "runs s dq ws t u" and f: "valid_frame s u"
    and j: "join_counter u = 0" and ab: "abort_status u \<noteq> ALMOST_NO_ABORT"
  shows "wp (Cilk_set_result ws resultp sz)
    (\<lambda>_ s'. sched_inv s' dq \<and> (\<exists>u'. closures s' t = Some u' \<and> status u' = CLOSURE_RETURNING \<and> frame u' = None
        \<and> return_size u' = sz \<and> return_value u' = (if sz = 0 then [] else read_bytes (memory s) resultp sz))) s"
proof -
  let ?post = "\<lambda>_ s'. sched_inv s' dq \<and> (\<exists>u'. closures s' t = Some u' \<and> status u' = CLOSURE_RETURNING \<and> frame u' = None
        \<and> return_size u' = sz \<and> return_value u' = (if sz = 0 then [] else read_bytes (memory s) resultp sz))"
  let ?s0 = "bump ws EVENT_RETURN_SLOW s"
  have core: "sched_core ?s0 dq" and ul: "unlocked ?s0" using bump_core [OF inv] by blast+
  have t: "last_opt (dq ws) = Some t" "closures ?s0 t = Some u" "status u = CLOSURE_RUNNING"
    using run by (auto simp: runs_def)
  let ?s1 = "entered ws t ?s0" and ?u = "u\<lparr>mutex_owner := Some ws\<rparr>"
  have core1: "sched_core ?s1 dq" by (rule entered_core [OF core t(2)])
  have lk1: "locks_are ws {t} {ws} ?s1" using entered_locks [OF unlockedD [OF ul] t(2)] by simp
  have c1: "closures ?s1 t = Some ?u" using t(2) by simp
  let ?u2 = "?u\<lparr>status := CLOSURE_RETURNING\<rparr>"
  let ?u3 = "?u2\<lparr>frame := None, return_size := sz, return_value := (if sz = 0 then [] else read_bytes (memory s) resultp sz)\<rparr>"
  let ?s2 = "?s1\<lparr>closures := (closures ?s1)(t \<mapsto> ?u2)\<rparr>"
  let ?s3 = "?s2\<lparr>closures := (closures ?s2)(t \<mapsto> ?u3)\<rparr>"
  have core2: "sched_core ?s2 dq" by (rule sched_core_returning [OF core1 c1 _ _ t(1)]) (simp_all add: t(3) j)
  have core3: "sched_core ?s3 dq" by (rule sched_core_closure [OF core2, where t = ?u2]) simp_all
  have lk2: "locks_are ws {t} {ws} ?s2" by (rule locks_closure [OF lk1 c1]) simp
  have lk3: "locks_are ws {t} {ws} ?s3" by (rule locks_closure [OF lk2, where t = ?u2]) simp_all
  have c3: "closures ?s3 t = Some ?u3" by simp
  have "wp (bindM (Closure_unlock ws t) (\<lambda>_. deque_unlock ws ws)) ?post ?s3"
    by (rule wp_leave [OF lk3 _ c3]) (use left_inv [OF core3 lk3 c3] in \<open>simp_all del: fun_upd_apply\<close>, simp)
  then have "wp (bindM (getC t) (\<lambda>cl.
     bindM (CILK_ASSERT 1468 (status cl = CLOSURE_RUNNING)) (\<lambda>_.
     bindM (deref (frame cl)) (\<lambda>f.
     bindM (getF f) (\<lambda>fr.
     bindM (CILK_ASSERT 1469 (frame_magic fr)) (\<lambda>_.
     bindM (CILK_ASSERT 1475 (abort_status cl = NO_ABORT \<or> abort_status cl = ABORT_ALL)) (\<lambda>_.
     bindM (updC t (\<lambda>cl. cl\<lparr>status := CLOSURE_RETURNING, frame := None\<rparr>)) (\<lambda>_.
     bindM (move_result_into_closure ws t resultp sz) (\<lambda>_.
     bindM (Closure_unlock ws t) (\<lambda>_.
     deque_unlock ws ws)))))))))) ?post ?s1"
    using f t(3) ab c1
    by (cases "abort_status u"; cases "sz = 0")
      (auto simp: valid_frame_def move_result_into_closure_def wp_bind wp_getC wp_assert wp_deref wp_getF wp_updC
        wp_Closure_assert_ownership wp_get fun_upd_same simp del: fun_upd_apply)
  then show ?thesis
    unfolding Cilk_set_result_def by (intro wp_eventI wp_enter [OF core ul t(1,2)])
qed

subsection \<open>Aborts\<close>

text \<open>The \<open>abort\<close> statement in slow code: the children are aborted and the pending inlets run.\<close>

lemma Cilk_abort_slow_law:
  assumes inv: "sched_inv s dq" and run: "runs s dq ws t u" and top: "at_top s ws"
  shows "wp (Cilk_abort_slow ws)
    (\<lambda>_ s'. sched_inv s' dq \<and> (\<exists>u'. closures s' t = Some u' \<and> status u' = CLOSURE_RUNNING
        \<and> join_counter u' = join_counter u \<and> complete_inlets u' = [] \<and> abort_status u' \<noteq> ALMOST_NO_ABORT)) s"
proof -
  let ?post = "\<lambda>_ s'. sched_inv s' dq \<and> (\<exists>u'. closures s' t = Some u' \<and> status u' = CLOSURE_RUNNING
        \<and> join_counter u' = join_counter u \<and> complete_inlets u' = [] \<and> abort_status u' \<noteq> ALMOST_NO_ABORT)"
  have core: "sched_core s dq" and ul: "unlocked s" using inv by (auto simp: sched_inv_def)
  have t: "last_opt (dq ws) = Some t" "closures s t = Some u" "status u = CLOSURE_RUNNING"
    using run by (auto simp: runs_def)
  have ca: "cache u = Some ws" by (rule runs_cache [OF core run])
  let ?u = "u\<lparr>mutex_owner := Some ws\<rparr>"
  let ?s1 = "bump ws EVENT_ABORT_SLOW (entered ws t s)"
  have core1: "sched_core ?s1 dq" by (rule sched_core_event [OF entered_core [OF core t(2)]])
  have lk1: "locks_are ws {t} {ws} ?s1" using locks_event [OF entered_locks [OF unlockedD [OF ul] t(2)]] by simp
  have c1: "closures ?s1 t = Some ?u" using t(2) by simp
  have pol: "pollable ws ?s1 t" by (rule pollable_core [OF core1 lk1 c1]) simp
  have sh: "shallow ?s1 t" using c1 ca top by (auto simp: shallow_def at_top_def)
  have rest: "wp (bindM (poll_inlets ws t) (\<lambda>_. bindM (Closure_unlock ws t) (\<lambda>_. deque_unlock ws ws))) ?post s2"
    if q: "quiet {} ?s1 s2" for s2
    unfolding wp_bind [of "poll_inlets ws t"]
  proof (rule wp_mono [OF poll_inlets_shallow [OF quiet_pollable [OF q pol] quiet_shallow [OF q sh]]])
    fix a s3 assume s3: "quiet {t} s2 s3 \<and> (\<exists>t'. closures s3 t = Some t' \<and> complete_inlets t' = [] \<and> abort_status t' \<noteq> ALMOST_NO_ABORT)"
    then have q3: "quiet {t} ?s1 s3" using quiet_trans [OF quiet_mono [OF q]] by blast
    obtain u3 where u3: "closures s3 t = Some u3" "complete_inlets u3 = []" "abort_status u3 \<noteq> ALMOST_NO_ABORT"
      "calm u3 = calm ?u" using s3 quietD [OF q3 c1] by auto
    have core3: "sched_core s3 dq" by (rule sched_core_quiet [OF q3 core1])
    have lk3: "locks_are ws {t} {ws} s3" by (rule locks_quiet [OF q3 lk1])
    show "wp (bindM (Closure_unlock ws t) (\<lambda>_. deque_unlock ws ws)) ?post s3"
      by (rule wp_leave [OF lk3 _ u3(1)])
        (use left_inv [OF core3 lk3 u3(1)] u3 calm_fields [OF u3(4)] t(3) in simp_all)
  qed
  have "wp (recursively_signal_abort (next_cid ?s1) ws t ALMOST_NO_ABORT)
    (\<lambda>_. wp (bindM (poll_inlets ws t) (\<lambda>_. bindM (Closure_unlock ws t) (\<lambda>_. deque_unlock ws ws))) ?post) ?s1"
    by (rule wp_mono [OF abort_quiet [OF pol]]) (use rest in blast)
  moreover have "mutex_owner ?u = Some ws" by simp
  ultimately have "wp (bindM (getC t) (\<lambda>u.
     bindM (CILK_ASSERT 1495 (status u = CLOSURE_RUNNING)) (\<lambda>_.
     bindM (Closure_at_top_of_stack t) (\<lambda>top.
     bindM (CILK_ASSERT 1496 top) (\<lambda>_.
     bindM (Cilk_event ws EVENT_ABORT_SLOW) (\<lambda>_.
     bindM (getM next_cid) (\<lambda>fuel.
     bindM (recursively_signal_abort fuel ws t ALMOST_NO_ABORT) (\<lambda>_.
     bindM (poll_inlets ws t) (\<lambda>_.
     bindM (Closure_unlock ws t) (\<lambda>_.
     deque_unlock ws ws)))))))))) ?post (entered ws t s)"
    using t ca top
    by (simp add: wp_bind wp_getC wp_assert wp_Closure_at_top_of_stack wp_event wp_get at_top_def)
  then show ?thesis
    unfolding Cilk_abort_slow_def by (intro wp_enter [OF core ul t(1,2)])
qed

text \<open>A ready closure that was aborted waits for its children or returns at once, its frame freed.\<close>

lemma abort_ready_law:
  assumes core: "sched_core s dq" and lk: "locks_are ws {t} {} s" and c: "closures s t = Some u"
    and st: "status u = CLOSURE_READY" and free: "\<And>w. t \<notin> set (dq w)" and ab: "abort_status u = ABORT_ALL"
    and f: "join_counter u = 0 \<Longrightarrow> valid_frame s u"
  shows "wp (abort_ready_closure ws t)
    (\<lambda>r s'. sched_core s' dq \<and> locks_are ws {t} {} s' \<and> r = (if join_counter u = 0 then Some t else None)
        \<and> (\<exists>u'. closures s' t = Some u'
             \<and> status u' = (if join_counter u = 0 then CLOSURE_RETURNING else CLOSURE_SUSPENDED))) s"
proof -
  have change: "sched_core (s\<lparr>closures := (closures s)(t \<mapsto> u\<lparr>status := st'\<rparr>)\<rparr>) dq"
    if "st' = (if join_counter u = 0 then CLOSURE_RETURNING else CLOSURE_SUSPENDED)" for st'
  proof -
    let ?s = "s\<lparr>closures := (closures s)(t \<mapsto> u\<lparr>status := st'\<rparr>)\<rparr>"
    have dqs: "is_deques ?s dq" by (rule is_deques_closure [OF sched_coreD(1) [OF core] c]) simp_all
    have tree: "tree_ok (closures ?s)"
      using same_tree_ok [OF same_tree_upd [of "closures s" t u "u\<lparr>status := st'\<rparr>"] sched_coreD(2) [OF core]] c by simp
    have y: "young ?s" using sched_coreD(4) [OF core] c by (auto simp: young_def)
    have W: "worker_ok (workers ?s v)" for v using sched_coreD(8) [OF core] by simp
    have "status_ok dq d v \<and> inlets_ok v" if d: "closures ?s d = Some v" for d v
      using d sched_coreD(5,6) [OF core] c free that \<open>st' = _\<close>
      by (cases "d = t") (auto simp: status_ok_def inlets_ok_def)
    then show ?thesis by (intro sched_core_move [OF dqs _ tree y W]) simp_all
  qed
  have lk': "locks_are ws {t} {} (s\<lparr>closures := (closures s)(t \<mapsto> u\<lparr>status := st'\<rparr>)\<rparr>)" for st'
    by (rule locks_closure [OF lk c]) simp
  show ?thesis
  proof (cases "join_counter u = 0")
    case False
    let ?s1 = "s\<lparr>closures := (closures s)(t \<mapsto> u\<lparr>status := CLOSURE_SUSPENDED\<rparr>)\<rparr>"
    have "sched_core (bump ws EVENT_ABORT_READY_SUSPEND ?s1) dq"
      using sched_core_event [OF change [of CLOSURE_SUSPENDED]] False by simp
    moreover have "locks_are ws {t} {} (bump ws EVENT_ABORT_READY_SUSPEND ?s1)"
      by (rule locks_event [OF lk'])
    ultimately show ?thesis
      using False c ab by (simp add: abort_ready_closure_def wp_simps)
  next
    case True
    obtain fa fr where fr: "frame u = Some fa" "frames s fa = Some fr" "sig fr \<noteq> []"
      using f [OF True] by (auto simp: valid_frame_def)
    let ?s2 = "s\<lparr>frames := (frames s)(fa := None), event_count := (event_count s)(ws := (event_count s ws)(EVENT_ABORT_READY_RETURN := Suc (event_count s ws EVENT_ABORT_READY_RETURN))),
      closures := (closures s)(t \<mapsto> u\<lparr>status := CLOSURE_RETURNING\<rparr>)\<rparr>"
    have "sched_core ?s2 dq"
      using sched_core_event [OF sched_core_frames [OF change [of CLOSURE_RETURNING]]] True by simp
    moreover have "locks_are ws {t} {} ?s2"
      using locks_event [OF locks_frames [OF lk' [of CLOSURE_RETURNING]]] by simp
    ultimately show ?thesis
      using True fr c ab
      by (simp add: abort_ready_closure_def get_frame_size_def Cilk_destroy_frame_def wp_simps)
  qed
qed

subsection \<open>The own deque\<close>

text \<open>The worker's first attempt at work in the scheduler loop: the bottom of its own deque.\<close>

definition pop_own :: "wid \<Rightarrow> cid option rts" where
  "pop_own ws =
     bindM (deque_lock ws ws) (\<lambda>_.
     bindM (deque_xtract_bottom ws ws) (\<lambda>t.
     bindM (deque_unlock ws ws) (\<lambda>_.
     ret t)))"

lemma pop_own_law:
  assumes inv: "sched_inv s dq"
    and nr: "\<And>c u. last_opt (dq ws) = Some c \<Longrightarrow> closures s c = Some u \<Longrightarrow> status u \<noteq> CLOSURE_RUNNING"
  shows "wp (pop_own ws) (\<lambda>r s'. r = last_opt (dq ws) \<and> sched_inv s' (dq(ws := butlast (dq ws))) \<and> same_core s s') s"
proof -
  let ?s1 = "s\<lparr>deques := (deques s)(ws := (deques s ws)\<lparr>dq_mutex_owner := Some ws\<rparr>)\<rparr>"
  have core: "sched_core s dq" and ul: "unlocked s" using inv by (auto simp: sched_inv_def)
  have core1: "sched_core ?s1 dq" by (rule sched_core_dqlock [OF core])
  have lk1: "locks_are ws {} {ws} ?s1" using locks_dqlock [OF unlockedD [OF ul]] by simp
  have st: "status_ok (dq(ws := butlast (dq ws))) c u \<and> inlets_ok u" if c: "closures ?s1 c = Some u" for c u
  proof (cases "last_opt (dq ws) = Some c")
    case True
    have "c \<notin> set (dq w)" if "w \<noteq> ws" for w
      using is_deques_disjoint [OF sched_coreD(1) [OF core] last_opt_mem [OF True], of w] that by auto
    moreover have "c \<notin> set (butlast (dq ws))"
      using True is_dequesD(3) [OF sched_coreD(1) [OF core], of ws] by (cases "dq ws" rule: rev_cases) auto
    ultimately show ?thesis
      using nr [OF True] c sched_coreD(5,6) [OF core1 c] by (auto simp: status_ok_def split: ClosureStatus.splits)
  next
    case False
    show ?thesis
    proof (cases "last_opt (dq ws)")
      case None
      then have "dq ws = []" by simp
      then have "dq(ws := butlast (dq ws)) = dq" by auto
      then show ?thesis using sched_coreD(5,6) [OF core1 c] by simp
    next
      case (Some d)
      with False have "c \<noteq> d" by simp
      from status_ok_butlast [OF sched_coreD(1) [OF core1] sched_coreD(5) [OF core1 c] Some this] sched_coreD(6) [OF core1 c]
      show ?thesis by blast
    qed
  qed
  have "wp (deque_xtract_bottom ws ws)
    (\<lambda>r. wp (bindM (deque_unlock ws ws) (\<lambda>_. ret r))
       (\<lambda>r s'. r = last_opt (dq ws) \<and> sched_inv s' (dq(ws := butlast (dq ws))) \<and> same_core s s')) ?s1"
  proof (rule wp_mono [OF deque_xtract_bottom_law [OF sched_coreD(1) [OF core1]]])
    fix r s2 assume s2: "r = last_opt (dq ws) \<and> is_deques s2 (dq(ws := butlast (dq ws))) \<and> same_core ?s1 s2"
    let ?s3 = "s2\<lparr>deques := (deques s2)(ws := (deques s2 ws)\<lparr>dq_mutex_owner := None\<rparr>)\<rparr>"
    have core2: "sched_core s2 (dq(ws := butlast (dq ws)))"
      using s2 by (intro sched_core_move [OF _ _ sched_coreD(2,4,8) [OF core1] st]) auto
    have lk2: "locks_are ws {} {ws} s2" using s2 locks_same_core [OF _ lk1] by blast
    have "sched_inv ?s3 (dq(ws := butlast (dq ws)))"
      using sched_core_dqlock [OF core2] locks_dqunlock [OF lk2, of ws] by (simp add: sched_inv_def unlockedI)
    moreover have "same_core s ?s3"
    proof -
      from s2 obtain C D where CD: "s2 = ?s1\<lparr>deques := D, closures := C\<rparr>"
        "\<forall>c. map_option core (C c) = map_option core (closures s c)"
        "\<forall>p. dq_mutex_owner (D p) = dq_mutex_owner (deques ?s1 p)" by (auto simp: same_core_def)
      have "?s3 = s\<lparr>deques := D(ws := (D ws)\<lparr>dq_mutex_owner := None\<rparr>), closures := C\<rparr>"
        using CD(1) by simp
      moreover have "\<forall>p. dq_mutex_owner ((D(ws := (D ws)\<lparr>dq_mutex_owner := None\<rparr>)) p) = dq_mutex_owner (deques s p)"
        using CD(3) ul by (simp add: unlocked_def)
      ultimately show ?thesis using CD(2) unfolding same_core_def by blast
    qed
    ultimately show "wp (bindM (deque_unlock ws ws) (\<lambda>_. ret r))
       (\<lambda>r s'. r = last_opt (dq ws) \<and> sched_inv s' (dq(ws := butlast (dq ws))) \<and> same_core s s') s2"
      using s2 lk2 by (simp add: wp_simps locks_are_def)
  qed simp
  then show ?thesis using ul by (simp add: pop_own_def wp_bind wp_deque_lock unlocked_def)
qed

subsection \<open>Starting a closure\<close>

text \<open>
  \<open>do_what_it_says\<close> up to the point where it calls the user's code: the next closure of the worker, or
  the slow version to run and its frame.
\<close>

definition prepare :: "wid \<Rightarrow> cid \<Rightarrow> Closure \<Rightarrow> (nat option \<times> addr) rts" where
  "prepare ws t cl =
     bindM (setup_for_execution ws t) (\<lambda>_.
     bindM (CILK_ASSERT 1572 (frame cl \<noteq> None)) (\<lambda>_.
     bindM (deref (frame cl)) (\<lambda>f.
     bindM (getF f) (\<lambda>fr.
     bindM (CILK_ASSERT 1573 (sig fr \<noteq> [])) (\<lambda>_.
     bindM (CILK_ASSERT 1574 (frame_magic fr)) (\<lambda>_.
     bindM (poll_inlets ws t) (\<lambda>_.
     bindM (Closure_unlock ws t) (\<lambda>_.
     bindM (deque_lock ws ws) (\<lambda>_.
     bindM (deque_add_bottom ws t ws) (\<lambda>_.
     bindM (deque_unlock ws ws) (\<lambda>_.
     bindM (get_proc_slow (sig fr)) (\<lambda>fn.
     ret (fn, f)))))))))))))"

definition dispatch :: "wid \<Rightarrow> cid \<Rightarrow> (cid option + nat option \<times> addr) rts" where
  "dispatch ws t =
     bindM (Closure_assert_alienation ws t) (\<lambda>_.
     bindM (Closure_lock ws t) (\<lambda>_.
     bindM (getC t) (\<lambda>cl.
     case status cl of
       CLOSURE_READY \<Rightarrow>
         bindM (Closure_being_aborted ws t) (\<lambda>aborted.
         if aborted then
           bindM (abort_ready_closure ws t) (\<lambda>res.
           bindM (Closure_unlock ws t) (\<lambda>_.
           ret (Inl res)))
         else bindM (prepare ws t cl) (\<lambda>call. ret (Inr call)))
     | CLOSURE_RETURNING \<Rightarrow>
         bindM (Closure_unlock ws t) (\<lambda>_. bindM (return_value_step ws t) (\<lambda>res. ret (Inl res)))
     | _ \<Rightarrow> failM (Die 1604))))"

lemma bindM_assoc: "bindM (bindM m f) g = bindM m (\<lambda>x. bindM (f x) g)"
  by (simp add: bindM_def fun_eq_iff split: sum.split)

lemma ret_bindM: "bindM (ret x) f = f x"
  by (simp add: bindM_def ret_def fun_eq_iff)

lemma bindM_ret: "bindM m ret = m"
  by (auto simp: bindM_def ret_def fun_eq_iff split: sum.split)

lemma do_what_it_says_dispatch:
  "do_what_it_says run ws t =
     bindM (dispatch ws t) (\<lambda>x. case x of Inl res \<Rightarrow> ret res
       | Inr (fn, f) \<Rightarrow> bindM (run ws fn f) (\<lambda>_. ret None))"
proof -
  have split: "bindM (case st of CLOSURE_RUNNING \<Rightarrow> a | CLOSURE_SUSPENDED \<Rightarrow> b | CLOSURE_RETURNING \<Rightarrow> c | CLOSURE_READY \<Rightarrow> d) k
    = (case st of CLOSURE_RUNNING \<Rightarrow> bindM a k | CLOSURE_SUSPENDED \<Rightarrow> bindM b k | CLOSURE_RETURNING \<Rightarrow> bindM c k | CLOSURE_READY \<Rightarrow> bindM d k)"
    for st and a b c d :: "'x rts" and k :: "'x \<Rightarrow> 'y rts"
    by (cases st) simp_all
  have cond: "bindM (if p then a else b) k = (if p then bindM a k else bindM b k)"
    for p and a b :: "'x rts" and k :: "'x \<Rightarrow> 'y rts"
    by simp
  have fail: "bindM (failM e) k = failM e" for e and k :: "'x \<Rightarrow> 'y rts"
    by (simp add: bindM_def failM_def fun_eq_iff)
  show ?thesis
    unfolding do_what_it_says_def dispatch_def prepare_def
    by (simp add: bindM_assoc ret_bindM bindM_ret split cond fail cong: if_cong ClosureStatus.case_cong)
qed

text \<open>A closure pushed on a deque of ready closures changes no other closure's standing.\<close>

lemma status_ok_append:
  assumes "status_ok dq d v" "d \<noteq> t" "d \<in> set (dq w) \<Longrightarrow> status v = CLOSURE_READY"
  shows "status_ok (dq(w := dq w @ [t])) d v"
proof (cases "status v")
  case CLOSURE_RUNNING
  then have "d \<notin> set (dq w)" using assms(3) by auto
  with CLOSURE_RUNNING assms(1) show ?thesis by (auto simp: status_ok_def last_opt_mem)
next
  case CLOSURE_RETURNING
  then have "d \<notin> set (dq w)" using assms(3) by auto
  with CLOSURE_RETURNING assms(1,2) show ?thesis by (auto simp: status_ok_def)
next
  case CLOSURE_SUSPENDED
  with assms(1,2) show ?thesis by (auto simp: status_ok_def)
next
  case CLOSURE_READY
  then show ?thesis by (simp add: status_ok_def)
qed

text \<open>The state once the closure is set up, before its inlets are polled.\<close>

definition set_up :: "wid \<Rightarrow> cid \<Rightarrow> Closure \<Rightarrow> addr \<Rightarrow> Rts \<Rightarrow> Rts" where
  "set_up ws t u f s = (upd_cache ws (\<lambda>k. k\<lparr>stack := (stack k)(0 := f), head := 0, tail := 1, exception := 0\<rparr>) s)
     \<lparr>closures := (closures s)(t \<mapsto> u\<lparr>status := CLOSURE_RUNNING, cache := Some ws, abort_status := NO_ABORT\<rparr>)\<rparr>"

lemma set_up_fields [simp]:
  "closures (set_up ws t u f s) = (closures s)(t \<mapsto> u\<lparr>status := CLOSURE_RUNNING, cache := Some ws, abort_status := NO_ABORT\<rparr>)"
  "frames (set_up ws t u f s) = frames s" "next_cid (set_up ws t u f s) = next_cid s" "deques (set_up ws t u f s) = deques s"
  "wcache (workers (set_up ws t u f s) v) =
     (if v = ws then (wcache (workers s ws))\<lparr>stack := (stack (wcache (workers s ws)))(0 := f), head := 0, tail := 1, exception := 0\<rparr>
      else wcache (workers s v))"
  by (simp_all add: set_up_def)

lemma setup_for_execution_law:
  assumes "closures s t = Some u" "mutex_owner u = Some ws" "frame u = Some f" "frames s f = Some fr" "frame_magic fr"
    and "Q () (set_up ws t u f s)"
  shows "wp (setup_for_execution ws t) Q s"
proof -
  let ?u = "u\<lparr>status := CLOSURE_RUNNING, cache := Some ws\<rparr>"
  have up: "upd_cache ws (\<lambda>k. k\<lparr>exception := enat (head k)\<rparr>)
      (upd_cache ws (\<lambda>k. k\<lparr>stack := (stack k)(0 := f), head := 0, tail := 1\<rparr>) (s\<lparr>closures := (closures s)(t \<mapsto> ?u)\<rparr>))
    = (upd_cache ws (\<lambda>k. k\<lparr>stack := (stack k)(0 := f), head := 0, tail := 1, exception := 0\<rparr>) s)\<lparr>closures := (closures s)(t \<mapsto> ?u)\<rparr>"
    by (simp add: upd_cache_def zero_enat_def)
  show ?thesis
    using assms
    by (simp add: setup_for_execution_def reset_exception_pointer_def wp_bind wp_Closure_assert_ownership wp_getC
        wp_deref wp_getF wp_assert wp_updC wp_CLOSURE_CACHE_update wp_reset_abort up fun_upd_same set_up_def
        del: fun_upd_apply One_nat_def)
qed

lemma same_skeleton_trans: "same_skeleton s s' \<Longrightarrow> same_skeleton s' s'' \<Longrightarrow> same_skeleton s s''"
  by (simp add: same_skeleton_def)

lemma prepare_law:
  assumes core: "sched_core s dq" and lk: "locks_are ws {t} {} s" and c: "closures s t = Some u"
    and st: "status u = CLOSURE_READY" and free: "\<And>w. t \<notin> set (dq w)" and f: "valid_frame s u"
    and ready: "\<And>d v. d \<in> set (dq ws) \<Longrightarrow> closures s d = Some v \<Longrightarrow> status v = CLOSURE_READY"
  shows "wp (prepare ws t u)
    (\<lambda>r s'. sched_inv s' (dq(ws := dq ws @ [t])) \<and> frame u = Some (snd r) \<and> at_top s' ws
       \<and> (\<exists>u'. closures s' t = Some u' \<and> status u' = CLOSURE_RUNNING \<and> join_counter u' = join_counter u
            \<and> frame u' = frame u \<and> complete_inlets u' = [])) s"
proof -
  let ?post = "\<lambda>r s'. sched_inv s' (dq(ws := dq ws @ [t])) \<and> frame u = Some (snd r) \<and> at_top s' ws
       \<and> (\<exists>u'. closures s' t = Some u' \<and> status u' = CLOSURE_RUNNING \<and> join_counter u' = join_counter u
            \<and> frame u' = frame u \<and> complete_inlets u' = [])"
  obtain fa fr where fr: "frame u = Some fa" "frames s fa = Some fr" "frame_magic fr" "sig fr \<noteq> []"
    using f by (auto simp: valid_frame_def)
  have own: "mutex_owner u = Some ws" using lk c by (simp add: locks_are_def)
  let ?u = "u\<lparr>status := CLOSURE_RUNNING, cache := Some ws, abort_status := NO_ABORT\<rparr>"
  let ?s1 = "set_up ws t u fa s"
  have c1: "closures ?s1 t = Some ?u" by simp
  have tree: "same_tree (closures s) (closures ?s1)" using same_tree_upd [of "closures s" t u ?u] c by simp
  have W: "worker_ok (workers ?s1 w)" for w using sched_coreD(8) [OF core, of w] by (simp add: worker_ok_def zero_enat_def)
  have lk1: "locks_are ws {t} {} ?s1" using lk c by (auto simp: locks_are_def)
  have y1: "young ?s1" using sched_coreD(4) [OF core] c by (auto simp: young_def)
  have dqs1: "is_deques ?s1 dq"
    using same_skeleton_deques [of "s\<lparr>closures := (closures s)(t \<mapsto> ?u)\<rparr>" ?s1 dq] is_deques_closure [OF sched_coreD(1) [OF core] c, of ?u]
    by (simp add: same_skeleton_def)
  have "pollable ws s t" by (rule pollable_core [OF core lk c]) simp
  then have ab: "abortable s (descendants (closures s) t)" by (simp add: pollable_def)
  have kids: "kids_ok (closures s)" by (rule sched_coreD(3) [OF core])
  have "t \<notin> descendants (closures s) t" using descendants_younger [OF kids] by blast
  then have "abortable ?s1 (descendants (closures ?s1) t)"
    unfolding same_tree_descendants [OF tree] using ab by (auto simp: abortable_def)
  then have pol: "pollable ws ?s1 t"
    using own same_tree_kids_ok [OF tree kids] y1 by (simp add: pollable_def)
  have sh: "shallow ?s1 t" by (simp add: shallow_def)
  have rest: "wp (bindM (Closure_unlock ws t) (\<lambda>_.
     bindM (deque_lock ws ws) (\<lambda>_.
     bindM (deque_add_bottom ws t ws) (\<lambda>_.
     bindM (deque_unlock ws ws) (\<lambda>_.
     bindM (get_proc_slow (sig fr)) (\<lambda>fn.
     ret (fn, fa))))))) ?post s2"
    if q: "quiet {t} ?s1 s2" and c2: "closures s2 t = Some u2" "complete_inlets u2 = []" for s2 u2
  proof -
    have calm2: "calm u2 = calm ?u" using quietD [OF q c1] c2(1) by auto
    note f2 = calm_fields [OF calm2]
    have lk2: "locks_are ws {t} {} s2" by (rule locks_quiet [OF q lk1])
    let ?u3 = "u2\<lparr>mutex_owner := None\<rparr>"
    let ?s3 = "s2\<lparr>deques := (deques s2)(ws := (deques s2 ws)\<lparr>dq_mutex_owner := Some ws\<rparr>), closures := (closures s2)(t \<mapsto> ?u3)\<rparr>"
    have sk: "same_skeleton ?s1 ?s3"
    proof (rule same_skeleton_trans [OF quiet_skeleton [OF q]])
      show "same_skeleton s2 ?s3" using c2 by (simp add: same_skeleton_def)
    qed
    have dqs3: "is_deques ?s3 dq" by (rule same_skeleton_deques [OF sk dqs1])
    have lk3: "locks_are ws {} {ws} ?s3"
      using locks_dqlock [OF locks_unlock [OF lk2, of t u2], of ws] by simp
    have own3: "dq_mutex_owner (deques ?s3 ws) = Some ws" by simp
    have c3: "closures ?s3 t = Some ?u3" by simp
    have "owner_ready_deque u \<noteq> Some w" for w using is_deques_owner [OF sched_coreD(1) [OF core] c, of w] free by simp
    then have none: "owner_ready_deque ?u3 = None" using f2 by (cases "owner_ready_deque u") auto
    have tree3: "tree_ok (closures ?s3)"
      by (rule same_tree_ok [OF same_skeleton_tree [OF sk] same_tree_ok [OF tree sched_coreD(2) [OF core]]])
    have y3: "young ?s3" using quiet_young [OF q y1] c2 by (auto simp: young_def)
    have W3: "worker_ok (workers ?s3 w)" for w
      using same_cache_ok [OF quiet_fields(9) [OF q] W] by simp
    let ?dq = "dq(ws := dq ws @ [t])"
    have st3: "status_ok ?dq d v \<and> inlets_ok v" if d: "closures ?s3 d = Some v" for d v
    proof (cases "d = t")
      case True
      then have "v = ?u3" using d by simp
      then show ?thesis
        using f2 sched_coreD(6) [OF core c] True by (simp add: status_ok_def inlets_ok_def)
    next
      case False
      then have "closures s2 d = Some v" using d by simp
      then obtain w where w: "closures ?s1 d = Some w" "calm v = calm w" using quietD' [OF q] by blast
      then have "closures s d = Some w" using False by simp
      with sched_coreD(5,6) [OF core] status_ok_append [OF _ False] ready
      have "status_ok ?dq d w \<and> inlets_ok w" by blast
      then show ?thesis
        using calm_fields [OF w(2)] by (cases "status w") (simp_all add: status_ok_def inlets_ok_def del: fun_upd_apply)
    qed
    have "wp (deque_add_bottom ws t ws) (\<lambda>_. wp (bindM (deque_unlock ws ws) (\<lambda>_.
       bindM (get_proc_slow (sig fr)) (\<lambda>fn. ret (fn, fa)))) ?post) ?s3"
    proof (rule wp_mono [OF deque_add_bottom_law [OF dqs3 own3 c3 none]])
      fix a s4 assume s4: "is_deques s4 ?dq \<and> same_core ?s3 s4"
      then have q4: "same_core ?s3 s4" by simp
      have core4: "sched_core s4 ?dq"
        by (rule sched_core_move [OF conjunct1 [OF s4] q4 tree3 y3 W3 st3])
      have lk4: "locks_are ws {} {ws} s4" by (rule locks_same_core [OF q4 lk3])
      obtain u4 where u4: "closures s4 t = Some u4" "core u4 = core ?u3" using same_core_closure [OF q4 c3] by blast
      let ?s5 = "s4\<lparr>deques := (deques s4)(ws := (deques s4 ws)\<lparr>dq_mutex_owner := None\<rparr>)\<rparr>"
      have "sched_inv ?s5 ?dq"
        using sched_core_dqlock [OF core4] locks_dqunlock [OF lk4, of ws] by (simp add: sched_inv_def unlockedI)
      moreover have "at_top ?s5 ws"
        using same_core_fields [OF q4] quiet_fields(9) [OF q, of ws] by (simp add: at_top_def same_cache_def)
      ultimately show "wp (bindM (deque_unlock ws ws) (\<lambda>_.
       bindM (get_proc_slow (sig fr)) (\<lambda>fn. ret (fn, fa)))) ?post s4"
        using lk4 fr u4(1) core_fields [OF u4(2)] f2 c2
        by (simp add: wp_bind wp_deque_unlock get_proc_slow_def wp_ret locks_are_def)
    qed
    then show ?thesis
      using lk2 c2 by (simp add: wp_bind wp_Closure_unlock wp_deque_lock locks_are_def)
  qed
  have "wp (bindM (poll_inlets ws t) (\<lambda>_. bindM (Closure_unlock ws t) (\<lambda>_.
     bindM (deque_lock ws ws) (\<lambda>_.
     bindM (deque_add_bottom ws t ws) (\<lambda>_.
     bindM (deque_unlock ws ws) (\<lambda>_.
     bindM (get_proc_slow (sig fr)) (\<lambda>fn.
     ret (fn, fa)))))))) ?post ?s1"
    unfolding wp_bind [of "poll_inlets ws t"]
    by (rule wp_mono [OF poll_inlets_shallow [OF pol sh]]) (use rest in blast)
  then show ?thesis
    unfolding prepare_def wp_bind [of "setup_for_execution ws t"]
    by (intro setup_for_execution_law [OF c own fr(1-3)])
      (use fr in \<open>simp add: wp_bind wp_assert wp_deref wp_getF\<close>)
qed

end
