(* ===== verification/Rts_Frame.thy ===== *)
theory Rts_Frame
  imports Rts_Start Rts_Return
begin

section \<open>What the handlers leave alone\<close>

text \<open>
  The laws of the handlers say what becomes of the closure a handler works on. Here is the rest: the
  status of every other closure stays what it was, no closure is left with the status
  \<open>ALMOST_NO_ABORT\<close>, which only lasts while the inlets are polled, and a new closure runs. These are facts on all runs that end
  normally, so they are proved in a partial logic, operation by operation.
\<close>

definition tri :: "(Rts \<Rightarrow> bool) \<Rightarrow> 'a rts \<Rightarrow> ('a \<Rightarrow> Rts \<Rightarrow> bool) \<Rightarrow> bool" where
  "tri P m Q \<longleftrightarrow> (\<forall>s r s'. P s \<longrightarrow> m s = Inr (r, s') \<longrightarrow> Q r s')"

abbreviation keeps :: "(Rts \<Rightarrow> bool) \<Rightarrow> 'a rts \<Rightarrow> bool" where
  "keeps P m \<equiv> tri P m (\<lambda>_. P)"

named_theorems keeps

lemma tri_bind: "tri P m R \<Longrightarrow> (\<And>a. tri (R a) (f a) Q) \<Longrightarrow> tri P (bindM m f) Q"
  unfolding tri_def bindM_def by (fastforce split: sum.splits)

lemma keeps_bind [keeps]: "keeps P m \<Longrightarrow> (\<And>a. keeps P (f a)) \<Longrightarrow> keeps P (bindM m f)"
  by (rule tri_bind)

lemma tri_pre: "tri P m Q \<Longrightarrow> (\<And>s. P' s \<Longrightarrow> P s) \<Longrightarrow> tri P' m Q"
  by (auto simp: tri_def)

lemma wp_tri: "wp m Q s \<Longrightarrow> tri P m R \<Longrightarrow> P s \<Longrightarrow> wp m (\<lambda>r s'. Q r s' \<and> R r s') s"
  unfolding wp_def tri_def by (auto split: sum.splits)

lemma tri_run: "tri P m Q \<Longrightarrow> P s \<Longrightarrow> m s = Inr (r, s') \<Longrightarrow> Q r s'"
  by (auto simp: tri_def)

lemma keeps_simple [keeps]:
  "keeps P (ret x)" "keeps P (failM e)" "keeps P (getM f)" "keeps P (guardM e b)" "keeps P (CILK_ASSERT n c)"
  "keeps P (getC c')" "keeps P (deref y)" "keeps P (getF a)" "keeps P (getW w)" "keeps P (getD w)"
  by (auto simp: tri_def ret_def failM_def getM_def guardM_def CILK_ASSERT_def getC_def deref_def getF_def
      getW_def getD_def split: if_splits option.splits)

lemma keeps_if [keeps]: "keeps P a \<Longrightarrow> keeps P b \<Longrightarrow> keeps P (if c then a else b)"
  by simp

lemma keeps_option [keeps]: "keeps P a \<Longrightarrow> (\<And>x. keeps P (b x)) \<Longrightarrow> keeps P (case y of None \<Rightarrow> a | Some x \<Rightarrow> b x)"
  by (cases y) simp_all

lemma keeps_list [keeps]: "keeps P a \<Longrightarrow> (\<And>x xs. keeps P (b x xs)) \<Longrightarrow> keeps P (case y of [] \<Rightarrow> a | x # xs \<Rightarrow> b x xs)"
  by (cases y) simp_all

lemma keeps_prod [keeps]: "(\<And>x z. keeps P (b x z)) \<Longrightarrow> keeps P (case y of (x, z) \<Rightarrow> b x z)"
  by (cases y) simp_all

lemma keeps_status [keeps]:
  "keeps P a \<Longrightarrow> keeps P b \<Longrightarrow> keeps P c \<Longrightarrow> keeps P d \<Longrightarrow>
   keeps P (case st of CLOSURE_RUNNING \<Rightarrow> a | CLOSURE_SUSPENDED \<Rightarrow> b | CLOSURE_RETURNING \<Rightarrow> c | CLOSURE_READY \<Rightarrow> d)"
  by (cases st) simp_all

lemma keeps_read:
  "keeps P (Closure_assert_ownership ws t)" "keeps P (deque_assert_ownership ws pn)" "keeps P (CLOSURE_CACHE c)"
  unfolding Closure_assert_ownership_def deque_assert_ownership_def CLOSURE_CACHE_def by (intro keeps)+

subsection \<open>Invariants of the heap of closures\<close>

text \<open>
  The interface of such a fact \<open>I\<close>: it speaks only of the status and the abort status of closures. It
  survives a change of status of the closures in \<open>S\<close>, a change to \<open>ALMOST_NO_ABORT\<close> of those in \<open>E\<close>, and
  the creation of a running closure.
\<close>

locale closure_invariant =
  fixes I :: "(cid \<Rightarrow> Closure option) \<Rightarrow> cid \<Rightarrow> bool" and S :: "cid set" and E :: "cid set"
  assumes I_upd: "I h n \<Longrightarrow> h c = Some t \<Longrightarrow> status t' = status t \<Longrightarrow> abort_status t' = abort_status t \<Longrightarrow> I (h(c \<mapsto> t')) n"
    and I_status: "I h n \<Longrightarrow> h c = Some t \<Longrightarrow> c \<in> S \<Longrightarrow> abort_status t' = abort_status t \<Longrightarrow> I (h(c \<mapsto> t')) n"
    and I_abort: "I h n \<Longrightarrow> h c = Some t \<Longrightarrow> status t' = status t \<Longrightarrow> abort_status t' = ALMOST_NO_ABORT \<longrightarrow> c \<in> E \<Longrightarrow>
      I (h(c \<mapsto> t')) n"
    and I_new: "I h n \<Longrightarrow> abort_status t = NO_ABORT \<Longrightarrow> status t = CLOSURE_RUNNING \<Longrightarrow> I (h(n \<mapsto> t)) (Suc n)"
    and I_free: "I h n \<Longrightarrow> c \<in> S \<Longrightarrow> I (h(c := None)) n"
begin

abbreviation J :: "Rts \<Rightarrow> bool" where
  "J s \<equiv> I (closures s) (next_cid s)"

lemma keeps_state [keeps]:
  "keeps J (Cilk_event ws e)" "keeps J (updW w f)" "keeps J (updD w g)" "keeps J (set_abort_flag ws b)"
  by (simp_all add: tri_def Cilk_event_def modifyM_def updW_def updD_def set_abort_flag_def)

lemma keeps_modify: "(\<And>s. closures (f s) = closures s \<and> next_cid (f s) = next_cid s) \<Longrightarrow> keeps J (modifyM f)"
  by (simp add: tri_def modifyM_def)

lemma keeps_updC:
  assumes "\<And>t. status (f t) = status t \<and> abort_status (f t) = abort_status t"
  shows "keeps J (updC c f)"
  using assms I_upd by (auto simp: tri_def updC_def split: option.splits)

lemma keeps_updC_status:
  assumes "c \<in> S" "\<And>t. abort_status (f t) = abort_status t"
  shows "keeps J (updC c f)"
  using assms I_status by (auto simp: tri_def updC_def split: option.splits)

lemma keeps_updC_abort:
  assumes "\<And>t. status (f t) = status t" "\<And>t. abort_status (f t) = ALMOST_NO_ABORT \<longrightarrow> c \<in> E"
  shows "keeps J (updC c f)"
  using assms I_abort by (auto simp: tri_def updC_def split: option.splits)

lemma keeps_deques [keeps]:
  "keeps J (Closure_checkmagic ws t)" "keeps J (Closure_assert_ownership ws t)"
  "keeps J (Closure_assert_alienation ws t)" "keeps J (Closure_lock ws t)" "keeps J (Closure_unlock ws t)"
  "keeps J (deque_assert_ownership ws pn)" "keeps J (deque_lock ws pn)" "keeps J (deque_unlock ws pn)"
  unfolding Closure_checkmagic_def Closure_assert_ownership_def Closure_assert_alienation_def Closure_lock_def
    Closure_unlock_def deque_assert_ownership_def deque_lock_def deque_unlock_def
  by (intro keeps keeps_updC; simp)+

lemma keeps_deque_ops [keeps]:
  "keeps J (deque_xtract_top ws pn)" "keeps J (deque_peek_top ws pn)" "keeps J (deque_xtract_bottom ws pn)"
  "keeps J (deque_peek_bottom ws pn)" "keeps J (deque_add_bottom ws t pn)" "keeps J (deque_assert_is_bottom ws t)"
  unfolding deque_xtract_top_def deque_peek_top_def deque_xtract_bottom_def deque_peek_bottom_def
    deque_add_bottom_def deque_assert_is_bottom_def
  by (intro keeps keeps_updC; simp)+

lemma keeps_cache [keeps]:
  "keeps J (CLOSURE_CACHE c)" "keeps J (CLOSURE_CACHE_update c f)" "keeps J (Closure_at_top_of_stack c)"
  "keeps J (Closure_has_children c)" "keeps J (increment_exception_pointer ws c)"
  "keeps J (decrement_exception_pointer ws c)" "keeps J (reset_exception_pointer ws c)"
  "keeps J (signal_immediate_exception ws c)" "keeps J (Closure_being_aborted ws c)"
  unfolding CLOSURE_CACHE_def CLOSURE_CACHE_update_def Closure_at_top_of_stack_def Closure_has_children_def
    increment_exception_pointer_def decrement_exception_pointer_def reset_exception_pointer_def
    signal_immediate_exception_def Closure_being_aborted_def
  by (intro keeps; simp)+

text \<open>A new closure counts from the moment it has its status.\<close>

definition half_new :: "cid \<Rightarrow> Rts \<Rightarrow> bool" where
  "half_new c s \<longleftrightarrow> (\<exists>h t. closures s = h(c \<mapsto> t) \<and> next_cid s = Suc c \<and> I h c \<and> abort_status t = NO_ABORT)"

lemma tri_Closure_create: "tri J (Closure_create ws) half_new"
  unfolding tri_def
proof (intro allI impI)
  fix s r s' assume J: "J s" and run: "Closure_create ws s = Inr (r, s')"
  have "wp (Closure_create ws) half_new s"
    using J by (auto simp: wp_Closure_create half_new_def initialised_def intro!: exI [where x = "closures s"])
  then show "half_new r s'" using run by (simp add: wp_def)
qed

lemma tri_half_new:
  assumes "\<And>t. abort_status (f t) = abort_status t \<and> status (f t) = CLOSURE_RUNNING"
  shows "tri (half_new c) (updC c f) (\<lambda>_. J)"
  unfolding tri_def
proof (intro allI impI)
  fix s r s' assume s: "half_new c s" and run: "updC c f s = Inr (r, s')"
  then obtain h t where h: "closures s = h(c \<mapsto> t)" "next_cid s = Suc c" "I h c" "abort_status t = NO_ABORT"
    by (auto simp: half_new_def)
  then show "J s'" using run assms [of t] I_new [OF h(3), of "f t"] by (auto simp: updC_def)
qed

lemma tri_half_bind: "tri (half_new c) m (\<lambda>_. half_new c) \<Longrightarrow> (\<And>x. tri (half_new c) (k x) Q) \<Longrightarrow> tri (half_new c) (bindM m k) Q"
  by (rule tri_bind)

lemma tri_pure: "(p \<Longrightarrow> tri J m Q) \<Longrightarrow> tri (\<lambda>s. J s \<and> p) m Q"
  by (auto simp: tri_def)

lemma keeps_promote [keeps]: "keeps J (promote_child ws pa v)"
proof -
  note half = tri_half_bind [OF keeps_read(1)] tri_half_bind [OF keeps_read(2)] tri_half_bind [OF keeps_read(3)]
    tri_half_bind [OF keeps_simple(5)] tri_half_bind [OF keeps_simple(6)]
    tri_bind [OF tri_half_new]
  show ?thesis
    unfolding promote_child_def
    by (rule tri_bind [OF tri_Closure_create], (rule half)+, simp) (intro keeps keeps_updC; simp)
qed

lemma keeps_inlet [keeps]: "keeps J (get_CilkProcInfo ws p e)" "keeps J (make_incomplete_inlet_closure ws pa e)"
  unfolding get_CilkProcInfo_def make_incomplete_inlet_closure_def by (intro keeps; simp)+

lemma keeps_children [keeps]: "keeps J (Closure_add_child ws pa c)" "keeps J (Closure_remove_child ws pa c)"
  unfolding Closure_add_child_def Closure_remove_child_def by (intro keeps keeps_updC; simp)+

lemma keeps_make_ready [keeps]: "c \<in> S \<Longrightarrow> keeps J (Closure_make_ready c)"
  unfolding Closure_make_ready_def by (rule keeps_updC_status) simp_all

lemma keeps_finish [keeps]: "pa \<in> S \<Longrightarrow> keeps J (finish_promote ws pa c)"
  unfolding finish_promote_def by (intro keeps keeps_updC; simp)+

lemma keeps_signal_abort [keeps]:
  assumes "st = ALMOST_NO_ABORT \<longrightarrow> c \<in> E"
  shows "keeps J (signal_abort c st)"
proof -
  have "I (h(c \<mapsto> if st < abort_status t then t\<lparr>abort_status := st\<rparr> else t)) n" if "I h n" "h c = Some t" for h n t
    using assms I_abort [OF that, of "t\<lparr>abort_status := st\<rparr>"] I_upd [OF that, of t] by simp
  then show ?thesis by (auto simp: tri_def signal_abort_def updC_def split: option.splits)
qed

lemma keeps_abort:
  "(st = ALMOST_NO_ABORT \<longrightarrow> c \<in> E) \<Longrightarrow> keeps J (recursively_signal_abort n ws c st)"
  "keeps J (signal_abort_children n ws ps)"
proof (induction n ws c st and n ws ps rule: recursively_signal_abort_signal_abort_children.induct)
  case (2 n ws cl st)
  then show ?case unfolding recursively_signal_abort.simps by (intro keeps) simp_all
next
  case (4 n ws p ps)
  then show ?case unfolding signal_abort_children.simps by (intro keeps) simp_all
qed (simp_all add: keeps)

lemma keeps_reset [keeps]: "keeps J (reset_abort c)" "keeps J (maybe_reset_abort c)"
  unfolding maybe_reset_abort_def reset_abort_def by (intro keeps keeps_updC_abort; simp)+

lemma keeps_run_inlet [keeps]: "keeps J (run_inlet ws n f a recv)"
  unfolding run_inlet_def by (intro keeps keeps_modify; simp)+

lemma keeps_from_inlet [keeps]: "c \<in> S \<Longrightarrow> c \<in> E \<Longrightarrow> keeps J (signal_abort_from_inlet ws c)"
  unfolding signal_abort_from_inlet_def by (intro keeps keeps_abort; simp)+

lemma keeps_apply [keeps]: "c \<in> S \<Longrightarrow> c \<in> E \<Longrightarrow> keeps J (apply_inlet ws c i)"
  unfolding apply_inlet_def by (intro keeps keeps_modify; simp)+

lemma keeps_poll_loop [keeps]: "c \<in> S \<Longrightarrow> c \<in> E \<Longrightarrow> keeps J (poll_loop n ws c)"
proof (induction n)
  case (Suc n)
  then show ?case unfolding poll_loop.simps by (intro keeps keeps_updC) simp_all
qed (simp add: keeps)

lemma keeps_poll: "c \<in> S \<Longrightarrow> c \<in> E \<Longrightarrow> keeps J (poll_inlets ws c)"
  unfolding poll_inlets_def by (intro keeps; simp)+

lemma keeps_suspend [keeps]: "c \<in> S \<Longrightarrow> keeps J (Closure_suspend ws c)"
  unfolding Closure_suspend_def by (intro keeps keeps_updC_status; simp)+

end

subsection \<open>The handlers\<close>

text \<open>A handler keeps \<open>I\<close> when the closure it works on may change; polling its inlets is the one thing
  that may have to be justified in another way.\<close>

definition bottom_in :: "cid set \<Rightarrow> wid \<Rightarrow> Rts \<Rightarrow> bool" where
  "bottom_in A ws s \<longleftrightarrow> (\<forall>t. dq_bottom (deques s ws) = Some t \<longrightarrow> t \<in> A)"

definition top_in :: "cid set \<Rightarrow> wid \<Rightarrow> Rts \<Rightarrow> bool" where
  "top_in A v s \<longleftrightarrow> (\<forall>t. dq_top (deques s v) = Some t \<longrightarrow> t \<in> A)"

lemma tri_deque_lock:
  "tri (\<lambda>s. P (closures s) (next_cid s) \<and> bottom_in A ws s) (deque_lock ws ws) (\<lambda>_ s. P (closures s) (next_cid s) \<and> bottom_in A ws s)"
  "tri (\<lambda>s. P (closures s) (next_cid s) \<and> top_in A v s) (deque_lock ws v) (\<lambda>_ s. P (closures s) (next_cid s) \<and> top_in A v s)"
  by (auto simp: tri_def deque_lock_def bindM_def getD_def getM_def guardM_def updD_def modifyM_def bottom_in_def
      top_in_def split: if_splits)

lemma tri_event:
  "tri (\<lambda>s. P (closures s) (next_cid s) \<and> bottom_in A ws s) (Cilk_event w e) (\<lambda>_ s. P (closures s) (next_cid s) \<and> bottom_in A ws s)"
  "tri (\<lambda>s. P (closures s) (next_cid s) \<and> top_in A v s) (Cilk_event w e) (\<lambda>_ s. P (closures s) (next_cid s) \<and> top_in A v s)"
  by (auto simp: tri_def Cilk_event_def modifyM_def bottom_in_def top_in_def)

lemma tri_peek:
  "tri (\<lambda>s. P (closures s) (next_cid s) \<and> bottom_in A ws s) (deque_peek_bottom ws ws)
     (\<lambda>b s. P (closures s) (next_cid s) \<and> (\<forall>t. b = Some t \<longrightarrow> t \<in> A))"
  "tri (\<lambda>s. P (closures s) (next_cid s) \<and> top_in A v s) (deque_peek_top ws v)
     (\<lambda>b s. P (closures s) (next_cid s) \<and> (\<forall>t. b = Some t \<longrightarrow> t \<in> A))"
  by (auto simp: tri_def deque_peek_bottom_def deque_peek_top_def deque_assert_ownership_def bindM_def getD_def getM_def
      CILK_ASSERT_def guardM_def getC_def ret_def bottom_in_def top_in_def split: if_splits option.splits sum.splits)

lemma tri_deref: "tri P (deref b) (\<lambda>t s. P s \<and> b = Some t)"
  by (auto simp: tri_def deref_def ret_def failM_def split: option.splits)

context closure_invariant
begin

lemma tri_enter:
  assumes "\<And>t. t \<in> A \<Longrightarrow> tri J (k t) Q"
  shows "tri (\<lambda>s. J s \<and> bottom_in A ws s)
    (bindM (deque_lock ws ws) (\<lambda>_. bindM (deque_peek_bottom ws ws) (\<lambda>b. bindM (deref b) k))) Q"
proof (rule tri_bind [OF tri_deque_lock(1)], rule tri_bind [OF tri_peek(1)], rule tri_pure)
  fix b assume "\<forall>t. b = Some t \<longrightarrow> t \<in> A"
  with assms show "tri J (bindM (deref b) k) Q"
    by (intro tri_bind [OF tri_deref] tri_pure) blast
qed

lemma keeps_sync:
  assumes "\<And>t. t \<in> A \<Longrightarrow> t \<in> S \<and> keeps J (poll_inlets ws t)"
  shows "tri (\<lambda>s. J s \<and> bottom_in A ws s) (Cilk_sync ws) (\<lambda>_. J)"
  unfolding Cilk_sync_def
  by (rule tri_bind [OF tri_event(1)], rule tri_enter) (intro keeps; (simp add: assms)?)

lemma keeps_after_sync:
  "tri (\<lambda>s. J s \<and> bottom_in UNIV ws s) (Cilk_after_sync_slow_cp ws w c) (\<lambda>_. J)"
  unfolding Cilk_after_sync_slow_cp_def
  by (rule tri_enter) (intro keeps keeps_updC; simp)

lemma keeps_move_result [keeps]: "keeps J (move_result_into_closure ws t resultp sz)"
  unfolding move_result_into_closure_def by (intro keeps keeps_updC; simp)

lemma keeps_set_result:
  assumes "A \<subseteq> S"
  shows "tri (\<lambda>s. J s \<and> bottom_in A ws s) (Cilk_set_result ws resultp sz) (\<lambda>_. J)"
  unfolding Cilk_set_result_def
  by (rule tri_bind [OF tri_event(1)], rule tri_enter) (use assms in \<open>intro keeps keeps_updC_status; auto\<close>)

lemma keeps_destroy_frame [keeps]: "keeps J (get_frame_size f)" "keeps J (Cilk_destroy_frame ws f z)"
  unfolding get_frame_size_def Cilk_destroy_frame_def by (intro keeps keeps_modify; simp)+

lemma keeps_handler_bottom: "t \<in> S \<Longrightarrow> keeps J (handler_bottom ws resultp sz t)"
  unfolding handler_bottom_def by (intro keeps keeps_updC_status; simp)

lemma keeps_handler_cont:
  assumes "t0 \<in> S"
  shows "tri (\<lambda>s. J s \<and> bottom_in S ws s) (handler_cont ws resultp sz t0) (\<lambda>_. J)"
  unfolding handler_cont_def
proof (rule tri_bind [OF tri_peek(1)], rule tri_pure)
  fix b assume b: "\<forall>t. b = Some t \<longrightarrow> t \<in> S"
  have "tri J (bindM (deref b) (\<lambda>t. bindM (if t0 \<noteq> t then bindM (Closure_unlock ws t0) (\<lambda>_. Closure_lock ws t) else ret ())
      (\<lambda>_. handler_bottom ws resultp sz t))) (\<lambda>_. J)"
    by (rule tri_bind [OF tri_deref], rule tri_pure) (use b in \<open>intro keeps keeps_handler_bottom; simp\<close>)
  then show "tri J (bindM (CILK_ASSERT 1391 (b \<noteq> None)) (\<lambda>_. bindM (deref b)
      (\<lambda>t. bindM (if t0 \<noteq> t then bindM (Closure_unlock ws t0) (\<lambda>_. Closure_lock ws t) else ret ())
      (\<lambda>_. handler_bottom ws resultp sz t)))) (\<lambda>_. J)"
    by (rule keeps_bind [OF keeps_simple(5)])
qed

lemma handler_keeps:
  assumes inv: "sched_inv s dq" and rdy: "exception_ready s dq ws t u"
    and J: "J s" and t: "t \<in> S" and poll: "keeps J (poll_inlets ws t)" and n: "next_cid s \<in> S"
  shows "wp (Cilk_exception_handler ws resultp sz) (\<lambda>_. J) s"
  unfolding handler_enter [OF inv rdy]
proof (rule wp_mono [OF wp_tri [OF handler_poll(1) [OF inv rdy] poll]])
  note p = handler_poll(2-) [OF inv rdy]
  have l: "last_opt (dq ws) = Some t" and c: "closures s t = Some u" using rdy by (auto simp: exception_ready_def)
  have clo: "closures (polling ws t s) = (closures s)(t \<mapsto> u\<lparr>mutex_owner := Some ws\<rparr>)" "next_cid (polling ws t s) = next_cid s"
    using c by (simp_all add: polling_def entered_def)
  show "J (polling ws t s)" unfolding clo by (rule I_upd [OF J c]) simp_all
  fix a s2
  assume "(quiet {t} (polling ws t s) s2 \<or> promoted ws t dq (polling ws t s) s2
      \<and> Suc (head (wcache (workers s ws))) < tail (wcache (workers s ws))) \<and> J s2" (is "?A \<and> _")
  then have s2: "quiet {t} (polling ws t s) s2 \<or> promoted ws t dq (polling ws t s) s2" and J2: "J s2"
    and a: ?A by auto
  have "last_opt (dq ws) = dq_bottom (deques s2 ws)" if "quiet {t} (polling ws t s) s2"
    using is_dequesD(2) [OF sched_coreD(1) [OF sched_core_quiet [OF that p(1)]]] by simp
  moreover have "dq_bottom (deques s2 ws) = Some (next_cid s)" if "promoted ws t dq (polling ws t s) s2"
    using is_dequesD(2) [OF sched_coreD(1), of s2 "dq(ws := dq ws @ [next_cid s])" ws] that clo(2) by (simp add: promoted_def)
  ultimately have "bottom_in S ws s2" using s2 t l n by (auto simp: bottom_in_def)
  with J2 have J2b: "J s2 \<and> bottom_in S ws s2" by blast
  from a show "wp (handler_cont ws resultp sz t) (\<lambda>_. J) s2"
  proof (elim disjE conjE)
    assume "quiet {t} (polling ws t s) s2"
    from wp_tri [OF handler_cont_same [OF inv rdy this] keeps_handler_cont [OF t] J2b]
    show ?thesis by (rule wp_mono) blast
  next
    assume "promoted ws t dq (polling ws t s) s2" "Suc (head (wcache (workers s ws))) < tail (wcache (workers s ws))"
    from wp_tri [OF handler_cont_split [OF rdy this] keeps_handler_cont [OF t] J2b]
    show ?thesis by (rule wp_mono) blast
  qed
qed

lemma keeps_steal:
  assumes "A \<subseteq> S"
  shows "tri (\<lambda>s. J s \<and> top_in A v s) (Closure_steal ws v) (\<lambda>_. J)"
  unfolding Closure_steal_def
proof (rule tri_bind [OF tri_event(2)], rule tri_bind [OF tri_deque_lock(2)], rule tri_bind [OF tri_peek(2)], rule tri_pure)
  fix b assume b: "\<forall>t. b = Some t \<longrightarrow> t \<in> A"
  have "keeps J (steal_from ws v t)" if "t \<in> S" for t
    unfolding steal_from_def steal_give_up_def do_dekker_on_def using that by (intro keeps; simp)
  with b assms show "tri J (case b of None \<Rightarrow> bindM (deque_unlock ws v) (\<lambda>_. bindM (Cilk_event ws EVENT_STEAL_EMPTY_DEQUE) (\<lambda>_. ret None))
      | Some cl \<Rightarrow> steal_from ws v cl) (\<lambda>_. J)"
    by (cases b) (auto intro!: keeps)
qed

lemma keeps_abort_ready: "t \<in> S \<Longrightarrow> keeps J (abort_ready_closure ws t)"
  unfolding abort_ready_closure_def by (intro keeps keeps_updC_status; simp)

lemma keeps_prepare: "t \<in> S \<Longrightarrow> keeps J (poll_inlets ws t) \<Longrightarrow> keeps J (prepare ws t cl)"
  unfolding prepare_def setup_for_execution_def get_proc_slow_def
  by (intro keeps keeps_updC_status; simp)

lemma keeps_destroy: "c \<in> S \<Longrightarrow> keeps J (Closure_destroy ws c)"
proof -
  assume "c \<in> S"
  then have "keeps J (freeC c)" using I_free by (auto simp: tri_def freeC_def modifyM_def)
  then show ?thesis unfolding Closure_destroy_def by (intro keeps)
qed

lemma keeps_return:
  assumes ch: "ch \<in> S" and A: "\<And>t. t \<in> A \<Longrightarrow> t \<in> S \<and> keeps J (poll_inlets ws t)"
  shows "tri (\<lambda>s. J s \<and> (\<forall>c pa. closures s ch = Some c \<longrightarrow> parent c = Some pa \<longrightarrow> pa \<in> A)) (Closure_return ws ch) (\<lambda>_. J)"
proof -
  have get: "tri (\<lambda>s. J s \<and> (\<forall>c pa. closures s ch = Some c \<longrightarrow> parent c = Some pa \<longrightarrow> pa \<in> A)) (getC ch)
     (\<lambda>c s. J s \<and> (\<forall>pa. parent c = Some pa \<longrightarrow> pa \<in> A))"
    by (auto simp: tri_def getC_def split: option.splits)
  show ?thesis
    unfolding Closure_return_def
  proof (rule tri_bind [OF get], rule tri_pure)
    fix c assume c: "\<forall>pa. parent c = Some pa \<longrightarrow> pa \<in> A"
    have rest: "keeps J (bindM (deref (parent c)) k)" if "\<And>pa. pa \<in> A \<Longrightarrow> keeps J (k pa)" for k :: "cid \<Rightarrow> 'x rts"
      by (rule tri_bind [OF tri_deref], rule tri_pure) (use c that in blast)
    show "keeps J (bindM (CILK_ASSERT 1164 (join_counter c = 0)) (\<lambda>_.
     bindM (CILK_ASSERT 1165 (status c = CLOSURE_RETURNING)) (\<lambda>_.
     bindM (CILK_ASSERT 1166 (owner_ready_deque c = None)) (\<lambda>_.
     bindM (Closure_assert_alienation ws ch) (\<lambda>_.
     bindM (CILK_ASSERT 1170 (parent c \<noteq> None)) (\<lambda>_.
     bindM (deref (parent c)) (\<lambda>pa.
     bindM (Closure_lock ws pa) (\<lambda>_.
     bindM (getC pa) (\<lambda>p.
     bindM (CILK_ASSERT 1180 (status p \<noteq> CLOSURE_RETURNING)) (\<lambda>_.
     bindM (CILK_ASSERT 1181 (frame p \<noteq> None)) (\<lambda>_.
     bindM (deref (frame p)) (\<lambda>f.
     bindM (getF f) (\<lambda>fr.
     bindM (CILK_ASSERT 1182 (frame_magic fr)) (\<lambda>_.
     bindM (Closure_remove_child ws pa ch) (\<lambda>inlet.
     bindM (Closure_lock ws ch) (\<lambda>_.
     bindM (complete_and_enque_inlet ws pa ch inlet) (\<lambda>_.
     bindM
       (if status p = CLOSURE_RUNNING then signal_immediate_exception ws pa
        else poll_inlets ws pa) (\<lambda>_.
     bindM (getM (\<lambda>s. workers s ws)) (\<lambda>w.
     bindM (updC pa (\<lambda>t. t\<lparr>cp := max (cp t) (cp_hack w), work := work t + work_hack w\<rparr>)) (\<lambda>_.
     bindM (getC pa) (\<lambda>p.
     bindM (CILK_ASSERT 1213 (0 < join_counter p)) (\<lambda>_.
     bindM (updC pa (join_counter_update (\<lambda>j. j - 1))) (\<lambda>_.
     bindM (provably_good_steal_maybe ws pa) (\<lambda>res.
     bindM (Closure_unlock ws pa) (\<lambda>_.
     bindM (Closure_unlock ws ch) (\<lambda>_.
     bindM (Closure_destroy ws ch) (\<lambda>_.
     ret res)))))))))))))))))))))))))))"
      unfolding complete_and_enque_inlet_def provably_good_steal_maybe_def
      by (intro rest keeps keeps_updC keeps_destroy; (simp add: A ch)?)
  qed
qed

end

subsection \<open>The three facts\<close>

text \<open>
  The status of a closure that the handler does not work on; no abort half done; new closures run (or
  are suspended), all others are in \<open>N\<close>.
\<close>

definition has_status :: "cid \<Rightarrow> ClosureStatus \<Rightarrow> (cid \<Rightarrow> Closure option) \<Rightarrow> cid \<Rightarrow> bool" where
  "has_status d X h n \<longleftrightarrow> d < n \<and> (\<exists>t. h d = Some t \<and> status t = X)"

definition settled_but :: "cid set \<Rightarrow> (cid \<Rightarrow> Closure option) \<Rightarrow> cid \<Rightarrow> bool" where
  "settled_but E h n \<longleftrightarrow> (\<forall>c t. h c = Some t \<longrightarrow> c \<notin> E \<longrightarrow> abort_status t \<noteq> ALMOST_NO_ABORT)"

interpretation other: closure_invariant "has_status d X" "- {d}" UNIV for d X
  by unfold_locales (auto simp: has_status_def)

definition born_running :: "cid set \<Rightarrow> (cid \<Rightarrow> Closure option) \<Rightarrow> cid \<Rightarrow> bool" where
  "born_running N h n \<longleftrightarrow> (\<forall>c t. h c = Some t \<longrightarrow> c \<in> N \<or> status t = CLOSURE_RUNNING \<or> status t = CLOSURE_SUSPENDED)"

interpretation born: closure_invariant "born_running N" N UNIV for N
  by unfold_locales (auto simp: born_running_def split: if_splits)

interpretation settle: closure_invariant "settled_but E" UNIV E for E
  by unfold_locales (auto simp: settled_but_def)

abbreviation settled :: "Rts \<Rightarrow> bool" where
  "settled s \<equiv> settled_but {} (closures s) (next_cid s)"

text \<open>Polling ends the state in which a closure is about to be aborted.\<close>

lemma poll_settles: "tri (\<lambda>s. settled_but {c} (closures s) (next_cid s)) (poll_inlets ws c) (\<lambda>_. settled)"
proof -
  let ?J = "\<lambda>s. settled_but {c} (closures s) (next_cid s)"
  have fin: "tri ?J (bindM (getC c) (\<lambda>t. if abort_status t = ALMOST_NO_ABORT then reset_abort c else ret ())) (\<lambda>_. settled)"
    by (auto simp: tri_def settled_but_def bindM_def getC_def reset_abort_def updC_def ret_def split: option.splits if_splits)
      (metis option.inject)
  have poll: "tri ?J (bindM (poll_loop n ws c) (\<lambda>_. bindM (getC c)
      (\<lambda>t. if abort_status t = ALMOST_NO_ABORT then reset_abort c else ret ()))) (\<lambda>_. settled)" for n
    by (rule tri_bind [OF settle.keeps_poll_loop fin]) simp_all
  have first: "tri ?J m (\<lambda>_. ?J) \<Longrightarrow> (\<And>x. tri ?J (k x) (\<lambda>_. settled)) \<Longrightarrow> tri ?J (bindM m k) (\<lambda>_. settled)"
    for m :: "'x rts" and k by (rule tri_bind)
  show ?thesis
    unfolding poll_inlets_def
    by (rule first, rule settle.keeps_deques, rule first, rule keeps_simple, rule first)
      (intro keeps settle.keeps_cache settle.keeps_deques, rule first, rule settle.keeps_state, rule poll)
qed

lemma poll_keeps_settled: "keeps settled (poll_inlets ws c)"
  by (rule tri_pre [OF poll_settles]) (auto simp: settled_but_def)

lemma abort_slow_settled: "tri (\<lambda>s. settled s \<and> bottom_in UNIV ws s) (Cilk_abort_slow ws) (\<lambda>_. settled)"
  unfolding Cilk_abort_slow_def
proof (rule settle.tri_enter)
  fix t
  let ?J = "\<lambda>s. settled_but {t} (closures s) (next_cid s)"
  have poll: "tri ?J (bindM (poll_inlets ws t) (\<lambda>_. bindM (Closure_unlock ws t) (\<lambda>_. deque_unlock ws ws))) (\<lambda>_. settled)"
    by (rule tri_bind [OF poll_settles]) (intro keeps settle.keeps_deques)
  have abort: "tri settled (recursively_signal_abort n ws t ALMOST_NO_ABORT) (\<lambda>_. ?J)" for n
    by (rule tri_pre [OF settle.keeps_abort(1)]) (auto simp: settled_but_def)
  show "tri settled (bindM (Closure_lock ws t) (\<lambda>_.
     bindM (getC t) (\<lambda>u.
     bindM (CILK_ASSERT 1495 (status u = CLOSURE_RUNNING)) (\<lambda>_.
     bindM (Closure_at_top_of_stack t) (\<lambda>top.
     bindM (CILK_ASSERT 1496 top) (\<lambda>_.
     bindM (Cilk_event ws EVENT_ABORT_SLOW) (\<lambda>_.
     bindM (getM next_cid) (\<lambda>fuel.
     bindM (recursively_signal_abort fuel ws t ALMOST_NO_ABORT) (\<lambda>_.
     bindM (poll_inlets ws t) (\<lambda>_.
     bindM (Closure_unlock ws t) (\<lambda>_.
     deque_unlock ws ws))))))))))) (\<lambda>_. settled)"
    by (rule tri_bind [where R = "\<lambda>_. settled"] settle.keeps_deques keeps settle.keeps_cache settle.keeps_state abort
        tri_bind [OF abort] poll)+
qed

lemma abort_slow_others:
  "tri (\<lambda>s. has_status d X (closures s) (next_cid s) \<and> bottom_in (- {d}) ws s) (Cilk_abort_slow ws)
     (\<lambda>_ s. has_status d X (closures s) (next_cid s))"
  unfolding Cilk_abort_slow_def
  by (rule other.tri_enter)
    (intro keeps other.keeps_deques other.keeps_cache other.keeps_state other.keeps_abort other.keeps_poll; simp)

text \<open>The exception handler creates at most one closure, the one at the bottom of the deque.\<close>

lemma handler_born:
  assumes inv: "sched_inv s dq" and rdy: "exception_ready s dq ws t u"
  shows "wp (Cilk_exception_handler ws resultp sz)
    (\<lambda>r s'. (\<exists>s1. handled ws dq t resultp sz s1 r s') \<and> born_running (dom (closures s)) (closures s') (next_cid s')
        \<or> (\<exists>s1. handled ws (dq(ws := dq ws @ [next_cid s])) (next_cid s) resultp sz s1 r s')
          \<and> born_running (insert (next_cid s) (dom (closures s))) (closures s') (next_cid s')) s" (is "wp _ ?Q _")
  unfolding handler_enter [OF inv rdy]
proof -
  let ?N = "insert (next_cid s) (dom (closures s))"
  have l: "last_opt (dq ws) = Some t" and c: "closures s t = Some u" using rdy by (auto simp: exception_ready_def)
  have t: "t \<in> dom (closures s)" using c by blast
  have dom: "dom (closures (polling ws t s)) = dom (closures s)" using c by (auto simp: polling_def entered_def)
  have b: "born_running ?N (closures (polling ws t s)) (next_cid (polling ws t s))"
    using dom by (auto simp: born_running_def)
  have poll: "tri (\<lambda>s. born_running ?N (closures s) (next_cid s)) (poll_inlets ws t) (\<lambda>_ s. born_running ?N (closures s) (next_cid s))"
    by (rule born.keeps_poll) (use t in simp_all)
  show "wp (poll_inlets ws t) (\<lambda>_. wp (handler_cont ws resultp sz t) ?Q) (polling ws t s)"
  proof (rule wp_mono [OF wp_tri [OF handler_poll(1) [OF inv rdy] poll b]], elim conjE disjE)
    fix a s2 assume q: "quiet {t} (polling ws t s) s2"
    have core: "sched_core s2 dq" by (rule sched_core_quiet [OF q handler_poll(2) [OF inv rdy]])
    have "bottom_in (dom (closures s)) ws s2"
      using is_dequesD(2) [OF sched_coreD(1) [OF core], of ws] l t by (simp add: bottom_in_def)
    moreover have "born_running (dom (closures s)) (closures s2) (next_cid s2)"
    proof -
      have "d \<in> dom (closures s)" if "closures s2 d = Some v" for d v
        using that quiet_alive [OF q, of d] dom by (cases "closures (polling ws t s) d") (auto simp: dom_def)
      then show ?thesis by (auto simp: born_running_def)
    qed
    ultimately show "wp (handler_cont ws resultp sz t) ?Q s2"
      by (intro wp_mono [OF wp_tri [OF handler_cont_same [OF inv rdy q] born.keeps_handler_cont [OF t]]]) auto
  next
    fix a s2 assume p: "promoted ws t dq (polling ws t s) s2" "Suc (head (wcache (workers s ws))) < tail (wcache (workers s ws))"
      and b2: "born_running ?N (closures s2) (next_cid s2)"
    have "bottom_in ?N ws s2"
      using is_dequesD(2) [OF sched_coreD(1), of s2 "dq(ws := dq ws @ [next_cid s])" ws] p(1)
      by (simp add: promoted_def bottom_in_def polling_fields)
    moreover have "t \<in> ?N" using t by simp
    ultimately show "wp (handler_cont ws resultp sz t) ?Q s2"
      using b2 by (intro wp_mono [OF wp_tri [OF handler_cont_split [OF rdy p] born.keeps_handler_cont [of t ?N]]]) auto
  qed
qed

lemma abort_slow_born:
  "tri (\<lambda>s. born_running N (closures s) (next_cid s) \<and> bottom_in N ws s) (Cilk_abort_slow ws)
     (\<lambda>_ s. born_running N (closures s) (next_cid s))"
  unfolding Cilk_abort_slow_def
  by (rule born.tri_enter)
    (intro keeps born.keeps_deques born.keeps_cache born.keeps_state born.keeps_abort born.keeps_poll; simp)

end
