(* ===== verification/Rts_System.thy ===== *)
theory Rts_System
  imports Rts_Frame
begin

section \<open>The scheduler as a state machine\<close>

text \<open>
  The workers run concurrently; each is either in the user's code (\<open>User\<close>), or in the scheduler loop,
  where it looks at its own deque (\<open>Own_deque\<close>), tries to steal (\<open>Stealing\<close>) or holds the closure it
  will run or return next (\<open>Holds\<close>, the variable \<open>t\<close> of \<open>Cilk_scheduler\<close>). A step is one call of a
  handler, some work of the compiled code of one worker on its frames, or its return to the scheduler
  loop. What the compiled code guarantees when it calls a handler is \<open>enabled\<close>: it speaks of frames and
  of what the program has done, not of the scheduler's data structures.
\<close>

datatype place = User | Own_deque | Stealing | Holds cid

record Sys =
  rts :: Rts
  place_of :: "wid \<Rightarrow> place"

datatype call =
    Sync wid
  | Exception wid addr nat
  | Set_result wid addr nat
  | Abort_slow wid
  | After_sync wid int int
  | Pop wid
  | Steal wid wid
  | Dispatch wid

definition bottom_closure :: "Rts \<Rightarrow> wid \<Rightarrow> Closure option" where
  "bottom_closure s w = Option.bind (dq_bottom (deques s w)) (closures s)"

text \<open>The frames at an exception: see \<open>exception_ready\<close>, of which this is the part on the frames.\<close>

definition exception_frames :: "Rts \<Rightarrow> wid \<Rightarrow> Closure \<Rightarrow> bool" where
  "exception_frames s w u \<longleftrightarrow> (let k = wcache (workers s w) in
     if tail k \<le> head k
     then status u = CLOSURE_RETURNING \<or> status u = CLOSURE_RUNNING \<and> join_counter u = 0 \<and> complete_inlets u = []
     else status u = CLOSURE_RUNNING \<and> valid_frame s u \<and> (\<not> at_top s w \<longrightarrow> valid_spawn s u)
       \<and> (\<forall>i \<in> {head k ..< tail k}. frame_ok s (stack k i)))"

text \<open>A closure that returns has a parent with a valid frame and room for the value.\<close>

definition return_fits :: "Rts \<Rightarrow> cid \<Rightarrow> Closure \<Rightarrow> bool" where
  "return_fits s c u \<longleftrightarrow> \<not> malloced u \<and> (\<exists>pa p. parent u = Some pa \<and> closures s pa = Some p \<and> valid_frame s p
     \<and> (\<forall>i \<in> set (incomplete_inlets p). ic_this i = Some c \<longrightarrow> return_size u \<le> ic_argsize i))"

fun caller :: "call \<Rightarrow> wid" where
  "caller (Sync w) = w"
| "caller (Exception w a n) = w"
| "caller (Set_result w a n) = w"
| "caller (Abort_slow w) = w"
| "caller (After_sync w x y) = w"
| "caller (Pop w) = w"
| "caller (Steal w v) = w"
| "caller (Dispatch w) = w"

definition runs_with :: "Rts \<Rightarrow> wid \<Rightarrow> (Closure \<Rightarrow> bool) \<Rightarrow> bool" where
  "runs_with s w C \<longleftrightarrow> (\<exists>u. bottom_closure s w = Some u \<and> status u = CLOSURE_RUNNING \<and> C u)"

fun enabled :: "call \<Rightarrow> Sys \<Rightarrow> bool" where
  "enabled (Sync w) S = (place_of S w = User \<and> at_top (rts S) w \<and> runs_with (rts S) w (valid_frame (rts S)))"
| "enabled (Exception w a n) S = (place_of S w = User
     \<and> (\<exists>u. bottom_closure (rts S) w = Some u \<and> exception_frames (rts S) w u))"
| "enabled (Set_result w a n) S = (place_of S w = User
     \<and> runs_with (rts S) w (\<lambda>u. valid_frame (rts S) u \<and> join_counter u = 0))"
| "enabled (Abort_slow w) S = (place_of S w = User \<and> at_top (rts S) w \<and> runs_with (rts S) w (\<lambda>_. True))"
| "enabled (After_sync w x y) S = (place_of S w = User \<and> at_top (rts S) w \<and> runs_with (rts S) w (valid_frame (rts S)))"
| "enabled (Pop w) S = (place_of S w = Own_deque)"
| "enabled (Steal w v) S = (place_of S w = Stealing \<and> v \<noteq> w
     \<and> (\<forall>c t. dq_top (deques (rts S) v) = Some c \<longrightarrow> closures (rts S) c = Some t \<longrightarrow> status t = CLOSURE_RUNNING \<longrightarrow>
          head (wcache (workers (rts S) v)) + 1 < tail (wcache (workers (rts S) v)) \<longrightarrow> valid_spawn (rts S) t))"
| "enabled (Dispatch w) S = (\<exists>c u. place_of S w = Holds c \<and> closures (rts S) c = Some u
     \<and> (status u = CLOSURE_READY \<longrightarrow> abort_status u \<noteq> NO_ABORT \<and> join_counter u \<noteq> 0 \<or> valid_frame (rts S) u)
     \<and> (status u = CLOSURE_RETURNING \<longrightarrow> return_fits (rts S) c u))"

definition perform :: "'a rts \<Rightarrow> wid \<Rightarrow> ('a \<Rightarrow> place) \<Rightarrow> Sys \<Rightarrow> rt_error + Sys" where
  "perform m w f S = (case m (rts S) of Inl e \<Rightarrow> Inl e
     | Inr (r, s) \<Rightarrow> Inr (S\<lparr>rts := s, place_of := (place_of S)(w := f r)\<rparr>))"

fun hold :: "place \<Rightarrow> cid option \<Rightarrow> place" where
  "hold p None = p"
| "hold p (Some c) = Holds c"

lemma hold_Stealing [simp]: "hold p x = Stealing \<longleftrightarrow> x = None \<and> p = Stealing"
  by (cases x) simp_all

fun exec :: "call \<Rightarrow> Sys \<Rightarrow> rt_error + Sys" where
  "exec (Sync w) S = perform (Cilk_sync w) w (\<lambda>_. User) S"
| "exec (Exception w a n) S = perform (Cilk_exception_handler w a n) w (\<lambda>_. User) S"
| "exec (Set_result w a n) S = perform (Cilk_set_result w a n) w (\<lambda>_. User) S"
| "exec (Abort_slow w) S = perform (Cilk_abort_slow w) w (\<lambda>_. User) S"
| "exec (After_sync w x y) S = perform (Cilk_after_sync_slow_cp w x y) w (\<lambda>_. User) S"
| "exec (Pop w) S = perform (pop_own w) w (hold Stealing) S"
| "exec (Steal w v) S = perform (Closure_steal w v) w (hold Stealing) S"
| "exec (Dispatch w) S = (case place_of S w of
     Holds c \<Rightarrow> perform (dispatch w c) w (\<lambda>x. case x of Inl r \<Rightarrow> hold Own_deque r | Inr _ \<Rightarrow> User) S
   | _ \<Rightarrow> Inl (Wild_pointer 0))"

text \<open>
  The compiled code of worker \<open>w\<close> pushes and pops frames and computes; the head and the exception pointer
  belong to the scheduler.
\<close>

definition user_step :: "wid \<Rightarrow> Rts \<Rightarrow> Rts \<Rightarrow> bool" where
  "user_step w s s' \<longleftrightarrow> (\<exists>F M W. s' = s\<lparr>frames := F, memory := M, workers := (workers s)(w := W)\<rparr>
     \<and> head (wcache W) = head (wcache (workers s w)) \<and> exception (wcache W) = exception (wcache (workers s w)))"

inductive step :: "Sys \<Rightarrow> Sys \<Rightarrow> bool" where
  handler: "enabled c S \<Longrightarrow> exec c S = Inr S' \<Longrightarrow> step S S'"
| compute: "place_of S w = User \<Longrightarrow> user_step w (rts S) s' \<Longrightarrow> step S (S\<lparr>rts := s'\<rparr>)"
| unwind: "place_of S w = User \<Longrightarrow> \<not> runs_with (rts S) w (\<lambda>_. True) \<Longrightarrow>
    step S (S\<lparr>place_of := (place_of S)(w := Own_deque)\<rparr>)"

text \<open>
  The start: the closure of the main procedure, which one worker holds; all deques are empty.
\<close>

definition initial :: "Sys \<Rightarrow> bool" where
  "initial S \<longleftrightarrow> (\<exists>r t w. closures (rts S) = [r \<mapsto> t] \<and> r < next_cid (rts S)
     \<and> status t = CLOSURE_READY \<and> join_counter t = 0 \<and> incomplete_inlets t = [] \<and> complete_inlets t = [] \<and> parent t = None
     \<and> abort_status t = NO_ABORT \<and> mutex_owner t = None \<and> owner_ready_deque t = None
     \<and> (\<forall>v. deques (rts S) v = \<lparr>dq_mutex_owner = None, dq_top = None, dq_bottom = None\<rparr>)
     \<and> (\<forall>v. worker_ok (workers (rts S) v))
     \<and> place_of S = (\<lambda>_. Own_deque)(w := Holds r))"

inductive reachable :: "Sys \<Rightarrow> bool" where
  start: "initial S \<Longrightarrow> reachable S"
| more: "reachable S \<Longrightarrow> step S S' \<Longrightarrow> reachable S'"

inductive_cases step_cases: "step S S'"

subsection \<open>The invariant of the system\<close>

text \<open>
  Beside the invariant of the scheduler's data: no abort is half done; a closure that a worker holds is
  ready or waits to return, is in no deque and is held by that worker alone; a worker in the scheduler
  loop has no running closure in its deque, and once it has looked there, only ready ones; a worker steals
  only when its deque is empty; and no work is lost: a closure that could go on is in a deque or held by a
  worker.
\<close>

definition held :: "Rts \<Rightarrow> (wid \<Rightarrow> cid list) \<Rightarrow> cid \<Rightarrow> bool" where
  "held s dq c \<longleftrightarrow> (\<exists>t. closures s c = Some t \<and> status t \<in> {CLOSURE_READY, CLOSURE_RETURNING}) \<and> (\<forall>v. c \<notin> set (dq v))"

definition idle :: "Rts \<Rightarrow> place \<Rightarrow> cid list \<Rightarrow> bool" where
  "idle s p cs \<longleftrightarrow> (\<forall>c \<in> set cs. \<forall>t. closures s c = Some t \<longrightarrow>
     (if p = Own_deque then status t \<noteq> CLOSURE_RUNNING else status t = CLOSURE_READY))"

definition placed :: "Rts \<Rightarrow> (wid \<Rightarrow> place) \<Rightarrow> (wid \<Rightarrow> cid list) \<Rightarrow> bool" where
  "placed s P dq \<longleftrightarrow> (\<forall>c t. closures s c = Some t \<longrightarrow> status t \<in> {CLOSURE_READY, CLOSURE_RETURNING} \<longrightarrow>
     (\<exists>w. c \<in> set (dq w)) \<or> (\<exists>w. P w = Holds c))"

definition sys_ok :: "Rts \<Rightarrow> (wid \<Rightarrow> place) \<Rightarrow> (wid \<Rightarrow> cid list) \<Rightarrow> bool" where
  "sys_ok s P dq \<longleftrightarrow> sched_inv s dq \<and> settled s
     \<and> (\<forall>w c. P w = Holds c \<longrightarrow> held s dq c) \<and> (\<forall>v w c. P v = Holds c \<longrightarrow> P w = Holds c \<longrightarrow> v = w)
     \<and> (\<forall>w. P w \<noteq> User \<longrightarrow> idle s (P w) (dq w)) \<and> placed s P dq \<and> (\<forall>w. P w = Stealing \<longrightarrow> dq w = [])"

lemma sys_okD:
  assumes "sys_ok s P dq"
  shows "sched_inv s dq" "sched_core s dq" "unlocked s" "settled s" "is_deques s dq"
    "P w = Holds c \<Longrightarrow> held s dq c" "P v = Holds c \<Longrightarrow> P w = Holds c \<Longrightarrow> v = w" "P w \<noteq> User \<Longrightarrow> idle s (P w) (dq w)"
    "dq_bottom (deques s w) = last_opt (dq w)" "dq_top (deques s w) = hd_opt (dq w)" "placed s P dq"
    "P w = Stealing \<Longrightarrow> dq w = []"
proof -
  note all = assms [unfolded sys_ok_def]
  show inv: "sched_inv s dq" by (rule conjunct1 [OF all])
  show "settled s" by (rule conjunct1 [OF conjunct2 [OF all]])
  note place = conjunct2 [OF conjunct2 [OF all]]
  show "P w = Holds c \<Longrightarrow> held s dq c" by (rule conjunct1 [OF place, rule_format])
  show "P v = Holds c \<Longrightarrow> P w = Holds c \<Longrightarrow> v = w"
    by (rule conjunct1 [OF conjunct2 [OF place], rule_format])
  show "P w \<noteq> User \<Longrightarrow> idle s (P w) (dq w)"
    by (rule conjunct1 [OF conjunct2 [OF conjunct2 [OF place]], rule_format])
  note final = conjunct2 [OF conjunct2 [OF conjunct2 [OF place]]]
  show "placed s P dq" by (rule conjunct1 [OF final])
  show "P w = Stealing \<Longrightarrow> dq w = []" by (rule conjunct2 [OF final, rule_format])
  show core: "sched_core s dq" by (rule conjunct1 [OF inv [unfolded sched_inv_def]])
  show "unlocked s" by (rule conjunct2 [OF inv [unfolded sched_inv_def]])
  show dqs: "is_deques s dq" by (rule sched_coreD(1) [OF core])
  show "dq_bottom (deques s w) = last_opt (dq w)" "dq_top (deques s w) = hd_opt (dq w)"
    by (rule is_dequesD(2) [OF dqs], rule is_dequesD(1) [OF dqs])
qed

text \<open>
  A step of worker \<open>w\<close> in which only the closures in \<open>T\<close> may change their status, and no closure but
  these and a new one comes into a deque.
\<close>

lemma sys_ok_step:
  assumes ok: "sys_ok s P dq" and inv: "sched_inv s' dq'" and set': "settled s'"
    and frame: "\<And>d X. d \<notin> T \<Longrightarrow> has_status d X (closures s) (next_cid s) \<Longrightarrow> has_status d X (closures s') (next_cid s')"
    and fresh: "\<And>u d. d \<in> set (dq' u) \<Longrightarrow> d \<in> set (dq u) \<or> d = next_cid s \<or> d \<in> T"
    and sub: "\<And>v. v \<noteq> w \<Longrightarrow> P v \<noteq> User \<Longrightarrow> set (dq' v) \<subseteq> set (dq v) - T"
    and apart: "\<And>v c. v \<noteq> w \<Longrightarrow> P v = Holds c \<Longrightarrow> c \<notin> T"
    and mine: "\<And>c. p = Holds c \<Longrightarrow> held s' dq' c \<and> (\<forall>v. v \<noteq> w \<longrightarrow> P v \<noteq> Holds c)"
    and loop: "p \<noteq> User \<Longrightarrow> idle s' p (dq' w)"
    and dry: "p = Stealing \<Longrightarrow> dq' w = []"
    and done': "\<And>c. P w = Holds c \<Longrightarrow> c \<in> T"
    and stay: "\<And>v c. c \<in> set (dq v) \<Longrightarrow> c \<notin> T \<Longrightarrow> (\<exists>v. c \<in> set (dq' v)) \<or> p = Holds c"
    and busy: "\<And>c t. closures s' c = Some t \<Longrightarrow> status t \<in> {CLOSURE_READY, CLOSURE_RETURNING} \<Longrightarrow>
        c \<in> T \<or> closures s c = None \<Longrightarrow> (\<exists>v. c \<in> set (dq' v)) \<or> p = Holds c"
  shows "sys_ok s' (P(w := p)) dq'"
proof -
  have old: "\<exists>t'. closures s' d = Some t' \<and> status t' = status t" if "d \<notin> T" "closures s d = Some t" for d t
  proof -
    have "d < next_cid s" using sched_coreD(4) [OF sys_okD(2) [OF ok]] that(2) by (auto simp: young_def)
    then have "has_status d (status t) (closures s) (next_cid s)" using that(2) by (simp add: has_status_def)
    from frame [OF that(1) this] show ?thesis by (simp add: has_status_def)
  qed
  have member: "\<exists>t. closures s d = Some t" if "d \<in> set (dq v)" for d v
    using is_deques_member [OF sys_okD(5) [OF ok] that] by auto
  have H: "held s' dq' c" if c: "P v = Holds c" "v \<noteq> w" for v c
  proof -
    obtain t where t: "closures s c = Some t" "status t \<in> {CLOSURE_READY, CLOSURE_RETURNING}" "\<forall>u. c \<notin> set (dq u)"
      using sys_okD(6) [OF ok c(1)] by (auto simp: held_def)
    have "c \<notin> T" using apart c by blast
    moreover have "c \<noteq> next_cid s" using sched_coreD(4) [OF sys_okD(2) [OF ok]] t(1) by (auto simp: young_def)
    ultimately have "\<forall>u. c \<notin> set (dq' u)" using fresh t(3) by blast
    with old [OF \<open>c \<notin> T\<close> t(1)] t(2) show ?thesis by (auto simp: held_def)
  qed
  have I: "idle s' (P v) (dq' v)" if v: "P v \<noteq> User" "v \<noteq> w" for v
    unfolding idle_def
  proof (intro ballI allI impI)
    fix c t' assume c: "c \<in> set (dq' v)" "closures s' c = Some t'"
    then have "c \<in> set (dq v)" "c \<notin> T" using sub v by blast+
    with member obtain t where t: "closures s c = Some t" by blast
    from old [OF \<open>c \<notin> T\<close> t] c(2) have "status t' = status t" by auto
    with sys_okD(8) [OF ok v(1)] \<open>c \<in> set (dq v)\<close> t
    show "if P v = Own_deque then status t' \<noteq> CLOSURE_RUNNING else status t' = CLOSURE_READY"
      by (auto simp: idle_def)
  qed
  have B: "(\<exists>v. c \<in> set (dq' v)) \<or> (\<exists>v. (P(w := p)) v = Holds c)"
    if t: "closures s' c = Some t" "status t \<in> {CLOSURE_READY, CLOSURE_RETURNING}" for c t
  proof (cases "c \<in> T \<or> closures s c = None")
    case True
    with busy [OF t] show ?thesis by auto
  next
    case False
    then obtain t0 where t0: "closures s c = Some t0" "c \<notin> T" by auto
    have "status t0 = status t" using old [OF t0(2,1)] t(1) by auto
    with t(2) have "status t0 \<in> {CLOSURE_READY, CLOSURE_RETURNING}" by simp
    then have "(\<exists>v. c \<in> set (dq v)) \<or> (\<exists>v. P v = Holds c)"
      using sys_okD(11) [OF ok] t0(1) unfolding placed_def by blast
    then consider v where "c \<in> set (dq v)" | v where "P v = Holds c" by blast
    then show ?thesis
    proof cases
      case (1 v)
      with stay t0(2) show ?thesis by auto
    next
      case (2 v)
      with done' t0(2) have "v \<noteq> w" by auto
      with 2 show ?thesis by auto
    qed
  qed
  show ?thesis
    unfolding sys_ok_def
  proof (intro conjI allI impI inv set')
    show "placed s' (P(w := p)) dq'" unfolding placed_def using B by blast
    show "dq' v = []" if "(P(w := p)) v = Stealing" for v
      using that dry sub [of v] sys_okD(12) [OF ok, of v] by (cases "v = w") auto
    show "held s' dq' c" if "(P(w := p)) v = Holds c" for v c
      using that H [of v c] mine by (cases "v = w") auto
    show "idle s' ((P(w := p)) v) (dq' v)" if "(P(w := p)) v \<noteq> User" for v
      using that I [of v] loop by (cases "v = w") auto
    show "v = u" if "(P(w := p)) v = Holds c" "(P(w := p)) u = Holds c" for v u c
      using that sys_okD(7) [OF ok, of v c u] mine by (cases "v = w"; cases "u = w") auto
  qed
qed

text \<open>Closures of a deque that is nobody else's.\<close>

lemma sys_ok_apart:
  assumes ok: "sys_ok s P dq" and c: "c \<in> set (dq w)"
  shows "P v \<noteq> Holds c" and "v \<noteq> w \<Longrightarrow> c \<notin> set (dq v)"
  using sys_okD(6) [OF ok, of v c] is_deques_disjoint [OF sys_okD(5) [OF ok] c, of v] c by (auto simp: held_def)

lemma perform_law:
  assumes "wp m Q (rts S)"
  obtains r s where "m (rts S) = Inr (r, s)" "Q r s" "perform m w f S = Inr (S\<lparr>rts := s, place_of := (place_of S)(w := f r)\<rparr>)"
  using assms by (auto simp: wp_Inr perform_def)

definition safe :: "call \<Rightarrow> Sys \<Rightarrow> bool" where
  "safe c S \<longleftrightarrow> (\<exists>S' dq'. exec c S = Inr S' \<and> sys_ok (rts S') (place_of S') dq')"

lemma runs_withE:
  assumes "sys_ok s P dq" "runs_with s w C"
  obtains t u where "runs s dq w t u" "C u" "dq_bottom (deques s w) = Some t" "t \<in> set (dq w)" "last_opt (dq w) = Some t"
  using assms sys_okD(9) [OF assms(1), of w] that
  by (auto simp: runs_with_def bottom_closure_def runs_def bind_eq_Some_conv last_opt_mem)

lemma wp_run: "wp m Q s \<Longrightarrow> m s = Inr (r, s') \<Longrightarrow> Q r s'"
  by (simp add: wp_def)

text \<open>
  What a call may change in the worker's deque: the closure \<open>t\<close> it works on may leave it and wait for its
  children; a new closure may come, and is there if it could go on.
\<close>

definition waits :: "Rts \<Rightarrow> cid \<Rightarrow> bool" where
  "waits s c \<longleftrightarrow> (\<exists>u. closures s c = Some u \<and> status u = CLOSURE_SUSPENDED)"

definition own_changes :: "wid \<Rightarrow> Rts \<Rightarrow> (wid \<Rightarrow> cid list) \<Rightarrow> cid \<Rightarrow> Rts \<Rightarrow> bool" where
  "own_changes w s dq t s' \<longleftrightarrow> (\<exists>cs. sched_inv s' (dq(w := cs)) \<and> set cs \<subseteq> insert (next_cid s) (set (dq w))
     \<and> set (dq w) - {t} \<subseteq> set cs \<and> (t \<in> set cs \<or> waits s' t)
     \<and> born_running (dom (closures s) \<union> set cs) (closures s') (next_cid s'))"

lemma born_mono: "born_running A h n \<Longrightarrow> A \<subseteq> B \<Longrightarrow> born_running B h n"
  unfolding born_running_def by blast

lemma own_changesI:
  assumes t: "last_opt (dq w) = Some t"
  shows "sched_inv s' dq \<Longrightarrow> born_running (dom (closures s)) (closures s') (next_cid s') \<Longrightarrow> own_changes w s dq t s'"
    and "sched_inv s' (dq(w := butlast (dq w))) \<Longrightarrow> born_running (dom (closures s)) (closures s') (next_cid s') \<Longrightarrow>
      waits s' t \<Longrightarrow> own_changes w s dq t s'"
    and "sched_inv s' (dq(w := dq w @ [next_cid s])) \<Longrightarrow>
      born_running (insert (next_cid s) (dom (closures s))) (closures s') (next_cid s') \<Longrightarrow> own_changes w s dq t s'"
    and "sched_inv s' dq \<Longrightarrow> born_running (insert (next_cid s) (dom (closures s))) (closures s') (next_cid s') \<Longrightarrow>
      waits s' (next_cid s) \<Longrightarrow> own_changes w s dq t s'"
proof -
  note m = last_opt_mem [OF t]
  have own: "own_changes w s dq t s'"
    if "sched_inv s' (dq(w := cs))" "set cs \<subseteq> insert (next_cid s) (set (dq w))" "set (dq w) - {t} \<subseteq> set cs"
      "t \<in> set cs \<or> waits s' t" "born_running (dom (closures s) \<union> set cs) (closures s') (next_cid s')" for cs
    unfolding own_changes_def using that by blast
  show "own_changes w s dq t s'" if "sched_inv s' dq" "born_running (dom (closures s)) (closures s') (next_cid s')"
    using that m born_mono [OF that(2)] by (intro own [of "dq w"]) auto
  show "own_changes w s dq t s'" if "sched_inv s' (dq(w := butlast (dq w)))" "waits s' t"
      "born_running (dom (closures s)) (closures s') (next_cid s')"
    using that t born_mono [OF that(3)]
    by (intro own [of "butlast (dq w)"]; cases "dq w" rule: rev_cases) auto
  show "own_changes w s dq t s'" if "sched_inv s' (dq(w := dq w @ [next_cid s]))"
      "born_running (insert (next_cid s) (dom (closures s))) (closures s') (next_cid s')"
    using that m born_mono [OF that(2)] by (intro own [of "dq w @ [next_cid s]"]) auto
  show "own_changes w s dq t s'" if "sched_inv s' dq" "waits s' (next_cid s)"
      "born_running (insert (next_cid s) (dom (closures s))) (closures s') (next_cid s')"
  proof -
    have "born_running (dom (closures s) \<union> set (dq w)) (closures s') (next_cid s')"
      using that(2,3) unfolding born_running_def waits_def by fastforce
    with that m show ?thesis by (intro own [of "dq w"]) auto
  qed
qed

lemma born_in: "born_running (dom (closures s)) (closures s) n"
  by (auto simp: born_running_def)

lemma born_bottom:
  assumes "sys_ok s P dq"
  shows "born_running (dom (closures s)) (closures s) (next_cid s) \<and> bottom_in (dom (closures s)) w s"
  using is_deques_member [OF sys_okD(5) [OF assms], of _ w] sys_okD(9) [OF assms, of w] born_in last_opt_mem
  by (fastforce simp: bottom_in_def)

lemma settled_in: "settled s \<Longrightarrow> settled s \<and> bottom_in UNIV w s"
  by (simp add: bottom_in_def)

lemma bottom_inI: "dq_bottom (deques s w) = Some t \<Longrightarrow> t \<in> A \<Longrightarrow> bottom_in A w s"
  by (simp add: bottom_in_def)

text \<open>
  A call of the user's code: it works on the bottom closure \<open>t\<close> of the worker's deque, and may put a new
  closure there.
\<close>

lemma safe_user:
  assumes ok: "sys_ok (rts S) (place_of S) dq" and t: "t \<in> set (dq w)"
    and law: "wp m (\<lambda>_ s'. own_changes w (rts S) dq t s') (rts S)"
    and settle: "\<And>r s'. m (rts S) = Inr (r, s') \<Longrightarrow> settled s'"
    and frame: "\<And>d X r s'. d \<noteq> t \<Longrightarrow> has_status d X (closures (rts S)) (next_cid (rts S)) \<Longrightarrow> m (rts S) = Inr (r, s') \<Longrightarrow>
        has_status d X (closures s') (next_cid s')"
    and ex: "exec c S = perform m w (\<lambda>_. User) S" and usr: "place_of S w = User"
  shows "safe c S"
proof -
  obtain r s' where run: "m (rts S) = Inr (r, s')" "own_changes w (rts S) dq t s'"
    "perform m w (\<lambda>_. User) S = Inr (S\<lparr>rts := s', place_of := (place_of S)(w := User)\<rparr>)"
    by (rule perform_law [OF law])
  then obtain cs where cs: "sched_inv s' (dq(w := cs))" "set cs \<subseteq> insert (next_cid (rts S)) (set (dq w))"
    "set (dq w) - {t} \<subseteq> set cs" "t \<in> set cs \<or> waits s' t"
    "born_running (dom (closures (rts S)) \<union> set cs) (closures s') (next_cid s')" unfolding own_changes_def by blast
  let ?dq = "dq(w := cs)"
  have "sys_ok s' ((place_of S)(w := User)) ?dq"
  proof (rule sys_ok_step [OF ok cs(1) settle [OF run(1)], where T = "{t}"])
    show "has_status d X (closures s') (next_cid s')"
      if "d \<notin> {t}" "has_status d X (closures (rts S)) (next_cid (rts S))" for d X
      using frame [OF _ that(2) run(1)] that(1) by simp
    show "d \<in> set (dq v) \<or> d = next_cid (rts S) \<or> d \<in> {t}" if "d \<in> set (?dq v)" for v d
      using that cs(2) by (cases "v = w") auto
    show "set (?dq v) \<subseteq> set (dq v) - {t}" if "v \<noteq> w" for v
      using that sys_ok_apart(2) [OF ok t that] by auto
    show "c \<notin> {t}" if "place_of S v = Holds c" for v c
      using that sys_ok_apart(1) [OF ok t, of v] by auto
    show "(\<exists>v. c \<in> set (?dq v)) \<or> User = Holds c" if "c \<in> set (dq v)" "c \<notin> {t}" for v c
      using that cs(3) by (cases "v = w") auto
    show "(\<exists>v. c \<in> set (?dq v)) \<or> User = Holds c"
      if c: "closures s' c = Some u" "status u \<in> {CLOSURE_READY, CLOSURE_RETURNING}" "c \<in> {t} \<or> closures (rts S) c = None" for c u
    proof -
      have "c \<in> dom (closures (rts S)) \<union> set cs" using cs(5) [unfolded born_running_def, rule_format, OF c(1)] c(2) by auto
      with c cs(4) have "c \<in> set cs" by (auto simp: waits_def)
      then show ?thesis by (intro disjI1 exI [where x = w]) simp
    qed
  qed (use usr in simp_all)
  then show ?thesis using run(3) ex by (auto simp: safe_def)
qed

lemma safe_sync:
  assumes ok: "sys_ok (rts S) (place_of S) dq" and en: "enabled (Sync w) S"
  shows "safe (Sync w) S"
proof -
  let ?s = "rts S"
  have top: "at_top ?s w" and run: "runs_with ?s w (valid_frame ?s)" using en by auto
  obtain t u where t: "runs ?s dq w t u" "valid_frame ?s u" "dq_bottom (deques ?s w) = Some t" "t \<in> set (dq w)"
    "last_opt (dq w) = Some t"
    by (rule runs_withE [OF ok run])
  show ?thesis
  proof (rule safe_user [OF ok t(4)])
    show "wp (Cilk_sync w) (\<lambda>_ s'. own_changes w ?s dq t s') ?s"
      by (rule wp_mono [OF wp_tri [OF Cilk_sync_law [OF sys_okD(1) [OF ok] t(1,2) top] born.keeps_sync born_bottom [OF ok]]])
        (auto simp: waits_def born.keeps_poll split: if_splits intro: own_changesI(1,2) [where dq = dq and w = w and t = t, OF t(5)])
  next
    fix r s' assume run: "Cilk_sync w ?s = Inr (r, s')"
    show "settled s'"
      by (rule tri_run [OF settle.keeps_sync [where A = UNIV] settled_in [OF sys_okD(4) [OF ok]] run]) (simp_all add: poll_keeps_settled)
  next
    fix d X r s' assume d: "d \<noteq> t" "has_status d X (closures ?s) (next_cid ?s)" and run: "Cilk_sync w ?s = Inr (r, s')"
    have "bottom_in (- {d}) w ?s" by (rule bottom_inI [OF t(3)]) (use d(1) in simp)
    with d(2) show "has_status d X (closures s') (next_cid s')"
      by (intro tri_run [OF other.keeps_sync [where A = "- {d}"] _ run]) (simp_all add: other.keeps_poll)
  qed (use en in simp_all)
qed

lemma safe_set_result:
  assumes ok: "sys_ok (rts S) (place_of S) dq" and en: "enabled (Set_result w a n) S"
  shows "safe (Set_result w a n) S"
proof -
  let ?s = "rts S"
  have run: "runs_with ?s w (\<lambda>u. valid_frame ?s u \<and> join_counter u = 0)" using en by auto
  obtain t u where t: "runs ?s dq w t u" "valid_frame ?s u \<and> join_counter u = 0" "dq_bottom (deques ?s w) = Some t" "t \<in> set (dq w)"
    "last_opt (dq w) = Some t"
    by (rule runs_withE [OF ok run])
  have ab: "abort_status u \<noteq> ALMOST_NO_ABORT"
    using sys_okD(4) [OF ok] t(1) by (auto simp: settled_but_def runs_def)
  show ?thesis
  proof (rule safe_user [OF ok t(4)])
    show "wp (Cilk_set_result w a n) (\<lambda>_ s'. own_changes w ?s dq t s') ?s"
      by (rule wp_mono [OF wp_tri [OF Cilk_set_result_law [OF sys_okD(1) [OF ok] t(1) conjunct1 [OF t(2)] conjunct2 [OF t(2)] ab]
            born.keeps_set_result [OF subset_refl] born_bottom [OF ok]]])
        (auto intro: own_changesI(1) [where dq = dq and w = w and t = t, OF t(5)])
  next
    fix r s' assume run: "Cilk_set_result w a n ?s = Inr (r, s')"
    show "settled s'"
      by (rule tri_run [OF settle.keeps_set_result [where A = UNIV] settled_in [OF sys_okD(4) [OF ok]] run]) (simp_all add: poll_keeps_settled)
  next
    fix d X r s' assume d: "d \<noteq> t" "has_status d X (closures ?s) (next_cid ?s)" and run: "Cilk_set_result w a n ?s = Inr (r, s')"
    have "bottom_in (- {d}) w ?s" by (rule bottom_inI [OF t(3)]) (use d(1) in simp)
    with d(2) show "has_status d X (closures s') (next_cid s')"
      by (intro tri_run [OF other.keeps_set_result [where A = "- {d}"] _ run]) (simp_all add: other.keeps_poll)
  qed (use en in simp_all)
qed

lemma safe_abort_slow:
  assumes ok: "sys_ok (rts S) (place_of S) dq" and en: "enabled (Abort_slow w) S"
  shows "safe (Abort_slow w) S"
proof -
  let ?s = "rts S"
  have top: "at_top ?s w" and run: "runs_with ?s w (\<lambda>_. True)" using en by auto
  obtain t u where t: "runs ?s dq w t u" "True" "dq_bottom (deques ?s w) = Some t" "t \<in> set (dq w)"
    "last_opt (dq w) = Some t"
    by (rule runs_withE [OF ok run])
  show ?thesis
  proof (rule safe_user [OF ok t(4)])
    show "wp (Cilk_abort_slow w) (\<lambda>_ s'. own_changes w ?s dq t s') ?s"
      by (rule wp_mono [OF wp_tri [OF Cilk_abort_slow_law [OF sys_okD(1) [OF ok] t(1) top] abort_slow_born born_bottom [OF ok]]])
        (auto intro: own_changesI(1) [where dq = dq and w = w and t = t, OF t(5)])
  next
    fix r s' assume run: "Cilk_abort_slow w ?s = Inr (r, s')"
    show "settled s'"
      by (rule tri_run [OF abort_slow_settled settled_in [OF sys_okD(4) [OF ok]] run])
  next
    fix d X r s' assume d: "d \<noteq> t" "has_status d X (closures ?s) (next_cid ?s)" and run: "Cilk_abort_slow w ?s = Inr (r, s')"
    have "bottom_in (- {d}) w ?s" by (rule bottom_inI [OF t(3)]) (use d(1) in simp)
    with d(2) show "has_status d X (closures s') (next_cid s')"
      by (intro tri_run [OF abort_slow_others _ run]) (simp_all add: other.keeps_poll)
  qed (use en in simp_all)
qed

lemma Cilk_after_sync_law:
  assumes inv: "sched_inv s dq" and run: "runs s dq ws t u" and f: "valid_frame s u" and top: "at_top s ws"
  shows "wp (Cilk_after_sync_slow_cp ws x y)
    (\<lambda>r s'. r = (x + work u, max y (cp u)) \<and> sched_inv s' dq
       \<and> (\<exists>u'. closures s' t = Some u' \<and> cp u' = 0 \<and> work u' = 0 \<and> status u' = CLOSURE_RUNNING)) s"
proof -
  let ?post = "\<lambda>r s'. r = (x + work u, max y (cp u)) \<and> sched_inv s' dq
       \<and> (\<exists>u'. closures s' t = Some u' \<and> cp u' = 0 \<and> work u' = 0 \<and> status u' = CLOSURE_RUNNING)"
  have core: "sched_core s dq" and ul: "unlocked s" using inv unfolding sched_inv_def by blast+
  have t: "last_opt (dq ws) = Some t" "closures s t = Some u" "status u = CLOSURE_RUNNING"
    using run by (auto simp: runs_def)
  have ca: "cache u = Some ws" by (rule runs_cache [OF core run])
  let ?s1 = "entered ws t s"
  have core1: "sched_core ?s1 dq" by (rule entered_core [OF core t(2)])
  have lk1: "locks_are ws {t} {ws} ?s1" using entered_locks [OF unlockedD [OF ul] t(2)] by simp
  let ?u1 = "u\<lparr>mutex_owner := Some ws\<rparr>"
  have c1: "closures ?s1 t = Some ?u1" using t(2) by simp
  let ?u2 = "?u1\<lparr>cp := 0, work := 0\<rparr>"
  let ?s2 = "?s1\<lparr>closures := (closures ?s1)(t \<mapsto> ?u2)\<rparr>"
  have core2: "sched_core ?s2 dq" by (rule sched_core_closure [OF core1 c1]) simp
  have lk2: "locks_are ws {t} {ws} ?s2" by (rule locks_closure [OF lk1 c1]) simp
  have c2: "closures ?s2 t = Some ?u2" by simp
  have "wp (bindM (Closure_unlock ws t) (\<lambda>_. bindM (deque_unlock ws ws) (\<lambda>_. ret (x + work u, max y (cp u))))) ?post ?s2"
    by (rule wp_leave_ret [OF lk2 _ c2]) (use left_inv [OF core2 lk2 c2] t(3) in \<open>simp_all add: left_def\<close>)
  then have "wp (bindM (getC t) (\<lambda>cl.
     bindM (CILK_ASSERT 1313 (status cl = CLOSURE_RUNNING)) (\<lambda>_.
     bindM (deref (frame cl)) (\<lambda>f.
     bindM (getF f) (\<lambda>fr.
     bindM (CILK_ASSERT 1314 (frame_magic fr)) (\<lambda>_.
     bindM (Closure_at_top_of_stack t) (\<lambda>top.
     bindM (CILK_ASSERT 1317 top) (\<lambda>_.
     bindM (updC t (\<lambda>cl. cl\<lparr>cp := 0, work := 0\<rparr>)) (\<lambda>_.
     bindM (Closure_unlock ws t) (\<lambda>_.
     bindM (deque_unlock ws ws) (\<lambda>_.
     ret (x + work cl, if y < cp cl then cp cl else y)))))))))))) ?post ?s1"
    using f t(3) ca top c1
    by (auto simp: valid_frame_def max_def wp_bind wp_getC wp_assert wp_deref wp_getF wp_updC
        wp_Closure_at_top_of_stack at_top_def fun_upd_same simp del: fun_upd_apply)
  then show ?thesis
    unfolding Cilk_after_sync_slow_cp_def by (intro wp_enter [OF core ul t(1,2)])
qed

lemma safe_after_sync:
  assumes ok: "sys_ok (rts S) (place_of S) dq" and en: "enabled (After_sync w x y) S"
  shows "safe (After_sync w x y) S"
proof -
  let ?s = "rts S"
  have top: "at_top ?s w" and run: "runs_with ?s w (valid_frame ?s)" using en by auto
  obtain t u where t: "runs ?s dq w t u" "valid_frame ?s u" "dq_bottom (deques ?s w) = Some t" "t \<in> set (dq w)"
    "last_opt (dq w) = Some t"
    by (rule runs_withE [OF ok run])
  have born_after: "born_running (dom (closures ?s)) (closures ?s) (next_cid ?s) \<and> bottom_in UNIV w ?s"
    using born_in by (simp add: bottom_in_def)
  show ?thesis
  proof (rule safe_user [OF ok t(4)])
    show "wp (Cilk_after_sync_slow_cp w x y) (\<lambda>_ s'. own_changes w ?s dq t s') ?s"
      by (rule wp_mono [OF wp_tri [OF Cilk_after_sync_law [OF sys_okD(1) [OF ok] t(1,2) top] born.keeps_after_sync born_after]])
        (auto intro: own_changesI(1) [where dq = dq and w = w and t = t, OF t(5)])
  next
    fix r s' assume run: "Cilk_after_sync_slow_cp w x y ?s = Inr (r, s')"
    show "settled s'"
      by (rule tri_run [OF settle.keeps_after_sync settled_in [OF sys_okD(4) [OF ok]] run])
  next
    fix d X r s' assume d: "has_status d X (closures ?s) (next_cid ?s)" and run: "Cilk_after_sync_slow_cp w x y ?s = Inr (r, s')"
    have "bottom_in UNIV w ?s" by (simp add: bottom_in_def)
    show "has_status d X (closures s') (next_cid s')"
      by (rule tri_run [OF other.keeps_after_sync conjI [OF d \<open>bottom_in UNIV w ?s\<close>] run])
  qed (use en in simp_all)
qed

lemma handled_deques:
  "handled w dq t a n s r s' \<Longrightarrow> sched_inv s' dq \<or> sched_inv s' (dq(w := butlast (dq w))) \<and> waits s' t"
  unfolding handled_def Let_def waits_def by (elim exE conjE) (simp split: if_splits)

lemma safe_exception:
  assumes ok: "sys_ok (rts S) (place_of S) dq" and en: "enabled (Exception w a n) S"
  shows "safe (Exception w a n) S"
proof -
  let ?s = "rts S"
  obtain t u where t: "dq_bottom (deques ?s w) = Some t" "closures ?s t = Some u" "exception_frames ?s w u"
    using en by (auto simp: bottom_closure_def bind_eq_Some_conv)
  have l: "last_opt (dq w) = Some t" using t(1) sys_okD(9) [OF ok, of w] by simp
  have rdy: "exception_ready ?s dq w t u" using t l by (simp add: exception_ready_def exception_frames_def)
  note inv = sys_okD(1) [OF ok] and own = own_changesI [where dq = dq and w = w and t = t, OF l]
  show ?thesis
  proof (rule safe_user [OF ok last_opt_mem [OF l]])
    show "wp (Cilk_exception_handler w a n) (\<lambda>_ s'. own_changes w ?s dq t s') ?s"
      by (rule wp_mono [OF handler_born [OF inv rdy]], elim disjE conjE)
        (use own in \<open>auto dest!: handled_deques\<close>)
  next
    fix r s' assume run: "Cilk_exception_handler w a n ?s = Inr (r, s')"
    show "settled s'"
      by (rule wp_run [OF settle.handler_keeps [OF inv rdy sys_okD(4) [OF ok]] run]) (simp_all add: poll_keeps_settled)
  next
    fix d X r s' assume d: "d \<noteq> t" "has_status d X (closures ?s) (next_cid ?s)" and run: "Cilk_exception_handler w a n ?s = Inr (r, s')"
    show "has_status d X (closures s') (next_cid s')"
      by (rule wp_run [OF other.handler_keeps [OF inv rdy d(2)] run]) (use d(1) d(2) [unfolded has_status_def] in \<open>simp_all add: other.keeps_poll\<close>)
  qed (use en in simp_all)
qed

end
