(* ===== verification/Rts_Schedule.thy ===== *)
theory Rts_Schedule
  imports Rts_System Rts_Examples
begin

section \<open>The scheduler loop keeps the invariant\<close>

text \<open>
  The steps of a worker in the loop of \<open>Cilk_scheduler\<close>: taking a closure from its own deque, stealing, and
  returning or starting the closure it holds. Then the theorems on all reachable states.
\<close>

text \<open>A closure in a deque is ready, unless it is at the bottom.\<close>

lemma deque_status:
  assumes ok: "sys_ok s P dq" and c: "c \<in> set (dq v)" and t: "closures s c = Some t" and nr: "status t \<noteq> CLOSURE_READY"
  shows "last_opt (dq v) = Some c" "status t \<noteq> CLOSURE_SUSPENDED"
proof -
  have st: "status_ok dq c t" by (rule sched_coreD(5) [OF sys_okD(2) [OF ok] t])
  have "last_opt (dq v) = Some c \<and> status t \<noteq> CLOSURE_SUSPENDED"
  proof (cases "status t")
    case CLOSURE_RUNNING
    with st obtain w where w: "last_opt (dq w) = Some c" by (auto simp: status_ok_def)
    then have "w = v" using is_deques_disjoint [OF sys_okD(5) [OF ok] c, of w] last_opt_mem [OF w] by auto
    with w CLOSURE_RUNNING show ?thesis by simp
  qed (use st nr c in \<open>auto simp: status_ok_def\<close>)
  then show "last_opt (dq v) = Some c" "status t \<noteq> CLOSURE_SUSPENDED" by simp_all
qed

lemma butlast_ready:
  assumes ok: "sys_ok s P dq" and c: "c \<in> set (butlast (dq v))" "closures s c = Some t"
  shows "status t = CLOSURE_READY"
proof (rule ccontr)
  assume "status t \<noteq> CLOSURE_READY"
  from deque_status(1) [OF ok in_set_butlastD [OF c(1)] c(2) this] have "last_opt (dq v) = Some c" .
  then show False
    using c(1) is_dequesD(3) [OF sys_okD(5) [OF ok], of v] by (cases "dq v" rule: rev_cases) auto
qed

lemma born_old:
  "born_running N h n \<Longrightarrow> h c = Some t \<Longrightarrow> status t \<in> {CLOSURE_READY, CLOSURE_RETURNING} \<Longrightarrow> c \<in> N"
  unfolding born_running_def by fastforce

lemma safe_pop:
  assumes ok: "sys_ok (rts S) (place_of S) dq" and en: "enabled (Pop w) S"
  shows "safe (Pop w) S"
proof -
  let ?s = "rts S" and ?dq = "dq(w := butlast (dq w))"
  have idle: "idle ?s Own_deque (dq w)" using sys_okD(8) [OF ok, of w] en by simp
  obtain r s' where run: "pop_own w ?s = Inr (r, s')"
    "r = last_opt (dq w) \<and> sched_inv s' ?dq \<and> same_core ?s s'"
    "perform (pop_own w) w (hold Stealing) S = Inr (S\<lparr>rts := s', place_of := (place_of S)(w := hold Stealing r)\<rparr>)"
  proof (rule perform_law [OF pop_own_law [OF sys_okD(1) [OF ok]]])
    fix c u assume "last_opt (dq w) = Some c" "closures ?s c = Some u"
    then show "status u \<noteq> CLOSURE_RUNNING" using idle last_opt_mem by (fastforce simp: idle_def)
  qed
  have r: "r = last_opt (dq w)" and inv: "sched_inv s' ?dq" and core: "same_core ?s s'" using run(2) by simp_all
  have sub: "set (?dq v) \<subseteq> set (dq v)" for v by (auto dest: in_set_butlastD)
  have old: "\<exists>t. closures ?s c = Some t \<and> status t' = status t \<and> abort_status t' = abort_status t"
    if "closures s' c = Some t'" for c t'
  proof -
    have "map_option core (closures s' c) = map_option core (closures ?s c)" using core by (auto simp: same_core_def)
    with that obtain t where "closures ?s c = Some t" by (cases "closures ?s c") auto
    with same_core_closure [OF core this] that show ?thesis by (auto dest: core_fields)
  qed
  have "sys_ok s' ((place_of S)(w := hold Stealing r)) ?dq"
  proof (rule sys_ok_step [OF ok inv, where T = "{}"])
    show "settled s'" using sys_okD(4) [OF ok] old by (fastforce simp: settled_but_def)
    show "has_status d X (closures s') (next_cid s')" if "has_status d X (closures ?s) (next_cid ?s)" for d X
      using that same_core_closure [OF core] same_core_fields(5) [OF core] by (fastforce simp: has_status_def dest: core_fields)
    show "held s' ?dq c \<and> (\<forall>v. v \<noteq> w \<longrightarrow> place_of S v \<noteq> Holds c)" if "hold Stealing r = Holds c" for c
    proof -
      have l: "last_opt (dq w) = Some c" using that unfolding r by (cases "last_opt (dq w)") simp_all
      then have c: "c \<in> set (dq w)" by (rule last_opt_mem)
      obtain t where t: "closures ?s c = Some t" using is_deques_member [OF sys_okD(5) [OF ok] c] by blast
      have "status t \<in> {CLOSURE_READY, CLOSURE_RETURNING}"
        using deque_status(2) [OF ok c t] idle c t by (cases "status t") (auto simp: idle_def)
      moreover have "c \<notin> set (?dq v)" for v
        using l sys_ok_apart(2) [OF ok c, of v] is_dequesD(3) [OF sys_okD(5) [OF ok], of w]
        by (cases "dq w" rule: rev_cases) auto
      ultimately show ?thesis
        using same_core_closure [OF core t] sys_ok_apart(1) [OF ok c] by (auto simp: held_def dest: core_fields)
    qed
    show "idle s' (hold Stealing r) (?dq w)" if "hold Stealing r \<noteq> User"
    proof -
      have "hold Stealing r \<noteq> Own_deque" by (cases r) simp_all
      then show ?thesis using old butlast_ready [OF ok] by (fastforce simp: idle_def)
    qed
    show "(\<exists>u. c \<in> set (?dq u)) \<or> hold Stealing r = Holds c" if c: "c \<in> set (dq v)" for v c
    proof (cases "v = w")
      case True
      with c have "c \<in> set (butlast (dq w)) \<or> last_opt (dq w) = Some c" by (cases "dq w" rule: rev_cases) auto
      then show ?thesis
      proof
        assume "c \<in> set (butlast (dq w))"
        then show ?thesis by (intro disjI1 exI [where x = w]) simp
      qed (simp add: r)
    next
      case False
      with c show ?thesis by (intro disjI1 exI [where x = v]) simp
    qed
    show "(\<exists>u. c \<in> set (?dq u)) \<or> hold Stealing r = Holds c"
      if "closures s' c = Some u" "c \<in> {} \<or> closures ?s c = None" for c u
      using old [OF that(1)] that(2) by auto
    show "?dq w = []" if "hold Stealing r = Stealing" using that by (simp add: r last_opt_def split: if_splits)
  qed (use sub en in auto)
  then show ?thesis using run(3) by (auto simp: safe_def)
qed

lemma safe_steal:
  assumes ok: "sys_ok (rts S) (place_of S) dq" and en: "enabled (Steal w v) S"
  shows "safe (Steal w v) S"
proof -
  let ?s = "rts S"
  note inv = sys_okD(1) [OF ok]
  have w: "place_of S w = Stealing" "v \<noteq> w" using en by auto
  have idle: "idle ?s Stealing (dq w)" using sys_okD(8) [OF ok, of w] w by simp
  have sp: "spawnable ?s dq v"
    using en sys_okD(10) [OF ok, of v] by (simp add: spawnable_def)
  obtain r s' where run: "Closure_steal w v ?s = Inr (r, s')" "steal_post ?s dq v r s'"
    "perform (Closure_steal w v) w (hold Stealing) S = Inr (S\<lparr>rts := s', place_of := (place_of S)(w := hold Stealing r)\<rparr>)"
    by (rule perform_law [OF Closure_steal_law [OF inv sp]])
  have top: "top_in UNIV v ?s" by (simp add: top_in_def)
  have set': "settled s'"
    by (rule tri_run [OF settle.keeps_steal conjI [OF sys_okD(4) [OF ok] top] run(1)]) simp
  have "\<exists>dq'. sys_ok s' ((place_of S)(w := hold Stealing r)) dq'"
  proof (cases r)
    case None
    then have inv': "sched_inv s' dq" and same: "closures s' = closures ?s" using run(2) by (simp_all add: steal_post_def)
    have y: "young s'" by (rule sched_coreD(4) [OF conjunct1 [OF inv' [unfolded sched_inv_def]]])
    have "sys_ok s' ((place_of S)(w := Stealing)) dq"
    proof (rule sys_ok_step [OF ok inv' set', where T = "{}"])
      show "has_status d X (closures s') (next_cid s')" if "has_status d X (closures ?s) (next_cid ?s)" for d X
        using that y same by (auto simp: has_status_def young_def)
    qed (use idle same w sys_okD(12) [OF ok, of w] in \<open>auto simp: idle_def\<close>)
    then show ?thesis using None by auto
  next
    case (Some c)
    with run(2) have tgt: "steal_target ?s dq v = Some c" and st: "stolen ?s dq v c s'" by (simp_all add: steal_post_def)
    then have hd: "hd_opt (dq v) = Some c" by (auto simp: steal_target_def split: option.splits if_splits)
    then have c: "c \<in> set (dq v)" by (cases "dq v") auto
    obtain t t' where t: "closures ?s c = Some t" "closures s' c = Some t'" "status t' = CLOSURE_READY"
      "if status t = CLOSURE_READY then sched_inv s' (dq(v := tl (dq v))) else sched_inv s' (dq(v := [next_cid ?s]))"
      using st unfolding stolen_def by (auto split: if_splits)
    have run_top: "status t = CLOSURE_READY \<or> status t = CLOSURE_RUNNING"
      using tgt t(1) hd by (auto simp: steal_target_def split: if_splits)
    have cn: "c < next_cid ?s" using sched_coreD(4) [OF sys_okD(2) [OF ok]] t(1) by (auto simp: young_def)
    define dq' where "dq' = (if status t = CLOSURE_READY then dq(v := tl (dq v)) else dq(v := [next_cid ?s]))"
    have inv': "sched_inv s' dq'" using t(4) by (auto simp: dq'_def)
    have other: "dq' u = dq u" if "u \<noteq> v" for u using that by (simp add: dq'_def)
    have out: "c \<notin> set (dq' u)" for u
      using cn sys_ok_apart(2) [OF ok c, of u] is_dequesD(3) [OF sys_okD(5) [OF ok], of v] hd
      by (cases "u = v"; cases "dq v") (auto simp: dq'_def)
    have frame: "has_status d X (closures s') (next_cid s')"
      if "d \<notin> {c}" "has_status d X (closures ?s) (next_cid ?s)" for d X
    proof -
      have "top_in (- {d}) v ?s" using hd sys_okD(10) [OF ok, of v] that(1) by (simp add: top_in_def)
      then show ?thesis by (intro tri_run [OF other.keeps_steal conjI [OF that(2)] run(1)]) simp_all
    qed
    have born: "born_running (dom (closures ?s)) (closures s') (next_cid s')"
    proof (rule tri_run [OF born.keeps_steal [OF subset_refl] _ run(1)])
      show "born_running (dom (closures ?s)) (closures ?s) (next_cid ?s) \<and> top_in (dom (closures ?s)) v ?s"
        using born_in hd t(1) sys_okD(10) [OF ok, of v] by (auto simp: top_in_def)
    qed
    have kept: "d \<in> set (dq' u)" if d: "d \<in> set (dq u)" "d \<noteq> c" for d u
    proof (cases "u = v \<and> status t \<noteq> CLOSURE_READY")
      case True
      then have "last_opt (dq v) = Some c" using deque_status(1) [OF ok c t(1)] by simp
      with hd is_dequesD(3) [OF sys_okD(5) [OF ok], of v] have "dq v = [c]"
        by (cases "dq v" rule: rev_cases; cases "dq v") (auto simp: last_opt_def split: if_splits)
      with d True show ?thesis by simp
    next
      case False
      with d hd show ?thesis by (cases "u = v"; cases "dq v") (auto simp: dq'_def)
    qed
    have "sys_ok s' ((place_of S)(w := Holds c)) dq'"
    proof (rule sys_ok_step [OF ok inv' set' frame, where T = "{c}"])
      show "d \<in> set (dq u) \<or> d = next_cid ?s \<or> d \<in> {c}" if "d \<in> set (dq' u)" for u d
        using that by (cases "u = v"; cases "dq v") (auto simp: dq'_def split: if_splits)
      show "set (dq' u) \<subseteq> set (dq u) - {c}" if u: "u \<noteq> w" "place_of S u \<noteq> User" for u
      proof (cases "u = v")
        case True
        then have "idle ?s (place_of S v) (dq v)" using sys_okD(8) [OF ok, of v] u by simp
        then have "status t = CLOSURE_READY" using run_top c t(1) by (auto simp: idle_def split: if_splits)
        then have "set (dq' v) \<subseteq> set (dq v)" by (cases "dq v") (auto simp: dq'_def)
        with out True show ?thesis by auto
      next
        case False
        from out [of u] show ?thesis unfolding other [OF False] by auto
      qed
      show "c' \<notin> {c}" if "place_of S u = Holds c'" for u c' using that sys_ok_apart(1) [OF ok c, of u] by auto
      show "held s' dq' d \<and> (\<forall>u. u \<noteq> w \<longrightarrow> place_of S u \<noteq> Holds d)" if "Holds c = Holds d" for d
        using that t(2,3) out sys_ok_apart(1) [OF ok c] by (auto simp: held_def)
      show "idle s' (Holds c) (dq' w)"
        unfolding idle_def
      proof (intro ballI allI impI)
        fix d u' assume d: "d \<in> set (dq' w)" "closures s' d = Some u'"
        then have dw: "d \<in> set (dq w)" "d \<noteq> c" using other [of w] w(2) out [of w] by auto
        then obtain u where u: "closures ?s d = Some u" using is_deques_member [OF sys_okD(5) [OF ok]] by blast
        then have "status u = CLOSURE_READY" using idle dw(1) by (simp add: idle_def)
        moreover have "d < next_cid ?s" using sched_coreD(4) [OF sys_okD(2) [OF ok]] u by (auto simp: young_def)
        ultimately have "has_status d CLOSURE_READY (closures ?s) (next_cid ?s)" using u by (simp add: has_status_def)
        from frame [OF _ this] dw(2) d(2) show "if Holds c = Own_deque then status u' \<noteq> CLOSURE_RUNNING else status u' = CLOSURE_READY"
          by (simp add: has_status_def)
      qed
      show "(\<exists>x. d \<in> set (dq' x)) \<or> Holds c = Holds d" if "d \<in> set (dq u)" "d \<notin> {c}" for u d
        using kept [OF that(1)] that(2) by auto
      show "(\<exists>x. d \<in> set (dq' x)) \<or> Holds c = Holds d"
        if d: "closures s' d = Some u" "status u \<in> {CLOSURE_READY, CLOSURE_RETURNING}" "d \<in> {c} \<or> closures ?s d = None" for d u
        using born_old [OF born d(1,2)] d(3) by auto
    qed (use w(1) in auto)
    then show ?thesis using Some by auto
  qed
  then show ?thesis using run(3) by (auto simp: safe_def)
qed

lemma dispatch_returning:
  assumes "closures s t = Some u" "status u = CLOSURE_RETURNING" "mutex_owner u = None"
  shows "wp (dispatch ws t) Q s = wp (Closure_return ws t) (\<lambda>r. Q (Inl r)) s"
proof -
  have s: "s\<lparr>closures := (closures s)(t \<mapsto> u)\<rparr> = s" using assms(1) by (simp add: fun_upd_idem)
  have u: "u\<lparr>mutex_owner := None\<rparr> = u" using assms(3) by simp
  show ?thesis
    using assms
    by (simp add: dispatch_def wp_bind wp_Closure_assert_alienation wp_Closure_lock wp_getC wp_Closure_unlock u s
        return_value_step_def wp_assert wp_ret [abs_def] cong: ClosureStatus.case_cong)
qed

lemma dispatch_split:
  assumes c: "closures s t = Some u" and st: "status u = CLOSURE_READY" and mo: "mutex_owner u = None"
  shows "wp (dispatch ws t) Q s = wp (if abort_status u \<noteq> NO_ABORT
      then bindM (abort_ready_closure ws t) (\<lambda>res. bindM (Closure_unlock ws t) (\<lambda>_. ret (Inl res)))
      else bindM (prepare ws t (u\<lparr>mutex_owner := Some ws\<rparr>)) (\<lambda>call. ret (Inr call))) Q
    (s\<lparr>closures := (closures s)(t \<mapsto> u\<lparr>mutex_owner := Some ws\<rparr>)\<rparr>)"
  using c mo st
  by (simp add: dispatch_def wp_bind wp_Closure_assert_alienation wp_Closure_lock wp_getC wp_Closure_being_aborted
      wp_ret [abs_def] cong: ClosureStatus.case_cong)

context closure_invariant
begin

lemma dispatch_keeps:
  assumes J: "J s" and c: "closures s t = Some u" "status u = CLOSURE_READY" "mutex_owner u = None"
    and t: "t \<in> S" and poll: "keeps J (poll_inlets ws t)" and run: "dispatch ws t s = Inr (r, s')"
  shows "J s'"
proof -
  let ?m = "if abort_status u \<noteq> NO_ABORT
      then bindM (abort_ready_closure ws t) (\<lambda>res. bindM (Closure_unlock ws t) (\<lambda>_. ret (Inl res)))
      else bindM (prepare ws t (u\<lparr>mutex_owner := Some ws\<rparr>)) (\<lambda>call. ret (Inr call))"
  let ?s1 = "s\<lparr>closures := (closures s)(t \<mapsto> u\<lparr>mutex_owner := Some ws\<rparr>)\<rparr>"
  have "wp (dispatch ws t) (\<lambda>a b. (a, b) = (r, s')) s" using run by (simp add: wp_def)
  then have "wp ?m (\<lambda>a b. (a, b) = (r, s')) ?s1" unfolding dispatch_split [OF c] .
  then have run': "?m ?s1 = Inr (r, s')" by (auto simp: wp_def split: sum.splits)
  have J1: "J ?s1" using I_upd [OF J c(1), of "u\<lparr>mutex_owner := Some ws\<rparr>"] by simp
  have "keeps J ?m" by (intro keeps keeps_abort_ready keeps_prepare t poll)
  from tri_run [OF this J1 run'] show ?thesis .
qed

end

definition start_post :: "Rts \<Rightarrow> (wid \<Rightarrow> cid list) \<Rightarrow> wid \<Rightarrow> cid \<Rightarrow> cid option + nat option \<times> addr \<Rightarrow> Rts \<Rightarrow> bool" where
  "start_post s dq w c r s' \<longleftrightarrow> (case r of
     Inl None \<Rightarrow> sched_inv s' dq \<and> waits s' c
   | Inl (Some d) \<Rightarrow> d = c \<and> sched_inv s' dq \<and> (\<exists>u. closures s' c = Some u \<and> status u = CLOSURE_RETURNING)
   | Inr _ \<Rightarrow> sched_inv s' (dq(w := dq w @ [c])))"

lemma dispatch_ready:
  assumes inv: "sched_inv s dq" and c: "closures s t = Some u" and st: "status u = CLOSURE_READY"
    and free: "\<And>w. t \<notin> set (dq w)" and ab: "abort_status u \<noteq> ALMOST_NO_ABORT"
    and f: "abort_status u \<noteq> NO_ABORT \<and> join_counter u \<noteq> 0 \<or> valid_frame s u"
    and ready: "\<And>d v. d \<in> set (dq ws) \<Longrightarrow> closures s d = Some v \<Longrightarrow> status v = CLOSURE_READY"
  shows "wp (dispatch ws t) (start_post s dq ws t) s"
proof -
  have core: "sched_core s dq" and ul: "unlocked s" using inv unfolding sched_inv_def by blast+
  have mo: "mutex_owner u = None" using ul c by (auto simp: unlocked_def)
  let ?u = "u\<lparr>mutex_owner := Some ws\<rparr>"
  let ?s1 = "s\<lparr>closures := (closures s)(t \<mapsto> ?u)\<rparr>"
  have core1: "sched_core ?s1 dq" by (rule sched_core_closure [OF core c]) simp
  have lk1: "locks_are ws {t} {} ?s1" by (rule locks_lock [OF unlockedD [OF ul]])
  have c1: "closures ?s1 t = Some ?u" by simp
  note split = dispatch_split [OF c st mo, of ws]
  show ?thesis
  proof (cases "abort_status u = NO_ABORT")
    case True
    have vf: "valid_frame ?s1 ?u" using f True by (simp add: valid_frame_def)
    have rd: "\<And>d v. d \<in> set (dq ws) \<Longrightarrow> closures ?s1 d = Some v \<Longrightarrow> status v = CLOSURE_READY"
      using ready free by (auto split: if_splits)
    have "wp (prepare ws t ?u) (\<lambda>call. start_post s dq ws t (Inr call)) ?s1"
      by (rule wp_mono [OF prepare_law [OF core1 lk1 c1 _ free vf rd]]) (simp_all add: st start_post_def)
    then show ?thesis unfolding split using True by (simp add: wp_bind wp_ret [abs_def])
  next
    case False
    then have all: "abort_status ?u = ABORT_ALL" using ab by (cases "abort_status u") simp_all
    have vf: "join_counter ?u = 0 \<Longrightarrow> valid_frame ?s1 ?u" using f False by (simp add: valid_frame_def)
    have unlock: "wp (bindM (Closure_unlock ws t) (\<lambda>_. ret (Inl r))) (start_post s dq ws t) s2"
      if s2: "sched_core s2 dq" "locks_are ws {t} {} s2" "r = (if join_counter u = 0 then Some t else None)"
        "closures s2 t = Some u2" "status u2 = (if join_counter u = 0 then CLOSURE_RETURNING else CLOSURE_SUSPENDED)" for r s2 u2
    proof -
      let ?s3 = "s2\<lparr>closures := (closures s2)(t \<mapsto> u2\<lparr>mutex_owner := None\<rparr>)\<rparr>"
      have "sched_core ?s3 dq" by (rule sched_core_closure [OF s2(1,4)]) simp
      moreover have "locks_are ws {} {} ?s3" using locks_unlock [OF s2(2), of t u2] by simp
      ultimately have "sched_inv ?s3 dq" by (simp add: sched_inv_def unlockedI)
      then show ?thesis
        using s2 by (auto simp: wp_bind wp_Closure_unlock wp_ret start_post_def locks_are_def waits_def)
    qed
    have "wp (abort_ready_closure ws t) (\<lambda>res. wp (bindM (Closure_unlock ws t) (\<lambda>_. ret (Inl res))) (start_post s dq ws t)) ?s1"
      by (rule wp_mono [OF abort_ready_law [OF core1 lk1 c1 _ free all vf]]) (use st unlock in auto)
    then show ?thesis unfolding split using False by (simp only: wp_bind if_True simp_thms)
  qed
qed

lemma ready_status:
  assumes ok: "sys_ok s P dq" and loop: "P w \<noteq> User" "P w \<noteq> Own_deque" and d: "d \<in> set (dq w)" "closures s d = Some t"
  shows "status t = CLOSURE_READY"
  using sys_okD(8) [OF ok loop(1)] loop(2) d by (simp add: idle_def)

text \<open>Closures keep their standing in the deque of a worker in the loop.\<close>

lemma idle_frame:
  assumes ok: "sys_ok s P dq" and i: "idle s p (dq w)" and p: "p' = Own_deque \<or> p \<noteq> Own_deque" and out: "\<forall>c \<in> T. c \<notin> set (dq w)"
    and frame: "\<And>d X. d \<notin> T \<Longrightarrow> has_status d X (closures s) (next_cid s) \<Longrightarrow> has_status d X (closures s') (next_cid s')"
  shows "idle s' p' (dq w)"
  unfolding idle_def
proof (intro ballI allI impI)
  fix d u' assume d: "d \<in> set (dq w)" "closures s' d = Some u'"
  obtain u where u: "closures s d = Some u" using is_deques_member [OF sys_okD(5) [OF ok] d(1)] by blast
  then have "d < next_cid s" using sched_coreD(4) [OF sys_okD(2) [OF ok]] by (auto simp: young_def)
  with u have "has_status d (status u) (closures s) (next_cid s)" by (simp add: has_status_def)
  with frame [OF _ this] out d have "status u' = status u" by (auto simp: has_status_def)
  moreover have "if p = Own_deque then status u \<noteq> CLOSURE_RUNNING else status u = CLOSURE_READY"
    using i d(1) u by (simp add: idle_def)
  ultimately show "if p' = Own_deque then status u' \<noteq> CLOSURE_RUNNING else status u' = CLOSURE_READY"
    using p by (auto split: if_splits)
qed

definition after_dispatch :: "cid option + nat option \<times> addr \<Rightarrow> place" where
  "after_dispatch x = (case x of Inl r \<Rightarrow> hold Own_deque r | Inr _ \<Rightarrow> User)"

lemma safe_start:
  assumes ok: "sys_ok (rts S) (place_of S) dq" and en: "enabled (Dispatch w) S"
    and c: "place_of S w = Holds c" "closures (rts S) c = Some u" "status u = CLOSURE_READY"
  shows "safe (Dispatch w) S"
proof -
  let ?s = "rts S"
  note inv = sys_okD(1) [OF ok]
  have free: "c \<notin> set (dq v)" for v using sys_okD(6) [OF ok c(1)] by (simp add: held_def)
  have ab: "abort_status u \<noteq> ALMOST_NO_ABORT" using sys_okD(4) [OF ok] c(2) by (auto simp: settled_but_def)
  have f: "abort_status u \<noteq> NO_ABORT \<and> join_counter u \<noteq> 0 \<or> valid_frame ?s u" using en c by auto
  have ready: "status v = CLOSURE_READY" if "d \<in> set (dq w)" "closures ?s d = Some v" for d v
    by (rule ready_status [OF ok _ _ that]) (simp_all add: c(1))
  obtain r s' where run: "dispatch w c ?s = Inr (r, s')" "start_post ?s dq w c r s'"
    "perform (dispatch w c) w after_dispatch S = Inr (S\<lparr>rts := s', place_of := (place_of S)(w := after_dispatch r)\<rparr>)"
    by (rule perform_law [OF dispatch_ready [OF inv c(2,3) free ab f ready]])
  have mo: "mutex_owner u = None" using sys_okD(3) [OF ok] c(2) by (auto simp: unlocked_def)
  have set': "settled s'"
    by (rule settle.dispatch_keeps [OF sys_okD(4) [OF ok] c(2,3) mo _ _ run(1)]) (simp_all add: poll_keeps_settled)
  have frame: "has_status d X (closures s') (next_cid s')" if "d \<notin> {c}" "has_status d X (closures ?s) (next_cid ?s)" for d X
    by (rule other.dispatch_keeps [OF that(2) c(2,3) mo _ _ run(1)]) (use that(1) in \<open>simp_all add: other.keeps_poll\<close>)
  have apart: "c' \<notin> {c}" if "v \<noteq> w" "place_of S v = Holds c'" for v c'
    using sys_okD(7) [OF ok, of v c w] that c(1) by auto
  have idle: "idle ?s (Holds c) (dq w)" using sys_okD(8) [OF ok, of w] c(1) by simp
  have idle': "idle s' p (dq w)" for p
  proof (rule idle_frame [OF ok idle, where T = "{c}"])
    show "\<forall>d\<in>{c}. d \<notin> set (dq w)" using free by simp
  qed (simp, rule frame)
  have "born_running (dom (closures ?s)) (closures s') (next_cid s')"
    by (rule born.dispatch_keeps [OF born_in c(2,3) mo _ _ run(1)]) (use c(2) in \<open>auto intro: born.keeps_poll\<close>)
  then have new: "closures ?s d \<noteq> None" if "closures s' d = Some v" "status v \<in> {CLOSURE_READY, CLOSURE_RETURNING}" for d v
    using born_old [where h = "closures s'", OF _ that] by auto
  have "\<exists>dq'. sys_ok s' ((place_of S)(w := after_dispatch r)) dq'"
  proof (cases r)
    case (Inr x)
    then have inv': "sched_inv s' (dq(w := dq w @ [c]))" using run(2) by (simp add: start_post_def)
    have "sys_ok s' ((place_of S)(w := User)) (dq(w := dq w @ [c]))"
    proof (rule sys_ok_step [OF ok inv' set' frame, where T = "{c}"])
      show "(\<exists>u. d \<in> set ((dq(w := dq w @ [c])) u)) \<or> User = Holds d" if "d \<in> set (dq v)" for v d
        using that by (intro disjI1 exI [where x = v]) auto
      show "(\<exists>u. d \<in> set ((dq(w := dq w @ [c])) u)) \<or> User = Holds d"
        if d: "closures s' d = Some v" "status v \<in> {CLOSURE_READY, CLOSURE_RETURNING}" "d \<in> {c} \<or> closures ?s d = None" for d v
        using new [OF d(1,2)] d(3) by (intro disjI1 exI [where x = w]) auto
    qed (use apart free c(1) in \<open>auto split: if_splits\<close>)
    then show ?thesis using Inr by (auto simp: after_dispatch_def)
  next
    case (Inl x)
    then have inv': "sched_inv s' dq" and x: "x = None \<and> waits s' c \<or> x = Some c \<and> (\<exists>u. closures s' c = Some u \<and> status u = CLOSURE_RETURNING)"
      using run(2) by (auto simp: start_post_def split: option.splits)
    have "sys_ok s' ((place_of S)(w := hold Own_deque x)) dq"
    proof (rule sys_ok_step [OF ok inv' set' frame, where T = "{c}"])
      show "held s' dq d \<and> (\<forall>v. v \<noteq> w \<longrightarrow> place_of S v \<noteq> Holds d)" if "hold Own_deque x = Holds d" for d
        using that x free apart by (fastforce simp: held_def)
      show "(\<exists>v. d \<in> set (dq v)) \<or> hold Own_deque x = Holds d"
        if d: "closures s' d = Some v" "status v \<in> {CLOSURE_READY, CLOSURE_RETURNING}" "d \<in> {c} \<or> closures ?s d = None" for d v
        using new [OF d(1,2)] d x by (auto simp: waits_def)
    qed (use apart free idle' c(1) in auto)
    then show ?thesis using Inl by (auto simp: after_dispatch_def)
  qed
  then show ?thesis using run(3) c(1) by (auto simp: safe_def after_dispatch_def [abs_def])
qed

lemma safe_return:
  assumes ok: "sys_ok (rts S) (place_of S) dq" and en: "enabled (Dispatch w) S"
    and c: "place_of S w = Holds c" "closures (rts S) c = Some u" "status u = CLOSURE_RETURNING"
  shows "safe (Dispatch w) S"
proof -
  let ?s = "rts S"
  note inv = sys_okD(1) [OF ok]
  have free: "c \<notin> set (dq v)" for v using sys_okD(6) [OF ok c(1)] by (simp add: held_def)
  have mo: "mutex_owner u = None" using sys_okD(3) [OF ok] c(2) by (auto simp: unlocked_def)
  have "return_fits ?s c u" using en c by auto
  then obtain pa p where p: "parent u = Some pa" "closures ?s pa = Some p" "returnable ?s dq c u pa p"
    using c(2,3) free by (auto simp: return_fits_def returnable_def)
  let ?took = "status p = CLOSURE_SUSPENDED \<and> join_counter p = 1"
  have law: "wp (dispatch w c) (\<lambda>r s'. \<exists>r'. r = Inl r' \<and> Closure_return w c ?s = Inr (r', s')
      \<and> r' = (if ?took then Some pa else None) \<and> sched_inv s' dq \<and> closures s' c = None
      \<and> (\<exists>p'. closures s' pa = Some p' \<and> returned_parent ?s w c u p p')) ?s"
    unfolding dispatch_returning [OF c(2,3) mo]
    using Closure_return_law [OF inv p(3), of w] by (auto simp: wp_def split: sum.splits)
  obtain r s' where run: "\<exists>r'. r = Inl r' \<and> Closure_return w c ?s = Inr (r', s')
      \<and> r' = (if ?took then Some pa else None) \<and> sched_inv s' dq \<and> closures s' c = None
      \<and> (\<exists>p'. closures s' pa = Some p' \<and> returned_parent ?s w c u p p')"
    "perform (dispatch w c) w after_dispatch S = Inr (S\<lparr>rts := s', place_of := (place_of S)(w := after_dispatch r)\<rparr>)"
    by (rule perform_law [OF law])
  then obtain r' p' where r': "r = Inl r'" "Closure_return w c ?s = Inr (r', s')" "r' = (if ?took then Some pa else None)"
    and inv': "sched_inv s' dq" and gone: "closures s' c = None"
    and p': "closures s' pa = Some p'" "returned_parent ?s w c u p p'" by blast
  let ?T = "insert c (if ?took then {pa} else {})"
  have set': "settled s'"
    by (rule tri_run [OF settle.keeps_return [where A = UNIV] _ r'(2)])
      (simp_all add: poll_keeps_settled sys_okD(4) [OF ok])
  have y': "young s'" by (rule sched_coreD(4) [OF conjunct1 [OF inv' [unfolded sched_inv_def]]])
  have frame: "has_status d X (closures s') (next_cid s')" if d: "d \<notin> ?T" "has_status d X (closures ?s) (next_cid ?s)" for d X
  proof (cases "d = pa")
    case True
    then have "\<not> ?took" using d(1) by auto
    then have "status p' = status p" using p'(2) by (auto simp: returned_parent_def)
    then show ?thesis using d(2) True p(2) p'(1) y' by (auto simp: has_status_def young_def)
  next
    case False
    have dc: "d \<noteq> c" using d(1) by auto
    have "\<forall>t pa'. closures ?s c = Some t \<longrightarrow> parent t = Some pa' \<longrightarrow> pa' \<in> - {d}" using c(2) p(1) False by auto
    then show ?thesis
      by (intro tri_run [OF other.keeps_return [where A = "- {d}"] conjI [OF d(2)] r'(2)])
        (use dc in \<open>simp_all add: other.keeps_poll\<close>)
  qed
  have "born_running (dom (closures ?s)) (closures s') (next_cid s')"
  proof (rule tri_run [OF born.keeps_return [where A = "dom (closures ?s)"] _ r'(2)])
    show "born_running (dom (closures ?s)) (closures ?s) (next_cid ?s)
        \<and> (\<forall>t pa. closures ?s c = Some t \<longrightarrow> parent t = Some pa \<longrightarrow> pa \<in> dom (closures ?s))"
      using born_in c(2) p(1,2) by auto
  qed (use c(2) in \<open>auto intro: born.keeps_poll\<close>)
  then have new: "closures ?s d \<noteq> None" if "closures s' d = Some v" "status v \<in> {CLOSURE_READY, CLOSURE_RETURNING}" for d v
    using born_old [where h = "closures s'", OF _ that] by auto
  have spare: "pa \<notin> set (dq v) \<and> place_of S v \<noteq> Holds pa" if ?took for v
    using that sched_coreD(5) [OF sys_okD(2) [OF ok] p(2)] sys_okD(6) [OF ok, of v pa] p(2)
    by (auto simp: status_ok_def held_def)
  have out: "\<forall>d \<in> ?T. d \<notin> set (dq v)" for v using free [of v] spare [of v] by auto
  have "sys_ok s' ((place_of S)(w := hold Own_deque r')) dq"
  proof (rule sys_ok_step [OF ok inv' set' frame, where T = ?T])
    show "set (dq v) \<subseteq> set (dq v) - ?T" for v using out [of v] by blast
    show "c' \<notin> ?T" if "v \<noteq> w" "place_of S v = Holds c'" for v c'
      using that sys_okD(7) [OF ok, of v c w] c(1) spare [of v] by auto
    show "held s' dq d \<and> (\<forall>v. v \<noteq> w \<longrightarrow> place_of S v \<noteq> Holds d)" if "hold Own_deque r' = Holds d" for d
    proof -
      have took: ?took and d: "d = pa" using that r'(3) by (auto split: if_splits)
      have "status p' = CLOSURE_READY" using p'(2) took by (simp add: returned_parent_def)
      with p'(1) show ?thesis using spare [OF took] by (auto simp: held_def d)
    qed
    show "idle s' (hold Own_deque r') (dq w)"
    proof (rule idle_frame [OF ok, where T = ?T])
      show "idle ?s (Holds c) (dq w)" using sys_okD(8) [OF ok, of w] c(1) by simp
    qed (simp, rule out, rule frame)
    show "(\<exists>v. d \<in> set (dq v)) \<or> hold Own_deque r' = Holds d"
      if d: "closures s' d = Some v" "status v \<in> {CLOSURE_READY, CLOSURE_RETURNING}" "d \<in> ?T \<or> closures ?s d = None" for d v
      using new [OF d(1,2)] d gone r'(3) by (auto split: if_splits)
  qed (use c(1) in auto)
  then show ?thesis using run(2) c(1) r'(1) by (auto simp: safe_def after_dispatch_def [abs_def])
qed

lemma safe_call:
  assumes ok: "sys_ok (rts S) (place_of S) dq" and en: "enabled c S"
  shows "safe c S"
proof (cases c)
  case (Dispatch w)
  then obtain d u where d: "place_of S w = Holds d" "closures (rts S) d = Some u" using en by auto
  with sys_okD(6) [OF ok d(1)] have "status u = CLOSURE_READY \<or> status u = CLOSURE_RETURNING" by (auto simp: held_def)
  then show ?thesis using safe_start [OF ok _ d] safe_return [OF ok _ d] en Dispatch by blast
qed (use en safe_sync [OF ok] safe_exception [OF ok] safe_set_result [OF ok] safe_abort_slow [OF ok]
    safe_after_sync [OF ok] safe_pop [OF ok] safe_steal [OF ok] in blast)+

subsection \<open>Reachable states\<close>

lemma user_step_ok:
  assumes ok: "sys_ok s P dq" and st: "user_step w s s'"
  shows "sys_ok s' P dq"
proof -
  from st obtain F M W where s': "s' = s\<lparr>frames := F, memory := M, workers := (workers s)(w := W)\<rparr>"
    and W: "head (wcache W) = head (wcache (workers s w))" "exception (wcache W) = exception (wcache (workers s w))"
    unfolding user_step_def by blast
  have "sched_core s' dq"
    by (rule sched_core_skeleton [OF sys_okD(2) [OF ok]])
      (use W sched_coreD(8) [OF sys_okD(2) [OF ok]] in \<open>auto simp: s' same_skeleton_def worker_ok_def\<close>)
  moreover have "unlocked s'" using sys_okD(3) [OF ok] by (simp add: unlocked_def s')
  moreover have "held s' dq = held s dq" "idle s' = idle s" "placed s' P dq = placed s P dq"
    by (simp_all add: s' held_def [abs_def] idle_def [abs_def] placed_def)
  ultimately show ?thesis using ok by (simp add: sys_ok_def sched_inv_def s')
qed

lemma unwind_ok:
  assumes ok: "sys_ok s P dq" and w: "P w = User" "\<not> runs_with s w (\<lambda>_. True)"
  shows "sys_ok s (P(w := Own_deque)) dq"
proof -
  have "idle s Own_deque (dq w)"
    unfolding idle_def
  proof (intro ballI allI impI)
    fix c t assume c: "c \<in> set (dq w)" "closures s c = Some t"
    have "status t \<noteq> CLOSURE_RUNNING"
    proof
      assume r: "status t = CLOSURE_RUNNING"
      then have "last_opt (dq w) = Some c" using deque_status(1) [OF ok c] by simp
      then show False using w(2) sys_okD(9) [OF ok, of w] c(2) r by (simp add: runs_with_def bottom_closure_def)
    qed
    then show "if Own_deque = Own_deque then status t \<noteq> CLOSURE_RUNNING else status t = CLOSURE_READY" by simp
  qed
  moreover have "placed s (P(w := Own_deque)) dq"
    unfolding placed_def
  proof (intro allI impI)
    fix c t assume "closures s c = Some t" "status t \<in> {CLOSURE_READY, CLOSURE_RETURNING}"
    with sys_okD(11) [OF ok] consider v where "c \<in> set (dq v)" | v where "P v = Holds c"
      unfolding placed_def by blast
    then show "(\<exists>v. c \<in> set (dq v)) \<or> (\<exists>v. (P(w := Own_deque)) v = Holds c)"
    proof cases
      case (2 v)
      with w(1) have "v \<noteq> w" by auto
      with 2 show ?thesis by auto
    qed blast
  qed
  ultimately show ?thesis using ok unfolding sys_ok_def by (auto split: if_splits)
qed

lemma initial_ok: "initial S \<Longrightarrow> sys_ok (rts S) (place_of S) (\<lambda>_. [])"
proof -
  assume "initial S"
  then obtain r t w where c: "closures (rts S) = [r \<mapsto> t]" "r < next_cid (rts S)"
    and t: "status t = CLOSURE_READY" "join_counter t = 0" "incomplete_inlets t = []" "complete_inlets t = []" "parent t = None"
      "abort_status t = NO_ABORT" "mutex_owner t = None" "owner_ready_deque t = None"
    and d: "\<forall>v. deques (rts S) v = \<lparr>dq_mutex_owner = None, dq_top = None, dq_bottom = None\<rparr>"
    and W: "\<forall>v. worker_ok (workers (rts S) v)" and P: "place_of S = (\<lambda>_. Own_deque)(w := Holds r)"
    unfolding initial_def by blast
  have "is_deques (rts S) (\<lambda>_. [])" using c d t by (auto simp: is_deques_def is_deque_def dq_links_def)
  moreover have "tree_ok (closures (rts S))" using c t by (auto simp: tree_ok_def node_ok_def child_ids_def)
  moreover have "young (rts S)" using c by (auto simp: young_def)
  moreover have "status_ok (\<lambda>_. []) d u \<and> inlets_ok u" if "closures (rts S) d = Some u" for d u
    using that c(1) t by (auto simp: status_ok_def inlets_ok_def split: if_splits)
  ultimately have "sched_core (rts S) (\<lambda>_. [])" using W by (simp add: sched_core_def sched_heap_def)
  moreover have "unlocked (rts S)" using c d t by (auto simp: unlocked_def)
  moreover have "settled (rts S)" using c t by (auto simp: settled_but_def)
  moreover have "held (rts S) (\<lambda>_. []) r" using c t by (auto simp: held_def)
  moreover have "placed (rts S) (place_of S) (\<lambda>_. [])" using c P by (auto simp: placed_def split: if_splits)
  ultimately show ?thesis using P by (auto simp: sys_ok_def sched_inv_def idle_def split: if_splits)
qed

lemma step_ok:
  assumes ok: "sys_ok (rts S) (place_of S) dq" and st: "step S S'"
  shows "\<exists>dq'. sys_ok (rts S') (place_of S') dq'"
  using st
proof (cases rule: step.cases)
  case (handler c)
  then show ?thesis using safe_call [OF ok handler(1)] by (auto simp: safe_def)
next
  case (compute w s')
  then show ?thesis using user_step_ok [OF ok] by auto
next
  case (unwind w)
  then show ?thesis using unwind_ok [OF ok] by auto
qed

lemma reachable_ok: "reachable S \<Longrightarrow> \<exists>dq. sys_ok (rts S) (place_of S) dq"
proof (induction rule: reachable.induct)
  case (start S)
  then show ?case using initial_ok by blast
next
  case (more S S')
  then show ?case using step_ok by blast
qed

subsection \<open>The theorems\<close>

text \<open>The example: the state after the creation of the first thread, which worker 0 holds.\<close>

definition ex_empty_state :: Rts where
  "ex_empty_state = ex_state\<lparr>closures := Map.empty, deques := (\<lambda>_. ex_empty), next_cid := 0\<rparr>"

definition ex_start :: Sys where
  "ex_start = \<lparr>rts = (case Cilk_create_initial_thread 100 32 1 0 4 ex_empty_state of Inr (_, s) \<Rightarrow> s | Inl _ \<Rightarrow> ex_empty_state),
     place_of = (\<lambda>_. Own_deque)(0 := Holds 0)\<rparr>"

lemma ex_start_rts:
  "closures (rts ex_start) = [0 \<mapsto> ex_blank\<lparr>frame := Some 100, malloced := True\<rparr>]" "next_cid (rts ex_start) = 1"
  "deques (rts ex_start) = (\<lambda>_. ex_empty)" "workers (rts ex_start) = (\<lambda>_. ex_worker)(1 := ex_worker1)"
  "place_of ex_start = (\<lambda>_. Own_deque)(0 := Holds 0)"
  "\<exists>fr. frames (rts ex_start) 100 = Some fr \<and> frame_magic fr \<and> sig fr \<noteq> []"
  by (simp_all add: ex_start_def Cilk_create_initial_thread_def Cilk_Closure_create_malloc_def Closure_init_def
      alloc_closure_def bindM_def updC_def modifyM_def ret_def ex_empty_state_def ex_defs)

lemma ex_start_initial: "initial ex_start"
  unfolding initial_def
  by (rule exI [where x = 0], rule exI [where x = "ex_blank\<lparr>frame := Some 100, malloced := True\<rparr>"], rule exI [where x = 0])
    (auto simp: ex_start_rts ex_empty_def ex_blank_def worker_ok_def ex_worker_def ex_worker1_def zero_enat_def)

lemma ex_start_enabled: "enabled (Dispatch 0) ex_start"
  using ex_start_rts(6) by (simp add: ex_start_rts ex_blank_def valid_frame_def return_fits_def)

text \<open>
  C1: no handler fails. In every state that the workers can reach, a call that the compiled code or the
  scheduler loop may make returns: no assertion of the runtime system fails, no dangling closure, frame or
  deque link is followed, no lock is requested that is not free; and the state it leaves is reachable.
\<close>

theorem calls_never_fail:
  assumes "reachable S" and "enabled c S"
  shows "\<exists>S'. exec c S = Inr S' \<and> reachable S'"
proof -
  obtain dq where "sys_ok (rts S) (place_of S) dq" using reachable_ok [OF assms(1)] by blast
  with safe_call [OF this assms(2)] obtain S' where "exec c S = Inr S'" by (auto simp: safe_def)
  then show ?thesis using reachable.more [OF assms(1) step.handler [OF assms(2)]] by blast
qed

theorem calls_never_fail_witness: "\<exists>S'. exec (Dispatch 0) ex_start = Inr S' \<and> reachable S'"
  by (rule calls_never_fail [OF reachable.start [OF ex_start_initial] ex_start_enabled])

text \<open>
  C2: the invariant of the scheduler between the calls, in every reachable state: the ready deques are
  doubly linked lists of closures with matching owner fields, the closures form a tree whose join counters
  count the outstanding children, every closure is where its status says, no worker has passed its
  exception pointer, and no lock is held.
\<close>

theorem scheduler_invariant:
  assumes "reachable S"
  shows "\<exists>dq. sched_inv (rts S) dq"
  using reachable_ok [OF assms] sys_okD(1) by blast

theorem scheduler_invariant_witness: "\<exists>dq. sched_inv (rts ex_start) dq"
  by (rule scheduler_invariant [OF reachable.start [OF ex_start_initial]])

definition works_on :: "Sys \<Rightarrow> wid \<Rightarrow> cid \<Rightarrow> bool" where
  "works_on S w c \<longleftrightarrow> place_of S w = Holds c \<or> dq_bottom (deques (rts S) w) = Some c"

text \<open>
  C3: mutual exclusion. At no time do two workers work on one closure, be it that they run it, as the
  bottom of their deques, or that they hold it in the scheduler loop.
\<close>

theorem one_worker_per_closure:
  assumes "reachable S"
  shows "\<exists>v. {w. works_on S w c} \<subseteq> {v}"
proof -
  obtain dq where ok: "sys_ok (rts S) (place_of S) dq" using reachable_ok [OF assms] by blast
  have bottom: "c \<in> set (dq w)" if "dq_bottom (deques (rts S) w) = Some c" for w
    using that sys_okD(9) [OF ok, of w] last_opt_mem by simp
  have "v = w" if "works_on S v c" "works_on S w c" for v w
    using that bottom sys_okD(7) [OF ok, of v c w] sys_ok_apart [OF ok]
    unfolding works_on_def by blast
  then show ?thesis by blast
qed

theorem one_worker_per_closure_witness: "\<exists>v. {w. works_on ex_start w 0} \<subseteq> {v}"
  by (rule one_worker_per_closure [OF reachable.start [OF ex_start_initial]])









text \<open>
  C5: the exception handler. It polls the inlets, which may have split the closure; then the closure at the
  bottom of the deque is treated as its frames and its abort status demand: without a frame it returns with the
  result taken from \<open>resultp\<close> (or the one it has, if it was returning); with frames and not aborted it goes on and
  the answer is no; aborted, the answer is yes and the exception stays raised, and it waits for its children, or
  loses its last frame and begins to return if that was the only one. In every case no assertion fails and
  the locks are given back.
\<close>

theorem Cilk_exception_handler_correct:
  assumes "sched_inv s dq" and "exception_ready s dq ws t u"
  shows "wp (Cilk_exception_handler ws resultp sz) (exception_handled ws dq t resultp sz s) s"
  by (rule Cilk_exception_handler_law [OF assms])

theorem Cilk_exception_handler_correct_witness:
  "wp (Cilk_exception_handler 1 500 2) (exception_handled 1 ex_deques 1 500 2 ex_state) ex_state"
proof -
  have "exception_ready ex_state ex_deques 1 1 ex_child"
    by (auto simp: exception_ready_def at_top_def valid_frame_def valid_spawn_def frame_ok_def ex_defs last_opt_def)
  from Cilk_exception_handler_correct [OF ex_inv this, of 500 2] show ?thesis by simp
qed

end
