(* ===== verification/Internal_Malloc.thy ===== *)
theory Internal_Malloc
  imports Rts_State
begin

section \<open>The internal memory allocator\<close>

text \<open>
  The allocator of \<open>internal-malloc.c\<close>: per-worker free lists in nine buckets, refilled from and
  flushed into global free lists in batches; the global lists are fed from a pool that is cut out of
  chunks of 32 kB. Free lists are threaded through the free blocks themselves: \<open>im_words a\<close> is the
  pointer stored in the first word of the block at \<open>a\<close>, and address 0 is the null pointer.

  The assertions and the counters of the debugging configuration are part of the model. The C
  library's \<open>malloc\<close> is \<open>sys_policy\<close>, any function that looks at the live blocks and proposes an
  address, or \<open>None\<close> for a null result; what its documentation promises is the predicate
  \<open>policy_ok\<close> of the next theory. Sizes and counters are unbounded.
\<close>

definition CILK_INTERNAL_MALLOC_THRESHOLD :: nat where
  "CILK_INTERNAL_MALLOC_THRESHOLD = 4096"

definition CILK_INTERNAL_MALLOC_BUCKETS :: nat where
  "CILK_INTERNAL_MALLOC_BUCKETS = 9"

definition CILK_INTERNAL_MALLOC_CHUNK :: nat where
  "CILK_INTERNAL_MALLOC_CHUNK = 32 * 1024"

definition DEFAULT_ALLOC_LIST_SIZE :: nat where
  "DEFAULT_ALLOC_LIST_SIZE = 10"

subsection \<open>State\<close>

record Cilk_im_descriptor =
  free_list :: addr
  im_length :: int
  im_count :: int

record Cilk_im_stats =
  im_used :: int
  nmalloc :: int
  in_free_lists :: int
  bucket_length :: "nat \<Rightarrow> int"

record Im =
  im_words :: "addr \<Rightarrow> addr"
  im_descriptor :: "wid \<Rightarrow> nat \<Rightarrow> Cilk_im_descriptor"
  im_info :: "wid \<Rightarrow> Cilk_im_stats"
  global_im_descriptor :: "nat \<Rightarrow> Cilk_im_descriptor"
  global_im_info :: Cilk_im_stats
  global_pool_begin :: addr
  global_pool_end :: addr
  im_allocated :: int
  im_wasted :: int
  alloc_list :: "addr list"         \<comment> \<open>the contents of the array\<close>
  alloc_list_block :: addr          \<comment> \<open>where the array is\<close>
  im_info_block :: addr             \<comment> \<open>where the worker statistics are\<close>
  alloc_list_index :: int
  alloc_list_size :: int
  global_im_lock :: bool
  sys_blocks :: "(addr \<times> nat) list"
  sys_policy :: "(addr \<times> nat) list \<Rightarrow> nat \<Rightarrow> addr option"
  cache_line :: nat                 \<comment> \<open>\<open>CILK_CACHE_LINE\<close> of the platform\<close>
  alloc_batch :: int                \<comment> \<open>\<open>options->alloc_batch_size\<close>\<close>
  im_active :: nat                  \<comment> \<open>\<open>active_size\<close>\<close>
  im_events :: "wid \<Rightarrow> event \<Rightarrow> nat"
  alloca_h :: "addr \<Rightarrow> addr"         \<comment> \<open>the field of the frame at an address\<close>
  alloca_header :: "addr \<Rightarrow> addr \<times> nat"  \<comment> \<open>\<open>next\<close> and \<open>size\<close>\<close>

type_synonym 'a im = "(rt_error, Im, 'a) prog"

definition im_assert :: "nat \<Rightarrow> bool \<Rightarrow> unit im" where
  "im_assert line b = guardM (Assertion_failed line) (\<lambda>_. b)"

definition im_event :: "wid \<Rightarrow> event \<Rightarrow> unit im" where
  "im_event ws e = modifyM (\<lambda>s. s\<lparr>im_events :=
     (im_events s)(ws := (im_events s ws)(e := Suc (im_events s ws e)))\<rparr>)"

definition upd_descriptor :: "wid \<Rightarrow> nat \<Rightarrow> (Cilk_im_descriptor \<Rightarrow> Cilk_im_descriptor) \<Rightarrow> Im \<Rightarrow> Im" where
  "upd_descriptor ws b f s = s\<lparr>im_descriptor :=
     (im_descriptor s)(ws := (im_descriptor s ws)(b := f (im_descriptor s ws b)))\<rparr>"

definition upd_global :: "nat \<Rightarrow> (Cilk_im_descriptor \<Rightarrow> Cilk_im_descriptor) \<Rightarrow> Im \<Rightarrow> Im" where
  "upd_global b f s = s\<lparr>global_im_descriptor :=
     (global_im_descriptor s)(b := f (global_im_descriptor s b))\<rparr>"

definition count_worker :: "wid \<Rightarrow> int \<Rightarrow> int \<Rightarrow> unit im" where
  "count_worker ws bytes calls = modifyM (\<lambda>s. s\<lparr>im_info := (im_info s)(ws := (im_info s ws)
     \<lparr>im_used := im_used (im_info s ws) + bytes, nmalloc := nmalloc (im_info s ws) + calls\<rparr>)\<rparr>)"

definition count_global :: "int \<Rightarrow> int \<Rightarrow> unit im" where
  "count_global bytes calls = modifyM (\<lambda>s. s\<lparr>global_im_info := (global_im_info s)
     \<lparr>im_used := im_used (global_im_info s) + bytes, nmalloc := nmalloc (global_im_info s) + calls\<rparr>\<rparr>)"

subsection \<open>Buckets\<close>

definition Cilk_internal_malloc_canonicalize :: "nat \<Rightarrow> nat \<Rightarrow> int" where
  "Cilk_internal_malloc_canonicalize line sz =
     (if sz \<le> 16 \<and> line \<le> 16 then 16
      else if sz \<le> 32 \<and> line \<le> 32 then 32
      else if sz \<le> 64 \<and> line \<le> 64 then 64
      else if sz \<le> 128 \<and> line \<le> 128 then 128
      else if sz \<le> 256 \<and> line \<le> 256 then 256
      else if sz \<le> 512 \<and> line \<le> 512 then 512
      else if sz \<le> 1024 \<and> line \<le> 1024 then 1024
      else if sz \<le> 2048 \<and> line \<le> 2048 then 2048
      else if sz \<le> 4096 \<and> line \<le> 4096 then 4096
      else - 1)"

definition Cilk_internal_malloc_size_to_bucket :: "nat \<Rightarrow> nat \<Rightarrow> int" where
  "Cilk_internal_malloc_size_to_bucket line sz =
     (if sz \<le> 16 \<and> line \<le> 16 then 0
      else if sz \<le> 32 \<and> line \<le> 32 then 1
      else if sz \<le> 64 \<and> line \<le> 64 then 2
      else if sz \<le> 128 \<and> line \<le> 128 then 3
      else if sz \<le> 256 \<and> line \<le> 256 then 4
      else if sz \<le> 512 \<and> line \<le> 512 then 5
      else if sz \<le> 1024 \<and> line \<le> 1024 then 6
      else if sz \<le> 2048 \<and> line \<le> 2048 then 7
      else if sz \<le> 4096 \<and> line \<le> 4096 then 8
      else - 1)"

definition Cilk_internal_malloc_bucket_to_size :: "int \<Rightarrow> int" where
  "Cilk_internal_malloc_bucket_to_size b =
     (if b = 0 then 16 else if b = 1 then 32 else if b = 2 then 64 else if b = 3 then 128
      else if b = 4 then 256 else if b = 5 then 512 else if b = 6 then 1024 else if b = 7 then 2048
      else if b = 8 then 4096 else - 1)"

text \<open>An index of the descriptor array; a negative one would be a wild pointer.\<close>

definition bucket_index :: "nat \<Rightarrow> nat im" where
  "bucket_index sz =
     bindM (getM (\<lambda>s. Cilk_internal_malloc_size_to_bucket (cache_line s) sz)) (\<lambda>b.
     bindM (guardM (Wild_pointer sz) (\<lambda>_. 0 \<le> b)) (\<lambda>_. ret (nat b)))"

subsection \<open>The C library\<close>

definition Cilk_malloc :: "nat \<Rightarrow> addr im" where
  "Cilk_malloc n = (\<lambda>s. case sys_policy s (sys_blocks s) n of
       None \<Rightarrow> Inr (0, s)
     | Some a \<Rightarrow> Inr (a, s\<lparr>sys_blocks := (a, n) # sys_blocks s\<rparr>))"

definition Cilk_free :: "addr \<Rightarrow> unit im" where
  "Cilk_free p = (if p = 0 then ret ()
     else bindM (guardM (Wild_pointer p) (\<lambda>s. p \<in> fst ` set (sys_blocks s))) (\<lambda>_.
          modifyM (\<lambda>s. s\<lparr>sys_blocks := filter (\<lambda>x. fst x \<noteq> p) (sys_blocks s)\<rparr>)))"

definition Cilk_realloc :: "addr \<Rightarrow> nat \<Rightarrow> addr im" where
  "Cilk_realloc p n =
     bindM (Cilk_malloc n) (\<lambda>q.
     if q = 0 then ret 0 else bindM (Cilk_free p) (\<lambda>_. ret q))"

subsection \<open>Free lists\<close>

partial_function (option) list_length_from :: "(addr \<Rightarrow> addr) \<Rightarrow> addr \<Rightarrow> nat \<Rightarrow> nat option" where
  "list_length_from w p l = (if p = 0 then Some l else list_length_from w (w p) (Suc l))"

declare list_length_from.simps [code]

definition free_list_length :: "(addr \<Rightarrow> addr) \<Rightarrow> addr \<Rightarrow> nat option" where
  "free_list_length w p = list_length_from w p 0"

text \<open>Taking the first block of a non-empty list, and pushing one.\<close>

definition worker_pop :: "wid \<Rightarrow> nat \<Rightarrow> addr im" where
  "worker_pop ws b =
     bindM (getM (\<lambda>s. free_list (im_descriptor s ws b))) (\<lambda>mem.
     bindM (im_assert 264 (mem \<noteq> 0)) (\<lambda>_.
     bindM (modifyM (\<lambda>s. upd_descriptor ws b
        (\<lambda>d. d\<lparr>free_list := im_words s mem, im_count := im_count d + 1\<rparr>) s)) (\<lambda>_.
     ret mem)))"

definition worker_push :: "wid \<Rightarrow> nat \<Rightarrow> addr \<Rightarrow> unit im" where
  "worker_push ws b p =
     bindM (modifyM (\<lambda>s. s\<lparr>im_words := (im_words s)(p := free_list (im_descriptor s ws b))\<rparr>)) (\<lambda>_.
     modifyM (upd_descriptor ws b (\<lambda>d. d\<lparr>free_list := p, im_count := im_count d - 1\<rparr>)))"

subsection \<open>The global allocator\<close>

definition extend_global_pool :: "unit im" where
  "extend_global_pool =
     bindM (Cilk_malloc CILK_INTERNAL_MALLOC_CHUNK) (\<lambda>p.
     bindM (modifyM (\<lambda>s. s\<lparr>global_pool_begin := p\<rparr>)) (\<lambda>_.
     bindM (guardM (Die 61) (\<lambda>_. p \<noteq> 0)) (\<lambda>_.
     bindM (modifyM (\<lambda>s. s\<lparr>global_pool_end := p + CILK_INTERNAL_MALLOC_CHUNK,
        im_allocated := im_allocated s + int CILK_INTERNAL_MALLOC_CHUNK,
        alloc_list_index := alloc_list_index s + 1\<rparr>)) (\<lambda>_.
     bindM (getM (\<lambda>s. alloc_list_size s \<le> alloc_list_index s)) (\<lambda>full.
     bindM
       (if full then
          bindM (getM alloc_list_block) (\<lambda>old.
          bindM (getM (\<lambda>s. nat (alloc_list_size s + int DEFAULT_ALLOC_LIST_SIZE) * 8)) (\<lambda>n.
          bindM (Cilk_realloc old n) (\<lambda>q.
          bindM (modifyM (\<lambda>s. s\<lparr>alloc_list_block := q\<rparr>)) (\<lambda>_.
          bindM (guardM (Die 76) (\<lambda>_. q \<noteq> 0)) (\<lambda>_.
          modifyM (\<lambda>s. s\<lparr>alloc_list := alloc_list s @ replicate DEFAULT_ALLOC_LIST_SIZE 0,
             alloc_list_size := alloc_list_size s + int DEFAULT_ALLOC_LIST_SIZE\<rparr>))))))
        else ret ()) (\<lambda>_.
     bindM (guardM (Wild_pointer 83) (\<lambda>s. 0 \<le> alloc_list_index s \<and> nat (alloc_list_index s) < length (alloc_list s))) (\<lambda>_.
     modifyM (\<lambda>s. s\<lparr>alloc_list := (alloc_list s)[nat (alloc_list_index s) := global_pool_begin s]\<rparr>))))))))"

definition pool_cut :: "nat \<Rightarrow> addr im" where
  "pool_cut sz =
     bindM (getM (\<lambda>s. global_pool_end s < global_pool_begin s + sz)) (\<lambda>short.
     bindM
       (if short then
          bindM (modifyM (\<lambda>s. s\<lparr>im_wasted := im_wasted s + (int (global_pool_end s) - int (global_pool_begin s))\<rparr>)) (\<lambda>_.
          extend_global_pool)
        else ret ()) (\<lambda>_.
     bindM (getM global_pool_begin) (\<lambda>mem.
     bindM (modifyM (\<lambda>s. s\<lparr>global_pool_begin := mem + sz\<rparr>)) (\<lambda>_.
     ret mem))))"

definition global_im_alloc :: "nat \<Rightarrow> nat \<Rightarrow> addr im" where
  "global_im_alloc sz b =
     bindM (im_assert 92 (sz \<le> CILK_INTERNAL_MALLOC_THRESHOLD)) (\<lambda>_.
     bindM (im_assert 93 (b < CILK_INTERNAL_MALLOC_BUCKETS)) (\<lambda>_.
     bindM (count_global (int sz) 1) (\<lambda>_.
     bindM (getM (\<lambda>s. free_list (global_im_descriptor s b))) (\<lambda>mem.
     if mem \<noteq> 0 then
       bindM (modifyM (\<lambda>s. upd_global b
          (\<lambda>d. d\<lparr>free_list := im_words s mem, im_count := im_count d + 1\<rparr>) s)) (\<lambda>_.
       ret mem)
     else pool_cut sz))))"

definition global_im_free :: "addr \<Rightarrow> nat \<Rightarrow> nat \<Rightarrow> unit im" where
  "global_im_free p sz b =
     bindM (im_assert 134 (sz \<le> CILK_INTERNAL_MALLOC_THRESHOLD)) (\<lambda>_.
     bindM (im_assert 135 (b < CILK_INTERNAL_MALLOC_BUCKETS)) (\<lambda>_.
     bindM (count_global (- int sz) (- 1)) (\<lambda>_.
     bindM (modifyM (\<lambda>s. s\<lparr>im_words := (im_words s)(p := free_list (global_im_descriptor s b))\<rparr>)) (\<lambda>_.
     modifyM (upd_global b (\<lambda>d. d\<lparr>free_list := p, im_count := im_count d - 1\<rparr>))))))"

definition im_mutex_wait :: "unit im" where
  "im_mutex_wait =
     bindM (guardM Would_block (\<lambda>s. \<not> global_im_lock s)) (\<lambda>_.
     modifyM (\<lambda>s. s\<lparr>global_im_lock := True\<rparr>))"

definition im_mutex_signal :: "unit im" where
  "im_mutex_signal = modifyM (\<lambda>s. s\<lparr>global_im_lock := False\<rparr>)"

subsection \<open>The allocator of a worker\<close>

text \<open>
  \<open>malloc\<close> and \<open>free\<close> call each other through the batches, which here take their callee as an
  argument; the fuel bounds the depth of these calls and the rounds of the two \<open>while\<close> loops. The
  laws of the next theory show that three are enough.
\<close>

fun while_not :: "nat \<Rightarrow> (Im \<Rightarrow> bool) \<Rightarrow> unit im \<Rightarrow> unit im" where
  "while_not 0 c m = failM Out_of_fuel"
| "while_not (Suc n) c m =
     bindM (getM c) (\<lambda>b. if b then ret () else bindM m (\<lambda>_. while_not n c m))"

definition im_allocate_batch :: "(addr \<Rightarrow> nat \<Rightarrow> unit im) \<Rightarrow> wid \<Rightarrow> nat \<Rightarrow> nat \<Rightarrow> unit im" where
  "im_allocate_batch free ws sz b =
     bindM (im_event ws EVENT_IM_ALLOC_BATCH) (\<lambda>_.
     bindM im_mutex_wait (\<lambda>_.
     bindM (getM (\<lambda>s. nat (alloc_batch s div 2))) (\<lambda>k.
     bindM (repeatM k (bindM (global_im_alloc sz b) (\<lambda>p. free p sz))) (\<lambda>_.
     im_mutex_signal))))"

definition im_free_batch :: "(nat \<Rightarrow> addr im) \<Rightarrow> wid \<Rightarrow> nat \<Rightarrow> nat \<Rightarrow> unit im" where
  "im_free_batch malloc ws sz b =
     bindM (im_event ws EVENT_IM_FREE_BATCH) (\<lambda>_.
     bindM im_mutex_wait (\<lambda>_.
     bindM (getM (\<lambda>s. nat (alloc_batch s div 2))) (\<lambda>k.
     bindM (repeatM k (bindM (malloc sz) (\<lambda>p. global_im_free p sz b))) (\<lambda>_.
     im_mutex_signal))))"

fun Cilk_internal_malloc :: "nat \<Rightarrow> wid \<Rightarrow> nat \<Rightarrow> addr im"
and Cilk_internal_free :: "nat \<Rightarrow> wid \<Rightarrow> addr \<Rightarrow> nat \<Rightarrow> unit im" where
  "Cilk_internal_malloc 0 ws sz = failM Out_of_fuel"
| "Cilk_internal_malloc (Suc n) ws sz =
     bindM (count_worker ws (int sz) 1) (\<lambda>_.
     if CILK_INTERNAL_MALLOC_THRESHOLD < sz then Cilk_malloc sz
     else
       bindM (getM (\<lambda>s. nat (Cilk_internal_malloc_canonicalize (cache_line s) sz))) (\<lambda>sz.
       bindM (bucket_index sz) (\<lambda>b.
       bindM (while_not n (\<lambda>s. free_list (im_descriptor s ws b) \<noteq> 0)
                (im_allocate_batch (\<lambda>p k. Cilk_internal_free n ws p k) ws sz b)) (\<lambda>_.
       worker_pop ws b))))"
| "Cilk_internal_free 0 ws p sz = failM Out_of_fuel"
| "Cilk_internal_free (Suc n) ws p sz =
     bindM (count_worker ws (- int sz) (- 1)) (\<lambda>_.
     if CILK_INTERNAL_MALLOC_THRESHOLD < sz then Cilk_free p
     else
       bindM (bucket_index sz) (\<lambda>b.
       bindM (while_not n (\<lambda>s. 0 < im_count (im_descriptor s ws b))
                (im_free_batch (\<lambda>k. Cilk_internal_malloc n ws k) ws sz b)) (\<lambda>_.
       worker_push ws b p)))"

text \<open>The inlined versions the compiled code uses.\<close>

definition Cilk_internal_malloc_fast :: "nat \<Rightarrow> wid \<Rightarrow> nat \<Rightarrow> addr im" where
  "Cilk_internal_malloc_fast n ws sz =
     (if CILK_INTERNAL_MALLOC_THRESHOLD < sz then Cilk_internal_malloc n ws sz
      else
        bindM (bucket_index sz) (\<lambda>b.
        bindM (getM (\<lambda>s. free_list (im_descriptor s ws b))) (\<lambda>mem.
        if mem \<noteq> 0 then
          bindM (worker_pop ws b) (\<lambda>mem.
          bindM (count_worker ws (int sz) 1) (\<lambda>_. ret mem))
        else Cilk_internal_malloc n ws sz)))"

definition Cilk_internal_free_fast :: "nat \<Rightarrow> wid \<Rightarrow> addr \<Rightarrow> nat \<Rightarrow> unit im" where
  "Cilk_internal_free_fast n ws p sz =
     (if CILK_INTERNAL_MALLOC_THRESHOLD < sz then Cilk_internal_free n ws p sz
      else
        bindM (bucket_index sz) (\<lambda>b.
        bindM (getM (\<lambda>s. im_count (im_descriptor s ws b))) (\<lambda>c.
        if c \<le> 0 then Cilk_internal_free n ws p sz
        else bindM (worker_push ws b p) (\<lambda>_. count_worker ws (- int sz) (- 1)))))"

subsection \<open>Initialisation and termination\<close>

primrec for_each :: "('a \<Rightarrow> unit im) \<Rightarrow> 'a list \<Rightarrow> unit im" where
  "for_each f [] = ret ()"
| "for_each f (x # xs) = bindM (f x) (\<lambda>_. for_each f xs)"

primrec sum_each :: "('a \<Rightarrow> int im) \<Rightarrow> 'a list \<Rightarrow> int im" where
  "sum_each f [] = ret 0"
| "sum_each f (x # xs) = bindM (f x) (\<lambda>i. bindM (sum_each f xs) (\<lambda>j. ret (i + j)))"

definition empty_list :: "int \<Rightarrow> Cilk_im_descriptor \<Rightarrow> Cilk_im_descriptor" where
  "empty_list batch d = d\<lparr>free_list := 0, im_count := batch\<rparr>"

definition empty_lists :: "int \<Rightarrow> (nat \<Rightarrow> Cilk_im_descriptor) \<Rightarrow> nat \<Rightarrow> Cilk_im_descriptor" where
  "empty_lists batch ds = (\<lambda>i. if i < CILK_INTERNAL_MALLOC_BUCKETS then empty_list batch (ds i) else ds i)"

definition Cilk_internal_malloc_per_worker_init :: "wid \<Rightarrow> unit im" where
  "Cilk_internal_malloc_per_worker_init ws = modifyM (\<lambda>s. s\<lparr>im_descriptor :=
     (im_descriptor s)(ws := empty_lists (alloc_batch s) (im_descriptor s ws))\<rparr>)"

definition sizeof_Cilk_im_stats :: "nat \<Rightarrow> nat" where
  "sizeof_Cilk_im_stats line = (3 + CILK_INTERNAL_MALLOC_BUCKETS) * 4 + line"

definition Cilk_internal_malloc_global_init :: "unit im" where
  "Cilk_internal_malloc_global_init =
     bindM (getM (\<lambda>s. im_active s * sizeof_Cilk_im_stats (cache_line s))) (\<lambda>n.
     bindM (Cilk_malloc n) (\<lambda>p.
     bindM (modifyM (\<lambda>s. s\<lparr>im_info_block := p\<rparr>)) (\<lambda>_.
     bindM (guardM (Die 213) (\<lambda>_. p \<noteq> 0)) (\<lambda>_.
     bindM (modifyM (\<lambda>s. s\<lparr>global_im_lock := False\<rparr>)) (\<lambda>_.
     bindM (Cilk_malloc (DEFAULT_ALLOC_LIST_SIZE * 8)) (\<lambda>q.
     bindM (modifyM (\<lambda>s. s\<lparr>alloc_list_block := q\<rparr>)) (\<lambda>_.
     bindM (guardM (Die 220) (\<lambda>_. q \<noteq> 0)) (\<lambda>_.
     modifyM (\<lambda>s. s\<lparr>alloc_list := replicate DEFAULT_ALLOC_LIST_SIZE 0,
        alloc_list_size := int DEFAULT_ALLOC_LIST_SIZE\<rparr>)))))))))"

definition Cilk_internal_malloc_global_init_2 :: "unit im" where
  "Cilk_internal_malloc_global_init_2 =
     modifyM (\<lambda>s. s\<lparr>global_im_info := (global_im_info s)\<lparr>im_used := 0, nmalloc := 0\<rparr>,
       im_info := (\<lambda>i. if i < im_active s
          then (im_info s i)\<lparr>im_used := 0, nmalloc := 0, in_free_lists := - 1\<rparr> else im_info s i),
       global_im_descriptor := empty_lists (alloc_batch s) (global_im_descriptor s),
       alloc_list_index := - 1, global_pool_begin := 0, global_pool_end := 0,
       im_allocated := 0, im_wasted := 0\<rparr>)"

definition free_alloc_list :: "unit im" where
  "free_alloc_list =
     bindM (getM (\<lambda>s. take (nat (alloc_list_index s + 1)) (alloc_list s))) (\<lambda>ks.
     bindM (for_each Cilk_free ks) (\<lambda>_.
     modifyM (\<lambda>s. s\<lparr>alloc_list_index := - 1\<rparr>)))"

definition Cilk_internal_malloc_global_terminate :: "unit im" where
  "Cilk_internal_malloc_global_terminate =
     bindM (getM im_info_block) (\<lambda>p.
     bindM (Cilk_free p) (\<lambda>_.
     bindM (getM alloc_list_block) (\<lambda>q.
     Cilk_free q)))"

definition Cilk_internal_malloc_global_terminate_2 :: "unit im" where
  "Cilk_internal_malloc_global_terminate_2 = free_alloc_list"

subsection \<open>The consistency checks at the end of a run\<close>

definition worker_bucket_cleanup :: "wid \<Rightarrow> nat \<Rightarrow> int im" where
  "worker_bucket_cleanup ws i =
     bindM (getM (\<lambda>s. free_list_length (im_words s) (free_list (im_descriptor s ws i)))) (\<lambda>r.
     case r of None \<Rightarrow> failM Out_of_fuel | Some k \<Rightarrow>
     bindM (guardM (Assertion_failed 320) (\<lambda>s. im_count (im_descriptor s ws i) + int k = alloc_batch s)) (\<lambda>_.
     bindM (modifyM (upd_descriptor ws i (\<lambda>d. d\<lparr>im_length := int k\<rparr>))) (\<lambda>_.
     bindM (modifyM (\<lambda>s. s\<lparr>im_info := (im_info s)(ws := (im_info s ws)
        \<lparr>bucket_length := (bucket_length (im_info s ws))(i := int k)\<rparr>)\<rparr>)) (\<lambda>_.
     ret (Cilk_internal_malloc_bucket_to_size (int i) * int k)))))"

definition Cilk_internal_malloc_per_worker_cleanup :: "wid \<Rightarrow> unit im" where
  "Cilk_internal_malloc_per_worker_cleanup ws =
     bindM (sum_each (worker_bucket_cleanup ws) [0..<CILK_INTERNAL_MALLOC_BUCKETS]) (\<lambda>t.
     modifyM (\<lambda>s. s\<lparr>im_info := (im_info s)(ws := (im_info s ws)\<lparr>in_free_lists := t\<rparr>)\<rparr>))"

definition global_bucket_cleanup :: "nat \<Rightarrow> int im" where
  "global_bucket_cleanup i =
     bindM (getM (\<lambda>s. free_list_length (im_words s) (free_list (global_im_descriptor s i)))) (\<lambda>r.
     case r of None \<Rightarrow> failM Out_of_fuel | Some k \<Rightarrow>
     bindM (guardM (Assertion_failed 390) (\<lambda>s. im_count (global_im_descriptor s i) + int k = alloc_batch s)) (\<lambda>_.
     bindM (modifyM (upd_global i (\<lambda>d. d\<lparr>im_length := int k\<rparr>))) (\<lambda>_.
     bindM (modifyM (\<lambda>s. s\<lparr>global_im_info := (global_im_info s)
        \<lparr>bucket_length := (bucket_length (global_im_info s))(i := int k)\<rparr>\<rparr>)) (\<lambda>_.
     ret (Cilk_internal_malloc_bucket_to_size (int i) * int k)))))"

definition total_used :: "Im \<Rightarrow> int" where
  "total_used s = im_used (global_im_info s) + (\<Sum>i<im_active s. im_used (im_info s i))"

definition total_calls :: "Im \<Rightarrow> int" where
  "total_calls s = nmalloc (global_im_info s) + (\<Sum>i<im_active s. nmalloc (im_info s i))"

definition Cilk_internal_malloc_global_cleanup :: "unit im" where
  "Cilk_internal_malloc_global_cleanup =
     bindM (guardM (Assertion_failed 379) (\<lambda>s. total_used s = 0 \<and> total_calls s = 0)) (\<lambda>_.
     bindM (sum_each global_bucket_cleanup [0..<CILK_INTERNAL_MALLOC_BUCKETS]) (\<lambda>t.
     modifyM (\<lambda>s. s\<lparr>global_im_info := (global_im_info s)\<lparr>in_free_lists := t\<rparr>\<rparr>)))"

subsection \<open>Alloca\<close>

definition sizeof_alloca_header :: nat where
  "sizeof_alloca_header = 16"

text \<open>\<open>f\<close> is the frame below the tail of the worker's stack.\<close>

definition Cilk_alloca_internal :: "nat \<Rightarrow> wid \<Rightarrow> addr \<Rightarrow> nat \<Rightarrow> addr im" where
  "Cilk_alloca_internal n ws f sz =
     bindM (Cilk_internal_malloc n ws (sz + sizeof_alloca_header)) (\<lambda>p.
     bindM (guardM (Wild_pointer 0) (\<lambda>_. p \<noteq> 0)) (\<lambda>_.
     bindM (modifyM (\<lambda>s. s\<lparr>alloca_header := (alloca_header s)(p := (alloca_h s f, sz + sizeof_alloca_header)),
        alloca_h := (alloca_h s)(f := p)\<rparr>)) (\<lambda>_.
     ret (p + sizeof_alloca_header))))"

fun unalloca_loop :: "nat \<Rightarrow> wid \<Rightarrow> addr \<Rightarrow> unit im" where
  "unalloca_loop 0 ws p = failM Out_of_fuel"
| "unalloca_loop (Suc n) ws p =
     (if p = 0 then ret ()
      else
        bindM (getM (\<lambda>s. alloca_header s p)) (\<lambda>h.
        bindM (Cilk_internal_free n ws p (snd h)) (\<lambda>_.
        unalloca_loop n ws (fst h))))"

definition Cilk_unalloca_internal :: "nat \<Rightarrow> wid \<Rightarrow> addr \<Rightarrow> unit im" where
  "Cilk_unalloca_internal n ws f = bindM (getM (\<lambda>s. alloca_h s f)) (\<lambda>p. unalloca_loop n ws p)"

end
