(* ===== verification/Im_Shape.thy ===== *)
theory Im_Shape
  imports Internal_Malloc
begin

section \<open>Correctness of the internal allocator\<close>

text \<open>
  The abstraction of an allocator state is a \<open>Shape\<close>: the free lists as lists of addresses, and the
  list of live blocks with the sizes they were asked for. \<open>im_inv\<close> relates the two; the laws say how
  every operation acts on shapes. The only errors an operation may end in are those of a C library
  that is out of memory.
\<close>

subsection \<open>Weakest preconditions with permitted errors\<close>

definition wpx :: "'e set \<Rightarrow> ('e, 's, 'a) prog \<Rightarrow> ('a \<Rightarrow> 's \<Rightarrow> bool) \<Rightarrow> 's \<Rightarrow> bool" where
  "wpx E m Q s = (case m s of Inl e \<Rightarrow> e \<in> E | Inr (a, s') \<Rightarrow> Q a s')"

named_theorems wpx_simps "weakest preconditions with permitted errors"

lemma wpx_ret [wpx_simps]: "wpx E (ret x) Q s = Q x s"
  by (simp add: wpx_def ret_def)

lemma wpx_bind [wpx_simps]: "wpx E (bindM m f) Q = wpx E m (\<lambda>a. wpx E (f a) Q)"
  by (simp add: fun_eq_iff wpx_def bindM_def split: sum.split prod.split)

lemma wpx_fail [wpx_simps]: "wpx E (failM e) Q s = (e \<in> E)"
  by (simp add: wpx_def failM_def)

lemma wpx_get [wpx_simps]: "wpx E (getM f) Q s = Q (f s) s"
  by (simp add: wpx_def getM_def)

lemma wpx_modify [wpx_simps]: "wpx E (modifyM f) Q s = Q () (f s)"
  by (simp add: wpx_def modifyM_def)

lemma wpx_guard [wpx_simps]: "wpx E (guardM e P) Q s = (if P s then Q () s else e \<in> E)"
  by (simp add: wpx_def guardM_def)

lemma wpx_if [wpx_simps]: "wpx E (if b then m else n) Q s = (if b then wpx E m Q s else wpx E n Q s)"
  by simp

lemma wpx_assert [wpx_simps]: "wpx E (im_assert n b) Q s = (if b then Q () s else Assertion_failed n \<in> E)"
  by (simp add: im_assert_def wpx_guard)

lemma wpx_mono: "wpx E m P s \<Longrightarrow> (\<And>a s'. P a s' \<Longrightarrow> Q a s') \<Longrightarrow> wpx E m Q s"
  by (auto simp: wpx_def split: sum.splits prod.splits)

lemma wpx_call: "wpx E m P s \<Longrightarrow> (\<And>a s'. P a s' \<Longrightarrow> wpx E (k a) Q s') \<Longrightarrow> wpx E (bindM m k) Q s"
  unfolding wpx_bind by (rule wpx_mono)

lemma wpx_empty: "wpx {} m Q s = wp m Q s"
  by (simp add: wpx_def wp_def split: sum.split)

lemma wpx_resultD: "wpx E m Q s \<Longrightarrow> m s = Inr (a, s') \<Longrightarrow> Q a s'"
  by (simp add: wpx_def)

lemma wpx_weaken: "wpx E m Q s \<Longrightarrow> E \<subseteq> E' \<Longrightarrow> wpx E' m Q s"
  by (auto simp: wpx_def split: sum.splits)

text \<open>The errors of \<open>extend_global_pool\<close>.\<close>

definition out_of_memory :: "rt_error set" where
  "out_of_memory = {Die 61, Die 76}"

subsection \<open>Buckets\<close>

definition bkt :: "nat \<Rightarrow> nat \<Rightarrow> nat" where
  "bkt line n = nat (Cilk_internal_malloc_size_to_bucket line n)"

definition bsize :: "nat \<Rightarrow> nat" where
  "bsize b = 16 * 2 ^ b"

lemmas bucket_defs = Cilk_internal_malloc_size_to_bucket_def Cilk_internal_malloc_canonicalize_def
  Cilk_internal_malloc_bucket_to_size_def CILK_INTERNAL_MALLOC_THRESHOLD_def CILK_INTERNAL_MALLOC_BUCKETS_def

lemma bucket_nonneg: "n \<le> 4096 \<Longrightarrow> line \<le> 4096 \<Longrightarrow> 0 \<le> Cilk_internal_malloc_size_to_bucket line n"
  by (simp add: bucket_defs)

lemma bkt_less: "bkt line n < 9"
  by (simp add: bkt_def bucket_defs)

lemma canonical_is_bsize:
  "n \<le> 4096 \<Longrightarrow> line \<le> 4096 \<Longrightarrow> Cilk_internal_malloc_canonicalize line n = int (bsize (bkt line n))"
  by (simp add: bkt_def bucket_defs bsize_def)

lemma bsize_fits: "n \<le> 4096 \<Longrightarrow> line \<le> 4096 \<Longrightarrow> n \<le> bsize (bkt line n)"
  by (simp add: bkt_def bucket_defs bsize_def)

lemma bsize_max: "b < 9 \<Longrightarrow> bsize b \<le> 4096"
  using power_increasing [of b 8 "2::nat"] by (simp add: bsize_def)

lemma bsize_pos [simp]: "0 < bsize b"
  by (simp add: bsize_def)

lemma bucket_of_canonical:
  "n \<le> 4096 \<Longrightarrow> line \<le> 4096 \<Longrightarrow>
   Cilk_internal_malloc_size_to_bucket line (bsize (bkt line n)) = Cilk_internal_malloc_size_to_bucket line n"
  by (simp add: bkt_def bucket_defs bsize_def)

lemma bkt_of_canonical: "n \<le> 4096 \<Longrightarrow> line \<le> 4096 \<Longrightarrow> bkt line (bsize (bkt line n)) = bkt line n"
  using bucket_of_canonical by (simp add: bkt_def)

lemma wpx_bucket_index [wpx_simps]:
  "n \<le> 4096 \<Longrightarrow> cache_line s \<le> 4096 \<Longrightarrow> wpx E (bucket_index n) Q s = Q (bkt (cache_line s) n) s"
  using bucket_nonneg by (simp add: bucket_index_def wpx_simps bkt_def)

subsection \<open>Shapes\<close>

record Shape =
  wl :: "wid \<Rightarrow> nat \<Rightarrow> addr list"
  gl :: "nat \<Rightarrow> addr list"
  lv :: "(addr \<times> nat) list"

datatype place = Worker wid nat | Global nat | Live nat

primrec bucket_of :: "place \<Rightarrow> nat" where
  "bucket_of (Worker w b) = b"
| "bucket_of (Global b) = b"
| "bucket_of (Live b) = b"

definition small :: "nat \<Rightarrow> nat \<Rightarrow> (addr \<times> nat) list \<Rightarrow> addr list" where
  "small line b bs = map fst (filter (\<lambda>x. snd x \<le> 4096 \<and> bkt line (snd x) = b) bs)"

primrec blocks_at :: "nat \<Rightarrow> Shape \<Rightarrow> place \<Rightarrow> addr list" where
  "blocks_at line L (Worker w b) = wl L w b"
| "blocks_at line L (Global b) = gl L b"
| "blocks_at line L (Live b) = small line b (lv L)"

fun chain :: "(addr \<Rightarrow> addr) \<Rightarrow> addr \<Rightarrow> addr list \<Rightarrow> bool" where
  "chain w p [] = (p = 0)"
| "chain w p (x # xs) = (p = x \<and> x \<noteq> 0 \<and> chain w (w x) xs)"

lemma chain_upd [simp]: "p \<notin> set xs \<Longrightarrow> chain (w(p := v)) q xs = chain w q xs"
  by (induction xs arbitrary: q) auto

lemma chain_head: "chain w p xs \<Longrightarrow> (p = 0) = (xs = [])"
  by (cases xs) auto

lemma chain_length: "chain w p xs \<Longrightarrow> list_length_from w p l = Some (l + length xs)"
  by (induction xs arbitrary: p l) (simp_all add: list_length_from.simps)

text \<open>Every block is in one place, once.\<close>

definition exclusive :: "(place \<Rightarrow> addr list) \<Rightarrow> bool" where
  "exclusive P \<longleftrightarrow> (\<forall>x. distinct (P x)) \<and> (\<forall>x y a. a \<in> set (P x) \<longrightarrow> a \<in> set (P y) \<longrightarrow> x = y)"

definition carved :: "(place \<Rightarrow> addr list) \<Rightarrow> (addr \<times> nat) set" where
  "carved P = {(a, b). \<exists>x. a \<in> set (P x) \<and> b = bucket_of x}"

definition moved :: "addr \<Rightarrow> place \<Rightarrow> place \<Rightarrow> (place \<Rightarrow> addr list) \<Rightarrow> place \<Rightarrow> addr list" where
  "moved a x y P = P(x := remove1 a (P x), y := a # P y)"

lemma exclusive_moved:
  assumes "exclusive P" "a \<in> set (P x)" "x \<noteq> y"
  shows "exclusive (moved a x y P)"
proof -
  have d: "distinct (P z)" for z using assms(1) by (simp add: exclusive_def)
  have u: "z = z'" if "c \<in> set (P z)" "c \<in> set (P z')" for c z z'
    using assms(1) that unfolding exclusive_def by blast
  have "a \<notin> set (P y)" using u [OF assms(2)] assms(3) by auto
  then have "distinct (moved a x y P z)" for z
    using d assms(3) by (simp add: moved_def distinct_remove1)
  moreover have "z = z'" if "c \<in> set (moved a x y P z)" "c \<in> set (moved a x y P z')" for c z z'
  proof (cases "c = a")
    case True
    have "z = y" if "a \<in> set (moved a x y P z)" for z
    proof (rule ccontr)
      assume "z \<noteq> y"
      with that have "a \<in> set (P z)" "z \<noteq> x"
        using d [of x] by (auto simp: moved_def split: if_splits)
      with u [OF assms(2)] show False by blast
    qed
    with that True show ?thesis by auto
  next
    case False
    then have "c \<in> set (P z)" "c \<in> set (P z')"
      using that by (auto simp: moved_def split: if_splits dest: set_mp [OF set_remove1_subset])
    then show ?thesis by (rule u)
  qed
  ultimately show ?thesis unfolding exclusive_def by blast
qed

lemma carved_moved:
  assumes "a \<in> set (P x)" "bucket_of y = bucket_of x"
  shows "carved (moved a x y P) = carved P"
proof -
  have "(\<exists>z. c \<in> set (moved a x y P z) \<and> b = bucket_of z) = (\<exists>z. c \<in> set (P z) \<and> b = bucket_of z)" for b c
  proof
    assume "\<exists>z. c \<in> set (moved a x y P z) \<and> b = bucket_of z"
    then obtain z where z: "c \<in> set (moved a x y P z)" "b = bucket_of z" by blast
    show "\<exists>z. c \<in> set (P z) \<and> b = bucket_of z"
    proof (cases "c \<in> set (P z)")
      case True
      with z show ?thesis by blast
    next
      case False
      then have "c = a" "z = y"
        using z(1) set_remove1_subset [of a "P x"] by (auto simp: moved_def split: if_splits)
      then show ?thesis using assms z(2) by (intro exI [of _ x]) simp
    qed
  next
    assume "\<exists>z. c \<in> set (P z) \<and> b = bucket_of z"
    then obtain z where z: "c \<in> set (P z)" "b = bucket_of z" by blast
    show "\<exists>z. c \<in> set (moved a x y P z) \<and> b = bucket_of z"
    proof (cases "c = a \<and> z = x")
      case True
      then show ?thesis using assms(2) z(2) by (intro exI [of _ y]) (simp add: moved_def)
    next
      case False
      then show ?thesis using z by (intro exI [of _ z]) (auto simp: moved_def in_set_remove1)
    qed
  qed
  then show ?thesis by (simp add: carved_def)
qed

text \<open>A block enters from outside.\<close>

lemma exclusive_new:
  "exclusive P \<Longrightarrow> (\<And>z. a \<notin> set (P z)) \<Longrightarrow> exclusive (P(y := a # P y))"
  by (auto simp: exclusive_def split: if_splits)

lemma carved_new: "carved (P(y := a # P y)) = insert (a, bucket_of y) (carved P)"
  by (auto simp: carved_def split: if_splits)

subsection \<open>The system's blocks\<close>

definition apart :: "addr \<times> nat \<Rightarrow> addr \<times> nat \<Rightarrow> bool" where
  "apart x y \<longleftrightarrow> fst x + snd x \<le> fst y \<or> fst y + snd y \<le> fst x"

lemma apart_sym: "apart x y = apart y x"
  by (auto simp: apart_def)

definition sys_ok :: "(addr \<times> nat) list \<Rightarrow> bool" where
  "sys_ok bs \<longleftrightarrow> distinct (map fst bs) \<and> 0 \<notin> fst ` set bs
     \<and> (\<forall>x \<in> set bs. \<forall>y \<in> set bs. fst x \<noteq> fst y \<longrightarrow> apart x y)"

text \<open>What the documentation of the C library promises: a new block is not null and apart from the live ones.\<close>

definition policy_ok :: "((addr \<times> nat) list \<Rightarrow> nat \<Rightarrow> addr option) \<Rightarrow> bool" where
  "policy_ok pol \<longleftrightarrow> (\<forall>bs n a. sys_ok bs \<longrightarrow> pol bs n = Some a \<longrightarrow>
     a \<noteq> 0 \<and> (\<forall>x \<in> set bs. fst x \<noteq> a \<and> apart (a, n) x))"

lemma sys_ok_Cons:
  "sys_ok bs \<Longrightarrow> a \<noteq> 0 \<Longrightarrow> (\<forall>x \<in> set bs. fst x \<noteq> a \<and> apart (a, n) x) \<Longrightarrow> sys_ok ((a, n) # bs)"
  by (auto simp: sys_ok_def apart_sym)

lemma sys_ok_filter: "sys_ok bs \<Longrightarrow> sys_ok (filter P bs)"
  by (auto simp: sys_ok_def distinct_map_filter)

lemma sys_ok_unique: "sys_ok bs \<Longrightarrow> (a, n) \<in> set bs \<Longrightarrow> (a, m) \<in> set bs \<Longrightarrow> n = m"
  by (auto simp: sys_ok_def dest: eq_key_imp_eq_value)

lemma wpx_Cilk_malloc:
  assumes "policy_ok (sys_policy s)" "sys_ok (sys_blocks s)" "Q 0 s"
    and "\<And>a. a \<noteq> 0 \<Longrightarrow> (\<And>x. x \<in> set (sys_blocks s) \<Longrightarrow> fst x \<noteq> a \<and> apart (a, n) x) \<Longrightarrow>
      Q a (s\<lparr>sys_blocks := (a, n) # sys_blocks s\<rparr>)"
  shows "wpx E (Cilk_malloc n) Q s"
  using assms by (auto simp: wpx_def Cilk_malloc_def policy_ok_def split: option.split)

lemma wpx_Cilk_free:
  "p \<in> fst ` set (sys_blocks s) \<Longrightarrow> p \<noteq> 0 \<Longrightarrow>
   wpx E (Cilk_free p) Q s = Q () (s\<lparr>sys_blocks := filter (\<lambda>x. fst x \<noteq> p) (sys_blocks s)\<rparr>)"
  by (simp add: Cilk_free_def wpx_simps)

subsection \<open>The invariant\<close>

definition chunks :: "Im \<Rightarrow> addr list" where
  "chunks s = take (nat (alloc_list_index s + 1)) (alloc_list s)"

definition inside :: "addr \<Rightarrow> nat \<Rightarrow> Im \<Rightarrow> bool" where
  "inside a n s \<longleftrightarrow> (\<exists>k \<in> set (chunks s). k \<le> a \<and> a + n \<le> k + CILK_INTERNAL_MALLOC_CHUNK)"

definition large :: "(addr \<times> nat) list \<Rightarrow> (addr \<times> nat) list" where
  "large bs = filter (\<lambda>x. 4096 < snd x) bs"

text \<open>Chunks and large blocks are different system blocks, and none of them is one of the two tables.\<close>

definition arena_ok :: "Im \<Rightarrow> (addr \<times> nat) list \<Rightarrow> bool" where
  "arena_ok s bs \<longleftrightarrow> sys_ok (sys_blocks s) \<and> policy_ok (sys_policy s)
     \<and> - 1 \<le> alloc_list_index s \<and> alloc_list_index s < alloc_list_size s
     \<and> int (length (alloc_list s)) = alloc_list_size s
     \<and> (\<exists>n. (alloc_list_block s, n) \<in> set (sys_blocks s)) \<and> (\<exists>n. (im_info_block s, n) \<in> set (sys_blocks s))
     \<and> (\<forall>k \<in> set (chunks s). (k, CILK_INTERNAL_MALLOC_CHUNK) \<in> set (sys_blocks s))
     \<and> set (large bs) \<subseteq> set (sys_blocks s)
     \<and> distinct (alloc_list_block s # im_info_block s # chunks s @ map fst (large bs))"

text \<open>Carved blocks lie in chunks, apart from each other and from the pool, which lies in a chunk.\<close>

definition carved_ok :: "Im \<Rightarrow> (addr \<times> nat) set \<Rightarrow> bool" where
  "carved_ok s C \<longleftrightarrow> global_pool_begin s \<le> global_pool_end s
     \<and> (C = {} \<and> global_pool_end s = 0
        \<or> inside (global_pool_begin s) (global_pool_end s - global_pool_begin s) s)
     \<and> (\<forall>(a, b) \<in> C. b < 9 \<and> inside a (bsize b) s
          \<and> (a + bsize b \<le> global_pool_begin s \<or> global_pool_end s \<le> a))
     \<and> (\<forall>(a, b) \<in> C. \<forall>(a', b') \<in> C. a \<noteq> a' \<longrightarrow> apart (a, bsize b) (a', bsize b'))"

definition lists_ok :: "Im \<Rightarrow> Shape \<Rightarrow> bool" where
  "lists_ok s L \<longleftrightarrow> (\<forall>w b. b < 9 \<longrightarrow> w < im_active s \<longrightarrow>
        chain (im_words s) (free_list (im_descriptor s w b)) (wl L w b)
        \<and> im_count (im_descriptor s w b) = alloc_batch s - int (length (wl L w b))
        \<and> int (length (wl L w b)) \<le> alloc_batch s)
     \<and> (\<forall>b. b < 9 \<longrightarrow>
        chain (im_words s) (free_list (global_im_descriptor s b)) (gl L b)
        \<and> im_count (global_im_descriptor s b) = alloc_batch s - int (length (gl L b)))"

definition im_inv :: "Im \<Rightarrow> Shape \<Rightarrow> bool" where
  "im_inv s L \<longleftrightarrow> 2 \<le> alloc_batch s \<and> cache_line s \<le> 4096 \<and> lists_ok s L
     \<and> exclusive (blocks_at (cache_line s) L) \<and> carved_ok s (carved (blocks_at (cache_line s) L))
     \<and> arena_ok s (lv L)"

text \<open>Two entries of the list of live blocks never overlap.\<close>

lemma small_entry: "(a, n) \<in> set bs \<Longrightarrow> n \<le> 4096 \<Longrightarrow> a \<in> set (small line (bkt line n) bs)"
  by (force simp: small_def)

lemma distinct_map_split:
  "distinct (map f (filter P xs)) \<Longrightarrow> distinct (map f (filter (\<lambda>x. \<not> P x) xs)) \<Longrightarrow>
   f ` set (filter P xs) \<inter> f ` set (filter (\<lambda>x. \<not> P x) xs) = {} \<Longrightarrow> distinct (map f xs)"
  by (induction xs) (auto split: if_splits)

subsection \<open>Updates the invariant does not see\<close>

named_theorems im_upd "parts of the invariant under updates of fields they do not mention"

lemma chunks_upd [im_upd]:
  "chunks (s\<lparr>im_words := a1\<rparr>) = chunks s" "chunks (s\<lparr>im_descriptor := a2\<rparr>) = chunks s"
  "chunks (s\<lparr>im_info := a3\<rparr>) = chunks s" "chunks (s\<lparr>global_im_descriptor := a4\<rparr>) = chunks s"
  "chunks (s\<lparr>global_im_info := a5\<rparr>) = chunks s" "chunks (s\<lparr>global_pool_begin := a6\<rparr>) = chunks s"
  "chunks (s\<lparr>global_im_lock := a7\<rparr>) = chunks s" "chunks (s\<lparr>im_events := a8\<rparr>) = chunks s"
  "chunks (s\<lparr>im_wasted := a9\<rparr>) = chunks s" "chunks (s\<lparr>sys_blocks := a10\<rparr>) = chunks s"
  by (simp_all add: chunks_def)

lemma inside_chunks: "chunks s' = chunks s \<Longrightarrow> inside a n s' = inside a n s"
  by (simp add: inside_def)

lemma carved_ok_cong:
  "chunks s' = chunks s \<Longrightarrow> global_pool_begin s' = global_pool_begin s \<Longrightarrow>
   global_pool_end s' = global_pool_end s \<Longrightarrow> carved_ok s' C = carved_ok s C"
  by (simp add: carved_ok_def inside_chunks [of s' s])

lemma carved_ok_upd [im_upd]:
  "carved_ok (s\<lparr>im_words := a1\<rparr>) = carved_ok s" "carved_ok (s\<lparr>im_descriptor := a2\<rparr>) = carved_ok s"
  "carved_ok (s\<lparr>im_info := a3\<rparr>) = carved_ok s" "carved_ok (s\<lparr>global_im_descriptor := a4\<rparr>) = carved_ok s"
  "carved_ok (s\<lparr>global_im_info := a5\<rparr>) = carved_ok s"
  "carved_ok (s\<lparr>global_im_lock := a7\<rparr>) = carved_ok s" "carved_ok (s\<lparr>im_events := a8\<rparr>) = carved_ok s"
  "carved_ok (s\<lparr>im_wasted := a9\<rparr>) = carved_ok s" "carved_ok (s\<lparr>sys_blocks := a10\<rparr>) = carved_ok s"
  by (rule ext, rule carved_ok_cong; simp add: im_upd)+

lemma arena_ok_upd [im_upd]:
  "arena_ok (s\<lparr>im_words := a1\<rparr>) = arena_ok s" "arena_ok (s\<lparr>im_descriptor := a2\<rparr>) = arena_ok s"
  "arena_ok (s\<lparr>im_info := a3\<rparr>) = arena_ok s" "arena_ok (s\<lparr>global_im_descriptor := a4\<rparr>) = arena_ok s"
  "arena_ok (s\<lparr>global_im_info := a5\<rparr>) = arena_ok s" "arena_ok (s\<lparr>global_pool_begin := a6\<rparr>) = arena_ok s"
  "arena_ok (s\<lparr>global_im_lock := a7\<rparr>) = arena_ok s" "arena_ok (s\<lparr>im_events := a8\<rparr>) = arena_ok s"
  "arena_ok (s\<lparr>im_wasted := a9\<rparr>) = arena_ok s"
  by (simp_all add: fun_eq_iff arena_ok_def im_upd)

lemma lists_ok_upd [im_upd]:
  "lists_ok (s\<lparr>im_info := a3\<rparr>) = lists_ok s" "lists_ok (s\<lparr>global_im_info := a5\<rparr>) = lists_ok s"
  "lists_ok (s\<lparr>global_pool_begin := a6\<rparr>) = lists_ok s"
  "lists_ok (s\<lparr>global_im_lock := a7\<rparr>) = lists_ok s" "lists_ok (s\<lparr>im_events := a8\<rparr>) = lists_ok s"
  "lists_ok (s\<lparr>im_wasted := a9\<rparr>) = lists_ok s" "lists_ok (s\<lparr>sys_blocks := a10\<rparr>) = lists_ok s"
  by (simp_all add: fun_eq_iff lists_ok_def)

lemma im_inv_upd [im_upd]:
  "im_inv (s\<lparr>im_info := a3\<rparr>) = im_inv s" "im_inv (s\<lparr>global_im_info := a5\<rparr>) = im_inv s"
  "im_inv (s\<lparr>global_im_lock := a7\<rparr>) = im_inv s" "im_inv (s\<lparr>im_events := a8\<rparr>) = im_inv s"
  "im_inv (s\<lparr>im_wasted := a9\<rparr>) = im_inv s"
  by (simp_all add: fun_eq_iff im_inv_def im_upd)

lemma lists_ok_lv [simp]: "lists_ok s (L\<lparr>lv := bs\<rparr>) = lists_ok s L"
  by (simp add: lists_ok_def)

end
