(* ===== verification/Im_Laws.thy ===== *)
theory Im_Laws
  imports Im_Shape
begin

section \<open>How the operations of the allocator act on shapes\<close>

subsection \<open>Moving a block between places\<close>

lemma map_remove1_distinct:
  "distinct (map f xs) \<Longrightarrow> x \<in> set xs \<Longrightarrow> map f (remove1 x xs) = remove1 (f x) (map f xs)"
  by (induction xs) (auto simp: image_iff)

lemma small_remove:
  assumes "n \<le> 4096" "distinct (small line (bkt line n) bs)" "(p, n) \<in> set bs"
  shows "small line b (remove1 (p, n) bs) = (if b = bkt line n then remove1 p (small line b bs) else small line b bs)"
proof (cases "b = bkt line n")
  case True
  then have "(p, n) \<in> set (filter (\<lambda>x. snd x \<le> 4096 \<and> bkt line (snd x) = b) bs)" using assms by simp
  with True assms(2) show ?thesis
    by (simp add: small_def filter_remove1 map_remove1_distinct)
next
  case False
  then have "(p, n) \<notin> set (filter (\<lambda>x. snd x \<le> 4096 \<and> bkt line (snd x) = b) bs)" by auto
  with False show ?thesis by (simp add: small_def filter_remove1 remove1_idem)
qed

lemma large_remove: "n \<le> 4096 \<Longrightarrow> large (remove1 (p, n) bs) = large bs"
  by (simp add: large_def filter_remove1 remove1_idem)

definition set_wl :: "wid \<Rightarrow> nat \<Rightarrow> addr list \<Rightarrow> Shape \<Rightarrow> Shape" where
  "set_wl w b xs L = L\<lparr>wl := (wl L)(w := (wl L w)(b := xs))\<rparr>"

definition set_gl :: "nat \<Rightarrow> addr list \<Rightarrow> Shape \<Rightarrow> Shape" where
  "set_gl b xs L = L\<lparr>gl := (gl L)(b := xs)\<rparr>"

definition born :: "addr \<Rightarrow> nat \<Rightarrow> Shape \<Rightarrow> Shape" where
  "born p n L = L\<lparr>lv := (p, n) # lv L\<rparr>"

definition dead :: "addr \<Rightarrow> nat \<Rightarrow> Shape \<Rightarrow> Shape" where
  "dead p n L = L\<lparr>lv := remove1 (p, n) (lv L)\<rparr>"

lemmas shape_defs = set_wl_def set_gl_def born_def dead_def

lemma shape_sel [simp]:
  "wl (set_wl w b xs L) = (wl L)(w := (wl L w)(b := xs))" "gl (set_wl w b xs L) = gl L" "lv (set_wl w b xs L) = lv L"
  "wl (set_gl b xs L) = wl L" "gl (set_gl b xs L) = (gl L)(b := xs)" "lv (set_gl b xs L) = lv L"
  "wl (born p n L) = wl L" "gl (born p n L) = gl L" "lv (born p n L) = (p, n) # lv L"
  "wl (dead p n L) = wl L" "gl (dead p n L) = gl L" "lv (dead p n L) = remove1 (p, n) (lv L)"
  by (simp_all add: shape_defs)

lemma lists_ok_born [simp]: "lists_ok s (born p n L) = lists_ok s L" "lists_ok s (dead p n L) = lists_ok s L"
  by (simp_all add: shape_defs)

lemma at_worker_pop:
  assumes "wl L w b = x # xs" "n \<le> 4096" "bkt line n = b"
  shows "blocks_at line (born x n (set_wl w b xs L)) = moved x (Worker w b) (Live b) (blocks_at line L)"
proof
  fix z show "blocks_at line (born x n (set_wl w b xs L)) z = moved x (Worker w b) (Live b) (blocks_at line L) z"
    using assms by (cases z) (auto simp: moved_def small_def)
qed

lemma at_global_pop:
  assumes "gl L b = x # xs" "n \<le> 4096" "bkt line n = b"
  shows "blocks_at line (born x n (set_gl b xs L)) = moved x (Global b) (Live b) (blocks_at line L)"
proof
  fix z show "blocks_at line (born x n (set_gl b xs L)) z = moved x (Global b) (Live b) (blocks_at line L) z"
    using assms by (cases z) (auto simp: moved_def small_def)
qed

lemma at_worker_push:
  assumes "(p, n) \<in> set (lv L)" "n \<le> 4096" "distinct (small line (bkt line n) (lv L))"
  shows "blocks_at line (dead p n (set_wl w (bkt line n) (p # wl L w (bkt line n)) L))
    = moved p (Live (bkt line n)) (Worker w (bkt line n)) (blocks_at line L)"
proof
  fix z show "blocks_at line (dead p n (set_wl w (bkt line n) (p # wl L w (bkt line n)) L)) z
    = moved p (Live (bkt line n)) (Worker w (bkt line n)) (blocks_at line L) z"
    using small_remove [OF assms(2,3,1)] by (cases z) (auto simp: moved_def)
qed

lemma at_global_push:
  assumes "(p, n) \<in> set (lv L)" "n \<le> 4096" "distinct (small line (bkt line n) (lv L))"
  shows "blocks_at line (dead p n (set_gl (bkt line n) (p # gl L (bkt line n)) L))
    = moved p (Live (bkt line n)) (Global (bkt line n)) (blocks_at line L)"
proof
  fix z show "blocks_at line (dead p n (set_gl (bkt line n) (p # gl L (bkt line n)) L)) z
    = moved p (Live (bkt line n)) (Global (bkt line n)) (blocks_at line L) z"
    using small_remove [OF assms(2,3,1)] by (cases z) (auto simp: moved_def)
qed

lemma at_new:
  assumes "n \<le> 4096" "bkt line n = b"
  shows "blocks_at line (born x n L) = (blocks_at line L)(Live b := x # blocks_at line L (Live b))"
proof
  fix z show "blocks_at line (born x n L) z = ((blocks_at line L)(Live b := x # blocks_at line L (Live b))) z"
    using assms by (cases z) (auto simp: small_def)
qed

lemma arena_ok_born: "n \<le> 4096 \<Longrightarrow> arena_ok s ((x, n) # bs) = arena_ok s bs"
  by (simp add: arena_ok_def large_def)

lemma arena_ok_dead: "n \<le> 4096 \<Longrightarrow> arena_ok s (remove1 (x, n) bs) = arena_ok s bs"
  by (simp add: arena_ok_def large_remove)

subsection \<open>Free-list operations\<close>

lemma im_invD:
  assumes "im_inv s L"
  shows "2 \<le> alloc_batch s" "cache_line s \<le> 4096" "lists_ok s L" "exclusive (blocks_at (cache_line s) L)"
    "carved_ok s (carved (blocks_at (cache_line s) L))" "arena_ok s (lv L)"
  using assms by (simp_all add: im_inv_def)

lemma lists_okD:
  assumes "lists_ok s L" "b < 9"
  shows "w < im_active s \<Longrightarrow> chain (im_words s) (free_list (im_descriptor s w b)) (wl L w b)"
    "w < im_active s \<Longrightarrow> im_count (im_descriptor s w b) = alloc_batch s - int (length (wl L w b))"
    "w < im_active s \<Longrightarrow> int (length (wl L w b)) \<le> alloc_batch s"
    "chain (im_words s) (free_list (global_im_descriptor s b)) (gl L b)"
    "im_count (global_im_descriptor s b) = alloc_batch s - int (length (gl L b))"
  using assms by (auto simp: lists_ok_def)

lemma inv_worker_pop:
  assumes inv: "im_inv s L" and x: "wl L w b = x # xs" and w: "w < im_active s"
    and n: "n \<le> 4096" "bkt (cache_line s) n = b"
  shows "im_inv (upd_descriptor w b (\<lambda>d. d\<lparr>free_list := im_words s x, im_count := im_count d + 1\<rparr>) s)
    (born x n (set_wl w b xs L))"
proof -
  have b: "b < 9" using n(2) bkt_less by auto
  let ?P = "blocks_at (cache_line s) L"
  have l: "lists_ok s L" by (rule im_invD(3) [OF inv])
  have mem: "x \<in> set (?P (Worker w b))" using x by simp
  have "lists_ok (upd_descriptor w b (\<lambda>d. d\<lparr>free_list := im_words s x, im_count := im_count d + 1\<rparr>) s) (set_wl w b xs L)"
    using l lists_okD(1-3) [OF l b w] x by (auto simp: lists_ok_def upd_descriptor_def)
  then show ?thesis
    using im_invD [OF inv] exclusive_moved [OF im_invD(4) [OF inv] mem, of "Live b"] n
    by (simp add: im_inv_def at_worker_pop [OF x n] carved_moved [of x ?P "Worker w b", OF mem] arena_ok_born upd_descriptor_def im_upd)
qed

lemma inv_global_pop:
  assumes inv: "im_inv s L" and x: "gl L b = x # xs" and n: "n \<le> 4096" "bkt (cache_line s) n = b"
  shows "im_inv (upd_global b (\<lambda>d. d\<lparr>free_list := im_words s x, im_count := im_count d + 1\<rparr>) s)
    (born x n (set_gl b xs L))"
proof -
  have b: "b < 9" using n(2) bkt_less by auto
  let ?P = "blocks_at (cache_line s) L"
  have l: "lists_ok s L" by (rule im_invD(3) [OF inv])
  have mem: "x \<in> set (?P (Global b))" using x by simp
  have "lists_ok (upd_global b (\<lambda>d. d\<lparr>free_list := im_words s x, im_count := im_count d + 1\<rparr>) s) (set_gl b xs L)"
    using l lists_okD(4,5) [OF l b] x by (auto simp: lists_ok_def upd_global_def)
  then show ?thesis
    using im_invD [OF inv] exclusive_moved [OF im_invD(4) [OF inv] mem, of "Live b"] n
    by (simp add: im_inv_def at_global_pop [OF x n] carved_moved [of x ?P "Global b", OF mem] arena_ok_born upd_global_def im_upd)
qed

text \<open>A live block is on no list, so threading it on one disturbs no other.\<close>

lemma live_block:
  assumes "im_inv s L" "(p, n) \<in> set (lv L)" "n \<le> 4096"
  shows "p \<in> set (blocks_at (cache_line s) L (Live (bkt (cache_line s) n)))"
    "p \<notin> set (wl L w b)" "p \<notin> set (gl L b)" "p \<noteq> 0" "distinct (small (cache_line s) (bkt (cache_line s) n) (lv L))"
proof -
  let ?P = "blocks_at (cache_line s) L"
  have u: "z = z'" if "c \<in> set (?P z)" "c \<in> set (?P z')" for c z z'
    using im_invD(4) [OF assms(1)] that unfolding exclusive_def by blast
  show p: "p \<in> set (?P (Live (bkt (cache_line s) n)))" using small_entry [OF assms(2,3)] by simp
  show "p \<notin> set (wl L w b)" using u [OF p, of "Worker w b"] by auto
  show "p \<notin> set (gl L b)" using u [OF p, of "Global b"] by auto
  show "distinct (small (cache_line s) (bkt (cache_line s) n) (lv L))"
    using im_invD(4) [OF assms(1)] unfolding exclusive_def by (metis blocks_at.simps(3))
  have "(p, bkt (cache_line s) n) \<in> carved ?P" using p by (auto simp: carved_def intro!: exI [of _ "Live (bkt (cache_line s) n)"])
  then have "inside p (bsize (bkt (cache_line s) n)) s"
    using im_invD(5) [OF assms(1)] by (auto simp: carved_ok_def)
  then obtain k where k: "k \<in> set (chunks s)" "k \<le> p" by (auto simp: inside_def)
  have "sys_ok (sys_blocks s)" "(k, CILK_INTERNAL_MALLOC_CHUNK) \<in> set (sys_blocks s)"
    using im_invD(6) [OF assms(1)] k(1) by (auto simp: arena_ok_def)
  then have "k \<noteq> 0" unfolding sys_ok_def by force
  with k(2) show "p \<noteq> 0" by simp
qed

lemma inv_worker_push:
  assumes inv: "im_inv s L" and p: "(p, n) \<in> set (lv L)" and n: "n \<le> 4096" "bkt (cache_line s) n = b"
    and w: "w < im_active s" and room: "int (length (wl L w b)) < alloc_batch s"
  shows "im_inv (upd_descriptor w b (\<lambda>d. d\<lparr>free_list := p, im_count := im_count d - 1\<rparr>)
       (s\<lparr>im_words := (im_words s)(p := free_list (im_descriptor s w b))\<rparr>))
    (dead p n (set_wl w b (p # wl L w b) L))"
proof -
  have b: "b < 9" using n(2) bkt_less by auto
  note lb = live_block [OF inv p n(1)]
  have l: "lists_ok s L" by (rule im_invD(3) [OF inv])
  have "lists_ok (upd_descriptor w b (\<lambda>d. d\<lparr>free_list := p, im_count := im_count d - 1\<rparr>)
       (s\<lparr>im_words := (im_words s)(p := free_list (im_descriptor s w b))\<rparr>)) (set_wl w b (p # wl L w b) L)"
    using l lists_okD(1-3) [OF l b w] room lb(2-4) by (auto simp: lists_ok_def upd_descriptor_def)
  then show ?thesis
    using im_invD [OF inv] exclusive_moved [OF im_invD(4) [OF inv] lb(1), of "Worker w b"]
      at_worker_push [OF p n(1) lb(5), of w] carved_moved [of p "blocks_at (cache_line s) L" _ "Worker w b", OF lb(1)] n
    by (simp add: im_inv_def arena_ok_dead upd_descriptor_def im_upd)
qed

lemma inv_global_push:
  assumes inv: "im_inv s L" and p: "(p, n) \<in> set (lv L)" and n: "n \<le> 4096" "bkt (cache_line s) n = b"
  shows "im_inv (upd_global b (\<lambda>d. d\<lparr>free_list := p, im_count := im_count d - 1\<rparr>)
       (s\<lparr>im_words := (im_words s)(p := free_list (global_im_descriptor s b))\<rparr>))
    (dead p n (set_gl b (p # gl L b) L))"
proof -
  have b: "b < 9" using n(2) bkt_less by auto
  note lb = live_block [OF inv p n(1)]
  have l: "lists_ok s L" by (rule im_invD(3) [OF inv])
  have "lists_ok (upd_global b (\<lambda>d. d\<lparr>free_list := p, im_count := im_count d - 1\<rparr>)
       (s\<lparr>im_words := (im_words s)(p := free_list (global_im_descriptor s b))\<rparr>)) (set_gl b (p # gl L b) L)"
    using l lists_okD(4,5) [OF l b] lb(2-4) by (auto simp: lists_ok_def upd_global_def)
  then show ?thesis
    using im_invD [OF inv] exclusive_moved [OF im_invD(4) [OF inv] lb(1), of "Global b"]
      at_global_push [OF p n(1) lb(5)] carved_moved [of p "blocks_at (cache_line s) L" _ "Global b", OF lb(1)] n
    by (simp add: im_inv_def arena_ok_dead upd_global_def im_upd)
qed

subsection \<open>The pool\<close>

lemma take_Suc_update: "k < length xs \<Longrightarrow> take (Suc k) (xs[k := a]) = take k xs @ [a]"
  by (simp add: take_Suc_conv_app_nth)

lemma arena_okD:
  assumes "arena_ok s bs"
  shows "sys_ok (sys_blocks s)" "policy_ok (sys_policy s)" "- 1 \<le> alloc_list_index s"
    "alloc_list_index s < alloc_list_size s" "int (length (alloc_list s)) = alloc_list_size s"
    "\<exists>n. (alloc_list_block s, n) \<in> set (sys_blocks s)" "\<exists>n. (im_info_block s, n) \<in> set (sys_blocks s)"
    "k \<in> set (chunks s) \<Longrightarrow> (k, CILK_INTERNAL_MALLOC_CHUNK) \<in> set (sys_blocks s)"
    "set (large bs) \<subseteq> set (sys_blocks s)"
    "distinct (alloc_list_block s # im_info_block s # chunks s @ map fst (large bs))"
  using assms by (auto simp: arena_ok_def)

lemma carved_ok_new_pool:
  assumes C: "carved_ok s C" and k: "\<And>k. k \<in> set (chunks s) \<Longrightarrow> apart (a, CILK_INTERNAL_MALLOC_CHUNK) (k, CILK_INTERNAL_MALLOC_CHUNK)"
    and ch: "chunks s' = chunks s @ [a]" and p: "global_pool_begin s' = a" "global_pool_end s' = a + CILK_INTERNAL_MALLOC_CHUNK"
  shows "carved_ok s' C"
proof -
  have mono: "inside x n s \<Longrightarrow> inside x n s'" for x n using ch by (auto simp: inside_def)
  have off: "x + bsize b \<le> a \<or> a + CILK_INTERNAL_MALLOC_CHUNK \<le> x" if x: "(x, b) \<in> C" for x b
  proof -
    have "inside x (bsize b) s" using C x by (auto simp: carved_ok_def)
    then obtain k' where "k' \<in> set (chunks s)" "k' \<le> x" "x + bsize b \<le> k' + CILK_INTERNAL_MALLOC_CHUNK"
      by (auto simp: inside_def)
    with k [of k'] show ?thesis by (auto simp: apart_def)
  qed
  have "inside a CILK_INTERNAL_MALLOC_CHUNK s'" using ch by (auto simp: inside_def)
  then show ?thesis
    using C p mono off unfolding carved_ok_def by (simp add: case_prod_beta)
qed

definition env where
  "env s = (cache_line s, alloc_batch s, im_active s, sys_policy s, alloca_h s, alloca_header s, im_info_block s)"

lemma inv_extend:
  assumes inv: "im_inv s L" and idx: "k = nat (alloc_list_index s + 1)"
    and sys: "sys_ok bs'" "(a, CILK_INTERNAL_MALLOC_CHUNK) \<in> set bs'" "(blk, m) \<in> set bs'"
      "\<And>x. x \<in> set (sys_blocks s) \<Longrightarrow> fst x \<noteq> alloc_list_block s \<Longrightarrow> x \<in> set bs'"
    and fresh: "\<And>x. x \<in> set (sys_blocks s) \<Longrightarrow> fst x \<noteq> a \<and> apart (a, CILK_INTERNAL_MALLOC_CHUNK) x"
    and blk: "blk \<noteq> a" "blk = alloc_list_block s \<or> blk \<notin> fst ` set (sys_blocks s)"
    and al: "take k al = chunks s" "k < length al" "int (length al) = n"
    and s': "sys_blocks s' = bs'" "alloc_list_block s' = blk" "alloc_list s' = al[k := a]" "alloc_list_size s' = n"
      "alloc_list_index s' = alloc_list_index s + 1" "global_pool_begin s' = a"
      "global_pool_end s' = a + CILK_INTERNAL_MALLOC_CHUNK" "lists_ok s' = lists_ok s" "env s' = env s"
  shows "im_inv s' L"
proof -
  note A = arena_okD [OF im_invD(6) [OF inv]]
  have ch: "chunks s' = chunks s @ [a]"
  proof -
    have "nat (alloc_list_index s' + 1) = Suc k" using idx A(3) by (simp add: s')
    then show ?thesis using al(1) take_Suc_update [OF al(2), of a] by (simp add: chunks_def s')
  qed
  have known: "x \<in> fst ` set (sys_blocks s)" if "x \<in> set (chunks s) \<union> fst ` set (large (lv L)) \<union> {im_info_block s}" for x
    using that A(7-9) by force
  have "carved_ok s' (carved (blocks_at (cache_line s) L))"
    by (rule carved_ok_new_pool [OF im_invD(5) [OF inv] _ ch])
      (use fresh A(8) in \<open>force simp: s'\<close>)+
  moreover have "arena_ok s' (lv L)"
    unfolding arena_ok_def
  proof (intro conjI)
    obtain i where i: "(im_info_block s, i) \<in> set (sys_blocks s)" using A(7) by blast
    have "im_info_block s \<noteq> alloc_list_block s" using A(10) by auto
    then have "(im_info_block s, i) \<in> set bs'" using sys(4) [OF i] by simp
    then show "\<exists>n. (im_info_block s', n) \<in> set (sys_blocks s')" using s'(9) by (auto simp: s' env_def)
    show "\<forall>k \<in> set (chunks s'). (k, CILK_INTERNAL_MALLOC_CHUNK) \<in> set (sys_blocks s')"
    proof
      fix k assume "k \<in> set (chunks s')"
      then consider "k = a" | "k \<in> set (chunks s)" using ch by auto
      then show "(k, CILK_INTERNAL_MALLOC_CHUNK) \<in> set (sys_blocks s')"
      proof cases
        case 2
        then have "k \<noteq> alloc_list_block s" using A(10) by auto
        with 2 A(8) sys(4) show ?thesis by (simp add: s')
      qed (simp add: s' sys(2))
    qed
    show "set (large (lv L)) \<subseteq> set (sys_blocks s')"
    proof
      fix x assume "x \<in> set (large (lv L))"
      then have x: "x \<in> set (sys_blocks s)" "fst x \<in> fst ` set (large (lv L))" using A(9) by auto
      moreover have "alloc_list_block s \<notin> fst ` set (large (lv L))" using A(10) by simp
      ultimately have "fst x \<noteq> alloc_list_block s" by metis
      with x(1) show "x \<in> set (sys_blocks s')" using sys(4) [of x] by (simp add: s')
    qed
    let ?K = "set (chunks s) \<union> fst ` set (large (lv L)) \<union> {im_info_block s}"
    have "a \<notin> ?K"
    proof
      assume "a \<in> ?K"
      then have "a \<in> fst ` set (sys_blocks s)" by (rule known)
      then show False using fresh by auto
    qed
    moreover have "blk \<notin> ?K"
      using blk(2)
    proof
      assume "blk = alloc_list_block s"
      with A(10) show ?thesis by simp
    next
      assume "blk \<notin> fst ` set (sys_blocks s)"
      then show ?thesis using known by metis
    qed
    ultimately show "distinct (alloc_list_block s' # im_info_block s' # chunks s' @ map fst (large (lv L)))"
      using A(10) ch blk(1) s'(9) by (auto simp: s' env_def)
    show "policy_ok (sys_policy s')" using A(2) s'(9) by (simp add: env_def)
    show "- 1 \<le> alloc_list_index s'" "alloc_list_index s' < alloc_list_size s'"
      "int (length (alloc_list s')) = alloc_list_size s'"
      using A(3) al(2,3) idx by (simp_all add: s')
    show "\<exists>n. (alloc_list_block s', n) \<in> set (sys_blocks s')" using sys(3) by (auto simp: s')
    show "sys_ok (sys_blocks s')" by (simp add: s' sys(1))
  qed
  ultimately show ?thesis
    using im_invD(1-4) [OF inv] s'(9) by (simp add: im_inv_def s' env_def)
qed

text \<open>What an operation of the global allocator leaves alone.\<close>

definition pool_frame :: "Im \<Rightarrow> Im \<Rightarrow> bool" where
  "pool_frame s s' \<longleftrightarrow> env s' = env s \<and> global_im_lock s' = global_im_lock s
     \<and> im_info s' = im_info s \<and> global_im_info s' = global_im_info s"

lemma wpx_Cilk_realloc:
  assumes "policy_ok (sys_policy s)" "sys_ok (sys_blocks s)" "p \<in> fst ` set (sys_blocks s)" "Q 0 s"
    and "\<And>q. q \<noteq> 0 \<Longrightarrow> (\<And>x. x \<in> set (sys_blocks s) \<Longrightarrow> fst x \<noteq> q \<and> apart (q, n) x) \<Longrightarrow>
      Q q (s\<lparr>sys_blocks := filter (\<lambda>x. fst x \<noteq> p) ((q, n) # sys_blocks s)\<rparr>)"
  shows "wpx E (Cilk_realloc p n) Q s"
  unfolding Cilk_realloc_def wpx_bind
proof (rule wpx_Cilk_malloc [OF assms(1,2)])
  fix q assume q: "q \<noteq> 0" "\<And>x. x \<in> set (sys_blocks s) \<Longrightarrow> fst x \<noteq> q \<and> apart (q, n) x"
  have "p \<noteq> 0" using assms(2,3) unfolding sys_ok_def by metis
  with assms(3) assms(5) [OF q] q(1)
  show "wpx E (if q = 0 then ret 0 else bindM (Cilk_free p) (\<lambda>_. ret q)) Q (s\<lparr>sys_blocks := (q, n) # sys_blocks s\<rparr>)"
    by (simp add: wpx_bind wpx_Cilk_free wpx_ret)
qed (simp add: wpx_simps assms(4))

lemma extend_law:
  assumes inv: "im_inv s L"
  shows "wpx out_of_memory extend_global_pool
    (\<lambda>_ s'. im_inv s' L \<and> global_pool_end s' = global_pool_begin s' + CILK_INTERNAL_MALLOC_CHUNK
       \<and> global_pool_begin s' \<noteq> 0 \<and> pool_frame s s') s"
proof -
  note A = arena_okD [OF im_invD(6) [OF inv]]
  let ?k = "nat (alloc_list_index s + 1)"
  let ?C = "CILK_INTERNAL_MALLOC_CHUNK"
  let ?Q = "\<lambda>_ s'. im_inv s' L \<and> global_pool_end s' = global_pool_begin s' + ?C
       \<and> global_pool_begin s' \<noteq> 0 \<and> pool_frame s s'"
  show ?thesis
    unfolding extend_global_pool_def wpx_bind
  proof (rule wpx_Cilk_malloc [OF A(2,1)])
    fix a assume a: "a \<noteq> 0" and fresh: "\<And>x. x \<in> set (sys_blocks s) \<Longrightarrow> fst x \<noteq> a \<and> apart (a, ?C) x"
    let ?bs = "(a, ?C) # sys_blocks s"
    have sysa: "sys_ok ?bs" using sys_ok_Cons [OF A(1) a] fresh by blast
    show "wpx out_of_memory
       (modifyM (global_pool_begin_update (\<lambda>_. a))) (\<lambda>aa. wpx out_of_memory (guardM (Die 61) (\<lambda>_. a \<noteq> 0)) (\<lambda>aa. wpx out_of_memory
       (modifyM (\<lambda>s. s\<lparr>global_pool_end := a + ?C, im_allocated := im_allocated s + int ?C, alloc_list_index := alloc_list_index s + 1\<rparr>)) (\<lambda>aa. wpx out_of_memory
       (getM (\<lambda>s. alloc_list_size s \<le> alloc_list_index s)) (\<lambda>full. wpx out_of_memory
       (if full then
          bindM (getM alloc_list_block) (\<lambda>old.
          bindM (getM (\<lambda>s. nat (alloc_list_size s + int DEFAULT_ALLOC_LIST_SIZE) * 8)) (\<lambda>n.
          bindM (Cilk_realloc old n) (\<lambda>q.
          bindM (modifyM (\<lambda>s. s\<lparr>alloc_list_block := q\<rparr>)) (\<lambda>_.
          bindM (guardM (Die 76) (\<lambda>_. q \<noteq> 0)) (\<lambda>_.
          modifyM (\<lambda>s. s\<lparr>alloc_list := alloc_list s @ replicate DEFAULT_ALLOC_LIST_SIZE 0,
             alloc_list_size := alloc_list_size s + int DEFAULT_ALLOC_LIST_SIZE\<rparr>))))))
        else ret ()) (\<lambda>aa. wpx out_of_memory
       (guardM (Wild_pointer 83) (\<lambda>s. 0 \<le> alloc_list_index s \<and> nat (alloc_list_index s) < length (alloc_list s))) (\<lambda>aa. wpx out_of_memory
       (modifyM (\<lambda>s. s\<lparr>alloc_list := (alloc_list s)[nat (alloc_list_index s) := global_pool_begin s]\<rparr>)) ?Q))))))
      (s\<lparr>sys_blocks := ?bs\<rparr>)"
    proof (cases "alloc_list_size s \<le> alloc_list_index s + 1")
      case False
      have "im_inv s' L" if "sys_blocks s' = ?bs" "alloc_list_block s' = alloc_list_block s"
        "alloc_list s' = (alloc_list s)[?k := a]" "alloc_list_size s' = alloc_list_size s"
        "alloc_list_index s' = alloc_list_index s + 1" "global_pool_begin s' = a"
        "global_pool_end s' = a + ?C" "lists_ok s' = lists_ok s" "env s' = env s" for s'
      proof -
        obtain m where m: "(alloc_list_block s, m) \<in> set ?bs" using A(6) by auto
        have "alloc_list_block s \<noteq> a" using A(6) fresh by fastforce
        then show ?thesis
          by (intro inv_extend [OF inv refl sysa _ m _ _ _ _ _ _ _ that])
            (use fresh A(3,5,6) False in \<open>auto simp: chunks_def\<close>)
      qed
      moreover have "nat (alloc_list_index s + 1) < length (alloc_list s)" using A(3,5) False by linarith
      ultimately show ?thesis
        using a A(3) False by (simp add: wpx_simps pool_frame_def env_def lists_ok_def fun_eq_iff)
    next
      case True
      let ?old = "alloc_list_block s" and ?n = "alloc_list_size s + int DEFAULT_ALLOC_LIST_SIZE"
      let ?al = "alloc_list s @ replicate DEFAULT_ALLOC_LIST_SIZE 0"
      have full: "alloc_list_size s = alloc_list_index s + 1" using True A(4) by simp
      have old: "?old \<noteq> a" "?old \<in> fst ` set ?bs" using A(6) fresh by force+
      have inv': "im_inv s' L" if q: "q \<noteq> 0" "\<And>x. x \<in> set ?bs \<Longrightarrow> fst x \<noteq> q \<and> apart (q, m) x"
        and s': "sys_blocks s' = filter (\<lambda>x. fst x \<noteq> ?old) ((q, m) # ?bs)" "alloc_list_block s' = q"
        "alloc_list s' = ?al[?k := a]" "alloc_list_size s' = ?n"
        "alloc_list_index s' = alloc_list_index s + 1" "global_pool_begin s' = a"
        "global_pool_end s' = a + ?C" "lists_ok s' = lists_ok s" "env s' = env s" for s' q m
      proof -
        have ok: "sys_ok (filter (\<lambda>x. fst x \<noteq> ?old) ((q, m) # ?bs))"
          by (rule sys_ok_filter [OF sys_ok_Cons [OF sysa q(1)]]) (use q(2) in blast)
        have qn: "q \<noteq> ?old" "q \<noteq> a" "q \<notin> fst ` set (sys_blocks s)" using q(2) old by force+
        have "(q, m) \<in> set (filter (\<lambda>x. fst x \<noteq> ?old) ((q, m) # ?bs))" using qn by simp
        from inv_extend [OF inv refl ok _ this _ _ _ _ _ _ _ s'] show ?thesis
          using fresh qn old full A(3,5) by (auto simp: chunks_def DEFAULT_ALLOC_LIST_SIZE_def)
      qed
      have "wpx out_of_memory (Cilk_realloc ?old n') (\<lambda>q. wpx out_of_memory
          (modifyM (\<lambda>s. s\<lparr>alloc_list_block := q\<rparr>)) (\<lambda>_. wpx out_of_memory
          (guardM (Die 76) (\<lambda>_. q \<noteq> 0)) (\<lambda>_. wpx out_of_memory
          (modifyM (\<lambda>s. s\<lparr>alloc_list := alloc_list s @ replicate DEFAULT_ALLOC_LIST_SIZE 0,
             alloc_list_size := alloc_list_size s + int DEFAULT_ALLOC_LIST_SIZE\<rparr>)) (\<lambda>_. wpx out_of_memory
          (guardM (Wild_pointer 83) (\<lambda>s. 0 \<le> alloc_list_index s \<and> nat (alloc_list_index s) < length (alloc_list s))) (\<lambda>_. wpx out_of_memory
          (modifyM (\<lambda>s. s\<lparr>alloc_list := (alloc_list s)[nat (alloc_list_index s) := global_pool_begin s]\<rparr>)) ?Q)))))
        (s\<lparr>sys_blocks := ?bs, global_pool_begin := a, global_pool_end := a + ?C,
           im_allocated := im_allocated s + int ?C, alloc_list_index := alloc_list_index s + 1\<rparr>)" for n'
      proof (rule wpx_Cilk_realloc, goal_cases)
        case (5 q)
        have "nat (alloc_list_index s + 1) < length ?al" using A(3,5) full by (simp add: DEFAULT_ALLOC_LIST_SIZE_def)
        then show ?case
          using a 5(1) A(3)
          by (simp add: wpx_simps del: filter.simps)
            (intro conjI inv' [of q n'] 5; simp add: pool_frame_def env_def lists_ok_def fun_eq_iff full del: filter.simps)
      qed (use A(2) sysa old in \<open>simp_all add: wpx_simps out_of_memory_def\<close>)
      then show ?thesis using a True by (simp add: wpx_simps)
    qed
  qed (simp add: wpx_simps out_of_memory_def)
qed

lemma inv_cut:
  assumes inv: "im_inv s L" and room: "global_pool_begin s + bsize b \<le> global_pool_end s"
    and n: "n \<le> 4096" "bkt (cache_line s) n = b"
  shows "im_inv (s\<lparr>global_pool_begin := global_pool_begin s + bsize b\<rparr>) (born (global_pool_begin s) n L)"
proof -
  let ?P = "blocks_at (cache_line s) L" and ?p = "global_pool_begin s" and ?e = "global_pool_end s"
  let ?s = "s\<lparr>global_pool_begin := ?p + bsize b\<rparr>"
  have C: "carved_ok s (carved ?P)" by (rule im_invD(5) [OF inv])
  have pool: "inside ?p (?e - ?p) s"
    using C room bsize_pos [of b] by (auto simp: carved_ok_def)
  have off: "a + bsize c \<le> ?p \<or> ?e \<le> a" "c < 9" "inside a (bsize c) s" if "(a, c) \<in> carved ?P" for a c
    using C that by (auto simp: carved_ok_def)
  have new: "?p \<notin> set (?P z)" for z
  proof
    assume "?p \<in> set (?P z)"
    then have "(?p, bucket_of z) \<in> carved ?P" by (auto simp: carved_def)
    from off(1) [OF this] room bsize_pos [of "bucket_of z"] bsize_pos [of b] show False by linarith
  qed
  have b: "b < 9" using n(2) bkt_less by auto
  have ins: "inside a m ?s = inside a m s" for a m by (rule inside_chunks) (simp add: im_upd)
  have in1: "inside ?p (bsize b) s" using pool room by (auto simp: inside_def)
  have in2: "inside (?p + bsize b) (?e - (?p + bsize b)) s"
  proof -
    obtain k where "k \<in> set (chunks s)" "k \<le> ?p" "?p + (?e - ?p) \<le> k + CILK_INTERNAL_MALLOC_CHUNK"
      using pool by (auto simp: inside_def)
    with room show ?thesis unfolding inside_def by (intro bexI [of _ k]) auto
  qed
  have "carved_ok ?s (insert (?p, b) (carved ?P))"
    unfolding carved_ok_def
  proof (intro conjI)
    show "\<forall>(a, c) \<in> insert (?p, b) (carved ?P). c < 9 \<and> inside a (bsize c) ?s
        \<and> (a + bsize c \<le> global_pool_begin ?s \<or> global_pool_end ?s \<le> a)"
      using off b in1 by (fastforce simp: ins)
    show "\<forall>(a, c) \<in> insert (?p, b) (carved ?P). \<forall>(a', c') \<in> insert (?p, b) (carved ?P).
        a \<noteq> a' \<longrightarrow> apart (a, bsize c) (a', bsize c')"
    proof (clarify)
      fix a c a' c' assume "(a, c) \<in> insert (?p, b) (carved ?P)" "(a', c') \<in> insert (?p, b) (carved ?P)" "a \<noteq> a'"
      then consider "(a, c) \<in> carved ?P" "(a', c') \<in> carved ?P" | "(a, c) = (?p, b)" "(a', c') \<in> carved ?P"
        | "(a, c) \<in> carved ?P" "(a', c') = (?p, b)" by blast
      then show "apart (a, bsize c) (a', bsize c')"
      proof cases
        case 1
        then show ?thesis using C \<open>a \<noteq> a'\<close> by (fastforce simp: carved_ok_def)
      qed (use off(1) room in \<open>force simp: apart_def\<close>)+
    qed
  qed (use room in2 in \<open>simp_all add: ins\<close>)
  moreover have P': "blocks_at (cache_line s) (born ?p n L) = ?P(Live b := ?p # ?P (Live b))"
    by (rule at_new [OF n])
  moreover have "carved (blocks_at (cache_line s) (born ?p n L)) = insert (?p, b) (carved ?P)"
    unfolding P' carved_new by simp
  ultimately show ?thesis
    using im_invD [OF inv] exclusive_new [OF im_invD(4) [OF inv] new, of "Live b"] n(1)
    by (simp add: im_inv_def arena_ok_born im_upd)
qed

lemma pool_cut_law:
  assumes inv: "im_inv s L" and n: "n \<le> 4096" "bkt (cache_line s) n = b"
  shows "wpx out_of_memory (pool_cut (bsize b))
    (\<lambda>p s'. im_inv s' (born p n L) \<and> pool_frame s s') s"
proof -
  have cut: "wpx E (bindM (getM global_pool_begin) (\<lambda>mem.
     bindM (modifyM (\<lambda>s. s\<lparr>global_pool_begin := mem + bsize b\<rparr>)) (\<lambda>_. ret mem)))
      (\<lambda>p s'. im_inv s' (born p n L) \<and> pool_frame s s') t"
    if "im_inv t L" "global_pool_begin t + bsize b \<le> global_pool_end t" "pool_frame s t" for E t
    using inv_cut [OF that(1,2) n(1)] that(3) n(2) by (simp add: wpx_simps pool_frame_def env_def)
  show ?thesis
  proof (cases "global_pool_end s < global_pool_begin s + bsize b")
    case False
    then show ?thesis using cut [OF inv] by (simp add: pool_cut_def wpx_bind wpx_get wpx_ret pool_frame_def)
  next
    case True
    let ?s = "s\<lparr>im_wasted := im_wasted s + (int (global_pool_end s) - int (global_pool_begin s))\<rparr>"
    have inv1: "im_inv ?s L" using inv by (simp add: im_upd)
    have b: "b < 9" using n(2) bkt_less by auto
    have "wpx out_of_memory (bindM extend_global_pool (\<lambda>_. bindM (getM global_pool_begin) (\<lambda>mem.
       bindM (modifyM (\<lambda>s. s\<lparr>global_pool_begin := mem + bsize b\<rparr>)) (\<lambda>_. ret mem))))
      (\<lambda>p s'. im_inv s' (born p n L) \<and> pool_frame s s') ?s"
    proof (rule wpx_call [OF extend_law [OF inv1]], elim conjE)
      fix t assume t: "im_inv t L" "global_pool_end t = global_pool_begin t + CILK_INTERNAL_MALLOC_CHUNK" "pool_frame ?s t"
      have "pool_frame s t" using t(3) by (simp add: pool_frame_def env_def)
      moreover have "global_pool_begin t + bsize b \<le> global_pool_end t"
        using t(2) bsize_max [OF b] by (simp add: CILK_INTERNAL_MALLOC_CHUNK_def)
      ultimately show "wpx out_of_memory (bindM (getM global_pool_begin) (\<lambda>mem.
         bindM (modifyM (\<lambda>s. s\<lparr>global_pool_begin := mem + bsize b\<rparr>)) (\<lambda>_. ret mem)))
        (\<lambda>p s'. im_inv s' (born p n L) \<and> pool_frame s s') t" using cut t(1) by blast
    qed
    with True show ?thesis by (simp add: pool_cut_def wpx_simps)
  qed
qed

subsection \<open>The books\<close>

text \<open>The counters of all workers and of the global allocator together.\<close>

definition paid :: "Im \<Rightarrow> Im \<Rightarrow> int \<Rightarrow> int \<Rightarrow> bool" where
  "paid s s' bytes calls \<longleftrightarrow> total_used s' = total_used s + bytes \<and> total_calls s' = total_calls s + calls"

lemma sum_fun_upd:
  "(w::nat) < n \<Longrightarrow> (\<Sum>i<n. f ((g(w := x)) i)) = (\<Sum>i<n. f (g i)) + f x - (f (g w) :: int)"
proof (induction n)
  case (Suc n)
  show ?case
  proof (cases "w = n")
    case True
    then have "(\<Sum>i<n. f ((g(w := x)) i)) = (\<Sum>i<n. f (g i))" by (intro sum.cong) auto
    with True show ?thesis by simp
  next
    case False
    with Suc show ?thesis by simp
  qed
qed simp

lemma wpx_count_worker:
  assumes "w < im_active s"
    and "\<And>s'. paid s s' bytes calls \<Longrightarrow> s' = s\<lparr>im_info := im_info s'\<rparr> \<Longrightarrow> Q () s'"
  shows "wpx E (count_worker w bytes calls) Q s"
proof -
  let ?s = "s\<lparr>im_info := (im_info s)(w := (im_info s w)
     \<lparr>im_used := im_used (im_info s w) + bytes, nmalloc := nmalloc (im_info s w) + calls\<rparr>)\<rparr>"
  have "paid s ?s bytes calls"
    unfolding paid_def total_used_def total_calls_def
    by (simp add: sum_fun_upd [OF assms(1)] del: fun_upd_apply)
  with assms(2) [of ?s] show ?thesis by (simp add: count_worker_def wpx_simps)
qed

lemma paid_refl: "paid s s 0 0" by (simp add: paid_def)

lemma paid_trans: "paid s s1 a b \<Longrightarrow> paid s1 s2 c d \<Longrightarrow> e = a + c \<Longrightarrow> f = b + d \<Longrightarrow> paid s s2 e f"
  by (simp add: paid_def)

lemma paid_same:
  "im_info s' = im_info s \<Longrightarrow> global_im_info s' = global_im_info s \<Longrightarrow> im_active s' = im_active s \<Longrightarrow> paid s s' 0 0"
  by (simp add: paid_def total_used_def total_calls_def)

lemma global_alloc_law:
  assumes inv: "im_inv s L" and n: "n \<le> 4096" "bkt (cache_line s) n = b" "n = bsize b"
  shows "wpx out_of_memory (global_im_alloc n b)
    (\<lambda>p s'. (\<exists>g. im_inv s' (born p n (L\<lparr>gl := g\<rparr>))) \<and> env s' = env s
       \<and> global_im_lock s' = global_im_lock s \<and> paid s s' (int n) 1) s"
proof -
  have b: "b < 9" using n(2) bkt_less by auto
  let ?s = "s\<lparr>global_im_info := (global_im_info s)\<lparr>im_used := im_used (global_im_info s) + int n,
     nmalloc := nmalloc (global_im_info s) + 1\<rparr>\<rparr>"
  have inv1: "im_inv ?s L" using inv by (simp add: im_upd)
  have pay: "paid s ?s (int n) 1" by (simp add: paid_def total_used_def total_calls_def)
  have n': "n \<le> CILK_INTERNAL_MALLOC_THRESHOLD" "b < CILK_INTERNAL_MALLOC_BUCKETS"
    using n b by (simp_all add: bucket_defs)
  show ?thesis
  proof (cases "gl L b")
    case Nil
    then have "free_list (global_im_descriptor s b) = 0"
      using lists_okD(4) [OF im_invD(3) [OF inv] b] by (simp add: chain_head)
    moreover have "wpx out_of_memory (pool_cut n) (\<lambda>p s'. (\<exists>g. im_inv s' (born p n (L\<lparr>gl := g\<rparr>))) \<and> env s' = env s
       \<and> global_im_lock s' = global_im_lock s \<and> paid s s' (int n) 1) ?s"
    proof (rule wpx_mono)
      show "wpx out_of_memory (pool_cut n) (\<lambda>p s'. im_inv s' (born p n L) \<and> pool_frame ?s s') ?s"
        using pool_cut_law [OF inv1 n(1)] n by simp
    next
      fix p s' assume A: "im_inv s' (born p n L) \<and> pool_frame ?s s'"
      then have "paid ?s s' 0 0" by (intro paid_same) (simp_all add: pool_frame_def env_def)
      then have "paid s s' (int n) 1" by (rule paid_trans [OF pay]) simp_all
      then show "(\<exists>g. im_inv s' (born p n (L\<lparr>gl := g\<rparr>))) \<and> env s' = env s
         \<and> global_im_lock s' = global_im_lock s \<and> paid s s' (int n) 1"
        using A by (intro conjI exI [of _ "gl L"]) (simp_all add: pool_frame_def env_def)
    qed
    ultimately show ?thesis
      using n' by (simp add: global_im_alloc_def wpx_simps count_global_def)
  next
    case (Cons x xs)
    have hd: "free_list (global_im_descriptor s b) = x" "x \<noteq> 0"
      using lists_okD(4) [OF im_invD(3) [OF inv] b] Cons by auto
    let ?t = "upd_global b (\<lambda>d. d\<lparr>free_list := im_words ?s x, im_count := im_count d + 1\<rparr>) ?s"
    have "im_inv ?t (born x n (set_gl b xs L))"
      by (rule inv_global_pop [OF inv1 Cons]) (use n in simp_all)
    then have "\<exists>g. im_inv ?t (born x n (L\<lparr>gl := g\<rparr>))" by (auto simp: set_gl_def)
    moreover have "paid s ?t (int n) 1" using pay by (simp add: paid_def total_used_def total_calls_def upd_global_def)
    ultimately show ?thesis
      using n' hd by (simp add: global_im_alloc_def wpx_simps count_global_def upd_global_def env_def)
  qed
qed

lemma global_free_law:
  assumes inv: "im_inv s L" and p: "(p, n) \<in> set (lv L)" and n: "n \<le> 4096" "bkt (cache_line s) n = b"
  shows "wpx E (global_im_free p n b)
    (\<lambda>_ s'. im_inv s' (dead p n (set_gl b (p # gl L b) L)) \<and> env s' = env s
       \<and> global_im_lock s' = global_im_lock s \<and> paid s s' (- int n) (- 1)) s"
proof -
  have b: "b < 9" using n(2) bkt_less by auto
  let ?s = "s\<lparr>global_im_info := (global_im_info s)\<lparr>im_used := im_used (global_im_info s) + - int n,
     nmalloc := nmalloc (global_im_info s) + - 1\<rparr>\<rparr>"
  have inv1: "im_inv ?s L" using inv by (simp add: im_upd)
  have n': "n \<le> CILK_INTERNAL_MALLOC_THRESHOLD" "b < CILK_INTERNAL_MALLOC_BUCKETS"
    using n b by (simp_all add: bucket_defs)
  from inv_global_push [OF inv1 p n(1)] n(2) n' show ?thesis
    by (simp add: global_im_free_def wpx_simps count_global_def upd_global_def env_def
        paid_def total_used_def total_calls_def)
qed

subsection \<open>The allocator of a worker\<close>

lemma worker_pop_law:
  assumes inv: "im_inv s L" and x: "wl L w b = x # xs" and w: "w < im_active s"
    and n: "n \<le> 4096" "bkt (cache_line s) n = b"
  shows "wpx E (worker_pop w b) (\<lambda>p s'. p = x \<and> im_inv s' (born x n (set_wl w b xs L)) \<and> env s' = env s
       \<and> global_im_lock s' = global_im_lock s \<and> paid s s' 0 0) s"
proof -
  have b: "b < 9" using n(2) bkt_less by auto
  have "free_list (im_descriptor s w b) = x" "x \<noteq> 0"
    using lists_okD(1) [OF im_invD(3) [OF inv] b w] x by auto
  with inv_worker_pop [OF inv x w n] show ?thesis
    by (simp add: worker_pop_def wpx_simps upd_descriptor_def env_def paid_same)
qed

lemma worker_push_law:
  assumes inv: "im_inv s L" and p: "(p, n) \<in> set (lv L)" and n: "n \<le> 4096" "bkt (cache_line s) n = b"
    and w: "w < im_active s" and room: "int (length (wl L w b)) < alloc_batch s"
  shows "wpx E (worker_push w b p) (\<lambda>_ s'. im_inv s' (dead p n (set_wl w b (p # wl L w b) L)) \<and> env s' = env s
       \<and> global_im_lock s' = global_im_lock s \<and> paid s s' 0 0) s"
  using inv_worker_push [OF inv p n w room]
  by (simp add: worker_push_def wpx_simps upd_descriptor_def env_def paid_same)

lemma free_room_law:
  assumes inv: "im_inv s L" and p: "(p, n) \<in> set (lv L)" and n: "n \<le> 4096" "bkt (cache_line s) n = b"
    and w: "w < im_active s" and room: "int (length (wl L w b)) < alloc_batch s"
  shows "wpx E (Cilk_internal_free (Suc (Suc m)) w p n)
    (\<lambda>_ s'. im_inv s' (dead p n (set_wl w b (p # wl L w b) L)) \<and> env s' = env s
       \<and> global_im_lock s' = global_im_lock s \<and> paid s s' (- int n) (- 1)) s"
  unfolding Cilk_internal_free.simps wpx_bind
proof (rule wpx_count_worker [OF w])
  fix t assume t: "paid s t (- int n) (- 1)" "t = s\<lparr>im_info := im_info t\<rparr>"
  have f: "cache_line t = cache_line s" "im_active t = im_active s" "alloc_batch t = alloc_batch s"
    "env t = env s" "global_im_lock t = global_im_lock s" "im_descriptor t = im_descriptor s"
    by (subst t(2), simp add: env_def)+
  have inv1: "im_inv t L" using inv by (subst t(2)) (simp add: im_upd)
  have b: "b < 9" using n(2) bkt_less by auto
  have cnt: "0 < im_count (im_descriptor t w b)"
    using lists_okD(2) [OF im_invD(3) [OF inv] b w] room by (simp add: f)
  have "wpx E (worker_push w b p) (\<lambda>_ s'. im_inv s' (dead p n (set_wl w b (p # wl L w b) L)) \<and> env s' = env s
       \<and> global_im_lock s' = global_im_lock s \<and> paid s s' (- int n) (- 1)) t"
    by (rule wpx_mono [OF worker_push_law [OF inv1 p n(1)]])
      (use n w room in \<open>auto simp: f intro: paid_trans [OF t(1)]\<close>)
  then show "wpx E (if CILK_INTERNAL_MALLOC_THRESHOLD < n then Cilk_free p
     else bindM (bucket_index n) (\<lambda>b. bindM (while_not (Suc m) (\<lambda>s. 0 < im_count (im_descriptor s w b))
        (im_free_batch (Cilk_internal_malloc (Suc m) w) w n b)) (\<lambda>_. worker_push w b p)))
     (\<lambda>_ s'. im_inv s' (dead p n (set_wl w b (p # wl L w b) L)) \<and> env s' = env s
       \<and> global_im_lock s' = global_im_lock s \<and> paid s s' (- int n) (- 1)) t"
    using n cnt im_invD(2) [OF inv] by (simp add: wpx_simps f bucket_defs(4))
qed

text \<open>An allocation from a free list that is not empty.\<close>

lemma malloc_nonempty_law:
  assumes inv: "im_inv s L" and w: "w < im_active s"
    and n: "n \<le> 4096" "bkt (cache_line s) n = b" and x: "wl L w b = x # xs"
  shows "wpx E (Cilk_internal_malloc (Suc (Suc m)) w n)
    (\<lambda>p s'. p = x \<and> im_inv s' (born x n (set_wl w b xs L)) \<and> env s' = env s
       \<and> global_im_lock s' = global_im_lock s \<and> paid s s' (int n) 1) s"
    (is "wpx E _ ?Q s")
  unfolding Cilk_internal_malloc.simps wpx_bind
proof (rule wpx_count_worker [OF w])
  fix t assume t: "paid s t (int n) 1" "t = s\<lparr>im_info := im_info t\<rparr>"
  have f: "cache_line t = cache_line s" "im_active t = im_active s" "alloc_batch t = alloc_batch s"
    "env t = env s" "global_im_lock t = global_im_lock s" "im_descriptor t = im_descriptor s"
    by (subst t(2), simp add: env_def)+
  have inv1: "im_inv t L" using inv by (subst t(2)) (simp add: im_upd)
  have line: "cache_line s \<le> 4096" by (rule im_invD(2) [OF inv])
  have b: "b < 9" using n(2) bkt_less by auto
  have hd: "free_list (im_descriptor t w b) \<noteq> 0"
    using lists_okD(1) [OF im_invD(3) [OF inv] b w] x by (simp add: f)
  have canon: "nat (Cilk_internal_malloc_canonicalize (cache_line t) n) = bsize b" "bsize b \<le> 4096"
      "bkt (cache_line t) (bsize b) = b"
    using canonical_is_bsize [OF n(1) line] bsize_max [OF b] bkt_of_canonical [OF n(1) line] n(2) by (simp_all add: f)
  have "wpx E (worker_pop w b) ?Q t"
    by (rule wpx_mono [OF worker_pop_law [OF inv1 x]])
      (use n w in \<open>auto simp: f intro: paid_trans [OF t(1)]\<close>)
  then show "wpx E (if CILK_INTERNAL_MALLOC_THRESHOLD < n then Cilk_malloc n
     else bindM (getM (\<lambda>s. nat (Cilk_internal_malloc_canonicalize (cache_line s) n))) (\<lambda>n.
       bindM (bucket_index n) (\<lambda>b. bindM (while_not (Suc m) (\<lambda>s. free_list (im_descriptor s w b) \<noteq> 0)
        (im_allocate_batch (Cilk_internal_free (Suc m) w) w n b)) (\<lambda>_. worker_pop w b)))) ?Q t"
    using n canon hd line by (simp add: wpx_simps f bucket_defs(4))
qed

lemmas wpx_flat = wpx_bind wpx_ret [abs_def] wpx_get [abs_def] wpx_modify [abs_def] wpx_guard [abs_def]

lemma wpx_while:
  "wpx E (while_not (Suc n) c m) Q = (\<lambda>s. if c s then Q () s else wpx E m (\<lambda>_. wpx E (while_not n c m) Q) s)"
  by (simp add: fun_eq_iff wpx_simps)

lemma wpx_repeatM:
  assumes "I n s" and "\<And>k t. I (Suc k) t \<Longrightarrow> k < n \<Longrightarrow> wpx E m (\<lambda>_. I k) t"
  shows "wpx E (repeatM n m) (\<lambda>_. I 0) s"
  using assms
proof (induction n arbitrary: s)
  case 0
  then show ?case by (simp add: wpx_simps)
next
  case (Suc n)
  have "wpx E m (\<lambda>_. I n) s" using Suc.prems(1) Suc.prems(2) [of n s] by simp
  then have "wpx E m (\<lambda>_ t. wpx E (repeatM n m) (\<lambda>_. I 0) t) s"
    by (rule wpx_mono) (rule Suc.IH, auto intro: Suc.prems(2))
  then show ?case by (simp add: wpx_simps)
qed

text \<open>
  A batch moves half the batch size of blocks between the global lists and the worker. The lock is
  not held around the single calls of \<open>malloc\<close> and \<open>free\<close> twice: neither of them starts a batch.
\<close>

definition batched :: "Im \<Rightarrow> Shape \<Rightarrow> wid \<Rightarrow> nat \<Rightarrow> int \<Rightarrow> bool \<Rightarrow> Im \<Rightarrow> bool" where
  "batched s L w b len held s' \<longleftrightarrow> (\<exists>L'. im_inv s' L' \<and> lv L' = lv L \<and> int (length (wl L' w b)) = len)
     \<and> env s' = env s \<and> global_im_lock s' = held \<and> paid s s' 0 0"

lemma im_invD_env: "env s' = env s \<Longrightarrow> cache_line s' = cache_line s \<and> im_active s' = im_active s \<and> alloc_batch s' = alloc_batch s"
  by (simp add: env_def)

lemma allocate_batch_law:
  assumes inv: "im_inv s L" and w: "w < im_active s" and b: "b < 9" "bkt (cache_line s) (bsize b) = b"
    and empty: "wl L w b = []" and free: "\<not> global_im_lock s"
  shows "wpx out_of_memory (im_allocate_batch (Cilk_internal_free (Suc (Suc m)) w) w (bsize b) b)
    (\<lambda>_ s'. batched s L w b (alloc_batch s div 2) False s') s"
proof -
  let ?n = "nat (alloc_batch s div 2)"
  let ?I = "\<lambda>k s'. batched s L w b (int (?n - k)) True s'"
  have B: "2 \<le> alloc_batch s" by (rule im_invD(1) [OF inv])
  have small: "bsize b \<le> 4096" by (rule bsize_max [OF b(1)])
  let ?s = "s\<lparr>im_events := (im_events s)(w := (im_events s w)(EVENT_IM_ALLOC_BATCH := Suc (im_events s w EVENT_IM_ALLOC_BATCH))),
     global_im_lock := True\<rparr>"
  have start: "?I ?n ?s"
    using inv empty by (auto simp: batched_def im_upd env_def paid_same)
  have step: "wpx out_of_memory (bindM (global_im_alloc (bsize b) b) (\<lambda>p. Cilk_internal_free (Suc (Suc m)) w p (bsize b))) (\<lambda>_. ?I k) t"
    if hyp: "?I (Suc k) t" and k: "k < ?n" for k t
  proof -
    obtain L1 where L1: "im_inv t L1" "lv L1 = lv L" "length (wl L1 w b) = ?n - Suc k"
      and t: "env t = env s" "global_im_lock t" "paid s t 0 0"
      using hyp by (auto simp: batched_def)
    note e = im_invD_env [OF t(1)]
    show ?thesis
    proof (rule wpx_call [OF global_alloc_law [OF L1(1) small _ refl]], goal_cases)
      case 1
      then show ?case using b e by simp
    next
      case (2 p u)
      then obtain g where g: "im_inv u (born p (bsize b) (L1\<lparr>gl := g\<rparr>))" and u: "env u = env t" "global_im_lock u"
        "paid t u (int (bsize b)) 1" using t(2) by auto
      note e2 = im_invD_env [OF u(1)]
      have room: "int (length (wl (born p (bsize b) (L1\<lparr>gl := g\<rparr>)) w b)) < alloc_batch u"
        using L1(3) e e2 B k by simp
      show ?case
      proof (rule wpx_mono [OF free_room_law [OF g _ small _ _ room]])
        fix a v assume v: "im_inv v (dead p (bsize b) (set_wl w b (p # wl (born p (bsize b) (L1\<lparr>gl := g\<rparr>)) w b) (born p (bsize b) (L1\<lparr>gl := g\<rparr>)))) \<and> env v = env u
          \<and> global_im_lock v = global_im_lock u \<and> paid u v (- int (bsize b)) (- 1)"
        then have "paid s v 0 0"
          using paid_trans [OF paid_trans [OF t(3) u(3) refl refl], of v "- int (bsize b)" "- 1"] by simp
        with v u t L1(2,3) k show "?I k v"
          unfolding batched_def
          by (intro conjI exI [of _ "dead p (bsize b) (set_wl w b (p # wl (born p (bsize b) (L1\<lparr>gl := g\<rparr>)) w b) (born p (bsize b) (L1\<lparr>gl := g\<rparr>)))"])
            simp_all
      qed (use b w e e2 in simp_all)
    qed
  qed
  have loop: "wpx out_of_memory (repeatM ?n (bindM (global_im_alloc (bsize b) b) (\<lambda>p. Cilk_internal_free (Suc (Suc m)) w p (bsize b))))
    (\<lambda>_. ?I 0) ?s"
    by (rule wpx_repeatM [where I = ?I, OF start step])
  have "wpx out_of_memory (repeatM ?n (bindM (global_im_alloc (bsize b) b) (\<lambda>p. Cilk_internal_free (Suc (Suc m)) w p (bsize b))))
    (\<lambda>_ s'. batched s L w b (alloc_batch s div 2) False (s'\<lparr>global_im_lock := False\<rparr>)) ?s"
  proof (rule wpx_mono [OF loop])
    fix a s' assume "?I 0 s'"
    then show "batched s L w b (alloc_batch s div 2) False (s'\<lparr>global_im_lock := False\<rparr>)"
      using B by (auto simp: batched_def im_upd env_def paid_def total_used_def total_calls_def)
  qed
  then show ?thesis
    using free by (simp add: im_allocate_batch_def wpx_flat im_event_def im_mutex_wait_def im_mutex_signal_def
        del: Cilk_internal_free.simps)
qed

lemma free_batch_law:
  assumes inv: "im_inv s L" and w: "w < im_active s" and b: "b < 9" and n: "n \<le> 4096" "bkt (cache_line s) n = b"
    and full: "int (length (wl L w b)) = alloc_batch s" and free: "\<not> global_im_lock s"
  shows "wpx E (im_free_batch (Cilk_internal_malloc (Suc (Suc m)) w) w n b)
    (\<lambda>_ s'. batched s L w b (alloc_batch s - alloc_batch s div 2) False s') s"
proof -
  let ?n = "nat (alloc_batch s div 2)"
  let ?I = "\<lambda>k s'. batched s L w b (alloc_batch s - int (?n - k)) True s'"
  have B: "2 \<le> alloc_batch s" by (rule im_invD(1) [OF inv])
  let ?s = "s\<lparr>im_events := (im_events s)(w := (im_events s w)(EVENT_IM_FREE_BATCH := Suc (im_events s w EVENT_IM_FREE_BATCH))),
     global_im_lock := True\<rparr>"
  have start: "?I ?n ?s"
    using inv full by (auto simp: batched_def im_upd env_def paid_same)
  have step: "wpx E (bindM (Cilk_internal_malloc (Suc (Suc m)) w n) (\<lambda>p. global_im_free p n b)) (\<lambda>_. ?I k) t"
    if hyp: "?I (Suc k) t" and k: "k < ?n" for k t
  proof -
    obtain L1 where L1: "im_inv t L1" "lv L1 = lv L" "int (length (wl L1 w b)) = alloc_batch s - int (?n - Suc k)"
      and t: "env t = env s" "global_im_lock t" "paid s t 0 0"
      using hyp by (auto simp: batched_def)
    note e = im_invD_env [OF t(1)]
    have "0 < length (wl L1 w b)" using L1(3) B k by linarith
    then obtain x xs where x: "wl L1 w b = x # xs" by (cases "wl L1 w b") auto
    show ?thesis
    proof (rule wpx_call [OF malloc_nonempty_law [OF L1(1) _ n(1) _ x]], goal_cases)
      case (3 p u)
      then have u: "p = x" "im_inv u (born x n (set_wl w b xs L1))" "env u = env t" "global_im_lock u"
        "paid t u (int n) 1" using t(2) by auto
      note e2 = im_invD_env [OF u(3)]
      let ?L2 = "dead x n (set_gl b (x # gl (born x n (set_wl w b xs L1)) b) (born x n (set_wl w b xs L1)))"
      have "wpx E (global_im_free x n b) (\<lambda>_. ?I k) u"
      proof (rule wpx_mono [OF global_free_law [OF u(2) _ n(1)]])
        fix a v assume v: "im_inv v ?L2 \<and> env v = env u \<and> global_im_lock v = global_im_lock u
          \<and> paid u v (- int n) (- 1)"
        then have "paid s v 0 0"
          using paid_trans [OF paid_trans [OF t(3) u(5) refl refl], of v "- int n" "- 1"] by simp
        moreover have "int (length (wl ?L2 w b)) = alloc_batch s - int (?n - k)"
          using L1(3) x k by simp
        moreover have "lv ?L2 = lv L" using L1(2) by simp
        ultimately show "?I k v"
          using v u t unfolding batched_def by (intro conjI exI [of _ ?L2]) simp_all
      qed (use n e e2 in simp_all)
      then show ?case using u(1) by simp
    qed (use n w e in simp_all)
  qed
  have loop: "wpx E (repeatM ?n (bindM (Cilk_internal_malloc (Suc (Suc m)) w n) (\<lambda>p. global_im_free p n b))) (\<lambda>_. ?I 0) ?s"
    by (rule wpx_repeatM [where I = ?I, OF start step])
  have "wpx E (repeatM ?n (bindM (Cilk_internal_malloc (Suc (Suc m)) w n) (\<lambda>p. global_im_free p n b)))
    (\<lambda>_ s'. batched s L w b (alloc_batch s - alloc_batch s div 2) False (s'\<lparr>global_im_lock := False\<rparr>)) ?s"
  proof (rule wpx_mono [OF loop])
    fix a s' assume "?I 0 s'"
    then show "batched s L w b (alloc_batch s - alloc_batch s div 2) False (s'\<lparr>global_im_lock := False\<rparr>)"
      using B by (auto simp: batched_def im_upd env_def paid_def total_used_def total_calls_def)
  qed
  then show ?thesis
    using free by (simp add: im_free_batch_def wpx_flat im_event_def im_mutex_wait_def im_mutex_signal_def
        del: Cilk_internal_malloc.simps)
qed

text \<open>Large blocks come from the C library and go back to it.\<close>

lemma inv_big_malloc:
  assumes inv: "im_inv s L" and n: "4096 < n" and a: "a \<noteq> 0"
    and fresh: "\<And>x. x \<in> set (sys_blocks s) \<Longrightarrow> fst x \<noteq> a \<and> apart (a, n) x"
  shows "im_inv (s\<lparr>sys_blocks := (a, n) # sys_blocks s\<rparr>) (born a n L)"
proof -
  note A = arena_okD [OF im_invD(6) [OF inv]]
  have "blocks_at (cache_line s) (born a n L) z = blocks_at (cache_line s) L z" for z
    using n by (cases z) (simp_all add: small_def)
  then have P: "blocks_at (cache_line s) (born a n L) = blocks_at (cache_line s) L" by (rule ext)
  have "x \<in> fst ` set (sys_blocks s)" if "x \<in> set (chunks s) \<union> fst ` set (large (lv L)) \<union> {im_info_block s, alloc_list_block s}" for x
    using that A(6-9) by force
  moreover have "a \<notin> fst ` set (sys_blocks s)" using fresh by auto
  ultimately have "a \<notin> set (chunks s) \<union> fst ` set (large (lv L)) \<union> {im_info_block s, alloc_list_block s}" by blast
  then have "arena_ok (s\<lparr>sys_blocks := (a, n) # sys_blocks s\<rparr>) (lv (born a n L))"
    using A(2-10) sys_ok_Cons [OF A(1) a] fresh n unfolding arena_ok_def im_upd
    by (auto simp: large_def)
  with im_invD [OF inv] show ?thesis by (simp add: im_inv_def P im_upd)
qed

lemma inv_big_free:
  assumes inv: "im_inv s L" and n: "4096 < n" and p: "(p, n) \<in> set (lv L)"
  shows "im_inv (s\<lparr>sys_blocks := filter (\<lambda>x. fst x \<noteq> p) (sys_blocks s)\<rparr>) (dead p n L)"
    and "p \<in> fst ` set (sys_blocks s)" and "p \<noteq> 0"
proof -
  note A = arena_okD [OF im_invD(6) [OF inv]]
  have pl: "(p, n) \<in> set (large (lv L))" using p n by (simp add: large_def)
  then have ps: "(p, n) \<in> set (sys_blocks s)" using A(9) by blast
  then show "p \<in> fst ` set (sys_blocks s)" by force
  then show "p \<noteq> 0" using A(1) unfolding sys_ok_def by metis
  have "blocks_at (cache_line s) (dead p n L) z = blocks_at (cache_line s) L z" for z
    using n by (cases z) (simp_all add: small_def filter_remove1 remove1_idem)
  then have P: "blocks_at (cache_line s) (dead p n L) = blocks_at (cache_line s) L" by (rule ext)
  have lg: "large (remove1 (p, n) (lv L)) = remove1 (p, n) (large (lv L))"
    by (simp add: large_def filter_remove1)
  have d: "distinct (map fst (large (lv L)))" using A(10) by simp
  have m: "map fst (remove1 (p, n) (large (lv L))) = remove1 p (map fst (large (lv L)))"
    using map_remove1_distinct [OF d pl] by simp
  have gone: "p \<notin> set (chunks s)" "p \<noteq> im_info_block s" "p \<noteq> alloc_list_block s"
    using A(10) pl by force+
  have rest: "fst x \<noteq> p" if "x \<in> set (remove1 (p, n) (large (lv L)))" for x
  proof -
    have "fst x \<in> set (remove1 p (map fst (large (lv L))))" using that m by (metis image_eqI list.set_map)
    with d show ?thesis by auto
  qed
  have "arena_ok (s\<lparr>sys_blocks := filter (\<lambda>x. fst x \<noteq> p) (sys_blocks s)\<rparr>) (lv (dead p n L))"
    unfolding arena_ok_def im_upd
  proof (intro conjI)
    show "set (large (lv (dead p n L))) \<subseteq> set (sys_blocks (s\<lparr>sys_blocks := filter (\<lambda>x. fst x \<noteq> p) (sys_blocks s)\<rparr>))"
      using A(9) rest lg set_remove1_subset [of "(p, n)" "large (lv L)"] by auto
    show "distinct (alloc_list_block (s\<lparr>sys_blocks := filter (\<lambda>x. fst x \<noteq> p) (sys_blocks s)\<rparr>)
        # im_info_block (s\<lparr>sys_blocks := filter (\<lambda>x. fst x \<noteq> p) (sys_blocks s)\<rparr>) # chunks s
        @ map fst (large (lv (dead p n L))))"
      using A(10) d by (simp add: lg m distinct_remove1) (auto dest: set_mp [OF set_remove1_subset])
  qed (use A gone sys_ok_filter [OF A(1)] in auto)
  with im_invD [OF inv] show "im_inv (s\<lparr>sys_blocks := filter (\<lambda>x. fst x \<noteq> p) (sys_blocks s)\<rparr>) (dead p n L)"
    by (simp add: im_inv_def P im_upd)
qed

subsection \<open>Allocation and deallocation\<close>

text \<open>The state after a successful allocation or deallocation that leaves the live blocks \<open>bs\<close>.\<close>

definition served :: "Im \<Rightarrow> (addr \<times> nat) list \<Rightarrow> int \<Rightarrow> int \<Rightarrow> Im \<Rightarrow> bool" where
  "served s bs bytes calls s' \<longleftrightarrow> (\<exists>L'. im_inv s' L' \<and> lv L' = bs) \<and> env s' = env s
     \<and> \<not> global_im_lock s' \<and> paid s s' bytes calls"

lemma servedI:
  "im_inv s' L' \<Longrightarrow> lv L' = bs \<Longrightarrow> env s' = env s \<Longrightarrow> \<not> global_im_lock s' \<Longrightarrow> paid s s' a b \<Longrightarrow> served s bs a b s'"
  by (auto simp: served_def)

lemma malloc_small_law:
  assumes inv: "im_inv s L" and w: "w < im_active s" and n: "n \<le> 4096" and free: "\<not> global_im_lock s"
  shows "wpx out_of_memory (Cilk_internal_malloc (Suc (Suc (Suc m))) w n)
    (\<lambda>p s'. p \<noteq> 0 \<and> served s ((p, n) # lv L) (int n) 1 s') s"
    (is "wpx _ _ ?Q s")
proof -
  have line: "cache_line s \<le> 4096" by (rule im_invD(2) [OF inv])
  let ?b = "bkt (cache_line s) n"
  have b: "?b < 9" by (rule bkt_less)
  show ?thesis
  proof (cases "wl L w ?b")
    case (Cons x xs)
    have "x \<noteq> 0" using lists_okD(1) [OF im_invD(3) [OF inv] b w] Cons by simp
    then show ?thesis
      by (intro wpx_mono [OF malloc_nonempty_law [OF inv w n refl Cons]])
        (use free in \<open>auto intro: servedI\<close>)
  next
    case Nil
    show ?thesis
      unfolding Cilk_internal_malloc.simps wpx_bind
    proof (rule wpx_count_worker [OF w])
      fix t assume t: "paid s t (int n) 1" "t = s\<lparr>im_info := im_info t\<rparr>"
      have f: "cache_line t = cache_line s" "im_active t = im_active s" "alloc_batch t = alloc_batch s"
        "env t = env s" "global_im_lock t = global_im_lock s" "im_descriptor t = im_descriptor s"
        by (subst t(2), simp add: env_def)+
      have inv1: "im_inv t L" using inv by (subst t(2)) (simp add: im_upd)
      have hd: "free_list (im_descriptor t w ?b) = 0"
        using lists_okD(1) [OF im_invD(3) [OF inv] b w] Nil by (simp add: f)
      have canon: "nat (Cilk_internal_malloc_canonicalize (cache_line t) n) = bsize ?b" "bsize ?b \<le> 4096"
          "bkt (cache_line t) (bsize ?b) = ?b"
        using canonical_is_bsize [OF n line] bsize_max [OF b] bkt_of_canonical [OF n line] by (simp_all add: f)
      let ?batch = "im_allocate_batch (Cilk_internal_free (Suc (Suc m)) w) w (bsize ?b) ?b"
      let ?c = "\<lambda>s. free_list (im_descriptor s w ?b) \<noteq> 0"
      have "wpx out_of_memory ?batch (\<lambda>_ t. wpx out_of_memory (while_not (Suc m) ?c ?batch)
          (\<lambda>_. wpx out_of_memory (worker_pop w ?b) ?Q) t) t"
      proof (rule wpx_mono [OF allocate_batch_law [OF inv1 _ b _ Nil]])
        fix a u assume "batched t L w ?b (alloc_batch t div 2) False u"
        then obtain L1 where L1: "im_inv u L1" "lv L1 = lv L" "int (length (wl L1 w ?b)) = alloc_batch t div 2"
          and u: "env u = env t" "\<not> global_im_lock u" "paid t u 0 0"
          by (auto simp: batched_def)
        note e = im_invD_env [OF u(1)]
        have "0 < length (wl L1 w ?b)" using L1(3) im_invD(1) [OF inv1] by linarith
        then obtain x xs where x: "wl L1 w ?b = x # xs" by (cases "wl L1 w ?b") auto
        have hd: "free_list (im_descriptor u w ?b) \<noteq> 0" "x \<noteq> 0"
          using lists_okD(1) [OF im_invD(3) [OF L1(1)] b, of w] x w e f by auto
        have "wpx out_of_memory (worker_pop w ?b) ?Q u"
        proof (rule wpx_mono [OF worker_pop_law [OF L1(1) x _ n]])
          fix p v assume v: "p = x \<and> im_inv v (born x n (set_wl w ?b xs L1)) \<and> env v = env u
             \<and> global_im_lock v = global_im_lock u \<and> paid u v 0 0"
          then have "paid s v (int n) 1"
            using paid_trans [OF paid_trans [OF t(1) u(3) refl refl], of v 0 0] by simp
          with v L1(2) u f hd(2) show "?Q p v" by (auto intro!: servedI)
        qed (use w e f in simp_all)
        with hd(1) show "wpx out_of_memory (while_not (Suc m) ?c ?batch)
          (\<lambda>_. wpx out_of_memory (worker_pop w ?b) ?Q) u" by (simp add: wpx_simps)
      qed (use w canon free in \<open>simp_all add: f\<close>)
      then show "wpx out_of_memory (if CILK_INTERNAL_MALLOC_THRESHOLD < n then Cilk_malloc n
         else bindM (getM (\<lambda>s. nat (Cilk_internal_malloc_canonicalize (cache_line s) n))) (\<lambda>n.
           bindM (bucket_index n) (\<lambda>b. bindM (while_not (Suc (Suc m)) (\<lambda>s. free_list (im_descriptor s w b) \<noteq> 0)
            (im_allocate_batch (Cilk_internal_free (Suc (Suc m)) w) w n b)) (\<lambda>_. worker_pop w b)))) ?Q t"
        using n canon hd line by (simp add: wpx_simps f bucket_defs(4) wpx_while del: Cilk_internal_free.simps while_not.simps)
    qed
  qed
qed

lemma malloc_law:
  assumes inv: "im_inv s L" and w: "w < im_active s" and free: "\<not> global_im_lock s"
  shows "wpx out_of_memory (Cilk_internal_malloc (Suc (Suc (Suc m))) w n)
    (\<lambda>p s'. if p = 0 then 4096 < n \<and> served s (lv L) (int n) 1 s'
       else served s ((p, n) # lv L) (int n) 1 s') s"
    (is "wpx _ _ ?Q s")
proof (cases "n \<le> 4096")
  case True
  show ?thesis by (rule wpx_mono [OF malloc_small_law [OF inv w True free]]) simp
next
  case False
  show ?thesis
    unfolding Cilk_internal_malloc.simps wpx_bind
  proof (rule wpx_count_worker [OF w])
    fix t assume t: "paid s t (int n) 1" "t = s\<lparr>im_info := im_info t\<rparr>"
    have f: "env t = env s" "global_im_lock t = global_im_lock s"
      by (subst t(2), simp add: env_def)+
    have inv1: "im_inv t L" using inv by (subst t(2)) (simp add: im_upd)
    have "wpx out_of_memory (Cilk_malloc n) ?Q t"
    proof (rule wpx_Cilk_malloc [OF arena_okD(2,1) [OF im_invD(6) [OF inv1]]])
      show "?Q 0 t" using False inv1 t(1) f free by (auto intro: servedI)
    next
      fix a assume a: "a \<noteq> 0" "\<And>x. x \<in> set (sys_blocks t) \<Longrightarrow> fst x \<noteq> a \<and> apart (a, n) x"
      let ?u = "t\<lparr>sys_blocks := (a, n) # sys_blocks t\<rparr>"
      have "paid s ?u (int n) 1" using t(1) by (simp add: paid_def total_used_def total_calls_def)
      moreover have "env ?u = env s" using f by (simp add: env_def)
      ultimately show "?Q a ?u"
        using inv_big_malloc [OF inv1 _ a] False a(1) f free by (auto intro!: servedI)
    qed
    with False show "wpx out_of_memory (if CILK_INTERNAL_MALLOC_THRESHOLD < n then Cilk_malloc n
         else bindM (getM (\<lambda>s. nat (Cilk_internal_malloc_canonicalize (cache_line s) n))) (\<lambda>n.
           bindM (bucket_index n) (\<lambda>b. bindM (while_not (Suc (Suc m)) (\<lambda>s. free_list (im_descriptor s w b) \<noteq> 0)
            (im_allocate_batch (Cilk_internal_free (Suc (Suc m)) w) w n b)) (\<lambda>_. worker_pop w b)))) ?Q t"
      by (simp add: bucket_defs(4))
  qed
qed

lemma free_law:
  assumes inv: "im_inv s L" and w: "w < im_active s" and p: "(p, n) \<in> set (lv L)" and free: "\<not> global_im_lock s"
  shows "wpx E (Cilk_internal_free (Suc (Suc (Suc m))) w p n)
    (\<lambda>_ s'. served s (remove1 (p, n) (lv L)) (- int n) (- 1) s') s"
    (is "wpx _ _ ?Q s")
proof -
  have line: "cache_line s \<le> 4096" by (rule im_invD(2) [OF inv])
  let ?b = "bkt (cache_line s) n"
  have b: "?b < 9" by (rule bkt_less)
  have len: "int (length (wl L w ?b)) \<le> alloc_batch s" using lists_okD(3) [OF im_invD(3) [OF inv] b w] .
  consider "4096 < n" | "n \<le> 4096" "int (length (wl L w ?b)) < alloc_batch s"
    | "n \<le> 4096" "int (length (wl L w ?b)) = alloc_batch s" using len by linarith
  then show ?thesis
  proof cases
    case 2
    show ?thesis
      by (rule wpx_mono [OF free_room_law [OF inv p 2(1) refl w 2(2)]]) (use free in \<open>auto intro!: servedI\<close>)
  next
    case 1
    show ?thesis
      unfolding Cilk_internal_free.simps wpx_bind
    proof (rule wpx_count_worker [OF w])
      fix t assume t: "paid s t (- int n) (- 1)" "t = s\<lparr>im_info := im_info t\<rparr>"
      have f: "env t = env s" "global_im_lock t = global_im_lock s"
        by (subst t(2), simp add: env_def)+
      have inv1: "im_inv t L" using inv by (subst t(2)) (simp add: im_upd)
      let ?u = "t\<lparr>sys_blocks := filter (\<lambda>x. fst x \<noteq> p) (sys_blocks t)\<rparr>"
      have "paid s ?u (- int n) (- 1)" using t(1) by (simp add: paid_def total_used_def total_calls_def)
      moreover have "env ?u = env s" using f by (simp add: env_def)
      ultimately have "?Q () ?u"
        using inv_big_free(1) [OF inv1 1 p] f free by (auto intro!: servedI)
      with inv_big_free(2,3) [OF inv1 1 p] 1 show "wpx E (if CILK_INTERNAL_MALLOC_THRESHOLD < n then Cilk_free p
         else bindM (bucket_index n) (\<lambda>b. bindM (while_not (Suc (Suc m)) (\<lambda>s. 0 < im_count (im_descriptor s w b))
            (im_free_batch (Cilk_internal_malloc (Suc (Suc m)) w) w n b)) (\<lambda>_. worker_push w b p))) ?Q t"
        by (simp add: bucket_defs(4) wpx_Cilk_free)
    qed
  next
    case 3
    show ?thesis
      unfolding Cilk_internal_free.simps wpx_bind
    proof (rule wpx_count_worker [OF w])
      fix t assume t: "paid s t (- int n) (- 1)" "t = s\<lparr>im_info := im_info t\<rparr>"
      have f: "cache_line t = cache_line s" "im_active t = im_active s" "alloc_batch t = alloc_batch s"
        "env t = env s" "global_im_lock t = global_im_lock s" "im_descriptor t = im_descriptor s"
        by (subst t(2), simp add: env_def)+
      have inv1: "im_inv t L" using inv by (subst t(2)) (simp add: im_upd)
      have cnt: "\<not> 0 < im_count (im_descriptor t w ?b)"
        using lists_okD(2) [OF im_invD(3) [OF inv] b w] 3(2) by (simp add: f)
      let ?batch = "im_free_batch (Cilk_internal_malloc (Suc (Suc m)) w) w n ?b"
      let ?c = "\<lambda>s. 0 < im_count (im_descriptor s w ?b)"
      have "wpx E ?batch (\<lambda>_ t. wpx E (while_not (Suc m) ?c ?batch) (\<lambda>_. wpx E (worker_push w ?b p) ?Q) t) t"
      proof (rule wpx_mono [OF free_batch_law [OF inv1 _ b 3(1)]])
        fix a u assume "batched t L w ?b (alloc_batch t - alloc_batch t div 2) False u"
        then obtain L1 where L1: "im_inv u L1" "lv L1 = lv L"
            "int (length (wl L1 w ?b)) = alloc_batch t - alloc_batch t div 2"
          and u: "env u = env t" "\<not> global_im_lock u" "paid t u 0 0"
          by (auto simp: batched_def)
        note e = im_invD_env [OF u(1)]
        have room: "int (length (wl L1 w ?b)) < alloc_batch u" using L1(3) im_invD(1) [OF inv1] e by linarith
        have cnt: "0 < im_count (im_descriptor u w ?b)"
          using lists_okD(2) [OF im_invD(3) [OF L1(1)] b, of w] room w e f by simp
        have "wpx E (worker_push w ?b p) ?Q u"
        proof (rule wpx_mono [OF worker_push_law [OF L1(1) _ 3(1) _ _ room]])
          fix q v assume v: "im_inv v (dead p n (set_wl w ?b (p # wl L1 w ?b) L1)) \<and> env v = env u
             \<and> global_im_lock v = global_im_lock u \<and> paid u v 0 0"
          then have "paid s v (- int n) (- 1)"
            using paid_trans [OF paid_trans [OF t(1) u(3) refl refl], of v 0 0] by simp
          with v L1(2) u f show "?Q q v" by (auto intro!: servedI)
        qed (use w e f p L1(2) in simp_all)
        with cnt show "wpx E (while_not (Suc m) ?c ?batch) (\<lambda>_. wpx E (worker_push w ?b p) ?Q) u"
          by (simp add: wpx_simps)
      qed (use w 3 free in \<open>simp_all add: f\<close>)
      then show "wpx E (if CILK_INTERNAL_MALLOC_THRESHOLD < n then Cilk_free p
         else bindM (bucket_index n) (\<lambda>b. bindM (while_not (Suc (Suc m)) (\<lambda>s. 0 < im_count (im_descriptor s w b))
            (im_free_batch (Cilk_internal_malloc (Suc (Suc m)) w) w n b)) (\<lambda>_. worker_push w b p))) ?Q t"
        using 3(1) cnt line by (simp add: wpx_simps f bucket_defs(4) wpx_while del: Cilk_internal_malloc.simps while_not.simps)
    qed
  qed
qed

end
