(* ===== verification/Im_Run.thy ===== *)
theory Im_Run
  imports Im_Laws
begin

section \<open>Runs of the allocator\<close>

text \<open>
  The fast paths, the initial state, the checks at the end of a run, and the state machine of a
  program that allocates, frees and writes into its blocks.
\<close>

subsection \<open>The inlined versions\<close>

text \<open>The inlined versions do exactly what the functions do, but do not canonicalise first.\<close>

lemma malloc_fast_eq:
  assumes "cache_line s \<le> 4096"
  shows "Cilk_internal_malloc_fast (Suc (Suc n)) w sz s = Cilk_internal_malloc (Suc (Suc n)) w sz s"
proof (cases "4096 < sz")
  case False
  note line = assms and n = False
  let ?b = "bkt (cache_line s) sz"
  have b: "?b < 9" by (rule bkt_less)
  have canon: "nat (Cilk_internal_malloc_canonicalize (cache_line s) sz) = bsize ?b" "bsize ?b \<le> 4096"
      "Cilk_internal_malloc_size_to_bucket (cache_line s) (bsize ?b) = Cilk_internal_malloc_size_to_bucket (cache_line s) sz"
    using canonical_is_bsize [of sz "cache_line s"] bsize_max [OF b] bucket_of_canonical [of sz "cache_line s"] n line by simp_all
  have nn: "0 \<le> Cilk_internal_malloc_size_to_bucket (cache_line s) sz" using bucket_nonneg n line by simp
  then show ?thesis
    using n canon
    by (simp add: Cilk_internal_malloc_fast_def bucket_index_def bindM_def getM_def guardM_def ret_def
        count_worker_def modifyM_def worker_pop_def im_assert_def CILK_INTERNAL_MALLOC_THRESHOLD_def upd_descriptor_def)
qed (simp add: Cilk_internal_malloc_fast_def CILK_INTERNAL_MALLOC_THRESHOLD_def)

lemma free_fast_eq:
  assumes "cache_line s \<le> 4096"
  shows "Cilk_internal_free_fast (Suc (Suc n)) w p sz s = Cilk_internal_free (Suc (Suc n)) w p sz s"
proof (cases "4096 < sz")
  case False
  have nn: "0 \<le> Cilk_internal_malloc_size_to_bucket (cache_line s) sz" using bucket_nonneg False assms by simp
  then show ?thesis
    using False
    by (simp add: Cilk_internal_free_fast_def bucket_index_def bindM_def getM_def guardM_def ret_def
        count_worker_def modifyM_def worker_push_def CILK_INTERNAL_MALLOC_THRESHOLD_def upd_descriptor_def)
qed (simp add: Cilk_internal_free_fast_def CILK_INTERNAL_MALLOC_THRESHOLD_def)

subsection \<open>Blocks do not overlap\<close>

lemma bsize_nonzero [simp]: "bsize b \<noteq> 0"
  by (simp add: bsize_def)

lemma distinct_small:
  assumes "\<And>b. distinct (small line b bs)"
    and "\<And>b b' a. a \<in> set (small line b bs) \<Longrightarrow> a \<in> set (small line b' bs) \<Longrightarrow> b = b'"
  shows "distinct (map fst (filter (\<lambda>x. snd x \<le> 4096) bs))"
  using assms
proof (induction bs)
  case (Cons x bs)
  have sub: "set (small line b bs) \<subseteq> set (small line b (x # bs))" for b by (auto simp: small_def)
  have "distinct (small line b bs)" for b using Cons.prems(1) [of b] by (auto simp: small_def split: if_splits)
  then have IH: "distinct (map fst (filter (\<lambda>x. snd x \<le> 4096) bs))"
    using Cons.IH Cons.prems(2) sub by blast
  have "fst x \<notin> fst ` set (filter (\<lambda>x. snd x \<le> 4096) bs)" if x: "snd x \<le> 4096"
  proof
    assume "fst x \<in> fst ` set (filter (\<lambda>x. snd x \<le> 4096) bs)"
    then obtain n where n: "(fst x, n) \<in> set bs" "n \<le> 4096" by auto
    have "fst x \<in> set (small line (bkt line n) bs)" using small_entry [OF n] .
    moreover have "fst x \<in> set (small line (bkt line (snd x)) (x # bs))" using x by (simp add: small_def)
    ultimately have "bkt line n = bkt line (snd x)" using Cons.prems(2) sub by blast
    with \<open>fst x \<in> set (small line (bkt line n) bs)\<close> Cons.prems(1) [of "bkt line n"] x
    show False by (simp add: small_def)
  qed
  with IH show ?case by simp
qed simp

lemma carvedD:
  assumes "im_inv s L" "a \<in> set (blocks_at (cache_line s) L z)"
  shows "(a, bucket_of z) \<in> carved (blocks_at (cache_line s) L)" "inside a (bsize (bucket_of z)) s"
proof -
  show "(a, bucket_of z) \<in> carved (blocks_at (cache_line s) L)" using assms(2) by (auto simp: carved_def)
  then show "inside a (bsize (bucket_of z)) s" using im_invD(5) [OF assms(1)] by (auto simp: carved_ok_def)
qed

lemma places_apart:
  assumes inv: "im_inv s L" and z: "a \<in> set (blocks_at (cache_line s) L z)" "a' \<in> set (blocks_at (cache_line s) L z')"
    and ne: "a \<noteq> a'"
  shows "apart (a, bsize (bucket_of z)) (a', bsize (bucket_of z'))"
  using carvedD(1) [OF inv z(1)] carvedD(1) [OF inv z(2)] im_invD(5) [OF inv] ne
  unfolding carved_ok_def by blast

lemma large_block:
  assumes inv: "im_inv s L" and p: "(p, n) \<in> set (lv L)" "4096 < n"
  shows "(p, n) \<in> set (sys_blocks s)" "p \<notin> set (chunks s)" "p \<noteq> 0"
proof -
  note A = arena_okD [OF im_invD(6) [OF inv]]
  have l: "(p, n) \<in> set (large (lv L))" using p by (simp add: large_def)
  then show ps: "(p, n) \<in> set (sys_blocks s)" using A(9) by blast
  show "p \<notin> set (chunks s)" using A(10) l by force
  show "p \<noteq> 0" using A(1) ps unfolding sys_ok_def by force
qed

lemma place_large_apart:
  assumes inv: "im_inv s L" and z: "a \<in> set (blocks_at (cache_line s) L z)" and p: "(p, n) \<in> set (lv L)" "4096 < n"
  shows "apart (a, bsize (bucket_of z)) (p, n)"
proof -
  note A = arena_okD [OF im_invD(6) [OF inv]] and lb = large_block [OF inv p]
  obtain k where k: "k \<in> set (chunks s)" "k \<le> a" "a + bsize (bucket_of z) \<le> k + CILK_INTERNAL_MALLOC_CHUNK"
    using carvedD(2) [OF inv z] by (auto simp: inside_def)
  have "k \<noteq> p" using k(1) lb(2) by auto
  then have "apart (k, CILK_INTERNAL_MALLOC_CHUNK) (p, n)" using A(1) A(8) [OF k(1)] lb(1) by (auto simp: sys_ok_def)
  with k show ?thesis by (auto simp: apart_def)
qed

lemma apart_sub: "apart (p, m) y \<Longrightarrow> n \<le> m \<Longrightarrow> apart (p, n) y"
  by (auto simp: apart_def)

lemma live_apart:
  assumes inv: "im_inv s L" and x: "x \<in> set (lv L)" and y: "y \<in> set (lv L)" and ne: "fst x \<noteq> fst y"
  shows "apart x y"
proof -
  let ?line = "cache_line s"
  have line: "?line \<le> 4096" by (rule im_invD(2) [OF inv])
  obtain p n q m where xy: "x = (p, n)" "y = (q, m)" by (cases x; cases y) auto
  have pl: "(p, n) \<in> set (lv L)" "(q, m) \<in> set (lv L)" "p \<noteq> q" using x y ne xy by simp_all
  have sp: "p \<in> set (blocks_at ?line L (Live (bkt ?line n)))" if "n \<le> 4096" using small_entry [OF pl(1) that] by simp
  have sq: "q \<in> set (blocks_at ?line L (Live (bkt ?line m)))" if "m \<le> 4096" using small_entry [OF pl(2) that] by simp
  have fit: "k \<le> bsize (bkt ?line k)" if "k \<le> 4096" for k using bsize_fits that line by simp
  consider "n \<le> 4096" "m \<le> 4096" | "n \<le> 4096" "4096 < m" | "4096 < n" "m \<le> 4096" | "4096 < n" "4096 < m" by linarith
  then show ?thesis
  proof cases
    case 1
    from places_apart [OF inv sp [OF 1(1)] sq [OF 1(2)] pl(3)] fit [OF 1(1)] fit [OF 1(2)]
    show ?thesis by (auto simp: xy apart_def)
  next
    case 2
    from place_large_apart [OF inv sp [OF 2(1)] pl(2) 2(2)] fit [OF 2(1)] show ?thesis by (auto simp: xy apart_def)
  next
    case 3
    from place_large_apart [OF inv sq [OF 3(2)] pl(1) 3(1)] fit [OF 3(2)] show ?thesis by (auto simp: xy apart_def)
  next
    case 4
    from large_block(1) [OF inv pl(1) 4(1)] large_block(1) [OF inv pl(2) 4(2)] pl(3) arena_okD(1) [OF im_invD(6) [OF inv]]
    show ?thesis by (auto simp: xy sys_ok_def)
  qed
qed

lemma live_distinct:
  assumes inv: "im_inv s L"
  shows "distinct (map fst (lv L))"
proof (rule distinct_map_split [where P = "\<lambda>x. snd x \<le> 4096"])
  let ?P = "blocks_at (cache_line s) L"
  have ex: "distinct (?P z)" "a \<in> set (?P z) \<Longrightarrow> a \<in> set (?P z') \<Longrightarrow> z = z'" for a z z'
    using im_invD(4) [OF inv] by (auto simp: exclusive_def)
  show "distinct (map fst (filter (\<lambda>x. snd x \<le> 4096) (lv L)))"
  proof (rule distinct_small)
    show "distinct (small (cache_line s) b (lv L))" for b using ex(1) [of "Live b"] by simp
    show "b = b'" if "a \<in> set (small (cache_line s) b (lv L))" "a \<in> set (small (cache_line s) b' (lv L))" for a b b'
      using ex(2) [of a "Live b" "Live b'"] that by simp
  qed
  have d: "distinct (map fst (large (lv L)))" using arena_okD(10) [OF im_invD(6) [OF inv]] by simp
  have "filter (\<lambda>x. \<not> snd x \<le> 4096) (lv L) = large (lv L)" by (simp add: large_def not_le)
  with d show "distinct (map fst (filter (\<lambda>x. \<not> snd x \<le> 4096) (lv L)))" by simp
  have "a \<noteq> p" if a: "(a, n) \<in> set (lv L)" "n \<le> 4096" and p: "(p, m) \<in> set (lv L)" "4096 < m" for a n p m
  proof -
    have "a \<in> set (?P (Live (bkt (cache_line s) n)))" using small_entry [OF a] by simp
    from place_large_apart [OF inv this p] bsize_pos [of "bucket_of (Live (bkt (cache_line s) n))"] p(2)
    show ?thesis by (auto simp: apart_def)
  qed
  then show "fst ` set (filter (\<lambda>x. snd x \<le> 4096) (lv L)) \<inter> fst ` set (filter (\<lambda>x. \<not> snd x \<le> 4096) (lv L)) = {}"
    by fastforce
qed

lemma live_nonnull: "im_inv s L \<Longrightarrow> (p, n) \<in> set (lv L) \<Longrightarrow> p \<noteq> 0"
  using live_block(4) [of s L p n] large_block(3) [of s L p n] by (cases "n \<le> 4096") auto

text \<open>The program may write what it likes into a live block.\<close>

lemma inv_store:
  assumes inv: "im_inv s L" and p: "(p, n) \<in> set (lv L)" and a: "p \<le> a" "a < p + n"
  shows "im_inv (s\<lparr>im_words := (im_words s)(a := v)\<rparr>) L"
proof -
  let ?P = "blocks_at (cache_line s) L"
  have line: "cache_line s \<le> 4096" by (rule im_invD(2) [OF inv])
  have off: "a \<notin> set (?P z)" if z: "z \<noteq> Live (bkt (cache_line s) n)" for z
  proof
    assume az: "a \<in> set (?P z)"
    show False
    proof (cases "n \<le> 4096")
      case True
      have pz: "p \<in> set (?P (Live (bkt (cache_line s) n)))" using small_entry [OF p True] by simp
      have "a \<noteq> p" using im_invD(4) [OF inv] az pz z unfolding exclusive_def by blast
      from places_apart [OF inv az pz this] bsize_fits [OF True line] bsize_pos [of "bucket_of z"] a
      show False by (auto simp: apart_def)
    next
      case False
      from place_large_apart [OF inv az p] False bsize_pos [of "bucket_of z"] a show False by (auto simp: apart_def)
    qed
  qed
  have "a \<notin> set (wl L w b)" "a \<notin> set (gl L b)" for w b using off [of "Worker w b"] off [of "Global b"] by auto
  then have "lists_ok (s\<lparr>im_words := (im_words s)(a := v)\<rparr>) L"
    using im_invD(3) [OF inv] by (simp add: lists_ok_def)
  with im_invD [OF inv] show ?thesis by (simp add: im_inv_def im_upd)
qed

subsection \<open>The initial state\<close>

definition no_blocks :: Shape where
  "no_blocks = \<lparr>wl = (\<lambda>_ _. []), gl = (\<lambda>_. []), lv = []\<rparr>"

text \<open>The allocator before the runtime system has started.\<close>

definition bare :: "Im \<Rightarrow> bool" where
  "bare s \<longleftrightarrow> policy_ok (sys_policy s) \<and> sys_ok (sys_blocks s) \<and> 2 \<le> alloc_batch s \<and> cache_line s \<le> 4096"

text \<open>What a starting runtime system does, on the allocator's part.\<close>

definition im_start :: "unit im" where
  "im_start =
     bindM Cilk_internal_malloc_global_init (\<lambda>_.
     bindM Cilk_internal_malloc_global_init_2 (\<lambda>_.
     bindM (getM im_active) (\<lambda>n.
     for_each Cilk_internal_malloc_per_worker_init [0..<n])))"

lemma wpx_worker_init:
  "wpx E (Cilk_internal_malloc_per_worker_init w) Q s = Q () (s\<lparr>im_descriptor :=
     (im_descriptor s)(w := empty_lists (alloc_batch s) (im_descriptor s w))\<rparr>)"
  by (simp add: Cilk_internal_malloc_per_worker_init_def wpx_simps)

lemma wpx_for_each_init:
  "wpx E (for_each Cilk_internal_malloc_per_worker_init ws) Q s = Q () (s\<lparr>im_descriptor :=
     (\<lambda>w. if w \<in> set ws then empty_lists (alloc_batch s) (im_descriptor s w) else im_descriptor s w)\<rparr>)"
proof (induction ws arbitrary: s)
  case (Cons w ws)
  have idem: "empty_lists b (empty_lists b d) = empty_lists b d" for b d
    by (simp add: fun_eq_iff empty_lists_def empty_list_def)
  have "(\<lambda>v. if v \<in> set ws then empty_lists (alloc_batch s) (((im_descriptor s)(w := empty_lists (alloc_batch s) (im_descriptor s w))) v)
       else ((im_descriptor s)(w := empty_lists (alloc_batch s) (im_descriptor s w))) v)
     = (\<lambda>v. if v \<in> set (w # ws) then empty_lists (alloc_batch s) (im_descriptor s v) else im_descriptor s v)"
    using idem by (auto simp: fun_eq_iff)
  then show ?case
    by (simp add: wpx_bind wpx_worker_init Cons.IH del: fun_upd_apply set_simps cong: if_cong)
qed (simp add: wpx_simps)

lemma empty_lists_sel:
  "b < 9 \<Longrightarrow> free_list (empty_lists n ds b) = 0" "b < 9 \<Longrightarrow> im_count (empty_lists n ds b) = n"
  by (simp_all add: empty_lists_def empty_list_def CILK_INTERNAL_MALLOC_BUCKETS_def)

lemma no_blocks_at [simp]: "blocks_at line no_blocks z = []"
  by (cases z) (simp_all add: no_blocks_def small_def)

lemma im_start_law:
  assumes "bare s"
  shows "wpx {Die 213, Die 220} im_start
    (\<lambda>_ s'. im_inv s' no_blocks \<and> \<not> global_im_lock s' \<and> total_used s' = 0 \<and> total_calls s' = 0
       \<and> cache_line s' = cache_line s \<and> alloc_batch s' = alloc_batch s \<and> im_active s' = im_active s \<and> sys_policy s' = sys_policy s \<and> alloca_h s' = alloca_h s) s"
proof -
  define Q where "Q = (\<lambda>(_::unit) s'. im_inv s' no_blocks \<and> \<not> global_im_lock s' \<and> total_used s' = 0 \<and> total_calls s' = 0
       \<and> cache_line s' = cache_line s \<and> alloc_batch s' = alloc_batch s \<and> im_active s' = im_active s \<and> sys_policy s' = sys_policy s \<and> alloca_h s' = alloca_h s)"
  have pol: "policy_ok (sys_policy s)" and ok: "sys_ok (sys_blocks s)" using assms by (simp_all add: bare_def)
  have fin: "Q () s'" if
    s': "sys_blocks s' = (q, m) # (p, n) # sys_blocks s" "sys_ok (sys_blocks s')" "p \<noteq> q"
      "im_info_block s' = p" "alloc_list_block s' = q"
      "alloc_list s' = replicate DEFAULT_ALLOC_LIST_SIZE 0" "alloc_list_size s' = int DEFAULT_ALLOC_LIST_SIZE"
      "alloc_list_index s' = - 1" "global_pool_begin s' = 0" "global_pool_end s' = 0" "\<not> global_im_lock s'"
      "sys_policy s' = sys_policy s" "alloc_batch s' = alloc_batch s" "cache_line s' = cache_line s"
      "im_active s' = im_active s" "alloca_h s' = alloca_h s"
      "im_used (global_im_info s') = 0" "nmalloc (global_im_info s') = 0"
      "\<And>w. w < im_active s \<Longrightarrow> im_used (im_info s' w) = 0 \<and> nmalloc (im_info s' w) = 0"
      "\<And>w b. w < im_active s \<Longrightarrow> b < 9 \<Longrightarrow> free_list (im_descriptor s' w b) = 0 \<and> im_count (im_descriptor s' w b) = alloc_batch s"
      "\<And>b. b < 9 \<Longrightarrow> free_list (global_im_descriptor s' b) = 0 \<and> im_count (global_im_descriptor s' b) = alloc_batch s"
    for s' p q n m
  proof -
    have P: "blocks_at (cache_line s') no_blocks = (\<lambda>_. [])" by (rule ext) simp
    have "arena_ok s' []"
      using s' pol by (auto simp: arena_ok_def chunks_def large_def DEFAULT_ALLOC_LIST_SIZE_def)
    then have "im_inv s' no_blocks"
      unfolding im_inv_def P
      using s' assms by (simp add: lists_ok_def bare_def exclusive_def carved_def carved_ok_def no_blocks_def)
    with s' show ?thesis by (simp add: Q_def total_used_def total_calls_def)
  qed
  have "wpx {Die 213, Die 220} im_start Q s"
    unfolding im_start_def Cilk_internal_malloc_global_init_def wpx_bind wpx_get
  proof (rule wpx_Cilk_malloc [OF pol ok], goal_cases)
    case 1
    then show ?case by (simp add: wpx_simps)
  next
    case (2 p)
    let ?bs = "(p, im_active s * sizeof_Cilk_im_stats (cache_line s)) # sys_blocks s"
    have ok1: "sys_ok ?bs" using sys_ok_Cons [OF ok 2(1)] 2(2) by blast
    have "wpx {Die 213, Die 220} (Cilk_malloc (DEFAULT_ALLOC_LIST_SIZE * 8))
      (\<lambda>q. wpx {Die 213, Die 220} (bindM (modifyM (\<lambda>s. s\<lparr>alloc_list_block := q\<rparr>)) (\<lambda>_.
         bindM (guardM (Die 220) (\<lambda>_. q \<noteq> 0)) (\<lambda>_.
         bindM (modifyM (\<lambda>s. s\<lparr>alloc_list := replicate DEFAULT_ALLOC_LIST_SIZE 0, alloc_list_size := int DEFAULT_ALLOC_LIST_SIZE\<rparr>)) (\<lambda>_.
         bindM Cilk_internal_malloc_global_init_2 (\<lambda>_. bindM (getM im_active) (\<lambda>n.
         for_each Cilk_internal_malloc_per_worker_init [0..<n])))))) Q)
      (s\<lparr>sys_blocks := ?bs, im_info_block := p, global_im_lock := False\<rparr>)"
    proof (rule wpx_Cilk_malloc, goal_cases)
      case (4 q)
      have "sys_ok ((q, DEFAULT_ALLOC_LIST_SIZE * 8) # ?bs)" using sys_ok_Cons [OF ok1 4(1)] 4(2) by simp
      moreover have "p \<noteq> q" using 4(2) [of "(p, im_active s * sizeof_Cilk_im_stats (cache_line s))"] by simp
      ultimately show ?case
        unfolding wpx_bind wpx_modify wpx_guard wpx_get wpx_for_each_init Cilk_internal_malloc_global_init_2_def
        using 4(1) by simp (rule fin, simp_all add: empty_lists_sel)
    qed (use pol ok1 in \<open>simp_all add: wpx_simps\<close>)
    with 2(1) show ?case by (simp add: wpx_flat)
  qed
  then show ?thesis by (simp add: Q_def)
qed

end
