(* ===== verification/Im_Properties.thy ===== *)
theory Im_Properties
  imports Im_Run
begin

section \<open>Properties of the allocator\<close>

subsection \<open>The checks at the end of a run\<close>

lemma sum_each_law:
  assumes "\<And>x s. x \<in> set xs \<Longrightarrow> I s \<Longrightarrow> wpx E (f x) (\<lambda>r s'. r = g x \<and> I s') s" and "I s"
  shows "wpx E (sum_each f xs) (\<lambda>r s'. r = sum_list (map g xs) \<and> I s') s"
  using assms
proof (induction xs arbitrary: s)
  case (Cons x xs)
  have "wpx E (f x) (\<lambda>r t. wpx E (sum_each f xs) (\<lambda>r' s'. r + r' = sum_list (map g (x # xs)) \<and> I s') t) s"
  proof (rule wpx_mono [OF Cons.prems(1) [of x, OF _ Cons.prems(2)]])
    fix r t assume "r = g x \<and> I t"
    then show "wpx E (sum_each f xs) (\<lambda>r' s'. r + r' = sum_list (map g (x # xs)) \<and> I s') t"
      by (intro wpx_mono [OF Cons.IH [OF Cons.prems(1)]]) auto
  qed simp
  then show ?case by (simp add: wpx_flat)
qed (simp add: wpx_simps)

lemma im_inv_length:
  "im_inv s L \<Longrightarrow> im_inv (upd_descriptor w i (im_length_update (\<lambda>_. k)) s) L"
  by (simp add: im_inv_def upd_descriptor_def im_upd lists_ok_def)

lemma im_inv_global_length:
  "im_inv s L \<Longrightarrow> im_inv (upd_global i (im_length_update (\<lambda>_. k)) s) L"
  by (simp add: im_inv_def upd_global_def im_upd lists_ok_def)

lemma bucket_to_size: "b < 9 \<Longrightarrow> Cilk_internal_malloc_bucket_to_size (int b) = int (bsize b)"
proof -
  assume "b < 9"
  then consider "b = 0" | "b = 1" | "b = 2" | "b = 3" | "b = 4" | "b = 5" | "b = 6" | "b = 7" | "b = 8" by linarith
  then show ?thesis by cases (simp_all add: Cilk_internal_malloc_bucket_to_size_def bsize_def)
qed

lemma worker_bucket_cleanup_law:
  assumes "im_inv s L" "i < 9" "w < im_active s"
  shows "wpx E (worker_bucket_cleanup w i)
    (\<lambda>r s'. r = int (bsize i * length (wl L w i)) \<and> im_inv s' L \<and> w < im_active s') s"
proof -
  have "free_list_length (im_words s) (free_list (im_descriptor s w i)) = Some (length (wl L w i))"
    using chain_length [OF lists_okD(1) [OF im_invD(3) [OF assms(1)] assms(2,3)], of 0]
    by (simp add: free_list_length_def)
  moreover have "im_count (im_descriptor s w i) + int (length (wl L w i)) = alloc_batch s"
    using lists_okD(2) [OF im_invD(3) [OF assms(1)] assms(2,3)] by simp
  ultimately show ?thesis
    using im_inv_length [OF assms(1), of w i] assms bucket_to_size
    by (simp add: worker_bucket_cleanup_def wpx_simps upd_descriptor_def im_upd)
qed

lemma worker_cleanup_law:
  assumes "im_inv s L" "w < im_active s"
  shows "wpx E (Cilk_internal_malloc_per_worker_cleanup w)
    (\<lambda>_ s'. im_inv s' L \<and> in_free_lists (im_info s' w) = (\<Sum>b<9. int (bsize b * length (wl L w b)))) s"
proof -
  have sum: "sum_list (map (\<lambda>b. int (bsize b * length (wl L w b))) [0..<9]) = (\<Sum>b<9. int (bsize b * length (wl L w b)))"
    by (simp add: interv_sum_list_conv_sum_set_nat atLeast0LessThan)
  have "wpx E (sum_each (worker_bucket_cleanup w) [0..<CILK_INTERNAL_MALLOC_BUCKETS])
    (\<lambda>r s'. r = sum_list (map (\<lambda>b. int (bsize b * length (wl L w b))) [0..<CILK_INTERNAL_MALLOC_BUCKETS])
       \<and> (im_inv s' L \<and> w < im_active s')) s"
    by (rule sum_each_law, rule worker_bucket_cleanup_law) (use assms in \<open>auto simp: CILK_INTERNAL_MALLOC_BUCKETS_def\<close>)
  then show ?thesis
    unfolding Cilk_internal_malloc_per_worker_cleanup_def wpx_bind
    by (rule wpx_mono) (use sum in \<open>simp add: wpx_simps im_upd CILK_INTERNAL_MALLOC_BUCKETS_def\<close>)
qed

lemma global_bucket_cleanup_law:
  assumes "im_inv s L" "i < 9"
  shows "wpx E (global_bucket_cleanup i) (\<lambda>r s'. r = int (bsize i * length (gl L i)) \<and> im_inv s' L) s"
proof -
  have "free_list_length (im_words s) (free_list (global_im_descriptor s i)) = Some (length (gl L i))"
    using chain_length [OF lists_okD(4) [OF im_invD(3) [OF assms(1)] assms(2)], of 0]
    by (simp add: free_list_length_def)
  moreover have "im_count (global_im_descriptor s i) + int (length (gl L i)) = alloc_batch s"
    using lists_okD(5) [OF im_invD(3) [OF assms(1)] assms(2)] by simp
  ultimately show ?thesis
    using im_inv_global_length [OF assms(1), of i] assms bucket_to_size
    by (simp add: global_bucket_cleanup_def wpx_simps upd_global_def im_upd)
qed

lemma global_cleanup_law:
  assumes "im_inv s L" "total_used s = 0" "total_calls s = 0"
  shows "wpx E Cilk_internal_malloc_global_cleanup
    (\<lambda>_ s'. im_inv s' L \<and> in_free_lists (global_im_info s') = (\<Sum>b<9. int (bsize b * length (gl L b)))) s"
proof -
  have sum: "sum_list (map (\<lambda>b. int (bsize b * length (gl L b))) [0..<9]) = (\<Sum>b<9. int (bsize b * length (gl L b)))"
    by (simp add: interv_sum_list_conv_sum_set_nat atLeast0LessThan)
  have "wpx E (sum_each global_bucket_cleanup [0..<CILK_INTERNAL_MALLOC_BUCKETS])
    (\<lambda>r s'. r = sum_list (map (\<lambda>b. int (bsize b * length (gl L b))) [0..<CILK_INTERNAL_MALLOC_BUCKETS]) \<and> im_inv s' L) s"
    by (rule sum_each_law, rule global_bucket_cleanup_law) (use assms in \<open>auto simp: CILK_INTERNAL_MALLOC_BUCKETS_def\<close>)
  then have "wpx E (sum_each global_bucket_cleanup [0..<CILK_INTERNAL_MALLOC_BUCKETS])
    (\<lambda>t. wpx E (modifyM (\<lambda>s. s\<lparr>global_im_info := (global_im_info s)\<lparr>in_free_lists := t\<rparr>\<rparr>))
    (\<lambda>_ s'. im_inv s' L \<and> in_free_lists (global_im_info s') = (\<Sum>b<9. int (bsize b * length (gl L b))))) s"
    by (rule wpx_mono) (use sum in \<open>simp add: wpx_simps im_upd CILK_INTERNAL_MALLOC_BUCKETS_def\<close>)
  with assms show ?thesis by (simp add: Cilk_internal_malloc_global_cleanup_def wpx_bind wpx_guard)
qed

subsection \<open>Runs\<close>

text \<open>
  A run of a program against the allocator: any worker allocates or frees, by the function or by its
  inlined version, and the program writes into its live blocks. The second component is the list of
  live blocks with the sizes that were asked for. A large block is asked from the C library, which may
  refuse it: the allocation then returns the null pointer although it has been counted, and the third component
  keeps the sizes that were refused.
\<close>

inductive im_step :: "Im \<times> (addr \<times> nat) list \<times> nat list \<Rightarrow> Im \<times> (addr \<times> nat) list \<times> nat list \<Rightarrow> bool" where
  malloc: "w < im_active s \<Longrightarrow> Cilk_internal_malloc 3 w n s = Inr (p, s') \<Longrightarrow> p \<noteq> 0 \<Longrightarrow>
     im_step (s, bs, rs) (s', (p, n) # bs, rs)"
| malloc_fast: "w < im_active s \<Longrightarrow> Cilk_internal_malloc_fast 3 w n s = Inr (p, s') \<Longrightarrow> p \<noteq> 0 \<Longrightarrow>
     im_step (s, bs, rs) (s', (p, n) # bs, rs)"
| refused: "w < im_active s \<Longrightarrow> Cilk_internal_malloc 3 w n s = Inr (0, s') \<Longrightarrow> im_step (s, bs, rs) (s', bs, n # rs)"
| refused_fast: "w < im_active s \<Longrightarrow> Cilk_internal_malloc_fast 3 w n s = Inr (0, s') \<Longrightarrow> im_step (s, bs, rs) (s', bs, n # rs)"
| free: "w < im_active s \<Longrightarrow> (p, n) \<in> set bs \<Longrightarrow> Cilk_internal_free 3 w p n s = Inr (u, s') \<Longrightarrow>
     im_step (s, bs, rs) (s', remove1 (p, n) bs, rs)"
| free_fast: "w < im_active s \<Longrightarrow> (p, n) \<in> set bs \<Longrightarrow> Cilk_internal_free_fast 3 w p n s = Inr (u, s') \<Longrightarrow>
     im_step (s, bs, rs) (s', remove1 (p, n) bs, rs)"
| store: "(p, n) \<in> set bs \<Longrightarrow> p \<le> a \<Longrightarrow> a < p + n \<Longrightarrow> im_step (s, bs, rs) (s\<lparr>im_words := (im_words s)(a := v)\<rparr>, bs, rs)"

inductive im_reach :: "Im \<Rightarrow> Im \<times> (addr \<times> nat) list \<times> nat list \<Rightarrow> bool" for s0 where
  start: "im_start s0 = Inr (u, s) \<Longrightarrow> im_reach s0 (s, [], [])"
| step: "im_reach s0 c \<Longrightarrow> im_step c c' \<Longrightarrow> im_reach s0 c'"

definition im_good :: "Im \<Rightarrow> (addr \<times> nat) list \<times> nat list \<Rightarrow> bool" where
  "im_good s c \<longleftrightarrow> (\<exists>L. im_inv s L \<and> lv L = fst c) \<and> \<not> global_im_lock s
     \<and> total_used s = (\<Sum>x\<leftarrow>fst c. int (snd x)) + int (sum_list (snd c)) \<and> total_calls s = int (length (fst c) + length (snd c))"

lemma served_good:
  "im_good s (bs, rs) \<Longrightarrow> served s bs' a b s' \<Longrightarrow>
   (\<Sum>x\<leftarrow>bs'. int (snd x)) + int (sum_list rs') = (\<Sum>x\<leftarrow>bs. int (snd x)) + int (sum_list rs) + a \<Longrightarrow>
   int (length bs' + length rs') = int (length bs + length rs) + b \<Longrightarrow> im_good s' (bs', rs')"
  by (auto simp: im_good_def served_def paid_def)

lemma sum_list_remove1:
  "x \<in> set xs \<Longrightarrow> (\<Sum>y\<leftarrow>remove1 x xs. f y) = (\<Sum>y\<leftarrow>xs. f y) - (f x :: int)"
  by (induction xs) auto

lemma good_malloc_env:
  assumes "im_good s (bs, rs)" "w < im_active s"
  shows "wpx out_of_memory (Cilk_internal_malloc (Suc (Suc (Suc m))) w n)
    (\<lambda>p s'. env s' = env s \<and> (if p = 0 then 4096 < n \<and> im_good s' (bs, n # rs) else im_good s' ((p, n) # bs, rs))) s"
proof -
  obtain L where L: "im_inv s L" "lv L = bs" "\<not> global_im_lock s" using assms(1) by (auto simp: im_good_def)
  show ?thesis
    by (rule wpx_mono [OF malloc_law [OF L(1) assms(2) L(3)]])
      (auto simp: L(2) served_def intro!: served_good [OF assms(1)] split: if_splits)
qed

lemma good_free_env:
  assumes "im_good s (bs, rs)" "w < im_active s" "(p, n) \<in> set bs"
  shows "wpx {} (Cilk_internal_free (Suc (Suc (Suc m))) w p n) (\<lambda>_ s'. env s' = env s \<and> im_good s' (remove1 (p, n) bs, rs)) s"
proof -
  obtain L where L: "im_inv s L" "lv L = bs" "\<not> global_im_lock s" using assms(1) by (auto simp: im_good_def)
  have "0 < length bs" using assms(3) by (cases bs) auto
  then have "int (length (remove1 (p, n) bs)) = int (length bs) - 1" using assms(3) by (metis One_nat_def Suc_leI length_remove1 of_nat_1 of_nat_diff)
  then show ?thesis
    by (intro wpx_mono [OF free_law [OF L(1) assms(2) _ L(3)]])
      (use assms(3) in \<open>auto simp: L(2) served_def sum_list_remove1 intro!: served_good [OF assms(1)]\<close>)
qed

lemma good_malloc:
  assumes "im_good s (bs, rs)" "w < im_active s"
  shows "wpx out_of_memory (Cilk_internal_malloc 3 w n) (\<lambda>p s'. if p = 0 then 4096 < n \<and> im_good s' (bs, n # rs) else im_good s' ((p, n) # bs, rs)) s"
  unfolding numeral_3_eq_3 by (rule wpx_mono [OF good_malloc_env [OF assms]]) simp

lemma good_free:
  assumes "im_good s (bs, rs)" "w < im_active s" "(p, n) \<in> set bs"
  shows "wpx {} (Cilk_internal_free 3 w p n) (\<lambda>_ s'. im_good s' (remove1 (p, n) bs, rs)) s"
  unfolding numeral_3_eq_3 by (rule wpx_mono [OF good_free_env [OF assms]]) simp

lemma good_line: "im_good s c \<Longrightarrow> cache_line s \<le> 4096"
  by (auto simp: im_good_def im_inv_def)

lemma good_step:
  assumes "im_step c c'" "im_good (fst c) (snd c)"
  shows "im_good (fst c') (snd c')"
  using assms
proof (induction rule: im_step.induct)
  case (malloc w s n p s' bs rs)
  then show ?case using wpx_resultD [OF good_malloc [of s bs rs w n], of p s'] by simp
next
  case (malloc_fast w s n p s' bs rs)
  then have "Cilk_internal_malloc 3 w n s = Inr (p, s')"
    using malloc_fast_eq [OF good_line, of s "(bs, rs)" 1 w n] by (simp add: numeral_3_eq_3)
  with malloc_fast show ?case using wpx_resultD [OF good_malloc [of s bs rs w n], of p s'] by simp
next
  case (refused w s n s' bs rs)
  then show ?case using wpx_resultD [OF good_malloc [of s bs rs w n], of 0 s'] by simp
next
  case (refused_fast w s n s' bs rs)
  then have "Cilk_internal_malloc 3 w n s = Inr (0, s')"
    using malloc_fast_eq [OF good_line, of s "(bs, rs)" 1 w n] by (simp add: numeral_3_eq_3)
  with refused_fast show ?case using wpx_resultD [OF good_malloc [of s bs rs w n], of 0 s'] by simp
next
  case (free w s p n bs u s' rs)
  then show ?case using wpx_resultD [OF good_free [of s bs rs w p n], of u s'] by simp
next
  case (free_fast w s p n bs u s' rs)
  then have "Cilk_internal_free 3 w p n s = Inr (u, s')"
    using free_fast_eq [OF good_line, of s "(bs, rs)" 1 w p n] by (simp add: numeral_3_eq_3)
  with free_fast show ?case using wpx_resultD [OF good_free [of s bs rs w p n], of u s'] by simp
next
  case (store p n bs a s rs v)
  then obtain L where L: "im_inv s L" "lv L = bs" by (auto simp: im_good_def)
  then have "im_inv (s\<lparr>im_words := (im_words s)(a := v)\<rparr>) L" using inv_store [OF L(1), of p n a v] store by simp
  with store L show ?case by (auto simp: im_good_def total_used_def total_calls_def)
qed

lemma reach_good:
  assumes "bare s0" "im_reach s0 c"
  shows "im_good (fst c) (snd c)"
  using assms(2)
proof induction
  case (start u s)
  have "im_inv s no_blocks" "\<not> global_im_lock s" "total_used s = 0" "total_calls s = 0"
    using wpx_resultD [OF im_start_law [OF assms(1)] start] by simp_all
  then show ?case by (auto simp: im_good_def no_blocks_def intro!: exI [of _ no_blocks])
next
  case (step c c')
  then show ?case using good_step by blast
qed

subsection \<open>An example run\<close>

text \<open>A C library that hands out the first address above all live blocks, and refuses a million bytes or more.\<close>

definition ex_policy :: "(addr \<times> nat) list \<Rightarrow> nat \<Rightarrow> addr option" where
  "ex_policy bs n = (if n < 1000000 then Some (Suc (sum_list (map (\<lambda>x. fst x + snd x) bs))) else None)"

lemma ex_policy_ok: "policy_ok ex_policy"
  unfolding policy_ok_def
proof (intro allI impI)
  fix bs n a assume "ex_policy bs n = Some a"
  then have a: "a = Suc (sum_list (map (\<lambda>x. fst x + snd x) bs))" by (simp add: ex_policy_def split: if_splits)
  have "fst x + snd x < a" if "x \<in> set bs" for x
    using member_le_sum_list [of "fst x + snd x" "map (\<lambda>x. fst x + snd x) bs"] that a by auto
  then show "a \<noteq> 0 \<and> (\<forall>x \<in> set bs. fst x \<noteq> a \<and> apart (a, n) x)"
    using a by (fastforce simp: apart_def)
qed

definition ex_info :: Cilk_im_stats where
  "ex_info = \<lparr>im_used = 0, nmalloc = 0, in_free_lists = 0, bucket_length = (\<lambda>_. 0)\<rparr>"

definition ex_desc :: Cilk_im_descriptor where
  "ex_desc = \<lparr>free_list = 0, im_length = 0, im_count = 0\<rparr>"

definition ex_im0 :: Im where
  "ex_im0 = \<lparr>im_words = (\<lambda>_. 0), im_descriptor = (\<lambda>_ _. ex_desc), im_info = (\<lambda>_. ex_info),
     global_im_descriptor = (\<lambda>_. ex_desc), global_im_info = ex_info, global_pool_begin = 0,
     global_pool_end = 0, im_allocated = 0, im_wasted = 0, alloc_list = [], alloc_list_block = 0,
     im_info_block = 0, alloc_list_index = 0, alloc_list_size = 0, global_im_lock = False,
     sys_blocks = [], sys_policy = ex_policy, cache_line = 64, alloc_batch = 8, im_active = 2,
     im_events = (\<lambda>_ _. 0), alloca_h = (\<lambda>_. 0), alloca_header = (\<lambda>_. (0, 0))\<rparr>"

definition ex_im :: Im where
  "ex_im = (case im_start ex_im0 of Inl _ \<Rightarrow> ex_im0 | Inr (_, s) \<Rightarrow> s)"

lemma ex_bare: "bare ex_im0"
  using ex_policy_ok by (simp add: bare_def ex_im0_def sys_ok_def)

lemma ex_started: "im_start ex_im0 = Inr ((), ex_im)"
proof -
  have "\<exists>s. im_start ex_im0 = Inr ((), s)"
    by (simp add: im_start_def Cilk_internal_malloc_global_init_def Cilk_internal_malloc_global_init_2_def
        Cilk_internal_malloc_per_worker_init_def Cilk_malloc_def bindM_def getM_def modifyM_def guardM_def
        ret_def ex_im0_def ex_policy_def upt_rec DEFAULT_ALLOC_LIST_SIZE_def sizeof_Cilk_im_stats_def CILK_INTERNAL_MALLOC_BUCKETS_def)
  then show ?thesis by (auto simp: ex_im_def)
qed

lemma ex_reach: "im_reach ex_im0 (ex_im, [], [])"
  by (rule im_reach.start [OF ex_started])

lemma ex_active: "im_active ex_im = 2" "cache_line ex_im = 64"
  using wpx_resultD [OF im_start_law [OF ex_bare] ex_started] by (simp_all add: ex_im0_def)

text \<open>A large block is easy to follow: the state in which worker 0 has one of 5000 bytes.\<close>

definition ex_one :: Im where
  "ex_one = (case Cilk_internal_malloc 3 0 5000 ex_im of Inl _ \<Rightarrow> ex_im | Inr (_, s) \<Rightarrow> s)"

definition ex_block :: addr where
  "ex_block = (case Cilk_internal_malloc 3 0 5000 ex_im of Inl _ \<Rightarrow> 0 | Inr (p, _) \<Rightarrow> p)"

lemma big_malloc:
  assumes "sys_policy s = ex_policy" "4096 < n" "n < 1000000"
  shows "\<exists>p s'. Cilk_internal_malloc 3 w n s = Inr (p, s') \<and> p \<noteq> 0 \<and> sys_policy s' = ex_policy
     \<and> im_active s' = im_active s \<and> alloca_h s' = alloca_h s"
  using assms by (simp add: numeral_3_eq_3 bindM_def count_worker_def modifyM_def CILK_INTERNAL_MALLOC_THRESHOLD_def
      Cilk_malloc_def ex_policy_def)

lemma ex_policy_kept: "sys_policy ex_im = ex_policy"
  using wpx_resultD [OF im_start_law [OF ex_bare] ex_started] by (simp add: ex_im0_def)

lemma ex_one:
  "im_reach ex_im0 (ex_one, [(ex_block, 5000)], [])" "sys_policy ex_one = ex_policy" "im_active ex_one = 2"
    "alloca_h ex_one = alloca_h ex_im"
proof -
  have m: "Cilk_internal_malloc 3 0 5000 ex_im = Inr (ex_block, ex_one)" "ex_block \<noteq> 0"
    "sys_policy ex_one = ex_policy" "im_active ex_one = im_active ex_im" "alloca_h ex_one = alloca_h ex_im"
    using big_malloc [OF ex_policy_kept, of 5000 0] by (auto simp: ex_one_def ex_block_def)
  then show "im_reach ex_im0 (ex_one, [(ex_block, 5000)], [])"
    by (intro im_reach.step [OF ex_reach] im_step.malloc) (simp_all add: ex_active)
  show "sys_policy ex_one = ex_policy" "im_active ex_one = 2" "alloca_h ex_one = alloca_h ex_im"
    using m ex_active by simp_all
qed

text \<open>The state after the C library has refused a block.\<close>

definition ex_refused :: Im where
  "ex_refused = (case Cilk_internal_malloc 3 0 1000000 ex_im of Inl _ \<Rightarrow> ex_im | Inr (_, s) \<Rightarrow> s)"

lemma ex_refused: "im_reach ex_im0 (ex_refused, [], [1000000])"
proof -
  have "\<exists>s'. Cilk_internal_malloc 3 0 1000000 ex_im = Inr (0, s')"
    using ex_policy_kept by (simp add: numeral_3_eq_3 bindM_def count_worker_def modifyM_def CILK_INTERNAL_MALLOC_THRESHOLD_def
      Cilk_malloc_def ex_policy_def)
  then have "Cilk_internal_malloc 3 0 1000000 ex_im = Inr (0, ex_refused)" by (auto simp: ex_refused_def)
  then show ?thesis by (intro im_reach.step [OF ex_reach] im_step.refused) (simp_all add: ex_active)
qed

lemma ex_two: "\<exists>p s. im_reach ex_im0 (s, [(p, 6000), (ex_block, 5000)], [])"
proof -
  obtain p s where "Cilk_internal_malloc 3 1 6000 ex_one = Inr (p, s)" "p \<noteq> 0"
    using big_malloc [OF ex_one(2), of 6000 1] by auto
  then have "im_reach ex_im0 (s, [(p, 6000), (ex_block, 5000)], [])"
    by (intro im_reach.step [OF ex_one(1)] im_step.malloc) (simp_all add: ex_one(3))
  then show ?thesis by blast
qed

subsection \<open>What the allocator promises\<close>

lemma good_apart:
  assumes "im_good s (bs, rs)" "i < length bs" "j < length bs" "i \<noteq> j"
  shows "apart (bs ! i) (bs ! j)" "fst (bs ! i) \<noteq> 0"
proof -
  obtain L where L: "im_inv s L" "lv L = bs" using assms(1) by (auto simp: im_good_def)
  have "fst (bs ! i) \<noteq> fst (bs ! j)"
    using live_distinct [OF L(1)] L(2) assms(2-4) by (auto simp: distinct_conv_nth)
  then show "apart (bs ! i) (bs ! j)" using live_apart [OF L(1), of "bs ! i" "bs ! j"] L(2) assms(2,3) by simp
  show "fst (bs ! i) \<noteq> 0" using live_nonnull [OF L(1), of "fst (bs ! i)" "snd (bs ! i)"] L(2) assms(2) by simp
qed

text \<open>
  C12: in every state a run of allocations, deallocations and writes into live blocks can reach, no
  two live blocks overlap and none is at the null address, whatever the C library's allocation
  policy is as long as it keeps its own promise.
\<close>

theorem live_blocks_never_overlap:
  assumes "bare s0" and "im_reach s0 (s, bs, rs)" and "i < length bs" and "j < length bs" and "i \<noteq> j"
  shows "apart (bs ! i) (bs ! j) \<and> fst (bs ! i) \<noteq> 0"
  using good_apart [OF reach_good [OF assms(1,2), simplified], of i j] assms(3-5) by simp

theorem live_blocks_never_overlap_witness:
  "\<exists>p s. im_reach ex_im0 (s, [(p, 6000), (ex_block, 5000)], []) \<and> apart (p, 6000) (ex_block, 5000)"
proof -
  obtain p s where r: "im_reach ex_im0 (s, [(p, 6000), (ex_block, 5000)], [])" using ex_two by blast
  with live_blocks_never_overlap [OF ex_bare r, of 0 1] show ?thesis by auto
qed

text \<open>
  C13: \<open>Cilk_internal_malloc\<close>, called by any worker in any reachable state, returns: no assertion
  fails, the batches do not wait for the lock they hold, and a fuel of three is enough. The only
  errors are those of \<open>extend_global_pool\<close> when the C library is out of memory. The result is null
  only for a large block; otherwise it is a block apart from every live one. In both cases the run goes on.
\<close>

theorem malloc_is_total:
  assumes "bare s0" and "im_reach s0 (s, bs, rs)" and "w < im_active s"
  shows "wpx {Die 61, Die 76} (Cilk_internal_malloc 3 w n)
    (\<lambda>p s'. if p = 0 then CILK_INTERNAL_MALLOC_THRESHOLD < n \<and> im_reach s0 (s', bs, n # rs)
       else im_reach s0 (s', (p, n) # bs, rs) \<and> (\<forall>x \<in> set bs. apart (p, n) x)) s"
proof -
  have g: "im_good s (bs, rs)" using reach_good [OF assms(1,2)] by simp
  have "wpx {Die 61, Die 76} (Cilk_internal_malloc 3 w n)
     (\<lambda>p s'. Cilk_internal_malloc 3 w n s = Inr (p, s') \<and> (if p = 0 then 4096 < n \<and> im_good s' (bs, n # rs) else im_good s' ((p, n) # bs, rs))) s"
    using good_malloc [OF g assms(3), of n] by (auto simp: wpx_def out_of_memory_def split: sum.splits)
  then show ?thesis
  proof (rule wpx_mono)
    fix p s' assume A: "Cilk_internal_malloc 3 w n s = Inr (p, s') \<and> (if p = 0 then 4096 < n \<and> im_good s' (bs, n # rs) else im_good s' ((p, n) # bs, rs))"
    show "if p = 0 then CILK_INTERNAL_MALLOC_THRESHOLD < n \<and> im_reach s0 (s', bs, n # rs)
       else im_reach s0 (s', (p, n) # bs, rs) \<and> (\<forall>x \<in> set bs. apart (p, n) x)"
    proof (cases "p = 0")
      case False
      have r: "im_reach s0 (s', (p, n) # bs, rs)"
        by (rule im_reach.step [OF assms(2) im_step.malloc [OF assms(3) _ False]]) (use A in simp)
      have "apart (p, n) x" if x: "x \<in> set bs" for x
      proof -
        obtain k where "k < length bs" "bs ! k = x" using x by (auto simp: in_set_conv_nth)
        with good_apart(1) [of s' "(p, n) # bs" rs 0 "Suc k"] A False show ?thesis by simp
      qed
      with r False show ?thesis by simp
    next
      case True
      have "im_reach s0 (s', bs, n # rs)" by (rule im_reach.step [OF assms(2) im_step.refused [OF assms(3)]]) (use A True in simp)
      then show ?thesis using A True by (simp add: CILK_INTERNAL_MALLOC_THRESHOLD_def)
    qed
  qed
qed

theorem malloc_is_total_witness:
  "wpx {Die 61, Die 76} (Cilk_internal_malloc 3 1 100) (\<lambda>p s'. p \<noteq> 0 \<and> apart (p, 100) (ex_block, 5000)) ex_one"
  by (rule wpx_mono [OF malloc_is_total [OF ex_bare ex_one(1), of 1]])
    (auto simp: ex_one(3) CILK_INTERNAL_MALLOC_THRESHOLD_def split: if_splits)

text \<open>
  C14: \<open>Cilk_internal_free\<close>, called by any worker for a live block with the size it was asked for, always
  succeeds: no assertion fails, the batches do not wait for the lock they hold, a fuel of three is
  enough, and no memory is needed. The run goes on without the block.
\<close>

theorem free_is_total:
  assumes "bare s0" and "im_reach s0 (s, bs, rs)" and "w < im_active s" and "(p, n) \<in> set bs"
  shows "\<exists>s'. Cilk_internal_free 3 w p n s = Inr ((), s') \<and> im_reach s0 (s', remove1 (p, n) bs, rs)"
proof -
  obtain u s' where s': "Cilk_internal_free 3 w p n s = Inr (u, s')"
    using good_free [OF reach_good [OF assms(1,2), simplified] assms(3,4)]
    by (auto simp: wpx_def split: sum.splits)
  with im_reach.step [OF assms(2) im_step.free [OF assms(3,4) s']] show ?thesis by simp
qed

theorem free_is_total_witness:
  "\<exists>s'. Cilk_internal_free 3 1 ex_block 5000 ex_one = Inr ((), s') \<and> im_reach ex_im0 (s', [], [])"
  using free_is_total [OF ex_bare ex_one(1), of 1 ex_block 5000] by (simp add: ex_one(3))

text \<open>
  C15: the leak check is exact about the counted calls: at any point of a run, \<open>Cilk_internal_malloc_global_cleanup\<close>
  succeeds, its consistency check of the free lists included, if no block is live and the C library has refused no
  large block; otherwise it dies with the message about a memory leak. So it dies exactly for the live
  blocks in a run without refusals, and one refusal makes it die although no block is live, since
  \<open>Cilk_internal_malloc\<close> counts the call before it asks.
\<close>

theorem leak_check_is_exact:
  assumes "bare s0" and "im_reach s0 (s, bs, rs)"
  shows "(if bs = [] \<and> rs = [] then \<exists>s'. Cilk_internal_malloc_global_cleanup s = Inr ((), s')
     else Cilk_internal_malloc_global_cleanup s = Inl (Assertion_failed 379))"
proof -
  obtain L where L: "im_inv s L" and tot: "total_used s = (\<Sum>x\<leftarrow>bs. int (snd x)) + int (sum_list rs)"
    "total_calls s = int (length bs + length rs)"
    using reach_good [OF assms] by (auto simp: im_good_def)
  show ?thesis
  proof (cases "bs = [] \<and> rs = []")
    case True
    then have "wpx {} Cilk_internal_malloc_global_cleanup (\<lambda>_ _. True) s"
      using global_cleanup_law [OF L, of "{}"] tot by (auto elim: wpx_mono)
    with True show ?thesis by (auto simp: wpx_def split: sum.splits)
  next
    case False
    then have "0 < length bs + length rs" by auto
    then have "total_calls s \<noteq> 0" using tot(2) by linarith
    with False show ?thesis by (simp add: Cilk_internal_malloc_global_cleanup_def bindM_def guardM_def)
  qed
qed

theorem leak_check_is_exact_witness:
  "(\<exists>s'. Cilk_internal_malloc_global_cleanup ex_im = Inr ((), s'))
   \<and> Cilk_internal_malloc_global_cleanup ex_one = Inl (Assertion_failed 379)
   \<and> Cilk_internal_malloc_global_cleanup ex_refused = Inl (Assertion_failed 379)"
  using leak_check_is_exact [OF ex_bare ex_reach] leak_check_is_exact [OF ex_bare ex_one(1)]
    leak_check_is_exact [OF ex_bare ex_refused] by simp

text \<open>
  C19: the check of a worker's free lists never fails, and the statistics then hold the number of bytes
  in them.
\<close>

theorem worker_cleanup_succeeds:
  assumes "bare s0" and "im_reach s0 (s, bs, rs)" and "w < im_active s"
  shows "\<exists>s'. Cilk_internal_malloc_per_worker_cleanup w s = Inr ((), s') \<and>
    (\<exists>lens. (\<forall>b<9. free_list_length (im_words s) (free_list (im_descriptor s w b)) = Some (lens b))
       \<and> in_free_lists (im_info s' w) = (\<Sum>b<9. Cilk_internal_malloc_bucket_to_size (int b) * int (lens b)))"
proof -
  obtain L where L: "im_inv s L" using reach_good [OF assms(1,2)] by (auto simp: im_good_def)
  obtain s' where "Cilk_internal_malloc_per_worker_cleanup w s = Inr ((), s')"
    "in_free_lists (im_info s' w) = (\<Sum>b<9. int (bsize b * length (wl L w b)))"
    using worker_cleanup_law [OF L assms(3), of "{}"] by (auto simp: wpx_def split: sum.splits)
  moreover have "free_list_length (im_words s) (free_list (im_descriptor s w b)) = Some (length (wl L w b))" if "b < 9" for b
    using chain_length [OF lists_okD(1) [OF im_invD(3) [OF L] that assms(3)], of 0] by (simp add: free_list_length_def)
  ultimately show ?thesis
    by (intro exI [of _ s'] conjI exI [of _ "\<lambda>b. length (wl L w b)"]) (simp_all add: bucket_to_size)
qed

theorem worker_cleanup_succeeds_witness:
  "\<exists>s'. Cilk_internal_malloc_per_worker_cleanup 1 ex_one = Inr ((), s')"
  using worker_cleanup_succeeds [OF ex_bare ex_one(1), of 1] by (auto simp: ex_one(3))

text \<open>
  C16: the inlined \<open>Cilk_internal_malloc_fast\<close> is \<open>Cilk_internal_malloc\<close>: in every state, with a fuel of
  at least two, it ends in the same error or the same result and state, although it does not
  canonicalise the size on its short path.
\<close>

theorem malloc_fast_is_malloc:
  assumes "cache_line s \<le> 4096"
  shows "Cilk_internal_malloc_fast (Suc (Suc n)) w sz s = Cilk_internal_malloc (Suc (Suc n)) w sz s"
  by (rule malloc_fast_eq [OF assms])

theorem malloc_fast_is_malloc_witness:
  "Cilk_internal_malloc_fast 3 0 100 ex_im = Cilk_internal_malloc 3 0 100 ex_im"
  using malloc_fast_is_malloc [of ex_im 1 0 100] by (simp add: ex_active numeral_3_eq_3)

text \<open>
  The same for \<open>Cilk_internal_free_fast\<close>.
\<close>

theorem free_fast_is_free:
  assumes "cache_line s \<le> 4096"
  shows "Cilk_internal_free_fast (Suc (Suc n)) w p sz s = Cilk_internal_free (Suc (Suc n)) w p sz s"
  by (rule free_fast_eq [OF assms])

theorem free_fast_is_free_witness:
  "Cilk_internal_free_fast 3 0 ex_block 5000 ex_one = Cilk_internal_free 3 0 ex_block 5000 ex_one"
proof -
  have "cache_line ex_one \<le> 4096" by (rule good_line) (use reach_good [OF ex_bare ex_one(1)] in simp)
  from free_fast_is_free [OF this, of 1 0 ex_block 5000] show ?thesis by (simp add: numeral_3_eq_3)
qed

lemma bucket_cases:
  fixes n line :: nat
  assumes "n \<le> CILK_INTERNAL_MALLOC_THRESHOLD" "line \<le> CILK_INTERNAL_MALLOC_THRESHOLD"
  shows "\<exists>k\<le>8. Cilk_internal_malloc_size_to_bucket line n = int k
    \<and> Cilk_internal_malloc_canonicalize line n = 16 * 2 ^ k
    \<and> max n line \<le> 16 * 2 ^ k \<and> (k = 0 \<or> 8 * 2 ^ k < max n line)"
proof -
  have m: "max n line \<le> 4096" using assms by (simp add: CILK_INTERNAL_MALLOC_THRESHOLD_def)
  have split: "(n \<le> c \<and> line \<le> c) = (max n line \<le> c)" for c :: nat by simp
  have b: "Cilk_internal_malloc_size_to_bucket line n = (let m = max n line in
      if m \<le> 16 then 0 else if m \<le> 32 then 1 else if m \<le> 64 then 2 else if m \<le> 128 then 3 else if m \<le> 256 then 4
      else if m \<le> 512 then 5 else if m \<le> 1024 then 6 else if m \<le> 2048 then 7 else if m \<le> 4096 then 8 else - 1)"
    unfolding Cilk_internal_malloc_size_to_bucket_def split Let_def by (rule refl)
  have c: "Cilk_internal_malloc_canonicalize line n = (let m = max n line in
      if m \<le> 16 then 16 else if m \<le> 32 then 32 else if m \<le> 64 then 64 else if m \<le> 128 then 128 else if m \<le> 256 then 256
      else if m \<le> 512 then 512 else if m \<le> 1024 then 1024 else if m \<le> 2048 then 2048 else if m \<le> 4096 then 4096 else - 1)"
    unfolding Cilk_internal_malloc_canonicalize_def split Let_def by (rule refl)
  define m where "m = max n line"
  show ?thesis
    unfolding b c Let_def m_def [symmetric]
  proof -
    consider "m \<le> 16" | "16 < m" "m \<le> 32" | "32 < m" "m \<le> 64" | "64 < m" "m \<le> 128" | "128 < m" "m \<le> 256"
      | "256 < m" "m \<le> 512" | "512 < m" "m \<le> 1024" | "1024 < m" "m \<le> 2048" | "2048 < m" "m \<le> 4096"
      using m unfolding m_def by linarith
    then show "\<exists>k\<le>8. (if m \<le> 16 then 0 else if m \<le> 32 then 1 else if m \<le> 64 then 2 else if m \<le> 128 then 3 else if m \<le> 256 then 4
      else if m \<le> 512 then 5 else if m \<le> 1024 then 6 else if m \<le> 2048 then 7 else if m \<le> 4096 then 8 else - 1) = int k
      \<and> (if m \<le> 16 then 16 else if m \<le> 32 then 32 else if m \<le> 64 then 64 else if m \<le> 128 then 128 else if m \<le> 256 then 256
      else if m \<le> 512 then 512 else if m \<le> 1024 then 1024 else if m \<le> 2048 then 2048 else if m \<le> 4096 then 4096 else - 1) = (16 * 2 ^ k :: int)
      \<and> m \<le> 16 * 2 ^ k \<and> (k = 0 \<or> 8 * 2 ^ k < m)"
    proof cases
      case 1 then show ?thesis by (intro exI [of _ 0]) simp
    next
      case 2 then show ?thesis by (intro exI [of _ 1]) simp
    next
      case 3 then show ?thesis by (intro exI [of _ 2]) simp
    next
      case 4 then show ?thesis by (intro exI [of _ 3]) simp
    next
      case 5 then show ?thesis by (intro exI [of _ 4]) simp
    next
      case 6 then show ?thesis by (intro exI [of _ 5]) simp
    next
      case 7 then show ?thesis by (intro exI [of _ 6]) simp
    next
      case 8 then show ?thesis by (intro exI [of _ 7]) simp
    next
      case 9 then show ?thesis by (intro exI [of _ 8]) simp
    qed
  qed
qed

lemma smaller_bucket:
  assumes "0 \<le> b'" "b' < int k" "k \<le> 8"
  shows "Cilk_internal_malloc_bucket_to_size b' \<le> 8 * 2 ^ k"
proof -
  obtain j where j: "b' = int j" "j < k" using assms(1,2) by (metis nonneg_int_cases of_nat_less_iff)
  then have "2 * 2 ^ j \<le> (2 ^ k :: int)" using power_increasing [of "Suc j" k "2::int"] by simp
  then show ?thesis using j assms(3) bucket_to_size [of j] by (simp add: bsize_def)
qed

lemma bucket_best:
  "k \<le> 8 \<Longrightarrow> Cilk_internal_malloc_bucket_to_size (int k) = 16 * 2 ^ k"
  by (simp add: bucket_to_size bsize_def)

text \<open>
  C17: the bucket of a size up to the threshold exists, its blocks have the canonical size, which is
  enough for the size and for a cache line, and no smaller bucket would do.
\<close>

theorem bucket_is_best_fit:
  assumes "n \<le> CILK_INTERNAL_MALLOC_THRESHOLD" and "line \<le> CILK_INTERNAL_MALLOC_THRESHOLD"
  shows "let b = Cilk_internal_malloc_size_to_bucket line n; c = Cilk_internal_malloc_canonicalize line n
     in 0 \<le> b \<and> b < int CILK_INTERNAL_MALLOC_BUCKETS \<and> Cilk_internal_malloc_bucket_to_size b = c
       \<and> int n \<le> c \<and> int line \<le> c
       \<and> (\<forall>b'. 0 \<le> b' \<and> b' < b \<longrightarrow> Cilk_internal_malloc_bucket_to_size b' < int n
            \<or> Cilk_internal_malloc_bucket_to_size b' < int line)"
proof -
  obtain k where k: "k \<le> 8" "Cilk_internal_malloc_size_to_bucket line n = int k"
    "Cilk_internal_malloc_canonicalize line n = 16 * 2 ^ k" "max n line \<le> 16 * 2 ^ k"
    "k = 0 \<or> 8 * 2 ^ k < max n line"
    using bucket_cases [OF assms] by blast
  have fit: "int n \<le> 16 * 2 ^ k" "int line \<le> 16 * 2 ^ k"
    using k(4) of_nat_le_iff [of n "16 * 2 ^ k", where ?'a = int] of_nat_le_iff [of line "16 * 2 ^ k", where ?'a = int] by simp_all
  have "Cilk_internal_malloc_bucket_to_size b' < int n \<or> Cilk_internal_malloc_bucket_to_size b' < int line"
    if "0 \<le> b'" "b' < int k" for b'
  proof -
    have "8 * 2 ^ k < max n line" using k(5) that by auto
    then have "int (8 * 2 ^ k) < int (max n line)" by (simp only: of_nat_less_iff)
    with smaller_bucket [OF that k(1)] show ?thesis by (auto simp: max_def split: if_splits)
  qed
  with k fit show ?thesis by (simp add: Let_def bucket_best CILK_INTERNAL_MALLOC_BUCKETS_def)
qed

theorem bucket_is_best_fit_witness:
  "Cilk_internal_malloc_size_to_bucket 64 100 = 3 \<and> Cilk_internal_malloc_canonicalize 64 100 = 128"
  using bucket_is_best_fit [of 100 64] by (simp add: bucket_defs)

subsection \<open>Alloca\<close>

text \<open>The blocks a frame has taken with \<open>alloca\<close> are chained through their headers.\<close>

fun alloca_chain :: "(addr \<Rightarrow> addr \<times> nat) \<Rightarrow> addr \<Rightarrow> (addr \<times> nat) list \<Rightarrow> bool" where
  "alloca_chain h p [] = (p = 0)"
| "alloca_chain h p (x # xs) = (p = fst x \<and> p \<noteq> 0 \<and> snd (h p) = snd x \<and> alloca_chain h (fst (h p)) xs)"

lemma alloca_chain_upd [simp]:
  "q \<notin> fst ` set xs \<Longrightarrow> alloca_chain (h(q := v)) p xs = alloca_chain h p xs"
  by (induction xs arbitrary: p) auto

lemma good_upd_alloca:
  "im_good (s\<lparr>alloca_header := h, alloca_h := k\<rparr>) c = im_good s c"
proof -
  have "im_inv (s\<lparr>alloca_header := h, alloca_h := k\<rparr>) L = im_inv s L" for L
    by (simp add: im_inv_def lists_ok_def carved_ok_def arena_ok_def inside_def chunks_def)
  then show ?thesis by (simp add: im_good_def total_used_def total_calls_def)
qed

lemma alloca_law:
  assumes g: "im_good s (bs, rs)" and w: "w < im_active s"
    and c: "alloca_chain (alloca_header s) (alloca_h s f) xs" "set xs \<subseteq> set bs"
  shows "wpx {Die 61, Die 76, Wild_pointer 0} (Cilk_alloca_internal (Suc (Suc (Suc m))) w f sz)
    (\<lambda>r s'. \<exists>p. r = p + sizeof_alloca_header \<and> im_good s' ((p, sz + sizeof_alloca_header) # bs, rs)
       \<and> alloca_chain (alloca_header s') (alloca_h s' f) ((p, sz + sizeof_alloca_header) # xs)
       \<and> im_active s' = im_active s) s"
  unfolding Cilk_alloca_internal_def
proof (rule wpx_call [OF wpx_weaken [OF good_malloc_env [OF g w]]])
  show "out_of_memory \<subseteq> {Die 61, Die 76, Wild_pointer 0}" by (auto simp: out_of_memory_def)
next
  fix p s' assume A: "env s' = env s \<and> (if p = 0 then 4096 < sz + sizeof_alloca_header
       \<and> im_good s' (bs, (sz + sizeof_alloca_header) # rs)
     else im_good s' ((p, sz + sizeof_alloca_header) # bs, rs))"
  have "p \<notin> fst ` set xs" if nz: "p \<noteq> 0"
  proof
    assume "p \<in> fst ` set xs"
    then have "p \<in> fst ` set bs" using c(2) by auto
    moreover obtain L where "im_inv s' L" "lv L = (p, sz + sizeof_alloca_header) # bs"
      using A nz by (auto simp: im_good_def)
    then have "distinct (map fst ((p, sz + sizeof_alloca_header) # bs))" using live_distinct [of s' L] by simp
    ultimately show False by simp
  qed
  with A c(1) show "wpx {Die 61, Die 76, Wild_pointer 0} (bindM (guardM (Wild_pointer 0) (\<lambda>_. p \<noteq> 0)) (\<lambda>_.
     bindM (modifyM (\<lambda>s. s\<lparr>alloca_header := (alloca_header s)(p := (alloca_h s f, sz + sizeof_alloca_header)),
        alloca_h := (alloca_h s)(f := p)\<rparr>)) (\<lambda>_.
     ret (p + sizeof_alloca_header)))) (\<lambda>r s'. \<exists>p. r = p + sizeof_alloca_header \<and> im_good s' ((p, sz + sizeof_alloca_header) # bs, rs)
       \<and> alloca_chain (alloca_header s') (alloca_h s' f) ((p, sz + sizeof_alloca_header) # xs)
       \<and> im_active s' = im_active s) s'"
    by (simp add: wpx_simps good_upd_alloca env_def)
qed

lemma unalloca_loop_law:
  assumes "im_good s (xs @ bs, rs)" "w < im_active s" "alloca_chain (alloca_header s) p xs" "length xs + 3 < n"
  shows "wpx {} (unalloca_loop n w p) (\<lambda>_ s'. im_good s' (bs, rs)) s"
  using assms
proof (induction xs arbitrary: s p n)
  case Nil
  then show ?case by (cases n) (simp_all add: wpx_simps)
next
  case (Cons x xs)
  obtain m where n: "n = Suc (Suc (Suc (Suc m)))" using Cons.prems(4) by (intro that [of "n - 4"]) simp
  obtain q k where x: "x = (q, k)" by (cases x)
  have h: "p = q" "p \<noteq> 0" "alloca_header s p = (fst (alloca_header s p), k)"
      "alloca_chain (alloca_header s) (fst (alloca_header s p)) xs"
    using Cons.prems(3) x by (auto simp: prod_eq_iff)
  have "wpx {} (Cilk_internal_free (Suc (Suc (Suc m))) w p k)
    (\<lambda>_. wpx {} (unalloca_loop (Suc (Suc (Suc m))) w (fst (alloca_header s p))) (\<lambda>_ s'. im_good s' (bs, rs))) s"
  proof (rule wpx_mono [OF good_free_env [OF Cons.prems(1,2)]])
    show "(p, k) \<in> set ((x # xs) @ bs)" using h x by simp
  next
    fix u s' assume "env s' = env s \<and> im_good s' (remove1 (p, k) ((x # xs) @ bs), rs)"
    then show "wpx {} (unalloca_loop (Suc (Suc (Suc m))) w (fst (alloca_header s p))) (\<lambda>_ s'. im_good s' (bs, rs)) s'"
      using h x Cons.prems(2,4) n by (intro Cons.IH) (auto simp: env_def)
  qed
  moreover have "snd (alloca_header s p) = k" using h(3) by (metis snd_conv)
  ultimately show ?case using h(2) by (simp add: n wpx_flat del: Cilk_internal_free.simps)
qed

primrec alloca_all :: "nat \<Rightarrow> wid \<Rightarrow> addr \<Rightarrow> nat list \<Rightarrow> unit im" where
  "alloca_all n w f [] = ret ()"
| "alloca_all n w f (sz # szs) = bindM (Cilk_alloca_internal n w f sz) (\<lambda>_. alloca_all n w f szs)"

lemma alloca_all_law:
  assumes "im_good s (xs @ bs, rs)" "w < im_active s" "alloca_chain (alloca_header s) (alloca_h s f) xs"
  shows "wpx {Die 61, Die 76, Wild_pointer 0} (alloca_all 3 w f szs)
    (\<lambda>_ s'. \<exists>ys. length ys = length szs + length xs \<and> im_good s' (ys @ bs, rs)
       \<and> alloca_chain (alloca_header s') (alloca_h s' f) ys \<and> im_active s' = im_active s) s"
  using assms
proof (induction szs arbitrary: s xs)
  case Nil
  then show ?case by (auto simp: wpx_simps)
next
  case (Cons sz szs)
  show ?case
    unfolding alloca_all.simps numeral_3_eq_3
  proof (rule wpx_call [OF alloca_law [OF Cons.prems(1,2,3)]])
    fix r t assume "\<exists>p. r = p + sizeof_alloca_header \<and> im_good t ((p, sz + sizeof_alloca_header) # xs @ bs, rs)
       \<and> alloca_chain (alloca_header t) (alloca_h t f) ((p, sz + sizeof_alloca_header) # xs)
       \<and> im_active t = im_active s"
    then obtain p where t: "im_good t (((p, sz + sizeof_alloca_header) # xs) @ bs, rs)"
      "alloca_chain (alloca_header t) (alloca_h t f) ((p, sz + sizeof_alloca_header) # xs)" "im_active t = im_active s"
      by auto
    from Cons.IH [OF t(1) _ t(2)] Cons.prems(2) t(3)
    show "wpx {Die 61, Die 76, Wild_pointer 0} (alloca_all (Suc (Suc (Suc 0))) w f szs)
      (\<lambda>_ s'. \<exists>ys. length ys = length (sz # szs) + length xs \<and> im_good s' (ys @ bs, rs)
       \<and> alloca_chain (alloca_header s') (alloca_h s' f) ys \<and> im_active s' = im_active s) t"
      by (simp add: numeral_3_eq_3)
  qed simp
qed

text \<open>
  C18: what a frame has taken with \<open>Cilk_alloca_internal\<close>, in any number of calls of any size, is given
  back by \<open>Cilk_unalloca_internal\<close>: the live blocks and the statistics are then those from before the first
  call, and the allocator's invariant holds. Only an exhausted C library can prevent it.
\<close>

theorem unalloca_undoes_alloca:
  assumes "bare s0" and "im_reach s0 (s, bs, rs)" and "w < im_active s" and "alloca_h s f = 0"
  shows "wpx {Die 61, Die 76, Wild_pointer 0}
    (bindM (alloca_all 3 w f szs) (\<lambda>_. Cilk_unalloca_internal (length szs + 4) w f))
    (\<lambda>_ s'. \<exists>L. im_inv s' L \<and> lv L = bs \<and> total_used s' = total_used s \<and> total_calls s' = total_calls s) s"
proof (rule wpx_call [OF alloca_all_law [where xs = "[]"]])
  show "im_good s ([] @ bs, rs)" using reach_good [OF assms(1,2)] by simp
next
  fix u t assume "\<exists>ys. length ys = length szs + length [] \<and> im_good t (ys @ bs, rs)
       \<and> alloca_chain (alloca_header t) (alloca_h t f) ys \<and> im_active t = im_active s"
  then obtain ys where t: "length ys = length szs" "im_good t (ys @ bs, rs)"
    "alloca_chain (alloca_header t) (alloca_h t f) ys" "w < im_active t" using assms(3) by auto
  have "wpx {} (unalloca_loop (length szs + 4) w (alloca_h t f)) (\<lambda>_ s'. im_good s' (bs, rs)) t"
    by (rule unalloca_loop_law [OF t(2,4,3)]) (simp add: t(1))
  then have "wpx {Die 61, Die 76, Wild_pointer 0} (unalloca_loop (length szs + 4) w (alloca_h t f)) (\<lambda>_ s'. im_good s' (bs, rs)) t"
    by (rule wpx_weaken) simp
  then show "wpx {Die 61, Die 76, Wild_pointer 0} (Cilk_unalloca_internal (length szs + 4) w f)
    (\<lambda>_ s'. \<exists>L. im_inv s' L \<and> lv L = bs \<and> total_used s' = total_used s \<and> total_calls s' = total_calls s) t"
    unfolding Cilk_unalloca_internal_def wpx_bind wpx_get
    by (rule wpx_mono) (use reach_good [OF assms(1,2)] in \<open>auto simp: im_good_def\<close>)
qed (use assms in simp_all)

theorem unalloca_undoes_alloca_witness:
  "wpx {Die 61, Die 76, Wild_pointer 0}
    (bindM (alloca_all 3 0 ex_block [10, 20]) (\<lambda>_. Cilk_unalloca_internal (length [10::nat, 20] + 4) 0 ex_block))
    (\<lambda>_ s'. total_used s' = total_used ex_one) ex_one"
proof -
  have "alloca_h ex_im = (\<lambda>_. 0)"
    using wpx_resultD [OF im_start_law [OF ex_bare] ex_started] by (simp add: ex_im0_def)
  then have "alloca_h ex_one ex_block = 0" by (simp add: ex_one(4))
  moreover have "0 < im_active ex_one" by (simp add: ex_one(3))
  ultimately show ?thesis
    by (intro wpx_mono [OF unalloca_undoes_alloca [OF ex_bare ex_one(1), of 0 ex_block "[10, 20]"]]) auto
qed

end
