(* ===== verification/Cc_Prelude.thy ===== *)
theory Cc_Prelude
  imports Rts_Prelude
begin

section \<open>Shared notions of the models of the translator cilk2c\<close>

text \<open>
  The ways a function of the translator can fail (an assertion, \<open>FAIL\<close> or \<open>UNREACHABLE\<close>, \<open>abort\<close>,
  a read through a null or dangling pointer, arithmetic that C leaves undefined), the two ways a model
  has to leave what it describes (a node where a type is expected, an operation that is not modelled),
  and a second
  monad for functions with a loop that may run forever: there a run is \<open>None\<close> when the function
  does not return.
\<close>

datatype cc_fail = AssertFail | Fail | Abort | BadPointer | Undefined | NotAType | NotModelled

type_synonym ('s, 'a) loop_prog = "'s \<Rightarrow> (cc_fail + ('a \<times> 's)) option"

definition liftL :: "(cc_fail, 's, 'a) prog \<Rightarrow> ('s, 'a) loop_prog" where
  "liftL m = (\<lambda>s. Some (m s))"

definition retL :: "'a \<Rightarrow> ('s, 'a) loop_prog" where
  "retL a = liftL (ret a)"

definition bindL :: "('s, 'a) loop_prog \<Rightarrow> ('a \<Rightarrow> ('s, 'b) loop_prog) \<Rightarrow> ('s, 'b) loop_prog" where
  "bindL m f = (\<lambda>s. case m s of
      None \<Rightarrow> None
    | Some (Inl e) \<Rightarrow> Some (Inl e)
    | Some (Inr (a, s')) \<Rightarrow> f a s')"

text \<open>
  \<open>wpl m Q s\<close>: from \<open>s\<close>, the function returns, without failing, and \<open>Q\<close> holds of the result and the
  state it leaves.
\<close>

definition wpl :: "('s, 'a) loop_prog \<Rightarrow> ('a \<Rightarrow> 's \<Rightarrow> bool) \<Rightarrow> 's \<Rightarrow> bool" where
  "wpl m Q s = (case m s of Some (Inr (a, s')) \<Rightarrow> Q a s' | _ \<Rightarrow> False)"

named_theorems wpl_simps "weakest preconditions of functions that may not return"

lemma wpl_lift [wpl_simps]: "wpl (liftL m) Q s = wp m Q s"
  by (simp add: wpl_def wp_def liftL_def split: sum.split)

lemma wpl_ret [wpl_simps]: "wpl (retL a) Q s = Q a s"
  by (simp add: retL_def wpl_lift wp_ret)

lemma wpl_bind [wpl_simps]: "wpl (bindL m f) Q s = wpl m (\<lambda>a. wpl (f a) Q) s"
  by (simp add: wpl_def bindL_def split: option.split sum.split)

lemma wpl_if [wpl_simps]:
  "wpl (if b then m else n) Q s = (if b then wpl m Q s else wpl n Q s)"
  by simp

lemma wpl_case_option [wpl_simps]:
  "wpl (case x of None \<Rightarrow> m | Some y \<Rightarrow> n y) Q s =
     (case x of None \<Rightarrow> wpl m Q s | Some y \<Rightarrow> wpl (n y) Q s)"
  by (cases x) simp_all

lemma wpl_mono: "wpl m P s \<Longrightarrow> (\<And>a s'. P a s' \<Longrightarrow> Q a s') \<Longrightarrow> wpl m Q s"
  by (auto simp: wpl_def split: option.splits sum.splits)

lemma wpl_iff: "wpl m Q s \<longleftrightarrow> (\<exists>a s'. m s = Some (Inr (a, s')) \<and> Q a s')"
  by (auto simp: wpl_def split: option.splits sum.splits)

lemma wplI: "m s = Some (Inr (a, s')) \<Longrightarrow> Q a s' \<Longrightarrow> wpl m Q s"
  by (simp add: wpl_def)

subsection \<open>Functions without state\<close>

definition bindE :: "(cc_fail + 'a) \<Rightarrow> ('a \<Rightarrow> cc_fail + 'b) \<Rightarrow> cc_fail + 'b" where
  "bindE m f = (case m of Inl e \<Rightarrow> Inl e | Inr a \<Rightarrow> f a)"

lemma bindE_simps [simp]: "bindE (Inl e) f = Inl e" "bindE (Inr a) f = f a"
  by (simp_all add: bindE_def)

lemma bindE_cong [fundef_cong]:
  "m = m' \<Longrightarrow> (\<And>a. m' = Inr a \<Longrightarrow> f a = f' a) \<Longrightarrow> bindE m f = bindE m' f'"
  by (auto simp: bindE_def split: sum.split)

lemma bindE_Inr: "bindE m f = Inr b \<longleftrightarrow> (\<exists>a. m = Inr a \<and> f a = Inr b)"
  by (cases m) simp_all

definition assertE :: "bool \<Rightarrow> cc_fail + unit" where
  "assertE b = (if b then Inr () else Inl AssertFail)"

lemma assertE_simps [simp]: "assertE True = Inr ()" "assertE False = Inl AssertFail"
  by (simp_all add: assertE_def)

definition someE :: "'a option \<Rightarrow> cc_fail + 'a" where
  "someE x = (case x of None \<Rightarrow> Inl AssertFail | Some a \<Rightarrow> Inr a)"

lemma someE_simps [simp]: "someE None = Inl AssertFail" "someE (Some a) = Inr a"
  by (simp_all add: someE_def)

text \<open>A function without state inside one with state.\<close>

definition liftE :: "(cc_fail + 'a) \<Rightarrow> (cc_fail, 's, 'a) prog" where
  "liftE m = (\<lambda>s. case m of Inl e \<Rightarrow> Inl e | Inr a \<Rightarrow> Inr (a, s))"

lemma liftE_simps [simp]: "liftE (Inl e) s = Inl e" "liftE (Inr a) s = Inr (a, s)"
  by (simp_all add: liftE_def)

end
