(* ===== verification/Cc_Operators.thy ===== *)
theory Cc_Operators
  imports Cc_Prelude
begin

section \<open>The operator table of the translator (cilk2c/operators.c)\<close>

text \<open>
  The codes of the C operators, the table that \<open>InitOperatorTable\<close> fills once at start-up, the
  look-ups the printer makes in it and the predicates by which the semantic checker sorts the
  operators. The C type \<open>OpType\<close> is an \<open>int\<close> that holds a character code or a token of the
  grammar; here it is a datatype and \<open>op_code\<close> gives the integer. A failed assertion, \<open>FAIL\<close> and
  \<open>abort\<close> are errors.
\<close>

datatype OpType =
    OP_colon | OP_dot | OP_not | OP_bitnot | OP_mul | OP_div | OP_mod | OP_add | OP_sub
  | OP_lt | OP_gt | OP_band | OP_bxor | OP_bor | OP_asgn
  | SIZEOF | UPLUS | UMINUS | INDIR | ADDRESS | POSTINC | POSTDEC | PREINC | PREDEC | REAL | IMAG
  | ARROW | ICR | DECR | LS | RS | LE | GE | EQ | NE | ANDAND | OROR
  | MULTassign | DIVassign | MODassign | PLUSassign | MINUSassign | LSassign | RSassign
  | ANDassign | ERassign | ORassign | ALIGNOF | DESIGNATED_INITIALIZER | ARRAY_LABELED_INITIALIZER

fun op_code :: "OpType \<Rightarrow> nat" where
  "op_code OP_colon = 58"
| "op_code OP_dot = 46"
| "op_code OP_not = 33"
| "op_code OP_bitnot = 126"
| "op_code OP_mul = 42"
| "op_code OP_div = 47"
| "op_code OP_mod = 37"
| "op_code OP_add = 43"
| "op_code OP_sub = 45"
| "op_code OP_lt = 60"
| "op_code OP_gt = 62"
| "op_code OP_band = 38"
| "op_code OP_bxor = 94"
| "op_code OP_bor = 124"
| "op_code OP_asgn = 61"
| "op_code SIZEOF = 284"
| "op_code UPLUS = 290"
| "op_code UMINUS = 291"
| "op_code INDIR = 292"
| "op_code ADDRESS = 293"
| "op_code POSTINC = 294"
| "op_code POSTDEC = 295"
| "op_code PREINC = 296"
| "op_code PREDEC = 297"
| "op_code REAL = 308"
| "op_code IMAG = 309"
| "op_code ARROW = 311"
| "op_code ICR = 312"
| "op_code DECR = 313"
| "op_code LS = 314"
| "op_code RS = 315"
| "op_code LE = 316"
| "op_code GE = 317"
| "op_code EQ = 318"
| "op_code NE = 319"
| "op_code ANDAND = 320"
| "op_code OROR = 321"
| "op_code MULTassign = 323"
| "op_code DIVassign = 324"
| "op_code MODassign = 325"
| "op_code PLUSassign = 326"
| "op_code MINUSassign = 327"
| "op_code LSassign = 328"
| "op_code RSassign = 329"
| "op_code ANDassign = 330"
| "op_code ERassign = 331"
| "op_code ORassign = 332"
| "op_code ALIGNOF = 337"
| "op_code DESIGNATED_INITIALIZER = 342"
| "op_code ARRAY_LABELED_INITIALIZER = 343"

definition MAX_OPERATORS :: nat where
  "MAX_OPERATORS = 600"

record OpEntry =
  op_text :: "string option"
  op_name :: "string option"
  left_assoc :: bool
  unary_prec :: int
  binary_prec :: int

type_synonym OpTable = "nat \<Rightarrow> OpEntry"
type_synonym 'a op_prog = "(cc_fail, OpTable, 'a) prog"

definition zero_table :: OpTable where
  "zero_table = (\<lambda>_. \<lparr>op_text = None, op_name = None, left_assoc = False, unary_prec = 0, binary_prec = 0\<rparr>)"

subsection \<open>Filling the table\<close>

definition SET_OP :: "OpType \<Rightarrow> string \<Rightarrow> string \<Rightarrow> int \<Rightarrow> int \<Rightarrow> unit op_prog" where
  "SET_OP opc t n unary binary =
     bindM (guardM AssertFail (\<lambda>_. op_code opc < MAX_OPERATORS)) (\<lambda>_.
     bindM (guardM AssertFail (\<lambda>T. op_text (T (op_code opc)) = None)) (\<lambda>_.
     modifyM (\<lambda>T. T (op_code opc :=
       \<lparr>op_text = Some t, op_name = Some n, left_assoc = True, unary_prec = unary, binary_prec = binary\<rparr>))))"

definition RIGHT_ASSOC :: "OpType \<Rightarrow> unit op_prog" where
  "RIGHT_ASSOC opc =
     bindM (guardM AssertFail (\<lambda>_. op_code opc < MAX_OPERATORS)) (\<lambda>_.
     bindM (guardM AssertFail (\<lambda>T. op_text (T (op_code opc)) \<noteq> None)) (\<lambda>_.
     modifyM (\<lambda>T. T (op_code opc := (T (op_code opc))\<lparr>left_assoc := False\<rparr>))))"

fun seqM :: "unit op_prog list \<Rightarrow> unit op_prog" where
  "seqM [] = ret ()"
| "seqM (m # ms) = bindM m (\<lambda>_. seqM ms)"

definition InitOperatorTable :: "unit op_prog" where
  "InitOperatorTable = seqM [
     SET_OP OP_colon '':'' ''COLON'' 0 16,
     SET_OP DESIGNATED_INITIALIZER ''='' ''DESIGNATED_INITIALIZER'' 0 16,
     SET_OP ARRAY_LABELED_INITIALIZER '']='' ''ARRAY_LABELED_INITIALIZER'' 0 16,
     SET_OP ARROW ''->'' ''ARROW'' 0 15,
     SET_OP OP_dot ''.'' ''DOT'' 0 15,
     SET_OP OP_not ''!'' ''not'' 14 0,
     SET_OP OP_bitnot ''~'' ''bitnot'' 14 0,
     SET_OP ICR ''++'' ''ICR'' 14 0,
     SET_OP POSTINC ''++'' ''postinc'' 14 0,
     SET_OP PREINC ''++'' ''preinc'' 14 0,
     SET_OP DECR ''--'' ''DECR'' 14 0,
     SET_OP POSTDEC ''--'' ''postdec'' 14 0,
     SET_OP PREDEC ''--'' ''predec'' 14 0,
     SET_OP SIZEOF ''sizeof'' ''sizeof'' 14 0,
     SET_OP ALIGNOF ''__alignof__'' ''alignof'' 14 0,
     SET_OP IMAG ''__imag__'' ''__imag__'' 14 0,
     SET_OP REAL ''__real__'' ''__real__'' 14 0,
     SET_OP ADDRESS ''&'' ''addrof'' 14 0,
     SET_OP INDIR ''*'' ''indir'' 14 0,
     SET_OP UPLUS ''+'' ''UPLUS'' 14 0,
     SET_OP UMINUS ''-'' ''neg'' 14 0,
     SET_OP OP_mul ''*'' ''mul'' 0 13,
     SET_OP OP_div ''/'' ''div'' 0 13,
     SET_OP OP_mod ''%'' ''mod'' 0 13,
     SET_OP OP_add ''+'' ''add'' 0 12,
     SET_OP OP_sub ''-'' ''sub'' 0 12,
     SET_OP LS ''<<'' ''lsh'' 0 11,
     SET_OP RS ''>>'' ''rsh'' 0 11,
     SET_OP OP_lt ''<'' ''lt'' 0 10,
     SET_OP OP_gt ''>'' ''gt'' 0 10,
     SET_OP LE ''<='' ''le'' 0 10,
     SET_OP GE ''>='' ''ge'' 0 10,
     SET_OP EQ ''=='' ''eq'' 0 9,
     SET_OP NE ''!='' ''ne'' 0 9,
     SET_OP OP_band ''&'' ''band'' 0 8,
     SET_OP OP_bxor ''^'' ''bxor'' 0 7,
     SET_OP OP_bor ''|'' ''bor'' 0 6,
     SET_OP ANDAND ''&&'' ''and'' 0 5,
     SET_OP OROR ''||'' ''or'' 0 4,
     SET_OP OP_asgn ''='' ''asgn'' 0 2,
     RIGHT_ASSOC OP_asgn,
     SET_OP MULTassign ''*='' ''*='' 0 2,
     RIGHT_ASSOC MULTassign,
     SET_OP DIVassign ''/='' ''/='' 0 2,
     RIGHT_ASSOC DIVassign,
     SET_OP MODassign ''%='' ''%='' 0 2,
     RIGHT_ASSOC MODassign,
     SET_OP PLUSassign ''+='' ''+='' 0 2,
     RIGHT_ASSOC PLUSassign,
     SET_OP MINUSassign ''-='' ''-='' 0 2,
     RIGHT_ASSOC MINUSassign,
     SET_OP LSassign ''<<='' ''<<='' 0 2,
     RIGHT_ASSOC LSassign,
     SET_OP RSassign ''>>='' ''>>='' 0 2,
     RIGHT_ASSOC RSassign,
     SET_OP ANDassign ''&='' ''&='' 0 2,
     RIGHT_ASSOC ANDassign,
     SET_OP ERassign ''^='' ''^='' 0 2,
     RIGHT_ASSOC ERassign,
     SET_OP ORassign ''|='' ''|='' 0 2,
     RIGHT_ASSOC ORassign]"

subsection \<open>Looking operators up\<close>

datatype opnode = Binop_node | Unary_node

definition OperatorName :: "OpType \<Rightarrow> string option op_prog" where
  "OperatorName opc =
     bindM (guardM AssertFail (\<lambda>_. op_code opc < MAX_OPERATORS)) (\<lambda>_.
     getM (\<lambda>T. op_name (T (op_code opc))))"

definition OperatorText :: "OpType \<Rightarrow> string option op_prog" where
  "OperatorText opc =
     bindM (guardM AssertFail (\<lambda>_. op_code opc < MAX_OPERATORS)) (\<lambda>_.
     getM (\<lambda>T. op_text (T (op_code opc))))"

text \<open>The characters \<open>PrintOp\<close> appends to the output buffer; the C result is their number.\<close>

definition PrintOp :: "OpType \<Rightarrow> (string \<times> nat) op_prog" where
  "PrintOp opc =
     bindM (guardM AssertFail (\<lambda>_. 0 < op_code opc \<and> op_code opc < MAX_OPERATORS)) (\<lambda>_.
     bindM (getM (\<lambda>T. op_text (T (op_code opc)))) (\<lambda>t.
     case t of None \<Rightarrow> failM Fail | Some s \<Rightarrow> ret (s, length s)))"

text \<open>The precedence of an operator and whether it associates to the left.\<close>

definition OpPrecedence :: "opnode \<Rightarrow> OpType \<Rightarrow> (int \<times> bool) op_prog" where
  "OpPrecedence typ opc =
     bindM (guardM AssertFail (\<lambda>_. 0 < op_code opc \<and> op_code opc < MAX_OPERATORS)) (\<lambda>_.
     bindM (getM (\<lambda>T. T (op_code opc))) (\<lambda>e.
     if op_text e = None then failM Fail
     else if typ = Binop_node then ret (binary_prec e, left_assoc e)
     else ret (unary_prec e, False)))"

subsection \<open>Classification\<close>

definition IsAssignmentOp :: "OpType \<Rightarrow> bool" where
  "IsAssignmentOp opc =
     (opc \<in> {OP_asgn, MULTassign, DIVassign, MODassign, PLUSassign, MINUSassign, LSassign, RSassign,
              ANDassign, ERassign, ORassign})"

definition OpOfAssignmentOp :: "OpType \<Rightarrow> cc_fail + OpType" where
  "OpOfAssignmentOp opc = (case opc of
     MULTassign \<Rightarrow> Inr OP_mul
   | DIVassign \<Rightarrow> Inr OP_div
   | MODassign \<Rightarrow> Inr OP_mod
   | PLUSassign \<Rightarrow> Inr OP_add
   | MINUSassign \<Rightarrow> Inr OP_sub
   | LSassign \<Rightarrow> Inr LS
   | RSassign \<Rightarrow> Inr RS
   | ANDassign \<Rightarrow> Inr OP_band
   | ERassign \<Rightarrow> Inr OP_bxor
   | ORassign \<Rightarrow> Inr OP_bor
   | _ \<Rightarrow> Inl Abort)"

definition IsIncDecOp :: "OpType \<Rightarrow> bool" where
  "IsIncDecOp opc = (opc \<in> {PREINC, PREDEC, POSTINC, POSTDEC})"

definition IsComparisonOp :: "OpType \<Rightarrow> bool" where
  "IsComparisonOp opc = (opc \<in> {OP_not, EQ, NE, OP_lt, LE, OP_gt, GE})"

definition IsArithmeticOp :: "OpType \<Rightarrow> bool" where
  "IsArithmeticOp opc =
     (opc \<in> {OP_add, OP_sub, OP_mul, OP_div, OP_mod, OP_bor, OP_band, OP_bxor, ANDAND, OROR, LS, RS})"

subsection \<open>The filled table\<close>

text \<open>
  The binary operators that are neither assignments, nor arithmetic, nor comparisons: member
  selection and the three forms of labelled initialisers.
\<close>

definition IsStructuralOp :: "OpType \<Rightarrow> bool" where
  "IsStructuralOp opc =
     (opc \<in> {OP_dot, ARROW, OP_colon, DESIGNATED_INITIALIZER, ARRAY_LABELED_INITIALIZER})"

text \<open>The entry of each operator after start-up, and the table that holds these entries.\<close>

definition op_row :: "OpType \<Rightarrow> OpEntry" where
  "op_row opc = (case opc of
     OP_colon \<Rightarrow> \<lparr>op_text = Some '':'', op_name = Some ''COLON'', left_assoc = True, unary_prec = 0, binary_prec = 16\<rparr>
   | DESIGNATED_INITIALIZER \<Rightarrow> \<lparr>op_text = Some ''='', op_name = Some ''DESIGNATED_INITIALIZER'', left_assoc = True, unary_prec = 0, binary_prec = 16\<rparr>
   | ARRAY_LABELED_INITIALIZER \<Rightarrow> \<lparr>op_text = Some '']='', op_name = Some ''ARRAY_LABELED_INITIALIZER'', left_assoc = True, unary_prec = 0, binary_prec = 16\<rparr>
   | ARROW \<Rightarrow> \<lparr>op_text = Some ''->'', op_name = Some ''ARROW'', left_assoc = True, unary_prec = 0, binary_prec = 15\<rparr>
   | OP_dot \<Rightarrow> \<lparr>op_text = Some ''.'', op_name = Some ''DOT'', left_assoc = True, unary_prec = 0, binary_prec = 15\<rparr>
   | OP_not \<Rightarrow> \<lparr>op_text = Some ''!'', op_name = Some ''not'', left_assoc = True, unary_prec = 14, binary_prec = 0\<rparr>
   | OP_bitnot \<Rightarrow> \<lparr>op_text = Some ''~'', op_name = Some ''bitnot'', left_assoc = True, unary_prec = 14, binary_prec = 0\<rparr>
   | ICR \<Rightarrow> \<lparr>op_text = Some ''++'', op_name = Some ''ICR'', left_assoc = True, unary_prec = 14, binary_prec = 0\<rparr>
   | POSTINC \<Rightarrow> \<lparr>op_text = Some ''++'', op_name = Some ''postinc'', left_assoc = True, unary_prec = 14, binary_prec = 0\<rparr>
   | PREINC \<Rightarrow> \<lparr>op_text = Some ''++'', op_name = Some ''preinc'', left_assoc = True, unary_prec = 14, binary_prec = 0\<rparr>
   | DECR \<Rightarrow> \<lparr>op_text = Some ''--'', op_name = Some ''DECR'', left_assoc = True, unary_prec = 14, binary_prec = 0\<rparr>
   | POSTDEC \<Rightarrow> \<lparr>op_text = Some ''--'', op_name = Some ''postdec'', left_assoc = True, unary_prec = 14, binary_prec = 0\<rparr>
   | PREDEC \<Rightarrow> \<lparr>op_text = Some ''--'', op_name = Some ''predec'', left_assoc = True, unary_prec = 14, binary_prec = 0\<rparr>
   | SIZEOF \<Rightarrow> \<lparr>op_text = Some ''sizeof'', op_name = Some ''sizeof'', left_assoc = True, unary_prec = 14, binary_prec = 0\<rparr>
   | ALIGNOF \<Rightarrow> \<lparr>op_text = Some ''__alignof__'', op_name = Some ''alignof'', left_assoc = True, unary_prec = 14, binary_prec = 0\<rparr>
   | IMAG \<Rightarrow> \<lparr>op_text = Some ''__imag__'', op_name = Some ''__imag__'', left_assoc = True, unary_prec = 14, binary_prec = 0\<rparr>
   | REAL \<Rightarrow> \<lparr>op_text = Some ''__real__'', op_name = Some ''__real__'', left_assoc = True, unary_prec = 14, binary_prec = 0\<rparr>
   | ADDRESS \<Rightarrow> \<lparr>op_text = Some ''&'', op_name = Some ''addrof'', left_assoc = True, unary_prec = 14, binary_prec = 0\<rparr>
   | INDIR \<Rightarrow> \<lparr>op_text = Some ''*'', op_name = Some ''indir'', left_assoc = True, unary_prec = 14, binary_prec = 0\<rparr>
   | UPLUS \<Rightarrow> \<lparr>op_text = Some ''+'', op_name = Some ''UPLUS'', left_assoc = True, unary_prec = 14, binary_prec = 0\<rparr>
   | UMINUS \<Rightarrow> \<lparr>op_text = Some ''-'', op_name = Some ''neg'', left_assoc = True, unary_prec = 14, binary_prec = 0\<rparr>
   | OP_mul \<Rightarrow> \<lparr>op_text = Some ''*'', op_name = Some ''mul'', left_assoc = True, unary_prec = 0, binary_prec = 13\<rparr>
   | OP_div \<Rightarrow> \<lparr>op_text = Some ''/'', op_name = Some ''div'', left_assoc = True, unary_prec = 0, binary_prec = 13\<rparr>
   | OP_mod \<Rightarrow> \<lparr>op_text = Some ''%'', op_name = Some ''mod'', left_assoc = True, unary_prec = 0, binary_prec = 13\<rparr>
   | OP_add \<Rightarrow> \<lparr>op_text = Some ''+'', op_name = Some ''add'', left_assoc = True, unary_prec = 0, binary_prec = 12\<rparr>
   | OP_sub \<Rightarrow> \<lparr>op_text = Some ''-'', op_name = Some ''sub'', left_assoc = True, unary_prec = 0, binary_prec = 12\<rparr>
   | LS \<Rightarrow> \<lparr>op_text = Some ''<<'', op_name = Some ''lsh'', left_assoc = True, unary_prec = 0, binary_prec = 11\<rparr>
   | RS \<Rightarrow> \<lparr>op_text = Some ''>>'', op_name = Some ''rsh'', left_assoc = True, unary_prec = 0, binary_prec = 11\<rparr>
   | OP_lt \<Rightarrow> \<lparr>op_text = Some ''<'', op_name = Some ''lt'', left_assoc = True, unary_prec = 0, binary_prec = 10\<rparr>
   | OP_gt \<Rightarrow> \<lparr>op_text = Some ''>'', op_name = Some ''gt'', left_assoc = True, unary_prec = 0, binary_prec = 10\<rparr>
   | LE \<Rightarrow> \<lparr>op_text = Some ''<='', op_name = Some ''le'', left_assoc = True, unary_prec = 0, binary_prec = 10\<rparr>
   | GE \<Rightarrow> \<lparr>op_text = Some ''>='', op_name = Some ''ge'', left_assoc = True, unary_prec = 0, binary_prec = 10\<rparr>
   | EQ \<Rightarrow> \<lparr>op_text = Some ''=='', op_name = Some ''eq'', left_assoc = True, unary_prec = 0, binary_prec = 9\<rparr>
   | NE \<Rightarrow> \<lparr>op_text = Some ''!='', op_name = Some ''ne'', left_assoc = True, unary_prec = 0, binary_prec = 9\<rparr>
   | OP_band \<Rightarrow> \<lparr>op_text = Some ''&'', op_name = Some ''band'', left_assoc = True, unary_prec = 0, binary_prec = 8\<rparr>
   | OP_bxor \<Rightarrow> \<lparr>op_text = Some ''^'', op_name = Some ''bxor'', left_assoc = True, unary_prec = 0, binary_prec = 7\<rparr>
   | OP_bor \<Rightarrow> \<lparr>op_text = Some ''|'', op_name = Some ''bor'', left_assoc = True, unary_prec = 0, binary_prec = 6\<rparr>
   | ANDAND \<Rightarrow> \<lparr>op_text = Some ''&&'', op_name = Some ''and'', left_assoc = True, unary_prec = 0, binary_prec = 5\<rparr>
   | OROR \<Rightarrow> \<lparr>op_text = Some ''||'', op_name = Some ''or'', left_assoc = True, unary_prec = 0, binary_prec = 4\<rparr>
   | OP_asgn \<Rightarrow> \<lparr>op_text = Some ''='', op_name = Some ''asgn'', left_assoc = False, unary_prec = 0, binary_prec = 2\<rparr>
   | MULTassign \<Rightarrow> \<lparr>op_text = Some ''*='', op_name = Some ''*='', left_assoc = False, unary_prec = 0, binary_prec = 2\<rparr>
   | DIVassign \<Rightarrow> \<lparr>op_text = Some ''/='', op_name = Some ''/='', left_assoc = False, unary_prec = 0, binary_prec = 2\<rparr>
   | MODassign \<Rightarrow> \<lparr>op_text = Some ''%='', op_name = Some ''%='', left_assoc = False, unary_prec = 0, binary_prec = 2\<rparr>
   | PLUSassign \<Rightarrow> \<lparr>op_text = Some ''+='', op_name = Some ''+='', left_assoc = False, unary_prec = 0, binary_prec = 2\<rparr>
   | MINUSassign \<Rightarrow> \<lparr>op_text = Some ''-='', op_name = Some ''-='', left_assoc = False, unary_prec = 0, binary_prec = 2\<rparr>
   | LSassign \<Rightarrow> \<lparr>op_text = Some ''<<='', op_name = Some ''<<='', left_assoc = False, unary_prec = 0, binary_prec = 2\<rparr>
   | RSassign \<Rightarrow> \<lparr>op_text = Some ''>>='', op_name = Some ''>>='', left_assoc = False, unary_prec = 0, binary_prec = 2\<rparr>
   | ANDassign \<Rightarrow> \<lparr>op_text = Some ''&='', op_name = Some ''&='', left_assoc = False, unary_prec = 0, binary_prec = 2\<rparr>
   | ERassign \<Rightarrow> \<lparr>op_text = Some ''^='', op_name = Some ''^='', left_assoc = False, unary_prec = 0, binary_prec = 2\<rparr>
   | ORassign \<Rightarrow> \<lparr>op_text = Some ''|='', op_name = Some ''|='', left_assoc = False, unary_prec = 0, binary_prec = 2\<rparr>)"

definition all_ops :: "OpType list" where
  "all_ops = [OP_colon, DESIGNATED_INITIALIZER, ARRAY_LABELED_INITIALIZER, ARROW, OP_dot, OP_not, OP_bitnot, ICR,
     POSTINC, PREINC, DECR, POSTDEC, PREDEC, SIZEOF, ALIGNOF, IMAG,
     REAL, ADDRESS, INDIR, UPLUS, UMINUS, OP_mul, OP_div, OP_mod,
     OP_add, OP_sub, LS, RS, OP_lt, OP_gt, LE, GE,
     EQ, NE, OP_band, OP_bxor, OP_bor, ANDAND, OROR, OP_asgn,
     MULTassign, DIVassign, MODassign, PLUSassign, MINUSassign, LSassign, RSassign, ANDassign,
     ERassign, ORassign]"

definition filled :: OpTable where
  "filled = fold (\<lambda>opc T. T(op_code opc := op_row opc)) all_ops zero_table"

lemma SET_OP_run:
  "op_code opc < MAX_OPERATORS \<Longrightarrow> op_text (T (op_code opc)) = None \<Longrightarrow>
   SET_OP opc t n u b T = Inr ((), T (op_code opc :=
       \<lparr>op_text = Some t, op_name = Some n, left_assoc = True, unary_prec = u, binary_prec = b\<rparr>))"
  by (simp add: SET_OP_def bindM_def guardM_def modifyM_def)

lemma RIGHT_ASSOC_run:
  "op_code opc < MAX_OPERATORS \<Longrightarrow> op_text (T (op_code opc)) \<noteq> None \<Longrightarrow>
   RIGHT_ASSOC opc T = Inr ((), T (op_code opc := (T (op_code opc))\<lparr>left_assoc := False\<rparr>))"
  by (simp add: RIGHT_ASSOC_def bindM_def guardM_def modifyM_def)

lemma Init_run: "InitOperatorTable zero_table = Inr ((), filled)"
  unfolding InitOperatorTable_def filled_def all_ops_def
  by (simp add: SET_OP_run RIGHT_ASSOC_run MAX_OPERATORS_def zero_table_def bindM_def ret_def op_row_def)

lemma all_ops_UNIV: "opc \<in> set all_ops"
  by (cases opc) (simp_all add: all_ops_def)

lemma op_code_distinct: "distinct (map op_code all_ops)"
  by (simp add: all_ops_def)

lemma op_code_inj: "op_code x = op_code y \<Longrightarrow> x = y"
  using op_code_distinct all_ops_UNIV by (auto simp: distinct_map dest: inj_onD)

lemma fold_rows:
  "fold (\<lambda>opc T. T(op_code opc := f opc)) ops T (op_code opc) =
     (if opc \<in> set ops then f opc else T (op_code opc))"
  by (induction ops arbitrary: T) (auto dest: op_code_inj)

lemma filled_row: "filled (op_code opc) = op_row opc"
  by (simp add: filled_def fold_rows all_ops_UNIV)

lemma op_row_ready:
  "op_text (op_row opc) \<noteq> None" "op_name (op_row opc) \<noteq> None"
  "(0 < binary_prec (op_row opc)) = (unary_prec (op_row opc) = 0)"
  "left_assoc (op_row opc) = (\<not> IsAssignmentOp opc)"
  by (cases opc; simp add: op_row_def IsAssignmentOp_def)+

lemma op_code_bounds: "0 < op_code opc \<and> op_code opc < MAX_OPERATORS"
  by (cases opc) (simp_all add: MAX_OPERATORS_def)

lemma PrintOp_run:
  "PrintOp opc filled = Inr ((the (op_text (op_row opc)), length (the (op_text (op_row opc)))), filled)"
  using op_row_ready(1) [of opc]
  by (auto simp: PrintOp_def bindM_def guardM_def getM_def ret_def op_code_bounds filled_row)

lemma OperatorText_run: "OperatorText opc filled = Inr (op_text (op_row opc), filled)"
  by (simp add: OperatorText_def bindM_def guardM_def getM_def op_code_bounds filled_row)

lemma compound_rows:
  "case OpOfAssignmentOp opc of
     Inl e \<Rightarrow> IsAssignmentOp opc = (opc = OP_asgn)
   | Inr c \<Rightarrow> IsAssignmentOp opc \<and> IsArithmeticOp c \<and>
       op_text (op_row opc) = map_option (\<lambda>t. t @ ''='') (op_text (op_row c))"
  by (cases opc)
     (simp_all add: OpOfAssignmentOp_def IsAssignmentOp_def IsArithmeticOp_def op_row_def)

subsection \<open>What the table promises the other phases\<close>

text \<open>
  Filling a zeroed table fails no assertion, and every operator then has a text, a name and
  exactly one precedence, as a binary or as a unary operator; exactly the assignments associate to
  the right.
\<close>

theorem operator_table_ready:
  "\<exists>T. InitOperatorTable zero_table = Inr ((), T) \<and>
     (\<forall>opc. op_text (T (op_code opc)) \<noteq> None \<and> op_name (T (op_code opc)) \<noteq> None \<and>
        (0 < binary_prec (T (op_code opc))) = (unary_prec (T (op_code opc)) = 0) \<and>
        left_assoc (T (op_code opc)) = (\<not> IsAssignmentOp opc))"
  using Init_run op_row_ready by (auto simp: filled_row simp del: not_None_eq)

text \<open>
  Every binary operator of the table is in exactly one of the four classes between which the
  semantic check of a binary expression chooses (assignment, member selection or labelled
  initialiser, arithmetic, comparison), and \<open>!\<close> is the only unary operator in one of them.
\<close>

theorem binary_operators_classified:
  "\<exists>T. InitOperatorTable zero_table = Inr ((), T) \<and>
     (\<forall>opc. length (filter (\<lambda>C. C opc)
          [IsAssignmentOp, IsStructuralOp, IsArithmeticOp, \<lambda>c. IsComparisonOp c \<and> c \<noteq> OP_not]) =
        (if 0 < binary_prec (T (op_code opc)) then 1 else 0))"
proof -
  have "length (filter (\<lambda>C. C opc)
          [IsAssignmentOp, IsStructuralOp, IsArithmeticOp, \<lambda>c. IsComparisonOp c \<and> c \<noteq> OP_not]) =
        (if 0 < binary_prec (op_row opc) then 1 else 0)" for opc
    by (cases opc) (simp_all add: op_row_def IsAssignmentOp_def IsStructuralOp_def
          IsArithmeticOp_def IsComparisonOp_def)
  then show ?thesis using Init_run by (auto simp: filled_row)
qed

text \<open>
  \<open>OpOfAssignmentOp\<close> succeeds exactly on the compound assignments, and the operation it gives is
  an arithmetic one whose text followed by an equals sign is the text of the assignment.
\<close>

theorem compound_assignment_operation:
  "case OpOfAssignmentOp opc of
     Inl e \<Rightarrow> IsAssignmentOp opc = (opc = OP_asgn)
   | Inr c \<Rightarrow> IsAssignmentOp opc \<and> IsArithmeticOp c \<and>
       OperatorText opc filled =
         Inr (map_option (\<lambda>t. t @ ''='') (op_text (filled (op_code c))), filled)"
  using compound_rows [of opc]
  by (cases "OpOfAssignmentOp opc") (auto simp: OperatorText_run filled_row IsAssignmentOp_def)

text \<open>
  The text printed for a binary operator other than the two gcc forms of labelled initialisers
  determines the operator.
\<close>

theorem printed_operator_unique:
  "inj_on (\<lambda>x. PrintOp x filled)
     {x. 0 < binary_prec (filled (op_code x)) \<and> x \<noteq> DESIGNATED_INITIALIZER}"
proof (rule inj_onI, elim CollectE conjE)
  fix x y
  assume same: "PrintOp x filled = PrintOp y filled"
    and x: "0 < binary_prec (filled (op_code x))" "x \<noteq> DESIGNATED_INITIALIZER"
    and y: "0 < binary_prec (filled (op_code y))" "y \<noteq> DESIGNATED_INITIALIZER"
  define texts where "texts =
    map (\<lambda>opc. the (op_text (op_row opc)))
      (filter (\<lambda>opc. 0 < binary_prec (op_row opc) \<and> opc \<noteq> DESIGNATED_INITIALIZER) all_ops)"
  have "distinct texts"
    by (simp add: texts_def all_ops_def op_row_def)
  then show "x = y"
    using same x y all_ops_UNIV by (auto simp: texts_def distinct_map PrintOp_run filled_row dest: inj_onD)
qed

end
