(* ===== verification/Cc_List.thy ===== *)
theory Cc_List
  imports Cc_Prelude
begin

section \<open>Linked lists (cilk2c/list.c)\<close>

text \<open>
  Every phase of the translator keeps its data in the mutable lists of list.c. The heap of list
  cells is a partial map from addresses; \<open>None\<close> is the null pointer and a cell that is read outside
  the map is a bad pointer. Lists are updated in place, so the laws say which cells change. A
  function that walks a list does not return on a cyclic one: such loops are partial functions and
  the laws show that they return on the acyclic lists described by \<open>cells_at\<close>.
\<close>

subsection \<open>Cells, addresses and allocation\<close>

type_synonym ptr = "nat option"

record 'a liststruct =
  element :: 'a
  next_cell :: ptr

text \<open>
  \<open>limit\<close>: the addresses from here on were never handed out. \<open>garbage\<close>: what a cell holds when
  \<open>HeapNew\<close> returns it.
\<close>

record 'a Heap =
  cells :: "nat \<Rightarrow> 'a liststruct option"
  limit :: nat
  garbage :: "'a liststruct"

type_synonym ('a, 'b) list_prog = "(cc_fail, 'a Heap, 'b) prog"
type_synonym ('a, 'b) list_loop = "('a Heap, 'b) loop_prog"

definition HeapNew :: "('a, nat) list_prog" where
  "HeapNew = (\<lambda>s. Inr (limit s, s\<lparr>cells := (cells s)(limit s \<mapsto> garbage s), limit := limit s + 1\<rparr>))"

definition get_cell :: "nat \<Rightarrow> ('a, 'a liststruct) list_prog" where
  "get_cell a = (\<lambda>s. case cells s a of None \<Rightarrow> Inl BadPointer | Some c \<Rightarrow> Inr (c, s))"

definition upd_cell :: "nat \<Rightarrow> ('a liststruct \<Rightarrow> 'a liststruct) \<Rightarrow> ('a, unit) list_prog" where
  "upd_cell a f = (\<lambda>s. case cells s a of
      None \<Rightarrow> Inl BadPointer
    | Some c \<Rightarrow> Inr ((), s\<lparr>cells := (cells s)(a \<mapsto> f c)\<rparr>))"

text \<open>A pointer that an assertion requires not to be null.\<close>

definition assert_ptr :: "ptr \<Rightarrow> ('a, nat) list_prog" where
  "assert_ptr p = (case p of None \<Rightarrow> failM AssertFail | Some a \<Rightarrow> ret a)"

subsection \<open>The operations without a loop\<close>

definition FirstItem :: "ptr \<Rightarrow> ('a, 'a) list_prog" where
  "FirstItem list = bindM (assert_ptr list) (\<lambda>a. bindM (get_cell a) (\<lambda>c. ret (element c)))"

definition Rest :: "ptr \<Rightarrow> ('a, ptr) list_prog" where
  "Rest list = bindM (assert_ptr list) (\<lambda>a. bindM (get_cell a) (\<lambda>c. ret (next_cell c)))"

definition SetItem :: "ptr \<Rightarrow> 'a \<Rightarrow> ('a, 'a) list_prog" where
  "SetItem list el =
     bindM (assert_ptr list) (\<lambda>a. bindM (upd_cell a (element_update (\<lambda>_. el))) (\<lambda>_. ret el))"

definition MakeNewList :: "'a \<Rightarrow> ('a, ptr) list_prog" where
  "MakeNewList item =
     bindM HeapNew (\<lambda>create.
     bindM (upd_cell create (element_update (\<lambda>_. item))) (\<lambda>_.
     bindM (upd_cell create (next_cell_update (\<lambda>_. None))) (\<lambda>_.
     ret (Some create))))"

definition ConsItem :: "'a \<Rightarrow> ptr \<Rightarrow> ('a, ptr) list_prog" where
  "ConsItem item list =
     bindM (MakeNewList item) (\<lambda>el.
     bindM (assert_ptr el) (\<lambda>a.
     bindM (upd_cell a (next_cell_update (\<lambda>_. list))) (\<lambda>_.
     ret el)))"

definition List2 :: "'a \<Rightarrow> 'a \<Rightarrow> ('a, ptr) list_prog" where
  "List2 x1 x2 = bindM (MakeNewList x2) (ConsItem x1)"

definition List3 :: "'a \<Rightarrow> 'a \<Rightarrow> 'a \<Rightarrow> ('a, ptr) list_prog" where
  "List3 x1 x2 x3 = bindM (bindM (MakeNewList x3) (ConsItem x2)) (ConsItem x1)"

definition List4 :: "'a \<Rightarrow> 'a \<Rightarrow> 'a \<Rightarrow> 'a \<Rightarrow> ('a, ptr) list_prog" where
  "List4 x1 x2 x3 x4 =
     bindM (bindM (bindM (MakeNewList x4) (ConsItem x3)) (ConsItem x2)) (ConsItem x1)"

definition List5 :: "'a \<Rightarrow> 'a \<Rightarrow> 'a \<Rightarrow> 'a \<Rightarrow> 'a \<Rightarrow> ('a, ptr) list_prog" where
  "List5 x1 x2 x3 x4 x5 =
     bindM (bindM (bindM (bindM (MakeNewList x5) (ConsItem x4)) (ConsItem x3)) (ConsItem x2))
       (ConsItem x1)"

subsection \<open>Iteration\<close>

record ListMarker =
  first :: ptr
  current :: ptr
  tail :: ptr

definition IterateList :: "ptr \<Rightarrow> ListMarker" where
  "IterateList list = \<lparr>first = list, current = None, tail = None\<rparr>"

text \<open>
  The result is the marker after the call and the element stored through \<open>handle\<close>, \<open>None\<close> for the
  answer \<open>FALSE\<close>.
\<close>

definition next_on :: "ListMarker \<Rightarrow> ('a, ListMarker \<times> 'a option) list_prog" where
  "next_on m =
     (case current m of
        None \<Rightarrow>
          (case first m of
             None \<Rightarrow> ret (m, None)
           | Some f \<Rightarrow> bindM (get_cell f) (\<lambda>c. ret (m\<lparr>current := Some f\<rparr>, Some (element c))))
      | Some p \<Rightarrow>
          bindM (get_cell p) (\<lambda>c.
          case next_cell c of
            Some q \<Rightarrow> bindM (get_cell q) (\<lambda>d. ret (m\<lparr>current := Some q\<rparr>, Some (element d)))
          | None \<Rightarrow>
              (case tail m of
                 None \<Rightarrow> ret (m, None)
               | Some q \<Rightarrow>
                   bindM (upd_cell p (next_cell_update (\<lambda>_. Some q))) (\<lambda>_.
                   bindM (get_cell q) (\<lambda>d.
                   ret (m\<lparr>tail := None, current := Some q\<rparr>, Some (element d)))))))"

definition NextOnList :: "ListMarker option \<Rightarrow> ('a, ListMarker option \<times> 'a option) list_prog" where
  "NextOnList marker =
     (case marker of
        None \<Rightarrow> ret (None, None)
      | Some m \<Rightarrow> bindM (next_on m) (\<lambda>(m', x). ret (Some m', x)))"

definition EndOfList :: "ListMarker option \<Rightarrow> ('a, bool) list_prog" where
  "EndOfList marker =
     (case marker of
        None \<Rightarrow> ret True
      | Some m \<Rightarrow>
          (case current m of
             None \<Rightarrow> ret (first m = None)
           | Some p \<Rightarrow> bindM (get_cell p) (\<lambda>c.
               if next_cell c \<noteq> None then ret False else ret (tail m = None))))"

definition SetCurrentOnList :: "ListMarker option \<Rightarrow> 'a \<Rightarrow> ('a, unit) list_prog" where
  "SetCurrentOnList marker x =
     (case marker of
        None \<Rightarrow> failM AssertFail
      | Some m \<Rightarrow> bindM (assert_ptr (current m)) (\<lambda>p. upd_cell p (element_update (\<lambda>_. x))))"

definition SplitList :: "ListMarker option \<Rightarrow> ('a, ptr) list_prog" where
  "SplitList marker =
     (case marker of
        None \<Rightarrow> failM AssertFail
      | Some m \<Rightarrow>
          bindM (assert_ptr (current m)) (\<lambda>p.
          bindM (get_cell p) (\<lambda>c.
          bindM (upd_cell p (next_cell_update (\<lambda>_. None))) (\<lambda>_.
          ret (next_cell c)))))"

subsection \<open>The operations with a loop\<close>

definition walkL :: "((nat \<Rightarrow> 'a liststruct option) \<Rightarrow> (cc_fail + 'b) option) \<Rightarrow> ('a, 'b) list_loop" where
  "walkL f = (\<lambda>s. case f (cells s) of
      None \<Rightarrow> None
    | Some (Inl e) \<Rightarrow> Some (Inl e)
    | Some (Inr r) \<Rightarrow> Some (Inr (r, s)))"

partial_function (option) last_loop :: "(nat \<Rightarrow> 'a liststruct option) \<Rightarrow> nat \<Rightarrow> (cc_fail + nat) option"
  where
  "last_loop h list = (case h list of
      None \<Rightarrow> Some (Inl BadPointer)
    | Some c \<Rightarrow> (case next_cell c of None \<Rightarrow> Some (Inr list) | Some q \<Rightarrow> last_loop h q))"

definition Last :: "ptr \<Rightarrow> ('a, ptr) list_loop" where
  "Last list = (case list of
      None \<Rightarrow> retL None
    | Some a \<Rightarrow> bindL (walkL (\<lambda>h. last_loop h a)) (\<lambda>p. retL (Some p)))"

definition JoinLists :: "ptr \<Rightarrow> ptr \<Rightarrow> ('a, ptr) list_loop" where
  "JoinLists list1 list2 = bindL (Last list1) (\<lambda>last.
     case last of
       None \<Rightarrow> retL list2
     | Some p \<Rightarrow> bindL (liftL (upd_cell p (next_cell_update (\<lambda>_. list2)))) (\<lambda>_. retL list1))"

definition AppendItem :: "ptr \<Rightarrow> 'a \<Rightarrow> ('a, ptr) list_loop" where
  "AppendItem list item = bindL (liftL (MakeNewList item)) (\<lambda>tl.
     if list = None then retL tl else JoinLists list tl)"

text \<open>
  The loop \<open>while (NextOnList(&marker, &item)) ...\<close> whose body computes \<open>f\<close> on the variables
  of the loop and leaves the list alone.
\<close>

partial_function (option) while_next ::
    "('b \<Rightarrow> 'a \<Rightarrow> 'b) \<Rightarrow> ListMarker \<Rightarrow> 'b \<Rightarrow> 'a Heap \<Rightarrow> (cc_fail + ('b \<times> 'a Heap)) option" where
  "while_next f m b s = (case next_on m s of
      Inl e \<Rightarrow> Some (Inl e)
    | Inr ((m', x), s') \<Rightarrow>
        (case x of None \<Rightarrow> Some (Inr (b, s')) | Some i \<Rightarrow> while_next f m' (f b i) s'))"

text \<open>The variable \<open>item\<close> of \<open>LastItem\<close> is uninitialised until the first element is read.\<close>

definition LastItem :: "ptr \<Rightarrow> ('a, 'a) list_loop" where
  "LastItem list =
     bindL (liftL (assert_ptr list)) (\<lambda>_.
     bindL (while_next (\<lambda>_ x. Some x) (IterateList list) None) (\<lambda>item.
     case item of None \<Rightarrow> liftL (failM BadPointer) | Some x \<Rightarrow> retL x))"

definition ListLength :: "ptr \<Rightarrow> ('a, nat) list_loop" where
  "ListLength list = while_next (\<lambda>n _. Suc n) (IterateList list) 0"

text \<open>\<open>Mapc\<close>: the effect of the function on the variables \<open>b\<close> outside the list is \<open>f\<close>.\<close>

definition Mapc :: "ptr \<Rightarrow> ('a \<Rightarrow> 'b \<Rightarrow> 'b) \<Rightarrow> 'b \<Rightarrow> ('a, ptr \<times> 'b) list_loop" where
  "Mapc l f b = bindL (while_next (\<lambda>b x. f x b) (IterateList l) b) (\<lambda>b'. retL (l, b'))"

text \<open>
  \<open>ListCopy\<close> writes each new cell through \<open>plast\<close>, which points at the variable \<open>new\<close> at first
  (\<open>None\<close> here) and then at the \<open>next\<close> field of the last new cell.
\<close>

definition store_plast :: "ptr \<Rightarrow> ptr \<Rightarrow> ptr \<Rightarrow> ('a, ptr) list_prog" where
  "store_plast plast v new = (case plast of
      None \<Rightarrow> ret v
    | Some a \<Rightarrow> bindM (upd_cell a (next_cell_update (\<lambda>_. v))) (\<lambda>_. ret new))"

definition copy_cell :: "nat \<Rightarrow> ptr \<Rightarrow> ptr \<Rightarrow> ('a, ptr \<times> ptr \<times> ptr) list_prog" where
  "copy_cell list plast new =
     bindM HeapNew (\<lambda>tmp.
     bindM (get_cell list) (\<lambda>c.
     bindM (upd_cell tmp (element_update (\<lambda>_. element c))) (\<lambda>_.
     bindM (store_plast plast (Some tmp) new) (\<lambda>new'.
     bindM (get_cell list) (\<lambda>c'.
     ret (next_cell c', Some tmp, new'))))))"

partial_function (option) copy_loop ::
    "ptr \<Rightarrow> ptr \<Rightarrow> ptr \<Rightarrow> 'a Heap \<Rightarrow> (cc_fail + (ptr \<times> 'a Heap)) option" where
  "copy_loop list plast new s = (case list of
      None \<Rightarrow> Some (store_plast plast None new s)
    | Some a \<Rightarrow> (case copy_cell a plast new s of
        Inl e \<Rightarrow> Some (Inl e)
      | Inr ((list', plast', new'), s') \<Rightarrow> copy_loop list' plast' new' s'))"

definition ListCopy :: "ptr \<Rightarrow> ('a, ptr) list_loop" where
  "ListCopy list = copy_loop list None None"

partial_function (option) find_loop ::
    "(nat \<Rightarrow> 'a liststruct option) \<Rightarrow> 'a \<Rightarrow> ptr \<Rightarrow> (cc_fail + ptr) option" where
  "find_loop h item list = (case list of
      None \<Rightarrow> Some (Inr None)
    | Some a \<Rightarrow> (case h a of
        None \<Rightarrow> Some (Inl BadPointer)
      | Some c \<Rightarrow> if item = element c then Some (Inr list) else find_loop h item (next_cell c)))"

definition FindItem :: "ptr \<Rightarrow> 'a \<Rightarrow> ('a, ptr) list_loop" where
  "FindItem list item = walkL (\<lambda>h. find_loop h item list)"

definition unlink :: "ptr \<Rightarrow> ptr \<Rightarrow> 'a liststruct \<Rightarrow> ('a, ptr) list_prog" where
  "unlink list prev c = (case prev of
      Some p \<Rightarrow> bindM (upd_cell p (next_cell_update (\<lambda>_. next_cell c))) (\<lambda>_. ret list)
    | None \<Rightarrow> ret (next_cell c))"

partial_function (option) remove_loop ::
    "ptr \<Rightarrow> 'a \<Rightarrow> ptr \<Rightarrow> ptr \<Rightarrow> 'a Heap \<Rightarrow> (cc_fail + (ptr \<times> 'a Heap)) option" where
  "remove_loop list item prev cur s = (case cur of
      None \<Rightarrow> Some (Inr (list, s))
    | Some a \<Rightarrow> (case cells s a of
        None \<Rightarrow> Some (Inl BadPointer)
      | Some c \<Rightarrow>
          if item = element c then Some (unlink list prev c s)
          else remove_loop list item cur (next_cell c) s))"

definition RemoveItem :: "ptr \<Rightarrow> 'a \<Rightarrow> ('a, ptr) list_loop" where
  "RemoveItem list item = remove_loop list item None list"

partial_function (option) prev_loop ::
    "(nat \<Rightarrow> 'a liststruct option) \<Rightarrow> ptr \<Rightarrow> ptr \<Rightarrow> (cc_fail + ptr) option" where
  "prev_loop h cur prev = (case prev of
      None \<Rightarrow> Some (Inr None)
    | Some a \<Rightarrow> (case h a of
        None \<Rightarrow> Some (Inl BadPointer)
      | Some c \<Rightarrow> if next_cell c = cur then Some (Inr prev) else prev_loop h cur (next_cell c)))"

text \<open>\<open>InsertList\<close> and \<open>SpliceList\<close> return the head of the list and change the marker.\<close>

definition InsertList :: "ListMarker \<Rightarrow> ptr \<Rightarrow> ('a, ListMarker \<times> ptr) list_loop" where
  "InsertList m sublist = (case current m of
      None \<Rightarrow>
        bindL (Last sublist) (\<lambda>c.
        bindL (JoinLists sublist (first m)) (\<lambda>f.
        retL (m\<lparr>current := c, first := f\<rparr>, f)))
    | Some _ \<Rightarrow>
        bindL (walkL (\<lambda>h. prev_loop h (current m) (first m))) (\<lambda>prev.
        case prev of
          None \<Rightarrow> bindL (JoinLists sublist (first m)) (\<lambda>f. retL (m\<lparr>first := f\<rparr>, f))
        | Some p \<Rightarrow>
            bindL (liftL (get_cell p)) (\<lambda>c.
            bindL (JoinLists sublist (next_cell c)) (\<lambda>n.
            bindL (liftL (upd_cell p (next_cell_update (\<lambda>_. n)))) (\<lambda>_.
            retL (m, first m))))))"

definition SpliceList :: "ListMarker \<Rightarrow> ptr \<Rightarrow> ('a, ListMarker \<times> ptr) list_loop" where
  "SpliceList m sublist = (case current m of
      None \<Rightarrow> bindL (JoinLists sublist (first m)) (\<lambda>f. retL (m\<lparr>first := f\<rparr>, f))
    | Some p \<Rightarrow>
        bindL (liftL (get_cell p)) (\<lambda>c.
        bindL (JoinLists sublist (next_cell c)) (\<lambda>n.
        bindL (liftL (upd_cell p (next_cell_update (\<lambda>_. n)))) (\<lambda>_.
        retL (m, first m)))))"

fun chunk_loop :: "nat \<Rightarrow> ListMarker \<Rightarrow> ('a, ListMarker) list_prog" where
  "chunk_loop 0 m = ret m"
| "chunk_loop (Suc k) m = bindM (next_on m) (\<lambda>(m', x).
     case x of None \<Rightarrow> ret m' | Some _ \<Rightarrow> chunk_loop k m')"

definition NextChunkOnList :: "ListMarker \<Rightarrow> nat \<Rightarrow> ('a, ListMarker \<times> ptr) list_loop" where
  "NextChunkOnList m chunksize =
     (let chunk_begin = (if current m \<noteq> None then tail m else first m)
      in if chunksize = 0 then retL (m, None)
         else
           bindL (liftL (chunk_loop chunksize m)) (\<lambda>m1.
           bindL (case current m1 of
                None \<Rightarrow> retL m1
              | Some p \<Rightarrow> liftL (
                  bindM (get_cell p) (\<lambda>c.
                  bindM (upd_cell p (next_cell_update (\<lambda>_. None))) (\<lambda>_.
                  ret (m1\<lparr>tail := next_cell c\<rparr>))))) (\<lambda>m2.
           bindL (ListLength chunk_begin) (\<lambda>n.
           bindL (liftL (guardM AssertFail (\<lambda>_. n \<le> chunksize))) (\<lambda>_.
           retL (m2, chunk_begin))))))"

partial_function (option) DeleteIf ::
    "('a \<Rightarrow> bool) \<Rightarrow> ptr \<Rightarrow> 'a Heap \<Rightarrow> (cc_fail + (ptr \<times> 'a Heap)) option" where
  "DeleteIf f l s = (case l of
      None \<Rightarrow> Some (Inr (None, s))
    | Some a \<Rightarrow> (case cells s a of
        None \<Rightarrow> Some (Inl BadPointer)
      | Some c \<Rightarrow>
          if f (element c) then DeleteIf f (next_cell c) s
          else Option.bind (DeleteIf f (next_cell c) s) (\<lambda>r. case r of
                  Inl e \<Rightarrow> Some (Inl e)
                | Inr (l', s') \<Rightarrow>
                    Some (bindM (upd_cell a (next_cell_update (\<lambda>_. l'))) (\<lambda>_. ret (Some a)) s'))))"

end
