(* ===== verification/Cc_List_Laws.thy ===== *)
theory Cc_List_Laws
  imports Cc_List
begin

section \<open>Laws of the linked lists\<close>

text \<open>
  \<open>cells_at h p L q\<close>: from \<open>p\<close> the heap \<open>h\<close> holds the cells \<open>L\<close> (addresses and elements) in a row
  and the last one points at \<open>q\<close>. With \<open>q\<close> null this is a complete list. Each operation is
  described by an equation that says what it returns and which cells it rewrites.
\<close>

fun cells_at :: "(nat \<Rightarrow> 'a liststruct option) \<Rightarrow> ptr \<Rightarrow> (nat \<times> 'a) list \<Rightarrow> ptr \<Rightarrow> bool" where
  "cells_at h p [] q = (p = q)"
| "cells_at h p (c # L) q =
     (p = Some (fst c) \<and> (\<exists>n. h (fst c) = Some \<lparr>element = snd c, next_cell = n\<rparr> \<and> cells_at h n L q))"

abbreviation addrs :: "(nat \<times> 'a) list \<Rightarrow> nat set" where
  "addrs L \<equiv> fst ` set L"

lemma cells_at_append:
  "cells_at h p (L @ M) q = (\<exists>r. cells_at h p L r \<and> cells_at h r M q)"
  by (induction L arbitrary: p) auto

lemma cells_at_upd [simp]:
  "a \<notin> addrs L \<Longrightarrow> cells_at (h(a := c)) p L q = cells_at h p L q"
  by (induction L arbitrary: p) auto

lemma cells_at_cong:
  "(\<And>a. a \<in> addrs L \<Longrightarrow> h a = h' a) \<Longrightarrow> cells_at h p L q = cells_at h' p L q"
  by (induction L arbitrary: p) auto

lemma cells_at_unique: "cells_at h p L None \<Longrightarrow> cells_at h p M None \<Longrightarrow> L = M"
proof (induction L arbitrary: p M)
  case Nil
  then show ?case by (cases M) auto
next
  case (Cons c L)
  then show ?case by (cases M) (auto simp: prod_eq_iff)
qed

lemma cells_at_distinct: "cells_at h p L None \<Longrightarrow> distinct (map fst L)"
proof (induction L arbitrary: p)
  case Nil
  then show ?case by simp
next
  case (Cons c L)
  then obtain n where n: "h (fst c) = Some \<lparr>element = snd c, next_cell = n\<rparr>" "cells_at h n L None"
    by auto
  have "fst c \<notin> addrs L"
  proof
    assume "fst c \<in> addrs L"
    then obtain d where "d \<in> set L" "fst d = fst c" by auto
    then obtain A B where L: "L = A @ d # B" by (auto dest: split_list)
    with n \<open>fst d = fst c\<close> have "cells_at h n B None"
      by (auto simp: cells_at_append)
    with n(2) have "B = L" using cells_at_unique by metis
    with L show False by (metis append_eq_append_conv2 append_self_conv2 length_Cons length_append
          add_Suc_right less_add_Suc2 nat_less_le)
  qed
  with Cons.IH [OF n(2)] show ?case by simp
qed

lemma cells_at_dom: "cells_at h p L q \<Longrightarrow> a \<in> addrs L \<Longrightarrow> h a \<noteq> None"
  by (induction L arbitrary: p) auto

lemma cells_at_hd: "cells_at h p L q \<Longrightarrow> L \<noteq> [] \<Longrightarrow> p = Some (fst (hd L))"
  by (cases L) auto

lemma cells_at_Null: "cells_at h None L q = (L = [] \<and> q = None)"
  by (cases L) auto

lemma cells_at_snoc_last:
  "cells_at h p L q \<Longrightarrow> L \<noteq> [] \<Longrightarrow>
     h (fst (last L)) = Some \<lparr>element = snd (last L), next_cell = q\<rparr>"
  by (induction L arbitrary: p) auto

lemma distinct_last_butlast: "distinct (map fst L) \<Longrightarrow> L \<noteq> [] \<Longrightarrow> fst (last L) \<notin> addrs (butlast L)"
  by (induction L rule: rev_induct) auto

subsection \<open>Last and JoinLists\<close>

definition link :: "(nat \<Rightarrow> 'a liststruct option) \<Rightarrow> (nat \<times> 'a) list \<Rightarrow> ptr \<Rightarrow>
    (nat \<Rightarrow> 'a liststruct option)" where
  "link h L q = (if L = [] then h
     else h(fst (last L) \<mapsto> \<lparr>element = snd (last L), next_cell = q\<rparr>))"

lemma last_loop_run:
  "cells_at h (Some a) L None \<Longrightarrow> last_loop h a = Some (Inr (fst (last L)))"
proof (induction L arbitrary: a)
  case Nil
  then show ?case by simp
next
  case (Cons c L)
  then show ?case
    by (cases L) (auto simp: last_loop.simps [of h "fst c"])
qed

lemma Last_run:
  "cells_at (cells s) p L None \<Longrightarrow>
     Last p s = Some (Inr (if L = [] then None else Some (fst (last L)), s))"
  by (cases p)
     (auto simp: Last_def retL_def liftL_def ret_def bindL_def walkL_def last_loop_run
        cells_at_Null dest: cells_at_hd)

lemma upd_cell_run:
  "cells s a = Some c \<Longrightarrow> upd_cell a f s = Inr ((), s\<lparr>cells := (cells s)(a \<mapsto> f c)\<rparr>)"
  by (simp add: upd_cell_def)

lemma JoinLists_run:
  assumes "cells_at (cells s) p L None"
  shows "JoinLists p q s =
     Some (Inr (if L = [] then q else p, s\<lparr>cells := link (cells s) L q\<rparr>))"
proof (cases "L = []")
  case True
  then show ?thesis
    using Last_run [OF assms] by (simp add: JoinLists_def bindL_def retL_def liftL_def ret_def link_def)
next
  case False
  then show ?thesis
    using Last_run [OF assms] cells_at_snoc_last [OF assms False]
    by (simp add: JoinLists_def bindL_def retL_def liftL_def ret_def link_def upd_cell_run)
qed

lemma cells_at_link:
  assumes "cells_at h p L r" "distinct (map fst L)"
  shows "cells_at (link h L q) (if L = [] then q else p) L q"
proof (cases L rule: rev_cases)
  case Nil
  then show ?thesis by (simp add: link_def)
next
  case (snoc K c)
  then have "fst c \<notin> addrs K" using assms(2) by auto
  with assms(1) snoc show ?thesis by (auto simp: link_def cells_at_append)
qed

lemma last_addr: "L \<noteq> [] \<Longrightarrow> fst (last L) \<in> addrs L"
  by simp

lemma link_other: "a \<notin> addrs L \<Longrightarrow> link h L q a = h a"
  using last_addr [of L] by (auto simp: link_def)

lemma cells_at_link_other:
  "addrs L \<inter> addrs M = {} \<Longrightarrow> cells_at (link h L q) p M r = cells_at h p M r"
  by (rule cells_at_cong) (auto intro: link_other)

lemma link_same: "cells_at h p L q \<Longrightarrow> link h L q = h"
  using cells_at_snoc_last [of h p L q] by (auto simp: link_def)

lemma cells_at_join:
  assumes "cells_at h p L None" "cells_at h q M r" "addrs L \<inter> addrs M = {}"
  shows "cells_at (link h L q) (if L = [] then q else p) (L @ M) r"
proof -
  have "fst (last L) \<notin> addrs M" if "L \<noteq> []"
    using that assms(3) last_in_set [OF that] by blast
  then have "cells_at (link h L q) q M r"
    using assms(2) by (simp add: link_def)
  with cells_at_link [OF assms(1) cells_at_distinct [OF assms(1)], of q] show ?thesis by (auto simp: cells_at_append)
qed

subsection \<open>Iteration\<close>

text \<open>
  \<open>on_list H s m L R\<close>: the marker \<open>m\<close> iterates over a list whose cells in the uncut heap \<open>H\<close> are
  \<open>L @ R\<close> and has passed \<open>L\<close>. The list in the actual heap of \<open>s\<close> is either uncut, or cut behind the
  last passed cell, as \<open>NextChunkOnList\<close> leaves it.
\<close>

definition on_list :: "(nat \<Rightarrow> 'a liststruct option) \<Rightarrow> 'a Heap \<Rightarrow> ListMarker \<Rightarrow>
    (nat \<times> 'a) list \<Rightarrow> (nat \<times> 'a) list \<Rightarrow> bool" where
  "on_list H s m L R \<longleftrightarrow>
     cells_at H (first m) (L @ R) None \<and>
     current m = (if L = [] then None else Some (fst (last L))) \<and>
     (tail m = None \<and> cells s = H \<or>
      L \<noteq> [] \<and> R \<noteq> [] \<and> tail m = Some (fst (hd R)) \<and> cells s = link H L None)"

lemma on_list_start: "cells_at (cells s) p L None \<Longrightarrow> on_list (cells s) s (IterateList p) [] L"
  by (simp add: on_list_def IterateList_def)

lemma on_list_end: "on_list H s m L [] \<Longrightarrow> cells s = H"
  by (auto simp: on_list_def)

lemma on_list_cells:
  assumes "on_list H s m L R"
  shows "cells_at H (first m) L (if R = [] then None else Some (fst (hd R)))"
    "R \<noteq> [] \<Longrightarrow> cells_at H (Some (fst (hd R))) R None"
    "distinct (map fst (L @ R))"
  using assms cells_at_distinct [of H "first m" "L @ R"] cells_at_hd [of H _ R None]
  by (fastforce simp: on_list_def cells_at_append)+

lemma next_on_more:
  assumes "on_list H s m L (c # R)"
  shows "\<exists>m'. next_on m s = Inr ((m', Some (snd c)), s\<lparr>cells := H\<rparr>) \<and>
    on_list H (s\<lparr>cells := H\<rparr>) m' (L @ [c]) R \<and> first m' = first m \<and> tail m' = None"
proof (cases "L = []")
  case True
  then show ?thesis
    using assms by (auto simp: on_list_def next_on_def bindM_def get_cell_def ret_def)
next
  case False
  have c: "\<exists>n. H (fst c) = Some \<lparr>element = snd c, next_cell = n\<rparr>"
    and d: "H (fst (last L)) = Some \<lparr>element = snd (last L), next_cell = Some (fst c)\<rparr>"
    and ne: "fst c \<noteq> fst (last L)"
    using on_list_cells [OF assms] False cells_at_snoc_last [of H "first m" L "Some (fst c)"]
    by auto
  have H: "(link H L None)(fst (last L) \<mapsto> \<lparr>element = snd (last L), next_cell = Some (fst c)\<rparr>) = H"
    using False d by (auto simp: link_def)
  show ?thesis
    using assms False c d ne H
    by (auto simp: on_list_def next_on_def bindM_def get_cell_def ret_def upd_cell_def link_def)
qed

lemma next_on_end: "on_list H s m L [] \<Longrightarrow> next_on m s = Inr ((m, None), s)"
  using cells_at_snoc_last [of H "first m" L None]
  by (auto simp: on_list_def next_on_def bindM_def get_cell_def ret_def split: if_splits)

lemma while_next_run:
  "on_list H s m L R \<Longrightarrow>
     while_next f m b s = Some (Inr (foldl f b (map snd R), s\<lparr>cells := H\<rparr>))"
proof (induction R arbitrary: s m L b)
  case Nil
  then show ?case
    using next_on_end [OF Nil] on_list_end [OF Nil] by (simp add: while_next.simps [of f m])
next
  case (Cons c R)
  obtain m' where m': "next_on m s = Inr ((m', Some (snd c)), s\<lparr>cells := H\<rparr>)"
    "on_list H (s\<lparr>cells := H\<rparr>) m' (L @ [c]) R"
    using next_on_more [OF Cons.prems] by auto
  from Cons.IH [OF m'(2)] m'(1) show ?case by (simp add: while_next.simps [of f m])
qed

lemma foldl_count: "foldl (\<lambda>n _. Suc n) (k :: nat) xs = k + length xs"
  by (induction xs arbitrary: k) auto

lemma ListLength_run:
  "cells_at (cells s) p L None \<Longrightarrow> ListLength p s = Some (Inr (length L, s))"
  using while_next_run [OF on_list_start, of s p L "\<lambda>n _. Suc n" 0]
  unfolding ListLength_def foldl_count by simp

lemma foldl_last: "foldl (\<lambda>_ x. Some x) b xs = (if xs = [] then b else Some (last xs))"
  by (induction xs arbitrary: b) auto

lemma LastItem_run:
  assumes "cells_at (cells s) p L None" "L \<noteq> []"
  shows "LastItem p s = Some (Inr (snd (last L), s))"
  using while_next_run [OF on_list_start [OF assms(1)], of "\<lambda>_ x. Some x" None]
    assms(2) cells_at_hd [OF assms]
  unfolding LastItem_def foldl_last
  by (simp add: bindL_def liftL_def assert_ptr_def ret_def retL_def last_map)

subsection \<open>Iteration in chunks\<close>

text \<open>
  \<open>in_chunks\<close>: the marker has only been moved by \<open>NextChunkOnList\<close>, so that the elements it has not
  passed begin at \<open>tail\<close>.
\<close>

definition in_chunks :: "ListMarker \<Rightarrow> (nat \<times> 'a) list \<Rightarrow> (nat \<times> 'a) list \<Rightarrow> bool" where
  "in_chunks m L R \<longleftrightarrow> L = [] \<or> R = [] \<or> tail m \<noteq> None"

lemma chunk_loop_run:
  assumes "on_list H s m L R"
  shows "\<exists>m'. chunk_loop k m s = Inr (m', if k = 0 \<or> R = [] then s else s\<lparr>cells := H\<rparr>) \<and>
    on_list H (if k = 0 \<or> R = [] then s else s\<lparr>cells := H\<rparr>) m' (L @ take k R) (drop k R) \<and>
    first m' = first m \<and> (k = 0 \<or> tail m' = None)"
  using assms
proof (induction k arbitrary: s m L R)
  case 0
  then show ?case by (simp add: ret_def)
next
  case (Suc k)
  show ?case
  proof (cases R)
    case Nil
    with Suc.prems next_on_end [of H s m L] show ?thesis
      by (auto simp: bindM_def ret_def on_list_def)
  next
    case (Cons c R')
    then obtain m' where m': "next_on m s = Inr ((m', Some (snd c)), s\<lparr>cells := H\<rparr>)"
      "on_list H (s\<lparr>cells := H\<rparr>) m' (L @ [c]) R'" "first m' = first m" "tail m' = None"
      using next_on_more Suc.prems by blast
    with Suc.IH [OF m'(2)] Cons show ?thesis
      by (auto simp: bindM_def ret_def split: if_splits)
  qed
qed

lemma chunk_begin:
  assumes "on_list H s m L R" "in_chunks m L R"
  shows "(if current m \<noteq> None then tail m else first m) = (if R = [] then None else Some (fst (hd R)))"
  using assms by (cases R) (auto simp: on_list_def in_chunks_def)

lemma NextChunkOnList_run:
  assumes R: "on_list H s m L R" and m: "in_chunks m L R" and k: "0 < k"
  shows "\<exists>m' s'. NextChunkOnList m k s =
        Some (Inr ((m', if R = [] then None else Some (fst (hd R))), s')) \<and>
      on_list H s' m' (L @ take k R) (drop k R) \<and> in_chunks m' (L @ take k R) (drop k R) \<and>
      cells_at (cells s') (if R = [] then None else Some (fst (hd R))) (take k R) None \<and>
      first m' = first m \<and> s' = s\<lparr>cells := cells s'\<rparr>"
proof -
  let ?b = "if R = [] then None else Some (fst (hd R))"
  let ?s1 = "if k = 0 \<or> R = [] then s else s\<lparr>cells := H\<rparr>"
  obtain m1 where m1: "chunk_loop k m s = Inr (m1, ?s1)" "on_list H ?s1 m1 (L @ take k R) (drop k R)"
    "first m1 = first m" "tail m1 = None"
    using chunk_loop_run [OF R, of k] k by auto
  have H: "cells ?s1 = H" using m1(2,4) by (simp add: on_list_def)
  let ?L = "L @ take k R" and ?R = "drop k R"
  show ?thesis
  proof (cases "?L = []")
    case True
    then have "R = []" "L = []" "current m1 = None" using m1(2) k by (auto simp: on_list_def)
    with m1 k chunk_begin [OF R m] ListLength_run [of s None "[]"] show ?thesis
      by (auto simp: NextChunkOnList_def Let_def bindL_def liftL_def retL_def ret_def guardM_def
            in_chunks_def)
  next
    case False
    note cs = on_list_cells [OF m1(2)]
    define n where "n = (if ?R = [] then None else Some (fst (hd ?R)))"
    have last: "H (fst (last ?L)) = Some \<lparr>element = snd (last ?L), next_cell = n\<rparr>"
      using cells_at_snoc_last [OF cs(1) False] by (simp add: n_def)
    define s2 where "s2 = ?s1\<lparr>cells := link H ?L None\<rparr>"
    define m2 where "m2 = m1\<lparr>tail := n\<rparr>"
    have cut: "cells_at (link H ?L None) ?b (take k R) None"
    proof (cases "R = []")
      case False
      obtain r where r: "cells_at H ?b (take k R) r"
        using on_list_cells(2) [OF R False] False
          cells_at_append [of H "Some (fst (hd R))" "take k R" "drop k R" None] by auto
      have "distinct (map fst (take k R))"
        using on_list_cells(3) [OF R] by (simp add: take_map [symmetric])
      from cells_at_link [OF r this, of None] show ?thesis
        using False k by (auto simp: link_def)
    qed simp
    have "on_list H s2 m2 ?L ?R"
    proof (cases "?R = []")
      case True
      then have "link H ?L None = H" using link_same [OF cs(1)] by simp
      with True m1(2,4) show ?thesis by (auto simp: s2_def m2_def n_def on_list_def)
    next
      case ne: False
      with False m1(2) show ?thesis by (auto simp: s2_def m2_def n_def on_list_def)
    qed
    moreover have "in_chunks m2 ?L ?R" by (simp add: in_chunks_def m2_def n_def)
    moreover have "NextChunkOnList m k s = Some (Inr ((m2, ?b), s2))"
      using m1 k H last False chunk_begin [OF R m] ListLength_run [of s2 ?b "take k R"] cut
      by (auto simp: NextChunkOnList_def Let_def bindL_def liftL_def retL_def ret_def guardM_def
            bindM_def get_cell_def upd_cell_def on_list_def s2_def m2_def link_def)
    ultimately show ?thesis using m1(3) cut by (auto simp: s2_def m2_def)
  qed
qed

text \<open>
  The loop of a client: take chunks until there is none, reading the elements of each.
\<close>

partial_function (option) each_chunk ::
    "nat \<Rightarrow> ListMarker \<Rightarrow> 'a list list \<Rightarrow> 'a Heap \<Rightarrow> (cc_fail + ('a list list \<times> 'a Heap)) option" where
  "each_chunk k m acc s = (case NextChunkOnList m k s of
      None \<Rightarrow> None
    | Some (Inl e) \<Rightarrow> Some (Inl e)
    | Some (Inr ((m', c), s')) \<Rightarrow>
        (case c of
           None \<Rightarrow> Some (Inr (acc, s'))
         | Some _ \<Rightarrow>
             (case while_next (\<lambda>xs x. xs @ [x]) (IterateList c) [] s' of
                None \<Rightarrow> None
              | Some (Inl e) \<Rightarrow> Some (Inl e)
              | Some (Inr (xs, s'')) \<Rightarrow> each_chunk k m' (acc @ [xs]) s'')))"

lemma foldl_snoc: "foldl (\<lambda>xs x. xs @ [x]) ys xs = ys @ xs"
  by (induction xs arbitrary: ys) auto

lemma each_chunk_run:
  assumes "on_list H s m L R" "in_chunks m L R" "0 < k"
  shows "\<exists>css. each_chunk k m acc s = Some (Inr (acc @ css, s\<lparr>cells := H\<rparr>)) \<and>
    concat css = map snd R \<and> (\<forall>c \<in> set css. c \<noteq> [] \<and> length c \<le> k) \<and>
    (\<forall>c \<in> set (butlast css). length c = k)"
  using assms(1,2)
proof (induction "length R" arbitrary: s m L R acc rule: less_induct)
  case less
  obtain m' s' where n: "NextChunkOnList m k s =
        Some (Inr ((m', if R = [] then None else Some (fst (hd R))), s'))"
    "on_list H s' m' (L @ take k R) (drop k R)" "in_chunks m' (L @ take k R) (drop k R)"
    "cells_at (cells s') (if R = [] then None else Some (fst (hd R))) (take k R) None"
    "s' = s\<lparr>cells := cells s'\<rparr>"
    using NextChunkOnList_run [OF less.prems \<open>0 < k\<close>] by blast
  show ?case
  proof (cases "R = []")
    case True
    with n on_list_end [of H s' m'] show ?thesis
      by (auto simp: each_chunk.simps [of k m] intro!: exI [of _ "[]"])
  next
    case False
    let ?c = "map snd (take k R)"
    have c: "while_next (\<lambda>xs x. xs @ [x]) (IterateList (Some (fst (hd R)))) [] s' = Some (Inr (?c, s'))"
      using while_next_run [OF on_list_start, of s' _ _ "\<lambda>xs x. xs @ [x]" "[]"] n(4) False
      by (simp add: foldl_snoc)
    obtain css where css: "each_chunk k m' (acc @ [?c]) s' = Some (Inr ((acc @ [?c]) @ css, s'\<lparr>cells := H\<rparr>))"
      "concat css = map snd (drop k R)" "\<forall>c \<in> set css. c \<noteq> [] \<and> length c \<le> k"
      "\<forall>c \<in> set (butlast css). length c = k"
      using less.hyps [OF _ n(2,3), of "acc @ [?c]"] False \<open>0 < k\<close> by auto
    have "length ?c = k" if "css \<noteq> []"
      using that css(2,3) \<open>0 < k\<close> by (cases css) (auto simp: min_def dest: arg_cong [of _ _ length])
    moreover have "s'\<lparr>cells := H\<rparr> = s\<lparr>cells := H\<rparr>"
      by (subst n(5)) simp
    moreover have "concat (?c # css) = map snd R"
      using css(2) by (simp flip: map_append)
    ultimately show ?thesis
      using n(1) c css False \<open>0 < k\<close>
      by (auto simp: each_chunk.simps [of k m] intro!: exI [of _ "?c # css"])
  qed
qed

subsection \<open>Searching, removing, deleting\<close>

definition ptr_of :: "(nat \<times> 'a) list \<Rightarrow> ptr" where
  "ptr_of L = (if L = [] then None else Some (fst (hd L)))"

lemma cells_at_ptr_of: "cells_at h p L None \<Longrightarrow> p = ptr_of L"
  by (cases L) (auto simp: ptr_of_def)

lemma FindItem_run:
  assumes "cells_at (cells s) p L None"
  shows "FindItem p x s = Some (Inr (ptr_of (dropWhile (\<lambda>c. snd c \<noteq> x) L), s))"
proof -
  have "find_loop h x p = Some (Inr (ptr_of (dropWhile (\<lambda>c. snd c \<noteq> x) L)))"
    if "cells_at h p L None" for h :: "nat \<Rightarrow> 'a liststruct option" and p L
    using that
  proof (induction L arbitrary: p)
    case Nil
    then show ?case by (simp add: find_loop.simps ptr_of_def)
  next
    case (Cons c L)
    then show ?case
      by (subst find_loop.simps) (auto simp: ptr_of_def simp del: dropWhile_eq_Nil_conv)
  qed
  with assms show ?thesis by (simp add: FindItem_def walkL_def)
qed

definition remove_first :: "'a \<Rightarrow> (nat \<times> 'a) list \<Rightarrow> (nat \<times> 'a) list" where
  "remove_first x L =
     takeWhile (\<lambda>c. snd c \<noteq> x) L @ tl (dropWhile (\<lambda>c. snd c \<noteq> x) L)"

lemma remove_first_simps [simp]:
  "remove_first x [] = []"
  "remove_first x (c # L) = (if snd c = x then L else c # remove_first x L)"
  by (simp_all add: remove_first_def)

lemma remove_first_elements: "map snd (remove_first x L) = remove1 x (map snd L)"
  by (induction L) auto

lemma remove_loop_run:
  assumes "cells_at (cells s) list (L @ R) None"
  shows "\<exists>r h. remove_loop list x (if L = [] then None else Some (fst (last L))) (ptr_of R) s =
      Some (Inr (r, s\<lparr>cells := h\<rparr>)) \<and>
    cells_at h r (L @ remove_first x R) None \<and> (\<forall>a. a \<notin> addrs L \<union> addrs R \<longrightarrow> h a = cells s a)"
  using assms
proof (induction R arbitrary: L)
  case Nil
  then show ?case by (auto simp: remove_loop.simps ptr_of_def intro!: exI [of _ list] exI [of _ "cells s"])
next
  case (Cons c R)
  obtain n where L: "cells_at (cells s) list L (Some (fst c))"
    and c: "cells s (fst c) = Some \<lparr>element = snd c, next_cell = n\<rparr>"
    and R: "cells_at (cells s) n R None"
    using Cons.prems by (auto simp: cells_at_append)
  have d: "distinct (map fst (L @ c # R))" using cells_at_distinct [OF Cons.prems] .
  show ?case
  proof (cases "snd c = x")
    case True
    show ?thesis
    proof (cases "L = []")
      case True
      with \<open>snd c = x\<close> c R L show ?thesis
        by (subst remove_loop.simps)
           (auto simp: ptr_of_def unlink_def ret_def intro!: exI [of _ n] exI [of _ "cells s"])
    next
      case False
      have last: "cells s (fst (last L)) = Some \<lparr>element = snd (last L), next_cell = Some (fst c)\<rparr>"
        using cells_at_snoc_last [OF L False] .
      have "cells_at (link (cells s) L n) list L n"
        using cells_at_link [OF L, of n] d False by simp
      moreover have "fst (last L) \<notin> addrs R"
        using d last_in_set [OF False] by auto
      then have "cells_at (link (cells s) L n) n R None"
        using R by (simp add: link_def)
      ultimately have "cells_at (link (cells s) L n) list (L @ R) None"
        by (auto simp: cells_at_append)
      moreover have "\<forall>a. a \<notin> addrs L \<longrightarrow> link (cells s) L n a = cells s a"
        using last_in_set [OF False] by (auto simp: link_def)
      ultimately show ?thesis
        using False \<open>snd c = x\<close> c last
        by (subst remove_loop.simps)
           (auto simp: ptr_of_def unlink_def ret_def bindM_def upd_cell_def link_def
              intro!: exI [of _ list] exI [of _ "link (cells s) L n"])
    qed
  next
    case False
    obtain r h where "remove_loop list x (Some (fst c)) (ptr_of R) s = Some (Inr (r, s\<lparr>cells := h\<rparr>))"
      "cells_at h r ((L @ [c]) @ remove_first x R) None"
      "\<forall>a. a \<notin> addrs (L @ [c]) \<union> addrs R \<longrightarrow> h a = cells s a"
      using Cons.IH [of "L @ [c]"] Cons.prems by auto
    with False c cells_at_ptr_of [OF R] show ?thesis
      by (subst remove_loop.simps) (auto simp: ptr_of_def [of "c # R"] intro!: exI [of _ r] exI [of _ h])
  qed
qed

lemma RemoveItem_run:
  assumes "cells_at (cells s) p L None"
  shows "\<exists>r h. RemoveItem p x s = Some (Inr (r, s\<lparr>cells := h\<rparr>)) \<and>
    cells_at h r (remove_first x L) None \<and> (\<forall>a. a \<notin> addrs L \<longrightarrow> h a = cells s a)"
  using remove_loop_run [of s p "[]" L x] assms cells_at_ptr_of [OF assms]
  by (auto simp: RemoveItem_def)

lemma DeleteIf_run:
  assumes "cells_at (cells s) p L None"
  shows "\<exists>r h. DeleteIf f p s = Some (Inr (r, s\<lparr>cells := h\<rparr>)) \<and>
    cells_at h r (filter (\<lambda>c. \<not> f (snd c)) L) None \<and> (\<forall>a. a \<notin> addrs L \<longrightarrow> h a = cells s a)"
  using assms
proof (induction L arbitrary: p)
  case Nil
  then show ?case by (auto simp: DeleteIf.simps intro!: exI [of _ None] exI [of _ "cells s"])
next
  case (Cons c L)
  then obtain n where c: "p = Some (fst c)" "cells s (fst c) = Some \<lparr>element = snd c, next_cell = n\<rparr>"
    and L: "cells_at (cells s) n L None"
    by auto
  obtain r h where IH: "DeleteIf f n s = Some (Inr (r, s\<lparr>cells := h\<rparr>))"
    "cells_at h r (filter (\<lambda>c. \<not> f (snd c)) L) None" "\<forall>a. a \<notin> addrs L \<longrightarrow> h a = cells s a"
    using Cons.IH [OF L] by auto
  have notin: "fst c \<notin> addrs L" using cells_at_distinct [OF Cons.prems] by simp
  then have "h (fst c) = Some \<lparr>element = snd c, next_cell = n\<rparr>" using IH(3) c(2) by simp
  moreover have "fst c \<notin> addrs (filter (\<lambda>c. \<not> f (snd c)) L)" using notin by auto
  ultimately show ?case
  proof (cases "f (snd c)")
    case True
    with c IH show ?thesis
      by (subst DeleteIf.simps) (auto intro!: exI [of _ r] exI [of _ h])
  next
    case False
    let ?h = "h(fst c \<mapsto> \<lparr>element = snd c, next_cell = r\<rparr>)"
    have "DeleteIf f p s = Some (Inr (Some (fst c), s\<lparr>cells := ?h\<rparr>))"
      using False c IH(1) \<open>h (fst c) = _\<close>
      by (subst DeleteIf.simps) (simp add: bindM_def upd_cell_def ret_def)
    moreover have "cells_at ?h (Some (fst c)) (filter (\<lambda>c. \<not> f (snd c)) (c # L)) None"
      using False IH(2) cells_at_upd [OF \<open>fst c \<notin> addrs (filter _ L)\<close>] by auto
    ultimately show ?thesis using IH(3) by auto
  qed
qed

subsection \<open>Copying\<close>

text \<open>No cell lies at an address that was not handed out.\<close>

definition heap_ok :: "'a Heap \<Rightarrow> bool" where
  "heap_ok s \<longleftrightarrow> (\<forall>a. limit s \<le> a \<longrightarrow> cells s a = None)"

lemma cell_element: "c\<lparr>element := e\<rparr> = \<lparr>element = e, next_cell = next_cell c\<rparr>"
  for c :: "'a liststruct"
  by (cases c) simp

lemma heap_update_order: "s\<lparr>limit := a, cells := b\<rparr> = s\<lparr>cells := b, limit := a\<rparr>"
  for s :: "'a Heap"
  by simp

lemma copy_loop_run:
  assumes "cells_at (cells s) cur R None" "addrs R \<subseteq> {..<l}" "l \<le> limit s" "heap_ok s"
    and "if N = [] then plast = None
         else plast = Some (fst (last N)) \<and> (\<exists>g. cells_at (cells s) new N g)"
    and "distinct (map fst N)" "addrs N \<subseteq> {l..<limit s}"
  shows "\<exists>q s' N'. copy_loop cur plast new s = Some (Inr (q, s')) \<and> cells_at (cells s') q N' None \<and>
    map snd N' = map snd N @ map snd R \<and> addrs N' \<subseteq> {l..<limit s'} \<and>
    (\<forall>a < l. cells s' a = cells s a) \<and> heap_ok s' \<and> limit s \<le> limit s'"
  using assms
proof (induction R arbitrary: s cur N plast new)
  case Nil
  show ?case
  proof (cases "N = []")
    case True
    with Nil show ?thesis
      by (auto simp: copy_loop.simps store_plast_def ret_def intro!: exI [of _ "[]"])
  next
    case False
    then obtain g where g: "cells_at (cells s) new N g" and pl: "plast = Some (fst (last N))"
      using Nil.prems(5) by auto
    have last: "fst (last N) \<in> addrs N" using False by simp
    have "cells_at (link (cells s) N None) new N None"
      using cells_at_link [OF g Nil.prems(6), of None] False by simp
    moreover have "copy_loop cur plast new s = Some (Inr (new, s\<lparr>cells := link (cells s) N None\<rparr>))"
      using Nil.prems(1) pl False cells_at_snoc_last [OF g False]
      by (auto simp: copy_loop.simps store_plast_def bindM_def upd_cell_def ret_def link_def)
    moreover have "\<forall>a < l. link (cells s) N None a = cells s a" "heap_ok (s\<lparr>cells := link (cells s) N None\<rparr>)"
      using last Nil.prems(4,7) by (auto simp: link_def heap_ok_def)
    ultimately show ?thesis using Nil.prems(7) by (intro exI conjI) auto
  qed
next
  case (Cons c R)
  let ?t = "limit s"
  obtain n where cur: "cur = Some (fst c)" and c: "cells s (fst c) = Some \<lparr>element = snd c, next_cell = n\<rparr>"
    and R: "cells_at (cells s) n R None"
    using Cons.prems(1) by auto
  define h1 where "h1 = (cells s)(?t \<mapsto> \<lparr>element = snd c, next_cell = next_cell (garbage s)\<rparr>)"
  define h2 where "h2 = link h1 N (Some ?t)"
  define s2 where "s2 = s\<lparr>cells := h2, limit := ?t + 1\<rparr>"
  define new2 where "new2 = (if N = [] then Some ?t else new)"
  have t: "?t \<notin> addrs N" "?t \<notin> addrs R" "?t \<noteq> fst c" "fst c < l" "addrs R \<subseteq> {..<l}"
    using Cons.prems(2,3,7) by auto
  have lastN: "N \<noteq> [] \<Longrightarrow> fst (last N) \<in> addrs N" by simp
  have lastN': "l \<le> fst (last N) \<and> fst (last N) < ?t" if "N \<noteq> []"
    using lastN [OF that] Cons.prems(7) by (meson atLeastLessThan_iff subsetD)
  have low: "\<forall>a < l. h2 a = cells s a"
    using lastN' Cons.prems(3) by (auto simp: h2_def link_def h1_def)
  have "copy_cell (fst c) plast new s = Inr ((n, Some ?t, new2), s2)"
  proof (cases "N = []")
    case True
    with Cons.prems(5) c t show ?thesis
      by (simp add: copy_cell_def bindM_def HeapNew_def get_cell_def upd_cell_def store_plast_def
            ret_def s2_def h2_def h1_def new2_def link_def cell_element heap_update_order)
  next
    case False
    then obtain g where "cells_at (cells s) new N g" and pl: "plast = Some (fst (last N))"
      using Cons.prems(5) by auto
    then have "cells s (fst (last N)) = Some \<lparr>element = snd (last N), next_cell = g\<rparr>"
      using cells_at_snoc_last False by blast
    with False pl c t lastN' [OF False] show ?thesis
      by (auto simp: copy_cell_def bindM_def HeapNew_def get_cell_def upd_cell_def store_plast_def
            ret_def s2_def h2_def h1_def new2_def link_def cell_element heap_update_order)
  qed
  moreover have "cells_at h2 n R None"
    using R low t(5) by (subst cells_at_cong [of R h2 "cells s"]) auto
  moreover have "cells_at h2 new2 (N @ [(?t, snd c)]) (next_cell (garbage s))"
  proof -
    have "h2 ?t = Some \<lparr>element = snd c, next_cell = next_cell (garbage s)\<rparr>"
      using t lastN by (auto simp: h2_def h1_def link_def)
    moreover have "cells_at h2 new2 N (Some ?t)"
    proof (cases "N = []")
      case False
      then obtain g where "cells_at (cells s) new N g" using Cons.prems(5) by auto
      then have "cells_at h1 new N g" using t by (simp add: h1_def)
      from cells_at_link [OF this Cons.prems(6), of "Some ?t"] False show ?thesis
        by (simp add: h2_def new2_def)
    qed (simp add: new2_def)
    ultimately show ?thesis by (auto simp: cells_at_append)
  qed
  then have "\<exists>g. cells_at h2 new2 (N @ [(?t, snd c)]) g" by blast
  moreover have "heap_ok s2" using Cons.prems(4) lastN' by (auto simp: heap_ok_def s2_def h2_def h1_def link_def)
  moreover have "l \<le> limit s2" "distinct (map fst (N @ [(?t, snd c)]))" "addrs (N @ [(?t, snd c)]) \<subseteq> {l..<limit s2}"
    using Cons.prems(3,6,7) t by (auto simp: s2_def)
  ultimately obtain q s' N' where IH: "copy_loop n (Some ?t) new2 s2 = Some (Inr (q, s'))"
    "cells_at (cells s') q N' None" "map snd N' = map snd (N @ [(?t, snd c)]) @ map snd R"
    "addrs N' \<subseteq> {l..<limit s'}" "\<forall>a < l. cells s' a = cells s2 a" "heap_ok s'" "limit s2 \<le> limit s'"
    using Cons.IH [of s2 n "N @ [(?t, snd c)]" "Some ?t" new2] t(5) by (auto simp: s2_def)
  have "copy_loop cur plast new s = Some (Inr (q, s'))"
    using \<open>copy_cell _ _ _ _ = _\<close> IH(1) cur by (subst copy_loop.simps) simp
  with IH low show ?case by (intro exI [of _ q] exI [of _ s'] exI [of _ N']) (auto simp: s2_def)
qed

lemma ListCopy_run:
  assumes "cells_at (cells s) p L None" "heap_ok s"
  shows "\<exists>q s' N. ListCopy p s = Some (Inr (q, s')) \<and> cells_at (cells s') q N None \<and>
    map snd N = map snd L \<and> addrs N \<inter> dom (cells s) = {} \<and>
    (\<forall>a. cells s a \<noteq> None \<longrightarrow> cells s' a = cells s a) \<and> heap_ok s'"
proof -
  have dom: "dom (cells s) \<subseteq> {..<limit s}" using assms(2) by (force simp: heap_ok_def not_le [symmetric])
  then have "addrs L \<subseteq> {..<limit s}" using cells_at_dom [OF assms(1)] by blast
  from copy_loop_run [OF assms(1) this _ assms(2), of "[]" None None]
  obtain q s' N where "ListCopy p s = Some (Inr (q, s'))" "cells_at (cells s') q N None"
    "map snd N = map snd L" "addrs N \<subseteq> {limit s..<limit s'}" "\<forall>a < limit s. cells s' a = cells s a" "heap_ok s'"
    by (auto simp: ListCopy_def)
  moreover have "addrs N \<inter> dom (cells s) = {}" using \<open>addrs N \<subseteq> _\<close> dom by force
  moreover have "\<forall>a. cells s a \<noteq> None \<longrightarrow> cells s' a = cells s a" using \<open>\<forall>a < limit s. _ a\<close> dom by blast
  ultimately show ?thesis by blast
qed

subsection \<open>Inserting at a marker\<close>

lemma wpl_chain: "bindL m f s = (case m s of None \<Rightarrow> None | Some (Inl e) \<Rightarrow> Some (Inl e) | Some (Inr (a, s')) \<Rightarrow> f a s')"
  by (simp add: bindL_def)

text \<open>
  Storing the result of \<open>JoinLists\<close> into the \<open>next\<close> field of the last cell of \<open>A\<close> puts the
  sublist between \<open>A\<close> and \<open>B\<close>.
\<close>

lemma join_between:
  assumes A: "cells_at h p A (ptr_of B)" and B: "cells_at h (ptr_of B) B None" and M: "cells_at h q M None"
    and d: "distinct (map fst (A @ M @ B))" and ne: "A \<noteq> []"
  shows "cells_at (link (link h M (ptr_of B)) A (if M = [] then ptr_of B else q)) p (A @ M @ B) None"
proof -
  let ?n = "if M = [] then ptr_of B else q"
  have MB: "cells_at (link h M (ptr_of B)) ?n (M @ B) None"
    using cells_at_join [OF M B] d by auto
  have "cells_at (link (link h M (ptr_of B)) A ?n) ?n (M @ B) None"
    using MB d by (subst cells_at_link_other) auto
  moreover have "cells_at (link h M (ptr_of B)) p A (ptr_of B)"
    using A d by (subst cells_at_link_other) auto
  then have "cells_at (link (link h M (ptr_of B)) A ?n) p A ?n"
    using cells_at_link [of _ p A _ ?n] d ne by simp
  ultimately show ?thesis by (subst cells_at_append) blast
qed

lemma on_list_ptr:
  assumes "on_list (cells s) s m L R" "tail m = None"
  shows "L = [] \<Longrightarrow> first m = ptr_of R" "cells_at (cells s) (first m) L (ptr_of R)"
    "cells_at (cells s) (ptr_of R) R None"
proof -
  have all: "cells_at (cells s) (first m) (L @ R) None" using assms(1) by (simp add: on_list_def)
  then obtain r where r: "cells_at (cells s) (first m) L r" "cells_at (cells s) r R None"
    by (auto simp: cells_at_append)
  with cells_at_ptr_of [OF r(2)] show "cells_at (cells s) (first m) L (ptr_of R)"
    "cells_at (cells s) (ptr_of R) R None" by auto
  then show "L = [] \<Longrightarrow> first m = ptr_of R" by simp
qed

lemma SpliceList_run:
  assumes on: "on_list (cells s) s m L R" "tail m = None"
    and M: "cells_at (cells s) q M None" "addrs M \<inter> addrs (L @ R) = {}"
  shows "\<exists>m' s'. SpliceList m q s = Some (Inr ((m', first m'), s')) \<and>
    on_list (cells s') s' m' L (M @ R) \<and> tail m' = None \<and> (L \<noteq> [] \<longrightarrow> m' = m)"
proof (cases "L = []")
  case True
  let ?f = "if M = [] then first m else q"
  let ?s = "s\<lparr>cells := link (cells s) M (first m)\<rparr>"
  have "SpliceList m q s = Some (Inr ((m\<lparr>first := ?f\<rparr>, ?f), ?s))"
    using True on JoinLists_run [OF M(1), of "first m"]
    by (simp add: on_list_def SpliceList_def wpl_chain retL_def liftL_def ret_def)
  moreover have "cells_at (cells ?s) ?f (M @ R) None"
    using cells_at_join [OF M(1), of "first m" R None] on_list_ptr [OF on] True M(2) by auto
  ultimately show ?thesis using on True by (auto simp: on_list_def)
next
  case False
  let ?n = "if M = [] then ptr_of R else q"
  let ?h1 = "link (cells s) M (ptr_of R)"
  let ?s = "s\<lparr>cells := link ?h1 L ?n\<rparr>"
  have d: "distinct (map fst (L @ M @ R))"
    using on_list_cells(3) [OF on(1)] cells_at_distinct [OF M(1)] M(2) by auto
  have last: "cells s (fst (last L)) = Some \<lparr>element = snd (last L), next_cell = ptr_of R\<rparr>"
    using cells_at_snoc_last [OF on_list_ptr(2) [OF on] False] .
  moreover have "?h1 (fst (last L)) = cells s (fst (last L))"
    using M(2) last_addr [OF False] by (intro link_other) auto
  ultimately have "SpliceList m q s = Some (Inr ((m, first m), ?s))"
    using on(1) False JoinLists_run [OF M(1), of "ptr_of R"]
    by (simp add: on_list_def SpliceList_def wpl_chain retL_def liftL_def ret_def get_cell_def
          upd_cell_def link_def [of _ L])
  moreover have "cells_at (cells ?s) (first m) (L @ M @ R) None"
    using join_between [OF on_list_ptr(2,3) [OF on] M(1) d False] by simp
  ultimately show ?thesis using on False by (auto simp: on_list_def)
qed

lemma prev_loop_run:
  assumes "cells_at h p (A @ [b, c] @ B) None"
  shows "prev_loop h (Some (fst c)) p = Some (Inr (Some (fst b)))"
  using assms
proof (induction A arbitrary: p)
  case Nil
  then show ?case by (subst prev_loop.simps) auto
next
  case (Cons a A)
  then have "fst c \<noteq> fst (hd (A @ [b]))"
    using cells_at_distinct [OF Cons.prems] by (cases A) auto
  moreover obtain n where n: "p = Some (fst a)" "h (fst a) = Some \<lparr>element = snd a, next_cell = n\<rparr>"
    "cells_at h n (A @ [b, c] @ B) None"
    using Cons.prems by auto
  moreover have "n = Some (fst (hd (A @ [b])))"
    using cells_at_hd [OF n(3)] by (cases A) auto
  ultimately show ?case using Cons.IH [OF n(3)] by (subst prev_loop.simps) auto
qed

lemma prev_loop_none:
  assumes "cells_at h p (b # B) None" "fst b = a"
  shows "prev_loop h (Some a) p = Some (Inr None)"
proof -
  have "prev_loop h (Some a) p = Some (Inr None)" if "cells_at h p B None" "a \<notin> addrs B" for p B
    using that
  proof (induction B arbitrary: p)
    case Nil
    then show ?case by (simp add: prev_loop.simps)
  next
    case (Cons c B)
    then obtain n where n: "p = Some (fst c)" "h (fst c) = Some \<lparr>element = snd c, next_cell = n\<rparr>"
      "cells_at h n B None" by auto
    moreover have "n \<noteq> Some a" using cells_at_hd [OF n(3)] Cons.prems(2) n(3) by (cases B) auto
    ultimately show ?case using Cons by (subst prev_loop.simps) auto
  qed
  moreover obtain n where n: "p = Some a" "h a = Some \<lparr>element = snd b, next_cell = n\<rparr>" "cells_at h n B None"
    using assms by auto
  moreover have "a \<notin> addrs B" using cells_at_distinct [OF assms(1)] assms(2) by auto
  moreover have "n \<noteq> Some a" using cells_at_hd [OF n(3)] \<open>a \<notin> addrs B\<close> n(3) by (cases B) auto
  ultimately show ?thesis by (subst prev_loop.simps) auto
qed

text \<open>
  \<open>InsertList\<close> puts the sublist in front of the element at the marker, which then has passed the
  sublist too; at the beginning of an iteration the marker moves to the end of the sublist.
\<close>

lemma InsertList_run:
  assumes on: "on_list (cells s) s m L R" "tail m = None"
    and M: "cells_at (cells s) q M None" "addrs M \<inter> addrs (L @ R) = {}"
  shows "\<exists>m' s'. InsertList m q s = Some (Inr ((m', first m'), s')) \<and>
    on_list (cells s') s' m' (butlast L @ M @ (if L = [] then [] else [last L])) R \<and> tail m' = None"
proof (cases L rule: rev_cases)
  case Nil
  let ?f = "if M = [] then first m else q"
  let ?s = "s\<lparr>cells := link (cells s) M (first m)\<rparr>"
  have "InsertList m q s = Some (Inr ((m\<lparr>current := if M = [] then None else Some (fst (last M)), first := ?f\<rparr>, ?f), ?s))"
    using Nil on JoinLists_run [OF M(1), of "first m"] Last_run [OF M(1)]
    by (simp add: on_list_def InsertList_def wpl_chain retL_def liftL_def ret_def)
  moreover have "cells_at (cells ?s) ?f (M @ R) None"
    using cells_at_join [OF M(1), of "first m" R None] on_list_ptr [OF on] Nil M(2) by auto
  ultimately show ?thesis using on Nil by (auto simp: on_list_def)
next
  case (snoc K c)
  have cur: "current m = Some (fst c)" using on snoc by (simp add: on_list_def)
  have all: "cells_at (cells s) (first m) (K @ c # R) None" using on snoc by (simp add: on_list_def)
  have d: "distinct (map fst (K @ M @ c # R))"
    using on_list_cells(3) [OF on(1)] cells_at_distinct [OF M(1)] M(2) snoc by auto
  obtain r where K: "cells_at (cells s) (first m) K r" and r: "cells_at (cells s) r (c # R) None"
    using all by (auto simp: cells_at_append)
  have r': "r = ptr_of (c # R)" using cells_at_ptr_of [OF r] .
  show ?thesis
  proof (cases K rule: rev_cases)
    case Nil
    let ?f = "if M = [] then first m else q"
    let ?s = "s\<lparr>cells := link (cells s) M (first m)\<rparr>"
    have "prev_loop (cells s) (Some (fst c)) (first m) = Some (Inr None)"
      using prev_loop_none [of "cells s" "first m" c R "fst c"] all Nil by simp
    then have "InsertList m q s = Some (Inr ((m\<lparr>first := ?f\<rparr>, ?f), ?s))"
      using cur JoinLists_run [OF M(1), of "first m"]
      by (simp add: InsertList_def wpl_chain walkL_def retL_def liftL_def ret_def)
    moreover have "cells_at (cells ?s) ?f (M @ c # R) None"
      using cells_at_join [OF M(1), of "first m" "c # R" None] all d Nil by auto
    ultimately show ?thesis using on cur snoc Nil by (auto simp: on_list_def)
  next
    case (snoc J b)
    let ?n = "if M = [] then ptr_of (c # R) else q"
    let ?h1 = "link (cells s) M (ptr_of (c # R))"
    let ?s = "s\<lparr>cells := link ?h1 K ?n\<rparr>"
    have ne: "K \<noteq> []" using snoc by simp
    have "prev_loop (cells s) (Some (fst c)) (first m) = Some (Inr (Some (fst b)))"
      using prev_loop_run [of "cells s" "first m" J b c R] all snoc by simp
    moreover have last: "cells s (fst (last K)) = Some \<lparr>element = snd (last K), next_cell = ptr_of (c # R)\<rparr>"
      using cells_at_snoc_last [OF K ne] r' by simp
    moreover have "?h1 (fst (last K)) = cells s (fst (last K))"
      using d last_addr [OF ne] by (intro link_other) auto
    ultimately have "InsertList m q s = Some (Inr ((m, first m), ?s))"
      using cur snoc JoinLists_run [OF M(1), of "ptr_of (c # R)"]
      by (simp add: InsertList_def wpl_chain walkL_def retL_def liftL_def ret_def get_cell_def
            upd_cell_def link_def [of _ "J @ [b]"])
    moreover have "cells_at (cells ?s) (first m) (K @ M @ c # R) None"
      using join_between [of "cells s" "first m" K "c # R" q M] K r r' M(1) d ne by simp
    ultimately show ?thesis using on cur \<open>L = K @ [c]\<close> by (auto simp: on_list_def)
  qed
qed

end
