(* ===== verification/Cc_List_Properties.thy ===== *)
theory Cc_List_Properties
  imports Cc_List_Laws
begin

section \<open>What the linked lists promise their clients\<close>

text \<open>
  The properties of list.c, over the laws of its operations, and the two ways a client can misuse
  it: joining a list with itself makes a cycle on which every walk runs forever, and mixing the two
  iterators loses elements.
\<close>

subsection \<open>A heap for the witnesses\<close>

text \<open>The list 10, 20, 30 in the cells 0, 1, 2, and the list 40 in the cell 3.\<close>

definition ex_heap :: "nat Heap" where
  "ex_heap = \<lparr>
     cells = [0 \<mapsto> \<lparr>element = 10, next_cell = Some 1\<rparr>, 1 \<mapsto> \<lparr>element = 20, next_cell = Some 2\<rparr>,
              2 \<mapsto> \<lparr>element = 30, next_cell = None\<rparr>, 3 \<mapsto> \<lparr>element = 40, next_cell = None\<rparr>],
     limit = 4, garbage = \<lparr>element = 7, next_cell = Some 99\<rparr>\<rparr>"

definition ex_list :: "(nat \<times> nat) list" where
  "ex_list = [(0, 10), (1, 20), (2, 30)]"

lemma ex_cells: "cells_at (cells ex_heap) (Some 0) ex_list None"
  and ex_sub: "cells_at (cells ex_heap) (Some 3) [(3, 40)] None"
  and ex_ok: "heap_ok ex_heap" and ex_ne: "ex_list \<noteq> []"
  by (simp_all add: ex_heap_def ex_list_def heap_ok_def)

definition ex_marker :: ListMarker where
  "ex_marker = \<lparr>first = Some 0, current = Some 1, tail = None\<rparr>"

lemma ex_on: "on_list (cells ex_heap) ex_heap ex_marker [(0, 10), (1, 20)] [(2, 30)]"
  by (simp add: on_list_def ex_marker_def ex_heap_def)

subsection \<open>Cycles\<close>

definition closed_cells :: "(nat \<Rightarrow> 'a liststruct option) \<Rightarrow> nat set \<Rightarrow> bool" where
  "closed_cells h C \<longleftrightarrow> (\<forall>a \<in> C. \<exists>c n. h a = Some c \<and> next_cell c = Some n \<and> n \<in> C)"

definition moves_in :: "'a Heap \<Rightarrow> ListMarker \<Rightarrow> nat set \<Rightarrow> bool" where
  "moves_in s m C \<longleftrightarrow> closed_cells (cells s) C \<and> tail m = None \<and>
     (current m = None \<and> first m \<in> Some ` C \<or> current m \<in> Some ` C)"

lemma moves_in_next:
  assumes "moves_in s m C"
  shows "\<exists>m' x. next_on m s = Inr ((m', Some x), s) \<and> moves_in s m' C"
proof (cases "current m")
  case None
  then obtain a where "first m = Some a" "a \<in> C" using assms by (auto simp: moves_in_def)
  with None assms show ?thesis
    by (fastforce simp: moves_in_def closed_cells_def next_on_def bindM_def get_cell_def ret_def)
next
  case (Some a)
  then have "a \<in> C" and cl: "closed_cells (cells s) C" using assms by (auto simp: moves_in_def)
  then obtain c n where c: "cells s a = Some c" "next_cell c = Some n" "n \<in> C"
    unfolding closed_cells_def by blast
  then obtain d where "cells s n = Some d"
    using cl unfolding closed_cells_def by blast
  with Some assms c show ?thesis
    by (auto simp: moves_in_def next_on_def bindM_def get_cell_def ret_def)
qed

lemma while_next_closed: "while_next f m b s = Some y \<Longrightarrow> \<not> moves_in s m C"
proof (rule while_next.raw_induct [where P = "\<lambda>f m b s y. \<not> moves_in s m C"])
  fix w f m b s y
  assume IH: "\<And>f m b s y. w f m b s = Some y \<Longrightarrow> \<not> moves_in s m C"
    and run: "(case next_on m s of
        Inl e \<Rightarrow> Some (Inl e)
      | Inr ((m', x), s') \<Rightarrow> (case x of None \<Rightarrow> Some (Inr (b, s')) | Some i \<Rightarrow> w f m' (f b i) s')) = Some y"
  show "\<not> moves_in s m C"
  proof
    assume "moves_in s m C"
    from moves_in_next [OF this] IH run show False by auto
  qed
qed

lemma last_loop_closed: "last_loop h a = Some y \<Longrightarrow> \<not> (closed_cells h C \<and> a \<in> C)"
proof (rule last_loop.raw_induct [where P = "\<lambda>h a y. \<not> (closed_cells h C \<and> a \<in> C)"])
  fix w h a y
  assume IH: "\<And>h a y. w h a = Some y \<Longrightarrow> \<not> (closed_cells h C \<and> a \<in> C)"
    and run: "(case h a of None \<Rightarrow> Some (Inl BadPointer)
      | Some c \<Rightarrow> (case next_cell c of None \<Rightarrow> Some (Inr a) | Some q \<Rightarrow> w h q)) = Some y"
  show "\<not> (closed_cells h C \<and> a \<in> C)"
  proof
    assume c: "closed_cells h C \<and> a \<in> C"
    then obtain c n where "h a = Some c" "next_cell c = Some n" "n \<in> C" by (auto simp: closed_cells_def)
    with IH [of h n y] run c show False by auto
  qed
qed

lemma link_closed:
  assumes "cells_at h p L None" "L \<noteq> []"
  shows "closed_cells (link h L p) (addrs L)"
proof -
  have L: "cells_at (link h L p) p L p"
    using cells_at_link [OF assms(1) cells_at_distinct [OF assms(1)], of p] assms(2) by simp
  have "\<exists>c n. h a = Some c \<and> next_cell c = Some n \<and> n \<in> addrs M \<union> {fst e}"
    if "cells_at h q M (Some (fst e))" "a \<in> addrs M"
    for h :: "nat \<Rightarrow> 'a liststruct option" and q M a and e :: "nat \<times> 'a"
    using that
  proof (induction M arbitrary: q)
    case (Cons d M)
    then obtain n where n: "h (fst d) = Some \<lparr>element = snd d, next_cell = n\<rparr>" "cells_at h n M (Some (fst e))"
      by auto
    show ?case
    proof (cases "a = fst d")
      case True
      then show ?thesis using n cells_at_hd [OF n(2)] by (cases M) auto
    next
      case False
      then show ?thesis using Cons.IH [OF n(2)] Cons.prems(2) by auto
    qed
  qed simp
  from this [of "link h L p" p L "hd L"] L cells_at_hd [OF assms] assms(2)
  show ?thesis by (auto simp: closed_cells_def insert_absorb)
qed

subsection \<open>The properties\<close>

lemma foldl_fold: "foldl (\<lambda>b x. f x b) b xs = fold f xs b"
  by (induction xs arbitrary: b) auto

text \<open>
  C34: every walk over an acyclic list returns, leaves the heap alone and visits the elements in order.
\<close>

theorem list_walks_return:
  assumes "cells_at (cells s) p L None"
  shows "ListLength p s = Some (Inr (length L, s)) \<and>
    Mapc p f b s = Some (Inr ((p, fold f (map snd L) b), s)) \<and>
    FindItem p x s = Some (Inr (ptr_of (dropWhile (\<lambda>c. snd c \<noteq> x) L), s)) \<and>
    LastItem p s = Some (if L = [] then Inl AssertFail else Inr (snd (last L), s))"
proof (intro conjI)
  show "ListLength p s = Some (Inr (length L, s))" using ListLength_run [OF assms] .
  show "Mapc p f b s = Some (Inr ((p, fold f (map snd L) b), s))"
    using while_next_run [OF on_list_start [OF assms], of "\<lambda>b x. f x b" b]
    by (simp add: Mapc_def wpl_chain retL_def liftL_def ret_def foldl_fold)
  show "FindItem p x s = Some (Inr (ptr_of (dropWhile (\<lambda>c. snd c \<noteq> x) L), s))"
    using FindItem_run [OF assms] .
  show "LastItem p s = Some (if L = [] then Inl AssertFail else Inr (snd (last L), s))"
    using LastItem_run [OF assms] assms
    by (cases "L = []") (auto simp: LastItem_def wpl_chain liftL_def assert_ptr_def failM_def)
qed

lemma list_walks_return_witness:
  "ListLength (Some 0) ex_heap = Some (Inr (3, ex_heap)) \<and>
   Mapc (Some 0) (+) 5 ex_heap = Some (Inr ((Some 0, 65), ex_heap)) \<and>
   FindItem (Some 0) 20 ex_heap = Some (Inr (Some 1, ex_heap)) \<and>
   LastItem (Some 0) ex_heap = Some (Inr (30, ex_heap))"
  using list_walks_return [OF ex_cells, of "(+)" 5 20] by (simp add: ex_list_def ptr_of_def)

text \<open>
  Joining a list with itself makes a cycle, on which the walks of the library never return.
\<close>

theorem self_join_never_ends:
  assumes "cells_at (cells s) p L None" "L \<noteq> []"
  shows "\<exists>s'. JoinLists p p s = Some (Inr (p, s')) \<and> ListLength p s' = None \<and> Last p s' = None"
proof -
  let ?s = "s\<lparr>cells := link (cells s) L p\<rparr>"
  note closed = link_closed [OF assms]
  obtain a where p: "p = Some a" "a \<in> addrs L"
    using cells_at_hd [OF assms] hd_in_set [OF assms(2)] by auto
  have "moves_in ?s (IterateList p) (addrs L)"
    using closed p by (auto simp: moves_in_def IterateList_def)
  then have "ListLength p ?s = None"
    using while_next_closed unfolding ListLength_def by (metis not_None_eq)
  moreover have "last_loop (link (cells s) L p) a = None"
    using last_loop_closed closed p(2) by (metis not_None_eq)
  then have "Last p ?s = None"
    using p(1) by (simp add: Last_def wpl_chain walkL_def)
  ultimately show ?thesis using JoinLists_run [OF assms(1), of p] assms(2) by auto
qed

lemma self_join_never_ends_witness:
  "\<exists>s'. JoinLists (Some 0) (Some 0) ex_heap = Some (Inr (Some 0, s')) \<and> ListLength (Some 0) s' = None"
  using self_join_never_ends [OF ex_cells ex_ne] by blast

text \<open>
  C33: joining two disjoint lists returns, and the result holds the elements of both in order; no other
  cell of the heap changes.
\<close>

theorem join_appends:
  assumes "cells_at (cells s) p L None" "cells_at (cells s) q M None" "addrs L \<inter> addrs M = {}"
  shows "\<exists>r h. JoinLists p q s = Some (Inr (r, s\<lparr>cells := h\<rparr>)) \<and> cells_at h r (L @ M) None \<and>
    (\<forall>a. a \<notin> addrs L \<longrightarrow> h a = cells s a)"
proof (intro exI conjI)
  show "JoinLists p q s = Some (Inr (if L = [] then q else p, s\<lparr>cells := link (cells s) L q\<rparr>))"
    using JoinLists_run [OF assms(1)] .
  show "cells_at (link (cells s) L q) (if L = [] then q else p) (L @ M) None"
    using cells_at_join [OF assms] .
  show "\<forall>a. a \<notin> addrs L \<longrightarrow> link (cells s) L q a = cells s a"
    by (auto intro: link_other)
qed

lemma join_appends_witness:
  "\<exists>r h. JoinLists (Some 0) (Some 3) ex_heap = Some (Inr (r, ex_heap\<lparr>cells := h\<rparr>)) \<and>
     cells_at h r [(0, 10), (1, 20), (2, 30), (3, 40)] None"
  using join_appends [OF ex_cells ex_sub] by (auto simp: ex_list_def)

text \<open>
  A copy has the same elements, lies in cells of its own that were never handed out, and leaves
  every existing cell as it was.
\<close>

theorem copy_is_fresh:
  assumes "cells_at (cells s) p L None" "heap_ok s"
  shows "\<exists>q s' N. ListCopy p s = Some (Inr (q, s')) \<and> cells_at (cells s') q N None \<and>
    map snd N = map snd L \<and> addrs N \<inter> dom (cells s) = {} \<and>
    cells_at (cells s') p L None \<and> heap_ok s'"
proof -
  obtain q s' N where "ListCopy p s = Some (Inr (q, s'))" "cells_at (cells s') q N None"
    "map snd N = map snd L" "addrs N \<inter> dom (cells s) = {}"
    "\<forall>a. cells s a \<noteq> None \<longrightarrow> cells s' a = cells s a" "heap_ok s'"
    using ListCopy_run [OF assms] by blast
  moreover have "cells_at (cells s') p L None"
    using assms(1) cells_at_dom [OF assms(1)] \<open>\<forall>a. cells s a \<noteq> None \<longrightarrow> _ a\<close>
    by (subst cells_at_cong [of L _ "cells s"]) auto
  ultimately show ?thesis by blast
qed

lemma copy_is_fresh_witness:
  "\<exists>q s' N. ListCopy (Some 0) ex_heap = Some (Inr (q, s')) \<and> cells_at (cells s') q N None \<and>
    map snd N = [10, 20, 30]"
proof -
  obtain q s' N where "ListCopy (Some 0) ex_heap = Some (Inr (q, s'))" "cells_at (cells s') q N None"
    "map snd N = map snd ex_list"
    using copy_is_fresh [OF ex_cells ex_ok] by blast
  moreover have "map snd ex_list = [10, 20, 30]" by (simp add: ex_list_def)
  ultimately show ?thesis by metis
qed

text \<open>
  C32: \<open>RemoveItem\<close> removes the first occurrence of an element and \<open>DeleteIf\<close> every element with a
  property; both return and change no cell outside the list.
\<close>

theorem remove_and_delete:
  assumes "cells_at (cells s) p L None"
  shows "(\<exists>r h M. RemoveItem p x s = Some (Inr (r, s\<lparr>cells := h\<rparr>)) \<and> cells_at h r M None \<and>
      map snd M = remove1 x (map snd L) \<and> (\<forall>a. a \<notin> addrs L \<longrightarrow> h a = cells s a)) \<and>
    (\<exists>r h M. DeleteIf f p s = Some (Inr (r, s\<lparr>cells := h\<rparr>)) \<and> cells_at h r M None \<and>
      map snd M = filter (\<lambda>y. \<not> f y) (map snd L) \<and> (\<forall>a. a \<notin> addrs L \<longrightarrow> h a = cells s a))"
proof -
  have "map snd (filter (\<lambda>c. \<not> f (snd c)) L) = filter (\<lambda>y. \<not> f y) (map snd L)"
    by (simp add: filter_map comp_def)
  then show ?thesis
    using RemoveItem_run [OF assms, of x] DeleteIf_run [OF assms, of f] remove_first_elements [of x L]
    by blast
qed

lemma remove_and_delete_witness:
  "(\<exists>r h M. RemoveItem (Some 0) 20 ex_heap = Some (Inr (r, ex_heap\<lparr>cells := h\<rparr>)) \<and>
      cells_at h r M None \<and> map snd M = [10, 30]) \<and>
   (\<exists>r h M. DeleteIf (\<lambda>y. y < 25) (Some 0) ex_heap = Some (Inr (r, ex_heap\<lparr>cells := h\<rparr>)) \<and>
      cells_at h r M None \<and> map snd M = [30])"
proof -
  have "remove1 20 (map snd ex_list) = [10, 30]" "filter (\<lambda>y. \<not> y < 25) (map snd ex_list) = [30]"
    by (simp_all add: ex_list_def)
  with remove_and_delete [OF ex_cells, of 20 "\<lambda>y. y < 25"] show ?thesis by metis
qed

text \<open>
  C31: \<open>InsertList\<close> puts a disjoint sublist before the element at the marker and \<open>SpliceList\<close> behind it;
  the iteration can go on, over exactly the elements that then follow.
\<close>

theorem insert_and_splice:
  assumes "on_list (cells s) s m L R" "tail m = None"
    and "cells_at (cells s) q M None" "addrs M \<inter> addrs (L @ R) = {}"
  shows "(\<exists>m' s'. InsertList m q s = Some (Inr ((m', first m'), s')) \<and>
      on_list (cells s') s' m' (butlast L @ M @ (if L = [] then [] else [last L])) R) \<and>
    (\<exists>m' s'. SpliceList m q s = Some (Inr ((m', first m'), s')) \<and>
      on_list (cells s') s' m' L (M @ R))"
  using InsertList_run [OF assms] SpliceList_run [OF assms] by blast

lemma insert_and_splice_witness:
  "(\<exists>m' s'. InsertList ex_marker (Some 3) ex_heap = Some (Inr ((m', first m'), s')) \<and>
      on_list (cells s') s' m' [(0, 10), (3, 40), (1, 20)] [(2, 30)]) \<and>
   (\<exists>m' s'. SpliceList ex_marker (Some 3) ex_heap = Some (Inr ((m', first m'), s')) \<and>
      on_list (cells s') s' m' [(0, 10), (1, 20)] [(3, 40), (2, 30)])"
proof -
  have m: "tail ex_marker = None" by (simp add: ex_marker_def)
  have d: "addrs [(3 :: nat, 40 :: nat)] \<inter> addrs ([(0, 10), (1, 20)] @ [(2, 30)]) = {}" by simp
  show ?thesis using insert_and_splice [OF ex_on m ex_sub d] by simp
qed

text \<open>
  C30: taking chunks of \<open>k\<close> elements until there is none visits every element once, in order, in chunks
  that are full except perhaps the last, and leaves the list as it was although each chunk was cut
  off in place.
\<close>

theorem chunks_restore_the_list:
  assumes "cells_at (cells s) p L None" "0 < k"
  shows "\<exists>css. each_chunk k (IterateList p) [] s = Some (Inr (css, s)) \<and>
    concat css = map snd L \<and> (\<forall>c \<in> set css. c \<noteq> [] \<and> length c \<le> k) \<and>
    (\<forall>c \<in> set (butlast css). length c = k)"
proof -
  have "in_chunks (IterateList p) [] L" by (simp add: in_chunks_def)
  from each_chunk_run [OF on_list_start [OF assms(1)] this assms(2), of "[]"]
  show ?thesis by auto
qed

lemma chunks_restore_the_list_witness:
  "\<exists>css. each_chunk 2 (IterateList (Some 0)) [] ex_heap = Some (Inr (css, ex_heap)) \<and>
    concat css = [10, 20, 30]"
proof -
  have "map snd ex_list = [10, 20, 30]" by (simp add: ex_list_def)
  with chunks_restore_the_list [OF ex_cells, of 2] show ?thesis by auto
qed

text \<open>
  The two iterators do not mix: after \<open>NextOnList\<close> has moved the marker, \<open>NextChunkOnList\<close> passes
  up to \<open>k\<close> further elements but returns the null list, as if there were none.
\<close>

theorem mixed_iteration_loses_elements:
  assumes "on_list (cells s) s m L R" "L \<noteq> []" "tail m = None" "0 < k"
  shows "\<exists>m' s'. NextChunkOnList m k s = Some (Inr ((m', None), s')) \<and>
    on_list (cells s) s' m' (L @ take k R) (drop k R)"
proof -
  have self: "s\<lparr>cells := cells s\<rparr> = s" by simp
  obtain m1 where m1: "chunk_loop k m s = Inr (m1, s)" "on_list (cells s) s m1 (L @ take k R) (drop k R)"
    "tail m1 = None"
    using chunk_loop_run [OF assms(1), of k] assms(4) unfolding self by auto
  let ?L = "L @ take k R" and ?R = "drop k R"
  have ne: "?L \<noteq> []" using assms(2) by simp
  have last: "cells s (fst (last ?L)) = Some \<lparr>element = snd (last ?L), next_cell = ptr_of ?R\<rparr>"
    using cells_at_snoc_last [OF on_list_ptr(2) [OF m1(2,3)] ne] .
  define m2 where "m2 = m1\<lparr>tail := ptr_of ?R\<rparr>"
  define s2 where "s2 = s\<lparr>cells := link (cells s) ?L None\<rparr>"
  have "NextChunkOnList m k s = Some (Inr ((m2, None), s2))"
    using m1 ne last assms ListLength_run [of s2 None "[]"]
    by (auto simp: NextChunkOnList_def Let_def wpl_chain liftL_def retL_def ret_def guardM_def
          bindM_def get_cell_def upd_cell_def on_list_def s2_def m2_def link_def)
  moreover have "on_list (cells s) s2 m2 ?L ?R"
    using m1(2) ne link_same [OF on_list_ptr(2) [OF m1(2,3)]]
    by (cases "?R = []") (auto simp: on_list_def s2_def m2_def ptr_of_def)
  ultimately show ?thesis by blast
qed

lemma mixed_iteration_loses_elements_witness:
  "\<exists>m' s'. NextChunkOnList ex_marker 1 ex_heap = Some (Inr ((m', None), s')) \<and>
    on_list (cells ex_heap) s' m' [(0, 10), (1, 20), (2, 30)] []"
proof -
  have "tail ex_marker = None" by (simp add: ex_marker_def)
  from mixed_iteration_loses_elements [OF ex_on _ this, of 1] show ?thesis by simp
qed

end
