(* ===== verification/Cc_Typequal.thy ===== *)
theory Cc_Typequal
  imports Cc_List_Laws "HOL-Library.Word"
begin

unbundle bit_operations_syntax

section \<open>Type qualifiers (cilk2c/typequal.c)\<close>

text \<open>
  A \<open>TypeQual\<close> is a word of flag bits and a list of gcc attributes on the list heap. The low bits hold
  the storage class and the place of the declaration, each as a small number; the others are
  independent flags. The C functions answer a test with an integer that is only used as a truth value.
\<close>

type_synonym tq_bits = "32 word"

record TypeQual =
  tq :: tq_bits
  attributes :: ptr

definition EMPTY_TQ :: TypeQual where
  "EMPTY_TQ = \<lparr>tq = 0, attributes = None\<rparr>"

subsection \<open>The bits\<close>

definition T_AUTO :: tq_bits where
  "T_AUTO = 1"

definition T_EXTERN :: tq_bits where
  "T_EXTERN = 2"

definition T_REGISTER :: tq_bits where
  "T_REGISTER = 3"

definition T_STATIC :: tq_bits where
  "T_STATIC = 4"

definition T_TYPEDEF :: tq_bits where
  "T_TYPEDEF = 5"

definition T_TOP_DECL :: tq_bits where
  "T_TOP_DECL = 16"

definition T_BLOCK_DECL :: tq_bits where
  "T_BLOCK_DECL = 32"

definition T_FORMAL_DECL :: tq_bits where
  "T_FORMAL_DECL = 48"

definition T_SU_DECL :: tq_bits where
  "T_SU_DECL = 64"

definition T_ENUM_DECL :: tq_bits where
  "T_ENUM_DECL = 80"

definition T_REDUNDANT_EXTERNAL_DECL :: tq_bits where
  "T_REDUNDANT_EXTERNAL_DECL = 256"

definition T_SHARED :: tq_bits where
  "T_SHARED = 512"

definition T_PRIVATE :: tq_bits where
  "T_PRIVATE = 1024"

definition T_NOOUTPUT :: tq_bits where
  "T_NOOUTPUT = 2048"

definition T_CILKONLY :: tq_bits where
  "T_CILKONLY = 4096"

definition T_CILKSAFE :: tq_bits where
  "T_CILKSAFE = 8192"

definition T_FAST_PROCEDURE :: tq_bits where
  "T_FAST_PROCEDURE = 16384"

definition T_SLOW_PROCEDURE :: tq_bits where
  "T_SLOW_PROCEDURE = 32768"

definition T_FAST_INLET :: tq_bits where
  "T_FAST_INLET = 65536"

definition T_SLOW_INLET :: tq_bits where
  "T_SLOW_INLET = 131072"

definition T_STANDALONE_INLET :: tq_bits where
  "T_STANDALONE_INLET = 262144"

definition T_C_CODE :: tq_bits where
  "T_C_CODE = 524288"

definition T_RESTRICT :: tq_bits where
  "T_RESTRICT = 1048576"

definition T_COMPLEX :: tq_bits where
  "T_COMPLEX = 2097152"

definition T_CONST :: tq_bits where
  "T_CONST = 4194304"

definition T_VOLATILE :: tq_bits where
  "T_VOLATILE = 8388608"

definition T_INLINE :: tq_bits where
  "T_INLINE = 16777216"

definition T_SUE_ELABORATED :: tq_bits where
  "T_SUE_ELABORATED = 33554432"

definition T_PROCEDURE :: tq_bits where
  "T_PROCEDURE = 67108864"

definition T_INLET :: tq_bits where
  "T_INLET = 134217728"

definition T_EXTENSION :: tq_bits where
  "T_EXTENSION = 268435456"

definition T_STORAGE_CLASSES :: tq_bits where
  "T_STORAGE_CLASSES = (T_AUTO OR T_EXTERN OR T_REGISTER OR T_STATIC OR T_TYPEDEF)"

definition T_DECL_LOCATIONS :: tq_bits where
  "T_DECL_LOCATIONS = (T_TOP_DECL OR T_BLOCK_DECL OR T_FORMAL_DECL OR T_SU_DECL OR T_ENUM_DECL)"

definition T_CILK_WHERE_AM_I_DECL_QUALS :: tq_bits where
  "T_CILK_WHERE_AM_I_DECL_QUALS = (T_FAST_PROCEDURE OR T_SLOW_PROCEDURE OR T_FAST_INLET OR T_SLOW_INLET OR T_STANDALONE_INLET OR T_C_CODE)"

definition T_DECL_QUALS :: tq_bits where
  "T_DECL_QUALS = (T_STORAGE_CLASSES OR T_DECL_LOCATIONS OR T_REDUNDANT_EXTERNAL_DECL OR T_SHARED OR T_PRIVATE OR T_NOOUTPUT OR T_CILKONLY OR T_CILKSAFE OR T_CILK_WHERE_AM_I_DECL_QUALS)"

definition T_TYPE_QUALS :: tq_bits where
  "T_TYPE_QUALS = (T_RESTRICT OR T_COMPLEX OR T_CONST OR T_VOLATILE OR T_INLINE OR T_SUE_ELABORATED OR T_PROCEDURE OR T_INLET)"

definition TQ_COMPATIBLE :: tq_bits where
  "TQ_COMPATIBLE = (T_CONST OR T_VOLATILE OR T_INLINE OR T_SUE_ELABORATED OR T_RESTRICT OR T_EXTENSION)"

definition STORAGE_CLASS :: "tq_bits \<Rightarrow> tq_bits" where
  "STORAGE_CLASS b = b AND T_STORAGE_CLASSES"

definition DECL_LOCATION :: "tq_bits \<Rightarrow> tq_bits" where
  "DECL_LOCATION b = b AND T_DECL_LOCATIONS"

definition DECL_QUALS :: "tq_bits \<Rightarrow> tq_bits" where
  "DECL_QUALS b = b AND T_DECL_QUALS"

definition TYPE_QUALS :: "tq_bits \<Rightarrow> tq_bits" where
  "TYPE_QUALS b = b AND T_TYPE_QUALS"

lemmas tq_bit_defs =
  T_AUTO_def T_EXTERN_def T_REGISTER_def T_STATIC_def T_TYPEDEF_def
  T_TOP_DECL_def T_BLOCK_DECL_def T_FORMAL_DECL_def T_SU_DECL_def T_ENUM_DECL_def
  T_REDUNDANT_EXTERNAL_DECL_def T_SHARED_def T_PRIVATE_def T_NOOUTPUT_def T_CILKONLY_def
  T_CILKSAFE_def T_FAST_PROCEDURE_def T_SLOW_PROCEDURE_def T_FAST_INLET_def T_SLOW_INLET_def
  T_STANDALONE_INLET_def T_C_CODE_def T_RESTRICT_def T_COMPLEX_def T_CONST_def
  T_VOLATILE_def T_INLINE_def T_SUE_ELABORATED_def T_PROCEDURE_def T_INLET_def
  T_EXTENSION_def

lemmas tq_group_defs =
  T_STORAGE_CLASSES_def T_DECL_LOCATIONS_def T_CILK_WHERE_AM_I_DECL_QUALS_def T_DECL_QUALS_def
  T_TYPE_QUALS_def TQ_COMPATIBLE_def STORAGE_CLASS_def DECL_LOCATION_def DECL_QUALS_def TYPE_QUALS_def

subsection \<open>The four ways to read and write bits\<close>

definition bit_is_set :: "TypeQual \<Rightarrow> tq_bits \<Rightarrow> bool" where
  "bit_is_set q b = (tq q AND b = b)"

definition TQ :: "tq_bits \<Rightarrow> TypeQual" where
  "TQ e = \<lparr>tq = e, attributes = None\<rparr>"

definition tq_attribute :: "ptr \<Rightarrow> TypeQual" where
  "tq_attribute attrib = \<lparr>tq = 0, attributes = attrib\<rparr>"

definition TQsetbit :: "TypeQual \<Rightarrow> tq_bits \<Rightarrow> TypeQual" where
  "TQsetbit q bits = \<lparr>tq = tq q OR bits, attributes = attributes q\<rparr>"

definition TQclearbit :: "TypeQual \<Rightarrow> tq_bits \<Rightarrow> TypeQual" where
  "TQclearbit q bits = \<lparr>tq = tq q AND NOT bits, attributes = attributes q\<rparr>"

subsection \<open>Storage classes\<close>

definition tq_has_auto :: "TypeQual \<Rightarrow> bool" where
  "tq_has_auto q \<longleftrightarrow> STORAGE_CLASS (tq q) = T_AUTO"

definition tq_has_extern :: "TypeQual \<Rightarrow> bool" where
  "tq_has_extern q \<longleftrightarrow> STORAGE_CLASS (tq q) = T_EXTERN"

definition tq_has_register :: "TypeQual \<Rightarrow> bool" where
  "tq_has_register q \<longleftrightarrow> STORAGE_CLASS (tq q) = T_REGISTER"

definition tq_has_static :: "TypeQual \<Rightarrow> bool" where
  "tq_has_static q \<longleftrightarrow> STORAGE_CLASS (tq q) = T_STATIC"

definition tq_has_typedef :: "TypeQual \<Rightarrow> bool" where
  "tq_has_typedef q \<longleftrightarrow> STORAGE_CLASS (tq q) = T_TYPEDEF"

definition tq_has_some_storageclass :: "TypeQual \<Rightarrow> bool" where
  "tq_has_some_storageclass q \<longleftrightarrow> STORAGE_CLASS (tq q) \<noteq> 0"

definition tq_add_auto :: "TypeQual \<Rightarrow> TypeQual" where
  "tq_add_auto q = TQsetbit q T_AUTO"

definition tq_add_extern :: "TypeQual \<Rightarrow> TypeQual" where
  "tq_add_extern q = TQsetbit q T_EXTERN"

definition tq_add_register :: "TypeQual \<Rightarrow> TypeQual" where
  "tq_add_register q = TQsetbit q T_REGISTER"

definition tq_add_static :: "TypeQual \<Rightarrow> TypeQual" where
  "tq_add_static q = TQsetbit q T_STATIC"

definition tq_add_typedef :: "TypeQual \<Rightarrow> TypeQual" where
  "tq_add_typedef q = TQsetbit q T_TYPEDEF"

definition tq_storage_class :: "TypeQual \<Rightarrow> TypeQual" where
  "tq_storage_class q = TQ (STORAGE_CLASS (tq q))"

definition tq_remove_all_storage_classes :: "TypeQual \<Rightarrow> TypeQual" where
  "tq_remove_all_storage_classes q = TQ (tq q AND NOT T_STORAGE_CLASSES)"

subsection \<open>The place of a declaration\<close>

definition tq_has_top_decl :: "TypeQual \<Rightarrow> bool" where
  "tq_has_top_decl q \<longleftrightarrow> DECL_LOCATION (tq q) = T_TOP_DECL"

definition tq_has_block_decl :: "TypeQual \<Rightarrow> bool" where
  "tq_has_block_decl q \<longleftrightarrow> DECL_LOCATION (tq q) = T_BLOCK_DECL"

definition tq_has_formal_decl :: "TypeQual \<Rightarrow> bool" where
  "tq_has_formal_decl q \<longleftrightarrow> DECL_LOCATION (tq q) = T_FORMAL_DECL"

definition tq_has_su_decl :: "TypeQual \<Rightarrow> bool" where
  "tq_has_su_decl q \<longleftrightarrow> DECL_LOCATION (tq q) = T_SU_DECL"

definition tq_has_enum_decl :: "TypeQual \<Rightarrow> bool" where
  "tq_has_enum_decl q \<longleftrightarrow> DECL_LOCATION (tq q) = T_ENUM_DECL"

definition tq_add_top_decl :: "TypeQual \<Rightarrow> TypeQual" where
  "tq_add_top_decl q =
     \<lparr>tq = (tq q AND NOT T_DECL_LOCATIONS) OR T_TOP_DECL, attributes = attributes q\<rparr>"

definition tq_add_block_decl :: "TypeQual \<Rightarrow> TypeQual" where
  "tq_add_block_decl q =
     \<lparr>tq = (tq q AND NOT T_DECL_LOCATIONS) OR T_BLOCK_DECL, attributes = attributes q\<rparr>"

definition tq_add_formal_decl :: "TypeQual \<Rightarrow> TypeQual" where
  "tq_add_formal_decl q =
     \<lparr>tq = (tq q AND NOT T_DECL_LOCATIONS) OR T_FORMAL_DECL, attributes = attributes q\<rparr>"

definition tq_add_su_decl :: "TypeQual \<Rightarrow> TypeQual" where
  "tq_add_su_decl q =
     \<lparr>tq = (tq q AND NOT T_DECL_LOCATIONS) OR T_SU_DECL, attributes = attributes q\<rparr>"

definition tq_add_enum_decl :: "TypeQual \<Rightarrow> TypeQual" where
  "tq_add_enum_decl q =
     \<lparr>tq = (tq q AND NOT T_DECL_LOCATIONS) OR T_ENUM_DECL, attributes = attributes q\<rparr>"

definition tq_decl_location :: "TypeQual \<Rightarrow> TypeQual" where
  "tq_decl_location q = TQ (DECL_LOCATION (tq q))"

definition tq_set_decl_location_from :: "TypeQual \<Rightarrow> TypeQual \<Rightarrow> TypeQual" where
  "tq_set_decl_location_from q source =
     \<lparr>tq = (tq q AND NOT T_DECL_LOCATIONS) OR DECL_LOCATION (tq source), attributes = attributes q\<rparr>"

subsection \<open>Flags of declarations\<close>

definition tq_has_redundant_external_decl :: "TypeQual \<Rightarrow> bool" where
  "tq_has_redundant_external_decl q \<longleftrightarrow> bit_is_set q T_REDUNDANT_EXTERNAL_DECL"

definition tq_add_redundant_external_decl :: "TypeQual \<Rightarrow> TypeQual" where
  "tq_add_redundant_external_decl q = TQsetbit q T_REDUNDANT_EXTERNAL_DECL"

definition tq_remove_redundant_external_decl :: "TypeQual \<Rightarrow> TypeQual" where
  "tq_remove_redundant_external_decl q = TQclearbit q T_REDUNDANT_EXTERNAL_DECL"

definition tq_has_shared :: "TypeQual \<Rightarrow> bool" where
  "tq_has_shared q \<longleftrightarrow> bit_is_set q T_SHARED"

definition tq_has_private :: "TypeQual \<Rightarrow> bool" where
  "tq_has_private q \<longleftrightarrow> bit_is_set q T_PRIVATE"

definition tq_has_nooutput :: "TypeQual \<Rightarrow> bool" where
  "tq_has_nooutput q \<longleftrightarrow> bit_is_set q T_NOOUTPUT"

definition tq_has_cilkonly :: "TypeQual \<Rightarrow> bool" where
  "tq_has_cilkonly q \<longleftrightarrow> bit_is_set q T_CILKONLY"

definition tq_has_cilksafe :: "TypeQual \<Rightarrow> bool" where
  "tq_has_cilksafe q \<longleftrightarrow> bit_is_set q T_CILKSAFE"

definition tq_add_shared :: "TypeQual \<Rightarrow> TypeQual" where
  "tq_add_shared q = TQsetbit q T_SHARED"

definition tq_add_private :: "TypeQual \<Rightarrow> TypeQual" where
  "tq_add_private q = TQsetbit q T_PRIVATE"

definition tq_add_nooutput :: "TypeQual \<Rightarrow> TypeQual" where
  "tq_add_nooutput q = TQsetbit q T_NOOUTPUT"

definition tq_add_cilkonly :: "TypeQual \<Rightarrow> TypeQual" where
  "tq_add_cilkonly q = TQsetbit q T_CILKONLY"

definition tq_add_cilksafe :: "TypeQual \<Rightarrow> TypeQual" where
  "tq_add_cilksafe q = TQsetbit q T_CILKSAFE"

definition tq_remove_all_decl_quals :: "TypeQual \<Rightarrow> TypeQual" where
  "tq_remove_all_decl_quals q = \<lparr>tq = tq q AND NOT T_DECL_QUALS, attributes = None\<rparr>"

definition tq_has_fast_procedure :: "TypeQual \<Rightarrow> bool" where
  "tq_has_fast_procedure q \<longleftrightarrow> bit_is_set q T_FAST_PROCEDURE"

definition tq_has_slow_procedure :: "TypeQual \<Rightarrow> bool" where
  "tq_has_slow_procedure q \<longleftrightarrow> bit_is_set q T_SLOW_PROCEDURE"

definition tq_has_fast_inlet :: "TypeQual \<Rightarrow> bool" where
  "tq_has_fast_inlet q \<longleftrightarrow> bit_is_set q T_FAST_INLET"

definition tq_has_slow_inlet :: "TypeQual \<Rightarrow> bool" where
  "tq_has_slow_inlet q \<longleftrightarrow> bit_is_set q T_SLOW_INLET"

definition tq_has_standalone_inlet :: "TypeQual \<Rightarrow> bool" where
  "tq_has_standalone_inlet q \<longleftrightarrow> bit_is_set q T_STANDALONE_INLET"

definition tq_has_c_code :: "TypeQual \<Rightarrow> bool" where
  "tq_has_c_code q \<longleftrightarrow> bit_is_set q T_C_CODE"

definition tq_add_fast_procedure :: "TypeQual \<Rightarrow> TypeQual" where
  "tq_add_fast_procedure q = TQsetbit q T_FAST_PROCEDURE"

definition tq_add_slow_procedure :: "TypeQual \<Rightarrow> TypeQual" where
  "tq_add_slow_procedure q = TQsetbit q T_SLOW_PROCEDURE"

definition tq_add_fast_inlet :: "TypeQual \<Rightarrow> TypeQual" where
  "tq_add_fast_inlet q = TQsetbit q T_FAST_INLET"

definition tq_add_slow_inlet :: "TypeQual \<Rightarrow> TypeQual" where
  "tq_add_slow_inlet q = TQsetbit q T_SLOW_INLET"

definition tq_add_standalone_inlet :: "TypeQual \<Rightarrow> TypeQual" where
  "tq_add_standalone_inlet q = TQsetbit q T_STANDALONE_INLET"

definition tq_add_c_code :: "TypeQual \<Rightarrow> TypeQual" where
  "tq_add_c_code q = TQsetbit q T_C_CODE"

subsection \<open>Flags of types\<close>

definition tq_has_restrict :: "TypeQual \<Rightarrow> bool" where
  "tq_has_restrict q \<longleftrightarrow> bit_is_set q T_RESTRICT"

definition tq_has_complex :: "TypeQual \<Rightarrow> bool" where
  "tq_has_complex q \<longleftrightarrow> bit_is_set q T_COMPLEX"

definition tq_has_const :: "TypeQual \<Rightarrow> bool" where
  "tq_has_const q \<longleftrightarrow> bit_is_set q T_CONST"

definition tq_has_volatile :: "TypeQual \<Rightarrow> bool" where
  "tq_has_volatile q \<longleftrightarrow> bit_is_set q T_VOLATILE"

definition tq_has_inline :: "TypeQual \<Rightarrow> bool" where
  "tq_has_inline q \<longleftrightarrow> bit_is_set q T_INLINE"

definition tq_has_sue_elaborated :: "TypeQual \<Rightarrow> bool" where
  "tq_has_sue_elaborated q \<longleftrightarrow> bit_is_set q T_SUE_ELABORATED"

definition tq_has_procedure :: "TypeQual \<Rightarrow> bool" where
  "tq_has_procedure q \<longleftrightarrow> bit_is_set q T_PROCEDURE"

definition tq_has_inlet :: "TypeQual \<Rightarrow> bool" where
  "tq_has_inlet q \<longleftrightarrow> bit_is_set q T_INLET"

definition tq_has_extension :: "TypeQual \<Rightarrow> bool" where
  "tq_has_extension q \<longleftrightarrow> bit_is_set q T_EXTENSION"

definition tq_add_restrict :: "TypeQual \<Rightarrow> TypeQual" where
  "tq_add_restrict q = TQsetbit q T_RESTRICT"

definition tq_add_complex :: "TypeQual \<Rightarrow> TypeQual" where
  "tq_add_complex q = TQsetbit q T_COMPLEX"

definition tq_add_const :: "TypeQual \<Rightarrow> TypeQual" where
  "tq_add_const q = TQsetbit q T_CONST"

definition tq_add_volatile :: "TypeQual \<Rightarrow> TypeQual" where
  "tq_add_volatile q = TQsetbit q T_VOLATILE"

definition tq_add_inline :: "TypeQual \<Rightarrow> TypeQual" where
  "tq_add_inline q = TQsetbit q T_INLINE"

definition tq_add_sue_elaborated :: "TypeQual \<Rightarrow> TypeQual" where
  "tq_add_sue_elaborated q = TQsetbit q T_SUE_ELABORATED"

definition tq_add_procedure :: "TypeQual \<Rightarrow> TypeQual" where
  "tq_add_procedure q = TQsetbit q T_PROCEDURE"

definition tq_add_inlet :: "TypeQual \<Rightarrow> TypeQual" where
  "tq_add_inlet q = TQsetbit q T_INLET"

definition tq_add_extension :: "TypeQual \<Rightarrow> TypeQual" where
  "tq_add_extension q = TQsetbit q T_EXTENSION"

subsection \<open>Removing flags\<close>

definition tq_remove_complex :: "TypeQual \<Rightarrow> TypeQual" where
  "tq_remove_complex q = TQclearbit q T_COMPLEX"

definition tq_remove_const :: "TypeQual \<Rightarrow> TypeQual" where
  "tq_remove_const q = TQclearbit q T_CONST"

definition tq_remove_inline :: "TypeQual \<Rightarrow> TypeQual" where
  "tq_remove_inline q = TQclearbit q T_INLINE"

definition tq_remove_sue_elaborated :: "TypeQual \<Rightarrow> TypeQual" where
  "tq_remove_sue_elaborated q = TQclearbit q T_SUE_ELABORATED"

definition tq_remove_procedure :: "TypeQual \<Rightarrow> TypeQual" where
  "tq_remove_procedure q = TQclearbit q T_PROCEDURE"

definition tq_remove_inlet :: "TypeQual \<Rightarrow> TypeQual" where
  "tq_remove_inlet q = TQclearbit q T_INLET"

definition tq_type_quals :: "TypeQual \<Rightarrow> TypeQual" where
  "tq_type_quals q = TQ (TYPE_QUALS (tq q))"

definition tq_remove_compatible :: "TypeQual \<Rightarrow> TypeQual" where
  "tq_remove_compatible q = TQclearbit q TQ_COMPATIBLE"

definition tq_intersection :: "TypeQual \<Rightarrow> TypeQual \<Rightarrow> TypeQual" where
  "tq_intersection a b = TQ (tq a AND tq b)"

definition tq_subtract :: "TypeQual \<Rightarrow> TypeQual \<Rightarrow> TypeQual" where
  "tq_subtract a b = \<lparr>tq = tq a AND NOT (tq b), attributes = attributes a\<rparr>"

definition tq_has_anything :: "TypeQual \<Rightarrow> bool" where
  "tq_has_anything q \<longleftrightarrow> tq q \<noteq> 0"

definition tq_equal :: "TypeQual \<Rightarrow> TypeQual \<Rightarrow> bool" where
  "tq_equal a b \<longleftrightarrow> tq a = tq b"

definition tq_has_cilk_where_am_i_decl_quals :: "TypeQual \<Rightarrow> bool" where
  "tq_has_cilk_where_am_i_decl_quals q \<longleftrightarrow> (tq q AND T_CILK_WHERE_AM_I_DECL_QUALS) \<noteq> 0"

definition tq_remove_cilk_where_am_i_decl_quals :: "TypeQual \<Rightarrow> TypeQual" where
  "tq_remove_cilk_where_am_i_decl_quals q =
     TQclearbit q (NOT T_CILK_WHERE_AM_I_DECL_QUALS)"

definition TQ_DECL_QUALS :: "TypeQual" where
  "TQ_DECL_QUALS = TQ T_DECL_QUALS"

definition tq_decl_quals :: "TypeQual \<Rightarrow> TypeQual" where
  "tq_decl_quals q = \<lparr>tq = DECL_QUALS (tq q), attributes = attributes q\<rparr>"

subsection \<open>Union\<close>

text \<open>The attributes of the union: those of \<open>a\<close> that are not in \<open>b\<close>, in new cells in front of \<open>b\<close>.\<close>

partial_function (option) UnionLists ::
    "ptr \<Rightarrow> ptr \<Rightarrow> 'a Heap \<Rightarrow> (cc_fail + (ptr \<times> 'a Heap)) option" where
  "UnionLists a b s =
     (if a = None then Some (Inr (b, s))
      else if b = None then Some (Inr (a, s))
      else if a = b then Some (Inr (a, s))
      else (case FirstItem a s of
          Inl e \<Rightarrow> Some (Inl e)
        | Inr (x, s1) \<Rightarrow> (case FindItem b x s1 of
            None \<Rightarrow> None
          | Some (Inl e) \<Rightarrow> Some (Inl e)
          | Some (Inr (found, s2)) \<Rightarrow> (case Rest a s2 of
              Inl e \<Rightarrow> Some (Inl e)
            | Inr (r, s3) \<Rightarrow>
                if found \<noteq> None then UnionLists r b s3
                else Option.bind (UnionLists r b s3) (\<lambda>res. case res of
                    Inl e \<Rightarrow> Some (Inl e)
                  | Inr (l, s4) \<Rightarrow> Some (bindM (FirstItem a) (\<lambda>y. ConsItem y l) s4))))))"

definition tq_union :: "TypeQual \<Rightarrow> TypeQual \<Rightarrow> ('a, TypeQual) list_loop" where
  "tq_union a b = bindL (UnionLists (attributes a) (attributes b)) (\<lambda>l.
     retL \<lparr>tq = tq a OR tq b, attributes = l\<rparr>)"

definition tq_set_storage_class_from :: "TypeQual \<Rightarrow> TypeQual \<Rightarrow> ('a, TypeQual) list_loop" where
  "tq_set_storage_class_from dest source =
     tq_union (tq_remove_all_storage_classes dest) (tq_storage_class source)"

end
