(* ===== verification/Cc_Typequal_Laws.thy ===== *)
theory Cc_Typequal_Laws
  imports Cc_Typequal
begin

section \<open>Laws of the type qualifiers\<close>

text \<open>
  The flags are independent of each other, of the storage class and of the place of the declaration;
  the place is replaced when a new one is set. The storage classes share bits and are not replaced,
  and one of the removal functions removes the wrong bits: these are recorded as theorems too.
\<close>

definition flags :: "((TypeQual \<Rightarrow> bool) \<times> (TypeQual \<Rightarrow> TypeQual)) list" where
  "flags = [
     (tq_has_redundant_external_decl, tq_add_redundant_external_decl),
     (tq_has_shared, tq_add_shared), (tq_has_private, tq_add_private),
     (tq_has_nooutput, tq_add_nooutput), (tq_has_cilkonly, tq_add_cilkonly),
     (tq_has_cilksafe, tq_add_cilksafe), (tq_has_fast_procedure, tq_add_fast_procedure),
     (tq_has_slow_procedure, tq_add_slow_procedure), (tq_has_fast_inlet, tq_add_fast_inlet),
     (tq_has_slow_inlet, tq_add_slow_inlet), (tq_has_standalone_inlet, tq_add_standalone_inlet),
     (tq_has_c_code, tq_add_c_code), (tq_has_restrict, tq_add_restrict),
     (tq_has_complex, tq_add_complex), (tq_has_const, tq_add_const),
     (tq_has_volatile, tq_add_volatile), (tq_has_inline, tq_add_inline),
     (tq_has_sue_elaborated, tq_add_sue_elaborated), (tq_has_procedure, tq_add_procedure),
     (tq_has_inlet, tq_add_inlet), (tq_has_extension, tq_add_extension)]"

text \<open>The position of the one bit of each flag, in the same order.\<close>

definition flag_bits :: "nat list" where
  "flag_bits = [8, 9, 10, 11, 12, 13, 14, 15, 16, 17, 18, 19, 20, 21, 22, 23, 24, 25, 26, 27, 28]"

lemma and_bit_iff: "(q AND 2 ^ n = 2 ^ n) = bit q n" if "n < 32" for q :: tq_bits
proof
  assume "q AND 2 ^ n = 2 ^ n"
  then have "bit (q AND 2 ^ n) n = bit (2 ^ n :: tq_bits) n" by simp
  with that show "bit q n" by (simp add: bit_simps)
next
  assume "bit q n"
  then show "q AND 2 ^ n = 2 ^ n" by (intro bit_word_eqI) (auto simp: bit_simps)
qed

lemma flags_are_bits:
  "list_all2 (\<lambda>f k. 8 \<le> k \<and> k < 32 \<and> (\<forall>q. fst f q = bit (tq q) k) \<and> (\<forall>q. snd f q = q\<lparr>tq := tq q OR 2 ^ k\<rparr>))
     flags flag_bits"
proof -
  have has: "bit_is_set q b = bit (tq q) k" if "b = 2 ^ k" "k < 32" for q b k
    using and_bit_iff [OF that(2)] that(1) by (simp add: bit_is_set_def)
  have add: "TQsetbit q b = q\<lparr>tq := tq q OR b\<rparr>" for q b
    by (cases q) (simp add: TQsetbit_def)
  show ?thesis
    unfolding flags_def flag_bits_def
    by (simp add: add tq_bit_defs has
        tq_has_redundant_external_decl_def tq_has_shared_def tq_has_private_def tq_has_nooutput_def
        tq_has_cilkonly_def tq_has_cilksafe_def tq_has_fast_procedure_def tq_has_slow_procedure_def
        tq_has_fast_inlet_def tq_has_slow_inlet_def tq_has_standalone_inlet_def tq_has_c_code_def
        tq_has_restrict_def tq_has_complex_def tq_has_const_def tq_has_volatile_def tq_has_inline_def
        tq_has_sue_elaborated_def tq_has_procedure_def tq_has_inlet_def tq_has_extension_def
        tq_add_redundant_external_decl_def tq_add_shared_def tq_add_private_def tq_add_nooutput_def
        tq_add_cilkonly_def tq_add_cilksafe_def tq_add_fast_procedure_def tq_add_slow_procedure_def
        tq_add_fast_inlet_def tq_add_slow_inlet_def tq_add_standalone_inlet_def tq_add_c_code_def
        tq_add_restrict_def tq_add_complex_def tq_add_const_def tq_add_volatile_def tq_add_inline_def
        tq_add_sue_elaborated_def tq_add_procedure_def tq_add_inlet_def tq_add_extension_def)
qed

lemma flag_nth:
  assumes "i < length flags"
  shows "8 \<le> flag_bits ! i" "flag_bits ! i < 32" "fst (flags ! i) q = bit (tq q) (flag_bits ! i)"
    "snd (flags ! i) q = q\<lparr>tq := tq q OR 2 ^ (flag_bits ! i)\<rparr>"
  using list_all2_nthD [OF flags_are_bits assms] by auto

lemma flag_bits_inj:
  "i < length flags \<Longrightarrow> j < length flags \<Longrightarrow> flag_bits ! i = flag_bits ! j \<longleftrightarrow> i = j"
  by (subst nth_eq_iff_index_eq) (simp_all add: flag_bits_def flags_def)

lemma low_bits:
  "STORAGE_CLASS b = b AND mask 3" "DECL_LOCATION b = b AND push_bit 4 (mask 3)"
  by (simp_all add: tq_group_defs tq_bit_defs mask_eq_exp_minus_1)

lemma low_bits_exp:
  assumes "8 \<le> k" "k < 32"
  shows "STORAGE_CLASS (b OR 2 ^ k) = STORAGE_CLASS b" "DECL_LOCATION (b OR 2 ^ k) = DECL_LOCATION b"
  using assms by (auto simp: low_bits bit_simps intro!: bit_word_eqI)

subsection \<open>Independent flags and exclusive places\<close>

text \<open>
  Adding a flag sets that flag and nothing else: every other flag, the storage class, the place of
  the declaration and the attributes stay as they were.
\<close>

theorem flags_are_independent:
  assumes "i < length flags" "j < length flags"
  shows "fst (flags ! i) (snd (flags ! j) q) = (i = j \<or> fst (flags ! i) q) \<and>
    tq_storage_class (snd (flags ! j) q) = tq_storage_class q \<and>
    tq_decl_location (snd (flags ! j) q) = tq_decl_location q \<and>
    attributes (snd (flags ! j) q) = attributes q"
  using flag_nth [OF assms(1)] flag_nth [OF assms(2)] flag_bits_inj [OF assms]
  by (auto simp: tq_storage_class_def tq_decl_location_def low_bits_exp bit_simps)

lemma flags_are_independent_witness:
  "tq_has_const (tq_add_volatile EMPTY_TQ) = False \<and> tq_has_volatile (tq_add_volatile EMPTY_TQ) \<and>
   tq_storage_class (tq_add_volatile (tq_add_extern EMPTY_TQ)) = tq_storage_class (tq_add_extern EMPTY_TQ)"
  using flags_are_independent [of 14 15 EMPTY_TQ] flags_are_independent [of 15 15 EMPTY_TQ]
    flags_are_independent [of 15 15 "tq_add_extern EMPTY_TQ"]
  by (simp add: flags_def tq_has_const_def bit_is_set_def EMPTY_TQ_def T_CONST_def)

definition locations :: "((TypeQual \<Rightarrow> bool) \<times> (TypeQual \<Rightarrow> TypeQual) \<times> tq_bits) list" where
  "locations = [
     (tq_has_top_decl, tq_add_top_decl, T_TOP_DECL), (tq_has_block_decl, tq_add_block_decl, T_BLOCK_DECL),
     (tq_has_formal_decl, tq_add_formal_decl, T_FORMAL_DECL), (tq_has_su_decl, tq_add_su_decl, T_SU_DECL),
     (tq_has_enum_decl, tq_add_enum_decl, T_ENUM_DECL)]"

lemma locations_spec:
  "list_all (\<lambda>(h, a, b). b AND T_DECL_LOCATIONS = b \<and> (\<forall>q. h q = (DECL_LOCATION (tq q) = b)) \<and>
     (\<forall>q. a q = q\<lparr>tq := (tq q AND NOT T_DECL_LOCATIONS) OR b\<rparr>)) locations"
proof -
  have cong: "\<lparr>tq = b, attributes = attributes q\<rparr> = q\<lparr>tq := b\<rparr>" for b q
    by (cases q) simp
  show ?thesis
    by (simp add: locations_def cong tq_has_top_decl_def tq_has_block_decl_def tq_has_formal_decl_def
        tq_has_su_decl_def tq_has_enum_decl_def tq_add_top_decl_def tq_add_block_decl_def
        tq_add_formal_decl_def tq_add_su_decl_def tq_add_enum_decl_def)
       (simp add: tq_bit_defs tq_group_defs)
qed

lemma set_location:
  assumes "b AND T_DECL_LOCATIONS = b"
  shows "DECL_LOCATION ((q AND NOT T_DECL_LOCATIONS) OR b) = b"
    "STORAGE_CLASS ((q AND NOT T_DECL_LOCATIONS) OR b) = STORAGE_CLASS q"
    "8 \<le> k \<Longrightarrow> bit ((q AND NOT T_DECL_LOCATIONS) OR b) k = bit q k"
proof -
  have L: "T_DECL_LOCATIONS = push_bit 4 (mask 3)"
    by (simp add: tq_bit_defs T_DECL_LOCATIONS_def mask_eq_exp_minus_1)
  have b: "bit b n \<Longrightarrow> bit T_DECL_LOCATIONS n" for n
    using assms by (metis bit_and_iff)
  show "DECL_LOCATION ((q AND NOT T_DECL_LOCATIONS) OR b) = b"
    using b by (auto simp: DECL_LOCATION_def bit_simps intro!: bit_word_eqI)
  show "STORAGE_CLASS ((q AND NOT T_DECL_LOCATIONS) OR b) = STORAGE_CLASS q"
    using b by (fastforce simp: low_bits L bit_simps intro!: bit_word_eqI)
  show "8 \<le> k \<Longrightarrow> bit ((q AND NOT T_DECL_LOCATIONS) OR b) k = bit q k"
    using b [of k] by (auto simp: L bit_simps dest: bit_imp_le_length)
qed

lemma flag_bits_high: "i < length flags \<Longrightarrow> 8 \<le> flag_bits ! i"
  by (rule flag_nth)

text \<open>
  A declaration has one place: adding a place replaces the previous one and keeps every flag, the
  storage class and the attributes; copying the place of another qualifier does the same.
\<close>

theorem places_are_exclusive:
  assumes "i < length locations" "j < length locations" "k < length flags"
  shows "fst (locations ! i) (fst (snd (locations ! j)) q) = (i = j) \<and>
    tq_storage_class (fst (snd (locations ! j)) q) = tq_storage_class q \<and>
    fst (flags ! k) (fst (snd (locations ! j)) q) = fst (flags ! k) q \<and>
    attributes (fst (snd (locations ! j)) q) = attributes q \<and>
    tq_decl_location (tq_set_decl_location_from q source) = tq_decl_location source \<and>
    fst (flags ! k) (tq_set_decl_location_from q source) = fst (flags ! k) q"
proof -
  define loc where "loc = (\<lambda>i. snd (snd (locations ! i)))"
  have l: "loc i AND T_DECL_LOCATIONS = loc i" "fst (locations ! i) q = (DECL_LOCATION (tq q) = loc i)"
    "fst (snd (locations ! i)) q = q\<lparr>tq := (tq q AND NOT T_DECL_LOCATIONS) OR loc i\<rparr>"
    if "i < length locations" for i q
    using locations_spec that unfolding list_all_length loc_def by (auto simp: case_prod_beta)
  have inj: "loc i = loc j \<longleftrightarrow> i = j"
  proof -
    have "distinct (map (\<lambda>l. snd (snd l)) locations)" by (simp add: locations_def tq_bit_defs)
    with assms(1,2) nth_eq_iff_index_eq [of "map (\<lambda>l. snd (snd l)) locations" i j]
    show ?thesis by (simp add: loc_def)
  qed
  have d: "DECL_LOCATION b AND T_DECL_LOCATIONS = DECL_LOCATION b" for b
    by (simp add: DECL_LOCATION_def and.assoc)
  show ?thesis
    using inj set_location [OF l(1) [OF assms(2)], where q = "tq q"] set_location [OF d, where q = "tq q"] flag_nth [OF assms(3)]
    by (auto simp: l(2) [OF assms(1)] l(3) [OF assms(2)] tq_storage_class_def tq_decl_location_def
        tq_set_decl_location_from_def TQ_def)
qed

lemma places_are_exclusive_witness:
  "tq_has_block_decl (tq_add_top_decl (tq_add_block_decl EMPTY_TQ)) = False \<and>
   tq_has_top_decl (tq_add_top_decl (tq_add_block_decl EMPTY_TQ))"
  using places_are_exclusive [of 1 0 0 "tq_add_block_decl EMPTY_TQ"]
    places_are_exclusive [of 0 0 0 "tq_add_block_decl EMPTY_TQ"]
  by (simp add: locations_def flags_def)

subsection \<open>Union of qualifiers\<close>

lemma FirstItem_run: "cells_at (cells s) a (c # L) q \<Longrightarrow> FirstItem a s = Inr (snd c, s)"
  by (auto simp: FirstItem_def assert_ptr_def bindM_def ret_def get_cell_def)

lemma Rest_run:
  "cells_at (cells s) a (c # L) None \<Longrightarrow> Rest a s = Inr (ptr_of L, s)"
  using cells_at_ptr_of by (fastforce simp: Rest_def assert_ptr_def bindM_def ret_def get_cell_def)

lemma ConsItem_run:
  "ConsItem x l s = Inr (Some (limit s),
     s\<lparr>cells := (cells s)(limit s \<mapsto> \<lparr>element = x, next_cell = l\<rparr>), limit := limit s + 1\<rparr>)"
  by (simp add: ConsItem_def MakeNewList_def bindM_def HeapNew_def upd_cell_def ret_def assert_ptr_def
        cell_element heap_update_order)

text \<open>A list of attributes that later allocations keep as it is.\<close>

definition attr_list :: "'a Heap \<Rightarrow> ptr \<Rightarrow> 'a list \<Rightarrow> bool" where
  "attr_list s p xs \<longleftrightarrow> heap_ok s \<and> (\<exists>L. cells_at (cells s) p L None \<and> map snd L = xs)"

definition grows :: "'a Heap \<Rightarrow> 'a Heap \<Rightarrow> bool" where
  "grows s t \<longleftrightarrow> heap_ok t \<and> (\<forall>a. cells s a \<noteq> None \<longrightarrow> cells t a = cells s a)"

lemma grows_cells: "grows s t \<Longrightarrow> cells_at (cells s) p L q \<Longrightarrow> cells_at (cells t) p L q"
  using cells_at_dom [of "cells s" p L q]
  by (subst cells_at_cong [of L "cells t" "cells s"]) (auto simp: grows_def)

lemma cells_at_ne: "cells_at h p L q \<Longrightarrow> L \<noteq> [] \<Longrightarrow> p \<noteq> None"
  by (cases L) auto

lemma UnionLists_run:
  assumes "cells_at (cells s) a A None" "cells_at (cells s) b B None" "heap_ok s"
  shows "\<exists>r t. UnionLists a b s = Some (Inr (r, t)) \<and> grows s t \<and>
    attr_list t r (filter (\<lambda>x. x \<notin> snd ` set B) (map snd A) @ map snd B)"
  using assms
proof (induction A arbitrary: a)
  case Nil
  then show ?case by (auto simp: UnionLists.simps grows_def attr_list_def)
next
  case (Cons c A)
  have self: "grows s s" using Cons.prems(3) by (simp add: grows_def)
  have fa: "FirstItem a s = Inr (snd c, s)" and ra: "Rest a s = Inr (ptr_of A, s)"
    using FirstItem_run Rest_run Cons.prems(1) by blast+
  have A: "cells_at (cells s) (ptr_of A) A None"
    using Cons.prems(1) cells_at_ptr_of by auto
  obtain r t where IH: "UnionLists (ptr_of A) b s = Some (Inr (r, t))" "grows s t"
    "attr_list t r (filter (\<lambda>x. x \<notin> snd ` set B) (map snd A) @ map snd B)"
    using Cons.IH [OF A Cons.prems(2,3)] by blast
  have fi: "FindItem b (snd c) s = Some (Inr (ptr_of (dropWhile (\<lambda>d. snd d \<noteq> snd c) B), s))"
    using FindItem_run [OF Cons.prems(2)] .
  have found: "ptr_of (dropWhile (\<lambda>d. snd d \<noteq> snd c) B) \<noteq> None \<longleftrightarrow> snd c \<in> snd ` set B"
    unfolding ptr_of_def by (simp add: image_iff) metis
  have a: "a \<noteq> None" using Cons.prems(1) by auto
  consider "B = []" | "B \<noteq> []" "a = b" | "B \<noteq> []" "a \<noteq> b" "snd c \<in> snd ` set B"
    | "B \<noteq> []" "a \<noteq> b" "snd c \<notin> snd ` set B" by blast
  then show ?case
  proof cases
    case 1
    then have "UnionLists a b s = Some (Inr (a, s))"
      using Cons.prems(2) a by (subst UnionLists.simps) auto
    moreover have "attr_list s a (map snd (c # A))"
      using Cons.prems(1,3) unfolding attr_list_def by blast
    ultimately show ?thesis using self 1 by auto
  next
    case 2
    then have "c # A = B" using cells_at_unique Cons.prems(1,2) by blast
    then have "filter (\<lambda>x. x \<notin> snd ` set B) (map snd (c # A)) = []"
      by (auto simp: filter_empty_conv)
    moreover have "UnionLists a b s = Some (Inr (b, s))"
      using 2 a by (subst UnionLists.simps) auto
    moreover have "attr_list s b (map snd B)"
      using Cons.prems(2,3) unfolding attr_list_def by blast
    ultimately show ?thesis using self by auto
  next
    case 3
    then have b: "b \<noteq> None" using cells_at_ne [OF Cons.prems(2)] by blast
    have "ptr_of (dropWhile (\<lambda>d. snd d \<noteq> snd c) B) \<noteq> None" using found 3(3) by blast
    then have "UnionLists a b s = Some (Inr (r, t))"
      by (subst UnionLists.simps) (simp only: a b 3(2) fa fi ra IH(1) if_False sum.case prod.case
          option.case if_True not_False_eq_True)
    moreover have "filter (\<lambda>x. x \<notin> snd ` set B) (map snd (c # A)) = filter (\<lambda>x. x \<notin> snd ` set B) (map snd A)"
      using 3(3) by (simp only: list.map filter.simps not_True_eq_False if_False)
    ultimately show ?thesis using IH(2,3) by metis
  next
    case 4
    then have b: "b \<noteq> None" using cells_at_ne [OF Cons.prems(2)] by blast
    let ?t = "t\<lparr>cells := (cells t)(limit t \<mapsto> \<lparr>element = snd c, next_cell = r\<rparr>), limit := limit t + 1\<rparr>"
    have "FirstItem a t = Inr (snd c, t)"
      using FirstItem_run grows_cells [OF IH(2) Cons.prems(1)] by blast
    then have run: "UnionLists a b s = Some (Inr (Some (limit t), ?t))"
      using found 4(3)
      by (subst UnionLists.simps) (simp only: a b 4(2) fa fi ra IH(1) if_False sum.case prod.case
          option.case if_True not_False_eq_True Option.bind.bind_lunit bindM_def ConsItem_run)
    obtain N where N: "cells_at (cells t) r N None" "heap_ok t"
      "map snd N = filter (\<lambda>x. x \<notin> snd ` set B) (map snd A) @ map snd B"
      using IH(3) by (auto simp: attr_list_def)
    then have "limit t \<notin> addrs N"
      using cells_at_dom [OF N(1)] by (metis heap_ok_def order_refl)
    then have "cells_at (cells ?t) (Some (limit t)) ((limit t, snd c) # N) None"
      using N(1) by simp
    moreover have "heap_ok ?t" using N(2) by (auto simp: heap_ok_def)
    moreover have "map snd ((limit t, snd c) # N) = filter (\<lambda>x. x \<notin> snd ` set B) (map snd (c # A)) @ map snd B"
      using 4(3) N(3) by (simp only: list.map filter.simps snd_conv if_True append_Cons not_False_eq_True)
    ultimately have "attr_list ?t (Some (limit t)) (filter (\<lambda>x. x \<notin> snd ` set B) (map snd (c # A)) @ map snd B)"
      unfolding attr_list_def by metis
    moreover have "grows s ?t"
      using IH(2) \<open>heap_ok ?t\<close> by (force simp: grows_def heap_ok_def)
    ultimately show ?thesis using run by blast
  qed
qed

text \<open>
  C35: the union of two qualifiers has the bits of both, and its attributes are those of the first
  that the second does not have, followed by those of the second; the attributes of every other
  qualifier are left alone.
\<close>

theorem tq_union_correct:
  assumes "attr_list s (attributes a) xs" "attr_list s (attributes b) ys"
  shows "\<exists>q t. tq_union a b s = Some (Inr (q, t)) \<and> tq q = (tq a OR tq b) \<and>
    attr_list t (attributes q) (filter (\<lambda>x. x \<notin> set ys) xs @ ys) \<and> grows s t"
proof -
  obtain A B where "cells_at (cells s) (attributes a) A None" "map snd A = xs"
    "cells_at (cells s) (attributes b) B None" "map snd B = ys" "heap_ok s"
    using assms by (auto simp: attr_list_def)
  with UnionLists_run [of s "attributes a" A "attributes b" B]
  obtain r t where "UnionLists (attributes a) (attributes b) s = Some (Inr (r, t))" "grows s t"
    "attr_list t r (filter (\<lambda>x. x \<notin> set ys) xs @ ys)" by auto
  then show ?thesis by (auto simp: tq_union_def wpl_chain retL_def liftL_def ret_def)
qed

definition ex_attrs :: "nat Heap" where
  "ex_attrs = \<lparr>
     cells = [0 \<mapsto> \<lparr>element = 10, next_cell = Some 1\<rparr>, 1 \<mapsto> \<lparr>element = 20, next_cell = None\<rparr>,
              2 \<mapsto> \<lparr>element = 20, next_cell = None\<rparr>],
     limit = 3, garbage = \<lparr>element = 7, next_cell = Some 99\<rparr>\<rparr>"

lemma tq_union_correct_witness:
  "\<exists>q t. tq_union \<lparr>tq = T_CONST, attributes = Some 0\<rparr> \<lparr>tq = T_INLINE, attributes = Some 2\<rparr> ex_attrs =
     Some (Inr (q, t)) \<and> tq q = (T_CONST OR T_INLINE) \<and> attr_list t (attributes q) [10, 20]"
proof -
  have "attr_list ex_attrs (Some 0) [10, 20]"
    by (simp add: attr_list_def heap_ok_def ex_attrs_def exI [of _ "[(0, 10), (1, 20)]"])
  moreover have "attr_list ex_attrs (Some 2) [20]"
    by (simp add: attr_list_def heap_ok_def ex_attrs_def exI [of _ "[(2, 20)]"])
  ultimately show ?thesis
    using tq_union_correct [of ex_attrs "\<lparr>tq = T_CONST, attributes = Some 0\<rparr>" "[10, 20]"
      "\<lparr>tq = T_INLINE, attributes = Some 2\<rparr>" "[20]"] by auto
qed

subsection \<open>What the code gets wrong\<close>

text \<open>
  The function that is meant to remove the markers of the translated code keeps exactly these markers
  and removes every other bit.
\<close>

lemma where_am_i_removal_keeps_the_markers:
  "tq (tq_remove_cilk_where_am_i_decl_quals q) = (tq q AND T_CILK_WHERE_AM_I_DECL_QUALS)"
  by (simp add: tq_remove_cilk_where_am_i_decl_quals_def TQclearbit_def)

text \<open>
  The storage classes share bits, and adding one does not clear the other: adding \<open>static\<close> to
  \<open>auto\<close> makes a typedef.
\<close>

lemma added_storage_class_mixes:
  "STORAGE_CLASS (tq q) = 0 \<Longrightarrow> tq_has_typedef (tq_add_static (tq_add_auto q))"
proof -
  assume "STORAGE_CLASS (tq q) = 0"
  then have "STORAGE_CLASS ((tq q OR 1) OR 4) = 5"
    by (simp add: low_bits bit.conj_disj_distrib2 mask_eq_exp_minus_1)
  then show ?thesis
    by (simp add: tq_has_typedef_def tq_add_static_def tq_add_auto_def TQsetbit_def tq_bit_defs)
qed

text \<open>Removing the storage class also drops the attributes, although clearing any other flag keeps them.\<close>

lemma storage_class_removal_drops_attributes:
  "attributes (tq_remove_all_storage_classes q) = None \<and> attributes (tq_remove_const q) = attributes q"
  by (simp add: tq_remove_all_storage_classes_def TQ_def tq_remove_const_def TQclearbit_def)

end
