(* ===== verification/Cc_Ast.thy ===== *)
theory Cc_Ast
  imports Cc_Operators Cc_Typequal
begin

section \<open>Types and expressions of the translator (cilk2c/ast.h, ast.c, type2.c)\<close>

text \<open>
  The part of the abstract syntax tree that the check of expressions works on: the type nodes, the
  expression nodes and the declarations of struct members (name, qualifiers, type, initialiser, width
  of a bit field). A type stands where the code has an expression under \<open>sizeof\<close>: \<open>TypeNode\<close>. The tree links of a node are values. The nodes that the code compares by address
  or changes in place carry that address: the struct, union, enum and array declarators. What they
  share, the array dimensions and the struct descriptions, is in the state \<open>cc\<close>. The constants of
  type \<open>float\<close> and \<open>double\<close> are bit patterns; the host's arithmetic on them is the record \<open>fpu\<close>,
  which is a parameter.
\<close>

datatype BasicType =
    Uchar | Schar | Char | Ushort | Sshort | Uint | Sint | Int_ParseOnly | Ulong | Slong
  | Ulonglong | Slonglong | Float | Double | Longdouble | Void | Ellipsis

datatype ctype =
    Prim TypeQual BasicType
  | Tdef TypeQual string "ctype option"
  | Ptr TypeQual ctype
  | Adcl nat TypeQual ctype
  | Fdcl TypeQual "ctype list option" ctype
  | Sdcl nat TypeQual nat
  | Udcl nat TypeQual nat
  | Edcl nat TypeQual nat

text \<open>The C union of a constant: the member that was written.\<close>

datatype cvalue =
    Val_i "32 word" | Val_u "32 word" | Val_l "64 word" | Val_ul "64 word"
  | Val_f "32 word" | Val_d "64 word" | Val_s string

datatype node =
    Const "string option" ctype cvalue
  | Id string "decl option" "node option"
  | Binop OpType node node "ctype option" "node option"
  | Unary OpType node "ctype option" "node option"
  | Cast ctype node "node option"
  | ImplicitCast "node option" ctype "node option"
  | Comma "node list"
  | Ternary node "node option" node "ctype option" "node option"
  | Array "ctype option" node "node list"
  | Call node "node list"
  | TypeNode ctype
  | DeclNode decl
and decl = Decl "string option" TypeQual ctype "node option" "node option"

subsection \<open>The state of the semantic check\<close>

text \<open>
  The floating-point arithmetic of the host: sums, differences, products and quotients, comparisons,
  and the conversions from and to integers and between the two formats. A conversion to an integer
  type is \<open>None\<close> where C leaves it undefined.
\<close>

record fpu =
  f_op :: "OpType \<Rightarrow> 32 word \<Rightarrow> 32 word \<Rightarrow> 32 word"
  d_op :: "OpType \<Rightarrow> 64 word \<Rightarrow> 64 word \<Rightarrow> 64 word"
  f_cmp :: "OpType \<Rightarrow> 32 word \<Rightarrow> 32 word \<Rightarrow> bool"
  d_cmp :: "OpType \<Rightarrow> 64 word \<Rightarrow> 64 word \<Rightarrow> bool"
  f_of_int :: "int \<Rightarrow> 32 word"
  d_of_int :: "int \<Rightarrow> 64 word"
  f_to_int :: "32 word \<Rightarrow> int option"
  d_to_int :: "64 word \<Rightarrow> int option"
  f_to_d :: "32 word \<Rightarrow> 64 word"
  d_to_f :: "64 word \<Rightarrow> 32 word"

record ARRAYtype =
  dim :: "node option"
  array_size :: "32 word"

record SUEtype =
  sue_name :: "string option"
  complete :: bool
  sue_visited :: bool
  sue_size :: "32 word"
  sue_align :: int
  sue_fields :: "decl list"

record cc =
  attrs :: "nat Heap"
  dimp :: "nat \<Rightarrow> nat"
  arrays :: "nat \<Rightarrow> ARRAYtype"
  sues :: "nat \<Rightarrow> SUEtype"
  next_node :: nat
  ANSIOnly :: bool
  WarningLevel :: int
  Errors :: nat
  Warnings :: nat
  in_procedure :: bool
  in_inlet :: bool
  host :: fpu

type_synonym 'a cc_prog = "(cc_fail, cc, 'a) prog"
type_synonym 'a cc_loop = "(cc, 'a) loop_prog"

definition SyntaxErrorCoord :: "unit cc_prog" where
  "SyntaxErrorCoord = modifyM (\<lambda>s. s\<lparr>Errors := Errors s + 1\<rparr>)"

definition WarningCoord :: "int \<Rightarrow> unit cc_prog" where
  "WarningCoord level = modifyM (\<lambda>s. if level > WarningLevel s then s else s\<lparr>Warnings := Warnings s + 1\<rparr>)"

subsection \<open>Making nodes\<close>

abbreviation PrimVoid :: ctype where "PrimVoid \<equiv> Prim EMPTY_TQ Void"
abbreviation PrimChar :: ctype where "PrimChar \<equiv> Prim EMPTY_TQ Char"
abbreviation PrimUshort :: ctype where "PrimUshort \<equiv> Prim EMPTY_TQ Ushort"
abbreviation PrimSint :: ctype where "PrimSint \<equiv> Prim EMPTY_TQ Sint"
abbreviation PrimUint :: ctype where "PrimUint \<equiv> Prim EMPTY_TQ Uint"
abbreviation PrimSlong :: ctype where "PrimSlong \<equiv> Prim EMPTY_TQ Slong"
abbreviation PrimUlong :: ctype where "PrimUlong \<equiv> Prim EMPTY_TQ Ulong"
abbreviation PrimUlonglong :: ctype where "PrimUlonglong \<equiv> Prim EMPTY_TQ Ulonglong"
abbreviation PrimFloat :: ctype where "PrimFloat \<equiv> Prim EMPTY_TQ Float"
abbreviation PrimDouble :: ctype where "PrimDouble \<equiv> Prim EMPTY_TQ Double"

definition MakeConstSint :: "32 word \<Rightarrow> node" where
  "MakeConstSint v = Const None PrimSint (Val_i v)"

definition MakeConstPtr :: "32 word \<Rightarrow> node" where
  "MakeConstPtr v = Const None (Ptr EMPTY_TQ PrimVoid) (Val_u v)"

definition MakeConstUint :: "32 word \<Rightarrow> node" where
  "MakeConstUint v = Const None PrimUint (Val_u v)"

definition MakeConstSlong :: "64 word \<Rightarrow> node" where
  "MakeConstSlong v = Const None PrimSlong (Val_l v)"

definition MakeConstUlong :: "64 word \<Rightarrow> node" where
  "MakeConstUlong v = Const None PrimUlong (Val_ul v)"

definition MakeConstFloat :: "32 word \<Rightarrow> node" where
  "MakeConstFloat v = Const None PrimFloat (Val_f v)"

definition MakeConstDouble :: "64 word \<Rightarrow> node" where
  "MakeConstDouble v = Const None PrimDouble (Val_d v)"

definition MakeBinop :: "OpType \<Rightarrow> node \<Rightarrow> node \<Rightarrow> node" where
  "MakeBinop opc left right = Binop opc left right None None"

definition MakeCast :: "ctype \<Rightarrow> node \<Rightarrow> node" where
  "MakeCast t expr = Cast t expr None"

definition MakeTernary :: "node \<Rightarrow> node option \<Rightarrow> node \<Rightarrow> node" where
  "MakeTernary cond true false = Ternary cond true false None None"

definition MakePtr :: "TypeQual \<Rightarrow> ctype \<Rightarrow> ctype" where
  "MakePtr q t = Ptr q t"

definition MakeImplicitCast :: "ctype \<Rightarrow> node option \<Rightarrow> node" where
  "MakeImplicitCast t expr = ImplicitCast expr t None"

subsection \<open>The type of a node\<close>

text \<open>\<open>NodeDataType\<close> on a type node: a typedef is followed unless its type is not known yet.\<close>

fun type_base :: "ctype \<Rightarrow> ctype" where
  "type_base (Tdef q n (Some t)) = type_base t"
| "type_base t = t"

text \<open>The loop of a call through pointers to a function.\<close>

fun called_type :: "ctype \<Rightarrow> cc_fail + ctype" where
  "called_type (Ptr q t) = called_type t"
| "called_type (Tdef q n (Some t)) = called_type t"
| "called_type (Fdcl q args returns) = Inr (type_base returns)"
| "called_type _ = Inl AssertFail"

text \<open>
  \<open>NodeDataType\<close> on an expression that has been checked. For an identifier without a declaration the
  code returns the identifier itself; such a result is the error \<open>NotAType\<close> here.
\<close>

lemma size_last [termination_simp]: "es \<noteq> [] \<Longrightarrow> size (last es) < Suc (size_list size es)"
  by (induction es) (auto simp: less_Suc_eq_le)

fun NodeDataType :: "node \<Rightarrow> cc_fail + ctype" where
  "NodeDataType (Const _ t _) = Inr (type_base t)"
| "NodeDataType (Id _ None _) = Inl NotAType"
| "NodeDataType (Id _ (Some (Decl _ _ t _ _)) _) = Inr (type_base t)"
| "NodeDataType (Binop _ _ _ t _) = bindE (someE t) (\<lambda>t. Inr (type_base t))"
| "NodeDataType (Unary _ _ t _) = bindE (someE t) (\<lambda>t. Inr (type_base t))"
| "NodeDataType (Cast t _ _) = Inr (type_base t)"
| "NodeDataType (ImplicitCast _ t _) = Inr (type_base t)"
| "NodeDataType (Comma es) = (if es = [] then Inl AssertFail else NodeDataType (last es))"
| "NodeDataType (Ternary _ _ _ t _) = bindE (someE t) (\<lambda>t. Inr (type_base t))"
| "NodeDataType (Array t _ _) = bindE (someE t) (\<lambda>t. Inr (type_base t))"
| "NodeDataType (Call n _) = bindE (NodeDataType n) called_type"
| "NodeDataType (TypeNode t) = Inr (type_base t)"
| "NodeDataType (DeclNode (Decl _ _ t _ _)) = Inr (type_base t)"

text \<open>\<open>NodeDataTypeSuperior\<close>: the same, but typedefs of the result are not followed.\<close>

fun called_superior :: "ctype \<Rightarrow> cc_fail + ctype" where
  "called_superior (Ptr q t) = called_superior t"
| "called_superior (Tdef q n (Some t)) = called_superior t"
| "called_superior (Fdcl q args returns) = Inr returns"
| "called_superior _ = Inl AssertFail"

fun NodeDataTypeSuperior :: "node \<Rightarrow> cc_fail + ctype" where
  "NodeDataTypeSuperior (Const _ t _) = Inr t"
| "NodeDataTypeSuperior (Id _ None _) = Inl NotAType"
| "NodeDataTypeSuperior (Id _ (Some (Decl _ _ t _ _)) _) = Inr t"
| "NodeDataTypeSuperior (Binop _ _ _ t _) = someE t"
| "NodeDataTypeSuperior (Unary _ _ t _) = someE t"
| "NodeDataTypeSuperior (Cast t _ _) = Inr t"
| "NodeDataTypeSuperior (ImplicitCast _ t _) = Inr t"
| "NodeDataTypeSuperior (Comma es) = (if es = [] then Inl AssertFail else NodeDataTypeSuperior (last es))"
| "NodeDataTypeSuperior (Ternary _ _ _ t _) = someE t"
| "NodeDataTypeSuperior (Array t _ _) = someE t"
| "NodeDataTypeSuperior (Call n _) = bindE (NodeDataType n) called_superior"
| "NodeDataTypeSuperior (TypeNode t) = Inr t"
| "NodeDataTypeSuperior (DeclNode (Decl _ _ t _ _)) = Inr t"

end
