(* ===== verification/Cc_Type.thy ===== *)
theory Cc_Type
  imports Cc_Ast Cc_Typequal_Laws
begin

section \<open>Predicates on types and sizes (cilk2c/type.c)\<close>

text \<open>
  The tests by which the semantic check sorts types, the qualifiers of a type node, and \<open>sizeof\<close>.
  The sizes are those of the host, as in config.h: a machine with 32-bit \<open>int\<close> and 64-bit \<open>long\<close>.
\<close>

subsection \<open>Kinds of types\<close>

definition IsFunctionType :: "ctype \<Rightarrow> bool" where
  "IsFunctionType t = (case t of Fdcl _ _ _ \<Rightarrow> True | _ \<Rightarrow> False)"

definition IsArrayType :: "ctype \<Rightarrow> bool" where
  "IsArrayType t = (case t of Adcl _ _ _ \<Rightarrow> True | _ \<Rightarrow> False)"

definition IsStructType :: "ctype \<Rightarrow> bool" where
  "IsStructType t = (case t of Sdcl _ _ _ \<Rightarrow> True | _ \<Rightarrow> False)"

definition IsUnionType :: "ctype \<Rightarrow> bool" where
  "IsUnionType t = (case t of Udcl _ _ _ \<Rightarrow> True | _ \<Rightarrow> False)"

definition IsEnumType :: "ctype \<Rightarrow> bool" where
  "IsEnumType t = (case t of Edcl _ _ _ \<Rightarrow> True | _ \<Rightarrow> False)"

definition IsSueType :: "ctype \<Rightarrow> bool" where
  "IsSueType t = (IsStructType t \<or> IsUnionType t \<or> IsEnumType t)"

definition IsVoidType :: "ctype \<Rightarrow> bool" where
  "IsVoidType t = (case type_base t of Prim _ b \<Rightarrow> b = Void | _ \<Rightarrow> False)"

definition IsPointerType :: "ctype \<Rightarrow> bool" where
  "IsPointerType t = (case type_base t of Ptr _ _ \<Rightarrow> True | _ \<Rightarrow> False)"

definition IsIntegralType :: "ctype \<Rightarrow> bool" where
  "IsIntegralType t = (case t of
      Prim _ b \<Rightarrow> b \<in> {Uchar, Schar, Char, Ushort, Sshort, Uint, Sint, Ulong, Slong, Ulonglong, Slonglong}
    | Edcl _ _ _ \<Rightarrow> True
    | _ \<Rightarrow> False)"

definition IsFloatingType :: "ctype \<Rightarrow> bool" where
  "IsFloatingType t = (case t of Prim _ b \<Rightarrow> b = Float \<or> b = Double \<or> b = Longdouble | _ \<Rightarrow> False)"

definition IsArithmeticType :: "ctype \<Rightarrow> bool" where
  "IsArithmeticType t = (IsIntegralType t \<or> IsFloatingType t)"

definition IsScalarType :: "ctype \<Rightarrow> bool" where
  "IsScalarType t = (IsArithmeticType t \<or> IsPointerType t)"

definition IsUnsizedArray :: "ctype \<Rightarrow> bool cc_prog" where
  "IsUnsizedArray t = (case t of
      Adcl i _ _ \<Rightarrow> getM (\<lambda>s. dim (arrays s (dimp s i)) = None)
    | _ \<Rightarrow> failM AssertFail)"

definition IsStructComplete :: "ctype \<Rightarrow> bool cc_prog" where
  "IsStructComplete t = (case t of Sdcl _ _ u \<Rightarrow> getM (\<lambda>s. complete (sues s u)) | _ \<Rightarrow> failM AssertFail)"

definition IsUnionComplete :: "ctype \<Rightarrow> bool cc_prog" where
  "IsUnionComplete t = (case t of Udcl _ _ u \<Rightarrow> getM (\<lambda>s. complete (sues s u)) | _ \<Rightarrow> failM AssertFail)"

definition PtrSubtype :: "ctype \<Rightarrow> cc_fail + ctype" where
  "PtrSubtype t = (case t of Ptr _ b \<Rightarrow> Inr b | _ \<Rightarrow> Inl AssertFail)"

definition GetShallowBaseType :: "ctype \<Rightarrow> ctype" where
  "GetShallowBaseType t = (case t of Ptr _ b \<Rightarrow> b | Adcl _ _ b \<Rightarrow> b | Fdcl _ _ r \<Rightarrow> r | _ \<Rightarrow> t)"

text \<open>The recursion goes through all pointer, array and function declarators.\<close>

fun GetDeepBaseType :: "ctype \<Rightarrow> ctype" where
  "GetDeepBaseType (Ptr _ t) = GetDeepBaseType t"
| "GetDeepBaseType (Adcl _ _ t) = GetDeepBaseType t"
| "GetDeepBaseType (Fdcl _ _ t) = GetDeepBaseType t"
| "GetDeepBaseType t = t"

subsection \<open>The basic type of a type or node\<close>

definition TypeIsBasic :: "BasicType \<Rightarrow> ctype \<Rightarrow> bool" where
  "TypeIsBasic b t = (case t of Prim _ c \<Rightarrow> c = b | _ \<Rightarrow> False)"

definition TypeIsChar :: "ctype \<Rightarrow> bool" where "TypeIsChar t = TypeIsBasic Char t"
definition TypeIsSint :: "ctype \<Rightarrow> bool" where "TypeIsSint t = TypeIsBasic Sint t"
definition TypeIsUint :: "ctype \<Rightarrow> bool" where "TypeIsUint t = TypeIsBasic Uint t"
definition TypeIsSlong :: "ctype \<Rightarrow> bool" where "TypeIsSlong t = TypeIsBasic Slong t"
definition TypeIsUlong :: "ctype \<Rightarrow> bool" where "TypeIsUlong t = TypeIsBasic Ulong t"
definition TypeIsFloat :: "ctype \<Rightarrow> bool" where "TypeIsFloat t = TypeIsBasic Float t"
definition TypeIsDouble :: "ctype \<Rightarrow> bool" where "TypeIsDouble t = TypeIsBasic Double t"

definition TypeIsString :: "ctype \<Rightarrow> bool" where
  "TypeIsString t = (case t of Adcl _ _ (Prim _ b) \<Rightarrow> b = Char | _ \<Rightarrow> False)"

lemmas type_is_defs = TypeIsChar_def TypeIsSint_def TypeIsUint_def TypeIsSlong_def TypeIsUlong_def
  TypeIsFloat_def TypeIsDouble_def TypeIsBasic_def

definition node_type_is :: "(ctype \<Rightarrow> bool) \<Rightarrow> node \<Rightarrow> cc_fail + bool" where
  "node_type_is P n = bindE (NodeDataType n) (\<lambda>t. Inr (P t))"

definition NodeTypeIsChar :: "node \<Rightarrow> cc_fail + bool" where "NodeTypeIsChar = node_type_is TypeIsChar"
definition NodeTypeIsSint :: "node \<Rightarrow> cc_fail + bool" where "NodeTypeIsSint = node_type_is TypeIsSint"
definition NodeTypeIsUint :: "node \<Rightarrow> cc_fail + bool" where "NodeTypeIsUint = node_type_is TypeIsUint"
definition NodeTypeIsSlong :: "node \<Rightarrow> cc_fail + bool" where "NodeTypeIsSlong = node_type_is TypeIsSlong"
definition NodeTypeIsUlong :: "node \<Rightarrow> cc_fail + bool" where "NodeTypeIsUlong = node_type_is TypeIsUlong"
definition NodeTypeIsFloat :: "node \<Rightarrow> cc_fail + bool" where "NodeTypeIsFloat = node_type_is TypeIsFloat"
definition NodeTypeIsDouble :: "node \<Rightarrow> cc_fail + bool" where "NodeTypeIsDouble = node_type_is TypeIsDouble"
definition NodeTypeIsString :: "node \<Rightarrow> cc_fail + bool" where "NodeTypeIsString = node_type_is TypeIsString"
definition NodeTypeIsIntegral :: "node \<Rightarrow> cc_fail + bool" where "NodeTypeIsIntegral = node_type_is IsIntegralType"

lemmas node_type_defs = NodeTypeIsChar_def NodeTypeIsSint_def NodeTypeIsUint_def NodeTypeIsSlong_def
  NodeTypeIsUlong_def NodeTypeIsFloat_def NodeTypeIsDouble_def NodeTypeIsString_def NodeTypeIsIntegral_def
  node_type_is_def

definition IsPrimChar :: "ctype \<Rightarrow> bool" where
  "IsPrimChar t = (case t of Prim _ b \<Rightarrow> b = Char | _ \<Rightarrow> False)"

definition IsPrimCharModuloSign :: "ctype \<Rightarrow> bool" where
  "IsPrimCharModuloSign t = (case t of Prim _ b \<Rightarrow> b = Char \<or> b = Schar \<or> b = Uchar | _ \<Rightarrow> False)"

definition IsArrayOfChar :: "ctype \<Rightarrow> bool" where
  "IsArrayOfChar t = (case t of Adcl _ _ b \<Rightarrow> IsPrimChar (type_base b) | _ \<Rightarrow> False)"

definition IsArrayOfCharModuloSign :: "ctype \<Rightarrow> bool" where
  "IsArrayOfCharModuloSign t = (case t of Adcl _ _ b \<Rightarrow> IsPrimCharModuloSign (type_base b) | _ \<Rightarrow> False)"

definition IsStringConstant :: "node \<Rightarrow> bool" where
  "IsStringConstant n = (case n of Const _ (Adcl _ _ b) _ \<Rightarrow> IsPrimChar b | _ \<Rightarrow> False)"

subsection \<open>Qualifiers of a type\<close>

fun NodeTq :: "ctype \<Rightarrow> TypeQual" where
  "NodeTq (Prim q _) = q"
| "NodeTq (Tdef q _ _) = q"
| "NodeTq (Ptr q _) = q"
| "NodeTq (Adcl _ q _) = q"
| "NodeTq (Sdcl _ q _) = q"
| "NodeTq (Udcl _ q _) = q"
| "NodeTq (Edcl _ q _) = q"
| "NodeTq (Fdcl q _ _) = q"

fun NodeUpdateTq :: "(TypeQual \<Rightarrow> TypeQual) \<Rightarrow> ctype \<Rightarrow> ctype" where
  "NodeUpdateTq f (Prim q b) = Prim (f q) b"
| "NodeUpdateTq f (Tdef q n t) = Tdef (f q) n t"
| "NodeUpdateTq f (Ptr q t) = Ptr (f q) t"
| "NodeUpdateTq f (Adcl i q t) = Adcl i (f q) t"
| "NodeUpdateTq f (Sdcl i q u) = Sdcl i (f q) u"
| "NodeUpdateTq f (Udcl i q u) = Udcl i (f q) u"
| "NodeUpdateTq f (Edcl i q u) = Edcl i (f q) u"
| "NodeUpdateTq f (Fdcl q as r) = Fdcl (f q) as r"

definition NodeTypeQuals :: "ctype \<Rightarrow> TypeQual" where
  "NodeTypeQuals t = tq_type_quals (NodeTq t)"

text \<open>
  \<open>NodeTypeQuals\<close> has no attributes, so the unions that \<open>UnwindTdefs\<close> and \<open>SansSign\<close> take never read
  the attribute heap: the union is that of the bits, with the attributes of the second qualifier.
\<close>

definition union_bits :: "TypeQual \<Rightarrow> TypeQual \<Rightarrow> TypeQual" where
  "union_bits a b = \<lparr>tq = tq a OR tq b, attributes = attributes b\<rparr>"

lemma tq_union_bits:
  "attributes a = None \<Longrightarrow> tq_union a b s = Some (Inr (union_bits a b, s))"
  by (simp add: tq_union_def UnionLists.simps bindL_def retL_def liftL_def ret_def union_bits_def)

fun UnwindTdefs_from :: "ctype \<Rightarrow> TypeQual \<Rightarrow> cc_fail + (ctype \<times> TypeQual)" where
  "UnwindTdefs_from (Tdef _ _ None) q = Inl AssertFail"
| "UnwindTdefs_from (Tdef _ _ (Some t)) q = UnwindTdefs_from t (union_bits q (NodeTypeQuals t))"
| "UnwindTdefs_from t q = Inr (t, q)"

definition UnwindTdefs :: "ctype \<Rightarrow> cc_fail + (ctype \<times> TypeQual)" where
  "UnwindTdefs t = UnwindTdefs_from t (NodeTypeQuals t)"

definition SansSign :: "ctype \<Rightarrow> ctype" where
  "SansSign t = (case t of
      Prim q b \<Rightarrow>
        (case (if b \<in> {Uchar, Schar, Char} then Some Char
               else if b \<in> {Ushort, Sshort} then Some Ushort
               else if b \<in> {Ulong, Slong} then Some Ulong
               else if b \<in> {Ulonglong, Slonglong} then Some Ulonglong
               else if b \<in> {Uint, Sint} then Some Uint
               else None) of
           None \<Rightarrow> t
         | Some c \<Rightarrow> if tq_has_anything q then Prim (union_bits EMPTY_TQ q) c else Prim EMPTY_TQ c)
    | _ \<Rightarrow> t)"

subsection \<open>Sizes\<close>

definition CHAR_SIZE :: "32 word" where "CHAR_SIZE = 1"
definition SHORT_SIZE :: "32 word" where "SHORT_SIZE = 2"
definition INT_SIZE :: "32 word" where "INT_SIZE = 4"
definition LONG_SIZE :: "32 word" where "LONG_SIZE = 8"
definition LONGLONG_SIZE :: "32 word" where "LONGLONG_SIZE = 8"
definition FLOAT_SIZE :: "32 word" where "FLOAT_SIZE = 4"
definition DOUBLE_SIZE :: "32 word" where "DOUBLE_SIZE = 8"
definition LONGDOUBLE_SIZE :: "32 word" where "LONGDOUBLE_SIZE = 16"
definition POINTER_SIZE :: "32 word" where "POINTER_SIZE = 8"

definition basic_sizeof :: "BasicType \<Rightarrow> (32 word) cc_prog" where
  "basic_sizeof b =
     (if b \<in> {Char, Schar, Uchar} then ret CHAR_SIZE
      else if b \<in> {Sshort, Ushort} then ret SHORT_SIZE
      else if b \<in> {Sint, Uint} then ret INT_SIZE
      else if b \<in> {Slong, Ulong} then ret LONG_SIZE
      else if b \<in> {Slonglong, Ulonglong} then ret LONGLONG_SIZE
      else if b = Float then ret FLOAT_SIZE
      else if b = Double then ret DOUBLE_SIZE
      else if b = Longdouble then ret LONGDOUBLE_SIZE
      else if b = Void then
        bindM (getM ANSIOnly) (\<lambda>a. if a then bindM SyntaxErrorCoord (\<lambda>_. ret 1) else ret 1)
      else bindM (WarningCoord 1) (\<lambda>_. ret 1))"

definition string_value :: "node \<Rightarrow> cc_fail + string" where
  "string_value n = (case n of Const _ _ (Val_s v) \<Rightarrow> Inr v | _ \<Rightarrow> Inl Undefined)"

definition NodeSizeof :: "node \<Rightarrow> ctype option \<Rightarrow> bool \<Rightarrow> (32 word) cc_prog" where
  "NodeSizeof n node_type allow_unsized_array =
     bindM (liftE (case node_type of None \<Rightarrow> NodeDataType n | Some t \<Rightarrow> Inr (type_base t))) (\<lambda>t.
     case t of
       Prim _ b \<Rightarrow> basic_sizeof b
     | Ptr _ _ \<Rightarrow> ret POINTER_SIZE
     | Sdcl _ _ u \<Rightarrow> bindM (IsStructComplete t) (\<lambda>c.
         if \<not> c then bindM SyntaxErrorCoord (\<lambda>_. ret 1) else getM (\<lambda>s. sue_size (sues s u)))
     | Udcl _ _ u \<Rightarrow> bindM (IsUnionComplete t) (\<lambda>c.
         if \<not> c then bindM SyntaxErrorCoord (\<lambda>_. ret 1) else getM (\<lambda>s. sue_size (sues s u)))
     | Edcl _ _ _ \<Rightarrow> ret INT_SIZE
     | Adcl i _ _ \<Rightarrow>
         if IsStringConstant n then
           bindM (liftE (string_value n)) (\<lambda>v. ret (word_of_nat (length v) + 1))
         else bindM (IsUnsizedArray t) (\<lambda>un.
           if un then
             (if allow_unsized_array then ret 0 else bindM SyntaxErrorCoord (\<lambda>_. ret 1))
           else getM (\<lambda>s. array_size (arrays s (dimp s i))))
     | Fdcl _ _ _ \<Rightarrow>
         bindM (getM ANSIOnly) (\<lambda>a. if a then bindM SyntaxErrorCoord (\<lambda>_. ret 1) else ret 1)
     | Tdef _ _ _ \<Rightarrow> failM Fail)"

subsection \<open>Alignment\<close>

definition basic_alignment :: "BasicType \<Rightarrow> int cc_prog" where
  "basic_alignment b =
     (if b \<in> {Char, Schar, Uchar} then ret 1
      else if b \<in> {Sshort, Ushort} then ret 2
      else if b \<in> {Sint, Uint} then ret 4
      else if b \<in> {Slong, Ulong} then ret 8
      else if b \<in> {Slonglong, Ulonglong} then ret 8
      else if b = Float then ret 4
      else if b = Double then ret 8
      else if b = Longdouble then ret 16
      else if b = Void then bindM SyntaxErrorCoord (\<lambda>_. ret 1)
      else bindM (WarningCoord 1) (\<lambda>_. ret 1))"

lemma type_base_size [termination_simp]: "size (type_base t) < Suc (size t)"
  by (induction t rule: type_base.induct) auto

fun alignment :: "ctype \<Rightarrow> int cc_prog" where
  "alignment (Prim _ b) = basic_alignment b"
| "alignment (Ptr _ _) = ret 8"
| "alignment (Adcl _ _ t) = alignment (type_base t)"
| "alignment (Sdcl i q u) = bindM (IsStructComplete (Sdcl i q u)) (\<lambda>c.
     if \<not> c then bindM SyntaxErrorCoord (\<lambda>_. ret 1) else getM (\<lambda>s. sue_align (sues s u)))"
| "alignment (Udcl i q u) = bindM (IsUnionComplete (Udcl i q u)) (\<lambda>c.
     if \<not> c then bindM SyntaxErrorCoord (\<lambda>_. ret 1) else getM (\<lambda>s. sue_align (sues s u)))"
| "alignment (Edcl _ _ _) = ret 4"
| "alignment _ = bindM (WarningCoord 1) (\<lambda>_. ret 1)"

definition NodeAlignment :: "node \<Rightarrow> ctype option \<Rightarrow> int cc_prog" where
  "NodeAlignment n node_type =
     bindM (liftE (case node_type of Some t \<Rightarrow> Inr t | None \<Rightarrow> NodeDataType n)) alignment"

subsection \<open>Lvalues\<close>

definition decl_tq :: "decl \<Rightarrow> TypeQual" where
  "decl_tq d = (case d of Decl _ q _ _ _ \<Rightarrow> q)"

definition NodeStorageClass :: "decl \<Rightarrow> TypeQual" where
  "NodeStorageClass d = tq_storage_class (decl_tq d)"

definition NodeDeclLocation :: "decl \<Rightarrow> TypeQual" where
  "NodeDeclLocation d = tq_decl_location (decl_tq d)"

definition DeclIsEnumConst :: "decl \<Rightarrow> bool" where
  "DeclIsEnumConst d = tq_has_enum_decl (decl_tq d)"

definition DeclIsTypedef :: "decl \<Rightarrow> bool" where
  "DeclIsTypedef d = tq_has_typedef (NodeStorageClass d)"

definition DeclIsBlock :: "decl \<Rightarrow> bool" where
  "DeclIsBlock d = tq_has_block_decl (NodeDeclLocation d)"

fun IsLvalue_Local :: "node \<Rightarrow> bool \<Rightarrow> bool cc_prog" where
  "IsLvalue_Local n modifiablep =
     bindM (liftE (bindE (NodeDataTypeSuperior n) UnwindTdefs)) (\<lambda>(t, q).
     if modifiablep \<and> tq_has_const q then ret False else
     (case n of
        Id _ d _ \<Rightarrow>
          (case t of
             Prim _ _ \<Rightarrow> ret True | Sdcl _ _ _ \<Rightarrow> ret True | Udcl _ _ _ \<Rightarrow> ret True
           | Edcl _ _ _ \<Rightarrow> ret True | Ptr _ _ \<Rightarrow> ret True
           | Tdef _ _ _ \<Rightarrow> ret False
           | _ \<Rightarrow> (case d of None \<Rightarrow> failM BadPointer
                    | Some d \<Rightarrow> ret (tq_has_formal_decl (NodeDeclLocation d))))
      | Unary opc _ _ _ \<Rightarrow> ret (opc = INDIR)
      | Array _ _ _ \<Rightarrow> ret True
      | Binop opc left _ _ _ \<Rightarrow>
          bindM (if opc = OP_dot then IsLvalue_Local left modifiablep else ret False) (\<lambda>b.
          ret ((b \<or> opc = ARROW) \<and> \<not> IsArrayType t))
      | Comma es \<Rightarrow>
          bindM (getM ANSIOnly) (\<lambda>ansi.
          bindM (if ansi then SyntaxErrorCoord else ret ()) (\<lambda>_.
          if es = [] then failM AssertFail else IsLvalue_Local (last es) modifiablep))
      | Cast _ e _ \<Rightarrow> IsLvalue_Local e False
      | _ \<Rightarrow> ret False))"

definition IsModifiableLvalue :: "node \<Rightarrow> bool cc_prog" where
  "IsModifiableLvalue n = IsLvalue_Local n True"

definition IsLvalue :: "node \<Rightarrow> bool cc_prog" where
  "IsLvalue n = IsLvalue_Local n False"

definition IsEllipsis :: "ctype \<Rightarrow> bool" where
  "IsEllipsis t = (case t of Prim _ b \<Rightarrow> b = Ellipsis | _ \<Rightarrow> False)"

definition IsVoidArglist :: "ctype list \<Rightarrow> bool" where
  "IsVoidArglist ts = (case ts of [t] \<Rightarrow> IsVoidType t | _ \<Rightarrow> False)"

end
