(* ===== verification/Cc_Constexpr.thy ===== *)
theory Cc_Constexpr
  imports Cc_Type
begin

section \<open>Constant expressions (cilk2c/constexpr.c)\<close>

text \<open>
  The constant that an expression has been folded to, the readers of its value, and the folding of
  conditional expressions and casts. A setter returns the node it has changed. The readers of a
  signed or unsigned value read one member of the C union of the constant; the model has the member
  that was written last, and reading another one is an error.
\<close>

subsection \<open>Getting and setting the constant of a node\<close>

definition node_value :: "node \<Rightarrow> node option" where
  "node_value n = (case n of
      Const _ _ _ \<Rightarrow> Some n
    | Id _ _ v \<Rightarrow> v
    | Binop _ _ _ _ v \<Rightarrow> v
    | Unary _ _ _ v \<Rightarrow> v
    | Cast _ _ v \<Rightarrow> v
    | ImplicitCast _ _ v \<Rightarrow> v
    | Comma _ \<Rightarrow> None
    | Ternary _ _ _ _ v \<Rightarrow> v
    | Array _ _ _ \<Rightarrow> None
    | Call _ _ \<Rightarrow> None
    | TypeNode _ \<Rightarrow> None
    | DeclNode _ \<Rightarrow> None)"

definition is_Const :: "node \<Rightarrow> bool" where
  "is_Const n = (case n of Const _ _ _ \<Rightarrow> True | _ \<Rightarrow> False)"

definition NodeGetConstantValue :: "node \<Rightarrow> cc_fail + node option" where
  "NodeGetConstantValue n =
     (case node_value n of
        None \<Rightarrow> Inr None
      | Some v \<Rightarrow> bindE (assertE (is_Const v)) (\<lambda>_. Inr (Some v)))"

definition NodeIsConstant :: "node \<Rightarrow> cc_fail + bool" where
  "NodeIsConstant n = bindE (NodeGetConstantValue n) (\<lambda>v. Inr (v \<noteq> None))"

fun NodeSetConstantValue :: "node \<Rightarrow> node \<Rightarrow> cc_fail + node" where
  "NodeSetConstantValue n (Const x t v) = (case n of
      Const y u w \<Rightarrow> Inr (Const y u v)
    | Id m d w \<Rightarrow> Inr (Id m d (Some (Const x t v)))
    | Binop opc l r u w \<Rightarrow> Inr (Binop opc l r u (Some (Const x t v)))
    | Unary opc e u w \<Rightarrow> Inr (Unary opc e u (Some (Const x t v)))
    | Cast u e w \<Rightarrow> Inr (Cast u e (Some (Const x t v)))
    | ImplicitCast e u w \<Rightarrow> Inr (ImplicitCast e u (Some (Const x t v)))
    | Ternary c a b u w \<Rightarrow> Inr (Ternary c a b u (Some (Const x t v)))
    | _ \<Rightarrow> Inl Fail)"
| "NodeSetConstantValue n _ = Inl AssertFail"

subsection \<open>Reading a constant\<close>

fun value_i :: "cvalue \<Rightarrow> cc_fail + 32 word" where
  "value_i (Val_i w) = Inr w" | "value_i _ = Inl Undefined"
fun value_u :: "cvalue \<Rightarrow> cc_fail + 32 word" where
  "value_u (Val_u w) = Inr w" | "value_u _ = Inl Undefined"
fun value_l :: "cvalue \<Rightarrow> cc_fail + 64 word" where
  "value_l (Val_l w) = Inr w" | "value_l _ = Inl Undefined"
fun value_ul :: "cvalue \<Rightarrow> cc_fail + 64 word" where
  "value_ul (Val_ul w) = Inr w" | "value_ul _ = Inl Undefined"
fun value_f :: "cvalue \<Rightarrow> cc_fail + 32 word" where
  "value_f (Val_f w) = Inr w" | "value_f _ = Inl Undefined"
fun value_d :: "cvalue \<Rightarrow> cc_fail + 64 word" where
  "value_d (Val_d w) = Inr w" | "value_d _ = Inl Undefined"
fun value_s :: "cvalue \<Rightarrow> cc_fail + string" where
  "value_s (Val_s w) = Inr w" | "value_s _ = Inl Undefined"

definition const_of :: "node \<Rightarrow> cc_fail + cvalue" where
  "const_of n = (case n of Const _ _ v \<Rightarrow> Inr v | _ \<Rightarrow> Inl Undefined)"

definition typed_value :: "(node \<Rightarrow> cc_fail + bool) \<Rightarrow> (cvalue \<Rightarrow> cc_fail + 'a) \<Rightarrow> node \<Rightarrow> cc_fail + 'a" where
  "typed_value type_is member n =
     bindE (NodeGetConstantValue n) (\<lambda>v.
     bindE (someE v) (\<lambda>val.
     bindE (type_is val) (\<lambda>ok.
     bindE (assertE ok) (\<lambda>_.
     bindE (const_of val) member))))"

definition NodeConstantCharValue :: "node \<Rightarrow> cc_fail + 32 word" where
  "NodeConstantCharValue = typed_value NodeTypeIsChar value_i"
definition NodeConstantSintValue :: "node \<Rightarrow> cc_fail + 32 word" where
  "NodeConstantSintValue = typed_value NodeTypeIsSint value_i"
definition NodeConstantUintValue :: "node \<Rightarrow> cc_fail + 32 word" where
  "NodeConstantUintValue = typed_value NodeTypeIsUint value_u"
definition NodeConstantSlongValue :: "node \<Rightarrow> cc_fail + 64 word" where
  "NodeConstantSlongValue = typed_value NodeTypeIsSlong value_l"
definition NodeConstantUlongValue :: "node \<Rightarrow> cc_fail + 64 word" where
  "NodeConstantUlongValue = typed_value NodeTypeIsUlong value_ul"
definition NodeConstantFloatValue :: "node \<Rightarrow> cc_fail + 32 word" where
  "NodeConstantFloatValue = typed_value NodeTypeIsFloat value_f"
definition NodeConstantDoubleValue :: "node \<Rightarrow> cc_fail + 64 word" where
  "NodeConstantDoubleValue = typed_value NodeTypeIsDouble value_d"
definition NodeConstantStringValue :: "node \<Rightarrow> cc_fail + string" where
  "NodeConstantStringValue = typed_value NodeTypeIsString value_s"

text \<open>The three readers that switch on the type of the constant.\<close>

definition NodeConstantIntegralValue :: "node \<Rightarrow> cc_fail + 64 word" where
  "NodeConstantIntegralValue n =
     bindE (NodeGetConstantValue n) (\<lambda>v.
     bindE (someE v) (\<lambda>val.
     bindE (NodeDataType val) (\<lambda>t.
     bindE (const_of val) (\<lambda>c.
     case t of
       Prim _ Sint \<Rightarrow> bindE (value_i c) (\<lambda>w. Inr (scast w))
     | Prim _ Uint \<Rightarrow> bindE (value_u c) (\<lambda>w. Inr (ucast w))
     | Prim _ Slong \<Rightarrow> value_l c
     | Prim _ Ulong \<Rightarrow> value_ul c
     | _ \<Rightarrow> Inl Fail))))"

text \<open>\<open>Bool\<close> is \<open>int\<close>, so a value is converted to 32 bits before it is tested.\<close>

definition int_of_real :: "int option \<Rightarrow> cc_fail + 32 word" where
  "int_of_real x = (case x of
      None \<Rightarrow> Inl Undefined
    | Some i \<Rightarrow> if - (2 ^ 31) \<le> i \<and> i < 2 ^ 31 then Inr (word_of_int i) else Inl Undefined)"

definition NodeConstantBooleanValue :: "fpu \<Rightarrow> node \<Rightarrow> cc_fail + 32 word" where
  "NodeConstantBooleanValue h n =
     bindE (NodeGetConstantValue n) (\<lambda>v.
     bindE (someE v) (\<lambda>val.
     bindE (NodeDataType val) (\<lambda>t.
     bindE (const_of val) (\<lambda>c.
     case t of
       Prim _ Sint \<Rightarrow> value_i c
     | Prim _ Uint \<Rightarrow> value_u c
     | Prim _ Slong \<Rightarrow> bindE (value_l c) (\<lambda>w. Inr (ucast w))
     | Prim _ Ulong \<Rightarrow> bindE (value_ul c) (\<lambda>w. Inr (ucast w))
     | Prim _ Float \<Rightarrow> bindE (value_f c) (\<lambda>w. int_of_real (f_to_int h w))
     | Prim _ Double \<Rightarrow> bindE (value_d c) (\<lambda>w. int_of_real (d_to_int h w))
     | Adcl _ _ _ \<Rightarrow> Inr 1
     | _ \<Rightarrow> Inl Fail))))"

definition IsConstantZero :: "fpu \<Rightarrow> node \<Rightarrow> cc_fail + bool" where
  "IsConstantZero h n =
     bindE (NodeGetConstantValue n) (\<lambda>v.
     case v of None \<Rightarrow> Inr False | Some val \<Rightarrow>
     bindE (NodeDataType val) (\<lambda>t.
     bindE (const_of val) (\<lambda>c.
     case t of
       Prim _ Sint \<Rightarrow> bindE (value_i c) (\<lambda>w. Inr (w = 0))
     | Prim _ Uint \<Rightarrow> bindE (value_u c) (\<lambda>w. Inr (w = 0))
     | Prim _ Slong \<Rightarrow> bindE (value_l c) (\<lambda>w. Inr (w = 0))
     | Prim _ Ulong \<Rightarrow> bindE (value_ul c) (\<lambda>w. Inr (w = 0))
     | Prim _ Float \<Rightarrow> bindE (value_f c) (\<lambda>w. Inr (f_cmp h EQ w (f_of_int h 0)))
     | Prim _ Double \<Rightarrow> bindE (value_d c) (\<lambda>w. Inr (d_cmp h EQ w (d_of_int h 0)))
     | Adcl _ _ _ \<Rightarrow> Inr False
     | _ \<Rightarrow> Inl Fail)))"

definition NodeSetSintValue :: "node \<Rightarrow> 32 word \<Rightarrow> cc_fail + node" where
  "NodeSetSintValue n i = NodeSetConstantValue n (MakeConstSint i)"
definition NodeSetUintValue :: "node \<Rightarrow> 32 word \<Rightarrow> cc_fail + node" where
  "NodeSetUintValue n u = NodeSetConstantValue n (MakeConstUint u)"
definition NodeSetSlongValue :: "node \<Rightarrow> 64 word \<Rightarrow> cc_fail + node" where
  "NodeSetSlongValue n l = NodeSetConstantValue n (MakeConstSlong l)"
definition NodeSetUlongValue :: "node \<Rightarrow> 64 word \<Rightarrow> cc_fail + node" where
  "NodeSetUlongValue n ul = NodeSetConstantValue n (MakeConstUlong ul)"
definition NodeSetFloatValue :: "node \<Rightarrow> 32 word \<Rightarrow> cc_fail + node" where
  "NodeSetFloatValue n f = NodeSetConstantValue n (MakeConstFloat f)"
definition NodeSetDoubleValue :: "node \<Rightarrow> 64 word \<Rightarrow> cc_fail + node" where
  "NodeSetDoubleValue n d = NodeSetConstantValue n (MakeConstDouble d)"

definition IsConstantString :: "node \<Rightarrow> cc_fail + bool" where
  "IsConstantString n = bindE (NodeIsConstant n) (\<lambda>c. if c then NodeTypeIsString n else Inr False)"

definition IsIntegralConstant :: "node \<Rightarrow> cc_fail + bool" where
  "IsIntegralConstant n = bindE (NodeIsConstant n) (\<lambda>c. if c then NodeTypeIsIntegral n else Inr False)"

definition IntegralConstEqual :: "node \<Rightarrow> node \<Rightarrow> cc_fail + bool" where
  "IntegralConstEqual n1 n2 =
     bindE (NodeConstantIntegralValue n1) (\<lambda>a.
     bindE (NodeConstantIntegralValue n2) (\<lambda>b. Inr (a = b)))"

subsection \<open>Constant folding\<close>

definition ConstFoldTernary :: "fpu \<Rightarrow> node \<Rightarrow> cc_fail + node" where
  "ConstFoldTernary h n = (case n of
      Ternary cond tr fa _ _ \<Rightarrow>
        bindE (NodeIsConstant cond) (\<lambda>c.
        if \<not> c then Inr n else
        bindE (case tr of None \<Rightarrow> Inr True | Some t \<Rightarrow> NodeIsConstant t) (\<lambda>a.
        if \<not> a then Inr n else
        bindE (NodeIsConstant fa) (\<lambda>b.
        if \<not> b then Inr n else
        bindE (NodeConstantBooleanValue h cond) (\<lambda>x.
        bindE (if x \<noteq> 0 then NodeGetConstantValue (case tr of None \<Rightarrow> cond | Some t \<Rightarrow> t)
               else NodeGetConstantValue fa) (\<lambda>v.
        bindE (someE v) (NodeSetConstantValue n))))))
    | _ \<Rightarrow> Inl AssertFail)"

definition BasicTypeOfConstantValue :: "ctype \<Rightarrow> cc_fail + BasicType" where
  "BasicTypeOfConstantValue t = (case t of
      Ptr _ _ \<Rightarrow> Inr Uint
    | Edcl _ _ _ \<Rightarrow> Inr Sint
    | Prim _ b \<Rightarrow> Inr (if b \<in> {Char, Schar, Uchar, Sshort, Ushort} then Sint else b)
    | _ \<Rightarrow> Inl AssertFail)"

text \<open>A cast of an integer constant: the value is given as an integer, each target keeps its bits.\<close>

definition set_from_int :: "fpu \<Rightarrow> node \<Rightarrow> BasicType \<Rightarrow> int \<Rightarrow> cc_fail + node" where
  "set_from_int h n to_basic i = (case to_basic of
      Sint \<Rightarrow> NodeSetSintValue n (word_of_int i)
    | Uint \<Rightarrow> NodeSetUintValue n (word_of_int i)
    | Slong \<Rightarrow> NodeSetSlongValue n (word_of_int i)
    | Ulong \<Rightarrow> NodeSetUlongValue n (word_of_int i)
    | Float \<Rightarrow> NodeSetFloatValue n (f_of_int h i)
    | Double \<Rightarrow> NodeSetDoubleValue n (d_of_int h i)
    | _ \<Rightarrow> Inl Fail)"

text \<open>
  A cast of a floating constant: a value outside the integer type is undefined in C, and so is the
  conversion of a double to a float it does not fit; the latter is left to \<open>d_to_f\<close>.
\<close>

definition real_to_word :: "int \<Rightarrow> int \<Rightarrow> int option \<Rightarrow> cc_fail + 'a::len word" where
  "real_to_word lo hi x = (case x of
      None \<Rightarrow> Inl Undefined
    | Some i \<Rightarrow> if lo \<le> i \<and> i < hi then Inr (word_of_int i) else Inl Undefined)"

definition set_from_real :: "node \<Rightarrow> BasicType \<Rightarrow> int option \<Rightarrow> 32 word \<Rightarrow> 64 word \<Rightarrow> cc_fail + node" where
  "set_from_real n to_basic i f d = (case to_basic of
      Sint \<Rightarrow> bindE (real_to_word (- (2 ^ 31)) (2 ^ 31) i) (NodeSetSintValue n)
    | Uint \<Rightarrow> bindE (real_to_word 0 (2 ^ 32) i) (NodeSetUintValue n)
    | Slong \<Rightarrow> bindE (real_to_word (- (2 ^ 63)) (2 ^ 63) i) (NodeSetSlongValue n)
    | Ulong \<Rightarrow> bindE (real_to_word 0 (2 ^ 64) i) (NodeSetUlongValue n)
    | Float \<Rightarrow> NodeSetFloatValue n f
    | Double \<Rightarrow> NodeSetDoubleValue n d
    | _ \<Rightarrow> Inl Fail)"

definition fold_cast :: "fpu \<Rightarrow> node \<Rightarrow> node \<Rightarrow> BasicType \<Rightarrow> BasicType \<Rightarrow> cc_fail + node" where
  "fold_cast h n expr from_basic to_basic = (case from_basic of
      Sint \<Rightarrow> bindE (NodeConstantSintValue expr) (\<lambda>eval. set_from_int h n to_basic (sint eval))
    | Uint \<Rightarrow> bindE (NodeConstantUintValue expr) (\<lambda>eval. set_from_int h n to_basic (uint eval))
    | Slong \<Rightarrow> bindE (NodeConstantSlongValue expr) (\<lambda>eval. set_from_int h n to_basic (sint eval))
    | Ulong \<Rightarrow> bindE (NodeConstantUlongValue expr) (\<lambda>eval. set_from_int h n to_basic (uint eval))
    | Float \<Rightarrow> bindE (NodeConstantFloatValue expr) (\<lambda>eval.
        set_from_real n to_basic (f_to_int h eval) eval (f_to_d h eval))
    | Double \<Rightarrow> bindE (NodeConstantDoubleValue expr) (\<lambda>eval.
        set_from_real n to_basic (d_to_int h eval) (d_to_f h eval) eval)
    | _ \<Rightarrow> Inl Fail)"

definition ConstFoldCast :: "fpu \<Rightarrow> node \<Rightarrow> cc_fail + node" where
  "ConstFoldCast h n =
     bindE (case n of
        Cast _ e _ \<Rightarrow> Inr (Some e) | ImplicitCast e _ _ \<Rightarrow> Inr e | _ \<Rightarrow> Inl Fail) (\<lambda>x.
     case x of None \<Rightarrow> Inr n | Some expr \<Rightarrow>
     bindE (NodeIsConstant expr) (\<lambda>c.
     if \<not> c then Inr n else
     bindE (NodeDataType n) (\<lambda>to_type.
     bindE (NodeDataType expr) (\<lambda>from_type.
     if \<not> (IsScalarType to_type \<and> IsScalarType from_type) then Inr n else
     bindE (BasicTypeOfConstantValue from_type) (\<lambda>from_basic.
     bindE (BasicTypeOfConstantValue to_type) (\<lambda>to_basic.
     if to_basic \<in> {Slonglong, Ulonglong, Longdouble} then Inr n
     else fold_cast h n expr from_basic to_basic))))))"

end
