(* ===== verification/Cc_TypeEqual.thy ===== *)
theory Cc_TypeEqual
  imports Cc_Constexpr
begin

section \<open>Equality and merging of types (cilk2c/type.c, ast.c)\<close>

text \<open>
  When two types are equal, with or without their qualifiers, and the type made of one type and the
  qualifiers of another. Comparing two array types where only one has a dimension makes them share
  it, so the comparison changes the state.
\<close>

subsection \<open>Equality\<close>

definition SUE_SameTagp :: "nat \<Rightarrow> nat \<Rightarrow> bool cc_prog" where
  "SUE_SameTagp sue1 sue2 = getM (\<lambda>s.
     case sue_name (sues s sue1) of
       None \<Rightarrow> False
     | Some a \<Rightarrow> (case sue_name (sues s sue2) of None \<Rightarrow> False | Some b \<Rightarrow> a = b))"

text \<open>
  Two declarators of arrays: when both have a dimension the constants must agree; when one has none it
  takes that of the other.
\<close>

definition same_dims :: "nat \<Rightarrow> nat \<Rightarrow> bool cc_prog" where
  "same_dims i1 i2 = (\<lambda>s.
     case dim (arrays s (dimp s i1)) of
       None \<Rightarrow> Inr (True, s\<lparr>dimp := (dimp s)(i1 := dimp s i2)\<rparr>)
     | Some d1 \<Rightarrow>
         (case dim (arrays s (dimp s i2)) of
            None \<Rightarrow> Inr (True, s\<lparr>dimp := (dimp s)(i2 := dimp s i1)\<rparr>)
          | Some d2 \<Rightarrow> liftE
              (bindE (NodeIsConstant d1) (\<lambda>c1.
               if \<not> c1 then Inr True else
               bindE (NodeIsConstant d2) (\<lambda>c2.
               if \<not> c2 then Inr True else IntegralConstEqual d1 d2))) s))"

definition andM :: "bool cc_prog \<Rightarrow> bool cc_prog \<Rightarrow> bool cc_prog" where
  "andM m n = bindM m (\<lambda>b. if b then n else ret False)"

lemma andM_cong [fundef_cong]: "m = m' \<Longrightarrow> n = n' \<Longrightarrow> andM m n = andM m' n'"
  by simp

lemma UnwindTdefs_size: "UnwindTdefs_from t q = Inr (u, q') \<Longrightarrow> size u \<le> size t"
  by (induction t q rule: UnwindTdefs_from.induct) auto

definition compared_quals :: "TypeQual \<Rightarrow> bool \<Rightarrow> TypeQual" where
  "compared_quals q strict =
     (let q = tq_remove_sue_elaborated q in if strict then q else tq_remove_compatible q)"

function TypeEqualQualified :: "ctype \<Rightarrow> ctype \<Rightarrow> bool \<Rightarrow> bool \<Rightarrow> bool cc_prog"
  and formals_equal :: "ctype list \<Rightarrow> ctype list \<Rightarrow> bool \<Rightarrow> bool cc_prog" where
  "TypeEqualQualified node1 node2 strict_toplevel strict_recursive =
     (case UnwindTdefs node1 of Inl e \<Rightarrow> failM e | Inr (n1, tq1) \<Rightarrow>
     (case UnwindTdefs node2 of Inl e \<Rightarrow> failM e | Inr (n2, tq2) \<Rightarrow>
     (if \<not> tq_equal (compared_quals tq1 strict_toplevel) (compared_quals tq2 strict_toplevel)
      then ret False else
      (case (n1, n2) of
         (Prim _ b1, Prim _ b2) \<Rightarrow> ret (b1 = b2)
       | (Ptr _ t1, Ptr _ t2) \<Rightarrow> TypeEqualQualified t1 t2 strict_recursive strict_recursive
       | (Adcl i1 _ t1, Adcl i2 _ t2) \<Rightarrow>
           andM (TypeEqualQualified t1 t2 strict_recursive strict_recursive) (same_dims i1 i2)
       | (Sdcl i1 _ u1, Sdcl i2 _ u2) \<Rightarrow> if i1 = i2 then ret True else SUE_SameTagp u1 u2
       | (Udcl i1 _ u1, Udcl i2 _ u2) \<Rightarrow> if i1 = i2 then ret True else SUE_SameTagp u1 u2
       | (Edcl i1 _ u1, Edcl i2 _ u2) \<Rightarrow> if i1 = i2 then ret True else SUE_SameTagp u1 u2
       | (Fdcl _ a1 r1, Fdcl _ a2 r2) \<Rightarrow>
           andM (TypeEqualQualified r1 r2 strict_recursive strict_recursive)
             (case (a1, a2) of
                (Some as1, Some as2) \<Rightarrow>
                  if length as1 \<noteq> length as2 then ret False
                  else formals_equal as1 as2 strict_recursive
              | _ \<Rightarrow> ret True)
       | _ \<Rightarrow> ret False))))"
| "formals_equal (t1 # ts1) (t2 # ts2) strict =
     andM (TypeEqualQualified t1 t2 strict strict) (formals_equal ts1 ts2 strict)"
| "formals_equal [] ts2 strict = ret True"
| "formals_equal ts1 [] strict = ret True"
  by pat_completeness auto
termination
  by (relation "measure (\<lambda>x. case x of Inl (t, _, _, _) \<Rightarrow> size t | Inr (ts, _, _) \<Rightarrow> size_list size ts)")
    (auto simp: UnwindTdefs_def dest!: UnwindTdefs_size)

definition TypeEqual :: "ctype \<Rightarrow> ctype \<Rightarrow> bool cc_prog" where
  "TypeEqual node1 node2 = TypeEqualQualified node1 node2 True True"

definition TypeEqualFormals :: "ctype \<Rightarrow> ctype \<Rightarrow> bool cc_prog" where
  "TypeEqualFormals node1 node2 = (case (node1, node2) of
      (Adcl _ _ t1, Ptr _ t2) \<Rightarrow> TypeEqual t1 t2
    | (Ptr _ t1, Adcl _ _ t2) \<Rightarrow> TypeEqual t2 t1
    | _ \<Rightarrow> TypeEqual node1 node2)"

subsection \<open>Merging\<close>

text \<open>A list operation on the attribute lists, run on the state of the semantic check.\<close>

definition on_attrs :: "(nat, 'a) list_loop \<Rightarrow> 'a cc_loop" where
  "on_attrs m = (\<lambda>s. case m (attrs s) of
      None \<Rightarrow> None
    | Some (Inl e) \<Rightarrow> Some (Inl e)
    | Some (Inr (a, h)) \<Rightarrow> Some (Inr (a, s\<lparr>attrs := h\<rparr>)))"

definition MergeTypeQuals :: "TypeQual \<Rightarrow> TypeQual \<Rightarrow> TypeQual cc_loop" where
  "MergeTypeQuals left right =
     bindL (on_attrs (JoinLists (attributes left) (attributes right))) (\<lambda>l.
     let result = tq_attribute l;
         scl = tq_storage_class left;
         scr = tq_storage_class right in
     bindL (if tq_has_anything scl \<and> tq_has_anything scr
            then bindL (liftL (if tq_equal scl scr then WarningCoord 4 else SyntaxErrorCoord)) (\<lambda>_.
                 on_attrs (tq_union result scl))
            else bindL (on_attrs (tq_union scl scr)) (\<lambda>u. on_attrs (tq_union result u))) (\<lambda>result.
     let dql = tq_subtract (tq_decl_quals left) scl;
         dqr = tq_subtract (tq_decl_quals right) scr in
     bindL (liftL (if tq_has_anything (tq_intersection dql dqr) then WarningCoord 4 else ret ())) (\<lambda>_.
     bindL (on_attrs (tq_union dql dqr)) (\<lambda>u.
     bindL (on_attrs (tq_union result u)) (\<lambda>result.
     let tql = tq_type_quals left;
         tqr = tq_type_quals right in
     bindL (liftL (if tq_has_anything (tq_intersection tql tqr) then WarningCoord 4 else ret ())) (\<lambda>_.
     bindL (on_attrs (tq_union tql tqr)) (\<lambda>u.
     on_attrs (tq_union result u))))))))"

definition TypeQualifyNode :: "ctype \<Rightarrow> TypeQual \<Rightarrow> ctype cc_loop" where
  "TypeQualifyNode t q = bindL (MergeTypeQuals (NodeTq t) q) (\<lambda>r. retL (NodeUpdateTq (\<lambda>_. r) t))"

text \<open>
  \<open>NodeCopy\<close> of one type node. A new array declarator shares the dimension of the old one, and a new
  struct, union or enum declarator does not elaborate the fields.
\<close>

definition new_id :: "nat cc_prog" where
  "new_id = bindM (getM next_node) (\<lambda>i. bindM (modifyM (\<lambda>s. s\<lparr>next_node := Suc i\<rparr>)) (\<lambda>_. ret i))"

definition NodeCopy :: "ctype \<Rightarrow> ctype cc_prog" where
  "NodeCopy from_type = (case from_type of
      Adcl i q t \<Rightarrow> bindM new_id (\<lambda>j.
        bindM (modifyM (\<lambda>s. s\<lparr>dimp := (dimp s)(j := dimp s i)\<rparr>)) (\<lambda>_. ret (Adcl j q t)))
    | Sdcl i q u \<Rightarrow> bindM new_id (\<lambda>j. ret (Sdcl j (tq_remove_sue_elaborated q) u))
    | Udcl i q u \<Rightarrow> bindM new_id (\<lambda>j. ret (Udcl j (tq_remove_sue_elaborated q) u))
    | Edcl i q u \<Rightarrow> bindM new_id (\<lambda>j. ret (Edcl j (tq_remove_sue_elaborated q) u))
    | _ \<Rightarrow> ret from_type)"

definition MakeMergedType :: "ctype \<Rightarrow> ctype \<Rightarrow> ctype cc_loop" where
  "MakeMergedType type1 qual2 =
     bindL (liftL (NodeCopy type1)) (\<lambda>t. TypeQualifyNode t (NodeTypeQuals qual2))"

end
