(* ===== verification/Cc_Conversions.thy ===== *)
theory Cc_Conversions
  imports Cc_TypeEqual
begin

section \<open>Conversions (cilk2c/conversions.c)\<close>

text \<open>
  The usual unary and binary conversions, the conversions of the two arms of a conditional
  expression, and the test whether one type can be converted to another.
\<close>

definition liftS :: "(cc_fail + 'a) \<Rightarrow> 'a cc_loop" where
  "liftS m = liftL (liftE m)"

definition hostM :: "(fpu \<Rightarrow> cc_fail + 'a) \<Rightarrow> 'a cc_prog" where
  "hostM f = bindM (getM host) (\<lambda>h. liftE (f h))"

definition hostL :: "(fpu \<Rightarrow> cc_fail + 'a) \<Rightarrow> 'a cc_loop" where
  "hostL f = liftL (hostM f)"

subsection \<open>Usual unary conversions\<close>

definition ImplicitConversions :: "fpu \<Rightarrow> node \<Rightarrow> ctype \<Rightarrow> cc_fail + node" where
  "ImplicitConversions h expr to_type = ConstFoldCast h (MakeImplicitCast to_type (Some expr))"

definition UCHAR_TO_INT_OVF :: bool where "UCHAR_TO_INT_OVF = False"
definition USHORT_TO_INT_OVF :: bool where "USHORT_TO_INT_OVF = False"

definition UsualUnaryConversions :: "fpu \<Rightarrow> node \<Rightarrow> bool \<Rightarrow> cc_fail + node" where
  "UsualUnaryConversions h n widen =
     bindE (NodeDataType n) (\<lambda>t. case t of
       Prim _ b \<Rightarrow>
         if b \<in> {Char, Schar, Sshort} then ImplicitConversions h n PrimSint
         else if b = Uchar then ImplicitConversions h n (if UCHAR_TO_INT_OVF then PrimUint else PrimSint)
         else if b = Ushort then ImplicitConversions h n (if USHORT_TO_INT_OVF then PrimUint else PrimSint)
         else if b = Float \<and> widen then ImplicitConversions h n PrimDouble
         else Inr n
     | Adcl _ _ u \<Rightarrow> Inr (MakeImplicitCast (MakePtr EMPTY_TQ u) (Some n))
     | Fdcl _ _ _ \<Rightarrow> Inr (MakeImplicitCast (MakePtr EMPTY_TQ t) (Some n))
     | _ \<Rightarrow> Inr n)"

definition UsualUnaryConversionType :: "ctype \<Rightarrow> ctype" where
  "UsualUnaryConversionType t = (case t of
      Prim _ b \<Rightarrow>
        if b \<in> {Char, Schar, Sshort} then PrimSint
        else if b = Uchar then (if UCHAR_TO_INT_OVF then PrimUint else PrimSint)
        else if b = Ushort then (if USHORT_TO_INT_OVF then PrimUint else PrimSint)
        else if b = Float then PrimDouble
        else t
    | _ \<Rightarrow> t)"

subsection \<open>Usual binary conversions\<close>

text \<open>
  What the inner switch does for a basic type of the first operand: nothing, or a conversion of the
  first or of the second operand; \<open>None\<close> where the code stops.
\<close>

datatype conv = Keep | Node1 BasicType | Node2 BasicType

definition conv_Sint :: "BasicType \<Rightarrow> conv option" where
  "conv_Sint b2 = (case b2 of
      Sint \<Rightarrow> Some Keep | Uint \<Rightarrow> Some (Node1 Uint) | Slong \<Rightarrow> Some (Node1 Slong)
    | Ulong \<Rightarrow> Some (Node1 Ulong) | Slonglong \<Rightarrow> Some (Node1 Slonglong)
    | Ulonglong \<Rightarrow> Some (Node1 Ulonglong) | Float \<Rightarrow> Some (Node1 Float)
    | Double \<Rightarrow> Some (Node1 Double) | Longdouble \<Rightarrow> Some (Node1 Longdouble) | _ \<Rightarrow> None)"

definition conv_Uint :: "BasicType \<Rightarrow> conv option" where
  "conv_Uint b2 = (case b2 of
      Sint \<Rightarrow> Some (Node2 Uint) | Uint \<Rightarrow> Some Keep | Slong \<Rightarrow> Some (Node1 Slong)
    | Ulong \<Rightarrow> Some (Node1 Ulong) | Slonglong \<Rightarrow> Some (Node1 Slonglong)
    | Ulonglong \<Rightarrow> Some (Node1 Ulonglong) | Float \<Rightarrow> Some (Node1 Float)
    | Double \<Rightarrow> Some (Node1 Double) | Longdouble \<Rightarrow> Some (Node1 Longdouble) | _ \<Rightarrow> None)"

definition conv_Slong :: "BasicType \<Rightarrow> conv option" where
  "conv_Slong b2 = (case b2 of
      Sint \<Rightarrow> Some (Node2 Slong) | Uint \<Rightarrow> Some (Node2 Slong) | Slong \<Rightarrow> Some Keep
    | Ulong \<Rightarrow> Some (Node1 Ulong) | Slonglong \<Rightarrow> Some (Node1 Slonglong)
    | Ulonglong \<Rightarrow> Some (Node1 Ulonglong) | Float \<Rightarrow> Some (Node1 Float)
    | Double \<Rightarrow> Some (Node1 Double) | Longdouble \<Rightarrow> Some (Node1 Longdouble) | _ \<Rightarrow> None)"

definition conv_Ulong :: "BasicType \<Rightarrow> conv option" where
  "conv_Ulong b2 = (case b2 of
      Sint \<Rightarrow> Some (Node2 Ulong) | Uint \<Rightarrow> Some (Node2 Ulong) | Slong \<Rightarrow> Some (Node2 Ulong)
    | Ulong \<Rightarrow> Some Keep | Slonglong \<Rightarrow> Some (Node1 Slonglong)
    | Ulonglong \<Rightarrow> Some (Node1 Ulonglong) | Float \<Rightarrow> Some (Node1 Float)
    | Double \<Rightarrow> Some (Node1 Double) | Longdouble \<Rightarrow> Some (Node1 Longdouble) | _ \<Rightarrow> None)"

definition conv_Slonglong :: "BasicType \<Rightarrow> conv option" where
  "conv_Slonglong b2 = (case b2 of
      Sint \<Rightarrow> Some (Node2 Slonglong) | Uint \<Rightarrow> Some (Node2 Slonglong) | Slong \<Rightarrow> Some (Node2 Slonglong)
    | Ulong \<Rightarrow> Some (Node2 Slonglong) | Slonglong \<Rightarrow> Some Keep
    | Ulonglong \<Rightarrow> Some (Node1 Ulonglong) | Float \<Rightarrow> Some (Node1 Float)
    | Double \<Rightarrow> Some (Node1 Double) | Longdouble \<Rightarrow> Some (Node1 Longdouble) | _ \<Rightarrow> None)"

definition conv_Ulonglong :: "BasicType \<Rightarrow> conv option" where
  "conv_Ulonglong b2 = (case b2 of
      Sint \<Rightarrow> Some (Node2 Ulonglong) | Uint \<Rightarrow> Some (Node2 Ulonglong) | Slong \<Rightarrow> Some (Node2 Ulonglong)
    | Ulong \<Rightarrow> Some (Node2 Ulonglong) | Slonglong \<Rightarrow> Some (Node2 Ulonglong)
    | Ulonglong \<Rightarrow> Some Keep | Float \<Rightarrow> Some (Node1 Float)
    | Double \<Rightarrow> Some (Node1 Double) | Longdouble \<Rightarrow> Some (Node1 Longdouble) | _ \<Rightarrow> None)"

definition conv_Float :: "BasicType \<Rightarrow> conv option" where
  "conv_Float b2 = (case b2 of
      Sint \<Rightarrow> Some (Node2 Float) | Uint \<Rightarrow> Some (Node2 Float) | Slong \<Rightarrow> Some (Node2 Float)
    | Ulong \<Rightarrow> Some (Node2 Float) | Slonglong \<Rightarrow> Some (Node2 Float)
    | Ulonglong \<Rightarrow> Some (Node2 Float) | Float \<Rightarrow> Some Keep
    | Double \<Rightarrow> Some (Node1 Double) | Longdouble \<Rightarrow> Some (Node1 Longdouble) | _ \<Rightarrow> None)"

definition conv_Double :: "BasicType \<Rightarrow> conv option" where
  "conv_Double b2 = (case b2 of
      Sint \<Rightarrow> Some (Node2 Double) | Uint \<Rightarrow> Some (Node2 Double) | Slong \<Rightarrow> Some (Node2 Double)
    | Ulong \<Rightarrow> Some (Node2 Double) | Slonglong \<Rightarrow> Some (Node2 Double)
    | Ulonglong \<Rightarrow> Some (Node2 Double) | Float \<Rightarrow> Some (Node2 Double)
    | Double \<Rightarrow> Some Keep | Longdouble \<Rightarrow> Some (Node1 Longdouble) | _ \<Rightarrow> None)"

definition conv_Longdouble :: "BasicType \<Rightarrow> conv option" where
  "conv_Longdouble b2 = (case b2 of
      Sint \<Rightarrow> Some (Node2 Longdouble) | Uint \<Rightarrow> Some (Node2 Longdouble) | Slong \<Rightarrow> Some (Node2 Longdouble)
    | Ulong \<Rightarrow> Some (Node2 Longdouble) | Slonglong \<Rightarrow> Some (Node2 Longdouble)
    | Ulonglong \<Rightarrow> Some (Node2 Longdouble) | Float \<Rightarrow> Some (Node2 Longdouble)
    | Double \<Rightarrow> Some (Node2 Longdouble) | Longdouble \<Rightarrow> Some Keep | _ \<Rightarrow> None)"

lemmas conv_defs = conv_Sint_def conv_Uint_def conv_Slong_def conv_Ulong_def conv_Slonglong_def
  conv_Ulonglong_def conv_Float_def conv_Double_def conv_Longdouble_def

definition or_fail :: "cc_fail \<Rightarrow> 'a option \<Rightarrow> cc_fail + 'a" where
  "or_fail e x = (case x of None \<Rightarrow> Inl e | Some a \<Rightarrow> Inr a)"

definition binary_conv :: "BasicType \<Rightarrow> BasicType \<Rightarrow> cc_fail + conv" where
  "binary_conv b1 b2 = (case b1 of
      Sint \<Rightarrow> or_fail Fail (conv_Sint b2)
    | Uint \<Rightarrow> or_fail Fail (conv_Uint b2)
    | Slong \<Rightarrow> or_fail Fail (conv_Slong b2)
    | Ulong \<Rightarrow> or_fail Fail (conv_Ulong b2)
    | Slonglong \<Rightarrow> or_fail Fail (conv_Slonglong b2)
    | Ulonglong \<Rightarrow> or_fail Fail (conv_Ulonglong b2)
    | Float \<Rightarrow> or_fail Fail (conv_Float b2)
    | Double \<Rightarrow> or_fail AssertFail (conv_Double b2)
    | Longdouble \<Rightarrow> or_fail AssertFail (conv_Longdouble b2)
    | _ \<Rightarrow> Inl AssertFail)"

definition UsualBinaryConversions :: "fpu \<Rightarrow> node \<Rightarrow> node \<Rightarrow> cc_fail + (node \<times> node)" where
  "UsualBinaryConversions h node1 node2 =
     bindE (NodeDataType node1) (\<lambda>type1.
     bindE (NodeDataType node2) (\<lambda>type2.
     case (type1, type2) of
       (Prim _ b1, Prim _ b2) \<Rightarrow>
         bindE (binary_conv b1 b2) (\<lambda>c. case c of
             Keep \<Rightarrow> Inr (node1, node2)
           | Node1 b \<Rightarrow> bindE (ImplicitConversions h node1 (Prim EMPTY_TQ b)) (\<lambda>n. Inr (n, node2))
           | Node2 b \<Rightarrow> bindE (ImplicitConversions h node2 (Prim EMPTY_TQ b)) (\<lambda>n. Inr (node1, n)))
     | _ \<Rightarrow> Inr (node1, node2)))"

subsection \<open>Pointers and the arms of a conditional\<close>

definition merge_pointers :: "node \<Rightarrow> node \<Rightarrow> ctype \<Rightarrow> ctype \<Rightarrow> (node \<times> node) cc_loop" where
  "merge_pointers node1 node2 basetype1 basetype2 =
     bindL (MakeMergedType basetype1 basetype2) (\<lambda>m.
     let newtype = MakePtr EMPTY_TQ m in
     bindL (hostL (\<lambda>h. ImplicitConversions h node1 newtype)) (\<lambda>n1.
     bindL (hostL (\<lambda>h. ImplicitConversions h node2 newtype)) (\<lambda>n2. retL (n1, n2))))"

definition convert1 :: "node \<Rightarrow> node \<Rightarrow> ctype \<Rightarrow> (node \<times> node) cc_loop" where
  "convert1 node1 node2 type2 =
     bindL (hostL (\<lambda>h. ImplicitConversions h node1 type2)) (\<lambda>n. retL (n, node2))"

definition convert2 :: "node \<Rightarrow> node \<Rightarrow> ctype \<Rightarrow> (node \<times> node) cc_loop" where
  "convert2 node1 node2 type1 =
     bindL (hostL (\<lambda>h. ImplicitConversions h node2 type1)) (\<lambda>n. retL (node1, n))"

definition UsualPointerConversions :: "node \<Rightarrow> node \<Rightarrow> bool \<Rightarrow> (node \<times> node) cc_loop" where
  "UsualPointerConversions node1 node2 allow_void_or_zero =
     bindL (liftS (NodeDataType node1)) (\<lambda>type1.
     bindL (liftS (NodeDataType node2)) (\<lambda>type2.
     if IsPointerType type1 \<and> IsPointerType type2 then
       bindL (liftS (PtrSubtype type1)) (\<lambda>p1.
       bindL (liftS (PtrSubtype type2)) (\<lambda>p2.
       let basetype1 = type_base p1; basetype2 = type_base p2 in
       bindL (liftL (TypeEqual basetype1 basetype2)) (\<lambda>eq.
       if eq then retL (node1, node2) else
       bindL (liftL (TypeEqualQualified basetype1 basetype2 False False)) (\<lambda>eq.
       if eq then merge_pointers node1 node2 basetype1 basetype2 else
       bindL (liftL (getM ANSIOnly)) (\<lambda>ansi.
       let basetype1 = (if ansi then basetype1 else SansSign basetype1);
           basetype2 = (if ansi then basetype2 else SansSign basetype2) in
       bindL (liftL (if ansi then ret False else TypeEqualQualified basetype1 basetype2 False False)) (\<lambda>eq.
       if eq then
         bindL (liftL (WarningCoord 4)) (\<lambda>_. merge_pointers node1 node2 basetype1 basetype2)
       else if allow_void_or_zero \<and> IsVoidType basetype1 then convert2 node1 node2 type1
       else if allow_void_or_zero \<and> IsVoidType basetype2 then convert1 node1 node2 type2
       else bindL (liftL SyntaxErrorCoord) (\<lambda>_. retL (node1, node2))))))))
     else
       bindL (if allow_void_or_zero \<and> IsPointerType type1
              then hostL (\<lambda>h. IsConstantZero h node2) else retL False) (\<lambda>zero2.
       if zero2 then convert2 node1 node2 type1 else
       bindL (if allow_void_or_zero \<and> IsPointerType type2
              then hostL (\<lambda>h. IsConstantZero h node1) else retL False) (\<lambda>zero1.
       if zero1 then convert1 node1 node2 type2
       else bindL (liftL SyntaxErrorCoord) (\<lambda>_. retL (node1, node2))))))"

definition void_side :: "node \<Rightarrow> node cc_loop" where
  "void_side n = hostL (\<lambda>h. ConstFoldCast h (MakeImplicitCast PrimVoid (Some n)))"

definition ConditionalConversions :: "node \<Rightarrow> node \<Rightarrow> (node \<times> node \<times> ctype) cc_loop" where
  "ConditionalConversions tr fa =
     bindL (liftS (NodeDataType tr)) (\<lambda>type1.
     bindL (liftS (NodeDataType fa)) (\<lambda>type2.
     bindL
       (if IsArithmeticType type1 \<and> IsArithmeticType type2 then
          hostL (\<lambda>h. UsualBinaryConversions h tr fa)
        else
        bindL (if IsUnionType type1 \<and> IsUnionType type2 \<or> IsStructType type1 \<and> IsStructType type2
               then liftL (TypeEqualQualified type1 type2 False False) else retL False) (\<lambda>compatible.
        if compatible then retL (tr, fa)
        else if IsVoidType type1 \<and> IsVoidType type2 then retL (tr, fa)
        else if IsPointerType type1 \<or> IsPointerType type2 then UsualPointerConversions tr fa True
        else if IsVoidType type1 \<or> IsVoidType type2 then
          bindL (liftL (getM ANSIOnly)) (\<lambda>ansi.
          if ansi then bindL (liftL SyntaxErrorCoord) (\<lambda>_. retL (tr, fa))
          else if IsVoidType type1 then bindL (void_side fa) (\<lambda>n. retL (tr, n))
          else bindL (void_side tr) (\<lambda>n. retL (n, fa)))
        else bindL (liftL SyntaxErrorCoord) (\<lambda>_. retL (tr, fa)))) (\<lambda>(tr, fa).
     bindL (liftS (NodeDataType tr)) (\<lambda>t. retL (tr, fa, t)))))"

subsection \<open>Assignments\<close>

definition TypeAssignableModuloConstVolatile :: "ctype \<Rightarrow> ctype \<Rightarrow> bool cc_prog" where
  "TypeAssignableModuloConstVolatile ltype rtype =
     (if \<not> tq_has_const (NodeTq ltype) \<and> tq_has_const (NodeTq rtype) then ret False
      else if \<not> tq_has_volatile (NodeTq ltype) \<and> tq_has_volatile (NodeTq rtype) then ret False
      else if \<not> tq_has_restrict (NodeTq ltype) \<and> tq_has_restrict (NodeTq rtype) then ret False
      else TypeEqualQualified ltype rtype False True)"

definition TypeEqualModuloConstVolatile :: "ctype \<Rightarrow> ctype \<Rightarrow> bool cc_prog" where
  "TypeEqualModuloConstVolatile ltype rtype = TypeEqualQualified ltype rtype False True"

definition NodeIsCilkProcedure :: "ctype \<Rightarrow> bool" where
  "NodeIsCilkProcedure t = tq_has_procedure (NodeTq t)"

definition warn_ok :: "int \<Rightarrow> bool cc_prog" where
  "warn_ok level = bindM (WarningCoord level) (\<lambda>_. ret True)"

definition reject :: "bool cc_prog" where
  "reject = bindM SyntaxErrorCoord (\<lambda>_. ret False)"

definition elseM :: "bool cc_prog \<Rightarrow> bool cc_prog \<Rightarrow> bool cc_prog \<Rightarrow> bool cc_prog" where
  "elseM test yes no = bindM test (\<lambda>b. if b then yes else no)"

definition pointer_coercible :: "ctype \<Rightarrow> ctype \<Rightarrow> bool cc_prog" where
  "pointer_coercible ltype rtype =
     bindM (liftE (PtrSubtype ltype)) (\<lambda>lp.
     bindM (liftE (PtrSubtype rtype)) (\<lambda>rp.
     let lbasetype = type_base lp; rbasetype = type_base rp in
     if IsVoidType lbasetype \<or> IsVoidType rbasetype then ret True else
     elseM (TypeEqual lbasetype rbasetype) (ret True)
     (elseM (TypeAssignableModuloConstVolatile lbasetype rbasetype) (ret True)
     (if NodeIsCilkProcedure lbasetype \<noteq> NodeIsCilkProcedure rbasetype then reject else
     bindM (getM ANSIOnly) (\<lambda>ansi.
     if ansi then reject else
     elseM (TypeEqualModuloConstVolatile lbasetype rbasetype) (warn_ok 4)
     (elseM (TypeAssignableModuloConstVolatile (SansSign lbasetype) (SansSign rbasetype)) (warn_ok 4)
     (warn_ok 3)))))))"

definition coerced_rtype :: "ctype \<Rightarrow> ctype" where
  "coerced_rtype t = (case t of
      Tdef _ _ _ \<Rightarrow> type_base t
    | Edcl _ _ _ \<Rightarrow> PrimSint
    | Adcl _ _ u \<Rightarrow> MakePtr EMPTY_TQ u
    | Fdcl _ _ _ \<Rightarrow> MakePtr EMPTY_TQ t
    | _ \<Rightarrow> t)"

definition coerced_ltype :: "ctype \<Rightarrow> ctype" where
  "coerced_ltype t = (case t of
      Tdef _ _ _ \<Rightarrow> type_base t
    | Edcl _ _ _ \<Rightarrow> PrimSint
    | _ \<Rightarrow> t)"

definition decl_type :: "decl \<Rightarrow> ctype" where
  "decl_type d = (case d of Decl _ _ t _ _ \<Rightarrow> t)"

definition members :: "ctype \<Rightarrow> ctype list cc_prog" where
  "members t = (case t of
      Udcl _ _ u \<Rightarrow> getM (\<lambda>s. map (\<lambda>f. type_base (decl_type f)) (sue_fields (sues s u)))
    | _ \<Rightarrow> failM AssertFail)"

text \<open>
  \<open>IsCoercible\<close> calls itself on the members of a union; the fuel bounds how deeply unions are nested.
  The value being converted appears only as the test whether it is a constant zero: for the type of a
  union's member there is none.
\<close>

fun coercible :: "nat \<Rightarrow> (fpu \<Rightarrow> cc_fail + bool) \<Rightarrow> ctype \<Rightarrow> ctype \<Rightarrow> bool \<Rightarrow> bool \<Rightarrow> bool cc_loop"
and coercible_to_member :: "nat \<Rightarrow> ctype \<Rightarrow> ctype list \<Rightarrow> bool cc_loop" where
  "coercible 0 zero rtype0 ltype0 ptr2intp ptr2ptrp = (\<lambda>_. None)"
| "coercible (Suc n) zero rtype0 ltype0 ptr2intp ptr2ptrp =
     (let rtype = coerced_rtype rtype0; ltype = coerced_ltype ltype0 in
      if IsArithmeticType rtype \<and> IsArithmeticType ltype then retL True
      else if IsPointerType rtype \<and> IsPointerType ltype then
        (if ptr2ptrp then retL True else liftL (pointer_coercible ltype rtype))
      else if IsIntegralType rtype \<and> IsPointerType ltype then
        (if ptr2intp then retL True else liftL
          (elseM (hostM zero) (ret True)
             (bindM (getM ANSIOnly) (\<lambda>ansi. if ansi then reject else warn_ok 4))))
      else if IsPointerType rtype \<and> IsIntegralType ltype then
        (if ptr2intp then retL True
         else liftL (bindM (getM ANSIOnly) (\<lambda>ansi. if ansi then reject else warn_ok 4)))
      else if IsUnionType ltype \<or> IsStructType ltype then
        bindL (liftL (TypeEqualQualified rtype ltype False False)) (\<lambda>eq.
        if eq then retL True else
        bindL (if IsUnionType ltype
               then bindL (liftL (members ltype)) (coercible_to_member n rtype)
               else retL False) (\<lambda>fits.
        bindL (liftL (getM ANSIOnly)) (\<lambda>ansi.
        if fits \<and> \<not> ansi then liftL (warn_ok 5) else liftL reject)))
      else liftL reject)"
| "coercible_to_member n t [] = retL False"
| "coercible_to_member n t (f # fs) =
     bindL (coercible n (\<lambda>_. Inr False) (type_base t) f True True) (\<lambda>b.
     if b then retL True else coercible_to_member n t fs)"

definition IsCoercible :: "nat \<Rightarrow> node \<Rightarrow> ctype \<Rightarrow> bool \<Rightarrow> bool \<Rightarrow> bool cc_loop" where
  "IsCoercible fuel rhs ltype ptr2intp ptr2ptrp =
     bindL (liftS (NodeDataType rhs)) (\<lambda>rtype.
     coercible fuel (\<lambda>h. IsConstantZero h rhs) rtype ltype ptr2intp ptr2ptrp)"

definition AssignmentConversions :: "nat \<Rightarrow> node \<Rightarrow> ctype \<Rightarrow> node cc_loop" where
  "AssignmentConversions fuel expr to_type =
     bindL (liftS (NodeDataType expr)) (\<lambda>from_type.
     bindL (liftL (TypeEqual from_type to_type)) (\<lambda>eq.
     if eq then retL expr else
     bindL (IsCoercible fuel expr to_type False False) (\<lambda>ok.
     if \<not> ok then retL expr
     else hostL (\<lambda>h. ConstFoldCast h (MakeImplicitCast to_type (Some expr))))))"

definition CallConversions :: "nat \<Rightarrow> node \<Rightarrow> ctype \<Rightarrow> node cc_loop" where
  "CallConversions fuel expr to_type =
     AssignmentConversions fuel expr (case to_type of
        Adcl _ _ t \<Rightarrow> MakePtr EMPTY_TQ t
      | Fdcl _ _ _ \<Rightarrow> MakePtr EMPTY_TQ to_type
      | _ \<Rightarrow> to_type)"

definition ReturnConversions :: "nat \<Rightarrow> node \<Rightarrow> ctype \<Rightarrow> node cc_loop" where
  "ReturnConversions fuel expr to_type = AssignmentConversions fuel expr to_type"

definition CastConversions :: "nat \<Rightarrow> node \<Rightarrow> ctype \<Rightarrow> node cc_loop" where
  "CastConversions fuel expr to_type =
     (if IsVoidType to_type then retL expr
      else bindL (IsCoercible fuel expr to_type True True) (\<lambda>_. retL expr))"

end
