(* ===== verification/Cc_Arith.thy ===== *)
theory Cc_Arith
  imports Cc_Conversions "HOL-Library.Signed_Division"
begin

unbundle bit_operations_syntax

section \<open>Arithmetic and comparison operators (cilk2c/sem-check.c)\<close>

text \<open>
  The check of a binary arithmetic or comparison expression whose operands have been checked: the
  conversions of the operands, the test of their types, the type of the result and, when both
  operands are constants, its value. The code computes on the values of the host's types. Where that
  computation is undefined in C (overflow of a signed type, division by zero, a shift count that is
  too large), the model stops with \<open>Undefined\<close>.
\<close>

subsection \<open>Folding two constants\<close>

definition both_constant :: "node \<Rightarrow> node \<Rightarrow> cc_fail + bool" where
  "both_constant left right = bindE (NodeIsConstant left) (\<lambda>c. if c then NodeIsConstant right else Inr False)"

definition signed_result :: "int \<Rightarrow> cc_fail + 'a::len word" where
  "signed_result i =
     (if - (2 ^ (LENGTH('a) - 1)) \<le> i \<and> i < 2 ^ (LENGTH('a) - 1) then Inr (word_of_int i) else Inl Undefined)"

text \<open>
  One operation at each of the six types of constants. A result \<open>None\<close> is an operation that the code
  reports instead of doing it. The floating types are missing for the operations on integers.
\<close>

record fold_ops =
  on_i :: "32 word \<Rightarrow> 32 word \<Rightarrow> cc_fail + 32 word option"
  on_u :: "32 word \<Rightarrow> 32 word \<Rightarrow> cc_fail + 32 word option"
  on_l :: "64 word \<Rightarrow> 64 word \<Rightarrow> cc_fail + 64 word option"
  on_ul :: "64 word \<Rightarrow> 64 word \<Rightarrow> cc_fail + 64 word option"
  on_f :: "(32 word \<Rightarrow> 32 word \<Rightarrow> cc_fail + 32 word option) option"
  on_d :: "(64 word \<Rightarrow> 64 word \<Rightarrow> cc_fail + 64 word option) option"

definition fold_with ::
    "(node \<Rightarrow> cc_fail + 'a) \<Rightarrow> ('a \<Rightarrow> 'a \<Rightarrow> cc_fail + 'b option) \<Rightarrow> ('b \<Rightarrow> cc_fail + node) \<Rightarrow>
     node \<Rightarrow> node \<Rightarrow> cc_fail + node option" where
  "fold_with get f put left right =
     bindE (get left) (\<lambda>lval. bindE (get right) (\<lambda>rval. bindE (f lval rval) (\<lambda>r.
     case r of None \<Rightarrow> Inr None | Some v \<Rightarrow> bindE (put v) (\<lambda>n. Inr (Some n)))))"

definition elseE :: "cc_fail + bool \<Rightarrow> cc_fail + 'a \<Rightarrow> cc_fail + 'a \<Rightarrow> cc_fail + 'a" where
  "elseE test yes no = bindE test (\<lambda>b. if b then yes else no)"

definition fold_arms :: "fold_ops \<Rightarrow> node \<Rightarrow> node \<Rightarrow> node \<Rightarrow> cc_fail + node option" where
  "fold_arms A n left right =
     elseE (NodeTypeIsSint left) (fold_with NodeConstantSintValue (on_i A) (NodeSetSintValue n) left right)
     (elseE (NodeTypeIsUint left) (fold_with NodeConstantUintValue (on_u A) (NodeSetUintValue n) left right)
     (elseE (NodeTypeIsSlong left) (fold_with NodeConstantSlongValue (on_l A) (NodeSetSlongValue n) left right)
     (elseE (NodeTypeIsUlong left) (fold_with NodeConstantUlongValue (on_ul A) (NodeSetUlongValue n) left right)
     (case on_f A of None \<Rightarrow> Inr (Some n) | Some f \<Rightarrow>
     elseE (NodeTypeIsFloat left) (fold_with NodeConstantFloatValue f (NodeSetFloatValue n) left right)
     (case on_d A of None \<Rightarrow> Inr (Some n) | Some d \<Rightarrow>
     elseE (NodeTypeIsDouble left) (fold_with NodeConstantDoubleValue d (NodeSetDoubleValue n) left right)
     (Inr (Some n)))))))"

definition fold_constants :: "fold_ops \<Rightarrow> node \<Rightarrow> node \<Rightarrow> node \<Rightarrow> node cc_prog" where
  "fold_constants A n left right =
     bindM (liftE (both_constant left right)) (\<lambda>c.
     if \<not> c then ret n else
     bindM (liftE (fold_arms A n left right)) (\<lambda>r.
     case r of None \<Rightarrow> bindM SyntaxErrorCoord (\<lambda>_. ret n) | Some n' \<Rightarrow> ret n'))"

definition folded :: "'a \<Rightarrow> cc_fail + 'a option" where
  "folded a = Inr (Some a)"

definition folded_signed :: "int \<Rightarrow> cc_fail + ('a::len word) option" where
  "folded_signed i = bindE (signed_result i) folded"

text \<open>The type tests of the operands; a failed one is reported and the check goes on.\<close>

definition require :: "bool \<Rightarrow> unit cc_prog" where
  "require b = (if b then ret () else SyntaxErrorCoord)"

text \<open>The result of a case of the switch: the node with its value, its type, and its operands.\<close>

definition set_binop :: "node \<Rightarrow> ctype \<Rightarrow> node \<Rightarrow> node \<Rightarrow> node" where
  "set_binop n t left right = (case n of Binop opc _ _ _ v \<Rightarrow> Binop opc left right (Some t) v | _ \<Rightarrow> n)"

subsection \<open>The cases of SemCheckArithmetic\<close>

definition plus_ops :: "fpu \<Rightarrow> fold_ops" where
  "plus_ops h = \<lparr>on_i = (\<lambda>a b. folded_signed (sint a + sint b)), on_u = (\<lambda>a b. folded (a + b)),
     on_l = (\<lambda>a b. folded_signed (sint a + sint b)), on_ul = (\<lambda>a b. folded (a + b)),
     on_f = Some (\<lambda>a b. folded (f_op h OP_add a b)), on_d = Some (\<lambda>a b. folded (d_op h OP_add a b))\<rparr>"

definition arith_plus :: "node \<Rightarrow> node \<Rightarrow> node \<Rightarrow> ctype \<Rightarrow> ctype \<Rightarrow> node cc_prog" where
  "arith_plus n left0 right0 ltype0 rtype0 =
     (let swapped = IsIntegralType ltype0 \<and> IsPointerType rtype0;
          left = (if swapped then right0 else left0);
          right = (if swapped then left0 else right0);
          ltype = (if swapped then rtype0 else ltype0);
          rtype = (if swapped then ltype0 else rtype0) in
      bindM (require (IsArithmeticType ltype \<and> IsArithmeticType rtype \<or>
                      IsPointerType ltype \<and> IsIntegralType rtype)) (\<lambda>_.
      bindM (if IsPointerType ltype
             then bindM (NodeSizeof left (Some (GetShallowBaseType ltype)) False) (\<lambda>_. ret ())
             else ret ()) (\<lambda>_.
      bindM (getM host) (\<lambda>h.
      bindM (fold_constants (plus_ops h) n left right) (\<lambda>n.
      ret (set_binop n ltype left right))))))"

definition minus_ops :: "fpu \<Rightarrow> fold_ops" where
  "minus_ops h = \<lparr>on_i = (\<lambda>a b. folded_signed (sint a - sint b)), on_u = (\<lambda>a b. folded (a - b)),
     on_l = (\<lambda>a b. folded_signed (sint a - sint b)), on_ul = (\<lambda>a b. folded (a - b)),
     on_f = Some (\<lambda>a b. folded (f_op h OP_sub a b)), on_d = Some (\<lambda>a b. folded (d_op h OP_sub a b))\<rparr>"

definition arith_minus :: "node \<Rightarrow> node \<Rightarrow> node \<Rightarrow> ctype \<Rightarrow> ctype \<Rightarrow> node cc_prog" where
  "arith_minus n left right ltype rtype =
     bindM (require (IsArithmeticType ltype \<and> IsArithmeticType rtype \<or>
                     IsPointerType ltype \<and> IsIntegralType rtype \<or>
                     IsPointerType ltype \<and> IsPointerType rtype)) (\<lambda>_.
     bindM (getM host) (\<lambda>h.
     bindM (fold_constants (minus_ops h) n left right) (\<lambda>n.
     ret (set_binop n (case (ltype, rtype) of (Ptr _ _, Ptr _ _) \<Rightarrow> PrimSint | _ \<Rightarrow> ltype) left right))))"

definition mult_ops :: "fpu \<Rightarrow> fold_ops" where
  "mult_ops h = \<lparr>on_i = (\<lambda>a b. folded_signed (sint a * sint b)), on_u = (\<lambda>a b. folded (a * b)),
     on_l = (\<lambda>a b. folded_signed (sint a * sint b)), on_ul = (\<lambda>a b. folded (a * b)),
     on_f = Some (\<lambda>a b. folded (f_op h OP_mul a b)), on_d = Some (\<lambda>a b. folded (d_op h OP_mul a b))\<rparr>"

definition arith_mult :: "node \<Rightarrow> node \<Rightarrow> node \<Rightarrow> ctype \<Rightarrow> ctype \<Rightarrow> node cc_prog" where
  "arith_mult n left right ltype rtype =
     bindM (require (IsArithmeticType ltype \<and> IsArithmeticType rtype)) (\<lambda>_.
     bindM (getM host) (\<lambda>h.
     bindM (fold_constants (mult_ops h) n left right) (\<lambda>n.
     ret (set_binop n ltype left right))))"

definition div_ops :: "fpu \<Rightarrow> fold_ops" where
  "div_ops h = \<lparr>
     on_i = (\<lambda>a b. if b = 0 then Inr None else folded_signed (sint a sdiv sint b)),
     on_u = (\<lambda>a b. if b = 0 then Inr None else folded (a div b)),
     on_l = (\<lambda>a b. if b = 0 then Inr None else folded_signed (sint a sdiv sint b)),
     on_ul = (\<lambda>a b. if b = 0 then Inr None else folded (a div b)),
     on_f = Some (\<lambda>a b. if f_cmp h EQ b (f_of_int h 0) then Inr None else folded (f_op h OP_div a b)),
     on_d = Some (\<lambda>a b. if d_cmp h EQ b (d_of_int h 0) then Inr None else folded (d_op h OP_div a b))\<rparr>"

definition arith_div :: "node \<Rightarrow> node \<Rightarrow> node \<Rightarrow> ctype \<Rightarrow> ctype \<Rightarrow> node cc_prog" where
  "arith_div n left right ltype rtype =
     bindM (require (IsArithmeticType ltype \<and> IsArithmeticType rtype)) (\<lambda>_.
     bindM (getM host) (\<lambda>h.
     bindM (fold_constants (div_ops h) n left right) (\<lambda>n.
     ret (set_binop n ltype left right))))"

text \<open>The remainder is not guarded against a zero divisor, and the quotient must be representable.\<close>

definition signed_rem :: "'a::len word \<Rightarrow> 'a word \<Rightarrow> cc_fail + 'a word option" where
  "signed_rem a b = (if b = 0 then Inl Undefined else
     bindE (signed_result (sint a sdiv sint b) :: cc_fail + 'a word) (\<lambda>_. folded_signed (sint a smod sint b)))"

definition unsigned_rem :: "'a::len word \<Rightarrow> 'a word \<Rightarrow> cc_fail + 'a word option" where
  "unsigned_rem a b = (if b = 0 then Inl Undefined else folded (a mod b))"

definition mod_ops :: fold_ops where
  "mod_ops = \<lparr>on_i = signed_rem, on_u = unsigned_rem, on_l = signed_rem, on_ul = unsigned_rem,
     on_f = None, on_d = None\<rparr>"

definition integral_case :: "fold_ops \<Rightarrow> node \<Rightarrow> node \<Rightarrow> node \<Rightarrow> ctype \<Rightarrow> ctype \<Rightarrow> node cc_prog" where
  "integral_case A n left right ltype rtype =
     bindM (require (IsIntegralType ltype \<and> IsIntegralType rtype)) (\<lambda>_.
     bindM (fold_constants A n left right) (\<lambda>n.
     ret (set_binop n ltype left right)))"

definition arith_mod :: "node \<Rightarrow> node \<Rightarrow> node \<Rightarrow> ctype \<Rightarrow> ctype \<Rightarrow> node cc_prog" where
  "arith_mod n left right ltype rtype = integral_case mod_ops n left right ltype rtype"

definition bit_ops :: "(32 word \<Rightarrow> 32 word \<Rightarrow> 32 word) \<Rightarrow> (64 word \<Rightarrow> 64 word \<Rightarrow> 64 word) \<Rightarrow> fold_ops" where
  "bit_ops f g = \<lparr>on_i = (\<lambda>a b. folded (f a b)), on_u = (\<lambda>a b. folded (f a b)),
     on_l = (\<lambda>a b. folded (g a b)), on_ul = (\<lambda>a b. folded (g a b)), on_f = None, on_d = None\<rparr>"

definition arith_and :: "node \<Rightarrow> node \<Rightarrow> node \<Rightarrow> ctype \<Rightarrow> ctype \<Rightarrow> node cc_prog" where
  "arith_and n left right ltype rtype = integral_case (bit_ops (AND) (AND)) n left right ltype rtype"

definition arith_xor :: "node \<Rightarrow> node \<Rightarrow> node \<Rightarrow> ctype \<Rightarrow> ctype \<Rightarrow> node cc_prog" where
  "arith_xor n left right ltype rtype = integral_case (bit_ops (XOR) (XOR)) n left right ltype rtype"

definition arith_or :: "node \<Rightarrow> node \<Rightarrow> node \<Rightarrow> ctype \<Rightarrow> ctype \<Rightarrow> node cc_prog" where
  "arith_or n left right ltype rtype = integral_case (bit_ops (OR) (OR)) n left right ltype rtype"

text \<open>
  Shifts. The count is read at any integral type and compared as an unsigned long; a count that is not
  smaller than the width is undefined, and so is a left shift of a negative value or one that
  overflows. The right shift of a negative value keeps its sign, as on the host.
\<close>

definition shift_left_signed :: "'a::len word \<Rightarrow> 64 word \<Rightarrow> cc_fail + 'a word option" where
  "shift_left_signed a r =
     (if unat r < LENGTH('a) \<and> 0 \<le> sint a then folded_signed (sint a * 2 ^ unat r) else Inl Undefined)"

definition shift_left_unsigned :: "'a::len word \<Rightarrow> 64 word \<Rightarrow> cc_fail + 'a word option" where
  "shift_left_unsigned a r = (if unat r < LENGTH('a) then folded (push_bit (unat r) a) else Inl Undefined)"

definition shift_right_signed :: "'a::len word \<Rightarrow> 64 word \<Rightarrow> cc_fail + 'a word option" where
  "shift_right_signed a r =
     (if unat r < LENGTH('a) then folded (signed_drop_bit (unat r) a) else Inl Undefined)"

definition shift_right_unsigned :: "'a::len word \<Rightarrow> 64 word \<Rightarrow> cc_fail + 'a word option" where
  "shift_right_unsigned a r = (if unat r < LENGTH('a) then folded (drop_bit (unat r) a) else Inl Undefined)"

definition left_ops :: "64 word \<Rightarrow> fold_ops" where
  "left_ops r = \<lparr>on_i = (\<lambda>a _. shift_left_signed a r), on_u = (\<lambda>a _. shift_left_unsigned a r),
     on_l = (\<lambda>a _. shift_left_signed a r), on_ul = (\<lambda>a _. shift_left_unsigned a r),
     on_f = None, on_d = None\<rparr>"

definition right_ops :: "64 word \<Rightarrow> fold_ops" where
  "right_ops r = \<lparr>on_i = (\<lambda>a _. shift_right_signed a r), on_u = (\<lambda>a _. shift_right_unsigned a r),
     on_l = (\<lambda>a _. shift_right_signed a r), on_ul = (\<lambda>a _. shift_right_unsigned a r),
     on_f = None, on_d = None\<rparr>"

text \<open>Only the left operand is read at its type, so \<open>fold_arms\<close> is given it twice.\<close>

definition shift_case :: "(64 word \<Rightarrow> fold_ops) \<Rightarrow> node \<Rightarrow> node \<Rightarrow> node \<Rightarrow> ctype \<Rightarrow> ctype \<Rightarrow> node cc_prog" where
  "shift_case ops n left right ltype rtype =
     bindM (require (IsIntegralType ltype \<and> IsIntegralType rtype)) (\<lambda>_.
     bindM (liftE (both_constant left right)) (\<lambda>c.
     bindM (if \<not> c then ret n else
            bindM (liftE (NodeConstantIntegralValue right)) (\<lambda>rval.
            bindM (liftE (fold_arms (ops rval) n left left)) (\<lambda>r.
            case r of None \<Rightarrow> ret n | Some n' \<Rightarrow> ret n'))) (\<lambda>n.
     ret (set_binop n ltype left right))))"

definition arith_left :: "node \<Rightarrow> node \<Rightarrow> node \<Rightarrow> ctype \<Rightarrow> ctype \<Rightarrow> node cc_prog" where
  "arith_left n left right ltype rtype = shift_case left_ops n left right ltype rtype"

definition arith_right :: "node \<Rightarrow> node \<Rightarrow> node \<Rightarrow> ctype \<Rightarrow> ctype \<Rightarrow> node cc_prog" where
  "arith_right n left right ltype rtype = shift_case right_ops n left right ltype rtype"

definition bool_word :: "bool \<Rightarrow> 32 word" where
  "bool_word b = (if b then 1 else 0)"

definition logical_case :: "(bool \<Rightarrow> bool \<Rightarrow> bool) \<Rightarrow> node \<Rightarrow> node \<Rightarrow> node \<Rightarrow> node cc_prog" where
  "logical_case f n left right =
     bindM (liftE (both_constant left right)) (\<lambda>c.
     bindM (if \<not> c then ret n else
            bindM (hostM (\<lambda>h. IsConstantZero h left)) (\<lambda>lval.
            bindM (hostM (\<lambda>h. IsConstantZero h right)) (\<lambda>rval.
            liftE (NodeSetSintValue n (bool_word (f (\<not> lval) (\<not> rval))))))) (\<lambda>n.
     ret (set_binop n PrimSint left right)))"

definition arith_andand :: "node \<Rightarrow> node \<Rightarrow> node \<Rightarrow> node cc_prog" where
  "arith_andand n left right = logical_case (\<and>) n left right"

definition arith_oror :: "node \<Rightarrow> node \<Rightarrow> node \<Rightarrow> node cc_prog" where
  "arith_oror n left right = logical_case (\<or>) n left right"

definition operands :: "OpType \<Rightarrow> node \<Rightarrow> node \<Rightarrow> (node \<times> node) cc_prog" where
  "operands opc l r =
     bindM (hostM (\<lambda>h. UsualUnaryConversions h l False)) (\<lambda>left.
     bindM (hostM (\<lambda>h. UsualUnaryConversions h r False)) (\<lambda>right.
     if opc = LS \<or> opc = RS then ret (left, right)
     else hostM (\<lambda>h. UsualBinaryConversions h left right)))"

definition SemCheckArithmetic :: "node \<Rightarrow> node cc_prog" where
  "SemCheckArithmetic n = (case n of
      Binop opc l r _ _ \<Rightarrow>
        bindM (operands opc l r) (\<lambda>(left, right).
        bindM (liftE (NodeDataType left)) (\<lambda>ltype.
        bindM (liftE (NodeDataType right)) (\<lambda>rtype.
        case opc of
          OP_add \<Rightarrow> arith_plus n left right ltype rtype
        | OP_sub \<Rightarrow> arith_minus n left right ltype rtype
        | OP_mul \<Rightarrow> arith_mult n left right ltype rtype
        | OP_div \<Rightarrow> arith_div n left right ltype rtype
        | OP_mod \<Rightarrow> arith_mod n left right ltype rtype
        | LS \<Rightarrow> arith_left n left right ltype rtype
        | RS \<Rightarrow> arith_right n left right ltype rtype
        | OP_band \<Rightarrow> arith_and n left right ltype rtype
        | OP_bxor \<Rightarrow> arith_xor n left right ltype rtype
        | OP_bor \<Rightarrow> arith_or n left right ltype rtype
        | ANDAND \<Rightarrow> arith_andand n left right
        | OROR \<Rightarrow> arith_oror n left right
        | _ \<Rightarrow> failM AssertFail)))
    | _ \<Rightarrow> failM AssertFail)"

subsection \<open>Comparisons\<close>

text \<open>Every comparison gives an int, at each of the six types of operands.\<close>

definition truth :: "bool \<Rightarrow> cc_fail + 32 word option" where
  "truth b = folded (bool_word b)"

definition compare_arms :: "(int \<Rightarrow> int \<Rightarrow> bool) \<Rightarrow> OpType \<Rightarrow> fpu \<Rightarrow> node \<Rightarrow> node \<Rightarrow> node \<Rightarrow> cc_fail + node option" where
  "compare_arms cmp opc h n left right =
     elseE (NodeTypeIsSint left)
       (fold_with NodeConstantSintValue (\<lambda>a b. truth (cmp (sint a) (sint b))) (NodeSetSintValue n) left right)
     (elseE (NodeTypeIsUint left)
       (fold_with NodeConstantUintValue (\<lambda>a b. truth (cmp (uint a) (uint b))) (NodeSetSintValue n) left right)
     (elseE (NodeTypeIsSlong left)
       (fold_with NodeConstantSlongValue (\<lambda>a b. truth (cmp (sint a) (sint b))) (NodeSetSintValue n) left right)
     (elseE (NodeTypeIsUlong left)
       (fold_with NodeConstantUlongValue (\<lambda>a b. truth (cmp (uint a) (uint b))) (NodeSetSintValue n) left right)
     (elseE (NodeTypeIsFloat left)
       (fold_with NodeConstantFloatValue (\<lambda>a b. truth (f_cmp h opc a b)) (NodeSetSintValue n) left right)
     (elseE (NodeTypeIsDouble left)
       (fold_with NodeConstantDoubleValue (\<lambda>a b. truth (d_cmp h opc a b)) (NodeSetSintValue n) left right)
     (Inr (Some n)))))))"

definition compare_constants :: "(int \<Rightarrow> int \<Rightarrow> bool) \<Rightarrow> OpType \<Rightarrow> node \<Rightarrow> node \<Rightarrow> node \<Rightarrow> node cc_prog" where
  "compare_constants cmp opc n left right =
     bindM (liftE (both_constant left right)) (\<lambda>c.
     if \<not> c then ret n else
     bindM (hostM (\<lambda>h. compare_arms cmp opc h n left right)) (\<lambda>r.
     case r of None \<Rightarrow> ret n | Some n' \<Rightarrow> ret n'))"

definition order_case :: "(int \<Rightarrow> int \<Rightarrow> bool) \<Rightarrow> OpType \<Rightarrow> node \<Rightarrow> node \<Rightarrow> node \<Rightarrow> ctype \<Rightarrow> ctype \<Rightarrow> node cc_loop" where
  "order_case cmp opc n left right ltype rtype =
     (if IsArithmeticType ltype \<and> IsArithmeticType rtype then
        bindL (liftL (compare_constants cmp opc n left right)) (\<lambda>n. retL (set_binop n PrimSint left right))
      else if IsPointerType ltype \<and> IsPointerType rtype then
        bindL (UsualPointerConversions left right False) (\<lambda>(left, right).
        retL (set_binop n PrimSint left right))
      else bindL (liftL SyntaxErrorCoord) (\<lambda>_. retL (set_binop n PrimSint left right)))"

definition equal_case :: "(int \<Rightarrow> int \<Rightarrow> bool) \<Rightarrow> OpType \<Rightarrow> node \<Rightarrow> node \<Rightarrow> node \<Rightarrow> ctype \<Rightarrow> ctype \<Rightarrow> node cc_loop" where
  "equal_case cmp opc n left right ltype rtype =
     (if IsArithmeticType ltype \<and> IsArithmeticType rtype then
        bindL (liftL (compare_constants cmp opc n left right)) (\<lambda>n. retL (set_binop n PrimSint left right))
      else if IsPointerType ltype \<and> IsPointerType rtype then
        bindL (UsualPointerConversions left right True) (\<lambda>(left, right).
        retL (set_binop n PrimSint left right))
      else
        bindL (if IsPointerType ltype then hostL (\<lambda>h. IsConstantZero h right) else retL False) (\<lambda>rzero.
        bindL (if rzero then retL True
               else bindL (hostL (\<lambda>h. IsConstantZero h left)) (\<lambda>z. retL (z \<and> IsPointerType rtype))) (\<lambda>ok.
        bindL (liftL (require ok)) (\<lambda>_. retL (set_binop n PrimSint left right)))))"

definition SemCheckComparison :: "node \<Rightarrow> node cc_loop" where
  "SemCheckComparison n = (case n of
      Binop opc l r _ _ \<Rightarrow>
        bindL (liftL (operands opc l r)) (\<lambda>(left, right).
        bindL (liftS (NodeDataType left)) (\<lambda>ltype.
        bindL (liftS (NodeDataType right)) (\<lambda>rtype.
        case opc of
          OP_lt \<Rightarrow> order_case (<) opc n left right ltype rtype
        | LE \<Rightarrow> order_case (\<le>) opc n left right ltype rtype
        | OP_gt \<Rightarrow> order_case (>) opc n left right ltype rtype
        | GE \<Rightarrow> order_case (\<ge>) opc n left right ltype rtype
        | EQ \<Rightarrow> equal_case (=) opc n left right ltype rtype
        | NE \<Rightarrow> equal_case (\<noteq>) opc n left right ltype rtype
        | _ \<Rightarrow> liftL (failM AssertFail))))
    | _ \<Rightarrow> liftL (failM AssertFail))"

end
