(* ===== verification/Cc_Check.thy ===== *)
theory Cc_Check
  imports Cc_Arith
begin

section \<open>The check of expressions and types (cilk2c/sem-check.c)\<close>

text \<open>
  \<open>SemCheckNode\<close> on expressions, on types and on the members of structs and unions. The functions for
  the kinds of nodes call \<open>SemCheckNode\<close> on the children of a node; here it is their argument \<open>chk\<close>.
  The recursion is closed at the end, with a fuel: the check of a type goes through the dimensions and
  the fields in the state, so it is not bounded by the size of the node. The fuel is also passed to
  \<open>IsCoercible\<close>. A check that runs out of fuel gives \<open>None\<close>.
\<close>

type_synonym check = "node \<Rightarrow> node cc_loop"

fun SemCheckList :: "check \<Rightarrow> node list \<Rightarrow> node list cc_loop" where
  "SemCheckList chk [] = retL []"
| "SemCheckList chk (n # ns) =
     bindL (chk n) (\<lambda>n'. bindL (SemCheckList chk ns) (\<lambda>ns'. retL (n' # ns')))"

definition failL :: "cc_fail \<Rightarrow> 'a cc_loop" where
  "failL e = liftL (failM e)"

definition check_type :: "check \<Rightarrow> ctype \<Rightarrow> ctype cc_loop" where
  "check_type chk t = bindL (chk (TypeNode t)) (\<lambda>n. case n of TypeNode t' \<Rightarrow> retL t' | _ \<Rightarrow> failL Fail)"

definition check_decl :: "check \<Rightarrow> decl \<Rightarrow> decl cc_loop" where
  "check_decl chk d = bindL (chk (DeclNode d)) (\<lambda>n. case n of DeclNode d' \<Rightarrow> retL d' | _ \<Rightarrow> failL Fail)"

subsection \<open>Constants, identifiers and unary expressions\<close>

definition SemCheckConst :: "check \<Rightarrow> string option \<Rightarrow> ctype \<Rightarrow> cvalue \<Rightarrow> node cc_loop" where
  "SemCheckConst chk x t v = bindL (check_type chk t) (\<lambda>t'. retL (Const x t' v))"

definition decl_init :: "decl \<Rightarrow> node option" where
  "decl_init d = (case d of Decl _ _ _ i _ \<Rightarrow> i)"

definition enum_value :: "node \<Rightarrow> decl \<Rightarrow> cc_fail + node" where
  "enum_value n d = (if DeclIsEnumConst d
     then bindE (someE (decl_init d)) (\<lambda>i. bindE (NodeGetConstantValue i) (\<lambda>v.
          bindE (someE v) (NodeSetConstantValue n)))
     else Inr n)"

definition SemCheckId :: "node \<Rightarrow> decl option \<Rightarrow> node cc_loop" where
  "SemCheckId n d = (case d of
      None \<Rightarrow> retL n
    | Some d \<Rightarrow>
        bindL (liftS (enum_value n d)) (\<lambda>n'.
        bindL (liftL (getM (\<lambda>s. in_procedure s \<or> in_inlet s))) (\<lambda>inside.
        bindL (liftL (require (inside \<or> \<not> tq_has_cilkonly (decl_tq d)))) (\<lambda>_. retL n'))))"

definition set_unary :: "node \<Rightarrow> ctype \<Rightarrow> node \<Rightarrow> node" where
  "set_unary n t e = (case n of Unary opc _ _ v \<Rightarrow> Unary opc e (Some t) v | _ \<Rightarrow> n)"

text \<open>Unary minus is computed as \<open>0 - eval\<close> at the type of the operand, which is not promoted.\<close>

definition negate_constant :: "fpu \<Rightarrow> node \<Rightarrow> node \<Rightarrow> cc_fail + node option" where
  "negate_constant h n e = fold_arms
     \<lparr>on_i = (\<lambda>a _. folded_signed (0 - sint a)), on_u = (\<lambda>a _. folded (0 - a)),
      on_l = (\<lambda>a _. folded_signed (0 - sint a)), on_ul = (\<lambda>a _. folded (0 - a)),
      on_f = Some (\<lambda>a _. folded (f_op h OP_sub (f_of_int h 0) a)),
      on_d = Some (\<lambda>a _. folded (d_op h OP_sub (d_of_int h 0) a))\<rparr> n e e"

definition not_constant :: "fpu \<Rightarrow> node \<Rightarrow> node \<Rightarrow> cc_fail + node option" where
  "not_constant h n e =
     elseE (NodeTypeIsSint e)
       (fold_with NodeConstantSintValue (\<lambda>a _. truth (a = 0)) (NodeSetSintValue n) e e)
     (elseE (NodeTypeIsUint e)
       (fold_with NodeConstantUintValue (\<lambda>a _. truth (a = 0)) (NodeSetSintValue n) e e)
     (elseE (NodeTypeIsSlong e)
       (fold_with NodeConstantSlongValue (\<lambda>a _. truth (a = 0)) (NodeSetSintValue n) e e)
     (elseE (NodeTypeIsUlong e)
       (fold_with NodeConstantUlongValue (\<lambda>a _. truth (a = 0)) (NodeSetSintValue n) e e)
     (elseE (NodeTypeIsFloat e)
       (fold_with NodeConstantFloatValue (\<lambda>a _. truth (f_cmp h EQ a (f_of_int h 0))) (NodeSetSintValue n) e e)
     (elseE (NodeTypeIsDouble e)
       (fold_with NodeConstantDoubleValue (\<lambda>a _. truth (d_cmp h EQ a (d_of_int h 0))) (NodeSetSintValue n) e e)
     (Inr (Some n)))))))"

definition complement_constant :: "node \<Rightarrow> node \<Rightarrow> cc_fail + node option" where
  "complement_constant n e = fold_arms
     \<lparr>on_i = (\<lambda>a _. folded (NOT a)), on_u = (\<lambda>a _. folded (NOT a)),
      on_l = (\<lambda>a _. folded (NOT a)), on_ul = (\<lambda>a _. folded (NOT a)),
      on_f = None, on_d = None\<rparr> n e e"

definition fold_unary :: "(fpu \<Rightarrow> cc_fail + node option) \<Rightarrow> node \<Rightarrow> node \<Rightarrow> node cc_prog" where
  "fold_unary f n e =
     bindM (liftE (NodeIsConstant e)) (\<lambda>c.
     if \<not> c then ret n else
     bindM (hostM f) (\<lambda>r. case r of None \<Rightarrow> ret n | Some n' \<Rightarrow> ret n'))"

definition unary_minus :: "node \<Rightarrow> node \<Rightarrow> ctype \<Rightarrow> node cc_prog" where
  "unary_minus n e t =
     bindM (require (IsArithmeticType t)) (\<lambda>_.
     bindM (fold_unary (\<lambda>h. negate_constant h n e) n e) (\<lambda>n. ret (set_unary n t e)))"

definition unary_not :: "node \<Rightarrow> node \<Rightarrow> node cc_prog" where
  "unary_not n e0 =
     bindM (hostM (\<lambda>h. UsualUnaryConversions h e0 False)) (\<lambda>e.
     bindM (liftE (NodeDataType e)) (\<lambda>_.
     bindM (fold_unary (\<lambda>h. not_constant h n e) n e) (\<lambda>n. ret (set_unary n PrimSint e))))"

definition unary_complement :: "node \<Rightarrow> node \<Rightarrow> node cc_prog" where
  "unary_complement n e0 =
     bindM (hostM (\<lambda>h. UsualUnaryConversions h e0 False)) (\<lambda>e.
     bindM (liftE (NodeDataType e)) (\<lambda>t.
     bindM (require (IsIntegralType t)) (\<lambda>_.
     bindM (fold_unary (\<lambda>_. complement_constant n e) n e) (\<lambda>n. ret (set_unary n t e)))))"

definition unary_step :: "node \<Rightarrow> node \<Rightarrow> ctype \<Rightarrow> node cc_prog" where
  "unary_step n e t =
     bindM (IsModifiableLvalue e) (\<lambda>lv.
     bindM (require lv) (\<lambda>_.
     bindM (require (IsScalarType t)) (\<lambda>_.
     bindM (if IsPointerType t
            then bindM (NodeSizeof n (Some (GetShallowBaseType t)) False) (\<lambda>_. ret ()) else ret ()) (\<lambda>_.
     ret (set_unary n t e)))))"

definition unary_sizeof :: "node \<Rightarrow> node \<Rightarrow> ctype \<Rightarrow> node cc_prog" where
  "unary_sizeof n e t =
     bindM (NodeSizeof e (Some t) False) (\<lambda>size.
     bindM (liftE (NodeSetUintValue n size)) (\<lambda>n. ret (set_unary n PrimUint e)))"

definition unary_part :: "node \<Rightarrow> node \<Rightarrow> node cc_prog" where
  "unary_part n e =
     bindM (liftE (NodeDataType e)) (\<lambda>t.
     bindM (NodeCopy t) (\<lambda>t'. ret (set_unary n (NodeUpdateTq tq_remove_complex t') e)))"

definition unary_address :: "node \<Rightarrow> node \<Rightarrow> ctype \<Rightarrow> node cc_prog" where
  "unary_address n e t =
     bindM (IsLvalue e) (\<lambda>lv.
     if lv \<or> IsFunctionType t \<or> IsArrayType t then ret (set_unary n (MakePtr EMPTY_TQ t) e)
     else bindM SyntaxErrorCoord (\<lambda>_. ret (set_unary n t e)))"

definition unary_indir :: "node \<Rightarrow> node \<Rightarrow> ctype \<Rightarrow> node cc_prog" where
  "unary_indir n e t = (case t of
      Ptr _ b \<Rightarrow> ret (set_unary n b e)
    | Adcl _ _ b \<Rightarrow> ret (set_unary n b e)
    | Fdcl _ _ _ \<Rightarrow> ret (set_unary n t e)
    | _ \<Rightarrow> bindM SyntaxErrorCoord (\<lambda>_. ret (set_unary n t e)))"

definition SemCheckUnary :: "check \<Rightarrow> node \<Rightarrow> OpType \<Rightarrow> node \<Rightarrow> node cc_loop" where
  "SemCheckUnary chk n opc e0 =
     bindL (chk e0) (\<lambda>e.
     bindL (liftS (NodeDataType e)) (\<lambda>t.
     liftL
      (if opc = UMINUS then unary_minus n e t
       else if opc = UPLUS then bindM (require (IsArithmeticType t)) (\<lambda>_. ret e)
       else if opc = OP_not then unary_not n e
       else if opc = OP_bitnot then unary_complement n e
       else if opc = PREINC \<or> opc = PREDEC \<or> opc = POSTINC \<or> opc = POSTDEC then unary_step n e t
       else if opc = SIZEOF then unary_sizeof n e t
       else if opc = ALIGNOF then ret (set_unary n PrimUint e)
       else if opc = IMAG \<or> opc = REAL then unary_part n e
       else if opc = ADDRESS then unary_address n e t
       else if opc = INDIR then unary_indir n e t
       else failM AssertFail)))"

subsection \<open>Casts and conditional expressions\<close>

definition SemCheckCast :: "check \<Rightarrow> nat \<Rightarrow> ctype \<Rightarrow> node \<Rightarrow> node option \<Rightarrow> node cc_loop" where
  "SemCheckCast chk fuel t0 e0 v =
     bindL (check_type chk t0) (\<lambda>t.
     bindL (chk e0) (\<lambda>e1.
     bindL (CastConversions fuel e1 t) (\<lambda>e.
     hostL (\<lambda>h. ConstFoldCast h (Cast t e v)))))"

definition checked_option :: "check \<Rightarrow> node option \<Rightarrow> node option cc_loop" where
  "checked_option chk x = (case x of
      None \<Rightarrow> retL None | Some n \<Rightarrow> bindL (chk n) (\<lambda>n'. retL (Some n')))"

definition converted_option :: "node option \<Rightarrow> node option cc_loop" where
  "converted_option x = (case x of
      None \<Rightarrow> retL None
    | Some n \<Rightarrow> bindL (hostL (\<lambda>h. UsualUnaryConversions h n False)) (\<lambda>n'. retL (Some n')))"

text \<open>
  With the middle operand present the condition that the function has checked and converted is a local
  variable, and the tree keeps the node of the condition, which \<open>SemCheckNode\<close> has changed in place.
  The two are the same node except for a unary plus: its check returns the operand, and the node that
  stays in the tree has a type but no value.
\<close>

definition checked_in_place :: "node \<Rightarrow> node \<Rightarrow> cc_fail + node" where
  "checked_in_place before after = (case before of
      Unary opc _ _ v \<Rightarrow>
        if opc = UPLUS then bindE (NodeDataType after) (\<lambda>t. Inr (Unary UPLUS after (Some t) v)) else Inr after
    | _ \<Rightarrow> Inr after)"

definition SemCheckTernary :: "check \<Rightarrow> node \<Rightarrow> node option \<Rightarrow> node \<Rightarrow> node option \<Rightarrow> node cc_loop" where
  "SemCheckTernary chk c0 t0 f0 v =
     bindL (chk c0) (\<lambda>c1.
     bindL (checked_option chk t0) (\<lambda>t1.
     bindL (chk f0) (\<lambda>f1.
     bindL (hostL (\<lambda>h. UsualUnaryConversions h c1 False)) (\<lambda>c.
     bindL (liftS (NodeDataType c)) (\<lambda>_.
     bindL (converted_option t1) (\<lambda>t.
     bindL (hostL (\<lambda>h. UsualUnaryConversions h f1 False)) (\<lambda>f.
     case t of
       Some t \<Rightarrow> bindL (ConditionalConversions t f) (\<lambda>(t', f', ty).
         bindL (liftS (checked_in_place c0 c1)) (\<lambda>c2.
         hostL (\<lambda>h. ConstFoldTernary h (Ternary c2 (Some t') f' (Some ty) v))))
     | None \<Rightarrow> bindL (ConditionalConversions c f) (\<lambda>(c', f', ty).
         hostL (\<lambda>h. ConstFoldTernary h (Ternary c' None f' (Some ty) v))))))))))"

subsection \<open>Assignments, members and initialisers\<close>

definition SemCheckAssignment :: "nat \<Rightarrow> node \<Rightarrow> OpType \<Rightarrow> node \<Rightarrow> node \<Rightarrow> node cc_loop" where
  "SemCheckAssignment fuel n opc left right =
     bindL (liftS (NodeDataType left)) (\<lambda>ltype.
     bindL (liftS (NodeDataType right)) (\<lambda>rtype.
     bindL (liftL (IsModifiableLvalue left)) (\<lambda>lv.
     bindL (liftL (require lv)) (\<lambda>_.
     if (opc = PLUSassign \<or> opc = MINUSassign) \<and> IsPointerType ltype \<and>
        IsIntegralType (UsualUnaryConversionType rtype)
     then bindL (liftL (NodeSizeof n (Some (GetDeepBaseType ltype)) False)) (\<lambda>_.
          retL (set_binop n ltype left right))
     else bindL (AssignmentConversions fuel right ltype) (\<lambda>r.
          retL (set_binop n ltype left r))))))"

text \<open>
  The search for a member goes into the unnamed structs and unions among the members; the fuel bounds
  their nesting.
\<close>

definition decl_name :: "decl \<Rightarrow> string option" where
  "decl_name d = (case d of Decl n _ _ _ _ \<Rightarrow> n)"

fun SUE_FindField :: "nat \<Rightarrow> nat \<Rightarrow> string \<Rightarrow> decl option cc_loop"
and find_in_fields :: "nat \<Rightarrow> decl list \<Rightarrow> string \<Rightarrow> decl option cc_loop" where
  "SUE_FindField 0 u name = (\<lambda>_. None)"
| "SUE_FindField (Suc k) u name =
     bindL (liftL (getM (\<lambda>s. sue_fields (sues s u)))) (\<lambda>fs. find_in_fields k fs name)"
| "find_in_fields k [] name = retL None"
| "find_in_fields k (f # fs) name =
     (case decl_name f of
        Some m \<Rightarrow> if name = m then retL (Some f) else find_in_fields k fs name
      | None \<Rightarrow>
          (let below = (\<lambda>u. bindL (SUE_FindField k u name) (\<lambda>x.
                 case x of Some d \<Rightarrow> retL (Some d) | None \<Rightarrow> find_in_fields k fs name)) in
           case type_base (decl_type f) of
             Sdcl _ _ u \<Rightarrow> below u
           | Udcl _ _ u \<Rightarrow> below u
           | _ \<Rightarrow> find_in_fields k fs name))"

definition field_name :: "node \<Rightarrow> cc_fail + string" where
  "field_name n = (case n of Id x _ _ \<Rightarrow> Inr x | _ \<Rightarrow> Inl AssertFail)"

definition SdclFindField :: "nat \<Rightarrow> ctype \<Rightarrow> node \<Rightarrow> decl option cc_loop" where
  "SdclFindField fuel t name =
     bindL (liftS (field_name name)) (\<lambda>x. case t of
       Sdcl _ _ u \<Rightarrow> SUE_FindField fuel u x
     | Udcl _ _ u \<Rightarrow> SUE_FindField fuel u x
     | _ \<Rightarrow> failL AssertFail)"

text \<open>The type of the right operand, an identifier without a declaration, is only used in messages.\<close>

definition is_su :: "ctype \<Rightarrow> bool" where
  "is_su t = (IsStructType t \<or> IsUnionType t)"

definition SemCheckDot :: "nat \<Rightarrow> node \<Rightarrow> node \<Rightarrow> node \<Rightarrow> node cc_loop" where
  "SemCheckDot fuel n left right =
     bindL (liftS (NodeDataType left)) (\<lambda>ltype.
     let t = type_base ltype in
     if \<not> is_su t then bindL (liftL SyntaxErrorCoord) (\<lambda>_. retL (set_binop n t left right)) else
     bindL (SdclFindField fuel t right) (\<lambda>field.
     case field of
       None \<Rightarrow> bindL (liftL SyntaxErrorCoord) (\<lambda>_. retL (set_binop n t left right))
     | Some f \<Rightarrow> retL (set_binop n (type_base (decl_type f)) left right)))"

text \<open>The left operand keeps its node: the conversion of an array to a pointer is not stored.\<close>

definition SemCheckArrow :: "nat \<Rightarrow> node \<Rightarrow> node \<Rightarrow> node \<Rightarrow> node cc_loop" where
  "SemCheckArrow fuel n l right =
     bindL (hostL (\<lambda>h. UsualUnaryConversions h l False)) (\<lambda>left.
     bindL (liftS (NodeDataType left)) (\<lambda>ltype.
     case ltype of
       Ptr _ b \<Rightarrow>
         (let t = type_base b in
          if \<not> is_su t then bindL (liftL SyntaxErrorCoord) (\<lambda>_. retL (set_binop n t l right)) else
          bindL (SdclFindField fuel t right) (\<lambda>field.
          case field of
            None \<Rightarrow> bindL (liftL SyntaxErrorCoord) (\<lambda>_. retL (set_binop n t l right))
          | Some f \<Rightarrow> bindL (MakeMergedType (type_base (decl_type f)) b) (\<lambda>m.
              retL (set_binop n m l right))))
     | _ \<Rightarrow> bindL (liftL SyntaxErrorCoord) (\<lambda>_. retL (set_binop n ltype l right))))"

text \<open>\<open>SemCheckDesignatedInitializer\<close> and \<open>SemCheckArrayLabeledInitializer\<close>.\<close>

definition SemCheckDesignatedInitializer :: "node \<Rightarrow> node \<Rightarrow> node \<Rightarrow> node cc_loop" where
  "SemCheckDesignatedInitializer n left right =
     bindL (liftS (NodeDataType right)) (\<lambda>rtype. retL (set_binop n rtype left right))"

definition SemCheckArrayLabeledInitializer :: "node \<Rightarrow> node \<Rightarrow> node \<Rightarrow> node cc_loop" where
  "SemCheckArrayLabeledInitializer n left right =
     bindL (liftS (NodeDataType left)) (\<lambda>_.
     bindL (liftS (NodeDataType right)) (\<lambda>rtype. retL (set_binop n rtype left right)))"

definition SemCheckBinop :: "check \<Rightarrow> nat \<Rightarrow> OpType \<Rightarrow> node \<Rightarrow> node \<Rightarrow> ctype option \<Rightarrow> node option \<Rightarrow> node cc_loop" where
  "SemCheckBinop chk fuel opc l0 r0 t v =
     bindL (chk l0) (\<lambda>l.
     bindL (chk r0) (\<lambda>r.
     let n = Binop opc l r t v in
     if IsAssignmentOp opc then SemCheckAssignment fuel n opc l r
     else if opc = OP_dot then SemCheckDot fuel n l r
     else if opc = ARROW then SemCheckArrow fuel n l r
     else if opc = OP_colon \<or> opc = DESIGNATED_INITIALIZER then SemCheckDesignatedInitializer n l r
     else if opc = ARRAY_LABELED_INITIALIZER then SemCheckArrayLabeledInitializer n l r
     else if IsArithmeticOp opc then liftL (SemCheckArithmetic n)
     else if IsComparisonOp opc then SemCheckComparison n
     else failL AssertFail))"

subsection \<open>Arrays and calls\<close>

fun index_type :: "ctype \<Rightarrow> node list \<Rightarrow> ctype cc_prog" where
  "index_type t [] = ret t"
| "index_type (Adcl _ _ t) (d # ds) = index_type (type_base t) ds"
| "index_type (Ptr _ t) (d # ds) = index_type (type_base t) ds"
| "index_type _ (d # ds) = bindM SyntaxErrorCoord (\<lambda>_. ret PrimVoid)"

definition is_indexable :: "ctype \<Rightarrow> bool" where
  "is_indexable t = (case t of Adcl _ _ _ \<Rightarrow> True | Ptr _ _ \<Rightarrow> True | _ \<Rightarrow> False)"

definition ArrayType :: "node \<Rightarrow> node list \<Rightarrow> ctype cc_prog" where
  "ArrayType name dims =
     bindM (liftE (NodeDataType name)) (\<lambda>t.
     if is_indexable t then index_type t dims else failM AssertFail)"

definition SemCheckArray :: "check \<Rightarrow> node \<Rightarrow> node list \<Rightarrow> node cc_loop" where
  "SemCheckArray chk name0 dims0 =
     bindL (chk name0) (\<lambda>name1.
     bindL (SemCheckList chk dims0) (\<lambda>dims1.
     bindL (liftS (NodeDataType name1)) (\<lambda>t1.
     let finish = (\<lambda>name dims t.
       bindL (liftL (NodeSizeof name (Some (GetShallowBaseType t)) False)) (\<lambda>_.
       bindL (liftL (ArrayType name dims)) (\<lambda>ty. retL (Array (Some ty) name dims)))) in
     if is_indexable t1 then finish name1 dims1 t1
     else (case dims1 of
       [] \<Rightarrow> failL AssertFail
     | d # ds \<Rightarrow>
         bindL (liftS (NodeDataType d)) (\<lambda>ftype.
         if is_indexable ftype then finish d (name1 # ds) ftype
         else bindL (liftL SyntaxErrorCoord) (\<lambda>_. retL (Array (Some PrimVoid) name1 dims1)))))))"

fun convert_args :: "nat \<Rightarrow> ctype list option \<Rightarrow> node list \<Rightarrow> node list cc_loop" where
  "convert_args fuel formals [] = retL []"
| "convert_args fuel formals (a # as) =
     (let formals' = (case formals of Some (f # fs) \<Rightarrow> if IsEllipsis f then None else formals | _ \<Rightarrow> formals) in
      bindL (case formals' of
          None \<Rightarrow> hostL (\<lambda>h. UsualUnaryConversions h a True)
        | Some [] \<Rightarrow> failL BadPointer
        | Some (f # fs) \<Rightarrow> CallConversions fuel a (type_base f)) (\<lambda>a'.
      bindL (convert_args fuel (map_option tl formals') as) (\<lambda>as'. retL (a' # as'))))"

definition SemCheckCallArgs :: "nat \<Rightarrow> ctype list option \<Rightarrow> node list \<Rightarrow> node list cc_loop" where
  "SemCheckCallArgs fuel formals actuals =
     (let fs = (case formals of None \<Rightarrow> [] | Some fs \<Rightarrow> fs);
          variable_length = (formals = None \<or> fs \<noteq> [] \<and> IsEllipsis (last fs));
          formals_len = (if IsVoidArglist fs then 0 else length fs) in
      if \<not> variable_length \<and> formals_len \<noteq> length actuals
      then bindL (liftL SyntaxErrorCoord) (\<lambda>_. retL actuals)
      else if \<not> IsVoidArglist fs then convert_args fuel formals actuals
      else retL actuals)"

fun SemCheckCall1 :: "nat \<Rightarrow> node list \<Rightarrow> ctype \<Rightarrow> node list cc_loop" where
  "SemCheckCall1 fuel args (Fdcl q formals _) =
     bindL (SemCheckCallArgs fuel formals args) (\<lambda>args'.
     bindL (liftL (if tq_has_procedure q \<or> tq_has_inlet q then SyntaxErrorCoord else ret ())) (\<lambda>_.
     retL args'))"
| "SemCheckCall1 fuel args (Ptr _ t) = SemCheckCall1 fuel args (type_base t)"
| "SemCheckCall1 fuel args _ = bindL (liftL SyntaxErrorCoord) (\<lambda>_. retL args)"

definition SemCheckCall :: "check \<Rightarrow> nat \<Rightarrow> node \<Rightarrow> node list \<Rightarrow> node cc_loop" where
  "SemCheckCall chk fuel name0 args0 =
     bindL (chk name0) (\<lambda>name.
     bindL (SemCheckList chk args0) (\<lambda>args.
     bindL (liftS (NodeDataType name)) (\<lambda>t.
     bindL (SemCheckCall1 fuel args t) (\<lambda>args'. retL (Call name args')))))"

definition SemCheckComma :: "check \<Rightarrow> node list \<Rightarrow> node cc_loop" where
  "SemCheckComma chk es = bindL (SemCheckList chk es) (\<lambda>es'. retL (Comma es'))"

definition SemCheckImplicitCast :: "check \<Rightarrow> node option \<Rightarrow> ctype \<Rightarrow> node option \<Rightarrow> node cc_loop" where
  "SemCheckImplicitCast chk e t v =
     bindL (checked_option chk e) (\<lambda>e'. retL (ImplicitCast e' t v))"

subsection \<open>Types\<close>

text \<open>C's conversion to \<open>int\<close>, and an \<open>int\<close> that must not overflow.\<close>

definition to_int :: "int \<Rightarrow> int" where
  "to_int i = signed_take_bit 31 i"

definition int_ok :: "int \<Rightarrow> cc_fail + int" where
  "int_ok i = (if - (2 ^ 31) \<le> i \<and> i < 2 ^ 31 then Inr i else Inl Undefined)"

fun check_types :: "check \<Rightarrow> ctype list \<Rightarrow> ctype list cc_loop" where
  "check_types chk [] = retL []"
| "check_types chk (t # ts) =
     bindL (check_type chk t) (\<lambda>t'. bindL (check_types chk ts) (\<lambda>ts'. retL (t' # ts')))"

definition set_dim :: "nat \<Rightarrow> node \<Rightarrow> unit cc_prog" where
  "set_dim i d = modifyM (\<lambda>s. s\<lparr>arrays := (arrays s)(dimp s i := (arrays s (dimp s i))\<lparr>dim := Some d\<rparr>)\<rparr>)"

definition set_array_size :: "nat \<Rightarrow> 32 word \<Rightarrow> unit cc_prog" where
  "set_array_size i w =
     modifyM (\<lambda>s. s\<lparr>arrays := (arrays s)(dimp s i := (arrays s (dimp s i))\<lparr>array_size := w\<rparr>)\<rparr>)"

definition is_integral_node :: "node \<Rightarrow> cc_fail + bool" where
  "is_integral_node n = bindE (NodeDataType n) (\<lambda>t. Inr (IsIntegralType t))"

definition dimension_size :: "nat \<Rightarrow> TypeQual \<Rightarrow> ctype \<Rightarrow> node \<Rightarrow> unit cc_prog" where
  "dimension_size i q t d =
     bindM (liftE (NodeIsConstant d)) (\<lambda>c.
     if \<not> c then bindM SyntaxErrorCoord (\<lambda>_. set_array_size i 0) else
     bindM (liftE (is_integral_node d)) (\<lambda>int.
     if \<not> int then bindM SyntaxErrorCoord (\<lambda>_. set_array_size i 0) else
     bindM (liftE (NodeConstantIntegralValue d)) (\<lambda>w.
     let val = (ucast w :: 32 word) in
     if sint val < 0 then bindM SyntaxErrorCoord (\<lambda>_. set_array_size i 0) else
     bindM (getM ANSIOnly) (\<lambda>ansi.
     bindM (if val = 0 \<and> ansi then WarningCoord 1 else ret ()) (\<lambda>_.
     bindM (NodeSizeof (TypeNode (Adcl i q t)) (Some (type_base t)) False) (\<lambda>size.
     set_array_size i (val * size)))))))"

definition SemCheckAdcl :: "check \<Rightarrow> nat \<Rightarrow> TypeQual \<Rightarrow> ctype \<Rightarrow> ctype cc_loop" where
  "SemCheckAdcl chk i q t0 =
     bindL (check_type chk t0) (\<lambda>t.
     bindL (liftL (getM (\<lambda>s. dim (arrays s (dimp s i))))) (\<lambda>d0.
     bindL (case d0 of
         None \<Rightarrow> liftL (set_array_size i 0)
       | Some d0 \<Rightarrow> bindL (chk d0) (\<lambda>d.
           bindL (liftL (set_dim i d)) (\<lambda>_. liftL (dimension_size i q t d)))) (\<lambda>_.
     retL (Adcl i q t))))"

definition check_formals :: "check \<Rightarrow> ctype list option \<Rightarrow> ctype list option cc_loop" where
  "check_formals chk args = (case args of
      None \<Rightarrow> retL None | Some ts \<Rightarrow> bindL (check_types chk ts) (\<lambda>ts'. retL (Some ts')))"

definition SemCheckFdcl :: "check \<Rightarrow> TypeQual \<Rightarrow> ctype list option \<Rightarrow> ctype \<Rightarrow> ctype cc_loop" where
  "SemCheckFdcl chk q args returns =
     bindL (check_formals chk args) (\<lambda>args'.
     bindL (check_type chk returns) (\<lambda>returns'. retL (Fdcl q args' returns')))"

subsection \<open>Members of structs and unions\<close>

definition upd_sue :: "nat \<Rightarrow> (SUEtype \<Rightarrow> SUEtype) \<Rightarrow> unit cc_prog" where
  "upd_sue u f = modifyM (\<lambda>s. s\<lparr>sues := (sues s)(u := f (sues s u))\<rparr>)"

definition set_field :: "nat \<Rightarrow> nat \<Rightarrow> decl \<Rightarrow> unit cc_prog" where
  "set_field u i d = upd_sue u (\<lambda>x. x\<lparr>sue_fields := (sue_fields x)[i := d]\<rparr>)"

text \<open>A declaration without an initialiser; the check of initialisers is not part of the model.\<close>

definition SemCheckDecl :: "check \<Rightarrow> decl \<Rightarrow> decl cc_loop" where
  "SemCheckDecl chk d0 = (case d0 of Decl name q t0 init bits0 \<Rightarrow>
     bindL (check_type chk t0) (\<lambda>t.
     if init \<noteq> None then failL NotModelled else
     bindL (checked_option chk bits0) (\<lambda>bits.
     let d = Decl name q t None bits in
     bindL (if DeclIsBlock d \<and> \<not> DeclIsTypedef d \<and> \<not> IsFunctionType t
            then bindL (liftL (NodeSizeof (DeclNode d) (Some t) False)) (\<lambda>_. retL ())
            else retL ()) (\<lambda>_.
     bindL (liftL
       (if tq_has_shared q then
          bindM (require (\<not> tq_has_private q)) (\<lambda>_.
          bindM (require (tq_has_top_decl (NodeDeclLocation d))) (\<lambda>_.
          require (\<not> IsFunctionType t)))
        else if tq_has_private q then
          bindM (require (tq_has_top_decl (NodeDeclLocation d))) (\<lambda>_.
          require (\<not> IsFunctionType t))
        else ret ())) (\<lambda>_.
     retL d)))))"

definition BYTE_LENGTH :: int where "BYTE_LENGTH = 8"
definition WORD_LENGTH :: int where "WORD_LENGTH = 32"

definition align_up :: "int \<Rightarrow> int \<Rightarrow> int" where
  "align_up pos a = (if pos smod a \<noteq> 0 then pos + a - pos smod a else pos)"

definition bit_field_type :: "ctype \<Rightarrow> bool" where
  "bit_field_type t = (case t of
      Edcl _ _ _ \<Rightarrow> True
    | Prim _ b \<Rightarrow> b \<in> {Schar, Uchar, Sshort, Ushort, Sint, Uint}
    | _ \<Rightarrow> False)"

text \<open>
  Where a bit field of a given width leaves the running count of bits, and whether it is an error.
  \<open>WORD_LENGTH\<close> comes from \<open>sizeof\<close>, so the arithmetic with it is that of a 64-bit unsigned type.
\<close>

definition u64 :: "int \<Rightarrow> int" where
  "u64 i = take_bit 64 i"

definition place_bits :: "int \<Rightarrow> int \<Rightarrow> bool \<Rightarrow> bool \<times> int" where
  "place_bits currentbit bitsize named =
     (if bitsize < 0 then (False, currentbit)
      else if bitsize = 0 then
        (if named then (False, currentbit)
         else if u64 currentbit mod WORD_LENGTH \<noteq> 0
         then (True, to_int (currentbit + WORD_LENGTH - u64 currentbit mod WORD_LENGTH))
         else (True, currentbit))
      else if u64 (currentbit + bitsize - 1) div WORD_LENGTH \<noteq> u64 currentbit div WORD_LENGTH
        then (True, to_int (WORD_LENGTH * (u64 currentbit div WORD_LENGTH + 1)) + bitsize)
      else (True, currentbit + bitsize))"

definition bit_width :: "node \<Rightarrow> int cc_prog" where
  "bit_width n =
     bindM (liftE (NodeIsConstant n)) (\<lambda>c.
     bindM (if c then liftE (is_integral_node n) else ret False) (\<lambda>ok.
     if \<not> ok then bindM SyntaxErrorCoord (\<lambda>_. ret 8)
     else bindM (liftE (NodeConstantIntegralValue n)) (\<lambda>w. ret (to_int (uint w)))))"

definition bit_field :: "check \<Rightarrow> nat \<Rightarrow> nat \<Rightarrow> decl \<Rightarrow> node \<Rightarrow> int \<Rightarrow> (int \<times> int) cc_loop" where
  "bit_field chk u i d width0 currentbit = (case d of Decl name q t init _ \<Rightarrow>
     bindL (liftL (require (bit_field_type (type_base t)))) (\<lambda>_.
     bindL (chk width0) (\<lambda>width.
     bindL (liftL (set_field u i (Decl name q t init (Some width)))) (\<lambda>_.
     bindL (liftL (bit_width width)) (\<lambda>bitsize.
     let (ok, pos) = place_bits currentbit bitsize (name \<noteq> None) in
     bindL (liftL (require ok)) (\<lambda>_.
     bindL (liftS (int_ok pos)) (\<lambda>pos. retL (pos, BYTE_LENGTH))))))))"

definition plain_field :: "check \<Rightarrow> nat \<Rightarrow> nat \<Rightarrow> decl \<Rightarrow> bool \<Rightarrow> int \<Rightarrow> (int \<times> int) cc_loop" where
  "plain_field chk u i d0 flexible currentbit =
     bindL (check_decl chk d0) (\<lambda>d.
     bindL (liftL (set_field u i d)) (\<lambda>_.
     bindL (liftL (NodeSizeof (DeclNode d) None flexible)) (\<lambda>size.
     bindL (liftL (NodeAlignment (DeclNode d) None)) (\<lambda>al.
     let bitsize = sint (8 * size);
         bitalign = al * BYTE_LENGTH in
     if bitalign = 0 then failL Undefined else
     bindL (liftS (int_ok (align_up currentbit bitalign + bitsize))) (\<lambda>pos.
     retL (pos, bitalign))))))"

text \<open>The loop over the fields of a struct: the running count of bits and the strictest alignment.\<close>

fun struct_fields :: "check \<Rightarrow> nat \<Rightarrow> nat \<Rightarrow> decl list \<Rightarrow> int \<Rightarrow> int \<Rightarrow> (int \<times> int) cc_loop" where
  "struct_fields chk u i [] currentbit max_bitalign = retL (currentbit, max_bitalign)"
| "struct_fields chk u i (d # ds) currentbit max_bitalign =
     bindL (case d of Decl _ _ _ _ (Some width) \<Rightarrow> bit_field chk u i d width currentbit
            | _ \<Rightarrow> plain_field chk u i d (ds = [] \<and> 0 < i) currentbit) (\<lambda>(pos, bitalign).
     struct_fields chk u (Suc i) ds pos (max bitalign max_bitalign))"

definition StructCheckFields :: "check \<Rightarrow> nat \<Rightarrow> unit cc_loop" where
  "StructCheckFields chk u =
     bindL (liftL (getM (\<lambda>s. sues s u))) (\<lambda>sue.
     if sue_visited sue then retL () else
     bindL (liftL (upd_sue u (\<lambda>x. x\<lparr>sue_visited := True\<rparr>))) (\<lambda>_.
     bindL (struct_fields chk u 0 (sue_fields sue) 0 8) (\<lambda>(pos, max_bitalign).
     bindL (liftS (int_ok (align_up pos max_bitalign))) (\<lambda>pos.
     liftL (upd_sue u (\<lambda>x. x\<lparr>sue_size := word_of_int (pos sdiv BYTE_LENGTH),
                              sue_align := max_bitalign sdiv BYTE_LENGTH\<rparr>))))))"

fun union_fields :: "check \<Rightarrow> nat \<Rightarrow> nat \<Rightarrow> decl list \<Rightarrow> int \<Rightarrow> int \<Rightarrow> (int \<times> int) cc_loop" where
  "union_fields chk u i [] max_size max_align = retL (max_size, max_align)"
| "union_fields chk u i (d0 # ds) max_size max_align =
     (let t = type_base (decl_type d0) in
      bindL (if IsStructType t \<or> IsArrayType t \<or> IsUnionType t
             then bindL (check_decl chk d0) (\<lambda>d. bindL (liftL (set_field u i d)) (\<lambda>_. retL d))
             else retL d0) (\<lambda>d.
      bindL (liftL (NodeSizeof (DeclNode d) None False)) (\<lambda>size.
      bindL (liftL (NodeAlignment (DeclNode d) None)) (\<lambda>al.
      union_fields chk u (Suc i) ds (max max_size (sint size)) (max max_align al)))))"

definition UnionCheckFields :: "check \<Rightarrow> nat \<Rightarrow> unit cc_loop" where
  "UnionCheckFields chk u =
     bindL (liftL (getM (\<lambda>s. sues s u))) (\<lambda>sue.
     if sue_visited sue then retL () else
     bindL (liftL (upd_sue u (\<lambda>x. x\<lparr>sue_visited := True\<rparr>))) (\<lambda>_.
     bindL (union_fields chk u 0 (sue_fields sue) 0 0) (\<lambda>(size, al).
     liftL (upd_sue u (\<lambda>x. x\<lparr>sue_size := word_of_int size, sue_align := al\<rparr>)))))"

text \<open>The values of the constants of an enumeration, counted up as a 32-bit \<open>int\<close>.\<close>

definition set_init :: "decl \<Rightarrow> node \<Rightarrow> decl" where
  "set_init d i = (case d of Decl name q t _ bits \<Rightarrow> Decl name q t (Some i) bits)"

definition enum_init :: "check \<Rightarrow> nat \<Rightarrow> 32 word \<Rightarrow> node option \<Rightarrow> (node \<times> 32 word) cc_loop" where
  "enum_init chk fuel counter init = (case init of
      None \<Rightarrow> bindL (liftS (NodeSetSintValue (MakeImplicitCast PrimSint None) counter)) (\<lambda>i. retL (i, counter))
    | Some i0 \<Rightarrow>
        bindL (chk i0) (\<lambda>i.
        bindL (liftS (NodeIsConstant i)) (\<lambda>c.
        if \<not> c then bindL (liftL SyntaxErrorCoord) (\<lambda>_. retL (i, counter)) else
        bindL (liftS (NodeDataType i)) (\<lambda>t.
        if TypeIsSint t then bindL (liftS (NodeConstantSintValue i)) (\<lambda>v. retL (i, v))
        else if TypeIsUint t then
          bindL (liftS (NodeConstantUintValue i)) (\<lambda>v.
          bindL (AssignmentConversions fuel i PrimSint) (\<lambda>i'. retL (i', v)))
        else if TypeIsSlong t then bindL (liftS (NodeConstantSlongValue i)) (\<lambda>v. retL (i, ucast v))
        else if TypeIsUlong t then
          bindL (liftS (NodeConstantUlongValue i)) (\<lambda>v.
          bindL (AssignmentConversions fuel i PrimSint) (\<lambda>i'. retL (i', ucast v)))
        else bindL (liftL SyntaxErrorCoord) (\<lambda>_. retL (i, counter))))))"

fun enum_fields :: "check \<Rightarrow> nat \<Rightarrow> nat \<Rightarrow> nat \<Rightarrow> decl list \<Rightarrow> 32 word \<Rightarrow> unit cc_loop" where
  "enum_fields chk fuel u i [] counter = retL ()"
| "enum_fields chk fuel u i (d # ds) counter =
     bindL (enum_init chk fuel counter (decl_init d)) (\<lambda>(e, v).
     bindL (liftL (set_field u i (set_init d e))) (\<lambda>_.
     bindL (liftS (signed_result (sint v + 1) :: cc_fail + 32 word)) (\<lambda>v'.
     enum_fields chk fuel u (Suc i) ds v')))"

definition AssignEnumValues :: "check \<Rightarrow> nat \<Rightarrow> nat \<Rightarrow> unit cc_loop" where
  "AssignEnumValues chk fuel u =
     bindL (liftL (getM (\<lambda>s. sue_fields (sues s u)))) (\<lambda>ds. enum_fields chk fuel u 0 ds 0)"

definition SemCheckType :: "check \<Rightarrow> nat \<Rightarrow> ctype \<Rightarrow> ctype cc_loop" where
  "SemCheckType chk fuel t = (case t of
      Prim _ _ \<Rightarrow> retL t
    | Tdef _ _ _ \<Rightarrow> retL t
    | Ptr q b \<Rightarrow> bindL (check_type chk b) (\<lambda>b'. retL (Ptr q b'))
    | Adcl i q b \<Rightarrow> SemCheckAdcl chk i q b
    | Fdcl q args returns \<Rightarrow> SemCheckFdcl chk q args returns
    | Sdcl i q u \<Rightarrow>
        bindL (if tq_has_sue_elaborated q then StructCheckFields chk u else retL ()) (\<lambda>_. retL t)
    | Udcl i q u \<Rightarrow>
        bindL (if tq_has_sue_elaborated q then UnionCheckFields chk u else retL ()) (\<lambda>_. retL t)
    | Edcl i q u \<Rightarrow>
        bindL (if tq_has_sue_elaborated q then AssignEnumValues chk fuel u else retL ()) (\<lambda>_. retL t))"

subsection \<open>SemCheckNode\<close>

definition SemCheckStep :: "check \<Rightarrow> nat \<Rightarrow> node \<Rightarrow> node cc_loop" where
  "SemCheckStep chk fuel n = (case n of
      Const x t v \<Rightarrow> SemCheckConst chk x t v
    | Id x d v \<Rightarrow> SemCheckId n d
    | Binop opc l r t v \<Rightarrow> SemCheckBinop chk fuel opc l r t v
    | Unary opc e t v \<Rightarrow> SemCheckUnary chk n opc e
    | Cast t e v \<Rightarrow> SemCheckCast chk fuel t e v
    | ImplicitCast e t v \<Rightarrow> SemCheckImplicitCast chk e t v
    | Comma es \<Rightarrow> SemCheckComma chk es
    | Ternary c tr fa t v \<Rightarrow> SemCheckTernary chk c tr fa v
    | Array t name dims \<Rightarrow> SemCheckArray chk name dims
    | Call name args \<Rightarrow> SemCheckCall chk fuel name args
    | TypeNode t \<Rightarrow> bindL (SemCheckType chk fuel t) (\<lambda>t'. retL (TypeNode t'))
    | DeclNode d \<Rightarrow> bindL (SemCheckDecl chk d) (\<lambda>d'. retL (DeclNode d')))"

fun SemCheckNode :: "nat \<Rightarrow> node \<Rightarrow> node cc_loop" where
  "SemCheckNode 0 n = (\<lambda>_. None)"
| "SemCheckNode (Suc k) n = SemCheckStep (SemCheckNode k) k n"

end
