(* ===== verification/Cc_Folding.thy ===== *)
theory Cc_Folding
  imports Cc_Check
begin

section \<open>Constant folding against the rules of C\<close>

text \<open>
  A reference evaluator for integer constant expressions, written with the rules of the language: the
  usual arithmetic conversions by rank, exact integers, and no value where the expression has none.
  The lemmas here say what the functions of the translator do on operands that have been folded; the
  theory \<open>Cc_Folding_Properties\<close> puts them together.
\<close>

subsection \<open>The four integer types of constants\<close>

definition int_types :: "BasicType list" where
  "int_types = [Sint, Uint, Slong, Ulong]"

definition is_signed :: "BasicType \<Rightarrow> bool" where
  "is_signed b = (b = Sint \<or> b = Slong)"

definition bits :: "BasicType \<Rightarrow> nat" where
  "bits b = (if b = Sint \<or> b = Uint then 32 else 64)"

definition in_range :: "BasicType \<Rightarrow> int \<Rightarrow> bool" where
  "in_range b i = (if is_signed b then - (2 ^ (bits b - 1)) \<le> i \<and> i < 2 ^ (bits b - 1)
                   else 0 \<le> i \<and> i < 2 ^ bits b)"

definition convert :: "BasicType \<Rightarrow> int \<Rightarrow> int" where
  "convert b i = (if is_signed b then signed_take_bit (bits b - 1) i else take_bit (bits b) i)"

definition common :: "BasicType \<Rightarrow> BasicType \<Rightarrow> BasicType" where
  "common a b = (if a = Ulong \<or> b = Ulong then Ulong else if a = Slong \<or> b = Slong then Slong
                 else if a = Uint \<or> b = Uint then Uint else Sint)"

text \<open>A result at a type: unsigned types wrap, signed ones must not overflow.\<close>

definition result_at :: "BasicType \<Rightarrow> int \<Rightarrow> int option" where
  "result_at b i = (if \<not> is_signed b then Some (take_bit (bits b) i)
                    else if in_range b i then Some i else None)"

subsection \<open>The reference evaluator\<close>

definition ceval_unary :: "OpType \<Rightarrow> BasicType \<times> int \<Rightarrow> (BasicType \<times> int) option" where
  "ceval_unary opc x = (case x of (t, v) \<Rightarrow>
     if opc = UMINUS then map_option (Pair t) (result_at t (- v))
     else if opc = UPLUS then Some (t, v)
     else if opc = OP_not then Some (Sint, of_bool (v = 0))
     else if opc = OP_bitnot then Some (t, convert t (- v - 1))
     else None)"

definition quotient_ok :: "BasicType \<Rightarrow> int \<Rightarrow> int \<Rightarrow> bool" where
  "quotient_ok t a b = (b \<noteq> 0 \<and> in_range t (a sdiv b))"

definition ceval_arith :: "OpType \<Rightarrow> BasicType \<Rightarrow> int \<Rightarrow> int \<Rightarrow> int option" where
  "ceval_arith opc t a b =
     (if opc = OP_add then result_at t (a + b)
      else if opc = OP_sub then result_at t (a - b)
      else if opc = OP_mul then result_at t (a * b)
      else if opc = OP_div then (if quotient_ok t a b then Some (a sdiv b) else None)
      else if opc = OP_mod then (if quotient_ok t a b then Some (a smod b) else None)
      else if opc = OP_band then Some (a AND b)
      else if opc = OP_bxor then Some (a XOR b)
      else if opc = OP_bor then Some (a OR b)
      else None)"

definition ceval_shift :: "OpType \<Rightarrow> BasicType \<Rightarrow> int \<Rightarrow> int \<Rightarrow> int option" where
  "ceval_shift opc t a c =
     (if \<not> (0 \<le> c \<and> c < int (bits t)) then None
      else if opc = LS then (if a < 0 then None else result_at t (a * 2 ^ nat c))
      else Some (a div 2 ^ nat c))"

definition ceval_compare :: "OpType \<Rightarrow> int \<Rightarrow> int \<Rightarrow> bool option" where
  "ceval_compare opc a b =
     (if opc = OP_lt then Some (a < b) else if opc = LE then Some (a \<le> b)
      else if opc = OP_gt then Some (a > b) else if opc = GE then Some (a \<ge> b)
      else if opc = EQ then Some (a = b) else if opc = NE then Some (a \<noteq> b) else None)"

definition ceval_binop :: "OpType \<Rightarrow> BasicType \<times> int \<Rightarrow> BasicType \<times> int \<Rightarrow> (BasicType \<times> int) option" where
  "ceval_binop opc x y = (case (x, y) of ((t1, v1), (t2, v2)) \<Rightarrow>
     let t = common t1 t2; a = convert t v1; b = convert t v2 in
     if opc = LS \<or> opc = RS then map_option (Pair t1) (ceval_shift opc t1 v1 v2)
     else if opc = ANDAND then Some (Sint, of_bool (v1 \<noteq> 0 \<and> v2 \<noteq> 0))
     else if opc = OROR then Some (Sint, of_bool (v1 \<noteq> 0 \<or> v2 \<noteq> 0))
     else case ceval_compare opc a b of
         Some r \<Rightarrow> Some (Sint, of_bool r)
       | None \<Rightarrow> map_option (Pair t) (ceval_arith opc t a b))"

definition ceval_const :: "ctype \<Rightarrow> cvalue \<Rightarrow> (BasicType \<times> int) option" where
  "ceval_const t v = (case (t, v) of
      (Prim q Sint, Val_i w) \<Rightarrow> if q = EMPTY_TQ then Some (Sint, sint w) else None
    | (Prim q Uint, Val_u w) \<Rightarrow> if q = EMPTY_TQ then Some (Uint, uint w) else None
    | (Prim q Slong, Val_l w) \<Rightarrow> if q = EMPTY_TQ then Some (Slong, sint w) else None
    | (Prim q Ulong, Val_ul w) \<Rightarrow> if q = EMPTY_TQ then Some (Ulong, uint w) else None
    | _ \<Rightarrow> None)"

definition ceval_cast :: "ctype \<Rightarrow> BasicType \<times> int \<Rightarrow> (BasicType \<times> int) option" where
  "ceval_cast t x = (case t of
      Prim q b \<Rightarrow> if q = EMPTY_TQ \<and> b \<in> set int_types then Some (b, convert b (snd x)) else None
    | _ \<Rightarrow> None)"

text \<open>Only expressions as the parser builds them, without types or values, are evaluated.\<close>

fun ceval :: "node \<Rightarrow> (BasicType \<times> int) option" where
  "ceval (Const x t v) = ceval_const t v"
| "ceval (Unary opc e None None) = Option.bind (ceval e) (ceval_unary opc)"
| "ceval (Binop opc l r None None) =
     Option.bind (ceval l) (\<lambda>x. Option.bind (ceval r) (ceval_binop opc x))"
| "ceval (Cast t e None) = Option.bind (ceval e) (ceval_cast t)"
| "ceval (Ternary c (Some a) b None None) =
     Option.bind (ceval c) (\<lambda>x. Option.bind (ceval a) (\<lambda>y. Option.bind (ceval b) (\<lambda>z.
     let t = common (fst y) (fst z) in
     Some (t, convert t (if snd x \<noteq> 0 then snd y else snd z)))))"
| "ceval _ = None"

text \<open>
  Two things the translator does not do as C does: it tests the condition of a conditional expression as an
  \<open>int\<close>, so that a long that is not zero but a multiple of 2 to the 32 is taken for false, and it does not
  find the value of a condition that is a unary plus. Expressions without such conditions:
\<close>

fun usual_conditions :: "node \<Rightarrow> bool" where
  "usual_conditions (Unary opc e _ _) = usual_conditions e"
| "usual_conditions (Binop opc l r _ _) = (usual_conditions l \<and> usual_conditions r)"
| "usual_conditions (Cast t e _) = usual_conditions e"
| "usual_conditions (Ternary c (Some a) b _ _) =
     (usual_conditions c \<and> usual_conditions a \<and> usual_conditions b \<and>
      (case ceval c of Some (t, v) \<Rightarrow> v mod 2 ^ 32 = 0 \<longrightarrow> v = 0 | None \<Rightarrow> False) \<and>
      (case c of Unary opc _ _ _ \<Rightarrow> opc \<noteq> UPLUS | _ \<Rightarrow> True))"
| "usual_conditions _ = True"

fun depth :: "node \<Rightarrow> nat" where
  "depth (Const _ _ _) = 2"
| "depth (Unary _ e _ _) = Suc (depth e)"
| "depth (Binop _ l r _ _) = Suc (max (depth l) (depth r))"
| "depth (Cast _ e _) = Suc (max 2 (depth e))"
| "depth (Ternary c (Some a) b _ _) = Suc (max (depth c) (max (depth a) (depth b)))"
| "depth _ = 0"

subsection \<open>Arithmetic of the types\<close>

lemma convert_in_range: "b \<in> set int_types \<Longrightarrow> in_range b (convert b i)"
  by (auto simp: int_types_def in_range_def convert_def is_signed_def bits_def
      signed_take_bit_int_greater_eq_minus_exp signed_take_bit_int_less_exp take_bit_int_less_exp)

lemma convert_id: "b \<in> set int_types \<Longrightarrow> in_range b i \<Longrightarrow> convert b i = i"
  by (auto simp: int_types_def in_range_def convert_def is_signed_def bits_def
      signed_take_bit_int_eq_self take_bit_int_eq_self)

lemma common_int_types: "a \<in> set int_types \<Longrightarrow> b \<in> set int_types \<Longrightarrow> common a b \<in> set int_types"
  by (auto simp: int_types_def common_def)

lemma common_self: "a \<in> set int_types \<Longrightarrow> common a a = a"
  by (auto simp: int_types_def common_def)

end
