(* ===== verification/Cc_Folding_Laws.thy ===== *)
theory Cc_Folding_Laws
  imports Cc_Folding
begin

section \<open>Folding one operator\<close>

text \<open>
  For operands that have been folded to integer constants, every operator of the translator gives the
  value of the reference evaluator and leaves the state alone.
\<close>

definition cval :: "BasicType \<Rightarrow> int \<Rightarrow> cvalue" where
  "cval t v = (case t of
      Sint \<Rightarrow> Val_i (word_of_int v) | Uint \<Rightarrow> Val_u (word_of_int v)
    | Slong \<Rightarrow> Val_l (word_of_int v) | _ \<Rightarrow> Val_ul (word_of_int v))"

definition folded_to :: "node \<Rightarrow> BasicType \<Rightarrow> int \<Rightarrow> bool" where
  "folded_to n t v \<longleftrightarrow> t \<in> set int_types \<and> in_range t v \<and> NodeDataType n = Inr (Prim EMPTY_TQ t) \<and>
     (\<exists>x. node_value n = Some (Const x (Prim EMPTY_TQ t) (cval t v)))"

lemma int_type_cases: "t \<in> set int_types \<Longrightarrow>
  (t = Sint \<Longrightarrow> P) \<Longrightarrow> (t = Uint \<Longrightarrow> P) \<Longrightarrow> (t = Slong \<Longrightarrow> P) \<Longrightarrow> (t = Ulong \<Longrightarrow> P) \<Longrightarrow> P"
  by (auto simp: int_types_def)

subsection \<open>Reading a folded operand\<close>

lemma folded_typeD: "folded_to n t v \<Longrightarrow> t \<in> set int_types"
  by (simp add: folded_to_def)

lemma folded_rangeD: "folded_to n t v \<Longrightarrow> in_range t v"
  by (simp add: folded_to_def)

lemma folded_data: "folded_to n t v \<Longrightarrow> NodeDataType n = Inr (Prim EMPTY_TQ t)"
  by (simp add: folded_to_def)

lemma folded_constant: "folded_to n t v \<Longrightarrow> NodeIsConstant n = Inr True"
  by (auto simp: folded_to_def NodeIsConstant_def NodeGetConstantValue_def is_Const_def)

lemma folded_value: "folded_to n t v \<Longrightarrow>
  \<exists>x. NodeGetConstantValue n = Inr (Some (Const x (Prim EMPTY_TQ t) (cval t v)))"
  by (auto simp: folded_to_def NodeGetConstantValue_def is_Const_def)

lemma folded_type_tests: "folded_to n t v \<Longrightarrow>
  NodeTypeIsSint n = Inr (t = Sint) \<and> NodeTypeIsUint n = Inr (t = Uint) \<and>
  NodeTypeIsSlong n = Inr (t = Slong) \<and> NodeTypeIsUlong n = Inr (t = Ulong)"
  by (auto simp: folded_data node_type_defs type_is_defs)

lemma folded_sint: "folded_to n Sint v \<Longrightarrow> NodeConstantSintValue n = Inr (word_of_int v)"
  using folded_value [of n Sint v]
  by (auto simp: NodeConstantSintValue_def typed_value_def node_type_defs type_is_defs const_of_def cval_def)

lemma folded_uint: "folded_to n Uint v \<Longrightarrow> NodeConstantUintValue n = Inr (word_of_int v)"
  using folded_value [of n Uint v]
  by (auto simp: NodeConstantUintValue_def typed_value_def node_type_defs type_is_defs const_of_def cval_def)

lemma folded_slong: "folded_to n Slong v \<Longrightarrow> NodeConstantSlongValue n = Inr (word_of_int v)"
  using folded_value [of n Slong v]
  by (auto simp: NodeConstantSlongValue_def typed_value_def node_type_defs type_is_defs const_of_def cval_def)

lemma folded_ulong: "folded_to n Ulong v \<Longrightarrow> NodeConstantUlongValue n = Inr (word_of_int v)"
  using folded_value [of n Ulong v]
  by (auto simp: NodeConstantUlongValue_def typed_value_def node_type_defs type_is_defs const_of_def cval_def)

lemmas folded_reads = folded_data folded_constant folded_type_tests folded_sint folded_uint
  folded_slong folded_ulong

lemma in_range_iff:
  "in_range Sint v \<longleftrightarrow> - (2 ^ 31) \<le> v \<and> v < 2 ^ 31" "in_range Uint v \<longleftrightarrow> 0 \<le> v \<and> v < 2 ^ 32"
  "in_range Slong v \<longleftrightarrow> - (2 ^ 63) \<le> v \<and> v < 2 ^ 63" "in_range Ulong v \<longleftrightarrow> 0 \<le> v \<and> v < 2 ^ 64"
  by (simp_all add: in_range_def is_signed_def bits_def)

lemma sint_of_range:
  "in_range Sint v \<Longrightarrow> sint (word_of_int v :: 32 word) = v"
  "in_range Slong v \<Longrightarrow> sint (word_of_int v :: 64 word) = v"
  by (simp_all add: in_range_iff sint_sbintrunc' signed_take_bit_int_eq_self)

lemma uint_of_range:
  "in_range Uint v \<Longrightarrow> uint (word_of_int v :: 32 word) = v"
  "in_range Ulong v \<Longrightarrow> uint (word_of_int v :: 64 word) = v"
  by (simp_all add: in_range_iff uint_word_of_int_eq take_bit_int_eq_self)

lemma word_zero_of_range:
  "in_range Sint v \<Longrightarrow> (word_of_int v :: 32 word) = 0 \<longleftrightarrow> v = 0"
  "in_range Uint v \<Longrightarrow> (word_of_int v :: 32 word) = 0 \<longleftrightarrow> v = 0"
  "in_range Slong v \<Longrightarrow> (word_of_int v :: 64 word) = 0 \<longleftrightarrow> v = 0"
  "in_range Ulong v \<Longrightarrow> (word_of_int v :: 64 word) = 0 \<longleftrightarrow> v = 0"
  by (metis sint_of_range(1) signed_0 of_int_0, metis uint_of_range(1) unsigned_0 of_int_0,
      metis sint_of_range(2) signed_0 of_int_0, metis uint_of_range(2) unsigned_0 of_int_0)

lemma folded_zero: "folded_to n t v \<Longrightarrow> IsConstantZero h n = Inr (v = 0)"
  using folded_value [of n t v] folded_typeD [of n t v] folded_rangeD [of n t v]
  by (auto simp: IsConstantZero_def const_of_def cval_def word_zero_of_range int_types_def)

text \<open>A condition is tested by its low 32 bits.\<close>

lemma low_half: "(ucast (word_of_int v :: 64 word) :: 32 word) = word_of_int v"
  by (simp add: ucast_eq uint_word_of_int_eq word_of_int_eq_iff take_bit_take_bit)

lemma folded_boolean: "folded_to n t v \<Longrightarrow> NodeConstantBooleanValue h n = Inr (word_of_int v)"
  using folded_value [of n t v] folded_typeD [of n t v]
  by (auto simp: NodeConstantBooleanValue_def const_of_def cval_def int_types_def low_half)

lemma low_half_test: "(word_of_int v :: 32 word) = 0 \<longleftrightarrow> v mod 2 ^ 32 = 0"
  by (simp add: word_of_int_eq_0_iff dvd_eq_mod_eq_0)

lemma word_of_convert:
  "(word_of_int (convert Sint i) :: 32 word) = word_of_int i"
  "(word_of_int (convert Uint i) :: 32 word) = word_of_int i"
  "(word_of_int (convert Slong i) :: 64 word) = word_of_int i"
  "(word_of_int (convert Ulong i) :: 64 word) = word_of_int i"
  by (simp_all add: convert_def is_signed_def bits_def word_of_int_eq_iff
      take_bit_signed_take_bit)

lemma cval_convert: "t \<in> set int_types \<Longrightarrow> cval t (convert t i) = cval t i"
  by (auto simp: int_types_def cval_def word_of_convert)

lemma folded_integral:
  assumes "folded_to n t v"
  shows "NodeConstantIntegralValue n = Inr (word_of_int v)"
proof -
  obtain x where x: "NodeGetConstantValue n = Inr (Some (Const x (Prim EMPTY_TQ t) (cval t v)))"
    using folded_value [OF assms] by blast
  have "in_range t v" by (rule folded_rangeD [OF assms])
  then show ?thesis using folded_typeD [OF assms]
    by (elim int_type_cases)
      (simp_all add: NodeConstantIntegralValue_def x const_of_def cval_def scast_eq ucast_eq
        sint_of_range uint_of_range del: of_int_uint of_int_sint)
qed

subsection \<open>Conversions of a folded operand\<close>

abbreviation int_prim :: "BasicType \<Rightarrow> ctype" where "int_prim b \<equiv> Prim EMPTY_TQ b"

abbreviation int_const :: "BasicType \<Rightarrow> int \<Rightarrow> node" where
  "int_const b i \<equiv> Const None (int_prim b) (cval b i)"

lemma set_from_int_run: "b \<in> set int_types \<Longrightarrow>
  set_from_int h n b i = NodeSetConstantValue n (int_const b i)"
  by (erule int_type_cases) (simp_all add: set_from_int_def cval_def NodeSetSintValue_def
      NodeSetUintValue_def NodeSetSlongValue_def NodeSetUlongValue_def MakeConstSint_def
      MakeConstUint_def MakeConstSlong_def MakeConstUlong_def)

lemma fold_cast_run:
  assumes "folded_to e t v" and b: "b \<in> set int_types"
  shows "fold_cast h n e t b = NodeSetConstantValue n (int_const b v)"
proof -
  have "in_range t v" by (rule folded_rangeD [OF assms(1)])
  then show ?thesis using folded_typeD [OF assms(1)] assms(1)
    by (elim int_type_cases)
      (simp_all add: fold_cast_def folded_reads set_from_int_run [OF b] sint_of_range uint_of_range
        del: of_int_uint of_int_sint NodeSetConstantValue.simps)
qed

lemma int_prim_scalar: "b \<in> set int_types \<Longrightarrow> IsScalarType (int_prim b)"
  by (auto simp: int_types_def IsScalarType_def IsArithmeticType_def IsIntegralType_def)

lemma int_prim_basic: "b \<in> set int_types \<Longrightarrow> BasicTypeOfConstantValue (int_prim b) = Inr b"
  by (auto simp: int_types_def BasicTypeOfConstantValue_def)

lemma int_prim_narrow: "b \<in> set int_types \<Longrightarrow> b \<noteq> Slonglong \<and> b \<noteq> Ulonglong \<and> b \<noteq> Longdouble"
  by (auto simp: int_types_def)

lemma folded_const: "b \<in> set int_types \<Longrightarrow> NodeDataType n = Inr (int_prim b) \<Longrightarrow>
  node_value n = Some (Const x (int_prim b) (cval b i)) \<Longrightarrow> folded_to n b (convert b i)"
  by (simp add: folded_to_def convert_in_range cval_convert)

lemma ImplicitConversions_run:
  assumes "folded_to e t v" and b: "b \<in> set int_types"
  shows "\<exists>n. ImplicitConversions h e (int_prim b) = Inr n \<and> folded_to n b (convert b v)"
proof -
  have "ImplicitConversions h e (int_prim b) =
      Inr (ImplicitCast (Some e) (int_prim b) (Some (int_const b v)))"
    using folded_typeD [OF assms(1)] b folded_data [OF assms(1)] folded_constant [OF assms(1)]
    by (auto simp: ImplicitConversions_def ConstFoldCast_def MakeImplicitCast_def int_prim_scalar
        int_prim_basic int_prim_narrow fold_cast_run [OF assms])
  moreover have "folded_to (ImplicitCast (Some e) (int_prim b) (Some (int_const b v))) b (convert b v)"
    using b by (intro folded_const) (simp_all add: node_value_def)
  ultimately show ?thesis by blast
qed

lemma Cast_run:
  assumes "folded_to e t v" and b: "b \<in> set int_types"
  shows "\<exists>n. ConstFoldCast h (Cast (int_prim b) e None) = Inr n \<and> folded_to n b (convert b v)"
proof -
  have "ConstFoldCast h (Cast (int_prim b) e None) = Inr (Cast (int_prim b) e (Some (int_const b v)))"
    using folded_typeD [OF assms(1)] b folded_data [OF assms(1)] folded_constant [OF assms(1)]
    by (auto simp: ConstFoldCast_def int_prim_scalar int_prim_basic int_prim_narrow
        fold_cast_run [OF assms])
  moreover have "folded_to (Cast (int_prim b) e (Some (int_const b v))) b (convert b v)"
    using b by (intro folded_const) (simp_all add: node_value_def)
  ultimately show ?thesis by blast
qed

lemma UsualUnary_run: "folded_to e t v \<Longrightarrow> UsualUnaryConversions h e False = Inr e"
  using folded_typeD [of e t v] by (auto simp: UsualUnaryConversions_def folded_data int_types_def)

lemma binary_conv_int:
  "a \<in> set int_types \<Longrightarrow> b \<in> set int_types \<Longrightarrow> binary_conv a b =
    Inr (if a = b then Keep else if common a b = b then Node1 b else Node2 a)"
  by (auto simp: int_types_def binary_conv_def conv_defs or_fail_def common_def)

lemma common_cases: "a \<in> set int_types \<Longrightarrow> b \<in> set int_types \<Longrightarrow> common a b = a \<or> common a b = b"
  by (auto simp: int_types_def common_def)

lemma UsualBinary_run:
  assumes "folded_to e1 t1 v1" "folded_to e2 t2 v2"
  shows "\<exists>n1 n2. UsualBinaryConversions h e1 e2 = Inr (n1, n2) \<and>
     folded_to n1 (common t1 t2) (convert (common t1 t2) v1) \<and>
     folded_to n2 (common t1 t2) (convert (common t1 t2) v2)"
proof -
  note t1 = folded_typeD [OF assms(1)] and t2 = folded_typeD [OF assms(2)]
  note r1 = convert_id [OF t1 folded_rangeD [OF assms(1)]]
    and r2 = convert_id [OF t2 folded_rangeD [OF assms(2)]]
  note run = UsualBinaryConversions_def folded_data [OF assms(1)] folded_data [OF assms(2)]
    binary_conv_int [OF t1 t2]
  consider (same) "t1 = t2" | (first) "t1 \<noteq> t2" "common t1 t2 = t2"
    | (second) "t1 \<noteq> t2" "common t1 t2 \<noteq> t2" "common t1 t2 = t1"
    using common_cases [OF t1 t2] by blast
  then show ?thesis
  proof cases
    case same
    then show ?thesis using assms t2 r1 r2 by (simp add: run common_self binary_conv_int)
  next
    case first
    obtain n where "ImplicitConversions h e1 (int_prim t2) = Inr n" "folded_to n t2 (convert t2 v1)"
      using ImplicitConversions_run [OF assms(1) t2] by blast
    then show ?thesis using first assms r2 by (simp add: run)
  next
    case second
    obtain n where "ImplicitConversions h e2 (int_prim t1) = Inr n" "folded_to n t1 (convert t1 v2)"
      using ImplicitConversions_run [OF assms(2) t1] by blast
    then show ?thesis using second assms r1 by (simp add: run)
  qed
qed

subsection \<open>Operations on two constants of one type\<close>

definition apply_ops :: "fold_ops \<Rightarrow> BasicType \<Rightarrow> int \<Rightarrow> int \<Rightarrow> cc_fail + int option" where
  "apply_ops A t a b = (case t of
      Sint \<Rightarrow> bindE (on_i A (word_of_int a) (word_of_int b)) (\<lambda>r. Inr (map_option sint r))
    | Uint \<Rightarrow> bindE (on_u A (word_of_int a) (word_of_int b)) (\<lambda>r. Inr (map_option uint r))
    | Slong \<Rightarrow> bindE (on_l A (word_of_int a) (word_of_int b)) (\<lambda>r. Inr (map_option sint r))
    | _ \<Rightarrow> bindE (on_ul A (word_of_int a) (word_of_int b)) (\<lambda>r. Inr (map_option uint r)))"

definition set_folded :: "node \<Rightarrow> BasicType \<Rightarrow> int option \<Rightarrow> cc_fail + node option" where
  "set_folded n t r = (case r of
      None \<Rightarrow> Inr None
    | Some i \<Rightarrow> bindE (NodeSetConstantValue n (int_const t i)) (\<lambda>m. Inr (Some m)))"

lemma fold_with_run:
  assumes "get l = Inr x" "get r = Inr y"
    and "\<And>v. put v = NodeSetConstantValue n (int_const t (g v))"
  shows "fold_with get f put l r = bindE (bindE (f x y) (\<lambda>r. Inr (map_option g r))) (set_folded n t)"
  by (cases "f x y") (auto simp: fold_with_def assms set_folded_def split: option.split)

lemma set_value_run:
  "NodeSetSintValue n w = NodeSetConstantValue n (int_const Sint (sint w))"
  "NodeSetUintValue n w = NodeSetConstantValue n (int_const Uint (uint w))"
  "NodeSetSlongValue n l = NodeSetConstantValue n (int_const Slong (sint l))"
  "NodeSetUlongValue n l = NodeSetConstantValue n (int_const Ulong (uint l))"
  by (simp_all add: NodeSetSintValue_def NodeSetUintValue_def NodeSetSlongValue_def
      NodeSetUlongValue_def MakeConstSint_def MakeConstUint_def MakeConstSlong_def
      MakeConstUlong_def cval_def)

lemma fold_arms_run:
  assumes "folded_to l t a" "folded_to r t b"
  shows "fold_arms A n l r = bindE (apply_ops A t a b) (set_folded n t)"
  using folded_typeD [OF assms(1)] assms
  by (elim int_type_cases)
    (simp_all add: fold_arms_def elseE_def folded_type_tests apply_ops_def folded_sint folded_uint
      folded_slong folded_ulong fold_with_run [OF _ _ set_value_run(1)]
      fold_with_run [OF _ _ set_value_run(2)] fold_with_run [OF _ _ set_value_run(3)]
      fold_with_run [OF _ _ set_value_run(4)])

lemma folded_signed_run:
  "in_range Sint i \<Longrightarrow> (folded_signed i :: cc_fail + 32 word option) = Inr (Some (word_of_int i))"
  "in_range Slong i \<Longrightarrow> (folded_signed i :: cc_fail + 64 word option) = Inr (Some (word_of_int i))"
  by (simp_all add: folded_signed_def signed_result_def folded_def in_range_iff)

lemma result_at_signed:
  "result_at Sint i = Some j \<longleftrightarrow> in_range Sint i \<and> j = i"
  "result_at Slong i = Some j \<longleftrightarrow> in_range Slong i \<and> j = i"
  by (auto simp: result_at_def is_signed_def)

lemma result_at_unsigned:
  "result_at Uint i = Some j \<longleftrightarrow> j = take_bit 32 i"
  "result_at Ulong i = Some j \<longleftrightarrow> j = take_bit 64 i"
  by (auto simp: result_at_def is_signed_def bits_def)

lemmas run_ops = apply_ops_def folded_signed_run result_at_signed result_at_unsigned sint_of_range
  uint_of_range folded_def uint_word_of_int_eq

lemma word_ring:
  "uint (word_of_int a + word_of_int b :: 'a::len word) = take_bit LENGTH('a) (a + b)"
  "uint (word_of_int a - word_of_int b :: 'a::len word) = take_bit LENGTH('a) (a - b)"
  "uint (word_of_int a * word_of_int b :: 'a::len word) = take_bit LENGTH('a) (a * b)"
  "uint (- word_of_int a :: 'a::len word) = take_bit LENGTH('a) (- a)"
  by (simp_all add: uint_word_of_int_eq flip: of_int_add of_int_diff of_int_mult of_int_minus)

lemma plus_run:
  "t \<in> set int_types \<Longrightarrow> in_range t a \<Longrightarrow> in_range t b \<Longrightarrow> result_at t (a + b) = Some i \<Longrightarrow>
   apply_ops (plus_ops h) t a b = Inr (Some i)"
  by (erule int_type_cases) (simp_all add: run_ops plus_ops_def word_ring del: of_int_add of_int_diff of_int_mult)

lemma minus_run:
  "t \<in> set int_types \<Longrightarrow> in_range t a \<Longrightarrow> in_range t b \<Longrightarrow> result_at t (a - b) = Some i \<Longrightarrow>
   apply_ops (minus_ops h) t a b = Inr (Some i)"
  by (erule int_type_cases) (simp_all add: run_ops minus_ops_def word_ring del: of_int_add of_int_diff of_int_mult)

lemma mult_run:
  "t \<in> set int_types \<Longrightarrow> in_range t a \<Longrightarrow> in_range t b \<Longrightarrow> result_at t (a * b) = Some i \<Longrightarrow>
   apply_ops (mult_ops h) t a b = Inr (Some i)"
  by (erule int_type_cases) (simp_all add: run_ops mult_ops_def word_ring del: of_int_add of_int_diff of_int_mult)

lemma unsigned_quotient: "(0::int) \<le> a \<Longrightarrow> 0 \<le> b \<Longrightarrow> a sdiv b = a div b \<and> a smod b = a mod b"
  by (cases "a = 0"; cases "b = 0") (simp_all add: signed_divide_int_def signed_modulo_int_def
      minus_div_mult_eq_mod sgn_if)

lemma div_run:
  "t \<in> set int_types \<Longrightarrow> in_range t a \<Longrightarrow> in_range t b \<Longrightarrow> quotient_ok t a b \<Longrightarrow>
   apply_ops (div_ops h) t a b = Inr (Some (a sdiv b))"
  by (erule int_type_cases)
    (simp_all add: quotient_ok_def apply_ops_def div_ops_def word_zero_of_range folded_signed_run
      sint_of_range uint_of_range folded_def uint_div_distrib unsigned_quotient in_range_iff(2,4))

lemma smod_between: "(0 \<le> a \<longrightarrow> 0 \<le> a smod b \<and> a smod b \<le> a) \<and> (a < 0 \<longrightarrow> a \<le> a smod b \<and> a smod b \<le> 0)"
  for a b :: int
proof -
  have "0 \<le> \<bar>a\<bar> mod \<bar>b\<bar>" "\<bar>a\<bar> mod \<bar>b\<bar> \<le> \<bar>a\<bar>"
    by (cases "b = 0"; simp add: zmod_le_nonneg_dividend)+
  then show ?thesis by (auto simp: signed_modulo_int_def sgn_if)
qed

lemma smod_in_range: "is_signed t \<Longrightarrow> in_range t a \<Longrightarrow> in_range t (a smod b)"
  using smod_between [of a b] by (cases "a < 0") (auto simp: in_range_def intro: order_trans)

lemma signed_rem_run:
  "quotient_ok Sint a b \<Longrightarrow> in_range Sint a \<Longrightarrow> in_range Sint b \<Longrightarrow>
     signed_rem (word_of_int a :: 32 word) (word_of_int b) = Inr (Some (word_of_int (a smod b)))"
  "quotient_ok Slong a b \<Longrightarrow> in_range Slong a \<Longrightarrow> in_range Slong b \<Longrightarrow>
     signed_rem (word_of_int a :: 64 word) (word_of_int b) = Inr (Some (word_of_int (a smod b)))"
  using smod_in_range [of Sint a b] smod_in_range [of Slong a b]
  by (simp_all add: signed_rem_def quotient_ok_def word_zero_of_range sint_of_range is_signed_def
      folded_signed_run) (simp_all add: signed_result_def in_range_iff)

lemma mod_run:
  "t \<in> set int_types \<Longrightarrow> in_range t a \<Longrightarrow> in_range t b \<Longrightarrow> quotient_ok t a b \<Longrightarrow>
   apply_ops mod_ops t a b = Inr (Some (a smod b))"
  by (erule int_type_cases)
    (simp_all add: apply_ops_def mod_ops_def signed_rem_run unsigned_rem_def sint_of_range
      smod_in_range is_signed_def folded_def uint_mod_distrib uint_of_range quotient_ok_def
      word_zero_of_range unsigned_quotient in_range_iff(2,4))

lemma div_by_zero_run:
  "t \<in> set int_types \<Longrightarrow> apply_ops (div_ops h) t a 0 = Inr None"
  by (erule int_type_cases) (simp_all add: apply_ops_def div_ops_def)

lemma bit_run:
  assumes "t \<in> set int_types" "in_range t a" "in_range t b"
  shows "apply_ops (bit_ops (AND) (AND)) t a b = Inr (Some (a AND b))"
    and "apply_ops (bit_ops (XOR) (XOR)) t a b = Inr (Some (a XOR b))"
    and "apply_ops (bit_ops (OR) (OR)) t a b = Inr (Some (a OR b))"
  using assms by (auto elim!: int_type_cases
      simp: apply_ops_def bit_ops_def folded_def sint_of_range uint_of_range
      signed_and_eq signed_or_eq signed_xor_eq unsigned_and_eq unsigned_or_eq unsigned_xor_eq)

lemma in_rangeI_convert: "t \<in> set int_types \<Longrightarrow> convert t i = i \<Longrightarrow> in_range t i"
  using convert_in_range [of t i] by simp

lemma signed_take_bit_bitwise:
  "signed_take_bit n (a AND b) = signed_take_bit n a AND signed_take_bit n (b::int)"
  "signed_take_bit n (a OR b) = signed_take_bit n a OR signed_take_bit n (b::int)"
  "signed_take_bit n (a XOR b) = signed_take_bit n a XOR signed_take_bit n (b::int)"
  by (rule bit_eqI, simp add: bit_simps)+

lemma bits_in_range:
  assumes "t \<in> set int_types" "in_range t a" "in_range t b"
  shows "in_range t (a AND b)" and "in_range t (a XOR b)" and "in_range t (a OR b)"
  using convert_id [OF assms(1,2)] convert_id [OF assms(1,3)] assms(1)
  by (auto intro!: in_rangeI_convert simp: convert_def signed_take_bit_bitwise split: if_splits)

lemma result_in_range: "t \<in> set int_types \<Longrightarrow> result_at t i = Some j \<Longrightarrow> in_range t j"
  using convert_in_range [of t i] by (auto simp: result_at_def convert_def split: if_splits)

lemma rem_in_range:
  "t \<in> set int_types \<Longrightarrow> in_range t a \<Longrightarrow> in_range t b \<Longrightarrow> in_range t (a smod b)"
  using smod_in_range [of t a b] smod_between [of a b]
  by (cases "is_signed t") (auto simp: in_range_def)

lemma ceval_arith_range:
  assumes "t \<in> set int_types" "in_range t a" "in_range t b" "ceval_arith opc t a b = Some i"
  shows "in_range t i"
  using assms bits_in_range [OF assms(1-3)] rem_in_range [OF assms(1-3)] result_in_range [OF assms(1)]
  by (auto simp: ceval_arith_def quotient_ok_def split: if_splits)

subsection \<open>Shifts\<close>

lemma div_between: "0 < d \<Longrightarrow> (0 \<le> a \<longrightarrow> 0 \<le> a div d \<and> a div d \<le> a) \<and> (a < 0 \<longrightarrow> a \<le> a div d \<and> a div d < 0)"
  for a d :: int
  using zdiv_mono2 [of a 1 d] zdiv_mono2_neg [of a 1 d]
  by (auto simp: pos_imp_zdiv_nonneg_iff pos_imp_zdiv_neg_iff)

lemma shift_count:
  assumes "in_range t2 c" "0 \<le> c" "c < 64"
  shows "unat (word_of_int c :: 64 word) = nat c"
  using assms by (simp add: unat_eq_nat_uint uint_word_of_int_eq take_bit_int_eq_self)

lemma shift_run:
  assumes t: "t \<in> set int_types" and "in_range t a" "in_range t2 c"
    and "ceval_shift opc t a c = Some i" and "opc = LS \<or> opc = RS"
  shows "apply_ops ((if opc = LS then left_ops else right_ops) (word_of_int c)) t a a = Inr (Some i) \<and>
         in_range t i"
proof -
  have c: "0 \<le> c" "c < int (bits t)" using assms(4) by (auto simp: ceval_shift_def split: if_splits)
  then have n: "unat (word_of_int c :: 64 word) = nat c" "nat c < bits t"
    using shift_count [OF assms(3)] by (auto simp: bits_def split: if_splits)
  show ?thesis
  proof (cases "opc = LS")
    case True
    then have r: "0 \<le> a" "result_at t (a * 2 ^ nat c) = Some i"
      using assms(4) c by (auto simp: ceval_shift_def split: if_splits)
    have "apply_ops (left_ops (word_of_int c)) t a a = Inr (Some i)"
      using t r n assms(2)
      by (elim int_type_cases)
        (simp_all add: apply_ops_def left_ops_def shift_left_signed_def shift_left_unsigned_def
          folded_signed_run result_at_signed result_at_unsigned sint_of_range folded_def bits_def
          unsigned_push_bit_eq uint_of_range push_bit_int_def del: of_int_mult)
    then show ?thesis using True result_in_range [OF t r(2)] by simp
  next
    case False
    then have i: "i = drop_bit (nat c) a"
      using assms(4,5) c by (auto simp: ceval_shift_def drop_bit_int_def split: if_splits)
    have "apply_ops (right_ops (word_of_int c)) t a a = Inr (Some i)"
      using t n assms(2) i
      by (elim int_type_cases)
        (simp_all add: apply_ops_def right_ops_def shift_right_signed_def shift_right_unsigned_def
          sint_of_range folded_def bits_def unsigned_drop_bit_eq sint_signed_drop_bit_eq
          uint_of_range take_bit_int_eq_self in_range_iff)
    moreover have "in_range t i"
      using assms(2) div_between [of "2 ^ nat c" a] unfolding i in_range_def drop_bit_int_def
      by (cases "a < 0") (auto split: if_splits)
    ultimately show ?thesis using False by simp
  qed
qed

subsection \<open>Running the check of a binary expression\<close>

lemmas run_simps = bindM_def ret_def getM_def hostM_def liftE_def failM_def modifyM_def require_def

lemma folded_binop: "t \<in> set int_types \<Longrightarrow> in_range t i \<Longrightarrow>
  folded_to (Binop opc l r (Some (int_prim t)) (Some (int_const t i))) t i"
  by (simp add: folded_to_def node_value_def)

lemma both_constant_run: "folded_to l t1 v1 \<Longrightarrow> folded_to r t2 v2 \<Longrightarrow> both_constant l r = Inr True"
  by (simp add: both_constant_def folded_constant)

lemma int_prim_kinds: "t \<in> set int_types \<Longrightarrow>
  IsIntegralType (int_prim t) \<and> IsArithmeticType (int_prim t) \<and> \<not> IsPointerType (int_prim t)"
  by (auto simp: int_types_def IsIntegralType_def IsArithmeticType_def IsPointerType_def)

lemma fold_constants_run:
  assumes "folded_to l t a" "folded_to r t b" "apply_ops A t a b = Inr (Some i)"
  shows "fold_constants A (Binop opc x y None None) l r s =
     Inr (Binop opc x y None (Some (int_const t i)), s)"
  using assms by (simp add: fold_constants_def both_constant_run run_simps fold_arms_run
      set_folded_def)

lemma integral_case_run:
  assumes "folded_to l t a" "folded_to r t b" "apply_ops A t a b = Inr (Some i)"
  shows "integral_case A (Binop opc x y None None) l r (int_prim t) (int_prim t) s =
     Inr (Binop opc l r (Some (int_prim t)) (Some (int_const t i)), s)"
  using int_prim_kinds [OF folded_typeD [OF assms(1)]]
  by (simp add: integral_case_def fold_constants_run [OF assms] run_simps set_binop_def)

lemma operands_run:
  assumes "folded_to l t1 v1" "folded_to r t2 v2"
  shows "(opc = LS \<or> opc = RS \<longrightarrow> operands opc l r s = Inr ((l, r), s)) \<and>
    (\<not> (opc = LS \<or> opc = RS) \<longrightarrow> (\<exists>n1 n2. operands opc l r s = Inr ((n1, n2), s) \<and>
      folded_to n1 (common t1 t2) (convert (common t1 t2) v1) \<and>
      folded_to n2 (common t1 t2) (convert (common t1 t2) v2)))"
  using UsualBinary_run [OF assms, of "host s"]
  by (auto simp: operands_def run_simps UsualUnary_run [OF assms(1)] UsualUnary_run [OF assms(2)])

lemma same_type_run:
  assumes l: "folded_to l t a" and r: "folded_to r t b"
    and op: "ceval_arith opc t a b = Some i"
  shows "\<exists>n. (case opc of
          OP_add \<Rightarrow> arith_plus (Binop opc x y None None) l r (int_prim t) (int_prim t)
        | OP_sub \<Rightarrow> arith_minus (Binop opc x y None None) l r (int_prim t) (int_prim t)
        | OP_mul \<Rightarrow> arith_mult (Binop opc x y None None) l r (int_prim t) (int_prim t)
        | OP_div \<Rightarrow> arith_div (Binop opc x y None None) l r (int_prim t) (int_prim t)
        | OP_mod \<Rightarrow> arith_mod (Binop opc x y None None) l r (int_prim t) (int_prim t)
        | OP_band \<Rightarrow> arith_and (Binop opc x y None None) l r (int_prim t) (int_prim t)
        | OP_bxor \<Rightarrow> arith_xor (Binop opc x y None None) l r (int_prim t) (int_prim t)
        | OP_bor \<Rightarrow> arith_or (Binop opc x y None None) l r (int_prim t) (int_prim t)
        | _ \<Rightarrow> failM AssertFail) s = Inr (n, s) \<and> folded_to n t i"
proof -
  note t = folded_typeD [OF l] and ra = folded_rangeD [OF l] and rb = folded_rangeD [OF r]
  note kinds = int_prim_kinds [OF t] and i = ceval_arith_range [OF t ra rb op]
  note result = folded_binop [OF t i, of opc l r]
  note defs = arith_plus_def arith_minus_def arith_mult_def arith_div_def Let_def run_simps
    set_binop_def kinds
  note int_run = integral_case_run [OF l r] and run = fold_constants_run [OF l r]
  have "opc \<in> {OP_add, OP_sub, OP_mul, OP_div, OP_mod, OP_band, OP_bxor, OP_bor}"
    using op by (auto simp: ceval_arith_def split: if_splits)
  then show ?thesis
    using op result
    by (auto simp: ceval_arith_def defs arith_mod_def arith_and_def arith_or_def arith_xor_def
      run [OF plus_run [OF t ra rb]] run [OF minus_run [OF t ra rb]] run [OF mult_run [OF t ra rb]]
      run [OF div_run [OF t ra rb]] int_run [OF mod_run [OF t ra rb]]
      int_run [OF bit_run(1) [OF t ra rb]] int_run [OF bit_run(2) [OF t ra rb]]
      int_run [OF bit_run(3) [OF t ra rb]] split: if_splits)
qed

lemma convert_0: "convert b 0 = 0"
  by (simp add: convert_def)

lemma convert_zero:
  assumes "a \<in> set int_types" "b \<in> set int_types" "in_range a v"
  shows "convert (common a b) v = 0 \<longleftrightarrow> v = 0" "convert (common b a) v = 0 \<longleftrightarrow> v = 0"
proof -
  have small: "take_bit n v = 0 \<longleftrightarrow> v = 0" if "- (2 ^ n) < v" "v < 2 ^ n" for n
    using that dvd_imp_le_int [of v "2 ^ n"] by (fastforce simp: take_bit_eq_0_iff abs_if split: if_splits)
  have c: "common a b = common b a" by (auto simp: common_def)
  show "convert (common a b) v = 0 \<longleftrightarrow> v = 0"
    using assms small [of 32] small [of 64]
    by (elim int_type_cases)
      (simp_all add: common_def convert_def is_signed_def bits_def in_range_iff
        signed_take_bit_int_eq_self)
  then show "convert (common b a) v = 0 \<longleftrightarrow> v = 0" by (simp add: c)
qed

lemma shift_arith_run:
  assumes l: "folded_to l t1 v1" and r: "folded_to r t2 v2"
    and op: "ceval_shift opc t1 v1 v2 = Some i" "opc = LS \<or> opc = RS"
  shows "\<exists>n. SemCheckArithmetic (Binop opc l r None None) s = Inr (n, s) \<and> folded_to n t1 i"
proof -
  note t = folded_typeD [OF l]
  have run: "apply_ops ((if opc = LS then left_ops else right_ops) (word_of_int v2)) t1 v1 v1 = Inr (Some i)"
    and i: "in_range t1 i"
    using shift_run [OF t folded_rangeD [OF l] folded_rangeD [OF r] op] by simp_all
  have "operands opc l r s = Inr ((l, r), s)" using operands_run [OF l r] op(2) by blast
  then have "SemCheckArithmetic (Binop opc l r None None) s =
      Inr (Binop opc l r (Some (int_prim t1)) (Some (int_const t1 i)), s)"
    using op(2) run int_prim_kinds [OF t] int_prim_kinds [OF folded_typeD [OF r]]
    by (auto simp: SemCheckArithmetic_def arith_left_def arith_right_def shift_case_def run_simps
        folded_data [OF l] folded_data [OF r] both_constant_run [OF l r] folded_integral [OF r]
        fold_arms_run [OF l l] set_folded_def set_binop_def)
  then show ?thesis using folded_binop [OF t i] by blast
qed

lemma bool_const: "NodeSetSintValue (Binop opc x y None None) (bool_word b) =
    Inr (Binop opc x y None (Some (int_const Sint (of_bool b))))"
  by (simp add: set_value_run bool_word_def)

lemma folded_truth: "folded_to (Binop opc l r (Some PrimSint) (Some (int_const Sint (of_bool b)))) Sint (of_bool b)"
  by (rule folded_binop) (simp_all add: int_types_def in_range_iff)

lemma logical_run:
  assumes l: "folded_to l t1 v1" and r: "folded_to r t2 v2" and "opc = ANDAND \<or> opc = OROR"
  shows "\<exists>n. SemCheckArithmetic (Binop opc l r None None) s = Inr (n, s) \<and>
     folded_to n Sint (of_bool (if opc = ANDAND then v1 \<noteq> 0 \<and> v2 \<noteq> 0 else v1 \<noteq> 0 \<or> v2 \<noteq> 0))"
proof -
  let ?t = "common t1 t2"
  obtain n1 n2 where n: "operands opc l r s = Inr ((n1, n2), s)"
      "folded_to n1 ?t (convert ?t v1)" "folded_to n2 ?t (convert ?t v2)"
    using operands_run [OF l r, of opc s] assms(3) by auto
  note zero = convert_zero [OF folded_typeD [OF l] folded_typeD [OF r] folded_rangeD [OF l]]
    convert_zero [OF folded_typeD [OF r] folded_typeD [OF l] folded_rangeD [OF r]]
  show ?thesis
    using assms(3) folded_truth [of opc n1 n2 True] folded_truth [of opc n1 n2 False]
    by (auto simp: SemCheckArithmetic_def run_simps n(1) folded_data [OF n(2)] folded_data [OF n(3)]
        arith_andand_def arith_oror_def logical_case_def both_constant_run [OF n(2,3)]
        folded_zero [OF n(2)] folded_zero [OF n(3)] bool_const set_binop_def zero
        convert_0)
qed

lemma SemCheckArithmetic_run:
  assumes l: "folded_to l t1 v1" and r: "folded_to r t2 v2"
    and op: "ceval_binop opc (t1, v1) (t2, v2) = Some (t, i)" "\<not> IsComparisonOp opc"
  shows "\<exists>n. SemCheckArithmetic (Binop opc l r None None) s = Inr (n, s) \<and> folded_to n t i"
proof -
  consider (shift) "opc = LS \<or> opc = RS" | (logical) "opc = ANDAND \<or> opc = OROR"
    | (other) "\<not> (opc = LS \<or> opc = RS)" "opc \<noteq> ANDAND" "opc \<noteq> OROR" by blast
  then show ?thesis
  proof cases
    case shift
    then show ?thesis using shift_arith_run [OF l r] op(1) by (auto simp: ceval_binop_def Let_def)
  next
    case logical
    then show ?thesis using logical_run [OF l r logical, of s] op(1)
      by (auto simp: ceval_binop_def Let_def)
  next
    case other
    let ?t = "common t1 t2"
    have "ceval_compare opc (convert ?t v1) (convert ?t v2) = None"
      using op(2) by (auto simp: ceval_compare_def IsComparisonOp_def)
    then have v: "t = ?t" "ceval_arith opc ?t (convert ?t v1) (convert ?t v2) = Some i"
      using op(1) other by (auto simp: ceval_binop_def Let_def split: if_splits)
    obtain n1 n2 where n: "operands opc l r s = Inr ((n1, n2), s)"
        "folded_to n1 ?t (convert ?t v1)" "folded_to n2 ?t (convert ?t v2)"
      using operands_run [OF l r, of opc s] other by auto
    have "opc \<in> {OP_add, OP_sub, OP_mul, OP_div, OP_mod, OP_band, OP_bxor, OP_bor}"
      using v(2) by (auto simp: ceval_arith_def split: if_splits)
    then show ?thesis
      using same_type_run [OF n(2,3) v(2), of l r s] v(1)
      by (auto simp: SemCheckArithmetic_def run_simps n(1) folded_data [OF n(2)] folded_data [OF n(3)])
  qed
qed

subsection \<open>Comparisons\<close>

lemmas loop_simps = bindL_def retL_def liftL_def hostL_def liftS_def failL_def run_simps

lemma truth_run: "bindE (truth b) (\<lambda>r. Inr (map_option sint r)) = Inr (Some (of_bool b))"
  by (simp add: truth_def folded_def bool_word_def)

lemma compare_arms_run:
  assumes l: "folded_to l t a" and r: "folded_to r t b"
  shows "compare_arms cmp opc h n l r = set_folded n Sint (Some (of_bool (cmp a b)))"
  using folded_typeD [OF l] folded_rangeD [OF l] folded_rangeD [OF r] l r
  by (elim int_type_cases)
    (simp_all add: compare_arms_def elseE_def folded_type_tests folded_sint folded_uint
      folded_slong folded_ulong fold_with_run [OF _ _ set_value_run(1)] truth_run sint_of_range
      uint_of_range del: of_int_uint of_int_sint)

definition comparison :: "OpType \<Rightarrow> int \<Rightarrow> int \<Rightarrow> bool" where
  "comparison opc = (if opc = OP_lt then (<) else if opc = LE then (\<le>) else if opc = OP_gt then (>)
     else if opc = GE then (\<ge>) else if opc = EQ then (=) else (\<noteq>))"

lemma compare_constants_run:
  assumes l: "folded_to l t a" and r: "folded_to r t b"
  shows "compare_constants cmp opc (Binop opc x y None None) l r s =
    Inr (Binop opc x y None (Some (int_const Sint (of_bool (cmp a b)))), s)"
  by (simp add: compare_constants_def both_constant_run [OF l r] run_simps compare_arms_run [OF l r]
      set_folded_def)

lemma SemCheckComparison_run:
  assumes l: "folded_to l t1 v1" and r: "folded_to r t2 v2"
    and op: "ceval_binop opc (t1, v1) (t2, v2) = Some (t, i)" "IsComparisonOp opc"
  shows "\<exists>n. SemCheckComparison (Binop opc l r None None) s = Some (Inr (n, s)) \<and> folded_to n t i"
proof -
  let ?t = "common t1 t2"
  have opc: "opc \<in> {OP_lt, LE, OP_gt, GE, EQ, NE}"
    using op by (auto simp: IsComparisonOp_def ceval_binop_def ceval_compare_def ceval_arith_def Let_def)
  then have i: "t = Sint" "i = of_bool (comparison opc (convert ?t v1) (convert ?t v2))"
    using op(1) by (auto simp: ceval_binop_def ceval_compare_def comparison_def Let_def)
  obtain n1 n2 where n: "operands opc l r s = Inr ((n1, n2), s)"
      "folded_to n1 ?t (convert ?t v1)" "folded_to n2 ?t (convert ?t v2)"
    using operands_run [OF l r, of opc s] opc by auto
  have "SemCheckComparison (Binop opc l r None None) s = Some (Inr (Binop opc n1 n2 (Some PrimSint)
      (Some (int_const Sint i)), s))"
    using opc int_prim_kinds [OF folded_typeD [OF n(2)]] unfolding i
    by (auto simp: SemCheckComparison_def loop_simps n(1) folded_data [OF n(2)] folded_data [OF n(3)]
        order_case_def equal_case_def compare_constants_run [OF n(2,3)] set_binop_def comparison_def)
  then show ?thesis using folded_truth i by auto
qed

subsection \<open>Unary operators\<close>

lemma folded_unary: "t \<in> set int_types \<Longrightarrow> in_range t i \<Longrightarrow>
  folded_to (Unary opc e (Some (int_prim t)) (Some (int_const t i))) t i"
  by (simp add: folded_to_def node_value_def)

lemma negate_run:
  assumes e: "folded_to e t v" and i: "result_at t (- v) = Some i"
  shows "negate_constant h n e = set_folded n t (Some i)"
  using folded_typeD [OF e] folded_rangeD [OF e] i
  unfolding negate_constant_def fold_arms_run [OF e e]
  by (elim int_type_cases) (simp_all add: run_ops word_ring del: of_int_minus)

lemma complement_run:
  assumes e: "folded_to e t v"
  shows "complement_constant n e = set_folded n t (Some (convert t (- v - 1)))"
  using folded_typeD [OF e] folded_rangeD [OF e]
  unfolding complement_constant_def fold_arms_run [OF e e]
  by (elim int_type_cases)
    (simp_all add: apply_ops_def folded_def signed_not_eq unsigned_not_eq sint_of_range uint_of_range
      convert_def is_signed_def bits_def not_int_def in_range_iff signed_take_bit_int_eq_self)

lemma not_run:
  assumes e: "folded_to e t v"
  shows "not_constant h n e = set_folded n Sint (Some (of_bool (v = 0)))"
  using folded_typeD [OF e] folded_rangeD [OF e] e
  by (elim int_type_cases)
    (simp_all add: not_constant_def elseE_def folded_type_tests folded_sint folded_uint
      folded_slong folded_ulong fold_with_run [OF _ _ set_value_run(1)] truth_run word_zero_of_range)

lemma fold_unary_run:
  assumes "folded_to e t v" and "f (host s) = set_folded (Unary opc x None None) u (Some i)"
  shows "fold_unary f (Unary opc x None None) e s = Inr (Unary opc x None (Some (int_const u i)), s)"
  using assms by (simp add: fold_unary_def folded_constant run_simps set_folded_def)

lemma SemCheckUnary_run:
  assumes chk: "chk e0 s = Some (Inr (e, s))" and e: "folded_to e u v"
    and op: "ceval_unary opc (u, v) = Some (t, i)"
  shows "\<exists>n. SemCheckUnary chk (Unary opc e0 None None) opc e0 s = Some (Inr (n, s)) \<and> folded_to n t i"
proof -
  note u = folded_typeD [OF e] and d = folded_data [OF e]
  note defs = SemCheckUnary_def loop_simps chk d int_prim_kinds [OF u] set_unary_def
    UsualUnary_run [OF e]
  have opc: "opc = UMINUS \<or> opc = UPLUS \<or> opc = OP_not \<or> opc = OP_bitnot"
    using op by (auto simp: ceval_unary_def split: if_splits)
  then consider (minus) "opc = UMINUS" | (plus) "opc = UPLUS" | (not) "opc = OP_not"
    | (complement) "opc = OP_bitnot" by blast
  then show ?thesis
  proof cases
    case minus
    then have i: "t = u" "result_at u (- v) = Some i"
      using op by (auto simp: ceval_unary_def split: if_splits)
    have "fold_unary (\<lambda>h. negate_constant h (Unary UMINUS e0 None None) e) (Unary UMINUS e0 None None) e s =
        Inr (Unary UMINUS e0 None (Some (int_const u i)), s)"
      by (rule fold_unary_run [OF e]) (rule negate_run [OF e i(2)])
    then show ?thesis
      using minus folded_unary [OF u result_in_range [OF u i(2)]] i(1)
      by (simp add: defs unary_minus_def)
  next
    case plus
    then show ?thesis using op e int_prim_kinds [OF u] by (auto simp: defs ceval_unary_def)
  next
    case not
    have "folded_to (Unary opc e (Some PrimSint) (Some (int_const Sint (of_bool (v = 0))))) Sint (of_bool (v = 0))"
      by (rule folded_unary) (simp_all add: int_types_def in_range_iff)
    moreover have "fold_unary (\<lambda>h. not_constant h (Unary OP_not e0 None None) e) (Unary OP_not e0 None None) e s =
        Inr (Unary OP_not e0 None (Some (int_const Sint (of_bool (v = 0)))), s)"
      by (rule fold_unary_run [OF e]) (rule not_run [OF e])
    ultimately show ?thesis using not op by (auto simp: defs ceval_unary_def unary_not_def)
  next
    case complement
    then have i: "t = u" "i = convert u (- v - 1)" using op by (auto simp: ceval_unary_def)
    have "fold_unary (\<lambda>_. complement_constant (Unary OP_bitnot e0 None None) e) (Unary OP_bitnot e0 None None) e s =
        Inr (Unary OP_bitnot e0 None (Some (int_const u i)), s)"
      unfolding i(2) by (rule fold_unary_run [OF e]) (rule complement_run [OF e])
    then show ?thesis
      using complement folded_unary [OF u convert_in_range [OF u]] i
      by (simp add: defs unary_complement_def)
  qed
qed

subsection \<open>Conditional expressions\<close>

lemma folded_ternary: "t \<in> set int_types \<Longrightarrow> in_range t i \<Longrightarrow>
  folded_to (Ternary c a b (Some (int_prim t)) (Some (Const x (int_prim t) (cval t i)))) t i"
  by (simp add: folded_to_def node_value_def)

lemma ConditionalConversions_run:
  assumes a: "folded_to a t1 v1" and b: "folded_to b t2 v2"
  shows "\<exists>a' b'. ConditionalConversions a b s = Some (Inr ((a', b', int_prim (common t1 t2)), s)) \<and>
     folded_to a' (common t1 t2) (convert (common t1 t2) v1) \<and>
     folded_to b' (common t1 t2) (convert (common t1 t2) v2)"
proof -
  obtain a' b' where n: "UsualBinaryConversions (host s) a b = Inr (a', b')"
      "folded_to a' (common t1 t2) (convert (common t1 t2) v1)"
      "folded_to b' (common t1 t2) (convert (common t1 t2) v2)"
    using UsualBinary_run [OF a b] by blast
  then show ?thesis
    using int_prim_kinds [OF folded_typeD [OF a]] int_prim_kinds [OF folded_typeD [OF b]]
    by (simp add: ConditionalConversions_def loop_simps folded_data [OF a] folded_data [OF b]
        folded_data [OF n(2)])
qed

lemma ConstFoldTernary_run:
  assumes c: "folded_to c u w" "w mod 2 ^ 32 = 0 \<longrightarrow> w = 0"
    and a: "folded_to a t v1" and b: "folded_to b t v2"
  shows "\<exists>n. ConstFoldTernary h (Ternary c (Some a) b (Some (int_prim t)) None) = Inr n \<and>
     folded_to n t (if w \<noteq> 0 then v1 else v2)"
proof -
  note t = folded_typeD [OF a]
  have w: "(word_of_int w :: 32 word) = 0 \<longleftrightarrow> w = 0"
    using c(2) by (auto simp: low_half_test)
  obtain x y where xy: "NodeGetConstantValue a = Inr (Some (Const x (int_prim t) (cval t v1)))"
      "NodeGetConstantValue b = Inr (Some (Const y (int_prim t) (cval t v2)))"
    using folded_value [OF a] folded_value [OF b] by blast
  show ?thesis
    using folded_ternary [OF t folded_rangeD [OF a]] folded_ternary [OF t folded_rangeD [OF b]]
    by (auto simp: ConstFoldTernary_def folded_constant [OF c(1)] folded_constant [OF a]
        folded_constant [OF b] folded_boolean [OF c(1)] w xy)
qed

lemma SemCheckTernary_run:
  assumes c: "chk c0 s = Some (Inr (c, s))" "folded_to c u w" "w mod 2 ^ 32 = 0 \<longrightarrow> w = 0"
    and plus: "case c0 of Unary opc _ _ _ \<Rightarrow> opc \<noteq> UPLUS | _ \<Rightarrow> True"
    and a: "chk a0 s = Some (Inr (a, s))" "folded_to a t1 v1"
    and b: "chk b0 s = Some (Inr (b, s))" "folded_to b t2 v2"
  shows "\<exists>n. SemCheckTernary chk c0 (Some a0) b0 None s = Some (Inr (n, s)) \<and>
     folded_to n (common t1 t2) (convert (common t1 t2) (if w \<noteq> 0 then v1 else v2))"
proof -
  have place: "checked_in_place c0 c = Inr c"
    using plus by (simp add: checked_in_place_def split: node.splits)
  obtain a' b' where conv: "ConditionalConversions a b s = Some (Inr ((a', b', int_prim (common t1 t2)), s))"
      "folded_to a' (common t1 t2) (convert (common t1 t2) v1)"
      "folded_to b' (common t1 t2) (convert (common t1 t2) v2)"
    using ConditionalConversions_run [OF a(2) b(2)] by blast
  obtain n where "ConstFoldTernary (host s) (Ternary c (Some a') b' (Some (int_prim (common t1 t2))) None) = Inr n"
      "folded_to n (common t1 t2) (convert (common t1 t2) (if w \<noteq> 0 then v1 else v2))"
    using ConstFoldTernary_run [OF c(2,3) conv(2,3), of "host s"] by (cases "w = 0") auto
  then show ?thesis
    by (simp add: SemCheckTernary_def checked_option_def converted_option_def loop_simps c(1) a(1) b(1)
        UsualUnary_run [OF c(2)] UsualUnary_run [OF a(2)] UsualUnary_run [OF b(2)]
        folded_data [OF c(2)] conv(1) place)
qed

subsection \<open>Casts\<close>

lemma SemCheckCast_run:
  assumes e: "chk e0 s = Some (Inr (e, s))" "folded_to e u v"
    and t: "b \<in> set int_types" "chk (TypeNode (int_prim b)) s = Some (Inr (TypeNode (int_prim b), s))"
    and fuel: "0 < fuel"
  shows "\<exists>n. SemCheckCast chk fuel (int_prim b) e0 None s = Some (Inr (n, s)) \<and> folded_to n b (convert b v)"
proof -
  obtain n where n: "ConstFoldCast (host s) (Cast (int_prim b) e None) = Inr n" "folded_to n b (convert b v)"
    using Cast_run [OF e(2) t(1)] by blast
  obtain k where k: "fuel = Suc k" using fuel by (cases fuel) auto
  have "IsVoidType (int_prim b) = False" using t(1) by (auto simp: int_types_def IsVoidType_def)
  then show ?thesis
    using n int_prim_kinds [OF t(1)] int_prim_kinds [OF folded_typeD [OF e(2)]]
    by (simp add: SemCheckCast_def check_type_def CastConversions_def IsCoercible_def k loop_simps
        t(2) e(1) folded_data [OF e(2)] coerced_rtype_def coerced_ltype_def)
qed

end
