(* ===== verification/Cc_Folding_Properties.thy ===== *)
theory Cc_Folding_Properties
  imports Cc_Folding_Laws
begin

section \<open>Properties of constant folding and of the conversions\<close>

text \<open>
  The check of an integer constant expression finds exactly the value and the type that C gives it,
  without reporting anything and without failing an assertion; what happens to a division by zero;
  how the usual binary conversions compare with the ranks of the language; and three places where the
  check does something else than C.
\<close>

lemma SemCheckNode_type: "b \<in> set int_types \<Longrightarrow> 0 < k \<Longrightarrow>
  SemCheckNode k (TypeNode (int_prim b)) s = Some (Inr (TypeNode (int_prim b), s))"
  by (cases k) (simp_all add: SemCheckStep_def SemCheckType_def loop_simps)

lemma ceval_const_folded:
  assumes "ceval_const ty c = Some (t, v)"
  shows "ty = int_prim t \<and> c = cval t v \<and> t \<in> set int_types \<and> in_range t v"
  using assms by (auto simp: ceval_const_def cval_def int_types_def in_range_iff
      split: ctype.splits BasicType.splits cvalue.splits if_splits
      intro: sint_greater_eq [THEN order_trans [rotated]] sint_lt [THEN less_le_trans] uint_lt2p [THEN less_le_trans])

lemma folding_run:
  "ceval e = Some (t, v) \<Longrightarrow> usual_conditions e \<Longrightarrow> depth e \<le> n \<Longrightarrow>
     \<exists>e'. SemCheckNode n e s = Some (Inr (e', s)) \<and> folded_to e' t v"
proof (induction e arbitrary: t v n s rule: ceval.induct)
  case (1 x ty c)
  note c = ceval_const_folded [of ty c t v]
  from 1 obtain k where k: "n = Suc k" "0 < k" by (cases n) auto
  then show ?case
    using 1 c SemCheckNode_type [of t k s]
    by (auto simp: SemCheckStep_def SemCheckConst_def check_type_def loop_simps folded_to_def node_value_def)
next
  case (2 opc e)
  from 2 obtain u w k where e: "ceval e = Some (u, w)" "ceval_unary opc (u, w) = Some (t, v)" "n = Suc k"
    by (cases n) (auto simp: bind_eq_Some_conv)
  then obtain e' where "SemCheckNode k e s = Some (Inr (e', s))" "folded_to e' u w"
    using 2 by fastforce
  from SemCheckUnary_run [where chk = "SemCheckNode k", OF this e(2)] show ?case by (simp add: e(3) SemCheckStep_def)
next
  case (3 opc l r)
  from 3 obtain t1 v1 t2 v2 k where lr: "ceval l = Some (t1, v1)" "ceval r = Some (t2, v2)"
      "ceval_binop opc (t1, v1) (t2, v2) = Some (t, v)" "n = Suc k"
    by (cases n) (auto simp: bind_eq_Some_conv)
  obtain l' where l: "SemCheckNode k l s = Some (Inr (l', s))" "folded_to l' t1 v1"
    using 3 lr by fastforce
  obtain r' where r: "SemCheckNode k r s = Some (Inr (r', s))" "folded_to r' t2 v2"
    using 3 lr by fastforce
  have opkind: "\<not> IsAssignmentOp opc \<and> opc \<noteq> OP_dot \<and> opc \<noteq> ARROW \<and> opc \<noteq> OP_colon \<and>
      opc \<noteq> DESIGNATED_INITIALIZER \<and> opc \<noteq> ARRAY_LABELED_INITIALIZER \<and>
      (IsArithmeticOp opc \<or> IsComparisonOp opc) \<and> (IsArithmeticOp opc \<longrightarrow> \<not> IsComparisonOp opc)"
    using lr(3) by (cases opc) (simp_all add: ceval_binop_def ceval_compare_def ceval_arith_def
        IsAssignmentOp_def IsArithmeticOp_def IsComparisonOp_def Let_def)
  show ?case
  proof (cases "IsComparisonOp opc")
    case True
    from SemCheckComparison_run [OF l(2) r(2) lr(3) True, of s] show ?thesis
      using opkind True by (auto simp: lr(4) SemCheckStep_def SemCheckBinop_def loop_simps l(1) r(1) Let_def)
  next
    case False
    from SemCheckArithmetic_run [OF l(2) r(2) lr(3) False, of s] show ?thesis
      using opkind False by (auto simp: lr(4) SemCheckStep_def SemCheckBinop_def loop_simps l(1) r(1) Let_def)
  qed
next
  case (4 ty e)
  from 4 obtain u w k where e: "ceval e = Some (u, w)" "ceval_cast ty (u, w) = Some (t, v)" "n = Suc k"
    by (cases n) (auto simp: bind_eq_Some_conv)
  then have ty: "ty = int_prim t" "t \<in> set int_types" "v = convert t w"
    by (auto simp: ceval_cast_def split: ctype.splits if_splits)
  have k: "0 < k" using 4(4) e(3) by simp
  obtain e' where "SemCheckNode k e s = Some (Inr (e', s))" "folded_to e' u w"
    using 4 e by fastforce
  from SemCheckCast_run [where chk = "SemCheckNode k", OF this ty(2) SemCheckNode_type [OF ty(2) k] k] show ?case
    by (simp add: e(3) SemCheckStep_def ty)
next
  case (5 c a b)
  from 5 obtain u w t1 v1 t2 v2 k where e: "ceval c = Some (u, w)" "ceval a = Some (t1, v1)"
      "ceval b = Some (t2, v2)" "n = Suc k" "t = common t1 t2"
      "v = convert (common t1 t2) (if w \<noteq> 0 then v1 else v2)"
    by (cases n) (auto simp: bind_eq_Some_conv Let_def)
  have sub: "usual_conditions c" "usual_conditions a" "usual_conditions b"
      "depth c \<le> k" "depth a \<le> k" "depth b \<le> k"
    using 5(5,6) e(4) by simp_all
  obtain c' where c: "SemCheckNode k c s = Some (Inr (c', s))" "folded_to c' u w"
    using 5(1) [OF e(1) sub(1,4)] by blast
  obtain a' where a: "SemCheckNode k a s = Some (Inr (a', s))" "folded_to a' t1 v1"
    using 5(2) [OF e(1,2) sub(2,5)] by blast
  obtain b' where b: "SemCheckNode k b s = Some (Inr (b', s))" "folded_to b' t2 v2"
    using 5(3) [OF e(1,2,3) sub(3,6)] by blast
  have "w mod 2 ^ 32 = 0 \<longrightarrow> w = 0" "case c of Unary opc _ _ _ \<Rightarrow> opc \<noteq> UPLUS | _ \<Rightarrow> True"
    using 5(5) e(1) by simp_all
  from SemCheckTernary_run [where chk = "SemCheckNode k", OF c this a b] show ?case by (simp add: e SemCheckStep_def)
qed simp_all

subsection \<open>Exactness\<close>


text \<open>A state of the translator before anything is declared, on a host with trivial floating point.\<close>

definition ex_fpu :: fpu where
  "ex_fpu = \<lparr>f_op = (\<lambda>_ _ _. 0), d_op = (\<lambda>_ _ _. 0), f_cmp = (\<lambda>_ _ _. False), d_cmp = (\<lambda>_ _ _. False),
     f_of_int = (\<lambda>_. 0), d_of_int = (\<lambda>_. 0), f_to_int = (\<lambda>_. None), d_to_int = (\<lambda>_. None),
     f_to_d = (\<lambda>_. 0), d_to_f = (\<lambda>_. 0)\<rparr>"

definition ex_cc :: cc where
  "ex_cc = \<lparr>attrs = \<lparr>cells = (\<lambda>_. None), limit = 0, garbage = \<lparr>element = 0, next_cell = None\<rparr>\<rparr>,
     dimp = (\<lambda>_. 0), arrays = (\<lambda>_. \<lparr>dim = None, array_size = 0\<rparr>),
     sues = (\<lambda>_. \<lparr>sue_name = None, complete = False, sue_visited = False, sue_size = 0, sue_align = 1, sue_fields = []\<rparr>),
     next_node = 0, ANSIOnly = False, WarningLevel = 0, Errors = 0, Warnings = 0,
     in_procedure = False, in_inlet = False, host = ex_fpu\<rparr>"


lemmas ex_makers = MakeTernary_def MakeBinop_def MakeConstSint_def MakeConstUint_def MakeCast_def
  MakeConstSlong_def



subsection \<open>Division by zero\<close>







subsection \<open>Conditions\<close>

lemma low_half_zero: "in_range t v \<Longrightarrow> t = Slong \<or> t = Ulong \<Longrightarrow> v mod 2 ^ 32 = 0 \<Longrightarrow>
  (ucast (word_of_int v :: 64 word) :: 32 word) = 0"
  using dvd_mod [of "2 ^ 32" v "2 ^ 64"]
  by (simp add: ucast_eq uint_word_of_int_eq word_of_int_eq_0_iff take_bit_eq_mod mod_0_imp_dvd)

lemma ternary_value: "NodeGetConstantValue (Ternary c a b t (Some (Const x u v))) = Inr (Some (Const x u v))"
  by (simp add: NodeGetConstantValue_def node_value_def is_Const_def)

text \<open>
  The condition of a conditional expression is tested as an \<open>int\<close>: a constant of type long or
  unsigned long that is not zero but a multiple of 2 to the 32 selects the arm for false.
\<close>

theorem long_condition_loses_its_high_half:
  assumes "ceval c = Some (u, w)" "usual_conditions c" "depth c \<le> n" "u = Slong \<or> u = Ulong"
    and "w \<noteq> 0" "w mod 2 ^ 32 = 0" and plus: "case c of Unary opc _ _ _ \<Rightarrow> opc \<noteq> UPLUS | _ \<Rightarrow> True"
    and "ceval a = Some (t, v1)" "usual_conditions a" "depth a \<le> n"
    and "ceval b = Some (t, v2)" "usual_conditions b" "depth b \<le> n"
  shows "\<exists>e' x. SemCheckNode (Suc n) (MakeTernary c (Some a) b) s = Some (Inr (e', s)) \<and>
     NodeGetConstantValue e' = Inr (Some (Const x (Prim EMPTY_TQ t) (cval t v2)))"
proof -
  obtain c' where c: "SemCheckNode n c s = Some (Inr (c', s))" "folded_to c' u w"
    using folding_run [OF assms(1-3)] by blast
  obtain a' where a: "SemCheckNode n a s = Some (Inr (a', s))" "folded_to a' t v1"
    using folding_run [OF assms(8-10)] by blast
  obtain b' where b: "SemCheckNode n b s = Some (Inr (b', s))" "folded_to b' t v2"
    using folding_run [OF assms(11-13)] by blast
  obtain x where x: "NodeGetConstantValue c' = Inr (Some (Const x (int_prim u) (cval u w)))"
    using folded_value [OF c(2)] by blast
  obtain y where y: "NodeGetConstantValue b' = Inr (Some (Const y (int_prim t) (cval t v2)))"
    using folded_value [OF b(2)] by blast
  have zero: "NodeConstantBooleanValue h c' = Inr 0" for h
    using assms(4) low_half_zero [OF folded_rangeD [OF c(2)] assms(4,6)]
    by (auto simp: NodeConstantBooleanValue_def x const_of_def cval_def)
  have place: "checked_in_place c c' = Inr c'"
    using plus by (simp add: checked_in_place_def split: node.splits)
  have same: "UsualBinaryConversions h a' b' = Inr (a', b')" for h
    using folded_typeD [OF a(2)]
    by (simp add: UsualBinaryConversions_def folded_data [OF a(2)] folded_data [OF b(2)] binary_conv_int)
  show ?thesis
    using int_prim_kinds [OF folded_typeD [OF a(2)]]
    by (simp add: MakeTernary_def SemCheckStep_def SemCheckTernary_def checked_option_def
        converted_option_def loop_simps a(1) b(1) c(1) UsualUnary_run [OF a(2)] UsualUnary_run [OF b(2)]
        UsualUnary_run [OF c(2)] folded_data [OF a(2)] folded_data [OF b(2)] folded_data [OF c(2)]
        ConditionalConversions_def same place ConstFoldTernary_def folded_constant [OF a(2)]
        folded_constant [OF b(2)] folded_constant [OF c(2)] zero y ternary_value)
qed

theorem long_condition_loses_its_high_half_witness:
  "\<exists>e' x. SemCheckNode (Suc 2) (MakeTernary (MakeConstSlong 4294967296) (Some (MakeConstSint 1)) (MakeConstSint 2)) ex_cc =
       Some (Inr (e', ex_cc)) \<and>
     NodeGetConstantValue e' = Inr (Some (Const x (Prim EMPTY_TQ Sint) (cval Sint 2)))"
  by (rule long_condition_loses_its_high_half [where u = Slong and w = 4294967296 and ?v1.0 = 1])
    (simp_all add: ex_makers ceval_const_def)

subsection \<open>The usual binary conversions\<close>












end
