(* ===== verification/Cc_Simulation.thy ===== *)
theory Cc_Simulation
  imports Cc_Prelude
begin

section \<open>Programs that implement a specification\<close>

text \<open>
  The interface between a module with a state and its clients. A request is performed by a program on the
  state \<open>'s\<close>; the specification says on an abstract state \<open>'t\<close> when the request is permitted, what it answers
  and what the state is afterwards. The law is that of one request; the locale's lemmas carry it to sequences.
\<close>

fun perform_each :: "('r \<Rightarrow> ('s, 'a) loop_prog) \<Rightarrow> 'r list \<Rightarrow> ('s, 'a list) loop_prog" where
  "perform_each f [] = retL []"
| "perform_each f (r # rs) = bindL (f r) (\<lambda>a. bindL (perform_each f rs) (\<lambda>as. retL (a # as)))"

fun permitted_each :: "('r \<Rightarrow> 't \<Rightarrow> bool) \<Rightarrow> ('r \<Rightarrow> 't \<Rightarrow> 't) \<Rightarrow> 'r list \<Rightarrow> 't \<Rightarrow> bool" where
  "permitted_each permitted after [] A \<longleftrightarrow> True"
| "permitted_each permitted after (r # rs) A \<longleftrightarrow> permitted r A \<and> permitted_each permitted after rs (after r A)"

fun answers_each :: "('r \<Rightarrow> 't \<Rightarrow> 'a) \<Rightarrow> ('r \<Rightarrow> 't \<Rightarrow> 't) \<Rightarrow> 'r list \<Rightarrow> 't \<Rightarrow> 'a list" where
  "answers_each answer after [] A = []"
| "answers_each answer after (r # rs) A = answer r A # answers_each answer after rs (after r A)"

lemma each_append:
  "permitted_each permitted after (rs @ rs') A \<longleftrightarrow> permitted_each permitted after rs A \<and> permitted_each permitted after rs' (fold after rs A)"
  "answers_each answer after (rs @ rs') A = answers_each answer after rs A @ answers_each answer after rs' (fold after rs A)"
  by (induction rs arbitrary: A) simp_all

locale simulation =
  fixes perform :: "'r \<Rightarrow> ('s, 'a) loop_prog"
    and permitted :: "'r \<Rightarrow> 't \<Rightarrow> bool"
    and answer :: "'r \<Rightarrow> 't \<Rightarrow> 'a"
    and after :: "'r \<Rightarrow> 't \<Rightarrow> 't"
    and implements :: "'s \<Rightarrow> 't \<Rightarrow> bool"
  assumes step: "implements s A \<Longrightarrow> permitted r A \<Longrightarrow> \<exists>s'. perform r s = Some (Inr (answer r A, s')) \<and> implements s' (after r A)"
begin

lemma run:
  assumes "implements s A" "permitted_each permitted after rs A"
  shows "\<exists>s'. perform_each perform rs s = Some (Inr (answers_each answer after rs A, s')) \<and> implements s' (fold after rs A)"
  using assms
proof (induction rs arbitrary: s A)
  case Nil
  then show ?case by (auto simp: retL_def ret_def liftL_def)
next
  case (Cons r rs)
  obtain s1 where 1: "perform r s = Some (Inr (answer r A, s1))" "implements s1 (after r A)"
    using step [OF Cons.prems(1)] Cons.prems(2) by auto
  obtain s2 where "perform_each perform rs s1 = Some (Inr (answers_each answer after rs (after r A), s2))" "implements s2 (fold after rs (after r A))"
    using Cons.IH [OF 1(2)] Cons.prems(2) by auto
  then show ?case using 1(1) by (auto simp: bindL_def retL_def ret_def liftL_def)
qed

end

end
