(* ===== verification/Cc_Strings.thy ===== *)
theory Cc_Strings
  imports Cc_Prelude "HOL-Library.Word"
begin

unbundle bit_operations_syntax

section \<open>Unique strings (cilk2c/strings.c)\<close>

text \<open>
  The translator keeps one copy of each string and compares names by address. A C string is the list of its
  characters without the terminating null; reading it beyond the null is a bad pointer. The chains of the
  table only ever grow at the front, so they are lists of texts and the addresses of their copies.
\<close>

type_synonym c_string = "8 word list"

definition char_at :: "c_string \<Rightarrow> nat \<Rightarrow> cc_fail + 8 word" where
  "char_at s i = (if i < length s then Inr (s ! i) else if i = length s then Inr 0 else Inl BadPointer)"

record Strings =
  hash_table :: "nat \<Rightarrow> (c_string \<times> nat) list"
  string_heap :: nat

definition STRING_TABLE_SIZE :: nat where
  "STRING_TABLE_SIZE = 231"

text \<open>
  The loop of the hash function: characters 1 to 7 or up to the null. A character is signed; \<open>val\<close> is an
  unsigned long.
\<close>

fun hash_chars :: "c_string \<Rightarrow> nat list \<Rightarrow> 64 word \<Rightarrow> cc_fail + 64 word" where
  "hash_chars s [] val = Inr val"
| "hash_chars s (i # is) val = bindE (char_at s i) (\<lambda>c.
     if c = 0 then Inr val
     else (let k = word_of_int (sint c) AND (0x3f :: 16 word)
           in hash_chars s is (val * word_of_int (uint k + 7))))"

definition hash_function :: "c_string \<Rightarrow> cc_fail + nat" where
  "hash_function s = bindE (char_at s 0) (\<lambda>c.
     bindE (hash_chars s [1..<8] (word_of_int (sint c + 1))) (\<lambda>val.
     Inr (unat (val mod of_nat STRING_TABLE_SIZE))))"

definition copy_string :: "c_string \<Rightarrow> (cc_fail, Strings, nat) prog" where
  "copy_string s = (\<lambda>st. Inr (string_heap st, st\<lparr>string_heap := string_heap st + length s + 1\<rparr>))"

definition UniqueString :: "c_string \<Rightarrow> (cc_fail, Strings, nat) prog" where
  "UniqueString s =
     bindM (liftE (hash_function s)) (\<lambda>bucket.
     bindM (getM (\<lambda>st. hash_table st bucket)) (\<lambda>chain.
     case map_of chain s of
       Some p \<Rightarrow> ret p
     | None \<Rightarrow>
         bindM (copy_string s) (\<lambda>p.
         bindM (modifyM (\<lambda>st. st\<lparr>hash_table := (hash_table st)(bucket := (s, p) # chain)\<rparr>)) (\<lambda>_.
         ret p))))"

subsection \<open>Interning\<close>

text \<open>
  \<open>interned st p s\<close>: the table holds the string \<open>s\<close> at address \<open>p\<close>. In a table that is \<open>strings_ok\<close> each entry is
  in the bucket of its hash, below the end of the heap, and no two entries share a text or an address.
\<close>

definition interned :: "Strings \<Rightarrow> nat \<Rightarrow> c_string \<Rightarrow> bool" where
  "interned st p s \<longleftrightarrow> (\<exists>b. (s, p) \<in> set (hash_table st b))"

definition strings_ok :: "Strings \<Rightarrow> bool" where
  "strings_ok st \<longleftrightarrow> (\<forall>b s p. (s, p) \<in> set (hash_table st b) \<longrightarrow> hash_function s = Inr b \<and> p < string_heap st)
     \<and> (\<forall>b. distinct (map fst (hash_table st b)))
     \<and> (\<forall>p s t. interned st p s \<longrightarrow> interned st p t \<longrightarrow> s = t)"

lemma interned_unique:
  assumes "strings_ok st" "interned st p s" "interned st q s"
  shows "p = q"
proof -
  from assms obtain b c where "(s, p) \<in> set (hash_table st b)" "(s, q) \<in> set (hash_table st c)"
    by (auto simp: interned_def)
  moreover from this have "hash_function s = Inr b" "hash_function s = Inr c"
    using assms(1) unfolding strings_ok_def by blast+
  ultimately have "(s, p) \<in> set (hash_table st b)" "(s, q) \<in> set (hash_table st b)" by simp_all
  with assms(1) show ?thesis by (auto simp: strings_ok_def intro: eq_key_imp_eq_value)
qed

lemma char_at_in: "i \<le> length s \<Longrightarrow> \<exists>c. char_at s i = Inr c"
  by (auto simp: char_at_def)

lemma hash_chars_total:
  assumes "\<And>i. i < length s \<Longrightarrow> s ! i \<noteq> 0" "n \<le> length s" "val = val"
  shows "\<exists>v. hash_chars s [n..<m] val = Inr v"
  using assms(2)
proof (induction "m - n" arbitrary: n val)
  case 0
  then show ?case by simp
next
  case (Suc k)
  then have m: "[n..<m] = n # [Suc n..<m]" by (simp add: upt_conv_Cons)
  show ?case
  proof (cases "n < length s")
    case True
    then have "\<exists>v. hash_chars s [Suc n..<m] val' = Inr v" for val' using Suc by (intro Suc.hyps(1)) auto
    then show ?thesis using True by (simp add: m char_at_def Let_def)
  next
    case False
    then have "n = length s" using Suc.prems by simp
    then show ?thesis unfolding m by (simp add: char_at_def)
  qed
qed

lemma hash_function_total:
  assumes "s \<noteq> []" "0 \<notin> set s"
  shows "\<exists>b < STRING_TABLE_SIZE. hash_function s = Inr b"
proof -
  have nz: "s ! i \<noteq> 0" if "i < length s" for i using assms(2) that nth_mem [of i s] by metis
  obtain v where v: "hash_chars s [1..<8] (word_of_int (sint (s ! 0) + 1)) = Inr v"
    using hash_chars_total [of s 1 "word_of_int (sint (s ! 0) + 1)" 8] nz assms(1) by (cases s) auto
  have "unat (v mod of_nat STRING_TABLE_SIZE) < STRING_TABLE_SIZE"
    by (simp add: STRING_TABLE_SIZE_def unat_mod)
  with v assms(1) show ?thesis by (auto simp: hash_function_def char_at_def simp del: upt_Suc)
qed

lemma UniqueString_law:
  assumes ok: "strings_ok st" and s: "s \<noteq> []" "0 \<notin> set s"
  shows "wp (UniqueString s) (\<lambda>p st'. strings_ok st' \<and> interned st' p s
     \<and> (\<forall>q t. interned st q t \<longrightarrow> interned st' q t)) st"
proof -
  obtain b where b: "hash_function s = Inr b" using hash_function_total [OF s] by blast
  show ?thesis
  proof (cases "map_of (hash_table st b) s")
    case (Some p)
    then have "interned st p s" by (auto simp: interned_def dest: map_of_SomeD)
    with Some b ok show ?thesis
      by (simp add: UniqueString_def wp_def bindM_def getM_def ret_def)
  next
    case None
    let ?p = "string_heap st"
    let ?st = "\<lparr>hash_table = (hash_table st)(b := (s, ?p) # hash_table st b), string_heap = ?p + length s + 1\<rparr>"
    have out: "(s, q) \<notin> set (hash_table st c)" for q c
    proof
      assume m: "(s, q) \<in> set (hash_table st c)"
      with ok b have "c = b" by (auto simp: strings_ok_def)
      with m None show False by (auto simp: map_of_eq_None_iff rev_image_eqI)
    qed
    have old: "q < ?p" if "interned st q t" for q t using that ok by (auto simp: interned_def strings_ok_def)
    have new: "interned ?st q t \<longleftrightarrow> interned st q t \<or> q = ?p \<and> t = s" for q t
      by (auto simp: interned_def split: if_splits)
    have "strings_ok ?st"
      unfolding strings_ok_def new
    proof (intro conjI allI impI)
      fix c t q assume "(t, q) \<in> set (hash_table ?st c)"
      then show "hash_function t = Inr c" "q < string_heap ?st"
        using ok b by (fastforce simp: strings_ok_def split: if_splits)+
    next
      fix c show "distinct (map fst (hash_table ?st c))"
        using ok out by (auto simp: strings_ok_def)
    next
      fix q t u assume "interned st q t \<or> q = ?p \<and> t = s" "interned st q u \<or> q = ?p \<and> u = s"
      then show "t = u" using ok old [of q] by (auto simp: strings_ok_def)
    qed
    moreover have "UniqueString s st = Inr (?p, ?st)"
      using None b by (simp add: UniqueString_def bindM_def getM_def ret_def copy_string_def modifyM_def)
    moreover have "interned ?st ?p s \<and> (\<forall>q t. interned st q t \<longrightarrow> interned ?st q t)" using new by blast
    ultimately show ?thesis by (simp add: wp_def)
  qed
qed

text \<open>
  The hash function looks at the second character before it has seen that the first one is there: the
  empty string, which the scanner interns for every empty string literal, is read beyond its end.
\<close>

lemma empty_string_read_beyond_its_end: "UniqueString [] st = Inl BadPointer"
  by (simp add: UniqueString_def bindM_def hash_function_def char_at_def upt_conv_Cons)

text \<open>The tables that later calls leave.\<close>

inductive later :: "Strings \<Rightarrow> Strings \<Rightarrow> bool" for st where
  same: "later st st"
| more: "later st st1 \<Longrightarrow> s \<noteq> [] \<Longrightarrow> 0 \<notin> set s \<Longrightarrow> UniqueString s st1 = Inr (p, st2) \<Longrightarrow> later st st2"

lemma UniqueString_run:
  assumes "strings_ok st" "s \<noteq> []" "0 \<notin> set s" "UniqueString s st = Inr (p, st')"
  shows "strings_ok st'" "interned st' p s" "interned st q t \<Longrightarrow> interned st' q t"
  using UniqueString_law [OF assms(1-3)] assms(4) by (auto simp: wp_def)

lemma later_keeps:
  "later st st' \<Longrightarrow> strings_ok st \<Longrightarrow> strings_ok st' \<and> (\<forall>q t. interned st q t \<longrightarrow> interned st' q t)"
proof (induction rule: later.induct)
  case same
  then show ?case by simp
next
  case (more st1 s p st2)
  then show ?case using UniqueString_run [of st1 s p st2] by blast
qed

text \<open>
  C23: names can be compared by address. Two calls, with any calls between them, return the same address
  exactly if they were given the same string.
\<close>

theorem names_are_unique:
  assumes "strings_ok st" and "UniqueString s st = Inr (p, st1)" and "later st1 st2" and "UniqueString t st2 = Inr (q, st3)"
    and "s \<noteq> []" "0 \<notin> set s" "t \<noteq> []" "0 \<notin> set t"
  shows "p = q \<longleftrightarrow> s = t"
proof -
  have st1: "strings_ok st1" "interned st1 p s" using UniqueString_run [OF assms(1,5,6,2)] by blast+
  with later_keeps [OF assms(3)] have st2: "strings_ok st2" "interned st2 p s" by blast+
  have st3: "strings_ok st3" "interned st3 q t" "interned st3 p s"
    using UniqueString_run [OF st2(1) assms(7,8,4)] st2(2) by blast+
  show ?thesis
  proof
    assume "p = q"
    with st3 show "s = t" by (auto simp: strings_ok_def)
  next
    assume "s = t"
    with st3 show "p = q" using interned_unique [OF st3(1)] by blast
  qed
qed

definition no_strings :: Strings where
  "no_strings = \<lparr>hash_table = (\<lambda>_. []), string_heap = 0\<rparr>"

theorem names_are_unique_witness:
  "\<exists>p st1 q st2. UniqueString [102, 105, 98] no_strings = Inr (p, st1) \<and> UniqueString [105] st1 = Inr (q, st2) \<and> p \<noteq> q"
proof -
  have ok: "strings_ok no_strings" by (simp add: strings_ok_def no_strings_def interned_def)
  obtain p st1 where 1: "UniqueString [102, 105, 98] no_strings = Inr (p, st1)"
    using UniqueString_law [OF ok, of "[102, 105, 98]"] by (auto simp: wp_def split: sum.splits)
  then have ok1: "strings_ok st1" using UniqueString_run(1) [OF ok _ _ 1] by simp
  obtain q st2 where 2: "UniqueString [105] st1 = Inr (q, st2)"
    using UniqueString_law [OF ok1, of "[105]"] by (auto simp: wp_def split: sum.splits)
  from names_are_unique [OF ok 1 later.same 2] 1 2 show ?thesis by auto
qed

end
