(* ===== verification/Cc_Symbol.thy ===== *)
theory Cc_Symbol
  imports Cc_Strings
begin

section \<open>Symbol tables (cilk2c/symbol.c)\<close>

text \<open>
  The tables of identifiers, tags, labels and externals: hash tables whose chains hold one symbol per name,
  under which hang the symbols of the outer scopes that it shadows. A symbol remembers the scope it was
  made in, a level and a version of that level. Leaving a scope does not touch the tables; a symbol whose
  scope is gone is stale and is freed by the next look at its name.

  Symbols are cells of a heap, \<open>None\<close> is the null pointer; the freed ones form a list. Names are addresses
  of unique strings. The callbacks of the tables work on the declarations: they are functions on a state
  \<open>world\<close> that is left open.
\<close>

type_synonym sptr = "nat option"

record 'v Symbol =
  sym_name :: nat
  sym_var :: 'v
  sym_level :: nat
  sym_version :: "16 word"
  sym_next :: sptr
  sym_shadow :: sptr
  sym_scope_next :: sptr

datatype TableType = Nested | Flat

record ('v, 'u) SymbolTable =
  buckets :: "nat \<Rightarrow> sptr"
  kind :: TableType
  scopes :: "nat \<Rightarrow> sptr"
  shadow_proc :: "('v \<Rightarrow> 'v \<Rightarrow> 'u \<Rightarrow> 'u) option"
  exitscope_proc :: "('v \<Rightarrow> 'u \<Rightarrow> 'u) option"

text \<open>
  \<open>zero_symbol\<close> is what \<open>calloc\<close> gives. The tables are numbered; \<open>table_list\<close> is the list that starts in
  the variable of this name.
\<close>

record ('v, 'u) Syms =
  symbols :: "nat \<Rightarrow> 'v Symbol option"
  sym_free :: sptr
  sym_limit :: nat
  zero_symbol :: "'v Symbol"
  tables :: "nat \<Rightarrow> ('v, 'u) SymbolTable"
  next_table :: nat
  table_list :: "nat list"
  Level :: nat
  current_version :: "nat \<Rightarrow> 16 word"
  name_counter :: "32 word"
  syntax_errors :: nat
  world :: 'u

type_synonym ('v, 'u, 'r) syms = "(cc_fail, ('v, 'u) Syms, 'r) prog"
type_synonym ('v, 'u, 'r) syms_loop = "(('v, 'u) Syms, 'r) loop_prog"
type_synonym ('v, 'u) ConflictProc = "('v \<Rightarrow> 'v \<Rightarrow> 'u \<Rightarrow> 'u) option"

definition TABLE_SIZE :: nat where
  "TABLE_SIZE = 16"

definition MAX_SCOPE_DEPTH :: nat where
  "MAX_SCOPE_DEPTH = 100"

definition hash :: "nat \<Rightarrow> nat" where
  "hash n = n div 4 mod TABLE_SIZE"

definition get_sym :: "nat \<Rightarrow> ('v, 'u, 'v Symbol) syms" where
  "get_sym a = (\<lambda>s. case symbols s a of None \<Rightarrow> Inl BadPointer | Some c \<Rightarrow> Inr (c, s))"

definition upd_sym :: "nat \<Rightarrow> ('v Symbol \<Rightarrow> 'v Symbol) \<Rightarrow> ('v, 'u, unit) syms" where
  "upd_sym a f = (\<lambda>s. case symbols s a of
      None \<Rightarrow> Inl BadPointer
    | Some c \<Rightarrow> Inr ((), s\<lparr>symbols := (symbols s)(a \<mapsto> f c)\<rparr>))"

definition upd_table :: "nat \<Rightarrow> (('v, 'u) SymbolTable \<Rightarrow> ('v, 'u) SymbolTable) \<Rightarrow> ('v, 'u, unit) syms" where
  "upd_table t f = modifyM (\<lambda>s. s\<lparr>tables := (tables s)(t := f (tables s t))\<rparr>)"

subsection \<open>The free list\<close>

text \<open>A block of 4096 bytes holds 85 symbols of 48 bytes.\<close>

definition symbol_blocks :: nat where
  "symbol_blocks = 85"

definition HeapNewSymbols :: "nat \<Rightarrow> ('v, 'u, nat) syms" where
  "HeapNewSymbols n = (\<lambda>s. Inr (sym_limit s, s\<lparr>sym_limit := sym_limit s + n,
     symbols := (\<lambda>a. if sym_limit s \<le> a \<and> a < sym_limit s + n then Some (zero_symbol s) else symbols s a)\<rparr>))"

fun link_block :: "nat \<Rightarrow> nat list \<Rightarrow> nat \<Rightarrow> ('v, 'u, nat) syms" where
  "link_block base [] new = ret new"
| "link_block base (i # is) new =
     bindM (upd_sym new (sym_next_update (\<lambda>_. Some (base + i)))) (\<lambda>_. link_block base is (base + i))"

definition new_symbol :: "('v, 'u, nat) syms" where
  "new_symbol =
     bindM (getM sym_free) (\<lambda>f.
     bindM (case f of
         Some new \<Rightarrow> ret new
       | None \<Rightarrow>
           bindM (HeapNewSymbols symbol_blocks) (\<lambda>base.
           bindM (modifyM (\<lambda>s. s\<lparr>sym_free := Some base\<rparr>)) (\<lambda>_.
           bindM (link_block base [0..<symbol_blocks - 1] base) (\<lambda>new.
           bindM (upd_sym new (sym_next_update (\<lambda>_. None))) (\<lambda>_.
           ret base))))) (\<lambda>new.
     bindM (get_sym new) (\<lambda>c.
     bindM (modifyM (\<lambda>s. s\<lparr>sym_free := sym_next c\<rparr>)) (\<lambda>_.
     ret new))))"

definition free_symbol :: "nat \<Rightarrow> ('v, 'u, unit) syms" where
  "free_symbol a =
     bindM (getM sym_free) (\<lambda>f.
     bindM (upd_sym a (sym_next_update (\<lambda>_. f))) (\<lambda>_.
     modifyM (\<lambda>s. s\<lparr>sym_free := Some a\<rparr>)))"

subsection \<open>Tables and scopes\<close>

definition NewSymbolTable :: "TableType \<Rightarrow> ('v \<Rightarrow> 'v \<Rightarrow> 'u \<Rightarrow> 'u) option \<Rightarrow> ('v \<Rightarrow> 'u \<Rightarrow> 'u) option \<Rightarrow> ('v, 'u, nat) syms" where
  "NewSymbolTable k sh ex = (\<lambda>s. let t = next_table s in
     Inr (t, s\<lparr>next_table := t + 1, table_list := t # table_list s,
       tables := (tables s)(t := \<lparr>buckets = (\<lambda>_. None), kind = k, scopes = (\<lambda>_. None), shadow_proc = sh, exitscope_proc = ex\<rparr>)\<rparr>))"

definition call_exit :: "('v \<Rightarrow> 'u \<Rightarrow> 'u) option \<Rightarrow> 'v \<Rightarrow> ('v, 'u, unit) syms" where
  "call_exit ex v = (case ex of None \<Rightarrow> ret () | Some f \<Rightarrow> modifyM (\<lambda>s. s\<lparr>world := f v (world s)\<rparr>))"

partial_function (option) reset_chain ::
    "('v \<Rightarrow> 'u \<Rightarrow> 'u) option \<Rightarrow> sptr \<Rightarrow> ('v, 'u) Syms \<Rightarrow> (cc_fail + (unit \<times> ('v, 'u) Syms)) option" where
  "reset_chain ex p s = (case p of
      None \<Rightarrow> Some (Inr ((), s))
    | Some a \<Rightarrow> (case symbols s a of
        None \<Rightarrow> Some (Inl BadPointer)
      | Some c \<Rightarrow> (case bindM (call_exit ex (sym_var c)) (\<lambda>_. free_symbol a) s of
          Inl e \<Rightarrow> Some (Inl e)
        | Inr (_, s') \<Rightarrow> reset_chain ex (sym_next c) s')))"

fun reset_buckets :: "nat \<Rightarrow> nat list \<Rightarrow> ('v, 'u, unit) syms_loop" where
  "reset_buckets t [] = retL ()"
| "reset_buckets t (i # is) =
     bindL (liftL (getM (\<lambda>s. tables s t))) (\<lambda>T.
     bindL (reset_chain (exitscope_proc T) (buckets T i)) (\<lambda>_.
     bindL (liftL (upd_table t (\<lambda>T. T\<lparr>buckets := (buckets T)(i := None)\<rparr>))) (\<lambda>_.
     reset_buckets t is)))"

definition ResetSymbolTable :: "nat \<Rightarrow> ('v, 'u, unit) syms_loop" where
  "ResetSymbolTable t = reset_buckets t [0..<TABLE_SIZE]"

definition EnterScope :: "('v, 'u, unit) syms" where
  "EnterScope =
     bindM (modifyM (\<lambda>s. s\<lparr>Level := Level s + 1\<rparr>)) (\<lambda>_.
     bindM (guardM Abort (\<lambda>s. Level s \<noteq> MAX_SCOPE_DEPTH)) (\<lambda>_.
     modifyM (\<lambda>s. s\<lparr>current_version := (current_version s)(Level s := current_version s (Level s) + 1)\<rparr>)))"

partial_function (option) exit_chain ::
    "('v \<Rightarrow> 'u \<Rightarrow> 'u) \<Rightarrow> sptr \<Rightarrow> ('v, 'u) Syms \<Rightarrow> (cc_fail + (unit \<times> ('v, 'u) Syms)) option" where
  "exit_chain f p s = (case p of
      None \<Rightarrow> Some (Inr ((), s))
    | Some a \<Rightarrow> (case symbols s a of
        None \<Rightarrow> Some (Inl BadPointer)
      | Some c \<Rightarrow> exit_chain f (sym_scope_next c) (s\<lparr>world := f (sym_var c) (world s)\<rparr>)))"

fun exit_tables :: "nat list \<Rightarrow> ('v, 'u, unit) syms_loop" where
  "exit_tables [] = retL ()"
| "exit_tables (t # ts) =
     bindL (liftL (getM (\<lambda>s. s))) (\<lambda>s.
     bindL (case exitscope_proc (tables s t) of
         None \<Rightarrow> retL ()
       | Some f \<Rightarrow>
           bindL (exit_chain f (scopes (tables s t) (Level s))) (\<lambda>_.
           liftL (upd_table t (\<lambda>T. T\<lparr>scopes := (scopes T)(Level s := None)\<rparr>)))) (\<lambda>_.
     exit_tables ts))"

definition ExitScope :: "('v, 'u, unit) syms_loop" where
  "ExitScope =
     bindL (liftL (getM (\<lambda>s. s))) (\<lambda>s.
     if Level s = 0 then liftL (modifyM (\<lambda>s. s\<lparr>syntax_errors := syntax_errors s + 1\<rparr>))
     else
       bindL (exit_tables (table_list s)) (\<lambda>_.
       liftL (modifyM (\<lambda>s. s\<lparr>Level := Level s - 1\<rparr>))))"

definition stale :: "('v, 'u) Syms \<Rightarrow> 'v Symbol \<Rightarrow> bool" where
  "stale s c \<longleftrightarrow> sym_level c > Level s \<or> sint (current_version s (sym_level c)) > sint (sym_version c)"

subsection \<open>Insertion and look-up\<close>

definition make_symbol :: "nat \<Rightarrow> 'v \<Rightarrow> nat \<Rightarrow> 16 word \<Rightarrow> ('v, 'u, nat) syms" where
  "make_symbol n v l ver =
     bindM new_symbol (\<lambda>new.
     bindM (upd_sym new (\<lambda>c. c\<lparr>sym_name := n, sym_var := v, sym_level := l, sym_version := ver,
        sym_shadow := None, sym_next := None\<rparr>)) (\<lambda>_.
     ret new))"

text \<open>The variable \<open>handle\<close> points at the head of a bucket or at the link of a symbol.\<close>

datatype handle = Bucket nat nat | Link nat

fun set_handle :: "handle \<Rightarrow> sptr \<Rightarrow> ('v, 'u, unit) syms" where
  "set_handle (Bucket t b) p = upd_table t (\<lambda>T. T\<lparr>buckets := (buckets T)(b := p)\<rparr>)"
| "set_handle (Link a) p = upd_sym a (sym_next_update (\<lambda>_. p))"

partial_function (option) find_name ::
    "nat \<Rightarrow> handle \<Rightarrow> sptr \<Rightarrow> ('v, 'u) Syms \<Rightarrow> (cc_fail + ((handle \<times> nat) option \<times> ('v, 'u) Syms)) option" where
  "find_name n h p s = (case p of
      None \<Rightarrow> Some (Inr (None, s))
    | Some a \<Rightarrow> (case symbols s a of
        None \<Rightarrow> Some (Inl BadPointer)
      | Some c \<Rightarrow> if sym_name c = n then Some (Inr (Some (h, a), s)) else find_name n (Link a) (sym_next c) s))"

partial_function (option) drop_stale ::
    "sptr \<Rightarrow> ('v, 'u) Syms \<Rightarrow> (cc_fail + (sptr \<times> ('v, 'u) Syms)) option" where
  "drop_stale p s = (case p of
      None \<Rightarrow> Some (Inr (None, s))
    | Some a \<Rightarrow> (case symbols s a of
        None \<Rightarrow> Some (Inl BadPointer)
      | Some c \<Rightarrow>
          if stale s c then (case free_symbol a s of Inl e \<Rightarrow> Some (Inl e) | Inr (_, s') \<Rightarrow> drop_stale (sym_shadow c) s')
          else Some (Inr (Some a, s))))"

definition assertM :: "(('v, 'u) Syms \<Rightarrow> bool) \<Rightarrow> ('v, 'u, unit) syms" where
  "assertM P = guardM AssertFail P"

definition resolve_conflict :: "('v, 'u) ConflictProc \<Rightarrow> 'v \<Rightarrow> 'v \<Rightarrow> ('v, 'u, 'v) syms" where
  "resolve_conflict conflict orig v = (case conflict of
      None \<Rightarrow> failM Fail
    | Some f \<Rightarrow> bindM (modifyM (\<lambda>s. s\<lparr>world := f orig v (world s)\<rparr>)) (\<lambda>_. ret orig))"

definition call_shadow :: "nat \<Rightarrow> 'v \<Rightarrow> 'v \<Rightarrow> ('v, 'u, unit) syms" where
  "call_shadow t v w = modifyM (\<lambda>s. case shadow_proc (tables s t) of None \<Rightarrow> s | Some f \<Rightarrow> s\<lparr>world := f v w (world s)\<rparr>)"

text \<open>Symbols of a flat table all have the scope (0, 0).\<close>

definition insert_level :: "('v, 'u) Syms \<Rightarrow> nat \<Rightarrow> nat" where
  "insert_level s t = (if kind (tables s t) = Nested then Level s else 0)"

definition insert_version :: "('v, 'u) Syms \<Rightarrow> nat \<Rightarrow> 16 word" where
  "insert_version s t = (if kind (tables s t) = Nested then current_version s (Level s) else 0)"

definition link_scope :: "nat \<Rightarrow> nat \<Rightarrow> nat \<Rightarrow> ('v, 'u, unit) syms" where
  "link_scope t level new =
     bindM (getM (\<lambda>s. tables s t)) (\<lambda>T.
     if exitscope_proc T \<noteq> None then
       bindM (upd_sym new (sym_scope_next_update (\<lambda>_. scopes T level))) (\<lambda>_.
       upd_table t (\<lambda>T. T\<lparr>scopes := (scopes T)(level := Some new)\<rparr>))
     else ret ())"

definition insert_at :: "nat \<Rightarrow> nat \<Rightarrow> 'v \<Rightarrow> ('v, 'u) ConflictProc \<Rightarrow> nat \<Rightarrow> nat \<Rightarrow> ('v, 'u, 'v) syms_loop" where
  "insert_at t n v conflict level new =
     bindL (liftL (getM (\<lambda>s. buckets (tables s t) (hash n)))) (\<lambda>chain.
     bindL (find_name n (Bucket t (hash n)) chain) (\<lambda>found.
     case found of
       None \<Rightarrow> liftL (
         bindM (upd_sym new (sym_next_update (\<lambda>_. chain))) (\<lambda>_.
         bindM (get_sym new) (\<lambda>c.
         bindM (assertM (\<lambda>_. sym_shadow c = None)) (\<lambda>_.
         bindM (set_handle (Bucket t (hash n)) (Some new)) (\<lambda>_.
         ret v)))))
     | Some (handle, a) \<Rightarrow>
         bindL (liftL (get_sym a)) (\<lambda>c.
         bindL (drop_stale (Some a)) (\<lambda>rest.
         case rest of
           None \<Rightarrow> liftL (
             bindM (set_handle handle (Some new)) (\<lambda>_.
             bindM (upd_sym new (sym_next_update (\<lambda>_. sym_next c))) (\<lambda>_.
             bindM (get_sym new) (\<lambda>d.
             bindM (assertM (\<lambda>_. sym_shadow d = None)) (\<lambda>_.
             ret v)))))
         | Some b \<Rightarrow> liftL (
             bindM (get_sym b) (\<lambda>d.
             bindM (assertM (\<lambda>s. \<not> stale s d)) (\<lambda>_.
             if sym_level d = level then
               bindM (set_handle handle (Some b)) (\<lambda>_.
               bindM (upd_sym b (sym_next_update (\<lambda>_. sym_next c))) (\<lambda>_.
               resolve_conflict conflict (sym_var d) v))
             else
               bindM (assertM (\<lambda>_. sym_level d < level)) (\<lambda>_.
               bindM (set_handle handle (Some new)) (\<lambda>_.
               bindM (upd_sym new (sym_shadow_update (\<lambda>_. Some b))) (\<lambda>_.
               bindM (upd_sym new (sym_next_update (\<lambda>_. sym_next c))) (\<lambda>_.
               bindM (call_shadow t v (sym_var d)) (\<lambda>_.
               ret v))))))))))))"

definition InsertSymbol :: "nat \<Rightarrow> nat \<Rightarrow> 'v \<Rightarrow> ('v, 'u) ConflictProc \<Rightarrow> ('v, 'u, 'v) syms_loop" where
  "InsertSymbol t n v conflict =
     bindL (liftL (getM (\<lambda>s. s))) (\<lambda>s.
     bindL (liftL (make_symbol n v (insert_level s t) (insert_version s t))) (\<lambda>new.
     bindL (liftL (link_scope t (insert_level s t) new)) (\<lambda>_.
     insert_at t n v conflict (insert_level s t) new)))"

definition LookupSymbol :: "nat \<Rightarrow> nat \<Rightarrow> ('v, 'u, 'v option) syms_loop" where
  "LookupSymbol t n =
     bindL (liftL (getM (\<lambda>s. buckets (tables s t) (hash n)))) (\<lambda>chain.
     bindL (find_name n (Bucket t (hash n)) chain) (\<lambda>found.
     case found of
       None \<Rightarrow> retL None
     | Some (handle, a) \<Rightarrow>
         bindL (liftL (get_sym a)) (\<lambda>c.
         bindL (drop_stale (Some a)) (\<lambda>rest.
         case rest of
           None \<Rightarrow> bindL (liftL (set_handle handle (sym_next c))) (\<lambda>_. retL None)
         | Some b \<Rightarrow> liftL (
             bindM (get_sym b) (\<lambda>d.
             bindM (assertM (\<lambda>s. \<not> stale s d)) (\<lambda>_.
             bindM (set_handle handle (Some b)) (\<lambda>_.
             bindM (upd_sym b (sym_next_update (\<lambda>_. sym_next c))) (\<lambda>_.
             ret (Some (sym_var d)))))))))))"

definition MoveToOuterScope :: "nat \<Rightarrow> nat \<Rightarrow> ('v, 'u, unit) syms_loop" where
  "MoveToOuterScope t n =
     bindL (liftL (assertM (\<lambda>s. 0 < Level s))) (\<lambda>_.
     bindL (liftL (getM (\<lambda>s. buckets (tables s t) (hash n)))) (\<lambda>chain.
     bindL (find_name n (Bucket t (hash n)) chain) (\<lambda>found.
     case found of
       None \<Rightarrow> liftL (failM AssertFail)
     | Some (_, a) \<Rightarrow> liftL (
         bindM (get_sym a) (\<lambda>c.
         bindM (assertM (\<lambda>s. sym_level c = Level s)) (\<lambda>_.
         bindM (assertM (\<lambda>s. sym_version c = current_version s (Level s))) (\<lambda>_.
         bindM (getM (\<lambda>s. current_version s (Level s - 1))) (\<lambda>ver.
         upd_sym a (\<lambda>c. c\<lparr>sym_level := sym_level c - 1, sym_version := ver\<rparr>)))))))))"

text \<open>
  \<open>unique\<close> is the address of the unique string made of (at most 16 characters of) the root and the
  counter: see \<open>UniqueString\<close>.
\<close>

partial_function (option) unused_name ::
    "(32 word \<Rightarrow> nat) \<Rightarrow> nat \<Rightarrow> ('v, 'u) Syms \<Rightarrow> (cc_fail + (nat \<times> ('v, 'u) Syms)) option" where
  "unused_name unique t s =
     (let k = name_counter s + 1 in
      case LookupSymbol t (unique k) (s\<lparr>name_counter := k\<rparr>) of
        None \<Rightarrow> None
      | Some (Inl e) \<Rightarrow> Some (Inl e)
      | Some (Inr (found, s')) \<Rightarrow> if found = None then Some (Inr (unique k, s')) else unused_name unique t s')"

definition InsertUniqueSymbol :: "(32 word \<Rightarrow> nat) \<Rightarrow> nat \<Rightarrow> 'v \<Rightarrow> ('v, 'u, nat) syms_loop" where
  "InsertUniqueSymbol unique t v =
     bindL (unused_name unique t) (\<lambda>n.
     bindL (InsertSymbol t n v None) (\<lambda>_.
     retL n))"

subsection \<open>Iteration\<close>

record SymbolTableMarker =
  marker_table :: nat
  marker_i :: int
  marker_chain :: sptr

definition IterateSymbolTable :: "nat \<Rightarrow> SymbolTableMarker" where
  "IterateSymbolTable t = \<lparr>marker_table = t, marker_i = - 1, marker_chain = None\<rparr>"

function next_bucket :: "('v, 'u) Syms \<Rightarrow> SymbolTableMarker \<Rightarrow> SymbolTableMarker option" where
  "next_bucket s m =
     (if marker_chain m \<noteq> None then Some m
      else let i = marker_i m + 1 in
        if i \<ge> int TABLE_SIZE then None
        else next_bucket s (m\<lparr>marker_i := i, marker_chain := buckets (tables s (marker_table m)) (nat i)\<rparr>))"
  by pat_completeness auto
termination by (relation "measure (\<lambda>(s, m). nat (int TABLE_SIZE - marker_i m))") auto

definition NextInSymbolTable :: "SymbolTableMarker \<Rightarrow> ('v, 'u, SymbolTableMarker \<times> (nat \<times> 'v) option) syms" where
  "NextInSymbolTable m =
     (if marker_i m = int TABLE_SIZE then ret (m, None)
      else
        bindM (case marker_chain m of None \<Rightarrow> ret m
            | Some a \<Rightarrow> bindM (get_sym a) (\<lambda>c. ret (m\<lparr>marker_chain := sym_next c\<rparr>))) (\<lambda>m.
        bindM (getM (\<lambda>s. next_bucket s m)) (\<lambda>r.
        case r of
          None \<Rightarrow> ret (m\<lparr>marker_i := int TABLE_SIZE, marker_chain := None\<rparr>, None)
        | Some m' \<Rightarrow>
            bindM (get_sym (the (marker_chain m'))) (\<lambda>c.
            ret (m', Some (sym_name c, sym_var c))))))"

end
