(* ===== verification/Cc_Symbol_Laws.thy ===== *)
theory Cc_Symbol_Laws
  imports Cc_Symbol
begin

section \<open>Laws of the symbol tables\<close>

text \<open>
  A chain is a list of entries, each a name and the addresses of its symbols, the innermost first; the rest
  hang on its shadow links. \<open>chain_at h p B q\<close>: from \<open>p\<close> the heap holds the chain \<open>B\<close> and its last link is \<open>q\<close>.
\<close>

type_synonym chain = "(nat \<times> nat list) list"

fun shadows_at :: "(nat \<Rightarrow> 'v Symbol option) \<Rightarrow> nat \<Rightarrow> sptr \<Rightarrow> nat list \<Rightarrow> bool" where
  "shadows_at h n p [] = (p = None)"
| "shadows_at h n p (a # as) = (p = Some a \<and> (\<exists>c. h a = Some c \<and> sym_name c = n \<and> shadows_at h n (sym_shadow c) as))"

fun chain_at :: "(nat \<Rightarrow> 'v Symbol option) \<Rightarrow> sptr \<Rightarrow> chain \<Rightarrow> sptr \<Rightarrow> bool" where
  "chain_at h p [] q = (p = q)"
| "chain_at h p ((n, as) # B) q = (as \<noteq> [] \<and> shadows_at h n p as
     \<and> (\<exists>c. h (hd as) = Some c \<and> chain_at h (sym_next c) B q))"

definition addresses :: "chain \<Rightarrow> nat list" where
  "addresses B = concat (map snd B)"

lemma addresses_simps [simp]:
  "addresses [] = []" "addresses ((n, as) # B) = as @ addresses B" "addresses (B @ C) = addresses B @ addresses C"
  by (simp_all add: addresses_def)

lemma shadows_at_cong: "(\<And>a. a \<in> set as \<Longrightarrow> h a = h' a) \<Longrightarrow> shadows_at h n p as = shadows_at h' n p as"
  by (induction as arbitrary: p) auto

lemma shadows_at_next:
  "(\<And>a. a \<in> set as \<Longrightarrow> map_option (sym_next_update (\<lambda>_. None)) (h a) = map_option (sym_next_update (\<lambda>_. None)) (h' a)) \<Longrightarrow>
   shadows_at h n p as = shadows_at h' n p as"
proof (induction as arbitrary: p)
  case (Cons a as)
  have "sym_name c = sym_name d \<and> sym_shadow c = sym_shadow d"
    if "c\<lparr>sym_next := None\<rparr> = d\<lparr>sym_next := None\<rparr>" for c d :: "'v Symbol"
    using that by (cases c; cases d) simp
  note same = this
  have IH: "shadows_at h n p as = shadows_at h' n p as" for p by (rule Cons.IH) (simp add: Cons.prems)
  have a: "map_option (sym_next_update (\<lambda>_. None)) (h a) = map_option (sym_next_update (\<lambda>_. None)) (h' a)"
    by (rule Cons.prems) simp
  show ?case
  proof (cases "h a")
    case None
    with a have "h' a = None" by simp
    with None show ?thesis by simp
  next
    case (Some c)
    with a obtain d where d: "h' a = Some d" "c\<lparr>sym_next := None\<rparr> = d\<lparr>sym_next := None\<rparr>" by (cases "h' a") auto
    from same [OF d(2)] show ?thesis by (simp add: Some d(1) IH)
  qed
qed simp

lemma chain_at_cong: "(\<And>a. a \<in> set (addresses B) \<Longrightarrow> h a = h' a) \<Longrightarrow> chain_at h p B q = chain_at h' p B q"
proof (induction B arbitrary: p)
  case (Cons e B)
  obtain n as where e: "e = (n, as)" by force
  have "shadows_at h n p as = shadows_at h' n p as" by (rule shadows_at_cong) (simp add: Cons.prems e)
  moreover have "chain_at h r B q = chain_at h' r B q" for r by (rule Cons.IH) (simp add: Cons.prems e)
  moreover have "h (hd as) = h' (hd as)" if "as \<noteq> []" using that by (intro Cons.prems) (simp add: e)
  ultimately show ?case by (cases "as = []") (simp_all add: e)
qed simp

lemma chain_at_append: "chain_at h p (B @ C) q = (\<exists>r. chain_at h p B r \<and> chain_at h r C q)"
proof (induction B arbitrary: p)
  case (Cons e B)
  show ?case by (cases e) (simp only: append_Cons chain_at.simps Cons.IH, blast)
qed simp

lemma shadows_at_hd: "shadows_at h n p as \<Longrightarrow> as \<noteq> [] \<Longrightarrow> p = Some (hd as) \<and> (\<exists>c. h (hd as) = Some c \<and> sym_name c = n)"
  by (cases as) auto

subsection \<open>The search along a chain\<close>

definition handle_of :: "handle \<Rightarrow> chain \<Rightarrow> handle" where
  "handle_of h B = (if B = [] then h else Link (hd (snd (last B))))"

lemma find_name_run:
  assumes "chain_at (symbols s) p (B @ (n, as) # C) q" "n \<notin> fst ` set B"
  shows "find_name n h p s = Some (Inr (Some (handle_of h B, hd as), s))"
  using assms
proof (induction B arbitrary: p h)
  case Nil
  then show ?case by (auto simp: find_name.simps [of n h] handle_of_def dest!: shadows_at_hd)
next
  case (Cons e B)
  obtain m es where e: "e = (m, es)" by force
  with Cons.prems have "find_name n h p s = find_name n (Link (hd es)) (sym_next (the (symbols s (hd es)))) s"
    by (auto simp: find_name.simps [of n h] dest!: shadows_at_hd)
  moreover have "chain_at (symbols s) (sym_next (the (symbols s (hd es)))) (B @ (n, as) # C) q"
    using Cons.prems by (auto simp: e)
  ultimately show ?case
    using Cons.IH [of "sym_next (the (symbols s (hd es)))" "Link (hd es)"] Cons.prems by (simp add: e handle_of_def)
qed

lemma find_name_absent:
  assumes "chain_at (symbols s) p B None" "n \<notin> fst ` set B"
  shows "find_name n h p s = Some (Inr (None, s))"
  using assms
proof (induction B arbitrary: p h)
  case Nil
  then show ?case by (simp add: find_name.simps [of n h])
next
  case (Cons e B)
  then show ?case by (cases e) (auto simp: find_name.simps [of n h] dest!: shadows_at_hd)
qed

subsection \<open>Writing a handle\<close>

definition at_handle :: "nat \<Rightarrow> nat \<Rightarrow> handle \<Rightarrow> sptr \<Rightarrow> ('v, 'u) Syms \<Rightarrow> ('v, 'u) Syms" where
  "at_handle t b h p s = (case h of
      Bucket t b \<Rightarrow> s\<lparr>tables := (tables s)(t := (tables s t)\<lparr>buckets := (buckets (tables s t))(b := p)\<rparr>)\<rparr>
    | Link a \<Rightarrow> s\<lparr>symbols := (symbols s)(a := map_option (sym_next_update (\<lambda>_. p)) (symbols s a))\<rparr>)"

lemma last_head:
  "chain_at h p B q \<Longrightarrow> B \<noteq> [] \<Longrightarrow> \<exists>c. h (hd (snd (last B))) = Some c \<and> sym_next c = q \<and> hd (snd (last B)) \<in> set (addresses B)"
proof (induction B arbitrary: p)
  case (Cons e B)
  obtain n as where e: "e = (n, as)" by force
  obtain c where c: "as \<noteq> []" "h (hd as) = Some c" "chain_at h (sym_next c) B q" using Cons.prems(1) by (auto simp: e)
  show ?case
  proof (cases "B = []")
    case True
    with c show ?thesis by (simp add: e)
  next
    case False
    from Cons.IH [OF c(3) False] False show ?thesis by (auto simp: e)
  qed
qed simp

text \<open>After the write, the chain in front of the handle ends in the new pointer.\<close>

lemma set_handle_run:
  assumes "chain_at (symbols s) (buckets (tables s t) b) B q"
  shows "set_handle (handle_of (Bucket t b) B) p s = Inr ((), at_handle t b (handle_of (Bucket t b) B) p s)"
  using last_head [OF assms]
  by (auto simp: handle_of_def at_handle_def upd_table_def modifyM_def upd_sym_def)

lemma relink:
  assumes "chain_at h p B q" "B \<noteq> []" "distinct (addresses B)" "h (hd (snd (last B))) = Some c"
  shows "chain_at (h(hd (snd (last B)) \<mapsto> c\<lparr>sym_next := r\<rparr>)) p B r"
  using assms
proof (induction B arbitrary: p)
  case (Cons e B)
  obtain n as where e: "e = (n, as)" by force
  obtain d where d: "as \<noteq> []" "shadows_at h n p as" "h (hd as) = Some d" "chain_at h (sym_next d) B q"
    using Cons.prems(1) by (auto simp: e)
  let ?l = "hd (snd (last (e # B)))"
  let ?h = "h(?l \<mapsto> c\<lparr>sym_next := r\<rparr>)"
  have sh: "shadows_at ?h n p as"
    using d(2) shadows_at_next [of as h ?h n p] Cons.prems(4) by auto
  show ?case
  proof (cases "B = []")
    case True
    with d sh Cons.prems(4) show ?thesis by (simp add: e fun_upd_same del: fun_upd_apply)
  next
    case False
    then have "?l \<in> set (addresses B)" using last_head [OF d(4)] by auto
    moreover have "hd as \<in> set as" "set as \<inter> set (addresses B) = {}" using Cons.prems(3) d(1) by (simp_all add: e)
    ultimately have "hd as \<noteq> ?l" by auto
    then have "?h (hd as) = Some d" using d(3) by simp
    moreover have "chain_at ?h (sym_next d) B r"
      using Cons.IH [OF d(4) False] Cons.prems(3,4) False by (simp add: e del: fun_upd_apply)
    ultimately show ?thesis using d(1) sh by (simp add: e del: fun_upd_apply)
  qed
qed simp

subsection \<open>The free list\<close>

fun free_at :: "(nat \<Rightarrow> 'v Symbol option) \<Rightarrow> sptr \<Rightarrow> nat list \<Rightarrow> bool" where
  "free_at h p [] = (p = None)"
| "free_at h p (a # F) = (p = Some a \<and> (\<exists>c. h a = Some c \<and> free_at h (sym_next c) F))"

lemma free_at_cong: "(\<And>a. a \<in> set F \<Longrightarrow> h a = h' a) \<Longrightarrow> free_at h p F = free_at h' p F"
  by (induction F arbitrary: p) auto

definition freed :: "nat \<Rightarrow> ('v, 'u) Syms \<Rightarrow> ('v, 'u) Syms" where
  "freed a s = s\<lparr>symbols := (symbols s)(a := map_option (sym_next_update (\<lambda>_. sym_free s)) (symbols s a)), sym_free := Some a\<rparr>"

lemma free_symbol_run: "symbols s a = Some c \<Longrightarrow> free_symbol a s = Inr ((), freed a s)"
  by (simp add: free_symbol_def bindM_def getM_def upd_sym_def modifyM_def freed_def)

lemma freed_fields [simp]:
  "Level (freed a s) = Level s" "current_version (freed a s) = current_version s" "tables (freed a s) = tables s"
  "sym_limit (freed a s) = sym_limit s" "world (freed a s) = world s" "b \<noteq> a \<Longrightarrow> symbols (freed a s) b = symbols s b"
  "next_table (freed a s) = next_table s" "table_list (freed a s) = table_list s" "zero_symbol (freed a s) = zero_symbol s" "syntax_errors (freed a s) = syntax_errors s"
  by (simp_all add: freed_def)

lemma stale_freed [simp]: "stale (freed a s) c = stale s c"
  by (simp add: stale_def)

definition dead :: "('v, 'u) Syms \<Rightarrow> nat \<Rightarrow> bool" where
  "dead s a \<longleftrightarrow> (\<exists>c. symbols s a = Some c \<and> stale s c)"

text \<open>Dropping the stale symbols at the head of an entry frees them one after the other.\<close>

definition head_of :: "nat list \<Rightarrow> sptr" where
  "head_of as = (case as of [] \<Rightarrow> None | a # _ \<Rightarrow> Some a)"

lemma drop_stale_run:
  assumes "shadows_at (symbols s) n p as" "distinct as"
  shows "drop_stale p s = Some (Inr (head_of (dropWhile (dead s) as), fold freed (takeWhile (dead s) as) s))"
  using assms
proof (induction as arbitrary: p s)
  case Nil
  then show ?case by (simp add: drop_stale.simps head_of_def)
next
  case (Cons a as)
  then obtain c where c: "p = Some a" "symbols s a = Some c" "shadows_at (symbols s) n (sym_shadow c) as" by auto
  show ?case
  proof (cases "stale s c")
    case False
    then have "\<not> dead s a" using c(2) by (simp add: dead_def)
    with c False show ?thesis by (simp add: drop_stale.simps [of "Some a"] head_of_def)
  next
    case True
    then have "dead s a" using c(2) by (simp add: dead_def)
    moreover have sh: "shadows_at (symbols (freed a s)) n (sym_shadow c) as"
    proof -
      have "shadows_at (symbols (freed a s)) n p' as = shadows_at (symbols s) n p' as" for p'
      proof (rule shadows_at_cong)
        fix b assume "b \<in> set as"
        then have "b \<noteq> a" using Cons.prems(2) by auto
        then show "symbols (freed a s) b = symbols s b" by simp
      qed
      then show ?thesis using c(3) by simp
    qed
    have dead: "dead (freed a s) b = dead s b" if "b \<in> set as" for b
    proof -
      have "b \<noteq> a" using that Cons.prems(2) by auto
      then show ?thesis by (simp add: dead_def)
    qed
    have "dropWhile (dead (freed a s)) as = dropWhile (dead s) as" "takeWhile (dead (freed a s)) as = takeWhile (dead s) as"
      using dead by (auto intro: dropWhile_cong takeWhile_cong)
    ultimately show ?thesis
      using Cons.IH [OF sh] Cons.prems(2) c True by (simp add: drop_stale.simps [of "Some a"] free_symbol_run)
  qed
qed

lemma freed_all:
  assumes "distinct ds" "\<And>a. a \<in> set ds \<Longrightarrow> symbols s a \<noteq> None"
    "free_at (symbols s) (sym_free s) F" "set ds \<inter> set F = {}"
  shows "free_at (symbols (fold freed ds s)) (sym_free (fold freed ds s)) (rev ds @ F)"
    and "a \<notin> set ds \<Longrightarrow> symbols (fold freed ds s) a = symbols s a"
    and "map_option (sym_next_update (\<lambda>_. None)) (symbols (fold freed ds s) a) = map_option (sym_next_update (\<lambda>_. None)) (symbols s a)"
    and "Level (fold freed ds s) = Level s" "current_version (fold freed ds s) = current_version s"
    "tables (fold freed ds s) = tables s" "sym_limit (fold freed ds s) = sym_limit s" "world (fold freed ds s) = world s"
    "next_table (fold freed ds s) = next_table s" "table_list (fold freed ds s) = table_list s"
proof -
  have "free_at (symbols (fold freed ds s)) (sym_free (fold freed ds s)) (rev ds @ F)
    \<and> (\<forall>a. a \<notin> set ds \<longrightarrow> symbols (fold freed ds s) a = symbols s a)
    \<and> (\<forall>a. map_option (sym_next_update (\<lambda>_. None)) (symbols (fold freed ds s) a) = map_option (sym_next_update (\<lambda>_. None)) (symbols s a))"
    using assms
  proof (induction ds arbitrary: s F)
    case (Cons d ds)
    obtain c where c: "symbols s d = Some c" using Cons.prems(2) [of d] by auto
    have new: "symbols (freed d s) d = Some (c\<lparr>sym_next := sym_free s\<rparr>)" "sym_free (freed d s) = Some d"
      using c by (simp_all add: freed_def)
    have "free_at (symbols (freed d s)) (sym_free s) F"
    proof -
      have "free_at (symbols (freed d s)) (sym_free s) F = free_at (symbols s) (sym_free s) F"
      proof (rule free_at_cong)
        fix a assume "a \<in> set F"
        then have "a \<noteq> d" using Cons.prems(4) by auto
        then show "symbols (freed d s) a = symbols s a" by simp
      qed
      then show ?thesis using Cons.prems(3) by simp
    qed
    then have F: "free_at (symbols (freed d s)) (sym_free (freed d s)) (d # F)" using new by simp
    have ex: "symbols (freed d s) a \<noteq> None" if "a \<in> set ds" for a
      using that Cons.prems(1) Cons.prems(2) [of a] by (cases "a = d") auto
    have one: "map_option (sym_next_update (\<lambda>_. None)) (symbols (freed d s) a) = map_option (sym_next_update (\<lambda>_. None)) (symbols s a)" for a
      using c new(1) by (cases "a = d") simp_all
    show ?case using Cons.IH [OF _ ex F] Cons.prems one by auto
  qed simp
  then show "free_at (symbols (fold freed ds s)) (sym_free (fold freed ds s)) (rev ds @ F)"
    "a \<notin> set ds \<Longrightarrow> symbols (fold freed ds s) a = symbols s a"
    "map_option (sym_next_update (\<lambda>_. None)) (symbols (fold freed ds s) a) = map_option (sym_next_update (\<lambda>_. None)) (symbols s a)"
    by blast+
  show "Level (fold freed ds s) = Level s" "current_version (fold freed ds s) = current_version s"
    "tables (fold freed ds s) = tables s" "sym_limit (fold freed ds s) = sym_limit s" "world (fold freed ds s) = world s"
    "next_table (fold freed ds s) = next_table s" "table_list (fold freed ds s) = table_list s"
    by (induction ds arbitrary: s) simp_all
qed

subsection \<open>Replacing an entry\<close>

lemma chain_prefix:
  assumes "chain_at h p (B @ C) q" "distinct (addresses (B @ C))"
    and same: "\<And>a. a \<in> set (addresses B) \<Longrightarrow> B = [] \<or> a \<noteq> hd (snd (last B)) \<Longrightarrow> h' a = h a"
    and link: "B \<noteq> [] \<Longrightarrow> h' (hd (snd (last B))) = map_option (sym_next_update (\<lambda>_. r)) (h (hd (snd (last B))))"
  shows "chain_at h' (if B = [] then r else p) B r"
proof (cases "B = []")
  case False
  obtain r0 where r0: "chain_at h p B r0" using assms(1) by (auto simp: chain_at_append)
  obtain c where c: "h (hd (snd (last B))) = Some c" using last_head [OF r0 False] by auto
  let ?h = "h(hd (snd (last B)) \<mapsto> c\<lparr>sym_next := r\<rparr>)"
  have "chain_at ?h p B r" by (rule relink [OF r0 False _ c]) (use assms(2) in simp)
  moreover have "chain_at h' p B r = chain_at ?h p B r"
    by (rule chain_at_cong) (use same link [OF False] c False in auto)
  ultimately show ?thesis using False by simp
qed simp

lemma replace_entry:
  assumes B: "chain_at h p (B1 @ (n, as) # B2) None" "distinct (addresses (B1 @ (n, as) # B2))"
    and same: "\<And>a. a \<in> set (addresses B1) \<union> set (addresses B2) \<Longrightarrow> B1 = [] \<or> a \<noteq> hd (snd (last B1)) \<Longrightarrow> h' a = h a"
    and link: "B1 \<noteq> [] \<Longrightarrow> h' (hd (snd (last B1))) = map_option (sym_next_update (\<lambda>_. r)) (h (hd (snd (last B1))))"
    and nx: "h (hd as) = Some c"
    and entry: "if es = [] then r = sym_next c else shadows_at h' n r es \<and> (\<exists>d. h' (hd es) = Some d \<and> sym_next d = sym_next c)"
  shows "chain_at h' (if B1 = [] then r else p) (B1 @ (if es = [] then [] else [(n, es)]) @ B2) None"
proof -
  have 1: "chain_at h' (if B1 = [] then r else p) B1 r"
    by (rule chain_prefix [OF B]) (use same link in auto)
  have "chain_at h (sym_next c) B2 None" using B(1) nx by (auto simp: chain_at_append)
  moreover have "chain_at h' (sym_next c) B2 None = chain_at h (sym_next c) B2 None"
  proof (rule chain_at_cong)
    fix a assume a: "a \<in> set (addresses B2)"
    have "a \<noteq> hd (snd (last B1))" if "B1 \<noteq> []"
    proof -
      obtain r0 where "chain_at h p B1 r0" using B(1) by (auto simp: chain_at_append)
      then have "hd (snd (last B1)) \<in> set (addresses B1)" using last_head [OF _ that] by blast
      then show ?thesis using a B(2) by auto
    qed
    then show "h' a = h a" using same a by blast
  qed
  ultimately have 2: "chain_at h' (sym_next c) B2 None" by simp
  show ?thesis
  proof (cases "es = []")
    case True
    with 1 2 entry show ?thesis by (auto simp: chain_at_append)
  next
    case False
    with 2 entry have "chain_at h' r ((n, es) # B2) None" by auto
    with 1 False show ?thesis by (auto simp: chain_at_append)
  qed
qed

end
