(* ===== verification/Cc_Symbol_Rep.thy ===== *)
theory Cc_Symbol_Rep
  imports Cc_Symbol_Laws
begin

section \<open>Symbol tables as nested scopes\<close>

text \<open>
  The abstract view of a table: each name has the declarations of the open scopes, innermost first, each
  with its level. The invariant has three parts: the shape of the chains and of the free list, the contents
  of the symbols, and the lists of the symbols made in each open scope.
\<close>

type_synonym layout = "nat \<Rightarrow> nat \<Rightarrow> chain"

definition unlinked :: "'v Symbol \<Rightarrow> 'v Symbol" where
  "unlinked c = c\<lparr>sym_next := None, sym_shadow := None\<rparr>"

lemma unlinked_fields:
  assumes "unlinked c = unlinked d"
  shows "sym_name c = sym_name d" "sym_var c = sym_var d" "sym_level c = sym_level d" "sym_version c = sym_version d"
    "sym_scope_next c = sym_scope_next d"
  using assms by (cases c; cases d; simp add: unlinked_def)+

lemma unlinked_upd [simp]: "unlinked (c\<lparr>sym_next := p\<rparr>) = unlinked c" "unlinked (c\<lparr>sym_shadow := p\<rparr>) = unlinked c"
  by (cases c; simp add: unlinked_def)+

definition same_but :: "nat set \<Rightarrow> ('v, 'u) Syms \<Rightarrow> ('v, 'u) Syms \<Rightarrow> bool" where
  "same_but X s s' \<longleftrightarrow> (\<forall>a. a \<notin> X \<longrightarrow> map_option unlinked (symbols s' a) = map_option unlinked (symbols s a))
     \<and> Level s' = Level s \<and> current_version s' = current_version s \<and> (\<forall>t. kind (tables s' t) = kind (tables s t))"

lemma same_butD:
  assumes "same_but X s s'"
  shows "a \<notin> X \<Longrightarrow> map_option unlinked (symbols s' a) = map_option unlinked (symbols s a)"
    "Level s' = Level s" "current_version s' = current_version s" "kind (tables s' t) = kind (tables s t)"
  using assms by (simp_all add: same_but_def)

lemma same_but_cell:
  "same_but X s s' \<Longrightarrow> a \<notin> X \<Longrightarrow> symbols s a = Some c \<Longrightarrow> \<exists>d. symbols s' a = Some d \<and> unlinked d = unlinked c"
  by (auto simp: same_but_def)

lemma same_but_cell':
  assumes "same_but X s s'" "a \<notin> X" "symbols s' a = Some d"
  shows "\<exists>c. symbols s a = Some c \<and> unlinked d = unlinked c"
proof -
  have "map_option unlinked (symbols s' a) = map_option unlinked (symbols s a)" by (rule same_butD(1) [OF assms(1,2)])
  then show ?thesis using assms(3) by (cases "symbols s a") auto
qed

lemma next_unlinked:
  assumes "map_option (sym_next_update (\<lambda>_. None)) x = map_option (sym_next_update (\<lambda>_. None)) y"
  shows "map_option unlinked x = map_option unlinked y"
proof -
  have "unlinked c = unlinked d" if "c\<lparr>sym_next := None\<rparr> = d\<lparr>sym_next := None\<rparr>" for c d :: "'v Symbol"
    using that by (cases c; cases d) (simp add: unlinked_def)
  then show ?thesis using assms by (cases x; cases y) auto
qed

subsection \<open>The invariant\<close>

definition alive :: "('v, 'u) Syms \<Rightarrow> nat \<Rightarrow> bool" where
  "alive s a \<longleftrightarrow> (\<exists>c. symbols s a = Some c \<and> \<not> stale s c)"

definition lev :: "('v, 'u) Syms \<Rightarrow> nat \<Rightarrow> nat" where
  "lev s a = (case symbols s a of None \<Rightarrow> 0 | Some c \<Rightarrow> sym_level c)"

definition nested :: "('v, 'u) Syms \<Rightarrow> nat \<Rightarrow> nat \<Rightarrow> bool" where
  "nested s a b \<longleftrightarrow> (alive s a \<longrightarrow> alive s b \<and> lev s b < lev s a)"

definition dated :: "('v, 'u) Syms \<Rightarrow> nat \<Rightarrow> nat \<Rightarrow> bool" where
  "dated s t a \<longleftrightarrow> (\<exists>c. symbols s a = Some c \<and> sint (sym_version c) \<le> sint (current_version s (sym_level c))
     \<and> (kind (tables s t) = Flat \<longrightarrow> sym_level c = 0 \<and> sym_version c = 0))"

definition shape_inv :: "('v, 'u) Syms \<Rightarrow> layout \<Rightarrow> nat list \<Rightarrow> bool" where
  "shape_inv s B F \<longleftrightarrow>
     (\<forall>t b. chain_at (symbols s) (buckets (tables s t) b) (B t b) None)
   \<and> (\<forall>t b. distinct (map fst (B t b)) \<and> (\<forall>e \<in> set (B t b). hash (fst e) = b))
   \<and> (\<forall>t b. distinct (addresses (B t b)))
   \<and> (\<forall>t b t' b'. (t, b) \<noteq> (t', b') \<longrightarrow> set (addresses (B t b)) \<inter> set (addresses (B t' b')) = {})
   \<and> free_at (symbols s) (sym_free s) F \<and> distinct F \<and> (\<forall>t b. set F \<inter> set (addresses (B t b)) = {})
   \<and> (\<forall>a. symbols s a \<noteq> None \<longrightarrow> a < sym_limit s)"

definition content_inv :: "('v, 'u) Syms \<Rightarrow> layout \<Rightarrow> bool" where
  "content_inv s B \<longleftrightarrow> current_version s 0 = 0 \<and> Level s < MAX_SCOPE_DEPTH
     \<and> (\<forall>t b. \<forall>e \<in> set (B t b). sorted_wrt (nested s) (snd e) \<and> (\<forall>a \<in> set (snd e). dated s t a))"

fun scope_at :: "(nat \<Rightarrow> 'v Symbol option) \<Rightarrow> sptr \<Rightarrow> nat list \<Rightarrow> bool" where
  "scope_at h p [] = (p = None)"
| "scope_at h p (a # as) = (p = Some a \<and> (\<exists>c. h a = Some c \<and> scope_at h (sym_scope_next c) as))"

definition scope_inv :: "('v, 'u) Syms \<Rightarrow> nat list \<Rightarrow> (nat \<Rightarrow> nat \<Rightarrow> nat list) \<Rightarrow> bool" where
  "scope_inv s F S \<longleftrightarrow> (\<forall>t l. 0 < l \<longrightarrow> scope_at (symbols s) (scopes (tables s t) l) (S t l)
     \<and> (\<forall>a \<in> set (S t l). a \<notin> set F \<and> l \<le> Level s
          \<and> (\<exists>c. symbols s a = Some c \<and> sym_level c = l \<and> sym_version c = current_version s l)))"

definition sym_inv :: "('v, 'u) Syms \<Rightarrow> layout \<Rightarrow> nat list \<Rightarrow> (nat \<Rightarrow> nat \<Rightarrow> nat list) \<Rightarrow> bool" where
  "sym_inv s B F S \<longleftrightarrow> shape_inv s B F \<and> content_inv s B \<and> scope_inv s F S"

lemma shape_invD:
  assumes "shape_inv s B F"
  shows "chain_at (symbols s) (buckets (tables s t) b) (B t b) None" "distinct (map fst (B t b))"
    "e \<in> set (B t b) \<Longrightarrow> hash (fst e) = b" "distinct (addresses (B t b))"
    "(t, b) \<noteq> (t', b') \<Longrightarrow> set (addresses (B t b)) \<inter> set (addresses (B t' b')) = {}"
    "free_at (symbols s) (sym_free s) F" "distinct F" "set F \<inter> set (addresses (B t b)) = {}"
    "symbols s a = Some c \<Longrightarrow> a < sym_limit s"
  using assms unfolding shape_inv_def by blast+

lemma content_invD:
  assumes "content_inv s B" "(n, as) \<in> set (B t b)"
  shows "sorted_wrt (nested s) as" "a \<in> set as \<Longrightarrow> dated s t a"
  using assms by (fastforce simp: content_inv_def)+

lemma chain_cells: "chain_at h p B q \<Longrightarrow> a \<in> set (addresses B) \<Longrightarrow> h a \<noteq> None"
proof (induction B arbitrary: p)
  case (Cons e B)
  obtain n as where e: "e = (n, as)" by force
  have "h a \<noteq> None" if "shadows_at h n p as" "a \<in> set as" for p
    using that by (induction as arbitrary: p) auto
  then show ?case using Cons by (auto simp: e)
qed simp

lemma free_cells: "free_at h p F \<Longrightarrow> a \<in> set F \<Longrightarrow> h a \<noteq> None"
  by (induction F arbitrary: p) auto

text \<open>What depends on the contents only survives a change of links.\<close>

lemma same_but_contents:
  assumes "same_but X s s'" "a \<notin> X"
  shows "alive s' a = alive s a" "lev s' a = lev s a" "dated s' t a = dated s t a"
proof -
  have st: "stale s' d = stale s c" if "unlinked d = unlinked c" for c d
    using that assms(1) unlinked_fields [OF that] by (simp add: stale_def same_but_def)
  have m: "map_option unlinked (symbols s' a) = map_option unlinked (symbols s a)" by (rule same_butD(1) [OF assms])
  have "alive s' a = alive s a \<and> lev s' a = lev s a \<and> dated s' t a = dated s t a"
  proof (cases "symbols s a")
    case None
    with m have "symbols s' a = None" by simp
    with None show ?thesis by (simp add: alive_def lev_def dated_def)
  next
    case (Some c)
    with m obtain d where d: "symbols s' a = Some d" "unlinked d = unlinked c" by (cases "symbols s' a") auto
    show ?thesis
      using Some d(1) st [OF d(2)] unlinked_fields [OF d(2)] same_butD(3,4) [OF assms(1)]
      by (simp add: alive_def lev_def dated_def)
  qed
  then show "alive s' a = alive s a" "lev s' a = lev s a" "dated s' t a = dated s t a" by simp_all
qed

lemma same_but_nested:
  assumes "same_but X s s'" "set as \<inter> X = {}"
  shows "sorted_wrt (nested s') as = sorted_wrt (nested s) as"
proof -
  have "nested s' a b = nested s a b" if "a \<in> set as" "b \<in> set as" for a b
    using that assms same_but_contents [OF assms(1)] by (auto simp: nested_def disjoint_iff)
  then show ?thesis
    using sorted_wrt_mono_rel [of as "nested s" "nested s'"] sorted_wrt_mono_rel [of as "nested s'" "nested s"] by blast
qed

subsection \<open>A change of one chain\<close>

lemma shape_change:
  assumes inv: "shape_inv s B F"
    and tabs: "\<And>t' b'. (t', b') \<noteq> (t, b) \<Longrightarrow> buckets (tables s' t') b' = buckets (tables s t') b'"
    and cells: "\<And>t' b' a. (t', b') \<noteq> (t, b) \<Longrightarrow> a \<in> set (addresses (B t' b')) \<Longrightarrow> symbols s' a = symbols s a"
    and C: "chain_at (symbols s') (buckets (tables s' t) b) C None" "distinct (map fst C)" "\<And>e. e \<in> set C \<Longrightarrow> hash (fst e) = b"
      "distinct (addresses C)"
    and F: "free_at (symbols s') (sym_free s') F'" "distinct F'" "set F' \<inter> set (addresses C) = {}"
    and apart: "\<And>t' b'. (t', b') \<noteq> (t, b) \<Longrightarrow> (set (addresses C) \<union> set F') \<inter> set (addresses (B t' b')) = {}"
    and lim: "\<And>a. symbols s' a \<noteq> None \<Longrightarrow> a < sym_limit s'"
  shows "shape_inv s' (B(t := (B t)(b := C))) F'"
proof -
  let ?B = "B(t := (B t)(b := C))"
  have B: "?B t' b' = (if (t', b') = (t, b) then C else B t' b')" for t' b' by simp
  have "chain_at (symbols s') (buckets (tables s' t') b') (?B t' b') None" for t' b'
  proof (cases "(t', b') = (t, b)")
    case False
    have "chain_at (symbols s') (buckets (tables s t') b') (B t' b') None
        = chain_at (symbols s) (buckets (tables s t') b') (B t' b') None"
      by (rule chain_at_cong) (rule cells [OF False])
    then show ?thesis using shape_invD(1) [OF inv, of t' b'] unfolding B if_not_P [OF False] tabs [OF False] by simp
  qed (use C(1) in simp)
  moreover have "distinct (map fst (?B t' b'))" "\<forall>e \<in> set (?B t' b'). hash (fst e) = b'" "distinct (addresses (?B t' b'))"
    "set F' \<inter> set (addresses (?B t' b')) = {}" for t' b'
    using C F apart [of t' b'] shape_invD(2,3,4) [OF inv] by (auto simp: B)
  moreover have "set (addresses (?B t1 b1)) \<inter> set (addresses (?B t2 b2)) = {}" if "(t1, b1) \<noteq> (t2, b2)" for t1 b1 t2 b2
    using that shape_invD(5) [OF inv that] apart [of t1 b1] apart [of t2 b2]
    by (cases "(t1, b1) = (t, b)"; cases "(t2, b2) = (t, b)") auto
  ultimately show ?thesis
    unfolding shape_inv_def using F(1,2) lim by blast
qed

lemma content_change:
  assumes inv: "content_inv s B" and same: "same_but X s s'"
    and X: "\<And>t' b'. (t', b') \<noteq> (t, b) \<Longrightarrow> X \<inter> set (addresses (B t' b')) = {}"
    and C: "\<And>e. e \<in> set C \<Longrightarrow> sorted_wrt (nested s') (snd e) \<and> (\<forall>a \<in> set (snd e). dated s' t a)"
  shows "content_inv s' (B(t := (B t)(b := C)))"
proof -
  have "sorted_wrt (nested s') (snd e) \<and> (\<forall>a \<in> set (snd e). dated s' t' a)"
    if e: "e \<in> set ((B(t := (B t)(b := C))) t' b')" for e t' b'
  proof (cases "(t', b') = (t, b)")
    case True
    then show ?thesis using C e by auto
  next
    case False
    then have eB: "e \<in> set (B t' b')" using e by (auto split: if_splits)
    then have "set (snd e) \<subseteq> set (addresses (B t' b'))" by (auto simp: addresses_def)
    then have d: "set (snd e) \<inter> X = {}" using X [OF False] by auto
    have "sorted_wrt (nested s) (snd e) \<and> (\<forall>a \<in> set (snd e). dated s t' a)" using inv eB by (simp add: content_inv_def)
    then show ?thesis using same_but_nested [OF same d] same_but_contents(3) [OF same] d by (auto simp: disjoint_iff)
  qed
  then show ?thesis using inv same by (auto simp: content_inv_def same_but_def)
qed

lemma scope_at_same:
  assumes "same_but X s s'" "set as \<inter> X = {}"
  shows "scope_at (symbols s') p as = scope_at (symbols s) p as"
  using assms(2)
proof (induction as arbitrary: p)
  case (Cons a as)
  then have IH: "scope_at (symbols s') p as = scope_at (symbols s) p as" for p by simp
  have m: "map_option unlinked (symbols s' a) = map_option unlinked (symbols s a)"
    by (rule same_butD(1) [OF assms(1)]) (use Cons.prems in simp)
  show ?case
  proof (cases "symbols s a")
    case None
    with m show ?thesis by simp
  next
    case (Some c)
    with m obtain d where d: "symbols s' a = Some d" "unlinked d = unlinked c" by (cases "symbols s' a") auto
    then show ?thesis using Some IH unlinked_fields(5) [OF d(2)] by simp
  qed
qed simp

lemma scope_change:
  assumes inv: "scope_inv s F S" and same: "same_but X s s'"
    and X: "\<And>t l. 0 < l \<Longrightarrow> X \<inter> set (S t l) = {}" and sc: "\<And>t l. 0 < l \<Longrightarrow> scopes (tables s' t) l = scopes (tables s t) l"
    and F: "\<And>t l a. 0 < l \<Longrightarrow> a \<in> set (S t l) \<Longrightarrow> a \<notin> set F'"
  shows "scope_inv s' F' S"
  unfolding scope_inv_def
proof (intro allI impI conjI ballI)
  fix t and l :: nat assume l: "0 < l"
  have d: "set (S t l) \<inter> X = {}" using X [OF l] by blast
  show "scope_at (symbols s') (scopes (tables s' t) l) (S t l)"
    using inv l sc [OF l] scope_at_same [OF same d] by (simp add: scope_inv_def)
  fix a assume a: "a \<in> set (S t l)"
  show "a \<notin> set F'" by (rule F [OF l a])
  from inv l a obtain c where c: "l \<le> Level s" "symbols s a = Some c" "sym_level c = l" "sym_version c = current_version s l"
    unfolding scope_inv_def by blast
  then show "l \<le> Level s'" using same by (simp add: same_but_def)
  have "a \<notin> X" using a d by blast
  from same_but_cell [OF same this c(2)] obtain d where d: "symbols s' a = Some d" "unlinked d = unlinked c" by blast
  then show "\<exists>c. symbols s' a = Some c \<and> sym_level c = l \<and> sym_version c = current_version s' l"
    using c unlinked_fields [OF d(2)] same_butD(3) [OF same] by auto
qed

text \<open>
  One entry changes: the chain in front of it ends in \<open>r\<close>, the entry is now \<open>es\<close> (or gone), its old symbols
  may have moved to the free list. The addresses in \<open>X\<close> are new.
\<close>

lemma shape_entry:
  assumes inv: "shape_inv s B F" and split: "B t b = B1 @ (n, as) # B2" and hd: "symbols s (hd as) = Some c"
    and tabs: "\<And>t' b'. buckets (tables s' t') b' = (if t' = t \<and> b' = b \<and> B1 = [] then r else buckets (tables s t') b')"
    and cells: "\<And>a. a \<notin> set as \<union> X \<union> set F \<Longrightarrow> B1 = [] \<or> a \<noteq> hd (snd (last B1)) \<Longrightarrow> symbols s' a = symbols s a"
    and link: "B1 \<noteq> [] \<Longrightarrow> symbols s' (hd (snd (last B1))) = map_option (sym_next_update (\<lambda>_. r)) (symbols s (hd (snd (last B1))))"
    and entry: "if es = [] then r = sym_next c else shadows_at (symbols s') n r es \<and> (\<exists>d. symbols s' (hd es) = Some d \<and> sym_next d = sym_next c)"
    and es: "distinct es" "set es \<subseteq> set as \<union> X" and X: "\<And>t b. X \<inter> set (addresses (B t b)) = {}"
    and F': "free_at (symbols s') (sym_free s') F'" "distinct F'" "set F' \<inter> set es = {}" "set F' \<subseteq> set as \<union> set F"
    and lim: "\<And>a. symbols s' a \<noteq> None \<Longrightarrow> a < sym_limit s'"
  shows "shape_inv s' (B(t := (B t)(b := B1 @ (if es = [] then [] else [(n, es)]) @ B2))) F'"
proof -
  let ?C = "B1 @ (if es = [] then [] else [(n, es)]) @ B2"
  have d: "distinct (addresses (B1 @ (n, as) # B2))" using shape_invD(4) [OF inv, of t b] by (simp add: split)
  have in1: "hd (snd (last B1)) \<in> set (addresses B1)" if "B1 \<noteq> []"
  proof -
    obtain q where "chain_at (symbols s) (buckets (tables s t) b) B1 q"
      using shape_invD(1) [OF inv, of t b] by (auto simp: split chain_at_append)
    then show ?thesis using last_head [OF _ that] by blast
  qed
  have F: "set F \<inter> set (addresses (B t' b')) = {}" for t' b' by (rule shape_invD(8) [OF inv])
  have sub: "set (addresses B1) \<union> set as \<union> set (addresses B2) = set (addresses (B t b))" by (auto simp: split)
  have same: "symbols s' a = symbols s a"
    if "a \<in> set (addresses B1) \<union> set (addresses B2)" "B1 = [] \<or> a \<noteq> hd (snd (last B1))" for a
  proof (rule cells [OF _ that(2)])
    show "a \<notin> set as \<union> X \<union> set F" using that(1) d X [of t b] F [of t b] sub by auto
  qed
  have chain: "chain_at (symbols s') (buckets (tables s' t) b) ?C None"
    using replace_entry [OF shape_invD(1) [OF inv, of t b, unfolded split] d same link hd entry] tabs [of t b] by simp
  have parts: "set (addresses ?C) \<subseteq> set (addresses (B t b)) \<union> X" using es(2) sub by (auto split: if_splits)
  have other: "symbols s' a = symbols s a" if "(t', b') \<noteq> (t, b)" "a \<in> set (addresses (B t' b'))" for t' b' a
  proof (rule cells)
    have "a \<notin> set (addresses (B t b))" using shape_invD(5) [OF inv that(1)] that(2) by auto
    then show "a \<notin> set as \<union> X \<union> set F" "B1 = [] \<or> a \<noteq> hd (snd (last B1))"
      using X [of t' b'] F [of t' b'] that(2) sub in1 by auto
  qed
  show ?thesis
  proof (rule shape_change [OF inv _ other chain])
    show "buckets (tables s' t') b' = buckets (tables s t') b'" if "(t', b') \<noteq> (t, b)" for t' b'
      using tabs [of t' b'] that by auto
    show "distinct (map fst ?C)" using shape_invD(2) [OF inv, of t b] by (auto simp: split)
    show "hash (fst e) = b" if "e \<in> set ?C" for e
    proof -
      have "\<forall>e \<in> set (B t b). hash (fst e) = b" using shape_invD(3) [OF inv] by blast
      then have "\<forall>e \<in> set B1 \<union> set B2. hash (fst e) = b" "hash n = b" by (auto simp: split)
      then show ?thesis using that by (auto split: if_splits)
    qed
    have own: "set as \<inter> set (addresses B1) = {}" "set as \<inter> set (addresses B2) = {}" using d by auto
    then have "set es \<inter> set (addresses B1) = {}" "set es \<inter> set (addresses B2) = {}"
      using es(2) X [of t b] sub by blast+
    then show "distinct (addresses ?C)" using d es(1) by auto
    have "set F' \<inter> set (addresses B1) = {}" "set F' \<inter> set (addresses B2) = {}" using own F'(4) F [of t b] sub by blast+
    then show "set F' \<inter> set (addresses ?C) = {}" using F'(3) by auto
    show "(set (addresses ?C) \<union> set F') \<inter> set (addresses (B t' b')) = {}" if "(t', b') \<noteq> (t, b)" for t' b'
      using parts F'(4) shape_invD(5) [OF inv that] X [of t' b'] F [of t' b'] sub by blast
  qed (use F'(1,2) lim in auto)
qed

subsection \<open>Stale symbols at the head of an entry\<close>

lemma alive_dead: "symbols s a \<noteq> None \<Longrightarrow> alive s a \<longleftrightarrow> \<not> dead s a"
  by (auto simp: alive_def dead_def)

text \<open>Under an open scope all scopes are open: what is left after dropping are all living symbols.\<close>

lemma dropWhile_alive:
  assumes "sorted_wrt (nested s) as" "\<And>a. a \<in> set as \<Longrightarrow> symbols s a \<noteq> None"
  shows "dropWhile (dead s) as = filter (alive s) as"
  using assms
proof (induction as)
  case (Cons a as)
  have a: "alive s a \<longleftrightarrow> \<not> dead s a" using Cons.prems(2) [of a] by (intro alive_dead) simp
  show ?case
  proof (cases "dead s a")
    case True
    with Cons a show ?thesis by simp
  next
    case False
    with a Cons.prems(1) have "\<forall>b \<in> set as. alive s b" by (auto simp: nested_def)
    then have "filter (alive s) as = as" by (simp add: filter_id_conv)
    with False a show ?thesis by simp
  qed
qed simp

definition entry :: "nat \<Rightarrow> chain \<Rightarrow> nat list" where
  "entry n C = (case map_of C n of None \<Rightarrow> [] | Some as \<Rightarrow> as)"

definition scoped :: "('v, 'u) Syms \<Rightarrow> layout \<Rightarrow> nat \<Rightarrow> nat \<Rightarrow> (nat \<times> 'v) list" where
  "scoped s B t n = map (\<lambda>a. (lev s a, sym_var (the (symbols s a)))) (filter (alive s) (entry n (B t (hash n))))"

lemma entry_simps [simp]: "entry n [] = []" "entry n ((m, as) # C) = (if m = n then as else entry n C)"
  by (simp_all add: entry_def)

lemma entry_absent: "n \<notin> fst ` set C \<Longrightarrow> entry n C = []"
  by (induction C) auto

lemma entry_append: "entry n (B @ C) = (if n \<in> fst ` set B then entry n B else entry n C)"
proof (induction B)
  case (Cons e B)
  then show ?case by (cases e) simp
qed simp

lemma entry_split:
  assumes "distinct (map fst (B1 @ (n, as) # B2))"
  shows "entry n (B1 @ (n, as) # B2) = as" "entry n (B1 @ B2) = []"
    "m \<noteq> n \<Longrightarrow> entry m (B1 @ (n, es) # B2) = entry m (B1 @ (n, as) # B2)"
    "m \<noteq> n \<Longrightarrow> entry m (B1 @ B2) = entry m (B1 @ (n, as) # B2)"
  using assms by (auto simp: entry_append entry_absent)

lemma entry_found:
  assumes "n \<in> fst ` set C" obtains B1 as B2 where "C = B1 @ (n, as) # B2" "n \<notin> fst ` set B1"
  using assms
proof (induction C arbitrary: thesis)
  case (Cons e C)
  obtain m as where e: "e = (m, as)" by force
  show ?case
  proof (cases "m = n")
    case True
    then show ?thesis using Cons.prems(1) [of "[]" as C] by (simp add: e)
  next
    case False
    with Cons.prems(2) have "n \<in> fst ` set C" by (auto simp: e)
    then obtain B1 bs B2 where "C = B1 @ (n, bs) # B2" "n \<notin> fst ` set B1" using Cons.IH by blast
    then show ?thesis using Cons.prems(1) [of "e # B1" bs B2] False by (simp add: e)
  qed
qed simp

end
