(* ===== verification/Cc_Symbol_Run.thy ===== *)
theory Cc_Symbol_Run
  imports Cc_Symbol_Rep
begin

section \<open>Laws of the operations on symbol tables\<close>

subsection \<open>New symbols\<close>

lemma free_at_upt:
  assumes "\<And>a. i \<le> a \<Longrightarrow> a < n \<Longrightarrow> \<exists>c. h a = Some c \<and> sym_next c = (if a + 1 < n then Some (a + 1) else None)" "i < n"
  shows "free_at h (Some i) [i..<n]"
  using assms
proof (induction "n - i" arbitrary: i)
  case (Suc k)
  obtain c where c: "h i = Some c" "sym_next c = (if i + 1 < n then Some (i + 1) else None)"
    using Suc.prems(1) [of i] Suc.prems(2) by auto
  show ?case
  proof (cases "i + 1 < n")
    case True
    have "free_at h (Some (i + 1)) [i + 1..<n]" by (rule Suc.hyps(1)) (use Suc.hyps(2) Suc.prems(1) True in auto)
    then show ?thesis using c True by (simp add: upt_conv_Cons)
  next
    case False
    then have "n = i + 1" using Suc.prems(2) by simp
    then show ?thesis using c by simp
  qed
qed simp

definition linked :: "nat \<Rightarrow> nat \<Rightarrow> ('v, 'u) Syms \<Rightarrow> ('v, 'u) Syms" where
  "linked i n s = s\<lparr>symbols := (\<lambda>a. if i \<le> a \<and> a < n then map_option (sym_next_update (\<lambda>_. Some (a + 1))) (symbols s a) else symbols s a)\<rparr>"

lemma linked_step:
  assumes "j < N" "symbols s j = Some c"
  shows "linked (Suc j) N (s\<lparr>symbols := (symbols s)(j \<mapsto> c\<lparr>sym_next := Some (Suc j)\<rparr>)\<rparr>) = linked j N s"
proof -
  have "(\<lambda>a. if Suc j \<le> a \<and> a < N then map_option (sym_next_update (\<lambda>_. Some (a + 1))) (((symbols s)(j \<mapsto> c\<lparr>sym_next := Some (Suc j)\<rparr>)) a)
       else ((symbols s)(j \<mapsto> c\<lparr>sym_next := Some (Suc j)\<rparr>)) a)
    = (\<lambda>a. if j \<le> a \<and> a < N then map_option (sym_next_update (\<lambda>_. Some (a + 1))) (symbols s a) else symbols s a)"
  proof (rule ext)
    fix a
    consider "a = j" | "a < j" | "j < a" by linarith
    then show "(if Suc j \<le> a \<and> a < N then map_option (sym_next_update (\<lambda>_. Some (a + 1))) (((symbols s)(j \<mapsto> c\<lparr>sym_next := Some (Suc j)\<rparr>)) a)
       else ((symbols s)(j \<mapsto> c\<lparr>sym_next := Some (Suc j)\<rparr>)) a)
      = (if j \<le> a \<and> a < N then map_option (sym_next_update (\<lambda>_. Some (a + 1))) (symbols s a) else symbols s a)"
      by cases (use assms in simp_all)
  qed
  then show ?thesis by (simp add: linked_def cong: if_cong)
qed

lemma link_block_run:
  assumes "0 < i" "i \<le> n" "\<And>a. base \<le> a \<Longrightarrow> a < base + n \<Longrightarrow> symbols s a \<noteq> None"
  shows "link_block base [i..<n] (base + (i - 1)) s = Inr (base + (n - 1), linked (base + (i - 1)) (base + (n - 1)) s)"
  using assms
proof (induction "n - i" arbitrary: i s)
  case 0
  then have "i = n" by simp
  moreover have "linked j j s = s" for j
  proof -
    have "(\<lambda>a. if j \<le> a \<and> a < j then map_option (sym_next_update (\<lambda>_. Some (a + 1))) (symbols s a) else symbols s a) = symbols s"
      by (rule ext) auto
    then show ?thesis by (simp add: linked_def)
  qed
  ultimately show ?case by (simp add: ret_def)
next
  case (Suc k)
  then obtain c where c: "symbols s (base + (i - 1)) = Some c" using Suc.prems(3) [of "base + (i - 1)"] by fastforce
  let ?s = "s\<lparr>symbols := (symbols s)(base + (i - 1) \<mapsto> c\<lparr>sym_next := Some (base + i)\<rparr>)\<rparr>"
  have "link_block base [i..<n] (base + (i - 1)) s = link_block base [Suc i..<n] (base + i) ?s"
    using Suc.hyps(2) c by (simp add: upt_conv_Cons bindM_def upd_sym_def)
  also have "\<dots> = Inr (base + (n - 1), linked (base + i) (base + (n - 1)) ?s)"
    using Suc.hyps(1) [of "Suc i" ?s] Suc.hyps(2) Suc.prems by simp
  also have "linked (base + i) (base + (n - 1)) ?s = linked (base + (i - 1)) (base + (n - 1)) s"
  proof -
    have j: "base + (i - 1) < base + (n - 1)" "base + i = Suc (base + (i - 1))" using Suc.hyps(2) Suc.prems(1) by auto
    show ?thesis unfolding j(2) by (rule linked_step [OF j(1) c])
  qed
  finally show ?case .
qed

text \<open>
  A new symbol comes from the free list or from a new block, of which 84 symbols are linked; no symbol that
  exists and is not free changes.
\<close>

lemma new_symbol_run:
  assumes F: "free_at (symbols s) (sym_free s) F" "distinct F" and lim: "\<And>a. symbols s a \<noteq> None \<Longrightarrow> a < sym_limit s"
  obtains new s' F' where "new_symbol s = Inr (new, s')" "free_at (symbols s') (sym_free s') F'" "distinct F'" "new \<notin> set F'"
    "symbols s' new \<noteq> None" "\<And>a. a \<in> insert new (set F') \<Longrightarrow> symbols s a = None \<or> a \<in> set F"
    "\<And>a. symbols s a \<noteq> None \<Longrightarrow> symbols s' a = symbols s a" "\<And>a. symbols s' a \<noteq> None \<Longrightarrow> a < sym_limit s'"
    "s' = s\<lparr>symbols := symbols s', sym_free := sym_free s', sym_limit := sym_limit s'\<rparr>"
proof (cases F)
  case (Cons a G)
  then obtain c where c: "sym_free s = Some a" "symbols s a = Some c" "free_at (symbols s) (sym_next c) G" using F(1) by auto
  show ?thesis
  proof (rule that [of a "s\<lparr>sym_free := sym_next c\<rparr>" G])
    show "new_symbol s = Inr (a, s\<lparr>sym_free := sym_next c\<rparr>)"
      using c by (simp add: new_symbol_def bindM_def getM_def get_sym_def modifyM_def ret_def)
  qed (use c Cons F(2) lim in auto)
next
  case Nil
  let ?b = "sym_limit s"
  let ?s1 = "s\<lparr>sym_limit := ?b + 85, symbols := (\<lambda>a. if ?b \<le> a \<and> a < ?b + 85 then Some (zero_symbol s) else symbols s a)\<rparr>"
  let ?s2 = "?s1\<lparr>sym_free := Some ?b, symbols := (symbols ?s1)(?b \<mapsto> (zero_symbol s)\<lparr>sym_next := Some ?b\<rparr>)\<rparr>"
  let ?s3 = "linked ?b (?b + 83) ?s2"
  let ?s4 = "?s3\<lparr>symbols := (symbols ?s3)(?b + 83 \<mapsto> (zero_symbol s)\<lparr>sym_next := None\<rparr>)\<rparr>"
  let ?s5 = "?s4\<lparr>sym_free := Some (?b + 1)\<rparr>"
  have free: "sym_free s = None" using F(1) Nil by simp
  have run: "link_block ?b [1..<84] ?b ?s2 = Inr (?b + 83, ?s3)"
    using link_block_run [of 1 84 ?b ?s2] by simp
  have upt: "[0..<84] = 0 # [1..<84]" by (simp add: upt_conv_Cons)
  have "link_block ?b [0..<84] ?b (?s1\<lparr>sym_free := Some ?b\<rparr>) = link_block ?b [1..<84] ?b ?s2"
    unfolding upt by (simp add: bindM_def upd_sym_def)
  then have link: "link_block ?b [0..<84] ?b (?s1\<lparr>sym_free := Some ?b\<rparr>) = Inr (?b + 83, ?s3)" using run by simp
  have s3: "symbols ?s3 (?b + 83) = Some (zero_symbol s)" "symbols ?s4 ?b = Some ((zero_symbol s)\<lparr>sym_next := Some (?b + 1)\<rparr>)"
    by (simp_all add: linked_def)
  have none: "symbols s a = None" if "?b \<le> a" for a using lim [of a] that by force
  show ?thesis
  proof (rule that [of ?b ?s5 "[?b + 1..<?b + 84]"])
    show "new_symbol s = Inr (?b, ?s5)"
      using free link s3
      by (simp add: new_symbol_def bindM_def getM_def get_sym_def modifyM_def ret_def HeapNewSymbols_def symbol_blocks_def
          upd_sym_def del: link_block.simps upt_Suc)
    have "free_at (symbols ?s5) (Some (?b + 1)) [?b + 1..<?b + 84]" by (rule free_at_upt) (auto simp: linked_def)
    then show "free_at (symbols ?s5) (sym_free ?s5) [?b + 1..<?b + 84]" by simp
    show "symbols ?s5 ?b \<noteq> None" using s3(2) by simp
    show "symbols s a = None \<or> a \<in> set F" if "a \<in> insert ?b (set [?b + 1..<?b + 84])" for a
      using none [of a] that by auto
    show "symbols ?s5 a = symbols s a" if "symbols s a \<noteq> None" for a
      using lim [OF that] by (simp add: linked_def)
    show "a < sym_limit ?s5" if "symbols ?s5 a \<noteq> None" for a
      using that lim [of a] by (auto simp: linked_def split: if_splits)
    show "?s5 = s\<lparr>symbols := symbols ?s5, sym_free := sym_free ?s5, sym_limit := sym_limit ?s5\<rparr>"
      by (simp add: linked_def)
  qed simp_all
qed

subsection \<open>One entry rewritten\<close>

lemma at_handle_fields [simp]:
  "Level (at_handle t b h p s) = Level s" "current_version (at_handle t b h p s) = current_version s"
  "sym_limit (at_handle t b h p s) = sym_limit s" "world (at_handle t b h p s) = world s"
  "sym_free (at_handle t b h p s) = sym_free s" "table_list (at_handle t b h p s) = table_list s"
  "next_table (at_handle t b h p s) = next_table s" "syntax_errors (at_handle t b h p s) = syntax_errors s"
  "kind (tables (at_handle t b h p s) t') = kind (tables s t')"
  "scopes (tables (at_handle t b h p s) t') = scopes (tables s t')"
  "shadow_proc (tables (at_handle t b h p s) t') = shadow_proc (tables s t')"
  "exitscope_proc (tables (at_handle t b h p s) t') = exitscope_proc (tables s t')"
  by (simp_all add: at_handle_def split: handle.split)

lemma at_handle_symbols:
  "symbols (at_handle t b (handle_of (Bucket t b) B1) r s) a =
     (if B1 \<noteq> [] \<and> a = hd (snd (last B1)) then map_option (sym_next_update (\<lambda>_. r)) (symbols s a) else symbols s a)"
  by (simp add: at_handle_def handle_of_def)

lemma at_handle_buckets:
  "buckets (tables (at_handle t b (handle_of (Bucket t b) B1) r s) t') b' =
     (if t' = t \<and> b' = b \<and> B1 = [] then r else buckets (tables s t') b')"
  by (simp add: at_handle_def handle_of_def)

definition spliced :: "nat \<Rightarrow> nat \<Rightarrow> chain \<Rightarrow> sptr \<Rightarrow> nat list \<Rightarrow> nat \<Rightarrow> 'v Symbol option \<Rightarrow> ('v, 'u) Syms \<Rightarrow> ('v, 'u) Syms" where
  "spliced t b B1 r ds x y s =
     (let s2 = at_handle t b (handle_of (Bucket t b) B1) r (fold freed ds s) in s2\<lparr>symbols := (symbols s2)(x := y)\<rparr>)"

lemma fold_freed_fields [simp]:
  "Level (fold freed ds s) = Level s" "current_version (fold freed ds s) = current_version s"
  "tables (fold freed ds s) = tables s" "sym_limit (fold freed ds s) = sym_limit s" "world (fold freed ds s) = world s"
  "next_table (fold freed ds s) = next_table s" "table_list (fold freed ds s) = table_list s"
  "syntax_errors (fold freed ds s) = syntax_errors s"
  by (induction ds arbitrary: s) simp_all

lemma fold_freed_symbols:
  "a \<notin> set ds \<Longrightarrow> symbols (fold freed ds s) a = symbols s a"
  "map_option unlinked (symbols (fold freed ds s) a) = map_option unlinked (symbols s a)"
proof -
  show "a \<notin> set ds \<Longrightarrow> symbols (fold freed ds s) a = symbols s a"
    by (induction ds arbitrary: s) simp_all
  have "map_option unlinked (symbols (freed d s) a) = map_option unlinked (symbols s a)" for d and s :: "('a, 'b) Syms"
    by (cases "a = d"; cases "symbols s a") (simp_all add: freed_def)
  then show "map_option unlinked (symbols (fold freed ds s) a) = map_option unlinked (symbols s a)"
    by (induction ds arbitrary: s) simp_all
qed

lemma spliced_fields [simp]:
  "Level (spliced t b B1 r ds x y s) = Level s" "current_version (spliced t b B1 r ds x y s) = current_version s"
  "sym_limit (spliced t b B1 r ds x y s) = sym_limit s" "world (spliced t b B1 r ds x y s) = world s"
  "sym_free (spliced t b B1 r ds x y s) = sym_free (fold freed ds s)" "table_list (spliced t b B1 r ds x y s) = table_list s"
  "next_table (spliced t b B1 r ds x y s) = next_table s" "syntax_errors (spliced t b B1 r ds x y s) = syntax_errors s"
  "kind (tables (spliced t b B1 r ds x y s) t') = kind (tables s t')"
  "scopes (tables (spliced t b B1 r ds x y s) t') = scopes (tables s t')"
  "shadow_proc (tables (spliced t b B1 r ds x y s) t') = shadow_proc (tables s t')"
  "exitscope_proc (tables (spliced t b B1 r ds x y s) t') = exitscope_proc (tables s t')"
  by (simp_all add: spliced_def Let_def)

lemma spliced_same:
  assumes "map_option unlinked y = map_option unlinked (symbols s x)"
  shows "same_but {} s (spliced t b B1 r ds x y s)"
proof -
  have "map_option unlinked (symbols (at_handle t b (handle_of (Bucket t b) B1) r (fold freed ds s)) a)
      = map_option unlinked (symbols s a)" for a
  proof -
    have "map_option unlinked (map_option (sym_next_update (\<lambda>_. r)) z) = map_option unlinked z" for z :: "'a Symbol option"
      by (cases z) simp_all
    then show ?thesis using fold_freed_symbols(2) [of ds s] by (simp add: at_handle_symbols)
  qed
  then show ?thesis using assms by (simp add: same_but_def) (simp add: spliced_def Let_def)
qed

lemma spliced_shape:
  assumes inv: "shape_inv s B F" and split: "B t b = B1 @ (n, ds @ rest) # B2" and hd: "symbols s (hd (ds @ rest)) = Some c"
    and X: "\<And>t b. X \<inter> set (addresses (B t b)) = {}" "X \<inter> set F = {}" "\<And>a. a \<in> X \<Longrightarrow> symbols s a \<noteq> None"
    and es: "distinct es" "set es \<subseteq> set rest \<union> X"
    and x: "if es = [] then x \<in> set ds \<and> y = symbols (fold freed ds s) x \<and> r = sym_next c
       else x = hd es \<and> (\<exists>d. y = Some d \<and> sym_next d = sym_next c) \<and> shadows_at ((symbols s)(x := y)) n r es"
  shows "shape_inv (spliced t b B1 r ds x y s) (B(t := (B t)(b := B1 @ (if es = [] then [] else [(n, es)]) @ B2))) (rev ds @ F)"
proof -
  let ?s = "spliced t b B1 r ds x y s"
  have F: "set F \<inter> set (addresses (B t b)) = {}" for t b by (rule shape_invD(8) [OF inv])
  have dist: "distinct (addresses (B1 @ (n, ds @ rest) # B2))" using shape_invD(4) [OF inv, of t b] by (simp add: split)
  have sub: "set (addresses B1) \<union> (set ds \<union> set rest) \<union> set (addresses B2) = set (addresses (B t b))" by (auto simp: split)
  have cell: "symbols s a \<noteq> None" if "a \<in> set ds \<union> set rest" for a
    using chain_cells [OF shape_invD(1) [OF inv, of t b], of a] that sub by blast
  have xin: "x \<in> set ds \<union> set rest \<union> X" 
  proof (cases "es = []")
    case False
    then have "hd es \<in> set rest \<union> X" using es(2) hd_in_set by blast
    with False x show ?thesis by auto
  qed (use x in simp)
  have B1: "hd (snd (last B1)) \<in> set (addresses B1)" if "B1 \<noteq> []"
  proof -
    obtain q where "chain_at (symbols s) (buckets (tables s t) b) B1 q"
      using shape_invD(1) [OF inv, of t b] by (auto simp: split chain_at_append)
    then show ?thesis using last_head [OF _ that] by blast
  qed
  have apart: "a \<notin> set ds \<union> set rest \<union> X \<union> set F" if "a \<in> set (addresses B1)" for a
    using that dist X(1) [of t b] F [of t b] sub by auto
  have sym: "symbols ?s a = symbols s a" if "a \<notin> set ds \<union> {x}" "B1 = [] \<or> a \<noteq> hd (snd (last B1))" for a
    using that fold_freed_symbols(1) [of a ds s] by (auto simp: spliced_def Let_def at_handle_symbols)
  have symx: "symbols ?s x = y" by (simp add: spliced_def Let_def)
  have "set rest \<inter> set ds = {}" using dist by auto
  then have es_ds: "set es \<inter> set ds = {}" using es(2) X(1) [of t b] sub by blast
  have "set es \<inter> set F = {}" using es(2) X(2) F [of t b] sub by blast
  with es_ds have es_free: "set es \<inter> set (rev ds @ F) = {}" by auto
  have ds_F: "set ds \<inter> set F = {}" using F [of t b] sub by auto
  note fr = freed_all [OF _ _ shape_invD(6) [OF inv] ds_F]
  have free0: "free_at (symbols (fold freed ds s)) (sym_free (fold freed ds s)) (rev ds @ F)"
    by (rule fr(1)) (use dist cell in auto)
  have free: "free_at (symbols ?s) (sym_free ?s) (rev ds @ F)"
  proof -
    have "free_at (symbols ?s) p (rev ds @ F) = free_at (symbols (fold freed ds s)) p (rev ds @ F)" for p
    proof (rule free_at_cong)
      fix a assume a: "a \<in> set (rev ds @ F)"
      then have "\<not> (B1 \<noteq> [] \<and> a = hd (snd (last B1)))" using B1 apart by auto
      moreover have "y = symbols (fold freed ds s) x" if "a = x"
      proof (cases "es = []")
        case False
        then have "hd es \<in> set es" "x = hd es" using x by simp_all
        then show ?thesis using a es_free that by blast
      qed (use x in simp)
      ultimately show "symbols ?s a = symbols (fold freed ds s) a"
        by (auto simp: spliced_def Let_def at_handle_symbols)
    qed
    then show ?thesis using free0 by simp
  qed
  show ?thesis
  proof (rule shape_entry [OF inv split hd, where X = X and r = r])
    show "buckets (tables ?s t') b' = (if t' = t \<and> b' = b \<and> B1 = [] then r else buckets (tables s t') b')" for t' b'
      by (simp add: spliced_def Let_def at_handle_buckets)
    show "symbols ?s a = symbols s a" if "a \<notin> set (ds @ rest) \<union> X \<union> set F" "B1 = [] \<or> a \<noteq> hd (snd (last B1))" for a
      by (rule sym) (use that xin in auto)
    show "symbols ?s (hd (snd (last B1))) = map_option (sym_next_update (\<lambda>_. r)) (symbols s (hd (snd (last B1))))" if "B1 \<noteq> []"
    proof -
      have "hd (snd (last B1)) \<notin> set ds" "hd (snd (last B1)) \<noteq> x" using apart [OF B1 [OF that]] xin by auto
      then show ?thesis using that fold_freed_symbols(1) [of "hd (snd (last B1))" ds s]
        by (simp add: spliced_def Let_def at_handle_symbols)
    qed
    show "if es = [] then r = sym_next c else shadows_at (symbols ?s) n r es \<and> (\<exists>d. symbols ?s (hd es) = Some d \<and> sym_next d = sym_next c)"
    proof (cases "es = []")
      case False
      have "shadows_at (symbols ?s) n r es = shadows_at ((symbols s)(x := y)) n r es"
      proof (rule shadows_at_cong)
        fix a assume a: "a \<in> set es"
        then have "a \<notin> set ds" "B1 = [] \<or> a \<noteq> hd (snd (last B1))" using es_ds es(2) B1 apart by blast+
        then show "symbols ?s a = ((symbols s)(x := y)) a" using sym [of a] symx by (cases "a = x") auto
      qed
      moreover have "x = hd es" "\<exists>d. y = Some d \<and> sym_next d = sym_next c" "shadows_at ((symbols s)(x := y)) n r es"
        using x unfolding if_not_P [OF False] by blast+
      ultimately show ?thesis using False symx by metis
    qed (use x in simp)
    show "set es \<subseteq> set (ds @ rest) \<union> X" using es(2) by auto
    show "distinct (rev ds @ F)" using dist shape_invD(7) [OF inv] ds_F by auto
    show "set (rev ds @ F) \<inter> set es = {}" using es_free by blast
    show "a < sym_limit ?s" if "symbols ?s a \<noteq> None" for a
    proof -
      have "symbols s a \<noteq> None"
      proof (cases "a = x")
        case True
        then show ?thesis using xin cell X(3) by blast
      next
        case False
        have "map_option unlinked (symbols (spliced t b B1 r ds x (symbols s x) s) a) = map_option unlinked (symbols s a)"
          by (rule same_butD(1) [OF spliced_same [OF refl]]) simp
        then have "map_option unlinked (symbols ?s a) = map_option unlinked (symbols s a)"
          using False by (simp add: spliced_def Let_def)
        then show ?thesis using that by (cases "symbols s a") auto
      qed
      then show ?thesis using shape_invD(9) [OF inv] by auto
    qed
  qed (use es(1) X(1) free in auto)
qed

lemma alive_scope:
  assumes "scope_inv s F S" "0 < l" "a \<in> set (S t l)"
  shows "alive s a"
proof -
  obtain c where "l \<le> Level s" "symbols s a = Some c" "sym_level c = l" "sym_version c = current_version s l"
    using assms unfolding scope_inv_def by blast
  then show ?thesis by (simp add: alive_def stale_def)
qed

lemma scoped_same:
  assumes "same_but {} s s'" "entry n (B' t (hash n)) = entry n (B t (hash n))"
  shows "scoped s' B' t n = scoped s B t n"
proof -
  have a: "alive s' a = alive s a" "lev s' a = lev s a" for a using same_but_contents [OF assms(1)] by simp_all
  have "sym_var (the (symbols s' a)) = sym_var (the (symbols s a))" if al: "alive s a" for a
  proof -
    obtain c where c: "symbols s a = Some c" using al by (auto simp: alive_def)
    then obtain d where "symbols s' a = Some d" "unlinked d = unlinked c" using same_but_cell [OF assms(1)] by blast
    with c show ?thesis using unlinked_fields(2) by simp
  qed
  moreover have "alive s' = alive s" by (rule ext) (rule a(1))
  ultimately show ?thesis using assms(2) by (simp add: scoped_def a(2))
qed

lemma spliced_inv:
  assumes inv: "sym_inv s B F S" and split: "B t (hash n) = B1 @ (n, ds @ rest) # B2" and hd: "symbols s (hd (ds @ rest)) = Some c"
    and ds: "\<And>a. a \<in> set ds \<Longrightarrow> dead s a"
    and X: "\<And>t b. X \<inter> set (addresses (B t b)) = {}" "X \<inter> set F = {}" "\<And>a. a \<in> X \<Longrightarrow> symbols s a \<noteq> None"
    and es: "distinct es" "set es \<subseteq> set rest \<union> X" "sorted_wrt (nested s) es" "\<And>a. a \<in> set es \<Longrightarrow> dated s t a"
    and x: "if es = [] then x \<in> set ds \<and> y = symbols (fold freed ds s) x \<and> r = sym_next c
       else x = hd es \<and> (\<exists>d. y = Some d \<and> sym_next d = sym_next c) \<and> shadows_at ((symbols s)(x := y)) n r es"
    and y: "map_option unlinked y = map_option unlinked (symbols s x)"
  defines "B' \<equiv> B(t := (B t)(hash n := B1 @ (if es = [] then [] else [(n, es)]) @ B2))"
  shows "sym_inv (spliced t (hash n) B1 r ds x y s) B' (rev ds @ F) S"
    "scoped (spliced t (hash n) B1 r ds x y s) B' t' m =
      (if t' = t \<and> m = n then map (\<lambda>a. (lev s a, sym_var (the (symbols s a)))) (filter (alive s) es) else scoped s B t' m)"
    "entry n (B' t (hash n)) = es"
proof -
  let ?s = "spliced t (hash n) B1 r ds x y s"
  let ?C = "B1 @ (if es = [] then [] else [(n, es)]) @ B2"
  have shape: "shape_inv s B F" and cont: "content_inv s B" and scope: "scope_inv s F S" using inv by (simp_all add: sym_inv_def)
  have same: "same_but {} s ?s" by (rule spliced_same [OF y])
  have 1: "shape_inv ?s B' (rev ds @ F)" unfolding B'_def by (rule spliced_shape [OF shape split hd X es(1,2) x])
  have 2: "content_inv ?s B'" unfolding B'_def
  proof (rule content_change [OF cont same])
    fix e assume e: "e \<in> set ?C"
    show "sorted_wrt (nested ?s) (snd e) \<and> (\<forall>a \<in> set (snd e). dated ?s t a)"
    proof (cases "e = (n, es)")
      case True
      then show ?thesis using es(3,4) same_but_nested [OF same, of es] same_but_contents(3) [OF same] by simp
    next
      case False
      then have "e \<in> set (B t (hash n))" using e by (auto simp: split split: if_splits)
      then have "sorted_wrt (nested s) (snd e) \<and> (\<forall>a \<in> set (snd e). dated s t a)" using cont by (simp add: content_inv_def)
      then show ?thesis using same_but_nested [OF same, of "snd e"] same_but_contents(3) [OF same] by simp
    qed
  qed simp
  have 3: "scope_inv ?s (rev ds @ F) S"
  proof (rule scope_change [OF scope same])
    show "a \<notin> set (rev ds @ F)" if "0 < l" "a \<in> set (S t l)" for t l a
    proof -
      have "alive s a" by (rule alive_scope [OF scope that])
      then have "a \<notin> set ds" using ds [of a] by (auto simp: alive_def dead_def)
      moreover have "a \<notin> set F" using scope that unfolding scope_inv_def by blast
      ultimately show ?thesis by simp
    qed
  qed simp_all
  show "sym_inv ?s B' (rev ds @ F) S" using 1 2 3 by (simp add: sym_inv_def)
  have dist: "distinct (map fst (B1 @ (n, ds @ rest) # B2))" using shape_invD(2) [OF shape, of t "hash n"] by (simp add: split)
  show new: "entry n (B' t (hash n)) = es"
    using dist entry_split(2) [OF dist] by (auto simp: B'_def entry_append entry_absent)
  have old: "entry m (B' t' (hash m)) = entry m (B t' (hash m))" if "\<not> (t' = t \<and> m = n)"
  proof (cases "t' = t \<and> hash m = hash n")
    case True
    then have "m \<noteq> n" using that by blast
    then show ?thesis using True entry_split(3,4) [OF dist, of m] by (simp add: B'_def split)
  next
    case False
    then have "B' t' (hash m) = B t' (hash m)" by (auto simp: B'_def)
    then show ?thesis by simp
  qed
  show "scoped ?s B' t' m = (if t' = t \<and> m = n then map (\<lambda>a. (lev s a, sym_var (the (symbols s a)))) (filter (alive s) es) else scoped s B t' m)"
  proof (cases "t' = t \<and> m = n")
    case False
    then show ?thesis using scoped_same [OF same, of m B' t' B] old by auto
  next
    case True
    let ?B = "B(t := (B t)(hash n := [(n, es)]))"
    have "scoped ?s B' t n = scoped s ?B t n" by (rule scoped_same [OF same]) (simp add: new)
    then show ?thesis using True by (simp add: scoped_def)
  qed
qed

subsection \<open>Look-up\<close>

definition kept :: "('v, 'u) Syms \<Rightarrow> ('v, 'u) Syms \<Rightarrow> bool" where
  "kept s s' \<longleftrightarrow> Level s' = Level s \<and> current_version s' = current_version s \<and> table_list s' = table_list s \<and> world s' = world s
     \<and> next_table s' = next_table s \<and> syntax_errors s' = syntax_errors s \<and> (\<forall>t. kind (tables s' t) = kind (tables s t) \<and> scopes (tables s' t) = scopes (tables s t)
       \<and> shadow_proc (tables s' t) = shadow_proc (tables s t) \<and> exitscope_proc (tables s' t) = exitscope_proc (tables s t))"

lemma kept_refl [simp]: "kept s s"
  by (simp add: kept_def)

lemma kept_spliced [simp]: "kept s (spliced t b B1 r ds x y s)"
  by (simp add: kept_def)

lemma entry_facts:
  assumes inv: "sym_inv s B F S" and split: "B t (hash n) = B1 @ (n, as) # B2"
  obtains c ds where "symbols s (hd as) = Some c" "as = ds @ filter (alive s) as" "\<And>a. a \<in> set ds \<Longrightarrow> dead s a" "as \<noteq> []" "distinct as"
    "find_name n (Bucket t (hash n)) (buckets (tables s t) (hash n)) s = Some (Inr (Some (handle_of (Bucket t (hash n)) B1, hd as), s))"
    "drop_stale (Some (hd as)) s = Some (Inr (head_of (filter (alive s) as), fold freed ds s))"
    "\<exists>q. chain_at (symbols (fold freed ds s)) (buckets (tables s t) (hash n)) B1 q"
    "shadows_at (symbols s) n (head_of (filter (alive s) as)) (filter (alive s) as)"
    "sorted_wrt (nested s) (filter (alive s) as)" "\<And>a. a \<in> set as \<Longrightarrow> dated s t a"
    "\<And>a. a \<in> set ds \<union> set (filter (alive s) as) \<Longrightarrow> a \<notin> set (addresses B1)"
proof -
  have shape: "shape_inv s B F" and cont: "content_inv s B" using inv by (simp_all add: sym_inv_def)
  have chain: "chain_at (symbols s) (buckets (tables s t) (hash n)) (B1 @ (n, as) # B2) None"
    and dist: "distinct (map fst (B1 @ (n, as) # B2))" "distinct (addresses (B1 @ (n, as) # B2))"
    using shape_invD(1,2,4) [OF shape, of t "hash n"] by (simp_all add: split)
  obtain r where r: "chain_at (symbols s) (buckets (tables s t) (hash n)) B1 r" "as \<noteq> []" "shadows_at (symbols s) n r as"
    using chain by (auto simp: chain_at_append)
  obtain c where c: "r = Some (hd as)" "symbols s (hd as) = Some c" using shadows_at_hd [OF r(3,2)] by blast
  have in1: "(n, as) \<in> set (B t (hash n))" by (simp add: split)
  have sub: "set as \<subseteq> set (addresses (B t (hash n)))" by (auto simp: split)
  have cells: "symbols s a \<noteq> None" if "a \<in> set as" for a
    using chain_cells [OF shape_invD(1) [OF shape, of t "hash n"], of a] that sub by blast
  let ?ds = "takeWhile (dead s) as"
  have live: "dropWhile (dead s) as = filter (alive s) as"
    by (rule dropWhile_alive [OF content_invD(1) [OF cont in1] cells])
  have as: "as = ?ds @ filter (alive s) as" using live takeWhile_dropWhile_id [of "dead s" as] by simp
  have find: "find_name n (Bucket t (hash n)) (buckets (tables s t) (hash n)) s = Some (Inr (Some (handle_of (Bucket t (hash n)) B1, hd as), s))"
    by (rule find_name_run [OF chain]) (use dist(1) in auto)
  have drop: "drop_stale (Some (hd as)) s = Some (Inr (head_of (filter (alive s) as), fold freed ?ds s))"
    using drop_stale_run [OF r(3)] dist(2) c(1) live by simp
  have ap: "a \<notin> set (addresses B1)" if "a \<in> set as" for a using that dist(2) by auto
  have "chain_at (symbols (fold freed ?ds s)) (buckets (tables s t) (hash n)) B1 r
      = chain_at (symbols s) (buckets (tables s t) (hash n)) B1 r"
  proof (rule chain_at_cong)
    fix a assume "a \<in> set (addresses B1)"
    then have "a \<notin> set ?ds" using ap set_takeWhileD by metis
    then show "symbols (fold freed ?ds s) a = symbols s a" by (rule fold_freed_symbols(1))
  qed
  then have ch: "\<exists>q. chain_at (symbols (fold freed ?ds s)) (buckets (tables s t) (hash n)) B1 q" using r(1) by blast
  have "shadows_at h n p (ds @ es) \<Longrightarrow> es \<noteq> [] \<Longrightarrow> shadows_at h n (Some (hd es)) es" for h :: "nat \<Rightarrow> 'a Symbol option" and p ds es
    by (induction ds arbitrary: p) (auto dest: shadows_at_hd)
  then have sh: "shadows_at (symbols s) n (head_of (filter (alive s) as)) (filter (alive s) as)"
    using r(3) as by (metis head_of_def list.case(1) list.case(2) list.collapse shadows_at.simps(1))
  show ?thesis
  proof (rule that [OF c(2) as _ r(2) _ find drop ch sh])
    show "dead s a" if "a \<in> set ?ds" for a using that by (auto dest: set_takeWhileD)
    show "distinct as" using dist(2) by simp
    show "sorted_wrt (nested s) (filter (alive s) as)" by (rule sorted_wrt_filter [OF content_invD(1) [OF cont in1]])
    show "dated s t a" if "a \<in> set as" for a by (rule content_invD(2) [OF cont in1 that])
    show "a \<notin> set (addresses B1)" if "a \<in> set ?ds \<union> set (filter (alive s) as)" for a
      using ap [of a] that by (auto dest: set_takeWhileD)
  qed
qed

lemma handle_run:
  assumes "chain_at (symbols (fold freed ds s)) (buckets (tables s t) b) B1 q"
  shows "set_handle (handle_of (Bucket t b) B1) r (fold freed ds s) = Inr ((), at_handle t b (handle_of (Bucket t b) B1) r (fold freed ds s))"
  by (rule set_handle_run) (use assms in simp)

lemma chain_last: "chain_at h p B1 q \<Longrightarrow> a \<notin> set (addresses B1) \<Longrightarrow> B1 = [] \<or> a \<noteq> hd (snd (last B1))"
  using last_head by blast

lemma at_handle_other:
  assumes "chain_at (symbols (fold freed ds s)) (buckets (tables s t) b) B1 q" "a \<notin> set (addresses B1)"
  shows "symbols (at_handle t b (handle_of (Bucket t b) B1) r (fold freed ds s)) a = symbols (fold freed ds s) a"
  using chain_last [OF assms] by (auto simp: at_handle_symbols)

lemma upd_trivial: "symbols s a = z \<Longrightarrow> s\<lparr>symbols := (symbols s)(a := z)\<rparr> = s"
  by auto

lemma stale_fold_freed [simp]: "stale (fold freed ds s) c = stale s c"
  by (simp add: stale_def)

text \<open>
  A look-up finds the innermost living declaration; it drops the stale ones but does not change what the
  tables say of any name.
\<close>

lemma LookupSymbol_run:
  assumes inv: "sym_inv s B F S"
  obtains B' F' s' where
    "LookupSymbol t n s = Some (Inr (case scoped s B t n of [] \<Rightarrow> None | x # _ \<Rightarrow> Some (snd x), s'))"
    "sym_inv s' B' F' S" "scoped s' B' = scoped s B" "kept s s'" "same_but {} s s'"
    "\<And>a. a \<in> set (entry n (B' t (hash n))) \<Longrightarrow> alive s a"
proof (cases "n \<in> fst ` set (B t (hash n))")
  case False
  have shape: "shape_inv s B F" using inv by (simp add: sym_inv_def)
  have "find_name n (Bucket t (hash n)) (buckets (tables s t) (hash n)) s = Some (Inr (None, s))"
    by (rule find_name_absent [OF shape_invD(1) [OF shape] False])
  moreover have "scoped s B t n = []" using entry_absent [OF False] by (simp add: scoped_def)
  ultimately show ?thesis
    using that [of s B F] inv entry_absent [OF False] by (simp add: LookupSymbol_def bindL_def liftL_def getM_def retL_def ret_def same_but_def)
next
  case True
  obtain B1 as B2 where split: "B t (hash n) = B1 @ (n, as) # B2" by (rule entry_found [OF True])
  obtain c ds where c: "symbols s (hd as) = Some c" and as: "as = ds @ filter (alive s) as" and ds: "\<And>a. a \<in> set ds \<Longrightarrow> dead s a"
    and ne: "as \<noteq> []" "distinct as"
    and find: "find_name n (Bucket t (hash n)) (buckets (tables s t) (hash n)) s = Some (Inr (Some (handle_of (Bucket t (hash n)) B1, hd as), s))"
    and drop: "drop_stale (Some (hd as)) s = Some (Inr (head_of (filter (alive s) as), fold freed ds s))"
    and ch: "\<exists>q. chain_at (symbols (fold freed ds s)) (buckets (tables s t) (hash n)) B1 q"
    and sh: "shadows_at (symbols s) n (head_of (filter (alive s) as)) (filter (alive s) as)"
    and srt: "sorted_wrt (nested s) (filter (alive s) as)" and dat: "\<And>a. a \<in> set as \<Longrightarrow> dated s t a"
    and ap: "\<And>a. a \<in> set ds \<union> set (filter (alive s) as) \<Longrightarrow> a \<notin> set (addresses B1)"
    by (rule entry_facts [OF inv split]) blast
  obtain q where q: "chain_at (symbols (fold freed ds s)) (buckets (tables s t) (hash n)) B1 q" using ch by blast
  define es where "es = filter (alive s) as"
  have dist: "distinct (map fst (B1 @ (n, as) # B2))"
    using inv shape_invD(2) [of s B F t "hash n"] by (simp add: sym_inv_def split)
  have sc: "scoped s B t n = map (\<lambda>a. (lev s a, sym_var (the (symbols s a)))) es"
    using entry_split(1) [OF dist] by (simp add: scoped_def split es_def)
  have hd: "symbols s (hd (ds @ es)) = Some c" using c as by (simp add: es_def)
  have split': "B t (hash n) = B1 @ (n, ds @ es) # B2" using split as by (simp add: es_def)
  have filt: "filter (alive s) es = es" by (simp add: es_def)
  have same: "scoped s' B' = scoped s B"
    if "\<And>t' m. scoped s' B' t' m = (if t' = t \<and> m = n then map (\<lambda>a. (lev s a, sym_var (the (symbols s a)))) (filter (alive s) es) else scoped s B t' m)"
    for s' B' using that sc filt by (auto simp: fun_eq_iff)
  show ?thesis
  proof (cases es)
    case Nil
    then have "ds \<noteq> []" "hd ds = hd as" using as ne(1) by (auto simp: es_def)
    let ?s = "spliced t (hash n) B1 (sym_next c) ds (hd ds) (symbols (fold freed ds s) (hd ds)) s"
    have "at_handle t (hash n) (handle_of (Bucket t (hash n)) B1) (sym_next c) (fold freed ds s) = ?s"
      unfolding spliced_def Let_def
      by (rule upd_trivial [symmetric], rule at_handle_other [OF q], rule ap) (use \<open>ds \<noteq> []\<close> in simp)
    then have run: "LookupSymbol t n s = Some (Inr (None, ?s))"
      using find drop Nil handle_run [OF q, of "sym_next c"] c
      by (simp add: LookupSymbol_def bindL_def liftL_def getM_def retL_def ret_def get_sym_def es_def [symmetric] head_of_def)
    show ?thesis
    proof (rule that)
      show "LookupSymbol t n s = Some (Inr (case scoped s B t n of [] \<Rightarrow> None | x # _ \<Rightarrow> Some (snd x), ?s))"
        using run sc Nil by simp
      show "sym_inv ?s (B(t := (B t)(hash n := B1 @ (if es = [] then [] else [(n, es)]) @ B2))) (rev ds @ F) S"
        by (rule spliced_inv(1) [OF inv split' hd ds, where X = "{}"]) (use Nil \<open>ds \<noteq> []\<close> fold_freed_symbols(2) in auto)
      show "scoped ?s (B(t := (B t)(hash n := B1 @ (if es = [] then [] else [(n, es)]) @ B2))) = scoped s B"
        by (rule same, rule spliced_inv(2) [OF inv split' hd ds, where X = "{}"]) (use Nil \<open>ds \<noteq> []\<close> fold_freed_symbols(2) in auto)
      show "same_but {} s ?s" by (rule spliced_same) (rule fold_freed_symbols(2))
      have "entry n ((B(t := (B t)(hash n := B1 @ (if es = [] then [] else [(n, es)]) @ B2))) t (hash n)) = es"
        by (rule spliced_inv(3) [OF inv split' hd ds, where X = "{}" and x = "hd ds" and y = "symbols (fold freed ds s) (hd ds)" and r = "sym_next c"]) (use Nil \<open>ds \<noteq> []\<close> fold_freed_symbols(2) in auto)
      then show "alive s a" if "a \<in> set (entry n ((B(t := (B t)(hash n := B1 @ (if es = [] then [] else [(n, es)]) @ B2))) t (hash n)))" for a
        using that Nil by simp
    qed simp
  next
    case (Cons b es')
    then have al: "alive s b" "b \<notin> set ds" using filt ne(2) as by (auto simp: es_def [symmetric] filter_eq_Cons_iff)
    then obtain d where d: "symbols s b = Some d" "\<not> stale s d" by (auto simp: alive_def)
    have d1: "symbols (fold freed ds s) b = Some d" using d(1) fold_freed_symbols(1) [OF al(2), of s] by simp
    let ?y = "Some (d\<lparr>sym_next := sym_next c\<rparr>)"
    let ?s = "spliced t (hash n) B1 (Some b) ds b ?y s"
    have b1: "b \<notin> set (addresses B1)" using ap [of b] Cons by (simp add: es_def [symmetric])
    have d2: "symbols (at_handle t (hash n) (handle_of (Bucket t (hash n)) B1) (Some b) (fold freed ds s)) b = Some d"
      using at_handle_other [OF q b1] d1 by simp
    have run: "LookupSymbol t n s = Some (Inr (Some (sym_var d), ?s))"
      using find drop Cons handle_run [OF q, of "Some b"] c d1 d2 d(2)
      by (simp add: LookupSymbol_def bindL_def bindM_def liftL_def getM_def retL_def get_sym_def es_def [symmetric] head_of_def
          assertM_def guardM_def upd_sym_def ret_def spliced_def Let_def)
    have "shadows_at ((symbols s)(b := ?y)) n (Some b) es = shadows_at (symbols s) n (Some b) es"
      by (rule shadows_at_next) (use d(1) in simp)
    then have sh': "shadows_at ((symbols s)(b := ?y)) n (Some b) es" using sh Cons by (simp add: es_def [symmetric] head_of_def)
    have es: "distinct es" "set es \<subseteq> set es \<union> {}" "sorted_wrt (nested s) es" "\<And>a. a \<in> set es \<Longrightarrow> dated s t a"
      using ne(2) srt dat by (auto simp: es_def)
    have x: "if es = [] then b \<in> set ds \<and> ?y = symbols (fold freed ds s) b \<and> Some b = sym_next c
       else b = hd es \<and> (\<exists>d. ?y = Some d \<and> sym_next d = sym_next c) \<and> shadows_at ((symbols s)(b := ?y)) n (Some b) es"
      using Cons sh' by simp
    have y: "map_option unlinked ?y = map_option unlinked (symbols s b)" using d(1) by simp
    show ?thesis
    proof (rule that)
      show "LookupSymbol t n s = Some (Inr (case scoped s B t n of [] \<Rightarrow> None | x # _ \<Rightarrow> Some (snd x), ?s))"
        using run sc Cons d(1) by simp
      show "sym_inv ?s (B(t := (B t)(hash n := B1 @ (if es = [] then [] else [(n, es)]) @ B2))) (rev ds @ F) S"
        by (rule spliced_inv(1) [OF inv split' hd ds _ _ _ es x y]) simp_all
      show "scoped ?s (B(t := (B t)(hash n := B1 @ (if es = [] then [] else [(n, es)]) @ B2))) = scoped s B"
        by (rule same, rule spliced_inv(2) [OF inv split' hd ds _ _ _ es x y]) simp_all
      show "same_but {} s ?s" by (rule spliced_same [OF y])
      have "entry n ((B(t := (B t)(hash n := B1 @ (if es = [] then [] else [(n, es)]) @ B2))) t (hash n)) = es"
        by (rule spliced_inv(3) [OF inv split' hd ds _ _ _ es x y]) simp_all
      then show "alive s a" if "a \<in> set (entry n ((B(t := (B t)(hash n := B1 @ (if es = [] then [] else [(n, es)]) @ B2))) t (hash n)))" for a
        using that es_def by auto
    qed simp
  qed
qed

end
