(* ===== verification/Cc_Symbol_Insert.thy ===== *)
theory Cc_Symbol_Insert
  imports Cc_Symbol_Run
begin

section \<open>Insertion into symbol tables\<close>

subsection \<open>Changes outside the chains\<close>

lemma entry_addresses: "a \<in> set (entry n C) \<Longrightarrow> a \<in> set (addresses C)"
  by (induction C) (auto split: if_splits)

lemma scope_at_cong: "(\<And>a. a \<in> set as \<Longrightarrow> h a = h' a) \<Longrightarrow> scope_at h p as = scope_at h' p as"
  by (induction as arbitrary: p) auto

lemma idle_change:
  fixes s s' :: "('v, 'u) Syms"
  assumes shape: "shape_inv s B F" and cont: "content_inv s B"
    and tabs: "\<And>t b. buckets (tables s' t) b = buckets (tables s t) b" "\<And>t. kind (tables s' t) = kind (tables s t)"
    and cells: "\<And>t b a. a \<in> set (addresses (B t b)) \<Longrightarrow> symbols s' a = symbols s a"
    and F: "free_at (symbols s') (sym_free s') F'" "distinct F'" "\<And>t b. set F' \<inter> set (addresses (B t b)) = {}"
    and lim: "\<And>a. symbols s' a \<noteq> None \<Longrightarrow> a < sym_limit s'"
    and same: "Level s' = Level s" "current_version s' = current_version s"
  shows "shape_inv s' B F'" "content_inv s' B" "scoped s' B = scoped s B"
proof -
  let ?X = "{a. \<forall>t b. a \<notin> set (addresses (B t b))}"
  have but: "same_but ?X s s'" using cells tabs same by (auto simp: same_but_def)
  have "shape_inv s' (B(0 := (B 0)(0 := B 0 0))) F'"
  proof (rule shape_change [OF shape tabs(1) cells])
    show "chain_at (symbols s') (buckets (tables s' 0) 0) (B 0 0) None"
      using chain_at_cong [of "B 0 0" "symbols s'" "symbols s"] cells shape_invD(1) [OF shape] by (simp add: tabs)
    show "distinct (map fst (B 0 0))" "distinct (addresses (B 0 0))" by (rule shape_invD [OF shape])+
    show "hash (fst e) = 0" if "e \<in> set (B 0 0)" for e by (rule shape_invD(3) [OF shape that])
    show "(set (addresses (B 0 0)) \<union> set F') \<inter> set (addresses (B t' b')) = {}" if "(t', b') \<noteq> (0, 0)" for t' b'
      using shape_invD(5) [OF shape that] F(3) [of t' b'] by blast
  qed (use F lim in auto)
  then show "shape_inv s' B F'" by simp
  have "content_inv s' (B(0 := (B 0)(0 := B 0 0)))"
  proof (rule content_change [OF cont but])
    fix e assume e: "e \<in> set (B 0 0)"
    then have "set (snd e) \<inter> ?X = {}" by (force simp: addresses_def)
    moreover have "sorted_wrt (nested s) (snd e) \<and> (\<forall>a \<in> set (snd e). dated s 0 a)" using cont e by (simp add: content_inv_def)
    ultimately show "sorted_wrt (nested s') (snd e) \<and> (\<forall>a \<in> set (snd e). dated s' 0 a)"
      using same_but_nested [OF but, of "snd e"] same_but_contents(3) [OF but] by blast
  qed auto
  then show "content_inv s' B" by simp
  have "scoped s' B t n = scoped s B t n" for t n
  proof -
    have "symbols s' a = symbols s a" "alive s' a = alive s a" "lev s' a = lev s a" if "a \<in> set (entry n (B t (hash n)))" for a
      using entry_addresses [OF that] cells same_but_contents(1,2) [OF but, of a] by blast+
    then have "filter (alive s') (entry n (B t (hash n))) = filter (alive s) (entry n (B t (hash n)))"
      "\<forall>a \<in> set (entry n (B t (hash n))). symbols s' a = symbols s a \<and> lev s' a = lev s a" by (auto intro: filter_cong)
    then show ?thesis by (simp add: scoped_def)
  qed
  then show "scoped s' B = scoped s B" by blast
qed

subsection \<open>The new symbol\<close>

definition made_symbol :: "nat \<Rightarrow> 'v \<Rightarrow> nat \<Rightarrow> 16 word \<Rightarrow> 'v Symbol \<Rightarrow> 'v Symbol" where
  "made_symbol n v l ver c = c\<lparr>sym_name := n, sym_var := v, sym_level := l, sym_version := ver, sym_shadow := None, sym_next := None\<rparr>"

lemma made_symbol_fields [simp]:
  "sym_name (made_symbol n v l ver c) = n" "sym_var (made_symbol n v l ver c) = v" "sym_level (made_symbol n v l ver c) = l"
  "sym_version (made_symbol n v l ver c) = ver" "sym_shadow (made_symbol n v l ver c) = None" "sym_next (made_symbol n v l ver c) = None"
  by (simp_all add: made_symbol_def)

definition scoped_with :: "('v, 'u) Syms \<Rightarrow> nat \<Rightarrow> nat \<Rightarrow> (nat \<Rightarrow> nat \<Rightarrow> 'a list) \<Rightarrow> 'a \<Rightarrow> (nat \<Rightarrow> nat \<Rightarrow> 'a list)" where
  "scoped_with s t l S new = (if exitscope_proc (tables s t) = None then S else S(t := (S t)(l := new # S t l)))"

lemma fresh_symbol:
  fixes s :: "('v, 'u) Syms"
  assumes inv: "sym_inv s B F S"
  obtains new s0 s1 F1 d where
    "make_symbol n v (insert_level s t) (insert_version s t) s = Inr (new, s0)" "link_scope t (insert_level s t) new s0 = Inr ((), s1)"
    "sym_inv s1 B F1 (scoped_with s t (insert_level s t) S new)" "scoped s1 B = scoped s B" "symbols s1 new = Some d"
    "sym_name d = n" "sym_var d = v" "sym_level d = insert_level s t" "sym_version d = insert_version s t" "sym_shadow d = None"
    "new \<notin> set F1" "\<And>t b. new \<notin> set (addresses (B t b))"
    "\<And>a. symbols s a \<noteq> None \<Longrightarrow> a \<noteq> new \<Longrightarrow> a \<notin> set F \<Longrightarrow> symbols s1 a = symbols s a"
    "\<And>l t' a. 0 < l \<Longrightarrow> a \<in> set (S t' l) \<Longrightarrow> a \<noteq> new"
    "Level s1 = Level s" "current_version s1 = current_version s" "table_list s1 = table_list s" "world s1 = world s"
    "\<And>t. buckets (tables s1 t) = buckets (tables s t) \<and> kind (tables s1 t) = kind (tables s t)
       \<and> shadow_proc (tables s1 t) = shadow_proc (tables s t) \<and> exitscope_proc (tables s1 t) = exitscope_proc (tables s t)"
    "syntax_errors s1 = syntax_errors s \<and> next_table s1 = next_table s"
proof -
  have shape: "shape_inv s B F" and cont: "content_inv s B" and scope: "scope_inv s F S" using inv by (simp_all add: sym_inv_def)
  let ?l = "insert_level s t" and ?ver = "insert_version s t"
  have lim: "a < sym_limit s" if "symbols s a \<noteq> None" for a using that shape_invD(9) [OF shape] by auto
  obtain new r F1 where new: "new_symbol s = Inr (new, r)" "free_at (symbols r) (sym_free r) F1" "distinct F1" "new \<notin> set F1"
    "symbols r new \<noteq> None" "\<And>a. a \<in> insert new (set F1) \<Longrightarrow> symbols s a = None \<or> a \<in> set F"
    "\<And>a. symbols s a \<noteq> None \<Longrightarrow> symbols r a = symbols s a" "\<And>a. symbols r a \<noteq> None \<Longrightarrow> a < sym_limit r"
    "r = s\<lparr>symbols := symbols r, sym_free := sym_free r, sym_limit := sym_limit r\<rparr>"
    using new_symbol_run [OF shape_invD(6,7) [OF shape] lim] by blast
  have rest: "Level r = Level s" "current_version r = current_version s" "tables r = tables s" "table_list r = table_list s"
    "world r = world s" "syntax_errors r = syntax_errors s" "next_table r = next_table s"
    by (subst new(9), simp)+
  obtain c where c: "symbols r new = Some c" using new(5) by auto
  let ?c = "made_symbol n v ?l ?ver c"
  let ?s0 = "r\<lparr>symbols := (symbols r)(new \<mapsto> ?c)\<rparr>"
  have make: "make_symbol n v ?l ?ver s = Inr (new, ?s0)"
    using new(1) c by (simp add: make_symbol_def bindM_def upd_sym_def ret_def made_symbol_def)
  define ex where "ex \<longleftrightarrow> exitscope_proc (tables s t) \<noteq> None"
  define d where "d = (if ex then ?c\<lparr>sym_scope_next := scopes (tables s t) ?l\<rparr> else ?c)"
  define s1 where "s1 = (if ex then ?s0\<lparr>symbols := (symbols ?s0)(new \<mapsto> d),
     tables := (tables s)(t := (tables s t)\<lparr>scopes := (scopes (tables s t))(?l := Some new)\<rparr>)\<rparr> else ?s0)"
  have link: "link_scope t ?l new ?s0 = Inr ((), s1)"
    using rest by (simp add: link_scope_def bindM_def getM_def upd_sym_def upd_table_def modifyM_def ret_def s1_def d_def ex_def)
  have s1: "symbols s1 = (symbols r)(new \<mapsto> d)" "sym_free s1 = sym_free r" "sym_limit s1 = sym_limit r"
    "Level s1 = Level s" "current_version s1 = current_version s" "table_list s1 = table_list s" "world s1 = world s"
    "syntax_errors s1 = syntax_errors s" "next_table s1 = next_table s"
    using rest by (simp_all add: s1_def d_def)
  have tab: "buckets (tables s1 t') = buckets (tables s t') \<and> kind (tables s1 t') = kind (tables s t')
       \<and> shadow_proc (tables s1 t') = shadow_proc (tables s t') \<and> exitscope_proc (tables s1 t') = exitscope_proc (tables s t')" for t'
    using rest by (simp add: s1_def)
  have sc: "scopes (tables s1 t') l = (if ex \<and> t' = t \<and> l = ?l then Some new else scopes (tables s t') l)" for t' l
    using rest by (simp add: s1_def)
  have d: "sym_name d = n" "sym_var d = v" "sym_level d = ?l" "sym_version d = ?ver" "sym_shadow d = None" "sym_next d = None"
    "ex \<Longrightarrow> sym_scope_next d = scopes (tables s t) ?l"
    by (simp_all add: d_def)
  have cell: "symbols s a \<noteq> None" if "a \<in> set (addresses (B t' b))" for a t' b
    by (rule chain_cells [OF shape_invD(1) [OF shape] that])
  have out: "a \<notin> insert new (set F1)" if "a \<in> set (addresses (B t' b))" for a t' b
    using new(6) [of a] cell [OF that] shape_invD(8) [OF shape, of t' b] that by blast
  have old: "symbols s1 a = symbols s a" if "symbols s a \<noteq> None" "a \<noteq> new" for a
    using that new(7) by (simp add: s1)
  have free: "free_at (symbols s1) (sym_free s1) F1"
  proof -
    have "free_at (symbols s1) (sym_free s1) F1 = free_at (symbols r) (sym_free s1) F1"
      by (rule free_at_cong) (use new(4) s1(1) in auto)
    then show ?thesis using new(2) s1(2) by simp
  qed
  have inF: "a \<noteq> new" "a \<notin> set F1" if "0 < l" "a \<in> set (S t' l)" for a l t'
  proof -
    have "a \<notin> set F" "symbols s a \<noteq> None" using scope that unfolding scope_inv_def by blast+
    then have "a \<notin> insert new (set F1)" using new(6) [of a] by auto
    then show "a \<noteq> new" "a \<notin> set F1" by simp_all
  qed
  have lim1: "a < sym_limit s1" if "symbols s1 a \<noteq> None" for a
    using that new(5,8) s1(1,3) by (cases "a = new") auto
  have cells1: "symbols s1 a = symbols s a" if "a \<in> set (addresses (B t' b))" for a t' b
    using old [OF cell [OF that]] out [OF that] by blast
  have apart1: "set F1 \<inter> set (addresses (B t' b)) = {}" for t' b using out by blast
  have bk: "buckets (tables s1 t') b = buckets (tables s t') b" "kind (tables s1 t') = kind (tables s t')" for t' b
    using tab by simp_all
  note 1 = idle_change [OF shape cont bk cells1 free new(3) apart1 lim1 s1(4,5)]
  have 2: "scope_inv s1 F1 (scoped_with s t ?l S new)"
    unfolding scope_inv_def
  proof (intro allI impI conjI ballI)
    fix t' and l :: nat assume l: "0 < l"
    let ?S = "scoped_with s t ?l S new t' l"
    have S: "?S = (if ex \<and> t' = t \<and> l = ?l then new # S t' l else S t' l)" by (simp add: scoped_with_def ex_def)
    have cells: "symbols s1 a = symbols s a" if "a \<in> set (S t' l)" for a
    proof (rule old [OF _ inF(1) [OF l that]])
      show "symbols s a \<noteq> None" using scope that l unfolding scope_inv_def by blast
    qed
    have "scope_at (symbols s1) p (S t' l) = scope_at (symbols s) p (S t' l)" for p
      by (rule scope_at_cong [OF cells])
    moreover have "scope_at (symbols s) (scopes (tables s t') l) (S t' l)" using scope l unfolding scope_inv_def by blast
    ultimately have at: "scope_at (symbols s1) (scopes (tables s t') l) (S t' l)" by simp
    show "scope_at (symbols s1) (scopes (tables s1 t') l) ?S"
    proof (cases "ex \<and> t' = t \<and> l = ?l")
      case True
      then have "symbols s1 new = Some d" "sym_scope_next d = scopes (tables s t') l" using d(7) s1(1) by auto
      then show ?thesis unfolding S sc if_P [OF True] using at by simp
    qed (use at in \<open>auto simp: S sc\<close>)
    fix a assume a: "a \<in> set ?S"
    show "a \<notin> set F1" using a inF(2) [OF l] new(4) by (auto simp: S split: if_splits)
    have old_in: "l \<le> Level s \<and> (\<exists>c. symbols s a = Some c \<and> sym_level c = l \<and> sym_version c = current_version s l)"
      if "a \<in> set (S t' l)" using scope l that unfolding scope_inv_def by blast
    have new_in: "a = new \<and> l = ?l" if "a \<notin> set (S t' l)" using a that by (auto simp: S split: if_splits)
    have lev: "l \<le> Level s \<and> ?ver = current_version s l" if "l = ?l"
      using l that by (auto simp: insert_level_def insert_version_def split: if_splits)
    show "l \<le> Level s1" using old_in new_in lev by (auto simp: s1)
    show "\<exists>c. symbols s1 a = Some c \<and> sym_level c = l \<and> sym_version c = current_version s1 l"
    proof (cases "a \<in> set (S t' l)")
      case True
      then show ?thesis using old_in cells by (simp add: s1(5))
    next
      case False
      then show ?thesis using new_in lev d by (auto simp: s1)
    qed
  qed
  show ?thesis
  proof (rule that [OF make link _ 1(3) _ d(1-5)])
    show "sym_inv s1 B F1 (scoped_with s t ?l S new)" using 1 2 by (simp add: sym_inv_def)
    show "symbols s1 new = Some d" by (simp add: s1)
    show "new \<notin> set (addresses (B t b))" for t b using out by blast
    show "symbols s1 a = symbols s a" if "symbols s a \<noteq> None" "a \<noteq> new" for a by (rule old [OF that])
    show "a \<noteq> new" if "0 < l" "a \<in> set (S t' l)" for l t' a by (rule inF(1) [OF that])
  qed (use new(4) s1 tab in auto)
qed

subsection \<open>The new symbol enters its chain\<close>

definition fresh :: "('v, 'u) Syms \<Rightarrow> layout \<Rightarrow> nat list \<Rightarrow> nat \<Rightarrow> nat \<Rightarrow> 'v \<Rightarrow> nat \<Rightarrow> 'v Symbol \<Rightarrow> bool" where
  "fresh s B F t n v new d \<longleftrightarrow> symbols s new = Some d \<and> sym_name d = n \<and> sym_var d = v \<and> sym_level d = insert_level s t
     \<and> sym_version d = insert_version s t \<and> sym_shadow d = None \<and> new \<notin> set F \<and> (\<forall>t b. new \<notin> set (addresses (B t b)))"

lemma fresh_alive:
  assumes "sym_inv s B F S" "fresh s B F t n v new d"
  shows "alive s new" "lev s new = insert_level s t" "dated s t new"
proof -
  have "current_version s 0 = 0" using assms(1) by (simp add: sym_inv_def content_inv_def)
  then show "alive s new" "lev s new = insert_level s t" "dated s t new"
    using assms(2) by (auto simp: fresh_def alive_def lev_def dated_def stale_def insert_level_def insert_version_def)
qed

lemma insert_absent:
  fixes s :: "('v, 'u) Syms"
  assumes inv: "sym_inv s B F S" and new: "fresh s B F t n v new d" and absent: "n \<notin> fst ` set (B t (hash n))"
  obtains s' where "insert_at t n v conflict L new s = Some (Inr (v, s'))"
    "sym_inv s' (B(t := (B t)(hash n := (n, [new]) # B t (hash n)))) F S"
    "scoped s' (B(t := (B t)(hash n := (n, [new]) # B t (hash n)))) = (scoped s B)(t := (scoped s B t)(n := [(insert_level s t, v)]))"
    "kept s s'" "same_but {} s s'"
proof -
  have shape: "shape_inv s B F" and cont: "content_inv s B" and scope: "scope_inv s F S" using inv by (simp_all add: sym_inv_def)
  let ?b = "hash n"
  let ?B = "B(t := (B t)(?b := (n, [new]) # B t ?b))"
  let ?d = "d\<lparr>sym_next := buckets (tables s t) ?b\<rparr>"
  let ?s = "s\<lparr>symbols := (symbols s)(new \<mapsto> ?d),
     tables := (tables s)(t := (tables s t)\<lparr>buckets := (buckets (tables s t))(?b := Some new)\<rparr>)\<rparr>"
  have d: "symbols s new = Some d" "sym_name d = n" "sym_var d = v" "sym_shadow d = None" "new \<notin> set F"
    "\<And>t b. new \<notin> set (addresses (B t b))"
    using new by (simp_all add: fresh_def)
  have find: "find_name n (Bucket t ?b) (buckets (tables s t) ?b) s = Some (Inr (None, s))"
    by (rule find_name_absent [OF shape_invD(1) [OF shape] absent])
  have run: "insert_at t n v conflict L new s = Some (Inr (v, ?s))"
    using find d by (simp add: insert_at_def bindL_def liftL_def bindM_def getM_def upd_sym_def get_sym_def assertM_def guardM_def
        upd_table_def modifyM_def ret_def)
  have same: "same_but {} s ?s" using d(1) by (simp add: same_but_def)
  have old: "symbols ?s a = symbols s a" if "a \<in> set (addresses (B t' b'))" for a t' b'
    using that d(6) by auto
  have tl: "chain_at (symbols ?s) p (B t' b') None = chain_at (symbols s) p (B t' b') None" for p t' b'
    by (rule chain_at_cong [OF old])
  have 1: "shape_inv ?s ?B F"
  proof (rule shape_change [OF shape _ old])
    show "buckets (tables ?s t') b' = buckets (tables s t') b'" if "(t', b') \<noteq> (t, ?b)" for t' b' using that by auto
    show "chain_at (symbols ?s) (buckets (tables ?s t) ?b) ((n, [new]) # B t ?b) None"
      using tl [of "buckets (tables s t) ?b" t ?b] shape_invD(1) [OF shape, of t ?b] d by simp
    show "distinct (map fst ((n, [new]) # B t ?b))" using absent shape_invD(2) [OF shape, of t ?b] by simp
    show "hash (fst e) = ?b" if "e \<in> set ((n, [new]) # B t ?b)" for e using that shape_invD(3) [OF shape, of e t ?b] by auto
    show "distinct (addresses ((n, [new]) # B t ?b))" using d(6) shape_invD(4) [OF shape, of t ?b] by simp
    have "free_at (symbols ?s) p F = free_at (symbols s) p F" for p by (rule free_at_cong) (use d(5) in auto)
    then show "free_at (symbols ?s) (sym_free ?s) F" using shape_invD(6) [OF shape] by simp
    show "set F \<inter> set (addresses ((n, [new]) # B t ?b)) = {}" using d(5) shape_invD(8) [OF shape, of t ?b] by auto
    show "(set (addresses ((n, [new]) # B t ?b)) \<union> set F) \<inter> set (addresses (B t' b')) = {}" if "(t', b') \<noteq> (t, ?b)" for t' b'
      using d(6) [of t' b'] shape_invD(5) [OF shape that] shape_invD(8) [OF shape, of t' b'] by auto
    show "a < sym_limit ?s" if "symbols ?s a \<noteq> None" for a
      using that shape_invD(9) [OF shape] d(1) by (cases "a = new") auto
  qed (assumption | rule shape_invD(7) [OF shape])+
  have 2: "content_inv ?s ?B"
  proof (rule content_change [OF cont same])
    fix e assume "e \<in> set ((n, [new]) # B t ?b)"
    then consider "e = (n, [new])" | "e \<in> set (B t ?b)" by auto
    then show "sorted_wrt (nested ?s) (snd e) \<and> (\<forall>a \<in> set (snd e). dated ?s t a)"
    proof cases
      case 1
      then show ?thesis using fresh_alive(3) [OF inv new] same_but_contents(3) [OF same, of new] by simp
    next
      case 2
      then have "sorted_wrt (nested s) (snd e) \<and> (\<forall>a \<in> set (snd e). dated s t a)" using cont by (simp add: content_inv_def)
      then show ?thesis using same_but_nested [OF same, of "snd e"] same_but_contents(3) [OF same] by blast
    qed
  qed simp
  have 3: "scope_inv ?s F S"
  proof (rule scope_change [OF scope same])
    show "a \<notin> set F" if "0 < l" "a \<in> set (S t l)" for t l a using scope that unfolding scope_inv_def by blast
  qed auto
  have "scoped ?s ?B t' m = ((scoped s B)(t := (scoped s B t)(n := [(insert_level s t, v)]))) t' m" for t' m
  proof (cases "t' = t \<and> m = n")
    case True
    have "scoped ?s ?B t n = scoped s ?B t n" by (rule scoped_same [OF same]) simp
    then show ?thesis using True fresh_alive(1,2) [OF inv new] d(1,3) by (simp add: scoped_def)
  next
    case False
    have "scoped ?s ?B t' m = scoped s B t' m" by (rule scoped_same [OF same]) (use False in auto)
    then show ?thesis using False by auto
  qed
  then have "scoped ?s ?B = (scoped s B)(t := (scoped s B t)(n := [(insert_level s t, v)]))" by blast
  moreover have "kept s ?s" by (simp add: kept_def)
  ultimately show ?thesis using that [OF run _ _ _ same] 1 2 3 by (simp add: sym_inv_def)
qed

text \<open>
  Where the name has an entry, the new symbol replaces it, shadows it or gives way to a declaration of the
  same scope.
\<close>

fun declared :: "nat \<Rightarrow> 'v \<Rightarrow> (nat \<times> 'v) list \<Rightarrow> 'v \<times> (nat \<times> 'v) list" where
  "declared l v [] = (v, [(l, v)])"
| "declared l v ((k, w) # r) = (if k = l then (w, (k, w) # r) else (v, (l, v) # (k, w) # r))"

fun insert_effect :: "('v \<Rightarrow> 'v \<Rightarrow> 'u \<Rightarrow> 'u) option \<Rightarrow> ('v, 'u) ConflictProc \<Rightarrow> nat \<Rightarrow> 'v \<Rightarrow> (nat \<times> 'v) list \<Rightarrow> 'u \<Rightarrow> 'u" where
  "insert_effect sh conflict l v [] u = u"
| "insert_effect sh conflict l v ((k, w) # r) u =
     (if k = l then (case conflict of None \<Rightarrow> u | Some f \<Rightarrow> f w v u) else (case sh of None \<Rightarrow> u | Some f \<Rightarrow> f v w u))"

definition conflicts :: "nat \<Rightarrow> (nat \<times> 'v) list \<Rightarrow> bool" where
  "conflicts l ds \<longleftrightarrow> (case ds of [] \<Rightarrow> False | (k, w) # r \<Rightarrow> k = l)"

lemma sym_inv_world [simp]: "sym_inv (s\<lparr>world := u\<rparr>) B F S = sym_inv s B F S" "scoped (s\<lparr>world := u\<rparr>) B = scoped s B"
proof -
  have st: "stale (s\<lparr>world := u\<rparr>) = stale s" by (auto simp: fun_eq_iff stale_def)
  have al: "alive (s\<lparr>world := u\<rparr>) = alive s" by (auto simp: fun_eq_iff alive_def st)
  have lv: "lev (s\<lparr>world := u\<rparr>) = lev s" by (auto simp: fun_eq_iff lev_def)
  have ne: "nested (s\<lparr>world := u\<rparr>) = nested s" by (auto simp: fun_eq_iff nested_def al lv)
  have da: "dated (s\<lparr>world := u\<rparr>) = dated s" by (auto simp: fun_eq_iff dated_def)
  show "sym_inv (s\<lparr>world := u\<rparr>) B F S = sym_inv s B F S"
    by (simp add: sym_inv_def shape_inv_def content_inv_def scope_inv_def ne da)
  show "scoped (s\<lparr>world := u\<rparr>) B = scoped s B" by (simp add: fun_eq_iff scoped_def al lv)
qed

lemma insert_found:
  fixes s :: "('v, 'u) Syms"
  assumes inv: "sym_inv s B F S" and new: "fresh s B F t n v new d" and found: "n \<in> fst ` set (B t (hash n))"
    and ok: "conflict = None \<Longrightarrow> \<not> conflicts (insert_level s t) (scoped s B t n)"
  obtains B' F' s' where
    "insert_at t n v conflict (insert_level s t) new s = Some (Inr (fst (declared (insert_level s t) v (scoped s B t n)),
       s'\<lparr>world := insert_effect (shadow_proc (tables s t)) conflict (insert_level s t) v (scoped s B t n) (world s)\<rparr>))"
    "sym_inv s' B' F' S"
    "scoped s' B' = (scoped s B)(t := (scoped s B t)(n := snd (declared (insert_level s t) v (scoped s B t n))))"
    "kept s s'" "same_but {} s s'"
proof -
  let ?b = "hash n" and ?L = "insert_level s t"
  obtain B1 as B2 where split: "B t ?b = B1 @ (n, as) # B2" by (rule entry_found [OF found])
  obtain c ds where c: "symbols s (hd as) = Some c" and as: "as = ds @ filter (alive s) as" and ds: "\<And>a. a \<in> set ds \<Longrightarrow> dead s a"
    and ne: "as \<noteq> []" "distinct as"
    and find: "find_name n (Bucket t ?b) (buckets (tables s t) ?b) s = Some (Inr (Some (handle_of (Bucket t ?b) B1, hd as), s))"
    and drop: "drop_stale (Some (hd as)) s = Some (Inr (head_of (filter (alive s) as), fold freed ds s))"
    and ch: "\<exists>q. chain_at (symbols (fold freed ds s)) (buckets (tables s t) ?b) B1 q"
    and sh: "shadows_at (symbols s) n (head_of (filter (alive s) as)) (filter (alive s) as)"
    and srt: "sorted_wrt (nested s) (filter (alive s) as)" and dat: "\<And>a. a \<in> set as \<Longrightarrow> dated s t a"
    and ap: "\<And>a. a \<in> set ds \<union> set (filter (alive s) as) \<Longrightarrow> a \<notin> set (addresses B1)"
    by (rule entry_facts [OF inv split]) blast
  obtain q where q: "chain_at (symbols (fold freed ds s)) (buckets (tables s t) ?b) B1 q" using ch by blast
  define es where "es = filter (alive s) as"
  have dist: "distinct (map fst (B1 @ (n, as) # B2))"
    using inv shape_invD(2) [of s B F t ?b] by (simp add: sym_inv_def split)
  have sc: "scoped s B t n = map (\<lambda>a. (lev s a, sym_var (the (symbols s a)))) es"
    using entry_split(1) [OF dist] by (simp add: scoped_def split es_def)
  have hd: "symbols s (hd (ds @ es)) = Some c" using c as by (simp add: es_def)
  have split': "B t ?b = B1 @ (n, ds @ es) # B2" using split as by (simp add: es_def)
  have filt: "filter (alive s) es = es" by (simp add: es_def)
  have d: "symbols s new = Some d" "sym_var d = v" "sym_name d = n" "sym_level d = ?L" "sym_shadow d = None" "new \<notin> set F" "\<And>t b. new \<notin> set (addresses (B t b))"
    using new by (simp_all add: fresh_def)
  have newB: "new \<notin> set as" "new \<notin> set (addresses B1)" using d(7) [of t ?b] by (auto simp: split)
  then have new_ds: "new \<notin> set ds" "new \<notin> set es" using as by (auto simp: es_def) (metis UnCI as set_append)
  have d1: "symbols (fold freed ds s) new = Some d" using d(1) fold_freed_symbols(1) [OF new_ds(1), of s] by simp
  have d2: "symbols (at_handle t ?b (handle_of (Bucket t ?b) B1) r (fold freed ds s)) new = Some d" for r
    using at_handle_other [OF q newB(2)] d1 by simp
  note fr = fresh_alive [OF inv new]
  have es: "distinct es" "set es \<subseteq> set as" "sorted_wrt (nested s) es" "\<And>a. a \<in> set es \<Longrightarrow> dated s t a" "\<And>a. a \<in> set es \<Longrightarrow> alive s a"
    using ne(2) srt dat by (auto simp: es_def)
  show ?thesis
  proof (cases es)
    case Nil
    let ?y = "Some (d\<lparr>sym_next := sym_next c\<rparr>)"
    let ?s = "spliced t ?b B1 (Some new) ds new ?y s"
    have run: "insert_at t n v conflict ?L new s = Some (Inr (v, ?s))"
      using find drop Nil handle_run [OF q, of "Some new"] c d1 d2 [of "Some new"] d(5)
      by (simp add: insert_at_def bindL_def bindM_def liftL_def getM_def retL_def get_sym_def es_def [symmetric] head_of_def
          assertM_def guardM_def upd_sym_def ret_def spliced_def Let_def)
    have x: "if [new] = [] then new \<in> set ds \<and> ?y = symbols (fold freed ds s) new \<and> Some new = sym_next c
       else new = hd [new] \<and> (\<exists>d. ?y = Some d \<and> sym_next d = sym_next c) \<and> shadows_at ((symbols s)(new := ?y)) n (Some new) [new]"
      using d by simp
    note sp = spliced_inv [OF inv split' hd ds, where X = "{new}" and es = "[new]" and x = new and y = ?y and r = "Some new"]
    show ?thesis
    proof (rule that)
      show "insert_at t n v conflict ?L new s = Some (Inr (fst (declared ?L v (scoped s B t n)),
          ?s\<lparr>world := insert_effect (shadow_proc (tables s t)) conflict ?L v (scoped s B t n) (world s)\<rparr>))"
        using run sc Nil by simp
      show "sym_inv ?s (B(t := (B t)(?b := B1 @ (if [new] = [] then [] else [(n, [new])]) @ B2))) (rev ds @ F) S"
        by (rule sp(1) [OF _ _ _ _ _ _ _ _ x]) (use d fr(3) in auto)
      have "scoped ?s (B(t := (B t)(?b := B1 @ (if [new] = [] then [] else [(n, [new])]) @ B2))) t' m
        = (if t' = t \<and> m = n then map (\<lambda>a. (lev s a, sym_var (the (symbols s a)))) (filter (alive s) [new]) else scoped s B t' m)" for t' m
        by (rule sp(2) [OF _ _ _ _ _ _ _ _ x]) (use d fr(3) in auto)
      then show "scoped ?s (B(t := (B t)(?b := B1 @ (if [new] = [] then [] else [(n, [new])]) @ B2)))
        = (scoped s B)(t := (scoped s B t)(n := snd (declared ?L v (scoped s B t n))))"
        using fr sc Nil d(1,2) by (auto simp: fun_eq_iff)
      show "same_but {} s ?s" by (rule spliced_same) (use d(1) in simp)
    qed simp
  next
    case (Cons b es')
    then have al: "alive s b" "b \<notin> set ds" using filt ne(2) as by (auto simp: es_def [symmetric] filter_eq_Cons_iff)
    then obtain e where e: "symbols s b = Some e" "\<not> stale s e" by (auto simp: alive_def)
    have e1: "symbols (fold freed ds s) b = Some e" using e(1) fold_freed_symbols(1) [OF al(2), of s] by simp
    have b1: "b \<notin> set (addresses B1)" using ap [of b] Cons by (simp add: es_def [symmetric])
    have e2: "symbols (at_handle t ?b (handle_of (Bucket t ?b) B1) r (fold freed ds s)) b = Some e" for r
      using at_handle_other [OF q b1] e1 by simp
    have head: "scoped s B t n = (sym_level e, sym_var e) # map (\<lambda>a. (lev s a, sym_var (the (symbols s a)))) es'"
      using sc Cons e(1) by (simp add: lev_def)
    have "dated s t b" using es(4) Cons by simp
    then have le: "sym_level e \<le> ?L" using e by (auto simp: dated_def stale_def insert_level_def) (metis TableType.exhaust order_refl)
    show ?thesis
    proof (cases "sym_level e = ?L")
      case True
      then obtain f where f: "conflict = Some f" using ok head by (cases conflict) (auto simp: conflicts_def)
      let ?y = "Some (e\<lparr>sym_next := sym_next c\<rparr>)"
      let ?s = "spliced t ?b B1 (Some b) ds b ?y s"
      have run: "insert_at t n v conflict ?L new s = Some (Inr (sym_var e, ?s\<lparr>world := f (sym_var e) v (world ?s)\<rparr>))"
        using find drop Cons handle_run [OF q, of "Some b"] c e1 e2 [of "Some b"] e(2) True f
        by (simp add: insert_at_def bindL_def bindM_def liftL_def getM_def retL_def get_sym_def es_def [symmetric] head_of_def
            assertM_def guardM_def upd_sym_def ret_def spliced_def Let_def resolve_conflict_def modifyM_def)
      have "shadows_at ((symbols s)(b := ?y)) n (Some b) es = shadows_at (symbols s) n (Some b) es"
        by (rule shadows_at_next) (use e(1) in simp)
      then have sh': "shadows_at ((symbols s)(b := ?y)) n (Some b) es" using sh Cons by (simp add: es_def [symmetric] head_of_def)
      have x: "if es = [] then b \<in> set ds \<and> ?y = symbols (fold freed ds s) b \<and> Some b = sym_next c
         else b = hd es \<and> (\<exists>d. ?y = Some d \<and> sym_next d = sym_next c) \<and> shadows_at ((symbols s)(b := ?y)) n (Some b) es"
        using Cons sh' by simp
      have y: "map_option unlinked ?y = map_option unlinked (symbols s b)" using e(1) by simp
      have es0: "set es \<subseteq> set es \<union> {}" by simp
      show ?thesis
      proof (rule that)
        show "insert_at t n v conflict ?L new s = Some (Inr (fst (declared ?L v (scoped s B t n)),
            ?s\<lparr>world := insert_effect (shadow_proc (tables s t)) conflict ?L v (scoped s B t n) (world s)\<rparr>))"
          using run head True f by simp
        show "sym_inv ?s (B(t := (B t)(?b := B1 @ (if es = [] then [] else [(n, es)]) @ B2))) (rev ds @ F) S"
          by (rule spliced_inv(1) [OF inv split' hd ds _ _ _ es(1) es0 es(3,4) x y]) simp_all
        have "scoped ?s (B(t := (B t)(?b := B1 @ (if es = [] then [] else [(n, es)]) @ B2))) t' m
          = (if t' = t \<and> m = n then map (\<lambda>a. (lev s a, sym_var (the (symbols s a)))) (filter (alive s) es) else scoped s B t' m)" for t' m
          by (rule spliced_inv(2) [OF inv split' hd ds _ _ _ es(1) es0 es(3,4) x y]) simp_all
        then show "scoped ?s (B(t := (B t)(?b := B1 @ (if es = [] then [] else [(n, es)]) @ B2)))
          = (scoped s B)(t := (scoped s B t)(n := snd (declared ?L v (scoped s B t n))))"
          using head True sc filt by (auto simp: fun_eq_iff)
        show "same_but {} s ?s" by (rule spliced_same [OF y])
      qed simp
    next
      case False
      let ?y = "Some (d\<lparr>sym_shadow := Some b, sym_next := sym_next c\<rparr>)"
      let ?s = "spliced t ?b B1 (Some new) ds new ?y s"
      have run: "insert_at t n v conflict ?L new s = Some (Inr (v, ?s\<lparr>world := (case shadow_proc (tables s t) of None \<Rightarrow> world s | Some f \<Rightarrow> f v (sym_var e) (world s))\<rparr>))"
        using find drop Cons handle_run [OF q, of "Some new"] c e1 d2 [of "Some new"] e(2) False le d(5)
        by (simp add: insert_at_def bindL_def bindM_def liftL_def getM_def retL_def get_sym_def es_def [symmetric] head_of_def
            assertM_def guardM_def upd_sym_def ret_def spliced_def Let_def call_shadow_def modifyM_def split: option.split)
      have "shadows_at ((symbols s)(new := ?y)) n (Some b) es = shadows_at (symbols s) n (Some b) es"
        by (rule shadows_at_cong) (use new_ds in auto)
      then have sh': "shadows_at ((symbols s)(new := ?y)) n (Some b) es" using sh Cons by (simp add: es_def [symmetric] head_of_def)
      have x: "if new # es = [] then new \<in> set ds \<and> ?y = symbols (fold freed ds s) new \<and> Some new = sym_next c
         else new = hd (new # es) \<and> (\<exists>d. ?y = Some d \<and> sym_next d = sym_next c) \<and> shadows_at ((symbols s)(new := ?y)) n (Some new) (new # es)"
        using sh' d(3) by (simp del: fun_upd_apply add: fun_upd_same)
      have y: "map_option unlinked ?y = map_option unlinked (symbols s new)" using d(1) by simp
      have lv: "lev s b < ?L" using False le e(1) by (simp add: lev_def)
      have "nested s new a" if "a \<in> set es" for a
      proof -
        have "a = b \<or> lev s a < lev s b" using that es(3) al(1) Cons by (auto simp: nested_def)
        then show ?thesis using fr(2) lv es(5) [OF that] by (auto simp: nested_def)
      qed
      then have n1: "distinct (new # es)" "set (new # es) \<subseteq> set es \<union> {new}" "sorted_wrt (nested s) (new # es)"
        "\<And>a. a \<in> set (new # es) \<Longrightarrow> dated s t a"
        using es new_ds fr(3) by auto
      have X: "\<And>t b. {new} \<inter> set (addresses (B t b)) = {}" "{new} \<inter> set F = {}" "\<And>a. a \<in> {new} \<Longrightarrow> symbols s a \<noteq> None"
        using d by auto
      show ?thesis
      proof (rule that)
        show "insert_at t n v conflict ?L new s = Some (Inr (fst (declared ?L v (scoped s B t n)),
            ?s\<lparr>world := insert_effect (shadow_proc (tables s t)) conflict ?L v (scoped s B t n) (world s)\<rparr>))"
          using run head False by simp
        show "sym_inv ?s (B(t := (B t)(?b := B1 @ (if new # es = [] then [] else [(n, new # es)]) @ B2))) (rev ds @ F) S"
          by (rule spliced_inv(1) [OF inv split' hd ds X n1 x y])
        have "scoped ?s (B(t := (B t)(?b := B1 @ (if new # es = [] then [] else [(n, new # es)]) @ B2))) t' m
          = (if t' = t \<and> m = n then map (\<lambda>a. (lev s a, sym_var (the (symbols s a)))) (filter (alive s) (new # es)) else scoped s B t' m)" for t' m
          by (rule spliced_inv(2) [OF inv split' hd ds X n1 x y])
        then show "scoped ?s (B(t := (B t)(?b := B1 @ (if new # es = [] then [] else [(n, new # es)]) @ B2)))
          = (scoped s B)(t := (scoped s B t)(n := snd (declared ?L v (scoped s B t n))))"
          using head False sc filt fr d(1,2) by (auto simp: fun_eq_iff)
        show "same_but {} s ?s" by (rule spliced_same [OF y])
      qed simp
    qed
  qed
qed

subsection \<open>InsertSymbol\<close>

definition svar :: "('v, 'u) Syms \<Rightarrow> nat \<Rightarrow> 'v" where
  "svar s a = sym_var (the (symbols s a))"

lemma svar_same: "same_but {} s s' \<Longrightarrow> symbols s a \<noteq> None \<Longrightarrow> svar s' a = svar s a"
  using same_but_cell [of "{}" s s' a] unlinked_fields(2) by (fastforce simp: svar_def)

definition same_tables :: "('v, 'u) Syms \<Rightarrow> ('v, 'u) Syms \<Rightarrow> bool" where
  "same_tables s s' \<longleftrightarrow> next_table s' = next_table s \<and> table_list s' = table_list s \<and> (\<forall>t. kind (tables s' t) = kind (tables s t)
     \<and> shadow_proc (tables s' t) = shadow_proc (tables s t) \<and> exitscope_proc (tables s' t) = exitscope_proc (tables s t))"

lemma kept_same_tables: "kept s s' \<Longrightarrow> same_tables s s'"
  by (simp add: kept_def same_tables_def)

lemma InsertSymbol_run:
  fixes s :: "('v, 'u) Syms"
  assumes inv: "sym_inv s B F S" and ok: "conflict = None \<Longrightarrow> \<not> conflicts (insert_level s t) (scoped s B t n)"
  obtains B' F' S' s' where
    "InsertSymbol t n v conflict s = Some (Inr (fst (declared (insert_level s t) v (scoped s B t n)), s'))"
    "sym_inv s' B' F' S'"
    "scoped s' B' = (scoped s B)(t := (scoped s B t)(n := snd (declared (insert_level s t) v (scoped s B t n))))"
    "\<And>t' l. 0 < l \<Longrightarrow> map (svar s') (S' t' l) = scoped_with s t (insert_level s t) (\<lambda>t l. map (svar s) (S t l)) v t' l"
    "same_tables s s'" "Level s' = Level s" "current_version s' = current_version s" "syntax_errors s' = syntax_errors s"
    "world s' = insert_effect (shadow_proc (tables s t)) conflict (insert_level s t) v (scoped s B t n) (world s)"
proof -
  let ?L = "insert_level s t"
  obtain new s0 s1 F1 d where make: "make_symbol n v ?L (insert_version s t) s = Inr (new, s0)" "link_scope t ?L new s0 = Inr ((), s1)"
    and inv1: "sym_inv s1 B F1 (scoped_with s t ?L S new)" "scoped s1 B = scoped s B"
    and new: "symbols s1 new = Some d" "sym_name d = n" "sym_var d = v" "sym_level d = ?L" "sym_version d = insert_version s t" "sym_shadow d = None"
      "new \<notin> set F1" "\<And>t b. new \<notin> set (addresses (B t b))"
    and old: "\<And>a. symbols s a \<noteq> None \<Longrightarrow> a \<noteq> new \<Longrightarrow> a \<notin> set F \<Longrightarrow> symbols s1 a = symbols s a"
      "\<And>l t' a. 0 < l \<Longrightarrow> a \<in> set (S t' l) \<Longrightarrow> a \<noteq> new"
    and rest: "Level s1 = Level s" "current_version s1 = current_version s" "table_list s1 = table_list s" "world s1 = world s"
      "\<And>t. buckets (tables s1 t) = buckets (tables s t) \<and> kind (tables s1 t) = kind (tables s t)
       \<and> shadow_proc (tables s1 t) = shadow_proc (tables s t) \<and> exitscope_proc (tables s1 t) = exitscope_proc (tables s t)"
      "syntax_errors s1 = syntax_errors s \<and> next_table s1 = next_table s"
    by (rule fresh_symbol [OF inv, of n v t]) blast
  have L: "insert_level s1 t = ?L" "insert_version s1 t = insert_version s t" using rest by (simp_all add: insert_level_def insert_version_def)
  have fr: "fresh s1 B F1 t n v new d" using new L by (simp add: fresh_def)
  have ok1: "\<not> conflicts (insert_level s1 t) (scoped s1 B t n)" if "conflict = None" using ok that L inv1(2) by simp
  obtain B' F' s' w where at: "insert_at t n v conflict ?L new s1 = Some (Inr (fst (declared ?L v (scoped s B t n)), s'\<lparr>world := w\<rparr>))"
    and inv': "sym_inv s' B' F' (scoped_with s t ?L S new)"
      "scoped s' B' = (scoped s B)(t := (scoped s B t)(n := snd (declared ?L v (scoped s B t n))))" "kept s1 s'" "same_but {} s1 s'"
    and w: "w = insert_effect (shadow_proc (tables s t)) conflict ?L v (scoped s B t n) (world s)"
  proof (cases "n \<in> fst ` set (B t (hash n))")
    case True
    obtain B' F' s' where "insert_at t n v conflict (insert_level s1 t) new s1 = Some (Inr (fst (declared (insert_level s1 t) v (scoped s1 B t n)),
       s'\<lparr>world := insert_effect (shadow_proc (tables s1 t)) conflict (insert_level s1 t) v (scoped s1 B t n) (world s1)\<rparr>))"
      "sym_inv s' B' F' (scoped_with s t ?L S new)"
      "scoped s' B' = (scoped s1 B)(t := (scoped s1 B t)(n := snd (declared (insert_level s1 t) v (scoped s1 B t n))))"
      "kept s1 s'" "same_but {} s1 s'"
      by (rule insert_found [OF inv1(1) fr True, where conflict = conflict]) (use ok1 in simp, blast)
    then show ?thesis by (intro that) (simp_all add: L inv1(2) rest)
  next
    case False
    have none: "scoped s B t n = []" using entry_absent [OF False] by (simp add: scoped_def)
    obtain s' where s': "insert_at t n v conflict ?L new s1 = Some (Inr (v, s'))"
      "sym_inv s' (B(t := (B t)(hash n := (n, [new]) # B t (hash n)))) F1 (scoped_with s t ?L S new)"
      "scoped s' (B(t := (B t)(hash n := (n, [new]) # B t (hash n)))) = (scoped s1 B)(t := (scoped s1 B t)(n := [(insert_level s1 t, v)]))"
      "kept s1 s'" "same_but {} s1 s'"
      by (rule insert_absent [OF inv1(1) fr False]) blast
    have "s'\<lparr>world := world s\<rparr> = s'" using s'(4) rest(4) by (simp add: kept_def)
    with s' none show ?thesis by (intro that) (simp_all add: L inv1(2))
  qed
  have run: "InsertSymbol t n v conflict s = Some (Inr (fst (declared ?L v (scoped s B t n)), s'\<lparr>world := w\<rparr>))"
    using make at by (simp add: InsertSymbol_def bindL_def liftL_def getM_def)
  have vars: "map (svar (s'\<lparr>world := w\<rparr>)) (scoped_with s t ?L S new t' l) = scoped_with s t ?L (\<lambda>t l. map (svar s) (S t l)) v t' l"
    if l: "0 < l" for t' l
  proof -
    have n: "svar (s'\<lparr>world := w\<rparr>) new = v" using svar_same [OF inv'(4), of new] new(1,3) by (simp add: svar_def)
    have o: "svar (s'\<lparr>world := w\<rparr>) a = svar s a" if "a \<in> set (S t' l)" for a t'
    proof -
      have "a \<notin> set F" "symbols s a \<noteq> None" using inv that l unfolding sym_inv_def scope_inv_def by blast+
      then have "symbols s1 a = symbols s a" "symbols s a \<noteq> None" using old(1) [OF _ old(2) [OF l that]] by simp_all
      then show ?thesis using svar_same [OF inv'(4), of a] by (simp add: svar_def)
    qed
    show ?thesis using n o by (simp add: scoped_with_def)
  qed
  show ?thesis
  proof (rule that [OF run _ _ vars])
    show "same_tables s (s'\<lparr>world := w\<rparr>)" using inv'(3) rest(3,5,6) by (simp add: same_tables_def kept_def)
  qed (use inv' w rest in \<open>simp_all add: kept_def\<close>)
qed

end
