(* ===== verification/Cc_Scopes.thy ===== *)
theory Cc_Scopes
  imports Cc_Simulation Cc_Symbol_Insert
begin

section \<open>Symbol tables implement nested scopes\<close>

text \<open>
  What a client of the symbol tables sees: each name of a table has a list of declarations, one for each
  open scope that declares it, the innermost first. \<open>made\<close> are the declarations to report when the scope
  is left, the rejected ones among them. \<open>opened\<close> counts the scopes of a level that were ever opened.
\<close>

record ('v, 'u) Scopes =
  decls :: "nat \<Rightarrow> nat \<Rightarrow> (nat \<times> 'v) list"
  made :: "nat \<Rightarrow> nat \<Rightarrow> 'v list"
  depth :: nat
  opened :: "nat \<Rightarrow> nat"
  errors :: nat
  effects :: 'u
  created :: nat
  order :: "nat list"
  sort_of :: "nat \<Rightarrow> TableType"
  shadow_of :: "nat \<Rightarrow> ('v \<Rightarrow> 'v \<Rightarrow> 'u \<Rightarrow> 'u) option"
  exit_of :: "nat \<Rightarrow> ('v \<Rightarrow> 'u \<Rightarrow> 'u) option"

datatype ('v, 'u) request =
    Create TableType "('v \<Rightarrow> 'v \<Rightarrow> 'u \<Rightarrow> 'u) option" "('v \<Rightarrow> 'u \<Rightarrow> 'u) option"
  | Enter
  | Leave
  | Declare nat nat 'v "('v, 'u) ConflictProc"
  | Find nat nat

fun perform :: "('v, 'u) request \<Rightarrow> ('v, 'u, 'v option) syms_loop" where
  "perform (Create k sh ex) = bindL (liftL (NewSymbolTable k sh ex)) (\<lambda>_. retL None)"
| "perform Enter = bindL (liftL EnterScope) (\<lambda>_. retL None)"
| "perform Leave = bindL ExitScope (\<lambda>_. retL None)"
| "perform (Declare t n v conflict) = bindL (InsertSymbol t n v conflict) (\<lambda>w. retL (Some w))"
| "perform (Find t n) = LookupSymbol t n"

text \<open>The specification: what is permitted, what is answered, and the scopes afterwards.\<close>

definition level_for :: "('v, 'u) Scopes \<Rightarrow> nat \<Rightarrow> nat" where
  "level_for A t = (if sort_of A t = Nested then depth A else 0)"

fun permitted :: "('v, 'u) request \<Rightarrow> ('v, 'u) Scopes \<Rightarrow> bool" where
  "permitted Enter A \<longleftrightarrow> depth A + 1 < 100 \<and> opened A (depth A + 1) < 32767"
| "permitted (Declare t n v conflict) A \<longleftrightarrow> t \<in> set (order A) \<and> (conflict = None \<longrightarrow> \<not> conflicts (level_for A t) (decls A t n))"
| "permitted _ A \<longleftrightarrow> True"

fun answer :: "('v, 'u) request \<Rightarrow> ('v, 'u) Scopes \<Rightarrow> 'v option" where
  "answer (Declare t n v conflict) A = Some (fst (declared (level_for A t) v (decls A t n)))"
| "answer (Find t n) A = (case decls A t n of [] \<Rightarrow> None | x # _ \<Rightarrow> Some (snd x))"
| "answer _ A = None"

definition farewell :: "nat \<Rightarrow> ('v, 'u) Scopes \<Rightarrow> ('v, 'u) Scopes" where
  "farewell t A = (case exit_of A t of None \<Rightarrow> A
     | Some f \<Rightarrow> A\<lparr>effects := fold f (made A t (depth A)) (effects A), made := (made A)(t := (made A t)(depth A := []))\<rparr>)"

fun after :: "('v, 'u) request \<Rightarrow> ('v, 'u) Scopes \<Rightarrow> ('v, 'u) Scopes" where
  "after (Create k sh ex) A = (let t = created A in
     A\<lparr>created := t + 1, order := t # order A, decls := (decls A)(t := (\<lambda>_. [])), made := (made A)(t := (\<lambda>_. [])),
       sort_of := (sort_of A)(t := k), shadow_of := (shadow_of A)(t := sh), exit_of := (exit_of A)(t := ex)\<rparr>)"
| "after Enter A = A\<lparr>depth := depth A + 1, opened := (opened A)(depth A + 1 := opened A (depth A + 1) + 1)\<rparr>"
| "after Leave A = (if depth A = 0 then A\<lparr>errors := errors A + 1\<rparr>
     else (fold farewell (order A) A)\<lparr>depth := depth A - 1, decls := (\<lambda>t n. filter (\<lambda>x. fst x < depth A) (decls A t n))\<rparr>)"
| "after (Declare t n v conflict) A = (let l = level_for A t in
     A\<lparr>decls := (decls A)(t := (decls A t)(n := snd (declared l v (decls A t n)))),
       made := (if exit_of A t = None then made A else (made A)(t := (made A t)(l := v # made A t l))),
       effects := insert_effect (shadow_of A t) conflict l v (decls A t n) (effects A)\<rparr>)"
| "after (Find t n) A = A"

subsection \<open>The abstraction\<close>

definition represents :: "('v, 'u) Syms \<Rightarrow> layout \<Rightarrow> nat list \<Rightarrow> (nat \<Rightarrow> nat \<Rightarrow> nat list) \<Rightarrow> ('v, 'u) Scopes \<Rightarrow> bool" where
  "represents s B F S A \<longleftrightarrow> sym_inv s B F S \<and> scoped s B = decls A
     \<and> (\<forall>t l. 0 < l \<longrightarrow> map (svar s) (S t l) = made A t l)
     \<and> (\<forall>t l. 0 < l \<longrightarrow> S t l \<noteq> [] \<longrightarrow> t \<in> set (order A) \<and> exit_of A t \<noteq> None)
     \<and> Level s = depth A \<and> world s = effects A \<and> syntax_errors s = errors A \<and> next_table s = created A \<and> table_list s = order A
     \<and> (\<forall>t. kind (tables s t) = sort_of A t \<and> shadow_proc (tables s t) = shadow_of A t \<and> exitscope_proc (tables s t) = exit_of A t)
     \<and> (\<forall>l. sint (current_version s l) = int (opened A l))"

definition implements :: "('v, 'u) Syms \<Rightarrow> ('v, 'u) Scopes \<Rightarrow> bool" where
  "implements s A \<longleftrightarrow> (\<exists>B F S. represents s B F S A)"

subsection \<open>Entering a scope\<close>

lemma word_succ:
  assumes "sint (x :: 16 word) < 32767"
  shows "sint (x + 1) = sint x + 1"
proof -
  have "- (2 ^ 15) \<le> sint x" using sint_ge [of x] by simp
  then show ?thesis using assms by (simp add: sint_word_ariths signed_take_bit_int_eq_self)
qed

lemma scope_invD:
  assumes "scope_inv s F S" "0 < l"
  shows "scope_at (symbols s) (scopes (tables s t) l) (S t l)" "a \<in> set (S t l) \<Longrightarrow> l \<le> Level s" "a \<in> set (S t l) \<Longrightarrow> a \<notin> set F"
    "a \<in> set (S t l) \<Longrightarrow> \<exists>c. symbols s a = Some c \<and> sym_level c = l \<and> sym_version c = current_version s l"
  using assms unfolding scope_inv_def by blast+

lemma scope_empty:
  assumes "scope_inv s F S" "Level s < l"
  shows "S t l = []"
proof (cases "S t l")
  case (Cons a as)
  have "l \<le> Level s" by (rule scope_invD(2) [OF assms(1), of l a t]) (use assms(2) Cons in simp_all)
  then show ?thesis using assms(2) by simp
qed

lemma Enter_run:
  assumes inv: "sym_inv s B F S" and ok: "Level s + 1 < MAX_SCOPE_DEPTH" "sint (current_version s (Level s + 1)) < 32767"
  defines "s' \<equiv> s\<lparr>Level := Level s + 1, current_version := (current_version s)(Level s + 1 := current_version s (Level s + 1) + 1)\<rparr>"
  shows "EnterScope s = Inr ((), s')" "sym_inv s' B F S" "scoped s' B = scoped s B"
proof -
  have shape: "shape_inv s B F" and cont: "content_inv s B" and scope: "scope_inv s F S" using inv by (simp_all add: sym_inv_def)
  show "EnterScope s = Inr ((), s')"
    using ok(1) by (simp add: EnterScope_def bindM_def modifyM_def guardM_def s'_def)
  have st: "stale s' c = stale s c" if "sint (sym_version c) \<le> sint (current_version s (sym_level c))" for c :: "'a Symbol"
    using that word_succ [OF ok(2)] by (auto simp: stale_def s'_def)
  have same: "alive s' a = alive s a" "lev s' a = lev s a" "dated s' t a" if "dated s t a" for a t
    using that st word_succ [OF ok(2)] by (auto simp: alive_def lev_def dated_def s'_def)
  have in_chain: "dated s t a" if "e \<in> set (B t b)" "a \<in> set (snd e)" for e t b a
    using that content_invD(2) [OF cont, of "fst e" "snd e" t b a] by simp
  have "sorted_wrt (nested s') (snd e)" if e: "e \<in> set (B t b)" for e t b
  proof (rule sorted_wrt_mono_rel)
    show "sorted_wrt (nested s) (snd e)" using cont e by (simp add: content_inv_def)
    show "nested s' a b'" if "a \<in> set (snd e)" "b' \<in> set (snd e)" "nested s a b'" for a b'
      using that(3) same(1,2) [OF in_chain [OF e that(1)]] same(1,2) [OF in_chain [OF e that(2)]] by (simp add: nested_def)
  qed
  then have "content_inv s' B"
    using cont ok(1) in_chain same(3) unfolding content_inv_def by (simp add: s'_def)
  moreover have "shape_inv s' B F" using shape by (simp add: shape_inv_def s'_def)
  moreover have "scope_inv s' F S"
    unfolding scope_inv_def
  proof (intro allI impI conjI ballI)
    fix t and l :: nat assume l: "0 < l"
    show "scope_at (symbols s') (scopes (tables s' t) l) (S t l)" using scope l by (simp add: scope_inv_def s'_def)
    fix a assume a: "a \<in> set (S t l)"
    show "a \<notin> set F" using scope l a unfolding scope_inv_def by blast
    obtain c where c: "l \<le> Level s" "symbols s a = Some c" "sym_level c = l" "sym_version c = current_version s l"
      using scope l a unfolding scope_inv_def by blast
    then show "l \<le> Level s'" "\<exists>c. symbols s' a = Some c \<and> sym_level c = l \<and> sym_version c = current_version s' l"
      by (simp_all add: s'_def)
  qed
  ultimately show "sym_inv s' B F S" by (simp add: sym_inv_def)
  have "scoped s' B t n = scoped s B t n" for t n
  proof -
    have d: "dated s t a" if "a \<in> set (entry n (B t (hash n)))" for a
    proof -
      have "(n, entry n (B t (hash n))) \<in> set (B t (hash n))"
        using that by (auto simp: entry_def map_of_SomeD split: option.splits)
      then show ?thesis using in_chain [of _ t "hash n" a] that by fastforce
    qed
    have "filter (alive s') (entry n (B t (hash n))) = filter (alive s) (entry n (B t (hash n)))"
      using same(1) [OF d] by (auto intro: filter_cong)
    moreover have "symbols s' = symbols s" by (simp add: s'_def)
    ultimately show ?thesis by (simp add: scoped_def lev_def)
  qed
  then show "scoped s' B = scoped s B" by blast
qed

subsection \<open>Leaving a scope\<close>

lemma exit_chain_run:
  "scope_at (symbols s) p as \<Longrightarrow> exit_chain f p s = Some (Inr ((), s\<lparr>world := fold f (map (svar s) as) (world s)\<rparr>))"
proof (induction as arbitrary: p s)
  case Nil
  then show ?case by (simp add: exit_chain.simps)
next
  case (Cons a as)
  then obtain c where c: "p = Some a" "symbols s a = Some c" "scope_at (symbols s) (sym_scope_next c) as" by auto
  let ?s = "s\<lparr>world := f (sym_var c) (world s)\<rparr>"
  have "exit_chain f (sym_scope_next c) ?s = Some (Inr ((), ?s\<lparr>world := fold f (map (svar ?s) as) (world ?s)\<rparr>))"
    by (rule Cons.IH) (use c(3) in simp)
  moreover have "svar ?s = svar s" by (simp add: fun_eq_iff svar_def)
  moreover have "svar s a = sym_var c" using c(2) by (simp add: svar_def)
  ultimately show ?case using c by (simp add: exit_chain.simps [of f "Some a"])
qed

lemma sym_inv_scopes:
  fixes s :: "('v, 'u) Syms"
  assumes inv: "sym_inv s B F S"
    and s'_def: "s' = s\<lparr>world := u, tables := (tables s)(t := (tables s t)\<lparr>scopes := (scopes (tables s t))(l := None)\<rparr>)\<rparr>"
  shows "sym_inv s' B F (S(t := (S t)(l := [])))" "scoped s' B = scoped s B"
proof -
  have tab: "buckets (tables s' t') = buckets (tables s t')" "kind (tables s' t') = kind (tables s t')"
    "scopes (tables s' t') l' = (if t' = t \<and> l' = l then None else scopes (tables s t') l')" for t' l'
    by (simp_all add: s'_def)
  have st: "stale s' = stale s" by (auto simp: fun_eq_iff stale_def s'_def)
  have sy: "symbols s' = symbols s" "current_version s' = current_version s" "Level s' = Level s" "sym_free s' = sym_free s" "sym_limit s' = sym_limit s"
    by (simp_all add: s'_def)
  have al: "alive s' = alive s" by (auto simp: fun_eq_iff alive_def st sy)
  have lv: "lev s' = lev s" by (auto simp: fun_eq_iff lev_def sy)
  have ne: "nested s' = nested s" by (auto simp: fun_eq_iff nested_def al lv)
  have da: "dated s' = dated s" by (auto simp: fun_eq_iff dated_def sy tab)
  have 1: "shape_inv s' B F" "content_inv s' B"
    using inv by (simp_all add: sym_inv_def shape_inv_def content_inv_def ne da sy tab)
  have scope: "scope_inv s F S" using inv by (simp add: sym_inv_def)
  have 2: "scope_inv s' F (S(t := (S t)(l := [])))"
    unfolding scope_inv_def
  proof (intro allI impI conjI ballI)
    fix t' and l' :: nat assume l: "0 < l'"
    have S: "(S(t := (S t)(l := []))) t' l' = (if t' = t \<and> l' = l then [] else S t' l')" by simp
    show "scope_at (symbols s') (scopes (tables s' t') l') ((S(t := (S t)(l := []))) t' l')"
      unfolding S tab sy using scope_invD(1) [OF scope l, of t'] by simp
    fix a assume "a \<in> set ((S(t := (S t)(l := []))) t' l')"
    then have a: "a \<in> set (S t' l')" by (auto split: if_splits)
    show "a \<notin> set F" "l' \<le> Level s'" "\<exists>c. symbols s' a = Some c \<and> sym_level c = l' \<and> sym_version c = current_version s' l'"
      unfolding sy using scope_invD(2-4) [OF scope l a] by blast+
  qed
  show "sym_inv s' B F (S(t := (S t)(l := [])))" using 1 2 by (simp add: sym_inv_def)
  show "scoped s' B = scoped s B" by (simp add: fun_eq_iff scoped_def al lv sy)
qed

lemma farewell_run:
  assumes rep: "represents s B F S A" and d: "0 < depth A"
  obtains s' S' where "exit_tables [t] s = Some (Inr ((), s'))" "represents s' B F S' (farewell t A)"
    "\<And>t' l. S' t' l = S t' l \<or> S' t' l = []" "exit_of A t \<noteq> None \<Longrightarrow> S' t (depth A) = []"
proof (cases "exit_of A t")
  case None
  then have "exit_tables [t] s = Some (Inr ((), s))"
    using rep by (simp add: represents_def bindL_def liftL_def getM_def retL_def ret_def)
  moreover have "farewell t A = A" using None by (simp add: farewell_def)
  ultimately show ?thesis using that [of s S] rep None by simp
next
  case (Some f)
  let ?l = "depth A"
  have inv: "sym_inv s B F S" and ex: "exitscope_proc (tables s t) = Some f" "Level s = ?l" "map (svar s) (S t ?l) = made A t ?l"
    using rep Some d by (simp_all add: represents_def)
  have scope: "scope_inv s F S" using inv by (simp add: sym_inv_def)
  let ?w = "fold f (made A t ?l) (world s)"
  let ?s = "s\<lparr>world := ?w, tables := (tables s)(t := (tables s t)\<lparr>scopes := (scopes (tables s t))(?l := None)\<rparr>)\<rparr>"
  let ?S = "S(t := (S t)(?l := []))"
  have run: "exit_tables [t] s = Some (Inr ((), ?s))"
    using exit_chain_run [OF scope_invD(1) [OF scope d, of t], of f] ex
    by (simp add: bindL_def liftL_def getM_def retL_def ret_def upd_table_def modifyM_def)
  have sv: "svar ?s = svar s" by (simp add: fun_eq_iff svar_def)
  note si = sym_inv_scopes [OF inv refl, where u = ?w and t = t and l = ?l]
  have A: "farewell t A = A\<lparr>effects := fold f (made A t ?l) (effects A), made := (made A)(t := (made A t)(?l := []))\<rparr>"
    using Some by (simp add: farewell_def)
  have "represents ?s B F ?S (farewell t A)"
    unfolding represents_def
  proof (intro conjI)
    show "sym_inv ?s B F ?S" by (rule si(1))
    show "scoped ?s B = decls (farewell t A)" using si(2) rep by (simp add: A represents_def)
    show "\<forall>t' l. 0 < l \<longrightarrow> map (svar ?s) (?S t' l) = made (farewell t A) t' l"
      unfolding sv using rep by (simp add: A represents_def)
    show "\<forall>t' l. 0 < l \<longrightarrow> ?S t' l \<noteq> [] \<longrightarrow> t' \<in> set (order (farewell t A)) \<and> exit_of (farewell t A) t' \<noteq> None"
      using rep by (auto simp: A represents_def)
  qed (use rep in \<open>simp_all add: A represents_def\<close>)
  then show ?thesis using that [OF run] by auto
qed

lemma exit_tables_Cons: "exit_tables (t # ts) = bindL (exit_tables [t]) (\<lambda>_. exit_tables ts)"
proof
  fix s :: "('v, 'u) Syms"
  show "exit_tables (t # ts) s = bindL (exit_tables [t]) (\<lambda>_. exit_tables ts) s"
    by (simp add: bindL_def liftL_def getM_def retL_def ret_def split: option.splits sum.splits prod.splits)
qed

lemma farewell_fields [simp]:
  "depth (farewell t A) = depth A" "exit_of (farewell t A) = exit_of A" "order (farewell t A) = order A"
  "decls (farewell t A) = decls A" "opened (farewell t A) = opened A"
  by (simp_all add: farewell_def split: option.split)

lemma fold_farewell_fields [simp]:
  "depth (fold farewell ts A) = depth A" "exit_of (fold farewell ts A) = exit_of A" "order (fold farewell ts A) = order A"
  "decls (fold farewell ts A) = decls A" "opened (fold farewell ts A) = opened A"
  by (induction ts arbitrary: A) simp_all

lemma exit_tables_run:
  assumes "represents s B F S A" "0 < depth A"
  shows "\<exists>s' S'. exit_tables ts s = Some (Inr ((), s')) \<and> represents s' B F S' (fold farewell ts A)
    \<and> (\<forall>t l. S' t l = S t l \<or> S' t l = []) \<and> (\<forall>t \<in> set ts. exit_of A t \<noteq> None \<longrightarrow> S' t (depth A) = [])"
  using assms
proof (induction ts arbitrary: s S A)
  case Nil
  then show ?case by (auto simp: retL_def ret_def liftL_def)
next
  case (Cons t ts)
  obtain s1 S1 where 1: "exit_tables [t] s = Some (Inr ((), s1))" "represents s1 B F S1 (farewell t A)"
    "\<And>t' l. S1 t' l = S t' l \<or> S1 t' l = []" "exit_of A t \<noteq> None \<Longrightarrow> S1 t (depth A) = []"
    by (rule farewell_run [OF Cons.prems, of t]) blast
  obtain s2 S2 where 2: "exit_tables ts s1 = Some (Inr ((), s2))" "represents s2 B F S2 (fold farewell ts (farewell t A))"
    "\<forall>t l. S2 t l = S1 t l \<or> S2 t l = []" "\<forall>t' \<in> set ts. exit_of A t' \<noteq> None \<longrightarrow> S2 t' (depth A) = []"
    using Cons.IH [OF 1(2)] Cons.prems(2) by auto
  have "exit_tables (t # ts) s = Some (Inr ((), s2))"
    using 1(1) 2(1) by (subst exit_tables_Cons) (simp add: bindL_def)
  moreover have "\<forall>t' l. S2 t' l = S t' l \<or> S2 t' l = []" using 1(3) 2(3) by metis
  moreover have "exit_of A t \<noteq> None \<longrightarrow> S2 t (depth A) = []" using 1(4) 2(3) by metis
  ultimately show ?case using 2(2,4) by auto
qed

lemma sym_inv_leave:
  fixes s :: "('v, 'u) Syms"
  assumes inv: "sym_inv s B F S" and l: "0 < Level s" and gone: "\<And>t. S t (Level s) = []"
    and s'_def: "s' = s\<lparr>Level := Level s - 1\<rparr>"
  shows "sym_inv s' B F S" "scoped s' B t n = filter (\<lambda>x. fst x < Level s) (scoped s B t n)"
proof -
  have al: "alive s' a \<longleftrightarrow> alive s a \<and> lev s a < Level s" for a
    using l by (auto simp: alive_def lev_def stale_def s'_def)
  have lv: "lev s' = lev s" by (simp add: fun_eq_iff lev_def s'_def)
  have ne: "nested s a b \<Longrightarrow> nested s' a b" for a b by (auto simp: nested_def al lv)
  have srt: "sorted_wrt (nested s) as \<Longrightarrow> sorted_wrt (nested s') as" for as by (rule sorted_wrt_mono_rel) (rule ne)
  have da: "dated s' = dated s" by (simp add: fun_eq_iff dated_def s'_def)
  have scope: "scope_inv s F S" using inv by (simp add: sym_inv_def)
  have "shape_inv s' B F" using inv by (simp add: sym_inv_def shape_inv_def s'_def)
  moreover have "content_inv s' B"
  proof -
    have "current_version s' 0 = 0" "Level s' < MAX_SCOPE_DEPTH" using inv by (auto simp: sym_inv_def content_inv_def s'_def)
    then show ?thesis using inv srt unfolding sym_inv_def content_inv_def da by blast
  qed
  moreover have "scope_inv s' F S"
    unfolding scope_inv_def
  proof (intro allI impI conjI ballI)
    fix t and k :: nat assume k: "0 < k"
    show "scope_at (symbols s') (scopes (tables s' t) k) (S t k)" using scope_invD(1) [OF scope k] by (simp add: s'_def)
    fix a assume a: "a \<in> set (S t k)"
    show "a \<notin> set F" by (rule scope_invD(3) [OF scope k a])
    have "k \<noteq> Level s" using a gone [of t] by auto
    then show "k \<le> Level s'" using scope_invD(2) [OF scope k a] by (simp add: s'_def)
    show "\<exists>c. symbols s' a = Some c \<and> sym_level c = k \<and> sym_version c = current_version s' k"
      using scope_invD(4) [OF scope k a] by (simp add: s'_def)
  qed
  ultimately show "sym_inv s' B F S" by (simp add: sym_inv_def)
  have "alive s' = (\<lambda>a. alive s a \<and> lev s a < Level s)" by (rule ext) (rule al)
  then have "filter (alive s') as = filter (\<lambda>a. lev s a < Level s) (filter (alive s) as)" for as
    by (simp add: conj_commute)
  moreover have "symbols s' = symbols s" by (simp add: s'_def)
  ultimately show "scoped s' B t n = filter (\<lambda>x. fst x < Level s) (scoped s B t n)"
    by (simp add: scoped_def lv filter_map comp_def)
qed

subsection \<open>The steps\<close>

lemma representsD:
  assumes "represents s B F S A"
  shows "sym_inv s B F S" "scoped s B = decls A" "0 < l \<Longrightarrow> map (svar s) (S t l) = made A t l"
    "0 < l \<Longrightarrow> S t l \<noteq> [] \<Longrightarrow> t \<in> set (order A)" "0 < l \<Longrightarrow> S t l \<noteq> [] \<Longrightarrow> exit_of A t \<noteq> None"
    "Level s = depth A" "world s = effects A" "syntax_errors s = errors A" "next_table s = created A" "table_list s = order A"
    "kind (tables s t) = sort_of A t" "shadow_proc (tables s t) = shadow_of A t" "exitscope_proc (tables s t) = exit_of A t"
    "sint (current_version s k) = int (opened A k)"
  using assms by (simp_all add: represents_def)

lemma Enter_step:
  assumes rep: "represents s B F S A" and ok: "permitted Enter A"
  shows "\<exists>s'. perform Enter s = Some (Inr (None, s')) \<and> implements s' (after Enter A)"
proof -
  note r = representsD [OF rep]
  let ?s = "s\<lparr>Level := Level s + 1, current_version := (current_version s)(Level s + 1 := current_version s (Level s + 1) + 1)\<rparr>"
  have l: "Level s + 1 < MAX_SCOPE_DEPTH" "sint (current_version s (Level s + 1)) < 32767"
    using ok r(6) r(14) [of "Level s + 1"] by (simp_all add: MAX_SCOPE_DEPTH_def)
  note en = Enter_run [OF r(1) l]
  have run: "perform Enter s = Some (Inr (None, ?s))" using en(1) by (simp add: bindL_def liftL_def retL_def ret_def)
  have "represents ?s B F S (after Enter A)"
    unfolding represents_def
  proof (intro conjI allI impI)
    show "sym_inv ?s B F S" by (rule en(2))
    show "scoped ?s B = decls (after Enter A)" using en(3) r(2) by simp
    show "map (svar ?s) (S t k) = made (after Enter A) t k" if "0 < k" for t k
    proof -
      have "svar ?s = svar s" by (simp add: fun_eq_iff svar_def)
      then show ?thesis using r(3) [OF that] by simp
    qed
    show "sint (current_version ?s k) = int (opened (after Enter A) k)" for k
      using r(14) [of k] r(14) [of "depth A + 1"] r(6) word_succ [OF l(2)] by simp
  qed (use r in simp_all)
  then show ?thesis using run unfolding implements_def by blast
qed

lemma Leave_step:
  assumes rep: "represents s B F S A"
  shows "\<exists>s'. perform Leave s = Some (Inr (None, s')) \<and> implements s' (after Leave A)"
proof (cases "depth A = 0")
  case True
  note r = representsD [OF rep]
  let ?s = "s\<lparr>syntax_errors := Suc (syntax_errors s)\<rparr>"
  have run: "perform Leave s = Some (Inr (None, ?s))"
    using True r(6) by (simp add: ExitScope_def bindL_def liftL_def retL_def ret_def getM_def modifyM_def)
  have st: "stale ?s = stale s" by (auto simp: fun_eq_iff stale_def)
  have al: "alive ?s = alive s" by (auto simp: fun_eq_iff alive_def st)
  have lv: "lev ?s = lev s" by (auto simp: fun_eq_iff lev_def)
  have ne: "nested ?s = nested s" by (auto simp: fun_eq_iff nested_def al lv)
  have da: "dated ?s = dated s" by (auto simp: fun_eq_iff dated_def)
  have sv: "svar (s\<lparr>syntax_errors := e\<rparr>) = svar s" for e by (simp add: fun_eq_iff svar_def)
  have "sym_inv ?s B F S" using r(1) by (simp add: sym_inv_def shape_inv_def content_inv_def scope_inv_def ne da)
  moreover have "scoped ?s B = scoped s B" by (simp add: fun_eq_iff scoped_def al lv)
  ultimately have "represents ?s B F S (after Leave A)" using rep True by (simp add: represents_def sv)
  then show ?thesis using run unfolding implements_def by blast
next
  case False
  then have d: "0 < depth A" by simp
  obtain s1 S1 where 1: "exit_tables (table_list s) s = Some (Inr ((), s1))" "represents s1 B F S1 (fold farewell (order A) A)"
    "\<forall>t l. S1 t l = S t l \<or> S1 t l = []" "\<forall>t \<in> set (order A). exit_of A t \<noteq> None \<longrightarrow> S1 t (depth A) = []"
    using exit_tables_run [OF rep d, of "table_list s"] representsD(10) [OF rep] by auto
  note r = representsD [OF 1(2)]
  let ?s = "s1\<lparr>Level := Level s1 - 1\<rparr>"
  have l: "Level s1 = depth A" using r(6) by simp
  have gone: "S1 t (Level s1) = []" for t
  proof (rule ccontr)
    assume "S1 t (Level s1) \<noteq> []"
    then have "t \<in> set (order A)" "exit_of A t \<noteq> None" "S1 t (depth A) \<noteq> []" using r(4,5) [of "depth A" t] d l by simp_all
    then show False using 1(4) by blast
  qed
  note le = sym_inv_leave [OF r(1) _ gone refl]
  have run: "perform Leave s = Some (Inr (None, ?s))"
    using False 1(1) representsD(6) [OF rep] by (simp add: ExitScope_def bindL_def liftL_def retL_def ret_def getM_def modifyM_def)
  have "represents ?s B F S1 (after Leave A)"
    unfolding represents_def
  proof (intro conjI allI impI)
    show "sym_inv ?s B F S1" by (rule le(1)) (use d l in simp)
    have "scoped ?s B t n = decls (after Leave A) t n" for t n
      using le(2) [of t n] d l False r(2) by simp
    then show "scoped ?s B = decls (after Leave A)" by blast
    have sv: "svar (s1\<lparr>Level := l\<rparr>) = svar s1" for l by (simp add: fun_eq_iff svar_def)
    show "map (svar ?s) (S1 t k) = made (after Leave A) t k" if "0 < k" for t k
      using r(3) [OF that] False by (simp add: sv)
    show "t \<in> set (order (after Leave A))" "exit_of (after Leave A) t \<noteq> None" if "0 < k" "S1 t k \<noteq> []" for t k
      using r(4,5) [OF that] False by simp_all
  qed (use r False l in simp_all)
  then show ?thesis using run unfolding implements_def by blast
qed

lemma Find_represents:
  assumes rep: "represents s B F S A"
  obtains B' F' s' where "LookupSymbol t n s = Some (Inr (answer (Find t n) A, s'))" "represents s' B' F' S A"
    "\<And>a. a \<in> set (entry n (B' t (hash n))) \<Longrightarrow> alive s' a"
proof -
  note r = representsD [OF rep]
  obtain B' F' s' where 1: "LookupSymbol t n s = Some (Inr (case scoped s B t n of [] \<Rightarrow> None | x # _ \<Rightarrow> Some (snd x), s'))"
    "sym_inv s' B' F' S" "scoped s' B' = scoped s B" "kept s s'" "same_but {} s s'"
    "\<And>a. a \<in> set (entry n (B' t (hash n))) \<Longrightarrow> alive s a"
    by (rule LookupSymbol_run [OF r(1), of t n]) blast
  have scope: "scope_inv s F S" using r(1) by (simp add: sym_inv_def)
  have "represents s' B' F' S A"
    unfolding represents_def
  proof (intro conjI allI impI)
    show "map (svar s') (S t k) = made A t k" if k: "0 < k" for t k
    proof -
      have "svar s' a = svar s a" if "a \<in> set (S t k)" for a
        by (rule svar_same [OF 1(5)]) (use scope_invD(4) [OF scope k that] in auto)
      then show ?thesis using r(3) [OF k, of t] by (metis map_cong)
    qed
  qed (use 1 r in \<open>simp_all add: kept_def\<close>)
  moreover have "alive s' a" if "a \<in> set (entry n (B' t (hash n)))" for a
    using 1(6) [OF that] same_but_contents(1) [OF 1(5), of a] by simp
  ultimately show ?thesis using that 1(1) r(2) by simp
qed

lemma Find_step:
  assumes rep: "represents s B F S A"
  shows "\<exists>s'. perform (Find t n) s = Some (Inr (answer (Find t n) A, s')) \<and> implements s' (after (Find t n) A)"
  by (rule Find_represents [OF rep, of t n]) (auto simp: implements_def)

lemma Declare_step:
  assumes rep: "represents s B F S A" and ok: "permitted (Declare t n v conflict) A"
  shows "\<exists>s'. perform (Declare t n v conflict) s = Some (Inr (answer (Declare t n v conflict) A, s'))
    \<and> implements s' (after (Declare t n v conflict) A)"
proof -
  note r = representsD [OF rep]
  have L: "insert_level s t = level_for A t" using r(6,11) by (simp add: insert_level_def level_for_def)
  have ok': "\<not> conflicts (insert_level s t) (scoped s B t n)" if "conflict = None" using ok that L r(2) by simp
  define A' where "A' = after (Declare t n v conflict) A"
  obtain B' F' S' s' where 1:
    "InsertSymbol t n v conflict s = Some (Inr (fst (declared (insert_level s t) v (scoped s B t n)), s'))" "sym_inv s' B' F' S'"
    "scoped s' B' = (scoped s B)(t := (scoped s B t)(n := snd (declared (insert_level s t) v (scoped s B t n))))"
    "\<And>t' l. 0 < l \<Longrightarrow> map (svar s') (S' t' l) = scoped_with s t (insert_level s t) (\<lambda>t l. map (svar s) (S t l)) v t' l"
    "same_tables s s'" "Level s' = Level s" "current_version s' = current_version s" "syntax_errors s' = syntax_errors s"
    "world s' = insert_effect (shadow_proc (tables s t)) conflict (insert_level s t) v (scoped s B t n) (world s)"
    by (rule InsertSymbol_run [OF r(1), where conflict = conflict]) (use ok' in simp, blast)
  have A: "decls A' = (decls A)(t := (decls A t)(n := snd (declared (level_for A t) v (decls A t n))))"
    "made A' = (if exit_of A t = None then made A else (made A)(t := (made A t)(level_for A t := v # made A t (level_for A t))))"
    "effects A' = insert_effect (shadow_of A t) conflict (level_for A t) v (decls A t n) (effects A)"
    "depth A' = depth A" "opened A' = opened A" "errors A' = errors A" "created A' = created A" "order A' = order A"
    "sort_of A' = sort_of A" "shadow_of A' = shadow_of A" "exit_of A' = exit_of A"
    by (simp_all add: A'_def Let_def)
  have made: "map (svar s') (S' t' k) = made A' t' k" if k: "0 < k" for t' k
    using 1(4) [OF k, of t'] r(3) [OF k, of t'] r(13) [of t] by (auto simp: A scoped_with_def L)
  have "represents s' B' F' S' A'"
    unfolding represents_def
  proof (intro conjI allI impI)
    show "scoped s' B' = decls A'" using 1(3) r(2) by (simp only: A L)
    show "map (svar s') (S' t' k) = made A' t' k" if "0 < k" for t' k by (rule made [OF that])
    show "world s' = effects A'" using 1(9) r(2,7,12) by (simp only: A L)
    have new: "t' = t \<and> exit_of A t \<noteq> None" if "0 < k" "S' t' k \<noteq> []" "S t' k = []" for t' k
    proof -
      have "made A' t' k \<noteq> []" "made A t' k = []" using made [OF that(1), of t'] r(3) [OF that(1), of t'] that by auto
      then show ?thesis by (auto simp: A split: if_splits)
    qed
    show "t' \<in> set (order A')" "exit_of A' t' \<noteq> None" if "0 < k" "S' t' k \<noteq> []" for t' k
      unfolding A using new [OF that] r(4,5) [OF that(1), of t'] ok by auto
  qed (use 1 r in \<open>auto simp: A same_tables_def\<close>)
  moreover have "perform (Declare t n v conflict) s = Some (Inr (answer (Declare t n v conflict) A, s'))"
    using 1(1) r(2) by (simp add: L bindL_def liftL_def retL_def ret_def)
  ultimately show ?thesis unfolding implements_def A'_def by blast
qed

lemma chain_at_None: "chain_at h None B None \<Longrightarrow> B = []"
proof (cases B)
  case (Cons e C)
  assume "chain_at h None B None"
  then show ?thesis using Cons by (cases e) (auto dest: shadows_at_hd)
qed simp

lemma Create_step:
  fixes s :: "('v, 'u) Syms"
  assumes rep: "represents s B F S A"
  shows "\<exists>s'. perform (Create k sh ex) s = Some (Inr (None, s')) \<and> implements s' (after (Create k sh ex) A)"
proof -
  note r = representsD [OF rep]
  define t where "t = next_table s"
  define T where "T = \<lparr>buckets = (\<lambda>_. None), kind = k, scopes = (\<lambda>_. None), shadow_proc = sh, exitscope_proc = ex\<rparr>"
  define s' where "s' = s\<lparr>next_table := t + 1, table_list := t # table_list s, tables := (tables s)(t := T)\<rparr>"
  define A' where "A' = after (Create k sh ex) A"
  let ?B = "B(t := (\<lambda>_. []))" and ?S = "S(t := (\<lambda>_. []))"
  have run: "perform (Create k sh ex) s = Some (Inr (None, s'))"
    by (simp add: NewSymbolTable_def bindL_def liftL_def retL_def ret_def Let_def s'_def T_def t_def)
  have sy: "symbols s' = symbols s" "current_version s' = current_version s" "Level s' = Level s" "sym_free s' = sym_free s"
    "sym_limit s' = sym_limit s" "tables s' = (tables s)(t := T)" "world s' = world s" "syntax_errors s' = syntax_errors s"
    "next_table s' = t + 1" "table_list s' = t # table_list s"
    by (simp_all add: s'_def)
  have st: "stale s' = stale s" by (auto simp: fun_eq_iff stale_def sy)
  have al: "alive s' = alive s" by (auto simp: fun_eq_iff alive_def st sy)
  have lv: "lev s' = lev s" by (auto simp: fun_eq_iff lev_def sy)
  have ne: "nested s' = nested s" by (auto simp: fun_eq_iff nested_def al lv)
  have sv: "svar s' = svar s" by (simp add: fun_eq_iff svar_def sy)
  have da: "dated s' t' a = dated s t' a" if "t' \<noteq> t" for t' a using that by (simp add: dated_def sy)
  have scope: "scope_inv s F S" using r(1) by (simp add: sym_inv_def)
  have "shape_inv s' ?B F" using r(1) by (auto simp: sym_inv_def shape_inv_def sy T_def)
  moreover have "content_inv s' ?B"
  proof -
    have "sorted_wrt (nested s') (snd e) \<and> (\<forall>a \<in> set (snd e). dated s' t' a)" if "e \<in> set (?B t' b)" for e t' b
      using that r(1) da by (auto simp: sym_inv_def content_inv_def ne split: if_splits)
    then show ?thesis using r(1) by (auto simp: sym_inv_def content_inv_def sy)
  qed
  moreover have "scope_inv s' F ?S"
    unfolding scope_inv_def
  proof (intro allI impI conjI ballI)
    fix t' and l :: nat assume l: "0 < l"
    show "scope_at (symbols s') (scopes (tables s' t') l) (?S t' l)" using scope_invD(1) [OF scope l, of t'] by (simp add: sy T_def)
    fix a assume "a \<in> set (?S t' l)"
    then have a: "a \<in> set (S t' l)" by (auto split: if_splits)
    show "a \<notin> set F" "l \<le> Level s'" "\<exists>c. symbols s' a = Some c \<and> sym_level c = l \<and> sym_version c = current_version s' l"
      unfolding sy using scope_invD(2-4) [OF scope l a] by blast+
  qed
  ultimately have inv: "sym_inv s' ?B F ?S" by (simp add: sym_inv_def)
  have A: "decls A' = (decls A)(t := (\<lambda>_. []))" "made A' = (made A)(t := (\<lambda>_. []))" "depth A' = depth A" "opened A' = opened A"
    "errors A' = errors A" "effects A' = effects A" "created A' = t + 1" "order A' = t # order A" "sort_of A' = (sort_of A)(t := k)"
    "shadow_of A' = (shadow_of A)(t := sh)" "exit_of A' = (exit_of A)(t := ex)"
    using r(9) by (simp_all add: A'_def Let_def t_def)
  have "represents s' ?B F ?S A'"
    unfolding represents_def
  proof (intro conjI allI impI)
    show "sym_inv s' ?B F ?S" by (rule inv)
    have "scoped s' ?B t' n = decls A' t' n" for t' n
      by (cases "t' = t") (simp_all add: A r(2) [symmetric] scoped_def al lv sy)
    then show "scoped s' ?B = decls A'" by blast
    show "t' \<in> set (order A')" "exit_of A' t' \<noteq> None" if "0 < l" "?S t' l \<noteq> []" for t' l
      using that r(4,5) [OF that(1), of t'] by (auto simp: A split: if_splits)
  qed (use r in \<open>auto simp: A sy sv T_def\<close>)
  then show ?thesis using run unfolding implements_def A'_def by blast
qed

lemma perform_step:
  assumes "implements s A" "permitted r A"
  shows "\<exists>s'. perform r s = Some (Inr (answer r A, s')) \<and> implements s' (after r A)"
proof -
  obtain B F S where rep: "represents s B F S A" using assms(1) unfolding implements_def by blast
  show ?thesis
  proof (cases r)
    case (Create k sh ex)
    then show ?thesis using Create_step [OF rep] by (simp only: answer.simps)
  next
    case Enter
    then show ?thesis using Enter_step [OF rep] assms(2) by (simp only: answer.simps)
  next
    case Leave
    then show ?thesis using Leave_step [OF rep] by (simp only: answer.simps)
  next
    case (Declare t n v f)
    then show ?thesis using Declare_step [OF rep] assms(2) by (simp only:)
  next
    case (Find t n)
    then show ?thesis using Find_step [OF rep] by (simp only:)
  qed
qed

subsection \<open>Sequences of requests\<close>

interpretation scopes: simulation perform permitted answer after implements
  by unfold_locales (rule perform_step)

text \<open>The translator starts with no tables and no symbols.\<close>

definition no_symbols :: "'v Symbol \<Rightarrow> 'u \<Rightarrow> ('v, 'u) Syms" where
  "no_symbols z u = \<lparr>symbols = (\<lambda>_. None), sym_free = None, sym_limit = 0, zero_symbol = z,
     tables = (\<lambda>_. \<lparr>buckets = (\<lambda>_. None), kind = Nested, scopes = (\<lambda>_. None), shadow_proc = None, exitscope_proc = None\<rparr>),
     next_table = 0, table_list = [], Level = 0, current_version = (\<lambda>_. 0), name_counter = 0, syntax_errors = 0, world = u\<rparr>"

definition no_scopes :: "'u \<Rightarrow> ('v, 'u) Scopes" where
  "no_scopes u = \<lparr>decls = (\<lambda>_ _. []), made = (\<lambda>_ _. []), depth = 0, opened = (\<lambda>_. 0), errors = 0, effects = u, created = 0, order = [],
     sort_of = (\<lambda>_. Nested), shadow_of = (\<lambda>_. None), exit_of = (\<lambda>_. None)\<rparr>"

lemma no_symbols_implement: "implements (no_symbols z u) (no_scopes u)"
proof -
  have "represents (no_symbols z u) (\<lambda>_ _. []) [] (\<lambda>_ _. []) (no_scopes u)"
    by (simp add: represents_def sym_inv_def shape_inv_def content_inv_def scope_inv_def no_symbols_def no_scopes_def
        MAX_SCOPE_DEPTH_def scoped_def fun_eq_iff)
  then show ?thesis unfolding implements_def by blast
qed

text \<open>
  C20: the symbol tables implement nested scopes. From a state of the hash tables that implements the scopes
  \<open>A\<close>, every sequence of creations of tables, scope entries and exits, insertions and look-ups that respects the limits
  (99 nested scopes, 32767 scopes of one level) ends without an error and without an endless loop, gives the answers of the
  specification and ends in a state that implements the specification's scopes, the callbacks included.
\<close>

theorem symbol_tables_implement_scopes:
  assumes "implements s A" "permitted_each permitted after rs A"
  shows "\<exists>s'. perform_each perform rs s = Some (Inr (answers_each answer after rs A, s')) \<and> implements s' (fold after rs A)"
  by (rule scopes.run [OF assms])

definition ex_requests :: "(nat, nat) request list" where
  "ex_requests = [Create Nested None (Some (\<lambda>v u. u + v)), Declare 0 8 1 None, Enter, Find 0 8, Declare 0 8 2 None, Declare 0 72 5 None,
     Find 0 8, Find 0 72, Leave, Find 0 8, Find 0 72]"

lemma ex_requests_permitted: "permitted_each permitted after ex_requests (no_scopes 0)"
  by (simp add: ex_requests_def no_scopes_def level_for_def conflicts_def Let_def)

definition blank_symbol :: "nat Symbol" where
  "blank_symbol = \<lparr>sym_name = 0, sym_var = 0, sym_level = 0, sym_version = 0, sym_next = None, sym_shadow = None, sym_scope_next = None\<rparr>"

theorem symbol_tables_implement_scopes_witness:
  "\<exists>s'. perform_each perform ex_requests (no_symbols blank_symbol 0)
     = Some (Inr ([None, Some 1, None, Some 1, Some 2, Some 5, Some 2, Some 5, None, Some 1, None], s')) \<and> world s' = 7"
proof -
  obtain s' where s': "perform_each perform ex_requests (no_symbols blank_symbol 0) = Some (Inr (answers_each answer after ex_requests (no_scopes 0), s'))"
    "implements s' (fold after ex_requests (no_scopes 0))"
    using symbol_tables_implement_scopes [OF no_symbols_implement ex_requests_permitted] by blast
  have "answers_each answer after ex_requests (no_scopes 0) = [None, Some 1, None, Some 1, Some 2, Some 5, Some 2, Some 5, None, Some 1, None]"
    by (simp add: ex_requests_def no_scopes_def level_for_def Let_def)
  moreover have "effects (fold after ex_requests (no_scopes 0)) = 7"
    by (simp add: ex_requests_def no_scopes_def level_for_def Let_def farewell_def)
  ultimately show ?thesis using s' by (auto simp: implements_def represents_def)
qed

end
