(* ===== verification/Cc_Scopes_Properties.thy ===== *)
theory Cc_Scopes_Properties
  imports Cc_Scopes
begin

section \<open>Scopes come and go\<close>

subsection \<open>Leaving a scope restores what names mean\<close>

text \<open>The requests between the entry of a scope and its exit: other scopes, look-ups and insertions in nested tables.\<close>

fun inside :: "(nat \<Rightarrow> TableType) \<Rightarrow> nat \<Rightarrow> ('v, 'u) request list \<Rightarrow> bool" where
  "inside K 0 rs \<longleftrightarrow> rs = []"
| "inside K (Suc k) [] \<longleftrightarrow> False"
| "inside K (Suc k) (Enter # rs) \<longleftrightarrow> inside K (Suc (Suc k)) rs"
| "inside K (Suc k) (Leave # rs) \<longleftrightarrow> inside K k rs"
| "inside K (Suc k) (Declare t n v f # rs) \<longleftrightarrow> K t = Nested \<and> inside K (Suc k) rs"
| "inside K (Suc k) (Find t n # rs) \<longleftrightarrow> inside K (Suc k) rs"
| "inside K (Suc k) (Create T sh ex # rs) \<longleftrightarrow> False"

definition tidy :: "('v, 'u) Scopes \<Rightarrow> bool" where
  "tidy A \<longleftrightarrow> (\<forall>t n. \<forall>x \<in> set (decls A t n). fst x \<le> depth A)"

lemma implements_tidy:
  assumes "implements s A"
  shows "tidy A"
proof -
  obtain B F S where rep: "represents s B F S A" using assms unfolding implements_def by blast
  have "lev s a \<le> Level s" if "alive s a" for a using that by (auto simp: alive_def lev_def stale_def)
  then have "\<forall>x \<in> set (scoped s B t n). fst x \<le> Level s" for t n by (auto simp: scoped_def)
  then show ?thesis using representsD(2,6) [OF rep] by (simp add: tidy_def)
qed

fun creates :: "('v, 'u) request \<Rightarrow> bool" where
  "creates (Create k sh ex) \<longleftrightarrow> True"
| "creates _ \<longleftrightarrow> False"

lemma after_sort: "\<not> creates r \<Longrightarrow> sort_of (after r A) = sort_of A"
proof (cases r)
  case Leave
  have "sort_of (fold farewell ts A) = sort_of A" for ts
    by (induction ts arbitrary: A) (simp_all add: farewell_def split: option.split)
  then show ?thesis using Leave by simp
qed (simp_all add: Let_def)

lemma declared_filter: "d < l \<Longrightarrow> filter (\<lambda>x. fst x \<le> d) (snd (declared l v ds)) = filter (\<lambda>x. fst x \<le> d) ds"
  by (cases "(l, v, ds)" rule: declared.cases) auto

lemma declared_levels: "x \<in> set (snd (declared l v ds)) \<Longrightarrow> x \<in> set ds \<or> fst x = l"
  by (cases "(l, v, ds)" rule: declared.cases) (auto split: if_splits)

lemma inside_restores:
  assumes "inside (sort_of A) k rs" "depth A = d + k" "tidy A"
  shows "depth (fold after rs A) = d" "filter (\<lambda>x. fst x \<le> d) (decls A t n) = decls (fold after rs A) t n"
proof -
  have "depth (fold after rs A) = d \<and> (\<forall>t n. filter (\<lambda>x. fst x \<le> d) (decls A t n) = decls (fold after rs A) t n)"
    using assms
  proof (induction rs arbitrary: A k)
    case Nil
    then have "k = 0" by (cases k) auto
    then show ?case using Nil by (auto simp: tidy_def filter_id_conv)
  next
    case (Cons r rs)
    obtain k' where k: "k = Suc k'" using Cons.prems(1) by (cases k) auto
    have noc: "\<not> creates r" using Cons.prems(1) k by (cases r) auto
    have st: "sort_of (after r A) = sort_of A" by (rule after_sort [OF noc])
    have "\<exists>k1. inside (sort_of A) k1 rs \<and> depth (after r A) = d + k1 \<and> tidy (after r A)
        \<and> (\<forall>t n. filter (\<lambda>x. fst x \<le> d) (decls (after r A) t n) = filter (\<lambda>x. fst x \<le> d) (decls A t n))"
    proof (cases r)
      case (Create T sh ex)
      then show ?thesis using noc by simp
    next
      case Enter
      have "tidy (after Enter A)" using Cons.prems(3) by (fastforce simp: tidy_def)
      then show ?thesis using Enter Cons.prems k by (intro exI [of _ "Suc (Suc k')"]) simp
    next
      case Leave
      have "tidy (after Leave A)" using Cons.prems(2) k by (auto simp: tidy_def)
      moreover have "(\<lambda>x :: nat \<times> 'a. fst x < Suc (d + k') \<and> fst x \<le> d) = (\<lambda>x. fst x \<le> d)" by (rule ext) auto
      ultimately show ?thesis using Leave Cons.prems k by (intro exI [of _ k']) simp
    next
      case (Declare t n v f)
      have l: "level_for A t = depth A" using Cons.prems(1) k Declare by (simp add: level_for_def)
      have "tidy (after r A)" using Cons.prems(3) by (auto simp: tidy_def Declare Let_def l dest!: declared_levels)
      moreover have "filter (\<lambda>x. fst x \<le> d) (decls (after r A) t' m) = filter (\<lambda>x. fst x \<le> d) (decls A t' m)" for t' m
        using Cons.prems(2) k by (simp add: Declare Let_def l declared_filter)
      moreover have "depth (after r A) = depth A" by (simp add: Declare Let_def)
      ultimately show ?thesis using Declare Cons.prems k by (intro exI [of _ "Suc k'"]) simp
    next
      case (Find t n)
      then show ?thesis using Cons.prems k by (intro exI [of _ "Suc k'"]) simp
    qed
    then obtain k1 where 1: "inside (sort_of (after r A)) k1 rs" "depth (after r A) = d + k1" "tidy (after r A)"
      "\<forall>t n. filter (\<lambda>x. fst x \<le> d) (decls (after r A) t n) = filter (\<lambda>x. fst x \<le> d) (decls A t n)"
      using st by auto
    show ?case using Cons.IH [OF 1(1-3)] 1(4) by simp
  qed
  then show "depth (fold after rs A) = d" "filter (\<lambda>x. fst x \<le> d) (decls A t n) = decls (fold after rs A) t n" by blast+
qed

lemma answer_of_find: "implements s A \<Longrightarrow> \<exists>s'. LookupSymbol t n s = Some (Inr (answer (Find t n) A, s'))"
  using perform_step [of s A "Find t n"] by auto

text \<open>
  C21: leaving a scope restores the meaning of every name: after a scope was entered, worked in (with inner scopes, all of them
  left again) and left, a look-up of any name in any table gives what it gave before.
\<close>

theorem leaving_a_scope_restores_names:
  assumes "implements s A" "inside (sort_of A) 1 rs" "permitted_each permitted after (Enter # rs) A"
  shows "\<exists>as s' x s1 s2. perform_each perform (Enter # rs) s = Some (Inr (as, s'))
    \<and> LookupSymbol t n s = Some (Inr (x, s1)) \<and> LookupSymbol t n s' = Some (Inr (x, s2))"
proof -
  let ?A = "fold after (Enter # rs) A"
  obtain s' where s': "perform_each perform (Enter # rs) s = Some (Inr (answers_each answer after (Enter # rs) A, s'))" "implements s' ?A"
    using scopes.run [OF assms(1,3)] by blast
  have tidy: "tidy A" by (rule implements_tidy [OF assms(1)])
  have "tidy (after Enter A)" using tidy by (fastforce simp: tidy_def)
  then have "filter (\<lambda>x. fst x \<le> depth A) (decls (after Enter A) t n) = decls (fold after rs (after Enter A)) t n"
    using inside_restores(2) [of "after Enter A" 1 rs "depth A"] assms(2) by simp
  then have "decls ?A t n = decls A t n" using tidy by (simp add: tidy_def filter_id_conv)
  then have "answer (Find t n) ?A = answer (Find t n) A" by simp
  then show ?thesis using s'(1) answer_of_find [OF assms(1), of t n] answer_of_find [OF s'(2), of t n] by metis
qed

definition ex_outer :: "(nat, nat) Scopes" where
  "ex_outer = fold after [Create Nested None None, Declare 0 8 1 None] (no_scopes 0)"

definition ex_inner :: "(nat, nat) request list" where
  "ex_inner = [Declare 0 8 3 None, Enter, Declare 0 8 4 None, Leave, Leave]"

theorem leaving_a_scope_restores_names_witness:
  "inside (sort_of ex_outer) 1 ex_inner \<and> permitted_each permitted after (Enter # ex_inner) ex_outer
   \<and> (\<exists>s as s' x s1 s2. implements s ex_outer \<and> perform_each perform (Enter # ex_inner) s = Some (Inr (as, s'))
     \<and> LookupSymbol 0 8 s = Some (Inr (x, s1)) \<and> LookupSymbol 0 8 s' = Some (Inr (x, s2)))"
proof -
  have ok: "permitted_each permitted after [Create Nested None None, Declare 0 8 1 None] (no_scopes (0 :: nat) :: (nat, nat) Scopes)"
    by (simp add: no_scopes_def level_for_def conflicts_def Let_def)
  obtain s where s: "implements s ex_outer"
    using scopes.run [OF no_symbols_implement [of blank_symbol] ok] unfolding ex_outer_def by blast
  have 1: "inside (sort_of ex_outer) 1 ex_inner" by (simp add: ex_outer_def ex_inner_def no_scopes_def level_for_def Let_def)
  have 2: "permitted_each permitted after (Enter # ex_inner) ex_outer"
    by (simp add: ex_outer_def ex_inner_def no_scopes_def level_for_def conflicts_def Let_def)
  show ?thesis using leaving_a_scope_restores_names [OF s 1 2, of 0 8] s 1 2 by blast
qed

subsection \<open>The versions wrap\<close>

lemma find_head:
  assumes inv: "sym_inv s1 B F S" and entry: "entry n (B t (hash n)) = a # as" and c: "symbols s1 a = Some c"
    and s2: "s2 = s1\<lparr>Level := l, current_version := cv\<rparr>" and alive: "\<not> stale s2 c"
  shows "\<exists>s3. LookupSymbol t n s2 = Some (Inr (Some (sym_var c), s3))"
proof -
  let ?b = "hash n"
  have shape: "shape_inv s1 B F" using inv by (simp add: sym_inv_def)
  have "n \<in> fst ` set (B t ?b)" using entry entry_absent [of n "B t ?b"] by auto
  then obtain B1 es B2 where split: "B t ?b = B1 @ (n, es) # B2" "n \<notin> fst ` set B1" by (rule entry_found)
  have dist: "distinct (map fst (B1 @ (n, es) # B2))" using shape_invD(2) [OF shape, of t ?b] split(1) by simp
  have es: "es = a # as" using entry_split(1) [OF dist] entry split(1) by simp
  have sy: "symbols s2 = symbols s1" "tables s2 = tables s1" by (simp_all add: s2)
  have chain: "chain_at (symbols s2) (buckets (tables s2 t) ?b) (B1 @ (n, es) # B2) None"
    using shape_invD(1) [OF shape, of t ?b] by (simp add: sy split(1))
  obtain q where q: "chain_at (symbols s2) (buckets (tables s2 t) ?b) B1 q" using chain by (auto simp: chain_at_append)
  have find: "find_name n (Bucket t ?b) (buckets (tables s2 t) ?b) s2 = Some (Inr (Some (handle_of (Bucket t ?b) B1, a), s2))"
    using find_name_run [OF chain split(2)] by (simp add: es)
  have drop: "drop_stale (Some a) s2 = Some (Inr (Some a, s2))"
    using alive c by (simp add: drop_stale.simps [of "Some a"] sy)
  have set: "set_handle (handle_of (Bucket t ?b) B1) (Some a) s2 = Inr ((), at_handle t ?b (handle_of (Bucket t ?b) B1) (Some a) s2)"
    by (rule set_handle_run [OF q])
  have "symbols (at_handle t ?b (handle_of (Bucket t ?b) B1) (Some a) s2) a \<noteq> None" using c by (auto simp: at_handle_symbols sy)
  then obtain c' where c': "symbols (at_handle t ?b (handle_of (Bucket t ?b) B1) (Some a) s2) a = Some c'" by auto
  show ?thesis
    using find drop set c c' alive
    by (simp add: LookupSymbol_def bindL_def bindM_def liftL_def getM_def get_sym_def assertM_def guardM_def upd_sym_def ret_def sy)
qed

lemma all_alive:
  assumes "length (filter P xs) = length xs" "x \<in> set xs"
  shows "P x"
proof (rule ccontr)
  assume "\<not> P x"
  then have "length (filter P xs) < length xs" using length_filter_less [OF assms(2)] by blast
  then show False using assms(1) by simp
qed

text \<open>
  C22: the version of a scope has 16 bits. After 32767 scopes of one level the next one has a version that is
  smaller than all before: a declaration of the scope just left is not stale any more, and a look-up in the new scope finds it,
  where the specification finds only the outer declarations.
\<close>

theorem declaration_outlives_its_scope:
  assumes "implements s A" "0 < depth A" "opened A (depth A) = 32767" "decls A t n = (depth A, v) # r"
  shows "\<exists>s'. perform_each perform [Find t n, Leave, Enter, Find t n] s = Some (Inr ([Some v, None, None, Some v], s'))"
proof -
  let ?d = "depth A"
  obtain B F S where rep: "represents s B F S A" using assms(1) unfolding implements_def by blast
  obtain B' F' s0 where 0: "LookupSymbol t n s = Some (Inr (Some v, s0))" "represents s0 B' F' S A"
    "\<And>a. a \<in> set (entry n (B' t (hash n))) \<Longrightarrow> alive s0 a"
    by (rule Find_represents [OF rep, of t n]) (use assms(4) in simp)
  obtain s1 S1 where 1: "exit_tables (table_list s0) s0 = Some (Inr ((), s1))" "represents s1 B' F' S1 (fold farewell (order A) A)"
    using exit_tables_run [OF 0(2) assms(2), of "table_list s0"] representsD(10) [OF 0(2)] by auto
  note r = representsD [OF 1(2)]
  let ?es = "entry n (B' t (hash n))"
  have sc: "scoped s0 B' t n = (?d, v) # r" "scoped s1 B' t n = (?d, v) # r"
    using representsD(2) [OF 0(2)] r(2) assms(4) by simp_all
  have "filter (alive s0) ?es = ?es" using 0(3) by (simp add: filter_id_conv)
  then have "length ?es = length (scoped s0 B' t n)" by (simp add: scoped_def)
  moreover have "length (filter (alive s1) ?es) = length (scoped s1 B' t n)" by (simp add: scoped_def)
  ultimately have len: "length (filter (alive s1) ?es) = length ?es" using sc by simp
  then have "filter (alive s1) ?es = ?es" using all_alive [OF len] by (simp add: filter_id_conv)
  then have "map (\<lambda>a. (lev s1 a, svar s1 a)) ?es = (?d, v) # r" using sc(2) by (simp add: scoped_def svar_def)
  then obtain a as where a: "?es = a # as" "lev s1 a = ?d" "svar s1 a = v" by auto
  then have "alive s1 a" using all_alive [OF len] by simp
  then obtain c where c: "symbols s1 a = Some c" "sym_level c = ?d" "sym_var c = v" using a by (auto simp: alive_def lev_def svar_def)
  let ?cv = "current_version s1"
  let ?s2 = "s1\<lparr>Level := ?d, current_version := ?cv(?d := ?cv ?d + 1)\<rparr>"
  have cv: "sint (?cv ?d + 1) = - 32768"
  proof -
    have "sint (?cv ?d) = sint (32767 :: 16 word)" using r(14) [of ?d] assms(3) by simp
    then have "?cv ?d = 32767" by (simp only: signed_word_eqI)
    then show ?thesis by simp
  qed
  have lv: "Level s1 = ?d" "Level s0 = ?d" "?d < MAX_SCOPE_DEPTH"
    using r(6) representsD(1,6) [OF 0(2)] by (simp_all add: sym_inv_def content_inv_def)
  have leave: "perform Leave s0 = Some (Inr (None, s1\<lparr>Level := ?d - 1\<rparr>))"
    using 1(1) lv assms(2) by (simp add: ExitScope_def bindL_def liftL_def retL_def ret_def getM_def modifyM_def)
  have enter: "perform Enter (s1\<lparr>Level := ?d - 1\<rparr>) = Some (Inr (None, ?s2))"
    using lv assms(2) by (simp add: EnterScope_def bindL_def bindM_def liftL_def retL_def ret_def modifyM_def guardM_def)
  have "- 32768 \<le> sint (sym_version c)" using sint_ge [of "sym_version c"] by simp
  then have "\<not> stale ?s2 c" using c(2) cv by (simp add: stale_def)
  then obtain s3 where "LookupSymbol t n ?s2 = Some (Inr (Some v, s3))"
    using find_head [OF r(1) a(1) c(1) refl] c(3) by blast
  then show ?thesis using 0(1) leave enter by (simp add: bindL_def retL_def ret_def liftL_def)
qed

text \<open>A translator that has already left 32766 scopes of the first level.\<close>

definition worn_symbols :: "nat Symbol \<Rightarrow> (nat, nat) Syms" where
  "worn_symbols z = (no_symbols z 0)\<lparr>current_version := (\<lambda>l. if l = 1 then 32766 else 0)\<rparr>"

definition worn_scopes :: "(nat, nat) Scopes" where
  "worn_scopes = (no_scopes 0)\<lparr>opened := (\<lambda>l. if l = 1 then 32766 else 0)\<rparr>"

definition ex_last :: "(nat, nat) Scopes" where
  "ex_last = fold after [Create Nested None None, Enter, Declare 0 8 5 None] worn_scopes"

lemma worn_symbols_implement: "implements (worn_symbols z) worn_scopes"
proof -
  have "represents (worn_symbols z) (\<lambda>_ _. []) [] (\<lambda>_ _. []) worn_scopes"
    by (simp add: represents_def sym_inv_def shape_inv_def content_inv_def scope_inv_def worn_symbols_def worn_scopes_def
        no_symbols_def no_scopes_def MAX_SCOPE_DEPTH_def scoped_def fun_eq_iff)
  then show ?thesis unfolding implements_def by blast
qed

theorem declaration_outlives_its_scope_witness:
  "depth ex_last = 1 \<and> opened ex_last 1 = 32767 \<and> decls ex_last 0 8 = [(1, 5)]
   \<and> answers_each answer after [Find 0 8, Leave, Enter, Find 0 8] ex_last = [Some 5, None, None, None]
   \<and> (\<exists>s s'. implements s ex_last \<and> perform_each perform [Find 0 8, Leave, Enter, Find 0 8] s = Some (Inr ([Some 5, None, None, Some 5], s')))"
proof -
  have ok: "permitted_each permitted after [Create Nested None None, Enter, Declare 0 8 5 None] worn_scopes"
    by (simp add: worn_scopes_def no_scopes_def level_for_def conflicts_def Let_def)
  obtain s where s: "implements s ex_last"
    using scopes.run [OF worn_symbols_implement [of blank_symbol] ok] unfolding ex_last_def by blast
  have 1: "depth ex_last = 1" "opened ex_last 1 = 32767" "decls ex_last 0 8 = [(1, 5)]"
    by (simp_all add: ex_last_def worn_scopes_def no_scopes_def level_for_def Let_def)
  have 2: "answers_each answer after [Find 0 8, Leave, Enter, Find 0 8] ex_last = [Some 5, None, None, None]"
    by (simp add: ex_last_def worn_scopes_def no_scopes_def level_for_def Let_def)
  have "\<exists>s'. perform_each perform [Find 0 8, Leave, Enter, Find 0 8] s = Some (Inr ([Some 5, None, None, Some 5], s'))"
    by (rule declaration_outlives_its_scope [OF s]) (use 1 in simp_all)
  then show ?thesis using s 1 2 by blast
qed

end
