(* ===== verification/Cc_Trees.thy ===== *)
theory Cc_Trees
  imports Cc_Ast Cc_Strings
begin

section \<open>Syntax trees and the walks over them (cilk2c/ast.h, astModify.h)\<close>

text \<open>
  The whole abstract syntax tree, as the functions that compare, search and match trees see it. A node has
  its wildcard type, the fields of its kind that are not links to children, and its links: \<open>One\<close> is a
  \<open>ChildNode *\<close>, \<open>Many\<close> a \<open>ChildList *\<close>, in the order in which the walks follow them (\<open>NULL\<close> is the empty
  list, since a list of the translator has at least one cell). Left out are the fields that neither the
  walks nor the comparisons read: coordinates, data flow, the links across the tree. An implicit cast
  has the address of the type that \<open>NodeDataType\<close> finds for it, a goto the name of its label.
\<close>

datatype WildcardType = WildcardD | WildcardE | WildcardT | NonWildcard

datatype shape =
    ConstNode cvalue | idNode "c_string option" | binopNode OpType | unaryNode OpType | castNode | commaNode
  | constructorNode | ternaryNode | arrayNode | callNode | initializerNode | implicitcastNode nat
  | labelNode "c_string option" | SwitchNode | CaseNode | DefaultNode | IfNode | IfElseNode | WhileNode | DoNode
  | ForNode | GotoNode "c_string option option" | ContinueNode | BreakNode | ReturnNode | BlockNode
  | primNode TypeQual BasicType | tdefNode "c_string option" TypeQual | ptrNode TypeQual | adclNode TypeQual
  | fdclNode TypeQual | sdclNode TypeQual "c_string option" | udclNode TypeQual "c_string option"
  | edclNode TypeQual "c_string option"
  | asmNode TypeQual | asmargNode | builtinvaargNode
  | spawnNode OpType bool | syncNode | inletcallNode bool | abortNode | synchedNode | XBlockNode
  | declNode "c_string option" TypeQual | attribNode "c_string option" | procNode | textNode "c_string option"

text \<open>The place of a node's kind in the enumeration \<open>NodeType\<close>.\<close>

definition node_type :: "shape \<Rightarrow> nat" where
  "node_type s = (case s of
      ConstNode _ \<Rightarrow> 0 | idNode _ \<Rightarrow> 1 | binopNode _ \<Rightarrow> 2 | unaryNode _ \<Rightarrow> 3 | castNode \<Rightarrow> 4 | commaNode \<Rightarrow> 5
    | constructorNode \<Rightarrow> 6 | ternaryNode \<Rightarrow> 7 | arrayNode \<Rightarrow> 8 | callNode \<Rightarrow> 9 | initializerNode \<Rightarrow> 10 | implicitcastNode _ \<Rightarrow> 11
    | labelNode _ \<Rightarrow> 12 | SwitchNode \<Rightarrow> 13 | CaseNode \<Rightarrow> 14 | DefaultNode \<Rightarrow> 15 | IfNode \<Rightarrow> 16 | IfElseNode \<Rightarrow> 17 | WhileNode \<Rightarrow> 18
    | DoNode \<Rightarrow> 19 | ForNode \<Rightarrow> 20 | GotoNode _ \<Rightarrow> 21 | ContinueNode \<Rightarrow> 22 | BreakNode \<Rightarrow> 23 | ReturnNode \<Rightarrow> 24 | BlockNode \<Rightarrow> 25
    | primNode _ _ \<Rightarrow> 26 | tdefNode _ _ \<Rightarrow> 27 | ptrNode _ \<Rightarrow> 28 | adclNode _ \<Rightarrow> 29 | fdclNode _ \<Rightarrow> 30 | sdclNode _ _ \<Rightarrow> 31
    | udclNode _ _ \<Rightarrow> 32 | edclNode _ _ \<Rightarrow> 33 | asmNode _ \<Rightarrow> 34 | asmargNode \<Rightarrow> 35 | builtinvaargNode \<Rightarrow> 36
    | spawnNode _ _ \<Rightarrow> 37 | syncNode \<Rightarrow> 38 | inletcallNode _ \<Rightarrow> 39 | abortNode \<Rightarrow> 40 | synchedNode \<Rightarrow> 41 | XBlockNode \<Rightarrow> 42
    | declNode _ _ \<Rightarrow> 43 | attribNode _ \<Rightarrow> 44 | procNode \<Rightarrow> 45 | textNode _ \<Rightarrow> 46)"

lemma node_type_simps [simp]:
  "node_type (ConstNode a) = 0" "node_type (idNode b) = 1" "node_type (binopNode c) = 2" "node_type (unaryNode d) = 3"
  "node_type castNode = 4" "node_type commaNode = 5" "node_type constructorNode = 6" "node_type ternaryNode = 7"
  "node_type arrayNode = 8" "node_type callNode = 9" "node_type initializerNode = 10" "node_type (implicitcastNode e) = 11"
  "node_type (labelNode f) = 12" "node_type SwitchNode = 13" "node_type CaseNode = 14" "node_type DefaultNode = 15"
  "node_type IfNode = 16" "node_type IfElseNode = 17" "node_type WhileNode = 18" "node_type DoNode = 19" "node_type ForNode = 20"
  "node_type (GotoNode g) = 21" "node_type ContinueNode = 22" "node_type BreakNode = 23" "node_type ReturnNode = 24"
  "node_type BlockNode = 25" "node_type (primNode h i) = 26" "node_type (tdefNode j k) = 27" "node_type (ptrNode l) = 28"
  "node_type (adclNode m) = 29" "node_type (fdclNode n) = 30" "node_type (sdclNode p q) = 31" "node_type (udclNode r s) = 32"
  "node_type (edclNode t u) = 33" "node_type (asmNode v) = 34" "node_type asmargNode = 35" "node_type builtinvaargNode = 36"
  "node_type (spawnNode w x) = 37" "node_type syncNode = 38" "node_type (inletcallNode y) = 39" "node_type abortNode = 40"
  "node_type synchedNode = 41" "node_type XBlockNode = 42" "node_type (declNode z a1) = 43" "node_type (attribNode b1) = 44"
  "node_type procNode = 45" "node_type (textNode c1) = 46"
  by (simp_all add: node_type_def)

datatype ast = Node (wTyp: WildcardType) (shape_of: shape) (links: "link list")
and link = One "ast option" | Many "ast option list"

text \<open>The links of each kind of node.\<close>

datatype link_kind = Child | Children

definition link_kinds :: "shape \<Rightarrow> link_kind list" where
  "link_kinds s = (case s of
      ConstNode _ \<Rightarrow> [Child] | binopNode _ \<Rightarrow> [Child, Child] | unaryNode _ \<Rightarrow> [Child] | castNode \<Rightarrow> [Child, Child]
    | commaNode \<Rightarrow> [Children] | constructorNode \<Rightarrow> [Child, Child] | ternaryNode \<Rightarrow> [Child, Child, Child]
    | arrayNode \<Rightarrow> [Child, Children] | callNode \<Rightarrow> [Child, Children] | initializerNode \<Rightarrow> [Children]
    | implicitcastNode _ \<Rightarrow> [Child] | SwitchNode \<Rightarrow> [Child, Child] | CaseNode \<Rightarrow> [Child] | IfNode \<Rightarrow> [Child, Child]
    | IfElseNode \<Rightarrow> [Child, Child, Child] | WhileNode \<Rightarrow> [Child, Child] | DoNode \<Rightarrow> [Child, Child]
    | ForNode \<Rightarrow> [Child, Child, Child, Child] | ReturnNode \<Rightarrow> [Child] | BlockNode \<Rightarrow> [Children, Children]
    | ptrNode _ \<Rightarrow> [Child] | adclNode _ \<Rightarrow> [Child, Child] | fdclNode _ \<Rightarrow> [Children, Child]
    | sdclNode _ _ \<Rightarrow> [Children] | udclNode _ _ \<Rightarrow> [Children] | edclNode _ _ \<Rightarrow> [Children]
    | asmNode _ \<Rightarrow> [Child, Children, Children, Children] | asmargNode \<Rightarrow> [Child, Child] | builtinvaargNode \<Rightarrow> [Child, Child]
    | spawnNode _ _ \<Rightarrow> [Child, Child, Children] | inletcallNode _ \<Rightarrow> [Child, Children] | XBlockNode \<Rightarrow> [Children, Children]
    | declNode _ _ \<Rightarrow> [Child, Child, Child] | attribNode _ \<Rightarrow> [Children] | procNode \<Rightarrow> [Child, Child]
    | _ \<Rightarrow> [])"

fun kind_of_link :: "link \<Rightarrow> link_kind" where
  "kind_of_link (One _) = Child"
| "kind_of_link (Many _) = Children"

text \<open>
  The fields of a struct, union or enum declarator are its children when the qualifier says that it
  elaborates them.
\<close>

definition walked :: "shape \<Rightarrow> bool" where
  "walked s = (case s of sdclNode q _ \<Rightarrow> tq_has_sue_elaborated q | udclNode q _ \<Rightarrow> tq_has_sue_elaborated q
     | edclNode q _ \<Rightarrow> tq_has_sue_elaborated q | _ \<Rightarrow> True)"

text \<open>
  Before following a link a walk asks \<open>CONTINUE\<close> whether to go on, and stops the walk of this node if not:
  \<open>guards\<close> says for which links it asks. It never does for the first link, nor for the second list of a
  block, the result type of a function and the lists of an \<open>asm\<close> after the first.
\<close>

definition guards :: "shape \<Rightarrow> bool list" where
  "guards s = (case s of BlockNode \<Rightarrow> [False, False] | XBlockNode \<Rightarrow> [False, False] | fdclNode _ \<Rightarrow> [False, False]
     | asmNode _ \<Rightarrow> [False, True, False, False] | _ \<Rightarrow> [False, True, True, True])"

subsection \<open>Walking two trees\<close>

text \<open>
  The macros \<open>DUAL_LIST_WALK\<close> and \<open>DUAL_AST_WALK\<close>: \<open>code\<close> is called on the corresponding children and
  changes the answer, \<open>cont\<close> and \<open>failcode\<close> are the other two parameters. Elements of the two lists are
  left out of the comparison where one of them is \<open>NULL\<close>. When the second node is of another kind than
  the first, reading its links is undefined: \<open>undef\<close>.
\<close>

fun dual_list_loop :: "(ast option \<Rightarrow> ast option \<Rightarrow> 'a \<Rightarrow> 'a) \<Rightarrow> ('a \<Rightarrow> bool) \<Rightarrow> ('a \<Rightarrow> 'a) \<Rightarrow> ast option list \<Rightarrow> ast option list \<Rightarrow> 'a \<Rightarrow> 'a" where
  "dual_list_loop code cont failcode (x # xs) (y # ys) a =
     (if cont a then dual_list_loop code cont failcode xs ys (if x \<noteq> None \<and> y \<noteq> None then code x y a else a) else failcode a)"
| "dual_list_loop code cont failcode [] [] a = a"
| "dual_list_loop code cont failcode _ _ a = failcode a"

definition dual_list_walk :: "(ast option \<Rightarrow> ast option \<Rightarrow> 'a \<Rightarrow> 'a) \<Rightarrow> ('a \<Rightarrow> bool) \<Rightarrow> ('a \<Rightarrow> 'a) \<Rightarrow> ast option list \<Rightarrow> ast option list \<Rightarrow> 'a \<Rightarrow> 'a" where
  "dual_list_walk code cont failcode l1 l2 a =
     (if (l1 = []) \<noteq> (l2 = []) then failcode a else dual_list_loop code cont failcode l1 l2 a)"

fun dual_links :: "(ast option \<Rightarrow> ast option \<Rightarrow> 'a \<Rightarrow> 'a) \<Rightarrow> ('a \<Rightarrow> bool) \<Rightarrow> ('a \<Rightarrow> 'a) \<Rightarrow> ('a \<Rightarrow> 'a) \<Rightarrow> bool list \<Rightarrow> link list \<Rightarrow> link list \<Rightarrow> 'a \<Rightarrow> 'a" where
  "dual_links code cont failcode undef (g # gs) (One x # xs) (One y # ys) a =
     (if g \<and> \<not> cont a then a else dual_links code cont failcode undef gs xs ys (code x y a))"
| "dual_links code cont failcode undef (g # gs) (Many l # xs) (Many r # ys) a =
     (if g \<and> \<not> cont a then a else dual_links code cont failcode undef gs xs ys (dual_list_walk code cont failcode l r a))"
| "dual_links code cont failcode undef gs [] [] a = a"
| "dual_links code cont failcode undef gs _ _ a = undef a"

definition dual_ast_walk :: "(ast option \<Rightarrow> ast option \<Rightarrow> 'a \<Rightarrow> 'a) \<Rightarrow> ('a \<Rightarrow> bool) \<Rightarrow> ('a \<Rightarrow> 'a) \<Rightarrow> ('a \<Rightarrow> 'a) \<Rightarrow> ast \<Rightarrow> ast \<Rightarrow> 'a \<Rightarrow> 'a" where
  "dual_ast_walk code cont failcode undef n1 n2 a =
     (if link_kinds (shape_of n1) = [] then a
      else if node_type (shape_of n1) \<noteq> node_type (shape_of n2) then undef a
      else if walked (shape_of n1) \<and> walked (shape_of n2) then
        dual_links code cont failcode undef (guards (shape_of n1)) (links n1) (links n2) a
      else a)"

subsection \<open>Walking one tree\<close>

text \<open>
  The macros \<open>LISTWALKTWO\<close> and \<open>ASTWALKTWO\<close>; the second node is only handed on, so it is part of \<open>code\<close>.
  A constructor expression and a \<open>va_arg\<close> have no case: \<open>unrecognized\<close> is the \<open>FAIL\<close> of the default case.
\<close>

fun list_loop_two :: "(ast option \<Rightarrow> 'a \<Rightarrow> 'a) \<Rightarrow> ('a \<Rightarrow> bool) \<Rightarrow> ast option list \<Rightarrow> 'a \<Rightarrow> 'a" where
  "list_loop_two code cont (x # xs) a =
     (if cont a then list_loop_two code cont xs (if x \<noteq> None then code x a else a) else a)"
| "list_loop_two code cont [] a = a"

definition list_walk_two :: "(ast option \<Rightarrow> 'a \<Rightarrow> 'a) \<Rightarrow> ('a \<Rightarrow> bool) \<Rightarrow> ('a \<Rightarrow> 'a) \<Rightarrow> ast option list \<Rightarrow> 'a \<Rightarrow> 'a" where
  "list_walk_two code cont failcode l a = (if l = [] then failcode a else list_loop_two code cont l a)"

fun links_two :: "(ast option \<Rightarrow> 'a \<Rightarrow> 'a) \<Rightarrow> ('a \<Rightarrow> bool) \<Rightarrow> ('a \<Rightarrow> 'a) \<Rightarrow> bool list \<Rightarrow> link list \<Rightarrow> 'a \<Rightarrow> 'a" where
  "links_two code cont failcode (g # gs) (One x # xs) a =
     (if g \<and> \<not> cont a then a else links_two code cont failcode gs xs (code x a))"
| "links_two code cont failcode (g # gs) (Many l # xs) a =
     (if g \<and> \<not> cont a then a else links_two code cont failcode gs xs (list_walk_two code cont failcode l a))"
| "links_two code cont failcode gs _ a = a"

definition ast_walk_two :: "(ast option \<Rightarrow> 'a \<Rightarrow> 'a) \<Rightarrow> ('a \<Rightarrow> bool) \<Rightarrow> ('a \<Rightarrow> 'a) \<Rightarrow> ('a \<Rightarrow> 'a) \<Rightarrow> ast \<Rightarrow> 'a \<Rightarrow> 'a" where
  "ast_walk_two code cont failcode unrecognized n a =
     (if shape_of n = constructorNode \<or> shape_of n = builtinvaargNode then unrecognized a
      else if walked (shape_of n) then links_two code cont failcode (guards (shape_of n)) (links n) a
      else a)"

subsection \<open>The children of a node\<close>

text \<open>The walks call \<open>code\<close> on children only, which are smaller: the recursions over them end.\<close>

fun nodes_of :: "link \<Rightarrow> ast option list" where
  "nodes_of (One x) = [x]"
| "nodes_of (Many xs) = xs"

definition kids :: "ast \<Rightarrow> ast option list" where
  "kids n = concat (map nodes_of (links n))"

lemma kid_smaller: "Some m \<in> set (kids n) \<Longrightarrow> size m < size n"
proof (cases n)
  case (Node w s ls)
  have el: "Some m \<in> set xs \<Longrightarrow> size m < size_list (size_option size) xs" for m :: ast and xs
    by (induction xs) auto
  have li: "Some m \<in> set (nodes_of l) \<Longrightarrow> size m < size l" for m l
    by (cases l) (auto dest: el)
  have "l \<in> set ls \<Longrightarrow> size l < Suc (size_list size ls)" for l
    by (induction ls) auto
  then show "Some m \<in> set (kids n) \<Longrightarrow> size m < size n"
    using li Node by (fastforce simp: kids_def)
qed

lemma kid_size [termination_simp]: "x \<in> set (kids n) \<Longrightarrow> size_option size x \<le> size n"
proof (cases x)
  case None
  then show ?thesis by (cases n) simp
qed (auto dest: kid_smaller)

lemma dual_list_loop_cong:
  assumes "\<And>x y a. x \<in> set l1 \<Longrightarrow> y \<in> set l2 \<Longrightarrow> f x y a = g x y a"
  shows "dual_list_loop f cont failcode l1 l2 a = dual_list_loop g cont failcode l1 l2 a"
  using assms by (induction f cont failcode l1 l2 a rule: dual_list_loop.induct) auto

lemma dual_links_cong:
  assumes "\<And>x y a. x \<in> set (concat (map nodes_of l1)) \<Longrightarrow> y \<in> set (concat (map nodes_of l2)) \<Longrightarrow> f x y a = g x y a"
  shows "dual_links f cont failcode undef gs l1 l2 a = dual_links g cont failcode undef gs l1 l2 a"
  using assms
proof (induction f cont failcode undef gs l1 l2 a rule: dual_links.induct)
  case (2 code cont failcode undef gd gs l xs r ys a)
  have "dual_list_walk code cont failcode l r a = dual_list_walk g cont failcode l r a" for a
    using 2(2) by (auto simp: dual_list_walk_def intro!: dual_list_loop_cong)
  then show ?case using 2 by simp
qed simp_all

lemma dual_ast_walk_cong [fundef_cong]:
  assumes "n1 = m1" "n2 = m2" "a = b" "cont = cont'" "failcode = failcode'" "undef = undef'"
    and "\<And>x y a. x \<in> set (kids m1) \<Longrightarrow> y \<in> set (kids m2) \<Longrightarrow> f x y a = g x y a"
  shows "dual_ast_walk f cont failcode undef n1 n2 a = dual_ast_walk g cont' failcode' undef' m1 m2 b"
  using assms by (auto simp: dual_ast_walk_def kids_def intro!: dual_links_cong)

lemma list_loop_two_cong:
  assumes "\<And>x a. x \<in> set l \<Longrightarrow> f x a = g x a"
  shows "list_loop_two f cont l a = list_loop_two g cont l a"
  using assms by (induction f cont l a rule: list_loop_two.induct) auto

lemma links_two_cong:
  assumes "\<And>x a. x \<in> set (concat (map nodes_of l)) \<Longrightarrow> f x a = g x a"
  shows "links_two f cont failcode gs l a = links_two g cont failcode gs l a"
  using assms
proof (induction f cont failcode gs l a rule: links_two.induct)
  case (2 code cont failcode gd gs l xs a)
  have "list_walk_two code cont failcode l a = list_walk_two g cont failcode l a" for a
    using 2(2) by (auto simp: list_walk_two_def intro!: list_loop_two_cong)
  then show ?case using 2 by simp
qed simp_all

lemma ast_walk_two_cong [fundef_cong]:
  assumes "n = m" "a = b" "cont = cont'" "failcode = failcode'" "unrecognized = unrecognized'"
    and "\<And>x a. x \<in> set (kids m) \<Longrightarrow> f x a = g x a"
  shows "ast_walk_two f cont failcode unrecognized n a = ast_walk_two g cont' failcode' unrecognized' m b"
proof -
  have "links_two f cont failcode gs (links n) a = links_two g cont failcode gs (links n) a" for gs
    using assms(1,6) by (intro links_two_cong) (simp add: kids_def)
  then show ?thesis using assms(1-5) by (simp add: ast_walk_two_def)
qed

end
