(* ===== verification/Cc_Equals.thy ===== *)
theory Cc_Equals
  imports Cc_Trees
begin

section \<open>Comparing and searching trees (cilk2c/astEquals.c)\<close>

text \<open>
  The comparison of two nodes and of two trees, and the three searches for the subtrees that are equal to a tree. The
  replacement of subtrees changes nodes through pointers into the tree and is not modelled.
\<close>

subsection \<open>Equal nodes\<close>

definition EqualStrings :: "'a list option \<Rightarrow> 'a list option \<Rightarrow> bool" where
  "EqualStrings s1 s2 = (case s1 of None \<Rightarrow> s2 = None | Some a \<Rightarrow> (case s2 of None \<Rightarrow> False | Some b \<Rightarrow> a = b))"

definition EqualTypeNodes :: "ast option \<Rightarrow> ast option \<Rightarrow> bool" where
  "EqualTypeNodes u1 u2 = (case u1 of None \<Rightarrow> u2 = None
     | Some a \<Rightarrow> (case u2 of None \<Rightarrow> False | Some b \<Rightarrow> node_type (shape_of a) = node_type (shape_of b)))"

definition EqualPrim :: "TypeQual \<Rightarrow> BasicType \<Rightarrow> TypeQual \<Rightarrow> BasicType \<Rightarrow> bool" where
  "EqualPrim q1 b1 q2 b2 \<longleftrightarrow> tq_equal q1 q2 \<and> b1 = b2"

text \<open>
  The operator \<open>==\<close> of C on a \<open>float\<close> and a \<open>double\<close>, given as the bits of the IEEE formats: nothing
  equals a NaN, and the two zeros are equal.
\<close>

definition nan_f :: "32 word \<Rightarrow> bool" where "nan_f w \<longleftrightarrow> 0x7f800000 < w AND 0x7fffffff"
definition nan_d :: "64 word \<Rightarrow> bool" where "nan_d w \<longleftrightarrow> 0x7ff0000000000000 < w AND 0x7fffffffffffffff"
definition zero_f :: "32 word \<Rightarrow> bool" where "zero_f w \<longleftrightarrow> w AND 0x7fffffff = 0"
definition zero_d :: "64 word \<Rightarrow> bool" where "zero_d w \<longleftrightarrow> w AND 0x7fffffffffffffff = 0"

definition equal_f :: "32 word \<Rightarrow> 32 word \<Rightarrow> bool" where
  "equal_f v w \<longleftrightarrow> \<not> nan_f v \<and> \<not> nan_f w \<and> (v = w \<or> zero_f v \<and> zero_f w)"
definition equal_d :: "64 word \<Rightarrow> 64 word \<Rightarrow> bool" where
  "equal_d v w \<longleftrightarrow> \<not> nan_d v \<and> \<not> nan_d w \<and> (v = w \<or> zero_d v \<and> zero_d w)"

text \<open>
  Two constants of types \<open>t1\<close> and \<open>t2\<close>. The type says which member of the union is read; the model knows
  the member that was written, and reading another one is undefined.
\<close>

definition equal_values :: "BasicType \<Rightarrow> cvalue \<Rightarrow> cvalue \<Rightarrow> cc_fail + bool" where
  "equal_values b v1 v2 = (case b of
      Sint \<Rightarrow> (case (v1, v2) of (Val_i a, Val_i c) \<Rightarrow> Inr (a = c) | _ \<Rightarrow> Inl Undefined)
    | Uint \<Rightarrow> (case (v1, v2) of (Val_u a, Val_u c) \<Rightarrow> Inr (a = c) | _ \<Rightarrow> Inl Undefined)
    | Slong \<Rightarrow> (case (v1, v2) of (Val_l a, Val_l c) \<Rightarrow> Inr (a = c) | _ \<Rightarrow> Inl Undefined)
    | Ulong \<Rightarrow> (case (v1, v2) of (Val_ul a, Val_ul c) \<Rightarrow> Inr (a = c) | _ \<Rightarrow> Inl Undefined)
    | Float \<Rightarrow> (case (v1, v2) of (Val_f a, Val_f c) \<Rightarrow> Inr (equal_f a c) | _ \<Rightarrow> Inl Undefined)
    | Double \<Rightarrow> (case (v1, v2) of (Val_d a, Val_d c) \<Rightarrow> Inr (equal_d a c) | _ \<Rightarrow> Inl Undefined)
    | _ \<Rightarrow> Inr False)"

definition EqualConst :: "cvalue \<Rightarrow> ast option \<Rightarrow> cvalue \<Rightarrow> ast option \<Rightarrow> cc_fail + bool" where
  "EqualConst v1 t1 v2 t2 =
     (if EqualTypeNodes t1 t2 then
        (case (t1, t2) of
           (Some a, Some b) \<Rightarrow>
             (case (shape_of a, shape_of b) of
                (primNode q1 b1, primNode q2 b2) \<Rightarrow> if EqualPrim q1 b1 q2 b2 then equal_values b1 v1 v2 else Inr False
              | (adclNode _, adclNode _) \<Rightarrow>
                  (case (v1, v2) of (Val_s x, Val_s y) \<Rightarrow> Inr (EqualStrings (Some x) (Some y)) | _ \<Rightarrow> Inl Undefined)
              | _ \<Rightarrow> Inr False)
         | _ \<Rightarrow> Inl BadPointer)
      else Inr False)"

text \<open>
  The functions \<open>Equal...\<close> of the other kinds, which compare fields of nodes of the same kind. The kinds that
  are not listed have no field to compare, and their functions return \<open>TRUE\<close>.
\<close>

definition equal_fields :: "shape \<Rightarrow> shape \<Rightarrow> bool" where
  "equal_fields s1 s2 = (case (s1, s2) of
      (idNode t1, idNode t2) \<Rightarrow> EqualStrings t1 t2
    | (binopNode o1, binopNode o2) \<Rightarrow> o1 = o2
    | (unaryNode o1, unaryNode o2) \<Rightarrow> o1 = o2
    | (implicitcastNode t1, implicitcastNode t2) \<Rightarrow> t1 = t2
    | (labelNode t1, labelNode t2) \<Rightarrow> EqualStrings t1 t2
    | (GotoNode l1, GotoNode l2) \<Rightarrow> (case l1 of None \<Rightarrow> l2 = None
        | Some t1 \<Rightarrow> (case l2 of None \<Rightarrow> False | Some t2 \<Rightarrow> EqualStrings t1 t2))
    | (primNode q1 b1, primNode q2 b2) \<Rightarrow> EqualPrim q1 b1 q2 b2
    | (tdefNode t1 q1, tdefNode t2 q2) \<Rightarrow> EqualStrings t1 t2 \<and> tq_equal q1 q2
    | (ptrNode q1, ptrNode q2) \<Rightarrow> tq_equal q1 q2
    | (adclNode q1, adclNode q2) \<Rightarrow> tq_equal q1 q2
    | (fdclNode q1, fdclNode q2) \<Rightarrow> tq_equal q1 q2
    | (sdclNode q1 _, sdclNode q2 _) \<Rightarrow> tq_equal q1 q2
    | (udclNode q1 _, udclNode q2 _) \<Rightarrow> tq_equal q1 q2
    | (edclNode q1 _, edclNode q2 _) \<Rightarrow> tq_equal q1 q2
    | (declNode t1 q1, declNode t2 q2) \<Rightarrow> tq_equal q1 q2 \<and> EqualStrings t1 t2
    | (attribNode t1, attribNode t2) \<Rightarrow> EqualStrings t1 t2
    | (textNode t1, textNode t2) \<Rightarrow> EqualStrings t1 t2
    | (asmNode q1, asmNode q2) \<Rightarrow> tq_equal q1 q2
    | (spawnNode o1 i1, spawnNode o2 i2) \<Rightarrow> o1 = o2 \<and> i1 = i2
    | (inletcallNode i1, inletcallNode i2) \<Rightarrow> i1 = i2
    | _ \<Rightarrow> True)"

definition type_link :: "ast \<Rightarrow> ast option" where
  "type_link n = (case links n of One t # _ \<Rightarrow> t | _ \<Rightarrow> None)"

definition EqualNodes :: "ast option \<Rightarrow> ast option \<Rightarrow> cc_fail + bool" where
  "EqualNodes n1 n2 =
     (if EqualTypeNodes n1 n2 then
        (case (n1, n2) of
           (Some a, Some b) \<Rightarrow>
             (case (shape_of a, shape_of b) of
                (ConstNode v1, ConstNode v2) \<Rightarrow> EqualConst v1 (type_link a) v2 (type_link b)
              | (s1, s2) \<Rightarrow> Inr (equal_fields s1 s2))
         | _ \<Rightarrow> Inr True)
      else Inr False)"

subsection \<open>Equal trees\<close>

text \<open>The answer of a walk is the boolean behind the pointer \<open>answer\<close>, or the failure of a call.\<close>

definition EqualASTContinue :: "cc_fail + bool \<Rightarrow> bool" where
  "EqualASTContinue a \<longleftrightarrow> a = Inr True"

definition EqualASTFailcode :: "cc_fail + bool \<Rightarrow> cc_fail + bool" where
  "EqualASTFailcode a = bindE a (\<lambda>_. Inr False)"

definition failed :: "cc_fail \<Rightarrow> cc_fail + 'a \<Rightarrow> cc_fail + 'a" where
  "failed e a = bindE a (\<lambda>_. Inl e)"

function EqualASTHelper :: "ast option \<Rightarrow> ast option \<Rightarrow> cc_fail + bool \<Rightarrow> cc_fail + bool" where
  "EqualASTHelper n1 n2 a =
     bindE a (\<lambda>b. bindE (EqualNodes n1 n2) (\<lambda>equal.
     if equal then
       (case n1 of None \<Rightarrow> Inr b
        | Some m1 \<Rightarrow> (case n2 of None \<Rightarrow> Inr b
          | Some m2 \<Rightarrow> dual_ast_walk (\<lambda>x y a. EqualASTHelper x y a) EqualASTContinue EqualASTFailcode (failed Undefined) m1 m2 (Inr b)))
     else Inr False))"
  by pat_completeness auto
termination
  by (relation "measure (\<lambda>(n1, n2, a). size_option size n1)") (auto simp: less_Suc_eq_le kid_size)

declare EqualASTHelper.simps [simp del]

definition EqualAST :: "ast option \<Rightarrow> ast option \<Rightarrow> cc_fail + bool" where
  "EqualAST n1 n2 = EqualASTHelper n1 n2 (Inr True)"

fun equal_ast_loop :: "ast option list \<Rightarrow> ast option list \<Rightarrow> cc_fail + bool" where
  "equal_ast_loop (x # xs) (y # ys) = bindE (EqualAST x y) (\<lambda>b. if b then equal_ast_loop xs ys else Inr False)"
| "equal_ast_loop xs ys = Inr (xs = [] \<and> ys = [])"

definition EqualASTList :: "ast option list \<Rightarrow> ast option list \<Rightarrow> cc_fail + bool" where
  "EqualASTList l1 l2 =
     (if l1 = [] \<and> l2 = [] then Inr True
      else if l1 \<noteq> [] \<and> l2 \<noteq> [] then equal_ast_loop l1 l2
      else Inr False)"

subsection \<open>Searching a tree\<close>

definition ContainsASTContinue :: "cc_fail + bool \<Rightarrow> bool" where
  "ContainsASTContinue a \<longleftrightarrow> a = Inr False"

definition ContainsASTFailcode :: "cc_fail + bool \<Rightarrow> cc_fail + bool" where
  "ContainsASTFailcode a = bindE a (\<lambda>_. Inr False)"

function ContainsASTHelper :: "ast \<Rightarrow> ast option \<Rightarrow> cc_fail + bool \<Rightarrow> cc_fail + bool" where
  "ContainsASTHelper n2 n1 a =
     bindE a (\<lambda>b. bindE (EqualAST n1 (Some n2)) (\<lambda>equal.
     if equal then Inr True
     else (case n1 of None \<Rightarrow> Inr b
        | Some m1 \<Rightarrow> ast_walk_two (\<lambda>x a. ContainsASTHelper n2 x a) ContainsASTContinue ContainsASTFailcode (failed Fail) m1 (Inr b))))"
  by pat_completeness auto
termination
  by (relation "measure (\<lambda>(n2, n1, a). size_option size n1)") (auto simp: less_Suc_eq_le kid_size)

declare ContainsASTHelper.simps [simp del]

definition ContainsAST :: "ast option \<Rightarrow> ast option \<Rightarrow> cc_fail + bool" where
  "ContainsAST n1 n2 = (case n2 of None \<Rightarrow> Inr False | Some m2 \<Rightarrow> ContainsASTHelper m2 n1 (Inr False))"

text \<open>The answer is the last match, as a tree. The walk always goes on.\<close>

function ContainsSubtreeHelper :: "ast \<Rightarrow> ast option \<Rightarrow> cc_fail + ast option \<Rightarrow> cc_fail + ast option" where
  "ContainsSubtreeHelper n2 n1 a =
     bindE a (\<lambda>b. bindE (EqualAST n1 (Some n2)) (\<lambda>equal.
     if equal then Inr n1
     else (case n1 of None \<Rightarrow> Inr b
        | Some m1 \<Rightarrow> ast_walk_two (\<lambda>x a. ContainsSubtreeHelper n2 x a) (\<lambda>_. True) (\<lambda>a. a) (failed Fail) m1 (Inr b))))"
  by pat_completeness auto
termination
  by (relation "measure (\<lambda>(n2, n1, a). size_option size n1)") (auto simp: less_Suc_eq_le kid_size)

declare ContainsSubtreeHelper.simps [simp del]

definition ContainsSubtree :: "ast option \<Rightarrow> ast option \<Rightarrow> cc_fail + ast option" where
  "ContainsSubtree n1 n2 = (case n2 of None \<Rightarrow> Inr None | Some m2 \<Rightarrow> ContainsSubtreeHelper m2 n1 (Inr None))"

text \<open>All matches, the last one first; a match is not searched for more.\<close>

function GetAllMatchingSubtreesHelper :: "ast \<Rightarrow> ast option \<Rightarrow> cc_fail + ast option list \<Rightarrow> cc_fail + ast option list" where
  "GetAllMatchingSubtreesHelper n2 n1 a =
     bindE a (\<lambda>ms. bindE (EqualAST n1 (Some n2)) (\<lambda>equal.
     if equal then Inr (if length ms = 0 then [n1] else n1 # ms)
     else (case n1 of None \<Rightarrow> Inr ms
        | Some m1 \<Rightarrow> ast_walk_two (\<lambda>x a. GetAllMatchingSubtreesHelper n2 x a) (\<lambda>_. True) (\<lambda>a. a) (failed Fail) m1 (Inr ms))))"
  by pat_completeness auto
termination
  by (relation "measure (\<lambda>(n2, n1, a). size_option size n1)") (auto simp: less_Suc_eq_le kid_size)

declare GetAllMatchingSubtreesHelper.simps [simp del]

definition GetAllMatchingSubtrees :: "ast option \<Rightarrow> ast option \<Rightarrow> cc_fail + ast option list" where
  "GetAllMatchingSubtrees n1 n2 = (case n2 of None \<Rightarrow> Inr [] | Some m2 \<Rightarrow> GetAllMatchingSubtreesHelper m2 n1 (Inr []))"

end
