(* ===== verification/Cc_Equals_Laws.thy ===== *)
theory Cc_Equals_Laws
  imports Cc_Equals
begin

section \<open>Equality of trees is equality of what they look like\<close>

text \<open>
  \<open>erase\<close> keeps of a tree what the comparison looks at: it forgets the wildcard types, the attributes of the
  qualifiers, the tag names of structs, unions and enums and the fields that a declarator does not elaborate,
  and it makes the negative zeros positive.
\<close>

definition plain :: "TypeQual \<Rightarrow> TypeQual" where
  "plain q = q\<lparr>attributes := None\<rparr>"

fun erase_value :: "cvalue \<Rightarrow> cvalue" where
  "erase_value (Val_f w) = Val_f (if zero_f w then 0 else w)"
| "erase_value (Val_d w) = Val_d (if zero_d w then 0 else w)"
| "erase_value v = v"

definition erase_shape :: "shape \<Rightarrow> shape" where
  "erase_shape s = (case s of
      ConstNode v \<Rightarrow> ConstNode (erase_value v)
    | primNode q b \<Rightarrow> primNode (plain q) b | tdefNode t q \<Rightarrow> tdefNode t (plain q) | ptrNode q \<Rightarrow> ptrNode (plain q)
    | adclNode q \<Rightarrow> adclNode (plain q) | fdclNode q \<Rightarrow> fdclNode (plain q) | sdclNode q _ \<Rightarrow> sdclNode (plain q) None
    | udclNode q _ \<Rightarrow> udclNode (plain q) None | edclNode q _ \<Rightarrow> edclNode (plain q) None | asmNode q \<Rightarrow> asmNode (plain q)
    | declNode t q \<Rightarrow> declNode t (plain q)
    | _ \<Rightarrow> s)"

fun erase :: "ast \<Rightarrow> ast" and erase_link :: "link \<Rightarrow> link" where
  "erase (Node w s ls) = Node NonWildcard (erase_shape s) (if walked s then map erase_link ls else [])"
| "erase_link (One x) = One (map_option erase x)"
| "erase_link (Many xs) = Many (map (map_option erase) xs)"

text \<open>
  The trees that the comparison is meant for: the links are those of the kind, no list has an empty element, and
  a constant has one of the types that the declaration of \<open>ConstNode\<close> requires, with the member of the union
  that belongs to it, which is not a NaN.
\<close>

fun value_fits :: "BasicType \<Rightarrow> cvalue \<Rightarrow> bool" where
  "value_fits Sint (Val_i _) = True"
| "value_fits Uint (Val_u _) = True"
| "value_fits Slong (Val_l _) = True"
| "value_fits Ulong (Val_ul _) = True"
| "value_fits Float (Val_f w) = (\<not> nan_f w)"
| "value_fits Double (Val_d w) = (\<not> nan_d w)"
| "value_fits _ _ = False"

definition constant_fits :: "shape \<Rightarrow> link list \<Rightarrow> bool" where
  "constant_fits s ls = (case s of
      ConstNode v \<Rightarrow> (case ls of
          [One (Some t)] \<Rightarrow> (case shape_of t of primNode _ b \<Rightarrow> value_fits b v | adclNode _ \<Rightarrow> (\<exists>x. v = Val_s x) | _ \<Rightarrow> False)
        | _ \<Rightarrow> False)
    | _ \<Rightarrow> True)"

fun proper :: "ast \<Rightarrow> bool" and proper_link :: "link \<Rightarrow> bool" where
  "proper (Node w s ls) \<longleftrightarrow> map kind_of_link ls = link_kinds s \<and> constant_fits s ls \<and> (\<forall>l \<in> set ls. proper_link l)"
| "proper_link (One x) = (case x of None \<Rightarrow> True | Some n \<Rightarrow> proper n)"
| "proper_link (Many xs) = (\<forall>x \<in> set xs. case x of None \<Rightarrow> False | Some n \<Rightarrow> proper n)"

subsection \<open>The fields\<close>

lemma EqualStrings_eq [simp]: "EqualStrings s1 s2 \<longleftrightarrow> s1 = s2"
  by (auto simp: EqualStrings_def split: option.splits)

lemma tq_equal_plain: "tq_equal q1 q2 \<longleftrightarrow> plain q1 = plain q2"
  by (cases q1; cases q2) (simp add: tq_equal_def plain_def)

lemma erase_node_type [simp]: "node_type (erase_shape s) = node_type s"
  by (cases s) (simp_all add: erase_shape_def node_type_def)

lemma node_type_iff:
  "node_type s = 0 \<longleftrightarrow> (\<exists>t. s = ConstNode t)"
  "node_type s = Suc 0 \<longleftrightarrow> (\<exists>t. s = idNode t)"
  "node_type s = 2 \<longleftrightarrow> (\<exists>t. s = binopNode t)"
  "node_type s = 3 \<longleftrightarrow> (\<exists>t. s = unaryNode t)" "node_type s = 4 \<longleftrightarrow> s = castNode"
  "node_type s = 5 \<longleftrightarrow> s = commaNode" "node_type s = 6 \<longleftrightarrow> s = constructorNode"
  "node_type s = 7 \<longleftrightarrow> s = ternaryNode" "node_type s = 8 \<longleftrightarrow> s = arrayNode"
  "node_type s = 9 \<longleftrightarrow> s = callNode" "node_type s = 10 \<longleftrightarrow> s = initializerNode"
  "node_type s = 11 \<longleftrightarrow> (\<exists>t. s = implicitcastNode t)"
  "node_type s = 12 \<longleftrightarrow> (\<exists>t. s = labelNode t)" "node_type s = 13 \<longleftrightarrow> s = SwitchNode"
  "node_type s = 14 \<longleftrightarrow> s = CaseNode" "node_type s = 15 \<longleftrightarrow> s = DefaultNode"
  "node_type s = 16 \<longleftrightarrow> s = IfNode" "node_type s = 17 \<longleftrightarrow> s = IfElseNode"
  "node_type s = 18 \<longleftrightarrow> s = WhileNode" "node_type s = 19 \<longleftrightarrow> s = DoNode"
  "node_type s = 20 \<longleftrightarrow> s = ForNode" "node_type s = 21 \<longleftrightarrow> (\<exists>t. s = GotoNode t)"
  "node_type s = 22 \<longleftrightarrow> s = ContinueNode" "node_type s = 23 \<longleftrightarrow> s = BreakNode"
  "node_type s = 24 \<longleftrightarrow> s = ReturnNode" "node_type s = 25 \<longleftrightarrow> s = BlockNode"
  "node_type s = 26 \<longleftrightarrow> (\<exists>t u. s = primNode t u)"
  "node_type s = 27 \<longleftrightarrow> (\<exists>t u. s = tdefNode t u)"
  "node_type s = 28 \<longleftrightarrow> (\<exists>t. s = ptrNode t)"
  "node_type s = 29 \<longleftrightarrow> (\<exists>t. s = adclNode t)"
  "node_type s = 30 \<longleftrightarrow> (\<exists>t. s = fdclNode t)"
  "node_type s = 31 \<longleftrightarrow> (\<exists>t u. s = sdclNode t u)"
  "node_type s = 32 \<longleftrightarrow> (\<exists>t u. s = udclNode t u)"
  "node_type s = 33 \<longleftrightarrow> (\<exists>t u. s = edclNode t u)"
  "node_type s = 34 \<longleftrightarrow> (\<exists>t. s = asmNode t)" "node_type s = 35 \<longleftrightarrow> s = asmargNode"
  "node_type s = 36 \<longleftrightarrow> s = builtinvaargNode"
  "node_type s = 37 \<longleftrightarrow> (\<exists>t u. s = spawnNode t u)" "node_type s = 38 \<longleftrightarrow> s = syncNode"
  "node_type s = 39 \<longleftrightarrow> (\<exists>t. s = inletcallNode t)" "node_type s = 40 \<longleftrightarrow> s = abortNode"
  "node_type s = 41 \<longleftrightarrow> s = synchedNode" "node_type s = 42 \<longleftrightarrow> s = XBlockNode"
  "node_type s = 43 \<longleftrightarrow> (\<exists>t u. s = declNode t u)"
  "node_type s = 44 \<longleftrightarrow> (\<exists>t. s = attribNode t)" "node_type s = 45 \<longleftrightarrow> s = procNode"
  "node_type s = 46 \<longleftrightarrow> (\<exists>t. s = textNode t)"
  by (cases s, simp_all)+

lemma equal_label:
  "(case x of None \<Rightarrow> y = None | Some a \<Rightarrow> (case y of None \<Rightarrow> False | Some b \<Rightarrow> EqualStrings a b)) \<longleftrightarrow> x = y"
  by (auto split: option.splits)

lemma equal_fields_erase:
  assumes "node_type s2 = node_type s1" "\<forall>v. s1 \<noteq> ConstNode v"
  shows "equal_fields s1 s2 \<longleftrightarrow> erase_shape s1 = erase_shape s2"
  using assms
  by (cases s1) (auto simp: node_type_iff equal_fields_def erase_shape_def EqualPrim_def tq_equal_plain equal_label)

lemma equal_values_erase:
  assumes "value_fits b v1" "value_fits b v2"
  shows "equal_values b v1 v2 = Inr (erase_value v1 = erase_value v2)"
proof -
  have "\<not> nan_f w \<Longrightarrow> \<not> nan_f u \<Longrightarrow> zero_f w \<noteq> zero_f u \<Longrightarrow> w \<noteq> u" for w u by auto
  show ?thesis
    using assms by (cases b; cases v1; cases v2) (auto simp: equal_values_def equal_f_def equal_d_def zero_f_def zero_d_def)
qed

lemma erase_sel: "shape_of (erase n) = erase_shape (shape_of n)"
  by (cases n) simp

lemma constant_cases:
  assumes "constant_fits (ConstNode v) ls"
  obtains (prim) t q b where "ls = [One (Some t)]" "shape_of t = primNode q b" "value_fits b v"
    | (string) t q x where "ls = [One (Some t)]" "shape_of t = adclNode q" "v = Val_s x"
proof -
  obtain l where "ls = [l]" using assms by (cases ls rule: remdups_adj.cases) (auto simp: constant_fits_def split: link.splits option.splits)
  moreover from this obtain x where "l = One x" using assms by (cases l) (auto simp: constant_fits_def)
  ultimately obtain t where t: "ls = [One (Some t)]" using assms by (cases x) (auto simp: constant_fits_def)
  then have "case shape_of t of primNode _ b \<Rightarrow> value_fits b v | adclNode _ \<Rightarrow> \<exists>x. v = Val_s x | _ \<Rightarrow> False"
    using assms by (simp add: constant_fits_def)
  then show ?thesis using that t by (cases "shape_of t") auto
qed

lemma EqualNodes_erase:
  assumes "proper a" "proper b"
  obtains e where "EqualNodes (Some a) (Some b) = Inr e" "e \<Longrightarrow> erase_shape (shape_of a) = erase_shape (shape_of b)"
    "erase a = erase b \<Longrightarrow> e"
proof (cases "node_type (shape_of b) = node_type (shape_of a)")
  case False
  moreover have "erase a \<noteq> erase b"
  proof
    assume "erase a = erase b"
    then have "erase_shape (shape_of a) = erase_shape (shape_of b)" by (metis erase_sel)
    then show False using False erase_node_type by metis
  qed
  moreover have "EqualNodes (Some a) (Some b) = Inr False" using False by (simp add: EqualNodes_def EqualTypeNodes_def)
  ultimately show ?thesis using that by blast
next
  case same: True
  obtain wa sa la wb sb lb where n: "a = Node wa sa la" "b = Node wb sb lb" by (cases a; cases b) blast
  show ?thesis
  proof (cases "\<exists>v. sa = ConstNode v")
    case False
    have "EqualNodes (Some a) (Some b) = Inr (equal_fields sa sb)"
      using False same n by (auto simp: EqualNodes_def EqualTypeNodes_def split: shape.split)
    moreover have "equal_fields sa sb \<longleftrightarrow> erase_shape sa = erase_shape sb"
      by (rule equal_fields_erase) (use same n False in auto)
    ultimately show ?thesis using that n by simp
  next
    case True
    then obtain va vb where v: "sa = ConstNode va" "sb = ConstNode vb" using same n by (auto simp: node_type_iff)
    have ok: "constant_fits sa la" "constant_fits sb lb" using assms n by simp_all
    obtain ta where ta: "la = [One (Some ta)]" using ok(1) v(1) by (auto elim: constant_cases)
    obtain tb where tb: "lb = [One (Some tb)]" using ok(2) v(2) by (auto elim: constant_cases)
    note t = ta tb
    have nodes: "EqualNodes (Some a) (Some b) = EqualConst va (Some ta) vb (Some tb)"
      using n v t by (simp add: EqualNodes_def EqualTypeNodes_def type_link_def)
    have er: "erase a = erase b \<longleftrightarrow> erase_value va = erase_value vb \<and> erase ta = erase tb"
      using n v t by (simp add: erase_shape_def walked_def)
    have sh: "erase_shape sa = erase_shape sb \<longleftrightarrow> erase_value va = erase_value vb" using v by (simp add: erase_shape_def)
    note answer = that
    have done_eq: thesis if "EqualConst va (Some ta) vb (Some tb) = Inr (erase_value va = erase_value vb)"
    proof (rule answer)
      show "EqualNodes (Some a) (Some b) = Inr (erase_value va = erase_value vb)" using nodes that by simp
      show "erase_shape (shape_of a) = erase_shape (shape_of b)" if "erase_value va = erase_value vb" using sh that n by simp
      show "erase_value va = erase_value vb" if "erase a = erase b" using er that by blast
    qed
    have done_ne: thesis if "EqualConst va (Some ta) vb (Some tb) = Inr False" "erase ta \<noteq> erase tb"
    proof (rule answer)
      show "EqualNodes (Some a) (Some b) = Inr False" using nodes that(1) by simp
      show "False" if "erase a = erase b" using er that \<open>erase ta \<noteq> erase tb\<close> by blast
    qed simp
    have tt: "erase ta = erase tb \<Longrightarrow> erase_shape (shape_of ta) = erase_shape (shape_of tb)" by (metis erase_sel)
    show ?thesis
    proof (cases "node_type (shape_of tb) = node_type (shape_of ta)")
      case False
      then have "EqualConst va (Some ta) vb (Some tb) = Inr False" by (simp add: EqualConst_def EqualTypeNodes_def)
      moreover have "erase ta \<noteq> erase tb" using tt erase_node_type False by metis
      ultimately show ?thesis by (rule done_ne)
    next
      case True
      consider (prim) qa ba qb bb where "shape_of ta = primNode qa ba" "shape_of tb = primNode qb bb" "value_fits ba va" "value_fits bb vb"
        | (string) qa qb x y where "shape_of ta = adclNode qa" "shape_of tb = adclNode qb" "va = Val_s x" "vb = Val_s y"
        using ok [unfolded v] True t by (elim constant_cases) auto
      then show ?thesis
      proof cases
        case prim
        show ?thesis
        proof (cases "EqualPrim qa ba qb bb")
          case True
          then have "EqualConst va (Some ta) vb (Some tb) = Inr (erase_value va = erase_value vb)"
            using prim equal_values_erase [of ba va vb] by (simp add: EqualConst_def EqualTypeNodes_def EqualPrim_def)
          then show ?thesis by (rule done_eq)
        next
          case False
          then have "EqualConst va (Some ta) vb (Some tb) = Inr False" "erase ta \<noteq> erase tb"
            using prim tt by (auto simp: EqualConst_def EqualTypeNodes_def EqualPrim_def erase_shape_def tq_equal_plain)
          then show ?thesis by (rule done_ne)
        qed
      next
        case string
        then have "EqualConst va (Some ta) vb (Some tb) = Inr (erase_value va = erase_value vb)"
          by (simp add: EqualConst_def EqualTypeNodes_def)
        then show ?thesis by (rule done_eq)
      qed
    qed
  qed
qed

end
