(* ===== verification/Cc_Equals_Properties.thy ===== *)
theory Cc_Equals_Properties
  imports Cc_Equals_Laws
begin

section \<open>What the comparison and the searches answer\<close>

text \<open>
  The comparison is equality of the erased trees; the searches find the outermost matches; and what goes wrong with a
  list that is \<open>NULL\<close>.
\<close>

subsection \<open>The comparison\<close>

lemma list_all2_images: "list_all2 (\<lambda>x y. f x = f y) xs ys \<longleftrightarrow> map f xs = map f ys"
  by (induction xs arbitrary: ys) (auto simp: list_all2_Cons1 Cons_eq_map_conv)

lemma equal_answers [simp]: "EqualASTContinue (Inr b) = b" "EqualASTFailcode (Inr b) = Inr False" "failed e (Inr x) = Inl e"
  by (simp_all add: EqualASTContinue_def EqualASTFailcode_def failed_def)

lemma dual_list_walk_conj:
  assumes "\<And>x y b. x \<in> set l1 \<Longrightarrow> y \<in> set l2 \<Longrightarrow> code x y (Inr b) = Inr (b \<and> R x y)" "None \<notin> set l1" "None \<notin> set l2"
  shows "dual_list_walk code EqualASTContinue EqualASTFailcode l1 l2 (Inr b) = Inr (b \<and> list_all2 R l1 l2)"
proof -
  have "dual_list_loop code EqualASTContinue EqualASTFailcode l1 l2 (Inr b) = Inr (b \<and> list_all2 R l1 l2)"
    using assms
  proof (induction l1 arbitrary: l2 b)
    case Nil
    then show ?case by (cases l2) (auto)
  next
    case (Cons x xs)
    show ?case
    proof (cases l2)
      case Nil
      then show ?thesis by simp
    next
      case (Cons y ys)
      have "code x y (Inr b) = Inr (b \<and> R x y)" for b using Cons.prems(1) Cons by simp
      then have "dual_list_loop code EqualASTContinue EqualASTFailcode xs ys (code x y (Inr True)) = Inr (R x y \<and> list_all2 R xs ys)"
        using Cons.IH [of ys "R x y"] Cons.prems Cons by simp
      then show ?thesis using Cons Cons.prems by (cases b) auto
    qed
  qed
  then show ?thesis by (cases l1; cases l2) (auto simp: dual_list_walk_def)
qed

fun link_rel :: "(ast option \<Rightarrow> ast option \<Rightarrow> bool) \<Rightarrow> link \<Rightarrow> link \<Rightarrow> bool" where
  "link_rel R (One x) (One y) = R x y"
| "link_rel R (Many xs) (Many ys) = list_all2 R xs ys"
| "link_rel R _ _ = False"

lemma dual_links_conj:
  assumes "\<And>x y b. x \<in> set (concat (map nodes_of l1)) \<Longrightarrow> y \<in> set (concat (map nodes_of l2)) \<Longrightarrow> code x y (Inr b) = Inr (b \<and> R x y)"
    and "map kind_of_link l1 = map kind_of_link l2" "length l1 \<le> length gs"
    and "\<And>xs. Many xs \<in> set l1 \<union> set l2 \<Longrightarrow> None \<notin> set xs"
  shows "dual_links code EqualASTContinue EqualASTFailcode undef gs l1 l2 (Inr b) = Inr (b \<and> list_all2 (link_rel R) l1 l2)"
  using assms
proof (induction l1 arbitrary: gs l2 b)
  case Nil
  then show ?case by simp
next
  case (Cons l ls)
  obtain r rs where l2: "l2 = r # rs" "kind_of_link l = kind_of_link r" "map kind_of_link ls = map kind_of_link rs"
    using Cons.prems(2) by (cases l2) auto
  obtain g gs' where gs: "gs = g # gs'" "length ls \<le> length gs'" using Cons.prems(3) by (cases gs) auto
  have IH: "dual_links code EqualASTContinue EqualASTFailcode undef gs' ls rs (Inr b) = Inr (b \<and> list_all2 (link_rel R) ls rs)" for b
    by (rule Cons.IH) (use Cons.prems l2 gs in auto)
  show ?case
  proof (cases l)
    case (One x)
    then obtain y where y: "r = One y" using l2 by (cases r) auto
    have "code x y (Inr b) = Inr (b \<and> R x y)" for b using Cons.prems(1) One l2 y by simp
    then show ?thesis using One y gs l2 IH by auto
  next
    case (Many xs)
    then obtain ys where y: "r = Many ys" using l2 by (cases r) auto
    have "dual_list_walk code EqualASTContinue EqualASTFailcode xs ys (Inr b) = Inr (b \<and> list_all2 R xs ys)" for b
      by (rule dual_list_walk_conj) (use Cons.prems Many l2 y in auto)
    then show ?thesis using Many y gs l2 IH by auto
  qed
qed

lemma guards_enough: "length (link_kinds s) \<le> length (guards s)"
  by (cases s) (simp_all add: link_kinds_def guards_def)

lemma erase_shape_keeps [simp]: "walked (erase_shape s) = walked s" "link_kinds (erase_shape s) = link_kinds s"
  by (cases s; simp add: erase_shape_def walked_def link_kinds_def plain_def tq_has_sue_elaborated_def bit_is_set_def)+

definition proper_opt :: "ast option \<Rightarrow> bool" where
  "proper_opt x = (case x of None \<Rightarrow> True | Some n \<Rightarrow> proper n)"

lemma proper_opt_simps [simp]: "proper_opt None" "proper_opt (Some n) = proper n"
  by (simp_all add: proper_opt_def)

lemma proper_kids:
  assumes "proper n"
  shows "x \<in> set (kids n) \<Longrightarrow> proper_opt x" "Many xs \<in> set (links n) \<Longrightarrow> None \<notin> set xs"
    "map kind_of_link (links n) = link_kinds (shape_of n)"
proof -
  have l: "proper_link l" if "l \<in> set (links n)" for l using assms that by (cases n) simp
  show "proper_opt x" if "x \<in> set (kids n)"
  proof -
    obtain l where m: "l \<in> set (links n)" "x \<in> set (nodes_of l)" using \<open>x \<in> set (kids n)\<close> by (auto simp: kids_def)
    have "proper_link l \<Longrightarrow> x \<in> set (nodes_of l) \<Longrightarrow> proper_opt x"
      by (cases l; cases x) auto
    then show ?thesis using l m by blast
  qed
  show "None \<notin> set xs" if "Many xs \<in> set (links n)" using l [OF that] by auto
  show "map kind_of_link (links n) = link_kinds (shape_of n)" using assms by (cases n) simp
qed

lemma link_rel_erase: "link_rel (\<lambda>x y. map_option erase x = map_option erase y) = (\<lambda>l r. erase_link l = erase_link r)"
proof (intro ext)
  show "link_rel (\<lambda>x y. map_option erase x = map_option erase y) l r = (erase_link l = erase_link r)" for l r
    by (cases l; cases r) (simp_all add: list_all2_images)
qed

lemma EqualASTHelper_erase:
  assumes "proper_opt x" "proper_opt y"
  shows "EqualASTHelper x y (Inr b) = Inr (b \<and> map_option erase x = map_option erase y)"
  using assms
proof (induction "size_option size x" arbitrary: x y b rule: less_induct)
  case less
  show ?case
  proof (cases "x = None \<or> y = None")
    case True
    then show ?thesis by (cases x; cases y) (auto simp: EqualASTHelper.simps [of "Some _"] EqualASTHelper.simps [of None] EqualNodes_def EqualTypeNodes_def)
  next
    case False
    then obtain m n where xy: "x = Some m" "y = Some n" by auto
    then have p: "proper m" "proper n" using less.prems by simp_all
    obtain e where e: "EqualNodes (Some m) (Some n) = Inr e" "e \<Longrightarrow> erase_shape (shape_of m) = erase_shape (shape_of n)"
      "erase m = erase n \<Longrightarrow> e" using EqualNodes_erase [OF p] by blast
    show ?thesis
    proof (cases e)
      case False
      then show ?thesis using e xy by (auto simp: EqualASTHelper.simps [of "Some m"])
    next
      case True
      then have sh: "erase_shape (shape_of m) = erase_shape (shape_of n)" by (rule e(2))
      have same: "walked (shape_of m) = walked (shape_of n)" "link_kinds (shape_of m) = link_kinds (shape_of n)"
        "node_type (shape_of m) = node_type (shape_of n)"
        using sh erase_shape_keeps erase_node_type by metis+
      have er: "erase m = erase n \<longleftrightarrow> (walked (shape_of m) \<longrightarrow> map erase_link (links m) = map erase_link (links n))"
        using sh same(1) by (cases m; cases n) auto
      have step: "EqualASTHelper u v (Inr b) = Inr (b \<and> map_option erase u = map_option erase v)"
        if "u \<in> set (kids m)" "v \<in> set (kids n)" for u v b
        by (rule less.hyps) (use that kid_size [OF that(1)] proper_kids(1) p xy in auto)
      have "dual_links EqualASTHelper EqualASTContinue EqualASTFailcode (failed Undefined) (guards (shape_of m)) (links m) (links n) (Inr b)
        = Inr (b \<and> list_all2 (link_rel (\<lambda>x y. map_option erase x = map_option erase y)) (links m) (links n))"
      proof (rule dual_links_conj)
        show "map kind_of_link (links m) = map kind_of_link (links n)" using proper_kids(3) p same(2) by simp
        have "length (links m) = length (link_kinds (shape_of m))" using proper_kids(3) [OF p(1)] by (metis length_map)
        then show "length (links m) \<le> length (guards (shape_of m))" using guards_enough by simp
      qed (use step proper_kids(2) p in \<open>auto simp: kids_def\<close>)
      then have "dual_ast_walk EqualASTHelper EqualASTContinue EqualASTFailcode (failed Undefined) m n (Inr b) = Inr (b \<and> erase m = erase n)"
        using er same proper_kids(3) [OF p(1)] proper_kids(3) [OF p(2)]
        by (auto simp: dual_ast_walk_def link_rel_erase list_all2_images)
      then show ?thesis using xy e True by (simp add: EqualASTHelper.simps [of "Some m"])
    qed
  qed
qed

lemma EqualAST_erased: "proper_opt x \<Longrightarrow> proper_opt y \<Longrightarrow> EqualAST x y = Inr (map_option erase x = map_option erase y)"
  by (simp add: EqualAST_def EqualASTHelper_erase)

text \<open>
  C24: two trees are equal for \<open>EqualAST\<close> exactly if they look the same: if they are equal once the parts that are
  not compared are erased. The comparison fails no pointer access and reads no wrong member of a constant.
\<close>

theorem EqualAST_is_equality_of_erased_trees:
  assumes "proper_opt x" "proper_opt y"
  shows "EqualAST x y = Inr (map_option erase x = map_option erase y)"
  using assms by (rule EqualAST_erased)

corollary EqualAST_is_an_equivalence:
  assumes "proper_opt x" "proper_opt y" "proper_opt z"
  shows "EqualAST x x = Inr True" "EqualAST x y = EqualAST y x"
    "EqualAST x y = Inr True \<Longrightarrow> EqualAST y z = Inr True \<Longrightarrow> EqualAST x z = Inr True"
  using assms by (auto simp: EqualAST_erased)

subsection \<open>The searches\<close>

text \<open>
  The children that a walk visits, and the matches of a tree: the subtrees that look like the tree searched for,
  from left to right, without those inside another match.
\<close>

definition children :: "ast \<Rightarrow> ast list" where
  "children n = (if walked (shape_of n) then map the (filter (\<lambda>x. x \<noteq> None) (kids n)) else [])"

lemma children_kids: "m \<in> set (children n) \<Longrightarrow> Some m \<in> set (kids n)"
  by (auto simp: children_def split: if_splits)

lemma child_smaller [termination_simp]: "m \<in> set (children n) \<Longrightarrow> size m < size n"
  by (blast dest: children_kids kid_smaller)

fun matches :: "ast \<Rightarrow> ast \<Rightarrow> ast list" where
  "matches p n = (if erase n = erase p then [n] else concat (map (\<lambda>m. matches p m) (children n)))"

fun all_nodes :: "(ast \<Rightarrow> bool) \<Rightarrow> ast \<Rightarrow> bool" where
  "all_nodes P n \<longleftrightarrow> P n \<and> (\<forall>m \<in> set (children n). all_nodes P m)"

declare matches.simps [simp del] all_nodes.simps [simp del]

lemma at_node:
  "matches p (Node w s ls) = (if erase (Node w s ls) = erase p then [Node w s ls] else concat (map (\<lambda>m. matches p m) (children (Node w s ls))))"
  "all_nodes P (Node w s ls) \<longleftrightarrow> P (Node w s ls) \<and> (\<forall>m \<in> set (children (Node w s ls)). all_nodes P m)"
  by (rule matches.simps, rule all_nodes.simps)

text \<open>Trees that a search can walk: they have no constructor expression and no \<open>va_arg\<close>.\<close>

definition recognized :: "ast \<Rightarrow> bool" where
  "recognized n \<longleftrightarrow> shape_of n \<noteq> constructorNode \<and> shape_of n \<noteq> builtinvaargNode"

text \<open>A walk that always goes on calls \<open>code\<close> on the children from left to right.\<close>

lemma links_two_fold:
  assumes "\<And>a. code None a = a" "length ls \<le> length gs"
  shows "links_two code (\<lambda>_. True) (\<lambda>a. a) gs ls a = fold (\<lambda>m. code (Some m)) (map the (filter (\<lambda>x. x \<noteq> None) (concat (map nodes_of ls)))) a"
  using assms(2)
proof (induction ls arbitrary: gs a)
  case Nil
  then show ?case by simp
next
  case (Cons l ls)
  then obtain g gs' where gs: "gs = g # gs'" "length ls \<le> length gs'" by (cases gs) auto
  have loop: "list_loop_two code (\<lambda>_. True) xs a = fold (\<lambda>m. code (Some m)) (map the (filter (\<lambda>x. x \<noteq> None) xs)) a" for xs a
    by (induction xs arbitrary: a) auto
  show ?case
  proof (cases l)
    case (One x)
    then show ?thesis using Cons.IH [OF gs(2)] gs assms(1) by (cases x) simp_all
  next
    case (Many xs)
    have "list_walk_two code (\<lambda>_. True) (\<lambda>a. a) xs a = fold (\<lambda>m. code (Some m)) (map the (filter (\<lambda>x. x \<noteq> None) xs)) a"
      by (simp add: list_walk_two_def loop)
    then show ?thesis using Many Cons.IH [OF gs(2)] gs by simp
  qed
qed

lemma ast_walk_two_fold:
  assumes "\<And>a. code None a = a" "proper n" "recognized n"
  shows "ast_walk_two code (\<lambda>_. True) (\<lambda>a. a) unrecognized n a = fold (\<lambda>m. code (Some m)) (children n) a"
proof -
  have "length (links n) = length (link_kinds (shape_of n))" using proper_kids(3) [OF assms(2)] by (metis length_map)
  then have "length (links n) \<le> length (guards (shape_of n))" using guards_enough by simp
  then show ?thesis
    using assms(1,3) by (simp add: ast_walk_two_def recognized_def children_def kids_def links_two_fold)
qed

lemma children_ok:
  assumes "proper n" "all_nodes P n" "m \<in> set (children n)"
  shows "proper m" "all_nodes P m"
proof -
  show "proper m" using proper_kids(1) [OF assms(1) children_kids [OF assms(3)]] by simp
  show "all_nodes P m" using assms(2,3) all_nodes.simps [of P n] by blast
qed

lemma compare_erased: "proper n \<Longrightarrow> proper p \<Longrightarrow> EqualAST (Some n) (Some p) = Inr (erase n = erase p)"
  by (simp add: EqualAST_erased)

lemma no_match_in_null: "EqualAST None (Some p) = Inr False"
  by (simp add: EqualAST_def EqualASTHelper.simps [of None] EqualNodes_def EqualTypeNodes_def)

lemma null_search:
  "GetAllMatchingSubtreesHelper p None a = a" "ContainsSubtreeHelper p None a' = a'" "ContainsASTHelper p None b = b"
  by (cases a; cases a'; cases b;
      simp add: GetAllMatchingSubtreesHelper.simps [of p None] ContainsSubtreeHelper.simps [of p None]
        ContainsASTHelper.simps [of p None] no_match_in_null)+

lemma GetAllMatchingSubtreesHelper_run:
  assumes "proper n" "all_nodes recognized n" "proper p"
  shows "GetAllMatchingSubtreesHelper p (Some n) (Inr ms) = Inr (map Some (rev (matches p n)) @ ms)"
  using assms(1,2)
proof (induction "size n" arbitrary: n ms rule: less_induct)
  case less
  show ?case
  proof (cases "erase n = erase p")
    case True
    then show ?thesis
      using compare_erased [OF less.prems(1) assms(3)] by (simp add: GetAllMatchingSubtreesHelper.simps [of p "Some n"] matches.simps [of p n])
  next
    case False
    have "set cs \<subseteq> set (children n) \<Longrightarrow> fold (\<lambda>m. GetAllMatchingSubtreesHelper p (Some m)) cs (Inr ms)
        = Inr (map Some (rev (concat (map (\<lambda>m. matches p m) cs))) @ ms)" for cs ms
    proof (induction cs arbitrary: ms)
      case (Cons m cs)
      have "GetAllMatchingSubtreesHelper p (Some m) (Inr ms) = Inr (map Some (rev (matches p m)) @ ms)"
        by (rule less.hyps) (use Cons.prems child_smaller children_ok [OF less.prems] in auto)
      then show ?case using Cons by simp
    qed simp
    then have "fold (\<lambda>m. GetAllMatchingSubtreesHelper p (Some m)) (children n) (Inr ms) = Inr (map Some (rev (matches p n)) @ ms)"
      using False by (simp add: matches.simps [of p n])
    moreover have "recognized n" using less.prems(2) all_nodes.simps [of recognized n] by blast
    ultimately show ?thesis
      using False compare_erased [OF less.prems(1) assms(3)] less.prems(1)
      by (simp add: GetAllMatchingSubtreesHelper.simps [of p "Some n"] ast_walk_two_fold null_search)
  qed
qed

text \<open>
  C25: the list of matching subtrees has exactly the subtrees that look like the tree searched for and are not inside
  another one, the last one first.
\<close>

theorem GetAllMatchingSubtrees_finds_the_matches:
  assumes "proper n" "all_nodes recognized n" "proper p"
  shows "GetAllMatchingSubtrees (Some n) (Some p) = Inr (map Some (rev (matches p n)))"
  using GetAllMatchingSubtreesHelper_run [OF assms, of "[]"] by (simp add: GetAllMatchingSubtrees_def)

lemma ContainsSubtreeHelper_run:
  assumes "proper n" "all_nodes recognized n" "proper p"
  shows "ContainsSubtreeHelper p (Some n) (Inr b) = Inr (if matches p n = [] then b else Some (last (matches p n)))"
  using assms(1,2)
proof (induction "size n" arbitrary: n b rule: less_induct)
  case less
  show ?case
  proof (cases "erase n = erase p")
    case True
    then show ?thesis
      using compare_erased [OF less.prems(1) assms(3)] by (simp add: ContainsSubtreeHelper.simps [of p "Some n"] matches.simps [of p n])
  next
    case False
    have "set cs \<subseteq> set (children n) \<Longrightarrow> fold (\<lambda>m. ContainsSubtreeHelper p (Some m)) cs (Inr b)
        = Inr (let ms = concat (map (\<lambda>m. matches p m) cs) in if ms = [] then b else Some (last ms))" for cs b
    proof (induction cs arbitrary: b)
      case (Cons m cs)
      have "ContainsSubtreeHelper p (Some m) (Inr b) = Inr (if matches p m = [] then b else Some (last (matches p m)))"
        by (rule less.hyps) (use Cons.prems child_smaller children_ok [OF less.prems] in auto)
      then show ?case using Cons by (auto simp: Let_def)
    qed simp
    then have "fold (\<lambda>m. ContainsSubtreeHelper p (Some m)) (children n) (Inr b) = Inr (if matches p n = [] then b else Some (last (matches p n)))"
      using False by (simp add: matches.simps [of p n] Let_def)
    moreover have "recognized n" using less.prems(2) all_nodes.simps [of recognized n] by blast
    ultimately show ?thesis
      using False compare_erased [OF less.prems(1) assms(3)] less.prems(1)
      by (simp add: ContainsSubtreeHelper.simps [of p "Some n"] ast_walk_two_fold null_search)
  qed
qed

theorem ContainsSubtree_finds_the_last_match:
  assumes "proper n" "all_nodes recognized n" "proper p"
  shows "ContainsSubtree (Some n) (Some p) = Inr (if matches p n = [] then None else Some (last (matches p n)))"
  by (simp add: ContainsSubtree_def ContainsSubtreeHelper_run [OF assms])

text \<open>
  \<open>ContainsAST\<close> stops at the first match, but a list that is \<open>NULL\<close> sets the answer to no, also when a match
  has been found before. That happens where the walk does not ask whether to go on: in the second list of a
  block, the lists of an \<open>asm\<close> and the result type of a function. \<open>unforgetful\<close> says that a node has no
  \<open>NULL\<close> list that the walk reaches without asking, \<open>remembers\<close> that it has none after the first link, where
  the answer can be yes already.
\<close>

definition unforgetful :: "ast \<Rightarrow> bool" where
  "unforgetful n \<longleftrightarrow> (\<forall>(g, l) \<in> set (zip (guards (shape_of n)) (links n)). g \<or> l \<noteq> Many [])"

definition keeps_yes :: "link \<Rightarrow> bool" where
  "keeps_yes l = (case l of Many xs \<Rightarrow> xs \<noteq> [] | One x \<Rightarrow> (\<forall>m. x = Some m \<longrightarrow> all_nodes unforgetful m))"

definition remembers :: "ast \<Rightarrow> bool" where
  "remembers n \<longleftrightarrow> (\<forall>(g, l) \<in> set (zip (tl (guards (shape_of n))) (tl (links n))). g \<or> keeps_yes l)"

lemma contains_answers [simp]: "ContainsASTContinue (Inr b) = (\<not> b)" "ContainsASTFailcode (Inr b) = Inr False"
  by (auto simp: ContainsASTContinue_def ContainsASTFailcode_def)

text \<open>The walk of a list asks before each element, so \<open>code\<close> is only called while the answer is no.\<close>

lemma list_loop_disj:
  assumes "\<And>x. x \<in> set xs \<Longrightarrow> code x (Inr False) = Inr (Q x)" "\<not> Q None"
  shows "list_loop_two code ContainsASTContinue xs (Inr b) = Inr (b \<or> (\<exists>x \<in> set xs. Q x))"
  using assms(1)
proof (induction xs arbitrary: b)
  case (Cons x xs)
  have "code x (Inr False) = Inr (Q x)" using Cons.prems by simp
  then show ?case using Cons assms(2) by (cases "x = None"; cases b) auto
qed simp

lemma list_walk_disj:
  assumes "\<And>x. x \<in> set xs \<Longrightarrow> code x (Inr False) = Inr (Q x)" "\<not> Q None" "xs = [] \<Longrightarrow> \<not> b"
  shows "list_walk_two code ContainsASTContinue ContainsASTFailcode xs (Inr b) = Inr (b \<or> (\<exists>x \<in> set xs. Q x))"
  using list_loop_disj [of xs code Q, OF assms(1,2)] assms(3) by (auto simp: list_walk_two_def)

text \<open>A yes that is not forgotten.\<close>

lemma links_two_yes:
  assumes "\<And>g l x. (g, l) \<in> set (zip gs ls) \<Longrightarrow> \<not> g \<Longrightarrow> l = One x \<Longrightarrow> code x (Inr True) = Inr True"
    and "\<And>g. (g, Many []) \<in> set (zip gs ls) \<Longrightarrow> g"
  shows "links_two code ContainsASTContinue ContainsASTFailcode gs ls (Inr True) = Inr True"
  using assms
proof (induction gs arbitrary: ls)
  case (Cons g gs)
  show ?case
  proof (cases ls)
    case (Cons l ls')
    have IH: "links_two code ContainsASTContinue ContainsASTFailcode gs ls' (Inr True) = Inr True"
      by (rule Cons.IH) (use Cons.prems \<open>ls = l # ls'\<close> in auto)
    show ?thesis
    proof (cases l)
      case (One x)
      then show ?thesis using Cons.prems(1) [of g l x] \<open>ls = l # ls'\<close> IH by simp
    next
      case (Many xs)
      have "\<not> g \<Longrightarrow> xs \<noteq> []" using Cons.prems(2) [of g] Many \<open>ls = l # ls'\<close> by auto
      then have "\<not> g \<Longrightarrow> list_walk_two code ContainsASTContinue ContainsASTFailcode xs (Inr True) = Inr True"
        by (cases xs) (simp_all add: list_walk_two_def)
      then show ?thesis using Many \<open>ls = l # ls'\<close> IH by simp
    qed
  qed simp
qed simp

lemma ContainsASTHelper_yes:
  assumes "proper n" "all_nodes recognized n" "all_nodes unforgetful n" "proper p"
  shows "ContainsASTHelper p (Some n) (Inr True) = Inr True"
  using assms(1-3)
proof (induction "size n" arbitrary: n rule: less_induct)
  case less
  have ok: "recognized n" "unforgetful n"
    using iffD1 [OF all_nodes.simps less.prems(2)] iffD1 [OF all_nodes.simps less.prems(3)] by simp_all
  have child: "ContainsASTHelper p x (Inr True) = Inr True" if w: "walked (shape_of n)" and l: "One x \<in> set (links n)" for x
  proof (cases x)
    case (Some m)
    have "Some m \<in> set (kids n)" using l Some by (force simp: kids_def)
    then have m: "m \<in> set (children n)" using w by (force simp: children_def)
    have "ContainsASTHelper p (Some m) (Inr True) = Inr True"
      by (rule less.hyps [OF child_smaller [OF m]]) (use children_ok [OF less.prems(1,2) m] children_ok(2) [OF less.prems(1,3) m] in blast)+
    then show ?thesis using Some by simp
  qed (simp add: null_search)
  have "links_two (ContainsASTHelper p) ContainsASTContinue ContainsASTFailcode (guards (shape_of n)) (links n) (Inr True) = Inr True"
    if w: "walked (shape_of n)"
    by (rule links_two_yes) (use child [OF w] ok(2) in \<open>auto simp: unforgetful_def dest: set_zip_rightD\<close>)
  then show ?case
    using compare_erased [OF less.prems(1) assms(4)] ok(1)
    by (simp add: ContainsASTHelper.simps [of p "Some n"] ast_walk_two_def recognized_def)
qed

text \<open>Whether there is a match, when no yes is forgotten.\<close>

lemma links_two_disj:
  assumes no: "\<And>x. x \<in> set (concat (map nodes_of ls)) \<Longrightarrow> code x (Inr False) = Inr (Q x)" and "\<not> Q None"
    and yes: "\<And>g l x. (g, l) \<in> set (zip gs ls) \<Longrightarrow> \<not> g \<Longrightarrow> l = One x \<Longrightarrow> b \<or> (g, l) \<in> set (zip (tl gs) (tl ls)) \<Longrightarrow> code x (Inr True) = Inr True"
    and null: "\<And>g. b \<and> (g, Many []) \<in> set (zip gs ls) \<or> (g, Many []) \<in> set (zip (tl gs) (tl ls)) \<Longrightarrow> g"
    and "length ls \<le> length gs"
  shows "links_two code ContainsASTContinue ContainsASTFailcode gs ls (Inr b) = Inr (b \<or> (\<exists>x \<in> set (concat (map nodes_of ls)). Q x))"
  using assms
proof (induction ls arbitrary: gs b)
  case Nil
  then show ?case by simp
next
  case (Cons l ls)
  obtain g gs' where gs: "gs = g # gs'" "length ls \<le> length gs'" using Cons.prems(5) by (cases gs) auto
  show ?case
  proof (cases b)
    case True
    have "links_two code ContainsASTContinue ContainsASTFailcode gs (l # ls) (Inr True) = Inr True"
      by (rule links_two_yes) (use Cons.prems(3,4) True in blast)+
    then show ?thesis using True by simp
  next
    case False
    have IH: "links_two code ContainsASTContinue ContainsASTFailcode gs' ls (Inr b') = Inr (b' \<or> (\<exists>x \<in> set (concat (map nodes_of ls)). Q x))" for b'
    proof (rule Cons.IH [OF _ Cons.prems(2) _ _ gs(2)])
      show "code x (Inr False) = Inr (Q x)" if "x \<in> set (concat (map nodes_of ls))" for x using Cons.prems(1) that by simp
      show "code x (Inr True) = Inr True" if "(g'', l'') \<in> set (zip gs' ls)" "\<not> g''" "l'' = One x" for g'' l'' x
        using Cons.prems(3) [of g'' l'' x] that gs(1) by simp
      show "g''" if "b' \<and> (g'', Many []) \<in> set (zip gs' ls) \<or> (g'', Many []) \<in> set (zip (tl gs') (tl ls))" for g''
      proof -
        have "(g'', Many []) \<in> set (zip gs' ls)" using that by (cases gs'; cases ls) auto
        then show ?thesis using Cons.prems(4) [of g''] gs(1) by simp
      qed
    qed
    show ?thesis
    proof (cases l)
      case (One x)
      then show ?thesis using Cons.prems(1) [of x] gs(1) IH False by simp
    next
      case (Many xs)
      have "list_walk_two code ContainsASTContinue ContainsASTFailcode xs (Inr False) = Inr (False \<or> (\<exists>x \<in> set xs. Q x))"
        by (rule list_walk_disj) (use Cons.prems(1,2) Many in simp_all)
      then show ?thesis using Many gs(1) IH False by auto
    qed
  qed
qed

lemma ContainsASTHelper_no:
  assumes "proper n" "all_nodes recognized n" "all_nodes remembers n" "proper p"
  shows "ContainsASTHelper p (Some n) (Inr False) = Inr (matches p n \<noteq> [])"
  using assms(1-3)
proof (induction "size n" arbitrary: n rule: less_induct)
  case less
  let ?Q = "\<lambda>x. case x of None \<Rightarrow> False | Some m \<Rightarrow> matches p m \<noteq> []"
  show ?case
  proof (cases "erase n = erase p")
    case True
    then show ?thesis
      using compare_erased [OF less.prems(1) assms(4)] by (simp add: ContainsASTHelper.simps [of p "Some n"] matches.simps [of p n])
  next
    case False
    have ok: "recognized n" "remembers n"
      using iffD1 [OF all_nodes.simps less.prems(2)] iffD1 [OF all_nodes.simps less.prems(3)] by simp_all
    have child: "m \<in> set (children n)" if "walked (shape_of n)" "l \<in> set (links n)" "Some m \<in> set (nodes_of l)" for l m
      using that by (force simp: children_def kids_def)
    have walk: "ast_walk_two (ContainsASTHelper p) ContainsASTContinue ContainsASTFailcode (failed Fail) n (Inr False)
      = Inr (\<exists>m \<in> set (children n). matches p m \<noteq> [])"
    proof (cases "walked (shape_of n)")
      case True
      have "links_two (ContainsASTHelper p) ContainsASTContinue ContainsASTFailcode (guards (shape_of n)) (links n) (Inr False)
        = Inr (False \<or> (\<exists>x \<in> set (concat (map nodes_of (links n))). ?Q x))"
      proof (rule links_two_disj)
        show "ContainsASTHelper p x (Inr False) = Inr (?Q x)" if x: "x \<in> set (concat (map nodes_of (links n)))" for x
        proof (cases x)
          case (Some m)
          then have "m \<in> set (children n)" using x child [OF True] by auto
          then have "ContainsASTHelper p (Some m) (Inr False) = Inr (matches p m \<noteq> [])"
            by (intro less.hyps) (use child_smaller children_ok [OF less.prems(1,2)] children_ok [OF less.prems(1,3)] in blast)+
          then show ?thesis using Some by simp
        qed (simp add: null_search)
        show "ContainsASTHelper p x (Inr True) = Inr True"
          if l: "(g, l) \<in> set (zip (guards (shape_of n)) (links n))" "\<not> g" "l = One x"
            "False \<or> (g, l) \<in> set (zip (tl (guards (shape_of n))) (tl (links n)))" for g l x
        proof (cases x)
          case (Some m)
          have "m \<in> set (children n)" using child [OF True set_zip_rightD [OF l(1)]] l(3) Some by simp
          moreover have "keeps_yes l" using ok(2) l(2,4) by (auto simp: remembers_def)
          ultimately show ?thesis
            using Some l(3) ContainsASTHelper_yes [OF _ _ _ assms(4), of m] children_ok [OF less.prems(1,2), of m]
            by (simp add: keeps_yes_def)
        qed (simp add: null_search)
        show "length (links n) \<le> length (guards (shape_of n))"
          using proper_kids(3) [OF less.prems(1)] guards_enough [of "shape_of n"] by (metis length_map)
      qed (use ok(2) in \<open>auto simp: remembers_def keeps_yes_def\<close>)
      moreover have "(\<exists>x \<in> set (concat (map nodes_of (links n))). ?Q x) \<longleftrightarrow> (\<exists>m \<in> set (children n). matches p m \<noteq> [])"
        using True by (force simp: children_def kids_def split: option.splits)
      ultimately show ?thesis using ok True by (simp add: ast_walk_two_def recognized_def)
    qed (use ok in \<open>simp add: ast_walk_two_def recognized_def children_def\<close>)
    then show ?thesis
      using False compare_erased [OF less.prems(1) assms(4)]
      by (simp add: ContainsASTHelper.simps [of p "Some n"] matches.simps [of p n])
  qed
qed

text \<open>An answer is always found, and it is yes only if there is a match.\<close>

definition sound_call :: "(ast option \<Rightarrow> cc_fail + bool \<Rightarrow> cc_fail + bool) \<Rightarrow> (ast option \<Rightarrow> bool) \<Rightarrow> ast option \<Rightarrow> bool" where
  "sound_call code Q x \<longleftrightarrow> (\<forall>b. \<exists>b'. code x (Inr b) = Inr b' \<and> (b' \<longrightarrow> b \<or> Q x))"

lemma sound_callE:
  assumes "sound_call code Q x"
  obtains b' where "code x (Inr b) = Inr b'" "b' \<longrightarrow> b \<or> Q x"
  using assms unfolding sound_call_def by blast

lemma list_loop_sound:
  "\<forall>x \<in> set xs. sound_call code Q x \<Longrightarrow>
    \<exists>b'. list_loop_two code ContainsASTContinue xs (Inr b) = Inr b' \<and> (b' \<longrightarrow> b \<or> (\<exists>x \<in> set xs. Q x))"
proof (induction xs arbitrary: b)
  case (Cons x xs)
  have x: "sound_call code Q x" using Cons.prems by simp
  obtain b1 where b1: "code x (Inr b) = Inr b1" "b1 \<longrightarrow> b \<or> Q x" by (rule sound_callE [OF x])
  have "\<forall>x \<in> set xs. sound_call code Q x" using Cons.prems by simp
  from Cons.IH [OF this, of b1] Cons.IH [OF this, of b] b1 show ?case by auto
qed simp

lemma list_walk_sound:
  assumes "\<forall>x \<in> set xs. sound_call code Q x"
  shows "\<exists>b'. list_walk_two code ContainsASTContinue ContainsASTFailcode xs (Inr b) = Inr b' \<and> (b' \<longrightarrow> b \<or> (\<exists>x \<in> set xs. Q x))"
  using list_loop_sound [OF assms, of b] by (cases xs) (auto simp: list_walk_two_def)

lemma links_two_sound:
  assumes "\<forall>x \<in> set (concat (map nodes_of ls)). sound_call code Q x"
  shows "\<exists>b'. links_two code ContainsASTContinue ContainsASTFailcode gs ls (Inr b) = Inr b'
    \<and> (b' \<longrightarrow> b \<or> (\<exists>x \<in> set (concat (map nodes_of ls)). Q x))"
  using assms
proof (induction ls arbitrary: gs b)
  case (Cons l ls)
  have IH: "\<exists>b'. links_two code ContainsASTContinue ContainsASTFailcode gs' ls (Inr b1) = Inr b'
      \<and> (b' \<longrightarrow> b1 \<or> (\<exists>x \<in> set (concat (map nodes_of ls)). Q x))" for gs' b1
    by (rule Cons.IH) (use Cons.prems in simp)
  show ?case
  proof (cases gs)
    case gs: (Cons g gs')
    show ?thesis
    proof (cases l)
      case (One x)
      then have x: "sound_call code Q x" using Cons.prems by simp
      obtain b1 where "code x (Inr b) = Inr b1" "b1 \<longrightarrow> b \<or> Q x" by (rule sound_callE [OF x])
      with IH [of gs' b1] show ?thesis using gs One by auto
    next
      case (Many xs)
      then have "\<forall>x \<in> set xs. sound_call code Q x" using Cons.prems by simp
      from list_walk_sound [OF this, of b] obtain b1 where "list_walk_two code ContainsASTContinue ContainsASTFailcode xs (Inr b) = Inr b1"
        "b1 \<longrightarrow> b \<or> (\<exists>x \<in> set xs. Q x)" by blast
      with IH [of gs' b1] show ?thesis using gs Many by auto
    qed
  qed simp
qed simp

lemma ContainsASTHelper_sound:
  assumes "proper n" "all_nodes recognized n" "proper p"
  shows "\<exists>b'. ContainsASTHelper p (Some n) (Inr b) = Inr b' \<and> (b' \<longrightarrow> b \<or> matches p n \<noteq> [])"
  using assms(1,2)
proof (induction "size n" arbitrary: n b rule: less_induct)
  case less
  let ?Q = "\<lambda>x. case x of None \<Rightarrow> False | Some m \<Rightarrow> matches p m \<noteq> []"
  show ?case
  proof (cases "erase n = erase p \<or> \<not> walked (shape_of n)")
    case True
    then show ?thesis
      using compare_erased [OF less.prems(1) assms(3)] iffD1 [OF all_nodes.simps less.prems(2)]
      by (auto simp: ContainsASTHelper.simps [of p "Some n"] matches.simps [of p n] ast_walk_two_def recognized_def)
  next
    case False
    have child: "m \<in> set (children n)" if "Some m \<in> set (concat (map nodes_of (links n)))" for m
      using that False by (force simp: children_def kids_def)
    have "sound_call (ContainsASTHelper p) ?Q x" if x: "x \<in> set (concat (map nodes_of (links n)))" for x
    proof (cases x)
      case (Some m)
      have "\<exists>b'. ContainsASTHelper p (Some m) (Inr b) = Inr b' \<and> (b' \<longrightarrow> b \<or> matches p m \<noteq> [])" for b
        by (intro less.hyps) (use child x Some child_smaller children_ok [OF less.prems] in blast)+
      then show ?thesis using Some by (simp add: sound_call_def)
    qed (simp add: null_search sound_call_def)
    then obtain b' where b': "links_two (ContainsASTHelper p) ContainsASTContinue ContainsASTFailcode (guards (shape_of n)) (links n) (Inr b) = Inr b'"
      "b' \<longrightarrow> b \<or> (\<exists>x \<in> set (concat (map nodes_of (links n))). ?Q x)"
      using links_two_sound [of "links n" "ContainsASTHelper p" ?Q "guards (shape_of n)" b] by blast
    have "recognized n" using iffD1 [OF all_nodes.simps less.prems(2)] by simp
    moreover have "matches p n \<noteq> []" if "\<exists>x \<in> set (concat (map nodes_of (links n))). ?Q x"
      using that False child by (force simp: matches.simps [of p n] split: option.splits)
    ultimately show ?thesis
      using b' False compare_erased [OF less.prems(1) assms(3)]
      by (auto simp: ContainsASTHelper.simps [of p "Some n"] ast_walk_two_def recognized_def)
  qed
qed

text \<open>A block without statements forgets what its declarations have.\<close>

definition without_statements :: "ast \<Rightarrow> bool" where
  "without_statements n \<longleftrightarrow> shape_of n \<in> {BlockNode, XBlockNode} \<and> (\<exists>ds. links n = [Many ds, Many []])"

lemma ContainsASTHelper_forgets:
  assumes "proper n" "all_nodes recognized n" "proper p" "without_statements n" "erase n \<noteq> erase p"
  shows "ContainsASTHelper p (Some n) (Inr b) = Inr False"
proof -
  obtain ds where n: "links n = [Many ds, Many []]" "walked (shape_of n)" "guards (shape_of n) = [False, False]"
    using assms(4) by (auto simp: without_statements_def walked_def guards_def)
  have child: "m \<in> set (children n)" if "Some m \<in> set ds" for m
    using that n by (force simp: children_def kids_def)
  have "sound_call (ContainsASTHelper p) (\<lambda>_. True) x" if "x \<in> set ds" for x
  proof (cases x)
    case (Some m)
    then have m: "m \<in> set (children n)" using child that by simp
    from ContainsASTHelper_sound [OF children_ok [OF assms(1,2) m] assms(3)]
    show ?thesis using Some unfolding sound_call_def by blast
  qed (simp add: null_search sound_call_def)
  then have "\<forall>x \<in> set ds. sound_call (ContainsASTHelper p) (\<lambda>_. True) x" by blast
  from list_walk_sound [OF this, of b]
  obtain b' where "list_walk_two (ContainsASTHelper p) ContainsASTContinue ContainsASTFailcode ds (Inr b) = Inr b'" by blast
  then have "links_two (ContainsASTHelper p) ContainsASTContinue ContainsASTFailcode (guards (shape_of n)) (links n) (Inr b) = Inr False"
    using n by (simp add: list_walk_two_def)
  moreover have "recognized n" using iffD1 [OF all_nodes.simps assms(2)] by simp
  ultimately show ?thesis
    using n(2) assms(5) compare_erased [OF assms(1,3)]
    by (simp add: ContainsASTHelper.simps [of p "Some n"] ast_walk_two_def recognized_def)
qed

text \<open>
  C28: \<open>ContainsAST\<close> answers for every tree that the walk knows (no constructor expression, no \<open>va_arg\<close>), and says
  yes only if there is a match. If no list is \<open>NULL\<close> where the walk would forget a yes, it says yes exactly if
  there is a match. But for a block whose list of statements is \<open>NULL\<close> it says no whatever its declarations
  contain, because the walk of a \<open>NULL\<close> list sets the answer to no; only a match of the block itself is found.
\<close>

theorem ContainsAST_answers:
  assumes "proper n" "all_nodes recognized n" "proper p"
  shows "\<exists>b. ContainsAST (Some n) (Some p) = Inr b \<and> (b \<longrightarrow> matches p n \<noteq> [])
    \<and> (all_nodes remembers n \<longrightarrow> b = (matches p n \<noteq> []))
    \<and> (without_statements n \<and> erase n \<noteq> erase p \<longrightarrow> \<not> b)"
proof -
  obtain b where b: "ContainsASTHelper p (Some n) (Inr False) = Inr b" "b \<longrightarrow> matches p n \<noteq> []"
    using ContainsASTHelper_sound [OF assms, of False] by blast
  have "b = (matches p n \<noteq> [])" if "all_nodes remembers n"
    using ContainsASTHelper_no [OF assms(1,2) that assms(3)] b(1) by simp
  moreover have "\<not> b" if "without_statements n" "erase n \<noteq> erase p"
    using ContainsASTHelper_forgets [OF assms that, of False] b(1) by simp
  ultimately show ?thesis using b by (auto simp: ContainsAST_def)
qed

subsection \<open>Examples\<close>

definition leaf :: "shape \<Rightarrow> ast" where
  "leaf s = Node NonWildcard s []"

definition ex_int :: ast where
  "ex_int = leaf (primNode EMPTY_TQ Sint)"

text \<open>The trees of \<open>x + 1\<close>, of \<open>int x\<close>, and of \<open>f(x + 1, g(x + 1))\<close>.\<close>

definition ex_sum :: ast where
  "ex_sum = Node NonWildcard (binopNode OP_add) [One (Some (leaf (idNode (Some [120])))), One (Some (Node NonWildcard (ConstNode (Val_i 1)) [One (Some ex_int)]))]"

definition ex_decl :: ast where
  "ex_decl = Node NonWildcard (declNode (Some [120]) EMPTY_TQ) [One (Some ex_int), One None, One None]"

definition ex_call :: ast where
  "ex_call = Node NonWildcard callNode [One (Some (leaf (idNode (Some [102])))),
     Many [Some ex_sum, Some (Node NonWildcard callNode [One (Some (leaf (idNode (Some [103])))), Many [Some ex_sum]])]]"

lemma ex_proper: "proper ex_sum" "proper ex_call" "proper ex_decl"
  by (simp_all add: ex_sum_def ex_call_def ex_decl_def ex_int_def leaf_def link_kinds_def constant_fits_def)

text \<open>The tags of two structs are not compared.\<close>

definition ex_struct :: "c_string \<Rightarrow> ast" where
  "ex_struct tag = Node NonWildcard (sdclNode EMPTY_TQ (Some tag)) [Many []]"

theorem EqualAST_is_equality_of_erased_trees_witness:
  "EqualAST (Some ex_sum) (Some ex_sum) = Inr True \<and> EqualAST (Some ex_sum) (Some ex_call) = Inr False
   \<and> EqualAST (Some (ex_struct [97])) (Some (ex_struct [98])) = Inr True"
proof -
  have "erase ex_sum \<noteq> erase ex_call" "erase (ex_struct [97]) = erase (ex_struct [98])"
    by (simp_all add: ex_sum_def ex_call_def ex_struct_def walked_def erase_shape_def)
  moreover have "proper (ex_struct tag)" for tag by (simp add: ex_struct_def link_kinds_def constant_fits_def)
  ultimately show ?thesis
    using EqualAST_is_equality_of_erased_trees [of "Some ex_sum" "Some ex_sum"] EqualAST_is_equality_of_erased_trees [of "Some ex_sum" "Some ex_call"]
      EqualAST_is_equality_of_erased_trees [of "Some (ex_struct [97])" "Some (ex_struct [98])"] ex_proper by simp
qed

theorem GetAllMatchingSubtrees_finds_the_matches_witness:
  "GetAllMatchingSubtrees (Some ex_call) (Some ex_sum) = Inr [Some ex_sum, Some ex_sum]"
proof -
  have "all_nodes recognized ex_call"
    by (simp add: at_node recognized_def children_def kids_def walked_def ex_call_def ex_sum_def ex_int_def leaf_def)
  moreover have "matches ex_sum ex_call = [ex_sum, ex_sum]"
    by (simp add: at_node children_def kids_def walked_def ex_call_def ex_sum_def ex_int_def leaf_def erase_shape_def plain_def EMPTY_TQ_def)
  ultimately show ?thesis using GetAllMatchingSubtrees_finds_the_matches [OF ex_proper(2) _ ex_proper(1)] by simp
qed

text \<open>The block \<open>{ int x; }\<close>: its only match is lost. In the call, where no list is \<open>NULL\<close>, the sum is found.\<close>

definition ex_block :: ast where
  "ex_block = Node NonWildcard BlockNode [Many [Some ex_decl], Many []]"

theorem ContainsAST_answers_witness:
  "ContainsAST (Some ex_block) (Some ex_decl) = Inr False \<and> matches ex_decl ex_block = [ex_decl]
   \<and> ContainsAST (Some ex_call) (Some ex_sum) = Inr True"
proof (intro conjI)
  have "proper ex_block" "all_nodes recognized ex_block" "without_statements ex_block" "erase ex_block \<noteq> erase ex_decl"
    by (simp_all add: ex_block_def ex_decl_def ex_int_def leaf_def link_kinds_def constant_fits_def at_node recognized_def
        children_def kids_def walked_def without_statements_def erase_shape_def)
  then show "ContainsAST (Some ex_block) (Some ex_decl) = Inr False"
    using ContainsAST_answers [of ex_block ex_decl] ex_proper(3) by auto
  show m: "matches ex_decl ex_block = [ex_decl]"
    by (simp add: at_node children_def kids_def walked_def ex_block_def ex_decl_def ex_int_def leaf_def erase_shape_def)
  have "all_nodes recognized ex_call" "all_nodes remembers ex_call"
    by (simp_all add: at_node recognized_def remembers_def keeps_yes_def guards_def children_def kids_def walked_def ex_call_def
        ex_sum_def ex_int_def leaf_def)
  moreover have "matches ex_sum ex_call = [ex_sum, ex_sum]"
    by (simp add: at_node children_def kids_def walked_def ex_call_def ex_sum_def ex_int_def leaf_def erase_shape_def plain_def EMPTY_TQ_def)
  ultimately show "ContainsAST (Some ex_call) (Some ex_sum) = Inr True"
    using ContainsAST_answers [OF ex_proper(2) _ ex_proper(1)] by auto
qed

end
