(* ===== verification/Cc_Patterns.thy ===== *)
theory Cc_Patterns
  imports Cc_Equals Cc_Scopes
begin

section \<open>Wildcards and patterns (cilk2c/wildcard.c, wildcardTable.c, astEquals.c, astModify.c)\<close>

text \<open>
  The table of wildcards on the unique strings and the symbol tables, the match of a tree with a pattern, and the
  filling in of a pattern. A function of this theory may run into an endless list of a symbol table: its run is then
  \<open>None\<close>.
\<close>

subsection \<open>Names\<close>

definition IsWildcard :: "ast \<Rightarrow> bool" where
  "IsWildcard n \<longleftrightarrow> wTyp n \<noteq> NonWildcard"

definition GetNodeName :: "ast option \<Rightarrow> c_string option" where
  "GetNodeName x = (case x of None \<Rightarrow> None
     | Some n \<Rightarrow> (case shape_of n of idNode t \<Rightarrow> t | declNode t _ \<Rightarrow> t | tdefNode t _ \<Rightarrow> t | _ \<Rightarrow> None))"

definition GetWildcardName :: "ast \<Rightarrow> c_string option" where
  "GetWildcardName n = (if IsWildcard n then GetNodeName (Some n) else None)"

text \<open>The characters \<open>e\<close>, \<open>t\<close>, \<open>d\<close> and the percent sign.\<close>

definition WildcardLetterType :: "8 word \<Rightarrow> WildcardType" where
  "WildcardLetterType c = (if c = 101 then WildcardE else if c = 116 then WildcardT else if c = 100 then WildcardD else NonWildcard)"

definition WildcardTypeFromName :: "c_string option \<Rightarrow> WildcardType" where
  "WildcardTypeFromName name = (case name of None \<Rightarrow> NonWildcard
     | Some s \<Rightarrow> if length s < 2 then NonWildcard else if s ! 0 \<noteq> 37 then NonWildcard else WildcardLetterType (s ! 1))"

definition MakeId :: "c_string option \<Rightarrow> ast" where
  "MakeId text = Node NonWildcard (idNode text) []"

subsection \<open>The table of wildcards\<close>

text \<open>
  The state: the unique strings and the symbol tables. The symbols of a wildcard table are pointers to nodes;
  the model keeps the nodes that were inserted in cells, and \<open>wildcard_conflict\<close> overwrites one. (In the code
  the cell is the node itself, so that a second insertion of a name also changes the tree that the first node
  came from; the matching never inserts a name twice.)
\<close>

record Matching =
  strings :: Strings
  syms :: "(nat, ast list) Syms"

record WildcardTable =
  symtable :: nat
  tableKey :: int

definition in_strings :: "(cc_fail, Strings, 'a) prog \<Rightarrow> (Matching, 'a) loop_prog" where
  "in_strings m = (\<lambda>M. Some (case m (strings M) of Inl e \<Rightarrow> Inl e | Inr (a, st) \<Rightarrow> Inr (a, M\<lparr>strings := st\<rparr>)))"

definition in_syms :: "((nat, ast list) Syms, 'a) loop_prog \<Rightarrow> (Matching, 'a) loop_prog" where
  "in_syms m = (\<lambda>M. case m (syms M) of None \<Rightarrow> None | Some (Inl e) \<Rightarrow> Some (Inl e) | Some (Inr (a, s)) \<Rightarrow> Some (Inr (a, M\<lparr>syms := s\<rparr>)))"

definition NewWildcardTable :: "int \<Rightarrow> (Matching, WildcardTable) loop_prog" where
  "NewWildcardTable key = bindL (in_syms (liftL (NewSymbolTable Flat None None))) (\<lambda>t. retL \<lparr>symtable = t, tableKey = key\<rparr>)"

definition ResetWildcardTable :: "WildcardTable option \<Rightarrow> (Matching, unit) loop_prog" where
  "ResetWildcardTable table = (case table of None \<Rightarrow> retL () | Some T \<Rightarrow> in_syms (ResetSymbolTable (symtable T)))"

definition unique_name :: "c_string option \<Rightarrow> (Matching, nat) loop_prog" where
  "unique_name name = (case name of None \<Rightarrow> liftL (failM BadPointer) | Some s \<Rightarrow> in_strings (UniqueString s))"

definition node_at :: "nat \<Rightarrow> (Matching, ast) loop_prog" where
  "node_at a = (\<lambda>M. Some (if a < length (world (syms M)) then Inr (world (syms M) ! a, M) else Inl BadPointer))"

definition new_node :: "ast \<Rightarrow> (Matching, nat) loop_prog" where
  "new_node n = (\<lambda>M. Some (Inr (length (world (syms M)), M\<lparr>syms := (syms M)\<lparr>world := world (syms M) @ [n]\<rparr>\<rparr>)))"

definition LookupWildcard :: "WildcardTable option \<Rightarrow> c_string option \<Rightarrow> (Matching, ast option) loop_prog" where
  "LookupWildcard table name = (case table of None \<Rightarrow> retL None
     | Some T \<Rightarrow>
         bindL (unique_name name) (\<lambda>u.
         bindL (in_syms (LookupSymbol (symtable T) u)) (\<lambda>found.
         case found of None \<Rightarrow> retL None | Some a \<Rightarrow> bindL (node_at a) (\<lambda>n. retL (Some n)))))"

definition wildcard_conflict :: "nat \<Rightarrow> nat \<Rightarrow> ast list \<Rightarrow> ast list" where
  "wildcard_conflict orig create u = u[orig := u ! create]"

definition InsertWildcard :: "WildcardTable option \<Rightarrow> c_string option \<Rightarrow> ast option \<Rightarrow> (Matching, unit) loop_prog" where
  "InsertWildcard table name value = (case table of None \<Rightarrow> retL ()
     | Some T \<Rightarrow> (case value of None \<Rightarrow> retL ()
       | Some v \<Rightarrow>
           bindL (unique_name name) (\<lambda>u.
           bindL (new_node v) (\<lambda>a.
           bindL (in_syms (InsertSymbol (symtable T) u a (Some wildcard_conflict))) (\<lambda>_.
           retL ())))))"

subsection \<open>Matching a pattern\<close>

text \<open>
  The answer of the walk: the boolean and the table of \<open>patternAnswer\<close>, with the state; or a failure, or no
  answer when a call does not return.
\<close>

type_synonym pattern_answer = "(cc_fail + (bool \<times> Matching)) option"

definition on_answer :: "pattern_answer \<Rightarrow> (bool \<Rightarrow> Matching \<Rightarrow> pattern_answer) \<Rightarrow> pattern_answer" where
  "on_answer a f = (case a of Some (Inr (b, M)) \<Rightarrow> f b M | _ \<Rightarrow> a)"

lemma on_answer_simps [simp]: "on_answer (Some (Inr (b, M))) f = f b M" "on_answer None f = None" "on_answer (Some (Inl e)) f = Some (Inl e)"
  by (simp_all add: on_answer_def)

lemma on_answer_cong [fundef_cong]:
  "a = a' \<Longrightarrow> (\<And>b M. a' = Some (Inr (b, M)) \<Longrightarrow> f b M = g b M) \<Longrightarrow> on_answer a f = on_answer a' g"
  by (auto simp: on_answer_def split: option.splits sum.splits)

definition PatternEqualASTContinue :: "pattern_answer \<Rightarrow> bool" where
  "PatternEqualASTContinue a = (case a of Some (Inr (b, M)) \<Rightarrow> b | _ \<Rightarrow> False)"

definition PatternEqualASTFailcode :: "pattern_answer \<Rightarrow> pattern_answer" where
  "PatternEqualASTFailcode a = on_answer a (\<lambda>_ M. Some (Inr (False, M)))"

definition pattern_undefined :: "pattern_answer \<Rightarrow> pattern_answer" where
  "pattern_undefined a = on_answer a (\<lambda>_ _. Some (Inl Undefined))"

text \<open>What a wildcard \<open>%d\<close> and another wildcard do at a node, before the walk goes on.\<close>

definition match_name :: "WildcardTable \<Rightarrow> c_string option \<Rightarrow> ast option \<Rightarrow> ast option \<Rightarrow> bool \<Rightarrow> Matching \<Rightarrow> pattern_answer" where
  "match_name T name original lookupVal ans M =
     (case GetNodeName original of
        None \<Rightarrow> Some (Inr (False, M))
      | Some originalName \<Rightarrow>
          if lookupVal = None then bindL (InsertWildcard (Some T) name (Some (MakeId (Some originalName)))) (\<lambda>_. retL ans) M
          else Some (Inr (EqualStrings (Some originalName) (GetNodeName lookupVal), M)))"

definition match_tree :: "WildcardTable \<Rightarrow> c_string option \<Rightarrow> ast option \<Rightarrow> ast option \<Rightarrow> bool \<Rightarrow> Matching \<Rightarrow> pattern_answer" where
  "match_tree T name original lookupVal ans M =
     (if lookupVal = None then bindL (InsertWildcard (Some T) name original) (\<lambda>_. retL ans) M
      else (case EqualAST original lookupVal of Inl e \<Rightarrow> Some (Inl e) | Inr b \<Rightarrow> Some (Inr (b, M))))"

definition looked_up :: "(Matching, ast option) loop_prog \<Rightarrow> Matching \<Rightarrow> (ast option \<Rightarrow> Matching \<Rightarrow> pattern_answer) \<Rightarrow> pattern_answer" where
  "looked_up m M f = bindL m f M"

lemma looked_up_cong [fundef_cong]:
  "m = m' \<Longrightarrow> M = M' \<Longrightarrow> (\<And>x N. f x N = g x N) \<Longrightarrow> looked_up m M f = looked_up m' M' g"
  by (auto simp: looked_up_def bindL_def split: option.splits sum.splits)

function PatternEqualASTHelper :: "WildcardTable \<Rightarrow> ast option \<Rightarrow> ast option \<Rightarrow> pattern_answer \<Rightarrow> pattern_answer" where
  "PatternEqualASTHelper T original pattern a =
     on_answer a (\<lambda>ans M.
     if pattern \<noteq> None \<and> IsWildcard (the pattern) then
       (let name = GetWildcardName (the pattern) in
        looked_up (LookupWildcard (Some T) name) M (\<lambda>lookupVal M.
        if WildcardTypeFromName name = WildcardD then
          on_answer (match_name T name original lookupVal ans M) (\<lambda>ans M.
          if ans then
            (case original of None \<Rightarrow> Some (Inl BadPointer)
             | Some n \<Rightarrow> dual_ast_walk (\<lambda>x y a. PatternEqualASTHelper T x y a) PatternEqualASTContinue PatternEqualASTFailcode
                 pattern_undefined n (the pattern) (Some (Inr (ans, M))))
          else Some (Inr (ans, M)))
        else match_tree T name original lookupVal ans M))
     else
       (case EqualNodes original pattern of
          Inl e \<Rightarrow> Some (Inl e)
        | Inr equal \<Rightarrow>
            if equal then
              (case original of None \<Rightarrow> Some (Inr (ans, M))
               | Some n \<Rightarrow> dual_ast_walk (\<lambda>x y a. PatternEqualASTHelper T x y a) PatternEqualASTContinue PatternEqualASTFailcode
                   pattern_undefined n (the pattern) (Some (Inr (ans, M))))
            else Some (Inr (False, M))))"
  by pat_completeness auto
termination
  by (relation "measure (\<lambda>(T, original, pattern, a). size_option size original)") (auto simp: less_Suc_eq_le kid_size)

declare PatternEqualASTHelper.simps [simp del]

definition PatternEqualsAST :: "ast option \<Rightarrow> ast option \<Rightarrow> (Matching, bool) loop_prog" where
  "PatternEqualsAST original pattern =
     bindL (NewWildcardTable 0) (\<lambda>T M. PatternEqualASTHelper T original pattern (Some (Inr (True, M))))"

definition PatternMatch :: "ast option \<Rightarrow> ast option \<Rightarrow> WildcardTable option \<Rightarrow> (Matching, bool) loop_prog" where
  "PatternMatch original pattern wcTable = (case wcTable of None \<Rightarrow> retL True
     | Some T \<Rightarrow> (\<lambda>M. PatternEqualASTHelper T original pattern (Some (Inr (True, M)))))"

subsection \<open>Filling in a pattern\<close>

text \<open>
  \<open>CopyAST\<close> gives a tree with the same contents in new nodes, so it is the tree. Filling in changes the pattern
  in place; the model returns the changed tree. Where the wildcard is a declaration only its name is replaced,
  by the name of the \<open>Id\<close> that is bound to it, and the filling goes on with the children.
\<close>

definition ReplaceAST :: "ast \<Rightarrow> ast \<Rightarrow> ast" where
  "ReplaceAST n1 n2 = n2"

definition wTyp_update :: "WildcardType \<Rightarrow> ast \<Rightarrow> ast" where
  "wTyp_update w n = Node w (shape_of n) (links n)"

definition id_text :: "ast \<Rightarrow> cc_fail + c_string option" where
  "id_text n = (case shape_of n of idNode t \<Rightarrow> Inr t | _ \<Rightarrow> Inl Undefined)"

fun fill_node :: "WildcardTable option \<Rightarrow> ast \<Rightarrow> (Matching, ast) loop_prog"
and fill_link :: "WildcardTable option \<Rightarrow> link \<Rightarrow> (Matching, link) loop_prog"
and fill_links :: "WildcardTable option \<Rightarrow> link list \<Rightarrow> (Matching, link list) loop_prog"
and fill_elements :: "WildcardTable option \<Rightarrow> ast option list \<Rightarrow> (Matching, ast option list) loop_prog"
and fill_option :: "WildcardTable option \<Rightarrow> ast option \<Rightarrow> (Matching, ast option) loop_prog" where
  "fill_node T (Node w s ls) =
     (let walk = (\<lambda>s. if s = constructorNode \<or> s = builtinvaargNode then liftL (failM Fail)
         else if walked s then bindL (fill_links T ls) (\<lambda>ls'. retL (Node NonWildcard s ls'))
         else retL (Node NonWildcard s ls))
      in if w = NonWildcard then walk s
      else
        bindL (LookupWildcard T (GetWildcardName (Node w s ls))) (\<lambda>lookupValue.
        case lookupValue of
          None \<Rightarrow> retL (Node w s ls)
        | Some v \<Rightarrow> (case s of
            declNode _ q \<Rightarrow> bindL (liftL (liftE (id_text v))) (\<lambda>t. walk (declNode t q))
          | _ \<Rightarrow> retL (wTyp_update NonWildcard (ReplaceAST (Node w s ls) v)))))"
| "fill_link T (One x) = bindL (fill_option T x) (\<lambda>y. retL (One y))"
| "fill_link T (Many xs) = bindL (fill_elements T xs) (\<lambda>ys. retL (Many ys))"
| "fill_links T [] = retL []"
| "fill_links T (l # ls) = bindL (fill_link T l) (\<lambda>l'. bindL (fill_links T ls) (\<lambda>ls'. retL (l' # ls')))"
| "fill_elements T [] = retL []"
| "fill_elements T (x # xs) = bindL (fill_option T x) (\<lambda>y. bindL (fill_elements T xs) (\<lambda>ys. retL (y # ys)))"
| "fill_option T None = retL None"
| "fill_option T (Some n) = bindL (fill_node T n) (\<lambda>m. retL (Some m))"

definition FillWildcardsFromTable :: "ast option \<Rightarrow> WildcardTable option \<Rightarrow> (Matching, ast option) loop_prog" where
  "FillWildcardsFromTable patternTree wcTable = fill_option wcTable patternTree"

definition MatchReplacePatternTree :: "ast option \<Rightarrow> ast option \<Rightarrow> ast option \<Rightarrow> (Matching, bool \<times> ast option) loop_prog" where
  "MatchReplacePatternTree original pattern replacement =
     bindL (NewWildcardTable 0) (\<lambda>T.
     bindL (\<lambda>M. PatternEqualASTHelper T original pattern (Some (Inr (True, M)))) (\<lambda>ans.
     if ans then
       bindL (FillWildcardsFromTable replacement (Some T)) (\<lambda>filled.
       bindL (ResetWildcardTable (Some T)) (\<lambda>_.
       retL (True, filled)))
     else
       bindL (ResetWildcardTable (Some T)) (\<lambda>_.
       retL (False, replacement))))"

end
