(* ===== verification/Cc_Wildcard_Laws.thy ===== *)
theory Cc_Wildcard_Laws
  imports Cc_Patterns
begin

section \<open>The table of wildcards is a map from names to trees\<close>

type_synonym bindings = "c_string \<Rightarrow> ast option"

text \<open>
  The state \<open>M\<close> holds the bindings \<open>m\<close> in the table \<open>T\<close>: the symbol tables implement scopes in which the table is
  flat and has for each unique string a declaration, which is the cell of the tree that the string is bound to.
\<close>

definition cell_holds :: "ast list \<Rightarrow> (nat \<times> nat) list \<Rightarrow> ast option \<Rightarrow> bool" where
  "cell_holds u ds x = (case ds of [] \<Rightarrow> x = None | (l, a) # _ \<Rightarrow> a < length u \<and> x = Some (u ! a))"

definition table_holds :: "WildcardTable \<Rightarrow> bindings \<Rightarrow> Matching \<Rightarrow> bool" where
  "table_holds T m M \<longleftrightarrow> strings_ok (strings M) \<and> (\<exists>A. implements (syms M) A
     \<and> symtable T \<in> set (order A) \<and> sort_of A (symtable T) = Flat
     \<and> (\<forall>p. decls A (symtable T) p \<noteq> [] \<longrightarrow> (\<exists>name. interned (strings M) p name))
     \<and> (\<forall>p name. interned (strings M) p name \<longrightarrow> cell_holds (world (syms M)) (decls A (symtable T) p) (m name))
     \<and> (\<forall>name. m name \<noteq> None \<longrightarrow> (\<exists>p. interned (strings M) p name)))"

definition name_ok :: "c_string \<Rightarrow> bool" where
  "name_ok s \<longleftrightarrow> s \<noteq> [] \<and> 0 \<notin> set s"

lemma bindL_run [simp]: "m s = Some (Inr (a, s')) \<Longrightarrow> bindL m f s = f a s'"
  by (simp add: bindL_def)

lemma retL_run [simp]: "retL a s = Some (Inr (a, s))"
  by (simp add: retL_def liftL_def ret_def)

lemma holds_strings:
  assumes "table_holds T m M" "strings_ok st" "\<And>q t. interned (strings M) q t \<Longrightarrow> interned st q t"
  shows "table_holds T m (M\<lparr>strings := st\<rparr>)"
proof -
  obtain A where A: "implements (syms M) A" "symtable T \<in> set (order A)" "sort_of A (symtable T) = Flat"
    "\<And>p. decls A (symtable T) p \<noteq> [] \<Longrightarrow> \<exists>name. interned (strings M) p name"
    "\<And>p name. interned (strings M) p name \<Longrightarrow> cell_holds (world (syms M)) (decls A (symtable T) p) (m name)"
    "\<And>name. m name \<noteq> None \<Longrightarrow> \<exists>p. interned (strings M) p name"
    using assms(1) unfolding table_holds_def by blast
  have "cell_holds (world (syms M)) (decls A (symtable T) p) (m name)" if p: "interned st p name" for p name
  proof (cases "decls A (symtable T) p = []")
    case True
    have "m name = None"
    proof (rule ccontr)
      assume "m name \<noteq> None"
      then obtain q where q: "interned (strings M) q name" using A(6) by blast
      then have "q = p" using interned_unique [OF assms(2)] assms(3) p by blast
      then show False using A(5) [OF q] True \<open>m name \<noteq> None\<close> by (simp add: cell_holds_def)
    qed
    then show ?thesis using True by (simp add: cell_holds_def)
  next
    case False
    then obtain name' where n: "interned (strings M) p name'" using A(4) by blast
    then have "name' = name" using assms(2,3) p unfolding strings_ok_def by blast
    then show ?thesis using A(5) n by blast
  qed
  then have "strings_ok (strings (M\<lparr>strings := st\<rparr>)) \<and> implements (syms (M\<lparr>strings := st\<rparr>)) A
     \<and> symtable T \<in> set (order A) \<and> sort_of A (symtable T) = Flat
     \<and> (\<forall>p. decls A (symtable T) p \<noteq> [] \<longrightarrow> (\<exists>name. interned (strings (M\<lparr>strings := st\<rparr>)) p name))
     \<and> (\<forall>p name. interned (strings (M\<lparr>strings := st\<rparr>)) p name
          \<longrightarrow> cell_holds (world (syms (M\<lparr>strings := st\<rparr>))) (decls A (symtable T) p) (m name))
     \<and> (\<forall>name. m name \<noteq> None \<longrightarrow> (\<exists>p. interned (strings (M\<lparr>strings := st\<rparr>)) p name))"
    using A(1-4,6) assms(2,3) by (simp, blast)
  then show ?thesis unfolding table_holds_def by blast
qed

lemma unique_name_run:
  assumes "table_holds T m M" "name_ok s"
  obtains u st where "unique_name (Some s) M = Some (Inr (u, M\<lparr>strings := st\<rparr>))" "table_holds T m (M\<lparr>strings := st\<rparr>)" "interned st u s"
proof -
  have s: "s \<noteq> []" "0 \<notin> set s" using assms(2) by (simp_all add: name_ok_def)
  have ok: "strings_ok (strings M)" using assms(1) by (simp add: table_holds_def)
  obtain u st where run: "UniqueString s (strings M) = Inr (u, st)"
    using UniqueString_law [OF ok s] by (auto simp: wp_def split: sum.splits)
  note r = UniqueString_run [OF ok s run]
  have "table_holds T m (M\<lparr>strings := st\<rparr>)" by (rule holds_strings [OF assms(1)]) (use r in blast)+
  moreover have "unique_name (Some s) M = Some (Inr (u, M\<lparr>strings := st\<rparr>))" using run by (simp add: unique_name_def in_strings_def)
  ultimately show ?thesis using that r(2) by blast
qed

lemma LookupWildcard_run:
  assumes "table_holds T m M" "name_ok s"
  obtains M' where "LookupWildcard (Some T) (Some s) M = Some (Inr (m s, M'))" "table_holds T m M'"
proof -
  obtain u st where u: "unique_name (Some s) M = Some (Inr (u, M\<lparr>strings := st\<rparr>))" "table_holds T m (M\<lparr>strings := st\<rparr>)" "interned st u s"
    by (rule unique_name_run [OF assms])
  let ?M = "M\<lparr>strings := st\<rparr>"
  obtain A where A: "strings_ok st" "implements (syms M) A" "symtable T \<in> set (order A)" "sort_of A (symtable T) = Flat"
    "\<forall>p. decls A (symtable T) p \<noteq> [] \<longrightarrow> (\<exists>name. interned st p name)"
    "\<forall>p name. interned st p name \<longrightarrow> cell_holds (world (syms M)) (decls A (symtable T) p) (m name)"
    "\<forall>name. m name \<noteq> None \<longrightarrow> (\<exists>p. interned st p name)"
    using u(2) unfolding table_holds_def by auto
  obtain s' where s': "LookupSymbol (symtable T) u (syms M) = Some (Inr (answer (Find (symtable T) u) A, s'))" "implements s' A"
    using scopes.step [OF A(2), of "Find (symtable T) u"] by auto
  have w: "world s' = world (syms M)" using A(2) s'(2) by (auto simp: implements_def represents_def)
  let ?M' = "?M\<lparr>syms := s'\<rparr>"
  have holds: "table_holds T m ?M'" unfolding table_holds_def using A s'(2) w by auto
  have look: "in_syms (LookupSymbol (symtable T) u) ?M = Some (Inr (answer (Find (symtable T) u) A, ?M'))"
    using s'(1) by (simp add: in_syms_def)
  have cell: "cell_holds (world s') (decls A (symtable T) u) (m s)" using A(6) u(3) w by simp
  have "LookupWildcard (Some T) (Some s) M = Some (Inr (m s, ?M'))"
  proof (cases "decls A (symtable T) u")
    case Nil
    then show ?thesis using u(1) look cell by (simp add: LookupWildcard_def cell_holds_def)
  next
    case (Cons d ds)
    obtain l a where d: "d = (l, a)" by (cases d)
    then have "a < length (world s')" "m s = Some (world s' ! a)" using Cons cell by (simp_all add: cell_holds_def)
    then have "node_at a ?M' = Some (Inr (world s' ! a, ?M'))" by (simp add: node_at_def)
    then show ?thesis using u(1) look Cons d \<open>m s = _\<close> by (simp add: LookupWildcard_def)
  qed
  then show ?thesis using that holds by blast
qed

lemma implements_world: "implements s A \<Longrightarrow> implements (s\<lparr>world := u\<rparr>) (A\<lparr>effects := u\<rparr>)"
proof -
  assume "implements s A"
  then obtain B F S where "represents s B F S A" unfolding implements_def by blast
  moreover have "svar (s\<lparr>world := u\<rparr>) = svar s" by (simp add: fun_eq_iff svar_def)
  ultimately have "represents (s\<lparr>world := u\<rparr>) B F S (A\<lparr>effects := u\<rparr>)" by (simp add: represents_def)
  then show ?thesis unfolding implements_def by blast
qed

lemma cell_grows: "cell_holds u ds x \<Longrightarrow> cell_holds (u @ [v]) ds x"
  by (auto simp: cell_holds_def nth_append split: list.splits)

lemma InsertWildcard_run:
  assumes "table_holds T m M" "name_ok s" "m s = None"
  obtains M' where "InsertWildcard (Some T) (Some s) (Some v) M = Some (Inr ((), M'))" "table_holds T (m(s \<mapsto> v)) M'"
proof -
  obtain u st where u: "unique_name (Some s) M = Some (Inr (u, M\<lparr>strings := st\<rparr>))" "table_holds T m (M\<lparr>strings := st\<rparr>)" "interned st u s"
    by (rule unique_name_run [OF assms(1,2)])
  let ?w = "world (syms M)" and ?t = "symtable T"
  let ?M = "M\<lparr>strings := st, syms := (syms M)\<lparr>world := ?w @ [v]\<rparr>\<rparr>"
  obtain A where A: "strings_ok st" "implements (syms M) A" "?t \<in> set (order A)" "sort_of A ?t = Flat"
    "\<forall>p. decls A ?t p \<noteq> [] \<longrightarrow> (\<exists>name. interned st p name)"
    "\<forall>p name. interned st p name \<longrightarrow> cell_holds ?w (decls A ?t p) (m name)"
    "\<forall>name. m name \<noteq> None \<longrightarrow> (\<exists>p. interned st p name)"
    using u(2) unfolding table_holds_def by auto
  let ?A = "A\<lparr>effects := ?w @ [v]\<rparr>" and ?r = "Declare ?t u (length ?w) (Some wildcard_conflict)"
  have new: "new_node v (M\<lparr>strings := st\<rparr>) = Some (Inr (length ?w, ?M))" by (simp add: new_node_def)
  have "implements (syms ?M) ?A" using implements_world [OF A(2)] by simp
  moreover have "permitted ?r ?A" using A(3) by simp
  ultimately obtain s' where s': "perform ?r (syms ?M) = Some (Inr (answer ?r ?A, s'))" "implements s' (after ?r ?A)"
    using scopes.step by blast
  have empty: "decls A ?t u = []"
  proof -
    have "cell_holds ?w (decls A ?t u) (m s)" using A(6) u(3) by blast
    then show ?thesis using assms(3) by (simp add: cell_holds_def split: list.splits prod.splits)
  qed
  obtain w where "InsertSymbol ?t u (length ?w) (Some wildcard_conflict) (syms ?M) = Some (Inr (w, s'))"
    using s'(1) by (auto simp: bindL_def retL_def liftL_def ret_def split: option.splits sum.splits)
  then have "in_syms (InsertSymbol ?t u (length ?w) (Some wildcard_conflict)) ?M = Some (Inr (w, ?M\<lparr>syms := s'\<rparr>))"
    by (simp add: in_syms_def)
  then have run: "InsertWildcard (Some T) (Some s) (Some v) M = Some (Inr ((), ?M\<lparr>syms := s'\<rparr>))"
    using u(1) new by (simp add: InsertWildcard_def)
  define A' where "A' = after ?r ?A"
  have after: "decls A' = (decls A)(?t := (decls A ?t)(u := [(0, length ?w)]))" "effects A' = ?w @ [v]"
    "order A' = order A" "sort_of A' = sort_of A"
    unfolding A'_def using A(4) empty by (simp_all add: Let_def level_for_def)
  have s'A: "implements s' A'" using s'(2) by (simp only: A'_def)
  have w': "world s' = ?w @ [v]" using s'A after(2) by (auto simp: implements_def represents_def)
  have "cell_holds (?w @ [v]) (decls A' ?t p) ((m(s \<mapsto> v)) name)" if p: "interned st p name" for p name
  proof (cases "name = s")
    case True
    then have "p = u" using interned_unique [OF A(1)] u(3) p by blast
    then show ?thesis using True by (simp add: after cell_holds_def)
  next
    case False
    then have "p \<noteq> u" using u(3) p A(1) unfolding strings_ok_def by blast
    moreover have "cell_holds (?w @ [v]) (decls A ?t p) (m name)" using A(6) p cell_grows by blast
    ultimately show ?thesis using False by (simp add: after)
  qed
  moreover have "\<exists>name. interned st p name" if "decls A' ?t p \<noteq> []" for p
    using that A(5) u(3) by (cases "p = u") (auto simp: after)
  moreover have "\<exists>p. interned st p name" if "(m(s \<mapsto> v)) name \<noteq> None" for name
    using that A(7) u(3) by (cases "name = s") auto
  ultimately have "table_holds T (m(s \<mapsto> v)) (?M\<lparr>syms := s'\<rparr>)"
    unfolding table_holds_def using A(1,3,4) s'A after(3,4) w' by (intro conjI exI [of _ "A'"]) simp_all
  then show ?thesis using that run by blast
qed

lemma NewWildcardTable_run:
  assumes "strings_ok (strings M)" "implements (syms M) A"
  obtains T M' where "NewWildcardTable key M = Some (Inr (T, M'))" "table_holds T (\<lambda>_. None) M'" "tableKey T = key"
proof -
  let ?r = "Create Flat None None" and ?t = "next_table (syms M)"
  obtain s' where s': "perform ?r (syms M) = Some (Inr (answer ?r A, s'))" "implements s' (after ?r A)"
    using scopes.step [OF assms(2), of ?r] by auto
  obtain t where t: "NewSymbolTable Flat None None (syms M) = Inr (t, s')" "t = ?t"
    using s'(1) by (auto simp: NewSymbolTable_def Let_def bindL_def retL_def liftL_def ret_def)
  have "?t = created A" using assms(2) by (auto simp: implements_def represents_def)
  then have "table_holds \<lparr>symtable = t, tableKey = key\<rparr> (\<lambda>_. None) (M\<lparr>syms := s'\<rparr>)"
    unfolding table_holds_def using assms(1) s'(2) t(2)
    by (intro conjI exI [of _ "after ?r A"]) (simp_all add: Let_def cell_holds_def)
  moreover have "NewWildcardTable key M = Some (Inr (\<lparr>symtable = t, tableKey = key\<rparr>, M\<lparr>syms := s'\<rparr>))"
    using t(1) by (simp add: NewWildcardTable_def in_syms_def liftL_def bindL_def retL_def ret_def)
  ultimately show ?thesis using that by simp
qed

end
