(* ===== verification/Cc_Pattern_Laws.thy ===== *)
theory Cc_Pattern_Laws
  imports Cc_Equals_Properties Cc_Wildcard_Laws
begin

section \<open>A pattern that matches and is filled in looks like the tree it was matched with\<close>

text \<open>The instances of a pattern, the trees and patterns the theorems are about, and runs that bind wildcards.\<close>

subsection \<open>Instances of a pattern\<close>

fun instantiate :: "bindings \<Rightarrow> ast \<Rightarrow> ast" and instantiate_link :: "bindings \<Rightarrow> link \<Rightarrow> link" where
  "instantiate m (Node w s ls) =
     (if w = NonWildcard then Node w s (if walked s then map (instantiate_link m) ls else ls)
      else (case GetNodeName (Some (Node w s ls)) of None \<Rightarrow> Node w s ls
        | Some name \<Rightarrow> (case m name of None \<Rightarrow> Node w s ls | Some v \<Rightarrow> wTyp_update NonWildcard v)))"
| "instantiate_link m (One x) = One (map_option (instantiate m) x)"
| "instantiate_link m (Many xs) = Many (map (map_option (instantiate m)) xs)"

definition bound_node :: "bindings \<Rightarrow> ast \<Rightarrow> bool" where
  "bound_node m n \<longleftrightarrow> (IsWildcard n \<longrightarrow> (\<exists>name v. GetNodeName (Some n) = Some name \<and> m name = Some v))"

lemma all_nodes_mono: "all_nodes P n \<Longrightarrow> (\<And>n. P n \<Longrightarrow> Q n) \<Longrightarrow> all_nodes Q n"
proof (induction P n rule: all_nodes.induct)
  case (1 P n)
  then show ?case using all_nodes.simps [of P n] all_nodes.simps [of Q n] by blast
qed

lemma link_child:
  assumes "walked (shape_of n)" "l \<in> set (links n)" "Some m \<in> set (nodes_of l)"
  shows "m \<in> set (children n)"
  using assms by (force simp: children_def kids_def)

lemma instantiate_later:
  assumes "all_nodes (bound_node m) n" "m \<subseteq>\<^sub>m m'"
  shows "instantiate m' n = instantiate m n"
  using assms(1)
proof (induction "size n" arbitrary: n rule: less_induct)
  case less
  obtain w s ls where n: "n = Node w s ls" by (cases n)
  note here = iffD1 [OF all_nodes.simps less.prems]
  show ?case
  proof (cases "w = NonWildcard")
    case False
    then obtain name v where v: "GetNodeName (Some n) = Some name" "m name = Some v"
      using here n by (auto simp: bound_node_def IsWildcard_def)
    then have "m' name = Some v" using assms(2) by (metis domI map_le_def)
    then show ?thesis using v n False by simp
  next
    case True
    have "instantiate_link m' l = instantiate_link m l" if l: "l \<in> set ls" "walked s" for l
    proof -
      have "instantiate m' k = instantiate m k" if "Some k \<in> set (nodes_of l)" for k
      proof -
        have "k \<in> set (children n)" using link_child [of n l k] l that n by simp
        then show ?thesis using less.hyps child_smaller here by blast
      qed
      then show ?thesis by (cases l) (auto intro!: option.map_cong0 simp: option.set_sel)
    qed
    then show ?thesis using n True by (auto cong: map_cong)
  qed
qed

subsection \<open>The trees and the patterns\<close>

text \<open>
  The bindings that a match makes: a name \<open>%d...\<close> is bound to an identifier, and every other one to a proper tree.
\<close>

definition bindings_ok :: "bindings \<Rightarrow> bool" where
  "bindings_ok m \<longleftrightarrow> (\<forall>name v. m name = Some v \<longrightarrow> proper v \<and> (WildcardTypeFromName (Some name) = WildcardD \<longrightarrow> (\<exists>t. v = MakeId (Some t))))"

text \<open>
  Patterns: the wildcards are identifiers and type names with a proper name, where a type name is not named like an
  identifier; there is no wildcard in the result type of a function declarator, and no node that a search cannot walk.
\<close>

definition plain_result :: "ast \<Rightarrow> bool" where
  "plain_result n \<longleftrightarrow> (case links n of [Many _, One (Some r)] \<Rightarrow> all_nodes (\<lambda>k. \<not> IsWildcard k) r | _ \<Rightarrow> True)"

definition pattern_node :: "ast \<Rightarrow> bool" where
  "pattern_node n \<longleftrightarrow>
     (if IsWildcard n then
        (case shape_of n of
           idNode (Some name) \<Rightarrow> name_ok name
         | tdefNode (Some name) _ \<Rightarrow> name_ok name \<and> WildcardTypeFromName (Some name) \<noteq> WildcardD
         | _ \<Rightarrow> False)
      else recognized n \<and> (case shape_of n of fdclNode _ \<Rightarrow> plain_result n | _ \<Rightarrow> True))"

text \<open>
  The pairs of children that a walk visits together. A pattern fits a tree if no wildcard stands where the tree has
  no child, and no \<open>%d\<close> where it has a declaration or the name of a type, which have a name but are no identifiers.
\<close>

definition pairs :: "link list \<Rightarrow> link list \<Rightarrow> (ast option \<times> ast option) list" where
  "pairs ls rs = concat (map (\<lambda>(l, r). zip (nodes_of l) (nodes_of r)) (zip ls rs))"

lemma pairs_simps [simp]:
  "pairs [] rs = []" "pairs ls [] = []" "pairs (l # ls) (r # rs) = zip (nodes_of l) (nodes_of r) @ pairs ls rs"
  by (simp_all add: pairs_def)

lemma pairs_kids:
  assumes "(x, y) \<in> set (pairs (links n) (links p))"
  shows "x \<in> set (kids n)" "y \<in> set (kids p)"
proof -
  obtain l r where "(l, r) \<in> set (zip (links n) (links p))" "(x, y) \<in> set (zip (nodes_of l) (nodes_of r))"
    using assms by (auto simp: pairs_def)
  then have "l \<in> set (links n)" "r \<in> set (links p)" "x \<in> set (nodes_of l)" "y \<in> set (nodes_of r)"
    by (blast dest: set_zip_leftD set_zip_rightD)+
  then show "x \<in> set (kids n)" "y \<in> set (kids p)" by (auto simp: kids_def)
qed

definition has_type_name :: "ast \<Rightarrow> bool" where
  "has_type_name n = (case shape_of n of tdefNode _ _ \<Rightarrow> True | declNode _ _ \<Rightarrow> True | _ \<Rightarrow> False)"

function fits :: "ast option \<Rightarrow> ast option \<Rightarrow> bool" where
  "fits x y = (case y of None \<Rightarrow> True
     | Some p \<Rightarrow> (case x of None \<Rightarrow> \<not> IsWildcard p
       | Some n \<Rightarrow>
           if IsWildcard p then WildcardTypeFromName (GetWildcardName p) = WildcardD \<longrightarrow> \<not> has_type_name n
           else walked (shape_of n) \<longrightarrow> (\<forall>(u, v) \<in> set (pairs (links n) (links p)). fits u v)))"
  by pat_completeness auto
termination
  by (relation "measure (\<lambda>(x, y). size_option size x)") (auto simp: less_Suc_eq_le dest!: pairs_kids(1) kid_size)

declare fits.simps [simp del]

lemma fits_simps:
  "fits x None" "fits None (Some p) \<longleftrightarrow> \<not> IsWildcard p"
  "IsWildcard p \<Longrightarrow> fits (Some n) (Some p) \<longleftrightarrow> (WildcardTypeFromName (GetWildcardName p) = WildcardD \<longrightarrow> \<not> has_type_name n)"
  "\<not> IsWildcard p \<Longrightarrow> fits (Some n) (Some p) \<longleftrightarrow> (walked (shape_of n) \<longrightarrow> (\<forall>(u, v) \<in> set (pairs (links n) (links p)). fits u v))"
  by (simp_all add: fits.simps [of x None] fits.simps [of None "Some p"] fits.simps [of "Some n" "Some p"])

subsection \<open>Walking the tree and the pattern\<close>

definition state_ok :: "WildcardTable \<Rightarrow> bindings \<Rightarrow> Matching \<Rightarrow> bool" where
  "state_ok T m M \<longleftrightarrow> table_holds T m M \<and> bindings_ok m"

text \<open>From every good state, \<open>run\<close> ends in a good state with more bindings, and where the answer is true \<open>R\<close> holds of them.\<close>

definition finds :: "WildcardTable \<Rightarrow> (Matching \<Rightarrow> pattern_answer) \<Rightarrow> (bindings \<Rightarrow> bool) \<Rightarrow> bool" where
  "finds T run R \<longleftrightarrow> (\<forall>m M. state_ok T m M \<longrightarrow>
     (\<exists>b m' M'. run M = Some (Inr (b, M')) \<and> state_ok T m' M' \<and> m \<subseteq>\<^sub>m m' \<and> (b \<longrightarrow> R m')))"

lemma findsI:
  assumes "\<And>m M. state_ok T m M \<Longrightarrow> \<exists>b m' M'. run M = Some (Inr (b, M')) \<and> state_ok T m' M' \<and> m \<subseteq>\<^sub>m m' \<and> (b \<longrightarrow> R m')"
  shows "finds T run R"
  using assms unfolding finds_def by blast

lemma findsE:
  assumes "finds T run R" "state_ok T m M"
  obtains b m' M' where "run M = Some (Inr (b, M'))" "state_ok T m' M'" "m \<subseteq>\<^sub>m m'" "b \<Longrightarrow> R m'"
  using assms unfolding finds_def by blast

definition later_too :: "(bindings \<Rightarrow> bool) \<Rightarrow> bool" where
  "later_too R \<longleftrightarrow> (\<forall>m m'. R m \<longrightarrow> m \<subseteq>\<^sub>m m' \<longrightarrow> R m')"

lemma pattern_answers [simp]:
  "PatternEqualASTContinue (Some (Inr (b, M))) = b" "PatternEqualASTFailcode (Some (Inr (b, M))) = Some (Inr (False, M))"
  "pattern_undefined (Some (Inr (b, M))) = Some (Inl Undefined)"
  by (simp_all add: PatternEqualASTContinue_def PatternEqualASTFailcode_def pattern_undefined_def)

text \<open>Two runs after each other, the second of which keeps the answer false.\<close>

lemma finds_both:
  assumes "finds T (\<lambda>M. f (Some (Inr (True, M)))) R" "finds T (\<lambda>M. g (Some (Inr (True, M)))) Q" "later_too R"
    and "\<And>M. g (Some (Inr (False, M))) = Some (Inr (False, M))"
  shows "finds T (\<lambda>M. g (f (Some (Inr (True, M))))) (\<lambda>m. R m \<and> Q m)"
proof (rule findsI)
  fix m M assume ok: "state_ok T m M"
  obtain b m1 M1 where 1: "f (Some (Inr (True, M))) = Some (Inr (b, M1))" "state_ok T m1 M1" "m \<subseteq>\<^sub>m m1" "b \<Longrightarrow> R m1"
    by (rule findsE [OF assms(1) ok]) blast
  show "\<exists>b m' M'. g (f (Some (Inr (True, M)))) = Some (Inr (b, M')) \<and> state_ok T m' M' \<and> m \<subseteq>\<^sub>m m' \<and> (b \<longrightarrow> R m' \<and> Q m')"
  proof (cases b)
    case False
    then show ?thesis using 1 assms(4) by auto
  next
    case True
    obtain c m2 M2 where 2: "g (Some (Inr (True, M1))) = Some (Inr (c, M2))" "state_ok T m2 M2" "m1 \<subseteq>\<^sub>m m2" "c \<Longrightarrow> Q m2"
      by (rule findsE [OF assms(2) 1(2)]) blast
    have "R m2" using assms(3) 1(4) True 2(3) unfolding later_too_def by blast
    moreover have "m \<subseteq>\<^sub>m m2" by (rule map_le_trans [OF 1(3) 2(3)])
    ultimately show ?thesis using 1(1) 2 True by (intro exI [of _ c] exI [of _ m2] exI [of _ M2]) simp
  qed
qed

end
