(* ===== verification/Cc_Pattern_Walks.thy ===== *)
theory Cc_Pattern_Walks
  imports Cc_Pattern_Laws
begin

section \<open>The walk of a match\<close>

text \<open>Runs on the corresponding children of two nodes put together to a run on the nodes, link by link.\<close>

lemma dual_list_false: "dual_list_walk code PatternEqualASTContinue PatternEqualASTFailcode l1 l2 (Some (Inr (False, M))) = Some (Inr (False, M))"
  by (cases l1; cases l2) (simp_all add: dual_list_walk_def)

lemma later_tooD: "later_too R \<Longrightarrow> R m \<Longrightarrow> m \<subseteq>\<^sub>m m' \<Longrightarrow> R m'"
  by (auto simp: later_too_def)

lemma later_list:
  assumes "\<And>x y. later_too (\<lambda>m. R m x y)"
  shows "later_too (\<lambda>m. list_all2 (R m) l1 l2)"
  using assms by (auto simp: later_too_def elim!: list_all2_mono)

lemma later_link:
  assumes "\<And>x y. later_too (\<lambda>m. R m x y)"
  shows "later_too (\<lambda>m. link_rel (R m) l r)"
  using assms later_list [of R] by (cases l; cases r) (simp_all add: later_too_def)

lemma finds_answer:
  assumes "b \<Longrightarrow> (\<And>m. R m)"
  shows "finds T (\<lambda>M. Some (Inr (b, M))) R"
proof (rule findsI)
  fix m M assume "state_ok T m M"
  then show "\<exists>c m' M'. Some (Inr (b, M)) = Some (Inr (c, M')) \<and> state_ok T m' M' \<and> m \<subseteq>\<^sub>m m' \<and> (c \<longrightarrow> R m')"
    using assms by (intro exI [of _ b] exI [of _ m] exI [of _ M]) simp
qed

lemma finds_list:
  assumes "\<And>x y. (x, y) \<in> set (zip l1 l2) \<Longrightarrow> finds T (\<lambda>M. code x y (Some (Inr (True, M)))) (\<lambda>m. R m x y)"
    and "\<And>x y. later_too (\<lambda>m. R m x y)" "None \<notin> set l1" "None \<notin> set l2"
  shows "finds T (\<lambda>M. dual_list_walk code PatternEqualASTContinue PatternEqualASTFailcode l1 l2 (Some (Inr (True, M)))) (\<lambda>m. list_all2 (R m) l1 l2)"
proof -
  let ?loop = "dual_list_loop code PatternEqualASTContinue PatternEqualASTFailcode"
  have false: "?loop xs ys (Some (Inr (False, M))) = Some (Inr (False, M))" for xs ys M
    by (cases xs; cases ys) simp_all
  have "finds T (\<lambda>M. ?loop l1 l2 (Some (Inr (True, M)))) (\<lambda>m. list_all2 (R m) l1 l2)"
    using assms(1,3,4)
  proof (induction l1 arbitrary: l2)
    case Nil
    then show ?case by (cases l2) (simp_all add: finds_answer)
  next
    case (Cons x xs)
    show ?case
    proof (cases l2)
      case Nil
      then show ?thesis by (simp add: finds_answer)
    next
      case (Cons y ys)
      have "finds T (\<lambda>M. ?loop xs ys (code x y (Some (Inr (True, M))))) (\<lambda>m. R m x y \<and> list_all2 (R m) xs ys)"
      proof (rule finds_both [where f = "code x y" and g = "?loop xs ys"])
        show "finds T (\<lambda>M. ?loop xs ys (Some (Inr (True, M)))) (\<lambda>m. list_all2 (R m) xs ys)"
          by (rule Cons.IH) (use Cons.prems Cons in auto)
      qed (use Cons.prems Cons assms(2) false in simp_all)
      moreover have "x \<noteq> None \<and> y \<noteq> None" using Cons.prems(2,3) Cons by (metis list.set_intros(1))
      ultimately show ?thesis using Cons by simp
    qed
  qed
  then show ?thesis by (cases l1; cases l2) (simp_all add: dual_list_walk_def finds_answer)
qed

text \<open>
  A walk that has found a difference goes on with a single child only where it does not ask; there \<open>code\<close> must keep
  the answer.
\<close>

definition keeps_no :: "(ast option \<Rightarrow> ast option \<Rightarrow> pattern_answer \<Rightarrow> pattern_answer) \<Rightarrow> bool list \<Rightarrow> link list \<Rightarrow> link list \<Rightarrow> bool" where
  "keeps_no code gs l1 l2 \<longleftrightarrow> (\<forall>(g, l, r) \<in> set (zip gs (zip l1 l2)). \<forall>x y M.
     \<not> g \<longrightarrow> l = One x \<longrightarrow> r = One y \<longrightarrow> code x y (Some (Inr (False, M))) = Some (Inr (False, M)))"

lemma keeps_no_Cons:
  "keeps_no code (g # gs) (l # ls) (r # rs) \<longleftrightarrow>
     (\<forall>x y M. \<not> g \<longrightarrow> l = One x \<longrightarrow> r = One y \<longrightarrow> code x y (Some (Inr (False, M))) = Some (Inr (False, M))) \<and> keeps_no code gs ls rs"
  by (simp add: keeps_no_def)

lemma dual_links_false:
  assumes "keeps_no code gs l1 l2" "map kind_of_link l1 = map kind_of_link l2" "length l1 \<le> length gs"
  shows "dual_links code PatternEqualASTContinue PatternEqualASTFailcode undef gs l1 l2 (Some (Inr (False, M))) = Some (Inr (False, M))"
  using assms
proof (induction l1 arbitrary: gs l2)
  case (Cons l ls)
  obtain r rs where l2: "l2 = r # rs" "kind_of_link l = kind_of_link r" "map kind_of_link ls = map kind_of_link rs"
    using Cons.prems(2) by (cases l2) auto
  obtain g gs' where gs: "gs = g # gs'" "length ls \<le> length gs'" using Cons.prems(3) by (cases gs) auto
  have k: "keeps_no code gs' ls rs" using Cons.prems(1) l2(1) gs(1) by (simp add: keeps_no_Cons)
  note IH = Cons.IH [OF k l2(3) gs(2)]
  show ?case
  proof (cases l)
    case (One x)
    then obtain y where y: "r = One y" using l2 by (cases r) auto
    have "\<not> g \<Longrightarrow> code x y (Some (Inr (False, M))) = Some (Inr (False, M))"
      using Cons.prems(1) l2(1) gs(1) One y by (simp add: keeps_no_Cons)
    then show ?thesis using One y l2(1) gs(1) IH by simp
  next
    case (Many xs)
    then show ?thesis using IH l2 gs by (cases r) (simp_all add: dual_list_false)
  qed
qed simp

lemma finds_links:
  assumes "\<And>x y. (x, y) \<in> set (pairs l1 l2) \<Longrightarrow> finds T (\<lambda>M. code x y (Some (Inr (True, M)))) (\<lambda>m. R m x y)"
    and later: "\<And>x y. later_too (\<lambda>m. R m x y)"
    and "map kind_of_link l1 = map kind_of_link l2" "length l1 \<le> length gs" "keeps_no code (tl gs) (tl l1) (tl l2)"
    and "\<And>xs. Many xs \<in> set l1 \<union> set l2 \<Longrightarrow> None \<notin> set xs"
  shows "finds T (\<lambda>M. dual_links code PatternEqualASTContinue PatternEqualASTFailcode undef gs l1 l2 (Some (Inr (True, M))))
    (\<lambda>m. list_all2 (link_rel (R m)) l1 l2)"
  using assms(1,3-6)
proof (induction l1 arbitrary: gs l2)
  case Nil
  then show ?case by (simp add: finds_answer)
next
  case (Cons l ls)
  obtain r rs where l2: "l2 = r # rs" "kind_of_link l = kind_of_link r" "map kind_of_link ls = map kind_of_link rs"
    using Cons.prems(2) by (cases l2) auto
  obtain g gs' where gs: "gs = g # gs'" "length ls \<le> length gs'" using Cons.prems(3) by (cases gs) auto
  let ?walk = "dual_links code PatternEqualASTContinue PatternEqualASTFailcode undef"
  have no: "keeps_no code gs' ls rs" using Cons.prems(4) gs l2(1) by simp
  then have "keeps_no code (tl gs') (tl ls) (tl rs)" by (cases gs'; cases ls; cases rs) (simp_all add: keeps_no_def)
  then have IH: "finds T (\<lambda>M. ?walk gs' ls rs (Some (Inr (True, M)))) (\<lambda>m. list_all2 (link_rel (R m)) ls rs)"
    by (intro Cons.IH) (use Cons.prems l2 gs in auto)
  have false: "?walk gs' ls rs (Some (Inr (False, M))) = Some (Inr (False, M))" for M
    by (rule dual_links_false [OF no l2(3) gs(2)])
  have both: "finds T (\<lambda>M. ?walk gs' ls rs (f (Some (Inr (True, M))))) (\<lambda>m. link_rel (R m) l r \<and> list_all2 (link_rel (R m)) ls rs)"
    if "finds T (\<lambda>M. f (Some (Inr (True, M)))) (\<lambda>m. link_rel (R m) l r)" for f
    by (rule finds_both [where f = f and g = "?walk gs' ls rs", OF that IH later_link [OF later] false])
  show ?case
  proof (cases l)
    case (One x)
    then obtain y where y: "r = One y" using l2 by (cases r) auto
    have "finds T (\<lambda>M. code x y (Some (Inr (True, M)))) (\<lambda>m. link_rel (R m) l r)" using Cons.prems(1) One l2 y by simp
    from both [OF this] show ?thesis using One y gs l2 by simp
  next
    case (Many xs)
    then obtain ys where y: "r = Many ys" using l2 by (cases r) auto
    have "finds T (\<lambda>M. dual_list_walk code PatternEqualASTContinue PatternEqualASTFailcode xs ys (Some (Inr (True, M)))) (\<lambda>m. list_all2 (R m) xs ys)"
      by (rule finds_list) (use Cons.prems Many l2 y later in auto)
    then have "finds T (\<lambda>M. dual_list_walk code PatternEqualASTContinue PatternEqualASTFailcode xs ys (Some (Inr (True, M)))) (\<lambda>m. link_rel (R m) l r)"
      using Many y by simp
    from both [OF this] show ?thesis using Many y gs l2 by simp
  qed
qed

text \<open>The only single child after the first link for which a walk does not ask is the result type of a function.\<close>

lemma unguarded_child:
  assumes "map kind_of_link ls = link_kinds s" "(g, One x) \<in> set (zip (tl (guards s)) (tl ls))" "\<not> g"
  shows "\<exists>q ps. s = fdclNode q \<and> ls = [Many ps, One x]"
proof -
  have "(g, Child) \<in> set (zip (tl (guards s)) (map kind_of_link (tl ls)))" using assms(2) by (force simp: zip_map2)
  then have k: "(False, Child) \<in> set (zip (tl (guards s)) (tl (link_kinds s)))" using assms(1,3) by (simp add: map_tl)
  then have "\<exists>q. s = fdclNode q" by (cases s) (simp_all add: guards_def link_kinds_def)
  then obtain q where q: "s = fdclNode q" by blast
  then obtain l r where ls: "ls = [l, r]" "kind_of_link l = Children" using assms(1) by (auto simp: link_kinds_def)
  moreover have "r = One x" using assms(2) q ls by (simp add: guards_def)
  moreover obtain ps where "l = Many ps" using ls(2) by (cases l) simp_all
  ultimately show ?thesis using q by simp
qed

end
