(* ===== verification/Cc_Pattern_Properties.thy ===== *)
theory Cc_Pattern_Properties
  imports Cc_Pattern_Walks
begin

section \<open>Matching and filling in\<close>

text \<open>A match that answers true leaves bindings under which the pattern looks like the tree; filling in gives that instance.\<close>

definition looks_like :: "bindings \<Rightarrow> ast option \<Rightarrow> ast option \<Rightarrow> bool" where
  "looks_like m x y = (case (x, y) of
      (Some n, Some p) \<Rightarrow> all_nodes (bound_node m) p \<and> erase n = erase (instantiate m p)
    | (None, None) \<Rightarrow> True
    | _ \<Rightarrow> False)"

lemma looks_like_later: "later_too (\<lambda>m. looks_like m x y)"
proof -
  have bound: "all_nodes (bound_node m') p" if "all_nodes (bound_node m) p" "m \<subseteq>\<^sub>m m'" for m m' p
  proof (rule all_nodes_mono [OF that(1)])
    show "bound_node m' n" if "bound_node m n" for n
      using that \<open>m \<subseteq>\<^sub>m m'\<close> unfolding bound_node_def map_le_def by (metis domI)
  qed
  show ?thesis
    unfolding later_too_def
  proof (intro allI impI)
    fix m m' assume l: "looks_like m x y" "m \<subseteq>\<^sub>m m'"
    show "looks_like m' x y"
    proof (cases y)
      case None
      then show ?thesis using l(1) by (simp add: looks_like_def split: option.splits)
    next
      case (Some p)
      then obtain n where n: "x = Some n" "all_nodes (bound_node m) p" "erase n = erase (instantiate m p)"
        using l(1) by (cases x) (simp_all add: looks_like_def)
      have "all_nodes (bound_node m') p" "instantiate m' p = instantiate m p"
        using bound [OF n(2) l(2)] instantiate_later [OF n(2) l(2)] by blast+
      then show ?thesis using n Some by (simp add: looks_like_def)
    qed
  qed
qed

lemma looks_like_link:
  assumes "link_rel (looks_like m) l r"
  shows "erase_link l = erase_link (instantiate_link m r)" "Some k \<in> set (nodes_of r) \<Longrightarrow> all_nodes (bound_node m) k"
proof -
  have one: "map_option erase x = map_option erase (map_option (instantiate m) y)" if "looks_like m x y" for x y
    using that by (auto simp: looks_like_def split: option.splits)
  have many: "map (map_option erase) xs = map (map_option erase) (map (map_option (instantiate m)) ys)" if "list_all2 (looks_like m) xs ys" for xs ys
    using that one by (induction xs ys rule: list_all2_induct) auto
  show "erase_link l = erase_link (instantiate_link m r)"
    using assms one many by (cases l; cases r) auto
  have "\<exists>x. looks_like m x (Some k)" if "list_all2 (looks_like m) xs ys" "Some k \<in> set ys" for xs ys
    using that by (induction xs ys rule: list_all2_induct) auto
  moreover have "all_nodes (bound_node m) k" if "looks_like m x (Some k)" for x
    using that by (auto simp: looks_like_def split: option.splits)
  ultimately show "all_nodes (bound_node m) k" if "Some k \<in> set (nodes_of r)"
    using assms that by (cases l; cases r) auto
qed

lemma looks_like_node:
  assumes "\<not> IsWildcard p" "erase_shape (shape_of n) = erase_shape (shape_of p)"
    and "walked (shape_of p) \<Longrightarrow> list_all2 (link_rel (looks_like m)) (links n) (links p)"
  shows "looks_like m (Some n) (Some p)"
proof -
  obtain w s ls where n: "n = Node w s ls" by (cases n)
  obtain t rs where p: "p = Node NonWildcard t rs" using assms(1) by (cases p) (auto simp: IsWildcard_def)
  have same: "walked s = walked t" using assms(2) n p erase_shape_keeps(1) by (metis ast.sel(2))
  have "map erase_link ls = map erase_link (map (instantiate_link m) rs)" if "walked t"
    using assms(3) n p that looks_like_link(1) by (auto simp: list_all2_conv_all_nth intro!: nth_equalityI)
  then have "erase n = erase (instantiate m p)" using assms(2) n p same by auto
  moreover have "all_nodes (bound_node m) k" if k: "k \<in> set (children p)" for k
  proof -
    have w: "walked t" using k p by (auto simp: children_def split: if_splits)
    obtain r where r: "r \<in> set rs" "Some k \<in> set (nodes_of r)" using children_kids [OF k] p by (auto simp: kids_def)
    then obtain l where "link_rel (looks_like m) l r"
      using assms(3) p w by (auto simp: list_all2_conv_all_nth in_set_conv_nth)
    then show ?thesis using looks_like_link(2) r by blast
  qed
  moreover have "bound_node m p" using assms(1) by (simp add: bound_node_def)
  ultimately have "all_nodes (bound_node m) p" using all_nodes.simps [of "bound_node m" p] by blast
  then show ?thesis using \<open>erase n = _\<close> by (simp add: looks_like_def)
qed

lemma erase_wTyp [simp]: "erase (wTyp_update w n) = erase n"
  by (cases n) (simp add: wTyp_update_def)

lemma looks_like_wildcard:
  assumes "IsWildcard p" "GetNodeName (Some p) = Some name" "m name = Some v" "links p = []" "erase n = erase v"
  shows "looks_like m (Some n) (Some p)"
proof -
  have "all_nodes (bound_node m) p"
    using assms all_nodes.simps [of "bound_node m" p] by (simp add: bound_node_def children_def kids_def)
  moreover have "instantiate m p = wTyp_update NonWildcard v"
    using assms(1-3) by (cases p) (simp add: IsWildcard_def)
  ultimately show ?thesis using assms(5) by (simp add: looks_like_def)
qed

lemma named_tree:
  assumes "proper n" "\<not> has_type_name n" "GetNodeName (Some n) = Some t"
  shows "erase n = erase (MakeId (Some t))" "link_kinds (shape_of n) = []"
  using assms by (cases n; cases "shape_of n"; simp add: GetNodeName_def has_type_name_def MakeId_def link_kinds_def)+

subsection \<open>A match\<close>

lemma wildcard_node:
  assumes "pattern_node p" "IsWildcard p" "proper p"
  obtains name where "GetNodeName (Some p) = Some name" "GetWildcardName p = Some name" "name_ok name" "links p = []"
    "link_kinds (shape_of p) = []" "WildcardTypeFromName (Some name) = WildcardD \<Longrightarrow> shape_of p = idNode (Some name)"
  using assms by (cases p; cases "shape_of p")
    (auto simp: pattern_node_def GetWildcardName_def GetNodeName_def link_kinds_def split: option.splits)

lemma bind_more:
  assumes "state_ok T m M" "table_holds T (m(name \<mapsto> v)) M'" "m name = None" "proper v"
    "WildcardTypeFromName (Some name) = WildcardD \<Longrightarrow> \<exists>t. v = MakeId (Some t)"
  shows "state_ok T (m(name \<mapsto> v)) M'" "m \<subseteq>\<^sub>m m(name \<mapsto> v)"
  using assms by (auto simp: state_ok_def bindings_ok_def map_le_def)

lemma match_wildcard:
  assumes tree: "proper n" and fit: "fits (Some n) (Some p)" and p: "proper p" "pattern_node p" "IsWildcard p"
  shows "finds T (\<lambda>M. PatternEqualASTHelper T (Some n) (Some p) (Some (Inr (True, M)))) (\<lambda>m. looks_like m (Some n) (Some p))"
proof (rule findsI)
  fix m M assume ok: "state_ok T m M"
  obtain name where name: "GetNodeName (Some p) = Some name" "GetWildcardName p = Some name" "name_ok name" "links p = []"
    "WildcardTypeFromName (Some name) = WildcardD \<Longrightarrow> shape_of p = idNode (Some name)"
    using wildcard_node [OF p(2,3,1)] by metis
  have holds: "table_holds T m M" using ok by (simp add: state_ok_def)
  obtain M1 where M1: "LookupWildcard (Some T) (Some name) M = Some (Inr (m name, M1))" "table_holds T m M1"
    by (rule LookupWildcard_run [OF holds name(3)])
  have ok1: "state_ok T m M1" using ok M1(2) by (simp add: state_ok_def)
  let ?run = "PatternEqualASTHelper T (Some n) (Some p) (Some (Inr (True, M)))"
  let ?goal = "\<exists>b m' M'. ?run = Some (Inr (b, M')) \<and> state_ok T m' M' \<and> m \<subseteq>\<^sub>m m' \<and> (b \<longrightarrow> looks_like m' (Some n) (Some p))"
  have look: "looks_like m' (Some n) (Some p)" if "m' name = Some v" "erase n = erase v" for m' v
    by (rule looks_like_wildcard [where m = m' and name = name and v = v]) (use p(3) name(1,4) that in simp_all)
  have answered: ?goal if "?run = Some (Inr (b, M'))" "state_ok T m' M'" "m \<subseteq>\<^sub>m m'" "b \<Longrightarrow> looks_like m' (Some n) (Some p)" for b M' m'
    using that by blast
  note run = PatternEqualASTHelper.simps [of T "Some n" "Some p"]
  show ?goal
  proof (cases "WildcardTypeFromName (Some name) = WildcardD")
    case D: True
    show ?thesis
    proof (cases "GetNodeName (Some n)")
      case None
      then show ?thesis using answered [of False M1 m] ok1 D M1(1) p(3) name(2) by (simp add: run looked_up_def match_name_def)
    next
      case (Some t)
      have "\<not> has_type_name n" using fit fits_simps(3) [OF p(3)] D name(2) by simp
      note leaf = named_tree [OF tree this Some]
      have walk: "dual_ast_walk c cont f u n q a = a" for c cont f u q and a :: pattern_answer
        using leaf(2) by (simp add: dual_ast_walk_def)
      show ?thesis
      proof (cases "m name")
        case None
        obtain M2 where M2: "InsertWildcard (Some T) (Some name) (Some (MakeId (Some t))) M1 = Some (Inr ((), M2))"
          "table_holds T (m(name \<mapsto> MakeId (Some t))) M2" by (rule InsertWildcard_run [OF M1(2) name(3) None])
        have "proper (MakeId (Some t))" by (simp add: MakeId_def link_kinds_def constant_fits_def)
        then have more: "state_ok T (m(name \<mapsto> MakeId (Some t))) M2" "m \<subseteq>\<^sub>m m(name \<mapsto> MakeId (Some t))"
          using bind_more [OF ok1 M2(2) None] by blast+
        have "?run = Some (Inr (True, M2))"
          using D M1(1) M2(1) p(3) name(2) Some None walk by (simp add: run looked_up_def match_name_def)
        then show ?thesis by (rule answered [OF _ more]) (use look leaf(1) in simp)
      next
        case v: (Some v)
        obtain u where u: "v = MakeId (Some u)" using ok v D by (auto simp: state_ok_def bindings_ok_def)
        have "GetNodeName (Some v) = Some u" using u by (simp add: GetNodeName_def MakeId_def)
        then have "?run = Some (Inr (t = u, M1))"
          using D M1(1) p(3) name(2) Some v walk by (simp add: run looked_up_def match_name_def)
        then show ?thesis by (rule answered [OF _ ok1 map_le_refl]) (use look [of m v] v u leaf(1) in simp)
      qed
    qed
  next
    case other: False
    show ?thesis
    proof (cases "m name")
      case None
      obtain M2 where M2: "InsertWildcard (Some T) (Some name) (Some n) M1 = Some (Inr ((), M2))" "table_holds T (m(name \<mapsto> n)) M2"
        by (rule InsertWildcard_run [OF M1(2) name(3) None])
      have more: "state_ok T (m(name \<mapsto> n)) M2" "m \<subseteq>\<^sub>m m(name \<mapsto> n)"
        using bind_more [OF ok1 M2(2) None tree] other by blast+
      have "?run = Some (Inr (True, M2))"
        using other M1(1) M2(1) p(3) name(2) None by (simp add: run looked_up_def match_tree_def)
      then show ?thesis by (rule answered [OF _ more]) (use look in simp)
    next
      case (Some v)
      have "proper v" using ok Some by (auto simp: state_ok_def bindings_ok_def)
      then have "?run = Some (Inr (erase n = erase v, M1))"
        using other M1(1) p(3) name(2) Some compare_erased [OF tree] by (simp add: run looked_up_def match_tree_def)
      then show ?thesis by (rule answered [OF _ ok1 map_le_refl]) (use look [of m v] Some in simp)
    qed
  qed
qed

lemma no_child_compared:
  "PatternEqualASTHelper T None None (Some (Inr (b, M))) = Some (Inr (b, M))"
  "\<not> IsWildcard p \<Longrightarrow> PatternEqualASTHelper T None (Some p) (Some (Inr (b, M))) = Some (Inr (False, M))"
  "PatternEqualASTHelper T (Some n) None (Some (Inr (b, M))) = Some (Inr (False, M))"
  by (simp_all add: PatternEqualASTHelper.simps [of T None] PatternEqualASTHelper.simps [of T "Some n"] EqualNodes_def EqualTypeNodes_def)

text \<open>A pattern without wildcards does not turn a no into a yes.\<close>

lemma keeps_no_kids:
  assumes "map kind_of_link (links n) = link_kinds (shape_of n)"
    and "\<And>x y M. (x, y) \<in> set (pairs (links n) (links p)) \<Longrightarrow> code x y (Some (Inr (False, M))) = Some (Inr (False, M))"
  shows "keeps_no code (guards (shape_of n)) (links n) (links p)"
  unfolding keeps_no_def
proof (intro ballI case_prodI2 allI impI)
  fix t g lr l r x y M
  assume "t \<in> set (zip (guards (shape_of n)) (zip (links n) (links p)))" "t = (g, lr)" "lr = (l, r)" "l = One x" "r = One y"
  then have "(One x, One y) \<in> set (zip (links n) (links p))" by (auto dest: set_zip_rightD)
  then have "(x, y) \<in> set (pairs (links n) (links p))" by (force simp: pairs_def)
  then show "code x y (Some (Inr (False, M))) = Some (Inr (False, M))" by (rule assms(2))
qed

lemma no_stays_no:
  assumes "proper_opt x" "\<And>p. y = Some p \<Longrightarrow> proper p \<and> all_nodes (\<lambda>k. \<not> IsWildcard k) p"
  shows "PatternEqualASTHelper T x y (Some (Inr (False, M))) = Some (Inr (False, M))"
  using assms
proof (induction "size_option size x" arbitrary: x y M rule: less_induct)
  case less
  show ?case
  proof (cases "x = None \<or> y = None")
    case True
    moreover have "\<not> IsWildcard p" if "y = Some p" for p
      using less.prems(2) [OF that] iffD1 [OF all_nodes.simps] by blast
    ultimately show ?thesis by (cases x; cases y) (auto simp: no_child_compared)
  next
    case False
    then obtain n p where xy: "x = Some n" "y = Some p" by auto
    then have n: "proper n" and p: "proper p" "all_nodes (\<lambda>k. \<not> IsWildcard k) p" using less.prems by auto
    have plain: "\<not> IsWildcard p" using iffD1 [OF all_nodes.simps p(2)] by blast
    obtain e where e: "EqualNodes (Some n) (Some p) = Inr e" "e \<Longrightarrow> erase_shape (shape_of n) = erase_shape (shape_of p)"
      using EqualNodes_erase [OF n p(1)] by blast
    have kinds: "map kind_of_link (links n) = link_kinds (shape_of n)" "map kind_of_link (links p) = link_kinds (shape_of p)"
      using proper_kids(3) n p(1) by blast+
    have "dual_ast_walk (PatternEqualASTHelper T) PatternEqualASTContinue PatternEqualASTFailcode pattern_undefined n p (Some (Inr (False, M)))
      = Some (Inr (False, M))" if True: e
    proof -
      have sh: "erase_shape (shape_of n) = erase_shape (shape_of p)" by (rule e(2) [OF True])
      then have same: "walked (shape_of n) = walked (shape_of p)" "link_kinds (shape_of n) = link_kinds (shape_of p)"
        "node_type (shape_of n) = node_type (shape_of p)" using erase_shape_keeps erase_node_type by metis+
      have step: "PatternEqualASTHelper T u v (Some (Inr (False, M))) = Some (Inr (False, M))"
        if "(u, v) \<in> set (pairs (links n) (links p))" "walked (shape_of n)" for u v M
      proof (rule less.hyps)
        note uv = pairs_kids [OF that(1)]
        show "size_option size u < size_option size x" using kid_size [OF uv(1)] xy by simp
        show "proper_opt u" by (rule proper_kids(1) [OF n uv(1)])
        fix q assume q: "v = Some q"
        have "q \<in> set (children p)" using uv(2) q that(2) same(1) by (force simp: children_def)
        then show "proper q \<and> all_nodes (\<lambda>k. \<not> IsWildcard k) q" using children_ok [OF p] by blast
      qed
      have len: "length (links n) \<le> length (guards (shape_of n))" using kinds(1) guards_enough by (metis length_map)
      have "keeps_no (PatternEqualASTHelper T) (guards (shape_of n)) (links n) (links p)" if "walked (shape_of n)"
        by (rule keeps_no_kids [OF kinds(1)]) (rule step [OF _ that])
      then show ?thesis using same kinds by (simp add: dual_ast_walk_def dual_links_false len)
    qed
    then show ?thesis using plain e(1) xy by (simp add: PatternEqualASTHelper.simps [of T "Some n"])
  qed
qed

lemma link_kinds_fdcl: "link_kinds (fdclNode q) = [Children, Child]"
  by (simp add: link_kinds_def)

lemma pattern_keeps_no:
  assumes "proper n" "proper p" "pattern_node p" "\<not> IsWildcard p" "erase_shape (shape_of n) = erase_shape (shape_of p)"
  shows "keeps_no (PatternEqualASTHelper T) (tl (guards (shape_of n))) (tl (links n)) (tl (links p))"
  unfolding keeps_no_def
proof (intro ballI case_prodI2 allI impI)
  fix t g lr l r x y M
  assume t: "t \<in> set (zip (tl (guards (shape_of n))) (zip (tl (links n)) (tl (links p))))" "t = (g, lr)" "lr = (l, r)"
    and g: "\<not> g" "l = One x" "r = One y"
  have kinds: "map kind_of_link (links n) = link_kinds (shape_of n)" "map kind_of_link (links p) = link_kinds (shape_of p)"
    using proper_kids(3) assms(1,2) by blast+
  have lr: "(l, r) \<in> set (zip (tl (links n)) (tl (links p)))" using t by (auto dest: set_zip_rightD)
  have "(g, One x) \<in> set (zip (tl (guards (shape_of n))) (tl (links n)))"
    using t g(2) by (auto simp: set_zip)
  from unguarded_child [OF kinds(1) this g(1)]
  obtain q ps where n: "shape_of n = fdclNode q" "links n = [Many ps, One x]" by blast
  have "node_type (shape_of p) = 30" using assms(5) n(1) erase_node_type by (metis node_type_simps(31))
  then obtain q' where q': "shape_of p = fdclNode q'" by (auto simp: node_type_iff)
  have "length (links p) = 2" using kinds(2) q' by (metis length_map length_Cons list.size(3) link_kinds_fdcl numeral_2_eq_2)
  then have p: "links p = [hd (links p), One y]" using lr n(2) g(3) by (cases "links p" rule: list.exhaust; cases "tl (links p)") auto
  then have "kind_of_link (hd (links p)) = Children" using kinds(2) q' by (metis link_kinds_fdcl list.map(2) list.inject)
  then obtain qs where qs: "links p = [Many qs, One y]" using p by (cases "hd (links p)") simp_all
  have "proper k \<and> all_nodes (\<lambda>k. \<not> IsWildcard k) k" if k: "y = Some k" for k
  proof -
    have "proper k" using proper_kids(1) [OF assms(2), of y] qs k by (simp add: kids_def)
    moreover have "all_nodes (\<lambda>k. \<not> IsWildcard k) k" using assms(3,4) q' qs k by (simp add: pattern_node_def plain_result_def)
    ultimately show ?thesis by blast
  qed
  moreover have "proper_opt x" using proper_kids(1) [OF assms(1), of x] n(2) by (simp add: kids_def)
  ultimately show "PatternEqualASTHelper T x y (Some (Inr (False, M))) = Some (Inr (False, M))" by (intro no_stays_no)
qed

lemma match_walk:
  assumes n: "proper n" and p: "proper p" "pattern_node p" "\<not> IsWildcard p"
    and sh: "erase_shape (shape_of n) = erase_shape (shape_of p)"
    and step: "\<And>u v. (u, v) \<in> set (pairs (links n) (links p)) \<Longrightarrow> walked (shape_of n) \<Longrightarrow>
      finds T (\<lambda>M. PatternEqualASTHelper T u v (Some (Inr (True, M)))) (\<lambda>m. looks_like m u v)"
  shows "finds T (\<lambda>M. dual_ast_walk (PatternEqualASTHelper T) PatternEqualASTContinue PatternEqualASTFailcode pattern_undefined n p
      (Some (Inr (True, M)))) (\<lambda>m. looks_like m (Some n) (Some p))"
proof -
  have same: "walked (shape_of n) = walked (shape_of p)" "link_kinds (shape_of n) = link_kinds (shape_of p)"
    "node_type (shape_of n) = node_type (shape_of p)" using sh erase_shape_keeps erase_node_type by metis+
  have kinds: "map kind_of_link (links n) = link_kinds (shape_of n)" "map kind_of_link (links p) = link_kinds (shape_of p)"
    using proper_kids(3) n p(1) by blast+
  let ?walk = "dual_ast_walk (PatternEqualASTHelper T) PatternEqualASTContinue PatternEqualASTFailcode pattern_undefined n p"
  show ?thesis
  proof (cases "link_kinds (shape_of n) = [] \<or> \<not> walked (shape_of n)")
    case True
    have "looks_like m (Some n) (Some p)" for m
      by (rule looks_like_node [OF p(3) sh]) (use True kinds same in auto)
    moreover have "?walk (Some (Inr (True, M))) = Some (Inr (True, M))" for M using True same by (auto simp: dual_ast_walk_def)
    ultimately show ?thesis by (simp add: finds_answer)
  next
    case False
    have "finds T (\<lambda>M. dual_links (PatternEqualASTHelper T) PatternEqualASTContinue PatternEqualASTFailcode pattern_undefined
        (guards (shape_of n)) (links n) (links p) (Some (Inr (True, M)))) (\<lambda>m. list_all2 (link_rel (looks_like m)) (links n) (links p))"
    proof (rule finds_links)
      show "length (links n) \<le> length (guards (shape_of n))" using kinds(1) guards_enough by (metis length_map)
      show "keeps_no (PatternEqualASTHelper T) (tl (guards (shape_of n))) (tl (links n)) (tl (links p))"
        by (rule pattern_keeps_no [OF n p sh])
      show "None \<notin> set xs" if "Many xs \<in> set (links n) \<union> set (links p)" for xs
        using that proper_kids(2) n p(1) by blast
    qed (use step False kinds same looks_like_later in simp_all)
    then have "finds T (\<lambda>M. ?walk (Some (Inr (True, M)))) (\<lambda>m. list_all2 (link_rel (looks_like m)) (links n) (links p))"
      using False same by (simp add: dual_ast_walk_def)
    then show ?thesis using looks_like_node [OF p(3) sh] unfolding finds_def by blast
  qed
qed

lemma match_node:
  assumes "proper_opt x" "\<And>p. y = Some p \<Longrightarrow> proper p \<and> all_nodes pattern_node p" "fits x y"
  shows "finds T (\<lambda>M. PatternEqualASTHelper T x y (Some (Inr (True, M)))) (\<lambda>m. looks_like m x y)"
  using assms
proof (induction "size_option size x" arbitrary: x y rule: less_induct)
  case less
  show ?case
  proof (cases "x = None \<or> y = None")
    case True
    moreover have "\<not> IsWildcard p" if "x = None" "y = Some p" for p using less.prems(3) that by (simp add: fits_simps)
    ultimately show ?thesis by (cases x; cases y) (auto simp: no_child_compared looks_like_def intro!: finds_answer)
  next
    case False
    then obtain n p where xy: "x = Some n" "y = Some p" by auto
    then have n: "proper n" and p: "proper p" "all_nodes pattern_node p" and fit: "fits (Some n) (Some p)"
      using less.prems by auto
    have node: "pattern_node p" using iffD1 [OF all_nodes.simps p(2)] by blast
    note run = PatternEqualASTHelper.simps [of T "Some n"]
    show ?thesis
    proof (cases "IsWildcard p")
      case True
      then show ?thesis using match_wildcard [OF n fit p(1) node] xy by simp
    next
      case plain: False
      obtain e where e: "EqualNodes (Some n) (Some p) = Inr e" "e \<Longrightarrow> erase_shape (shape_of n) = erase_shape (shape_of p)"
        using EqualNodes_erase [OF n p(1)] by blast
      show ?thesis
      proof (cases e)
        case False
        then show ?thesis using xy plain e(1) by (simp add: run finds_answer)
      next
        case True
        then have sh: "erase_shape (shape_of n) = erase_shape (shape_of p)" by (rule e(2))
        let ?walk = "dual_ast_walk (PatternEqualASTHelper T) PatternEqualASTContinue PatternEqualASTFailcode pattern_undefined n p"
        have "finds T (\<lambda>M. ?walk (Some (Inr (True, M)))) (\<lambda>m. looks_like m (Some n) (Some p))"
        proof (rule match_walk [OF n p(1) node plain sh])
          fix u v assume uv: "(u, v) \<in> set (pairs (links n) (links p))" and w: "walked (shape_of n)"
          note k = pairs_kids [OF uv]
          have wp: "walked (shape_of p)" using w sh erase_shape_keeps(1) by metis
          show "finds T (\<lambda>M. PatternEqualASTHelper T u v (Some (Inr (True, M)))) (\<lambda>m. looks_like m u v)"
          proof (rule less.hyps)
            show "size_option size u < size_option size x" using kid_size [OF k(1)] xy by simp
            show "proper_opt u" by (rule proper_kids(1) [OF n k(1)])
            show "proper q \<and> all_nodes pattern_node q" if "v = Some q" for q
            proof -
              have "q \<in> set (children p)" using k(2) that wp by (force simp: children_def)
              then show ?thesis using children_ok [OF p] by blast
            qed
            show "fits u v" using fit uv w by (auto simp: fits_simps(4) [OF plain])
          qed
        qed
        then show ?thesis using xy plain e(1) True by (simp add: run)
      qed
    qed
  qed
qed

subsection \<open>Filling in\<close>

lemma fill_wildcard:
  assumes "table_holds T m M" "proper p" "pattern_node p" "IsWildcard p"
  shows "\<exists>M'. fill_node (Some T) p M = Some (Inr (instantiate m p, M')) \<and> table_holds T m M'"
proof -
  obtain name where name: "GetNodeName (Some p) = Some name" "GetWildcardName p = Some name" "name_ok name"
    using wildcard_node [OF assms(3,4,2)] by metis
  obtain M1 where M1: "LookupWildcard (Some T) (Some name) M = Some (Inr (m name, M1))" "table_holds T m M1"
    by (rule LookupWildcard_run [OF assms(1) name(3)])
  obtain w s ls where p: "p = Node w s ls" by (cases p)
  have s: "\<forall>t q. s \<noteq> declNode t q" using assms(3,4) p by (auto simp: pattern_node_def)
  have "fill_node (Some T) p M = Some (Inr (instantiate m p, M1))"
  proof (cases "m name")
    case None
    then show ?thesis using M1(1) name p assms(4) by (simp add: IsWildcard_def)
  next
    case (Some v)
    have "(case s of declNode t q \<Rightarrow> f t q | _ \<Rightarrow> g) = g" for f :: "c_string option \<Rightarrow> TypeQual \<Rightarrow> (Matching, ast) loop_prog" and g
      using s by (cases s) auto
    then show ?thesis using Some M1(1) name p assms(4) by (simp add: IsWildcard_def ReplaceAST_def)
  qed
  then show ?thesis using M1(2) by blast
qed

lemma fill_options:
  assumes "table_holds T m M" "\<And>k M. Some k \<in> set xs \<Longrightarrow> table_holds T m M \<Longrightarrow> \<exists>M'. fill_node (Some T) k M = Some (Inr (instantiate m k, M')) \<and> table_holds T m M'"
  shows "\<exists>M'. fill_elements (Some T) xs M = Some (Inr (map (map_option (instantiate m)) xs, M')) \<and> table_holds T m M'"
  using assms
proof (induction xs arbitrary: M)
  case Nil
  then show ?case by simp
next
  case (Cons x xs)
  have "\<exists>M'. fill_option (Some T) x M = Some (Inr (map_option (instantiate m) x, M')) \<and> table_holds T m M'"
  proof (cases x)
    case None
    then show ?thesis using Cons.prems(1) by simp
  next
    case (Some k)
    obtain M' where "fill_node (Some T) k M = Some (Inr (instantiate m k, M'))" "table_holds T m M'"
      using Cons.prems(2) [of k M] Cons.prems(1) Some by auto
    then show ?thesis using Some by simp
  qed
  then obtain M1 where 1: "fill_option (Some T) x M = Some (Inr (map_option (instantiate m) x, M1))" "table_holds T m M1" by blast
  obtain M2 where 2: "fill_elements (Some T) xs M1 = Some (Inr (map (map_option (instantiate m)) xs, M2))" "table_holds T m M2"
    using Cons.IH [OF 1(2)] Cons.prems(2) by auto
  then show ?case using 1 by simp
qed

lemma fill_links_run:
  assumes "table_holds T m M"
    "\<And>k M. Some k \<in> set (concat (map nodes_of ls)) \<Longrightarrow> table_holds T m M \<Longrightarrow> \<exists>M'. fill_node (Some T) k M = Some (Inr (instantiate m k, M')) \<and> table_holds T m M'"
  shows "\<exists>M'. fill_links (Some T) ls M = Some (Inr (map (instantiate_link m) ls, M')) \<and> table_holds T m M'"
  using assms
proof (induction ls arbitrary: M)
  case Nil
  then show ?case by simp
next
  case (Cons l ls)
  have "\<exists>M'. fill_elements (Some T) (nodes_of l) M = Some (Inr (map (map_option (instantiate m)) (nodes_of l), M')) \<and> table_holds T m M'"
    by (rule fill_options [OF Cons.prems(1)]) (use Cons.prems(2) in auto)
  then obtain M1 where 1: "fill_elements (Some T) (nodes_of l) M = Some (Inr (map (map_option (instantiate m)) (nodes_of l), M1))" "table_holds T m M1"
    by blast
  have "fill_link (Some T) l M = Some (Inr (instantiate_link m l, M1))"
  proof (cases l)
    case (One x)
    then show ?thesis using 1(1) by (auto simp: bindL_def split: option.splits sum.splits)
  next
    case (Many xs)
    then show ?thesis using 1(1) by simp
  qed
  moreover obtain M2 where "fill_links (Some T) ls M1 = Some (Inr (map (instantiate_link m) ls, M2))" "table_holds T m M2"
    using Cons.IH [OF 1(2)] Cons.prems(2) by auto
  ultimately show ?case by simp
qed

lemma fill_run:
  assumes "table_holds T m M" "proper p" "all_nodes pattern_node p"
  shows "\<exists>M'. fill_node (Some T) p M = Some (Inr (instantiate m p, M')) \<and> table_holds T m M'"
  using assms
proof (induction "size p" arbitrary: p M rule: less_induct)
  case less
  have node: "pattern_node p" using iffD1 [OF all_nodes.simps less.prems(3)] by blast
  show ?case
  proof (cases "IsWildcard p")
    case True
    then show ?thesis using fill_wildcard [OF less.prems(1,2) node] by blast
  next
    case False
    obtain s ls where p: "p = Node NonWildcard s ls" using False by (cases p) (auto simp: IsWildcard_def)
    have s: "s \<noteq> constructorNode" "s \<noteq> builtinvaargNode" using node False p by (simp_all add: pattern_node_def recognized_def)
    show ?thesis
    proof (cases "walked s")
      case True
      have "\<exists>M'. fill_links (Some T) ls M = Some (Inr (map (instantiate_link m) ls, M')) \<and> table_holds T m M'"
      proof (rule fill_links_run [OF less.prems(1)])
        fix k M assume k: "Some k \<in> set (concat (map nodes_of ls))" and M: "table_holds T m M"
        then have kc: "k \<in> set (children p)" using True p by (force simp: children_def kids_def)
        show "\<exists>M'. fill_node (Some T) k M = Some (Inr (instantiate m k, M')) \<and> table_holds T m M'"
          by (rule less.hyps [OF child_smaller [OF kc] M children_ok [OF less.prems(2,3) kc]])
      qed
      then show ?thesis using p s True by auto
    next
      case False
      then show ?thesis using p s less.prems(1) by simp
    qed
  qed
qed

end
