(* ===== verification/Cc_Pattern_Instances.thy ===== *)
theory Cc_Pattern_Instances
  imports Cc_Pattern_Properties
begin

section \<open>Every instance of a pattern matches\<close>

text \<open>The other direction: where a tree looks like an instance of the pattern, the match answers true.\<close>

subsection \<open>The instance\<close>

definition agrees :: "bindings \<Rightarrow> bindings \<Rightarrow> bool" where
  "agrees m \<sigma> \<longleftrightarrow> (\<forall>name v. m name = Some v \<longrightarrow> (\<exists>v'. \<sigma> name = Some v' \<and> erase v = erase v'))"

lemma agrees_bind:
  assumes "agrees m \<sigma>" "\<sigma> name = Some v'" "erase v = erase v'"
  shows "agrees (m(name \<mapsto> v)) \<sigma>"
  using assms by (auto simp: agrees_def)

lemma agreesD:
  assumes "agrees m \<sigma>" "m name = Some w" "\<sigma> name = Some v"
  shows "erase w = erase v"
proof -
  obtain v' where "\<sigma> name = Some v'" "erase w = erase v'" using assms(1,2) unfolding agrees_def by blast
  then show ?thesis using assms(3) by simp
qed

lemma instantiate_plain:
  assumes "\<not> IsWildcard p"
  shows "shape_of (instantiate \<sigma> p) = shape_of p"
    "links (instantiate \<sigma> p) = (if walked (shape_of p) then map (instantiate_link \<sigma>) (links p) else links p)"
  using assms by (cases p; simp add: IsWildcard_def)+

text \<open>The type of a constant is not a wildcard.\<close>

lemma constant_type:
  assumes "proper p" "all_nodes pattern_node p" "shape_of p = ConstNode v"
  obtains t where "links p = [One (Some t)]" "\<not> IsWildcard t" "\<forall>x. shape_of t \<noteq> ConstNode x"
proof -
  have "constant_fits (ConstNode v) (links p)" using assms(1,3) by (cases p) simp
  then obtain t where t: "links p = [One (Some t)]" "(\<exists>q b. shape_of t = primNode q b) \<or> (\<exists>q. shape_of t = adclNode q)"
    by (auto elim: constant_cases)
  then have "t \<in> set (children p)" using assms(3) by (simp add: children_def kids_def walked_def)
  then have "pattern_node t" using children_ok(2) [OF assms(1,2)] all_nodes.simps [of pattern_node t] by blast
  then show ?thesis using that t by (auto simp: pattern_node_def split: if_splits)
qed

lemma proper_instantiate:
  assumes "proper p" "all_nodes pattern_node p" "bindings_ok \<sigma>"
  shows "proper (instantiate \<sigma> p)"
  using assms(1,2)
proof (induction "size p" arbitrary: p rule: less_induct)
  case less
  obtain w s ls where p: "p = Node w s ls" by (cases p)
  show ?case
  proof (cases "w = NonWildcard")
    case False
    have "proper (wTyp_update NonWildcard v)" if "\<sigma> name = Some v" for name v
    proof -
      have "proper v" using assms(3) that by (auto simp: bindings_ok_def)
      then show ?thesis by (cases v) (simp add: wTyp_update_def)
    qed
    then show ?thesis using less.prems(1) p False by (auto split: option.split)
  next
    case True
    show ?thesis
    proof (cases "walked s")
      case False
      then show ?thesis using less.prems(1) p True by simp
    next
      case w: True
      have kinds: "kind_of_link (instantiate_link \<sigma> l) = kind_of_link l" for l by (cases l) simp_all
      have "proper_link (instantiate_link \<sigma> l)" if l: "l \<in> set ls" for l
      proof -
        have kid: "proper (instantiate \<sigma> k)" if "Some k \<in> set (nodes_of l)" for k
        proof -
          have k: "k \<in> set (children p)" using link_child [of p l k] l that p w by simp
          show ?thesis by (rule less.hyps [OF child_smaller [OF k] children_ok [OF less.prems k]])
        qed
        have "proper_link l" using less.prems(1) p l by simp
        then show ?thesis using kid by (cases l) (auto split: option.splits)
      qed
      moreover have "constant_fits s (map (instantiate_link \<sigma>) ls)"
      proof (cases "\<exists>v. s = ConstNode v")
        case True
        then obtain v where v: "shape_of p = ConstNode v" using p by auto
        obtain t where t: "links p = [One (Some t)]" "\<not> IsWildcard t" using constant_type [OF less.prems v] by blast
        then have "shape_of (instantiate \<sigma> t) = shape_of t" by (simp add: instantiate_plain(1))
        then show ?thesis using less.prems(1) t p v by (simp add: constant_fits_def)
      next
        case False
        then show ?thesis by (cases s) (simp_all add: constant_fits_def)
      qed
      ultimately show ?thesis using less.prems(1) p True w kinds by (simp add: comp_def)
    qed
  qed
qed

lemma EqualNodes_instance:
  assumes "proper p" "all_nodes pattern_node p" "\<not> IsWildcard p"
  shows "EqualNodes x (Some p) = EqualNodes x (Some (instantiate \<sigma> p))"
proof (cases "\<exists>v. shape_of p = ConstNode v")
  case True
  then obtain v where v: "shape_of p = ConstNode v" by blast
  obtain t where t: "links p = [One (Some t)]" "\<not> IsWildcard t" using constant_type [OF assms(1,2) v] by blast
  then have "type_link p = Some t" "type_link (instantiate \<sigma> p) = Some (instantiate \<sigma> t)" "shape_of (instantiate \<sigma> t) = shape_of t"
    using instantiate_plain [OF assms(3)] instantiate_plain [OF t(2)] v by (simp_all add: type_link_def walked_def)
  then show ?thesis
    using instantiate_plain(1) [OF assms(3), of \<sigma>] v
    by (auto simp: EqualNodes_def EqualTypeNodes_def EqualConst_def split: option.split shape.split)
next
  case False
  then show ?thesis using instantiate_plain(1) [OF assms(3), of \<sigma>]
    by (auto simp: EqualNodes_def EqualTypeNodes_def split: option.split shape.split)
qed

subsection \<open>The walk\<close>

text \<open>From every good state whose bindings agree with \<open>\<sigma>\<close>, \<open>run\<close> answers true and ends in such a state.\<close>

definition good :: "WildcardTable \<Rightarrow> bindings \<Rightarrow> Matching \<Rightarrow> bool" where
  "good T \<sigma> M \<longleftrightarrow> (\<exists>m. state_ok T m M \<and> agrees m \<sigma>)"

definition goes :: "WildcardTable \<Rightarrow> bindings \<Rightarrow> (pattern_answer \<Rightarrow> pattern_answer) \<Rightarrow> bool" where
  "goes T \<sigma> f \<longleftrightarrow> (\<forall>M. good T \<sigma> M \<longrightarrow> (\<exists>M'. f (Some (Inr (True, M))) = Some (Inr (True, M')) \<and> good T \<sigma> M'))"

lemma goes_both: "goes T \<sigma> f \<Longrightarrow> goes T \<sigma> g \<Longrightarrow> goes T \<sigma> (\<lambda>a. g (f a))"
  unfolding goes_def by metis

lemma goes_same: "goes T \<sigma> (\<lambda>a. a)"
  by (simp add: goes_def)

lemma goes_cong: "goes T \<sigma> f \<Longrightarrow> (\<And>M. g (Some (Inr (True, M))) = f (Some (Inr (True, M)))) \<Longrightarrow> goes T \<sigma> g"
  by (simp add: goes_def)

lemma goes_list:
  assumes "list_all2 (\<lambda>x y. goes T \<sigma> (code x y)) l1 l2" "None \<notin> set l1" "None \<notin> set l2"
  shows "goes T \<sigma> (dual_list_walk code PatternEqualASTContinue PatternEqualASTFailcode l1 l2)"
proof -
  have loop: "goes T \<sigma> (dual_list_loop code PatternEqualASTContinue PatternEqualASTFailcode l1 l2)"
    using assms
  proof (induction l1 l2 rule: list_all2_induct)
    case Nil
    then show ?case by (simp add: goes_def)
  next
    case (Cons x xs y ys)
    have ne: "x \<noteq> None" "y \<noteq> None" using Cons.prems by (metis list.set_intros(1))+
    have "goes T \<sigma> (\<lambda>a. dual_list_loop code PatternEqualASTContinue PatternEqualASTFailcode xs ys (code x y a))"
      by (rule goes_both [where f = "code x y"]) (use Cons in auto)
    then show ?case by (rule goes_cong) (simp add: ne)
  qed
  have "(l1 = []) = (l2 = [])" using assms(1) by (auto dest: list_all2_lengthD)
  then show ?thesis by (intro goes_cong [OF loop]) (simp add: dual_list_walk_def)
qed

lemma goes_links:
  assumes "list_all2 (link_rel (\<lambda>x y. goes T \<sigma> (code x y))) l1 l2" "length l1 \<le> length gs"
    and "\<And>xs. Many xs \<in> set l1 \<union> set l2 \<Longrightarrow> None \<notin> set xs"
  shows "goes T \<sigma> (dual_links code PatternEqualASTContinue PatternEqualASTFailcode undef gs l1 l2)"
  using assms
proof (induction l1 l2 arbitrary: gs rule: list_all2_induct)
  case Nil
  then show ?case by (simp add: goes_def)
next
  case (Cons l ls r rs)
  obtain g gs' where gs: "gs = g # gs'" "length ls \<le> length gs'" using Cons.prems(1) by (cases gs) auto
  have IH: "goes T \<sigma> (dual_links code PatternEqualASTContinue PatternEqualASTFailcode undef gs' ls rs)"
    by (rule Cons.IH [OF gs(2)]) (use Cons.prems(2) in auto)
  show ?case
  proof (cases l)
    case (One x)
    then obtain y where y: "r = One y" "goes T \<sigma> (code x y)" using Cons.hyps(1) by (cases r) auto
    show ?thesis by (rule goes_cong [OF goes_both [OF y(2) IH]]) (simp add: One y gs)
  next
    case (Many xs)
    then obtain ys where y: "r = Many ys" "list_all2 (\<lambda>x y. goes T \<sigma> (code x y)) xs ys" using Cons.hyps(1) by (cases r) auto
    have "None \<notin> set xs" "None \<notin> set ys" using Cons.prems(2) Many y(1) by auto
    note walk = goes_list [OF y(2) this]
    show ?thesis by (rule goes_cong [OF goes_both [OF walk IH]]) (simp add: Many y gs)
  qed
qed

lemma match_instance_wildcard:
  assumes tree: "proper n" and p: "proper p" "pattern_node p" "IsWildcard p"
    and s: "bindings_ok \<sigma>" "bound_node \<sigma> p" "erase n = erase (instantiate \<sigma> p)"
  shows "goes T \<sigma> (PatternEqualASTHelper T (Some n) (Some p))"
  unfolding goes_def
proof (intro allI impI)
  fix M assume "good T \<sigma> M"
  then obtain m where m: "state_ok T m M" "agrees m \<sigma>" unfolding good_def by blast
  obtain name where name: "GetNodeName (Some p) = Some name" "GetWildcardName p = Some name" "name_ok name"
    using wildcard_node [OF p(2,3,1)] by metis
  obtain v where v: "\<sigma> name = Some v" using s(2) p(3) name(1) by (auto simp: bound_node_def)
  have nv: "erase n = erase v" using s(3) v name(1) p(3) by (cases p) (simp add: IsWildcard_def)
  have holds: "table_holds T m M" using m(1) by (simp add: state_ok_def)
  obtain M1 where M1: "LookupWildcard (Some T) (Some name) M = Some (Inr (m name, M1))" "table_holds T m M1"
    by (rule LookupWildcard_run [OF holds name(3)])
  have ok1: "state_ok T m M1" using m(1) M1(2) by (simp add: state_ok_def)
  note run = PatternEqualASTHelper.simps [of T "Some n" "Some p"]
  let ?run = "PatternEqualASTHelper T (Some n) (Some p) (Some (Inr (True, M)))"
  have answered: "\<exists>M'. ?run = Some (Inr (True, M')) \<and> good T \<sigma> M'" if "?run = Some (Inr (True, M'))" "state_ok T m' M'" "agrees m' \<sigma>" for m' M'
    using that unfolding good_def by blast
  show "\<exists>M'. ?run = Some (Inr (True, M')) \<and> good T \<sigma> M'"
  proof (cases "WildcardTypeFromName (Some name) = WildcardD")
    case D: True
    obtain t where t: "v = MakeId (Some t)" using s(1) v D by (auto simp: bindings_ok_def)
    have sh: "shape_of n = idNode (Some t)"
    proof -
      have "erase_shape (shape_of n) = idNode (Some t)"
        using nv t erase_sel [of n] by (simp add: MakeId_def erase_shape_def)
      then show ?thesis by (cases "shape_of n") (simp_all add: erase_shape_def)
    qed
    then have n: "GetNodeName (Some n) = Some t" by (simp add: GetNodeName_def)
    have walk: "dual_ast_walk c cont f u n q a = a" for c cont f u q and a :: pattern_answer
      using sh by (simp add: dual_ast_walk_def link_kinds_def)
    show ?thesis
    proof (cases "m name")
      case None
      obtain M2 where M2: "InsertWildcard (Some T) (Some name) (Some v) M1 = Some (Inr ((), M2))"
        "table_holds T (m(name \<mapsto> v)) M2" by (rule InsertWildcard_run [OF M1(2) name(3) None])
      have "proper v" using s(1) v by (auto simp: bindings_ok_def)
      then have "state_ok T (m(name \<mapsto> v)) M2" using bind_more(1) [OF ok1 M2(2) None] t by blast
      moreover have "agrees (m(name \<mapsto> v)) \<sigma>" by (rule agrees_bind [where v' = v, OF m(2) v]) simp
      moreover have "?run = Some (Inr (True, M2))"
        using D M1(1) M2(1) p(3) name(2) n None walk t by (simp add: run looked_up_def match_name_def)
      ultimately show ?thesis using answered by blast
    next
      case (Some w)
      obtain u where u: "w = MakeId (Some u)" using m(1) Some D by (auto simp: state_ok_def bindings_ok_def)
      have "erase w = erase v" by (rule agreesD [OF m(2) Some v])
      then have "u = t" using u t by (simp add: MakeId_def erase_shape_def walked_def)
      moreover have "GetNodeName (Some w) = Some u" using u by (simp add: GetNodeName_def MakeId_def)
      ultimately have "?run = Some (Inr (True, M1))"
        using D M1(1) p(3) name(2) n Some walk by (simp add: run looked_up_def match_name_def)
      then show ?thesis using answered ok1 m(2) by blast
    qed
  next
    case other: False
    show ?thesis
    proof (cases "m name")
      case None
      obtain M2 where M2: "InsertWildcard (Some T) (Some name) (Some n) M1 = Some (Inr ((), M2))" "table_holds T (m(name \<mapsto> n)) M2"
        by (rule InsertWildcard_run [OF M1(2) name(3) None])
      have "state_ok T (m(name \<mapsto> n)) M2" using bind_more(1) [OF ok1 M2(2) None tree] other by blast
      moreover have "agrees (m(name \<mapsto> n)) \<sigma>" by (rule agrees_bind [where v' = v, OF m(2) v nv])
      moreover have "?run = Some (Inr (True, M2))"
        using other M1(1) M2(1) p(3) name(2) None by (simp add: run looked_up_def match_tree_def)
      ultimately show ?thesis using answered by blast
    next
      case (Some w)
      have "proper w" using m(1) Some by (auto simp: state_ok_def bindings_ok_def)
      moreover have "erase w = erase v" by (rule agreesD [OF m(2) Some v])
      ultimately have "?run = Some (Inr (True, M1))"
        using other M1(1) p(3) name(2) Some compare_erased [OF tree] nv by (simp add: run looked_up_def match_tree_def)
      then show ?thesis using answered ok1 m(2) by blast
    qed
  qed
qed

lemma match_instance:
  assumes "proper n" "proper p" "all_nodes pattern_node p" "all_nodes (bound_node \<sigma>) p" "bindings_ok \<sigma>" "erase n = erase (instantiate \<sigma> p)"
  shows "goes T \<sigma> (PatternEqualASTHelper T (Some n) (Some p))"
  using assms(1-4,6)
proof (induction "size n" arbitrary: n p rule: less_induct)
  case less
  note p = less.prems(2,3)
  have node: "pattern_node p" "bound_node \<sigma> p" using iffD1 [OF all_nodes.simps p(2)] iffD1 [OF all_nodes.simps less.prems(4)] by blast+
  show ?case
  proof (cases "IsWildcard p")
    case True
    then show ?thesis using match_instance_wildcard [OF less.prems(1) p(1) node(1) _ assms(5) node(2) less.prems(5)] by blast
  next
    case plain: False
    let ?q = "instantiate \<sigma> p"
    have q: "proper ?q" by (rule proper_instantiate [OF p assms(5)])
    have eq: "EqualNodes (Some n) (Some p) = Inr True"
      using EqualNodes_erase [OF less.prems(1) q] less.prems(5) EqualNodes_instance [OF p plain] by metis
    have sh: "erase_shape (shape_of n) = erase_shape (shape_of p)"
      using less.prems(5) instantiate_plain(1) [OF plain] erase_sel by metis
    then have same: "walked (shape_of n) = walked (shape_of p)" "link_kinds (shape_of n) = link_kinds (shape_of p)"
      "node_type (shape_of n) = node_type (shape_of p)" using erase_shape_keeps erase_node_type by metis+
    have kinds: "map kind_of_link (links n) = link_kinds (shape_of n)" "map kind_of_link (links p) = link_kinds (shape_of p)"
      using proper_kids(3) less.prems(1) p(1) by blast+
    have "goes T \<sigma> (dual_ast_walk (PatternEqualASTHelper T) PatternEqualASTContinue PatternEqualASTFailcode pattern_undefined n p)"
    proof (cases "link_kinds (shape_of n) = [] \<or> \<not> walked (shape_of n)")
      case True
      then show ?thesis by (intro goes_cong [OF goes_same]) (use same in \<open>auto simp: dual_ast_walk_def\<close>)
    next
      case False
      have step: "goes T \<sigma> (PatternEqualASTHelper T x v)"
        if xv: "x \<in> set (kids n)" "v \<in> set (kids p)" "map_option erase x = map_option (erase \<circ> instantiate \<sigma>) v" for x v
      proof (cases v)
        case None
        then have "x = None" using xv(3) by simp
        then show ?thesis using None
          by (intro goes_cong [OF goes_same]) (simp add: PatternEqualASTHelper.simps [of T None] EqualNodes_def EqualTypeNodes_def)
      next
        case (Some k)
        then obtain j where j: "x = Some j" "erase j = erase (instantiate \<sigma> k)" using xv(3) by (cases x) auto
        have c: "j \<in> set (children n)" "k \<in> set (children p)"
          using xv(1,2) j Some False same(1) by (force simp: children_def)+
        have "proper j" using proper_kids(1) [OF less.prems(1) xv(1)] j(1) by simp
        then show ?thesis unfolding j(1) Some
          by (intro less.hyps [OF child_smaller [OF c(1)]] children_ok [OF p c(2)] children_ok(2) [OF p(1) less.prems(4) c(2)] j(2))
      qed
      have "map erase_link (links n) = map erase_link (map (instantiate_link \<sigma>) (links p))"
        using less.prems(5) plain False same(1) by (cases n; cases p) (simp add: IsWildcard_def)
      then have "list_all2 (\<lambda>l r. erase_link l = erase_link (instantiate_link \<sigma> r)) (links n) (links p)"
        by (simp add: list_all2_conv_all_nth list_eq_iff_nth_eq)
      then have "list_all2 (link_rel (\<lambda>x y. goes T \<sigma> (PatternEqualASTHelper T x y))) (links n) (links p)"
      proof (rule list.rel_mono_strong)
        fix l r assume lr: "l \<in> set (links n)" "r \<in> set (links p)" "erase_link l = erase_link (instantiate_link \<sigma> r)"
        have st: "goes T \<sigma> (PatternEqualASTHelper T x v)"
          if "x \<in> set (nodes_of l)" "v \<in> set (nodes_of r)" "map_option erase x = map_option (erase \<circ> instantiate \<sigma>) v" for x v
          using step [of x v] that lr(1,2) by (auto simp: kids_def)
        show "link_rel (\<lambda>x y. goes T \<sigma> (PatternEqualASTHelper T x y)) l r"
        proof (cases l)
          case (One x)
          then obtain y where y: "r = One y" using lr(3) by (cases r) auto
          then show ?thesis using One lr(3) st by (simp add: option.map_comp)
        next
          case (Many xs)
          then obtain ys where y: "r = Many ys" using lr(3) by (cases r) auto
          have "map (map_option erase) xs = map (map_option (erase \<circ> instantiate \<sigma>)) ys" using lr(3) Many y by (simp add: option.map_comp comp_def)
          then have "list_all2 (\<lambda>x v. map_option erase x = map_option (erase \<circ> instantiate \<sigma>) v) xs ys"
            by (simp add: list_all2_conv_all_nth list_eq_iff_nth_eq)
          then show ?thesis unfolding Many y link_rel.simps
            by (rule list.rel_mono_strong) (use st Many y in simp)
        qed
      qed
      then have "goes T \<sigma> (dual_links (PatternEqualASTHelper T) PatternEqualASTContinue PatternEqualASTFailcode pattern_undefined (guards (shape_of n)) (links n) (links p))"
      proof (rule goes_links)
        show "length (links n) \<le> length (guards (shape_of n))" using kinds(1) guards_enough by (metis length_map)
        show "None \<notin> set xs" if "Many xs \<in> set (links n) \<union> set (links p)" for xs
          using that proper_kids(2) less.prems(1) p(1) by blast
      qed
      then show ?thesis by (rule goes_cong) (use False same in \<open>simp add: dual_ast_walk_def\<close>)
    qed
    then show ?thesis by (rule goes_cong) (use plain eq in \<open>simp add: PatternEqualASTHelper.simps [of T "Some n"]\<close>)
  qed
qed

end
