(* ===== verification/Cc_Pattern_Theorems.thy ===== *)
theory Cc_Pattern_Theorems
  imports Cc_Pattern_Instances
begin

section \<open>What the pattern matcher promises, and where it does not keep it\<close>


text \<open>
  C27: after a match, filling the pattern in from the table gives a tree equal to the one that was matched. The pattern
  and the tree are as in C26; \<open>missing_child_matches_unbound\<close> is a match, outside of them, that leaves a wildcard.
\<close>

theorem matched_pattern_fills_to_the_tree:
  assumes "table_holds T m M" "bindings_ok m"
    and "proper n" "proper p" "all_nodes pattern_node p" "fits (Some n) (Some p)"
  shows "\<exists>b M' q M''. PatternMatch (Some n) (Some p) (Some T) M = Some (Inr (b, M'))
    \<and> FillWildcardsFromTable (Some p) (Some T) M' = Some (Inr (Some q, M''))
    \<and> (b \<longrightarrow> EqualAST (Some n) (Some q) = Inr True)"
proof -
  have ok: "state_ok T m M" using assms(1,2) by (simp add: state_ok_def)
  have pat: "proper q \<and> all_nodes pattern_node q" if "Some p = Some q" for q using that assms(4,5) by simp
  obtain b m' M' where run: "PatternEqualASTHelper T (Some n) (Some p) (Some (Inr (True, M))) = Some (Inr (b, M'))"
    "state_ok T m' M'" "b \<Longrightarrow> looks_like m' (Some n) (Some p)"
    using findsE [OF match_node [OF _ pat assms(6)] ok] assms(3) by (metis proper_opt_simps(2))
  then have m': "table_holds T m' M'" "bindings_ok m'" by (simp_all add: state_ok_def)
  obtain M'' where fill: "fill_node (Some T) p M' = Some (Inr (instantiate m' p, M''))"
    using fill_run [OF m'(1) assms(4,5)] by blast
  have "EqualAST (Some n) (Some (instantiate m' p)) = Inr True" if b
    using run(3) [OF that] compare_erased [OF assms(3) proper_instantiate [OF assms(4,5) m'(2)]] by (simp add: looks_like_def)
  moreover have "FillWildcardsFromTable (Some p) (Some T) M' = Some (Inr (Some (instantiate m' p), M''))"
    using fill by (simp add: FillWildcardsFromTable_def)
  moreover have "PatternMatch (Some n) (Some p) (Some T) M = Some (Inr (b, M'))" using run(1) by (simp add: PatternMatch_def)
  ultimately show ?thesis by blast
qed

subsection \<open>Examples\<close>

definition ex_tables :: Matching where
  "ex_tables = \<lparr>strings = no_strings, syms = no_symbols blank_symbol []\<rparr>"

lemma ex_tables_ok: "strings_ok (strings ex_tables)" "implements (syms ex_tables) (no_scopes [])"
  by (simp_all add: ex_tables_def no_symbols_implement) (simp add: strings_ok_def no_strings_def interned_def)

text \<open>The pattern \<open>%d + %e\<close> and the tree \<open>x + 1\<close>.\<close>

definition wildcard :: "WildcardType \<Rightarrow> c_string \<Rightarrow> ast" where
  "wildcard w s = Node w (idNode (Some s)) []"

definition ex_pattern :: ast where
  "ex_pattern = Node NonWildcard (binopNode OP_add) [One (Some (wildcard WildcardD [37, 100])), One (Some (wildcard WildcardE [37, 101]))]"

lemma ex_pattern_ok: "proper ex_pattern" "all_nodes pattern_node ex_pattern"
  by (simp_all add: ex_pattern_def wildcard_def link_kinds_def constant_fits_def at_node children_def kids_def walked_def pattern_node_def
      IsWildcard_def name_ok_def recognized_def)

lemma ex_sum_fits: "fits (Some ex_sum) (Some ex_pattern)"
  by (simp add: ex_sum_def ex_pattern_def leaf_def wildcard_def fits_simps IsWildcard_def has_type_name_def
      GetWildcardName_def GetNodeName_def WildcardTypeFromName_def WildcardLetterType_def)

definition ex_bindings :: bindings where
  "ex_bindings = [[37, 100] \<mapsto> MakeId (Some [120]), [37, 101] \<mapsto> Node NonWildcard (ConstNode (Val_i 1)) [One (Some ex_int)]]"

lemma ex_instance: "bindings_ok ex_bindings" "all_nodes (bound_node ex_bindings) ex_pattern" "erase ex_sum = erase (instantiate ex_bindings ex_pattern)"
proof -
  show "bindings_ok ex_bindings"
    by (auto simp: ex_bindings_def bindings_ok_def WildcardTypeFromName_def WildcardLetterType_def MakeId_def ex_int_def leaf_def
        link_kinds_def constant_fits_def split: if_splits)
  show "all_nodes (bound_node ex_bindings) ex_pattern"
    by (simp add: ex_bindings_def ex_pattern_def wildcard_def at_node children_def kids_def walked_def bound_node_def IsWildcard_def GetNodeName_def)
  show "erase ex_sum = erase (instantiate ex_bindings ex_pattern)"
    by (simp add: ex_bindings_def ex_sum_def ex_pattern_def wildcard_def leaf_def walked_def GetNodeName_def MakeId_def wTyp_update_def erase_shape_def)
qed


theorem matched_pattern_fills_to_the_tree_witness:
  "\<exists>T M M' q M''. PatternMatch (Some ex_sum) (Some ex_pattern) (Some T) M = Some (Inr (True, M'))
    \<and> FillWildcardsFromTable (Some ex_pattern) (Some T) M' = Some (Inr (Some q, M'')) \<and> EqualAST (Some ex_sum) (Some q) = Inr True"
proof -
  obtain T M where T: "NewWildcardTable 0 ex_tables = Some (Inr (T, M))" "table_holds T (\<lambda>_. None) M"
    by (rule NewWildcardTable_run [OF ex_tables_ok])
  have none: "bindings_ok (\<lambda>_. None)" by (simp add: bindings_ok_def)
  then have "good T ex_bindings M" using T(2) by (auto simp: good_def state_ok_def agrees_def)
  then obtain M' where M': "PatternMatch (Some ex_sum) (Some ex_pattern) (Some T) M = Some (Inr (True, M'))"
    using match_instance [OF ex_proper(1) ex_pattern_ok ex_instance(2,1,3), of T] by (auto simp: goes_def PatternMatch_def)
  obtain b M1 q M'' where r: "PatternMatch (Some ex_sum) (Some ex_pattern) (Some T) M = Some (Inr (b, M1))"
    "FillWildcardsFromTable (Some ex_pattern) (Some T) M1 = Some (Inr (Some q, M''))" "b \<longrightarrow> EqualAST (Some ex_sum) (Some q) = Inr True"
    using matched_pattern_fills_to_the_tree [OF T(2) none ex_proper(1) ex_pattern_ok ex_sum_fits] by blast
  then have "b" "M1 = M'" using M' by simp_all
  then show ?thesis using r M' by blast
qed

subsection \<open>A mismatch that is forgotten\<close>

text \<open>The pattern \<open>%t (%t, int)\<close> and the type \<open>int (int, float)\<close>.\<close>

definition ex_function :: ast where
  "ex_function = Node NonWildcard (fdclNode EMPTY_TQ) [Many [Some ex_int, Some (leaf (primNode EMPTY_TQ Float))], One (Some ex_int)]"

definition ex_type_wildcard :: ast where
  "ex_type_wildcard = Node WildcardT (tdefNode (Some [37, 116]) EMPTY_TQ) []"

definition ex_function_pattern :: ast where
  "ex_function_pattern = Node NonWildcard (fdclNode EMPTY_TQ) [Many [Some ex_type_wildcard, Some ex_int], One (Some ex_type_wildcard)]"

text \<open>A missing child matches every wildcard \<open>%e\<close>, and is not bound: \<open>return;\<close> matches \<open>return %e;\<close>, which then cannot be filled in.\<close>

definition ex_return :: "ast option \<Rightarrow> ast" where
  "ex_return x = Node NonWildcard ReturnNode [One x]"

definition ex_return_pattern :: ast where
  "ex_return_pattern = ex_return (Some (wildcard WildcardE [37, 101]))"

lemma ex_names: "name_ok [37, 116]" "name_ok [37, 101]" "WildcardTypeFromName (Some [37, 116]) = WildcardT" "WildcardTypeFromName (Some [37, 101]) = WildcardE"
  by (simp_all add: name_ok_def WildcardTypeFromName_def WildcardLetterType_def)

lemma ex_types: "proper ex_int" "proper (leaf (primNode EMPTY_TQ Float))" "\<not> IsWildcard ex_int"
  "erase ex_int \<noteq> erase (leaf (primNode EMPTY_TQ Float))"
  by (simp_all add: ex_int_def leaf_def link_kinds_def constant_fits_def IsWildcard_def erase_shape_def plain_def)

text \<open>
  C29: the walk of a function declarator does not ask whether to go on before it matches the result type, and a
  wildcard that is bound overwrites the answer: the pattern \<open>%t (%t, int)\<close> matches the type \<open>int (int, float)\<close>, which is
  no instance of it.
\<close>

theorem pattern_mismatch_is_forgotten:
  "(\<exists>M'. PatternEqualsAST (Some ex_function) (Some ex_function_pattern) ex_tables = Some (Inr (True, M')))
   \<and> (\<forall>\<sigma>. erase ex_function \<noteq> erase (instantiate \<sigma> ex_function_pattern))"
proof (intro conjI allI)
  obtain T M where T: "NewWildcardTable 0 ex_tables = Some (Inr (T, M))" "table_holds T (\<lambda>_. None) M"
    by (rule NewWildcardTable_run [OF ex_tables_ok])
  let ?w = "Some ex_type_wildcard" and ?m = "[[37, 116] \<mapsto> ex_int]"
  note run = PatternEqualASTHelper.simps [of T "Some _" "Some _"]
  have w: "IsWildcard ex_type_wildcard" "GetWildcardName ex_type_wildcard = Some [37, 116]"
    by (simp_all add: ex_type_wildcard_def IsWildcard_def GetWildcardName_def GetNodeName_def)
  obtain M1 where M1: "LookupWildcard (Some T) (Some [37, 116]) M = Some (Inr (None, M1))" "table_holds T (\<lambda>_. None) M1"
    by (rule LookupWildcard_run [OF T(2) ex_names(1)])
  obtain M2 where M2: "InsertWildcard (Some T) (Some [37, 116]) (Some ex_int) M1 = Some (Inr ((), M2))" "table_holds T ?m M2"
    using InsertWildcard_run [OF M1(2) ex_names(1) refl] by blast
  have 1: "PatternEqualASTHelper T (Some ex_int) ?w (Some (Inr (True, M))) = Some (Inr (True, M2))"
    using w ex_names M1(1) M2(1) by (simp add: run looked_up_def match_tree_def)
  have "EqualNodes (Some (leaf (primNode EMPTY_TQ Float))) (Some ex_int) = Inr False"
    by (simp add: EqualNodes_def EqualTypeNodes_def leaf_def ex_int_def equal_fields_def EqualPrim_def)
  then have 2: "PatternEqualASTHelper T (Some (leaf (primNode EMPTY_TQ Float))) (Some ex_int) (Some (Inr (True, M2))) = Some (Inr (False, M2))"
    using ex_types(3) by (simp add: run)
  obtain M3 where M3: "LookupWildcard (Some T) (Some [37, 116]) M2 = Some (Inr (Some ex_int, M3))" "table_holds T ?m M3"
    using LookupWildcard_run [OF M2(2) ex_names(1)] by auto
  have 3: "PatternEqualASTHelper T (Some ex_int) ?w (Some (Inr (False, M2))) = Some (Inr (True, M3))"
    using w ex_names M3(1) compare_erased [OF ex_types(1,1)] by (simp add: run looked_up_def match_tree_def)
  have "EqualNodes (Some ex_function) (Some ex_function_pattern) = Inr True"
    by (simp add: EqualNodes_def EqualTypeNodes_def ex_function_def ex_function_pattern_def equal_fields_def tq_equal_def)
  moreover have "\<not> IsWildcard ex_function_pattern" by (simp add: ex_function_pattern_def IsWildcard_def)
  moreover have "dual_ast_walk (PatternEqualASTHelper T) PatternEqualASTContinue PatternEqualASTFailcode pattern_undefined
      ex_function ex_function_pattern (Some (Inr (True, M))) = Some (Inr (True, M3))"
    using 1 2 3 by (simp add: dual_ast_walk_def ex_function_def ex_function_pattern_def link_kinds_def walked_def guards_def dual_list_walk_def)
  ultimately have "PatternEqualASTHelper T (Some ex_function) (Some ex_function_pattern) (Some (Inr (True, M))) = Some (Inr (True, M3))"
    by (simp add: run)
  then show "\<exists>M'. PatternEqualsAST (Some ex_function) (Some ex_function_pattern) ex_tables = Some (Inr (True, M'))"
    using T(1) by (simp add: PatternEqualsAST_def)
  show "erase ex_function \<noteq> erase (instantiate \<sigma> ex_function_pattern)" for \<sigma>
    using ex_types(4) by (simp add: ex_function_def ex_function_pattern_def walked_def ex_int_def leaf_def)
qed

theorem missing_child_matches_unbound:
  "\<exists>M M' T. PatternMatch (Some (ex_return None)) (Some ex_return_pattern) (Some T) M = Some (Inr (True, M'))
    \<and> (\<exists>M''. FillWildcardsFromTable (Some ex_return_pattern) (Some T) M' = Some (Inr (Some ex_return_pattern, M'')))"
proof -
  obtain T M where T: "NewWildcardTable 0 ex_tables = Some (Inr (T, M))" "table_holds T (\<lambda>_. None) M"
    by (rule NewWildcardTable_run [OF ex_tables_ok])
  let ?w = "wildcard WildcardE [37, 101]"
  have w: "IsWildcard ?w" "GetWildcardName ?w = Some [37, 101]"
    by (simp_all add: wildcard_def IsWildcard_def GetWildcardName_def GetNodeName_def)
  obtain M1 where M1: "LookupWildcard (Some T) (Some [37, 101]) M = Some (Inr (None, M1))" "table_holds T (\<lambda>_. None) M1"
    by (rule LookupWildcard_run [OF T(2) ex_names(2)])
  have 1: "PatternEqualASTHelper T None (Some ?w) (Some (Inr (True, M))) = Some (Inr (True, M1))"
    using w ex_names M1(1) by (simp add: PatternEqualASTHelper.simps [of T None] looked_up_def match_tree_def InsertWildcard_def)
  have "EqualNodes (Some (ex_return None)) (Some ex_return_pattern) = Inr True"
    by (simp add: EqualNodes_def EqualTypeNodes_def ex_return_pattern_def ex_return_def equal_fields_def)
  moreover have "\<not> IsWildcard ex_return_pattern" by (simp add: ex_return_pattern_def ex_return_def IsWildcard_def)
  moreover have "dual_ast_walk (PatternEqualASTHelper T) PatternEqualASTContinue PatternEqualASTFailcode pattern_undefined
      (ex_return None) ex_return_pattern (Some (Inr (True, M))) = Some (Inr (True, M1))"
    using 1 by (simp add: dual_ast_walk_def ex_return_pattern_def ex_return_def link_kinds_def walked_def guards_def)
  ultimately have "PatternMatch (Some (ex_return None)) (Some ex_return_pattern) (Some T) M = Some (Inr (True, M1))"
    by (simp add: PatternMatch_def PatternEqualASTHelper.simps [of T "Some _" "Some _"])
  moreover have pat: "proper ex_return_pattern" "all_nodes pattern_node ex_return_pattern"
    by (simp_all add: ex_return_pattern_def ex_return_def wildcard_def link_kinds_def constant_fits_def at_node children_def kids_def walked_def
        pattern_node_def IsWildcard_def name_ok_def recognized_def)
  moreover have "instantiate (\<lambda>_. None) ex_return_pattern = ex_return_pattern"
    by (simp add: ex_return_pattern_def ex_return_def wildcard_def walked_def GetNodeName_def)
  moreover obtain M2 where "fill_node (Some T) ex_return_pattern M1 = Some (Inr (instantiate (\<lambda>_. None) ex_return_pattern, M2))"
    using fill_run [OF M1(2) pat] by blast
  ultimately have "FillWildcardsFromTable (Some ex_return_pattern) (Some T) M1 = Some (Inr (Some ex_return_pattern, M2))"
    by (simp add: FillWildcardsFromTable_def)
  then show ?thesis
    using \<open>PatternMatch (Some (ex_return None)) (Some ex_return_pattern) (Some T) M = Some (Inr (True, M1))\<close> by blast
qed

end
