(* ===== verification/Spec2Isabelle.thy ===== *)
theory Spec2Isabelle
  imports Cmdline Rts_Properties Rts_Schedule Im_Properties Cc_Operators Cc_List_Properties Cc_Typequal_Laws Cc_Folding_Properties Cc_Scopes_Properties Cc_Pattern_Theorems
begin

text \<open>
  This library models the Cilk system: the runtime system under \<open>src/runtime\<close>, which schedules Cilk
  programs by work stealing, and the data structures and the semantic check of the translator \<open>cilk2c\<close>
  under \<open>src/cilk2c\<close>, which turns Cilk into C.

  \<^bold>\<open>The runtime system.\<close> The compiled program keeps its frames on the stack of a worker and calls the
  scheduler when something unusual happens: at a sync with outstanding children, when a frame it
  returns to was stolen, when an abort was signalled. The scheduler keeps closures, one for each
  stolen frame, in ready deques, one per worker.

  \<^item> \<open>Rts_Prelude\<close>: programs with a state and errors, and their weakest preconditions.
  \<^item> \<open>Rts_State\<close>: the records of \<open>cilk.h\<close> and \<open>cilk-internal.h\<close>; a heap of closures, the workers' caches
    of head, tail and exception pointer, the deques; failed assertions and dangling pointers are
    errors.
  \<^item> \<open>Rts_Deque\<close>: the deque operations of \<open>sched.c\<close>, their locks, and the laws that they implement lists;
    the locale \<open>ready\<close> of a deque used as a stack by its owner and as a queue by thieves, interpreted by
    the operations.
  \<^item> \<open>Rts_Closure\<close>: creation of closures, children and inlets, exceptions, the recursive abort, whose
    fuel is the number of closures ever created.
  \<^item> \<open>Rts_Sched\<close>: the protocols: steal, return, suspend, sync, the exception handler, abort, the
    scheduler loop, the start and the exit of the program.
  \<^item> \<open>Rts_Poll\<close>, \<open>Rts_Invariant\<close>, \<open>Rts_Handlers\<close>, \<open>Rts_Steal\<close>, \<open>Rts_Return\<close>, \<open>Rts_Exception\<close>, \<open>Rts_Entry\<close>, \<open>Rts_Start\<close>,
    \<open>Rts_Frame\<close>: the invariant (the
    deques hold lists, the closures a tree with right join counters, each closure is where its status
    says) and the laws that the handlers keep it, fail no assertion and give back all locks.
  \<^item> \<open>Rts_System\<close>, \<open>Rts_Schedule\<close>: the workers as a state machine whose steps are calls of the handlers, work of
    the compiled code on its frames, and the steps of the scheduler loop; the theorems on all reachable
    states (no call fails, one worker per closure, no work is lost). That no work is lost means that as long as
    there is a closure some worker runs one or can get hold of one by itself and, if the frames are right,
    start or return it; that every closure comes to its turn is not claimed.
  \<^item> \<open>Rts_Examples\<close>, \<open>Rts_Properties\<close>: a running example and the theorems.
  \<^item> \<open>Internal_Malloc\<close>, \<open>Im_Shape\<close>, \<open>Im_Laws\<close>, \<open>Im_Run\<close>, \<open>Im_Properties\<close>: the allocator \<open>internal-malloc.c\<close>, its
    free lists threaded through memory, the step relation of its calls and its invariant. The C
    library's malloc is a parameter that promises fresh memory or answers null; three rounds of fuel are enough for
    the loop of the global pool.
  \<^item> \<open>Cmdline\<close>: the command line, \<open>cmdline.c\<close>.

  \<^bold>\<open>The translator.\<close> The parser builds a tree of nodes, which the semantic check decorates with types and
  constants before the Cilk constructs are transformed.

  \<^item> \<open>Cc_Prelude\<close>: failures of the translator and loops that may not return.
  \<^item> \<open>Cc_List\<close>, \<open>Cc_List_Laws\<close>, \<open>Cc_List_Properties\<close>: the linked lists and iterators of \<open>list.c\<close> on a heap of
    cells, with aliasing.
  \<^item> \<open>Cc_Operators\<close>: the operator table, \<open>operators.c\<close>.
  \<^item> \<open>Cc_Typequal\<close>, \<open>Cc_Typequal_Laws\<close>: the type qualifiers, \<open>typequal.c\<close>.
  \<^item> \<open>Cc_Ast\<close>: expressions, types and declarations (\<open>ast.h\<close>, \<open>ast.c\<close>, \<open>type2.c\<close>) as trees; what the source
    shares and updates (array dimensions, struct and union types, attribute lists) has an address in
    the state \<open>cc\<close>.
  \<^item> \<open>Cc_Type\<close>, \<open>Cc_TypeEqual\<close>: predicates, sizes, equality and merging of types (\<open>type.c\<close>).
  \<^item> \<open>Cc_Constexpr\<close>, \<open>Cc_Conversions\<close>: \<open>constexpr.c\<close> and \<open>conversions.c\<close>.
  \<^item> \<open>Cc_Arith\<close>, \<open>Cc_Check\<close>: the semantic check of expressions, types and declarations (\<open>sem-check.c\<close>); the
    recursion over the tree has fuel, and a tree of depth \<open>n\<close> needs \<open>n\<close>.
  \<^item> \<open>Cc_Folding\<close>, \<open>Cc_Folding_Laws\<close>, \<open>Cc_Folding_Properties\<close>: a reference evaluator of integer constant
    expressions, with which the folding by the check is compared. The theorems leave out the conditions of
    \<open>?:\<close> that the check tests wrongly (\<open>usual_conditions\<close>: no unary plus, no long that is a multiple of 2 to the
    32 but not zero), and expressions with operands that C does not evaluate and that have no value.

  \<^item> \<open>Cc_Strings\<close>: the table of unique strings, \<open>strings.c\<close>.
  \<^item> \<open>Cc_Symbol\<close>: the symbol tables, \<open>symbol.c\<close>, on a heap of symbols with its free list; \<open>Cc_Symbol_Laws\<close>,
    \<open>Cc_Symbol_Rep\<close>, \<open>Cc_Symbol_Run\<close>, \<open>Cc_Symbol_Insert\<close>: the chains as lists, the invariant and the laws of the
    operations; \<open>Cc_Simulation\<close>: the interface between a module and the specification it implements, as a
    locale; \<open>Cc_Scopes\<close>, \<open>Cc_Scopes_Properties\<close>: the specification of nested scopes, the locale's
    interpretation for the symbol tables, and where the 16 bits of a version break it.
  \<^item> \<open>Cc_Trees\<close>: the trees as the matching of the later passes sees them (\<open>ast.h\<close>: the fields of each kind of node and
    its links to children and lists of children) and the two walks of \<open>astModify.h\<close>.
  \<^item> \<open>Cc_Equals\<close>, \<open>Cc_Equals_Laws\<close>, \<open>Cc_Equals_Properties\<close>: the comparison of trees and the searches for
    subtrees, \<open>astEquals.c\<close>; on trees of proper shape the comparison is equality of erased trees; where there is no
    constructor expression and no \<open>va_arg\<close> the search gives the outermost matches, and \<open>ContainsAST\<close> says whether
    there is one as long as no \<open>NULL\<close> list makes it forget its answer.
  \<^item> \<open>Cc_Patterns\<close>, \<open>Cc_Wildcard_Laws\<close>, \<open>Cc_Pattern_Laws\<close>, \<open>Cc_Pattern_Walks\<close>, \<open>Cc_Pattern_Properties\<close>,
    \<open>Cc_Pattern_Instances\<close>, \<open>Cc_Pattern_Theorems\<close>: the table of wildcards (\<open>wildcardTable.c\<close>, on the symbol tables and the
    unique strings), the match of a tree with a pattern and the filling in of patterns (\<open>astModify.c\<close>). For patterns
    whose wildcards are identifiers and type names, without constructor expressions and \<open>va_arg\<close> and without a
    wildcard in the result type of a function (\<open>pattern_node\<close>), and trees that \<open>fits\<close> them (no missing child opposite
    a wildcard, no declaration or type name opposite a \<open>%d\<close>), a tree matches exactly the patterns it is an instance
    of, and a filled-in pattern equals the tree that was matched. Declarations as wildcards are modelled, but no
    theorem is about them; two theorems show matches outside these conditions that are wrong.

  \<^bold>\<open>Bounds.\<close> Constants keep the width of the target (32 and 64 bits, \<open>config.h\<close>); a signed overflow of the
  host, a division by zero and a shift beyond the width are failures. Host floating point is a
  parameter of the state. Counters of the runtime system and of its allocator are unbounded; the
  versions of scopes have their 16 bits. The
  handlers of the scheduler are atomic, as they hold the locks of what they change.

  \<^bold>\<open>Not modelled.\<close> Of the runtime system: the mutex, barrier and timing primitives, printing, the dump of
  the state, the creation of threads. Of the translator: the parser (\<open>c4.l\<close> and \<open>ANSI-C.y\<close>, in generated
  form), printing, the check of statements and procedures, initialiser lists, the replacement of subtrees in
  place and the parsing of pattern strings, the data-flow analysis and the transformation proper.
\<close>

end
